(* ===== verification/Prelude.thy ===== *)
theory Prelude
  imports Main "HOL-Library.Word" "HOL-Library.Monad_Syntax"
begin

text \<open>
  Shared vocabulary of the development: fixed-width integers and byte strings, the arithmetic of
  the C type \<open>size_t\<close>, little- and big-endian byte codecs (what \<open>memcpy\<close>, \<open>htons\<close> and
  \<open>be64toh\<close> do on a little-endian host), memory blocks with checked access, the C allocator, and
  the locales that the components interpret: element codecs, runs of operations that keep an invariant,
  and bounded queues.
\<close>

unbundle bit_operations_syntax

section \<open>Types\<close>

type_synonym u8 = "8 word"
type_synonym u16 = "16 word"
type_synonym u32 = "32 word"
type_synonym u64 = "64 word"
type_synonym bytes = "u8 list"

text \<open>
  Facts that unfold the memory primitives, facts that turn word arithmetic into arithmetic on
  natural numbers, and facts that say an operation keeps a well-formedness invariant.
\<close>

named_theorems mem_simps
named_theorems wf_intros

section \<open>The C type size_t\<close>

text \<open>\<open>size_t\<close> is 64 bits wide; its additions and subtractions wrap around.\<close>

definition size_add :: "nat \<Rightarrow> nat \<Rightarrow> nat" where
  "size_add a b = (a + b) mod 2 ^ 64"

definition size_sub :: "nat \<Rightarrow> nat \<Rightarrow> nat" where
  "size_sub a b = (a + (2 ^ 64 - b mod 2 ^ 64)) mod 2 ^ 64"

lemma size_add_small [simp]: "a + b < 2 ^ 64 \<Longrightarrow> size_add a b = a + b"
  by (simp add: size_add_def)

lemma size_add_bound: "size_add a b < 2 ^ 64"
  by (simp add: size_add_def)

lemma size_sub_small [simp]:
  assumes "b \<le> a" and "a < 2 ^ 64"
  shows "size_sub a b = a - b"
proof -
  have "b mod 2 ^ 64 = b" using assms by simp
  moreover have "a + (2 ^ 64 - b) = (a - b) + 2 ^ 64" using assms by simp
  moreover have "((a - b) + 2 ^ 64) mod 2 ^ 64 = a - b"
    using assms by (simp only: mod_add_self2) simp
  ultimately show ?thesis
    by (simp only: size_sub_def)
qed

lemma size_sub_wraps:
  assumes "a < b" and "b \<le> 2 ^ 63"
  shows "size_sub a b = 2 ^ 64 - (b - a)"
proof -
  have "b mod 2 ^ 64 = b" using assms by simp
  moreover have "a + (2 ^ 64 - b) = 2 ^ 64 - (b - a)" using assms by simp
  moreover have "2 ^ 64 - (b - a) < (2 ^ 64 :: nat)" using assms by simp
  ultimately show ?thesis
    by (simp add: size_sub_def)
qed

text \<open>The conversion to \<open>int\<close>, 32 bits wide.\<close>

definition c_int :: "int \<Rightarrow> int" where
  "c_int z = signed_take_bit 31 z"

lemma c_int_small: "- (2 ^ 31) \<le> z \<Longrightarrow> z < 2 ^ 31 \<Longrightarrow> c_int z = z"
  by (simp add: c_int_def signed_take_bit_int_eq_self)

text \<open>A C string function sees a Lua string only up to its first zero byte.\<close>

definition c_string :: "bytes \<Rightarrow> bytes" where
  "c_string b = takeWhile (\<lambda>c. c \<noteq> 0) b"

section \<open>Words\<close>

lemma unat_u64_of_nat: "m < 2 ^ 64 \<Longrightarrow> unat (word_of_nat m :: u64) = m"
  by (simp add: unat_of_nat)

lemma unat_word_power: "k < 64 \<Longrightarrow> unat (2 ^ k :: u64) = 2 ^ k"
  using unat_u64_of_nat [of "2 ^ k"] power_strict_increasing [of k 64 "2::nat"] by simp

section \<open>Byte codecs\<close>

primrec le_bytes :: "nat \<Rightarrow> nat \<Rightarrow> bytes" where
  "le_bytes 0 x = []"
| "le_bytes (Suc n) x = word_of_nat (x mod 256) # le_bytes n (x div 256)"

primrec le_val :: "bytes \<Rightarrow> nat" where
  "le_val [] = 0"
| "le_val (b # bs) = unat b + 256 * le_val bs"

definition be_bytes :: "nat \<Rightarrow> nat \<Rightarrow> bytes" where
  "be_bytes n x = rev (le_bytes n x)"

definition be_val :: "bytes \<Rightarrow> nat" where
  "be_val bs = le_val (rev bs)"

lemma length_le_bytes [simp]: "length (le_bytes n x) = n"
  by (induction n arbitrary: x) auto

lemma length_be_bytes [simp]: "length (be_bytes n x) = n"
  by (simp add: be_bytes_def)

lemma unat_u8_bound [simp]: "unat (b :: u8) < 256"
  using unsigned_less [of b, where ?'a = nat] by simp

lemma unat_u8_of_nat [simp]: "unat (word_of_nat (x mod 256) :: u8) = x mod 256"
  by (simp add: unat_of_nat)

lemma le_val_le_bytes [simp]: "le_val (le_bytes n x) = x mod 256 ^ n"
proof (induction n arbitrary: x)
  case (Suc n)
  have "x mod 256 + 256 * (x div 256 mod 256 ^ n) = x mod (256 * 256 ^ n)"
    by (simp add: mod_mult2_eq)
  with Suc show ?case by simp
qed simp

lemma le_val_bound: "le_val bs < 256 ^ length bs"
proof (induction bs)
  case (Cons b bs)
  have "unat b + 256 * le_val bs < 256 + 256 * le_val bs" by simp
  also have "\<dots> = 256 * (le_val bs + 1)" by simp
  also have "\<dots> \<le> 256 * 256 ^ length bs" using Cons by (intro mult_le_mono2) simp
  finally show ?case by simp
qed simp

lemma le_bytes_le_val [simp]: "length bs = n \<Longrightarrow> le_bytes n (le_val bs) = bs"
proof (induction bs arbitrary: n)
  case (Cons b bs)
  have b: "unat b < 256" by simp
  then have "(unat b + 256 * le_val bs) mod 256 = unat b"
    and "(unat b + 256 * le_val bs) div 256 = le_val bs"
    by (simp_all add: mod_less div_less)
  with Cons show ?case by auto
qed simp

lemma be_val_be_bytes [simp]: "be_val (be_bytes n x) = x mod 256 ^ n"
  by (simp add: be_val_def be_bytes_def)

lemma be_val_bound: "be_val bs < 256 ^ length bs"
  using le_val_bound [of "rev bs"] by (simp add: be_val_def)

section \<open>Memory blocks\<close>

text \<open>
  A pointer to a block of bytes is \<open>None\<close> for NULL and otherwise the content of the block. An access
  outside the block is undefined behaviour, which every model of this development returns as
  \<open>None\<close>.
\<close>

definition load_at :: "bytes option \<Rightarrow> nat \<Rightarrow> nat \<Rightarrow> bytes option" where
  "load_at p off n =
     (case p of None \<Rightarrow> None
      | Some b \<Rightarrow> if off + n \<le> length b then Some (take n (drop off b)) else None)"

definition store_at :: "bytes option \<Rightarrow> nat \<Rightarrow> bytes \<Rightarrow> bytes option" where
  "store_at p off bs =
     (case p of None \<Rightarrow> None
      | Some b \<Rightarrow> if off + length bs \<le> length b
                  then Some (take off b @ bs @ drop (off + length bs) b) else None)"

lemma load_at_Some [mem_simps]:
  "off + n \<le> length b \<Longrightarrow> load_at (Some b) off n = Some (take n (drop off b))"
  by (simp add: load_at_def)

lemma store_at_Some [mem_simps]:
  "off + length bs \<le> length b \<Longrightarrow>
     store_at (Some b) off bs = Some (take off b @ bs @ drop (off + length bs) b)"
  by (simp add: store_at_def)

lemma load_at_out [mem_simps]: "length b < off + n \<Longrightarrow> load_at (Some b) off n = None"
  by (simp add: load_at_def)

lemma load_at_null [mem_simps]: "load_at None off n = None"
  by (simp add: load_at_def)

text \<open>
  The allocator decides which requests succeed and what an uninitialised byte holds; nothing is
  proved about either, so every theorem holds for every allocator.
\<close>

record allocator =
  can_alloc :: "nat \<Rightarrow> bool"
  junk :: "nat \<Rightarrow> u8"

definition malloc :: "allocator \<Rightarrow> nat \<Rightarrow> bytes option" where
  "malloc al n = (if can_alloc al n then Some (map (junk al) [0..<n]) else None)"

definition realloc :: "allocator \<Rightarrow> bytes option \<Rightarrow> nat \<Rightarrow> bytes option" where
  "realloc al p n =
     (if can_alloc al n
      then Some (case p of None \<Rightarrow> map (junk al) [0..<n]
                 | Some b \<Rightarrow> take n b @ map (junk al) [length b..<n])
      else None)"

lemma malloc_length: "malloc al n = Some b \<Longrightarrow> length b = n"
  by (auto simp: malloc_def split: if_splits)

lemma realloc_length: "realloc al (Some b) n = Some b' \<Longrightarrow> length b' = n"
  by (auto simp: realloc_def split: if_splits)

lemma realloc_prefix:
  "realloc al (Some b) n = Some b' \<Longrightarrow> k \<le> length b \<Longrightarrow> k \<le> n \<Longrightarrow> take k b' = take k b"
  by (auto simp: realloc_def split: if_splits)

text \<open>An allocator that grants every request.\<close>

definition roomy :: "allocator \<Rightarrow> bool" where
  "roomy al \<longleftrightarrow> (\<forall>n. can_alloc al n)"

definition roomy_alloc :: allocator where
  "roomy_alloc = \<lparr>can_alloc = (\<lambda>n. True), junk = (\<lambda>_. 0)\<rparr>"

lemma roomy_roomy_alloc: "roomy roomy_alloc"
  by (simp add: roomy_def roomy_alloc_def)

section \<open>Operations that may be undefined\<close>

text \<open>A sequence of operations stops at the first one with undefined behaviour.\<close>

fun run_steps :: "('op \<Rightarrow> 's \<Rightarrow> 's option) \<Rightarrow> 'op list \<Rightarrow> 's \<Rightarrow> 's option" where
  "run_steps step [] s = Some s"
| "run_steps step (x # xs) s = (case step x s of None \<Rightarrow> None | Some s' \<Rightarrow> run_steps step xs s')"

locale safe_run =
  fixes step :: "'op \<Rightarrow> 's \<Rightarrow> 's option"
    and inv :: "'s \<Rightarrow> bool"
    and allowed :: "'op \<Rightarrow> bool"
  assumes step_safe: "inv s \<Longrightarrow> allowed x \<Longrightarrow> \<exists>s'. step x s = Some s' \<and> inv s'"
begin

lemma run_safe:
  "inv s \<Longrightarrow> list_all allowed xs \<Longrightarrow> \<exists>s'. run_steps step xs s = Some s' \<and> inv s'"
proof (induction xs arbitrary: s)
  case (Cons x xs)
  then obtain s' where "step x s = Some s'" "inv s'"
    using step_safe [of s x] by auto
  with Cons show ?case by simp
qed simp

end

text \<open>
  A computation with errors: the outer \<open>None\<close> is undefined behaviour or a run that does not return,
  \<open>Inl\<close> is an error of the program.
\<close>

definition bind_res :: "('e + 'a) option \<Rightarrow> ('a \<Rightarrow> ('e + 'b) option) \<Rightarrow> ('e + 'b) option" where
  "bind_res r f =
     (case r of None \<Rightarrow> None | Some (Inl e) \<Rightarrow> Some (Inl e) | Some (Inr x) \<Rightarrow> f x)"

definition safe_res :: "('a \<Rightarrow> bool) \<Rightarrow> ('e + 'a) option \<Rightarrow> bool" where
  "safe_res P r \<longleftrightarrow> (case r of None \<Rightarrow> False | Some (Inl e) \<Rightarrow> True | Some (Inr x) \<Rightarrow> P x)"

lemma safe_bind:
  "safe_res P r \<Longrightarrow> (\<And>x. P x \<Longrightarrow> safe_res Q (f x)) \<Longrightarrow> safe_res Q (bind_res r f)"
proof -
  assume r: "safe_res P r" and f: "\<And>x. P x \<Longrightarrow> safe_res Q (f x)"
  show ?thesis
  proof (cases r)
    case (Some y)
    with r f show ?thesis by (cases y) (simp_all add: safe_res_def bind_res_def)
  qed (use r in \<open>simp add: safe_res_def\<close>)
qed

section \<open>Element codecs\<close>

text \<open>
  An encoder and a decoder of one element, where the decoder returns the bytes that follow it. The
  client lemma is about the sequences that the serialised forms consist of: a count and then so many
  elements.
\<close>

fun dec_seq :: "(bytes \<Rightarrow> ('a \<times> bytes) option) \<Rightarrow> nat \<Rightarrow> bytes \<Rightarrow> ('a list \<times> bytes) option" where
  "dec_seq dec 0 bs = Some ([], bs)"
| "dec_seq dec (Suc n) bs =
     (case dec bs of None \<Rightarrow> None
      | Some (x, r) \<Rightarrow> (case dec_seq dec n r of None \<Rightarrow> None | Some (xs, r') \<Rightarrow> Some (x # xs, r')))"

locale element_codec =
  fixes enc :: "'a \<Rightarrow> bytes"
    and dec :: "bytes \<Rightarrow> ('a \<times> bytes) option"
    and valid :: "'a \<Rightarrow> bool"
  assumes dec_enc: "valid x \<Longrightarrow> dec (enc x @ rest) = Some (x, rest)"
begin

lemma dec_seq_enc:
  "list_all valid xs \<Longrightarrow> dec_seq dec (length xs) (concat (map enc xs) @ rest) = Some (xs, rest)"
  by (induction xs) (simp_all add: dec_enc)

end

section \<open>Bounded queues\<close>

text \<open>
  A first-in first-out queue of at most \<open>cap\<close> elements that drops what does not fit, or what the allocator
  refuses. The client lemma is the refinement of any sequence of operations by the same operations on a
  list.
\<close>

datatype 'a queue_op = QPush 'a | QPop | QClear

text \<open>The results of a sequence of operations and the final state.\<close>

primrec queue_run ::
  "('a \<Rightarrow> 'q \<Rightarrow> 'q) \<Rightarrow> ('q \<Rightarrow> 'a option \<times> 'q) \<Rightarrow> ('q \<Rightarrow> 'q) \<Rightarrow> 'a queue_op list \<Rightarrow> 'q \<Rightarrow> 'a option list \<times> 'q" where
  "queue_run push pop clear [] q = ([], q)"
| "queue_run push pop clear (x # xs) q =
     (case x of
        QPush a \<Rightarrow> queue_run push pop clear xs (push a q)
      | QPop \<Rightarrow> (let (r, q') = pop q; (rs, q'') = queue_run push pop clear xs q' in (r # rs, q''))
      | QClear \<Rightarrow> queue_run push pop clear xs (clear q))"

definition list_push :: "(nat \<Rightarrow> bool) \<Rightarrow> nat \<Rightarrow> 'a \<Rightarrow> 'a list \<Rightarrow> 'a list" where
  "list_push granted cap x xs = (if length xs < cap \<and> granted (length xs) then xs @ [x] else xs)"

definition list_pop :: "'a list \<Rightarrow> 'a option \<times> 'a list" where
  "list_pop xs = (case xs of [] \<Rightarrow> (None, []) | y # ys \<Rightarrow> (Some y, ys))"

definition list_run :: "(nat \<Rightarrow> bool) \<Rightarrow> nat \<Rightarrow> 'a queue_op list \<Rightarrow> 'a list \<Rightarrow> 'a option list \<times> 'a list" where
  "list_run granted cap = queue_run (list_push granted cap) list_pop (\<lambda>_. [])"

locale bounded_fifo =
  fixes push :: "'a \<Rightarrow> 'q \<Rightarrow> 'q"
    and pop :: "'q \<Rightarrow> 'a option \<times> 'q"
    and clear :: "'q \<Rightarrow> 'q"
    and content :: "'q \<Rightarrow> 'a list"
    and inv :: "'q \<Rightarrow> bool"
    and granted :: "nat \<Rightarrow> bool"
    and cap :: nat
  assumes push_inv: "inv q \<Longrightarrow> inv (push x q)"
    and push_content: "inv q \<Longrightarrow> content (push x q) =
      (if length (content q) < cap \<and> granted (length (content q)) then content q @ [x] else content q)"
    and pop_inv: "inv q \<Longrightarrow> inv (snd (pop q))"
    and pop_result: "inv q \<Longrightarrow> fst (pop q) = (case content q of [] \<Rightarrow> None | x # xs \<Rightarrow> Some x)"
    and pop_content: "inv q \<Longrightarrow> content (snd (pop q)) = tl (content q)"
    and clear_inv: "inv q \<Longrightarrow> inv (clear q)"
    and clear_content: "inv q \<Longrightarrow> content (clear q) = []"
    and bounded: "inv q \<Longrightarrow> length (content q) \<le> cap"
begin

lemma run_refines:
  "inv q \<Longrightarrow> fst (queue_run push pop clear ops q) = fst (list_run granted cap ops (content q))
     \<and> content (snd (queue_run push pop clear ops q)) = snd (list_run granted cap ops (content q))
     \<and> inv (snd (queue_run push pop clear ops q))"
proof (induction ops arbitrary: q)
  case (Cons x ops)
  show ?case
  proof (cases x)
    case (QPush a)
    with Cons show ?thesis by (simp add: push_inv push_content list_push_def list_run_def)
  next
    case QPop
    with Cons.IH [OF pop_inv [OF Cons.prems]] Cons.prems show ?thesis
      by (simp add: pop_result pop_content list_pop_def list_run_def Let_def case_prod_beta split: list.splits)
  next
    case QClear
    with Cons show ?thesis by (simp add: clear_inv clear_content list_run_def)
  qed
qed (simp add: list_run_def)

end

end
