(* ===== verification/Bytearray.thy ===== *)
theory Bytearray
  imports Prelude
begin

text \<open>
  The growable byte buffer of \<open>src/bytearray.c\<close>. One \<open>BYTEARRAY\<close> is a block of \<open>buflen\<close> bytes with
  a cursor \<open>offset\<close> and a limit \<open>total\<close>: in writing mode the bytes before \<open>offset\<close> are the
  content, in reading mode the bytes from \<open>offset\<close> up to \<open>total\<close>. The C functions report success
  as a boolean and change the structure in place; the models return both, and \<open>None\<close> when the code
  would access memory outside the block. A model takes the structure itself, so the arm of a guard
  that tests the pointer to it against NULL is not represented.
\<close>

section \<open>State and operations\<close>

record BYTEARRAY =
  ba_offset :: nat
  ba_total :: nat
  ba_mark :: nat
  ba_buffer :: "bytes option"
  ba_buflen :: nat
  ba_reading :: bool
  ba_wrapbuffer :: bool

text \<open>A structure declared as \<open>BYTEARRAY ba = {0}\<close>.\<close>

definition zero_ba :: BYTEARRAY where
  "zero_ba = \<lparr>ba_offset = 0, ba_total = 0, ba_mark = 0, ba_buffer = None, ba_buflen = 0,
     ba_reading = False, ba_wrapbuffer = False\<rparr>"

definition MIN_CAPACITY :: nat where "MIN_CAPACITY = 128"
definition MAX_PREALLOC :: nat where "MAX_PREALLOC = 4096"
definition CACHE_LINE_SIZE :: nat where "CACHE_LINE_SIZE = 64"

definition smear_right :: "u64 \<Rightarrow> u64" where
  "smear_right n0 =
     (let n1 = n0 OR drop_bit 1 n0;
          n2 = n1 OR drop_bit 2 n1;
          n3 = n2 OR drop_bit 4 n2;
          n4 = n3 OR drop_bit 8 n3;
          n5 = n4 OR drop_bit 16 n4
      in n5 OR drop_bit 32 n5)"

definition next_power_of_2 :: "u64 \<Rightarrow> u64" where
  "next_power_of_2 n =
     (if unat n \<le> MIN_CAPACITY then word_of_nat MIN_CAPACITY else smear_right (n - 1) + 1)"

definition new_capacity :: "nat \<Rightarrow> nat" where
  "new_capacity needed =
     (if needed \<le> MAX_PREALLOC then unat (next_power_of_2 (word_of_nat needed))
      else let new_size = (word_of_nat needed :: u64) + drop_bit 2 (word_of_nat needed)
           in unat ((new_size + word_of_nat CACHE_LINE_SIZE - 1)
                    AND NOT (word_of_nat CACHE_LINE_SIZE - 1)))"

definition ensure_capacity_optimized ::
  "allocator \<Rightarrow> BYTEARRAY \<Rightarrow> nat \<Rightarrow> bool \<times> BYTEARRAY" where
  "ensure_capacity_optimized al ba required_size =
     (let available = size_sub (ba_total ba) (ba_offset ba)
      in if required_size \<le> available then (True, ba)
         else if ba_wrapbuffer ba then (False, ba)
         else
           let needed = size_add (ba_offset ba) required_size;
               new_size = new_capacity needed
           in case realloc al (ba_buffer ba) new_size of
                None \<Rightarrow> (False, ba)
              | Some new_buffer \<Rightarrow>
                  (True, ba\<lparr>ba_buffer := Some new_buffer, ba_buflen := new_size,
                            ba_total := new_size\<rparr>))"

definition put_at_offset :: "BYTEARRAY \<Rightarrow> bytes \<Rightarrow> (bool \<times> BYTEARRAY) option" where
  "put_at_offset ba value =
     do { b \<leftarrow> store_at (ba_buffer ba) (ba_offset ba) value;
          Some (True, ba\<lparr>ba_buffer := Some b,
                         ba_offset := size_add (ba_offset ba) (length value)\<rparr>) }"

definition write_value_optimized ::
  "allocator \<Rightarrow> BYTEARRAY \<Rightarrow> bytes \<Rightarrow> (bool \<times> BYTEARRAY) option" where
  "write_value_optimized al ba value =
     (if length value \<le> size_sub (ba_total ba) (ba_offset ba) then put_at_offset ba value
      else case ensure_capacity_optimized al ba (length value) of
             (False, ba') \<Rightarrow> Some (False, ba')
           | (True, ba') \<Rightarrow> put_at_offset ba' value)"

definition read_value_optimized ::
  "BYTEARRAY \<Rightarrow> nat \<Rightarrow> (bytes option \<times> BYTEARRAY) option" where
  "read_value_optimized ba sz =
     (if sz \<le> size_sub (ba_total ba) (ba_offset ba)
      then do { v \<leftarrow> load_at (ba_buffer ba) (ba_offset ba) sz;
                Some (Some v, ba\<lparr>ba_offset := size_add (ba_offset ba) sz\<rparr>) }
      else Some (None, ba))"

definition bytearray_write8_optimized :: "allocator \<Rightarrow> BYTEARRAY \<Rightarrow> u8 \<Rightarrow> (bool \<times> BYTEARRAY) option" where
  "bytearray_write8_optimized al ba value =
     (if ba_offset ba < ba_total ba then put_at_offset ba [value]
      else write_value_optimized al ba [value])"

definition bytearray_write16_optimized :: "allocator \<Rightarrow> BYTEARRAY \<Rightarrow> u16 \<Rightarrow> (bool \<times> BYTEARRAY) option" where
  "bytearray_write16_optimized al ba value = write_value_optimized al ba (le_bytes 2 (unat value))"

definition bytearray_write32_optimized :: "allocator \<Rightarrow> BYTEARRAY \<Rightarrow> u32 \<Rightarrow> (bool \<times> BYTEARRAY) option" where
  "bytearray_write32_optimized al ba value = write_value_optimized al ba (le_bytes 4 (unat value))"

definition bytearray_write64_optimized :: "allocator \<Rightarrow> BYTEARRAY \<Rightarrow> u64 \<Rightarrow> (bool \<times> BYTEARRAY) option" where
  "bytearray_write64_optimized al ba value = write_value_optimized al ba (le_bytes 8 (unat value))"

text \<open>A \<open>double\<close> is the 64-bit pattern of its IEEE representation.\<close>

definition bytearray_write64d_optimized :: "allocator \<Rightarrow> BYTEARRAY \<Rightarrow> u64 \<Rightarrow> (bool \<times> BYTEARRAY) option" where
  "bytearray_write64d_optimized al ba value = write_value_optimized al ba (le_bytes 8 (unat value))"

definition bytearray_read8_optimized :: "BYTEARRAY \<Rightarrow> (u8 option \<times> BYTEARRAY) option" where
  "bytearray_read8_optimized ba =
     (if ba_offset ba < ba_total ba
      then do { v \<leftarrow> load_at (ba_buffer ba) (ba_offset ba) 1;
                Some (Some (hd v), ba\<lparr>ba_offset := size_add (ba_offset ba) 1\<rparr>) }
      else Some (None, ba))"

definition read_word ::
  "BYTEARRAY \<Rightarrow> nat \<Rightarrow> ('a::len word option \<times> BYTEARRAY) option" where
  "read_word ba sz =
     map_option (\<lambda>(v, ba'). (map_option (\<lambda>bs. word_of_nat (le_val bs)) v, ba'))
       (read_value_optimized ba sz)"

definition bytearray_read16_optimized :: "BYTEARRAY \<Rightarrow> (u16 option \<times> BYTEARRAY) option" where
  "bytearray_read16_optimized ba = read_word ba 2"

definition bytearray_read32_optimized :: "BYTEARRAY \<Rightarrow> (u32 option \<times> BYTEARRAY) option" where
  "bytearray_read32_optimized ba = read_word ba 4"

definition bytearray_read64_optimized :: "BYTEARRAY \<Rightarrow> (u64 option \<times> BYTEARRAY) option" where
  "bytearray_read64_optimized ba = read_word ba 8"

definition bytearray_read64d_optimized :: "BYTEARRAY \<Rightarrow> (u64 option \<times> BYTEARRAY) option" where
  "bytearray_read64d_optimized ba = read_word ba 8"

definition bytearray_writebuffer_optimized ::
  "allocator \<Rightarrow> BYTEARRAY \<Rightarrow> bytes \<Rightarrow> (bool \<times> BYTEARRAY) option" where
  "bytearray_writebuffer_optimized al ba buff = write_value_optimized al ba buff"

text \<open>The flag says whether the caller passed a destination; without one only the cursor moves.\<close>

definition bytearray_readbuffer_optimized ::
  "BYTEARRAY \<Rightarrow> bool \<Rightarrow> u32 \<Rightarrow> (bytes option \<times> BYTEARRAY) option" where
  "bytearray_readbuffer_optimized ba has_dest len =
     (if unat len \<le> size_sub (ba_total ba) (ba_offset ba)
      then do { v \<leftarrow> (if has_dest then load_at (ba_buffer ba) (ba_offset ba) (unat len)
                      else Some []);
                Some (Some v, ba\<lparr>ba_offset := size_add (ba_offset ba) (unat len)\<rparr>) }
      else Some (None, ba))"

definition bytearray_alloc :: "allocator \<Rightarrow> BYTEARRAY \<Rightarrow> u32 \<Rightarrow> bool \<times> BYTEARRAY" where
  "bytearray_alloc al ba len =
     (let n = (if len = 0 then MIN_CAPACITY else unat len)
      in case malloc al n of
           None \<Rightarrow> (False, ba\<lparr>ba_buffer := None\<rparr>)
         | Some b \<Rightarrow> (True, \<lparr>ba_offset = 0, ba_total = n, ba_mark = 0, ba_buffer = Some b,
                             ba_buflen = n, ba_reading = False, ba_wrapbuffer = False\<rparr>))"

text \<open>A wrapped buffer belongs to the caller and keeps its pointer.\<close>

definition bytearray_dealloc :: "BYTEARRAY \<Rightarrow> bool \<times> BYTEARRAY" where
  "bytearray_dealloc ba =
     (True, (if ba_wrapbuffer ba then ba else ba\<lparr>ba_buffer := None\<rparr>)
              \<lparr>ba_offset := 0, ba_total := 0, ba_buflen := 0\<rparr>)"

definition bytearray_wrap_buffer :: "BYTEARRAY \<Rightarrow> bytes \<Rightarrow> u32 \<Rightarrow> bool \<times> BYTEARRAY" where
  "bytearray_wrap_buffer ba buff len =
     (True, ba\<lparr>ba_buffer := Some buff, ba_total := unat len, ba_offset := 0,
               ba_buflen := unat len, ba_reading := True, ba_wrapbuffer := True\<rparr>)"

definition bytearray_read_ready :: "BYTEARRAY \<Rightarrow> bool \<times> BYTEARRAY" where
  "bytearray_read_ready ba =
     (if ba_buffer ba = None \<or> ba_reading ba then (False, ba)
      else (True, ba\<lparr>ba_total := ba_offset ba, ba_offset := 0, ba_reading := True\<rparr>))"

definition bytearray_read_available :: "BYTEARRAY \<Rightarrow> nat" where
  "bytearray_read_available ba =
     (if ba_buffer ba = None \<or> \<not> ba_reading ba then 0
      else size_sub (ba_total ba) (ba_offset ba))"

definition bytearray_mark :: "BYTEARRAY \<Rightarrow> bool \<times> BYTEARRAY" where
  "bytearray_mark ba =
     (if ba_buffer ba = None \<or> \<not> ba_reading ba then (False, ba)
      else (True, ba\<lparr>ba_mark := ba_offset ba\<rparr>))"

definition bytearray_reset :: "BYTEARRAY \<Rightarrow> bool \<times> BYTEARRAY" where
  "bytearray_reset ba =
     (if ba_buffer ba = None \<or> \<not> ba_reading ba then (False, ba)
      else (True, ba\<lparr>ba_offset := ba_mark ba\<rparr>))"

definition bytearray_empty :: "BYTEARRAY \<Rightarrow> bool \<times> BYTEARRAY" where
  "bytearray_empty ba = (True, ba\<lparr>ba_offset := 0, ba_total := 0\<rparr>)"

definition bytearray_write_ready :: "BYTEARRAY \<Rightarrow> (bool \<times> BYTEARRAY) option" where
  "bytearray_write_ready ba =
     (if \<not> ba_reading ba \<or> ba_buffer ba = None then Some (False, ba)
      else do {
        ba' \<leftarrow>
          (if 0 < ba_offset ba
           then let unreadleft = size_sub (ba_total ba) (ba_offset ba)
                in do { v \<leftarrow> load_at (ba_buffer ba) (ba_offset ba) unreadleft;
                        b \<leftarrow> store_at (ba_buffer ba) 0 v;
                        Some (ba\<lparr>ba_buffer := Some b, ba_offset := unreadleft\<rparr>) }
           else Some (ba\<lparr>ba_offset := ba_total ba\<rparr>));
        Some (True, ba'\<lparr>ba_mark := 0, ba_total := ba_buflen ba', ba_reading := False\<rparr>) })"

text \<open>The exported functions call the optimised ones.\<close>

definition ensure_capacity :: "allocator \<Rightarrow> BYTEARRAY \<Rightarrow> nat \<Rightarrow> bool \<times> BYTEARRAY" where
  [simp]: "ensure_capacity al ba required_size = ensure_capacity_optimized al ba required_size"

definition write_value ::
  "allocator \<Rightarrow> BYTEARRAY \<Rightarrow> bytes \<Rightarrow> (bool \<times> BYTEARRAY) option" where
  [simp]: "write_value al ba value = write_value_optimized al ba value"

definition read_value :: "BYTEARRAY \<Rightarrow> nat \<Rightarrow> (bytes option \<times> BYTEARRAY) option" where
  [simp]: "read_value ba sz = read_value_optimized ba sz"

definition bytearray_writebuffer ::
  "allocator \<Rightarrow> BYTEARRAY \<Rightarrow> bytes \<Rightarrow> (bool \<times> BYTEARRAY) option" where
  [simp]: "bytearray_writebuffer al ba buff = bytearray_writebuffer_optimized al ba buff"

definition bytearray_readbuffer ::
  "BYTEARRAY \<Rightarrow> bool \<Rightarrow> u32 \<Rightarrow> (bytes option \<times> BYTEARRAY) option" where
  [simp]: "bytearray_readbuffer ba has_dest len = bytearray_readbuffer_optimized ba has_dest len"

definition bytearray_write8 ::
  "allocator \<Rightarrow> BYTEARRAY \<Rightarrow> u8 \<Rightarrow> (bool \<times> BYTEARRAY) option" where
  [simp]: "bytearray_write8 al ba value = bytearray_write8_optimized al ba value"

definition bytearray_write16 ::
  "allocator \<Rightarrow> BYTEARRAY \<Rightarrow> u16 \<Rightarrow> (bool \<times> BYTEARRAY) option" where
  [simp]: "bytearray_write16 al ba value = bytearray_write16_optimized al ba value"

definition bytearray_write32 ::
  "allocator \<Rightarrow> BYTEARRAY \<Rightarrow> u32 \<Rightarrow> (bool \<times> BYTEARRAY) option" where
  [simp]: "bytearray_write32 al ba value = bytearray_write32_optimized al ba value"

definition bytearray_write64 ::
  "allocator \<Rightarrow> BYTEARRAY \<Rightarrow> u64 \<Rightarrow> (bool \<times> BYTEARRAY) option" where
  [simp]: "bytearray_write64 al ba value = bytearray_write64_optimized al ba value"

definition bytearray_write64d ::
  "allocator \<Rightarrow> BYTEARRAY \<Rightarrow> u64 \<Rightarrow> (bool \<times> BYTEARRAY) option" where
  [simp]: "bytearray_write64d al ba value = bytearray_write64d_optimized al ba value"

definition bytearray_read8 ::
  "BYTEARRAY \<Rightarrow> (u8 option \<times> BYTEARRAY) option" where
  [simp]: "bytearray_read8 ba = bytearray_read8_optimized ba"

definition bytearray_read16 ::
  "BYTEARRAY \<Rightarrow> (u16 option \<times> BYTEARRAY) option" where
  [simp]: "bytearray_read16 ba = bytearray_read16_optimized ba"

definition bytearray_read32 ::
  "BYTEARRAY \<Rightarrow> (u32 option \<times> BYTEARRAY) option" where
  [simp]: "bytearray_read32 ba = bytearray_read32_optimized ba"

definition bytearray_read64 ::
  "BYTEARRAY \<Rightarrow> (u64 option \<times> BYTEARRAY) option" where
  [simp]: "bytearray_read64 ba = bytearray_read64_optimized ba"

definition bytearray_read64d ::
  "BYTEARRAY \<Rightarrow> (u64 option \<times> BYTEARRAY) option" where
  [simp]: "bytearray_read64d ba = bytearray_read64d_optimized ba"

section \<open>Capacity\<close>

text \<open>
  \<open>spread w x y\<close> says that every bit of \<open>y\<close> is the disjunction of the \<open>w\<close> bits of \<open>x\<close> from
  that position upwards: each line of the smearing loop doubles \<open>w\<close>.
\<close>

definition spread :: "nat \<Rightarrow> u64 \<Rightarrow> u64 \<Rightarrow> bool" where
  "spread w x y \<longleftrightarrow> (\<forall>i. bit y i \<longleftrightarrow> (\<exists>d<w. bit x (i + d)))"

lemma spread_double:
  assumes "spread w x y"
  shows "spread (2 * w) x (y OR drop_bit w y)"
proof -
  have "(\<exists>d<2 * w. bit x (i + d)) \<longleftrightarrow> (\<exists>d<w. bit x (i + d)) \<or> (\<exists>d<w. bit x (w + i + d))" (is "?L \<longleftrightarrow> ?R") for i
  proof
    assume ?L
    then obtain d where d: "d < 2 * w" "bit x (i + d)" by blast
    show ?R
    proof (cases "d < w")
      case False
      with d have "d - w < w" "bit x (w + i + (d - w))" by (simp_all add: add.commute)
      then show ?thesis by blast
    qed (use d in blast)
  next
    assume ?R
    then show ?L
    proof
      assume "\<exists>d<w. bit x (w + i + d)"
      then obtain d where "d < w" "bit x (w + i + d)" by blast
      then have "w + d < 2 * w" "bit x (i + (w + d))" by (simp_all add: ac_simps)
      then show ?L by blast
    qed (force)
  qed
  with assms show ?thesis
    by (simp add: spread_def bit_or_iff bit_drop_bit_eq)
qed

lemma spread_smear: "spread 64 x (smear_right x)"
proof -
  have "spread 1 x x" by (simp add: spread_def)
  from spread_double [OF this, simplified] have "spread 2 x (x OR drop_bit 1 x)" by (simp add: numeral_2_eq_2)
  note s = spread_double [OF this]
  note s = spread_double [OF s]
  note s = spread_double [OF s]
  note s = spread_double [OF s]
  note s = spread_double [OF s]
  show ?thesis using s by (simp add: smear_right_def Let_def)
qed

lemma bit_smear: "bit (smear_right x) i \<longleftrightarrow> (\<exists>j\<ge>i. bit x j)"
proof -
  have "(\<exists>d<64. bit x (i + d)) \<longleftrightarrow> (\<exists>j\<ge>i. bit x j)"
  proof
    assume "\<exists>j\<ge>i. bit x j"
    then obtain j where j: "i \<le> j" "bit x j" by blast
    then have "j < 64" using bit_imp_le_length [of x j] by simp
    with j have "j - i < 64" "bit x (i + (j - i))" by simp_all
    then show "\<exists>d<64. bit x (i + d)" by blast
  qed (metis le_add1)
  with spread_smear [of x] show ?thesis by (simp add: spread_def)
qed

lemma smear_right_mask:
  assumes lo: "2 ^ k \<le> unat x" and hi: "unat x < 2 ^ Suc k"
  shows "smear_right x = mask (Suc k)"
proof (rule bit_word_eqI)
  fix i assume "i < LENGTH(64)"
  have bnd: "j \<le> k" if "bit x j" for j
  proof (rule ccontr)
    assume "\<not> j \<le> k"
    then have "(2 :: nat) ^ Suc k \<le> 2 ^ j" by (intro power_increasing) auto
    moreover have "bit (unat x) j"
      using that by (simp add: bit_unsigned_iff)
    then have "odd (unat x div 2 ^ j)" by (simp add: bit_iff_odd)
    ultimately show False using hi by (metis div_less even_zero order_less_le_trans)
  qed
  have top: "bit x k"
  proof -
    have "unat x div 2 ^ k = 1"
      using lo hi by (simp add: div_nat_eqI)
    then have "bit (unat x) k" by (simp add: bit_iff_odd)
    then show ?thesis by (simp add: bit_unsigned_iff)
  qed
  have "(\<exists>j\<ge>i. bit x j) \<longleftrightarrow> i < Suc k"
    using bnd top by (meson less_Suc_eq_le order_trans)
  then show "bit (smear_right x) i \<longleftrightarrow> bit (mask (Suc k) :: u64) i"
    using \<open>i < LENGTH(64)\<close> by (simp add: bit_smear bit_mask_iff)
qed

lemma next_power_of_2_spec:
  assumes "128 < unat n" and "unat n \<le> 2 ^ 63"
  shows "\<exists>k\<le>63. unat (next_power_of_2 n) = 2 ^ k \<and> unat n \<le> 2 ^ k \<and> 2 ^ k < 2 * unat n"
proof -
  have x: "unat (n - 1) = unat n - 1"
    using assms by (intro unat_minus_one) auto
  have "1 \<le> unat n - 1" using assms by simp
  then obtain k where k: "2 ^ k \<le> unat n - 1" "unat n - 1 < 2 ^ Suc k"
    using ex_power_ivl1 [of 2 "unat n - 1"] by auto
  have "(2::nat) ^ k < 2 ^ 63" using k assms by simp
  then have k63: "Suc k \<le> 63" using power_less_imp_less_exp [of "2::nat" k 63] by simp
  have "next_power_of_2 n = mask (Suc k) + 1"
    using smear_right_mask [of k "n - 1"] k x assms by (simp add: next_power_of_2_def MIN_CAPACITY_def)
  also have "\<dots> = 2 ^ Suc k" by (simp add: mask_eq_exp_minus_1)
  finally have "unat (next_power_of_2 n) = 2 ^ Suc k"
    using k63 unat_word_power [of "Suc k"] by simp
  then show ?thesis using k k63 by (intro exI [of _ "Suc k"]) auto
qed

lemma align_up_64:
  assumes "m + 63 < 2 ^ 64"
  shows "unat (((word_of_nat m :: u64) + 64 - 1) AND NOT (64 - 1)) = (m + 63) div 64 * 64"
proof -
  have drop: "x AND NOT (mask 6) = push_bit 6 (drop_bit 6 x)" for x :: u64
    by (rule bit_word_eqI) (auto simp: bit_simps)
  let ?x = "word_of_nat (m + 63) :: u64"
  have "((word_of_nat m :: u64) + 64 - 1) AND NOT (64 - 1) = ?x AND NOT (mask 6)"
    by (simp add: mask_eq_exp_minus_1 add.commute)
  also have "\<dots> = push_bit 6 (drop_bit 6 ?x)" by (rule drop)
  finally have eq: "((word_of_nat m :: u64) + 64 - 1) AND NOT (64 - 1) = push_bit 6 (drop_bit 6 ?x)" .
  have ux: "unat ?x = m + 63"
    using assms by (intro unat_u64_of_nat)
  have "unat (drop_bit 6 ?x) = (m + 63) div 64"
    using ux by (simp add: drop_bit_eq_div unat_div del: of_nat_add)
  moreover have "(m + 63) div 64 * 64 < 2 ^ 64"
    using div_times_less_eq_dividend [of "m + 63" 64] assms by (rule le_less_trans)
  ultimately show ?thesis
    unfolding eq unsigned_push_bit_eq by (simp add: push_bit_eq_mult take_bit_eq_mod)
qed

lemma new_capacity_ge:
  assumes "needed \<le> 2 ^ 62"
  shows "needed \<le> new_capacity needed" and "new_capacity needed < 2 ^ 63"
    and "128 \<le> new_capacity needed"
proof -
  have u: "unat (word_of_nat needed :: u64) = needed" using assms by (simp add: unat_of_nat)
  have "needed \<le> new_capacity needed \<and> new_capacity needed < 2 ^ 63 \<and> 128 \<le> new_capacity needed"
  proof (cases "needed \<le> MAX_PREALLOC")
    case True
    show ?thesis
    proof (cases "needed \<le> 128")
      case small: True
      then show ?thesis using True u
        by (simp add: new_capacity_def next_power_of_2_def MIN_CAPACITY_def)
    next
      case False
      then obtain k where "unat (next_power_of_2 (word_of_nat needed)) = 2 ^ k" "needed \<le> 2 ^ k"
          "2 ^ k < 2 * needed"
        using next_power_of_2_spec [of "word_of_nat needed"] u assms by auto
      then show ?thesis using True False
        by (simp add: new_capacity_def MAX_PREALLOC_def)
    qed
  next
    case False
    let ?g = "needed + needed div 4"
    have "drop_bit 2 (word_of_nat needed :: u64) = word_of_nat (needed div 4)"
    proof (rule word_unat_eq_iff [THEN iffD2])
      have "unat (drop_bit 2 (word_of_nat needed :: u64)) = needed div 4"
        using u by (simp add: drop_bit_eq_div unat_div)
      moreover have "unat (word_of_nat (needed div 4) :: u64) = needed div 4"
        using assms by (intro unat_u64_of_nat) simp
      ultimately show "unat (drop_bit 2 (word_of_nat needed :: u64)) = unat (word_of_nat (needed div 4) :: u64)"
        by simp
    qed
    then have "new_capacity needed = (?g + 63) div 64 * 64"
      using False align_up_64 [of ?g] assms
      by (simp add: new_capacity_def CACHE_LINE_SIZE_def)
    moreover have "?g \<le> (?g + 63) div 64 * 64" by linarith
    moreover have "(?g + 63) div 64 * 64 \<le> ?g + 63" by linarith
    ultimately show ?thesis using False assms by (simp add: MAX_PREALLOC_def)
  qed
  then show "needed \<le> new_capacity needed" "new_capacity needed < 2 ^ 63" "128 \<le> new_capacity needed"
    by auto
qed
section \<open>Well-formed buffers and their content\<close>

definition ba_wf :: "BYTEARRAY \<Rightarrow> bool" where
  "ba_wf ba \<longleftrightarrow>
     (case ba_buffer ba of None \<Rightarrow> False | Some b \<Rightarrow> length b = ba_buflen ba)
     \<and> ba_offset ba \<le> ba_total ba \<and> ba_total ba \<le> ba_buflen ba \<and> ba_buflen ba < 2 ^ 63"

text \<open>The marked position can be returned to without leaving the content.\<close>

definition ba_mark_ok :: "BYTEARRAY \<Rightarrow> bool" where
  "ba_mark_ok ba \<longleftrightarrow> (if ba_reading ba then ba_mark ba \<le> ba_total ba else ba_mark ba = 0)"

definition written :: "BYTEARRAY \<Rightarrow> bytes" where
  "written ba = (case ba_buffer ba of None \<Rightarrow> [] | Some b \<Rightarrow> take (ba_offset ba) b)"

definition unread :: "BYTEARRAY \<Rightarrow> bytes" where
  "unread ba =
     (case ba_buffer ba of None \<Rightarrow> []
      | Some b \<Rightarrow> take (ba_total ba - ba_offset ba) (drop (ba_offset ba) b))"

lemma ba_wfE:
  assumes "ba_wf ba"
  obtains b where "ba_buffer ba = Some b" and "length b = ba_buflen ba"
    and "ba_offset ba \<le> ba_total ba" and "ba_total ba \<le> ba_buflen ba" and "ba_buflen ba < 2 ^ 63"
  using assms by (auto simp: ba_wf_def split: option.splits)

lemma length_written: "ba_wf ba \<Longrightarrow> length (written ba) = ba_offset ba"
  by (erule ba_wfE) (simp add: written_def)

lemma length_unread: "ba_wf ba \<Longrightarrow> length (unread ba) = ba_total ba - ba_offset ba"
  by (erule ba_wfE) (simp add: unread_def)

lemma ba_available: "ba_wf ba \<Longrightarrow> size_sub (ba_total ba) (ba_offset ba) = length (unread ba)"
  by (erule ba_wfE) (simp add: unread_def)

lemma put_at_offset_append:
  assumes wf: "ba_wf ba" and fits: "length bs \<le> ba_total ba - ba_offset ba"
  obtains ba' where "put_at_offset ba bs = Some (True, ba')" and "ba_wf ba'"
    and "written ba' = written ba @ bs"
    and "ba_reading ba' = ba_reading ba" and "ba_mark ba' = ba_mark ba"
    and "ba_wrapbuffer ba' = ba_wrapbuffer ba" and "ba_total ba' = ba_total ba"
    and "ba_buflen ba' = ba_buflen ba" and "ba_offset ba' = ba_offset ba + length bs"
proof -
  from wf obtain b where b: "ba_buffer ba = Some b" "length b = ba_buflen ba"
    "ba_offset ba \<le> ba_total ba" "ba_total ba \<le> ba_buflen ba" "ba_buflen ba < 2 ^ 63"
    by (rule ba_wfE)
  have "ba_offset ba + length bs < 2 ^ 64" using b fits by simp
  then show thesis
    using b fits
    by (intro that [of "ba\<lparr>ba_buffer := Some (take (ba_offset ba) b @ bs @
          drop (ba_offset ba + length bs) b), ba_offset := ba_offset ba + length bs\<rparr>"])
      (simp_all add: put_at_offset_def ba_wf_def written_def mem_simps)
qed

lemma ensure_capacity_grows:
  assumes wf: "ba_wf ba" and bound: "ba_offset ba + n \<le> 2 ^ 62"
    and ok: "ensure_capacity_optimized al ba n = (True, ba')"
  shows "ba_wf ba'" and "n \<le> ba_total ba' - ba_offset ba'" and "written ba' = written ba"
    and "ba_offset ba' = ba_offset ba"
    and "ba_reading ba' = ba_reading ba" and "ba_mark ba' = ba_mark ba"
    and "ba_wrapbuffer ba' = ba_wrapbuffer ba" and "ba_total ba \<le> ba_total ba'"
proof -
  from wf obtain b where b: "ba_buffer ba = Some b" "length b = ba_buflen ba"
    "ba_offset ba \<le> ba_total ba" "ba_total ba \<le> ba_buflen ba" "ba_buflen ba < 2 ^ 63"
    by (rule ba_wfE)
  let ?needed = "ba_offset ba + n"
  have cap: "?needed \<le> new_capacity ?needed" "new_capacity ?needed < 2 ^ 63"
    using new_capacity_ge [OF bound] by auto
  have avail: "size_sub (ba_total ba) (ba_offset ba) = ba_total ba - ba_offset ba"
    using b by simp
  have "ba' = ba \<and> n \<le> ba_total ba - ba_offset ba \<or>
    (\<exists>nb. realloc al (Some b) (new_capacity ?needed) = Some nb \<and> ba_total ba < ?needed \<and>
       ba' = ba\<lparr>ba_buffer := Some nb, ba_buflen := new_capacity ?needed,
                ba_total := new_capacity ?needed\<rparr>)"
    using ok bound b avail
    by (auto simp: ensure_capacity_optimized_def Let_def split: if_splits option.splits)
  then show "ba_wf ba'" "n \<le> ba_total ba' - ba_offset ba'" "written ba' = written ba"
    "ba_offset ba' = ba_offset ba" "ba_reading ba' = ba_reading ba" "ba_mark ba' = ba_mark ba"
    "ba_wrapbuffer ba' = ba_wrapbuffer ba" "ba_total ba \<le> ba_total ba'"
    using wf b cap by (auto simp: ba_wf_def written_def realloc_prefix dest: realloc_length)
qed

lemma ensure_capacity_fails:
  assumes wf: "ba_wf ba" and bound: "ba_offset ba + n \<le> 2 ^ 62"
  shows "fst (ensure_capacity_optimized al ba n) =
     (n \<le> ba_total ba - ba_offset ba \<or>
      \<not> ba_wrapbuffer ba \<and> can_alloc al (new_capacity (ba_offset ba + n)))"
    and "\<not> fst (ensure_capacity_optimized al ba n) \<Longrightarrow> snd (ensure_capacity_optimized al ba n) = ba"
proof -
  from wf obtain b where "ba_buffer ba = Some b" "ba_offset ba \<le> ba_total ba"
      "ba_total ba \<le> ba_buflen ba" "ba_buflen ba < 2 ^ 63"
    by (rule ba_wfE)
  then have "size_sub (ba_total ba) (ba_offset ba) = ba_total ba - ba_offset ba"
    and "size_add (ba_offset ba) n = ba_offset ba + n"
    using bound by simp_all
  then show "fst (ensure_capacity_optimized al ba n) =
     (n \<le> ba_total ba - ba_offset ba \<or>
      \<not> ba_wrapbuffer ba \<and> can_alloc al (new_capacity (ba_offset ba + n)))"
    and "\<not> fst (ensure_capacity_optimized al ba n) \<Longrightarrow> snd (ensure_capacity_optimized al ba n) = ba"
    by (auto simp: ensure_capacity_optimized_def Let_def realloc_def split: option.splits if_splits)
qed

definition can_grow :: "allocator \<Rightarrow> BYTEARRAY \<Rightarrow> nat \<Rightarrow> bool" where
  "can_grow al ba n \<longleftrightarrow>
     n \<le> ba_total ba - ba_offset ba \<or>
     \<not> ba_wrapbuffer ba \<and> can_alloc al (new_capacity (ba_offset ba + n))"


section \<open>Writing\<close>

text \<open>
  What a successful write of \<open>bs\<close> leaves behind, and that a write either does that or, when the
  buffer cannot grow, reports failure with the structure unchanged.
\<close>

definition appended :: "BYTEARRAY \<Rightarrow> bytes \<Rightarrow> BYTEARRAY \<Rightarrow> bool" where
  "appended ba bs ba' \<longleftrightarrow>
     ba_wf ba' \<and> written ba' = written ba @ bs \<and> ba_reading ba' = ba_reading ba
     \<and> ba_mark ba' = ba_mark ba \<and> ba_wrapbuffer ba' = ba_wrapbuffer ba
     \<and> ba_offset ba' = ba_offset ba + length bs \<and> ba_total ba \<le> ba_total ba'"

definition writes :: "allocator \<Rightarrow> BYTEARRAY \<Rightarrow> bytes \<Rightarrow> (bool \<times> BYTEARRAY) option \<Rightarrow> bool" where
  "writes al ba bs r \<longleftrightarrow>
     (if can_grow al ba (length bs) then \<exists>ba'. r = Some (True, ba') \<and> appended ba bs ba'
      else r = Some (False, ba))"

lemma write_value_writes:
  assumes wf: "ba_wf ba" and bound: "ba_offset ba + length bs \<le> 2 ^ 62"
  shows "writes al ba bs (write_value_optimized al ba bs)"
proof -
  have avail: "size_sub (ba_total ba) (ba_offset ba) = ba_total ba - ba_offset ba"
    using wf by (rule ba_wfE) simp
  show ?thesis
  proof (cases "length bs \<le> ba_total ba - ba_offset ba")
    case True
    with wf obtain ba' where "put_at_offset ba bs = Some (True, ba')" "appended ba bs ba'"
      by (rule put_at_offset_append) (simp add: appended_def)
    with True avail show ?thesis
      by (simp add: writes_def can_grow_def write_value_optimized_def)
  next
    case False
    obtain ok ba1 where ens: "ensure_capacity_optimized al ba (length bs) = (ok, ba1)"
      by (cases "ensure_capacity_optimized al ba (length bs)")
    show ?thesis
    proof (cases ok)
      case True
      with ens have "ensure_capacity_optimized al ba (length bs) = (True, ba1)" by simp
      note g = ensure_capacity_grows [OF wf bound this]
      from g(1,2) obtain ba' where "put_at_offset ba1 bs = Some (True, ba')" "appended ba1 bs ba'"
        by (rule put_at_offset_append) (simp add: appended_def)
      moreover have "appended ba bs ba'"
        using \<open>appended ba1 bs ba'\<close> g by (simp add: appended_def)
      moreover have "can_grow al ba (length bs)"
        using ensure_capacity_fails(1) [OF wf bound, of al] ens True by (simp add: can_grow_def)
      ultimately show ?thesis
        using False avail ens True by (simp add: writes_def write_value_optimized_def)
    next
      case no: False
      then have "ba1 = ba" "\<not> can_grow al ba (length bs)"
        using ensure_capacity_fails [OF wf bound, of al] ens by (auto simp: can_grow_def)
      then show ?thesis
        using False avail ens no by (simp add: writes_def write_value_optimized_def)
    qed
  qed
qed

lemma write8_is_write_value:
  assumes "ba_wf ba"
  shows "bytearray_write8_optimized al ba v = write_value_optimized al ba [v]"
  using assms
  by (rule ba_wfE)
    (auto simp: bytearray_write8_optimized_def write_value_optimized_def split: if_splits)

lemma writes_SomeTrue: "writes al ba bs (Some (True, ba')) \<Longrightarrow> appended ba bs ba'"
  by (auto simp: writes_def split: if_splits)

lemma writesE:
  assumes "writes al ba bs r" and "can_grow al ba (length bs)"
  obtains ba' where "r = Some (True, ba')" and "appended ba bs ba'"
  using assms by (auto simp: writes_def)

section \<open>Reading\<close>

text \<open>A read of \<open>n\<close> bytes takes them off the front of the unread bytes, or changes nothing.\<close>

definition reads :: "BYTEARRAY \<Rightarrow> nat \<Rightarrow> (bytes option \<times> BYTEARRAY) option \<Rightarrow> bool" where
  "reads ba n r \<longleftrightarrow>
     (if n \<le> length (unread ba)
      then \<exists>ba'. r = Some (Some (take n (unread ba)), ba') \<and> ba_wf ba'
             \<and> unread ba' = drop n (unread ba)
             \<and> ba' = ba\<lparr>ba_offset := ba_offset ba + n\<rparr>
      else r = Some (None, ba))"

lemma advance_unread:
  assumes "ba_wf ba" and "n \<le> length (unread ba)"
  shows "ba_wf (ba\<lparr>ba_offset := ba_offset ba + n\<rparr>)"
    and "unread (ba\<lparr>ba_offset := ba_offset ba + n\<rparr>) = drop n (unread ba)"
  using assms(2)
  by (auto intro: ba_wfE [OF assms(1)] simp: ba_wf_def unread_def drop_take add.commute)

lemma read_value_reads:
  assumes wf: "ba_wf ba"
  shows "reads ba n (read_value_optimized ba n)"
proof (cases "n \<le> length (unread ba)")
  case True
  from wf obtain b where b: "ba_buffer ba = Some b" "length b = ba_buflen ba"
    "ba_offset ba \<le> ba_total ba" "ba_total ba \<le> ba_buflen ba" "ba_buflen ba < 2 ^ 63"
    by (rule ba_wfE)
  have n: "n \<le> ba_total ba - ba_offset ba" using True wf by (simp add: length_unread)
  have "read_value_optimized ba n =
      Some (Some (take n (unread ba)), ba\<lparr>ba_offset := ba_offset ba + n\<rparr>)"
    using b n by (auto simp: read_value_optimized_def unread_def mem_simps min_absorb2)
  with True wf show ?thesis by (simp add: reads_def advance_unread)
next
  case False
  with wf show ?thesis by (simp add: reads_def read_value_optimized_def ba_available)
qed

lemma read8_reads:
  assumes wf: "ba_wf ba"
  shows "bytearray_read8_optimized ba =
     (case unread ba of [] \<Rightarrow> Some (None, ba)
      | x # xs \<Rightarrow> Some (Some x, ba\<lparr>ba_offset := ba_offset ba + 1\<rparr>))"
proof -
  from wf obtain b where b: "ba_buffer ba = Some b" "length b = ba_buflen ba"
    "ba_offset ba \<le> ba_total ba" "ba_total ba \<le> ba_buflen ba" "ba_buflen ba < 2 ^ 63"
    by (rule ba_wfE)
  show ?thesis
  proof (cases "ba_offset ba < ba_total ba")
    case True
    then have "unread ba = b ! ba_offset ba # take (ba_total ba - ba_offset ba - 1) (drop (Suc (ba_offset ba)) b)"
      using b by (simp add: unread_def Cons_nth_drop_Suc [symmetric] take_Cons' del: drop_Suc_Cons)
    moreover have "hd (take 1 (drop (ba_offset ba) b)) = b ! ba_offset ba"
      using True b by (simp add: Cons_nth_drop_Suc [symmetric] hd_drop_conv_nth)
    ultimately show ?thesis
      using True b by (simp add: bytearray_read8_optimized_def mem_simps)
  next
    case False
    with b show ?thesis by (simp add: bytearray_read8_optimized_def unread_def)
  qed
qed

lemma readbuffer_reads:
  assumes wf: "ba_wf ba"
  shows "reads ba (unat len) (bytearray_readbuffer_optimized ba True len)"
  using read_value_reads [OF wf, of "unat len"]
  by (simp add: bytearray_readbuffer_optimized_def read_value_optimized_def cong: if_cong)

lemma readbuffer_skips:
  assumes "ba_wf ba" and "unat len \<le> length (unread ba)"
  shows "bytearray_readbuffer_optimized ba False len =
     Some (Some [], ba\<lparr>ba_offset := ba_offset ba + unat len\<rparr>)"
proof -
  have "ba_offset ba + unat len < 2 ^ 64"
    by (rule ba_wfE [OF assms(1)]) (use assms in \<open>simp add: length_unread\<close>)
  with assms show ?thesis by (simp add: bytearray_readbuffer_optimized_def ba_available)
qed

lemma read_word_reads:
  assumes wf: "ba_wf ba"
  shows "read_word ba n =
     (if n \<le> length (unread ba)
      then Some (Some (word_of_nat (le_val (take n (unread ba)))),
                 ba\<lparr>ba_offset := ba_offset ba + n\<rparr>)
      else Some (None, ba))"
  using read_value_reads [OF wf, of n] by (auto simp: reads_def read_word_def split: if_splits)

section \<open>Changing mode\<close>

lemma read_ready_content:
  assumes "ba_wf ba" and "\<not> ba_reading ba"
  obtains ba' where "bytearray_read_ready ba = (True, ba')" and "ba_wf ba'"
    and "unread ba' = written ba" and "ba_reading ba'" and "ba_mark ba' = ba_mark ba"
    and "ba_buffer ba' = ba_buffer ba" and "ba_total ba' = length (written ba)" and "ba_offset ba' = 0"
proof -
  from assms(1) obtain b where "ba_buffer ba = Some b" "length b = ba_buflen ba"
    "ba_offset ba \<le> ba_total ba" "ba_total ba \<le> ba_buflen ba" "ba_buflen ba < 2 ^ 63"
    by (rule ba_wfE)
  with assms(2) show thesis
    by (intro that [of "ba\<lparr>ba_total := ba_offset ba, ba_offset := 0, ba_reading := True\<rparr>"])
      (simp_all add: bytearray_read_ready_def ba_wf_def unread_def written_def)
qed

lemma write_ready_content:
  assumes wf: "ba_wf ba" and rd: "ba_reading ba"
  obtains ba' where "bytearray_write_ready ba = Some (True, ba')" and "ba_wf ba'"
    and "written ba' = unread ba" and "\<not> ba_reading ba'" and "ba_mark ba' = 0"
    and "ba_buflen ba' = ba_buflen ba"
proof -
  from wf obtain b where b: "ba_buffer ba = Some b" "length b = ba_buflen ba"
    "ba_offset ba \<le> ba_total ba" "ba_total ba \<le> ba_buflen ba" "ba_buflen ba < 2 ^ 63"
    by (rule ba_wfE)
  let ?n = "ba_total ba - ba_offset ba"
  let ?v = "take ?n (drop (ba_offset ba) b)"
  have len: "length ?v = ?n" using b by simp
  have sub: "size_sub (ba_total ba) (ba_offset ba) = ?n" using b by simp
  have load: "load_at (Some b) (ba_offset ba) ?n = Some ?v"
    using b by (intro load_at_Some) simp
  have store: "store_at (Some b) 0 ?v = Some (?v @ drop ?n b)"
    using b len by (subst store_at_Some) simp_all
  show thesis
  proof (cases "0 < ba_offset ba")
    case True
    show thesis
      by (rule that [of "ba\<lparr>ba_buffer := Some (?v @ drop ?n b), ba_offset := ?n, ba_mark := 0,
            ba_total := ba_buflen ba, ba_reading := False\<rparr>"])
        (use True rd b len sub load store in
          \<open>simp_all add: Let_def bytearray_write_ready_def ba_wf_def written_def unread_def\<close>)
  next
    case False
    show thesis
      by (rule that [of "ba\<lparr>ba_offset := ba_total ba, ba_mark := 0, ba_total := ba_buflen ba,
            ba_reading := False\<rparr>"])
        (use False rd b in
          \<open>simp_all add: bytearray_write_ready_def ba_wf_def written_def unread_def\<close>)
  qed
qed

section \<open>Sequences of operations\<close>

text \<open>
  The calls a client can make on a buffer that it allocated. Every write is allowed in either mode,
  as in the code, which does not check the mode.
\<close>

datatype ba_op =
    OpWrite8 u8 | OpWrite16 u16 | OpWrite32 u32 | OpWrite64 u64 | OpWriteBuffer bytes
  | OpRead8 | OpRead16 | OpRead32 | OpRead64 | OpReadBuffer bool u32
  | OpReadReady | OpWriteReady | OpMark | OpReset | OpEmpty

fun ba_step :: "allocator \<Rightarrow> ba_op \<Rightarrow> BYTEARRAY \<Rightarrow> BYTEARRAY option" where
  "ba_step al (OpWrite8 v) ba = map_option snd (bytearray_write8 al ba v)"
| "ba_step al (OpWrite16 v) ba = map_option snd (bytearray_write16 al ba v)"
| "ba_step al (OpWrite32 v) ba = map_option snd (bytearray_write32 al ba v)"
| "ba_step al (OpWrite64 v) ba = map_option snd (bytearray_write64 al ba v)"
| "ba_step al (OpWriteBuffer bs) ba = map_option snd (bytearray_writebuffer al ba bs)"
| "ba_step al OpRead8 ba = map_option snd (bytearray_read8 ba)"
| "ba_step al OpRead16 ba = map_option snd (bytearray_read16 ba)"
| "ba_step al OpRead32 ba = map_option snd (bytearray_read32 ba)"
| "ba_step al OpRead64 ba = map_option snd (bytearray_read64 ba)"
| "ba_step al (OpReadBuffer has_dest len) ba = map_option snd (bytearray_readbuffer ba has_dest len)"
| "ba_step al OpReadReady ba = Some (snd (bytearray_read_ready ba))"
| "ba_step al OpWriteReady ba = map_option snd (bytearray_write_ready ba)"
| "ba_step al OpMark ba = Some (snd (bytearray_mark ba))"
| "ba_step al OpReset ba = Some (snd (bytearray_reset ba))"
| "ba_step al OpEmpty ba = Some (snd (bytearray_empty ba))"

definition ba_op_allowed :: "ba_op \<Rightarrow> bool" where
  "ba_op_allowed x =
     (case x of OpEmpty \<Rightarrow> False | OpWriteBuffer bs \<Rightarrow> length bs \<le> 2 ^ 61 | _ \<Rightarrow> True)"

text \<open>No allocation is larger than \<open>2 ^ 61\<close> bytes, and the structure is consistent.\<close>

definition ba_inv :: "allocator \<Rightarrow> BYTEARRAY \<Rightarrow> bool" where
  "ba_inv al ba \<longleftrightarrow>
     (\<forall>n. can_alloc al n \<longrightarrow> n \<le> 2 ^ 61) \<and> ba_wf ba \<and> ba_mark_ok ba \<and> ba_buflen ba \<le> 2 ^ 61"

lemma write_value_buflen:
  "write_value_optimized al ba bs = Some (ok, ba') \<Longrightarrow>
     ba_buflen ba' = ba_buflen ba \<or> can_alloc al (ba_buflen ba')"
  by (auto simp: write_value_optimized_def ensure_capacity_optimized_def put_at_offset_def Let_def
      realloc_def bind_eq_Some_conv split: if_splits option.splits prod.splits bool.splits)

lemma ba_inv_write:
  assumes inv: "ba_inv al ba" and len: "length bs \<le> 2 ^ 61"
  shows "\<exists>ba'. map_option snd (write_value_optimized al ba bs) = Some ba' \<and> ba_inv al ba'"
proof -
  have wf: "ba_wf ba" and "ba_buflen ba \<le> 2 ^ 61" using inv by (auto simp: ba_inv_def)
  then have bound: "ba_offset ba + length bs \<le> 2 ^ 62"
    using len by (elim ba_wfE) simp
  show ?thesis
  proof (cases "can_grow al ba (length bs)")
    case True
    obtain ba' where w: "write_value_optimized al ba bs = Some (True, ba')" "appended ba bs ba'"
      by (rule writesE [OF write_value_writes [OF wf bound] True])
    then have "ba_inv al ba'"
      using inv write_value_buflen [OF w(1)]
      by (auto simp: ba_inv_def appended_def ba_mark_ok_def split: if_splits)
    with w show ?thesis by simp
  next
    case False
    then show ?thesis using write_value_writes [OF wf bound, of al] inv by (simp add: writes_def)
  qed
qed

lemma ba_inv_advance:
  assumes "ba_inv al ba" and "n \<le> length (unread ba)"
  shows "ba_inv al (ba\<lparr>ba_offset := ba_offset ba + n\<rparr>)"
  using assms advance_unread(1) [of ba n] by (simp add: ba_inv_def ba_mark_ok_def)

lemma ba_inv_readbuffer:
  assumes "ba_inv al ba"
  shows "\<exists>ba'. map_option snd (bytearray_readbuffer_optimized ba has_dest len) = Some ba' \<and> ba_inv al ba'"
proof (cases "unat len \<le> length (unread ba)")
  case True
  with assms show ?thesis
    using readbuffer_reads [of ba len] readbuffer_skips [of ba len] ba_inv_advance [of al ba "unat len"]
    by (cases has_dest) (auto simp: reads_def ba_inv_def)
next
  case False
  with assms show ?thesis
    by (simp add: bytearray_readbuffer_optimized_def ba_inv_def ba_available)
qed

lemma ba_inv_read_word:
  assumes "ba_inv al ba"
  shows "\<exists>ba'. map_option snd (read_word ba n :: ('a::len word option \<times> BYTEARRAY) option) = Some ba' \<and> ba_inv al ba'"
  using assms ba_inv_advance [OF assms, of n] by (auto simp: read_word_reads ba_inv_def)

lemma ba_inv_mark: "ba_inv al ba \<Longrightarrow> ba_inv al (snd (bytearray_mark ba))"
  by (auto simp: bytearray_mark_def ba_inv_def ba_mark_ok_def ba_wf_def split: if_splits option.splits)

lemma ba_inv_reset: "ba_inv al ba \<Longrightarrow> ba_inv al (snd (bytearray_reset ba))"
  by (auto simp: bytearray_reset_def ba_inv_def ba_mark_ok_def ba_wf_def split: if_splits option.splits)

lemma ba_step_safe:
  assumes "ba_inv al ba" and "ba_op_allowed x"
  shows "\<exists>ba'. ba_step al x ba = Some ba' \<and> ba_inv al ba'"
proof (cases x)
  case (OpWrite8 v)
  with assms show ?thesis
    using ba_inv_write [of al ba "[v]"] by (simp add: ba_inv_def write8_is_write_value)
next
  case OpRead8
  with assms show ?thesis
    using ba_inv_advance [of al ba 1] by (simp add: ba_inv_def read8_reads split: list.splits)
next
  case OpReadReady
  show ?thesis
  proof (cases "ba_reading ba")
    case False
    with assms obtain ba' where "bytearray_read_ready ba = (True, ba')" "ba_wf ba'" "ba_reading ba'"
        "ba_mark ba' = 0" "ba_buffer ba' = ba_buffer ba"
      using read_ready_content [of ba] by (auto simp: ba_inv_def ba_mark_ok_def)
    with OpReadReady assms show ?thesis
      by (auto simp: ba_inv_def ba_mark_ok_def ba_wf_def split: option.splits)
  qed (use OpReadReady assms in \<open>simp add: bytearray_read_ready_def\<close>)
next
  case OpWriteReady
  show ?thesis
  proof (cases "ba_reading ba")
    case True
    with assms obtain ba' where "bytearray_write_ready ba = Some (True, ba')" "ba_wf ba'"
        "\<not> ba_reading ba'" "ba_mark ba' = 0" "ba_buflen ba' = ba_buflen ba"
      using write_ready_content [of ba] by (auto simp: ba_inv_def)
    with OpWriteReady assms show ?thesis by (simp add: ba_inv_def ba_mark_ok_def)
  qed (use OpWriteReady assms in \<open>simp add: bytearray_write_ready_def\<close>)
next
  case OpEmpty
  with assms show ?thesis by (simp add: ba_op_allowed_def)
qed (use assms in \<open>simp_all add: ba_op_allowed_def bytearray_write16_optimized_def
      bytearray_write32_optimized_def bytearray_write64_optimized_def bytearray_read16_optimized_def
      bytearray_read32_optimized_def bytearray_read64_optimized_def
      bytearray_writebuffer_optimized_def ba_inv_write ba_inv_read_word
      ba_inv_readbuffer ba_inv_mark ba_inv_reset del: map_option_eq_Some\<close>)

interpretation ba: safe_run "ba_step al" "ba_inv al" ba_op_allowed for al
  by unfold_locales (rule ba_step_safe)

section \<open>Properties\<close>

text \<open>
  Writing a block into a well-formed buffer never leaves the allocated memory. If the block
  fits, or the buffer is not a wrapped one and the allocator grants the larger capacity, the call
  reports success and the content is the old content followed by the block, in a well-formed buffer;
  otherwise it reports failure and the structure is unchanged.
\<close>

lemma bytearray_writebuffer_appends:
  assumes "ba_wf ba" and "ba_offset ba + length bs \<le> 2 ^ 62"
  shows "(can_grow al ba (length bs) \<longrightarrow>
            (\<exists>ba'. bytearray_writebuffer al ba bs = Some (True, ba') \<and> ba_wf ba'
                   \<and> written ba' = written ba @ bs \<and> ba_offset ba' = ba_offset ba + length bs))
       \<and> (\<not> can_grow al ba (length bs) \<longrightarrow> bytearray_writebuffer al ba bs = Some (False, ba))"
  using write_value_writes [OF assms, of al]
  by (auto simp: writes_def appended_def bytearray_writebuffer_optimized_def split: if_splits)

definition demo_alloc :: allocator where
  "demo_alloc = \<lparr>can_alloc = (\<lambda>n. n \<le> 2 ^ 61), junk = (\<lambda>_. 0)\<rparr>"

definition demo_ba :: BYTEARRAY where
  "demo_ba = \<lparr>ba_offset = 0, ba_total = 2, ba_mark = 0, ba_buffer = Some [7, 8], ba_buflen = 2,
              ba_reading = False, ba_wrapbuffer = False\<rparr>"

lemma bytearray_writebuffer_appends_witness:
  "ba_wf demo_ba \<and> can_grow demo_alloc demo_ba 3 \<and>
   (\<exists>ba'. bytearray_writebuffer demo_alloc demo_ba [1, 2, 3] = Some (True, ba') \<and>
          written ba' = [1, 2, 3])"
proof -
  have wf: "ba_wf demo_ba" and len: "ba_offset demo_ba + length [1, 2, 3 :: u8] \<le> 2 ^ 62"
    by (simp_all add: ba_wf_def demo_ba_def)
  have grow: "can_grow demo_alloc demo_ba 3"
    by (simp add: can_grow_def demo_ba_def demo_alloc_def new_capacity_def next_power_of_2_def
        MAX_PREALLOC_def MIN_CAPACITY_def)
  have "written demo_ba = []" by (simp add: written_def demo_ba_def)
  with wf grow show ?thesis
    using bytearray_writebuffer_appends [OF wf len, of demo_alloc] by (auto simp: numeral_3_eq_3)
qed

text \<open>
  (C14) For every request above the minimum capacity that has a representable power of two above it,
  the bit-smearing routine returns the least power of two that is large enough: a power of two, no
  smaller than the request, and less than twice the request.
\<close>

theorem next_power_of_2_correct:
  assumes "MIN_CAPACITY < unat n" and "unat n \<le> 2 ^ 63"
  shows "\<exists>k\<le>63. unat (next_power_of_2 n) = 2 ^ k \<and> unat n \<le> 2 ^ k \<and> 2 ^ k < 2 * unat n"
  using next_power_of_2_spec [of n] assms by (simp add: MIN_CAPACITY_def)

theorem next_power_of_2_correct_witness:
  "MIN_CAPACITY < unat (1000 :: u64) \<and> unat (1000 :: u64) \<le> 2 ^ 63 \<and>
   (\<exists>k\<le>63. unat (next_power_of_2 1000) = 2 ^ k \<and> (1000 :: nat) \<le> 2 ^ k)"
proof -
  have "MIN_CAPACITY < unat (1000 :: u64)" "unat (1000 :: u64) \<le> 2 ^ 63"
    by (simp_all add: MIN_CAPACITY_def)
  then show ?thesis using next_power_of_2_correct [of 1000] by auto
qed

text \<open>
  Switching a buffer from reading back to writing keeps exactly the bytes not yet read: they
  are moved to the front, the next write goes after them, the whole block is writable again, and the
  mark is cleared.
\<close>

lemma bytearray_write_ready_keeps_unread:
  assumes "ba_wf ba" and "ba_reading ba"
  shows "\<exists>ba'. bytearray_write_ready ba = Some (True, ba') \<and> ba_wf ba' \<and> written ba' = unread ba
           \<and> \<not> ba_reading ba' \<and> ba_mark ba' = 0 \<and> ba_buflen ba' = ba_buflen ba"
  by (rule write_ready_content [OF assms]) blast

lemma bytearray_write_ready_keeps_unread_witness:
  "\<exists>ba'. bytearray_write_ready (demo_ba\<lparr>ba_reading := True, ba_offset := 1\<rparr>) = Some (True, ba')
         \<and> written ba' = [8]"
proof -
  let ?ba = "demo_ba\<lparr>ba_reading := True, ba_offset := 1\<rparr>"
  have wf: "ba_wf ?ba" and rd: "ba_reading ?ba" by (simp_all add: ba_wf_def demo_ba_def)
  have "unread ?ba = [8]" by (simp add: unread_def demo_ba_def)
  then show ?thesis using bytearray_write_ready_keeps_unread [OF wf rd] by auto
qed

text \<open>
  (C6) Memory safety of the interface: from a freshly allocated buffer, every sequence of writes,
  reads, mode changes, marks and resets (everything but \<open>bytearray_empty\<close>) stays inside the allocated
  block, in either mode and however the allocator answers, and ends in a well-formed buffer whose
  mark can be returned to.
\<close>

theorem bytearray_sequences_safe:
  assumes small: "\<forall>n. can_alloc al n \<longrightarrow> n \<le> 2 ^ 61"
    and alloc: "bytearray_alloc al ba0 len = (True, ba)"
    and ops: "list_all ba_op_allowed ops"
  shows "\<exists>ba'. run_steps (ba_step al) ops ba = Some ba' \<and> ba_wf ba' \<and> ba_mark_ok ba'"
proof -
  have "unat len < 2 ^ 32" using unsigned_less [of len, where ?'a = nat] by simp
  then have "ba_inv al ba"
    using alloc small
    by (auto simp: bytearray_alloc_def ba_inv_def ba_wf_def ba_mark_ok_def Let_def MIN_CAPACITY_def
        dest!: malloc_length split: option.splits)
  from ba.run_safe [OF this ops] show ?thesis by (auto simp: ba_inv_def)
qed

theorem bytearray_sequences_safe_witness:
  "\<exists>ba ba'. bytearray_alloc demo_alloc demo_ba 4 = (True, ba) \<and>
     run_steps (ba_step demo_alloc) [OpWrite32 1, OpWrite16 2, OpReadReady, OpMark, OpRead8, OpReset] ba
       = Some ba' \<and> ba_wf ba'"
proof -
  let ?ba = "snd (bytearray_alloc demo_alloc demo_ba 4)"
  have "\<forall>n. can_alloc demo_alloc n \<longrightarrow> n \<le> 2 ^ 61" by (simp add: demo_alloc_def)
  moreover have a: "bytearray_alloc demo_alloc demo_ba 4 = (True, ?ba)"
    by (simp add: bytearray_alloc_def malloc_def demo_alloc_def)
  moreover have "list_all ba_op_allowed
      [OpWrite32 1, OpWrite16 2, OpReadReady, OpMark, OpRead8, OpReset]"
    by (simp add: ba_op_allowed_def)
  ultimately show ?thesis using bytearray_sequences_safe [of demo_alloc demo_ba 4 ?ba] by blast
qed

text \<open>
  The operation left out above breaks this: after reading past a position, marking it, emptying
  the buffer and resetting, the cursor lies behind the limit, the subtraction that computes the
  number of available bytes wraps around to almost \<open>2 ^ 64\<close>, and a read of two bytes succeeds on a
  buffer that holds nothing; a read of a whole block runs out of the allocation.
\<close>

lemma bytearray_empty_keeps_stale_mark:
  "\<exists>ba. run_steps (ba_step demo_alloc)
          [OpReadReady, OpRead8, OpMark, OpEmpty, OpReset] (demo_ba\<lparr>ba_offset := 2\<rparr>) = Some ba
        \<and> bytearray_read_available ba = 2 ^ 64 - 1
        \<and> fst (the (bytearray_readbuffer ba False 100)) = Some []
        \<and> bytearray_readbuffer ba True 100 = None"
  by (simp add: demo_ba_def bytearray_read_ready_def bytearray_read8_optimized_def bytearray_mark_def
      bytearray_empty_def bytearray_reset_def bytearray_read_available_def
      bytearray_readbuffer_optimized_def load_at_def size_sub_def size_add_def)

end
