(* ===== verification/Stream.thy ===== *)
theory Stream
  imports Bytearray
begin

text \<open>
  The typed stream on top of a byte buffer: \<open>src/stream_ffi.c\<close> (variable-length \<open>u30\<close> integers,
  24-bit integers, doubles, length-prefixed strings) and its Lua binding \<open>src/stream.c\<close>. A getter
  returns the value or \<open>None\<close> for the C result \<open>false\<close>; the outer \<open>None\<close> is undefined behaviour. An
  adder returns the buffer; as in the code, the result of the underlying write is dropped. A pointer
  into the buffer is modelled by the bytes the caller reads through it.
\<close>

section \<open>Getters and adders\<close>

definition ffi_stream_new ::
  "allocator \<Rightarrow> BYTEARRAY \<Rightarrow> bytes option \<Rightarrow> BYTEARRAY option" where
  "ffi_stream_new al ba data =
     (case data of
        Some d \<Rightarrow>
          (if 0 < length d
           then do { (_, ba2) \<leftarrow> bytearray_writebuffer al
                       (snd (bytearray_alloc al ba (word_of_nat (length d)))) d;
                     Some (snd (bytearray_read_ready ba2)) }
           else Some (snd (bytearray_alloc al ba 0)))
      | None \<Rightarrow> Some (snd (bytearray_alloc al ba 0)))"

definition ffi_stream_gc :: "BYTEARRAY \<Rightarrow> BYTEARRAY" where
  "ffi_stream_gc ba = snd (bytearray_dealloc ba)"

definition ffi_stream_available :: "BYTEARRAY \<Rightarrow> nat" where
  "ffi_stream_available ba = bytearray_read_available ba"

definition ffi_stream_get_u8 :: "BYTEARRAY \<Rightarrow> (u8 option \<times> BYTEARRAY) option" where
  "ffi_stream_get_u8 ba = bytearray_read8 ba"

definition ffi_stream_get_u16 :: "BYTEARRAY \<Rightarrow> (u16 option \<times> BYTEARRAY) option" where
  "ffi_stream_get_u16 ba = bytearray_read16 ba"

definition ffi_stream_get_u32 :: "BYTEARRAY \<Rightarrow> (u32 option \<times> BYTEARRAY) option" where
  "ffi_stream_get_u32 ba = bytearray_read32 ba"

text \<open>
  The loop of the variable-length getter. The shifted 7-bit group is an \<open>int\<close> in C; it is taken
  modulo \<open>2 ^ 32\<close>, which is what it contributes to the 32-bit accumulator.
\<close>

function get_u30_loop ::
  "BYTEARRAY \<Rightarrow> u32 \<Rightarrow> nat \<Rightarrow> (u32 option \<times> BYTEARRAY) option" where
  "get_u30_loop ba value shift =
     (case bytearray_read8 ba of
        None \<Rightarrow> None
      | Some (None, ba') \<Rightarrow> Some (None, ba')
      | Some (Some b, ba') \<Rightarrow>
          (let value' = value OR push_bit shift (ucast (b AND 127));
               shift' = shift + 7
           in if b AND 128 = 0 \<or> 30 < shift' then Some (Some value', ba')
              else get_u30_loop ba' value' shift'))"
  by pat_completeness auto
termination
  by (relation "measure (\<lambda>(ba, value, shift). 31 - shift)") auto

declare get_u30_loop.simps [simp del]

definition ffi_stream_get_u30 :: "BYTEARRAY \<Rightarrow> (u32 option \<times> BYTEARRAY) option" where
  "ffi_stream_get_u30 ba = get_u30_loop ba 0 0"

definition le24 :: "bytes \<Rightarrow> u32" where
  "le24 v = push_bit 16 (ucast (v ! 2)) OR push_bit 8 (ucast (v ! 1)) OR ucast (v ! 0)"

definition ffi_stream_get_s24 :: "BYTEARRAY \<Rightarrow> (int option \<times> BYTEARRAY) option" where
  "ffi_stream_get_s24 ba =
     do { (r, ba') \<leftarrow> bytearray_readbuffer ba True 3;
          Some (case r of None \<Rightarrow> None
                | Some v \<Rightarrow> Some (if (v ! 2) AND 0x80 \<noteq> 0
                                  then -1 - uint (le24 v XOR 0xffffff) else uint (le24 v)), ba') }"

definition ffi_stream_get_u24 :: "BYTEARRAY \<Rightarrow> (u32 option \<times> BYTEARRAY) option" where
  "ffi_stream_get_u24 ba =
     do { (r, ba') \<leftarrow> bytearray_readbuffer ba True 3;
          Some (map_option le24 r, ba') }"

definition ffi_stream_get_d64 :: "BYTEARRAY \<Rightarrow> (u64 option \<times> BYTEARRAY) option" where
  "ffi_stream_get_d64 ba = bytearray_read64d ba"

definition ffi_stream_mark :: "BYTEARRAY \<Rightarrow> bool \<times> BYTEARRAY" where
  "ffi_stream_mark ba = bytearray_mark ba"

definition ffi_stream_reset :: "BYTEARRAY \<Rightarrow> bool \<times> BYTEARRAY" where
  "ffi_stream_reset ba = bytearray_reset ba"

text \<open>The bytes a caller reads through a pointer to the cursor; reading none touches no memory.\<close>

definition peek :: "BYTEARRAY \<Rightarrow> nat \<Rightarrow> bytes option" where
  "peek ba n = (if n = 0 then Some [] else load_at (ba_buffer ba) (ba_offset ba) n)"

text \<open>
  The result is the string, or NULL with the number of bytes the caller should wait for; then the
  cursor is back where it was.
\<close>

definition ffi_stream_get_string ::
  "BYTEARRAY \<Rightarrow> ((bytes option \<times> nat) \<times> BYTEARRAY) option" where
  "ffi_stream_get_string ba =
     do { (r, ba1) \<leftarrow> ffi_stream_get_u30 ba;
          case r of
            None \<Rightarrow>
              (let ba2 = ba1\<lparr>ba_offset := ba_offset ba\<rparr>
               in Some ((None, size_add (bytearray_read_available ba2) 1), ba2))
          | Some len \<Rightarrow>
              (if bytearray_read_available ba1 < unat len
               then let diff = size_sub (ba_offset ba1) (ba_offset ba)
                    in Some ((None, size_add (unat len) diff), ba1\<lparr>ba_offset := ba_offset ba\<rparr>)
               else do { v \<leftarrow> peek ba1 (unat len);
                         (_, ba2) \<leftarrow> bytearray_readbuffer ba1 False len;
                         Some ((Some v, unat len), ba2) }) }"

definition clamp_len :: "BYTEARRAY \<Rightarrow> nat \<Rightarrow> u32" where
  "clamp_len ba buflen =
     (let available = bytearray_read_available ba
      in word_of_nat (if 0 < buflen then (if available < buflen then available else buflen)
                      else available))"

definition ffi_stream_get_bytes :: "BYTEARRAY \<Rightarrow> nat \<Rightarrow> (bytes \<times> BYTEARRAY) option" where
  "ffi_stream_get_bytes ba buflen =
     (let len = clamp_len ba buflen
      in do { v \<leftarrow> peek ba (unat len);
              (_, ba') \<leftarrow> bytearray_readbuffer ba False len;
              Some (v, ba') })"

definition ffi_stream_test_bytes :: "BYTEARRAY \<Rightarrow> nat \<Rightarrow> bytes option" where
  "ffi_stream_test_bytes ba buflen = peek ba (unat (clamp_len ba buflen))"

definition ffi_stream_add_u8 :: "allocator \<Rightarrow> BYTEARRAY \<Rightarrow> u8 \<Rightarrow> BYTEARRAY option" where
  "ffi_stream_add_u8 al ba value = map_option snd (bytearray_write8 al ba value)"

definition ffi_stream_add_u16 :: "allocator \<Rightarrow> BYTEARRAY \<Rightarrow> u16 \<Rightarrow> BYTEARRAY option" where
  "ffi_stream_add_u16 al ba value = map_option snd (bytearray_write16 al ba value)"

definition u30_byte :: "u32 \<Rightarrow> u8" where
  "u30_byte u = ucast ((if u AND NOT 0x7f \<noteq> 0 then 0x80 else 0) OR (u AND 0x7F))"

lemma drop_bit_7_less:
  assumes "drop_bit 7 u \<noteq> (0 :: u32)"
  shows "unat (drop_bit 7 u) < unat u"
proof -
  have "unat (drop_bit 7 u) = unat u div 128"
    by (simp add: drop_bit_eq_div unat_div)
  moreover have "unat u \<noteq> 0" using assms by (auto simp: unat_eq_0)
  ultimately show ?thesis by (simp add: div_less_dividend)
qed

function ffi_stream_add_u30 :: "allocator \<Rightarrow> BYTEARRAY \<Rightarrow> u32 \<Rightarrow> BYTEARRAY option" where
  "ffi_stream_add_u30 al ba u =
     (case bytearray_write8 al ba (u30_byte u) of
        None \<Rightarrow> None
      | Some (_, ba') \<Rightarrow>
          (if drop_bit 7 u \<noteq> 0 then ffi_stream_add_u30 al ba' (drop_bit 7 u) else Some ba'))"
  by pat_completeness auto
termination
  by (relation "measure (\<lambda>(al, ba, u). unat u)") (auto simp: drop_bit_7_less)

declare ffi_stream_add_u30.simps [simp del]

definition ffi_stream_add_u24 :: "allocator \<Rightarrow> BYTEARRAY \<Rightarrow> u32 \<Rightarrow> BYTEARRAY option" where
  "ffi_stream_add_u24 al ba u =
     map_option snd (bytearray_writebuffer al ba
       [ucast (u AND 0xff), ucast (drop_bit 8 u AND 0xff), ucast (drop_bit 16 u AND 0xff)])"

definition ffi_stream_add_d64 :: "allocator \<Rightarrow> BYTEARRAY \<Rightarrow> u64 \<Rightarrow> BYTEARRAY option" where
  "ffi_stream_add_d64 al ba value = map_option snd (bytearray_write64d al ba value)"

definition ffi_stream_add_string :: "allocator \<Rightarrow> BYTEARRAY \<Rightarrow> bytes \<Rightarrow> BYTEARRAY option" where
  "ffi_stream_add_string al ba data =
     do { ba1 \<leftarrow> ffi_stream_add_u30 al ba (word_of_nat (length data));
          map_option snd (bytearray_writebuffer al ba1 data) }"

definition ffi_stream_add_bytes :: "allocator \<Rightarrow> BYTEARRAY \<Rightarrow> bytes \<Rightarrow> BYTEARRAY option" where
  "ffi_stream_add_bytes al ba data = map_option snd (bytearray_writebuffer al ba data)"

text \<open>The package is the first \<open>total\<close> bytes of the block, wherever the cursor is.\<close>

definition ffi_stream_package :: "BYTEARRAY \<Rightarrow> (bytes \<times> BYTEARRAY) option" where
  "ffi_stream_package ba =
     (let ba' = snd (bytearray_read_ready ba)
      in do { v \<leftarrow> (if ba_total ba' = 0 then Some [] else load_at (ba_buffer ba') 0 (ba_total ba'));
              Some (v, ba') })"

definition ffi_stream_prepare_get :: "BYTEARRAY \<Rightarrow> bool \<times> BYTEARRAY" where
  "ffi_stream_prepare_get ba = bytearray_read_ready ba"

definition ffi_stream_prepare_add :: "BYTEARRAY \<Rightarrow> (bool \<times> BYTEARRAY) option" where
  "ffi_stream_prepare_add ba = bytearray_write_ready ba"

definition ffi_stream_empty :: "BYTEARRAY \<Rightarrow> bool \<times> BYTEARRAY" where
  "ffi_stream_empty ba = bytearray_empty ba"

section \<open>The Lua binding\<close>

text \<open>
  What a binding pushes on the Lua stack, in order. Arguments are the values \<open>luaL_checkinteger\<close>,
  \<open>luaL_checknumber\<close> and \<open>luaL_checklstring\<close> deliver; a C conversion to a narrower type is written
  out. An optional length is \<open>None\<close> when the Lua caller leaves it out.
\<close>

datatype lua_push = PNil | PBool bool | PInteger int | PNumber u64 | PString bytes

definition push_getter ::
  "('a \<Rightarrow> lua_push) \<Rightarrow> ('a option \<times> BYTEARRAY) option \<Rightarrow> (lua_push list \<times> BYTEARRAY) option" where
  "push_getter push r =
     map_option (\<lambda>(v, ba). (case v of None \<Rightarrow> [] | Some x \<Rightarrow> [push x], ba)) r"

definition luafan_stream_new :: "allocator \<Rightarrow> BYTEARRAY \<Rightarrow> bytes option \<Rightarrow> BYTEARRAY option" where
  "luafan_stream_new al ba data = ffi_stream_new al ba data"

definition luafan_stream_gc :: "BYTEARRAY \<Rightarrow> BYTEARRAY" where
  "luafan_stream_gc ba = ffi_stream_gc ba"

definition luafan_stream_available :: "BYTEARRAY \<Rightarrow> lua_push list" where
  "luafan_stream_available ba = [PInteger (int (ffi_stream_available ba))]"

definition luafan_stream_get_u8 :: "BYTEARRAY \<Rightarrow> (lua_push list \<times> BYTEARRAY) option" where
  "luafan_stream_get_u8 ba = push_getter (\<lambda>v. PInteger (uint v)) (ffi_stream_get_u8 ba)"

definition luafan_stream_add_u8 :: "allocator \<Rightarrow> BYTEARRAY \<Rightarrow> int \<Rightarrow> BYTEARRAY option" where
  "luafan_stream_add_u8 al ba arg = ffi_stream_add_u8 al ba (word_of_int arg)"

definition luafan_stream_get_u16 :: "BYTEARRAY \<Rightarrow> (lua_push list \<times> BYTEARRAY) option" where
  "luafan_stream_get_u16 ba = push_getter (\<lambda>v. PInteger (uint v)) (ffi_stream_get_u16 ba)"

definition luafan_stream_add_u16 :: "allocator \<Rightarrow> BYTEARRAY \<Rightarrow> int \<Rightarrow> BYTEARRAY option" where
  "luafan_stream_add_u16 al ba arg = ffi_stream_add_u16 al ba (word_of_int arg)"

definition luafan_stream_get_u32 :: "BYTEARRAY \<Rightarrow> (lua_push list \<times> BYTEARRAY) option" where
  "luafan_stream_get_u32 ba = push_getter (\<lambda>v. PInteger (uint v)) (ffi_stream_get_u32 ba)"

definition luafan_stream_get_u30 :: "BYTEARRAY \<Rightarrow> (lua_push list \<times> BYTEARRAY) option" where
  "luafan_stream_get_u30 ba = push_getter (\<lambda>v. PInteger (uint v)) (ffi_stream_get_u30 ba)"

definition luafan_stream_add_u30 :: "allocator \<Rightarrow> BYTEARRAY \<Rightarrow> int \<Rightarrow> BYTEARRAY option" where
  "luafan_stream_add_u30 al ba arg = ffi_stream_add_u30 al ba (word_of_int arg)"

definition luafan_stream_get_s24 :: "BYTEARRAY \<Rightarrow> (lua_push list \<times> BYTEARRAY) option" where
  "luafan_stream_get_s24 ba = push_getter PInteger (ffi_stream_get_s24 ba)"

definition luafan_stream_get_u24 :: "BYTEARRAY \<Rightarrow> (lua_push list \<times> BYTEARRAY) option" where
  "luafan_stream_get_u24 ba = push_getter (\<lambda>v. PInteger (uint v)) (ffi_stream_get_u24 ba)"

definition luafan_stream_add_u24 :: "allocator \<Rightarrow> BYTEARRAY \<Rightarrow> int \<Rightarrow> BYTEARRAY option" where
  "luafan_stream_add_u24 al ba arg = ffi_stream_add_u24 al ba (word_of_int arg)"

definition luafan_stream_get_d64 :: "BYTEARRAY \<Rightarrow> (lua_push list \<times> BYTEARRAY) option" where
  "luafan_stream_get_d64 ba = push_getter PNumber (ffi_stream_get_d64 ba)"

definition luafan_stream_add_d64 :: "allocator \<Rightarrow> BYTEARRAY \<Rightarrow> u64 \<Rightarrow> BYTEARRAY option" where
  "luafan_stream_add_d64 al ba value = ffi_stream_add_d64 al ba value"

definition luafan_stream_get_string :: "BYTEARRAY \<Rightarrow> (lua_push list \<times> BYTEARRAY) option" where
  "luafan_stream_get_string ba =
     do { ((buff, buflen), ba') \<leftarrow> ffi_stream_get_string ba;
          Some (case buff of Some s \<Rightarrow> [PString s] | None \<Rightarrow> [PNil, PInteger (int buflen)], ba') }"

definition luafan_stream_mark :: "BYTEARRAY \<Rightarrow> lua_push list \<times> BYTEARRAY" where
  "luafan_stream_mark ba =
     (let (ok, ba') = ffi_stream_mark ba in (if ok then [PBool True] else [], ba'))"

definition luafan_stream_reset :: "BYTEARRAY \<Rightarrow> lua_push list \<times> BYTEARRAY" where
  "luafan_stream_reset ba =
     (let (ok, ba') = ffi_stream_reset ba in (if ok then [PBool True] else [], ba'))"

definition opt_buflen :: "int option \<Rightarrow> nat" where
  "opt_buflen arg = unat (word_of_int (case arg of None \<Rightarrow> -1 | Some n \<Rightarrow> n) :: u64)"

definition luafan_stream_test_bytes :: "BYTEARRAY \<Rightarrow> int option \<Rightarrow> lua_push list option" where
  "luafan_stream_test_bytes ba arg =
     (let buflen = opt_buflen arg
      in if buflen = 0 then Some []
         else do { v \<leftarrow> ffi_stream_test_bytes ba buflen;
                   Some (if ba_buffer ba \<noteq> None \<and> v \<noteq> [] then [PString v] else []) })"

definition luafan_stream_get_bytes ::
  "BYTEARRAY \<Rightarrow> int option \<Rightarrow> (lua_push list \<times> BYTEARRAY) option" where
  "luafan_stream_get_bytes ba arg =
     (let buflen = opt_buflen arg
      in if buflen = 0 then Some ([], ba)
         else do { (v, ba') \<leftarrow> ffi_stream_get_bytes ba buflen;
                   Some (if ba_buffer ba \<noteq> None \<and> v \<noteq> [] then [PString v] else [], ba') })"

definition luafan_stream_add_string :: "allocator \<Rightarrow> BYTEARRAY \<Rightarrow> bytes \<Rightarrow> BYTEARRAY option" where
  "luafan_stream_add_string al ba data = ffi_stream_add_string al ba data"

definition luafan_stream_add_bytes :: "allocator \<Rightarrow> BYTEARRAY \<Rightarrow> bytes \<Rightarrow> BYTEARRAY option" where
  "luafan_stream_add_bytes al ba data = ffi_stream_add_bytes al ba data"

definition luafan_stream_package :: "BYTEARRAY \<Rightarrow> (lua_push list \<times> BYTEARRAY) option" where
  "luafan_stream_package ba =
     map_option (\<lambda>(v, ba'). ([PString v], ba')) (ffi_stream_package ba)"

definition luafan_stream_prepare_get :: "BYTEARRAY \<Rightarrow> lua_push list \<times> BYTEARRAY" where
  "luafan_stream_prepare_get ba = (let (ok, ba') = ffi_stream_prepare_get ba in ([PBool ok], ba'))"

definition luafan_stream_prepare_add :: "BYTEARRAY \<Rightarrow> (lua_push list \<times> BYTEARRAY) option" where
  "luafan_stream_prepare_add ba =
     map_option (\<lambda>(ok, ba'). ([PBool ok], ba')) (ffi_stream_prepare_add ba)"

definition luafan_stream_empty :: "BYTEARRAY \<Rightarrow> lua_push list \<times> BYTEARRAY" where
  "luafan_stream_empty ba = (let (ok, ba') = ffi_stream_empty ba in ([PBool ok], ba'))"

section \<open>Element codecs\<close>

text \<open>The byte string an adder appends, and the decoder that a getter implements.\<close>

function enc_u30 :: "u32 \<Rightarrow> bytes" where
  "enc_u30 u = u30_byte u # (if drop_bit 7 u \<noteq> 0 then enc_u30 (drop_bit 7 u) else [])"
  by pat_completeness auto
termination
  by (relation "measure unat") (auto simp: drop_bit_7_less)

declare enc_u30.simps [simp del]

fun dec_u30_loop :: "u32 \<Rightarrow> nat \<Rightarrow> bytes \<Rightarrow> (u32 \<times> bytes) option" where
  "dec_u30_loop value shift [] = None"
| "dec_u30_loop value shift (b # bs) =
     (let value' = value OR push_bit shift (ucast (b AND 127))
      in if b AND 128 = 0 \<or> 30 < shift + 7 then Some (value', bs)
         else dec_u30_loop value' (shift + 7) bs)"

definition dec_u30 :: "bytes \<Rightarrow> (u32 \<times> bytes) option" where
  "dec_u30 bs = dec_u30_loop 0 0 bs"

definition enc_d64 :: "u64 \<Rightarrow> bytes" where
  "enc_d64 v = le_bytes 8 (unat v)"

definition dec_d64 :: "bytes \<Rightarrow> (u64 \<times> bytes) option" where
  "dec_d64 bs = (if 8 \<le> length bs then Some (word_of_nat (le_val (take 8 bs)), drop 8 bs) else None)"

definition enc_string :: "bytes \<Rightarrow> bytes" where
  "enc_string s = enc_u30 (word_of_nat (length s)) @ s"

definition dec_string :: "bytes \<Rightarrow> (bytes \<times> bytes) option" where
  "dec_string bs =
     (case dec_u30 bs of None \<Rightarrow> None
      | Some (n, r) \<Rightarrow> if unat n \<le> length r then Some (take (unat n) r, drop (unat n) r) else None)"

lemma bit_127_u8: "bit (127 :: u8) n \<longleftrightarrow> n < 7"
  using bit_mask_iff [of 7 n, where ?'a = u8] by (auto simp: mask_eq_exp_minus_1)

lemma bit_127_u32: "bit (127 :: u32) n \<longleftrightarrow> n < 7"
  using bit_mask_iff [of 7 n, where ?'a = u32] by (auto simp: mask_eq_exp_minus_1)

lemma bit_128_u8: "bit (128 :: u8) n \<longleftrightarrow> n = 7"
  using bit_exp_iff [of 7 n, where ?'a = u8] by auto

lemma bit_128_u32: "bit (128 :: u32) n \<longleftrightarrow> n = 7"
  using bit_exp_iff [of 7 n, where ?'a = u32] by auto

lemma bit_127_int: "bit (127 :: int) n \<longleftrightarrow> n < 7"
  using bit_mask_iff [of 7 n, where ?'a = int] by (auto simp: mask_eq_exp_minus_1)

lemma bit_128_int: "bit (128 :: int) n \<longleftrightarrow> n = 7"
  using bit_exp_iff [of 7 n, where ?'a = int] by auto

lemma bit_127_nat: "bit (127 :: nat) n \<longleftrightarrow> n < 7"
  using bit_mask_iff [of 7 n, where ?'a = nat] by (auto simp: mask_eq_exp_minus_1)

lemma bit_128_nat: "bit (128 :: nat) n \<longleftrightarrow> n = 7"
  using bit_exp_iff [of 7 n, where ?'a = nat] by auto

lemmas bit_7 = bit_127_u8 bit_127_u32 bit_128_u8 bit_128_u32 bit_127_int bit_128_int
  bit_127_nat bit_128_nat

lemma u30_byte_low: "ucast (u30_byte u AND 127) = (take_bit 7 u :: u32)"
  by (rule bit_word_eqI) (auto simp: u30_byte_def bit_simps bit_7)

lemma high_part_zero: "u AND NOT 0x7f = 0 \<longleftrightarrow> drop_bit 7 (u :: u32) = 0"
proof -
  have "u AND NOT (mask 7) = push_bit 7 (drop_bit 7 u)"
    by (rule bit_word_eqI) (auto simp: bit_simps)
  moreover have "(mask 7 :: u32) = 0x7f" by (simp add: mask_eq_exp_minus_1)
  moreover have "drop_bit 7 (push_bit 7 (drop_bit 7 u)) = drop_bit 7 u"
    by (rule bit_word_eqI) (auto simp: bit_simps dest: bit_imp_le_length)
  then have "push_bit 7 (drop_bit 7 u) = 0 \<longleftrightarrow> drop_bit 7 u = 0"
    by (metis drop_bit_of_0 push_bit_of_0)
  ultimately show ?thesis by simp
qed

lemma u30_byte_more: "u30_byte u AND 128 = 0 \<longleftrightarrow> drop_bit 7 u = 0"
proof -
  have "bit (u30_byte u) 7 \<longleftrightarrow> u AND NOT 0x7f \<noteq> 0"
    by (simp add: u30_byte_def bit_simps bit_7)
  moreover have "u30_byte u AND 128 = 0 \<longleftrightarrow> \<not> bit (u30_byte u) 7"
    using and_exp_eq_0_iff_not_bit [of "u30_byte u" 7] by simp
  ultimately show ?thesis using high_part_zero by blast
qed

lemma dec_u30_loop_enc:
  "k \<le> 4 \<Longrightarrow>
   dec_u30_loop (take_bit (7 * k) w) (7 * k) (enc_u30 (drop_bit (7 * k) w) @ rest) = Some (w, rest)"
proof (induction "4 - k" arbitrary: k)
  case 0
  then have k: "k = 4" by simp
  have "drop_bit 35 w = 0" "take_bit 35 w = w" "take_bit 28 w OR push_bit 28 (take_bit 7 (drop_bit 28 w)) = w"
    by (rule bit_word_eqI; auto simp: bit_simps)+
  then show ?case
    unfolding k by (subst enc_u30.simps) (simp add: u30_byte_low drop_bit_drop_bit)
next
  case (Suc n)
  let ?s = "7 * k" and ?u = "drop_bit (7 * k) w"
  have join: "take_bit ?s w OR push_bit ?s (take_bit 7 ?u) = take_bit (7 * Suc k) w"
    by (rule bit_word_eqI) (auto simp: bit_simps)
  have nxt: "drop_bit 7 ?u = drop_bit (7 * Suc k) w"
    by (simp add: drop_bit_drop_bit add.commute)
  show ?case
  proof (cases "drop_bit 7 ?u = 0")
    case True
    then have "take_bit (7 * Suc k) w = w"
      unfolding nxt by (metis bits_ident add_0 push_bit_of_0)
    with True show ?thesis
      by (subst enc_u30.simps) (simp add: u30_byte_low u30_byte_more join)
  next
    case False
    have "n = 4 - Suc k" "Suc k \<le> 4" using Suc by auto
    with Suc.hyps(1) [of "Suc k"]
    have "dec_u30_loop (take_bit (7 * Suc k) w) (7 * Suc k) (enc_u30 (drop_bit 7 ?u) @ rest) = Some (w, rest)"
      unfolding nxt by simp
    with False \<open>Suc k \<le> 4\<close> show ?thesis
      by (subst enc_u30.simps) (simp add: u30_byte_low u30_byte_more join add.commute)
  qed
qed

lemma dec_u30_enc: "dec_u30 (enc_u30 u @ rest) = Some (u, rest)"
  using dec_u30_loop_enc [of 0 u rest] by (simp add: dec_u30_def)

lemma dec_d64_enc: "dec_d64 (enc_d64 v @ rest) = Some (v, rest)"
proof -
  have "unat v mod 256 ^ 8 = unat v" using unsigned_less [of v, where ?'a = nat] by simp
  then show ?thesis by (simp add: dec_d64_def enc_d64_def)
qed

lemma dec_string_enc:
  assumes "length s < 2 ^ 32"
  shows "dec_string (enc_string s @ rest) = Some (s, rest)"
proof -
  have "unat (word_of_nat (length s) :: u32) = length s" using assms by (simp add: unat_of_nat)
  then show ?thesis by (simp add: dec_string_def enc_string_def dec_u30_enc)
qed

interpretation u30: element_codec enc_u30 dec_u30 "\<lambda>_. True"
  by unfold_locales (rule dec_u30_enc)

interpretation d64: element_codec enc_d64 dec_d64 "\<lambda>_. True"
  by unfold_locales (rule dec_d64_enc)

interpretation lstring: element_codec enc_string dec_string "\<lambda>s. length s < 2 ^ 32"
  by unfold_locales (rule dec_string_enc)

lemma enc_u30_length_ge: "1 \<le> length (enc_u30 u)"
  by (subst enc_u30.simps) simp

lemma enc_u30_length: "length (enc_u30 u) \<le> 5"
  proof -
  have "drop_bit 35 u = 0" by (rule bit_word_eqI) (auto simp: bit_simps)
  then show ?thesis
    by (simp add: enc_u30.simps [of u] enc_u30.simps [of "drop_bit 7 u"] enc_u30.simps [of "drop_bit 14 u"]
        enc_u30.simps [of "drop_bit 21 u"] enc_u30.simps [of "drop_bit 28 u"] drop_bit_drop_bit)
qed

section \<open>Buffers as sources and sinks of elements\<close>

text \<open>Only the cursor moved.\<close>

definition moved :: "BYTEARRAY \<Rightarrow> BYTEARRAY \<Rightarrow> bool" where
  "moved ba ba' \<longleftrightarrow> ba_wf ba' \<and> ba' = ba\<lparr>ba_offset := ba_offset ba'\<rparr>"

lemma moved_wf: "moved ba ba' \<Longrightarrow> ba_wf ba'"
  by (simp add: moved_def)

lemma moved_refl: "ba_wf ba \<Longrightarrow> moved ba ba"
  by (simp add: moved_def)

lemma moved_trans: "moved a b \<Longrightarrow> moved b c \<Longrightarrow> moved a c"
  unfolding moved_def by (metis BYTEARRAY.select_convs(1) BYTEARRAY.surjective BYTEARRAY.update_convs(1))

lemma moved_advance:
  "ba_wf ba \<Longrightarrow> n \<le> length (unread ba) \<Longrightarrow> moved ba (ba\<lparr>ba_offset := ba_offset ba + n\<rparr>)"
  by (simp add: moved_def advance_unread)

lemma moved_reading: "moved ba ba' \<Longrightarrow> ba_reading ba' = ba_reading ba"
  unfolding moved_def by (metis BYTEARRAY.select_convs(6) BYTEARRAY.surjective BYTEARRAY.update_convs(1))

fun get_seq :: "(BYTEARRAY \<Rightarrow> ('a option \<times> BYTEARRAY) option) \<Rightarrow> nat \<Rightarrow> BYTEARRAY
    \<Rightarrow> ('a list option \<times> BYTEARRAY) option" where
  "get_seq get 0 ba = Some (Some [], ba)"
| "get_seq get (Suc n) ba =
     (case get ba of None \<Rightarrow> None
      | Some (None, ba') \<Rightarrow> Some (None, ba')
      | Some (Some x, ba') \<Rightarrow>
          (case get_seq get n ba' of None \<Rightarrow> None
           | Some (None, ba'') \<Rightarrow> Some (None, ba'')
           | Some (Some xs, ba'') \<Rightarrow> Some (Some (x # xs), ba'')))"

definition source_result ::
  "BYTEARRAY \<Rightarrow> ('a \<times> bytes) option \<Rightarrow> ('a option \<times> BYTEARRAY) option \<Rightarrow> bool" where
  "source_result ba d r \<longleftrightarrow>
     (\<exists>v ba'. r = Some (v, ba') \<and> moved ba ba' \<and>
        (case d of None \<Rightarrow> v = None | Some (x, rest) \<Rightarrow> v = Some x \<and> unread ba' = rest))"

locale byte_source =
  fixes get :: "BYTEARRAY \<Rightarrow> ('a option \<times> BYTEARRAY) option"
    and dec :: "bytes \<Rightarrow> ('a \<times> bytes) option"
  assumes get_dec: "ba_wf ba \<Longrightarrow> ba_reading ba \<Longrightarrow> source_result ba (dec (unread ba)) (get ba)"
begin

lemma get_seq_dec:
  "ba_wf ba \<Longrightarrow> ba_reading ba \<Longrightarrow>
     source_result ba (dec_seq dec n (unread ba)) (get_seq get n ba)"
proof (induction n arbitrary: ba)
  case 0
  then show ?case by (simp add: source_result_def moved_refl)
next
  case (Suc n)
  from get_dec [OF Suc.prems] obtain v ba' where g: "get ba = Some (v, ba')" "moved ba ba'"
      "case dec (unread ba) of None \<Rightarrow> v = None | Some (x, rest) \<Rightarrow> v = Some x \<and> unread ba' = rest"
    by (auto simp: source_result_def)
  show ?case
  proof (cases "dec (unread ba)")
    case None
    with g show ?thesis by (simp add: source_result_def)
  next
    case (Some p)
    then obtain x rest where d: "dec (unread ba) = Some (x, rest)" by (cases p) simp
    have "ba_wf ba'" "ba_reading ba'" "unread ba' = rest" "v = Some x"
      using g(1,3) d Suc.prems moved_wf [OF g(2)] moved_reading [OF g(2)] by auto
    with Suc.IH [of ba'] d g show ?thesis
      by (auto simp: source_result_def split: option.splits intro: moved_trans)
  qed
qed

end

lemma read8_source:
  "ba_wf ba \<Longrightarrow>
   source_result ba (case unread ba of [] \<Rightarrow> None | x # xs \<Rightarrow> Some (x, xs)) (bytearray_read8_optimized ba)"
  using moved_advance [of ba 1] advance_unread(2) [of ba 1]
  by (auto simp: read8_reads source_result_def moved_refl split: list.splits)

lemma get_u30_loop_source:
  "ba_wf ba \<Longrightarrow> source_result ba (dec_u30_loop value shift (unread ba)) (get_u30_loop ba value shift)"
proof (induction ba "value" shift rule: get_u30_loop.induct)
  case (1 ba "value" shift)
  note step = get_u30_loop.simps [of ba "value" shift]
  show ?case
  proof (cases "unread ba")
    case Nil
    with 1(2) show ?thesis by (simp add: step read8_reads source_result_def moved_refl)
  next
    case (Cons b bs)
    let ?ba' = "ba\<lparr>ba_offset := ba_offset ba + 1\<rparr>"
    let ?v = "value OR push_bit shift (ucast (b AND 127))"
    have r: "bytearray_read8 ba = Some (Some b, ?ba')" using Cons 1(2) by (simp add: read8_reads)
    have m: "moved ba ?ba'" "ba_wf ?ba'" "unread ?ba' = bs"
      using Cons 1(2) moved_advance [of ba 1] advance_unread [of ba 1] by auto
    show ?thesis
    proof (cases "b AND 128 = 0 \<or> 30 < shift + 7")
      case True
      with Cons r m show ?thesis by (auto simp: step source_result_def)
    next
      case False
      have "source_result ?ba' (dec_u30_loop ?v (shift + 7) bs) (get_u30_loop ?ba' ?v (shift + 7))"
        using 1(1) [OF r refl refl refl refl] False m by simp
      moreover have "source_result ba d x" if "source_result ?ba' d x" for d :: "(u32 \<times> bytes) option" and x
        using that m(1) by (auto simp: source_result_def intro: moved_trans)
      ultimately show ?thesis using False Cons r by (simp add: step)
    qed
  qed
qed


lemma get_u30_source:
  "ba_wf ba \<Longrightarrow> source_result ba (dec_u30 (unread ba)) (ffi_stream_get_u30 ba)"
  by (simp add: ffi_stream_get_u30_def dec_u30_def get_u30_loop_source)

lemma get_d64_source:
  "ba_wf ba \<Longrightarrow> source_result ba (dec_d64 (unread ba)) (ffi_stream_get_d64 ba)"
  by (auto simp: ffi_stream_get_d64_def bytearray_read64d_optimized_def read_word_reads dec_d64_def
      source_result_def moved_advance moved_refl advance_unread)

text \<open>The string getter without the number of bytes to wait for.\<close>

definition get_string_value :: "BYTEARRAY \<Rightarrow> (bytes option \<times> BYTEARRAY) option" where
  "get_string_value ba = map_option (\<lambda>((s, _), ba'). (s, ba')) (ffi_stream_get_string ba)"

lemma peek_unread:
  assumes "ba_wf ba" and "n \<le> length (unread ba)"
  shows "peek ba n = Some (take n (unread ba))"
proof -
  from assms(1) obtain b where b: "ba_buffer ba = Some b" "length b = ba_buflen ba"
    "ba_offset ba \<le> ba_total ba" "ba_total ba \<le> ba_buflen ba" "ba_buflen ba < 2 ^ 63"
    by (rule ba_wfE)
  with assms(2) show ?thesis
    by (simp add: peek_def unread_def load_at_def min_absorb1)
qed

lemma read_available_unread:
  "ba_wf ba \<Longrightarrow> ba_reading ba \<Longrightarrow> bytearray_read_available ba = length (unread ba)"
  by (auto elim!: ba_wfE simp: bytearray_read_available_def unread_def)

lemma moved_back: "moved ba ba1 \<Longrightarrow> ba1\<lparr>ba_offset := ba_offset ba\<rparr> = ba"
proof -
  assume "moved ba ba1"
  then have "ba1 = ba\<lparr>ba_offset := ba_offset ba1\<rparr>" unfolding moved_def by (rule conjunct2)
  then have "ba1\<lparr>ba_offset := ba_offset ba\<rparr> =
      ba\<lparr>ba_offset := ba_offset ba1\<rparr>\<lparr>ba_offset := ba_offset ba\<rparr>" by (rule arg_cong)
  also have "\<dots> = ba" by simp
  finally show ?thesis .
qed

lemma get_string_source:
  assumes wf: "ba_wf ba" and rd: "ba_reading ba"
  shows "source_result ba (dec_string (unread ba)) (get_string_value ba)"
proof -
  from get_u30_source [OF wf] obtain v ba1 where g: "ffi_stream_get_u30 ba = Some (v, ba1)"
      "moved ba ba1" "case dec_u30 (unread ba) of None \<Rightarrow> v = None
         | Some (x, rest) \<Rightarrow> v = Some x \<and> unread ba1 = rest"
    by (auto simp: source_result_def)
  have ba1: "ba_wf ba1" "ba_reading ba1" using moved_wf [OF g(2)] moved_reading [OF g(2)] rd by auto
  show ?thesis
  proof (cases "dec_u30 (unread ba)")
    case None
    with g wf show ?thesis
      by (simp add: get_string_value_def ffi_stream_get_string_def dec_string_def source_result_def
          moved_back moved_refl Let_def)
  next
    case (Some p)
    then obtain n r where d: "dec_u30 (unread ba) = Some (n, r)" by (cases p) simp
    with g have v: "v = Some n" "unread ba1 = r" by auto
    show ?thesis
    proof (cases "unat n \<le> length r")
      case True
      with ba1 v have "peek ba1 (unat n) = Some (take (unat n) r)"
        "bytearray_readbuffer ba1 False n = Some (Some [], ba1\<lparr>ba_offset := ba_offset ba1 + unat n\<rparr>)"
        "moved ba1 (ba1\<lparr>ba_offset := ba_offset ba1 + unat n\<rparr>)"
        "unread (ba1\<lparr>ba_offset := ba_offset ba1 + unat n\<rparr>) = drop (unat n) r"
        by (simp_all add: peek_unread readbuffer_skips moved_advance advance_unread)
      with True d g(1,2) v ba1 show ?thesis
        by (auto simp: get_string_value_def ffi_stream_get_string_def dec_string_def source_result_def
            read_available_unread intro: moved_trans)
    next
      case False
      with d g v ba1 wf show ?thesis
        by (simp add: get_string_value_def ffi_stream_get_string_def dec_string_def source_result_def
            read_available_unread moved_back moved_refl Let_def)
    qed
  qed
qed

interpretation u30_source: byte_source ffi_stream_get_u30 dec_u30
  by unfold_locales (rule get_u30_source)

interpretation d64_source: byte_source ffi_stream_get_d64 dec_d64
  by unfold_locales (rule get_d64_source)

interpretation string_source: byte_source get_string_value dec_string
  by unfold_locales (rule get_string_source)

text \<open>
  A buffer the adders may grow, and an allocator that grants every request. Then an adder appends the
  encoding of its element.
\<close>

definition growable :: "BYTEARRAY \<Rightarrow> bool" where
  "growable ba \<longleftrightarrow> ba_wf ba \<and> \<not> ba_wrapbuffer ba"

lemma appended_refl: "ba_wf ba \<Longrightarrow> appended ba [] ba"
  by (simp add: appended_def)

lemma appended_trans: "appended a xs b \<Longrightarrow> appended b ys c \<Longrightarrow> appended a (xs @ ys) c"
  by (auto simp: appended_def)

lemma appended_growable: "appended ba bs ba' \<Longrightarrow> growable ba \<Longrightarrow> growable ba'"
  by (simp add: appended_def growable_def)

lemma alloc_empty:
  assumes "roomy al"
  shows "growable (snd (bytearray_alloc al ba0 len))" and "written (snd (bytearray_alloc al ba0 len)) = []"
    and "\<not> ba_reading (snd (bytearray_alloc al ba0 len))"
    and "ba_offset (snd (bytearray_alloc al ba0 len)) = 0"
  using assms unsigned_less [of len, where ?'a = nat]
  by (auto simp: bytearray_alloc_def malloc_def roomy_def growable_def ba_wf_def written_def
      MIN_CAPACITY_def Let_def)

lemma appended_from_empty:
  "appended d bs d' \<Longrightarrow> written d = [] \<Longrightarrow> \<not> ba_reading d \<Longrightarrow>
     ba_wf d' \<and> \<not> ba_reading d' \<and> written d' = bs"
  by (simp add: appended_def)

lemma appended_room:
  "appended d bs d' \<Longrightarrow> ba_offset d + (length bs + n) \<le> N \<Longrightarrow> ba_offset d' + n \<le> N"
  by (simp add: appended_def)

primrec put_seq ::
  "(allocator \<Rightarrow> BYTEARRAY \<Rightarrow> 'a \<Rightarrow> BYTEARRAY option) \<Rightarrow> allocator \<Rightarrow> 'a list \<Rightarrow> BYTEARRAY
     \<Rightarrow> BYTEARRAY option" where
  "put_seq put al [] ba = Some ba"
| "put_seq put al (x # xs) ba = (case put al ba x of None \<Rightarrow> None | Some ba' \<Rightarrow> put_seq put al xs ba')"

locale byte_sink =
  fixes put :: "allocator \<Rightarrow> BYTEARRAY \<Rightarrow> 'a \<Rightarrow> BYTEARRAY option"
    and enc :: "'a \<Rightarrow> bytes"
  assumes put_enc:
    "roomy al \<Longrightarrow> growable ba \<Longrightarrow> ba_offset ba + length (enc x) \<le> 2 ^ 62 \<Longrightarrow>
       \<exists>ba'. put al ba x = Some ba' \<and> appended ba (enc x) ba'"
begin

lemma put_seq_enc:
  "roomy al \<Longrightarrow> growable ba \<Longrightarrow> ba_offset ba + length (concat (map enc xs)) \<le> 2 ^ 62 \<Longrightarrow>
     \<exists>ba'. put_seq put al xs ba = Some ba' \<and> appended ba (concat (map enc xs)) ba'"
proof (induction xs arbitrary: ba)
  case Nil
  then show ?case by (simp add: appended_refl growable_def)
next
  case (Cons x xs)
  then obtain ba' where b: "put al ba x = Some ba'" "appended ba (enc x) ba'"
    using put_enc [of al ba x] by auto
  have "ba_offset ba' + length (concat (map enc xs)) \<le> 2 ^ 62"
    using b Cons.prems by (simp add: appended_def)
  with Cons b obtain ba'' where "put_seq put al xs ba' = Some ba''"
      "appended ba' (concat (map enc xs)) ba''"
    using appended_growable by blast
  with b show ?case by (auto intro: appended_trans)
qed

end

lemma write_value_roomy:
  assumes "roomy al" and "growable ba" and "ba_offset ba + length bs \<le> 2 ^ 62"
  shows "\<exists>ba'. write_value_optimized al ba bs = Some (True, ba') \<and> appended ba bs ba'"
proof -
  have "ba_wf ba" "can_grow al ba (length bs)"
    using assms by (auto simp: can_grow_def roomy_def growable_def)
  then show ?thesis using write_value_writes [of ba bs al] assms(3) by (auto elim: writesE)
qed

lemma write8_roomy:
  assumes "roomy al" and "growable ba" and "ba_offset ba + 1 \<le> 2 ^ 62"
  shows "\<exists>ba'. bytearray_write8_optimized al ba v = Some (True, ba') \<and> appended ba [v] ba'"
  using write_value_roomy [of al ba "[v]"] assms by (simp add: growable_def write8_is_write_value)

lemma add_u30_sink:
  "roomy al \<Longrightarrow> growable ba \<Longrightarrow> ba_offset ba + length (enc_u30 u) \<le> 2 ^ 62 \<Longrightarrow>
     \<exists>ba'. ffi_stream_add_u30 al ba u = Some ba' \<and> appended ba (enc_u30 u) ba'"
proof (induction al ba u rule: ffi_stream_add_u30.induct)
  case (1 al ba u)
  have "ba_offset ba + 1 \<le> 2 ^ 62"
    using 1(4) enc_u30_length_ge [of u] by simp
  then obtain ba' where w: "bytearray_write8 al ba (u30_byte u) = Some (True, ba')"
      "appended ba [u30_byte u] ba'"
    using write8_roomy [of al ba "u30_byte u"] 1(2,3) by auto
  show ?case
  proof (cases "drop_bit 7 u = 0")
    case True
    with w show ?thesis
      by (simp add: ffi_stream_add_u30.simps [of al ba u] enc_u30.simps [of u])
  next
    case False
    then have "growable ba'" "ba_offset ba' + length (enc_u30 (drop_bit 7 u)) \<le> 2 ^ 62"
      using w 1(3,4) by (auto simp: enc_u30.simps [of u] appended_def growable_def)
    then obtain ba'' where "ffi_stream_add_u30 al ba' (drop_bit 7 u) = Some ba''"
        "appended ba' (enc_u30 (drop_bit 7 u)) ba''"
      using 1(1) [OF w(1) refl False 1(2)] by auto
    with False w show ?thesis
      by (auto simp: ffi_stream_add_u30.simps [of al ba u] enc_u30.simps [of u] dest: appended_trans)
  qed
qed

lemma add_bytes_sink:
  "roomy al \<Longrightarrow> growable ba \<Longrightarrow> ba_offset ba + length s \<le> 2 ^ 62 \<Longrightarrow>
     \<exists>ba'. ffi_stream_add_bytes al ba s = Some ba' \<and> appended ba s ba'"
  using write_value_roomy [of al ba s]
  by (auto simp: ffi_stream_add_bytes_def bytearray_writebuffer_optimized_def)

lemma add_d64_sink:
  "roomy al \<Longrightarrow> growable ba \<Longrightarrow> ba_offset ba + length (enc_d64 v) \<le> 2 ^ 62 \<Longrightarrow>
     \<exists>ba'. ffi_stream_add_d64 al ba v = Some ba' \<and> appended ba (enc_d64 v) ba'"
  using write_value_roomy [of al ba "enc_d64 v"]
  by (auto simp: ffi_stream_add_d64_def bytearray_write64d_optimized_def enc_d64_def)

lemma add_string_sink:
  assumes "roomy al" and "growable ba" and "ba_offset ba + length (enc_string s) \<le> 2 ^ 62"
  shows "\<exists>ba'. ffi_stream_add_string al ba s = Some ba' \<and> appended ba (enc_string s) ba'"
proof -
  obtain ba1 where a: "ffi_stream_add_u30 al ba (word_of_nat (length s)) = Some ba1"
      "appended ba (enc_u30 (word_of_nat (length s))) ba1"
    using add_u30_sink [of al ba "word_of_nat (length s)"] assms by (auto simp: enc_string_def)
  then have "growable ba1" "ba_offset ba1 + length s \<le> 2 ^ 62"
    using assms by (auto simp: appended_growable appended_def enc_string_def growable_def)
  then obtain ba2 where "ffi_stream_add_bytes al ba1 s = Some ba2" "appended ba1 s ba2"
    using add_bytes_sink assms(1) by blast
  with a show ?thesis
    by (auto simp: ffi_stream_add_string_def ffi_stream_add_bytes_def enc_string_def dest: appended_trans)
qed

interpretation u30_sink: byte_sink ffi_stream_add_u30 enc_u30
  by unfold_locales (rule add_u30_sink)

interpretation d64_sink: byte_sink ffi_stream_add_d64 enc_d64
  by unfold_locales (rule add_d64_sink)

interpretation string_sink: byte_sink ffi_stream_add_string enc_string
  by unfold_locales (rule add_string_sink)

section \<open>Typed items\<close>

text \<open>The kinds of element the Lua interface can add, with the getter that belongs to each.\<close>

datatype item = IU8 u8 | IU16 u16 | IU24 u32 | IS24 int | IU30 u32 | ID64 u64 | IString bytes
datatype item_kind = KU8 | KU16 | KU24 | KS24 | KU30 | KD64 | KString

primrec kind_of :: "item \<Rightarrow> item_kind" where
  "kind_of (IU8 v) = KU8"
| "kind_of (IU16 v) = KU16"
| "kind_of (IU24 v) = KU24"
| "kind_of (IS24 v) = KS24"
| "kind_of (IU30 v) = KU30"
| "kind_of (ID64 v) = KD64"
| "kind_of (IString v) = KString"

primrec item_valid :: "item \<Rightarrow> bool" where
  "item_valid (IU8 v) = True"
| "item_valid (IU16 v) = True"
| "item_valid (IU24 v) = (unat v < 2 ^ 24)"
| "item_valid (IS24 v) = (- (2 ^ 23) \<le> v \<and> v < 2 ^ 23)"
| "item_valid (IU30 v) = True"
| "item_valid (ID64 v) = True"
| "item_valid (IString v) = (length v < 2 ^ 32)"

fun item_put :: "allocator \<Rightarrow> BYTEARRAY \<Rightarrow> item \<Rightarrow> BYTEARRAY option" where
  "item_put al ba (IU8 v) = ffi_stream_add_u8 al ba v"
| "item_put al ba (IU16 v) = ffi_stream_add_u16 al ba v"
| "item_put al ba (IU24 v) = ffi_stream_add_u24 al ba v"
| "item_put al ba (IS24 v) = ffi_stream_add_u24 al ba (word_of_int v)"
| "item_put al ba (IU30 v) = ffi_stream_add_u30 al ba v"
| "item_put al ba (ID64 v) = ffi_stream_add_d64 al ba v"
| "item_put al ba (IString v) = ffi_stream_add_string al ba v"

definition map_get ::
  "('a \<Rightarrow> 'b) \<Rightarrow> ('a option \<times> BYTEARRAY) option \<Rightarrow> ('b option \<times> BYTEARRAY) option" where
  "map_get f r = map_option (\<lambda>(v, ba). (map_option f v, ba)) r"

fun item_get :: "item_kind \<Rightarrow> BYTEARRAY \<Rightarrow> (item option \<times> BYTEARRAY) option" where
  "item_get KU8 ba = map_get IU8 (ffi_stream_get_u8 ba)"
| "item_get KU16 ba = map_get IU16 (ffi_stream_get_u16 ba)"
| "item_get KU24 ba = map_get IU24 (ffi_stream_get_u24 ba)"
| "item_get KS24 ba = map_get IS24 (ffi_stream_get_s24 ba)"
| "item_get KU30 ba = map_get IU30 (ffi_stream_get_u30 ba)"
| "item_get KD64 ba = map_get ID64 (ffi_stream_get_d64 ba)"
| "item_get KString ba = map_get IString (get_string_value ba)"

definition enc_u24 :: "u32 \<Rightarrow> bytes" where
  "enc_u24 u = [ucast (u AND 0xff), ucast (drop_bit 8 u AND 0xff), ucast (drop_bit 16 u AND 0xff)]"

primrec enc_item :: "item \<Rightarrow> bytes" where
  "enc_item (IU8 v) = [v]"
| "enc_item (IU16 v) = le_bytes 2 (unat v)"
| "enc_item (IU24 v) = enc_u24 v"
| "enc_item (IS24 v) = enc_u24 (word_of_int v)"
| "enc_item (IU30 v) = enc_u30 v"
| "enc_item (ID64 v) = enc_d64 v"
| "enc_item (IString v) = enc_string v"

fun get_items :: "item_kind list \<Rightarrow> BYTEARRAY \<Rightarrow> (item list option \<times> BYTEARRAY) option" where
  "get_items [] ba = Some (Some [], ba)"
| "get_items (k # ks) ba =
     (case item_get k ba of None \<Rightarrow> None
      | Some (None, ba') \<Rightarrow> Some (None, ba')
      | Some (Some x, ba') \<Rightarrow>
          (case get_items ks ba' of None \<Rightarrow> None
           | Some (None, ba'') \<Rightarrow> Some (None, ba'')
           | Some (Some xs, ba'') \<Rightarrow> Some (Some (x # xs), ba'')))"

lemma ucast_low_byte: "ucast ((x :: u32) AND 0xff) = (ucast x :: u8)"
proof -
  have "(0xff :: u32) = mask 8" by (simp add: mask_eq_exp_minus_1)
  show ?thesis unfolding \<open>0xff = mask 8\<close> by (rule bit_word_eqI) (auto simp: bit_simps)
qed

lemma le24_enc: "le24 (enc_u24 u) = take_bit 24 u"
proof (rule bit_word_eqI)
  fix n
  show "bit (le24 (enc_u24 u)) n = bit (take_bit 24 u) n"
    by (cases "n < 16") (auto simp: le24_def enc_u24_def ucast_low_byte bit_simps)
qed

lemma high_bit_enc: "(enc_u24 u ! 2) AND 0x80 = 0 \<longleftrightarrow> \<not> bit u 23"
  using and_exp_eq_0_iff_not_bit [of "enc_u24 u ! 2" 7]
  by (simp add: enc_u24_def ucast_low_byte bit_simps)

lemma s24_value:
  assumes "- (2 ^ 23) \<le> x" and "x < 2 ^ 23"
  shows "(if (enc_u24 (word_of_int x) ! 2) AND 0x80 \<noteq> 0
          then -1 - uint (le24 (enc_u24 (word_of_int x)) XOR 0xffffff)
          else uint (le24 (enc_u24 (word_of_int x)))) = x"
proof -
  let ?w = "word_of_int x :: u32"
  have "bit ?w 23 \<longleftrightarrow> bit x 23" by (simp add: bit_simps)
  also have "\<dots> \<longleftrightarrow> x < 0"
  proof (cases "x < 0")
    case True
    have "x div 2 ^ 23 = -1"
      using True assms by (intro int_div_pos_eq [where r = "x + 2 ^ 23"]) simp_all
    then show ?thesis using True by (simp add: bit_iff_odd)
  next
    case False
    then have "x div 2 ^ 23 = 0" using assms by simp
    then show ?thesis using False by (simp add: bit_iff_odd)
  qed
  finally have sign: "bit ?w 23 \<longleftrightarrow> x < 0" .
  have low: "uint (take_bit 24 (word_of_int y :: u32)) = y mod 2 ^ 24" for y
  proof -
    have "uint (take_bit 24 (word_of_int y :: u32)) = take_bit 24 (take_bit 32 y)"
      by (simp only: unsigned_take_bit_eq) (simp add: uint_word_of_int take_bit_eq_mod)
    also have "\<dots> = take_bit 24 y" by (simp only: take_bit_take_bit)
    finally show ?thesis by (simp only: take_bit_eq_mod)
  qed
  have "(0xffffff :: u32) = mask 24" by (simp add: mask_eq_exp_minus_1)
  then have "take_bit 24 ?w XOR 0xffffff = take_bit 24 ?w XOR mask 24" by (rule arg_cong)
  also have "\<dots> = take_bit 24 (NOT ?w)" by (rule bit_word_eqI) (auto simp: bit_simps)
  also have "NOT ?w = word_of_int (- x - 1)"
    by (simp add: not_eq_complement)
  finally have flip: "uint (take_bit 24 ?w XOR 0xffffff) = (- x - 1) mod 2 ^ 24"
    using low [of "- x - 1"] by simp
  show ?thesis
  proof (cases "x < 0")
    case True
    then have "(- x - 1) mod 2 ^ 24 = - x - 1" using assms by (intro mod_pos_pos_trivial) simp_all
    with True flip sign show ?thesis by (simp add: le24_enc high_bit_enc)
  next
    case False
    then have "x mod 2 ^ 24 = x" using assms by (intro mod_pos_pos_trivial) simp_all
    with False low [of x] sign show ?thesis by (simp add: le24_enc high_bit_enc)
  qed
qed

lemma item_put_sink:
  "roomy al \<Longrightarrow> growable ba \<Longrightarrow> ba_offset ba + length (enc_item x) \<le> 2 ^ 62 \<Longrightarrow>
     \<exists>ba'. item_put al ba x = Some ba' \<and> appended ba (enc_item x) ba'"
  using add_u30_sink add_d64_sink add_string_sink write8_roomy [of al ba]
    write_value_roomy [of al ba "enc_item x"]
  by (cases x)
    (fastforce simp: ffi_stream_add_u8_def ffi_stream_add_u16_def ffi_stream_add_u24_def
      bytearray_write16_optimized_def bytearray_writebuffer_optimized_def enc_u24_def)+

interpretation item_sink: byte_sink item_put enc_item
  by unfold_locales (rule item_put_sink)

lemma source_result_map:
  "source_result ba d r \<Longrightarrow> source_result ba (map_option (\<lambda>(x, rest). (f x, rest)) d) (map_get f r)"
  by (auto simp: source_result_def map_get_def split: option.splits)

lemma readbuffer3_source:
  "ba_wf ba \<Longrightarrow> source_result ba (if 3 \<le> length (unread ba) then Some (take 3 (unread ba), drop 3 (unread ba)) else None)
     (bytearray_readbuffer ba True 3)"
  using readbuffer_reads [of ba 3] moved_advance [of ba 3]
  by (auto simp: reads_def source_result_def moved_refl split: if_splits)

definition s24_of :: "bytes \<Rightarrow> int" where
  "s24_of v = (if (v ! 2) AND 0x80 \<noteq> 0 then -1 - uint (le24 v XOR 0xffffff) else uint (le24 v))"

lemma get_u24_map: "ffi_stream_get_u24 ba = map_get le24 (bytearray_readbuffer ba True 3)"
  unfolding ffi_stream_get_u24_def map_get_def
  by (cases "bytearray_readbuffer ba True 3") auto

lemma get_s24_map: "ffi_stream_get_s24 ba = map_get s24_of (bytearray_readbuffer ba True 3)"
  unfolding ffi_stream_get_s24_def map_get_def s24_of_def
  by (cases "bytearray_readbuffer ba True 3") (auto split: option.splits)

lemma enc_u24_take [simp]:
  "length (enc_u24 u) = 3" "take 3 (enc_u24 u @ r) = enc_u24 u" "drop 3 (enc_u24 u @ r) = r"
  by (simp_all add: enc_u24_def)

lemma item_get_put:
  assumes wf: "ba_wf ba" and rd: "ba_reading ba" and v: "item_valid x"
    and u: "unread ba = enc_item x @ rest"
  shows "\<exists>ba'. item_get (kind_of x) ba = Some (Some x, ba') \<and> moved ba ba' \<and> unread ba' = rest"
proof -
  have "source_result ba (Some (x, rest)) (item_get (kind_of x) ba)"
  proof (cases x)
    case (IU8 v)
    with u source_result_map [OF read8_source [OF wf], of IU8] show ?thesis
      by (simp add: ffi_stream_get_u8_def)
  next
    case (IU16 v)
    have "unat v mod 65536 = unat v" using unsigned_less [of v, where ?'a = nat] by simp
    with IU16 u wf moved_advance [of ba 2] advance_unread(2) [of ba 2] show ?thesis
      by (simp add: ffi_stream_get_u16_def bytearray_read16_optimized_def read_word_reads map_get_def
          source_result_def)
  next
    case (IU24 w)
    have "take_bit 24 w = w"
      using v IU24 by (intro word_unat_eq_iff [THEN iffD2]) (simp add: take_bit_eq_mod unat_mod)
    moreover have "source_result ba (Some (le24 (enc_u24 w), rest)) (ffi_stream_get_u24 ba)"
      using source_result_map [OF readbuffer3_source [OF wf], of le24] IU24 u
      by (simp add: get_u24_map enc_u24_take)
    ultimately show ?thesis
      using source_result_map [of ba "Some (w, rest)" "ffi_stream_get_u24 ba" item.IU24] IU24
      by (simp add: le24_enc)
  next
    case (IS24 w)
    have "source_result ba (Some (s24_of (enc_u24 (word_of_int w)), rest)) (ffi_stream_get_s24 ba)"
      using source_result_map [OF readbuffer3_source [OF wf], of s24_of] IS24 u
      by (simp add: get_s24_map enc_u24_take)
    with s24_value [of w] v source_result_map [of ba "Some (w, rest)" "ffi_stream_get_s24 ba" item.IS24] IS24
    show ?thesis by (simp add: s24_of_def)
  next
    case (IU30 w)
    with u source_result_map [OF get_u30_source [OF wf], of IU30] show ?thesis
      by (simp add: dec_u30_enc)
  next
    case (ID64 w)
    with u source_result_map [OF get_d64_source [OF wf], of ID64] show ?thesis
      by (simp add: dec_d64_enc)
  next
    case (IString s)
    with u v source_result_map [OF get_string_source [OF wf rd], of IString] show ?thesis
      by (simp add: dec_string_enc)
  qed
  then show ?thesis by (simp add: source_result_def)
qed

lemma get_items_put:
  "ba_wf ba \<Longrightarrow> ba_reading ba \<Longrightarrow> list_all item_valid xs \<Longrightarrow>
   unread ba = concat (map enc_item xs) @ rest \<Longrightarrow>
     \<exists>ba'. get_items (map kind_of xs) ba = Some (Some xs, ba') \<and> moved ba ba' \<and> unread ba' = rest"
proof (induction xs arbitrary: ba)
  case Nil
  then show ?case by (simp add: moved_refl)
next
  case (Cons x xs)
  then obtain ba' where g: "item_get (kind_of x) ba = Some (Some x, ba')" "moved ba ba'"
      "unread ba' = concat (map enc_item xs) @ rest"
    using item_get_put [of ba x "concat (map enc_item xs) @ rest"] by auto
  then obtain ba'' where "get_items (map kind_of xs) ba' = Some (Some xs, ba'')" "moved ba' ba''"
      "unread ba'' = rest"
    using Cons moved_wf [OF g(2)] moved_reading [OF g(2)] by auto
  with g show ?case by (auto intro: moved_trans)
qed

lemma dec_u30_loop_rest: "dec_u30_loop v s bs = Some (x, r) \<Longrightarrow> length r < length bs"
  by (induction v s bs rule: dec_u30_loop.induct) (fastforce simp: Let_def split: if_splits)+

lemma dec_u30_rest: "dec_u30 bs = Some (x, r) \<Longrightarrow> length r < length bs"
  by (simp add: dec_u30_def dec_u30_loop_rest)

lemma stream_new_empty:
  assumes "roomy al"
  obtains ba where "ffi_stream_new al ba0 None = Some ba" and "growable ba" and "written ba = []"
    and "\<not> ba_reading ba" and "ba_offset ba = 0"
  using assms
  by (auto simp: ffi_stream_new_def bytearray_alloc_def malloc_def roomy_def growable_def ba_wf_def
      written_def MIN_CAPACITY_def)

section \<open>Properties\<close>

text \<open>
  (C7) Round trip of the typed stream: whatever sequence of 8-, 16- and 24-bit integers, signed
  24-bit integers, variable-length integers, doubles and strings is added to a new stream, switching
  the stream to reading and calling the matching getters returns the same values in the same order
  and leaves nothing unread.
\<close>

theorem stream_items_roundtrip:
  assumes room: "roomy al" and valid: "list_all item_valid items"
    and len: "length (concat (map enc_item items)) \<le> 2 ^ 62"
  shows "\<exists>ba ba1 ba2 ba3.
     ffi_stream_new al ba0 None = Some ba \<and> put_seq item_put al items ba = Some ba1 \<and>
     ffi_stream_prepare_get ba1 = (True, ba2) \<and>
     get_items (map kind_of items) ba2 = Some (Some items, ba3) \<and> unread ba3 = []"
proof -
  obtain ba where new: "ffi_stream_new al ba0 None = Some ba" "growable ba" "written ba = []"
      "\<not> ba_reading ba" "ba_offset ba = 0"
    using room by (rule stream_new_empty)
  then obtain ba1 where put: "put_seq item_put al items ba = Some ba1"
      "appended ba (concat (map enc_item items)) ba1"
    using item_sink.put_seq_enc [OF room, of ba items] len by auto
  then have "ba_wf ba1" "\<not> ba_reading ba1" using new by (auto simp: appended_def)
  then obtain ba2 where get: "ffi_stream_prepare_get ba1 = (True, ba2)" "ba_wf ba2" "ba_reading ba2"
      "unread ba2 = written ba1"
    by (auto simp: ffi_stream_prepare_get_def elim: read_ready_content)
  then have "unread ba2 = concat (map enc_item items) @ []"
    using put new by (simp add: appended_def)
  with get_items_put [OF get(2,3) valid] new put get(1) show ?thesis by blast
qed

theorem stream_items_roundtrip_witness:
  "\<exists>ba ba1 ba2 ba3.
     ffi_stream_new roomy_alloc demo_ba None = Some ba \<and>
     put_seq item_put roomy_alloc [IS24 (-5), IU30 300, IString [104, 105]] ba = Some ba1 \<and>
     ffi_stream_prepare_get ba1 = (True, ba2) \<and>
     get_items [KS24, KU30, KString] ba2 = Some (Some [IS24 (-5), IU30 300, IString [104, 105]], ba3)
     \<and> unread ba3 = []"
proof -
  let ?items = "[IS24 (-5), IU30 300, IString [104, 105]]"
  have "roomy roomy_alloc" by (simp add: roomy_def roomy_alloc_def)
  moreover have "list_all item_valid ?items" by simp
  moreover have "length (concat (map enc_item ?items)) \<le> 2 ^ 62"
    using enc_u30_length [of 300] enc_u30_length [of 2] by (simp add: enc_string_def)
  ultimately show ?thesis using stream_items_roundtrip [of roomy_alloc ?items demo_ba] by simp
qed

text \<open>
  An incomplete string is left in the stream: when the length prefix is complete but fewer bytes
  follow than it announces, the getter returns NULL, leaves the stream exactly as it was, and reports
  the number of bytes, prefix included, that have to be available before the call can succeed.
\<close>

lemma stream_get_string_incomplete:
  assumes wf: "ba_wf ba" and rd: "ba_reading ba"
    and pre: "dec_u30 (unread ba) = Some (n, rest)" and short: "length rest < unat n"
  shows "ffi_stream_get_string ba =
     Some ((None, unat n + (length (unread ba) - length rest)), ba)"
proof -
  from get_u30_source [OF wf] pre obtain ba1 where g: "ffi_stream_get_u30 ba = Some (Some n, ba1)"
      "moved ba ba1" "unread ba1 = rest"
    by (auto simp: source_result_def)
  have ba1: "ba_wf ba1" "ba_reading ba1" using moved_wf [OF g(2)] moved_reading [OF g(2)] rd by auto
  have tot: "ba_total ba1 = ba_total ba" "ba_buflen ba1 = ba_buflen ba"
    using g(2) unfolding moved_def by (metis BYTEARRAY.select_convs(2,5) BYTEARRAY.surjective BYTEARRAY.update_convs(1))+
  have "length rest = ba_total ba - ba_offset ba1" "length (unread ba) = ba_total ba - ba_offset ba"
    using length_unread [OF ba1(1)] length_unread [OF wf] g(3) tot by auto
  moreover have "length rest < length (unread ba)" using pre by (rule dec_u30_rest)
  moreover have "ba_offset ba \<le> ba_total ba" "ba_offset ba1 \<le> ba_total ba" "ba_total ba < 2 ^ 63"
    using wf ba1(1) tot by (auto elim!: ba_wfE)
  moreover have "unat n < 2 ^ 32" using unsigned_less [of n, where ?'a = nat] by simp
  ultimately show ?thesis
    using g short read_available_unread [OF ba1]
    by (simp add: ffi_stream_get_string_def moved_back)
qed

lemma stream_get_string_incomplete_witness:
  "ffi_stream_get_string (demo_ba\<lparr>ba_reading := True\<rparr>) = Some ((None, 8), demo_ba\<lparr>ba_reading := True\<rparr>)"
proof -
  let ?ba = "demo_ba\<lparr>ba_reading := True\<rparr>"
  have "ba_wf ?ba" "ba_reading ?ba" by (simp_all add: ba_wf_def demo_ba_def)
  moreover have u: "unread ?ba = [7, 8]" by (simp add: unread_def demo_ba_def)
  moreover have "dec_u30 (unread ?ba) = Some (7, [8])" by (simp add: u dec_u30_def)
  ultimately show ?thesis using stream_get_string_incomplete [of ?ba 7 "[8]"] by simp
qed

end
