(* ===== verification/Lua_Values.thy ===== *)
theory Lua_Values
  imports Prelude
begin

text \<open>
  The part of the Lua value model that the C modules see through the Lua C API: values, IEEE doubles
  (\<open>lua_Number\<close>), and tables in a heap. A table is the list of its entries in the order in which
  \<open>lua_next\<close> visits them; theorems quantify over the list, so they hold for every traversal order.
  A table reference is an index into the heap, so shared and cyclic structures are represented.
\<close>

section \<open>IEEE doubles\<close>

definition dbl_negative :: "u64 \<Rightarrow> bool" where
  "dbl_negative d \<longleftrightarrow> 2 ^ 63 \<le> unat d"

definition dbl_expo :: "u64 \<Rightarrow> nat" where
  "dbl_expo d = unat d div 2 ^ 52 mod 2 ^ 11"

definition dbl_frac :: "u64 \<Rightarrow> nat" where
  "dbl_frac d = unat d mod 2 ^ 52"

definition dbl_is_nan :: "u64 \<Rightarrow> bool" where
  "dbl_is_nan d \<longleftrightarrow> dbl_expo d = 2047 \<and> dbl_frac d \<noteq> 0"

definition dbl_is_inf :: "u64 \<Rightarrow> bool" where
  "dbl_is_inf d \<longleftrightarrow> dbl_expo d = 2047 \<and> dbl_frac d = 0"

text \<open>A finite double is \<open>\<plusminus> mantissa * 2 ^ (scale - 1075)\<close>.\<close>

definition dbl_mant :: "u64 \<Rightarrow> nat" where
  "dbl_mant d = (if dbl_expo d = 0 then dbl_frac d else 2 ^ 52 + dbl_frac d)"

definition dbl_scale :: "u64 \<Rightarrow> nat" where
  "dbl_scale d = (if dbl_expo d = 0 then 1 else dbl_expo d)"

text \<open>The integer a double equals, if it equals one: \<open>floor(value) == value\<close> and finite.\<close>

definition dbl_abs_int :: "u64 \<Rightarrow> nat option" where
  "dbl_abs_int d =
     (if dbl_expo d = 2047 then None
      else if 1075 \<le> dbl_scale d then Some (dbl_mant d * 2 ^ (dbl_scale d - 1075))
      else if dbl_mant d mod 2 ^ (1075 - dbl_scale d) = 0
           then Some (dbl_mant d div 2 ^ (1075 - dbl_scale d)) else None)"

definition dbl_int :: "u64 \<Rightarrow> int option" where
  "dbl_int d =
     map_option (\<lambda>n. if dbl_negative d then - int n else int n) (dbl_abs_int d)"

text \<open>The double of a small natural number, as \<open>lua_pushinteger\<close> converts it.\<close>

fun floor_log2 :: "nat \<Rightarrow> nat" where
  "floor_log2 n = (if n < 2 then 0 else Suc (floor_log2 (n div 2)))"

declare floor_log2.simps [simp del]

definition dbl_of_nat :: "nat \<Rightarrow> u64" where
  "dbl_of_nat n =
     (if n = 0 then 0
      else let e = floor_log2 n
           in word_of_nat ((e + 1023) * 2 ^ 52 + (n - 2 ^ e) * 2 ^ (52 - e)))"

text \<open>Two doubles that compare equal have the same canonical pattern: the zeros are identified.\<close>

definition dbl_canon :: "u64 \<Rightarrow> u64" where
  "dbl_canon d = (if d = 2 ^ 63 then 0 else d)"

section \<open>Values and tables\<close>

datatype lval =
    LNil
  | LBool bool
  | LNum u64
  | LStr bytes
  | LTable nat
  | LFunc nat
  | LUser nat
  | LThread nat

type_synonym ltable = "(lval \<times> lval) list"
type_synonym lheap = "ltable list"

text \<open>The slot a value addresses as a table key.\<close>

definition key_of :: "lval \<Rightarrow> lval" where
  "key_of v = (case v of LNum d \<Rightarrow> LNum (dbl_canon d) | _ \<Rightarrow> v)"

definition tab :: "lheap \<Rightarrow> nat \<Rightarrow> ltable" where
  "tab h a = (if a < length h then h ! a else [])"

definition rawget :: "ltable \<Rightarrow> lval \<Rightarrow> lval option" where
  "rawget t k = map_of t (key_of k)"

text \<open>\<open>lua_rawgeti\<close>: the value at the key that is the integer \<open>n\<close>.\<close>

definition is_int_key :: "int \<Rightarrow> lval \<Rightarrow> bool" where
  "is_int_key n k = (case k of LNum d \<Rightarrow> dbl_int d = Some n | _ \<Rightarrow> False)"

fun rawgeti :: "ltable \<Rightarrow> int \<Rightarrow> lval option" where
  "rawgeti [] n = None"
| "rawgeti ((k, v) # t) n = (if is_int_key n k then Some v else rawgeti t n)"

text \<open>
  \<open>lua_rawset\<close> with a value that is not nil: an existing entry keeps its place. Where a new entry
  goes is up to Lua; the model puts it last.
\<close>

fun table_set :: "ltable \<Rightarrow> lval \<Rightarrow> lval \<Rightarrow> ltable" where
  "table_set [] k v = [(k, v)]"
| "table_set ((k', v') # t) k v = (if k' = k then (k, v) # t else (k', v') # table_set t k v)"

definition rawset :: "ltable \<Rightarrow> lval \<Rightarrow> lval \<Rightarrow> ltable" where
  "rawset t k v = table_set t (key_of k) v"

text \<open>
  A well-formed table: canonical keys, each once, no nil or NaN key, no nil value. A heap is
  well-formed when its tables are and every reference stays inside the heap.
\<close>

definition key_ok :: "lval \<Rightarrow> bool" where
  "key_ok k \<longleftrightarrow> k \<noteq> LNil \<and> key_of k = k \<and> (case k of LNum d \<Rightarrow> \<not> dbl_is_nan d | _ \<Rightarrow> True)"

definition table_ok :: "ltable \<Rightarrow> bool" where
  "table_ok t \<longleftrightarrow> distinct (map fst t) \<and> list_all (\<lambda>(k, v). key_ok k \<and> v \<noteq> LNil) t"

definition ref_ok :: "lheap \<Rightarrow> lval \<Rightarrow> bool" where
  "ref_ok h v = (case v of LTable a \<Rightarrow> a < length h | _ \<Rightarrow> True)"

definition heap_ok :: "lheap \<Rightarrow> bool" where
  "heap_ok h \<longleftrightarrow> list_all (\<lambda>t. table_ok t \<and> list_all (\<lambda>(k, v). ref_ok h k \<and> ref_ok h v) t) h"

section \<open>Lemmas on doubles\<close>

lemma floor_log2_bounds:
  "0 < n \<Longrightarrow> 2 ^ floor_log2 n \<le> n \<and> n < 2 ^ Suc (floor_log2 n)"
proof (induction n rule: floor_log2.induct)
  case (1 n)
  show ?case
  proof (cases "n < 2")
    case True
    with 1 show ?thesis by (simp add: floor_log2.simps [of n])
  next
    case False
    with 1 have "2 ^ floor_log2 (n div 2) \<le> n div 2 \<and> n div 2 < 2 ^ Suc (floor_log2 (n div 2))"
      by simp
    then have "2 * 2 ^ floor_log2 (n div 2) \<le> n \<and> n < 2 * 2 ^ Suc (floor_log2 (n div 2))"
      by linarith
    with False show ?thesis by (simp add: floor_log2.simps [of n])
  qed
qed

lemma floor_log2_unique:
  assumes "2 ^ e \<le> n" and "n < 2 ^ Suc e"
  shows "floor_log2 n = e"
proof -
  have "0 < n" using assms(1) by (rule order_less_le_trans [rotated]) simp
  then have b: "2 ^ floor_log2 n \<le> n" "n < 2 ^ Suc (floor_log2 n)" using floor_log2_bounds by auto
  have "(2::nat) ^ e < 2 ^ Suc (floor_log2 n)" using assms(1) b(2) by simp
  then have "e \<le> floor_log2 n" by (simp only: power_strict_increasing_iff less_Suc_eq_le)
  moreover have "(2::nat) ^ floor_log2 n < 2 ^ Suc e" using assms(2) b(1) by simp
  then have "floor_log2 n \<le> e" by (simp only: power_strict_increasing_iff less_Suc_eq_le)
  ultimately show ?thesis by simp
qed

lemma unat_dbl_split:
  "\<not> dbl_negative d \<Longrightarrow> unat d = dbl_expo d * 2 ^ 52 + dbl_frac d"
  using div_mult_mod_eq [of "unat d" "2 ^ 52"] by (simp add: dbl_negative_def dbl_expo_def dbl_frac_def)

lemma dbl_fields:
  assumes "unat d = E * 2 ^ 52 + F" and "F < 2 ^ 52" and "E < 2 ^ 11"
  shows "\<not> dbl_negative d" and "dbl_expo d = E" and "dbl_frac d = F"
proof -
  have "E * 2 ^ 52 + F < 2 ^ 63" using assms by simp
  with assms show "\<not> dbl_negative d" "dbl_expo d = E" "dbl_frac d = F"
    by (simp_all add: dbl_negative_def dbl_expo_def dbl_frac_def)
qed

lemma dbl_of_nat_fields:
  assumes "2 ^ e \<le> n" and "n < 2 ^ Suc e" and "e \<le> 52"
  shows "unat (dbl_of_nat n) = (e + 1023) * 2 ^ 52 + (n - 2 ^ e) * 2 ^ (52 - e)"
    and "(n - 2 ^ e) * 2 ^ (52 - e) < 2 ^ 52"
    and "2 ^ 52 + (n - 2 ^ e) * 2 ^ (52 - e) = n * 2 ^ (52 - e)"
proof -
  have n0: "n \<noteq> 0" using assms(1) by (metis le_zero_eq power_not_zero zero_neq_numeral)
  have p: "2 ^ e * 2 ^ (52 - e) = (2 ^ 52 :: nat)" using assms(3) by (simp flip: power_add)
  have "(n - 2 ^ e) * 2 ^ (52 - e) < 2 ^ e * 2 ^ (52 - e)"
    using assms by (intro mult_strict_right_mono) auto
  then show f: "(n - 2 ^ e) * 2 ^ (52 - e) < 2 ^ 52" by (simp only: p)
  show "2 ^ 52 + (n - 2 ^ e) * 2 ^ (52 - e) = n * 2 ^ (52 - e)"
  proof -
    have "2 ^ 52 + (n - 2 ^ e) * 2 ^ (52 - e) = (2 ^ e + (n - 2 ^ e)) * 2 ^ (52 - e)"
      by (simp only: add_mult_distrib p)
    with assms(1) show ?thesis by simp
  qed
  have "(e + 1023) * 2 ^ 52 + (n - 2 ^ e) * 2 ^ (52 - e) < 2 ^ 64"
    using f assms(3) by simp
  then show "unat (dbl_of_nat n) = (e + 1023) * 2 ^ 52 + (n - 2 ^ e) * 2 ^ (52 - e)"
    using n0 floor_log2_unique [OF assms(1,2)] unat_u64_of_nat
    by (simp only: dbl_of_nat_def Let_def if_False)
qed

lemma dbl_int_of_nat:
  assumes "n < 2 ^ 52"
  shows "dbl_int (dbl_of_nat n) = Some (int n)"
proof (cases "n = 0")
  case True
  then show ?thesis
    by (simp add: dbl_of_nat_def dbl_int_def dbl_abs_int_def dbl_expo_def dbl_frac_def dbl_mant_def
        dbl_scale_def dbl_negative_def)
next
  case False
  then obtain e where e: "2 ^ e \<le> n" "n < 2 ^ Suc e" using floor_log2_bounds by blast
  then have "(2::nat) ^ e < 2 ^ 52" using assms by simp
  then have "e < 52" by (simp only: power_strict_increasing_iff)
  then have e52: "e \<le> 52" by simp
  note f = dbl_of_nat_fields [OF e e52]
  note g = dbl_fields [OF f(1,2)]
  have "dbl_mant (dbl_of_nat n) = n * 2 ^ (52 - e)" "dbl_scale (dbl_of_nat n) = e + 1023"
    using e52 f(3) g by (simp_all add: dbl_mant_def dbl_scale_def)
  moreover have "1075 - (e + 1023) = 52 - e" by simp
  ultimately show ?thesis
    using g \<open>e < 52\<close> by (simp add: dbl_int_def dbl_abs_int_def)
qed

lemma dbl_of_int_value:
  assumes int: "dbl_int d = Some (int n)" and n: "0 < n" "n < 2 ^ 52"
  shows "d = dbl_of_nat n"
proof -
  have neg: "\<not> dbl_negative d" and abs: "dbl_abs_int d = Some n"
    using int n by (auto simp: dbl_int_def split: if_splits)
  have mant: "dbl_expo d \<noteq> 0" "dbl_mant d = 2 ^ 52 + dbl_frac d" "dbl_scale d = dbl_expo d"
  proof -
    show "dbl_expo d \<noteq> 0"
    proof
      assume z: "dbl_expo d = 0"
      have "dbl_frac d < 2 ^ 52" by (simp add: dbl_frac_def)
      also have "(2 ^ 52 :: nat) \<le> 2 ^ 1074" by (rule power_increasing) simp_all
      finally have "dbl_frac d < 2 ^ 1074" .
      with abs z n(1) show False
        by (auto simp: dbl_abs_int_def dbl_scale_def dbl_mant_def simp del: power_numeral split: if_splits)
    qed
    then show "dbl_mant d = 2 ^ 52 + dbl_frac d" "dbl_scale d = dbl_expo d"
      by (simp_all add: dbl_mant_def dbl_scale_def)
  qed
  have frac: "dbl_frac d < 2 ^ 52" by (simp add: dbl_frac_def)
  have small: "\<not> 1075 \<le> dbl_expo d"
  proof
    assume "1075 \<le> dbl_expo d"
    then have "n = dbl_mant d * 2 ^ (dbl_expo d - 1075)"
      using abs mant by (auto simp: dbl_abs_int_def simp del: power_numeral split: if_splits)
    then have "dbl_mant d \<le> n" by simp
    with mant n show False by simp
  qed
  define k where "k = 1075 - dbl_expo d"
  have mk: "dbl_mant d = n * 2 ^ k"
    using abs mant small by (auto simp: dbl_abs_int_def k_def simp del: power_numeral split: if_splits)
  have "k \<le> 52"
  proof (rule ccontr)
    assume "\<not> k \<le> 52"
    then have "(2::nat) ^ 53 \<le> 2 ^ k" by (intro power_increasing) auto
    also have "\<dots> \<le> n * 2 ^ k" using n by simp
    finally show False using mk mant frac by simp
  qed
  have p: "2 ^ (52 - k) * 2 ^ k = (2 ^ 52 :: nat)" using \<open>k \<le> 52\<close> by (simp flip: power_add)
  have "2 ^ (52 - k) * 2 ^ k \<le> n * 2 ^ k" using mk mant p by simp
  then have lo: "2 ^ (52 - k) \<le> n" by simp
  have "n * 2 ^ k < 2 * (2 ^ (52 - k) * 2 ^ k)" using mk mant p frac by simp
  then have hi: "n < 2 ^ Suc (52 - k)" by simp
  note f = dbl_of_nat_fields [OF lo hi]
  have "52 - (52 - k) = k" using \<open>k \<le> 52\<close> by simp
  moreover have "52 - k + 1023 = dbl_expo d" using small \<open>k \<le> 52\<close> by (simp add: k_def)
  ultimately have "unat (dbl_of_nat n) = dbl_expo d * 2 ^ 52 + dbl_frac d"
    using f mk mant(2) by simp
  then have "unat (dbl_of_nat n) = unat d" using unat_dbl_split [OF neg] by simp
  then show ?thesis by (simp add: word_unat_eq_iff)
qed

lemma dbl_int_zero:
  assumes "dbl_int d = Some 0"
  shows "dbl_canon d = 0"
proof -
  have abs: "dbl_abs_int d = Some 0" using assms by (auto simp: dbl_int_def split: if_splits)
  have frac: "dbl_frac d < 2 ^ 52" by (simp add: dbl_frac_def)
  have "dbl_mant d = 0"
  proof (cases "1075 \<le> dbl_scale d")
    case True
    with abs show ?thesis by (auto simp: dbl_abs_int_def simp del: power_numeral split: if_splits)
  next
    case False
    let ?p = "2 ^ (1075 - dbl_scale d) :: nat"
    from False abs have "dbl_mant d mod ?p = 0" "dbl_mant d div ?p = 0"
      by (auto simp: dbl_abs_int_def simp del: power_numeral split: if_splits)
    then show ?thesis using div_mult_mod_eq [of "dbl_mant d" ?p] by (simp del: power_numeral)
  qed
  then have "dbl_expo d = 0" "dbl_frac d = 0" by (auto simp: dbl_mant_def split: if_splits)
  then have "unat d mod (2 ^ 52 * 2 ^ 11) = 0"
    unfolding mod_mult2_eq by (simp add: dbl_expo_def dbl_frac_def)
  then have "unat d mod 2 ^ 63 = 0" by simp
  moreover have "unat d < 2 * 2 ^ 63" using unsigned_less [of d, where ?'a = nat] by simp
  ultimately have "unat d = 0 \<or> unat d = 2 ^ 63"
    using div_mult_mod_eq [of "unat d" "2 ^ 63"] by (auto simp: less_2_cases_iff dest: div_less_iff_less_mult [THEN iffD2, rotated])
  then show ?thesis
    using unat_word_power [of 63] by (auto simp: dbl_canon_def word_unat_eq_iff)
qed

lemma dbl_canon_idem [simp]: "dbl_canon (dbl_canon d) = dbl_canon d"
  by (simp add: dbl_canon_def)

lemma dbl_int_minus_zero:
  assumes u: "unat d = 2 ^ 63"
  shows "dbl_int d = Some 0"
proof -
  have "dbl_expo d = 0" "dbl_frac d = 0"
    unfolding dbl_expo_def dbl_frac_def u by simp_all
  then have "dbl_mant d = 0" "dbl_expo d \<noteq> 2047" by (simp_all add: dbl_mant_def)
  then have "dbl_abs_int d = Some 0" by (simp only: dbl_abs_int_def) simp
  then show ?thesis by (simp add: dbl_int_def)
qed

lemma dbl_canon_nonzero:
  assumes "dbl_int d \<noteq> Some 0"
  shows "dbl_canon d = d"
proof -
  have "63 < (64 :: nat)" by simp
  note u = unat_word_power [OF this]
  have "d \<noteq> 2 ^ 63"
  proof
    assume "d = 2 ^ 63"
    then have "unat d = 2 ^ 63" by (simp only: u)
    with assms dbl_int_minus_zero show False by blast
  qed
  then show ?thesis unfolding dbl_canon_def by (rule if_not_P)
qed

lemma dbl_canon_of_nat: "n < 2 ^ 52 \<Longrightarrow> dbl_canon (dbl_of_nat n) = dbl_of_nat n"
  by (cases "n = 0") (simp_all add: dbl_canon_nonzero dbl_int_of_nat dbl_canon_def [of 0] dbl_of_nat_def [of 0])

lemma dbl_of_nat_inj: "dbl_of_nat m = dbl_of_nat n \<Longrightarrow> m < 2 ^ 52 \<Longrightarrow> n < 2 ^ 52 \<Longrightarrow> m = n"
  by (metis dbl_int_of_nat of_nat_eq_iff option.inject)

lemma dbl_of_nat_value:
  assumes "dbl_int d = Some (int n)" and "n < 2 ^ 52"
  shows "dbl_of_nat n = dbl_canon d"
proof (cases "n = 0")
  case True
  then show ?thesis using assms dbl_int_zero [of d] by (simp add: dbl_of_nat_def)
next
  case False
  with assms have "d = dbl_of_nat n" by (intro dbl_of_int_value) simp_all
  with assms(2) show ?thesis by (simp add: dbl_canon_of_nat)
qed

lemma key_of_idem [simp]: "key_of (key_of v) = key_of v"
  by (simp add: key_of_def split: lval.splits)

lemma int_key_unique:
  assumes "is_int_key (int n) k" and "0 < n" and "n < 2 ^ 52"
  shows "k = LNum (dbl_of_nat n)"
  using assms dbl_of_int_value by (auto simp: is_int_key_def split: lval.splits)

lemma rawgeti_entry: "rawgeti t n = Some v \<Longrightarrow> \<exists>k. (k, v) \<in> set t \<and> is_int_key n k"
  by (induction t) (auto split: if_splits)

section \<open>Arrays\<close>

text \<open>The entries of an array whose first index is \<open>j\<close>.\<close>

fun array_pairs :: "nat \<Rightarrow> lval list \<Rightarrow> (lval \<times> lval) list" where
  "array_pairs j [] = []"
| "array_pairs j (v # vs) = (LNum (dbl_of_nat j), v) # array_pairs (j + 1) vs"

lemma set_array_pairs:
  "set (array_pairs j vs) = (\<lambda>i. (LNum (dbl_of_nat (j + i)), vs ! i)) ` {..<length vs}"
proof (induction vs arbitrary: j)
  case (Cons v vs)
  have "{..<length (v # vs)} = insert 0 (Suc ` {..<length vs})"
    by (simp add: lessThan_Suc_eq_insert_0)
  with Cons [of "j + 1"] show ?case by (simp add: image_image)
qed simp

lemma array_pairs_keys: "map fst (array_pairs j vs) = map (\<lambda>i. LNum (dbl_of_nat i)) [j..<j + length vs]"
proof (induction vs arbitrary: j)
  case (Cons v vs)
  then show ?case by (simp add: upt_conv_Cons del: upt_Suc)
qed simp

lemma array_pairs_distinct:
  assumes "j + length vs \<le> 2 ^ 52"
  shows "distinct (map fst (array_pairs j vs))"
proof -
  have "inj_on (\<lambda>i. LNum (dbl_of_nat i)) (set [j..<j + length vs])"
  proof (rule inj_onI)
    fix x y
    assume "x \<in> set [j..<j + length vs]" "y \<in> set [j..<j + length vs]"
      and eq: "LNum (dbl_of_nat x) = LNum (dbl_of_nat y)"
    then have "x < 2 ^ 52" "y < 2 ^ 52" using assms by auto
    with eq show "x = y" by (auto intro: dbl_of_nat_inj)
  qed
  then show ?thesis unfolding array_pairs_keys by (simp only: distinct_map distinct_upt simp_thms)
qed

lemma table_set_new: "k \<notin> fst ` set t \<Longrightarrow> table_set t k v = t @ [(k, v)]"
  by (induction t) auto

lemma rawgeti_None: "(\<And>k v. (k, v) \<in> set t \<Longrightarrow> \<not> is_int_key n k) \<Longrightarrow> rawgeti t n = None"
  using rawgeti_entry by (metis not_Some_eq)

lemma rawgeti_in: "(k, v) \<in> set t \<Longrightarrow> is_int_key n k \<Longrightarrow> rawgeti t n \<noteq> None"
  by (induction t) auto

lemma rawgeti_array:
  assumes t: "set t = set (array_pairs 1 vs)" and len: "length vs < 2 ^ 32"
  shows "rawgeti t (int i + 1) = (if i < length vs then Some (vs ! i) else None)"
proof -
  have key: "k = LNum (dbl_of_nat (1 + j)) \<and> v = vs ! j \<and> j < length vs \<and> j = i"
    if "(k, v) \<in> set t" "is_int_key (int i + 1) k" "k = LNum (dbl_of_nat (1 + j))" "v = vs ! j" "j < length vs" for k v j
    using that len dbl_int_of_nat [of "1 + j"] by (simp add: is_int_key_def)
  show ?thesis
  proof (cases "i < length vs")
    case True
    then have "(LNum (dbl_of_nat (1 + i)), vs ! i) \<in> set t" by (auto simp: t set_array_pairs)
    moreover have "is_int_key (int i + 1) (LNum (dbl_of_nat (1 + i)))"
      using True len dbl_int_of_nat [of "1 + i"] by (simp add: is_int_key_def)
    ultimately obtain v where v: "rawgeti t (int i + 1) = Some v" using rawgeti_in by fastforce
    with rawgeti_entry [OF v] key True show ?thesis by (auto simp: t set_array_pairs)
  next
    case False
    then have "rawgeti t (int i + 1) = None"
      using key by (intro rawgeti_None) (auto simp: t set_array_pairs)
    with False show ?thesis by simp
  qed
qed

end
