(* ===== verification/C_Numbers.thy ===== *)
theory C_Numbers
  imports Lua_Values
begin

text \<open>
  The two conversions of the C library that the JSON module relies on, in the C locale and with the
  default rounding mode: \<open>strtod\<close> and \<open>snprintf\<close> with the format \<open>%.14g\<close>. Both are exact: a double is
  read as the rational number it stands for, and the result is the correctly rounded one.
\<close>

section \<open>Rounding\<close>

text \<open>The quotient rounded to the nearest integer, ties to even.\<close>

definition round_div :: "nat \<Rightarrow> nat \<Rightarrow> nat" where
  "round_div a b =
     (let q = a div b; r = a mod b
      in if 2 * r < b then q else if b < 2 * r then q + 1 else if even q then q else q + 1)"

text \<open>The binary exponent of a positive fraction: \<open>2 ^ e \<le> num / den < 2 ^ (e + 1)\<close>.\<close>

definition binary_expo :: "nat \<Rightarrow> nat \<Rightarrow> int" where
  "binary_expo num den =
     (if den \<le> num then int (floor_log2 (num div den))
      else - int (Suc (floor_log2 ((den - 1) div num))))"

text \<open>The double nearest to a fraction; too large values become infinite.\<close>

definition dbl_round :: "bool \<Rightarrow> nat \<Rightarrow> nat \<Rightarrow> u64" where
  "dbl_round neg num den =
     (let e = max (binary_expo num den) (- 1022);
          m = round_div (num * 2 ^ nat (52 - e)) (den * 2 ^ nat (e - 52));
          b = (if num = 0 then 0 else nat (e + 1022) * 2 ^ 52 + m)
      in word_of_nat ((if neg then 2 ^ 63 else 0) + min b (2047 * 2 ^ 52)))"

section \<open>strtod\<close>

definition is_digit :: "u8 \<Rightarrow> bool" where
  "is_digit c \<longleftrightarrow> 0x30 \<le> c \<and> c \<le> 0x39"

definition is_xdigit :: "u8 \<Rightarrow> bool" where
  "is_xdigit c \<longleftrightarrow> is_digit c \<or> 0x41 \<le> c \<and> c \<le> 0x46 \<or> 0x61 \<le> c \<and> c \<le> 0x66"

definition xdigit_val :: "u8 \<Rightarrow> nat" where
  "xdigit_val c =
     (if is_digit c then unat c - 0x30 else if c \<le> 0x46 then unat c - 0x37 else unat c - 0x57)"

definition digits_val :: "nat \<Rightarrow> bytes \<Rightarrow> nat" where
  "digits_val base ds = foldl (\<lambda>n c. base * n + xdigit_val c) 0 ds"

definition lower :: "u8 \<Rightarrow> u8" where
  "lower c = (if 0x41 \<le> c \<and> c \<le> 0x5a then c + 0x20 else c)"

definition starts_with :: "bytes \<Rightarrow> bytes \<Rightarrow> bool" where
  "starts_with w bs \<longleftrightarrow> map lower (take (length w) bs) = w"

text \<open>An optional exponent: its value and the number of characters it takes.\<close>

definition exponent_part :: "u8 \<Rightarrow> bytes \<Rightarrow> int \<times> nat" where
  "exponent_part mark bs =
     (case bs of
        c # r \<Rightarrow>
          (let sgn = (case r of s # _ \<Rightarrow> if s = 0x2b \<or> s = 0x2d then 1 else 0 | [] \<Rightarrow> 0);
               ds = takeWhile is_digit (drop sgn r)
           in if lower c = mark \<and> ds \<noteq> []
              then ((if sgn = 1 \<and> hd r = 0x2d then -1 else 1) * int (digits_val 10 ds), 1 + sgn + length ds)
              else (0, 0))
      | [] \<Rightarrow> (0, 0))"

text \<open>The digits before and after an optional point: their digits, the digits after the point, the length.\<close>

definition digit_part :: "(u8 \<Rightarrow> bool) \<Rightarrow> bytes \<Rightarrow> (bytes \<times> nat \<times> nat) option" where
  "digit_part dig bs =
     (let ip = takeWhile dig bs;
          r = drop (length ip) bs;
          point = (r \<noteq> [] \<and> hd r = 0x2e);
          fp = (if point then takeWhile dig (tl r) else [])
      in if ip @ fp = [] then None
         else Some (ip @ fp, length fp, length ip + (if point then 1 else 0) + length fp))"

definition scaled :: "bool \<Rightarrow> nat \<Rightarrow> nat \<Rightarrow> int \<Rightarrow> u64" where
  "scaled neg m base e =
     (if 0 \<le> e then dbl_round neg (m * base ^ nat e) 1 else dbl_round neg m (base ^ nat (- e)))"

definition strtod_decimal :: "bool \<Rightarrow> bytes \<Rightarrow> (u64 \<times> nat) option" where
  "strtod_decimal neg bs =
     (case digit_part is_digit bs of
        None \<Rightarrow> None
      | Some (ds, f, n) \<Rightarrow>
          (let (e, k) = exponent_part 0x65 (drop n bs)
           in Some (scaled neg (digits_val 10 ds) 10 (e - int f), n + k)))"

definition strtod_hex :: "bool \<Rightarrow> bytes \<Rightarrow> (u64 \<times> nat) option" where
  "strtod_hex neg bs =
     (if starts_with [0x30, 0x78] bs
      then (case digit_part is_xdigit (drop 2 bs) of
              None \<Rightarrow> None
            | Some (ds, f, n) \<Rightarrow>
                (let (e, k) = exponent_part 0x70 (drop (2 + n) bs)
                 in Some (scaled neg (digits_val 16 ds) 2 (e - 4 * int f), 2 + n + k)))
      else None)"

definition sign_bit :: "bool \<Rightarrow> u64 \<Rightarrow> u64" where
  "sign_bit neg d = (if neg then d OR push_bit 63 1 else d)"

definition strtod_named :: "bool \<Rightarrow> bytes \<Rightarrow> (u64 \<times> nat) option" where
  "strtod_named neg bs =
     (if starts_with [0x69, 0x6e, 0x66, 0x69, 0x6e, 0x69, 0x74, 0x79] bs
      then Some (sign_bit neg 0x7ff0000000000000, 8)
      else if starts_with [0x69, 0x6e, 0x66] bs then Some (sign_bit neg 0x7ff0000000000000, 3)
      else if starts_with [0x6e, 0x61, 0x6e] bs
      then let w = takeWhile (\<lambda>c. is_digit c \<or> 0x61 \<le> lower c \<and> lower c \<le> 0x7a \<or> c = 0x5f) (drop 4 bs)
           in Some (sign_bit neg 0x7ff8000000000000,
                    if take 1 (drop 3 bs) = [0x28] \<and> take 1 (drop (4 + length w) bs) = [0x29]
                    then 5 + length w else 3)
      else None)"

text \<open>The value and the number of characters read; 0 characters when there is no number.\<close>

definition strtod :: "bytes \<Rightarrow> u64 \<times> nat" where
  "strtod bs =
     (let ws = length (takeWhile (\<lambda>c. c = 0x20 \<or> 9 \<le> c \<and> c \<le> 13) bs);
          r = drop ws bs;
          sgn = (if r \<noteq> [] \<and> (hd r = 0x2b \<or> hd r = 0x2d) then 1 else 0);
          neg = (sgn = 1 \<and> hd r = 0x2d);
          body = drop sgn r
      in case strtod_named neg body of
           Some (d, n) \<Rightarrow> (d, ws + sgn + n)
         | None \<Rightarrow>
             (case strtod_hex neg body of
                Some (d, n) \<Rightarrow> (d, ws + sgn + n)
              | None \<Rightarrow>
                  (case strtod_decimal neg body of
                     Some (d, n) \<Rightarrow> (d, ws + sgn + n)
                   | None \<Rightarrow> (0, 0))))"

section \<open>The format %.14g\<close>

fun decimal :: "nat \<Rightarrow> bytes" where
  "decimal n = (if n < 10 then [word_of_nat (0x30 + n)] else decimal (n div 10) @ [word_of_nat (0x30 + n mod 10)])"

declare decimal.simps [simp del]

fun floor_log10 :: "nat \<Rightarrow> nat" where
  "floor_log10 n = (if n < 10 then 0 else Suc (floor_log10 (n div 10)))"

declare floor_log10.simps [simp del]

definition decimal_expo :: "nat \<Rightarrow> nat \<Rightarrow> int" where
  "decimal_expo num den =
     (if den \<le> num then int (floor_log10 (num div den))
      else - int (Suc (floor_log10 ((den - 1) div num))))"

definition strip_zeros :: "bytes \<Rightarrow> bytes" where
  "strip_zeros ds = rev (dropWhile (\<lambda>c. c = 0x30) (rev ds))"

text \<open>The fraction a finite double stands for, without its sign.\<close>

definition dbl_num :: "u64 \<Rightarrow> nat" where
  "dbl_num d = dbl_mant d * 2 ^ (dbl_scale d - 1075)"

definition dbl_den :: "u64 \<Rightarrow> nat" where
  "dbl_den d = 2 ^ (1075 - dbl_scale d)"

text \<open>Fourteen significant digits and the decimal exponent of the first.\<close>

definition digits14 :: "nat \<Rightarrow> nat \<Rightarrow> nat \<times> int" where
  "digits14 num den =
     (let x = decimal_expo num den;
          p = round_div (num * 10 ^ nat (13 - x)) (den * 10 ^ nat (x - 13))
      in if p = 10 ^ 14 then (10 ^ 13, x + 1) else (p, x))"

definition fmt_fixed :: "bytes \<Rightarrow> int \<Rightarrow> bytes" where
  "fmt_fixed ds x =
     (let ip = (if 0 \<le> x then take (nat x + 1) ds else [0x30]);
          fp = strip_zeros (if 0 \<le> x then drop (nat x + 1) ds else replicate (nat (- x - 1)) 0x30 @ ds)
      in ip @ (if fp = [] then [] else 0x2e # fp))"

definition fmt_exp :: "bytes \<Rightarrow> int \<Rightarrow> bytes" where
  "fmt_exp ds x =
     (let fp = strip_zeros (tl ds);
          e = decimal (nat \<bar>x\<bar>)
      in [hd ds] @ (if fp = [] then [] else 0x2e # fp)
         @ [0x65, if 0 \<le> x then 0x2b else 0x2d] @ (if length e < 2 then [0x30] else []) @ e)"

text \<open>For finite doubles; the caller has excluded infinities and NaN.\<close>

definition fmt_g14 :: "u64 \<Rightarrow> bytes" where
  "fmt_g14 d =
     (let (p, x) = digits14 (dbl_num d) (dbl_den d);
          ds = decimal p
      in (if dbl_negative d then [0x2d] else [])
         @ (if dbl_mant d = 0 then [0x30]
            else if - 4 \<le> x \<and> x < 14 then fmt_fixed ds x else fmt_exp ds x))"

section \<open>Integers\<close>

lemma dbl_round_nat:
  assumes n: "0 < n" "n < 2 ^ 52"
  shows "dbl_round neg n 1 = word_of_nat ((if neg then 2 ^ 63 else 0) + unat (dbl_of_nat n))"
proof -
  obtain e where e: "2 ^ e \<le> n" "n < 2 ^ Suc e" using floor_log2_bounds [OF n(1)] by blast
  then have fl: "floor_log2 n = e" by (rule floor_log2_unique)
  have "(2::nat) ^ e < 2 ^ 52" using e n by simp
  then have e52: "e \<le> 52" by (simp only: power_strict_increasing_iff)
  note f = dbl_of_nat_fields [OF e e52]
  have be: "max (binary_expo n 1) (- 1022) = int e" using n fl by (simp add: binary_expo_def)
  have "nat (52 - int e) = 52 - e" "nat (int e - 52) = 0" "nat (int e + 1022) = e + 1022" using e52 by auto
  moreover have "round_div m 1 = m" for m by (simp add: round_div_def)
  moreover have "(e + 1022) * 2 ^ 52 + n * 2 ^ (52 - e) = unat (dbl_of_nat n)"
    unfolding f(1) f(3) [symmetric] by simp
  moreover have "unat (dbl_of_nat n) \<le> 2047 * 2 ^ 52" using f(1,2) e52 by simp
  ultimately show ?thesis using n unfolding dbl_round_def be by (simp add: Let_def)
qed

text \<open>The double of an integer, and the text of an integer.\<close>

definition dbl_of_int :: "int \<Rightarrow> u64" where
  "dbl_of_int z = (if z < 0 then word_of_nat (2 ^ 63 + unat (dbl_of_nat (nat (- z)))) else dbl_of_nat (nat z))"

definition int_text :: "int \<Rightarrow> bytes" where
  "int_text z = (if z < 0 then 0x2d # decimal (nat (- z)) else decimal (nat z))"

lemma is_digit_of_nat: "k < 10 \<Longrightarrow> is_digit (word_of_nat (0x30 + k))"
proof -
  assume "k < 10"
  then have "unat (word_of_nat (0x30 + k) :: u8) = 0x30 + k"
    by (simp only: unat_of_nat) (simp add: take_bit_eq_mod)
  then show ?thesis using \<open>k < 10\<close> by (simp add: is_digit_def word_le_nat_alt)
qed

lemma decimal_digits: "list_all is_digit (decimal n)"
proof (induction n rule: decimal.induct)
  case (1 n)
  then show ?case
    using is_digit_of_nat [of n] is_digit_of_nat [of "n mod 10"] by (subst decimal.simps) auto
qed

lemma decimal_not_Nil [simp]: "decimal n \<noteq> []"
  by (subst decimal.simps) simp

lemma xdigit_val_of_nat: "k < 10 \<Longrightarrow> xdigit_val (word_of_nat (0x30 + k)) = k"
proof -
  assume "k < 10"
  then have "unat (word_of_nat (0x30 + k) :: u8) = 0x30 + k"
    by (simp only: unat_of_nat) (simp add: take_bit_eq_mod)
  then show ?thesis using is_digit_of_nat [OF \<open>k < 10\<close>] by (simp add: xdigit_val_def)
qed

lemma digits_val_decimal: "digits_val 10 (decimal n) = n"
proof (induction n rule: decimal.induct)
  case (1 n)
  then show ?case
    using xdigit_val_of_nat [of n] xdigit_val_of_nat [of "n mod 10"]
    by (subst decimal.simps) (simp add: digits_val_def)
qed

lemma decimal_length: "length (decimal n) = Suc (floor_log10 n)"
proof (induction n rule: decimal.induct)
  case (1 n)
  then show ?case by (subst decimal.simps, subst floor_log10.simps) simp
qed

lemma floor_log10_bounds: "0 < n \<Longrightarrow> 10 ^ floor_log10 n \<le> n \<and> n < 10 ^ Suc (floor_log10 n)"
proof (induction n rule: floor_log10.induct)
  case (1 n)
  show ?case
  proof (cases "n < 10")
    case True
    with 1 show ?thesis by (simp add: floor_log10.simps [of n])
  next
    case False
    with 1 have "10 ^ floor_log10 (n div 10) \<le> n div 10 \<and> n div 10 < 10 ^ Suc (floor_log10 (n div 10))"
      by simp
    then have "10 * 10 ^ floor_log10 (n div 10) \<le> n \<and> n < 10 * 10 ^ Suc (floor_log10 (n div 10))"
      by linarith
    with False show ?thesis by (simp add: floor_log10.simps [of n])
  qed
qed

lemma decimal_mult: "0 < n \<Longrightarrow> decimal (n * 10 ^ k) = decimal n @ replicate k 0x30"
proof (induction k)
  case (Suc k)
  have "decimal (n * 10 ^ Suc k) = decimal (n * 10 ^ k) @ [0x30]"
    using Suc.prems by (subst decimal.simps) simp
  with Suc show ?case by (simp add: replicate_append_same)
qed simp

lemma strip_zeros_replicate: "strip_zeros (replicate k 0x30) = []"
  by (simp add: strip_zeros_def dropWhile_eq_Nil_conv)

lemma round_div_exact: "0 < b \<Longrightarrow> round_div (a * b) b = a"
  by (simp add: round_div_def)

lemma digits14_int:
  assumes n: "0 < n" "n < 10 ^ 14" and D: "0 < D"
  shows "digits14 (n * D) D = (n * 10 ^ (13 - floor_log10 n), int (floor_log10 n))"
proof -
  let ?x = "floor_log10 n"
  note b = floor_log10_bounds [OF n(1)]
  have "(10::nat) ^ ?x < 10 ^ 14" using b n(2) by simp
  then have x: "?x < 14" by (simp only: power_strict_increasing_iff)
  then have pw: "10 ^ Suc ?x * 10 ^ (13 - ?x) = (10 ^ 14 :: nat)"
    by (simp only: power_add [symmetric]) simp
  have "n * 10 ^ (13 - ?x) < 10 ^ Suc ?x * 10 ^ (13 - ?x)"
    using b by (intro mult_strict_right_mono) auto
  then have p: "n * 10 ^ (13 - ?x) < 10 ^ 14" by (simp only: pw)
  have "decimal_expo (n * D) D = int ?x" using n D by (simp add: decimal_expo_def)
  moreover have "nat (13 - int ?x) = 13 - ?x" "nat (int ?x - 13) = 0" using x by auto
  moreover have "round_div (n * D * 10 ^ (13 - ?x)) D = n * 10 ^ (13 - ?x)"
    using round_div_exact [OF D, of "n * 10 ^ (13 - ?x)"] by (simp add: ac_simps)
  ultimately show ?thesis using p by (simp add: digits14_def Let_def)
qed

lemma fmt_fixed_int:
  assumes n: "0 < n" "n < 10 ^ 14"
  shows "fmt_fixed (decimal (n * 10 ^ (13 - floor_log10 n))) (int (floor_log10 n)) = decimal n"
proof -
  let ?x = "floor_log10 n"
  have "decimal (n * 10 ^ (13 - ?x)) = decimal n @ replicate (13 - ?x) 0x30" using n(1) by (rule decimal_mult)
  moreover have "nat (int ?x) + 1 = length (decimal n)" by (simp add: decimal_length)
  ultimately show ?thesis by (simp add: fmt_fixed_def Let_def strip_zeros_replicate)
qed

lemma floor_log10_small: "0 < n \<Longrightarrow> n < 10 ^ 14 \<Longrightarrow> floor_log10 n < 14"
proof -
  assume "0 < n" "n < 10 ^ 14"
  then have "(10::nat) ^ floor_log10 n < 10 ^ 14" using floor_log10_bounds by (meson le_less_trans)
  then show ?thesis by (simp only: power_strict_increasing_iff)
qed

lemma fmt_g14_mant:
  assumes n: "0 < n" "n < 10 ^ 14" and m: "dbl_mant d = n * 2 ^ k" and s: "dbl_scale d + k = 1075"
  shows "fmt_g14 d = (if dbl_negative d then [0x2d] else []) @ decimal n"
proof -
  have "dbl_num d = n * 2 ^ k" "dbl_den d = 2 ^ k"
  proof -
    have "dbl_scale d - 1075 = 0" "1075 - dbl_scale d = k" using s by auto
    then show "dbl_num d = n * 2 ^ k" "dbl_den d = 2 ^ k" by (simp_all add: dbl_num_def dbl_den_def m)
  qed
  with digits14_int [OF n, of "2 ^ k"] n m floor_log10_small [OF n] show ?thesis
    by (simp add: fmt_g14_def fmt_fixed_int)
qed

lemma dbl_of_int_fields:
  assumes z: "z \<noteq> 0" "\<bar>z\<bar> < 10 ^ 14"
  obtains k where "dbl_mant (dbl_of_int z) = nat \<bar>z\<bar> * 2 ^ k" and "dbl_scale (dbl_of_int z) + k = 1075"
    and "dbl_negative (dbl_of_int z) \<longleftrightarrow> z < 0"
proof -
  define n where "n = nat \<bar>z\<bar>"
  have n: "0 < n" "n < 10 ^ 14" using z by (simp_all add: n_def)
  then obtain e where e: "2 ^ e \<le> n" "n < 2 ^ Suc e" using floor_log2_bounds by blast
  then have "(2::nat) ^ e < 2 ^ 52" using n by simp
  then have e52: "e < 52" by (simp only: power_strict_increasing_iff)
  then have le: "e \<le> 52" by simp
  note f = dbl_of_nat_fields [OF e le]
  let ?E = "e + 1023" and ?F = "(n - 2 ^ e) * 2 ^ (52 - e)"
  have fields: "dbl_expo (dbl_of_int z) = ?E \<and> dbl_frac (dbl_of_int z) = ?F \<and> (dbl_negative (dbl_of_int z) \<longleftrightarrow> z < 0)"
  proof (cases "z < 0")
    case False
    then have "dbl_of_int z = dbl_of_nat n" using z by (simp add: dbl_of_int_def n_def)
    with False dbl_fields [OF f(1,2)] e52 show ?thesis by simp
  next
    case True
    let ?u = "2 ^ 63 + (?E * 2 ^ 52 + ?F)"
    have "?u < 2 ^ 64" using f(2) e52 by simp
    moreover have "dbl_of_int z = word_of_nat ?u" using True f(1) by (simp add: dbl_of_int_def n_def)
    ultimately have u: "unat (dbl_of_int z) = ?u" using unat_u64_of_nat [of ?u] by simp
    have "?u = (2048 + ?E) * 2 ^ 52 + ?F" by simp
    moreover have "(A * 2 ^ 52 + F) div 2 ^ 52 = A" "(A * 2 ^ 52 + F) mod 2 ^ 52 = F" if "F < 2 ^ 52" for A F :: nat
      using that by simp_all
    ultimately have "?u div 2 ^ 52 = 2048 + ?E" "?u mod 2 ^ 52 = ?F" using f(2) by metis+
    moreover have "(2048 + ?E) mod 2 ^ 11 = ?E" using e52 by (simp add: mod_if)
    ultimately show ?thesis using True u unfolding dbl_expo_def dbl_frac_def dbl_negative_def u by simp
  qed
  have "dbl_mant (dbl_of_int z) = n * 2 ^ (52 - e)" "dbl_scale (dbl_of_int z) + (52 - e) = 1075"
    using fields f(3) e52 by (simp_all add: dbl_mant_def dbl_scale_def)
  with fields that show ?thesis by (simp add: n_def)
qed

lemma fmt_g14_int:
  assumes z: "\<bar>z\<bar> < 10 ^ 14"
  shows "fmt_g14 (dbl_of_int z) = int_text z"
proof (cases "z = 0")
  case True
  then show ?thesis
    by (simp add: dbl_of_int_def dbl_of_nat_def int_text_def fmt_g14_def dbl_negative_def dbl_mant_def
        dbl_expo_def dbl_frac_def decimal.simps [of 0] case_prod_unfold)
next
  case False
  then obtain k where k: "dbl_mant (dbl_of_int z) = nat \<bar>z\<bar> * 2 ^ k" "dbl_scale (dbl_of_int z) + k = 1075"
      "dbl_negative (dbl_of_int z) \<longleftrightarrow> z < 0"
    using dbl_of_int_fields z by blast
  have "0 < nat \<bar>z\<bar>" "nat \<bar>z\<bar> < 10 ^ 14" using False z by auto
  from fmt_g14_mant [OF this k(1,2)] k(3) show ?thesis by (simp add: int_text_def)
qed

lemma digit_facts:
  assumes "is_digit c"
  shows "lower c = c" and "c \<noteq> 0x2d" and "c \<noteq> 0x2b" and "c \<noteq> 0x20" and "\<not> (9 \<le> c \<and> c \<le> 13)"
    and "c \<noteq> 0x69" and "c \<noteq> 0x6e" and "c \<noteq> 0x78"
  using assms by (auto simp: is_digit_def lower_def word_le_nat_alt word_less_nat_alt)

lemma decimal_Cons: obtains c ds where "decimal n = c # ds" and "is_digit c" and "list_all is_digit ds"
  using decimal_digits [of n] by (cases "decimal n") auto

lemma strtod_digits:
  "strtod_named neg (decimal n) = None" "strtod_hex neg (decimal n) = None"
  "strtod_decimal neg (decimal n) = Some (dbl_round neg n 1, length (decimal n))"
proof -
  obtain c ds where c: "decimal n = c # ds" "is_digit c" "list_all is_digit ds" by (rule decimal_Cons)
  then show "strtod_named neg (decimal n) = None"
    by (auto simp: strtod_named_def starts_with_def digit_facts)
  have "hd ds \<noteq> 0x78" "lower (hd ds) = hd ds" if "ds \<noteq> []"
    using that c(3) digit_facts [of "hd ds"] by (cases ds; simp)+
  then show "strtod_hex neg (decimal n) = None"
    using c by (cases ds) (auto simp: strtod_hex_def starts_with_def)
  have tw: "takeWhile is_digit (decimal n) = decimal n"
    using decimal_digits [of n] by (simp add: takeWhile_eq_all_conv list_all_iff)
  have "digit_part is_digit (decimal n) = Some (decimal n, 0, length (decimal n))"
    unfolding digit_part_def Let_def tw by simp
  then show "strtod_decimal neg (decimal n) = Some (dbl_round neg n 1, length (decimal n))"
    by (simp add: strtod_decimal_def exponent_part_def scaled_def digits_val_decimal)
qed

lemma dbl_round_int:
  assumes "\<bar>z\<bar> < 10 ^ 14"
  shows "dbl_canon (dbl_round (z < 0) (nat \<bar>z\<bar>) 1) = dbl_of_int z"
proof (cases "z = 0")
  case True
  then show ?thesis
    by (simp add: dbl_round_def Let_def dbl_of_int_def dbl_of_nat_def dbl_canon_def)
next
  case False
  then have n: "0 < nat \<bar>z\<bar>" "nat \<bar>z\<bar> < 2 ^ 52" using assms by auto
  have r: "dbl_round (z < 0) (nat \<bar>z\<bar>) 1 = dbl_of_int z"
    using dbl_round_nat [OF n, of "z < 0"] by (simp add: dbl_of_int_def)
  obtain k where k: "dbl_mant (dbl_of_int z) = nat \<bar>z\<bar> * 2 ^ k" using dbl_of_int_fields False assms by metis
  have "dbl_mant (2 ^ 63) = 0"
  proof -
    have "unat (2 ^ 63 :: u64) = 2 ^ 63" by (rule unat_word_power) simp
    then show ?thesis by (simp only: dbl_mant_def dbl_expo_def dbl_frac_def) simp
  qed
  then have "dbl_of_int z \<noteq> 2 ^ 63" using k n(1) by (metis mult_is_0 not_less_zero power_not_zero zero_neq_numeral)
  then have "dbl_canon (dbl_of_int z) = dbl_of_int z" unfolding dbl_canon_def by (rule if_not_P)
  with r show ?thesis by simp
qed

lemma strtod_int:
  "strtod (int_text z) = (dbl_round (z < 0) (nat \<bar>z\<bar>) 1, length (int_text z))"
proof -
  obtain c ds where c: "decimal (nat \<bar>z\<bar>) = c # ds" "is_digit c" by (rule decimal_Cons)
  note s = strtod_digits [of _ "nat \<bar>z\<bar>", unfolded c(1)]
  show ?thesis
  proof (cases "z < 0")
    case True
    with c have "int_text z = 0x2d # c # ds" by (simp add: int_text_def)
    with True s show ?thesis by (simp add: strtod_def Let_def)
  next
    case False
    with c have "int_text z = c # ds" by (simp add: int_text_def)
    moreover have "\<not> (c = 0x20 \<or> 9 \<le> c \<and> c \<le> 13)" using digit_facts(4,5) [OF c(2)] by blast
    then have "takeWhile (\<lambda>c. c = 0x20 \<or> 9 \<le> c \<and> c \<le> 13) (c # ds) = []" by simp
    ultimately show ?thesis
      unfolding strtod_def using False s digit_facts(2,3) [OF c(2)] by (simp only: Let_def) simp
  qed
qed

lemma int_text_Cons:
  obtains c ds where "int_text z = c # ds" and "c = 0x2d \<or> is_digit c" and "list_all is_digit ds"
proof -
  obtain c ds where c: "decimal (nat \<bar>z\<bar>) = c # ds" "is_digit c" "list_all is_digit ds" by (rule decimal_Cons)
  show ?thesis
  proof (cases "z < 0")
    case True
    with c have "int_text z = 0x2d # c # ds" by (simp add: int_text_def)
    then show ?thesis by (rule that) (simp_all add: c)
  next
    case False
    with c have "int_text z = c # ds" by (simp add: int_text_def)
    then show ?thesis by (rule that) (simp_all add: c)
  qed
qed

lemma int_text_length: "\<bar>z\<bar> < 10 ^ 14 \<Longrightarrow> length (int_text z) \<le> 15"
proof -
  assume z: "\<bar>z\<bar> < 10 ^ 14"
  have "length (decimal (nat \<bar>z\<bar>)) \<le> 14"
  proof (cases "z = 0")
    case True
    then show ?thesis by (simp add: decimal.simps)
  next
    case False
    with z have "floor_log10 (nat \<bar>z\<bar>) < 14" by (intro floor_log10_small) auto
    then show ?thesis by (simp add: decimal_length)
  qed
  then show ?thesis by (auto simp: int_text_def)
qed

end
