(* ===== verification/Objectbuf.thy ===== *)
theory Objectbuf
  imports Stream Lua_Values
begin

text \<open>
  The object serialiser of \<open>src/objectbuf.c\<close>: \<open>packer\<close> walks a value and collects its distinct
  numbers, small integers, strings, functions and tables; \<open>luafan_objectbuf_encode\<close> writes one section
  for each kind and refers to the collected values by index; \<open>luafan_objectbuf_decode\<close> rebuilds the
  value. Shared and cyclic tables are kept. Every model works on the byte buffers of the code; its
  outer \<open>None\<close> is an access outside a block, or a run that never returns. Lua numbers are doubles, as
  in Lua 5.1 and LuaJIT. The conversion of a string to a number in \<open>lua_tonumber\<close> is Lua's own code
  and a parameter, \<open>cvt\<close>.
\<close>

section \<open>Collecting the values\<close>

definition HAS_NUMBER_MASK :: u8 where "HAS_NUMBER_MASK = push_bit 7 1"
definition HAS_U30_MASK :: u8 where "HAS_U30_MASK = push_bit 6 1"
definition HAS_STRING_MASK :: u8 where "HAS_STRING_MASK = push_bit 5 1"
definition HAS_TABLE_MASK :: u8 where "HAS_TABLE_MASK = push_bit 3 1"

definition MAX_U30 :: int where "MAX_U30 = 4294967296"

definition FALSE_INDEX :: u32 where "FALSE_INDEX = 1"
definition TRUE_INDEX :: u32 where "TRUE_INDEX = 2"

text \<open>
  The collected values in order, and the tables that look a value up; a count of the code is the
  length of the list.
\<close>

record CTX =
  ctx_tables :: "nat list"
  ctx_numbers :: "u64 list"
  ctx_strings :: "bytes list"
  ctx_funcs :: "nat list"
  ctx_u30s :: "u64 list"
  table_idxs :: "nat \<rightharpoonup> nat"
  num_idxs :: "u64 \<rightharpoonup> nat"
  string_idxs :: "bytes \<rightharpoonup> nat"
  func_idxs :: "nat \<rightharpoonup> nat"

text \<open>
  \<open>Failed\<close> is the pair of nil and a message, \<open>Raised\<close> and \<open>NotFound\<close> are Lua errors.
\<close>

datatype ob_fail =
    Failed string
  | FailedNumber nat nat
  | NotFound string u32
  | Raised string

type_synonym 'a ob_res = "(ob_fail + 'a) option"

definition ctx_init :: CTX where
  "ctx_init = \<lparr>ctx_tables = [], ctx_numbers = [], ctx_strings = [], ctx_funcs = [], ctx_u30s = [],
     table_idxs = Map.empty, num_idxs = Map.empty, string_idxs = Map.empty, func_idxs = Map.empty\<rparr>"

text \<open>\<open>!(floor(value) != value || value >= MAX_U30 || value < 0)\<close>\<close>

definition is_u30 :: "u64 \<Rightarrow> bool" where
  "is_u30 d = (case dbl_int d of Some n \<Rightarrow> \<not> (MAX_U30 \<le> n \<or> n < 0) | None \<Rightarrow> False)"

definition packer_number :: "CTX \<Rightarrow> u64 \<Rightarrow> CTX ob_res" where
  "packer_number ctx d =
     (case num_idxs ctx (dbl_canon d) of
        Some _ \<Rightarrow> Some (Inr ctx)
      | None \<Rightarrow>
          (if \<not> is_u30 d
           then if dbl_is_nan d then Some (Inl (Raised ''table index is NaN''))
                else Some (Inr (ctx\<lparr>ctx_numbers := ctx_numbers ctx @ [d],
                       num_idxs := (num_idxs ctx)(dbl_canon d \<mapsto> Suc (length (ctx_numbers ctx)))\<rparr>))
           else Some (Inr (ctx\<lparr>ctx_u30s := ctx_u30s ctx @ [d],
                  num_idxs := (num_idxs ctx)(dbl_canon d \<mapsto> Suc (length (ctx_u30s ctx)))\<rparr>))))"

definition packer_string :: "CTX \<Rightarrow> bytes \<Rightarrow> CTX" where
  "packer_string ctx s =
     (case string_idxs ctx s of
        Some _ \<Rightarrow> ctx
      | None \<Rightarrow> ctx\<lparr>ctx_strings := ctx_strings ctx @ [s],
                    string_idxs := (string_idxs ctx)(s \<mapsto> Suc (length (ctx_strings ctx)))\<rparr>)"

definition packer_function :: "CTX \<Rightarrow> nat \<Rightarrow> CTX" where
  "packer_function ctx f =
     (case func_idxs ctx f of
        Some _ \<Rightarrow> ctx
      | None \<Rightarrow> ctx\<lparr>ctx_funcs := ctx_funcs ctx @ [f],
                    func_idxs := (func_idxs ctx)(f \<mapsto> Suc (length (ctx_funcs ctx)))\<rparr>)"

text \<open>The loop over \<open>lua_next\<close>, with the recursive call as an argument.\<close>

fun packer_entries :: "(CTX \<Rightarrow> lval \<Rightarrow> CTX ob_res) \<Rightarrow> ltable \<Rightarrow> CTX \<Rightarrow> CTX ob_res" where
  "packer_entries pack [] ctx = Some (Inr ctx)"
| "packer_entries pack ((k, v) # t) ctx =
     bind_res (pack ctx k) (\<lambda>ctx1. bind_res (pack ctx1 v) (\<lambda>ctx2. packer_entries pack t ctx2))"

definition packer_table ::
  "(CTX \<Rightarrow> lval \<Rightarrow> CTX ob_res) \<Rightarrow> lheap \<Rightarrow> CTX \<Rightarrow> nat \<Rightarrow> CTX ob_res" where
  "packer_table pack h ctx a =
     (case table_idxs ctx a of
        Some _ \<Rightarrow> Some (Inr ctx)
      | None \<Rightarrow>
          packer_entries pack (tab h a)
            (ctx\<lparr>ctx_tables := ctx_tables ctx @ [a],
                 table_idxs := (table_idxs ctx)(a \<mapsto> Suc (length (ctx_tables ctx)))\<rparr>))"

text \<open>
  The recursion goes through the tables of the heap; the first argument bounds its depth. A depth of
  one more than the number of tables is always enough (\<open>packer_enough\<close>), and that is what the callers use.
\<close>

primrec packer :: "nat \<Rightarrow> lheap \<Rightarrow> CTX \<Rightarrow> lval \<Rightarrow> CTX ob_res" where
  "packer 0 h ctx v = None"
| "packer (Suc n) h ctx v =
     (case v of
        LTable a \<Rightarrow> packer_table (packer n h) h ctx a
      | LBool _ \<Rightarrow> Some (Inr ctx)
      | LStr s \<Rightarrow> Some (Inr (packer_string ctx s))
      | LNum d \<Rightarrow> packer_number ctx d
      | LFunc f \<Rightarrow> Some (Inr (packer_function ctx f))
      | _ \<Rightarrow> Some (Inr ctx))"

definition luafan_objectbuf_symbol :: "lheap \<Rightarrow> lval option \<Rightarrow> CTX ob_res" where
  "luafan_objectbuf_symbol h arg =
     (case arg of None \<Rightarrow> Some (Inl (Raised ''no argument.''))
      | Some v \<Rightarrow> packer (Suc (length h)) h ctx_init v)"

section \<open>Encoding\<close>

text \<open>A symbol table: the two directions of the dictionary and its last index.\<close>

record symtab =
  SYM_MAP :: "lval \<rightharpoonup> u32"
  SYM_MAP_VK :: "u32 \<rightharpoonup> lval"
  SYM_INDEX :: u32

definition sym_map_of :: "symtab option \<Rightarrow> lval \<rightharpoonup> u32" where
  "sym_map_of symt = (case symt of None \<Rightarrow> Map.empty | Some s \<Rightarrow> SYM_MAP s)"

definition sym_vk_of :: "symtab option \<Rightarrow> u32 \<rightharpoonup> lval" where
  "sym_vk_of symt = (case symt of None \<Rightarrow> Map.empty | Some s \<Rightarrow> SYM_MAP_VK s)"

definition sym_index_of :: "symtab option \<Rightarrow> u32" where
  "sym_index_of symt = (case symt of None \<Rightarrow> 2 | Some s \<Rightarrow> SYM_INDEX s)"

record enc_state =
  es_flag :: u8
  es_body :: BYTEARRAY
  es_index :: u32
  es_map :: "lval \<rightharpoonup> u32"

text \<open>The loop over one section: values that the symbol table knows are left out.\<close>

fun emit_items ::
  "(BYTEARRAY \<Rightarrow> 'a \<Rightarrow> BYTEARRAY option) \<Rightarrow> ('a \<Rightarrow> lval) \<Rightarrow> (lval \<rightharpoonup> u32) \<Rightarrow> u32 \<Rightarrow> 'a list
     \<Rightarrow> BYTEARRAY \<times> u32 \<times> (lval \<rightharpoonup> u32) \<Rightarrow> (BYTEARRAY \<times> u32 \<times> (lval \<rightharpoonup> u32)) option" where
  "emit_items add mk smap index [] st = Some st"
| "emit_items add mk smap index (x # xs) (d, realcount, im) =
     (case smap (key_of (mk x)) of
        None \<Rightarrow>
          do { d' \<leftarrow> add d x;
               emit_items add mk smap index xs
                 (d', realcount + 1, im(key_of (mk x) \<mapsto> index + (realcount + 1))) }
      | Some _ \<Rightarrow> emit_items add mk smap index xs (d, realcount, im))"

definition ba_content :: "BYTEARRAY \<Rightarrow> bytes option" where
  "ba_content d = load_at (ba_buffer d) 0 (ba_total d)"

definition emit_section ::
  "allocator \<Rightarrow> BYTEARRAY \<Rightarrow> (BYTEARRAY \<Rightarrow> 'a \<Rightarrow> BYTEARRAY option) \<Rightarrow> ('a \<Rightarrow> lval) \<Rightarrow> u8
     \<Rightarrow> (lval \<rightharpoonup> u32) \<Rightarrow> 'a list \<Rightarrow> enc_state \<Rightarrow> enc_state option" where
  "emit_section al ba0 add mk msk smap xs st =
     (if 0 < length xs
      then do { (d, realcount, im) \<leftarrow> emit_items add mk smap (es_index st) xs
                    (snd (bytearray_alloc al ba0 0), 0, es_map st);
                body \<leftarrow> ffi_stream_add_u30 al (es_body st) realcount;
                buff \<leftarrow> ba_content (snd (bytearray_read_ready d));
                (_, body') \<leftarrow> bytearray_writebuffer al body buff;
                Some \<lparr>es_flag = es_flag st OR msk, es_body = body',
                      es_index = es_index st + realcount, es_map = im\<rparr> }
      else Some st)"

text \<open>\<open>lua_tointeger\<close> of a collected small integer, converted to 32 bits.\<close>

definition u30_of :: "u64 \<Rightarrow> u32" where
  "u30_of d = (case dbl_int d of Some n \<Rightarrow> word_of_int n | None \<Rightarrow> 0)"

definition emit_numbers where
  "emit_numbers al ba0 smap ctx st =
     emit_section al ba0 (ffi_stream_add_d64 al) LNum HAS_NUMBER_MASK smap (ctx_numbers ctx) st"

definition emit_u30s where
  "emit_u30s al ba0 smap ctx st =
     emit_section al ba0 (\<lambda>d x. ffi_stream_add_u30 al d (u30_of x)) LNum HAS_U30_MASK smap
       (ctx_u30s ctx) st"

definition emit_strings where
  "emit_strings al ba0 smap ctx st =
     emit_section al ba0 (ffi_stream_add_string al) LStr HAS_STRING_MASK smap (ctx_strings ctx) st"

text \<open>\<open>sym_map[v] or index_map[v]\<close>; \<open>lua_tointeger\<close> of nil is 0.\<close>

definition lookup_index :: "(lval \<rightharpoonup> u32) \<Rightarrow> (lval \<rightharpoonup> u32) \<Rightarrow> lval \<Rightarrow> u32" where
  "lookup_index smap im v =
     (case smap (key_of v) of
        Some i \<Rightarrow> i
      | None \<Rightarrow> (case im (key_of v) of Some i \<Rightarrow> i | None \<Rightarrow> 0))"

text \<open>The array part: \<open>t[1], t[2], ...\<close> up to the first nil.\<close>

definition int_key_above :: "int \<Rightarrow> lval \<Rightarrow> bool" where
  "int_key_above n k =
     (case k of LNum d \<Rightarrow> (case dbl_int d of Some m \<Rightarrow> n < m | None \<Rightarrow> False) | _ \<Rightarrow> False)"

definition int_keys_above :: "ltable \<Rightarrow> int \<Rightarrow> nat" where
  "int_keys_above t n = length (filter (\<lambda>(k, v). int_key_above n k) t)"

lemma int_key_above_mono: "int_key_above m k \<Longrightarrow> n \<le> m \<Longrightarrow> int_key_above n k"
  by (auto simp: int_key_above_def split: lval.splits option.splits)

lemma int_keys_above_le: "n \<le> m \<Longrightarrow> int_keys_above t m \<le> int_keys_above t n"
  by (induction t) (auto simp: int_keys_above_def dest: int_key_above_mono)

lemma int_key_above_next:
  "is_int_key (n + 1) k \<Longrightarrow> int_key_above n k \<and> \<not> int_key_above (n + 1) k"
  by (auto simp: is_int_key_def int_key_above_def split: lval.splits)

lemma int_keys_above_less:
  "rawgeti t (n + 1) = Some v \<Longrightarrow> int_keys_above t (n + 1) < int_keys_above t n"
proof (induction t)
  case (Cons kv t)
  obtain k w where kv: "kv = (k, w)" by fastforce
  show ?case
  proof (cases "is_int_key (n + 1) k")
    case True
    with int_key_above_next [OF True] int_keys_above_le [of n "n + 1" t] kv show ?thesis
      by (simp add: int_keys_above_def)
  next
    case False
    with Cons kv have "int_keys_above t (n + 1) < int_keys_above t n" by simp
    with int_key_above_mono [of "n + 1" k n] kv show ?thesis by (auto simp: int_keys_above_def)
  qed
qed simp

function encode_array ::
  "allocator \<Rightarrow> (lval \<rightharpoonup> u32) \<Rightarrow> (lval \<rightharpoonup> u32) \<Rightarrow> ltable \<Rightarrow> BYTEARRAY \<Rightarrow> nat
     \<Rightarrow> (BYTEARRAY \<times> nat) option" where
  "encode_array al smap im t d tb_count =
     (case rawgeti t (int tb_count + 1) of
        None \<Rightarrow> Some (d, tb_count)
      | Some v \<Rightarrow>
          do { d' \<leftarrow> ffi_stream_add_u30 al d (lookup_index smap im v);
               encode_array al smap im t d' (tb_count + 1) })"
  by pat_completeness auto
termination
  by (relation "measure (\<lambda>(al, smap, im, t, d, n). int_keys_above t (int n))")
    (auto simp: add.commute [of 1] dest: int_keys_above_less)

declare encode_array.simps [simp del]

definition lua_tonumber :: "(bytes \<Rightarrow> u64 option) \<Rightarrow> lval \<Rightarrow> u64" where
  "lua_tonumber cvt k =
     (case k of
        LNum d \<Rightarrow> d
      | LStr s \<Rightarrow> (case cvt s of Some d \<Rightarrow> d | None \<Rightarrow> 0)
      | _ \<Rightarrow> 0)"

text \<open>\<open>value == (int)value && value <= tb_count && value > 0\<close>\<close>

definition in_array_part :: "(bytes \<Rightarrow> u64 option) \<Rightarrow> nat \<Rightarrow> lval \<Rightarrow> bool" where
  "in_array_part cvt tb_count k =
     (case dbl_int (lua_tonumber cvt k) of
        Some n \<Rightarrow> n \<le> int tb_count \<and> 0 < n
      | None \<Rightarrow> False)"

fun encode_hash ::
  "allocator \<Rightarrow> (bytes \<Rightarrow> u64 option) \<Rightarrow> (lval \<rightharpoonup> u32) \<Rightarrow> (lval \<rightharpoonup> u32) \<Rightarrow> nat \<Rightarrow> ltable
     \<Rightarrow> BYTEARRAY \<Rightarrow> BYTEARRAY option" where
  "encode_hash al cvt smap im tb_count [] d = Some d"
| "encode_hash al cvt smap im tb_count ((k, v) # t) d =
     (if in_array_part cvt tb_count k then encode_hash al cvt smap im tb_count t d
      else do { d1 \<leftarrow> ffi_stream_add_u30 al d (lookup_index smap im k);
                d2 \<leftarrow> ffi_stream_add_u30 al d1 (lookup_index smap im v);
                encode_hash al cvt smap im tb_count t d2 })"

definition encode_table ::
  "allocator \<Rightarrow> BYTEARRAY \<Rightarrow> (bytes \<Rightarrow> u64 option) \<Rightarrow> (lval \<rightharpoonup> u32) \<Rightarrow> (lval \<rightharpoonup> u32) \<Rightarrow> ltable
     \<Rightarrow> BYTEARRAY \<Rightarrow> BYTEARRAY option" where
  "encode_table al ba0 cvt smap im t body =
     do { (d1, tb_count) \<leftarrow> encode_array al smap im t (snd (bytearray_alloc al ba0 0)) 0;
          d \<leftarrow> encode_hash al cvt smap im tb_count t d1;
          let d' = snd (bytearray_read_ready d);
          d2 \<leftarrow> ffi_stream_add_u30 al (snd (bytearray_alloc al ba0 0)) (word_of_nat tb_count);
          let d2' = snd (bytearray_read_ready d2);
          b1 \<leftarrow> ffi_stream_add_u30 al body (word_of_nat (ba_total d' + ba_total d2'));
          buff2 \<leftarrow> ba_content d2';
          b2 \<leftarrow> ffi_stream_add_bytes al b1 buff2;
          buff \<leftarrow> ba_content d';
          ffi_stream_add_bytes al b2 buff }"

primrec encode_tables ::
  "allocator \<Rightarrow> BYTEARRAY \<Rightarrow> (bytes \<Rightarrow> u64 option) \<Rightarrow> (lval \<rightharpoonup> u32) \<Rightarrow> (lval \<rightharpoonup> u32) \<Rightarrow> lheap
     \<Rightarrow> nat list \<Rightarrow> BYTEARRAY \<Rightarrow> BYTEARRAY option" where
  "encode_tables al ba0 cvt smap im h [] body = Some body"
| "encode_tables al ba0 cvt smap im h (a # as) body =
     do { body' \<leftarrow> encode_table al ba0 cvt smap im (tab h a) body;
          encode_tables al ba0 cvt smap im h as body' }"

text \<open>The first loop over the tables gives each its index.\<close>

primrec index_tables :: "u32 \<Rightarrow> nat list \<Rightarrow> (lval \<rightharpoonup> u32) \<Rightarrow> lval \<rightharpoonup> u32" where
  "index_tables index [] im = im"
| "index_tables index (a # as) im = index_tables (index + 1) as (im(LTable a \<mapsto> index + 1))"

definition emit_tables ::
  "allocator \<Rightarrow> BYTEARRAY \<Rightarrow> (bytes \<Rightarrow> u64 option) \<Rightarrow> (lval \<rightharpoonup> u32) \<Rightarrow> lheap \<Rightarrow> CTX \<Rightarrow> enc_state
     \<Rightarrow> enc_state option" where
  "emit_tables al ba0 cvt smap h ctx st =
     (if length (ctx_tables ctx) \<noteq> 0
      then do { b \<leftarrow> ffi_stream_add_u30 al (es_body st) (word_of_nat (length (ctx_tables ctx)));
                let im = index_tables (es_index st) (ctx_tables ctx) (es_map st);
                b' \<leftarrow> encode_tables al ba0 cvt smap im h (ctx_tables ctx) b;
                Some (st\<lparr>es_flag := es_flag st OR HAS_TABLE_MASK, es_body := b', es_map := im\<rparr>) }
      else Some st)"

definition encode_ctx ::
  "allocator \<Rightarrow> BYTEARRAY \<Rightarrow> (bytes \<Rightarrow> u64 option) \<Rightarrow> symtab option \<Rightarrow> lheap \<Rightarrow> CTX \<Rightarrow> bytes option" where
  "encode_ctx al ba0 cvt symt h ctx =
     do { (_, body) \<leftarrow> bytearray_write8 al (snd (bytearray_alloc al ba0 64)) 0;
          let st0 = \<lparr>es_flag = 0, es_body = body, es_index = sym_index_of symt,
                     es_map = [LBool False \<mapsto> FALSE_INDEX, LBool True \<mapsto> TRUE_INDEX]\<rparr>;
          st1 \<leftarrow> emit_numbers al ba0 (sym_map_of symt) ctx st0;
          st2 \<leftarrow> emit_u30s al ba0 (sym_map_of symt) ctx st1;
          st3 \<leftarrow> emit_strings al ba0 (sym_map_of symt) ctx st2;
          st4 \<leftarrow> emit_tables al ba0 cvt (sym_map_of symt) h ctx st3;
          let out = snd (bytearray_read_ready (es_body st4));
          b \<leftarrow> store_at (ba_buffer out) 0 [es_flag st4];
          load_at (Some b) 0 (ba_total out) }"

text \<open>\<open>lua_pushstring\<close> stops at a zero byte, so the string for \<open>false\<close> is empty.\<close>

definition luafan_objectbuf_encode ::
  "allocator \<Rightarrow> BYTEARRAY \<Rightarrow> (bytes \<Rightarrow> u64 option) \<Rightarrow> lheap \<Rightarrow> lval \<Rightarrow> symtab option
     \<Rightarrow> bytes ob_res" where
  "luafan_objectbuf_encode al ba0 cvt h v symt =
     (case v of
        LNil \<Rightarrow> Some (Inl (Raised ''no argument.''))
      | LBool b \<Rightarrow> Some (Inr (if b then [1] else []))
      | _ \<Rightarrow>
          bind_res (packer (Suc (length h)) h ctx_init v)
            (\<lambda>ctx. map_option Inr (encode_ctx al ba0 cvt symt h ctx)))"

section \<open>Decoding\<close>

record dec_state =
  ds_input :: BYTEARRAY
  ds_map :: "u32 \<rightharpoonup> lval"
  ds_index :: u32
  ds_last_top :: u32

text \<open>
  The loop over the elements of one section. The argument of \<open>fail\<close> is the number of elements that
  are left after the one that cannot be read.
\<close>

primrec decode_items ::
  "(BYTEARRAY \<Rightarrow> ('a option \<times> BYTEARRAY) option) \<Rightarrow> ('a \<Rightarrow> lval) \<Rightarrow> (nat \<Rightarrow> ob_fail) \<Rightarrow> nat
     \<Rightarrow> dec_state \<Rightarrow> dec_state ob_res" where
  "decode_items get mk fail 0 ds = Some (Inr ds)"
| "decode_items get mk fail (Suc n) ds =
     (case get (ds_input ds) of
        None \<Rightarrow> None
      | Some (None, _) \<Rightarrow> Some (Inl (fail n))
      | Some (Some x, input) \<Rightarrow>
          decode_items get mk fail n
            (ds\<lparr>ds_input := input, ds_index := ds_index ds + 1,
                ds_map := (ds_map ds)(ds_index ds + 1 \<mapsto> mk x)\<rparr>))"

definition get_or_fail ::
  "(BYTEARRAY \<Rightarrow> ('a option \<times> BYTEARRAY) option) \<Rightarrow> string \<Rightarrow> BYTEARRAY \<Rightarrow> ('a \<times> BYTEARRAY) ob_res" where
  "get_or_fail get msg input =
     (case get input of
        None \<Rightarrow> None
      | Some (None, _) \<Rightarrow> Some (Inl (Failed msg))
      | Some (Some x, input') \<Rightarrow> Some (Inr (x, input')))"

definition decode_section ::
  "(BYTEARRAY \<Rightarrow> ('a option \<times> BYTEARRAY) option) \<Rightarrow> ('a \<Rightarrow> lval) \<Rightarrow> string \<Rightarrow> (u32 \<Rightarrow> nat \<Rightarrow> ob_fail)
     \<Rightarrow> u8 \<Rightarrow> u8 \<Rightarrow> dec_state \<Rightarrow> dec_state ob_res" where
  "decode_section get mk msg fail msk flag ds =
     (if flag AND msk \<noteq> 0
      then bind_res (get_or_fail ffi_stream_get_u30 msg (ds_input ds))
             (\<lambda>(count, input).
                decode_items get mk (fail count) (unat count)
                  (ds\<lparr>ds_last_top := ds_index ds + 1, ds_input := input\<rparr>))
      else Some (Inr ds))"

definition decode_numbers :: "u8 \<Rightarrow> dec_state \<Rightarrow> dec_state ob_res" where
  "decode_numbers flag ds =
     decode_section ffi_stream_get_d64 LNum ''decode failed, can't get `number` count.''
       (\<lambda>count n. FailedNumber (unat count - n) (unat count)) HAS_NUMBER_MASK flag ds"

definition decode_u30s :: "u8 \<Rightarrow> dec_state \<Rightarrow> dec_state ob_res" where
  "decode_u30s flag ds =
     decode_section ffi_stream_get_u30 (\<lambda>u. LNum (dbl_of_nat (unat u))) ''decode failed.''
       (\<lambda>_ _. Failed ''decode failed.'') HAS_U30_MASK flag ds"

definition decode_strings :: "u8 \<Rightarrow> dec_state \<Rightarrow> dec_state ob_res" where
  "decode_strings flag ds =
     decode_section get_string_value LStr ''decode failed.''
       (\<lambda>_ _. Failed ''decode failed.'') HAS_STRING_MASK flag ds"

text \<open>The first loop over the tables creates them.\<close>

primrec create_tables :: "nat \<Rightarrow> u32 \<Rightarrow> lheap \<times> (u32 \<rightharpoonup> lval) \<Rightarrow> lheap \<times> (u32 \<rightharpoonup> lval)" where
  "create_tables 0 index hm = hm"
| "create_tables (Suc n) index hm =
     create_tables n (index + 1) (fst hm @ [[]], (snd hm)(index + 1 \<mapsto> LTable (length (fst hm))))"

definition decode_lookup :: "(u32 \<rightharpoonup> lval) \<Rightarrow> (u32 \<rightharpoonup> lval) \<Rightarrow> string \<Rightarrow> u32 \<Rightarrow> lval ob_res" where
  "decode_lookup vk m what i =
     (case vk i of
        Some v \<Rightarrow> Some (Inr v)
      | None \<Rightarrow> (case m i of Some v \<Rightarrow> Some (Inr v) | None \<Rightarrow> Some (Inl (NotFound what i))))"

text \<open>The array part of a table, from index \<open>j\<close> on.\<close>

primrec decode_array ::
  "(u32 \<rightharpoonup> lval) \<Rightarrow> (u32 \<rightharpoonup> lval) \<Rightarrow> nat \<Rightarrow> nat \<Rightarrow> BYTEARRAY \<Rightarrow> ltable \<Rightarrow> (BYTEARRAY \<times> ltable) ob_res" where
  "decode_array vk m 0 j d t = Some (Inr (d, t))"
| "decode_array vk m (Suc n) j d t =
     bind_res (get_or_fail ffi_stream_get_u30
                 (CHR 0x27 # ''i value'' @ CHR 0x27 # '' decode failed.'') d)
       (\<lambda>(vi, d'). bind_res (decode_lookup vk m ''vi'' vi)
          (\<lambda>v. decode_array vk m n (j + 1) d' (rawset t (LNum (dbl_of_nat j)) v)))"

definition rawset_checked :: "ltable \<Rightarrow> lval \<Rightarrow> lval \<Rightarrow> ltable ob_res" where
  "rawset_checked t k v =
     (if (case k of LNum d \<Rightarrow> dbl_is_nan d | _ \<Rightarrow> False) then Some (Inl (Raised ''table index is NaN''))
      else Some (Inr (rawset t k v)))"

text \<open>One round of the loop over the remaining key and value pairs.\<close>

definition decode_pair ::
  "(u32 \<rightharpoonup> lval) \<Rightarrow> (u32 \<rightharpoonup> lval) \<Rightarrow> BYTEARRAY \<Rightarrow> ltable \<Rightarrow> (BYTEARRAY \<times> ltable) ob_res" where
  "decode_pair vk m d t =
     bind_res (get_or_fail ffi_stream_get_u30 ''decode failed.'' d) (\<lambda>(ki, d1).
       bind_res (get_or_fail ffi_stream_get_u30 ''decode failed.'' d1) (\<lambda>(vi, d2).
         bind_res (decode_lookup vk m ''ki'' ki) (\<lambda>k.
           bind_res (decode_lookup vk m ''vi'' vi) (\<lambda>v.
             bind_res (rawset_checked t k v) (\<lambda>t'. Some (Inr (d2, t')))))))"

partial_function (option) decode_hash ::
  "(u32 \<rightharpoonup> lval) \<Rightarrow> (u32 \<rightharpoonup> lval) \<Rightarrow> BYTEARRAY \<Rightarrow> ltable \<Rightarrow> (ob_fail + ltable) option" where
  "decode_hash vk m d t =
     (if 0 < bytearray_read_available d
      then Option.bind (decode_pair vk m d t)
             (\<lambda>r. case r of Inl e \<Rightarrow> Some (Inl e) | Inr dt \<Rightarrow> decode_hash vk m (fst dt) (snd dt))
      else Some (Inr t))"

definition decode_table ::
  "(u32 \<rightharpoonup> lval) \<Rightarrow> (u32 \<rightharpoonup> lval) \<Rightarrow> bytes \<Rightarrow> ltable \<Rightarrow> ltable ob_res" where
  "decode_table vk m buff t =
     bind_res (get_or_fail ffi_stream_get_u30 (CHR 0x27 # ''count'' @ CHR 0x27 # '' decode failed.'')
                 (snd (bytearray_wrap_buffer zero_ba buff (word_of_nat (length buff)))))
       (\<lambda>(count, d). bind_res (decode_array vk m (unat count) 1 d t)
          (\<lambda>(d', t'). decode_hash vk m d' t'))"

text \<open>The second loop over the tables fills the one at index \<open>index + 1\<close>, and so on.\<close>

primrec decode_tables ::
  "(u32 \<rightharpoonup> lval) \<Rightarrow> (u32 \<rightharpoonup> lval) \<Rightarrow> nat \<Rightarrow> u32 \<Rightarrow> BYTEARRAY \<Rightarrow> lheap \<Rightarrow> (BYTEARRAY \<times> lheap) ob_res" where
  "decode_tables vk m 0 index input h = Some (Inr (input, h))"
| "decode_tables vk m (Suc n) index input h =
     bind_res (get_or_fail get_string_value ''decode failed.'' input)
       (\<lambda>(buff, input').
          case m (index + 1) of
            Some (LTable a) \<Rightarrow>
              bind_res (decode_table vk m buff (tab h a))
                (\<lambda>t. decode_tables vk m n (index + 1) input' (h[a := t]))
          | _ \<Rightarrow> None)"

text \<open>
  The loop that creates the tables counts with a 32-bit variable up to and including the count, so it
  never ends when the count is the largest 32-bit number.
\<close>

definition decode_table_section ::
  "(u32 \<rightharpoonup> lval) \<Rightarrow> u8 \<Rightarrow> lheap \<Rightarrow> dec_state \<Rightarrow> (dec_state \<times> lheap) ob_res" where
  "decode_table_section vk flag h ds =
     (if flag AND HAS_TABLE_MASK \<noteq> 0
      then bind_res (get_or_fail ffi_stream_get_u30 ''decode failed.'' (ds_input ds))
             (\<lambda>(count, input).
                if count = - 1 then None
                else let (h', m) = create_tables (unat count) (ds_index ds) (h, ds_map ds)
                     in bind_res (decode_tables vk m (unat count) (ds_index ds) input h')
                          (\<lambda>(input', h''). Some (Inr (ds\<lparr>ds_last_top := ds_index ds + 1,
                                                          ds_input := input', ds_map := m\<rparr>, h''))))
      else Some (Inr (ds, h)))"

definition decode_sections ::
  "symtab option \<Rightarrow> lheap \<Rightarrow> u8 \<Rightarrow> BYTEARRAY \<Rightarrow> (lheap \<times> lval) ob_res" where
  "decode_sections symt h flag input =
     bind_res (decode_numbers flag \<lparr>ds_input = input,
         ds_map = [FALSE_INDEX \<mapsto> LBool False, TRUE_INDEX \<mapsto> LBool True],
         ds_index = sym_index_of symt, ds_last_top = sym_index_of symt + 1\<rparr>) (\<lambda>ds1.
       bind_res (decode_u30s flag ds1) (\<lambda>ds2.
         bind_res (decode_strings flag ds2) (\<lambda>ds3.
           bind_res (decode_table_section (sym_vk_of symt) flag h ds3) (\<lambda>(ds4, h').
             Some (Inr (h', case sym_vk_of symt (ds_last_top ds4) of
                              Some v \<Rightarrow> v
                            | None \<Rightarrow> (case ds_map ds4 (ds_last_top ds4) of
                                         Some v \<Rightarrow> v | None \<Rightarrow> LNil)))))))"

text \<open>An empty input leaves the flag at 0.\<close>

definition luafan_objectbuf_decode ::
  "BYTEARRAY \<Rightarrow> lheap \<Rightarrow> bytes \<Rightarrow> symtab option \<Rightarrow> (lheap \<times> lval) ob_res" where
  "luafan_objectbuf_decode ba0 h buf symt =
     (let input0 = snd (bytearray_wrap_buffer ba0 buf (word_of_nat (length buf)))
      in case bytearray_read8 input0 of
           None \<Rightarrow> None
         | Some (r, input) \<Rightarrow>
             (let flag = (case r of Some b \<Rightarrow> b | None \<Rightarrow> 0)
              in if flag = 0 then Some (Inr (h, LBool False))
                 else if flag = 1 then Some (Inr (h, LBool True))
                 else decode_sections symt h flag input))"

section \<open>What the packer collects\<close>

text \<open>The values that can be reached from \<open>r\<close> through keys and values of tables.\<close>

inductive reaches :: "lheap \<Rightarrow> lval \<Rightarrow> lval \<Rightarrow> bool" for h r where
  reaches_refl: "reaches h r r"
| reaches_key: "reaches h r (LTable a) \<Longrightarrow> (k, v) \<in> set (tab h a) \<Longrightarrow> reaches h r k"
| reaches_val: "reaches h r (LTable a) \<Longrightarrow> (k, v) \<in> set (tab h a) \<Longrightarrow> reaches h r v"

definition is_nan_val :: "lval \<Rightarrow> bool" where
  "is_nan_val v = (case v of LNum d \<Rightarrow> dbl_is_nan d | _ \<Rightarrow> False)"

definition ctx_wf :: "CTX \<Rightarrow> bool" where
  "ctx_wf ctx \<longleftrightarrow>
     distinct (ctx_tables ctx) \<and> dom (table_idxs ctx) = set (ctx_tables ctx)
     \<and> distinct (map dbl_canon (ctx_numbers ctx @ ctx_u30s ctx))
     \<and> dom (num_idxs ctx) = dbl_canon ` set (ctx_numbers ctx @ ctx_u30s ctx)
     \<and> list_all (\<lambda>d. \<not> is_u30 d \<and> \<not> dbl_is_nan d) (ctx_numbers ctx)
     \<and> list_all is_u30 (ctx_u30s ctx)
     \<and> distinct (ctx_strings ctx) \<and> dom (string_idxs ctx) = set (ctx_strings ctx)"

definition covers :: "CTX \<Rightarrow> lval \<Rightarrow> bool" where
  "covers ctx v =
     (case v of
        LTable a \<Rightarrow> a \<in> set (ctx_tables ctx)
      | LNum d \<Rightarrow> dbl_canon d \<in> dbl_canon ` set (ctx_numbers ctx @ ctx_u30s ctx)
      | LStr s \<Rightarrow> s \<in> set (ctx_strings ctx)
      | _ \<Rightarrow> True)"

definition covers_entries :: "CTX \<Rightarrow> ltable \<Rightarrow> bool" where
  "covers_entries ctx t \<longleftrightarrow> (\<forall>(k, v)\<in>set t. covers ctx k \<and> covers ctx v)"

definition recorded :: "CTX \<Rightarrow> lval set" where
  "recorded ctx = LTable ` set (ctx_tables ctx) \<union> LNum ` set (ctx_numbers ctx @ ctx_u30s ctx)
     \<union> LStr ` set (ctx_strings ctx)"

definition ctx_ext :: "CTX \<Rightarrow> CTX \<Rightarrow> bool" where
  "ctx_ext c c' \<longleftrightarrow>
     (\<exists>ts. ctx_tables c' = ctx_tables c @ ts) \<and> (\<exists>ns. ctx_numbers c' = ctx_numbers c @ ns)
     \<and> (\<exists>us. ctx_u30s c' = ctx_u30s c @ us) \<and> (\<exists>ss. ctx_strings c' = ctx_strings c @ ss)"

definition pack_step :: "lheap \<Rightarrow> lval set \<Rightarrow> CTX \<Rightarrow> CTX \<Rightarrow> bool" where
  "pack_step h R c c' \<longleftrightarrow>
     ctx_wf c' \<and> ctx_ext c c' \<and> recorded c' \<subseteq> R
     \<and> (\<forall>a\<in>set (ctx_tables c') - set (ctx_tables c). covers_entries c' (tab h a))"

lemma ctx_ext_refl: "ctx_ext c c"
  by (simp add: ctx_ext_def)

lemma ctx_ext_trans: "ctx_ext a b \<Longrightarrow> ctx_ext b c \<Longrightarrow> ctx_ext a c"
  by (fastforce simp: ctx_ext_def)

lemma covers_mono: "ctx_ext c c' \<Longrightarrow> covers c v \<Longrightarrow> covers c' v"
  by (auto simp: ctx_ext_def covers_def split: lval.splits)

lemma covers_entries_mono: "ctx_ext c c' \<Longrightarrow> covers_entries c t \<Longrightarrow> covers_entries c' t"
  by (auto simp: covers_entries_def dest: covers_mono)

lemma pack_step_trans: "pack_step h R a b \<Longrightarrow> pack_step h R b c \<Longrightarrow> pack_step h R a c"
  unfolding pack_step_def by (blast intro: ctx_ext_trans covers_entries_mono)

lemma pack_step_refl: "ctx_wf c \<Longrightarrow> recorded c \<subseteq> R \<Longrightarrow> pack_step h R c c"
  by (simp add: pack_step_def ctx_ext_refl)

lemma ctx_wf_idxs:
  assumes "ctx_wf c"
  shows "table_idxs c a = None \<longleftrightarrow> a \<notin> set (ctx_tables c)"
    and "num_idxs c x = None \<longleftrightarrow> x \<notin> dbl_canon ` set (ctx_numbers c @ ctx_u30s c)"
    and "string_idxs c s = None \<longleftrightarrow> s \<notin> set (ctx_strings c)"
proof -
  have "dom (table_idxs c) = set (ctx_tables c)" "dom (string_idxs c) = set (ctx_strings c)"
    "dom (num_idxs c) = dbl_canon ` set (ctx_numbers c @ ctx_u30s c)"
    using assms by (simp_all only: ctx_wf_def)
  then show "table_idxs c a = None \<longleftrightarrow> a \<notin> set (ctx_tables c)"
    and "num_idxs c x = None \<longleftrightarrow> x \<notin> dbl_canon ` set (ctx_numbers c @ ctx_u30s c)"
    and "string_idxs c s = None \<longleftrightarrow> s \<notin> set (ctx_strings c)"
    by (metis domIff)+
qed

text \<open>
  The outcome of packing one value: the context is extended and covers the value, or a number in reach
  is NaN and Lua raises an error.
\<close>

definition pack_outcome :: "lheap \<Rightarrow> lval set \<Rightarrow> CTX \<Rightarrow> (CTX \<Rightarrow> bool) \<Rightarrow> CTX ob_res \<Rightarrow> bool" where
  "pack_outcome h R c goal r \<longleftrightarrow>
     (\<exists>c'. r = Some (Inr c') \<and> pack_step h R c c' \<and> goal c')
     \<or> r = Some (Inl (Raised ''table index is NaN'')) \<and> (\<exists>v\<in>R. is_nan_val v)"

lemma pack_outcome_weaken:
  "pack_outcome h R c goal r \<Longrightarrow> (\<And>c'. goal c' \<Longrightarrow> goal' c') \<Longrightarrow> pack_outcome h R c goal' r"
  by (auto simp: pack_outcome_def)

text \<open>A table that is new to the context is listed next.\<close>

definition listed_next :: "CTX \<Rightarrow> CTX \<Rightarrow> lval \<Rightarrow> bool" where
  "listed_next c c' v \<longleftrightarrow>
     (\<forall>a. v = LTable a \<and> a \<notin> set (ctx_tables c) \<longrightarrow> (\<exists>ts. ctx_tables c' = ctx_tables c @ a # ts))"

lemma pack_number_outcome:
  assumes wf: "ctx_wf c" and rec: "recorded c \<subseteq> R" and d: "LNum d \<in> R"
  shows "pack_outcome h R c (\<lambda>c'. covers c' (LNum d)) (packer_number c d)"
proof (cases "num_idxs c (dbl_canon d)")
  case None
  then have new: "dbl_canon d \<notin> dbl_canon ` set (ctx_numbers c @ ctx_u30s c)"
    using ctx_wf_idxs(2) [OF wf] by simp
  have "\<exists>v\<in>R. is_nan_val v" if "dbl_is_nan d"
    using d that by (intro bexI [of _ "LNum d"]) (simp_all add: is_nan_val_def)
  with None new assms show ?thesis
    by (auto simp: packer_number_def pack_outcome_def pack_step_def ctx_wf_def ctx_ext_def
        recorded_def covers_def)
next
  case (Some i)
  then have "dbl_canon d \<in> dom (num_idxs c)" by auto
  with wf have "covers c (LNum d)" by (simp add: ctx_wf_def covers_def)
  with Some show ?thesis
    using pack_step_refl [OF wf rec] by (simp add: packer_number_def pack_outcome_def)
qed

lemma pack_string_outcome:
  assumes wf: "ctx_wf c" and rec: "recorded c \<subseteq> R" and s: "LStr s \<in> R"
  shows "pack_outcome h R c (\<lambda>c'. covers c' (LStr s)) (Some (Inr (packer_string c s)))"
proof (cases "string_idxs c s")
  case None
  then have "s \<notin> set (ctx_strings c)" using ctx_wf_idxs(3) [OF wf] by simp
  with None assms show ?thesis
    by (auto simp: packer_string_def pack_outcome_def pack_step_def ctx_wf_def ctx_ext_def
        recorded_def covers_def)
next
  case (Some i)
  then have "s \<in> dom (string_idxs c)" by auto
  with wf Some show ?thesis
    using pack_step_refl [OF wf rec] by (simp add: packer_string_def pack_outcome_def ctx_wf_def covers_def)
qed

lemma pack_function_outcome:
  assumes "ctx_wf c" and "recorded c \<subseteq> R"
  shows "pack_outcome h R c (\<lambda>c'. covers c' (LFunc f)) (Some (Inr (packer_function c f)))"
  using assms
  by (auto simp: packer_function_def pack_outcome_def pack_step_def ctx_wf_def ctx_ext_def
      recorded_def covers_def split: option.splits)

lemma pack_entry_covered:
  "pack_step h R c c' \<Longrightarrow> covers c k \<Longrightarrow> covers c v \<Longrightarrow> covers_entries c' t \<Longrightarrow> covers_entries c' ((k, v) # t)"
  by (auto simp: pack_step_def covers_entries_def intro: covers_mono)

lemma pack_entries_outcome:
  assumes pack: "\<And>c v. ctx_wf c \<Longrightarrow> recorded c \<subseteq> R \<Longrightarrow> v \<in> R \<Longrightarrow> N \<le> length (ctx_tables c) \<Longrightarrow>
       pack_outcome h R c (\<lambda>c'. covers c' v) (pack c v)"
    and "ctx_wf c" and "recorded c \<subseteq> R" and "N \<le> length (ctx_tables c)"
    and "\<forall>(k, v)\<in>set t. k \<in> R \<and> v \<in> R"
  shows "pack_outcome h R c (\<lambda>c'. covers_entries c' t) (packer_entries pack t c)"
  using assms(2-)
proof (induction t arbitrary: c)
  case Nil
  then show ?case by (simp add: pack_outcome_def pack_step_refl covers_entries_def)
next
  case (Cons kv t)
  obtain k v where kv: "kv = (k, v)" by fastforce
  have more: "ctx_wf c' \<and> recorded c' \<subseteq> R \<and> N \<le> length (ctx_tables c')"
    if "pack_step h R b c'" "N \<le> length (ctx_tables b)" for b c'
    using that by (auto simp: pack_step_def ctx_ext_def)
  show ?case
  proof (cases "\<exists>c1. pack c k = Some (Inr c1)")
    case False
    with pack [of c k] Cons.prems kv show ?thesis by (auto simp: pack_outcome_def bind_res_def)
  next
    case True
    then obtain c1 where c1: "pack c k = Some (Inr c1)" "pack_step h R c c1" "covers c1 k"
      using pack [of c k] Cons.prems kv by (auto simp: pack_outcome_def)
    note m1 = more [OF c1(2) Cons.prems(3)]
    show ?thesis
    proof (cases "\<exists>c2. pack c1 v = Some (Inr c2)")
      case False
      with pack [of c1 v] Cons.prems kv m1 c1 show ?thesis by (auto simp: pack_outcome_def bind_res_def)
    next
      case True
      then obtain c2 where c2: "pack c1 v = Some (Inr c2)" "pack_step h R c1 c2" "covers c2 v"
        using pack [of c1 v] Cons.prems kv m1 by (auto simp: pack_outcome_def)
      have m2: "ctx_wf c2 \<and> recorded c2 \<subseteq> R \<and> N \<le> length (ctx_tables c2)"
        using more [OF c2(2)] m1 by blast
      have "pack_outcome h R c2 (\<lambda>c'. covers_entries c' t) (packer_entries pack t c2)"
        using Cons.IH [of c2] Cons.prems(4) m2 by simp
      moreover have "pack_step h R c c2" using c1(2) c2(2) by (rule pack_step_trans)
      moreover have "covers c2 k" using c1(3) c2(2) covers_mono by (auto simp: pack_step_def)
      ultimately show ?thesis
        using c1(1) c2(1,3) kv by (auto simp: pack_outcome_def bind_res_def intro: pack_entry_covered pack_step_trans)
    qed
  qed
qed

locale packed_heap =
  fixes h :: lheap and R :: "lval set"
  assumes closed: "LTable a \<in> R \<Longrightarrow> (k, v) \<in> set (tab h a) \<Longrightarrow> k \<in> R \<and> v \<in> R"
    and inside: "LTable a \<in> R \<Longrightarrow> a < length h"
begin

lemma tables_bounded: "ctx_wf c \<Longrightarrow> recorded c \<subseteq> R \<Longrightarrow> length (ctx_tables c) \<le> length h"
proof -
  assume "ctx_wf c" and "recorded c \<subseteq> R"
  then have "distinct (ctx_tables c)" and "set (ctx_tables c) \<subseteq> {..<length h}"
    by (auto simp: ctx_wf_def recorded_def dest: inside)
  then show ?thesis by (metis card_lessThan card_mono distinct_card finite_lessThan)
qed

lemma packer_outcome:
  "ctx_wf c \<Longrightarrow> recorded c \<subseteq> R \<Longrightarrow> v \<in> R \<Longrightarrow> length h < n + length (ctx_tables c) \<Longrightarrow>
     pack_outcome h R c (\<lambda>c'. covers c' v \<and> listed_next c c' v) (packer n h c v)"
proof (induction n arbitrary: c v)
  case 0
  then show ?case using tables_bounded [of c] by simp
next
  case (Suc n)
  have scalar: "pack_outcome h R c (\<lambda>c'. covers c' v \<and> listed_next c c' v) r"
    if "pack_outcome h R c (\<lambda>c'. covers c' v) r" "\<forall>a. v \<noteq> LTable a" for r
    using that by (elim pack_outcome_weaken) (simp add: listed_next_def)
  show ?case
  proof (cases v)
    case (LTable a)
    show ?thesis
    proof (cases "table_idxs c a")
      case None
      let ?c0 = "c\<lparr>ctx_tables := ctx_tables c @ [a],
                   table_idxs := (table_idxs c)(a \<mapsto> Suc (length (ctx_tables c)))\<rparr>"
      have "a \<notin> set (ctx_tables c)" using None ctx_wf_idxs(1) [OF Suc.prems(1)] by simp
      then have c0: "ctx_wf ?c0" "recorded ?c0 \<subseteq> R" "ctx_ext c ?c0"
        using Suc.prems LTable by (auto simp: ctx_wf_def recorded_def ctx_ext_def)
      have "pack_outcome h R ?c0 (\<lambda>c'. covers_entries c' (tab h a))
              (packer_entries (packer n h) (tab h a) ?c0)"
      proof (rule pack_entries_outcome [where N = "Suc (length (ctx_tables c))"])
        show "pack_outcome h R b (\<lambda>c'. covers c' w) (packer n h b w)"
          if "ctx_wf b" "recorded b \<subseteq> R" "w \<in> R" "Suc (length (ctx_tables c)) \<le> length (ctx_tables b)" for b w
          using that Suc.prems by (intro pack_outcome_weaken [OF Suc.IH]) auto
        show "\<forall>(k, w)\<in>set (tab h a). k \<in> R \<and> w \<in> R"
          using closed Suc.prems(3) LTable by blast
      qed (use c0 in simp_all)
      then show ?thesis
        using None LTable c0(3)
        by (auto simp: pack_outcome_def packer_table_def pack_step_def covers_def listed_next_def
            elim: ctx_ext_trans) (auto simp: ctx_ext_def)
    next
      case (Some i)
      then have "a \<in> set (ctx_tables c)" using ctx_wf_idxs(1) [OF Suc.prems(1), of a] by auto
      with Suc.prems Some LTable show ?thesis
        by (simp add: packer_table_def pack_outcome_def pack_step_refl covers_def listed_next_def)
    qed
  next
    case (LNum d)
    with Suc.prems show ?thesis using scalar by (simp add: pack_number_outcome)
  next
    case (LStr s)
    with Suc.prems show ?thesis using scalar by (simp add: pack_string_outcome)
  next
    case (LFunc f)
    with Suc.prems show ?thesis using scalar by (simp add: pack_function_outcome)
  qed (use Suc.prems in \<open>simp_all add: pack_outcome_def pack_step_refl covers_def listed_next_def\<close>)
qed

end

text \<open>Only a well-formed heap has reachable values.\<close>

definition reachable :: "lheap \<Rightarrow> lval \<Rightarrow> lval set" where
  "reachable h r = {v. heap_ok h \<and> ref_ok h r \<and> reaches h r v}"

lemma reaches_ref_ok: "reaches h r v \<Longrightarrow> heap_ok h \<Longrightarrow> ref_ok h r \<Longrightarrow> ref_ok h v"
proof (induction rule: reaches.induct)
  case (reaches_key a k v)
  then show ?case by (auto simp: heap_ok_def list_all_iff tab_def split: if_splits)
next
  case (reaches_val a k v)
  then show ?case by (auto simp: heap_ok_def list_all_iff tab_def split: if_splits)
qed

interpretation packed: packed_heap h "reachable h r" for h r
proof
  show "k \<in> reachable h r \<and> v \<in> reachable h r"
    if "LTable a \<in> reachable h r" "(k, v) \<in> set (tab h a)" for a k v
    using that by (auto simp: reachable_def intro: reaches_key reaches_val)
  show "a < length h" if "LTable a \<in> reachable h r" for a
    using that reaches_ref_ok [of h r "LTable a"] by (simp add: reachable_def ref_ok_def)
qed

lemma ctx_init_wf: "ctx_wf ctx_init" "recorded ctx_init = {}" "ctx_tables ctx_init = []"
  by (simp_all add: ctx_wf_def recorded_def ctx_init_def)

lemma packer_enough:
  assumes "heap_ok h" and "ref_ok h r"
  shows "pack_outcome h (reachable h r) ctx_init (\<lambda>c'. covers c' r \<and> listed_next ctx_init c' r)
           (packer (Suc (length h)) h ctx_init r)"
  using assms
  by (intro packed.packer_outcome)
    (simp_all add: ctx_init_wf reachable_def reaches_refl)

definition collected :: "lheap \<Rightarrow> lval \<Rightarrow> CTX \<Rightarrow> bool" where
  "collected h r c \<longleftrightarrow>
     ctx_wf c \<and> recorded c \<subseteq> reachable h r \<and> covers c r
     \<and> (\<forall>a\<in>set (ctx_tables c). covers_entries c (tab h a))
     \<and> (\<forall>a. r = LTable a \<longrightarrow> (\<exists>ts. ctx_tables c = a # ts))"

lemma packer_collects:
  assumes "heap_ok h" and "ref_ok h r" and "\<forall>v\<in>reachable h r. \<not> is_nan_val v"
  obtains c where "packer (Suc (length h)) h ctx_init r = Some (Inr c)" and "collected h r c"
  using packer_enough [OF assms(1,2)] assms(3)
  by (auto simp: pack_outcome_def pack_step_def collected_def listed_next_def ctx_init_wf)

lemma collected_reaches:
  assumes c: "collected h r c"
  shows "reaches h r v \<Longrightarrow> covers c v"
proof (induction rule: reaches.induct)
  case reaches_refl
  show ?case using c by (simp add: collected_def)
next
  case (reaches_key a k v)
  then have "a \<in> set (ctx_tables c)" by (simp add: covers_def)
  with reaches_key c show ?case by (auto simp: collected_def covers_entries_def)
next
  case (reaches_val a k v)
  then have "a \<in> set (ctx_tables c)" by (simp add: covers_def)
  with reaches_val c show ?case by (auto simp: collected_def covers_entries_def)
qed

end
