(* ===== verification/Objectbuf_Roundtrip.thy ===== *)
theory Objectbuf_Roundtrip
  imports Objectbuf "HOL-Library.Multiset"
begin

text \<open>
  Correctness of the object serialiser: the bytes that \<open>luafan_objectbuf_encode\<close> produces, given
  section by section, and the proof that \<open>luafan_objectbuf_decode\<close> rebuilds from them a copy of the
  object graph.
\<close>

section \<open>The bytes an encoding consists of\<close>

text \<open>The values of a section that the symbol table does not know, and the indices they are given.\<close>

definition fresh :: "(lval \<rightharpoonup> u32) \<Rightarrow> ('a \<Rightarrow> lval) \<Rightarrow> 'a list \<Rightarrow> 'a list" where
  "fresh smap mk xs = filter (\<lambda>x. smap (key_of (mk x)) = None) xs"

primrec assign :: "(lval \<rightharpoonup> u32) \<Rightarrow> u32 \<Rightarrow> lval list \<Rightarrow> lval \<rightharpoonup> u32" where
  "assign im i [] = im"
| "assign im i (v # vs) = assign (im(key_of v \<mapsto> i + 1)) (i + 1) vs"

definition section_bytes :: "('a \<Rightarrow> bytes) \<Rightarrow> (lval \<rightharpoonup> u32) \<Rightarrow> ('a \<Rightarrow> lval) \<Rightarrow> 'a list \<Rightarrow> bytes" where
  "section_bytes enc smap mk xs =
     (if xs = [] then []
      else enc_u30 (word_of_nat (length (fresh smap mk xs))) @ concat (map enc (fresh smap mk xs)))"

function array_values :: "ltable \<Rightarrow> nat \<Rightarrow> lval list" where
  "array_values t n =
     (case rawgeti t (int n + 1) of None \<Rightarrow> [] | Some v \<Rightarrow> v # array_values t (n + 1))"
  by pat_completeness auto
termination
  by (relation "measure (\<lambda>(t, n). int_keys_above t (int n))")
    (auto simp: add.commute [of 1] dest: int_keys_above_less)

declare array_values.simps [simp del]

definition hash_entries :: "(bytes \<Rightarrow> u64 option) \<Rightarrow> nat \<Rightarrow> ltable \<Rightarrow> ltable" where
  "hash_entries cvt n t = filter (\<lambda>(k, v). \<not> in_array_part cvt n k) t"

definition table_bytes ::
  "(bytes \<Rightarrow> u64 option) \<Rightarrow> (lval \<Rightarrow> u32) \<Rightarrow> ltable \<Rightarrow> bytes" where
  "table_bytes cvt ix t =
     (let vs = array_values t 0
      in enc_u30 (word_of_nat (length vs)) @ concat (map (\<lambda>v. enc_u30 (ix v)) vs)
         @ concat (map (\<lambda>(k, v). enc_u30 (ix k) @ enc_u30 (ix v)) (hash_entries cvt (length vs) t)))"

text \<open>All values with an index, in the order of the indices.\<close>

definition slots :: "(lval \<rightharpoonup> u32) \<Rightarrow> CTX \<Rightarrow> lval list" where
  "slots smap ctx =
     map LNum (fresh smap LNum (ctx_numbers ctx)) @ map LNum (fresh smap LNum (ctx_u30s ctx))
     @ map LStr (fresh smap LStr (ctx_strings ctx))"

definition bool_map :: "lval \<rightharpoonup> u32" where
  "bool_map = [LBool False \<mapsto> FALSE_INDEX, LBool True \<mapsto> TRUE_INDEX]"

definition index_map :: "symtab option \<Rightarrow> CTX \<Rightarrow> lval \<rightharpoonup> u32" where
  "index_map symt ctx =
     assign bool_map (sym_index_of symt) (slots (sym_map_of symt) ctx @ map LTable (ctx_tables ctx))"

definition table_section ::
  "(bytes \<Rightarrow> u64 option) \<Rightarrow> (lval \<Rightarrow> u32) \<Rightarrow> lheap \<Rightarrow> CTX \<Rightarrow> bytes" where
  "table_section cvt ix h ctx =
     (if ctx_tables ctx = [] then []
      else enc_u30 (word_of_nat (length (ctx_tables ctx)))
           @ concat (map (\<lambda>a. enc_string (table_bytes cvt ix (tab h a))) (ctx_tables ctx)))"

definition flag_of :: "CTX \<Rightarrow> u8" where
  "flag_of ctx =
     (if ctx_numbers ctx = [] then 0 else HAS_NUMBER_MASK)
     OR (if ctx_u30s ctx = [] then 0 else HAS_U30_MASK)
     OR (if ctx_strings ctx = [] then 0 else HAS_STRING_MASK)
     OR (if ctx_tables ctx = [] then 0 else HAS_TABLE_MASK)"

definition body_bytes ::
  "(bytes \<Rightarrow> u64 option) \<Rightarrow> symtab option \<Rightarrow> lheap \<Rightarrow> CTX \<Rightarrow> bytes" where
  "body_bytes cvt symt h ctx =
     section_bytes enc_d64 (sym_map_of symt) LNum (ctx_numbers ctx)
     @ section_bytes (\<lambda>d. enc_u30 (u30_of d)) (sym_map_of symt) LNum (ctx_u30s ctx)
     @ section_bytes enc_string (sym_map_of symt) LStr (ctx_strings ctx)
     @ table_section cvt (lookup_index (sym_map_of symt) (index_map symt ctx)) h ctx"

section \<open>The encoder writes these bytes\<close>

lemma content_ready:
  assumes "ba_wf d" and "\<not> ba_reading d"
  shows "ba_content (snd (bytearray_read_ready d)) = Some (written d)"
    and "ba_total (snd (bytearray_read_ready d)) = length (written d)"
proof -
  from assms obtain d' where d': "bytearray_read_ready d = (True, d')" "ba_wf d'"
      "unread d' = written d" "ba_total d' = length (written d)" "ba_offset d' = 0"
    by (rule read_ready_content)
  then show "ba_total (snd (bytearray_read_ready d)) = length (written d)" by simp
  from d' show "ba_content (snd (bytearray_read_ready d)) = Some (written d)"
    by (auto elim!: ba_wfE simp: ba_content_def unread_def load_at_def)
qed

lemma writebuffer_roomy:
  "roomy al \<Longrightarrow> growable ba \<Longrightarrow> ba_offset ba + length bs \<le> 2 ^ 62 \<Longrightarrow>
     \<exists>ba'. bytearray_writebuffer al ba bs = Some (True, ba') \<and> appended ba bs ba'"
  using write_value_roomy [of al ba bs] by (simp add: bytearray_writebuffer_optimized_def)

context byte_sink
begin

lemma emit_items_enc:
  assumes room: "roomy al" and "growable d" and "ba_offset d + length (concat (map enc (fresh smap mk xs))) \<le> 2 ^ 62"
  shows "\<exists>d'. emit_items (put al) mk smap index xs (d, rc, im) =
       Some (d', rc + word_of_nat (length (fresh smap mk xs)),
             assign im (index + rc) (map mk (fresh smap mk xs)))
     \<and> appended d (concat (map enc (fresh smap mk xs))) d'"
  using assms(2,3)
proof (induction xs arbitrary: d rc im)
  case Nil
  then show ?case by (simp add: fresh_def appended_refl growable_def)
next
  case (Cons x xs)
  show ?case
  proof (cases "smap (key_of (mk x))")
    case (Some i)
    then have "fresh smap mk (x # xs) = fresh smap mk xs" by (simp add: fresh_def)
    with Cons Some show ?thesis by simp
  next
    case None
    then have f: "fresh smap mk (x # xs) = x # fresh smap mk xs" by (simp add: fresh_def)
    with Cons.prems obtain d1 where d1: "put al d x = Some d1" "appended d (enc x) d1"
      using put_enc [OF room, of d x] by auto
    then have "growable d1" using Cons.prems appended_growable by blast
    moreover have "ba_offset d1 + length (concat (map enc (fresh smap mk xs))) \<le> 2 ^ 62"
      using Cons.prems(2) d1(2) f by (intro appended_room [OF d1(2)]) simp
    ultimately obtain d' where "emit_items (put al) mk smap index xs
          (d1, rc + 1, im(key_of (mk x) \<mapsto> index + (rc + 1))) =
        Some (d', rc + 1 + word_of_nat (length (fresh smap mk xs)),
          assign (im(key_of (mk x) \<mapsto> index + (rc + 1))) (index + (rc + 1)) (map mk (fresh smap mk xs)))"
        "appended d1 (concat (map enc (fresh smap mk xs))) d'"
      using Cons.IH by blast
    with None d1 f show ?thesis by (auto simp: ac_simps dest: appended_trans)
  qed
qed

lemma emit_section_enc:
  assumes room: "roomy al"
    and body: "growable (es_body st)"
    and size: "ba_offset (es_body st) + length (section_bytes enc smap mk xs) \<le> 2 ^ 62"
  shows "\<exists>b. emit_section al ba0 (put al) mk msk smap xs st =
       Some \<lparr>es_flag = es_flag st OR (if xs = [] then 0 else msk), es_body = b,
             es_index = es_index st + word_of_nat (length (fresh smap mk xs)),
             es_map = assign (es_map st) (es_index st) (map mk (fresh smap mk xs))\<rparr>
     \<and> appended (es_body st) (section_bytes enc smap mk xs) b"
proof (cases "xs = []")
  case True
  with body show ?thesis
    by (intro exI [of _ "es_body st"])
      (simp add: emit_section_def fresh_def section_bytes_def appended_refl growable_def)
next
  case False
  let ?f = "fresh smap mk xs"
  let ?d0 = "snd (bytearray_alloc al ba0 0)"
  have s: "section_bytes enc smap mk xs = enc_u30 (word_of_nat (length ?f)) @ concat (map enc ?f)"
    using False by (simp add: section_bytes_def)
  from emit_items_enc [OF room, where d = ?d0 and smap = smap and mk = mk and xs = xs
      and index = "es_index st" and rc = 0 and im = "es_map st"] alloc_empty [OF room, of ba0 0] size s
  obtain d where d: "emit_items (put al) mk smap (es_index st) xs (?d0, 0, es_map st) =
       Some (d, word_of_nat (length ?f), assign (es_map st) (es_index st) (map mk ?f))"
      "appended ?d0 (concat (map enc ?f)) d"
    by auto
  note d' = appended_from_empty [OF d(2) alloc_empty(2,3) [OF room]]
  from add_u30_sink [OF room body, of "word_of_nat (length ?f)"] size s obtain b1 where
    b1: "ffi_stream_add_u30 al (es_body st) (word_of_nat (length ?f)) = Some b1"
      "appended (es_body st) (enc_u30 (word_of_nat (length ?f))) b1"
    by auto
  have "ba_offset b1 + length (concat (map enc ?f)) \<le> 2 ^ 62"
    using size s by (intro appended_room [OF b1(2)]) simp
  then obtain b2 where b2: "bytearray_writebuffer al b1 (concat (map enc ?f)) = Some (True, b2)"
      "appended b1 (concat (map enc ?f)) b2"
    using writebuffer_roomy [OF room appended_growable [OF b1(2) body]] by blast
  show ?thesis
    using False d(1) d' b1 b2 s content_ready [of d] appended_trans [OF b1(2) b2(2)]
    by (simp add: emit_section_def)
qed

end

interpretation u30_item_sink: byte_sink "\<lambda>al ba x. ffi_stream_add_u30 al ba (u30_of x)" "\<lambda>x. enc_u30 (u30_of x)"
  by unfold_locales (rule add_u30_sink)

lemma encode_array_ok:
  assumes room: "roomy al"
  shows "growable d \<Longrightarrow>
     ba_offset d + length (concat (map (\<lambda>v. enc_u30 (lookup_index smap im v)) (array_values t n))) \<le> 2 ^ 62 \<Longrightarrow>
     \<exists>d'. encode_array al smap im t d n = Some (d', n + length (array_values t n))
       \<and> appended d (concat (map (\<lambda>v. enc_u30 (lookup_index smap im v)) (array_values t n))) d'"
proof (induction t n arbitrary: d rule: array_values.induct)
  case (1 t n)
  show ?case
  proof (cases "rawgeti t (int n + 1)")
    case None
    with 1(2) show ?thesis
      by (simp add: encode_array.simps [of _ _ _ t _ n] array_values.simps [of t n] appended_refl growable_def)
  next
    case (Some v)
    let ?e = "enc_u30 (lookup_index smap im v)"
    note av = array_values.simps [of t n]
    obtain d1 where d1: "ffi_stream_add_u30 al d (lookup_index smap im v) = Some d1" "appended d ?e d1"
      using add_u30_sink [OF room 1(2), of "lookup_index smap im v"] 1(3) Some av by auto
    have "ba_offset d1 + length (concat (map (\<lambda>v. enc_u30 (lookup_index smap im v)) (array_values t (n + 1)))) \<le> 2 ^ 62"
      using 1(3) Some av by (intro appended_room [OF d1(2)]) simp
    from 1(1) [OF Some appended_growable [OF d1(2) 1(2)] this] Some d1 av show ?thesis
      by (auto simp: encode_array.simps [of _ _ _ t _ n] dest: appended_trans)
  qed
qed

lemma encode_hash_ok:
  assumes room: "roomy al"
  shows "growable d \<Longrightarrow>
     ba_offset d + length (concat (map (\<lambda>(k, v). enc_u30 (lookup_index smap im k) @ enc_u30 (lookup_index smap im v))
       (hash_entries cvt n t))) \<le> 2 ^ 62 \<Longrightarrow>
     \<exists>d'. encode_hash al cvt smap im n t d = Some d'
       \<and> appended d (concat (map (\<lambda>(k, v). enc_u30 (lookup_index smap im k) @ enc_u30 (lookup_index smap im v))
           (hash_entries cvt n t))) d'"
proof (induction t arbitrary: d)
  case Nil
  then show ?case by (simp add: hash_entries_def appended_refl growable_def)
next
  case (Cons kv t)
  obtain k v where kv: "kv = (k, v)" by fastforce
  show ?case
  proof (cases "in_array_part cvt n k")
    case True
    with Cons kv show ?thesis by (simp add: hash_entries_def)
  next
    case False
    let ?k = "enc_u30 (lookup_index smap im k)" and ?v = "enc_u30 (lookup_index smap im v)"
    have he: "hash_entries cvt n (kv # t) = (k, v) # hash_entries cvt n t"
      using False kv by (simp add: hash_entries_def)
    obtain d1 where d1: "ffi_stream_add_u30 al d (lookup_index smap im k) = Some d1" "appended d ?k d1"
      using add_u30_sink [OF room Cons.prems(1), of "lookup_index smap im k"] Cons.prems(2) he by auto
    have g1: "growable d1" using d1(2) Cons.prems(1) by (rule appended_growable)
    have r1: "ba_offset d1 + (length ?v + length (concat (map (\<lambda>(k, v). enc_u30 (lookup_index smap im k) @ enc_u30 (lookup_index smap im v))
       (hash_entries cvt n t)))) \<le> 2 ^ 62"
      using Cons.prems(2) he by (intro appended_room [OF d1(2)]) simp
    obtain d2 where d2: "ffi_stream_add_u30 al d1 (lookup_index smap im v) = Some d2" "appended d1 ?v d2"
      using add_u30_sink [OF room g1, of "lookup_index smap im v"] r1 by auto
    from Cons.IH [OF appended_growable [OF d2(2) g1] appended_room [OF d2(2) r1]]
    obtain d' where d': "encode_hash al cvt smap im n t d2 = Some d'"
        "appended d2 (concat (map (\<lambda>(k, v). enc_u30 (lookup_index smap im k) @ enc_u30 (lookup_index smap im v))
           (hash_entries cvt n t))) d'"
      by blast
    show ?thesis
      using appended_trans [OF appended_trans [OF d1(2) d2(2)] d'(2)] False kv d1(1) d2(1) d'(1) he by simp
  qed
qed

lemma encode_table_ok:
  assumes room: "roomy al" and body: "growable body"
    and size: "ba_offset body + length (enc_string (table_bytes cvt (lookup_index smap im) t)) \<le> 2 ^ 62"
  shows "\<exists>b. encode_table al ba0 cvt smap im t body = Some b
     \<and> appended body (enc_string (table_bytes cvt (lookup_index smap im) t)) b"
proof -
  let ?ix = "lookup_index smap im" and ?d0 = "snd (bytearray_alloc al ba0 0)"
  let ?n = "length (array_values t 0)"
  let ?A = "concat (map (\<lambda>v. enc_u30 (?ix v)) (array_values t 0))"
  let ?H = "concat (map (\<lambda>(k, v). enc_u30 (?ix k) @ enc_u30 (?ix v)) (hash_entries cvt ?n t))"
  let ?C = "enc_u30 (word_of_nat ?n)"
  have tb: "table_bytes cvt ?ix t = ?C @ ?A @ ?H" by (simp add: table_bytes_def Let_def)
  then have sz: "ba_offset body + (length (enc_u30 (word_of_nat (length (?C @ ?A @ ?H)))) + (length ?C + (length ?A + length ?H))) \<le> 2 ^ 62"
    using size by (simp add: enc_string_def)
  note d0 = alloc_empty [OF room, of ba0 0]
  obtain d1 where d1: "encode_array al smap im t ?d0 0 = Some (d1, ?n)" "appended ?d0 ?A d1"
    using encode_array_ok [OF room d0(1), of smap im t 0] d0(4) sz by auto
  have "ba_offset d1 + length ?H \<le> 2 ^ 62" using d0(4) sz by (intro appended_room [OF d1(2)]) simp
  then obtain d where d: "encode_hash al cvt smap im ?n t d1 = Some d" "appended d1 ?H d"
    using encode_hash_ok [OF room appended_growable [OF d1(2) d0(1)]] by blast
  have dw: "ba_wf d" "\<not> ba_reading d" "written d = ?A @ ?H"
    using appended_from_empty [OF appended_trans [OF d1(2) d(2)] d0(2,3)] by auto
  obtain d2 where d2: "ffi_stream_add_u30 al ?d0 (word_of_nat ?n) = Some d2" "appended ?d0 ?C d2"
    using add_u30_sink [OF room d0(1), of "word_of_nat ?n"] d0(4) sz by auto
  have d2w: "ba_wf d2" "\<not> ba_reading d2" "written d2 = ?C"
    using appended_from_empty [OF d2(2) d0(2,3)] by auto
  define L :: u32 where "L = word_of_nat (length (?A @ ?H) + length ?C)"
  have L: "word_of_nat (length (?C @ ?A @ ?H)) = L" by (simp add: L_def ac_simps)
  note sz = sz [unfolded L]
  obtain b1 where b1: "ffi_stream_add_u30 al body L = Some b1" "appended body (enc_u30 L) b1"
    using add_u30_sink [OF room body, of L] sz by auto
  have g1: "growable b1" using b1(2) body by (rule appended_growable)
  have r1: "ba_offset b1 + (length ?C + (length ?A + length ?H)) \<le> 2 ^ 62"
    using sz by (intro appended_room [OF b1(2)]) simp
  obtain b2 where b2: "ffi_stream_add_bytes al b1 ?C = Some b2" "appended b1 ?C b2"
    using add_bytes_sink [OF room g1, of ?C] r1 by auto
  have "ba_offset b2 + length (?A @ ?H) \<le> 2 ^ 62" using appended_room [OF b2(2) r1] by simp
  then obtain b where b: "ffi_stream_add_bytes al b2 (?A @ ?H) = Some b" "appended b2 (?A @ ?H) b"
    using add_bytes_sink [OF room appended_growable [OF b2(2) g1]] by blast
  have "appended body (enc_string (table_bytes cvt ?ix t)) b"
    using appended_trans [OF appended_trans [OF b1(2) b2(2)] b(2)]
    unfolding tb enc_string_def L by simp
  moreover have "word_of_nat (ba_total (snd (bytearray_read_ready d)) + ba_total (snd (bytearray_read_ready d2))) = L"
    using content_ready(2) [OF dw(1,2)] content_ready(2) [OF d2w(1,2)] dw(3) d2w(3) by (simp only: L_def)
  ultimately show ?thesis
    using content_ready(1) [OF dw(1,2)] content_ready(1) [OF d2w(1,2)] dw(3) d2w(3)
      d1(1) d(1) d2(1) b1(1) b2(1) b(1)
    by (simp add: encode_table_def Let_def del: of_nat_add)
qed

lemma encode_tables_ok:
  assumes room: "roomy al"
  shows "growable body \<Longrightarrow>
     ba_offset body + length (concat (map (\<lambda>a. enc_string (table_bytes cvt (lookup_index smap im) (tab h a))) as)) \<le> 2 ^ 62 \<Longrightarrow>
     \<exists>b. encode_tables al ba0 cvt smap im h as body = Some b
       \<and> appended body (concat (map (\<lambda>a. enc_string (table_bytes cvt (lookup_index smap im) (tab h a))) as)) b"
proof (induction as arbitrary: body)
  case Nil
  then show ?case by (simp add: appended_refl growable_def)
next
  case (Cons a as)
  let ?e = "\<lambda>a. enc_string (table_bytes cvt (lookup_index smap im) (tab h a))"
  obtain b1 where b1: "encode_table al ba0 cvt smap im (tab h a) body = Some b1" "appended body (?e a) b1"
    using encode_table_ok [OF room Cons.prems(1), of cvt smap im "tab h a"] Cons.prems(2) by auto
  have "ba_offset b1 + length (concat (map ?e as)) \<le> 2 ^ 62"
    using Cons.prems(2) by (intro appended_room [OF b1(2)]) simp
  from Cons.IH [OF appended_growable [OF b1(2) Cons.prems(1)] this] b1 show ?case
    by (auto dest: appended_trans)
qed

lemma index_tables_assign: "index_tables i as im = assign im i (map LTable as)"
  by (induction as arbitrary: i im) (simp_all add: key_of_def)

lemma assign_append:
  "assign im i (xs @ ys) = assign (assign im i xs) (i + word_of_nat (length xs)) ys"
  by (induction xs arbitrary: i im) (simp_all add: ac_simps)

lemma emit_tables_ok:
  assumes room: "roomy al" and body: "growable (es_body st)"
    and im: "im = assign (es_map st) (es_index st) (map LTable (ctx_tables ctx))"
    and size: "ba_offset (es_body st) + length (table_section cvt (lookup_index smap im) h ctx) \<le> 2 ^ 62"
  shows "\<exists>b. emit_tables al ba0 cvt smap h ctx st =
       Some (st\<lparr>es_flag := es_flag st OR (if ctx_tables ctx = [] then 0 else HAS_TABLE_MASK),
                es_body := b, es_map := im\<rparr>)
     \<and> appended (es_body st) (table_section cvt (lookup_index smap im) h ctx) b"
proof (cases "ctx_tables ctx = []")
  case True
  with body im show ?thesis
    by (intro exI [of _ "es_body st"])
      (simp add: emit_tables_def table_section_def appended_refl growable_def)
next
  case False
  let ?e = "\<lambda>a. enc_string (table_bytes cvt (lookup_index smap im) (tab h a))"
  let ?n = "word_of_nat (length (ctx_tables ctx)) :: u32"
  have ts: "table_section cvt (lookup_index smap im) h ctx = enc_u30 ?n @ concat (map ?e (ctx_tables ctx))"
    using False by (simp add: table_section_def)
  obtain b1 where b1: "ffi_stream_add_u30 al (es_body st) ?n = Some b1" "appended (es_body st) (enc_u30 ?n) b1"
    using add_u30_sink [OF room body, of ?n] size ts by auto
  have "ba_offset b1 + length (concat (map ?e (ctx_tables ctx))) \<le> 2 ^ 62"
    using size ts by (intro appended_room [OF b1(2)]) simp
  from encode_tables_ok [OF room appended_growable [OF b1(2) body] this]
  obtain b where b: "encode_tables al ba0 cvt smap im h (ctx_tables ctx) b1 = Some b"
      "appended b1 (concat (map ?e (ctx_tables ctx))) b"
    by blast
  with b1 False im ts show ?thesis
    using appended_trans [OF b1(2) b(2)] by (auto simp: emit_tables_def index_tables_assign)
qed

lemma first_byte_set:
  assumes "ba_wf b" and "\<not> ba_reading b" and "written b = 0 # bs"
  shows "Option.bind (store_at (ba_buffer (snd (bytearray_read_ready b))) 0 [f])
     (\<lambda>m. load_at (Some m) 0 (ba_total (snd (bytearray_read_ready b)))) = Some (f # bs)"
proof -
  from assms(1) obtain m where m: "ba_buffer b = Some m" "length m = ba_buflen b"
      "ba_offset b \<le> ba_total b" "ba_total b \<le> ba_buflen b"
    by (rule ba_wfE)
  then have w: "take (ba_offset b) m = 0 # bs" using assms(3) by (simp add: written_def)
  then obtain k where k: "ba_offset b = Suc k" by (cases "ba_offset b") auto
  moreover obtain x m' where "m = x # m'" using w by (cases m) auto
  ultimately show ?thesis
    using m w assms(2) by (simp add: bytearray_read_ready_def store_at_def load_at_def)
qed

lemma encode_ctx_ok:
  assumes room: "roomy al" and size: "length (body_bytes cvt symt h ctx) < 2 ^ 62"
  shows "encode_ctx al ba0 cvt symt h ctx = Some (flag_of ctx # body_bytes cvt symt h ctx)"
proof -
  let ?sm = "sym_map_of symt"
  let ?N = "section_bytes enc_d64 ?sm LNum (ctx_numbers ctx)"
  let ?U = "section_bytes (\<lambda>d. enc_u30 (u30_of d)) ?sm LNum (ctx_u30s ctx)"
  let ?S = "section_bytes enc_string ?sm LStr (ctx_strings ctx)"
  let ?T = "table_section cvt (lookup_index ?sm (index_map symt ctx)) h ctx"
  have sz: "1 + (length ?N + (length ?U + (length ?S + length ?T))) \<le> 2 ^ 62"
    using size by (simp add: body_bytes_def)
  note d0 = alloc_empty [OF room, of ba0 64]
  obtain b0 where b0: "bytearray_write8 al (snd (bytearray_alloc al ba0 64)) 0 = Some (True, b0)"
      "appended (snd (bytearray_alloc al ba0 64)) [0] b0"
    using write8_roomy [OF room d0(1), of 0] d0(4) by auto
  have g0: "growable b0" using b0(2) d0(1) by (rule appended_growable)
  have r0: "ba_offset b0 + (length ?N + (length ?U + (length ?S + length ?T))) \<le> 2 ^ 62"
    using sz d0(4) by (intro appended_room [OF b0(2)]) simp
  define st0 where "st0 = \<lparr>es_flag = 0, es_body = b0, es_index = sym_index_of symt, es_map = bool_map\<rparr>"
  obtain b1 where b1: "emit_numbers al ba0 ?sm ctx st0 = Some \<lparr>es_flag = 0 OR (if ctx_numbers ctx = [] then 0 else HAS_NUMBER_MASK),
      es_body = b1, es_index = sym_index_of symt + word_of_nat (length (fresh ?sm LNum (ctx_numbers ctx))),
      es_map = assign bool_map (sym_index_of symt) (map LNum (fresh ?sm LNum (ctx_numbers ctx)))\<rparr>" (is "_ = Some ?st1")
      "appended b0 ?N b1"
    using d64_sink.emit_section_enc [OF room, of st0 ?sm LNum "ctx_numbers ctx" ba0 HAS_NUMBER_MASK] r0 g0
    by (auto simp: emit_numbers_def st0_def)
  have g1: "growable b1" using b1(2) g0 by (rule appended_growable)
  note r1 = appended_room [OF b1(2) r0]
  obtain b2 where b2: "emit_u30s al ba0 ?sm ctx ?st1 = Some \<lparr>es_flag = es_flag ?st1 OR (if ctx_u30s ctx = [] then 0 else HAS_U30_MASK),
      es_body = b2, es_index = es_index ?st1 + word_of_nat (length (fresh ?sm LNum (ctx_u30s ctx))),
      es_map = assign (es_map ?st1) (es_index ?st1) (map LNum (fresh ?sm LNum (ctx_u30s ctx)))\<rparr>" (is "_ = Some ?st2")
      "appended b1 ?U b2"
    using u30_item_sink.emit_section_enc [OF room, of ?st1 ?sm LNum "ctx_u30s ctx" ba0 HAS_U30_MASK] r1 g1
    by (auto simp: emit_u30s_def)
  have g2: "growable b2" using b2(2) g1 by (rule appended_growable)
  note r2 = appended_room [OF b2(2) r1]
  obtain b3 where b3: "emit_strings al ba0 ?sm ctx ?st2 = Some \<lparr>es_flag = es_flag ?st2 OR (if ctx_strings ctx = [] then 0 else HAS_STRING_MASK),
      es_body = b3, es_index = es_index ?st2 + word_of_nat (length (fresh ?sm LStr (ctx_strings ctx))),
      es_map = assign (es_map ?st2) (es_index ?st2) (map LStr (fresh ?sm LStr (ctx_strings ctx)))\<rparr>" (is "_ = Some ?st3")
      "appended b2 ?S b3"
    using string_sink.emit_section_enc [OF room, of ?st2 ?sm LStr "ctx_strings ctx" ba0 HAS_STRING_MASK] r2 g2
    by (auto simp: emit_strings_def)
  have g3: "growable b3" using b3(2) g2 by (rule appended_growable)
  note r3 = appended_room [OF b3(2) r2]
  have im: "index_map symt ctx = assign (es_map ?st3) (es_index ?st3) (map LTable (ctx_tables ctx))"
    by (simp add: index_map_def slots_def assign_append ac_simps)
  obtain b4 where b4: "emit_tables al ba0 cvt ?sm h ctx ?st3 =
       Some (?st3\<lparr>es_flag := es_flag ?st3 OR (if ctx_tables ctx = [] then 0 else HAS_TABLE_MASK),
                es_body := b4, es_map := index_map symt ctx\<rparr>)" "appended b3 ?T b4"
    using emit_tables_ok [OF room _ im, of cvt ?sm h ba0] r3 g3 by auto
  have w: "ba_wf b4" "\<not> ba_reading b4" "written b4 = 0 # body_bytes cvt symt h ctx"
    using appended_from_empty [OF appended_trans [OF appended_trans [OF appended_trans
          [OF appended_trans [OF b0(2) b1(2)] b2(2)] b3(2)] b4(2)] d0(2,3)]
    by (auto simp: body_bytes_def)
  show ?thesis
    using b0(1) b1(1) b2(1) b3(1) b4(1) first_byte_set [OF w]
    by (simp add: encode_ctx_def Let_def flag_of_def or.assoc flip: st0_def bool_map_def)
qed

section \<open>Reading the sections back\<close>

definition input_at :: "BYTEARRAY \<Rightarrow> bytes \<Rightarrow> bool" where
  "input_at ba bs \<longleftrightarrow> ba_wf ba \<and> ba_reading ba \<and> unread ba = bs"

primrec dassign :: "(u32 \<rightharpoonup> lval) \<Rightarrow> u32 \<Rightarrow> lval list \<Rightarrow> u32 \<rightharpoonup> lval" where
  "dassign m i [] = m"
| "dassign m i (v # vs) = dassign (m(i + 1 \<mapsto> v)) (i + 1) vs"

lemma wrap_input:
  assumes "length buf < 2 ^ 32"
  shows "input_at (snd (bytearray_wrap_buffer ba0 buf (word_of_nat (length buf)))) buf"
proof -
  have "unat (word_of_nat (length buf) :: u32) = length buf" using assms by (simp add: unat_of_nat)
  with assms show ?thesis
    by (simp add: input_at_def bytearray_wrap_buffer_def ba_wf_def unread_def)
qed

locale item_reader = byte_source get dec + element_codec enc dec valid
  for get :: "BYTEARRAY \<Rightarrow> ('a option \<times> BYTEARRAY) option"
    and dec :: "bytes \<Rightarrow> ('a \<times> bytes) option"
    and enc :: "'a \<Rightarrow> bytes"
    and valid :: "'a \<Rightarrow> bool"
begin

lemma get_item:
  assumes "input_at ba (enc x @ rest)" and "valid x"
  shows "\<exists>ba'. get ba = Some (Some x, ba') \<and> input_at ba' rest"
  using get_dec [of ba] assms moved_wf moved_reading
  by (auto simp: input_at_def source_result_def dec_enc)

lemma get_or_fail_item:
  assumes "input_at ba (enc x @ rest)" and "valid x"
  shows "\<exists>ba'. get_or_fail get msg ba = Some (Inr (x, ba')) \<and> input_at ba' rest"
  using get_item [OF assms] by (auto simp: get_or_fail_def)

lemma decode_items_enc:
  "input_at (ds_input ds) (concat (map enc xs) @ rest) \<Longrightarrow> list_all valid xs \<Longrightarrow>
     \<exists>inp. decode_items get mk fail (length xs) ds =
         Some (Inr (ds\<lparr>ds_input := inp, ds_map := dassign (ds_map ds) (ds_index ds) (map mk xs),
                       ds_index := ds_index ds + word_of_nat (length xs)\<rparr>))
       \<and> input_at inp rest"
proof (induction xs arbitrary: ds)
  case Nil
  then show ?case by (intro exI [of _ "ds_input ds"]) simp
next
  case (Cons x xs)
  then obtain inp where g: "get (ds_input ds) = Some (Some x, inp)"
      "input_at inp (concat (map enc xs) @ rest)"
    using get_item [of "ds_input ds" x "concat (map enc xs) @ rest"] by auto
  let ?ds = "ds\<lparr>ds_input := inp, ds_index := ds_index ds + 1,
      ds_map := (ds_map ds)(ds_index ds + 1 \<mapsto> mk x)\<rparr>"
  have "input_at (ds_input ?ds) (concat (map enc xs) @ rest)" "list_all valid xs"
    using g(2) Cons.prems(2) by simp_all
  from Cons.IH [OF this] obtain inp' where i: "decode_items get mk fail (length xs) ?ds =
         Some (Inr (?ds\<lparr>ds_input := inp', ds_map := dassign (ds_map ?ds) (ds_index ?ds) (map mk xs),
                       ds_index := ds_index ?ds + word_of_nat (length xs)\<rparr>))" "input_at inp' rest"
    by blast
  have "ds_index ?ds + word_of_nat (length xs) = ds_index ds + word_of_nat (length (x # xs))"
    by simp
  with g(1) i show ?case by (intro exI [of _ inp']) simp
qed

end

interpretation d64_reader: item_reader ffi_stream_get_d64 dec_d64 enc_d64 "\<lambda>_. True"
  by unfold_locales
interpretation u30_reader: item_reader ffi_stream_get_u30 dec_u30 enc_u30 "\<lambda>_. True"
  by unfold_locales
interpretation string_reader: item_reader get_string_value dec_string enc_string "\<lambda>s. length s < 2 ^ 32"
  by unfold_locales

text \<open>The last section that is present determines the index of the result.\<close>

definition section_done ::
  "bool \<Rightarrow> lval list \<Rightarrow> BYTEARRAY \<Rightarrow> dec_state \<Rightarrow> dec_state" where
  "section_done present vs inp ds =
     ds\<lparr>ds_input := inp, ds_map := dassign (ds_map ds) (ds_index ds) vs,
        ds_index := ds_index ds + word_of_nat (length vs),
        ds_last_top := (if present then ds_index ds + 1 else ds_last_top ds)\<rparr>"

context item_reader
begin

lemma decode_section_enc:
  assumes inp: "input_at (ds_input ds)
        ((if present then enc_u30 (word_of_nat (length xs)) @ concat (map enc xs) else []) @ rest)"
    and flag: "flag AND msk \<noteq> 0 \<longleftrightarrow> present" and none: "\<not> present \<Longrightarrow> xs = []"
    and ok: "list_all valid xs" and len: "length xs < 2 ^ 32"
  shows "\<exists>inp. decode_section get mk msg fail msk flag ds =
       Some (Inr (section_done present (map mk xs) inp ds)) \<and> input_at inp rest"
proof (cases present)
  case False
  with inp flag none show ?thesis
    by (intro exI [of _ "ds_input ds"]) (simp add: decode_section_def section_done_def)
next
  case True
  let ?n = "word_of_nat (length xs) :: u32"
  have n: "unat ?n = length xs" using len by (simp add: unat_of_nat)
  from True inp have "input_at (ds_input ds) (enc_u30 ?n @ (concat (map enc xs) @ rest))" by simp
  then obtain i1 where i1: "get_or_fail ffi_stream_get_u30 msg (ds_input ds) = Some (Inr (?n, i1))"
      "input_at i1 (concat (map enc xs) @ rest)"
    using u30_reader.get_or_fail_item by blast
  let ?ds = "ds\<lparr>ds_last_top := ds_index ds + 1, ds_input := i1\<rparr>"
  from i1(2) have "input_at (ds_input ?ds) (concat (map enc xs) @ rest)" by simp
  from decode_items_enc [OF this ok] obtain i2 where i2: "decode_items get mk (fail ?n) (length xs) ?ds =
         Some (Inr (?ds\<lparr>ds_input := i2, ds_map := dassign (ds_map ?ds) (ds_index ?ds) (map mk xs),
                       ds_index := ds_index ?ds + word_of_nat (length xs)\<rparr>))" "input_at i2 rest"
    by blast
  with True flag i1(1) n show ?thesis
    by (intro exI [of _ i2]) (simp add: decode_section_def bind_res_def section_done_def)
qed

end

section \<open>Indices\<close>

lemma assign_other: "k \<notin> key_of ` set vs \<Longrightarrow> assign im i vs k = im k"
  by (induction vs arbitrary: im i) auto

lemma assign_nth:
  "distinct (map key_of vs) \<Longrightarrow> j < length vs \<Longrightarrow>
     assign im i vs (key_of (vs ! j)) = Some (i + 1 + word_of_nat j)"
proof (induction vs arbitrary: im i j)
  case (Cons v vs)
  show ?case
  proof (cases j)
    case 0
    with Cons.prems show ?thesis by (simp add: assign_other)
  next
    case (Suc k)
    with Cons show ?thesis by (simp add: ac_simps)
  qed
qed simp

lemma unat_u32_step: "unat (i :: u32) + n < 2 ^ 32 \<Longrightarrow> 0 < n \<Longrightarrow> unat (i + 1) = unat i + 1"
  using unat_add_lem [of i 1] by simp

lemma dassign_other:
  "unat i + length vs < 2 ^ 32 \<Longrightarrow> unat x \<le> unat i \<Longrightarrow> dassign m i vs x = m x"
proof (induction vs arbitrary: m i)
  case (Cons v vs)
  then have "unat (i + 1) = unat i + 1" using unat_u32_step [of i "Suc (length vs)"] by simp
  with Cons.IH [of "i + 1"] Cons.prems show ?case by (auto simp: word_unat_eq_iff)
qed simp

lemma dassign_nth:
  "unat i + length vs < 2 ^ 32 \<Longrightarrow> j < length vs \<Longrightarrow>
     dassign m i vs (i + 1 + word_of_nat j) = Some (vs ! j)"
proof (induction vs arbitrary: m i j)
  case (Cons v vs)
  then have i1: "unat (i + 1) = unat i + 1" using unat_u32_step [of i "Suc (length vs)"] by simp
  show ?case
  proof (cases j)
    case 0
    with Cons.prems i1 show ?thesis by (simp add: dassign_other)
  next
    case (Suc k)
    with Cons.IH [of "i + 1" k] Cons.prems i1 show ?thesis by (simp add: ac_simps)
  qed
qed simp

lemma dassign_append:
  "dassign m i (xs @ ys) = dassign (dassign m i xs) (i + word_of_nat (length xs)) ys"
  by (induction xs arbitrary: m i) (simp_all add: ac_simps)

lemma create_tables_dassign:
  "create_tables n i (h, m) = (h @ replicate n [], dassign m i (map LTable [length h..<length h + n]))"
proof (induction n arbitrary: h m i)
  case (Suc n)
  have "[length h..<length h + Suc n] = length h # [Suc (length h)..<Suc (length h) + n]"
    by (simp add: upt_conv_Cons del: upt_Suc)
  then show ?case
    using Suc [of "i + 1" "h @ [[]]" "m(i + 1 \<mapsto> LTable (length h))"] by (simp add: fun_upd_def del: upt_Suc)
qed simp

section \<open>Reading a table back\<close>

text \<open>The copy of a value: tables are renamed by \<open>f\<close>, the two zeros become one.\<close>

definition copy_of :: "(nat \<Rightarrow> nat) \<Rightarrow> lval \<Rightarrow> lval" where
  "copy_of f v = (case v of LNum d \<Rightarrow> LNum (dbl_canon d) | LTable a \<Rightarrow> LTable (f a) | _ \<Rightarrow> v)"

definition copy_entry :: "(nat \<Rightarrow> nat) \<Rightarrow> lval \<times> lval \<Rightarrow> lval \<times> lval" where
  "copy_entry f e = (copy_of f (fst e), copy_of f (snd e))"

definition rawsets :: "ltable \<Rightarrow> (lval \<times> lval) list \<Rightarrow> ltable" where
  "rawsets t kvs = fold (\<lambda>(k, v) t. rawset t k v) kvs t"

lemma rawsets_fresh:
  "distinct (map fst t @ map (key_of \<circ> fst) kvs) \<Longrightarrow>
     rawsets t kvs = t @ map (\<lambda>(k, v). (key_of k, v)) kvs"
proof (induction kvs arbitrary: t)
  case (Cons kv kvs)
  obtain k v where kv: "kv = (k, v)" by fastforce
  with Cons.prems have "key_of k \<notin> fst ` set t" by auto
  then have "rawset t k v = t @ [(key_of k, v)]" by (simp add: rawset_def table_set_new)
  moreover have "rawsets (t @ [(key_of k, v)]) kvs = (t @ [(key_of k, v)]) @ map (\<lambda>(k, v). (key_of k, v)) kvs"
    using Cons.prems kv by (intro Cons.IH) auto
  ultimately show ?case using kv by (simp add: rawsets_def)
qed (simp add: rawsets_def)

text \<open>The decoder resolves the index of each value to the copy of the value.\<close>

definition resolves :: "(u32 \<rightharpoonup> lval) \<Rightarrow> (u32 \<rightharpoonup> lval) \<Rightarrow> (lval \<Rightarrow> u32) \<Rightarrow> (nat \<Rightarrow> nat) \<Rightarrow> lval \<Rightarrow> bool" where
  "resolves vk m ix f v \<longleftrightarrow> (\<forall>what. decode_lookup vk m what (ix v) = Some (Inr (copy_of f v)))"

lemma decode_array_ok:
  "input_at d (concat (map (\<lambda>v. enc_u30 (ix v)) vs) @ rest) \<Longrightarrow> list_all (resolves vk m ix f) vs \<Longrightarrow>
     \<exists>d'. decode_array vk m (length vs) j d t =
         Some (Inr (d', rawsets t (array_pairs j (map (copy_of f) vs)))) \<and> input_at d' rest"
proof (induction vs arbitrary: j d t)
  case Nil
  then show ?case by (simp add: rawsets_def)
next
  case (Cons v vs)
  then have "input_at d (enc_u30 (ix v) @ (concat (map (\<lambda>v. enc_u30 (ix v)) vs) @ rest))" by simp
  then obtain d1 where d1: "\<And>msg. get_or_fail ffi_stream_get_u30 msg d = Some (Inr (ix v, d1))"
      "input_at d1 (concat (map (\<lambda>v. enc_u30 (ix v)) vs) @ rest)"
    using u30_reader.get_item by (fastforce simp: get_or_fail_def)
  moreover have "resolves vk m ix f v" and "list_all (resolves vk m ix f) vs"
    using Cons.prems(2) by simp_all
  moreover from this have "decode_lookup vk m ''vi'' (ix v) = Some (Inr (copy_of f v))"
    by (simp add: resolves_def)
  ultimately show ?case
    using Cons.IH [of d1 "j + 1" "rawset t (LNum (dbl_of_nat j)) (copy_of f v)"]
    by (auto simp: bind_res_def rawsets_def)
qed

lemma input_at_available: "input_at d bs \<Longrightarrow> bytearray_read_available d = length bs"
  using read_available_unread [of d] by (simp add: input_at_def)

lemma decode_pair_ok:
  assumes "input_at d (enc_u30 (ix k) @ enc_u30 (ix v) @ rest)"
    and "resolves vk m ix f k" and "resolves vk m ix f v" and "\<not> is_nan_val (copy_of f k)"
  shows "\<exists>d'. decode_pair vk m d t = Some (Inr (d', rawset t (copy_of f k) (copy_of f v))) \<and> input_at d' rest"
proof -
  obtain d1 where d1: "\<And>msg. get_or_fail ffi_stream_get_u30 msg d = Some (Inr (ix k, d1))"
      "input_at d1 (enc_u30 (ix v) @ rest)"
    using u30_reader.get_item [OF assms(1)] by (fastforce simp: get_or_fail_def)
  obtain d2 where d2: "\<And>msg. get_or_fail ffi_stream_get_u30 msg d1 = Some (Inr (ix v, d2))" "input_at d2 rest"
    using u30_reader.get_item [OF d1(2)] by (fastforce simp: get_or_fail_def)
  have "rawset_checked t (copy_of f k) (copy_of f v) = Some (Inr (rawset t (copy_of f k) (copy_of f v)))"
    using assms(4) by (simp add: rawset_checked_def is_nan_val_def)
  with d1 d2 assms(2,3) show ?thesis by (simp add: decode_pair_def bind_res_def resolves_def)
qed

lemma decode_hash_ok:
  "input_at d (concat (map (\<lambda>(k, v). enc_u30 (ix k) @ enc_u30 (ix v)) es)) \<Longrightarrow>
   \<forall>(k, v)\<in>set es. resolves vk m ix f k \<and> resolves vk m ix f v \<and> \<not> is_nan_val (copy_of f k) \<Longrightarrow>
     decode_hash vk m d t = Some (Inr (rawsets t (map (copy_entry f) es)))"
proof (induction es arbitrary: d t)
  case Nil
  then show ?case using input_at_available [OF Nil(1)] by (simp add: decode_hash.simps [of _ _ d] rawsets_def)
next
  case (Cons e es)
  obtain k v where e: "e = (k, v)" by fastforce
  with Cons.prems have inp: "input_at d (enc_u30 (ix k) @ enc_u30 (ix v)
      @ concat (map (\<lambda>(k, v). enc_u30 (ix k) @ enc_u30 (ix v)) es))"
    by simp
  have "0 < bytearray_read_available d"
    using input_at_available [OF inp] enc_u30_length_ge [of "ix k"] by (cases "enc_u30 (ix k)") simp_all
  moreover obtain d' where d': "decode_pair vk m d t = Some (Inr (d', rawset t (copy_of f k) (copy_of f v)))"
      "input_at d' (concat (map (\<lambda>(k, v). enc_u30 (ix k) @ enc_u30 (ix v)) es))"
    using decode_pair_ok [OF inp, of vk m f t] Cons.prems(2) e by auto
  ultimately show ?case
    using Cons.IH [OF d'(2)] Cons.prems(2) e
    by (simp add: decode_hash.simps [of _ _ d] rawsets_def copy_entry_def)
qed

definition decoded_table :: "(bytes \<Rightarrow> u64 option) \<Rightarrow> (nat \<Rightarrow> nat) \<Rightarrow> ltable \<Rightarrow> ltable" where
  "decoded_table cvt f t =
     (let vs = array_values t 0
      in rawsets [] (array_pairs 1 (map (copy_of f) vs)
                     @ map (copy_entry f) (hash_entries cvt (length vs) t)))"

lemma decode_table_ok:
  assumes len: "length (table_bytes cvt ix t) < 2 ^ 32" and n: "length (array_values t 0) < 2 ^ 32"
    and vs: "list_all (resolves vk m ix f) (array_values t 0)"
    and es: "\<forall>(k, v)\<in>set (hash_entries cvt (length (array_values t 0)) t).
       resolves vk m ix f k \<and> resolves vk m ix f v \<and> \<not> is_nan_val (copy_of f k)"
  shows "decode_table vk m (table_bytes cvt ix t) [] = Some (Inr (decoded_table cvt f t))"
proof -
  let ?vs = "array_values t 0" and ?buf = "table_bytes cvt ix t"
  let ?E = "concat (map (\<lambda>(k, v). enc_u30 (ix k) @ enc_u30 (ix v)) (hash_entries cvt (length ?vs) t))"
  have "input_at (snd (bytearray_wrap_buffer zero_ba ?buf (word_of_nat (length ?buf)))) ?buf"
    using len by (rule wrap_input)
  moreover have "?buf = enc_u30 (word_of_nat (length ?vs)) @ (concat (map (\<lambda>v. enc_u30 (ix v)) ?vs) @ ?E)"
    by (simp add: table_bytes_def Let_def)
  ultimately obtain d1 where d1: "\<And>msg. get_or_fail ffi_stream_get_u30 msg
        (snd (bytearray_wrap_buffer zero_ba ?buf (word_of_nat (length ?buf)))) =
          Some (Inr (word_of_nat (length ?vs), d1))"
      "input_at d1 (concat (map (\<lambda>v. enc_u30 (ix v)) ?vs) @ ?E)"
    using u30_reader.get_item by (fastforce simp: get_or_fail_def)
  obtain d2 where d2: "decode_array vk m (length ?vs) 1 d1 [] =
        Some (Inr (d2, rawsets [] (array_pairs 1 (map (copy_of f) ?vs))))" "input_at d2 ?E"
    using decode_array_ok [OF d1(2) vs] by blast
  have "unat (word_of_nat (length ?vs) :: u32) = length ?vs" using n by (simp add: unat_of_nat)
  then show ?thesis
    using d1(1) d2(1) decode_hash_ok [OF d2(2) es]
    by (simp add: decode_table_def bind_res_def decoded_table_def Let_def rawsets_def)
qed

section \<open>A decoded table has the entries of the original\<close>

lemma array_values_le: "length (array_values t n) \<le> int_keys_above t (int n)"
proof (induction t n rule: array_values.induct)
  case (1 t n)
  show ?case
  proof (cases "rawgeti t (int n + 1)")
    case None
    then show ?thesis by (simp add: array_values.simps [of t n])
  next
    case (Some v)
    with 1 int_keys_above_less [OF Some] show ?thesis
      by (simp add: array_values.simps [of t n] add.commute [of 1])
  qed
qed

lemma array_values_length: "length (array_values t n) \<le> length t"
  using array_values_le [of t n] by (simp add: int_keys_above_def) (meson length_filter_le order_trans)

lemma array_values_nth:
  "i < length (array_values t n) \<Longrightarrow> rawgeti t (int (n + 1 + i)) = Some (array_values t n ! i)"
proof (induction t n arbitrary: i rule: array_values.induct)
  case (1 t n)
  show ?case
  proof (cases "rawgeti t (int n + 1)")
    case None
    with 1(2) show ?thesis by (simp add: array_values.simps [of t n])
  next
    case (Some v)
    note av = array_values.simps [of t n]
    show ?thesis
    proof (cases i)
      case 0
      with Some av show ?thesis by (simp add: add.commute)
    next
      case (Suc k)
      with 1(1) [OF Some, of k] 1(2) Some av show ?thesis by (simp add: ac_simps)
    qed
  qed
qed

text \<open>No string key is mistaken for an index of the array part.\<close>

definition no_numeric_strings :: "(bytes \<Rightarrow> u64 option) \<Rightarrow> ltable \<Rightarrow> bool" where
  "no_numeric_strings cvt t \<longleftrightarrow>
     list_all (\<lambda>(k, v). case k of
         LStr s \<Rightarrow> \<not> in_array_part cvt (length (array_values t 0)) k | _ \<Rightarrow> True) t"

lemma in_array_key:
  assumes "in_array_part cvt n k" and "\<And>s. k \<noteq> LStr s"
  obtains m where "is_int_key (int m) k" and "0 < m" and "m \<le> n"
proof -
  have "dbl_int 0 = Some 0" using dbl_int_of_nat [of 0] by (simp add: dbl_of_nat_def)
  with assms obtain d z where "k = LNum d" "dbl_int d = Some z" "z \<le> int n" "0 < z"
    by (auto simp: in_array_part_def lua_tonumber_def split: lval.splits option.splits)
  then have "is_int_key (int (nat z)) k" "0 < nat z" "nat z \<le> n" by (auto simp: is_int_key_def)
  then show ?thesis by (rule that)
qed

lemma array_part_entries:
  assumes ok: "table_ok t" and small: "length t < 2 ^ 32" and ns: "no_numeric_strings cvt t"
  shows "set (filter (\<lambda>(k, v). in_array_part cvt (length (array_values t 0)) k) t) =
         set (array_pairs 1 (array_values t 0))"
proof -
  let ?vs = "array_values t 0" let ?n = "length (array_values t 0)"
  have n: "?n < 2 ^ 32" using array_values_length [of t 0] small by simp
  have dist: "distinct (map fst t)" using ok by (simp add: table_ok_def)
  have entry: "(LNum (dbl_of_nat (1 + i)), ?vs ! i) \<in> set t" if "i < ?n" for i
  proof -
    have "rawgeti t (int (1 + i)) = Some (?vs ! i)" using array_values_nth [OF that] by simp
    then obtain k where "(k, ?vs ! i) \<in> set t" "is_int_key (int (1 + i)) k" using rawgeti_entry by blast
    moreover have "k = LNum (dbl_of_nat (1 + i))"
      using calculation(2) that n by (intro int_key_unique) simp_all
    ultimately show ?thesis by simp
  qed
  have idx: "in_array_part cvt ?n (LNum (dbl_of_nat (1 + i)))" if "i < ?n" for i
    using that n dbl_int_of_nat [of "1 + i"] by (simp add: in_array_part_def lua_tonumber_def)
  have "(k, v) \<in> set (array_pairs 1 ?vs)" if kv: "(k, v) \<in> set t" "in_array_part cvt ?n k" for k v
  proof -
    have "k \<noteq> LStr s" for s using ns kv by (auto simp: no_numeric_strings_def list_all_iff)
    with kv(2) obtain m where m: "is_int_key (int m) k" "0 < m" "m \<le> ?n" by (rule in_array_key)
    have k: "k = LNum (dbl_of_nat m)" using m n by (intro int_key_unique) simp_all
    define i where "i = m - 1"
    have i: "m = 1 + i" "i < ?n" using m by (simp_all add: i_def)
    have "(k, ?vs ! i) \<in> set t" using entry [OF i(2)] k i(1) by simp
    then have "v = ?vs ! i" using dist kv(1) by (metis map_of_eq_Some_iff option.inject)
    with k i show ?thesis by (auto simp: set_array_pairs)
  qed
  then show ?thesis using entry idx by (auto simp: set_array_pairs)
qed

definition table_entries :: "(bytes \<Rightarrow> u64 option) \<Rightarrow> ltable \<Rightarrow> ltable" where
  "table_entries cvt t = array_pairs 1 (array_values t 0) @ hash_entries cvt (length (array_values t 0)) t"

lemma table_entries_mset:
  assumes "table_ok t" and "length t < 2 ^ 32" and "no_numeric_strings cvt t"
  shows "mset (table_entries cvt t) = mset t"
proof -
  let ?P = "\<lambda>(k, v :: lval). in_array_part cvt (length (array_values t 0)) k"
  have "1 + length (array_values t 0) \<le> 2 ^ 52" using array_values_length [of t 0] assms(2) by simp
  then have "distinct (array_pairs 1 (array_values t 0))"
    using array_pairs_distinct by (metis distinct_map)
  moreover have "distinct (filter ?P t)" using assms(1) by (simp add: table_ok_def distinct_map)
  ultimately have "mset (filter ?P t) = mset (array_pairs 1 (array_values t 0))"
    using array_part_entries [OF assms] by (blast dest: set_eq_iff_mset_eq_distinct [THEN iffD1])
  moreover have "hash_entries cvt (length (array_values t 0)) t = filter (\<lambda>e. \<not> ?P e) t"
    by (simp add: hash_entries_def case_prod_unfold)
  moreover have "mset t = filter_mset ?P (mset t) + filter_mset (\<lambda>e. \<not> ?P e) (mset t)"
    by (rule multiset_partition)
  ultimately show ?thesis by (simp add: table_entries_def)
qed

lemma copy_array_pairs:
  "j + length vs \<le> 2 ^ 52 \<Longrightarrow>
     array_pairs j (map (copy_of f) vs) = map (copy_entry f) (array_pairs j vs)"
  by (induction vs arbitrary: j) (simp_all add: copy_entry_def copy_of_def dbl_canon_of_nat)

lemma key_of_copy: "key_of k = k \<Longrightarrow> key_of (copy_of f k) = copy_of f k"
  by (auto simp: copy_of_def key_of_def split: lval.splits)

lemma copy_of_inj:
  assumes "inj_on f A" and "copy_of f k = copy_of f k'" and "key_of k = k" and "key_of k' = k'"
    and "\<And>a. k = LTable a \<or> k' = LTable a \<Longrightarrow> a \<in> A"
  shows "k = k'"
proof (cases k)
  case (LTable a)
  with assms(2) obtain b where "k' = LTable b" "f a = f b" by (cases k') (auto simp: copy_of_def)
  with assms(1,5) LTable show ?thesis by (auto dest: inj_onD)
next
  case (LNum d)
  with assms(2) obtain e where "k' = LNum e" by (cases k') (auto simp: copy_of_def)
  with assms(2-4) LNum show ?thesis by (simp add: copy_of_def key_of_def)
qed (use assms(2) in \<open>cases k'; simp add: copy_of_def\<close>)+

lemma decoded_table_copy:
  assumes ok: "table_ok t" and small: "length t < 2 ^ 32" and ns: "no_numeric_strings cvt t"
    and inj: "inj_on f A" and keys: "\<And>a v. (LTable a, v) \<in> set t \<Longrightarrow> a \<in> A"
  shows "mset (decoded_table cvt f t) = mset (map (copy_entry f) t)"
proof -
  let ?L = "table_entries cvt t"
  have L: "mset ?L = mset t" using ok small ns by (rule table_entries_mset)
  then have "mset (map fst ?L) = mset (map fst t)" by simp
  then have d: "distinct (map fst ?L)" using ok mset_eq_imp_distinct_iff by (fastforce simp: table_ok_def)
  have set: "set ?L = set t" using L by (rule mset_eq_setD)
  have key: "key_of k = k" if "(k, v) \<in> set ?L" for k v
    using that ok by (auto simp: set table_ok_def list_all_iff key_ok_def)
  have "array_pairs 1 (map (copy_of f) (array_values t 0)) = map (copy_entry f) (array_pairs 1 (array_values t 0))"
    using array_values_length [of t 0] small by (intro copy_array_pairs) simp
  then have dec: "decoded_table cvt f t = rawsets [] (map (copy_entry f) ?L)"
    by (simp add: decoded_table_def Let_def table_entries_def)
  have "inj_on (copy_of f) (fst ` set ?L)"
  proof (rule inj_onI)
    fix x y
    assume "x \<in> fst ` set ?L" "y \<in> fst ` set ?L" and eq: "copy_of f x = copy_of f y"
    then have "key_of x = x" "key_of y = y" "\<And>a. x = LTable a \<or> y = LTable a \<Longrightarrow> a \<in> A"
      using key keys by (auto simp: set)
    then show "x = y" by (rule copy_of_inj [OF inj eq])
  qed
  then have "distinct (map (copy_of f) (map fst ?L))"
    using d by (simp only: distinct_map) simp
  moreover have "map (key_of \<circ> fst) (map (copy_entry f) ?L) = map (copy_of f) (map fst ?L)"
    using key key_of_copy by (auto simp: copy_entry_def)
  moreover have "map (\<lambda>(k, v). (key_of k, v)) (map (copy_entry f) ?L) = map (copy_entry f) ?L"
    using key key_of_copy by (auto simp: copy_entry_def)
  ultimately have "decoded_table cvt f t = map (copy_entry f) ?L"
    using rawsets_fresh [of "[]" "map (copy_entry f) ?L"] unfolding dec by (simp only: list.map append_Nil simp_thms)
  with L show ?thesis by simp
qed

section \<open>Every index resolves\<close>

text \<open>The address of the copy of a table, when the copies are laid out from \<open>base\<close> on.\<close>

definition copy_addr :: "nat \<Rightarrow> nat list \<Rightarrow> nat \<Rightarrow> nat" where
  "copy_addr base as a = base + length (takeWhile (\<lambda>x. x \<noteq> a) as)"

lemma copy_addr_nth: "distinct as \<Longrightarrow> i < length as \<Longrightarrow> copy_addr base as (as ! i) = base + i"
proof (induction as arbitrary: i)
  case (Cons a as)
  then show ?case by (cases i) (auto simp: copy_addr_def)
qed simp

lemma copy_addr_bounds: "a \<in> set as \<Longrightarrow> base \<le> copy_addr base as a \<and> copy_addr base as a < base + length as"
  by (induction as) (auto simp: copy_addr_def)

lemma copy_addr_inj: "distinct as \<Longrightarrow> inj_on (copy_addr base as) (set as)"
  by (rule inj_onI) (metis add_left_cancel copy_addr_nth in_set_conv_nth)

lemma copy_addr_map: "distinct as \<Longrightarrow> map (copy_addr base as) as = [base..<base + length as]"
  by (rule nth_equalityI) (simp_all add: copy_addr_nth)

text \<open>
  A usable symbol table: the two directions agree, its entries lie between the indices of the
  booleans and the indices of the encoded values.
\<close>

definition sym_entry_ok :: "symtab \<Rightarrow> lval \<Rightarrow> u32 \<Rightarrow> bool" where
  "sym_entry_ok s k i =
     (case k of
        LBool b \<Rightarrow> i = (if b then TRUE_INDEX else FALSE_INDEX)
      | LNum d \<Rightarrow> SYM_MAP_VK s i = Some (LNum d)
      | LStr x \<Rightarrow> SYM_MAP_VK s i = Some (LStr x)
      | _ \<Rightarrow> False)"

definition sym_ok :: "symtab option \<Rightarrow> bool" where
  "sym_ok symt \<longleftrightarrow>
     (case symt of None \<Rightarrow> True
      | Some s \<Rightarrow>
          2 \<le> unat (SYM_INDEX s) \<and> unat (SYM_INDEX s) \<le> 2 ^ 31
          \<and> (\<forall>k i. SYM_MAP s k = Some i \<longrightarrow> sym_entry_ok s k i)
          \<and> (\<forall>i v. SYM_MAP_VK s i = Some v \<longrightarrow> 2 < unat i \<and> unat i \<le> unat (SYM_INDEX s)))"

lemma sym_index_bounds: "sym_ok symt \<Longrightarrow> 2 \<le> unat (sym_index_of symt) \<and> unat (sym_index_of symt) \<le> 2 ^ 31"
  by (auto simp: sym_ok_def sym_index_of_def split: option.splits)

lemma sym_vk_outside:
  "sym_ok symt \<Longrightarrow> unat i \<le> 2 \<or> unat (sym_index_of symt) < unat i \<Longrightarrow> sym_vk_of symt i = None"
  by (rule ccontr)
    (auto simp: sym_ok_def sym_vk_of_def sym_index_of_def split: option.splits)

lemma sym_map_entry:
  assumes "sym_ok symt" and "sym_map_of symt (key_of v) = Some i"
  shows "(\<exists>b. v = LBool b \<and> i = (if b then TRUE_INDEX else FALSE_INDEX))
     \<or> sym_vk_of symt i = Some (copy_of f v)"
proof -
  obtain s where "symt = Some s" "sym_entry_ok s (key_of v) i"
    using assms by (auto simp: sym_ok_def sym_map_of_def split: option.splits)
  then show ?thesis
    by (cases v) (simp_all add: sym_entry_ok_def sym_vk_of_def copy_of_def key_of_def)
qed

definition storable :: "lval \<Rightarrow> bool" where
  "storable v =
     (case v of
        LBool b \<Rightarrow> True
      | LNum d \<Rightarrow> \<not> dbl_is_nan d
      | LStr s \<Rightarrow> length s < 2 ^ 32
      | LTable a \<Rightarrow> True
      | _ \<Rightarrow> False)"

definition all_slots :: "symtab option \<Rightarrow> CTX \<Rightarrow> lval list" where
  "all_slots symt ctx = slots (sym_map_of symt) ctx @ map LTable (ctx_tables ctx)"

definition bool_vals :: "u32 \<rightharpoonup> lval" where
  "bool_vals = [FALSE_INDEX \<mapsto> LBool False, TRUE_INDEX \<mapsto> LBool True]"

definition value_map :: "symtab option \<Rightarrow> CTX \<Rightarrow> (nat \<Rightarrow> nat) \<Rightarrow> u32 \<rightharpoonup> lval" where
  "value_map symt ctx f = dassign bool_vals (sym_index_of symt) (map (copy_of f) (all_slots symt ctx))"

lemma key_of_simps [simp]:
  "key_of (LNum d) = LNum (dbl_canon d)" "key_of (LStr s) = LStr s" "key_of (LTable a) = LTable a"
  "key_of (LBool b) = LBool b"
  by (simp_all add: key_of_def)

lemma key_of_slots:
  "map key_of (all_slots symt ctx) =
     map LNum (map dbl_canon (fresh (sym_map_of symt) LNum (ctx_numbers ctx @ ctx_u30s ctx)))
     @ map LStr (fresh (sym_map_of symt) LStr (ctx_strings ctx)) @ map LTable (ctx_tables ctx)"
  by (simp add: all_slots_def slots_def fresh_def)

lemma distinct_slots:
  assumes "ctx_wf ctx"
  shows "distinct (map key_of (all_slots symt ctx))"
proof -
  have "distinct (map dbl_canon (ctx_numbers ctx @ ctx_u30s ctx))" and s: "distinct (ctx_strings ctx)"
    and t: "distinct (ctx_tables ctx)"
    using assms by (simp_all only: ctx_wf_def)
  then have "distinct (map dbl_canon (fresh (sym_map_of symt) LNum (ctx_numbers ctx @ ctx_u30s ctx)))"
    unfolding fresh_def by (intro distinct_map_filter)
  with s t show ?thesis
    unfolding key_of_slots by (auto simp: fresh_def distinct_map inj_on_def)
qed

lemma copy_of_key: "key_of v = key_of w \<Longrightarrow> copy_of f v = copy_of f w"
  by (cases v; cases w) (simp_all add: copy_of_def key_of_def)

lemma covered_slot:
  assumes "covers ctx v" and "storable v" and "sym_map_of symt (key_of v) = None" and "\<And>b. v \<noteq> LBool b"
  obtains j where "j < length (all_slots symt ctx)" and "key_of (all_slots symt ctx ! j) = key_of v"
proof -
  have "key_of v \<in> set (map key_of (all_slots symt ctx))"
    unfolding key_of_slots using assms
    by (cases v) (auto simp: covers_def storable_def fresh_def image_iff)
  then obtain w where "w \<in> set (all_slots symt ctx)" "key_of w = key_of v" by auto
  then show ?thesis using that by (metis in_set_conv_nth)
qed

lemma bool_not_slot: "LBool b \<notin> key_of ` set (all_slots symt ctx)"
proof -
  have "LBool b \<notin> set (map key_of (all_slots symt ctx))" unfolding key_of_slots by auto
  then show ?thesis by simp
qed

lemma unat_bool_index: "unat FALSE_INDEX = 1" "unat TRUE_INDEX = 2"
  by (simp_all add: FALSE_INDEX_def TRUE_INDEX_def)

lemma index_resolves:
  assumes sok: "sym_ok symt" and wf: "ctx_wf ctx" and cov: "covers ctx v" and st: "storable v"
    and room: "unat (sym_index_of symt) + length (all_slots symt ctx) < 2 ^ 32"
  shows "resolves (sym_vk_of symt) (value_map symt ctx f)
           (lookup_index (sym_map_of symt) (index_map symt ctx)) f v"
proof -
  let ?i0 = "sym_index_of symt" and ?vk = "sym_vk_of symt"
  let ?L = "all_slots symt ctx"
  note i0 = sym_index_bounds [OF sok]
  have im: "index_map symt ctx = assign bool_map ?i0 ?L" by (simp add: index_map_def all_slots_def)
  have bool: "decode_lookup ?vk (value_map symt ctx f) what (if b then TRUE_INDEX else FALSE_INDEX) = Some (Inr (LBool b))" for what b
  proof -
    let ?x = "if b then TRUE_INDEX else FALSE_INDEX"
    have x: "unat ?x \<le> 2" by (simp add: unat_bool_index)
    then have "value_map symt ctx f ?x = bool_vals ?x"
      unfolding value_map_def using i0 room by (intro dassign_other) simp_all
    moreover have "bool_vals ?x = Some (LBool b)"
      by (simp add: bool_vals_def FALSE_INDEX_def TRUE_INDEX_def)
    ultimately show ?thesis using sym_vk_outside [OF sok, of ?x] x by (simp add: decode_lookup_def)
  qed
  show ?thesis
  proof (cases "sym_map_of symt (key_of v)")
    case (Some i)
    with sym_map_entry [OF sok Some, of f] bool show ?thesis
      by (auto simp: resolves_def lookup_index_def decode_lookup_def copy_of_def)
  next
    case None
    show ?thesis
    proof (cases "\<exists>b. v = LBool b")
      case True
      then obtain b where b: "v = LBool b" by blast
      have "index_map symt ctx (LBool b) = bool_map (LBool b)"
        unfolding im by (rule assign_other) (rule bool_not_slot)
      then have "lookup_index (sym_map_of symt) (index_map symt ctx) v = (if b then TRUE_INDEX else FALSE_INDEX)"
        using None b by (simp add: lookup_index_def bool_map_def)
      with b bool [of _ b] show ?thesis by (simp add: resolves_def copy_of_def)
    next
      case False
      then obtain j where j: "j < length ?L" "key_of (?L ! j) = key_of v"
        using covered_slot [OF cov st None] by blast
      have "index_map symt ctx (key_of v) = Some (?i0 + 1 + word_of_nat j)"
        using assign_nth [OF distinct_slots [OF wf] j(1)] j(2) unfolding im by simp
      moreover have "value_map symt ctx f (?i0 + 1 + word_of_nat j) = Some (copy_of f v)"
        using dassign_nth [of ?i0 "map (copy_of f) ?L" j] room j copy_of_key [OF j(2), of f]
        by (simp add: value_map_def)
      moreover have "unat (?i0 + 1 + word_of_nat j) = unat ?i0 + 1 + j"
      proof -
        have "?i0 + 1 + word_of_nat j = word_of_nat (unat ?i0 + 1 + j)" by simp
        also have "unat \<dots> = unat ?i0 + 1 + j"
          using room j(1) by (simp only: unat_of_nat) (simp add: take_bit_eq_mod)
        finally show ?thesis .
      qed
      then have "?vk (?i0 + 1 + word_of_nat j) = None" using sym_vk_outside [OF sok] by simp
      ultimately show ?thesis
        using None by (simp add: resolves_def lookup_index_def decode_lookup_def)
    qed
  qed
qed

section \<open>Sizes\<close>

text \<open>All values that occur in a heap, and a bound on the number of bytes of an encoding.\<close>

definition all_vals :: "lheap \<Rightarrow> lval \<Rightarrow> lval list" where
  "all_vals h r = r # concat (map (\<lambda>(k, v). [k, v]) (concat h))"

definition val_size :: "lval \<Rightarrow> nat" where
  "val_size v = (case v of LStr s \<Rightarrow> length s + 5 | _ \<Rightarrow> 8)"

definition object_size :: "lheap \<Rightarrow> lval \<Rightarrow> nat" where
  "object_size h r =
     30 + sum_list (map val_size (all_vals h r)) + sum_list (map (\<lambda>t. 10 + 15 * length t) h)"

lemma reaches_all_vals: "reaches h r v \<Longrightarrow> v \<in> set (all_vals h r)"
proof (induction rule: reaches.induct)
  case (reaches_key a k v)
  then show ?case by (force simp: all_vals_def tab_def split: if_splits)
next
  case (reaches_val a k v)
  then show ?case by (force simp: all_vals_def tab_def split: if_splits)
qed (simp add: all_vals_def)

lemma sum_set_le: "distinct xs \<Longrightarrow> set xs \<subseteq> set ys \<Longrightarrow> sum_list (map w xs) \<le> (sum_list (map w ys) :: nat)"
proof -
  assume d: "distinct xs" and s: "set xs \<subseteq> set ys"
  have "sum_list (map w xs) = sum w (set xs)" using d by (simp add: sum_list_distinct_conv_sum_set)
  also have "\<dots> \<le> sum w (set (remdups ys))" using s by (intro sum_mono2) auto
  also have "\<dots> = sum_list (map w (remdups ys))" by (simp add: sum_list_distinct_conv_sum_set)
  also have "\<dots> \<le> sum_list (map w ys)"
    by (induction ys) (auto simp: member_le_sum_list)
  finally show ?thesis .
qed

lemma sum_filter_le: "sum_list (map w (filter P xs)) \<le> (sum_list (map w xs) :: nat)"
  by (induction xs) auto

lemma length_concat_map_le:
  "(\<And>x. x \<in> set xs \<Longrightarrow> length (e x) \<le> w x) \<Longrightarrow> length (concat (map e xs)) \<le> sum_list (map w xs)"
  by (induction xs) (auto simp: add_mono)

definition section_values :: "CTX \<Rightarrow> lval list" where
  "section_values ctx = map LNum (ctx_numbers ctx) @ map LNum (ctx_u30s ctx) @ map LStr (ctx_strings ctx)"

lemma distinct_section_values:
  assumes "ctx_wf ctx"
  shows "distinct (section_values ctx)"
proof -
  have "distinct (map dbl_canon (ctx_numbers ctx @ ctx_u30s ctx))" "distinct (ctx_strings ctx)"
    using assms by (simp_all only: ctx_wf_def)
  then have "distinct (ctx_numbers ctx @ ctx_u30s ctx)" "distinct (ctx_strings ctx)"
    by (metis distinct_map)+
  then show ?thesis by (auto simp: section_values_def distinct_map inj_on_def)
qed

lemma section_length:
  assumes "\<And>x. length (enc x) \<le> val_size (mk x)"
  shows "length (section_bytes enc smap mk xs) \<le> 5 + sum_list (map val_size (map mk xs))"
proof -
  have "length (concat (map enc (fresh smap mk xs))) \<le> sum_list (map (val_size \<circ> mk) (fresh smap mk xs))"
    using assms by (intro length_concat_map_le) simp
  also have "\<dots> \<le> sum_list (map (val_size \<circ> mk) xs)" unfolding fresh_def by (rule sum_filter_le)
  finally show ?thesis
    using enc_u30_length [of "word_of_nat (length (fresh smap mk xs))"] by (simp add: section_bytes_def)
qed

lemma table_bytes_length: "length (table_bytes cvt ix t) \<le> 5 + 15 * length t"
proof -
  let ?vs = "array_values t 0" and ?hs = "hash_entries cvt (length (array_values t 0)) t"
  let ?A = "concat (map (\<lambda>v. enc_u30 (ix v)) ?vs)"
  let ?H = "concat (map (\<lambda>(k, v). enc_u30 (ix k) @ enc_u30 (ix v)) ?hs)"
  have "length ?A \<le> sum_list (map (\<lambda>_. 5) ?vs)"
    by (rule length_concat_map_le) (rule enc_u30_length)
  moreover have "length ?H \<le> sum_list (map (\<lambda>_. 10) ?hs)"
  proof (rule length_concat_map_le)
    show "length ((\<lambda>(k, v). enc_u30 (ix k) @ enc_u30 (ix v)) e) \<le> 10" for e
      using enc_u30_length [of "ix (fst e)"] enc_u30_length [of "ix (snd e)"] by (cases e) simp
  qed
  moreover have "length (table_bytes cvt ix t) = length (enc_u30 (word_of_nat (length ?vs))) + length ?A + length ?H"
    by (simp add: table_bytes_def Let_def)
  moreover have "length ?vs \<le> length t" "length ?hs \<le> length t"
    by (simp_all add: array_values_length hash_entries_def)
  ultimately show ?thesis
    using enc_u30_length [of "word_of_nat (length ?vs)"] by (simp add: sum_list_triv)
qed

lemma tables_size:
  assumes "distinct as" and "set as \<subseteq> {..<length h}"
  shows "sum_list (map (\<lambda>a. 10 + 15 * length (tab h a)) as) \<le> sum_list (map (\<lambda>t. 10 + 15 * length t) h)"
proof -
  have "sum_list (map (\<lambda>a. 10 + 15 * length (tab h a)) as)
      \<le> sum_list (map (\<lambda>a. 10 + 15 * length (tab h a)) [0..<length h])"
    using assms by (intro sum_set_le) auto
  also have "map (\<lambda>a. 10 + 15 * length (tab h a)) [0..<length h] = map (\<lambda>t. 10 + 15 * length t) h"
    by (rule nth_equalityI) (simp_all add: tab_def)
  finally show ?thesis .
qed

lemma collected_sizes:
  assumes c: "collected h r ctx"
  shows "sum_list (map val_size (section_values ctx)) \<le> sum_list (map val_size (all_vals h r))"
    and "sum_list (map (\<lambda>a. 10 + 15 * length (tab h a)) (ctx_tables ctx))
           \<le> sum_list (map (\<lambda>t. 10 + 15 * length t) h)"
proof -
  have wf: "ctx_wf ctx" and rec: "recorded ctx \<subseteq> reachable h r" using c by (simp_all add: collected_def)
  have "set (section_values ctx) \<subseteq> set (all_vals h r)"
    using rec reaches_all_vals by (fastforce simp: section_values_def recorded_def reachable_def)
  with distinct_section_values [OF wf]
  show "sum_list (map val_size (section_values ctx)) \<le> sum_list (map val_size (all_vals h r))"
    by (rule sum_set_le)
  show "sum_list (map (\<lambda>a. 10 + 15 * length (tab h a)) (ctx_tables ctx))
           \<le> sum_list (map (\<lambda>t. 10 + 15 * length t) h)"
  proof (rule tables_size)
    show "distinct (ctx_tables ctx)" using wf by (simp add: ctx_wf_def)
    show "set (ctx_tables ctx) \<subseteq> {..<length h}"
      using rec packed.inside by (auto simp: recorded_def)
  qed
qed

lemma slots_le_values: "length (slots smap ctx) \<le> length (section_values ctx)"
  by (simp add: slots_def section_values_def fresh_def add_mono)

lemma all_slots_length:
  assumes c: "collected h r ctx" and size: "object_size h r < 2 ^ 32"
  shows "length (all_slots symt ctx) < 2 ^ 30"
proof -
  have "sum_list (map (\<lambda>_. 5) (section_values ctx)) \<le> sum_list (map val_size (section_values ctx))"
    by (rule sum_list_mono) (simp add: val_size_def split: lval.split)
  moreover have "sum_list (map (\<lambda>_. 5) (ctx_tables ctx))
      \<le> sum_list (map (\<lambda>a. 10 + 15 * length (tab h a)) (ctx_tables ctx))"
    by (rule sum_list_mono) simp
  ultimately have "5 * (length (section_values ctx) + length (ctx_tables ctx)) \<le> object_size h r"
    using collected_sizes [OF c] by (simp add: sum_list_triv object_size_def)
  with size slots_le_values [of "sym_map_of symt" ctx] show ?thesis by (simp add: all_slots_def)
qed

lemma body_bytes_length:
  assumes c: "collected h r ctx"
  shows "length (flag_of ctx # body_bytes cvt symt h ctx) \<le> object_size h r"
proof -
  let ?sm = "sym_map_of symt" and ?ix = "lookup_index (sym_map_of symt) (index_map symt ctx)"
  have N: "length (section_bytes enc_d64 ?sm LNum (ctx_numbers ctx))
      \<le> 5 + sum_list (map val_size (map LNum (ctx_numbers ctx)))"
    by (rule section_length) (simp add: enc_d64_def val_size_def)
  have U: "length (section_bytes (\<lambda>d. enc_u30 (u30_of d)) ?sm LNum (ctx_u30s ctx))
      \<le> 5 + sum_list (map val_size (map LNum (ctx_u30s ctx)))"
  proof (rule section_length)
    show "length (enc_u30 (u30_of x)) \<le> val_size (LNum x)" for x
      using enc_u30_length [of "u30_of x"] by (simp add: val_size_def)
  qed
  have S: "length (section_bytes enc_string ?sm LStr (ctx_strings ctx))
      \<le> 5 + sum_list (map val_size (map LStr (ctx_strings ctx)))"
    by (rule section_length) (simp add: enc_string_def val_size_def enc_u30_length)
  have "length (concat (map (\<lambda>a. enc_string (table_bytes cvt ?ix (tab h a))) (ctx_tables ctx)))
      \<le> sum_list (map (\<lambda>a. 10 + 15 * length (tab h a)) (ctx_tables ctx))"
  proof (rule length_concat_map_le)
    fix a
    show "length (enc_string (table_bytes cvt ?ix (tab h a))) \<le> 10 + 15 * length (tab h a)"
      using table_bytes_length [of cvt ?ix "tab h a"]
        enc_u30_length [of "word_of_nat (length (table_bytes cvt ?ix (tab h a)))"]
      by (simp add: enc_string_def)
  qed
  then have T: "length (table_section cvt ?ix h ctx) \<le> 5 + sum_list (map (\<lambda>a. 10 + 15 * length (tab h a)) (ctx_tables ctx))"
    using enc_u30_length [of "word_of_nat (length (ctx_tables ctx))"] by (simp add: table_section_def)
  have "sum_list (map val_size (section_values ctx)) = sum_list (map val_size (map LNum (ctx_numbers ctx)))
      + sum_list (map val_size (map LNum (ctx_u30s ctx))) + sum_list (map val_size (map LStr (ctx_strings ctx)))"
    by (simp add: section_values_def)
  with N U S T collected_sizes [OF c] show ?thesis
    by (simp add: body_bytes_def object_size_def)
qed

section \<open>Decoding an encoding\<close>

lemma flag_bits:
  "flag_of ctx AND HAS_NUMBER_MASK \<noteq> 0 \<longleftrightarrow> ctx_numbers ctx \<noteq> []"
  "flag_of ctx AND HAS_U30_MASK \<noteq> 0 \<longleftrightarrow> ctx_u30s ctx \<noteq> []"
  "flag_of ctx AND HAS_STRING_MASK \<noteq> 0 \<longleftrightarrow> ctx_strings ctx \<noteq> []"
  "flag_of ctx AND HAS_TABLE_MASK \<noteq> 0 \<longleftrightarrow> ctx_tables ctx \<noteq> []"
  by (simp_all add: flag_of_def HAS_NUMBER_MASK_def HAS_U30_MASK_def HAS_STRING_MASK_def
      HAS_TABLE_MASK_def)

lemma flag_not_bool:
  "ctx_numbers ctx \<noteq> [] \<or> ctx_u30s ctx \<noteq> [] \<or> ctx_strings ctx \<noteq> [] \<or> ctx_tables ctx \<noteq> [] \<Longrightarrow>
     flag_of ctx \<noteq> 0 \<and> flag_of ctx \<noteq> 1"
  by (auto simp: flag_of_def HAS_NUMBER_MASK_def HAS_U30_MASK_def HAS_STRING_MASK_def
      HAS_TABLE_MASK_def)

lemma number_copy: "\<not> is_u30 d \<Longrightarrow> LNum d = copy_of f (LNum d)"
  using dbl_canon_nonzero [of d] by (auto simp: is_u30_def MAX_U30_def copy_of_def split: option.splits)

lemma u30_copy:
  assumes "is_u30 d"
  shows "LNum (dbl_of_nat (unat (u30_of d))) = copy_of f (LNum d)"
proof -
  from assms obtain z where "dbl_int d = Some z" "0 \<le> z" "z < 2 ^ 32"
    by (auto simp: is_u30_def MAX_U30_def split: option.splits)
  moreover define n where "n = nat z"
  ultimately have n: "dbl_int d = Some (int n)" "n < 2 ^ 32" by simp_all
  then have "unat (u30_of d) = n" by (simp add: u30_of_def unat_of_nat)
  with dbl_of_nat_value [OF n(1)] n(2) show ?thesis by (simp add: copy_of_def)
qed

lemma fresh_none:
  "\<not> xs \<noteq> [] \<Longrightarrow> fresh smap mk xs = []" "\<not> xs \<noteq> [] \<Longrightarrow> map g (fresh smap mk xs) = []"
  by (simp_all add: fresh_def)

lemma list_all_True: "list_all (\<lambda>_. True) xs"
  by (simp add: list_all_iff)

lemma section_bytes_if:
  "section_bytes enc smap mk xs @ rest =
     (if xs \<noteq> [] then enc_u30 (word_of_nat (length (fresh smap mk xs))) @ concat (map enc (fresh smap mk xs))
      else []) @ rest"
  by (simp add: section_bytes_def)

lemma decode_values_ok:
  assumes wf: "ctx_wf ctx" and strs: "list_all (\<lambda>s. length s < 2 ^ 32) (ctx_strings ctx)"
    and len: "length (slots sm ctx) < 2 ^ 32"
    and inp: "input_at (ds_input ds) (section_bytes enc_d64 sm LNum (ctx_numbers ctx)
        @ section_bytes (\<lambda>d. enc_u30 (u30_of d)) sm LNum (ctx_u30s ctx)
        @ section_bytes enc_string sm LStr (ctx_strings ctx) @ rest)"
  obtains ds1 ds2 ds3 where "decode_numbers (flag_of ctx) ds = Some (Inr ds1)"
    and "decode_u30s (flag_of ctx) ds1 = Some (Inr ds2)"
    and "decode_strings (flag_of ctx) ds2 = Some (Inr ds3)" and "input_at (ds_input ds3) rest"
    and "ds_map ds3 = dassign (ds_map ds) (ds_index ds) (map (copy_of f) (slots sm ctx))"
    and "ds_index ds3 = ds_index ds + word_of_nat (length (slots sm ctx))"
    and "ds_last_top ds3 =
      (if ctx_strings ctx \<noteq> [] then ds_index ds + word_of_nat (length (fresh sm LNum (ctx_numbers ctx @ ctx_u30s ctx))) + 1
       else if ctx_u30s ctx \<noteq> [] then ds_index ds + word_of_nat (length (fresh sm LNum (ctx_numbers ctx))) + 1
       else if ctx_numbers ctx \<noteq> [] then ds_index ds + 1 else ds_last_top ds)"
proof -
  let ?n = "fresh sm LNum (ctx_numbers ctx)" and ?u = "fresh sm LNum (ctx_u30s ctx)"
    and ?s = "fresh sm LStr (ctx_strings ctx)"
  have l: "length ?n < 2 ^ 32" "length (map u30_of ?u) < 2 ^ 32" "length ?s < 2 ^ 32"
    using len by (simp_all add: slots_def)
  have n: "map LNum ?n = map (copy_of f) (map LNum ?n)"
    using wf number_copy by (auto simp: ctx_wf_def list_all_iff fresh_def)
  have u: "map (\<lambda>u. LNum (dbl_of_nat (unat u))) (map u30_of ?u) = map (copy_of f) (map LNum ?u)"
    using wf u30_copy by (auto simp: ctx_wf_def list_all_iff fresh_def)
  have s: "map LStr ?s = map (copy_of f) (map LStr ?s)" by (simp add: copy_of_def)
  have sv: "list_all (\<lambda>s. length s < 2 ^ 32) ?s" using strs by (simp add: fresh_def list_all_iff)
  obtain i1 where i1: "decode_numbers (flag_of ctx) ds =
        Some (Inr (section_done (ctx_numbers ctx \<noteq> []) (map LNum ?n) i1 ds))"
      "input_at i1 (section_bytes (\<lambda>d. enc_u30 (u30_of d)) sm LNum (ctx_u30s ctx)
        @ section_bytes enc_string sm LStr (ctx_strings ctx) @ rest)"
    using d64_reader.decode_section_enc [OF inp [unfolded section_bytes_if [of enc_d64]] flag_bits(1)
        fresh_none(1) list_all_True l(1)]
    unfolding decode_numbers_def by blast
  let ?ds1 = "section_done (ctx_numbers ctx \<noteq> []) (map LNum ?n) i1 ds"
  have "input_at (ds_input ?ds1) ((if ctx_u30s ctx \<noteq> [] then enc_u30 (word_of_nat (length (map u30_of ?u)))
      @ concat (map enc_u30 (map u30_of ?u)) else []) @ section_bytes enc_string sm LStr (ctx_strings ctx) @ rest)"
    using i1(2) unfolding section_bytes_if [of "\<lambda>d. enc_u30 (u30_of d)"] by (simp add: section_done_def comp_def split: if_splits)
  from u30_reader.decode_section_enc [OF this flag_bits(2) fresh_none(2) list_all_True l(2)] obtain i2 where
    i2: "decode_u30s (flag_of ctx) ?ds1 = Some (Inr (section_done (ctx_u30s ctx \<noteq> [])
          (map (\<lambda>u. LNum (dbl_of_nat (unat u))) (map u30_of ?u)) i2 ?ds1))"
      "input_at i2 (section_bytes enc_string sm LStr (ctx_strings ctx) @ rest)"
    unfolding decode_u30s_def by blast
  let ?ds2 = "section_done (ctx_u30s ctx \<noteq> [])
          (map (\<lambda>u. LNum (dbl_of_nat (unat u))) (map u30_of ?u)) i2 ?ds1"
  have "input_at (ds_input ?ds2) ((if ctx_strings ctx \<noteq> [] then enc_u30 (word_of_nat (length ?s))
      @ concat (map enc_string ?s) else []) @ rest)"
    using i2(2) unfolding section_bytes_if [of enc_string] by (simp add: section_done_def)
  from string_reader.decode_section_enc [OF this flag_bits(3) fresh_none(1) sv l(3)] obtain i3 where
    i3: "decode_strings (flag_of ctx) ?ds2 =
        Some (Inr (section_done (ctx_strings ctx \<noteq> []) (map LStr ?s) i3 ?ds2))" "input_at i3 rest"
    unfolding decode_strings_def by blast
  let ?ds3 = "section_done (ctx_strings ctx \<noteq> []) (map LStr ?s) i3 ?ds2"
  have m: "map (copy_of f) (slots sm ctx) = map LNum ?n @ map (\<lambda>u. LNum (dbl_of_nat (unat u))) (map u30_of ?u) @ map LStr ?s"
    unfolding slots_def map_append n [symmetric] u [symmetric] s [symmetric] ..
  show thesis
  proof (rule that [OF i1(1) i2(1) i3(1)])
    show "input_at (ds_input ?ds3) rest" using i3(2) by (simp add: section_done_def)
    show "ds_map ?ds3 = dassign (ds_map ds) (ds_index ds) (map (copy_of f) (slots sm ctx))"
      by (simp add: section_done_def m dassign_append)
  qed (simp_all add: section_done_def slots_def fresh_def ac_simps)
qed

lemma decode_tables_ok:
  assumes "\<And>a. a \<in> set as \<Longrightarrow> decode_table vk m (tb a) [] = Some (Inr (D a)) \<and> length (tb a) < 2 ^ 32"
    and "input_at input (concat (map (\<lambda>a. enc_string (tb a)) as) @ rest)"
    and "\<And>j. j < length as \<Longrightarrow> m (index + 1 + word_of_nat j) = Some (LTable (length h0 + j))"
  shows "\<exists>input'. decode_tables vk m (length as) index input (h0 @ replicate (length as) []) =
           Some (Inr (input', h0 @ map D as)) \<and> input_at input' rest"
  using assms
proof (induction as arbitrary: input index h0)
  case Nil
  then show ?case by simp
next
  case (Cons a as)
  have "input_at input (enc_string (tb a) @ (concat (map (\<lambda>a. enc_string (tb a)) as) @ rest))"
    using Cons.prems(2) by simp
  then obtain i1 where i1: "get_or_fail get_string_value ''decode failed.'' input = Some (Inr (tb a, i1))"
      "input_at i1 (concat (map (\<lambda>a. enc_string (tb a)) as) @ rest)"
    using string_reader.get_or_fail_item Cons.prems(1) by (metis list.set_intros(1))
  have m0: "m (index + 1) = Some (LTable (length h0))" using Cons.prems(3) [of 0] by simp
  have "m (index + 1 + 1 + word_of_nat j) = Some (LTable (length (h0 @ [D a]) + j))" if "j < length as" for j
    using Cons.prems(3) [of "Suc j"] that by (simp add: ac_simps)
  then obtain i2 where "decode_tables vk m (length as) (index + 1) i1 ((h0 @ [D a]) @ replicate (length as) []) =
           Some (Inr (i2, (h0 @ [D a]) @ map D as))" "input_at i2 rest"
    using Cons.IH [OF _ i1(2), of "index + 1" "h0 @ [D a]"] Cons.prems(1) by auto
  moreover have "tab (h0 @ replicate (length (a # as)) []) (length h0) = []" by (simp add: tab_def nth_append)
  moreover have "(h0 @ replicate (length (a # as)) [])[length h0 := D a] = (h0 @ [D a]) @ replicate (length as) []"
    by (simp add: list_update_append)
  ultimately show ?case
    using i1(1) m0 Cons.prems(1) [of a] by (simp add: bind_res_def)
qed

section \<open>The copy is an isomorphic graph\<close>

definition copy_heap :: "(bytes \<Rightarrow> u64 option) \<Rightarrow> lheap \<Rightarrow> CTX \<Rightarrow> (nat \<Rightarrow> nat) \<Rightarrow> lheap" where
  "copy_heap cvt h ctx f = map (\<lambda>a. decoded_table cvt f (tab h a)) (ctx_tables ctx)"

text \<open>
  What the round trip asks for: values of the kinds that can be written, no string key that Lua would
  convert to an index of the array part, and a total size that fits the 32-bit lengths.
\<close>

definition storable_graph :: "lheap \<Rightarrow> lval \<Rightarrow> bool" where
  "storable_graph h r \<longleftrightarrow>
     heap_ok h \<and> ref_ok h r \<and> (\<forall>v\<in>reachable h r. storable v) \<and> object_size h r < 2 ^ 32"

definition encodable :: "(bytes \<Rightarrow> u64 option) \<Rightarrow> lheap \<Rightarrow> lval \<Rightarrow> bool" where
  "encodable cvt h r \<longleftrightarrow>
     storable_graph h r \<and> (\<forall>a. LTable a \<in> reachable h r \<longrightarrow> no_numeric_strings cvt (tab h a))"

lemma reachable_table:
  assumes "storable_graph h r" and "LTable a \<in> reachable h r"
  shows "table_ok (tab h a)" and "5 + 15 * length (tab h a) < 2 ^ 32"
    and "\<forall>(k, v)\<in>set (tab h a). k \<in> reachable h r \<and> v \<in> reachable h r"
proof -
  have a: "a < length h" using assms(2) by (rule packed.inside)
  then have t: "tab h a \<in> set h" by (simp add: tab_def)
  then show "table_ok (tab h a)" using assms(1) by (simp add: storable_graph_def heap_ok_def list_all_iff)
  have "10 + 15 * length (tab h a) \<le> sum_list (map (\<lambda>t. 10 + 15 * length t) h)"
    using t by (intro member_le_sum_list) auto
  with assms(1) show "5 + 15 * length (tab h a) < 2 ^ 32" by (simp add: storable_graph_def object_size_def)
  show "\<forall>(k, v)\<in>set (tab h a). k \<in> reachable h r \<and> v \<in> reachable h r"
    using packed.closed [OF assms(2)] by blast
qed

lemma storable_not_nan: "storable v \<Longrightarrow> \<not> is_nan_val (copy_of f v)"
  by (auto simp: storable_def is_nan_val_def copy_of_def dbl_canon_def dbl_is_nan_def dbl_expo_def dbl_frac_def
      split: lval.splits)

lemma array_values_mem: "v \<in> set (array_values t 0) \<Longrightarrow> \<exists>k. (k, v) \<in> set t"
  using array_values_nth [of _ t 0] rawgeti_entry by (metis in_set_conv_nth)

lemma decode_reachable_table:
  assumes enc: "storable_graph h r" and c: "collected h r ctx" and sok: "sym_ok symt"
    and a: "a \<in> set (ctx_tables ctx)"
  shows "decode_table (sym_vk_of symt) (value_map symt ctx f)
       (table_bytes cvt (lookup_index (sym_map_of symt) (index_map symt ctx)) (tab h a)) [] =
     Some (Inr (decoded_table cvt f (tab h a)))"
proof -
  let ?t = "tab h a"
  have ra: "LTable a \<in> reachable h r" using c a by (auto simp: collected_def recorded_def)
  note t = reachable_table [OF enc ra]
  have small: "object_size h r < 2 ^ 32" using enc by (simp add: storable_graph_def)
  have room: "unat (sym_index_of symt) + length (all_slots symt ctx) < 2 ^ 32"
    using all_slots_length [OF c small, of symt] sym_index_bounds [OF sok] by simp
  have res: "resolves (sym_vk_of symt) (value_map symt ctx f)
       (lookup_index (sym_map_of symt) (index_map symt ctx)) f v \<and> \<not> is_nan_val (copy_of f v)"
    if "v \<in> reachable h r" for v
  proof -
    have "storable v" using enc that by (simp add: storable_graph_def)
    moreover have "covers ctx v" using collected_reaches [OF c] that by (simp add: reachable_def)
    ultimately show ?thesis
      using index_resolves [OF sok _ _ _ room] c storable_not_nan by (simp add: collected_def)
  qed
  show ?thesis
  proof (rule decode_table_ok)
    show "length (table_bytes cvt (lookup_index (sym_map_of symt) (index_map symt ctx)) ?t) < 2 ^ 32"
      using table_bytes_length t(2) by (rule le_less_trans)
    show "length (array_values ?t 0) < 2 ^ 32" using array_values_length [of ?t 0] t(2) by simp
    show "list_all (resolves (sym_vk_of symt) (value_map symt ctx f)
        (lookup_index (sym_map_of symt) (index_map symt ctx)) f) (array_values ?t 0)"
      using res t(3) array_values_mem by (fastforce simp: list_all_iff)
    show "\<forall>(k, v)\<in>set (hash_entries cvt (length (array_values ?t 0)) ?t).
       resolves (sym_vk_of symt) (value_map symt ctx f) (lookup_index (sym_map_of symt) (index_map symt ctx)) f k
       \<and> resolves (sym_vk_of symt) (value_map symt ctx f) (lookup_index (sym_map_of symt) (index_map symt ctx)) f v
       \<and> \<not> is_nan_val (copy_of f k)"
      using res t(3) by (fastforce simp: hash_entries_def)
  qed
qed

lemma value_map_split:
  assumes "distinct (ctx_tables ctx)" and "f = copy_addr base (ctx_tables ctx)"
  shows "value_map symt ctx f =
     dassign (dassign bool_vals (sym_index_of symt) (map (copy_of f) (slots (sym_map_of symt) ctx)))
       (sym_index_of symt + word_of_nat (length (slots (sym_map_of symt) ctx)))
       (map LTable [base..<base + length (ctx_tables ctx)])"
proof -
  have "map (copy_of f) (map LTable (ctx_tables ctx)) = map LTable (map f (ctx_tables ctx))"
    by (simp add: copy_of_def)
  then show ?thesis
    using copy_addr_map [OF assms(1), of base] assms(2)
    by (simp add: value_map_def all_slots_def dassign_append)
qed

lemma strings_storable:
  assumes "storable_graph h r" and "collected h r ctx"
  shows "list_all (\<lambda>s. length s < 2 ^ 32) (ctx_strings ctx)"
proof -
  have "storable (LStr s)" if "s \<in> set (ctx_strings ctx)" for s
    using assms that by (auto simp: storable_graph_def collected_def recorded_def)
  then show ?thesis by (auto simp: list_all_iff storable_def)
qed

lemma decode_sections_table:
  assumes enc: "storable_graph h r" and c: "collected h r ctx" and sok: "sym_ok symt"
    and r: "ctx_tables ctx = a # as" and f: "f = copy_addr (length h') (ctx_tables ctx)"
    and inp: "input_at input (body_bytes cvt symt h ctx)"
  shows "decode_sections symt h' (flag_of ctx) input =
     Some (Inr (h' @ copy_heap cvt h ctx f, copy_of f (LTable a)))"
proof -
  let ?sm = "sym_map_of symt" and ?i0 = "sym_index_of symt" and ?ix = "lookup_index (sym_map_of symt) (index_map symt ctx)"
  let ?ds0 = "\<lparr>ds_input = input, ds_map = bool_vals, ds_index = ?i0, ds_last_top = ?i0 + 1\<rparr>"
  let ?n = "length (ctx_tables ctx)" and ?m = "value_map symt ctx f" and ?k = "length (slots ?sm ctx)"
  have wf: "ctx_wf ctx" and size: "object_size h r < 2 ^ 32" using c enc by (simp_all add: collected_def storable_graph_def)
  then have dt: "distinct (ctx_tables ctx)" by (simp add: ctx_wf_def)
  note len = all_slots_length [OF c size, of symt]
  have room: "unat ?i0 + length (all_slots symt ctx) < 2 ^ 32"
    using len sym_index_bounds [OF sok] by simp
  have l: "length (slots ?sm ctx) < 2 ^ 32" using len by (simp add: all_slots_def)
  have inp0: "input_at (ds_input ?ds0) (section_bytes enc_d64 ?sm LNum (ctx_numbers ctx)
        @ section_bytes (\<lambda>d. enc_u30 (u30_of d)) ?sm LNum (ctx_u30s ctx)
        @ section_bytes enc_string ?sm LStr (ctx_strings ctx) @ table_section cvt ?ix h ctx)"
    using inp by (simp add: body_bytes_def)
  obtain ds1 ds2 ds3 where ds: "decode_numbers (flag_of ctx) ?ds0 = Some (Inr ds1)"
      "decode_u30s (flag_of ctx) ds1 = Some (Inr ds2)" "decode_strings (flag_of ctx) ds2 = Some (Inr ds3)"
      "input_at (ds_input ds3) (table_section cvt ?ix h ctx)"
      "ds_map ds3 = dassign (ds_map ?ds0) (ds_index ?ds0) (map (copy_of f) (slots ?sm ctx))"
      "ds_index ds3 = ds_index ?ds0 + word_of_nat ?k"
    by (rule decode_values_ok [OF wf strings_storable [OF enc c] l inp0]) (rule that; assumption)
  have n: "unat (word_of_nat ?n :: u32) = ?n" "(word_of_nat ?n :: u32) \<noteq> - 1"
  proof -
    have n30: "?n < 2 ^ 30" using len by (simp add: all_slots_def)
    then show u: "unat (word_of_nat ?n :: u32) = ?n" by (simp add: unat_of_nat)
    have "unat (- 1 :: u32) = 2 ^ 32 - 1" by (simp add: unsigned_minus_1_eq_mask mask_eq_exp_minus_1)
    then show "(word_of_nat ?n :: u32) \<noteq> - 1" using u n30 by auto
  qed
  have ts: "table_section cvt ?ix h ctx = enc_u30 (word_of_nat ?n)
      @ concat (map (\<lambda>a. enc_string (table_bytes cvt ?ix (tab h a))) (ctx_tables ctx)) @ []"
    using r by (simp add: table_section_def)
  obtain i1 where i1: "get_or_fail ffi_stream_get_u30 ''decode failed.'' (ds_input ds3) = Some (Inr (word_of_nat ?n, i1))"
      "input_at i1 (concat (map (\<lambda>a. enc_string (table_bytes cvt ?ix (tab h a))) (ctx_tables ctx)) @ [])"
    using u30_reader.get_or_fail_item [OF ds(4) [unfolded ts]] by blast
  have create: "create_tables ?n (ds_index ds3) (h', ds_map ds3) = (h' @ replicate ?n [], ?m)"
    using value_map_split [OF dt f, of symt] ds(5,6) by (simp add: create_tables_dassign)
  have slot: "?m (?i0 + word_of_nat ?k + 1 + word_of_nat j) = Some (LTable (length h' + j))" if "j < ?n" for j
  proof -
    have "dassign bool_vals ?i0 (map (copy_of f) (all_slots symt ctx)) (?i0 + 1 + word_of_nat (?k + j)) =
        Some (map (copy_of f) (all_slots symt ctx) ! (?k + j))"
      using room that by (intro dassign_nth) (simp_all add: all_slots_def)
    moreover have "map (copy_of f) (all_slots symt ctx) ! (?k + j) = LTable (f (ctx_tables ctx ! j))"
      using that by (simp add: all_slots_def nth_append copy_of_def)
    moreover have "f (ctx_tables ctx ! j) = length h' + j" using copy_addr_nth [OF dt that] f by simp
    ultimately show ?thesis by (simp add: value_map_def ac_simps)
  qed
  have tabs: "decode_table (sym_vk_of symt) ?m (table_bytes cvt ?ix (tab h b)) [] = Some (Inr (decoded_table cvt f (tab h b)))
      \<and> length (table_bytes cvt ?ix (tab h b)) < 2 ^ 32" if "b \<in> set (ctx_tables ctx)" for b
  proof -
    have "LTable b \<in> reachable h r" using c that by (auto simp: collected_def recorded_def)
    then show ?thesis
      using decode_reachable_table [OF enc c sok that] table_bytes_length [of cvt ?ix "tab h b"]
        reachable_table(2) [OF enc, of b] by simp
  qed
  obtain i2 where "decode_tables (sym_vk_of symt) ?m ?n (ds_index ds3) i1 (h' @ replicate ?n []) =
      Some (Inr (i2, h' @ copy_heap cvt h ctx f))"
    using decode_tables_ok [OF tabs i1(2), where index = "ds_index ds3" and ?h0.0 = h'] slot ds(6)
    by (auto simp: copy_heap_def)
  then have sec: "decode_table_section (sym_vk_of symt) (flag_of ctx) h' ds3 =
      Some (Inr (ds3\<lparr>ds_last_top := ds_index ds3 + 1, ds_input := i2, ds_map := ?m\<rparr>, h' @ copy_heap cvt h ctx f))"
    using i1(1) n create r flag_bits(4) [of ctx] by (simp add: decode_table_section_def bind_res_def)
  have "?m (ds_index ds3 + 1) = Some (copy_of f (LTable a))"
    using slot [of 0] r ds(6) copy_addr_nth [OF dt, of 0 "length h'"] f by (simp add: copy_of_def)
  moreover have "sym_vk_of symt (ds_index ds3 + 1) = None"
  proof (rule sym_vk_outside [OF sok])
    have "ds_index ds3 + 1 = word_of_nat (unat ?i0 + ?k + 1)" using ds(6) by simp
    also have "unat \<dots> = unat ?i0 + ?k + 1"
      using room r by (simp only: unat_of_nat) (simp add: take_bit_eq_mod all_slots_def)
    finally show "unat (ds_index ds3 + 1) \<le> 2 \<or> unat ?i0 < unat (ds_index ds3 + 1)" by simp
  qed
  ultimately show ?thesis
    using ds(1-3) sec by (simp add: decode_sections_def bind_res_def flip: bool_vals_def)
qed

lemma decode_sections_scalar:
  assumes enc: "storable_graph h r" and c: "collected h r ctx"
    and r: "section_values ctx = [r]" "ctx_tables ctx = []"
    and inp: "input_at input (body_bytes cvt None h ctx)"
  shows "decode_sections None h' (flag_of ctx) input = Some (Inr (h', copy_of f r))"
proof -
  let ?ds0 = "\<lparr>ds_input = input, ds_map = bool_vals, ds_index = 2, ds_last_top = 3\<rparr>"
  have wf: "ctx_wf ctx" using c by (simp add: collected_def)
  have fr: "fresh Map.empty mk xs = xs" for mk :: "'b \<Rightarrow> lval" and xs by (simp add: fresh_def)
  have sl: "slots Map.empty ctx = [r]" using r by (simp add: slots_def fr section_values_def)
  have l: "length (slots Map.empty ctx) < 2 ^ 32" by (simp add: sl)
  have inp0: "input_at (ds_input ?ds0) (section_bytes enc_d64 Map.empty LNum (ctx_numbers ctx)
        @ section_bytes (\<lambda>d. enc_u30 (u30_of d)) Map.empty LNum (ctx_u30s ctx)
        @ section_bytes enc_string Map.empty LStr (ctx_strings ctx) @ [])"
    using inp r(2) by (simp add: body_bytes_def sym_map_of_def table_section_def)
  obtain ds1 ds2 ds3 where ds: "decode_numbers (flag_of ctx) ?ds0 = Some (Inr ds1)"
      "decode_u30s (flag_of ctx) ds1 = Some (Inr ds2)" "decode_strings (flag_of ctx) ds2 = Some (Inr ds3)"
      "ds_map ds3 = dassign (ds_map ?ds0) (ds_index ?ds0) (map (copy_of f) (slots Map.empty ctx))"
      "ds_last_top ds3 =
      (if ctx_strings ctx \<noteq> [] then ds_index ?ds0 + word_of_nat (length (fresh Map.empty LNum (ctx_numbers ctx @ ctx_u30s ctx))) + 1
       else if ctx_u30s ctx \<noteq> [] then ds_index ?ds0 + word_of_nat (length (fresh Map.empty LNum (ctx_numbers ctx))) + 1
       else if ctx_numbers ctx \<noteq> [] then ds_index ?ds0 + 1 else ds_last_top ?ds0)"
    by (rule decode_values_ok [OF wf strings_storable [OF enc c] l inp0]) (rule that; assumption)
  have top: "ds_last_top ds3 = 3"
    using ds(5) r(1) by (auto simp: fr section_values_def append_eq_Cons_conv split: if_splits)
  have "ds_map ds3 3 = Some (copy_of f r)" using ds(4) by (simp add: sl)
  moreover have "decode_table_section (sym_vk_of None) (flag_of ctx) h' ds3 = Some (Inr (ds3, h'))"
    using flag_bits(4) [of ctx] r(2) by (simp add: decode_table_section_def)
  ultimately show ?thesis
    using ds(1-3) top
    by (simp add: decode_sections_def bind_res_def sym_index_of_def sym_vk_of_def flip: bool_vals_def)
qed

lemma copy_heap_tab:
  assumes "distinct (ctx_tables ctx)" and "a \<in> set (ctx_tables ctx)" and "f = copy_addr (length h') (ctx_tables ctx)"
  shows "tab (h' @ copy_heap cvt h ctx f) (f a) = decoded_table cvt f (tab h a)"
proof -
  obtain i where i: "i < length (ctx_tables ctx)" "a = ctx_tables ctx ! i" using assms(2) by (metis in_set_conv_nth)
  then have "f a = length h' + i" using assms by (simp add: copy_addr_nth)
  with i show ?thesis by (simp add: tab_def copy_heap_def nth_append)
qed

text \<open>\<open>g'\<close> rooted at \<open>v'\<close> is the image of \<open>g\<close> rooted at \<open>v\<close> under a renaming of the tables.\<close>

definition graph_copy :: "lheap \<Rightarrow> lval \<Rightarrow> lheap \<Rightarrow> lheap \<Rightarrow> lval \<Rightarrow> bool" where
  "graph_copy h r old h2 r' \<longleftrightarrow>
     (\<exists>f. r' = copy_of f r \<and> inj_on f {a. LTable a \<in> reachable h r}
        \<and> (\<forall>a. LTable a \<in> reachable h r \<longrightarrow>
             length old \<le> f a \<and> f a < length old + length h2
             \<and> mset (tab (old @ h2) (f a)) = mset (map (copy_entry f) (tab h a))))"

lemma collected_graph_copy:
  assumes ok: "encodable cvt h r" and c: "collected h r ctx" and f: "f = copy_addr (length h') (ctx_tables ctx)"
  shows "graph_copy h r h' (copy_heap cvt h ctx f) (copy_of f r)"
  unfolding graph_copy_def
proof (intro exI [of _ f] conjI allI impI)
  have dt: "distinct (ctx_tables ctx)" using c by (simp add: collected_def ctx_wf_def)
  have mem: "a \<in> set (ctx_tables ctx)" if "LTable a \<in> reachable h r" for a
    using collected_reaches [OF c, of "LTable a"] that by (simp add: reachable_def covers_def)
  then show inj: "inj_on f {a. LTable a \<in> reachable h r}"
    unfolding f by (intro inj_on_subset [OF copy_addr_inj [OF dt]]) auto
  fix a
  assume a: "LTable a \<in> reachable h r"
  show "length h' \<le> f a" "f a < length h' + length (copy_heap cvt h ctx f)"
    using copy_addr_bounds [OF mem [OF a]] by (simp_all add: f copy_heap_def)
  have enc: "storable_graph h r" and ns: "no_numeric_strings cvt (tab h a)"
    using ok a by (simp_all add: encodable_def)
  note t = reachable_table [OF enc a]
  have "mset (decoded_table cvt f (tab h a)) = mset (map (copy_entry f) (tab h a))"
    using t ns by (intro decoded_table_copy [OF _ _ _ inj]) auto
  then show "mset (tab (h' @ copy_heap cvt h ctx f) (f a)) = mset (map (copy_entry f) (tab h a))"
    using copy_heap_tab [OF dt mem [OF a] f] by simp
qed simp

lemma encode_decode_ctx:
  assumes room: "roomy al" and enc: "storable_graph h r" and c: "collected h r ctx"
    and pk: "packer (Suc (length h)) h ctx_init r = Some (Inr ctx)" and nb: "\<And>b. r \<noteq> LBool b" "r \<noteq> LNil"
    and ne: "ctx_numbers ctx \<noteq> [] \<or> ctx_u30s ctx \<noteq> [] \<or> ctx_strings ctx \<noteq> [] \<or> ctx_tables ctx \<noteq> []"
    and dec: "\<And>input. input_at input (body_bytes cvt symt h ctx) \<Longrightarrow>
       decode_sections symt h' (flag_of ctx) input = Some (Inr (h' @ h2, r'))"
  shows "\<exists>bytes. luafan_objectbuf_encode al ba0 cvt h r symt = Some (Inr bytes)
     \<and> luafan_objectbuf_decode ba1 h' bytes symt = Some (Inr (h' @ h2, r'))"
proof -
  let ?b = "flag_of ctx # body_bytes cvt symt h ctx"
  have len: "length ?b < 2 ^ 32" using enc by (intro le_less_trans [OF body_bytes_length [OF c]]) (simp add: storable_graph_def)
  then have "encode_ctx al ba0 cvt symt h ctx = Some ?b" by (intro encode_ctx_ok [OF room]) simp
  then have e: "luafan_objectbuf_encode al ba0 cvt h r symt = Some (Inr ?b)"
    using pk nb by (cases r) (auto simp: luafan_objectbuf_encode_def bind_res_def)
  let ?i = "snd (bytearray_wrap_buffer ba1 ?b (word_of_nat (length ?b)))"
  have i: "input_at ?i ?b" using len by (rule wrap_input)
  then obtain i1 where i1: "bytearray_read8 ?i = Some (Some (flag_of ctx), i1)" "input_at i1 (body_bytes cvt symt h ctx)"
    using read8_source [of ?i] moved_wf moved_reading by (auto simp: input_at_def source_result_def)
  have "luafan_objectbuf_decode ba1 h' ?b symt = Some (Inr (h' @ h2, r'))"
    using i1 flag_not_bool [OF ne] dec [OF i1(2)] by (simp add: luafan_objectbuf_decode_def Let_def)
  with e show ?thesis by blast
qed

lemma storable_no_nan: "storable_graph h r \<Longrightarrow> \<forall>v\<in>reachable h r. \<not> is_nan_val v"
  by (auto simp: storable_graph_def storable_def is_nan_val_def split: lval.splits)

lemma encode_decode_copy:
  assumes room: "roomy al" and enc: "storable_graph h (LTable a)" and sok: "sym_ok symt"
  obtains bytes ctx f where "luafan_objectbuf_encode al ba0 cvt h (LTable a) symt = Some (Inr bytes)"
    and "luafan_objectbuf_decode ba1 h' bytes symt = Some (Inr (h' @ copy_heap cvt h ctx f, copy_of f (LTable a)))"
    and "f = copy_addr (length h') (ctx_tables ctx)" and "collected h (LTable a) ctx"
proof -
  obtain ctx where ctx: "packer (Suc (length h)) h ctx_init (LTable a) = Some (Inr ctx)" "collected h (LTable a) ctx"
    using packer_collects [OF _ _ storable_no_nan [OF enc]] enc by (auto simp: storable_graph_def)
  then obtain as where as: "ctx_tables ctx = a # as" by (auto simp: collected_def)
  define f where "f = copy_addr (length h') (ctx_tables ctx)"
  have "\<exists>bytes. luafan_objectbuf_encode al ba0 cvt h (LTable a) symt = Some (Inr bytes)
     \<and> luafan_objectbuf_decode ba1 h' bytes symt = Some (Inr (h' @ copy_heap cvt h ctx f, copy_of f (LTable a)))"
    using as by (intro encode_decode_ctx [OF room enc ctx(2,1)]) (auto intro!: decode_sections_table [OF enc ctx(2) sok as f_def])
  then show thesis using that f_def ctx(2) by blast
qed

lemma encode_decode_table:
  assumes room: "roomy al" and enc: "encodable cvt h (LTable a)" and sok: "sym_ok symt"
  shows "\<exists>bytes h2 r'. luafan_objectbuf_encode al ba0 cvt h (LTable a) symt = Some (Inr bytes)
     \<and> luafan_objectbuf_decode ba1 h' bytes symt = Some (Inr (h' @ h2, r')) \<and> graph_copy h (LTable a) h' h2 r'"
proof -
  have "storable_graph h (LTable a)" using enc by (simp add: encodable_def)
  then show ?thesis
    using encode_decode_copy [OF room _ sok, of h a ba0 cvt ba1 h'] collected_graph_copy [OF enc] by metis
qed

lemma reaches_scalar: "reaches h r v \<Longrightarrow> (\<And>a. r \<noteq> LTable a) \<Longrightarrow> v = r"
  by (induction rule: reaches.induct) blast+

lemma graph_copy_scalar: "(\<And>a. r \<noteq> LTable a) \<Longrightarrow> graph_copy h r h' [] (copy_of f r)"
  unfolding graph_copy_def
  by (intro exI [of _ f]) (auto simp: reachable_def inj_on_def dest: reaches_scalar)

lemma encode_decode_scalar:
  assumes room: "roomy al" and enc: "storable_graph h r" and r: "(\<exists>d. r = LNum d) \<or> (\<exists>s. r = LStr s)"
  shows "\<exists>bytes h2 r'. luafan_objectbuf_encode al ba0 cvt h r None = Some (Inr bytes)
     \<and> luafan_objectbuf_decode ba1 h' bytes None = Some (Inr (h' @ h2, r')) \<and> graph_copy h r h' h2 r'"
proof -
  obtain ctx where ctx: "packer (Suc (length h)) h ctx_init r = Some (Inr ctx)" "collected h r ctx"
    using packer_collects [OF _ _ storable_no_nan [OF enc]] enc by (auto simp: storable_graph_def)
  have val: "section_values ctx = [r]" "ctx_tables ctx = []"
    using r ctx(1)
    by (auto simp: packer_number_def packer_string_def ctx_init_def section_values_def split: if_splits)
  have nt: "r \<noteq> LTable a" "r \<noteq> LBool b" "r \<noteq> LNil" for a b using r by auto
  have "\<exists>bytes. luafan_objectbuf_encode al ba0 cvt h r None = Some (Inr bytes)
     \<and> luafan_objectbuf_decode ba1 h' bytes None = Some (Inr (h' @ [], copy_of id r))"
    using nt val decode_sections_scalar [OF enc ctx(2) val]
    by (intro encode_decode_ctx [OF room enc ctx(2,1)]) (auto simp: section_values_def)
  with graph_copy_scalar [of r h h' id] nt(1) show ?thesis by blast
qed

lemma encode_decode_bool:
  "\<exists>bytes h2 r'. luafan_objectbuf_encode al ba0 cvt h (LBool b) symt = Some (Inr bytes)
     \<and> luafan_objectbuf_decode ba1 h' bytes symt = Some (Inr (h' @ h2, r')) \<and> graph_copy h (LBool b) h' h2 r'"
proof -
  have "luafan_objectbuf_decode ba1 h' (if b then [1] else []) symt = Some (Inr (h' @ [], copy_of id (LBool b)))"
    by (cases b)
      (simp_all add: luafan_objectbuf_decode_def Let_def bytearray_wrap_buffer_def bytearray_read8_optimized_def
        load_at_def copy_of_def)
  then show ?thesis
    using graph_copy_scalar [of "LBool b" h h' id] by (auto simp: luafan_objectbuf_encode_def)
qed

section \<open>Properties\<close>

text \<open>
  (C1) Round trip of the object serialiser: decoding what \<open>encode\<close> produced rebuilds, after the old
  tables of the heap, a copy of the object graph that is isomorphic to the original, sharing and cycles
  included. Every reachable table has exactly one copy, whose entries are the copies of its entries.
  It holds for tables with every usable symbol table, and for numbers, strings and booleans without one.
\<close>

theorem objectbuf_roundtrip:
  assumes "roomy al" and "encodable cvt h r" and "sym_ok symt"
    and "symt = None \<or> (\<exists>a. r = LTable a) \<or> (\<exists>b. r = LBool b)"
  shows "\<exists>bytes h2 r'. luafan_objectbuf_encode al ba0 cvt h r symt = Some (Inr bytes)
     \<and> luafan_objectbuf_decode ba1 h' bytes symt = Some (Inr (h' @ h2, r')) \<and> graph_copy h r h' h2 r'"
proof -
  have ok: "storable_graph h r" using assms(2) by (simp add: encodable_def)
  then have "storable r" by (simp add: storable_graph_def reachable_def reaches_refl)
  then consider a where "r = LTable a" | b where "r = LBool b" | "(\<exists>d. r = LNum d) \<or> (\<exists>s. r = LStr s)"
    by (cases r) (auto simp: storable_def)
  then show ?thesis
  proof cases
    case 1
    with assms show ?thesis using encode_decode_table [of al cvt h a symt ba0 ba1 h'] by simp
  next
    case 2
    then show ?thesis using encode_decode_bool [of al ba0 cvt h b symt ba1 h'] by simp
  next
    case 3
    with assms show ?thesis using encode_decode_scalar [OF assms(1) ok 3] by auto
  qed
qed

text \<open>A table that is its own value, and a string key next to it.\<close>

definition demo_heap :: lheap where
  "demo_heap = [[(LNum (dbl_of_nat 1), LTable 0), (LStr [112], LNum (dbl_of_nat 7))]]"

lemma encodableI:
  assumes "heap_ok h" and "ref_ok h r" and "list_all storable (all_vals h r)"
    and "list_all (no_numeric_strings cvt) h" and "object_size h r < 2 ^ 32"
  shows "encodable cvt h r"
proof -
  have "storable v" if "v \<in> reachable h r" for v
    using that assms(3) reaches_all_vals [of h r v] by (auto simp: reachable_def list_all_iff)
  moreover have "no_numeric_strings cvt (tab h a)" if "LTable a \<in> reachable h r" for a
    using packed.inside [OF that] assms(4) by (simp add: list_all_iff tab_def)
  ultimately show ?thesis using assms(1,2,5) by (simp add: encodable_def storable_graph_def)
qed

lemma demo_heap_encodable: "encodable (\<lambda>_. None) demo_heap (LTable 0)"
proof (rule encodableI)
  have d: "dbl_of_nat (Suc 0) = 0x3FF0000000000000" "dbl_of_nat 7 = 0x401C000000000000"
    by (simp_all add: dbl_of_nat_def floor_log2.simps [of 7] floor_log2.simps [of 3] floor_log2.simps [of "Suc 0"])
  show "heap_ok demo_heap"
    by (simp add: demo_heap_def d heap_ok_def table_ok_def key_ok_def ref_ok_def dbl_canon_def dbl_is_nan_def
        dbl_expo_def)
  show "list_all storable (all_vals demo_heap (LTable 0))"
    by (simp add: demo_heap_def d all_vals_def storable_def dbl_is_nan_def dbl_expo_def)
  have "dbl_int 0 = Some 0" using dbl_int_of_nat [of 0] by (simp add: dbl_of_nat_def)
  then show "list_all (no_numeric_strings (\<lambda>_. None)) demo_heap"
    by (simp add: demo_heap_def no_numeric_strings_def in_array_part_def lua_tonumber_def)
qed (simp_all add: demo_heap_def ref_ok_def object_size_def all_vals_def val_size_def)

theorem objectbuf_roundtrip_witness:
  "\<exists>bytes h2 r'. luafan_objectbuf_encode roomy_alloc demo_ba (\<lambda>_. None) demo_heap (LTable 0) None = Some (Inr bytes)
     \<and> luafan_objectbuf_decode demo_ba [] bytes None = Some (Inr ([] @ h2, r'))
     \<and> graph_copy demo_heap (LTable 0) [] h2 r'"
proof -
  have "roomy roomy_alloc" by (simp add: roomy_def roomy_alloc_def)
  then show ?thesis
    using objectbuf_roundtrip [of roomy_alloc "\<lambda>_. None" demo_heap "LTable 0" None demo_ba demo_ba "[]"]
      demo_heap_encodable by (simp add: sym_ok_def)
qed

text \<open>
  Collecting the values of an object always ends: with a depth of one more than the number of
  tables in the heap, \<open>packer\<close> either lists every reachable table, number and string exactly once and
  nothing else, or raises a Lua error because a reachable number is NaN.
\<close>

lemma packer_total:
  assumes "heap_ok h" and "ref_ok h r"
  shows "(\<exists>c. packer (Suc (length h)) h ctx_init r = Some (Inr c)
            \<and> ctx_wf c \<and> recorded c \<subseteq> {v. reaches h r v} \<and> (\<forall>v. reaches h r v \<longrightarrow> covers c v))
     \<or> packer (Suc (length h)) h ctx_init r = Some (Inl (Raised ''table index is NaN''))
       \<and> (\<exists>v. reaches h r v \<and> is_nan_val v)"
proof (cases "\<exists>c. packer (Suc (length h)) h ctx_init r = Some (Inr c)")
  case True
  then obtain c where c: "packer (Suc (length h)) h ctx_init r = Some (Inr c)" by blast
  then have "collected h r c"
    using packer_enough [OF assms]
    by (auto simp: pack_outcome_def pack_step_def collected_def listed_next_def ctx_init_wf)
  then show ?thesis
    using c collected_reaches [of h r c] by (auto simp: collected_def reachable_def)
next
  case False
  then show ?thesis using packer_enough [OF assms] by (auto simp: pack_outcome_def reachable_def)
qed

lemma packer_total_witness:
  "(\<exists>c. packer (Suc (length demo_heap)) demo_heap ctx_init (LTable 0) = Some (Inr c)
      \<and> ctx_wf c \<and> recorded c \<subseteq> {v. reaches demo_heap (LTable 0) v}
      \<and> (\<forall>v. reaches demo_heap (LTable 0) v \<longrightarrow> covers c v))
   \<or> packer (Suc (length demo_heap)) demo_heap ctx_init (LTable 0) = Some (Inl (Raised ''table index is NaN''))
     \<and> (\<exists>v. reaches demo_heap (LTable 0) v \<and> is_nan_val v)"
proof -
  have "heap_ok demo_heap" "ref_ok demo_heap (LTable 0)"
    using demo_heap_encodable by (simp_all add: encodable_def storable_graph_def)
  then show ?thesis by (rule packer_total [of demo_heap "LTable 0"])
qed

text \<open>
  The bytes of an encoding: a flag byte, then the section of the doubles, of the small integers, of
  the strings and of the tables, each with its count, values known to the symbol table left out, and every
  table as a length-prefixed list of indices, array part first.
\<close>

lemma objectbuf_encode_format:
  assumes room: "roomy al" and ok: "storable_graph h (LTable a)"
  shows "\<exists>ctx. packer (Suc (length h)) h ctx_init (LTable a) = Some (Inr ctx)
     \<and> luafan_objectbuf_encode al ba0 cvt h (LTable a) symt =
         Some (Inr (flag_of ctx # body_bytes cvt symt h ctx))"
proof -
  obtain ctx where ctx: "packer (Suc (length h)) h ctx_init (LTable a) = Some (Inr ctx)" "collected h (LTable a) ctx"
    using packer_collects [OF _ _ storable_no_nan [OF ok]] ok by (auto simp: storable_graph_def)
  have "length (flag_of ctx # body_bytes cvt symt h ctx) < 2 ^ 32"
    using ok by (intro le_less_trans [OF body_bytes_length [OF ctx(2)]]) (simp add: storable_graph_def)
  then have "encode_ctx al ba0 cvt symt h ctx = Some (flag_of ctx # body_bytes cvt symt h ctx)"
    by (intro encode_ctx_ok [OF room]) simp
  with ctx(1) show ?thesis by (auto simp: luafan_objectbuf_encode_def bind_res_def)
qed

lemma objectbuf_encode_format_witness:
  "\<exists>ctx. packer (Suc (length demo_heap)) demo_heap ctx_init (LTable 0) = Some (Inr ctx)
     \<and> luafan_objectbuf_encode roomy_alloc demo_ba (\<lambda>_. None) demo_heap (LTable 0) None =
         Some (Inr (flag_of ctx # body_bytes (\<lambda>_. None) None demo_heap ctx))"
proof -
  have "roomy roomy_alloc" by (simp add: roomy_def roomy_alloc_def)
  moreover have "storable_graph demo_heap (LTable 0)"
    using demo_heap_encodable by (simp add: encodable_def)
  ultimately show ?thesis by (rule objectbuf_encode_format [of roomy_alloc demo_heap 0 demo_ba "\<lambda>_. None" None])
qed

lemma table_set_keys: "fst ` set (table_set t k v) = insert k (fst ` set t)"
  by (induction t k v rule: table_set.induct) auto

lemma rawsets_keys: "fst ` set (rawsets t kvs) = fst ` set t \<union> (key_of \<circ> fst) ` set kvs"
proof (induction kvs arbitrary: t)
  case (Cons kv kvs)
  obtain k v where kv: "kv = (k, v)" by fastforce
  have "fst ` set (rawset t k v) = insert (key_of k) (fst ` set t)" by (simp add: rawset_def table_set_keys)
  with Cons [of "rawset t k v"] kv show ?case by (simp add: rawsets_def)
qed (simp add: rawsets_def)

lemma numeric_key_not_decoded:
  assumes "in_array_part cvt (length (array_values t 0)) (LStr s)"
  shows "rawget (decoded_table cvt f t) (LStr s) = None"
proof -
  have arr: "LStr s \<notin> (key_of \<circ> fst) ` set (array_pairs j vs)" for j vs
    by (auto simp: set_array_pairs)
  have key: "k = LStr s" if "key_of (copy_of f k) = LStr s" for k
    using that by (cases k) (simp_all add: copy_of_def key_of_def)
  have "LStr s \<notin> (key_of \<circ> fst) ` set (map (copy_entry f) (hash_entries cvt (length (array_values t 0)) t))"
  proof
    assume "LStr s \<in> (key_of \<circ> fst) ` set (map (copy_entry f) (hash_entries cvt (length (array_values t 0)) t))"
    then obtain k v where kv: "(k, v) \<in> set (hash_entries cvt (length (array_values t 0)) t)"
        "key_of (copy_of f k) = LStr s"
      by (auto simp: copy_entry_def)
    with key [OF kv(2)] assms show False by (simp add: hash_entries_def)
  qed
  with arr have "LStr s \<notin> fst ` set (decoded_table cvt f t)"
    by (simp add: decoded_table_def Let_def rawsets_keys image_Un)
  then show ?thesis by (simp add: rawget_def map_of_eq_None_iff)
qed

text \<open>
  A string key that Lua can convert to a number is lost: when a table has an array part of \<open>n\<close>
  elements and a string key whose numeric value lies between 1 and \<open>n\<close>, encoding and decoding succeed and
  the copy has no entry for that key, because the encoder takes it for an element it has already written.
\<close>

lemma objectbuf_numeric_key_lost:
  assumes room: "roomy al" and ok: "storable_graph h (LTable a)"
    and key: "(LStr s, v) \<in> set (tab h a)"
    and num: "in_array_part cvt (length (array_values (tab h a) 0)) (LStr s)"
  shows "\<exists>bytes h2 b. luafan_objectbuf_encode al ba0 cvt h (LTable a) None = Some (Inr bytes)
     \<and> luafan_objectbuf_decode ba1 h' bytes None = Some (Inr (h2, LTable b))
     \<and> rawget (tab h2 b) (LStr s) = None"
proof -
  have "sym_ok None" by (simp add: sym_ok_def)
  then obtain bytes ctx f where e: "luafan_objectbuf_encode al ba0 cvt h (LTable a) None = Some (Inr bytes)"
      "luafan_objectbuf_decode ba1 h' bytes None = Some (Inr (h' @ copy_heap cvt h ctx f, copy_of f (LTable a)))"
      "f = copy_addr (length h') (ctx_tables ctx)" "collected h (LTable a) ctx"
    using encode_decode_copy [OF room ok] by metis
  have "distinct (ctx_tables ctx)" "a \<in> set (ctx_tables ctx)"
    using e(4) by (auto simp: collected_def ctx_wf_def covers_def)
  then have "tab (h' @ copy_heap cvt h ctx f) (f a) = decoded_table cvt f (tab h a)"
    using e(3) by (rule copy_heap_tab)
  with e(1,2) numeric_key_not_decoded [OF num, of f] show ?thesis by (simp add: copy_of_def)
qed

text \<open>A table with one array element and the key \<open>"1"\<close>.\<close>

definition numeric_heap :: lheap where
  "numeric_heap = [[(LNum (dbl_of_nat 1), LBool True), (LStr [49], LBool False)]]"

definition demo_cvt :: "bytes \<Rightarrow> u64 option" where
  "demo_cvt s = (if s = [49] then Some (dbl_of_nat 1) else None)"

lemma objectbuf_numeric_key_lost_witness:
  "\<exists>bytes h2 b. luafan_objectbuf_encode roomy_alloc demo_ba demo_cvt numeric_heap (LTable 0) None = Some (Inr bytes)
     \<and> luafan_objectbuf_decode demo_ba [] bytes None = Some (Inr (h2, LTable b))
     \<and> rawget (tab h2 b) (LStr [49]) = None"
proof -
  have d: "dbl_of_nat (Suc 0) = 0x3FF0000000000000"
    by (simp add: dbl_of_nat_def floor_log2.simps [of "Suc 0"])
  have i: "dbl_int (dbl_of_nat (Suc 0)) = Some 1" using dbl_int_of_nat [of 1] by simp
  have "storable v" if "v \<in> reachable numeric_heap (LTable 0)" for v
    using that reaches_all_vals [of numeric_heap "LTable 0" v]
    by (auto simp: reachable_def all_vals_def numeric_heap_def storable_def d dbl_is_nan_def dbl_expo_def)
  then have "storable_graph numeric_heap (LTable 0)"
    by (simp add: storable_graph_def numeric_heap_def d heap_ok_def table_ok_def key_ok_def ref_ok_def
        dbl_canon_def dbl_is_nan_def dbl_expo_def object_size_def all_vals_def val_size_def)
  moreover have "rawgeti (tab numeric_heap 0) 1 = Some (LBool True)"
    by (simp add: numeric_heap_def tab_def is_int_key_def i)
  then have "0 < length (array_values (tab numeric_heap 0) 0)"
    by (simp add: array_values.simps [of _ 0])
  then have "in_array_part demo_cvt (length (array_values (tab numeric_heap 0) 0)) (LStr [49])"
    by (cases "array_values (tab numeric_heap 0) 0") (simp_all add: in_array_part_def lua_tonumber_def demo_cvt_def i)
  moreover have "(LStr [49], LBool False) \<in> set (tab numeric_heap 0)" by (simp add: numeric_heap_def tab_def)
  moreover have "roomy roomy_alloc" by (simp add: roomy_def roomy_alloc_def)
  ultimately show ?thesis
    using objectbuf_numeric_key_lost [of roomy_alloc numeric_heap 0 "[49]" "LBool False" demo_cvt demo_ba demo_ba "[]"]
    by blast
qed

end
