(* ===== verification/Objectbuf_Safety.thy ===== *)
theory Objectbuf_Safety
  imports Objectbuf_Roundtrip
begin

text \<open>
  The decoder on arbitrary input: it never reads outside the buffer it was given and it returns, with a
  value or an error, unless the input announces the largest possible number of tables.
\<close>

section \<open>Every getter stays inside the input\<close>

text \<open>The run so far has moved the cursor of \<open>i0\<close> only.\<close>

definition reading_from :: "BYTEARRAY \<Rightarrow> BYTEARRAY \<Rightarrow> bool" where
  "reading_from i0 i \<longleftrightarrow> moved i0 i \<and> ba_reading i0"

lemma reading_fromD: "reading_from i0 i \<Longrightarrow> ba_wf i \<and> ba_reading i"
  using moved_wf moved_reading by (auto simp: reading_from_def)

lemma reading_from_trans: "reading_from i0 i \<Longrightarrow> moved i i' \<Longrightarrow> reading_from i0 i'"
  by (auto simp: reading_from_def intro: moved_trans)

lemma reading_from_refl: "ba_wf i \<Longrightarrow> ba_reading i \<Longrightarrow> reading_from i i"
  by (simp add: reading_from_def moved_refl)

context byte_source
begin

lemma get_or_fail_safe:
  assumes "reading_from i0 i"
  shows "safe_res (\<lambda>(x, i'). reading_from i0 i' \<and> dec (unread i) = Some (x, unread i')) (get_or_fail get msg i)"
  using get_dec [of i] reading_fromD [OF assms] reading_from_trans [OF assms]
  by (auto simp: source_result_def get_or_fail_def safe_res_def split: option.splits)

lemma decode_items_safe:
  "reading_from i0 (ds_input ds) \<Longrightarrow>
     safe_res (\<lambda>ds'. reading_from i0 (ds_input ds')) (decode_items get mk fail n ds)"
proof (induction n arbitrary: ds)
  case 0
  then show ?case by (simp add: safe_res_def)
next
  case (Suc n)
  from get_dec [of "ds_input ds"] reading_fromD [OF Suc.prems] obtain v i' where
    g: "get (ds_input ds) = Some (v, i')" "moved (ds_input ds) i'"
    by (auto simp: source_result_def)
  show ?case
  proof (cases v)
    case None
    with g show ?thesis by (simp add: safe_res_def)
  next
    case (Some x)
    with g reading_from_trans [OF Suc.prems g(2)] show ?thesis by (simp add: Suc.IH)
  qed
qed

lemma decode_section_safe:
  assumes "reading_from i0 (ds_input ds)"
  shows "safe_res (\<lambda>ds'. reading_from i0 (ds_input ds')) (decode_section get mk msg fail msk flag ds)"
proof (cases "flag AND msk = 0")
  case True
  with assms show ?thesis by (simp add: decode_section_def safe_res_def)
next
  case False
  have "safe_res (\<lambda>ds'. reading_from i0 (ds_input ds'))
      (bind_res (get_or_fail ffi_stream_get_u30 msg (ds_input ds))
        (\<lambda>(count, input). decode_items get mk (fail count) (unat count)
            (ds\<lparr>ds_last_top := ds_index ds + 1, ds_input := input\<rparr>)))"
    by (rule safe_bind [OF u30_source.get_or_fail_safe [OF assms]]) (auto intro: decode_items_safe)
  with False show ?thesis by (simp add: decode_section_def)
qed

end

lemma decode_array_safe:
  "reading_from i0 d \<Longrightarrow>
     safe_res (\<lambda>(d', t'). reading_from i0 d') (decode_array vk m n j d t)"
proof (induction n arbitrary: j d t)
  case 0
  then show ?case by (simp add: safe_res_def)
next
  case (Suc n)
  show ?case
    unfolding decode_array.simps
  proof (rule safe_bind [OF u30_source.get_or_fail_safe [OF Suc.prems]], clarsimp)
    fix vi d'
    assume "reading_from i0 d'"
    then have IH: "safe_res (\<lambda>(d', t'). reading_from i0 d') (decode_array vk m n (Suc j) d' t')" for t'
      by (rule Suc.IH)
    show "safe_res (\<lambda>(d', t'). reading_from i0 d') (bind_res (decode_lookup vk m ''vi'' vi)
        (\<lambda>v. decode_array vk m n (Suc j) d' (rawset t (LNum (dbl_of_nat j)) v)))"
      by (rule safe_bind [of "\<lambda>_. True"]) (auto simp: decode_lookup_def safe_res_def IH [unfolded safe_res_def] split: option.split)
  qed
qed

lemma decode_pair_safe:
  assumes "reading_from i0 d"
  shows "safe_res (\<lambda>(d', t'). reading_from i0 d' \<and> length (unread d') < length (unread d)) (decode_pair vk m d t)"
  unfolding decode_pair_def
proof (rule safe_bind [OF u30_source.get_or_fail_safe [OF assms]], clarsimp)
  fix ki d1
  assume d1: "reading_from i0 d1" "dec_u30 (unread d) = Some (ki, unread d1)"
  show "safe_res (\<lambda>(d', t'). reading_from i0 d' \<and> length (unread d') < length (unread d))
     (bind_res (get_or_fail ffi_stream_get_u30 ''decode failed.'' d1)
       (\<lambda>(vi, d2). bind_res (decode_lookup vk m ''ki'' ki)
          (\<lambda>k. bind_res (decode_lookup vk m ''vi'' vi)
             (\<lambda>v. bind_res (rawset_checked t k v) (\<lambda>t'. Some (Inr (d2, t')))))))"
  proof (rule safe_bind [OF u30_source.get_or_fail_safe [OF d1(1)]], clarsimp)
    fix vi d2
    assume d2: "reading_from i0 d2" "dec_u30 (unread d1) = Some (vi, unread d2)"
    then have "length (unread d2) < length (unread d)"
      using dec_u30_rest [OF d1(2)] dec_u30_rest [OF d2(2)] by simp
    with d2(1) show "safe_res (\<lambda>(d', t'). reading_from i0 d' \<and> length (unread d') < length (unread d))
       (bind_res (decode_lookup vk m ''ki'' ki)
          (\<lambda>k. bind_res (decode_lookup vk m ''vi'' vi)
             (\<lambda>v. bind_res (rawset_checked t k v) (\<lambda>t'. Some (Inr (d2, t'))))))"
      by (auto simp: decode_lookup_def rawset_checked_def safe_res_def bind_res_def split: option.split)
  qed
qed

lemma decode_hash_safe: "reading_from i0 d \<Longrightarrow> safe_res (\<lambda>_. True) (decode_hash vk m d t)"
proof (induction "length (unread d)" arbitrary: d t rule: less_induct)
  case less
  show ?case
  proof (cases "0 < bytearray_read_available d")
    case False
    then show ?thesis by (simp add: decode_hash.simps [of _ _ d] safe_res_def)
  next
    case True
    then have "decode_hash vk m d t = bind_res (decode_pair vk m d t) (\<lambda>(d', t'). decode_hash vk m d' t')"
      by (simp add: decode_hash.simps [of _ _ d t] bind_res_def case_prod_unfold split: option.split sum.split)
    moreover have "safe_res (\<lambda>_. True) \<dots>"
      by (rule safe_bind [OF decode_pair_safe [OF less.prems]]) (auto intro: less.hyps)
    ultimately show ?thesis by simp
  qed
qed

lemma decode_table_safe:
  assumes "length buff < 2 ^ 32"
  shows "safe_res (\<lambda>_. True) (decode_table vk m buff t)"
proof -
  let ?d = "snd (bytearray_wrap_buffer zero_ba buff (word_of_nat (length buff)))"
  have d: "reading_from ?d ?d"
    using wrap_input [OF assms, of zero_ba] by (simp add: input_at_def reading_from_refl)
  show ?thesis
    unfolding decode_table_def
  proof (rule safe_bind [OF u30_source.get_or_fail_safe [OF d]], clarsimp)
    fix count d1
    assume "reading_from ?d d1"
    then have "safe_res (\<lambda>(d', t'). reading_from ?d d') (decode_array vk m (unat count) (Suc 0) d1 t)"
      by (rule decode_array_safe)
    then show "safe_res (\<lambda>_. True) (bind_res (decode_array vk m (unat count) (Suc 0) d1 t)
        (\<lambda>(d', t'). decode_hash vk m d' t'))"
      by (rule safe_bind) (auto intro: decode_hash_safe)
  qed
qed

lemma dassign_unset: "(\<And>k. k < length vs \<Longrightarrow> x \<noteq> i + 1 + word_of_nat k) \<Longrightarrow> dassign m i vs x = m x"
proof (induction vs arbitrary: m i)
  case (Cons v vs)
  have "x \<noteq> i + 1 + 1 + word_of_nat k" if "k < length vs" for k
    using Cons.prems [of "Suc k"] that by (simp add: ac_simps)
  moreover have "x \<noteq> i + 1" using Cons.prems [of 0] by simp
  ultimately show ?case using Cons.IH [of "i + 1"] by simp
qed simp

lemma dassign_nth_wrap:
  "length vs < 2 ^ 32 \<Longrightarrow> j < length vs \<Longrightarrow> dassign m i vs (i + 1 + word_of_nat j) = Some (vs ! j)"
proof (induction vs arbitrary: m i j)
  case (Cons v vs)
  show ?case
  proof (cases j)
    case 0
    have "dassign (m(i + 1 \<mapsto> v)) (i + 1) vs (i + 1) = (m(i + 1 \<mapsto> v)) (i + 1)"
    proof (rule dassign_unset)
      fix k
      assume "k < length vs"
      then have "unat (word_of_nat (Suc k) :: u32) = Suc k"
        using Cons.prems by (simp only: unat_of_nat) (simp add: take_bit_eq_mod)
      then have "(word_of_nat (Suc k) :: u32) \<noteq> 0" by (metis Zero_not_Suc unsigned_0)
      then show "i + 1 \<noteq> i + 1 + 1 + word_of_nat k" by (simp add: add.assoc)
    qed
    with 0 show ?thesis by simp
  next
    case (Suc k)
    have "i + 1 + word_of_nat j = i + 1 + 1 + word_of_nat k" by (simp add: Suc)
    moreover have "dassign (m(i + 1 \<mapsto> v)) (i + 1) vs (i + 1 + 1 + word_of_nat k) = Some (vs ! k)"
      using Suc Cons.prems by (intro Cons.IH) simp_all
    ultimately show ?thesis by (simp only: dassign.simps Suc nth_Cons_Suc)
  qed
qed simp

lemma get_string_length: "dec_string bs = Some (s, r) \<Longrightarrow> length s < 2 ^ 32"
  using unsigned_less [where ?'a = nat and ?'b = 32]
  by (auto simp: dec_string_def min_absorb2 split: option.splits if_splits)

lemma decode_tables_safe:
  "reading_from i0 i \<Longrightarrow> (\<And>j. j < n \<Longrightarrow> \<exists>a. m (index + 1 + word_of_nat j) = Some (LTable a)) \<Longrightarrow>
     safe_res (\<lambda>_. True) (decode_tables vk m n index i h)"
proof (induction n arbitrary: index i h)
  case 0
  then show ?case by (simp add: safe_res_def)
next
  case (Suc n)
  obtain a where a: "m (index + 1) = Some (LTable a)" using Suc.prems(2) [of 0] by auto
  have more: "\<exists>a. m (index + 1 + 1 + word_of_nat j) = Some (LTable a)" if "j < n" for j
    using Suc.prems(2) [of "Suc j"] that by (simp add: ac_simps)
  show ?case
    unfolding decode_tables.simps
  proof (rule safe_bind [OF string_source.get_or_fail_safe [OF Suc.prems(1)]], clarsimp simp: a)
    fix buff i1
    assume i1: "reading_from i0 i1" "dec_string (unread i) = Some (buff, unread i1)"
    show "safe_res (\<lambda>_. True) (bind_res (decode_table vk m buff (tab h a))
        (\<lambda>t. decode_tables vk m n (index + 1) i1 (h[a := t])))"
      using get_string_length [OF i1(2)] Suc.IH [OF i1(1) more]
      by (intro safe_bind [OF decode_table_safe]) auto
  qed
qed

text \<open>No suffix of the input starts with the encoding of the largest 32-bit number.\<close>

definition no_endless_count :: "bytes \<Rightarrow> bool" where
  "no_endless_count buf \<longleftrightarrow>
     list_all (\<lambda>i. case dec_u30 (drop i buf) of Some (n, _) \<Rightarrow> n \<noteq> - 1 | None \<Rightarrow> True) [0..<Suc (length buf)]"

lemma decode_table_section_safe:
  assumes i: "reading_from i0 (ds_input ds)"
    and ne: "\<And>n r. dec_u30 (unread (ds_input ds)) = Some (n, r) \<Longrightarrow> n \<noteq> - 1"
  shows "safe_res (\<lambda>_. True) (decode_table_section vk flag h ds)"
proof (cases "flag AND HAS_TABLE_MASK = 0")
  case True
  then show ?thesis by (simp add: decode_table_section_def safe_res_def)
next
  case False
  have "safe_res (\<lambda>_. True) (bind_res (get_or_fail ffi_stream_get_u30 ''decode failed.'' (ds_input ds))
      (\<lambda>(count, input). if count = - 1 then None
         else let (h', m) = create_tables (unat count) (ds_index ds) (h, ds_map ds)
              in bind_res (decode_tables vk m (unat count) (ds_index ds) input h')
                   (\<lambda>(input', h''). Some (Inr (ds\<lparr>ds_last_top := ds_index ds + 1,
                                                   ds_input := input', ds_map := m\<rparr>, h'')))))"
  proof (rule safe_bind [OF u30_source.get_or_fail_safe [OF i]], clarsimp simp: ne, goal_cases)
    case (1 count i1)
    let ?m = "dassign (ds_map ds) (ds_index ds) (map LTable [length h..<length h + unat count])"
    have "unat count < 2 ^ 32" using unsigned_less [of count, where ?'a = nat] by simp
    then have "\<exists>a. ?m (ds_index ds + 1 + word_of_nat j) = Some (LTable a)" if "j < unat count" for j
      using that by (subst dassign_nth_wrap) auto
    then have "safe_res (\<lambda>_. True) (decode_tables vk ?m (unat count) (ds_index ds) i1 (h @ replicate (unat count) []))"
      by (rule decode_tables_safe [OF 1(1)])
    then show ?case
      using ne 1(2) unfolding create_tables_dassign by (auto simp: safe_res_def bind_res_def split: option.splits sum.splits)
  qed
  with False show ?thesis by (simp add: decode_table_section_def)
qed

lemma unread_suffix:
  assumes "input_at i0 buf" and "ba_offset i0 = 0" and "reading_from i0 i"
  shows "\<exists>k\<le>length buf. unread i = drop k buf"
proof -
  have m: "i = i0\<lparr>ba_offset := ba_offset i\<rparr>" and wf: "ba_wf i"
    using assms(3) by (simp_all only: reading_from_def moved_def)
  obtain b where b: "ba_buffer i0 = Some b" "length b = ba_buflen i0" "ba_total i0 \<le> ba_buflen i0"
    using assms(1) by (auto simp: input_at_def elim: ba_wfE)
  have t: "ba_total i = ba_total i0" "ba_buffer i = ba_buffer i0"
    using m by (metis BYTEARRAY.select_convs(2) BYTEARRAY.surjective BYTEARRAY.update_convs(1),
        metis BYTEARRAY.select_convs(4) BYTEARRAY.surjective BYTEARRAY.update_convs(1))
  have o: "ba_offset i \<le> ba_total i0" using wf t by (auto elim: ba_wfE)
  have "buf = take (ba_total i0) b" using assms(1,2) b by (simp add: input_at_def unread_def)
  moreover have "unread i = drop (ba_offset i) (take (ba_total i0) b)"
    using t b by (simp add: unread_def drop_take)
  ultimately show ?thesis using o b by (intro exI [of _ "ba_offset i"]) simp
qed

lemma decode_sections_safe:
  assumes i: "reading_from i0 input" and ne: "\<And>i n r. reading_from i0 i \<Longrightarrow> dec_u30 (unread i) = Some (n, r) \<Longrightarrow> n \<noteq> - 1"
  shows "safe_res (\<lambda>_. True) (decode_sections symt h flag input)"
  unfolding decode_sections_def decode_numbers_def
proof (rule safe_bind [OF d64_source.decode_section_safe [where ?i0.0 = i0]], simp add: i)
  fix ds1 :: dec_state
  assume ds1: "reading_from i0 (ds_input ds1)"
  show "safe_res (\<lambda>_. True) (bind_res (decode_u30s flag ds1) (\<lambda>ds2.
         bind_res (decode_strings flag ds2) (\<lambda>ds3.
           bind_res (decode_table_section (sym_vk_of symt) flag h ds3) (\<lambda>(ds4, h').
             Some (Inr (h', case sym_vk_of symt (ds_last_top ds4) of
                              Some v \<Rightarrow> v
                            | None \<Rightarrow> (case ds_map ds4 (ds_last_top ds4) of
                                         Some v \<Rightarrow> v | None \<Rightarrow> LNil)))))))"
    unfolding decode_u30s_def
  proof (rule safe_bind [OF u30_source.decode_section_safe [OF ds1]])
    fix ds2 :: dec_state
    assume ds2: "reading_from i0 (ds_input ds2)"
    show "safe_res (\<lambda>_. True) (bind_res (decode_strings flag ds2) (\<lambda>ds3.
           bind_res (decode_table_section (sym_vk_of symt) flag h ds3) (\<lambda>(ds4, h').
             Some (Inr (h', case sym_vk_of symt (ds_last_top ds4) of
                              Some v \<Rightarrow> v
                            | None \<Rightarrow> (case ds_map ds4 (ds_last_top ds4) of
                                         Some v \<Rightarrow> v | None \<Rightarrow> LNil))))))"
      unfolding decode_strings_def
    proof (rule safe_bind [OF string_source.decode_section_safe [OF ds2]])
      fix ds3 :: dec_state
      assume ds3: "reading_from i0 (ds_input ds3)"
      show "safe_res (\<lambda>_. True) (bind_res (decode_table_section (sym_vk_of symt) flag h ds3) (\<lambda>(ds4, h').
             Some (Inr (h', case sym_vk_of symt (ds_last_top ds4) of
                              Some v \<Rightarrow> v
                            | None \<Rightarrow> (case ds_map ds4 (ds_last_top ds4) of
                                         Some v \<Rightarrow> v | None \<Rightarrow> LNil)))))"
        by (rule safe_bind [OF decode_table_section_safe [OF ds3 ne [OF ds3]]]) (auto simp: safe_res_def)
    qed
  qed
qed

section \<open>Properties\<close>

text \<open>
  (C13) The decoder is safe on every input: whatever bytes it is given, it reads only inside them, its
  loops end, and it returns a value, a nil with a message, or a Lua error, as long as no 32-bit count in
  the input is the largest one.
\<close>

theorem objectbuf_decode_safe:
  assumes len: "length buf < 2 ^ 32" and ne: "no_endless_count buf"
  shows "\<exists>result. luafan_objectbuf_decode ba0 h buf symt = Some result"
proof -
  let ?i = "snd (bytearray_wrap_buffer ba0 buf (word_of_nat (length buf)))"
  have at: "input_at ?i buf" using len by (rule wrap_input)
  have zero: "ba_offset ?i = 0" by (simp add: bytearray_wrap_buffer_def)
  have ri: "reading_from ?i ?i" using at by (simp add: input_at_def reading_from_refl)
  have last: "n \<noteq> - 1" if r: "reading_from ?i i" "dec_u30 (unread i) = Some (n, r)" for i n r
  proof -
    obtain k where "k \<le> length buf" "unread i = drop k buf" using unread_suffix [OF at zero r(1)] by blast
    moreover from this have "k \<in> set [0..<Suc (length buf)]" by auto
    ultimately show ?thesis using ne r(2) unfolding no_endless_count_def list_all_iff by fastforce
  qed
  obtain v i1 where r8: "bytearray_read8 ?i = Some (v, i1)" "moved ?i i1"
    using read8_source [of ?i] at by (auto simp: input_at_def source_result_def)
  have "safe_res (\<lambda>_. True) (decode_sections symt h f i1)" for f
    using reading_from_trans [OF ri r8(2)] last by (rule decode_sections_safe)
  then have "\<exists>res. decode_sections symt h f i1 = Some res" for f
    using safe_res_def by (metis option.case(1) option.exhaust)
  then show ?thesis
    using r8(1) by (auto simp: luafan_objectbuf_decode_def Let_def split: option.splits)
qed

theorem objectbuf_decode_safe_witness:
  "\<exists>result. luafan_objectbuf_decode demo_ba [] [0x28, 1, 2] None = Some result"
proof -
  have "no_endless_count [0x28, 1, 2]" by (simp add: no_endless_count_def dec_u30_def)
  then show ?thesis using objectbuf_decode_safe [of "[0x28, 1, 2]" demo_ba "[]" None] by simp
qed

text \<open>
  Six bytes keep the decoder busy for ever: a table section whose count is the largest 32-bit
  number makes the loop that creates the tables count past it, since its 32-bit counter never exceeds it.
\<close>

lemma objectbuf_decode_endless:
  "luafan_objectbuf_decode ba0 h [0x08, 0xff, 0xff, 0xff, 0xff, 0x0f] symt = None"
proof -
  let ?buf = "[0x08, 0xff, 0xff, 0xff, 0xff, 0x0f] :: bytes"
  let ?i = "snd (bytearray_wrap_buffer ba0 ?buf (word_of_nat (length ?buf)))"
  have at: "input_at ?i ?buf" by (rule wrap_input) simp
  then obtain i1 where i1: "bytearray_read8 ?i = Some (Some 8, i1)" "input_at i1 [0xff, 0xff, 0xff, 0xff, 0x0f]"
    using read8_source [of ?i] moved_wf moved_reading by (auto simp: input_at_def source_result_def)
  have "dec_u30 [0xff, 0xff, 0xff, 0xff, 0x0f] = Some (- 1, [])" by (simp add: dec_u30_def)
  then obtain i2 where "ffi_stream_get_u30 i1 = Some (Some (- 1), i2)"
    using i1(2) u30_source.get_dec [of i1] by (auto simp: input_at_def source_result_def)
  then show ?thesis
    using i1(1)
    by (simp add: luafan_objectbuf_decode_def Let_def decode_sections_def decode_numbers_def decode_u30s_def
        decode_strings_def decode_section_def HAS_NUMBER_MASK_def HAS_U30_MASK_def HAS_STRING_MASK_def
        HAS_TABLE_MASK_def decode_table_section_def get_or_fail_def bind_res_def)
qed

end
