(* ===== verification/Json.thy ===== *)
theory Json
  imports C_Numbers
begin

text \<open>
  The JSON module of \<open>src/json.c\<close>: the growable output buffer \<open>strbuf_t\<close>, the encoder, the recursive
  descent parser and the helper functions. A Lua table carries its entries and which of the two marker
  metatables it has. The length operator \<open>lua_rawlen\<close> is Lua's own choice among the borders of a table
  and a parameter, \<open>rl\<close>. The outer \<open>None\<close> of a result is undefined behaviour or an exhausted recursion
  bound; errors raised with \<open>lua_error\<close> are values. Of the messages, the Lua source location and the quoted
  excerpt of the input are not represented. Tables have fewer than \<open>2 ^ 31\<close> entries, so that the \<open>int\<close>
  counters of the source do not overflow.
\<close>

section \<open>Tables and errors\<close>

datatype jmt = NoMT | ArrayMT | ObjectMT | OtherMT

record jtable =
  jt_entries :: ltable
  jt_mt :: jmt

type_synonym jheap = "jtable list"

datatype json_err =
    OutOfMemory
  | NumberValue string
  | NumberFormat
  | CircularReference
  | AmbiguousEmptyTable
  | MixedKeys
  | SparseArray
  | UnexpectedType lval
  | DecodeError string nat nat
  | BadArgument

type_synonym 'a jres = "(json_err + 'a) option"

text \<open>The null sentinel is one particular userdata.\<close>

definition json_null :: lval where
  "json_null = LUser 0"

definition jtab :: "jheap \<Rightarrow> nat \<Rightarrow> jtable" where
  "jtab h a = (if a < length h then h ! a else \<lparr>jt_entries = [], jt_mt = NoMT\<rparr>)"

definition mt_is_array :: "jtable \<Rightarrow> bool" where
  "mt_is_array t = (jt_mt t = ArrayMT)"

definition mt_is_object :: "jtable \<Rightarrow> bool" where
  "mt_is_object t = (jt_mt t = ObjectMT)"

definition table_is_empty :: "jtable \<Rightarrow> bool" where
  "table_is_empty t = (jt_entries t = [])"

section \<open>The output buffer\<close>

record strbuf =
  sb_data :: "bytes option"
  sb_len :: nat
  sb_cap :: nat

definition strbuf_init :: "allocator \<Rightarrow> strbuf option" where
  "strbuf_init al =
     (case malloc al 256 of
        None \<Rightarrow> Some \<lparr>sb_data = None, sb_len = 0, sb_cap = 256\<rparr>
      | Some d \<Rightarrow>
          do { d' \<leftarrow> store_at (Some d) 0 [0];
               Some \<lparr>sb_data = Some d', sb_len = 0, sb_cap = 256\<rparr> })"

definition strbuf_free :: "strbuf \<Rightarrow> strbuf" where
  "strbuf_free b = \<lparr>sb_data = None, sb_len = 0, sb_cap = 0\<rparr>"

text \<open>
  The loop that doubles the capacity; \<open>None\<close> is the early return. The capacity it starts from is never
  0, which is why the loop ends.
\<close>

function grow_cap :: "nat \<Rightarrow> nat \<Rightarrow> nat option" where
  "grow_cap needed ncap =
     (if needed \<le> ncap then Some ncap
      else if (2 ^ 64 - 1) div 2 < ncap \<or> ncap = 0 then None
      else grow_cap needed (ncap * 2))"
  by pat_completeness auto
termination
  by (relation "measure (\<lambda>(needed, ncap). needed - ncap)") auto

declare grow_cap.simps [simp del]

definition strbuf_reserve :: "allocator \<Rightarrow> strbuf \<Rightarrow> nat \<Rightarrow> bool \<times> strbuf" where
  "strbuf_reserve al b need =
     (let needed = size_add (size_add (sb_len b) need) 1
      in if needed \<le> sb_cap b then (True, b)
         else case grow_cap needed (if sb_cap b \<noteq> 0 then sb_cap b else 256) of
                None \<Rightarrow> (False, b)
              | Some ncap \<Rightarrow>
                  (case realloc al (sb_data b) ncap of
                     None \<Rightarrow> (False, b)
                   | Some p \<Rightarrow> (True, b\<lparr>sb_data := Some p, sb_cap := ncap\<rparr>)))"

definition strbuf_append :: "allocator \<Rightarrow> strbuf \<Rightarrow> bytes \<Rightarrow> (bool \<times> strbuf) option" where
  "strbuf_append al b s =
     (if sb_data b = None then Some (False, b)
      else case strbuf_reserve al b (length s) of
             (False, b') \<Rightarrow> Some (False, b')
           | (True, b') \<Rightarrow>
               do { d \<leftarrow> store_at (sb_data b') (sb_len b') s;
                    d' \<leftarrow> store_at (Some d) (size_add (sb_len b') (length s)) [0];
                    Some (True, b'\<lparr>sb_data := Some d', sb_len := size_add (sb_len b') (length s)\<rparr>) })"

definition strbuf_append_char :: "allocator \<Rightarrow> strbuf \<Rightarrow> u8 \<Rightarrow> (bool \<times> strbuf) option" where
  "strbuf_append_char al b c = strbuf_append al b [c]"

definition strbuf_append_str :: "allocator \<Rightarrow> strbuf \<Rightarrow> bytes \<Rightarrow> (bool \<times> strbuf) option" where
  "strbuf_append_str al b s = strbuf_append al b s"

text \<open>A failed append frees the buffer and raises the error.\<close>

definition or_oom :: "(bool \<times> strbuf) option \<Rightarrow> strbuf jres" where
  "or_oom r =
     (case r of None \<Rightarrow> None
      | Some (ok, b) \<Rightarrow> Some (if ok then Inr b else Inl OutOfMemory))"

section \<open>Encoding\<close>

definition asc :: "string \<Rightarrow> bytes" where
  "asc s = map of_char s"

definition hex_digit :: "nat \<Rightarrow> u8" where
  "hex_digit n = word_of_nat (if n < 10 then 0x30 + n else 0x57 + n)"

definition escape :: "u8 \<Rightarrow> bytes option" where
  "escape c =
     (if c = 0x5c then Some [0x5c, 0x5c]
      else if c = 0x22 then Some [0x5c, 0x22]
      else if c = 0x08 then Some [0x5c, 0x62]
      else if c = 0x0c then Some [0x5c, 0x66]
      else if c = 0x0a then Some [0x5c, 0x6e]
      else if c = 0x0d then Some [0x5c, 0x72]
      else if c = 0x09 then Some [0x5c, 0x74]
      else if c < 0x20
      then Some [0x5c, 0x75, 0x30, 0x30, hex_digit (unat c div 16), hex_digit (unat c mod 16)]
      else None)"

primrec encode_chars :: "allocator \<Rightarrow> bytes \<Rightarrow> strbuf \<Rightarrow> strbuf jres" where
  "encode_chars al [] b = Some (Inr b)"
| "encode_chars al (c # cs) b =
     bind_res (or_oom (case escape c of
                         Some esc \<Rightarrow> strbuf_append_str al b esc
                       | None \<Rightarrow> strbuf_append_char al b c))
       (encode_chars al cs)"

definition encode_string :: "allocator \<Rightarrow> bytes \<Rightarrow> strbuf \<Rightarrow> strbuf jres" where
  "encode_string al s b =
     bind_res (or_oom (strbuf_append_char al b 0x22)) (\<lambda>b1.
       bind_res (encode_chars al s b1) (\<lambda>b2.
         or_oom (strbuf_append_char al b2 0x22)))"

definition encode_number :: "allocator \<Rightarrow> u64 \<Rightarrow> strbuf \<Rightarrow> strbuf jres" where
  "encode_number al d b =
     (if dbl_is_nan d then Some (Inl (NumberValue ''nan''))
      else if dbl_is_inf d then Some (Inl (NumberValue (if dbl_negative d then ''-inf'' else ''inf'')))
      else let text = fmt_g14 (dbl_canon d)
           in if 64 \<le> length text then Some (Inl NumberFormat)
              else or_oom (strbuf_append al b text))"

text \<open>The loops over the elements of an array and over the entries of an object.\<close>

fun encode_elems ::
  "allocator \<Rightarrow> (strbuf \<Rightarrow> lval \<Rightarrow> strbuf jres) \<Rightarrow> ltable \<Rightarrow> nat \<Rightarrow> nat \<Rightarrow> strbuf \<Rightarrow> strbuf jres" where
  "encode_elems al enc t 0 i b = Some (Inr b)"
| "encode_elems al enc t (Suc k) i b =
     bind_res (if 1 < i then or_oom (strbuf_append_char al b 0x2c) else Some (Inr b)) (\<lambda>b1.
       bind_res (enc b1 (case rawgeti t (int i) of Some v \<Rightarrow> v | None \<Rightarrow> LNil)) (\<lambda>b2.
         encode_elems al enc t k (i + 1) b2))"

fun encode_fields ::
  "allocator \<Rightarrow> (strbuf \<Rightarrow> lval \<Rightarrow> strbuf jres) \<Rightarrow> ltable \<Rightarrow> bool \<Rightarrow> strbuf \<Rightarrow> strbuf jres" where
  "encode_fields al enc [] first b = Some (Inr b)"
| "encode_fields al enc ((k, v) # t) first b =
     (case k of
        LStr s \<Rightarrow>
          bind_res (if \<not> first then or_oom (strbuf_append_char al b 0x2c) else Some (Inr b)) (\<lambda>b1.
            bind_res (encode_string al s b1) (\<lambda>b2.
              bind_res (or_oom (strbuf_append_char al b2 0x3a)) (\<lambda>b3.
                bind_res (enc b3 v) (\<lambda>b4.
                  encode_fields al enc t False b4))))
      | _ \<Rightarrow> Some (Inl MixedKeys))"

definition is_number :: "lval \<Rightarrow> bool" where
  "is_number k = (case k of LNum _ \<Rightarrow> True | _ \<Rightarrow> False)"

definition has_index_1 :: "jtable \<Rightarrow> bool" where
  "has_index_1 t = (rawgeti (jt_entries t) 1 \<noteq> None)"

definition encode_table ::
  "allocator \<Rightarrow> (ltable \<Rightarrow> nat) \<Rightarrow> (nat list \<Rightarrow> strbuf \<Rightarrow> lval \<Rightarrow> strbuf jres) \<Rightarrow> jheap \<Rightarrow> nat list
     \<Rightarrow> nat \<Rightarrow> strbuf \<Rightarrow> strbuf jres" where
  "encode_table al rl enc h stack a b =
     (let t = jtab h a
      in if a \<in> set stack then Some (Inl CircularReference)
         else if has_index_1 t \<or> mt_is_array t \<or> \<not> mt_is_object t \<and> table_is_empty t
         then if \<not> mt_is_array t \<and> \<not> mt_is_object t \<and> table_is_empty t
              then Some (Inl AmbiguousEmptyTable)
              else if \<not> list_all (\<lambda>(k, v). is_number k) (jt_entries t) then Some (Inl MixedKeys)
              else if length (jt_entries t) \<noteq> rl (jt_entries t) then Some (Inl SparseArray)
              else bind_res (or_oom (strbuf_append_char al b 0x5b)) (\<lambda>b1.
                     bind_res (encode_elems al (enc (a # stack)) (jt_entries t) (rl (jt_entries t)) 1 b1) (\<lambda>b2.
                       or_oom (strbuf_append_char al b2 0x5d)))
         else bind_res (or_oom (strbuf_append_char al b 0x7b)) (\<lambda>b1.
                bind_res (encode_fields al (enc (a # stack)) (jt_entries t) True b1) (\<lambda>b2.
                  or_oom (strbuf_append_char al b2 0x7d))))"

text \<open>
  The first numeral bounds the recursion; one more than the number of tables is enough, because the
  tables on the stack are different (\<open>encode_value_enough\<close>).
\<close>

primrec encode_value ::
  "allocator \<Rightarrow> (ltable \<Rightarrow> nat) \<Rightarrow> jheap \<Rightarrow> nat \<Rightarrow> nat list \<Rightarrow> strbuf \<Rightarrow> lval \<Rightarrow> strbuf jres" where
  "encode_value al rl h 0 stack b v = None"
| "encode_value al rl h (Suc n) stack b v =
     (if v = json_null then or_oom (strbuf_append_str al b (asc ''null''))
      else case v of
             LNil \<Rightarrow> or_oom (strbuf_append_str al b (asc ''null''))
           | LBool x \<Rightarrow> or_oom (strbuf_append_str al b (if x then asc ''true'' else asc ''false''))
           | LNum d \<Rightarrow> encode_number al d b
           | LStr s \<Rightarrow> encode_string al s b
           | LTable a \<Rightarrow> encode_table al rl (encode_value al rl h n) h stack a b
           | _ \<Rightarrow> Some (Inl (UnexpectedType v)))"

definition json_encode :: "allocator \<Rightarrow> (ltable \<Rightarrow> nat) \<Rightarrow> jheap \<Rightarrow> lval \<Rightarrow> bytes jres" where
  "json_encode al rl h v =
     (case strbuf_init al of
        None \<Rightarrow> None
      | Some buf \<Rightarrow>
          (if sb_data buf = None then Some (Inl OutOfMemory)
           else bind_res (encode_value al rl h (Suc (length h)) [] buf v)
                  (\<lambda>b. map_option Inr (load_at (sb_data b) 0 (sb_len b)))))"

section \<open>Decoding\<close>

text \<open>The line and column of an offset.\<close>

definition error_at :: "bytes \<Rightarrow> nat \<Rightarrow> string \<Rightarrow> json_err" where
  "error_at str at msg =
     (let pos = foldl (\<lambda>(line, col) c. if c = (0x0a :: u8) then (line + 1, 1) else (line, col + 1))
                  (1, 1) (take at str)
      in DecodeError msg (fst pos) (snd pos))"

definition is_space :: "u8 \<Rightarrow> bool" where
  "is_space c \<longleftrightarrow> c = 0x20 \<or> c = 0x09 \<or> c = 0x0d \<or> c = 0x0a"

definition is_delim :: "u8 \<Rightarrow> bool" where
  "is_delim c \<longleftrightarrow> is_space c \<or> c = 0x5d \<or> c = 0x7d \<or> c = 0x2c"

function next_char :: "bytes \<Rightarrow> nat \<Rightarrow> (u8 \<Rightarrow> bool) \<Rightarrow> bool \<Rightarrow> nat" where
  "next_char str i pred negate =
     (if i < length str
      then let m = pred (str ! i)
           in if (if negate then \<not> m else m) then i else next_char str (i + 1) pred negate
      else length str)"
  by pat_completeness auto
termination
  by (relation "measure (\<lambda>(str, i, pred, negate). length str - i)") auto

declare next_char.simps [simp del]

definition codepoint_to_utf8 :: "u32 \<Rightarrow> bytes option" where
  "codepoint_to_utf8 n =
     (if n \<le> 0x7f then Some [ucast n]
      else if n \<le> 0x7ff
      then Some [ucast (0xc0 OR drop_bit 6 n), ucast (0x80 OR (n AND 0x3f))]
      else if n \<le> 0xffff
      then Some [ucast (0xe0 OR drop_bit 12 n), ucast (0x80 OR (drop_bit 6 n AND 0x3f)),
                 ucast (0x80 OR (n AND 0x3f))]
      else if n \<le> 0x10ffff
      then Some [ucast (0xf0 OR drop_bit 18 n), ucast (0x80 OR (drop_bit 12 n AND 0x3f)),
                 ucast (0x80 OR (drop_bit 6 n AND 0x3f)), ucast (0x80 OR (n AND 0x3f))]
      else None)"

definition is_hex :: "u8 \<Rightarrow> bool" where
  "is_hex c \<longleftrightarrow> 0x30 \<le> c \<and> c \<le> 0x39 \<or> 0x61 \<le> c \<and> c \<le> 0x66 \<or> 0x41 \<le> c \<and> c \<le> 0x46"

definition hex_value :: "u8 \<Rightarrow> u32" where
  "hex_value c =
     (if 0x30 \<le> c \<and> c \<le> 0x39 then ucast (c - 0x30)
      else if 0x61 \<le> c \<and> c \<le> 0x66 then ucast (c - 0x61 + 10)
      else if 0x41 \<le> c \<and> c \<le> 0x46 then ucast (c - 0x41 + 10) else 0)"

definition hex4 :: "bytes \<Rightarrow> u32" where
  "hex4 s = foldl (\<lambda>n c. push_bit 4 n OR hex_value c) 0 (take 4 s)"

definition is_high_surrogate_hex :: "bytes \<Rightarrow> bool" where
  "is_high_surrogate_hex s \<longleftrightarrow>
     list_all is_hex (take 4 s) \<and> (s ! 0 = 0x64 \<or> s ! 0 = 0x44)
     \<and> (0x38 \<le> s ! 1 \<and> s ! 1 \<le> 0x39 \<or> 0x61 \<le> s ! 1 \<and> s ! 1 \<le> 0x62 \<or> 0x41 \<le> s ! 1 \<and> s ! 1 \<le> 0x42)"

definition simple_escape :: "u8 \<Rightarrow> u8 option" where
  "simple_escape c =
     (if c = 0x5c then Some 0x5c else if c = 0x2f then Some 0x2f else if c = 0x22 then Some 0x22
      else if c = 0x62 then Some 0x08 else if c = 0x66 then Some 0x0c else if c = 0x6e then Some 0x0a
      else if c = 0x72 then Some 0x0d else if c = 0x74 then Some 0x09 else None)"

text \<open>The code point of a \<open>\u\<close> escape whose digits start at \<open>hs\<close>, and how many characters it takes.\<close>

definition unicode_escape :: "bytes \<Rightarrow> nat \<Rightarrow> (u32 \<times> nat) option" where
  "unicode_escape str hs =
     (let hex = drop hs str
      in if is_high_surrogate_hex hex \<and> hs + 4 + 6 \<le> length str
            \<and> str ! (hs + 4) = 0x5c \<and> str ! (hs + 5) = 0x75
            \<and> is_hex (str ! (hs + 6)) \<and> is_hex (str ! (hs + 7))
            \<and> is_hex (str ! (hs + 8)) \<and> is_hex (str ! (hs + 9))
         then Some ((hex4 hex - 0xd800) * 0x400 + (hex4 (drop (hs + 6) str) - 0xdc00) + 0x10000, 10)
         else if list_all is_hex (take 4 hex) then Some (hex4 hex, 4)
         else None)"

text \<open>
  The loop of the string parser at offset \<open>i\<close>: \<open>k\<close> is the start of the span that is not yet in the
  result \<open>acc\<close>, \<open>idx\<close> the offset of the opening quote.
\<close>

definition span :: "bytes \<Rightarrow> nat \<Rightarrow> nat \<Rightarrow> bytes" where
  "span str k i = take (i - k) (drop k str)"

function parse_chars :: "bytes \<Rightarrow> nat \<Rightarrow> nat \<Rightarrow> nat \<Rightarrow> bytes \<Rightarrow> json_err + bytes \<times> nat" where
  "parse_chars str idx i k acc =
     (if i < length str
      then let x = str ! i
           in if x < 32 then Inl (error_at str i ''control character in string'')
              else if x = 0x5c
              then let acc' = acc @ span str k i
                   in if length str \<le> i + 1
                      then Inl (error_at str idx ''expected closing quote for string'')
                      else if str ! (i + 1) = 0x75
                      then if length str < i + 2 + 4
                           then Inl (error_at str i ''invalid unicode escape in string'')
                           else case unicode_escape str (i + 2) of
                                  None \<Rightarrow> Inl (error_at str i ''invalid unicode escape in string'')
                                | Some (cp, hex_len) \<Rightarrow>
                                    (case codepoint_to_utf8 cp of
                                       None \<Rightarrow> Inl (error_at str i ''invalid unicode codepoint'')
                                     | Some utf8 \<Rightarrow>
                                         parse_chars str idx (i + 2 + hex_len) (i + 2 + hex_len) (acc' @ utf8))
                      else case simple_escape (str ! (i + 1)) of
                             None \<Rightarrow> Inl (error_at str i ''invalid escape char in string'')
                           | Some c \<Rightarrow> parse_chars str idx (i + 2) (i + 2) (acc' @ [c])
              else if x = 0x22 then Inr (acc @ span str k i, i + 1)
              else parse_chars str idx (i + 1) k acc
      else Inl (error_at str idx ''expected closing quote for string''))"
  by pat_completeness auto
termination
  by (relation "measure (\<lambda>(str, idx, i, k, acc). length str - i)") auto

declare parse_chars.simps [simp del]

definition parse_string :: "bytes \<Rightarrow> nat \<Rightarrow> json_err + bytes \<times> nat" where
  "parse_string str idx =
     (if length str \<le> idx \<or> str ! idx \<noteq> 0x22 then Inl (error_at str idx ''expected string'')
      else parse_chars str idx (idx + 1) (idx + 1) [])"

definition parse_number :: "bytes \<Rightarrow> nat \<Rightarrow> json_err + u64 \<times> nat" where
  "parse_number str i =
     (let x = next_char str i is_delim False;
          nlen = x - i
      in if nlen = 0 \<or> 128 \<le> nlen then Inl (error_at str i ''invalid number'')
         else let (n, used) = strtod (takeWhile (\<lambda>c. c \<noteq> 0) (span str i x))
              in if used \<noteq> nlen then Inl (error_at str i ''invalid number'')
                 else Inr (dbl_canon n, x))"

text \<open>\<open>nul\<close> is the field \<open>null\<close> of the module: nil or the sentinel.\<close>

definition parse_literal :: "lval \<Rightarrow> bytes \<Rightarrow> nat \<Rightarrow> json_err + lval \<times> nat" where
  "parse_literal nul str i =
     (let x = next_char str i is_delim False;
          w = span str i x
      in if w = asc ''true'' then Inr (LBool True, x)
         else if w = asc ''false'' then Inr (LBool False, x)
         else if w = asc ''null'' then Inr (nul, x)
         else Inl (error_at str i ''invalid literal''))"

text \<open>Storing nil at a key removes the entry.\<close>

definition jset :: "ltable \<Rightarrow> lval \<Rightarrow> lval \<Rightarrow> ltable" where
  "jset t k v = (if v = LNil then filter (\<lambda>(k', _). k' \<noteq> key_of k) t else rawset t k v)"

definition jput :: "jheap \<Rightarrow> nat \<Rightarrow> lval \<Rightarrow> lval \<Rightarrow> jheap" where
  "jput h a k v = h[a := (jtab h a)\<lparr>jt_entries := jset (jt_entries (jtab h a)) k v\<rparr>]"

text \<open>
  The mutually recursive functions. What is left to do at an offset is a value, or the rest of the array
  or the object at address \<open>a\<close>, where \<open>n\<close> is the index of the next element; the recursive calls are an
  argument of each function.
\<close>

datatype parse_task = PValue | PArray nat nat | PObject nat

type_synonym parser = "parse_task \<Rightarrow> jheap \<Rightarrow> nat \<Rightarrow> (jheap \<times> lval \<times> nat) jres"

definition parse_array :: "parser \<Rightarrow> bytes \<Rightarrow> nat \<Rightarrow> nat \<Rightarrow> jheap \<Rightarrow> nat \<Rightarrow> (jheap \<times> lval \<times> nat) jres" where
  "parse_array rec str a n h i =
     (let i1 = next_char str i is_space True
      in if i1 < length str \<and> str ! i1 = 0x5d then Some (Inr (h, LTable a, i1 + 1))
         else bind_res (rec PValue h i1) (\<lambda>(h1, v, i2).
                let h2 = jput h1 a (LNum (dbl_of_nat n)) v;
                    i3 = next_char str i2 is_space True
                in if length str \<le> i3 then Some (Inl (error_at str i3 ''expected ']' or ',' ''))
                   else if str ! i3 = 0x5d then Some (Inr (h2, LTable a, i3 + 1))
                   else if str ! i3 \<noteq> 0x2c then Some (Inl (error_at str (i3 + 1) ''expected ']' or ',' ''))
                   else rec (PArray a (n + 1)) h2 (i3 + 1)))"

definition parse_object :: "parser \<Rightarrow> bytes \<Rightarrow> nat \<Rightarrow> jheap \<Rightarrow> nat \<Rightarrow> (jheap \<times> lval \<times> nat) jres" where
  "parse_object rec str a h i =
     (let i1 = next_char str i is_space True
      in if i1 < length str \<and> str ! i1 = 0x7d then Some (Inr (h, LTable a, i1 + 1))
         else if length str \<le> i1 \<or> str ! i1 \<noteq> 0x22
         then Some (Inl (error_at str i1 ''expected string for key''))
         else bind_res (Some (parse_string str i1)) (\<lambda>(key, i2).
                let i3 = next_char str i2 is_space True
                in if length str \<le> i3 \<or> str ! i3 \<noteq> 0x3a
                   then Some (Inl (error_at str i3 ''expected ':' after key''))
                   else bind_res (rec PValue h (next_char str (i3 + 1) is_space True))
                          (\<lambda>(h1, v, i4).
                             let h2 = jput h1 a (LStr key) v;
                                 i5 = next_char str i4 is_space True
                             in if length str \<le> i5
                                then Some (Inl (error_at str i5 ''expected '}' or ',' ''))
                                else if str ! i5 = 0x7d then Some (Inr (h2, LTable a, i5 + 1))
                                else if str ! i5 \<noteq> 0x2c
                                then Some (Inl (error_at str (i5 + 1) ''expected '}' or ',' ''))
                                else rec (PObject a) h2 (i5 + 1))))"

definition parse_value :: "parser \<Rightarrow> lval \<Rightarrow> bytes \<Rightarrow> jheap \<Rightarrow> nat \<Rightarrow> (jheap \<times> lval \<times> nat) jres" where
  "parse_value rec nul str h i =
     (if length str \<le> i then Some (Inl (error_at str i ''unexpected character''))
      else let c = str ! i
           in if c = 0x22
              then bind_res (Some (parse_string str i)) (\<lambda>(s, j). Some (Inr (h, LStr s, j)))
              else if 0x30 \<le> c \<and> c \<le> 0x39 \<or> c = 0x2d
              then bind_res (Some (parse_number str i)) (\<lambda>(d, j). Some (Inr (h, LNum d, j)))
              else if c = 0x74 \<or> c = 0x66 \<or> c = 0x6e
              then bind_res (Some (parse_literal nul str i)) (\<lambda>(v, j). Some (Inr (h, v, j)))
              else if c = 0x5b
              then rec (PArray (length h) 1) (h @ [\<lparr>jt_entries = [], jt_mt = ArrayMT\<rparr>]) (i + 1)
              else if c = 0x7b
              then rec (PObject (length h)) (h @ [\<lparr>jt_entries = [], jt_mt = ObjectMT\<rparr>]) (i + 1)
              else Some (Inl (error_at str i ''unexpected character'')))"

text \<open>
  The recursion, with a bound on its depth. The decoder uses twice the length of the input and two more,
  which is always enough (\<open>parse_enough\<close>).
\<close>

primrec parse :: "nat \<Rightarrow> lval \<Rightarrow> bytes \<Rightarrow> parser" where
  "parse 0 nul str task h i = None"
| "parse (Suc f) nul str task h i =
     (case task of
        PValue \<Rightarrow> parse_value (parse f nul str) nul str h i
      | PArray a n \<Rightarrow> parse_array (parse f nul str) str a n h i
      | PObject a \<Rightarrow> parse_object (parse f nul str) str a h i)"

definition json_decode :: "lval \<Rightarrow> jheap \<Rightarrow> lval \<Rightarrow> (jheap \<times> lval) jres" where
  "json_decode nul h arg =
     (case arg of
        LStr str \<Rightarrow>
          bind_res (parse (2 * length str + 2) nul str PValue h (next_char str 0 is_space True))
            (\<lambda>(h', v, i).
               let j = next_char str i is_space True
               in if j < length str then Some (Inl (error_at str j ''trailing garbage''))
                  else Some (Inr (h', v)))
      | _ \<Rightarrow> Some (Inl BadArgument))"

section \<open>Helpers\<close>

definition with_mt :: "jmt \<Rightarrow> jheap \<Rightarrow> lval \<Rightarrow> (jheap \<times> lval) jres" where
  "with_mt mt h v =
     (case v of
        LNil \<Rightarrow> Some (Inr (h @ [\<lparr>jt_entries = [], jt_mt = mt\<rparr>], LTable (length h)))
      | LTable a \<Rightarrow> Some (Inr (h[a := (jtab h a)\<lparr>jt_mt := mt\<rparr>], v))
      | _ \<Rightarrow> Some (Inl BadArgument))"

definition json_array :: "jheap \<Rightarrow> lval \<Rightarrow> (jheap \<times> lval) jres" where
  "json_array h v = with_mt ArrayMT h v"

definition json_object :: "jheap \<Rightarrow> lval \<Rightarrow> (jheap \<times> lval) jres" where
  "json_object h v = with_mt ObjectMT h v"

text \<open>The new value of the field \<open>null\<close>; every value but nil and false switches it on.\<close>

definition json_enable_null :: "lval \<Rightarrow> lval" where
  "json_enable_null v = (if v = LNil \<or> v = LBool False then LNil else json_null)"

definition json_is_present :: "lval \<Rightarrow> bool" where
  "json_is_present v = (if v = LNil then False else if v = json_null then False else True)"

definition json_is_nonempty_string :: "lval \<Rightarrow> bool" where
  "json_is_nonempty_string v = (case v of LStr s \<Rightarrow> 0 < length s | _ \<Rightarrow> False)"

end
