(* ===== verification/Json_Encode.thy ===== *)
theory Json_Encode
  imports Json
begin

text \<open>
  The JSON encoder. First the output buffer: an append extends the content by exactly its argument, keeps
  the terminating zero inside the block, or fails and leaves the buffer as it was. On top of it the encoder
  is total for every input, and for a value that represents an abstract JSON value it writes one of the
  texts of that value.
\<close>

section \<open>The output buffer\<close>

definition sb_ok :: "strbuf \<Rightarrow> bool" where
  "sb_ok b \<longleftrightarrow>
     (case sb_data b of None \<Rightarrow> False | Some d \<Rightarrow> length d = sb_cap b)
     \<and> sb_len b < sb_cap b \<and> (\<exists>k\<le>63. sb_cap b = 2 ^ k)"

definition sb_content :: "strbuf \<Rightarrow> bytes" where
  "sb_content b = (case sb_data b of None \<Rightarrow> [] | Some d \<Rightarrow> take (sb_len b) d)"

lemma sb_okE:
  assumes "sb_ok b"
  obtains d where "sb_data b = Some d" and "length d = sb_cap b" and "sb_len b < sb_cap b"
    and "\<exists>k\<le>63. sb_cap b = 2 ^ k" and "sb_content b = take (sb_len b) d"
  using assms by (auto simp: sb_ok_def sb_content_def split: option.splits)

lemma cap_bound: "\<exists>k\<le>63. c = 2 ^ k \<Longrightarrow> c \<le> (2 ^ 63 :: nat)"
  using power_increasing [of _ 63 "2::nat"] by auto

lemma sb_ok_len: "sb_ok b \<Longrightarrow> sb_len b < 2 ^ 63"
  using cap_bound by (auto simp: sb_ok_def dest: cap_bound intro: less_le_trans)

lemma grow_cap_spec:
  "grow_cap needed ncap = Some c \<Longrightarrow> \<exists>k\<le>63. ncap = 2 ^ k \<Longrightarrow> needed \<le> c \<and> ncap \<le> c \<and> (\<exists>k\<le>63. c = 2 ^ k)"
proof (induction needed ncap rule: grow_cap.induct)
  case (1 needed ncap)
  show ?case
  proof (cases "needed \<le> ncap")
    case True
    with 1 show ?thesis by (simp add: grow_cap.simps [of needed ncap])
  next
    case False
    with 1(2) have c: "\<not> ((2 ^ 64 - 1) div 2 < ncap \<or> ncap = 0)" "grow_cap needed (ncap * 2) = Some c"
      by (auto simp: grow_cap.simps [of needed ncap] split: if_splits)
    from 1(3) obtain k where k: "k \<le> 63" "ncap = 2 ^ k" by blast
    have "k \<noteq> 63"
    proof
      assume "k = 63"
      with k c(1) show False by simp
    qed
    with k have "Suc k \<le> 63" "ncap * 2 = 2 ^ Suc k" by simp_all
    then have "\<exists>k\<le>63. ncap * 2 = 2 ^ k" by blast
    with 1(1) [OF False c] show ?thesis by simp
  qed
qed

lemma grow_cap_Some:
  "needed \<le> 2 ^ 63 \<Longrightarrow> 0 < ncap \<Longrightarrow> \<exists>c. grow_cap needed ncap = Some c"
proof (induction needed ncap rule: grow_cap.induct)
  case (1 needed ncap)
  show ?case
  proof (cases "needed \<le> ncap")
    case True
    then show ?thesis by (simp add: grow_cap.simps [of needed ncap])
  next
    case False
    then have "\<not> ((2 ^ 64 - 1) div 2 < ncap \<or> ncap = 0)" using 1(2,3) by simp
    with 1(1) [OF False this] 1(2) False show ?thesis by (auto simp: grow_cap.simps [of needed ncap])
  qed
qed

text \<open>What an append does: all or nothing, and the result is again terminated by a zero byte.\<close>

definition sb_appended :: "strbuf \<Rightarrow> bytes \<Rightarrow> strbuf \<Rightarrow> bool" where
  "sb_appended b s b' \<longleftrightarrow>
     sb_ok b' \<and> sb_content b' = sb_content b @ s \<and> sb_len b' = sb_len b + length s
     \<and> (\<exists>d. sb_data b' = Some d \<and> d ! sb_len b' = 0)"

lemma reserve_ok:
  assumes ok: "sb_ok b" and len: "sb_len b + need + 1 < 2 ^ 64"
  shows "case strbuf_reserve al b need of
      (True, b') \<Rightarrow> sb_ok b' \<and> sb_content b' = sb_content b \<and> sb_len b' = sb_len b \<and> sb_len b + need + 1 \<le> sb_cap b'
    | (False, b') \<Rightarrow> b' = b"
proof -
  from ok obtain d where d: "sb_data b = Some d" "length d = sb_cap b" "sb_len b < sb_cap b"
      "\<exists>k\<le>63. sb_cap b = 2 ^ k" "sb_content b = take (sb_len b) d"
    by (rule sb_okE)
  have n: "size_add (size_add (sb_len b) need) 1 = sb_len b + need + 1"
    using len by simp
  show ?thesis
  proof (cases "sb_len b + need + 1 \<le> sb_cap b")
    case True
    with ok n show ?thesis by (simp add: strbuf_reserve_def)
  next
    case False
    show ?thesis
    proof (cases "grow_cap (sb_len b + need + 1) (sb_cap b)")
      case None
      with False n d show ?thesis by (simp add: strbuf_reserve_def)
    next
      case (Some c)
      have c: "sb_len b + need + 1 \<le> c" "sb_cap b \<le> c" "\<exists>k\<le>63. c = 2 ^ k"
        using grow_cap_spec [OF Some] d by auto
      show ?thesis
      proof (cases "realloc al (Some d) c")
        case None
        with False n d Some show ?thesis by (simp add: strbuf_reserve_def)
      next
        case (Some p)
        have "length p = c" using Some by (rule realloc_length)
        moreover have "take (sb_len b) p = take (sb_len b) d"
          using realloc_prefix [OF Some, of "sb_len b"] d c by simp
        ultimately show ?thesis
          using False n d \<open>grow_cap _ _ = Some c\<close> Some c
          by (simp add: strbuf_reserve_def sb_ok_def sb_content_def)
      qed
    qed
  qed
qed

lemma store_terminated:
  assumes "off + length s + 1 \<le> length d"
  shows "\<exists>d1 d2. store_at (Some d) off s = Some d1 \<and> store_at (Some d1) (off + length s) [0] = Some d2
     \<and> d2 = take off d @ s @ [0] @ drop (off + length s + 1) d"
proof -
  have "length (take off d) = off" using assms by simp
  then show ?thesis using assms by (simp add: store_at_def)
qed

lemma sb_appendedI:
  assumes "length d = sb_cap b1" and "take (sb_len b + length s) d = sb_content b @ s"
    and "d ! (sb_len b + length s) = 0" and "sb_len b + length s < sb_cap b1" and "\<exists>k\<le>63. sb_cap b1 = 2 ^ k"
  shows "sb_appended b s (b1\<lparr>sb_data := Some d, sb_len := sb_len b + length s\<rparr>)"
proof -
  let ?b = "b1\<lparr>sb_data := Some d, sb_len := sb_len b + length s\<rparr>"
  have "sb_content ?b = sb_content b @ s" using assms(2) by (simp add: sb_content_def [of ?b])
  with assms show ?thesis by (simp add: sb_appended_def sb_ok_def)
qed

lemma append_ok:
  assumes ok: "sb_ok b" and len: "sb_len b + length s + 1 < 2 ^ 64"
  shows "(\<exists>b'. strbuf_append al b s = Some (True, b') \<and> sb_appended b s b') \<or> strbuf_append al b s = Some (False, b)"
proof -
  obtain r b1 where r: "strbuf_reserve al b (length s) = (r, b1)" by fastforce
  have data: "sb_data b \<noteq> None" using ok by (auto elim: sb_okE)
  show ?thesis
  proof (cases r)
    case False
    with reserve_ok [OF ok len, of al] r data show ?thesis by (simp add: strbuf_append_def)
  next
    case True
    with reserve_ok [OF ok len, of al] r have b1: "sb_ok b1" "sb_content b1 = sb_content b" "sb_len b1 = sb_len b"
        "sb_len b + length s + 1 \<le> sb_cap b1"
      by simp_all
    from b1(1) obtain d where d: "sb_data b1 = Some d" "length d = sb_cap b1" "\<exists>k\<le>63. sb_cap b1 = 2 ^ k"
        "sb_content b1 = take (sb_len b1) d"
      by (rule sb_okE)
    have sz: "size_add (sb_len b1) (length s) = sb_len b1 + length s" using len b1(3) by simp
    obtain d1 d2 where st: "store_at (sb_data b1) (sb_len b1) s = Some d1"
        "store_at (Some d1) (sb_len b1 + length s) [0] = Some d2"
        "d2 = take (sb_len b1) d @ s @ [0] @ drop (sb_len b1 + length s + 1) d"
      using store_terminated [of "sb_len b1" s d] d b1 by auto
    let ?b2 = "b1\<lparr>sb_data := Some d2, sb_len := sb_len b + length s\<rparr>"
    have l: "length (take (sb_len b1) d) = sb_len b" using d b1 by simp
    have "length d2 = sb_cap b1" using d b1 st(3) by simp
    moreover have "take (sb_len b + length s) d2 = sb_content b @ s"
      using d b1 l by (simp add: st(3))
    moreover have "d2 ! (sb_len b + length s) = 0" using l by (simp add: st(3) nth_append)
    ultimately have "sb_appended b s ?b2" using d(3) b1(4) by (intro sb_appendedI) simp_all
    moreover have "strbuf_append al b s = Some (True, ?b2)"
      using r True data st sz b1(3) by (simp add: strbuf_append_def)
    ultimately show ?thesis by blast
  qed
qed

lemma append_roomy:
  assumes room: "roomy al" and ok: "sb_ok b" and len: "sb_len b + length s + 1 \<le> 2 ^ 63"
  shows "\<exists>b'. strbuf_append al b s = Some (True, b') \<and> sb_appended b s b'"
proof -
  from ok obtain d where d: "sb_data b = Some d" "sb_len b < sb_cap b" by (rule sb_okE)
  obtain c where "grow_cap (sb_len b + length s + 1) (sb_cap b) = Some c"
    using grow_cap_Some [OF len, of "sb_cap b"] d(2) by auto
  moreover have n: "size_add (size_add (sb_len b) (length s)) 1 = sb_len b + length s + 1"
    using len by simp
  moreover obtain p where "realloc al (sb_data b) c = Some p"
    using room by (auto simp: roomy_def realloc_def)
  ultimately have "\<exists>b1. strbuf_reserve al b (length s) = (True, b1)"
    using d(2) by (simp add: strbuf_reserve_def)
  then obtain b1 where "strbuf_reserve al b (length s) = (True, b1)" by blast
  then have "strbuf_append al b s \<noteq> Some (False, b)"
    using d by (auto simp: strbuf_append_def bind_eq_Some_conv)
  with append_ok [OF ok, of s al] len show ?thesis by auto
qed
section \<open>Safety of the encoder\<close>

text \<open>
  Every piece that the encoder appends is short, so the sum of lengths in \<open>strbuf_reserve\<close> never wraps
  around: an append either extends the buffer or reports failure.
\<close>

definition sb_safe :: "strbuf jres \<Rightarrow> bool" where
  "sb_safe r \<longleftrightarrow> safe_res sb_ok r"

lemma sb_safe_bind: "sb_safe r \<Longrightarrow> (\<And>b. sb_ok b \<Longrightarrow> sb_safe (f b)) \<Longrightarrow> sb_safe (bind_res r f)"
  unfolding sb_safe_def by (rule safe_bind)

lemma sb_safe_ok [simp]: "sb_ok b \<Longrightarrow> sb_safe (Some (Inr b))"
  by (simp add: sb_safe_def safe_res_def)

lemma sb_safe_err [simp]: "sb_safe (Some (Inl e))"
  by (simp add: sb_safe_def safe_res_def)

lemma append_safe:
  assumes "sb_ok b" and "length s \<le> 64"
  shows "sb_safe (or_oom (strbuf_append al b s))"
proof -
  have "sb_len b + length s + 1 < 2 ^ 64" using sb_ok_len [OF assms(1)] assms(2) by simp
  from append_ok [OF assms(1) this, of al] show ?thesis
    by (auto simp: or_oom_def sb_appended_def)
qed

lemma append_char_safe [simp]: "sb_ok b \<Longrightarrow> sb_safe (or_oom (strbuf_append_char al b c))"
  by (simp add: strbuf_append_char_def append_safe)

lemma escape_length: "escape c = Some e \<Longrightarrow> length e \<le> 6"
  by (auto simp: escape_def split: if_splits)

lemma encode_chars_safe: "sb_ok b \<Longrightarrow> sb_safe (encode_chars al cs b)"
proof (induction cs arbitrary: b)
  case (Cons c cs)
  have "sb_safe (or_oom (case escape c of Some esc \<Rightarrow> strbuf_append_str al b esc
      | None \<Rightarrow> strbuf_append_char al b c))"
  proof (cases "escape c")
    case (Some e)
    then have "length e \<le> 64" using escape_length [of c e] by simp
    with Some Cons.prems show ?thesis by (simp add: strbuf_append_str_def append_safe)
  qed (use Cons.prems in simp)
  with Cons.IH show ?case by (simp add: sb_safe_bind)
qed simp

lemma encode_string_safe: "sb_ok b \<Longrightarrow> sb_safe (encode_string al s b)"
  by (simp add: encode_string_def sb_safe_bind encode_chars_safe)

lemma encode_number_safe: "sb_ok b \<Longrightarrow> sb_safe (encode_number al d b)"
  by (simp add: encode_number_def Let_def append_safe)

lemma encode_elems_safe:
  assumes "\<And>b v. sb_ok b \<Longrightarrow> sb_safe (enc b v)"
  shows "sb_ok b \<Longrightarrow> sb_safe (encode_elems al enc t k i b)"
  by (induction k arbitrary: i b) (auto intro!: sb_safe_bind assms)

lemma encode_fields_safe:
  assumes "\<And>b v. sb_ok b \<Longrightarrow> sb_safe (enc b v)"
  shows "sb_ok b \<Longrightarrow> sb_safe (encode_fields al enc t first b)"
proof (induction t arbitrary: first b)
  case (Cons e t)
  obtain k v where e: "e = (k, v)" by fastforce
  show ?case
  proof (cases k)
    case (LStr s)
    with Cons e show ?thesis by (auto intro!: sb_safe_bind assms encode_string_safe)
  qed (simp_all add: e)
qed simp

lemma encode_table_safe:
  assumes ok: "sb_ok b"
    and enc: "\<And>b v. a \<notin> set stack \<Longrightarrow> a < length h \<Longrightarrow> sb_ok b \<Longrightarrow> sb_safe (enc (a # stack) b v)"
  shows "sb_safe (encode_table al rl enc h stack a b)"
proof (cases "a \<in> set stack \<or> length h \<le> a")
  case True
  then show ?thesis
    by (auto simp: encode_table_def Let_def jtab_def table_is_empty_def mt_is_array_def mt_is_object_def)
next
  case False
  then have enc': "\<And>b v. sb_ok b \<Longrightarrow> sb_safe (enc (a # stack) b v)" using enc by simp
  have "sb_safe (bind_res (or_oom (strbuf_append_char al b c)) (\<lambda>b1.
      bind_res (encode_elems al (enc (a # stack)) t k i b1) (\<lambda>b2. or_oom (strbuf_append_char al b2 c'))))"
    and "sb_safe (bind_res (or_oom (strbuf_append_char al b c)) (\<lambda>b1.
      bind_res (encode_fields al (enc (a # stack)) t first b1) (\<lambda>b2. or_oom (strbuf_append_char al b2 c'))))"
    for c c' t k i first
    using ok by (auto intro!: sb_safe_bind encode_elems_safe encode_fields_safe enc')
  then show ?thesis by (simp add: encode_table_def Let_def)
qed

text \<open>The tables on the stack differ, so the recursion is never deeper than the heap is long.\<close>

lemma encode_value_enough:
  "sb_ok b \<Longrightarrow> distinct stack \<Longrightarrow> set stack \<subseteq> {..<length h} \<Longrightarrow> n + length stack = Suc (length h)
     \<Longrightarrow> sb_safe (encode_value al rl h n stack b v)"
proof (induction n arbitrary: stack b v)
  case 0
  have "card (set stack) \<le> length h" using card_mono [OF _ 0(3)] by simp
  with 0 show ?case by (simp add: distinct_card)
next
  case (Suc n)
  show ?case
  proof (cases v)
    case (LTable a)
    have "sb_safe (encode_table al rl (encode_value al rl h n) h stack a b)"
      using Suc by (intro encode_table_safe) simp_all
    with LTable show ?thesis by (simp add: json_null_def)
  qed (simp_all add: Suc.prems json_null_def strbuf_append_str_def append_safe asc_def encode_string_safe encode_number_safe)
qed

lemma strbuf_init_cases:
  obtains "strbuf_init al = Some \<lparr>sb_data = None, sb_len = 0, sb_cap = 256\<rparr>" and "\<not> can_alloc al 256"
  | b where "strbuf_init al = Some b" and "sb_ok b" and "sb_len b = 0" and "can_alloc al 256"
proof (cases "can_alloc al 256")
  case True
  let ?d = "map (junk al) [0..<256]"
  have "store_at (Some ?d) 0 [0] = Some ([0] @ drop 1 ?d)" by (simp add: store_at_def)
  then have "strbuf_init al = Some \<lparr>sb_data = Some ([0] @ drop 1 ?d), sb_len = 0, sb_cap = 256\<rparr>"
    using True by (simp add: strbuf_init_def malloc_def)
  moreover have "\<exists>k\<le>63. 256 = (2 :: nat) ^ k" by (rule exI [of _ 8]) simp
  then have "sb_ok \<lparr>sb_data = Some ([0] @ drop 1 ?d), sb_len = 0, sb_cap = 256\<rparr>"
    by (simp add: sb_ok_def)
  ultimately show ?thesis using that(2) True by fastforce
qed (simp add: strbuf_init_def malloc_def that(1))

text \<open>
  (C15) Encoding is total and memory-safe: for every heap of tables, cyclic ones included, every value,
  every allocator (so also when memory runs out at any point) and whatever border \<open>lua_rawlen\<close> picks,
  \<open>json_encode\<close> returns or raises one of its errors; it never runs forever, and it neither stores outside
  its buffer nor loads from outside it.
\<close>

theorem json_encode_total: "\<exists>r. json_encode al rl h v = Some r"
proof (rule strbuf_init_cases [of al])
  fix b
  assume b: "strbuf_init al = Some b" "sb_ok b"
  then have "sb_safe (encode_value al rl h (Suc (length h)) [] b v)"
    by (intro encode_value_enough) simp_all
  then consider e where "encode_value al rl h (Suc (length h)) [] b v = Some (Inl e)"
    | b' where "encode_value al rl h (Suc (length h)) [] b v = Some (Inr b')" "sb_ok b'"
    by (auto simp: sb_safe_def safe_res_def split: option.splits sum.splits)
  then show ?thesis
  proof cases
    case (2 b')
    with b show ?thesis
      by (auto simp: json_encode_def bind_res_def load_at_def elim!: sb_okE)
  qed (use b in \<open>auto simp: json_encode_def bind_res_def elim!: sb_okE\<close>)
qed (simp add: json_encode_def)
section \<open>The abstract values and their texts\<close>

text \<open>
  The values that JSON text carries, with objects as finite maps. \<open>rep lo h v t\<close> says that the Lua value
  \<open>v\<close>, with its tables at addresses from \<open>lo\<close> on in the heap \<open>h\<close>, represents \<open>t\<close>; the order in which
  \<open>lua_next\<close> visits the entries of a table does not matter. Numbers are the integers below \<open>10 ^ 14\<close>, which
  \<open>%.14g\<close> prints exactly. \<open>jtext\<close> is the relation between values and the texts that the encoder writes.
\<close>

datatype jtree =
    JNull
  | JBool bool
  | JInt int
  | JStr bytes
  | JArr "jtree list"
  | JObj "bytes \<Rightarrow> jtree option"

definition array_table :: "jtable \<Rightarrow> lval list \<Rightarrow> bool" where
  "array_table T vs \<longleftrightarrow>
     distinct (map fst (jt_entries T)) \<and> set (jt_entries T) = set (array_pairs 1 vs)
     \<and> length vs < 2 ^ 31 \<and> (vs \<noteq> [] \<or> jt_mt T = ArrayMT)"

definition object_table :: "jtable \<Rightarrow> bool" where
  "object_table T \<longleftrightarrow>
     distinct (map fst (jt_entries T)) \<and> (\<forall>(k, v) \<in> set (jt_entries T). \<exists>s. k = LStr s)
     \<and> jt_mt T \<noteq> ArrayMT \<and> (jt_entries T \<noteq> [] \<or> jt_mt T = ObjectMT)"

definition field :: "jtable \<Rightarrow> bytes \<Rightarrow> lval option" where
  "field T s = map_of (jt_entries T) (LStr s)"

inductive rep :: "nat \<Rightarrow> jheap \<Rightarrow> lval \<Rightarrow> jtree \<Rightarrow> bool" for lo h where
  rep_null: "rep lo h json_null JNull"
| rep_bool: "rep lo h (LBool x) (JBool x)"
| rep_int: "\<bar>z\<bar> < 10 ^ 14 \<Longrightarrow> rep lo h (LNum (dbl_of_int z)) (JInt z)"
| rep_str: "rep lo h (LStr s) (JStr s)"
| rep_arr: "lo \<le> a \<Longrightarrow> a < length h \<Longrightarrow> array_table (h ! a) vs \<Longrightarrow> length vs = length ts
    \<Longrightarrow> \<forall>i < length ts. rep lo h (vs ! i) (ts ! i) \<Longrightarrow> rep lo h (LTable a) (JArr ts)"
| rep_obj: "lo \<le> a \<Longrightarrow> a < length h \<Longrightarrow> object_table (h ! a) \<Longrightarrow> dom (field (h ! a)) = dom m
    \<Longrightarrow> \<forall>s \<in> dom m. rep lo h (the (field (h ! a) s)) (the (m s)) \<Longrightarrow> rep lo h (LTable a) (JObj m)"

inductive_cases rep_tableE: "rep lo h (LTable a) t"

definition esc_text :: "u8 \<Rightarrow> bytes" where
  "esc_text c = (case escape c of Some e \<Rightarrow> e | None \<Rightarrow> [c])"

definition str_text :: "bytes \<Rightarrow> bytes" where
  "str_text s = 0x22 # concat (map esc_text s) @ [0x22]"

fun commas :: "bytes list \<Rightarrow> bytes" where
  "commas [] = []"
| "commas (s # ss) = s @ concat (map (\<lambda>x. 0x2c # x) ss)"

definition field_text :: "bytes \<Rightarrow> bytes \<Rightarrow> bytes" where
  "field_text k s = str_text k @ 0x3a # s"

inductive jtext :: "jtree \<Rightarrow> bytes \<Rightarrow> bool" where
  jtext_null: "jtext JNull (asc ''null'')"
| jtext_bool: "jtext (JBool x) (if x then asc ''true'' else asc ''false'')"
| jtext_int: "\<bar>z\<bar> < 10 ^ 14 \<Longrightarrow> jtext (JInt z) (int_text z)"
| jtext_str: "jtext (JStr s) (str_text s)"
| jtext_arr: "length ss = length ts \<Longrightarrow> length ts < 2 ^ 31 \<Longrightarrow> \<forall>i < length ts. jtext (ts ! i) (ss ! i)
    \<Longrightarrow> jtext (JArr ts) (0x5b # commas ss @ [0x5d])"
| jtext_obj: "distinct ks \<Longrightarrow> set ks = dom m \<Longrightarrow> length ss = length ks
    \<Longrightarrow> \<forall>i < length ks. jtext (the (m (ks ! i))) (ss ! i)
    \<Longrightarrow> jtext (JObj m) (0x7b # commas (map2 field_text ks ss) @ [0x7d])"

text \<open>Lua's length operator returns a border of the table.\<close>

definition is_border :: "(ltable \<Rightarrow> nat) \<Rightarrow> bool" where
  "is_border rl \<longleftrightarrow>
     (\<forall>t. (rl t = 0 \<or> rawgeti t (int (rl t)) \<noteq> None) \<and> rawgeti t (int (rl t) + 1) = None)"

section \<open>The encoder writes the text\<close>

text \<open>\<open>emits f s\<close>: with memory for it, \<open>f\<close> appends \<open>s\<close> to every buffer.\<close>

definition emits :: "(strbuf \<Rightarrow> strbuf jres) \<Rightarrow> bytes \<Rightarrow> bool" where
  "emits f s \<longleftrightarrow>
     (\<forall>b. sb_ok b \<longrightarrow> sb_len b + length s + 1 \<le> 2 ^ 63 \<longrightarrow>
        (\<exists>b'. f b = Some (Inr b') \<and> sb_ok b' \<and> sb_content b' = sb_content b @ s
            \<and> sb_len b' = sb_len b + length s))"

lemma emitsD:
  assumes "emits f s" and "sb_ok b" and "sb_len b + length s + 1 \<le> 2 ^ 63"
  obtains b' where "f b = Some (Inr b')" and "sb_ok b'" and "sb_content b' = sb_content b @ s"
    and "sb_len b' = sb_len b + length s"
  using assms unfolding emits_def by blast

lemma emits_bind:
  assumes "emits f s" and "emits g t"
  shows "emits (\<lambda>b. bind_res (f b) g) (s @ t)"
  unfolding emits_def
proof (intro allI impI)
  fix b
  assume b: "sb_ok b" "sb_len b + length (s @ t) + 1 \<le> 2 ^ 63"
  have "sb_len b + length s + 1 \<le> 2 ^ 63" using b(2) by simp
  then obtain b1 where b1: "f b = Some (Inr b1)" "sb_ok b1" "sb_content b1 = sb_content b @ s"
      "sb_len b1 = sb_len b + length s"
    by (rule emitsD [OF assms(1) b(1)])
  have "sb_len b1 + length t + 1 \<le> 2 ^ 63" using b(2) b1(4) by simp
  then obtain b2 where "g b1 = Some (Inr b2)" "sb_ok b2" "sb_content b2 = sb_content b1 @ t"
      "sb_len b2 = sb_len b1 + length t"
    by (rule emitsD [OF assms(2) b1(2)])
  with b1 show "\<exists>b'. bind_res (f b) g = Some (Inr b') \<and> sb_ok b' \<and> sb_content b' = sb_content b @ s @ t
      \<and> sb_len b' = sb_len b + length (s @ t)"
    by (simp add: bind_res_def)
qed

lemma emits_bind_eq: "emits f s \<Longrightarrow> emits g t \<Longrightarrow> u = s @ t \<Longrightarrow> emits (\<lambda>b. bind_res (f b) g) u"
  using emits_bind by blast

lemma emits_cong: "emits f s \<Longrightarrow> (\<And>b. g b = f b) \<Longrightarrow> t = s \<Longrightarrow> emits g t"
  by (simp add: emits_def)

lemma emits_return: "emits (\<lambda>b. Some (Inr b)) []"
  by (simp add: emits_def)

lemma emits_append:
  assumes "roomy al"
  shows "emits (\<lambda>b. or_oom (strbuf_append al b s)) s"
  unfolding emits_def
proof (intro allI impI)
  fix b
  assume "sb_ok b" "sb_len b + length s + 1 \<le> 2 ^ 63"
  from append_roomy [OF assms this] show "\<exists>b'. or_oom (strbuf_append al b s) = Some (Inr b') \<and> sb_ok b'
      \<and> sb_content b' = sb_content b @ s \<and> sb_len b' = sb_len b + length s"
    by (auto simp: or_oom_def sb_appended_def)
qed

lemma emits_char: "roomy al \<Longrightarrow> emits (\<lambda>b. or_oom (strbuf_append_char al b c)) [c]"
  unfolding strbuf_append_char_def by (rule emits_append)

lemma emits_chars: "roomy al \<Longrightarrow> emits (encode_chars al cs) (concat (map esc_text cs))"
proof (induction cs)
  case Nil
  then show ?case by (simp add: emits_def)
next
  case (Cons c cs)
  have "emits (\<lambda>b. or_oom (case escape c of Some esc \<Rightarrow> strbuf_append_str al b esc
      | None \<Rightarrow> strbuf_append_char al b c)) (esc_text c)"
    using emits_append [OF Cons.prems] emits_char [OF Cons.prems]
    by (cases "escape c") (simp_all add: esc_text_def strbuf_append_str_def)
  from emits_bind [OF this Cons.IH [OF Cons.prems]] show ?case by (rule emits_cong) simp_all
qed

lemma emits_string: "roomy al \<Longrightarrow> emits (encode_string al s) (str_text s)"
  unfolding encode_string_def
  by (rule emits_bind_eq [OF emits_char emits_bind [OF emits_chars emits_char]]) (simp_all add: str_text_def)
lemma emits_number:
  assumes "roomy al" and z: "\<bar>z\<bar> < 10 ^ 14"
  shows "emits (encode_number al (dbl_of_int z)) (int_text z)"
proof -
  have e: "dbl_expo (dbl_of_int z) \<noteq> 2047"
  proof (cases "z = 0")
    case True
    then show ?thesis by (simp add: dbl_of_int_def dbl_of_nat_def dbl_expo_def)
  next
    case False
    then obtain k where "dbl_scale (dbl_of_int z) + k = 1075" using dbl_of_int_fields [OF _ z] by metis
    then show ?thesis by (auto simp: dbl_scale_def split: if_splits)
  qed
  have "dbl_canon (dbl_of_int z) = dbl_of_int z" by (simp add: dbl_round_int [OF z, symmetric])
  moreover have "length (int_text z) < 64" using int_text_length [OF z] by simp
  ultimately have "encode_number al (dbl_of_int z) = (\<lambda>b. or_oom (strbuf_append al b (int_text z)))"
    using e by (simp add: encode_number_def fun_eq_iff dbl_is_nan_def dbl_is_inf_def fmt_g14_int [OF z])
  with emits_append [OF assms(1)] show ?thesis by simp
qed

lemma emits_elems_more:
  assumes "roomy al" and "\<And>j. j < length ss \<Longrightarrow> \<exists>v. rawgeti t (int (i + j)) = Some v \<and> emits (\<lambda>b. enc b v) (ss ! j)"
    and "1 < i"
  shows "emits (encode_elems al enc t (length ss) i) (concat (map (\<lambda>x. 0x2c # x) ss))"
  using assms(2,3)
proof (induction ss arbitrary: i)
  case Nil
  then show ?case by (simp add: emits_def)
next
  case (Cons s ss)
  obtain v where v: "rawgeti t (int i) = Some v" "emits (\<lambda>b. enc b v) s" using Cons.prems(1) [of 0] by auto
  have "\<exists>v. rawgeti t (int (i + 1 + j)) = Some v \<and> emits (\<lambda>b. enc b v) (ss ! j)" if "j < length ss" for j
    using Cons.prems(1) [of "Suc j"] that by simp
  then have "emits (encode_elems al enc t (length ss) (i + 1)) (concat (map (\<lambda>x. 0x2c # x) ss))"
    using Cons.prems(2) by (intro Cons.IH) simp_all
  from emits_bind [OF emits_char [OF assms(1), of "0x2c"] emits_bind [OF v(2) this]]
  show ?case
    by (rule emits_cong) (use v(1) Cons.prems(2) in simp_all)
qed

lemma emits_elems:
  assumes "roomy al" and "\<And>j. j < length ss \<Longrightarrow> \<exists>v. rawgeti t (int j + 1) = Some v \<and> emits (\<lambda>b. enc b v) (ss ! j)"
  shows "emits (encode_elems al enc t (length ss) 1) (commas ss)"
proof (cases ss)
  case Nil
  then show ?thesis by (simp add: emits_def)
next
  case (Cons s ss')
  obtain v where v: "rawgeti t 1 = Some v" "emits (\<lambda>b. enc b v) s" using assms(2) [of 0] Cons by auto
  have "\<exists>v. rawgeti t (int (2 + j)) = Some v \<and> emits (\<lambda>b. enc b v) (ss' ! j)" if "j < length ss'" for j
    using assms(2) [of "Suc j"] that Cons by (simp add: algebra_simps)
  then have "emits (encode_elems al enc t (length ss') 2) (concat (map (\<lambda>x. 0x2c # x) ss'))"
    using assms(1) by (intro emits_elems_more) simp_all
  from emits_bind [OF v(2) this] show ?thesis
    by (rule emits_cong) (use v(1) Cons in \<open>simp_all add: bind_res_def [of "Some _"] numeral_2_eq_2\<close>)
qed

lemma emits_field:
  assumes "roomy al" and "emits (\<lambda>b. enc b v) s" and "emits g u"
  shows "emits (\<lambda>b. bind_res (encode_string al k b) (\<lambda>b2. bind_res (or_oom (strbuf_append_char al b2 0x3a)) (\<lambda>b3.
    bind_res (enc b3 v) g))) (field_text k s @ u)"
  using emits_bind [OF emits_string [OF assms(1), of k] emits_bind [OF emits_char [OF assms(1), of "0x3a"] emits_bind [OF assms(2,3)]]]
  by (simp add: field_text_def)

lemma emits_fields_more:
  assumes "roomy al" and "length ks = length es" and "length ss = length es"
    and "\<And>j. j < length es \<Longrightarrow> fst (es ! j) = LStr (ks ! j) \<and> emits (\<lambda>b. enc b (snd (es ! j))) (ss ! j)"
  shows "emits (encode_fields al enc es False) (concat (map (\<lambda>x. 0x2c # x) (map2 field_text ks ss)))"
  using assms(2-)
proof (induction es arbitrary: ks ss)
  case Nil
  then show ?case by (simp add: emits_def)
next
  case (Cons e es)
  obtain k v where kv: "e = (LStr k, v)" "k = ks ! 0" using Cons.prems(3) [of 0] by (cases e) auto
  obtain ks' where ks: "ks = k # ks'" using Cons.prems(1) kv(2) by (cases ks) auto
  obtain s ss' where ss: "ss = s # ss'" using Cons.prems(2) by (cases ss) auto
  have "emits (encode_fields al enc es False) (concat (map (\<lambda>x. 0x2c # x) (map2 field_text ks' ss')))"
  proof (rule Cons.IH)
    fix j assume "j < length es"
    then show "fst (es ! j) = LStr (ks' ! j) \<and> emits (\<lambda>b. enc b (snd (es ! j))) (ss' ! j)"
      using Cons.prems(3) [of "Suc j"] by (simp add: ks ss)
  qed (use Cons.prems ks ss in simp_all)
  moreover have "emits (\<lambda>b. enc b v) s" using Cons.prems(3) [of 0] kv ss by simp
  ultimately have "emits (\<lambda>b. bind_res (encode_string al k b)
     (\<lambda>b2. bind_res (or_oom (strbuf_append_char al b2 0x3a)) (\<lambda>b3. bind_res (enc b3 v) (encode_fields al enc es False))))
     (field_text k s @ concat (map (\<lambda>x. 0x2c # x) (map2 field_text ks' ss')))"
    by (intro emits_field [where enc = enc and v = v, OF assms(1)])
  from emits_bind [OF emits_char [OF assms(1), of "0x2c"] this]
  show ?case by (rule emits_cong) (simp_all add: kv(1) ks ss)
qed

lemma emits_fields:
  assumes "roomy al" and "length ks = length es" and "length ss = length es"
    and j: "\<And>j. j < length es \<Longrightarrow> fst (es ! j) = LStr (ks ! j) \<and> emits (\<lambda>b. enc b (snd (es ! j))) (ss ! j)"
  shows "emits (encode_fields al enc es True) (commas (map2 field_text ks ss))"
proof (cases es)
  case Nil
  with assms show ?thesis by (simp add: emits_def)
next
  case (Cons e es')
  obtain k v where kv: "e = (LStr k, v)" "k = ks ! 0" using j [of 0] Cons by (cases e) auto
  obtain ks' where ks: "ks = k # ks'" using assms(2) kv(2) Cons by (cases ks) auto
  obtain s ss' where ss: "ss = s # ss'" using assms(3) Cons by (cases ss) auto
  have "emits (encode_fields al enc es' False) (concat (map (\<lambda>x. 0x2c # x) (map2 field_text ks' ss')))"
  proof (rule emits_fields_more)
    fix i assume "i < length es'"
    then show "fst (es' ! i) = LStr (ks' ! i) \<and> emits (\<lambda>b. enc b (snd (es' ! i))) (ss' ! i)"
      using j [of "Suc i"] by (simp add: ks ss Cons)
  qed (use assms ks ss Cons in simp_all)
  moreover have "emits (\<lambda>b. enc b v) s" using j [of 0] kv ss Cons by simp
  ultimately have "emits (\<lambda>b. bind_res (encode_string al k b)
     (\<lambda>b2. bind_res (or_oom (strbuf_append_char al b2 0x3a)) (\<lambda>b3. bind_res (enc b3 v) (encode_fields al enc es' False))))
     (field_text k s @ concat (map (\<lambda>x. 0x2c # x) (map2 field_text ks' ss')))"
    by (intro emits_field [where enc = enc and v = v, OF assms(1)])
  then show ?thesis by (rule emits_cong) (simp_all add: kv(1) ks ss Cons bind_res_def [of "Some _"])
qed
lemma int_text_inj:
  assumes "int_text z = int_text z'"
  shows "z = z'"
proof -
  have "hd (decimal n) \<noteq> 0x2d" for n by (metis decimal_Cons digit_facts(2) list.sel(1))
  then have "z < 0 \<longleftrightarrow> z' < 0"
    using assms unfolding int_text_def by (metis list.sel(1))
  moreover have "decimal m = decimal n \<Longrightarrow> m = n" for m n by (metis digits_val_decimal)
  ultimately show ?thesis using assms by (fastforce simp: int_text_def split: if_splits)
qed

text \<open>A value that is represented has exactly one abstract value, and no table contains itself.\<close>

lemma array_table_get:
  assumes "array_table T vs"
  shows "rawgeti (jt_entries T) (int i + 1) = (if i < length vs then Some (vs ! i) else None)"
  using assms by (intro rawgeti_array) (simp_all add: array_table_def)

lemma array_table_unique:
  assumes "array_table T vs" and "array_table T ws"
  shows "vs = ws"
proof -
  have e: "(if i < length vs then Some (vs ! i) else None) = (if i < length ws then Some (ws ! i) else None)" for i
    using array_table_get [OF assms(1), of i] array_table_get [OF assms(2), of i] by simp
  have "\<not> length vs < length ws" using e [of "length vs"] by (auto split: if_splits)
  moreover have "\<not> length ws < length vs" using e [of "length ws"] by (auto split: if_splits)
  ultimately have l: "length vs = length ws" by simp
  show ?thesis
  proof (rule nth_equalityI [OF l])
    fix i assume "i < length vs"
    with l e [of i] show "vs ! i = ws ! i" by simp
  qed
qed

lemma array_not_object: "array_table T vs \<Longrightarrow> \<not> object_table T"
  by (cases vs) (auto simp: array_table_def object_table_def)

lemma rep_unique: "rep lo h v t \<Longrightarrow> rep lo' h v t' \<Longrightarrow> t = t'"
proof (induction arbitrary: t' rule: rep.induct)
  case (rep_int z)
  from rep_int(2) show ?case
  proof cases
    case (rep_int z')
    with \<open>\<bar>z\<bar> < 10 ^ 14\<close> show ?thesis using fmt_g14_int int_text_inj by metis
  qed (simp_all add: json_null_def)
next
  case (rep_arr a vs ts)
  from rep_arr(6) show ?case
  proof (rule rep_tableE)
    fix vs' ts'
    assume *: "array_table (h ! a) vs'" "length vs' = length ts'" "\<forall>i<length ts'. rep lo' h (vs' ! i) (ts' ! i)"
      and t': "t' = JArr ts'"
    have "vs = vs'" using array_table_unique [OF rep_arr(3) *(1)] .
    then have "ts = ts'" using * rep_arr(4,5) by (intro nth_equalityI) simp_all
    with t' show ?thesis by simp
  qed (use array_not_object [OF rep_arr(3)] in \<open>simp_all add: json_null_def\<close>)
next
  case (rep_obj a m)
  from rep_obj(6) show ?case
  proof (rule rep_tableE)
    fix m'
    assume *: "dom (field (h ! a)) = dom m'" "\<forall>s\<in>dom m'. rep lo' h (the (field (h ! a) s)) (the (m' s))"
      and t': "t' = JObj m'"
    have "m s = m' s" for s
    proof (cases "s \<in> dom m")
      case True
      then have "the (m s) = the (m' s)" using rep_obj(4,5) * by simp
      with True * rep_obj(4) show ?thesis by (metis domD option.sel)
    qed (use * rep_obj(4) in auto)
    with t' show ?thesis by auto
  qed (use array_not_object rep_obj(3) in \<open>auto simp: json_null_def\<close>)
qed (auto elim: rep.cases simp: json_null_def)

definition subtree :: "(jtree \<times> jtree) set" where
  "subtree = {(t, JArr ts) | t ts. t \<in> set ts} \<union> {(t, JObj m) | t m. t \<in> ran m}"

lemma subtree_simps:
  "(t, JArr ts) \<in> subtree \<longleftrightarrow> t \<in> set ts" "(t, JObj m) \<in> subtree \<longleftrightarrow> t \<in> ran m"
  "(t, JNull) \<notin> subtree" "(t, JBool x) \<notin> subtree" "(t, JInt z) \<notin> subtree" "(t, JStr s) \<notin> subtree"
  by (auto simp: subtree_def)

lemma wf_subtree: "wf subtree"
proof (rule wfUNIVI)
  fix P :: "jtree \<Rightarrow> bool" and t
  assume step: "\<forall>x. (\<forall>y. (y, x) \<in> subtree \<longrightarrow> P y) \<longrightarrow> P x"
  show "P t"
  proof (induction t)
    case (JObj m)
    then have "P y" if "y \<in> ran m" for y using that by (fastforce simp: ran_def)
    with step show ?case by (metis subtree_simps(2))
  qed (use step subtree_simps in metis)+
qed

text \<open>The tables on the stack represent values that properly contain the one at hand.\<close>

definition above :: "jheap \<Rightarrow> nat list \<Rightarrow> jtree \<Rightarrow> bool" where
  "above h stack t \<longleftrightarrow> (\<forall>a \<in> set stack. \<exists>s. rep 0 h (LTable a) s \<and> (t, s) \<in> subtree\<^sup>+)"

lemma above_fresh: "rep 0 h (LTable a) t \<Longrightarrow> above h stack t \<Longrightarrow> a \<notin> set stack"
  using rep_unique wf_subtree [THEN wf_trancl] unfolding above_def by (metis wf_not_refl)

lemma above_child:
  assumes "rep 0 h (LTable a) t" and "above h stack t" and "(s, t) \<in> subtree"
  shows "above h (a # stack) s"
  using assms trancl_into_trancl2 [OF assms(3)] unfolding above_def by auto
lemma stack_room:
  assumes "distinct stack" and "set stack \<subseteq> {..<length h}" and "n + length stack = Suc (length h)"
  obtains m where "n = Suc m"
proof -
  have "card (set stack) \<le> length h" using card_mono [OF _ assms(2)] by simp
  with assms that show ?thesis by (cases n) (simp_all add: distinct_card)
qed

lemma border_array:
  assumes "is_border rl" and T: "array_table T vs"
  shows "rl (jt_entries T) = length vs" and "length (jt_entries T) = length vs"
proof -
  let ?n = "rl (jt_entries T)"
  have b: "?n = 0 \<or> rawgeti (jt_entries T) (int ?n) \<noteq> None" "rawgeti (jt_entries T) (int ?n + 1) = None"
    using assms(1) unfolding is_border_def by blast+
  have "\<not> ?n < length vs" using b(2) array_table_get [OF T, of ?n] by auto
  moreover have "?n = 0 \<or> ?n - 1 < length vs"
  proof (cases ?n)
    case (Suc k)
    with b(1) array_table_get [OF T, of k] show ?thesis by (auto simp: add.commute split: if_splits)
  qed simp
  ultimately show "?n = length vs" by linarith
  have "distinct (map fst (array_pairs 1 vs))" using T by (intro array_pairs_distinct) (simp add: array_table_def)
  then have "card (set (array_pairs 1 vs)) = length (array_pairs 1 vs)"
    by (metis distinct_card distinct_map)
  moreover have "length (array_pairs 1 vs) = length vs"
    using arg_cong [OF array_pairs_keys [of 1 vs], of length] by (simp del: upt_Suc)
  moreover have "card (set (jt_entries T)) = length (jt_entries T)"
    using T by (metis array_table_def distinct_card distinct_map)
  ultimately show "length (jt_entries T) = length vs" using T by (simp add: array_table_def)
qed

lemma encode_array_eq:
  assumes rl: "is_border rl" and T: "array_table (h ! a) vs" and a: "a < length h" "a \<notin> set stack"
  shows "encode_table al rl enc h stack a b =
    bind_res (or_oom (strbuf_append_char al b 0x5b)) (\<lambda>b1.
      bind_res (encode_elems al (enc (a # stack)) (jt_entries (h ! a)) (length vs) 1 b1) (\<lambda>b2.
        or_oom (strbuf_append_char al b2 0x5d)))"
proof -
  have "list_all (\<lambda>(k, v). is_number k) (jt_entries (h ! a))"
    using T by (auto simp: array_table_def list_all_iff set_array_pairs is_number_def)
  moreover have "has_index_1 (h ! a) \<or> mt_is_array (h ! a)"
    using array_table_get [OF T, of 0] T by (auto simp: has_index_1_def mt_is_array_def array_table_def)
  moreover have "\<not> (\<not> mt_is_array (h ! a) \<and> table_is_empty (h ! a))"
    using T by (cases vs) (auto simp: array_table_def mt_is_array_def table_is_empty_def)
  moreover note border_array [OF rl T]
  moreover have "jtab h a = h ! a" using a by (simp add: jtab_def)
  ultimately show ?thesis using a(2) unfolding encode_table_def Let_def by auto
qed

lemma encode_object_eq:
  assumes T: "object_table (h ! a)" and a: "a < length h" "a \<notin> set stack"
  shows "encode_table al rl enc h stack a b =
    bind_res (or_oom (strbuf_append_char al b 0x7b)) (\<lambda>b1.
      bind_res (encode_fields al (enc (a # stack)) (jt_entries (h ! a)) True b1) (\<lambda>b2.
        or_oom (strbuf_append_char al b2 0x7d)))"
proof -
  have "rawgeti (jt_entries (h ! a)) 1 = None"
    using T by (intro rawgeti_None) (auto simp: object_table_def is_int_key_def)
  then have "\<not> has_index_1 (h ! a)" by (simp add: has_index_1_def)
  moreover have "\<not> mt_is_array (h ! a)" "mt_is_object (h ! a) \<or> \<not> table_is_empty (h ! a)"
    using T by (auto simp: object_table_def mt_is_array_def mt_is_object_def table_is_empty_def)
  moreover have "jtab h a = h ! a" using a by (simp add: jtab_def)
  ultimately show ?thesis using a(2) unfolding encode_table_def Let_def by auto
qed

lemma object_keys:
  assumes T: "object_table T" and m: "dom (field T) = dom m"
  obtains ks where "length ks = length (jt_entries T)" and "distinct ks" and "set ks = dom m"
    and "\<And>j. j < length ks \<Longrightarrow> fst (jt_entries T ! j) = LStr (ks ! j) \<and> field T (ks ! j) = Some (snd (jt_entries T ! j))"
proof -
  define ks where "ks = map (\<lambda>e. case fst e of LStr s \<Rightarrow> s | _ \<Rightarrow> []) (jt_entries T)"
  have keys: "fst e = LStr s" if "e \<in> set (jt_entries T)" "s = (case fst e of LStr s \<Rightarrow> s | _ \<Rightarrow> [])" for e s
    using T that by (auto simp: object_table_def)
  have fst: "map fst (jt_entries T) = map LStr ks"
    unfolding ks_def using keys by (simp add: o_def)
  have d: "distinct (map fst (jt_entries T))" using T by (simp add: object_table_def)
  have "distinct ks" using d unfolding fst by (simp add: distinct_map)
  moreover have "set ks = dom (field T)"
  proof -
    have "LStr ` set ks = fst ` set (jt_entries T)" by (metis fst set_map)
    then have "s \<in> set ks \<longleftrightarrow> LStr s \<in> fst ` set (jt_entries T)" for s by (metis image_iff lval.inject(3))
    moreover have "s \<in> dom (field T) \<longleftrightarrow> LStr s \<in> fst ` set (jt_entries T)" for s
      by (simp add: field_def domIff map_of_eq_None_iff)
    ultimately show ?thesis by blast
  qed
  moreover have "fst (jt_entries T ! j) = LStr (ks ! j) \<and> field T (ks ! j) = Some (snd (jt_entries T ! j))"
    if j: "j < length ks" for j
  proof -
    have l: "length ks = length (jt_entries T)" by (simp add: ks_def)
    have "fst (jt_entries T ! j) = LStr (ks ! j)"
      using arg_cong [OF fst, of "\<lambda>l. l ! j"] j l by simp
    moreover from this have "(LStr (ks ! j), snd (jt_entries T ! j)) \<in> set (jt_entries T)"
      using j l by (metis nth_mem prod.collapse)
    ultimately show ?thesis using d by (simp add: field_def)
  qed
  ultimately show ?thesis using that [of ks] m by (simp add: ks_def)
qed

lemma emits_value:
  assumes al: "roomy al" and rl: "is_border rl"
  shows "rep 0 h v t \<Longrightarrow> distinct stack \<Longrightarrow> set stack \<subseteq> {..<length h} \<Longrightarrow> n + length stack = Suc (length h)
     \<Longrightarrow> above h stack t \<Longrightarrow> \<exists>s. jtext t s \<and> emits (\<lambda>b. encode_value al rl h n stack b v) s"
proof (induction arbitrary: stack n rule: rep.induct)
  case rep_null
  obtain m where "n = Suc m" by (rule stack_room [OF rep_null(1-3)])
  then show ?case using emits_append [OF al] jtext_null by (auto simp: strbuf_append_str_def)
next
  case (rep_bool x)
  obtain m where "n = Suc m" by (rule stack_room [OF rep_bool(1-3)])
  then show ?case using emits_append [OF al] jtext_bool [of x] by (auto simp: strbuf_append_str_def json_null_def)
next
  case (rep_int z)
  obtain m where "n = Suc m" by (rule stack_room [OF rep_int(2-4)])
  then show ?case using emits_number [OF al rep_int(1)] jtext_int [OF rep_int(1)] by (auto simp: json_null_def)
next
  case (rep_str s)
  obtain m where "n = Suc m" by (rule stack_room [OF rep_str(1-3)])
  then show ?case using emits_string [OF al] jtext_str by (auto simp: json_null_def)
next
  case (rep_arr a vs ts)
  obtain m where n: "n = Suc m" by (rule stack_room [OF rep_arr(6-8)])
  have r: "rep 0 h (LTable a) (JArr ts)" using rep_arr(1-5) by (auto intro: rep.rep_arr)
  have fresh: "a \<notin> set stack" using above_fresh [OF r rep_arr(9)] .
  have "\<exists>s. jtext (ts ! i) s \<and> emits (\<lambda>b. encode_value al rl h m (a # stack) b (vs ! i)) s" if i: "i < length ts" for i
  proof -
    have "above h (a # stack) (ts ! i)"
      using i by (intro above_child [OF r rep_arr(9)]) (simp add: subtree_simps)
    with rep_arr i n fresh show ?thesis by simp
  qed
  then have "\<exists>ss. length ss = length ts \<and> (\<forall>i<length ts. jtext (ts ! i) (ss ! i)
      \<and> emits (\<lambda>b. encode_value al rl h m (a # stack) b (vs ! i)) (ss ! i))"
    by (intro Skolem_list_nth [THEN iffD1] allI impI)
  then obtain ss where ss: "length ss = length ts" "\<forall>i<length ts. jtext (ts ! i) (ss ! i)"
      "\<And>i. i < length ts \<Longrightarrow> emits (\<lambda>b. encode_value al rl h m (a # stack) b (vs ! i)) (ss ! i)"
    by blast
  have "emits (encode_elems al (encode_value al rl h m (a # stack)) (jt_entries (h ! a)) (length ss) 1) (commas ss)"
    using ss rep_arr(4) by (intro emits_elems [OF al]) (simp add: array_table_get [OF rep_arr(3)])
  from emits_bind [OF emits_char [OF al, of "0x5b"] emits_bind [OF this emits_char [OF al, of "0x5d"]]]
  have "emits (\<lambda>b. encode_value al rl h n stack b (LTable a)) (0x5b # commas ss @ [0x5d])"
    by (rule emits_cong)
      (simp_all add: n json_null_def encode_array_eq [OF rl rep_arr(3,2) fresh] ss(1) rep_arr(4))
  moreover have "length ts < 2 ^ 31" using rep_arr(3,4) by (simp add: array_table_def)
  ultimately show ?case using jtext_arr [OF ss(1) _ ss(2)] by blast
next
  case (rep_obj a m)
  obtain n' where n: "n = Suc n'" by (rule stack_room [OF rep_obj(6-8)])
  have r: "rep 0 h (LTable a) (JObj m)" using rep_obj(1-5) by (auto intro: rep.rep_obj)
  have fresh: "a \<notin> set stack" using above_fresh [OF r rep_obj(9)] .
  let ?es = "jt_entries (h ! a)"
  obtain ks where ks: "length ks = length ?es" "distinct ks" "set ks = dom m"
      "\<And>j. j < length ks \<Longrightarrow> fst (?es ! j) = LStr (ks ! j) \<and> field (h ! a) (ks ! j) = Some (snd (?es ! j))"
    using object_keys [OF rep_obj(3,4)] by blast
  have "\<exists>s. jtext (the (m (ks ! i))) s \<and> emits (\<lambda>b. encode_value al rl h n' (a # stack) b (snd (?es ! i))) s"
    if i: "i < length ks" for i
  proof -
    have k: "ks ! i \<in> dom m" using i ks(3) by (metis nth_mem)
    then have "(the (m (ks ! i)), JObj m) \<in> subtree" by (auto simp: subtree_simps ran_def)
    then have "above h (a # stack) (the (m (ks ! i)))" by (rule above_child [OF r rep_obj(9)])
    with rep_obj(5-) k ks(4) [OF i] n fresh rep_obj(2) show ?thesis by (auto dest!: bspec)
  qed
  then have "\<exists>ss. length ss = length ks \<and> (\<forall>i<length ks. jtext (the (m (ks ! i))) (ss ! i)
      \<and> emits (\<lambda>b. encode_value al rl h n' (a # stack) b (snd (?es ! i))) (ss ! i))"
    by (intro Skolem_list_nth [THEN iffD1] allI impI)
  then obtain ss where ss: "length ss = length ks" "\<forall>i<length ks. jtext (the (m (ks ! i))) (ss ! i)"
      "\<And>i. i < length ks \<Longrightarrow> emits (\<lambda>b. encode_value al rl h n' (a # stack) b (snd (?es ! i))) (ss ! i)"
    by blast
  have "emits (encode_fields al (encode_value al rl h n' (a # stack)) ?es True) (commas (map2 field_text ks ss))"
    using ss ks by (intro emits_fields [OF al]) simp_all
  from emits_bind [OF emits_char [OF al, of "0x7b"] emits_bind [OF this emits_char [OF al, of "0x7d"]]]
  have "emits (\<lambda>b. encode_value al rl h n stack b (LTable a)) (0x7b # commas (map2 field_text ks ss) @ [0x7d])"
    by (rule emits_cong) (simp_all add: n json_null_def encode_object_eq [OF rep_obj(3,2) fresh])
  with jtext_obj [OF ks(2,3) ss(1,2)] show ?case by blast
qed

lemma json_encode_text:
  assumes "roomy al" and "is_border rl" and "rep 0 h v t"
  shows "\<exists>s. jtext t s \<and> (length s < 2 ^ 63 \<longrightarrow> json_encode al rl h v = Some (Inr s))"
proof (rule strbuf_init_cases [of al])
  fix b
  assume b: "strbuf_init al = Some b" "sb_ok b" "sb_len b = 0"
  obtain s where s: "jtext t s" "emits (\<lambda>b. encode_value al rl h (Suc (length h)) [] b v) s"
    using emits_value [OF assms, of "[]"] by (auto simp: above_def)
  have "json_encode al rl h v = Some (Inr s)" if "length s < 2 ^ 63"
  proof -
    have "sb_len b + length s + 1 \<le> 2 ^ 63" using that b(3) by simp
    then obtain b' where b': "encode_value al rl h (Suc (length h)) [] b v = Some (Inr b')" "sb_ok b'"
        "sb_content b' = sb_content b @ s" "sb_len b' = sb_len b + length s"
      by (rule emitsD [OF s(2) b(2)])
    have "sb_content b = []" using b by (auto simp: sb_content_def split: option.splits)
    with b b' show ?thesis
      by (auto simp: json_encode_def bind_res_def load_at_def simp del: encode_value.simps elim!: sb_okE)
  qed
  with s(1) show ?thesis by blast
qed (use assms(1) in \<open>simp add: roomy_def\<close>)

end
