(* ===== verification/Json_Decode.thy ===== *)
theory Json_Decode
  imports Json_Encode
begin

text \<open>
  The JSON parser. It is total: every input gives a value or an error within a recursion depth that is
  linear in the input. It inverts the encoder: a text of an abstract value is read back as a value in new
  tables that represents it. The encoder lemmas and the parser lemmas meet in the round trip.
\<close>

section \<open>Totality of the parser\<close>

lemma next_char_ge: "i \<le> length str \<Longrightarrow> i \<le> next_char str i pred neg"
  by (induction str i pred neg rule: next_char.induct) (subst next_char.simps, auto simp: Let_def)

lemma next_char_le: "next_char str i pred neg \<le> length str"
  by (induction str i pred neg rule: next_char.induct) (subst next_char.simps, auto simp: Let_def)

lemma parse_chars_cases:
  assumes "parse_chars str idx i k acc = Inr (s, j)"
  shows "i < length str \<and> (j = i + 1 \<or> (\<exists>i' k' acc'. i < i' \<and> parse_chars str idx i' k' acc' = Inr (s, j)))"
  using assms
  by (subst (asm) parse_chars.simps) (force simp: Let_def split: if_splits option.splits prod.splits)

lemma parse_chars_advances: "parse_chars str idx i k acc = Inr (s, j) \<Longrightarrow> i < j \<and> j \<le> length str"
proof (induction "length str - i" arbitrary: i k acc rule: less_induct)
  case less
  from parse_chars_cases [OF less(2)] show ?case
  proof (elim conjE disjE exE)
    fix i' k' acc'
    assume "i < length str" "i < i'" "parse_chars str idx i' k' acc' = Inr (s, j)"
    with less(1) [of i' k' acc'] show ?thesis by (simp add: diff_less_mono2)
  qed simp
qed

lemma parse_string_advances: "parse_string str i = Inr (s, j) \<Longrightarrow> i < j \<and> j \<le> length str"
  by (auto simp: parse_string_def dest!: parse_chars_advances split: if_splits)

text \<open>
  One bound for each of the three procedures: the parser never needs more than two levels of recursion for
  a byte of input.
\<close>

definition parse_fuel :: "parse_task \<Rightarrow> nat \<Rightarrow> nat" where
  "parse_fuel task left = (case task of PValue \<Rightarrow> 2 * left + 1 | _ \<Rightarrow> 2 * left + 2)"

definition parsed :: "nat \<Rightarrow> bytes \<Rightarrow> (jheap \<times> lval \<times> nat) jres \<Rightarrow> bool" where
  "parsed i str r \<longleftrightarrow> safe_res (\<lambda>(h, v, j). i \<le> j \<and> j \<le> length str) r"

lemma parsed_simps [simp]:
  "parsed i str (Some (Inl e))" "parsed i str (Some (Inr (h, v, j))) \<longleftrightarrow> i \<le> j \<and> j \<le> length str"
  by (simp_all add: parsed_def safe_res_def)

lemma parsed_bind:
  assumes "parsed i str r" and "\<And>h v j. i \<le> j \<Longrightarrow> j \<le> length str \<Longrightarrow> parsed i' str (f (h, v, j))"
  shows "parsed i' str (bind_res r f)"
  using assms unfolding parsed_def by (elim safe_bind) auto

lemma parsed_mono: "parsed j str r \<Longrightarrow> i \<le> j \<Longrightarrow> parsed i str r"
  by (auto simp: parsed_def safe_res_def split: option.splits sum.splits)

lemma parse_enough:
  "parse_fuel task (length str - i) \<le> f \<Longrightarrow> i \<le> length str \<Longrightarrow> parsed i str (parse f nul str task h i)"
proof (induction f arbitrary: task h i)
  case 0
  then show ?case by (cases task) (simp_all add: parse_fuel_def)
next
  case (Suc f)
  have rec: "parsed j str (parse f nul str task' h' j')"
    if "j \<le> j'" "j' \<le> length str" "parse_fuel task' (length str - j') \<le> f" for task' h' j j'
    using Suc.IH [OF that(3,2)] that(1) by (rule parsed_mono)
  have space: "i \<le> next_char str j is_space True" "next_char str j is_space True \<le> length str"
    if "i \<le> j" "j \<le> length str" for j
    using next_char_ge [OF that(2)] next_char_le that(1) by (auto intro: order_trans)
  have delim: "i \<le> next_char str i is_delim False" "next_char str i is_delim False \<le> length str"
    using next_char_ge [OF Suc.prems(2)] next_char_le by auto
  have tail: "parsed i str (if length str \<le> next_char str j is_space True then Some (Inl e)
      else if str ! next_char str j is_space True = c then Some (Inr (h', v, next_char str j is_space True + 1))
      else if str ! next_char str j is_space True \<noteq> c' then Some (Inl e')
      else parse f nul str task' h'' (next_char str j is_space True + 1))"
    if "i \<le> j" "j \<le> length str" "2 * (length str - i) + 1 \<le> f" "\<And>left. parse_fuel task' left = 2 * left + 2"
    for j e e' c c' h' h'' v task'
    using space [OF that(1,2)] that(3,4) by (auto intro!: rec)
  show ?case
  proof (cases task)
    case PValue
    with Suc.prems have f: "2 * (length str - i) \<le> f" by (simp add: parse_fuel_def)
    have s: "parsed i str (bind_res (Some (parse_string str i)) (\<lambda>(s, j). Some (Inr (h, LStr s, j))))"
      by (cases "parse_string str i") (auto simp: bind_res_def dest: parse_string_advances)
    have n: "parsed i str (bind_res (Some (parse_number str i)) (\<lambda>(d, j). Some (Inr (h, LNum d, j))))"
      using delim by (auto simp: bind_res_def parse_number_def Let_def split: prod.splits)
    have l: "parsed i str (bind_res (Some (parse_literal nul str i)) (\<lambda>(v, j). Some (Inr (h, v, j))))"
      using delim by (auto simp: bind_res_def parse_literal_def Let_def)
    have "parsed i str (parse f nul str (PArray a n) h' (i + 1))" "parsed i str (parse f nul str (PObject a) h' (i + 1))"
      if "i < length str" for a n h'
      using that f by (auto intro!: rec simp: parse_fuel_def)
    with s n l show ?thesis using PValue by (simp add: parse_value_def Let_def)
  next
    case (PArray a n)
    with Suc.prems have f: "2 * (length str - i) + 1 \<le> f" by (simp add: parse_fuel_def)
    note i1 = space [OF order_refl Suc.prems(2)]
    have "parsed i str (parse f nul str PValue h (next_char str i is_space True))"
      using i1 f by (intro rec) (simp_all add: parse_fuel_def)
    then show ?thesis unfolding PArray parse.simps parse_task.case parse_array_def Let_def
      using i1 f by (auto simp: parse_fuel_def intro!: parsed_bind tail)
  next
    case (PObject a)
    with Suc.prems have f: "2 * (length str - i) + 1 \<le> f" by (simp add: parse_fuel_def)
    note i1 = space [OF order_refl Suc.prems(2)]
    have v: "parsed i str (parse f nul str PValue h (next_char str (j + 1) is_space True))"
      if "i \<le> j" "j < length str" for j
      using space [of "j + 1"] that f by (intro rec) (simp_all add: parse_fuel_def)
    have k: "i \<le> next_char str j is_space True"
      if "parse_string str (next_char str i is_space True) = Inr (s, j)" for s j
      using parse_string_advances [OF that] i1 space [of j] by simp
    show ?thesis
    proof (cases "parse_string str (next_char str i is_space True)")
      case (Inr kj)
      obtain key j where kj: "kj = (key, j)" by fastforce
      note i2 = k [OF Inr [unfolded kj]]
      show ?thesis unfolding PObject parse.simps parse_task.case parse_object_def Let_def Inr kj
        using i1 i2 f by (auto simp: parse_fuel_def bind_res_def [of "Some _"] intro!: parsed_bind tail v [simplified])
    qed (use i1 in \<open>auto simp: PObject parse_object_def Let_def bind_res_def\<close>)
  qed
qed

text \<open>
  (C16) Decoding is total: for every argument and every heap \<open>json_decode\<close> returns a value or raises one of
  its errors. In particular the bound on the recursion in the model is never reached, so the code does not
  run forever on any input.
\<close>

theorem json_decode_total: "\<exists>r. json_decode nul h arg = Some r"
proof (cases arg)
  case (LStr str)
  have "parsed (next_char str 0 is_space True) str
      (parse (2 * length str + 2) nul str PValue h (next_char str 0 is_space True))"
    using next_char_le by (intro parse_enough) (simp_all add: parse_fuel_def)
  then show ?thesis
    by (auto simp: json_decode_def LStr parsed_def safe_res_def bind_res_def Let_def simp del: parse.simps
        split: option.splits sum.splits)
qed (simp_all add: json_decode_def)
section \<open>Strings\<close>

lemma drop_ConsD:
  assumes "drop i str = c # rest"
  shows "i < length str" and "str ! i = c" and "drop (Suc i) str = rest"
proof -
  show l: "i < length str" using assms by (cases "i < length str") simp_all
  then show "str ! i = c" "drop (Suc i) str = rest" using assms Cons_nth_drop_Suc [OF l] by simp_all
qed

lemma span_Suc: "k \<le> i \<Longrightarrow> i < length str \<Longrightarrow> span str k (Suc i) = span str k i @ [str ! i]"
  by (simp add: span_def Suc_diff_le take_Suc_conv_app_nth)

lemma span_same [simp]: "span str i i = []"
  by (simp add: span_def)

lemma escape_cases:
  obtains "esc_text c = [c]" and "\<not> c < 32" and "c \<noteq> 0x5c" and "c \<noteq> 0x22"
  | x where "esc_text c = [0x5c, x]" and "x \<noteq> 0x75" and "simple_escape x = Some c"
  | "c < 32" and "esc_text c = [0x5c, 0x75, 0x30, 0x30, hex_digit (unat c div 16), hex_digit (unat c mod 16)]"
proof (cases "c \<in> {0x5c, 0x22, 8, 0x0c, 0x0a, 0x0d, 9}")
  case True
  then have "\<exists>x. esc_text c = [0x5c, x] \<and> x \<noteq> 0x75 \<and> simple_escape x = Some c"
    by (auto simp: esc_text_def escape_def simple_escape_def)
  with that(2) show ?thesis by blast
next
  case False
  with that(1,3) show ?thesis by (cases "c < 32") (simp_all add: esc_text_def escape_def)
qed

lemma hex_escape:
  assumes "c < 32"
  shows "is_hex (hex_digit (unat c div 16)) \<and> is_hex (hex_digit (unat c mod 16))
    \<and> hex4 [0x30, 0x30, hex_digit (unat c div 16), hex_digit (unat c mod 16)] = ucast c
    \<and> codepoint_to_utf8 (ucast c) = Some [c]"
proof -
  let ?P = "\<lambda>n. is_hex (hex_digit (n div 16)) \<and> is_hex (hex_digit (n mod 16))
    \<and> hex4 [0x30, 0x30, hex_digit (n div 16), hex_digit (n mod 16)] = word_of_nat n
    \<and> codepoint_to_utf8 (word_of_nat n) = Some [word_of_nat n]"
  have "list_all ?P [0..<32]" by code_simp
  then have all: "\<forall>n \<in> set [0..<32]. ?P n" by (simp only: list_all_iff)
  have "unat c \<in> set [0..<32]" using assms by (simp add: word_less_nat_alt)
  from bspec [OF all this] have "?P (unat c)" .
  then show ?thesis by simp
qed

lemma parse_chars_text:
  "drop i str = concat (map esc_text cs) @ 0x22 # rest \<Longrightarrow> k \<le> i \<Longrightarrow>
     parse_chars str idx i k acc = Inr (acc @ span str k i @ cs, i + length (concat (map esc_text cs)) + 1)"
proof (induction cs arbitrary: i k acc)
  case Nil
  then show ?case using drop_ConsD [of i str "0x22" rest] by (subst parse_chars.simps) (simp add: Let_def)
next
  case (Cons c cs)
  let ?r = "concat (map esc_text cs) @ 0x22 # rest"
  have d: "drop i str = esc_text c @ ?r" using Cons.prems(1) by simp
  show ?case
  proof (rule escape_cases [of c])
    assume e: "esc_text c = [c]" and c: "\<not> c < 32" "c \<noteq> 0x5c" "c \<noteq> 0x22"
    with d have i: "i < length str" "str ! i = c" "drop (Suc i) str = ?r" using drop_ConsD [of i str c ?r] by simp_all
    then have "parse_chars str idx i k acc = parse_chars str idx (Suc i) k acc"
      using c by (subst parse_chars.simps) (simp add: Let_def)
    with Cons.IH [OF i(3), of k acc] Cons.prems(2) i e show ?thesis by (simp add: span_Suc)
  next
    fix x
    assume e: "esc_text c = [0x5c, x]" and x: "x \<noteq> 0x75" "simple_escape x = Some c"
    with d have i: "i < length str" "str ! i = 0x5c" "drop (Suc i) str = x # ?r"
      using drop_ConsD [of i str "0x5c" "x # ?r"] by simp_all
    have i': "Suc i < length str" "str ! Suc i = x" "drop (Suc (Suc i)) str = ?r" using drop_ConsD [OF i(3)] by simp_all
    have "parse_chars str idx i k acc = parse_chars str idx (i + 2) (i + 2) (acc @ span str k i @ [c])"
      using i i' x by (subst parse_chars.simps) (simp add: Let_def)
    moreover have "drop (i + 2) str = ?r" using i'(3) by simp
    ultimately show ?thesis using Cons.IH [of "i + 2" "i + 2"] e by simp
  next
    let ?a = "hex_digit (unat c div 16)" and ?b = "hex_digit (unat c mod 16)"
    assume c: "c < 32" and e: "esc_text c = [0x5c, 0x75, 0x30, 0x30, ?a, ?b]"
    note hex = hex_escape [OF c]
    have d: "drop i str = [0x5c, 0x75, 0x30, 0x30, ?a, ?b] @ ?r" using d e by simp
    have len: "i + 6 < length str" using arg_cong [OF d, of length] by simp
    have nth: "str ! (i + j) = ([0x5c, 0x75, 0x30, 0x30, ?a, ?b] @ ?r) ! j" for j
      using len arg_cong [OF d, of "\<lambda>l. l ! j"] by simp
    have d2: "drop (i + 2) str = 0x30 # 0x30 # ?a # ?b # ?r"
      using arg_cong [OF d, of "drop 2"] by (simp add: add.commute)
    have "unicode_escape str (i + 2) = Some (ucast c, 4)"
      unfolding unicode_escape_def Let_def d2
      using hex by (simp add: is_high_surrogate_hex_def hex4_def is_hex_def [of "0x30"])
    then have "parse_chars str idx i k acc = parse_chars str idx (i + 6) (i + 6) (acc @ span str k i @ [c])"
      using len nth [of 0] nth [of 1] hex by (subst parse_chars.simps) (simp add: Let_def add.commute [of i])
    moreover have "drop (i + 6) str = ?r" using arg_cong [OF d, of "drop 6"] by (simp add: add.commute)
    ultimately show ?thesis using Cons.IH [of "i + 6" "i + 6"] e by simp
  qed
qed

lemma parse_string_text:
  assumes "drop i str = str_text s @ rest"
  shows "parse_string str i = Inr (s, i + length (str_text s))"
proof -
  have d: "drop i str = 0x22 # concat (map esc_text s) @ 0x22 # rest" using assms by (simp add: str_text_def)
  note i = drop_ConsD [OF d]
  show ?thesis
    using parse_chars_text [OF i(3), of "i + 1"] i(1,2) by (simp add: parse_string_def str_text_def)
qed
section \<open>Reading back a text\<close>

definition ends :: "bytes \<Rightarrow> bool" where
  "ends rest \<longleftrightarrow> rest = [] \<or> is_delim (hd rest)"

lemma ends_simps [simp]: "ends []" "ends (0x5d # r)" "ends (0x7d # r)" "ends (0x2c # r)"
  by (simp_all add: ends_def is_delim_def)

lemma next_char_here: "drop i str = c # rest \<Longrightarrow> \<not> is_space c \<Longrightarrow> next_char str i is_space True = i"
  using drop_ConsD [of i str c rest] by (subst next_char.simps) simp

lemma next_char_word:
  "drop i str = w @ rest \<Longrightarrow> list_all (\<lambda>c. \<not> is_delim c) w \<Longrightarrow> ends rest
     \<Longrightarrow> i \<le> length str \<Longrightarrow> next_char str i is_delim False = i + length w"
proof (induction w arbitrary: i)
  case Nil
  show ?case
  proof (cases rest)
    case (Cons c r)
    with Nil show ?thesis using drop_ConsD [of i str c r] by (subst next_char.simps) (simp add: ends_def)
  qed (use Nil in \<open>subst next_char.simps, simp\<close>)
next
  case (Cons c w)
  then have "drop i str = c # w @ rest" by simp
  note i = drop_ConsD [OF this]
  with Cons show ?case by (subst next_char.simps) simp
qed

lemma span_word: "drop i str = w @ rest \<Longrightarrow> span str i (i + length w) = w"
  by (simp add: span_def)

lemma digit_not_delim: "is_digit c \<Longrightarrow> \<not> is_delim c" "is_digit c \<Longrightarrow> c \<noteq> 0"
  by (auto simp: is_digit_def is_delim_def is_space_def word_le_nat_alt)

lemma int_text_chars: "list_all (\<lambda>c. \<not> is_delim c) (int_text z)" "0 \<notin> set (int_text z)"
proof -
  obtain c ds where c: "int_text z = c # ds" "c = 0x2d \<or> is_digit c" "list_all is_digit ds" by (rule int_text_Cons)
  then show "list_all (\<lambda>c. \<not> is_delim c) (int_text z)" "0 \<notin> set (int_text z)"
    using digit_not_delim by (auto simp: list_all_iff is_delim_def is_space_def)
qed

lemma parse_number_int:
  assumes d: "drop i str = int_text z @ rest" and "ends rest" and i: "i \<le> length str" and z: "\<bar>z\<bar> < 10 ^ 14"
  shows "parse_number str i = Inr (dbl_of_int z, i + length (int_text z))"
proof -
  have n: "next_char str i is_delim False = i + length (int_text z)"
    using next_char_word [OF d int_text_chars(1) assms(2) i] .
  have t: "takeWhile (\<lambda>c. c \<noteq> 0) (int_text z) = int_text z"
    using int_text_chars(2) [of z] by (auto simp: takeWhile_eq_all_conv)
  have "int_text z \<noteq> []" by (metis int_text_Cons list.distinct(1))
  with int_text_length [OF z] show ?thesis
    by (simp add: parse_number_def n span_word [OF d] t strtod_int dbl_round_int [OF z] del: One_nat_def)
qed

lemma rep_frame:
  "rep lo h v t \<Longrightarrow> lo' \<le> lo \<Longrightarrow> (\<And>a. lo \<le> a \<Longrightarrow> a < length h \<Longrightarrow> a < length h' \<and> h' ! a = h ! a) \<Longrightarrow> rep lo' h' v t"
proof (induction rule: rep.induct)
  case (rep_arr a vs ts)
  then show ?case by (intro rep.rep_arr) auto
next
  case (rep_obj a m)
  then show ?case by (intro rep.rep_obj) auto
qed (auto intro: rep.intros)

lemma rep_not_nil: "rep lo h v t \<Longrightarrow> v \<noteq> LNil"
  by (induction rule: rep.induct) (simp_all add: json_null_def)

text \<open>What the induction on texts shows: the parser reads exactly the text and builds a value in new tables.\<close>

definition parses :: "jtree \<Rightarrow> bytes \<Rightarrow> bool" where
  "parses t s \<longleftrightarrow>
     (\<forall>str i rest h f. drop i str = s @ rest \<longrightarrow> ends rest \<longrightarrow> 2 * (length str - i) + 1 \<le> f \<longrightarrow>
        (\<exists>k v. parse f json_null str PValue h i = Some (Inr (h @ k, v, i + length s)) \<and> rep (length h) (h @ k) v t))"

lemma parsesD:
  assumes "parses t s" and "drop i str = s @ rest" and "ends rest" and "2 * (length str - i) + 1 \<le> f"
  obtains k v where "parse f json_null str PValue h i = Some (Inr (h @ k, v, i + length s))"
    and "rep (length h) (h @ k) v t"
  using assms unfolding parses_def by blast

lemma text_starts: "jtext t s \<Longrightarrow> \<exists>c s'. s = c # s' \<and> \<not> is_space c \<and> c \<noteq> 0x5d \<and> c \<noteq> 0x7d"
proof (induction rule: jtext.induct)
  case (jtext_int z)
  obtain c ds where c: "int_text z = c # ds" "c = 0x2d \<or> is_digit c" by (rule int_text_Cons)
  then have "\<not> is_delim c" using digit_not_delim by (auto simp: is_delim_def is_space_def)
  with c show ?case by (auto simp: is_delim_def)
qed (auto simp: asc_def is_space_def str_text_def)

definition arr_tab :: "lval list \<Rightarrow> jtable" where
  "arr_tab vs = \<lparr>jt_entries = array_pairs 1 vs, jt_mt = ArrayMT\<rparr>"

definition obj_tab :: "bytes list \<Rightarrow> lval list \<Rightarrow> jtable" where
  "obj_tab ks vs = \<lparr>jt_entries = zip (map LStr ks) vs, jt_mt = ObjectMT\<rparr>"

lemma array_pairs_snoc: "array_pairs j (vs @ [v]) = array_pairs j vs @ [(LNum (dbl_of_nat (j + length vs)), v)]"
  by (induction vs arbitrary: j) simp_all

lemma jput_array:
  assumes "a < length h" and "h ! a = arr_tab vs" and "v \<noteq> LNil" and "length vs < 2 ^ 31"
  shows "jput h a (LNum (dbl_of_nat (length vs + 1))) v = h[a := arr_tab (vs @ [v])]"
proof -
  let ?n = "length vs + 1"
  have n: "key_of (LNum (dbl_of_nat ?n)) = LNum (dbl_of_nat ?n)"
    using assms(4) by (simp add: key_of_def dbl_canon_of_nat)
  have "LNum (dbl_of_nat ?n) \<notin> fst ` set (array_pairs 1 vs)"
  proof
    assume "LNum (dbl_of_nat ?n) \<in> fst ` set (array_pairs 1 vs)"
    then obtain i where i: "i < length vs" "dbl_of_nat ?n = dbl_of_nat (1 + i)"
      by (auto simp: set_array_pairs)
    with dbl_of_nat_inj [OF i(2)] assms(4) show False by simp
  qed
  then have "jset (array_pairs 1 vs) (LNum (dbl_of_nat ?n)) v = array_pairs 1 (vs @ [v])"
    using assms(3) n by (simp add: jset_def rawset_def table_set_new array_pairs_snoc)
  with assms(1,2) show ?thesis by (simp add: jput_def jtab_def arr_tab_def)
qed

lemma jput_object:
  assumes "a < length h" and "h ! a = obj_tab ks vs" and "v \<noteq> LNil" and "length ks = length vs" and "k \<notin> set ks"
  shows "jput h a (LStr k) v = h[a := obj_tab (ks @ [k]) (vs @ [v])]"
proof -
  have "LStr k \<notin> fst ` set (zip (map LStr ks) vs)"
    using assms(5) by (auto dest: set_zip_leftD)
  then have "jset (zip (map LStr ks) vs) (LStr k) v = zip (map LStr (ks @ [k])) (vs @ [v])"
    using assms(3,4) by (simp add: jset_def rawset_def key_of_def table_set_new)
  with assms(1,2) show ?thesis by (simp add: jput_def jtab_def obj_tab_def)
qed
text \<open>A table under construction: new tables come behind it, and only its own entry changes.\<close>

lemma reps_frame:
  assumes "list_all2 (rep lo h) vs ts" and "\<And>b. lo \<le> b \<Longrightarrow> b < length h \<Longrightarrow> b < length h' \<and> h' ! b = h ! b"
  shows "list_all2 (rep lo h') vs ts"
  using assms(1) by (rule list_all2_mono) (rule rep_frame [OF _ order_refl assms(2)])

lemma reps_step:
  assumes old: "list_all2 (rep (Suc a) h) vs us" and new: "rep (length h) (h @ k) v t" and a: "a < length h"
  shows "list_all2 (rep (Suc a) ((h @ k)[a := T])) (vs @ [v]) (us @ [t])"
proof -
  have "list_all2 (rep (Suc a) ((h @ k)[a := T])) vs us"
    using old by (rule reps_frame) (simp add: nth_append)
  moreover have "rep (Suc a) ((h @ k)[a := T]) v t"
    using new a by (intro rep_frame [OF new]) simp_all
  ultimately show ?thesis by (simp add: list_all2_appendI)
qed

lemma take_update: "take a ((h @ k)[a := T]) = take a h" if "a < length h"
  using that by (simp add: take_update_cancel)

lemma commas_Cons2: "commas (s # s' # ss) = s @ 0x2c # commas (s' # ss)"
  by simp

lemma parse_elems:
  "list_all2 parses ts ss \<Longrightarrow> ts \<noteq> [] \<Longrightarrow> list_all (\<lambda>s. \<exists>t. jtext t s) ss \<Longrightarrow> a < length h \<Longrightarrow> h ! a = arr_tab vs
   \<Longrightarrow> list_all2 (rep (Suc a) h) vs us \<Longrightarrow> length vs + length ts \<le> 2 ^ 31
   \<Longrightarrow> drop i str = commas ss @ 0x5d # rest \<Longrightarrow> 2 * (length str - i) + 2 \<le> f
   \<Longrightarrow> \<exists>h' ws. parse f json_null str (PArray a (length vs + 1)) h i
           = Some (Inr (h', LTable a, i + length (commas ss) + 1))
         \<and> take a h' = take a h \<and> a < length h' \<and> h' ! a = arr_tab ws \<and> list_all2 (rep (Suc a) h') ws (us @ ts)"
proof (induction ts arbitrary: ss h vs us i f)
  case (Cons t ts)
  obtain s ss' where ss: "ss = s # ss'" "parses t s" "list_all2 parses ts ss'" using Cons.prems(1) by (auto simp: list_all2_Cons1)
  obtain g where f: "f = Suc g" "2 * (length str - i) + 1 \<le> g" using Cons.prems(9) by (cases f) auto
  define rest' where "rest' = (if ss' = [] then 0x5d # rest else 0x2c # commas ss' @ 0x5d # rest)"
  have d: "drop i str = s @ rest'" using Cons.prems(8) ss(1) by (cases ss') (simp_all add: rest'_def)
  obtain c s' where c: "s = c # s'" "\<not> is_space c" "c \<noteq> 0x5d" using Cons.prems(3) ss(1) text_starts by fastforce
  have i: "next_char str i is_space True = i" "str ! i \<noteq> 0x5d"
    using next_char_here [of i str c] drop_ConsD [of i str c] d c by simp_all
  have "ends rest'" by (simp add: rest'_def)
  then obtain k v where p: "parse g json_null str PValue h i = Some (Inr (h @ k, v, i + length s))" "rep (length h) (h @ k) v t"
    by (rule parsesD [OF ss(2) d _ f(2)])
  let ?h = "(h @ k)[a := arr_tab (vs @ [v])]"
  have put: "jput (h @ k) a (LNum (dbl_of_nat (length vs + 1))) v = ?h"
    using Cons.prems(4,5,7) rep_not_nil [OF p(2)] by (intro jput_array) (simp_all add: nth_append)
  have reps: "list_all2 (rep (Suc a) ?h) (vs @ [v]) (us @ [t])" using reps_step [OF Cons.prems(6) p(2) Cons.prems(4)] by blast
  have d2: "drop (i + length s) str = rest'" using d by (metis add.commute append_eq_conv_conj drop_drop)
  note prems = Cons.prems and IH = Cons.IH
  show ?case
  proof (cases ss')
    case Nil
    have j: "next_char str (i + length s) is_space True = i + length s" "i + length s < length str" "str ! (i + length s) = 0x5d"
      using next_char_here [of "i + length s" str "0x5d" rest] drop_ConsD [of "i + length s" str "0x5d" rest] d2 Nil
      by (simp_all add: rest'_def is_space_def)
    have "ts = []" using ss(3) Nil by simp
    then show ?thesis
      using i p put j reps Nil ss(1) Cons.prems(4) f(1) take_update [OF Cons.prems(4)]
      by (auto simp: parse_array_def bind_res_def Let_def)
  next
    case (Cons s2 ss2)
    let ?j = "i + length s"
    have j: "next_char str ?j is_space True = ?j" "?j < length str" "str ! ?j = 0x2c"
        "drop (Suc ?j) str = commas ss' @ 0x5d # rest"
      using next_char_here [of ?j str "0x2c"] drop_ConsD [of ?j str "0x2c"] d2 Cons
      by (simp_all add: rest'_def is_space_def)
    have "parse f json_null str (PArray a (length vs + 1)) h i
        = parse g json_null str (PArray a (length (vs @ [v]) + 1)) ?h (Suc ?j)"
      using i p put j f(1) by (simp add: parse_array_def bind_res_def Let_def)
    moreover have "\<exists>h' ws. parse g json_null str (PArray a (length (vs @ [v]) + 1)) ?h (Suc ?j)
           = Some (Inr (h', LTable a, Suc ?j + length (commas ss') + 1))
         \<and> take a h' = take a ?h \<and> a < length h' \<and> h' ! a = arr_tab ws
         \<and> list_all2 (rep (Suc a) h') ws ((us @ [t]) @ ts)"
      using prems ss reps j f Cons by (intro IH) auto
    moreover have "Suc ?j + length (commas ss') = i + length (commas ss)" using ss(1) Cons by (simp add: commas_Cons2)
    ultimately show ?thesis using take_update [OF prems(4)] by auto
  qed
qed simp
lemma parse_key:
  assumes d: "drop i str = field_text key s @ rest"
    and s: "\<exists>t. jtext t s"
  shows "next_char str i is_space True = i" "i < length str" "str ! i = 0x22"
    "parse_string str i = Inr (key, i + length (str_text key))"
    "next_char str (i + length (str_text key)) is_space True = i + length (str_text key)"
    "i + length (str_text key) < length str" "str ! (i + length (str_text key)) = 0x3a"
    "next_char str (Suc (i + length (str_text key))) is_space True = Suc (i + length (str_text key))"
    "drop (Suc (i + length (str_text key))) str = s @ rest"
proof -
  let ?j = "i + length (str_text key)"
  have d1: "drop i str = str_text key @ 0x3a # s @ rest" using d by (simp add: field_text_def)
  then have d0: "drop i str = 0x22 # tl (str_text key) @ 0x3a # s @ rest" by (simp add: str_text_def)
  show "next_char str i is_space True = i" "i < length str" "str ! i = 0x22"
    using next_char_here [OF d0] drop_ConsD [OF d0] by (simp_all add: is_space_def)
  show "parse_string str i = Inr (key, ?j)" by (rule parse_string_text [OF d1])
  have d2: "drop ?j str = 0x3a # s @ rest" using d1 by (metis add.commute append_eq_conv_conj drop_drop)
  show "next_char str ?j is_space True = ?j" "?j < length str" "str ! ?j = 0x3a" "drop (Suc ?j) str = s @ rest"
    using next_char_here [OF d2] drop_ConsD [OF d2] by (simp_all add: is_space_def)
  obtain c s' where c: "s = c # s'" "\<not> is_space c" using s text_starts by fastforce
  then show "next_char str (Suc ?j) is_space True = Suc ?j"
    using next_char_here [of "Suc ?j" str c "s' @ rest"] drop_ConsD(3) [OF d2] by simp
qed

lemma parse_fields:
  "list_all2 parses ts ss \<Longrightarrow> ts \<noteq> [] \<Longrightarrow> length ks = length ts \<Longrightarrow> list_all (\<lambda>s. \<exists>t. jtext t s) ss \<Longrightarrow> a < length h
   \<Longrightarrow> h ! a = obj_tab ks0 vs \<Longrightarrow> length ks0 = length vs \<Longrightarrow> distinct (ks0 @ ks) \<Longrightarrow> list_all2 (rep (Suc a) h) vs us
   \<Longrightarrow> drop i str = commas (map2 field_text ks ss) @ 0x7d # rest \<Longrightarrow> 2 * (length str - i) + 2 \<le> f
   \<Longrightarrow> \<exists>h' ws. parse f json_null str (PObject a) h i
           = Some (Inr (h', LTable a, i + length (commas (map2 field_text ks ss)) + 1))
         \<and> take a h' = take a h \<and> a < length h' \<and> h' ! a = obj_tab (ks0 @ ks) ws \<and> list_all2 (rep (Suc a) h') ws (us @ ts)"
proof (induction ts arbitrary: ss ks ks0 h vs us i f)
  case (Cons t ts)
  note prems = Cons.prems and IH = Cons.IH
  obtain s ss' where ss: "ss = s # ss'" "parses t s" "list_all2 parses ts ss'" using prems(1) by (auto simp: list_all2_Cons1)
  obtain key ks' where ks: "ks = key # ks'" "length ks' = length ts" using prems(3) by (cases ks) auto
  have len: "length ss' = length ts" using ss(3) by (simp add: list_all2_lengthD)
  obtain g where f: "f = Suc g" "2 * (length str - i) + 1 \<le> g" using prems(11) by (cases f) auto
  define rest' where "rest' = (if ss' = [] then 0x7d # rest else 0x2c # commas (map2 field_text ks' ss') @ 0x7d # rest)"
  have d: "drop i str = field_text key s @ rest'"
    using prems(10) ss(1) ks len by (cases ss'; cases ks') (simp_all add: rest'_def)
  have "\<exists>t. jtext t s" using prems(4) ss(1) by simp
  note key = parse_key [OF d this]
  let ?v = "Suc (i + length (str_text key))"
  have "ends rest'" by (simp add: rest'_def)
  moreover have "2 * (length str - ?v) + 1 \<le> g" using f(2) key(6) by linarith
  ultimately obtain k v where p: "parse g json_null str PValue h ?v = Some (Inr (h @ k, v, ?v + length s))" "rep (length h) (h @ k) v t"
    by (rule parsesD [OF ss(2) key(9)])
  let ?h = "(h @ k)[a := obj_tab (ks0 @ [key]) (vs @ [v])]"
  have put: "jput (h @ k) a (LStr key) v = ?h"
    using prems(5-8) rep_not_nil [OF p(2)] ks by (intro jput_object) (simp_all add: nth_append)
  have reps: "list_all2 (rep (Suc a) ?h) (vs @ [v]) (us @ [t])" using reps_step [OF prems(9) p(2) prems(5)] by blast
  let ?j = "?v + length s"
  have d2: "drop ?j str = rest'" using key(9) by (metis add.commute append_eq_conv_conj drop_drop)
  have ft: "length (field_text key s) = Suc (length (str_text key) + length s)" by (simp add: field_text_def)
  show ?case
  proof (cases ss')
    case Nil
    have j: "next_char str ?j is_space True = ?j" "?j < length str" "str ! ?j = 0x7d"
      using next_char_here [of ?j str "0x7d" rest] drop_ConsD [of ?j str "0x7d" rest] d2 Nil
      by (simp_all add: rest'_def is_space_def)
    have "ts = []" "ks' = []" using len Nil ks(2) by simp_all
    then show ?thesis
      using key p put j reps Nil ss(1) ks(1) prems(5) f(1) take_update [OF prems(5)] ft
      by (auto simp: parse_object_def bind_res_def Let_def)
  next
    case (Cons s2 ss2)
    have j: "next_char str ?j is_space True = ?j" "?j < length str" "str ! ?j = 0x2c"
        "drop (Suc ?j) str = commas (map2 field_text ks' ss') @ 0x7d # rest"
      using next_char_here [of ?j str "0x2c"] drop_ConsD [of ?j str "0x2c"] d2 Cons
      by (simp_all add: rest'_def is_space_def)
    have "parse f json_null str (PObject a) h i = parse g json_null str (PObject a) ?h (Suc ?j)"
      using key p put j f(1) by (simp add: parse_object_def bind_res_def Let_def)
    moreover have "\<exists>h' ws. parse g json_null str (PObject a) ?h (Suc ?j)
           = Some (Inr (h', LTable a, Suc ?j + length (commas (map2 field_text ks' ss')) + 1))
         \<and> take a h' = take a ?h \<and> a < length h' \<and> h' ! a = obj_tab ((ks0 @ [key]) @ ks') ws
         \<and> list_all2 (rep (Suc a) h') ws ((us @ [t]) @ ts)"
      using prems ss ks reps j f Cons by (intro IH) auto
    moreover have "Suc ?j + length (commas (map2 field_text ks' ss')) = i + length (commas (map2 field_text ks ss))"
      using ss(1) ks Cons ft len by (cases ks') simp_all
    ultimately show ?thesis using take_update [OF prems(5)] ks(1) by auto
  qed
qed simp
lemma take_eq_append: "take (length h) h' = h \<Longrightarrow> \<exists>k. h' = h @ k"
  by (metis append_take_drop_id)

lemma rep_arr_tab:
  assumes "a < length h" and "h ! a = arr_tab ws" and "list_all2 (rep (Suc a) h) ws ts" and "length ts < 2 ^ 31"
  shows "rep a h (LTable a) (JArr ts)"
proof (rule rep_arr)
  have "length ws = length ts" using assms(3) by (rule list_all2_lengthD)
  then show "array_table (h ! a) ws"
    using assms(2,4) array_pairs_distinct [of 1 ws] by (simp add: array_table_def arr_tab_def)
  show "\<forall>i<length ts. rep a h (ws ! i) (ts ! i)"
    using assms(3) rep_frame [of "Suc a" h _ _ a h] by (auto simp: list_all2_conv_all_nth)
qed (use assms in \<open>auto simp: list_all2_lengthD\<close>)

lemma map_of_strings:
  "length ks = length vs \<Longrightarrow> map_of (zip (map LStr ks) vs) (LStr s) = map_of (zip ks vs) s"
  by (induction ks vs rule: list_induct2) simp_all

lemma rep_obj_tab:
  assumes "a < length h" and "h ! a = obj_tab ks ws" and "list_all2 (rep (Suc a) h) ws (map (\<lambda>k. the (m k)) ks)"
    and "distinct ks" and "set ks = dom m"
  shows "rep a h (LTable a) (JObj m)"
proof (rule rep_obj)
  have len: "length ws = length ks" using assms(3) by (simp add: list_all2_conv_all_nth)
  have f: "field (h ! a) s = map_of (zip ks ws) s" for s
    using assms(2) len by (simp add: field_def obj_tab_def map_of_strings)
  then have "field (h ! a) = map_of (zip ks ws)" by blast
  then show dom: "dom (field (h ! a)) = dom m" using assms(5) len by simp
  show "object_table (h ! a)"
    using assms(2,4) len by (auto simp: object_table_def obj_tab_def distinct_map inj_on_def dest!: set_zip_leftD)
  show "\<forall>s\<in>dom m. rep a h (the (field (h ! a) s)) (the (m s))"
  proof
    fix s assume "s \<in> dom m"
    then obtain j where j: "j < length ks" "s = ks ! j" using assms(5) by (metis in_set_conv_nth)
    then have "field (h ! a) s = Some (ws ! j)" using f assms(4) len by (simp add: map_of_zip_nth)
    moreover have "rep (Suc a) h (ws ! j) (the (m s))" using assms(3) j len by (auto simp: list_all2_conv_all_nth)
    ultimately show "rep a h (the (field (h ! a) s)) (the (m s))" using rep_frame [of "Suc a" h _ _ a h] by auto
  qed
qed (use assms in simp_all)

lemma parses_word:
  assumes "w = asc ''null'' \<and> v = json_null \<and> t = JNull \<or> w = asc ''true'' \<and> v = LBool True \<and> t = JBool True
    \<or> w = asc ''false'' \<and> v = LBool False \<and> t = JBool False"
  shows "parses t w"
  unfolding parses_def
proof (intro allI impI)
  fix str i rest h and f :: nat
  assume d: "drop i str = w @ rest" and e: "ends rest" and "2 * (length str - i) + 1 \<le> f"
  then obtain g where f: "f = Suc g" by (cases f) auto
  obtain c w' where c: "w = c # w'" "c = 0x74 \<or> c = 0x66 \<or> c = 0x6e" using assms by (auto simp: asc_def)
  have i: "i < length str" "str ! i = c" using drop_ConsD [of i str c] d c(1) by simp_all
  have "list_all (\<lambda>c. \<not> is_delim c) w" using assms by (auto simp: asc_def is_delim_def is_space_def)
  then have n: "next_char str i is_delim False = i + length w" using next_char_word [OF d _ e] i by simp
  have "parse_literal json_null str i = Inr (v, i + length w)"
    using assms by (auto simp: parse_literal_def n span_word [OF d] asc_def)
  then have "parse f json_null str PValue h i = Some (Inr (h @ [], v, i + length w))"
    using i c(2) by (auto simp: f parse_value_def bind_res_def)
  moreover have "rep (length h) (h @ []) v t" using assms by (auto intro: rep.intros)
  ultimately show "\<exists>k v. parse f json_null str PValue h i = Some (Inr (h @ k, v, i + length w)) \<and> rep (length h) (h @ k) v t"
    by blast
qed

lemma parses_int:
  assumes "\<bar>z\<bar> < 10 ^ 14"
  shows "parses (JInt z) (int_text z)"
  unfolding parses_def
proof (intro allI impI)
  fix str i rest h and f :: nat
  assume d: "drop i str = int_text z @ rest" and e: "ends rest" and "2 * (length str - i) + 1 \<le> f"
  then obtain g where f: "f = Suc g" by (cases f) auto
  obtain c ds where c: "int_text z = c # ds" "c = 0x2d \<or> is_digit c" by (rule int_text_Cons)
  have i: "i < length str" "str ! i = c" using drop_ConsD [of i str c] d c(1) by simp_all
  have "parse_number str i = Inr (dbl_of_int z, i + length (int_text z))"
    using i by (intro parse_number_int [OF d e _ assms]) simp
  moreover have "c \<noteq> 0x22" using c(2) by (auto simp: is_digit_def word_le_nat_alt)
  ultimately have "parse f json_null str PValue h i = Some (Inr (h @ [], LNum (dbl_of_int z), i + length (int_text z)))"
    using i c(2) by (auto simp: f parse_value_def bind_res_def is_digit_def)
  with rep_int [OF assms] show "\<exists>k v. parse f json_null str PValue h i = Some (Inr (h @ k, v, i + length (int_text z)))
      \<and> rep (length h) (h @ k) v (JInt z)"
    by blast
qed

lemma parses_str: "parses (JStr s) (str_text s)"
  unfolding parses_def
proof (intro allI impI)
  fix str i rest h and f :: nat
  assume d: "drop i str = str_text s @ rest" and "2 * (length str - i) + 1 \<le> f"
  then obtain g where f: "f = Suc g" by (cases f) auto
  have i: "i < length str" "str ! i = 0x22" using drop_ConsD [of i str "0x22"] d by (simp_all add: str_text_def)
  with parse_string_text [OF d] have "parse f json_null str PValue h i = Some (Inr (h @ [], LStr s, i + length (str_text s)))"
    by (simp add: f parse_value_def bind_res_def)
  with rep_str show "\<exists>k v. parse f json_null str PValue h i = Some (Inr (h @ k, v, i + length (str_text s)))
      \<and> rep (length h) (h @ k) v (JStr s)"
    by blast
qed

lemma parses_arr:
  assumes p: "list_all2 parses ts ss" and j: "list_all (\<lambda>s. \<exists>t. jtext t s) ss" and len: "length ts < 2 ^ 31"
  shows "parses (JArr ts) (0x5b # commas ss @ [0x5d])"
  unfolding parses_def
proof (intro allI impI)
  fix str i rest h and f :: nat
  let ?h = "h @ [arr_tab []]" and ?a = "length h"
  assume d: "drop i str = (0x5b # commas ss @ [0x5d]) @ rest" and f': "2 * (length str - i) + 1 \<le> f"
  then have "drop i str = 0x5b # commas ss @ 0x5d # rest" by simp
  note i = drop_ConsD [OF this]
  obtain g where f: "f = Suc g" "2 * (length str - Suc i) + 2 \<le> g" using f' i(1) by (cases f) auto
  have e: "parse f json_null str PValue h i = parse g json_null str (PArray ?a 1) ?h (Suc i)"
    using i by (simp add: f parse_value_def arr_tab_def)
  have "\<exists>h' ws. parse g json_null str (PArray ?a 1) ?h (Suc i) = Some (Inr (h', LTable ?a, Suc i + length (commas ss) + 1))
      \<and> take ?a h' = take ?a ?h \<and> ?a < length h' \<and> h' ! ?a = arr_tab ws \<and> list_all2 (rep (Suc ?a) h') ws ts"
  proof (cases "ts = []")
    case True
    with p have "ss = []" by simp
    with i have d: "drop (Suc i) str = 0x5d # rest" by simp
    obtain g' where "g = Suc g'" using f by (cases g) auto
    with True \<open>ss = []\<close> next_char_here [OF d] drop_ConsD [OF d] show ?thesis by (simp add: parse_array_def is_space_def)
  next
    case False
    then show ?thesis using parse_elems [OF p False j, of ?a ?h "[]" "[]" "Suc i" str rest g] i(3) f(2) len by simp
  qed
  then obtain h' ws where h': "parse f json_null str PValue h i = Some (Inr (h', LTable ?a, Suc i + length (commas ss) + 1))"
      "take ?a h' = h" "?a < length h'" "h' ! ?a = arr_tab ws" "list_all2 (rep (Suc ?a) h') ws ts"
    using e by auto
  moreover have "rep ?a h' (LTable ?a) (JArr ts)" using rep_arr_tab [OF h'(3-5) len] .
  ultimately show "\<exists>k v. parse f json_null str PValue h i = Some (Inr (h @ k, v, i + length (0x5b # commas ss @ [0x5d])))
      \<and> rep (length h) (h @ k) v (JArr ts)"
    using take_eq_append [OF h'(2)] by auto
qed

lemma parses_obj:
  assumes p: "list_all2 parses ts ss" and j: "list_all (\<lambda>s. \<exists>t. jtext t s) ss" and ks: "distinct ks" "set ks = dom m"
    and ts: "ts = map (\<lambda>k. the (m k)) ks"
  shows "parses (JObj m) (0x7b # commas (map2 field_text ks ss) @ [0x7d])"
  unfolding parses_def
proof (intro allI impI)
  fix str i rest h and f :: nat
  let ?h = "h @ [obj_tab [] []]" and ?a = "length h" and ?s = "commas (map2 field_text ks ss)"
  assume d: "drop i str = (0x7b # ?s @ [0x7d]) @ rest" and f': "2 * (length str - i) + 1 \<le> f"
  then have "drop i str = 0x7b # ?s @ 0x7d # rest" by simp
  note i = drop_ConsD [OF this]
  obtain g where f: "f = Suc g" "2 * (length str - Suc i) + 2 \<le> g" using f' i(1) by (cases f) auto
  have e: "parse f json_null str PValue h i = parse g json_null str (PObject ?a) ?h (Suc i)"
    using i by (simp add: f parse_value_def obj_tab_def)
  have "\<exists>h' ws. parse g json_null str (PObject ?a) ?h (Suc i) = Some (Inr (h', LTable ?a, Suc i + length ?s + 1))
      \<and> take ?a h' = take ?a ?h \<and> ?a < length h' \<and> h' ! ?a = obj_tab ks ws \<and> list_all2 (rep (Suc ?a) h') ws ts"
  proof (cases "ts = []")
    case True
    with p ts have "ks = []" "ss = []" by simp_all
    with i have d: "drop (Suc i) str = 0x7d # rest" by simp
    obtain g' where "g = Suc g'" using f by (cases g) auto
    with True \<open>ks = []\<close> next_char_here [OF d] drop_ConsD [OF d] show ?thesis by (simp add: parse_object_def is_space_def)
  next
    case False
    then show ?thesis
      using parse_fields [OF p False _ j, of ks ?a ?h "[]" "[]" "[]" "Suc i" str rest g] i(3) f(2) ks(1) ts by simp
  qed
  then obtain h' ws where h': "parse f json_null str PValue h i = Some (Inr (h', LTable ?a, Suc i + length ?s + 1))"
      "take ?a h' = h" "?a < length h'" "h' ! ?a = obj_tab ks ws" "list_all2 (rep (Suc ?a) h') ws ts"
    using e by auto
  moreover have "rep ?a h' (LTable ?a) (JObj m)" using rep_obj_tab [OF h'(3,4) h'(5) [unfolded ts] ks] .
  ultimately show "\<exists>k v. parse f json_null str PValue h i = Some (Inr (h @ k, v, i + length (0x7b # ?s @ [0x7d])))
      \<and> rep (length h) (h @ k) v (JObj m)"
    using take_eq_append [OF h'(2)] by auto
qed

lemma text_parses: "jtext t s \<Longrightarrow> parses t s"
proof (induction rule: jtext.induct)
  case (jtext_arr ss ts)
  then show ?case by (intro parses_arr) (auto simp: list_all2_conv_all_nth list_all_length)
next
  case (jtext_obj ks m ss)
  then show ?case
    by (intro parses_obj [where ts = "map (\<lambda>k. the (m k)) ks"]) (auto simp: list_all2_conv_all_nth list_all_length)
qed (auto intro!: parses_word parses_int parses_str)

lemma json_decode_text:
  assumes "jtext t s"
  shows "\<exists>k v. json_decode json_null h (LStr s) = Some (Inr (h @ k, v)) \<and> rep (length h) (h @ k) v t"
proof -
  obtain c s' where c: "s = c # s'" "\<not> is_space c" using text_starts [OF assms] by blast
  have i: "next_char s 0 is_space True = 0" using next_char_here [of 0 s] c by simp
  obtain k v where "parse (2 * length s + 2) json_null s PValue h 0 = Some (Inr (h @ k, v, 0 + length s))"
      "rep (length h) (h @ k) v t"
    using parsesD [OF text_parses [OF assms], where i = 0 and str = s and rest = "[]" and f = "2 * length s + 2" and h = h]
    by (auto simp del: parse.simps)
  then show ?thesis
    by (auto simp: json_decode_def i bind_res_def next_char.simps [of s "length s"] simp del: parse.simps)
qed


section \<open>Properties\<close>

text \<open>
  (C2) Decoding inverts encoding: let a Lua value represent the abstract JSON value \<open>t\<close>, where null is the
  sentinel, numbers are integers below \<open>10 ^ 14\<close>, strings are arbitrary byte strings, a table is an
  array (keys \<open>1..n\<close>, or empty with the array marker) or an object (string keys, or empty with the object
  marker), and the tables may be shared and visited in any order but do not contain themselves. With memory
  for the text, whatever border \<open>lua_rawlen\<close> picks, \<open>json_encode\<close> returns a text, and \<open>json_decode\<close> with
  null enabled turns that text, over any heap, into a value in new tables that represents the same \<open>t\<close>; the tables that existed
  before are unchanged.
\<close>

theorem json_roundtrip:
  assumes "roomy al" and "is_border rl" and "rep 0 h v t"
  shows "\<exists>s. jtext t s \<and> (length s < 2 ^ 63 \<longrightarrow> json_encode al rl h v = Some (Inr s)
    \<and> (\<exists>k v'. json_decode (json_enable_null (LBool True)) h0 (LStr s) = Some (Inr (h0 @ k, v'))
          \<and> rep (length h0) (h0 @ k) v' t))"
proof -
  have "json_enable_null (LBool True) = json_null" by (simp add: json_enable_null_def)
  then show ?thesis using json_encode_text [OF assms] json_decode_text [of t _ h0] by metis
qed
text \<open>A length operator as the Lua manual allows it: the first border.\<close>

definition first_border :: "ltable \<Rightarrow> nat" where
  "first_border t = length (takeWhile (\<lambda>i. rawgeti t (int i + 1) \<noteq> None) [0..<length t])"

lemma int_keys_card: "finite {z. rawgeti t z \<noteq> None} \<and> card {z. rawgeti t z \<noteq> None} \<le> length t"
proof -
  let ?f = "\<lambda>(k, v :: lval). case k of LNum d \<Rightarrow> the (dbl_int d) | _ \<Rightarrow> 0"
  have sub: "{z. rawgeti t z \<noteq> None} \<subseteq> set (map ?f t)"
  proof
    fix z assume "z \<in> {z. rawgeti t z \<noteq> None}"
    then obtain k v where k: "(k, v) \<in> set t" "is_int_key z k" using rawgeti_entry by fastforce
    then have "z = ?f (k, v)" by (auto simp: is_int_key_def split: lval.splits)
    with k(1) show "z \<in> set (map ?f t)" by force
  qed
  moreover have "card (set (map ?f t)) \<le> length t" using card_length [of "map ?f t"] by (simp only: length_map)
  ultimately show ?thesis
    by (metis (no_types, lifting) List.finite_set card_mono finite_subset order_trans)
qed

lemma first_border_present: "i < first_border t \<Longrightarrow> rawgeti t (int i + 1) \<noteq> None"
proof -
  let ?P = "\<lambda>i. rawgeti t (int i + 1) \<noteq> None"
  assume i: "i < first_border t"
  moreover have "first_border t \<le> length t" unfolding first_border_def by (metis diff_zero length_takeWhile_le length_upt)
  ultimately have "takeWhile ?P [0..<length t] ! i = i"
    by (simp add: takeWhile_nth first_border_def)
  moreover have "takeWhile ?P [0..<length t] ! i \<in> set (takeWhile ?P [0..<length t])"
    using i unfolding first_border_def by (rule nth_mem)
  ultimately show ?thesis by (metis (mono_tags, lifting) set_takeWhileD)
qed

lemma first_border_absent: "rawgeti t (int (first_border t) + 1) = None"
proof (rule ccontr)
  let ?P = "\<lambda>i. rawgeti t (int i + 1) \<noteq> None" and ?n = "first_border t"
  assume c: "rawgeti t (int ?n + 1) \<noteq> None"
  have "?n \<le> length t" unfolding first_border_def by (metis diff_zero length_takeWhile_le length_upt)
  moreover have "\<not> ?n < length t"
  proof
    assume "?n < length t"
    then have "\<not> ?P ([0..<length t] ! ?n)"
      unfolding first_border_def by (intro nth_length_takeWhile) simp
    with \<open>?n < length t\<close> c show False by simp
  qed
  ultimately have n: "?n = length t" by simp
  have "(\<lambda>i. int i + 1) ` {..length t} \<subseteq> {z. rawgeti t z \<noteq> None}"
  proof (rule image_subsetI)
    fix i assume "i \<in> {..length t}"
    then show "int i + 1 \<in> {z. rawgeti t z \<noteq> None}"
      using first_border_present [of i t] c n by (cases "i = length t") simp_all
  qed
  then have "card ((\<lambda>i. int i + 1) ` {..length t}) \<le> length t"
    using card_mono [OF conjunct1 [OF int_keys_card]] int_keys_card [of t] by (meson order_trans)
  moreover have "card ((\<lambda>i. int i + 1) ` {..length t}) = Suc (length t)"
    by (subst card_image) (auto simp: inj_on_def)
  ultimately show False by simp
qed

lemma first_border_is_border: "is_border first_border"
  unfolding is_border_def
proof (intro allI conjI)
  fix t
  show "first_border t = 0 \<or> rawgeti t (int (first_border t)) \<noteq> None"
    using first_border_present [of "first_border t - 1" t] by (cases "first_border t") (simp_all add: add.commute)
qed (rule first_border_absent)

text \<open>The object \<open>{a = {1, null}}\<close>, with the key's one byte written as a number.\<close>

definition sample_heap :: jheap where
  "sample_heap = [obj_tab [[0x61]] [LTable 1], arr_tab [LNum (dbl_of_int 1), json_null]]"

definition sample_tree :: jtree where
  "sample_tree = JObj [[0x61] \<mapsto> JArr [JInt 1, JNull]]"

lemma sample_rep: "rep 0 sample_heap (LTable 0) sample_tree"
proof -
  have n: "rep (Suc 1) sample_heap (LNum (dbl_of_int 1)) (JInt 1)" "rep (Suc 1) sample_heap json_null JNull"
    by (auto intro: rep.intros)
  have "rep 1 sample_heap (LTable 1) (JArr [JInt 1, JNull])"
    by (rule rep_arr_tab [of _ _ "[LNum (dbl_of_int 1), json_null]"]) (use n in \<open>simp_all add: sample_heap_def\<close>)
  then show ?thesis
    unfolding sample_tree_def
    by (intro rep_obj_tab [of _ _ "[[0x61]]" "[LTable 1]"]) (simp_all add: sample_heap_def)
qed

theorem json_roundtrip_witness:
  "roomy roomy_alloc \<and> is_border first_border \<and> rep 0 sample_heap (LTable 0) sample_tree
   \<and> (\<exists>s. jtext sample_tree s \<and> (length s < 2 ^ 63 \<longrightarrow> json_encode roomy_alloc first_border sample_heap (LTable 0) = Some (Inr s)
    \<and> (\<exists>k v'. json_decode (json_enable_null (LBool True)) [] (LStr s) = Some (Inr ([] @ k, v'))
          \<and> rep (length ([] :: jheap)) ([] @ k) v' sample_tree)))"
  using json_roundtrip [OF roomy_roomy_alloc first_border_is_border sample_rep, of "[]"]
    roomy_roomy_alloc first_border_is_border sample_rep by blast

text \<open>
  An append to the output buffer is all or nothing: on a well-formed buffer, unless the length in
  \<open>size_t\<close> would wrap around, it either extends the content by exactly the appended bytes and stores a
  terminating zero behind them inside the block, or it reports failure and leaves the buffer unchanged.
\<close>

lemma strbuf_append_contract:
  assumes "sb_ok b" and "sb_len b + length s + 1 < 2 ^ 64"
  shows "(\<exists>b'. strbuf_append al b s = Some (True, b') \<and> sb_ok b' \<and> sb_content b' = sb_content b @ s
           \<and> sb_len b' = sb_len b + length s \<and> (\<exists>d. sb_data b' = Some d \<and> d ! sb_len b' = 0))
         \<or> strbuf_append al b s = Some (False, b)"
  using append_ok [OF assms, of al] unfolding sb_appended_def by blast

lemma strbuf_append_contract_witness:
  "(let b = \<lparr>sb_data = Some [0, 0], sb_len = 0, sb_cap = 2\<rparr>; s = [1, 2, 3]
    in sb_ok b \<and> sb_len b + length s + 1 < 2 ^ 64
       \<and> ((\<exists>b'. strbuf_append roomy_alloc b s = Some (True, b') \<and> sb_ok b' \<and> sb_content b' = sb_content b @ s
           \<and> sb_len b' = sb_len b + length s \<and> (\<exists>d. sb_data b' = Some d \<and> d ! sb_len b' = 0))
         \<or> strbuf_append roomy_alloc b s = Some (False, b)))"
proof -
  have "\<exists>k\<le>63. 2 = (2 :: nat) ^ k" by (rule exI [of _ 1]) simp
  then have ok: "sb_ok \<lparr>sb_data = Some [0, 0], sb_len = 0, sb_cap = 2\<rparr>" by (simp add: sb_ok_def)
  then show ?thesis using strbuf_append_contract [OF ok, of "[1, 2, 3]" roomy_alloc] by (simp add: Let_def)
qed

end
