(* ===== verification/Ws_Frame.thy ===== *)
theory Ws_Frame
  imports Prelude
begin

text \<open>
  The WebSocket frame codec of \<open>src/httpd_websocket.c\<close>: masking, the incremental parser and the encoder,
  and their relation to the frame format of RFC 6455, which is written down independently of the code.
  An \<open>evbuffer\<close> of libevent is the list of the bytes in it. The allocator is a parameter, so the parser is
  modelled with its failure branch, and bytes that were never written have an arbitrary value.
\<close>

section \<open>Frames\<close>

text \<open>
  \<open>websocket_opcode_t\<close> is an enumeration, but the parser casts any four-bit value to it.
\<close>

definition WS_OPCODE_CONTINUATION :: u8 where "WS_OPCODE_CONTINUATION = 0x0"
definition WS_OPCODE_TEXT :: u8 where "WS_OPCODE_TEXT = 0x1"
definition WS_OPCODE_BINARY :: u8 where "WS_OPCODE_BINARY = 0x2"
definition WS_OPCODE_CLOSE :: u8 where "WS_OPCODE_CLOSE = 0x8"
definition WS_OPCODE_PING :: u8 where "WS_OPCODE_PING = 0x9"
definition WS_OPCODE_PONG :: u8 where "WS_OPCODE_PONG = 0xA"

lemmas opcode_defs = WS_OPCODE_CONTINUATION_def WS_OPCODE_TEXT_def WS_OPCODE_BINARY_def
  WS_OPCODE_CLOSE_def WS_OPCODE_PING_def WS_OPCODE_PONG_def

record websocket_frame =
  fr_fin :: bool
  fr_rsv1 :: bool
  fr_rsv2 :: bool
  fr_rsv3 :: bool
  fr_opcode :: u8
  fr_masked :: bool
  fr_payload_len :: nat
  fr_mask_key :: u32
  fr_payload :: "bytes option"

text \<open>
  The result of the parser: 0 (more bytes are needed, nothing is consumed), -1 with what is left of the
  input, or 1 with the frame and what is left.
\<close>

datatype parse_result =
    ParseMore
  | ParseFailed bytes
  | ParsedFrame websocket_frame bytes

definition websocket_mask_unmask :: "bytes \<Rightarrow> u32 \<Rightarrow> bytes" where
  "websocket_mask_unmask data mask_key =
     (let mask_bytes = le_bytes 4 (unat mask_key)
      in map (\<lambda>i. data ! i XOR mask_bytes ! (i mod 4)) [0..<length data])"

text \<open>The last part of the parser, where the payload is moved out of the input.\<close>

definition websocket_take_payload :: "allocator \<Rightarrow> websocket_frame \<Rightarrow> bytes \<Rightarrow> parse_result" where
  "websocket_take_payload al frame input =
     (if 0 < fr_payload_len frame
      then case malloc al (fr_payload_len frame) of
             None \<Rightarrow> ParseFailed input
           | Some buf \<Rightarrow>
               let got = take (fr_payload_len frame) input;
                   payload = got @ drop (length got) buf
               in ParsedFrame
                    (frame\<lparr>fr_payload := Some (if fr_masked frame then websocket_mask_unmask payload (fr_mask_key frame)
                                            else payload)\<rparr>)
                    (drop (fr_payload_len frame) input)
      else ParsedFrame (frame\<lparr>fr_payload := None\<rparr>) input)"

definition websocket_parse_frame :: "allocator \<Rightarrow> bytes \<Rightarrow> parse_result" where
  "websocket_parse_frame al input =
     (let available = length input
      in if available < 2 then ParseMore
         else
           let peek_len = (if available < 14 then available else 14);
               peek_buf = take peek_len input @ map (junk al) [peek_len..<14];
               masked = (peek_buf ! 1 AND 0x80 \<noteq> 0);
               len7 = unat (peek_buf ! 1 AND 0x7F)
           in if len7 = 126 \<and> peek_len < 4 \<or> len7 = 127 \<and> peek_len < 10 then ParseMore
              else
                let payload_len = (if len7 = 126 then be_val (take 2 (drop 2 peek_buf))
                                   else if len7 = 127 then be_val (take 8 (drop 2 peek_buf))
                                   else len7);
                    header_size = 2 + (if len7 = 126 then 2 else if len7 = 127 then 8 else 0)
                                    + (if masked then 4 else 0)
                in if available < size_add header_size payload_len then ParseMore
                   else websocket_take_payload al
                     \<lparr>fr_fin = (peek_buf ! 0 AND 0x80 \<noteq> 0), fr_rsv1 = (peek_buf ! 0 AND 0x40 \<noteq> 0),
                      fr_rsv2 = (peek_buf ! 0 AND 0x20 \<noteq> 0), fr_rsv3 = (peek_buf ! 0 AND 0x10 \<noteq> 0),
                      fr_opcode = peek_buf ! 0 AND 0x0F, fr_masked = masked, fr_payload_len = payload_len,
                      fr_mask_key = (if masked then word_of_nat (le_val (take 4 (drop (header_size - 4) peek_buf)))
                                     else 0),
                      fr_payload = None\<rparr>
                     (drop header_size input))"

text \<open>The flag says whether \<open>evbuffer_new\<close> succeeds. The payload has \<open>payload_len\<close> bytes when it is not NULL.\<close>

definition websocket_create_frame :: "bool \<Rightarrow> u8 \<Rightarrow> bytes option \<Rightarrow> nat \<Rightarrow> bool \<Rightarrow> bytes option" where
  "websocket_create_frame evnew opcode payload payload_len fin =
     (if \<not> evnew then None
      else Some
        ([(if fin then 0x80 else 0x00) OR (opcode AND 0x0F)]
         @ (if payload_len < 126 then [word_of_nat payload_len]
            else if payload_len \<le> 65535 then 126 # be_bytes 2 payload_len
            else 127 # be_bytes 8 payload_len)
         @ (case payload of
              Some p \<Rightarrow> if 0 < payload_len then take payload_len p else []
            | None \<Rightarrow> [])))"

definition websocket_frame_free :: "websocket_frame \<Rightarrow> websocket_frame" where
  "websocket_frame_free frame = frame\<lparr>fr_payload := None\<rparr>"

section \<open>The frame format\<close>

text \<open>
  The format of RFC 6455, section 5.2, for frames without reserved bits: the first byte, the length in 7
  bits, 7 and 16 bits or 7 and 64 bits (network order, the shortest form), the masking key if any, and the
  payload, of which octet \<open>i\<close> is combined with octet \<open>i mod 4\<close> of the key.
\<close>

definition rfc_length :: "nat \<Rightarrow> nat \<times> bytes" where
  "rfc_length n =
     (if n \<le> 125 then (n, []) else if n \<le> 65535 then (126, be_bytes 2 n) else (127, be_bytes 8 n))"

fun xor_cycle :: "bytes \<Rightarrow> bytes \<Rightarrow> bytes" where
  "xor_cycle key [] = []"
| "xor_cycle key (x # xs) = (x XOR hd key) # xor_cycle (rotate1 key) xs"

definition first_byte :: "bool \<Rightarrow> nat \<Rightarrow> u8" where
  "first_byte fin op = word_of_nat ((if fin then 128 else 0) + op)"

definition rfc_header :: "bool \<Rightarrow> nat \<Rightarrow> bytes option \<Rightarrow> nat \<Rightarrow> bytes" where
  "rfc_header fin op key n =
     first_byte fin op
     # word_of_nat ((if key \<noteq> None then 128 else 0) + fst (rfc_length n))
     # snd (rfc_length n) @ (case key of None \<Rightarrow> [] | Some k \<Rightarrow> k)"

definition rfc_frame :: "bool \<Rightarrow> nat \<Rightarrow> bytes option \<Rightarrow> bytes \<Rightarrow> bytes" where
  "rfc_frame fin op key p =
     rfc_header fin op key (length p) @ (case key of None \<Rightarrow> p | Some k \<Rightarrow> xor_cycle k p)"

text \<open>The frame record that such a byte string stands for.\<close>

definition frame_of :: "bool \<Rightarrow> nat \<Rightarrow> bytes option \<Rightarrow> bytes \<Rightarrow> websocket_frame" where
  "frame_of fin op key p =
     \<lparr>fr_fin = fin, fr_rsv1 = False, fr_rsv2 = False, fr_rsv3 = False, fr_opcode = word_of_nat op,
      fr_masked = (key \<noteq> None), fr_payload_len = length p,
      fr_mask_key = (case key of None \<Rightarrow> 0 | Some k \<Rightarrow> word_of_nat (le_val k)),
      fr_payload = (if p = [] then None else Some p)\<rparr>"

section \<open>Masking\<close>

lemma length_xor_cycle [simp]: "length (xor_cycle key xs) = length xs"
  by (induction key xs rule: xor_cycle.induct) simp_all

lemma xor_cycle_nth:
  "key \<noteq> [] \<Longrightarrow> i < length xs \<Longrightarrow> xor_cycle key xs ! i = xs ! i XOR key ! (i mod length key)"
proof (induction key xs arbitrary: i rule: xor_cycle.induct)
  case (2 key x xs)
  show ?case
  proof (cases i)
    case (Suc j)
    then have "xor_cycle key (x # xs) ! i = xs ! j XOR rotate1 key ! (j mod length key)"
      using 2 by simp
    also have "rotate1 key ! (j mod length key) = key ! (i mod length key)"
      using 2(2) Suc by (simp add: nth_rotate1 mod_Suc_eq)
    finally show ?thesis using Suc by simp
  qed (simp add: hd_conv_nth 2(2))
qed simp

lemma xor_cycle_involution: "key \<noteq> [] \<Longrightarrow> xor_cycle key (xor_cycle key xs) = xs"
  by (rule nth_equalityI) (simp_all add: xor_cycle_nth xor.assoc)

lemma mask_unmask_cycle: "websocket_mask_unmask data key = xor_cycle (le_bytes 4 (unat key)) data"
proof -
  have "le_bytes 4 (unat key) \<noteq> []" by (metis length_0_conv length_le_bytes zero_neq_numeral)
  then show ?thesis by (intro nth_equalityI) (simp_all add: websocket_mask_unmask_def xor_cycle_nth)
qed

lemma length_mask_unmask [simp]: "length (websocket_mask_unmask data key) = length data"
  by (simp add: mask_unmask_cycle)

lemma mask_key_bytes: "length k = 4 \<Longrightarrow> le_bytes 4 (unat (word_of_nat (le_val k) :: u32)) = k"
  using le_val_bound [of k] by (simp add: unat_of_nat take_bit_eq_mod)
section \<open>Parsing\<close>

lemma rfc_length_cases:
  obtains "n \<le> 125" and "rfc_length n = (n, [])"
  | "125 < n" and "n \<le> 65535" and "rfc_length n = (126, be_bytes 2 n)"
  | "65535 < n" and "rfc_length n = (127, be_bytes 8 n)"
  by (cases "n \<le> 125"; cases "n \<le> 65535") (auto simp: rfc_length_def)

lemma rfc_length_le: "fst (rfc_length n) \<le> 127"
  by (rule rfc_length_cases [of n]) auto

lemma second_byte:
  assumes "n \<le> 127"
  shows "unat ((word_of_nat ((if m then 128 else 0) + n) :: u8) AND 0x7F) = n"
    and "((word_of_nat ((if m then 128 else 0) + n) :: u8) AND 0x80 \<noteq> 0) \<longleftrightarrow> m"
proof -
  let ?Q = "\<lambda>m n. unat ((word_of_nat ((if m then 128 else 0) + n) :: u8) AND 0x7F) = n
      \<and> (((word_of_nat ((if m then 128 else 0) + n) :: u8) AND 0x80 \<noteq> 0) \<longleftrightarrow> m)"
  have "list_all (\<lambda>n. ?Q True n \<and> ?Q False n) [0..<128]" by code_simp
  then have all: "\<forall>n \<in> set [0..<128]. ?Q True n \<and> ?Q False n" by (simp only: list_all_iff)
  have "n \<in> set [0..<128]" using assms by simp
  from bspec [OF all this] have "?Q m n" by (cases m) (simp_all only: simp_thms)
  then show "unat ((word_of_nat ((if m then 128 else 0) + n) :: u8) AND 0x7F) = n"
    and "((word_of_nat ((if m then 128 else 0) + n) :: u8) AND 0x80 \<noteq> 0) \<longleftrightarrow> m"
    by blast+
qed

lemma first_byte_bits:
  assumes "op < 16"
  shows "(first_byte fin op AND 0x80 \<noteq> 0) \<longleftrightarrow> fin" and "first_byte fin op AND 0x40 = 0"
    and "first_byte fin op AND 0x20 = 0" and "first_byte fin op AND 0x10 = 0"
    and "first_byte fin op AND 0x0F = word_of_nat op"
proof -
  let ?Q = "\<lambda>fin op. ((first_byte fin op AND 0x80 \<noteq> 0) \<longleftrightarrow> fin) \<and> first_byte fin op AND 0x40 = 0
      \<and> first_byte fin op AND 0x20 = 0 \<and> first_byte fin op AND 0x10 = 0 \<and> first_byte fin op AND 0x0F = word_of_nat op"
  have "list_all (\<lambda>op. ?Q True op \<and> ?Q False op) [0..<16]" by code_simp
  then have all: "\<forall>op \<in> set [0..<16]. ?Q True op \<and> ?Q False op" by (simp only: list_all_iff)
  have "op \<in> set [0..<16]" using assms(1) by simp
  from bspec [OF all this] have "?Q fin op" by (cases fin) (simp_all only: simp_thms)
  then show "(first_byte fin op AND 0x80 \<noteq> 0) \<longleftrightarrow> fin" and "first_byte fin op AND 0x40 = 0"
    and "first_byte fin op AND 0x20 = 0" and "first_byte fin op AND 0x10 = 0"
    and "first_byte fin op AND 0x0F = word_of_nat op"
    by blast+
qed

lemma length_rfc_header:
  "pred_option (\<lambda>k. length k = 4) key \<Longrightarrow>
     length (rfc_header fin op key n) = 2 + length (snd (rfc_length n)) + (if key \<noteq> None then 4 else 0)"
  by (cases key) (simp_all add: rfc_header_def)

text \<open>
  A complete header decides the outcome: with too little payload the parser waits, otherwise it consumes
  exactly the header and the payload, provided the payload can be allocated.
\<close>

lemma parse_frame_header:
  fixes b0 b1 :: u8
  assumes input: "input = b0 # b1 # ext @ key @ data"
    and lx: "unat (b1 AND 0x7F) = lx" and m: "(b1 AND 0x80 \<noteq> 0) \<longleftrightarrow> m"
    and ext: "length ext = (if lx = 126 then 2 else if lx = 127 then 8 else 0)"
    and key: "length key = (if m then 4 else 0)"
    and n: "n = (if lx = 126 \<or> lx = 127 then be_val ext else lx)" and small: "n + 14 < 2 ^ 64"
    and frame: "frame = \<lparr>fr_fin = (b0 AND 0x80 \<noteq> 0), fr_rsv1 = (b0 AND 0x40 \<noteq> 0), fr_rsv2 = (b0 AND 0x20 \<noteq> 0),
       fr_rsv3 = (b0 AND 0x10 \<noteq> 0), fr_opcode = b0 AND 0x0F, fr_masked = m, fr_payload_len = n,
       fr_mask_key = (if m then word_of_nat (le_val key) else 0), fr_payload = None\<rparr>"
  shows "websocket_parse_frame al input =
    (if length data < n then ParseMore
     else if 0 < n
     then if can_alloc al n
          then ParsedFrame (frame\<lparr>fr_payload := Some (if m then xor_cycle key (take n data) else take n data)\<rparr>) (drop n data)
          else ParseFailed data
     else ParsedFrame frame data)"
proof -
  define pl where "pl = (if length input < 14 then length input else 14)"
  define pb where "pb = take pl input @ map (junk al) [pl..<14]"
  define hs where "hs = (2::nat) + (if lx = 126 then 2 else if lx = 127 then 8 else 0) + (if m then 4 else 0)"
  have len: "length input = hs + length data" using input ext key by (simp add: hs_def)
  have hs: "2 \<le> hs" "hs \<le> 14" "2 + length ext + length key = hs" using ext key by (auto simp: hs_def)
  have slice: "take k (drop i pb) = take k (drop i input)" if "i + k \<le> hs" for i k
    using that hs len by (auto simp: pb_def pl_def take_drop)
  have nth: "pb ! i = input ! i" if "i < hs" for i
    using that hs len by (auto simp: pb_def pl_def nth_append)
  have b: "pb ! 0 = b0" "pb ! 1 = b1" using nth [of 0] nth [of 1] hs input by simp_all
  have pl: "\<not> (lx = 126 \<and> pl < 4 \<or> lx = 127 \<and> pl < 10)" "\<not> length input < 2"
    using len by (auto simp: pl_def hs_def)
  have e: "take (length ext) (drop 2 pb) = ext"
    using slice [of 2 "length ext"] hs(3) input by simp
  have k: "take 4 (drop (hs - 4) pb) = key" if m
  proof -
    have "hs - 4 = 2 + length ext" using hs(3) key that by simp
    with slice [of "2 + length ext" 4] show ?thesis using hs(3) key that input by simp
  qed
  have pn: "(if lx = 126 then be_val (take 2 (drop 2 pb)) else if lx = 127 then be_val (take 8 (drop 2 pb)) else lx) = n"
    using e ext n by auto
  have d: "drop hs input = data" using hs(3) by (simp add: input flip: hs(3))
  have sz: "size_add hs n = hs + n" using small hs(2) by simp
  have mk: "(if m then word_of_nat (le_val (take 4 (drop (hs - 4) pb))) else 0 :: u32) = fr_mask_key frame"
    using k by (simp add: frame)
  have mask: "websocket_mask_unmask p (fr_mask_key frame) = xor_cycle key p" if m for p
    using that key by (simp add: mask_unmask_cycle frame mask_key_bytes)
  have fr: "\<lparr>fr_fin = (b0 AND 0x80 \<noteq> 0), fr_rsv1 = (b0 AND 0x40 \<noteq> 0), fr_rsv2 = (b0 AND 0x20 \<noteq> 0),
      fr_rsv3 = (b0 AND 0x10 \<noteq> 0), fr_opcode = b0 AND 0x0F, fr_masked = m, fr_payload_len = n,
      fr_mask_key = fr_mask_key frame, fr_payload = None\<rparr> = frame"
    by (simp add: frame)
  have "websocket_parse_frame al input =
    (if length input < hs + n then ParseMore else websocket_take_payload al frame data)"
    unfolding websocket_parse_frame_def Let_def pl_def [symmetric] pb_def [symmetric]
    by (simp only: b lx m hs_def [symmetric] pn sz d mk if_not_P [OF pl(1)] if_not_P [OF pl(2)] fr)
  moreover have "fr_payload_len frame = n" "fr_masked frame = m" "frame\<lparr>fr_payload := None\<rparr> = frame"
    by (simp_all add: frame)
  ultimately show ?thesis using mask by (auto simp: len malloc_def websocket_take_payload_def)
qed
lemma rfc_fields:
  assumes "n < 2 ^ 64"
  defines "l7 \<equiv> fst (rfc_length n)" and "ext \<equiv> snd (rfc_length n)"
  shows "l7 \<le> 127" and "length ext = (if l7 = 126 then 2 else if l7 = 127 then 8 else 0)"
    and "n = (if l7 = 126 \<or> l7 = 127 then be_val ext else l7)"
  using assms(1) by (rule_tac [!] rfc_length_cases [of n]) (auto simp: l7_def ext_def)

lemma parse_rfc:
  assumes op: "op < 16" and key: "pred_option (\<lambda>k. length k = 4) key" and n: "length p + 14 < 2 ^ 64"
  shows "websocket_parse_frame al (rfc_frame fin op key p @ rest) =
    (if p = [] \<or> can_alloc al (length p) then ParsedFrame (frame_of fin op key p) rest
     else ParseFailed (drop (length (rfc_header fin op key (length p))) (rfc_frame fin op key p) @ rest))"
proof -
  let ?l = "rfc_length (length p)" and ?k = "case key of None \<Rightarrow> [] | Some k \<Rightarrow> k"
  let ?d = "case key of None \<Rightarrow> p | Some k \<Rightarrow> xor_cycle k p"
  have "length p < 2 ^ 64" using n by simp
  note f = rfc_fields [OF this]
  have len: "length ?d = length p" by (cases key) simp_all
  have "websocket_parse_frame al (rfc_frame fin op key p @ rest) =
    (if length (?d @ rest) < length p then ParseMore
     else if 0 < length p
     then if can_alloc al (length p)
          then ParsedFrame ((frame_of fin op key p)\<lparr>fr_payload := Some (if key \<noteq> None then xor_cycle ?k (take (length p) (?d @ rest))
              else take (length p) (?d @ rest))\<rparr>) (drop (length p) (?d @ rest))
          else ParseFailed (?d @ rest)
     else ParsedFrame ((frame_of fin op key p)\<lparr>fr_payload := None\<rparr>) (?d @ rest))"
    by (subst parse_frame_header [where ext = "snd ?l" and key = ?k and data = "?d @ rest" and n = "length p"
          and m = "key \<noteq> None" and lx = "fst ?l" and frame = "(frame_of fin op key p)\<lparr>fr_payload := None\<rparr>"])
      (use f n key second_byte [OF f(1)] first_byte_bits [OF op] in
        \<open>auto simp: rfc_frame_def rfc_header_def frame_of_def split: option.splits\<close>)
  moreover have "xor_cycle k (xor_cycle k p) = p" if "key = Some k" for k
    using key that by (intro xor_cycle_involution) auto
  ultimately show ?thesis
    using len by (cases key) (auto simp: frame_of_def rfc_frame_def)
qed
lemma parse_frame_short:
  fixes b0 b1 :: u8
  assumes input: "input = take k (b0 # b1 # ext @ key @ data)" and k: "k < 2 + length ext + length key + n"
    and lx: "unat (b1 AND 0x7F) = lx" and m: "(b1 AND 0x80 \<noteq> 0) \<longleftrightarrow> m"
    and ext: "length ext = (if lx = 126 then 2 else if lx = 127 then 8 else 0)"
    and key: "length key = (if m then 4 else 0)"
    and n: "n = (if lx = 126 \<or> lx = 127 then be_val ext else lx)" and small: "n + 14 < 2 ^ 64"
  shows "websocket_parse_frame al input = ParseMore"
proof -
  define pl where "pl = (if length input < 14 then length input else 14)"
  define pb where "pb = take pl input @ map (junk al) [pl..<14]"
  define hs where "hs = (2::nat) + (if lx = 126 then 2 else if lx = 127 then 8 else 0) + (if m then 4 else 0)"
  have hs: "hs = 2 + length ext + length key" "hs \<le> 14" using ext key by (auto simp: hs_def)
  have len: "length input \<le> k" by (simp add: input)
  consider "length input < 2" | "2 \<le> length input" "length input < 2 + length ext" | "2 + length ext \<le> length input" by linarith
  then show ?thesis
  proof cases
    case 1
    then show ?thesis by (simp add: websocket_parse_frame_def)
  next
    case 2
    then obtain xs where "input = b0 # b1 # xs" using input by (cases k; cases "k - 1") auto
    then have "pb ! 1 = b1" using 2 by (simp add: pb_def pl_def nth_append)
    moreover have "lx = 126 \<and> pl < 4 \<or> lx = 127 \<and> pl < 10" using 2 ext by (auto simp: pl_def split: if_splits)
    ultimately show ?thesis using 2 lx unfolding websocket_parse_frame_def Let_def pl_def [symmetric] pb_def [symmetric] by auto
  next
    case 3
    then obtain xs where xs: "input = b0 # b1 # ext @ xs"
      using input by (cases k; cases "k - 1") (auto simp: take_append)
    have b: "pb ! 1 = b1" using 3 xs by (simp add: pb_def pl_def nth_append)
    have e: "take (length ext) (drop 2 pb) = ext"
      using xs hs by (simp add: pb_def pl_def take_drop split: if_splits)
    have pn: "(if lx = 126 then be_val (take 2 (drop 2 pb)) else if lx = 127 then be_val (take 8 (drop 2 pb)) else lx) = n"
      using e ext n by auto
    have "length input < size_add hs n" using k len hs small by simp
    then show ?thesis unfolding websocket_parse_frame_def Let_def pl_def [symmetric] pb_def [symmetric]
      by (simp only: b lx m hs_def [symmetric] pn if_True if_cancel)
  qed
qed

definition frame_wf :: "websocket_frame \<Rightarrow> bool" where
  "frame_wf f \<longleftrightarrow>
     (case fr_payload f of None \<Rightarrow> fr_payload_len f = 0 | Some p \<Rightarrow> 0 < fr_payload_len f \<and> length p = fr_payload_len f)"

lemma take_payload_shape:
  "websocket_take_payload al frame input = ParsedFrame f rest \<Longrightarrow> length rest \<le> length input \<and> frame_wf f"
  by (auto simp: websocket_take_payload_def frame_wf_def malloc_def Let_def split: if_splits)

lemma more_if: "(if c then ParseMore else x) = ParsedFrame f rest \<longleftrightarrow> \<not> c \<and> x = ParsedFrame f rest"
  by simp

lemma parse_frame_shape:
  assumes "websocket_parse_frame al input = ParsedFrame f rest"
  shows "length rest < length input" and "frame_wf f"
proof -
  from assms have "2 \<le> length input" by (simp add: websocket_parse_frame_def Let_def more_if)
  moreover from assms obtain frame hs where "websocket_take_payload al frame (drop (2 + hs) input) = ParsedFrame f rest"
    unfolding websocket_parse_frame_def Let_def more_if add.assoc by blast
  from take_payload_shape [OF this] have "length rest \<le> length (drop (2 + hs) input)" "frame_wf f" by auto
  ultimately show "length rest < length input" and "frame_wf f" by auto
qed

lemma create_rfc:
  assumes "length p < 2 ^ 64" and op: "op AND 0x0F = op"
  shows "websocket_create_frame True op (Some p) (length p) fin = Some (rfc_frame fin (unat op) None p)"
    and "websocket_create_frame True op None 0 fin = Some (rfc_frame fin (unat op) None [])"
proof -
  have "list_all (\<lambda>n. (0x80 OR word_of_nat n :: u8) = first_byte True n \<and> (0x00 OR word_of_nat n :: u8) = first_byte False n) [0..<16]"
    by code_simp
  then have all: "\<forall>n \<in> set [0..<16]. (0x80 OR word_of_nat n :: u8) = first_byte True n \<and> (0x00 OR word_of_nat n :: u8) = first_byte False n"
    by (simp only: list_all_iff)
  have "unat op \<le> unat (0x0F :: u8)" using word_and_le1 [of op "0x0F"] op by (simp add: word_le_nat_alt)
  then have "unat op \<in> set [0..<16]" by simp
  from bspec [OF all this] have b: "(if fin then 0x80 else 0x00) OR (op AND 0x0F) = first_byte fin (unat op)"
    using op by (cases fin) simp_all
  show "websocket_create_frame True op (Some p) (length p) fin = Some (rfc_frame fin (unat op) None p)"
    by (rule rfc_length_cases [of "length p"]) (simp_all add: websocket_create_frame_def b rfc_frame_def rfc_header_def)
  show "websocket_create_frame True op None 0 fin = Some (rfc_frame fin (unat op) None [])"
    by (simp add: websocket_create_frame_def b rfc_frame_def rfc_header_def rfc_length_def)
qed

lemma parse_rfc_short:
  assumes op: "op < 16" and key: "pred_option (\<lambda>k. length k = 4) key" and n: "length p + 14 < 2 ^ 64"
    and k: "k < length (rfc_frame fin op key p)"
  shows "websocket_parse_frame al (take k (rfc_frame fin op key p)) = ParseMore"
proof -
  let ?l = "rfc_length (length p)" and ?k = "case key of None \<Rightarrow> [] | Some k \<Rightarrow> k"
  let ?d = "case key of None \<Rightarrow> p | Some k \<Rightarrow> xor_cycle k p"
  have "length p < 2 ^ 64" using n by simp
  note f = rfc_fields [OF this]
  have "length ?d = length p" by (cases key) simp_all
  then show ?thesis
    using f n key k second_byte [OF f(1), of "key \<noteq> None"]
    by (intro parse_frame_short [where ext = "snd ?l" and key = ?k and data = ?d and n = "length p"
          and m = "key \<noteq> None" and lx = "fst ?l" and ?b0.0 = "first_byte fin op"
          and ?b1.0 = "word_of_nat ((if key \<noteq> None then 128 else 0) + fst ?l)"])
      (auto simp: rfc_frame_def rfc_header_def split: option.splits)
qed

section \<open>Properties\<close>

text \<open>
  (C3) The parser decodes the format of RFC 6455: whatever follows in the input, a frame with any opcode,
  any payload (lengths in all three encodings) and an optional masking key is recognised with exactly its
  fields, its payload is unmasked, and exactly its bytes are consumed.
\<close>

theorem websocket_parse_frame_correct:
  assumes "op < 16" and "pred_option (\<lambda>k. length k = 4) key" and "length p + 14 < 2 ^ 64"
    and "can_alloc al (length p)"
  shows "websocket_parse_frame al (rfc_frame fin op key p @ rest) = ParsedFrame (frame_of fin op key p) rest"
  using parse_rfc [OF assms(1-3)] assms(4) by simp

theorem websocket_parse_frame_correct_witness:
  "(3 :: nat) < 16 \<and> pred_option (\<lambda>k. length k = 4) (Some [1, 2, 3, 4 :: u8]) \<and> length [0x68, 0x69 :: u8] + 14 < 2 ^ 64
   \<and> can_alloc roomy_alloc (length [0x68, 0x69 :: u8])
   \<and> websocket_parse_frame roomy_alloc (rfc_frame True 3 (Some [1, 2, 3, 4]) [0x68, 0x69] @ [7])
       = ParsedFrame (frame_of True 3 (Some [1, 2, 3, 4]) [0x68, 0x69]) [7]"
  using websocket_parse_frame_correct [of 3 "Some [1, 2, 3, 4]" "[0x68, 0x69]" roomy_alloc True "[7]"]
  by (simp add: roomy_alloc_def)

text \<open>
  Incremental input: as long as only a proper prefix of a frame has arrived, the parser asks for more
  and consumes nothing, so a frame may be split at any byte.
\<close>

lemma websocket_parse_frame_waits:
  assumes "op < 16" and "pred_option (\<lambda>k. length k = 4) key" and "length p + 14 < 2 ^ 64"
    and "k < length (rfc_frame fin op key p)"
  shows "websocket_parse_frame al (take k (rfc_frame fin op key p)) = ParseMore"
  using parse_rfc_short [OF assms] .

lemma websocket_parse_frame_waits_witness:
  "(1 :: nat) < 16 \<and> pred_option (\<lambda>k. length k = 4) (None :: bytes option) \<and> length [0x68, 0x69 :: u8] + 14 < 2 ^ 64
   \<and> 3 < length (rfc_frame True 1 None [0x68, 0x69])
   \<and> websocket_parse_frame roomy_alloc (take 3 (rfc_frame True 1 None [0x68, 0x69])) = ParseMore"
proof -
  have "3 < length (rfc_frame True 1 None [0x68, 0x69])" by (simp add: rfc_frame_def rfc_header_def)
  with websocket_parse_frame_waits [of 1 None "[0x68, 0x69]" 3 True roomy_alloc] show ?thesis by simp
qed

text \<open>
  The frames that the server writes are the unmasked frames of RFC 6455, with the length in its
  shortest form and in network order, for every payload a C string can have.
\<close>

lemma websocket_create_frame_format:
  assumes "length p < 2 ^ 64" and "op AND 0x0F = op"
  shows "websocket_create_frame True op (Some p) (length p) fin = Some (rfc_frame fin (unat op) None p)"
  using create_rfc(1) [OF assms] .

lemma websocket_create_frame_format_witness:
  "length (replicate 300 (7 :: u8)) < 2 ^ 64 \<and> WS_OPCODE_TEXT AND 0x0F = WS_OPCODE_TEXT
   \<and> websocket_create_frame True WS_OPCODE_TEXT (Some (replicate 300 7)) (length (replicate 300 (7 :: u8))) True
       = Some (rfc_frame True (unat WS_OPCODE_TEXT) None (replicate 300 7))"
proof -
  have a: "length (replicate 300 (7 :: u8)) < 2 ^ 64" unfolding length_replicate by simp
  have b: "WS_OPCODE_TEXT AND 0x0F = WS_OPCODE_TEXT" by (simp add: WS_OPCODE_TEXT_def)
  show ?thesis using websocket_create_frame_format [OF a b] a b by blast
qed

end
