(* ===== verification/Ws_Queue.thy ===== *)
theory Ws_Queue
  imports Ws_Frame "HOL-Library.AList"
begin

text \<open>
  The queue of received WebSocket frames of \<open>src/httpd_websocket.c\<close>, a singly linked list with a head, a tail
  and a length field. The nodes are in an explicit store that maps addresses to nodes. An access through a
  pointer to a node that is not allocated is undefined behaviour; it sets the field \<open>fq_bad\<close>, which is not
  part of the program, and the invariant says that it never happens. The main result is that the list
  implements the bounded queue of the prelude.
\<close>

section \<open>Nodes and operations\<close>

record ws_frame_node =
  nd_frame :: websocket_frame
  nd_next :: "nat option"

type_synonym node_store = "(nat \<times> ws_frame_node) list"

record frame_queue =
  fq_head :: "nat option"
  fq_tail :: "nat option"
  fq_len :: int
  fq_nodes :: node_store
  fq_bad :: bool

definition WS_MAX_QUEUED_FRAMES :: int where
  "WS_MAX_QUEUED_FRAMES = 64"

definition empty_queue :: frame_queue where
  "empty_queue = \<lparr>fq_head = None, fq_tail = None, fq_len = 0, fq_nodes = [], fq_bad = False\<rparr>"

text \<open>An address that is not in use, as \<open>malloc\<close> returns it.\<close>

definition fresh_node :: "node_store \<Rightarrow> nat" where
  "fresh_node m = Suc (sum_list (map fst m))"

text \<open>The assignment \<open>frame_queue_tail->next = node\<close>.\<close>

definition set_next :: "nat \<Rightarrow> nat \<Rightarrow> frame_queue \<Rightarrow> frame_queue" where
  "set_next t a q =
     (case map_of (fq_nodes q) t of
        None \<Rightarrow> q\<lparr>fq_bad := True\<rparr>
      | Some nd \<Rightarrow> q\<lparr>fq_nodes := AList.update t (nd\<lparr>nd_next := Some a\<rparr>) (fq_nodes q)\<rparr>)"

text \<open>The first argument says whether \<open>malloc\<close> succeeds with so many nodes in use.\<close>

definition ws_frame_queue_push :: "(nat \<Rightarrow> bool) \<Rightarrow> websocket_frame \<Rightarrow> frame_queue \<Rightarrow> frame_queue" where
  "ws_frame_queue_push can frame q =
     (if WS_MAX_QUEUED_FRAMES \<le> fq_len q then q
      else if \<not> can (nat (fq_len q)) then q
      else
        let a = fresh_node (fq_nodes q);
            q = q\<lparr>fq_nodes := (a, \<lparr>nd_frame = frame, nd_next = None\<rparr>) # fq_nodes q\<rparr>;
            q = (case fq_tail q of Some t \<Rightarrow> set_next t a q | None \<Rightarrow> q\<lparr>fq_head := Some a\<rparr>)
        in q\<lparr>fq_tail := Some a, fq_len := fq_len q + 1\<rparr>)"

definition ws_frame_queue_pop :: "frame_queue \<Rightarrow> websocket_frame option \<times> frame_queue" where
  "ws_frame_queue_pop q =
     (case fq_head q of
        None \<Rightarrow> (None, q)
      | Some a \<Rightarrow>
          (case map_of (fq_nodes q) a of
             None \<Rightarrow> (None, q\<lparr>fq_bad := True\<rparr>)
           | Some nd \<Rightarrow>
               let q = q\<lparr>fq_head := nd_next nd\<rparr>;
                   q = (if fq_head q = None then q\<lparr>fq_tail := None\<rparr> else q)
               in (Some (nd_frame nd), q\<lparr>fq_len := fq_len q - 1, fq_nodes := AList.delete a (fq_nodes q)\<rparr>)))"

lemma delete_shorter: "map_of m a = Some v \<Longrightarrow> length (AList.delete a m) < length m"
  by (induction m) (auto intro: le_imp_less_Suc AList.length_delete_le)

function clear_nodes :: "nat option \<Rightarrow> node_store \<Rightarrow> bool \<Rightarrow> node_store \<times> bool" where
  "clear_nodes p m bad =
     (case p of
        None \<Rightarrow> (m, bad)
      | Some a \<Rightarrow>
          (case map_of m a of
             None \<Rightarrow> (m, True)
           | Some nd \<Rightarrow> clear_nodes (nd_next nd) (AList.delete a m) bad))"
  by pat_completeness auto
termination
  by (relation "measure (\<lambda>(p, m, bad). length m)") (auto simp: delete_shorter)

declare clear_nodes.simps [simp del]

definition ws_frame_queue_clear :: "frame_queue \<Rightarrow> frame_queue" where
  "ws_frame_queue_clear q =
     (let (m, bad) = clear_nodes (fq_head q) (fq_nodes q) (fq_bad q)
      in \<lparr>fq_head = None, fq_tail = None, fq_len = 0, fq_nodes = m, fq_bad = bad\<rparr>)"

section \<open>The list a queue stands for\<close>

text \<open>The addresses from a pointer to the end of its list.\<close>

fun path :: "node_store \<Rightarrow> nat option \<Rightarrow> nat list \<Rightarrow> bool" where
  "path m p [] \<longleftrightarrow> p = None"
| "path m p (a # as) \<longleftrightarrow> p = Some a \<and> (\<exists>nd. map_of m a = Some nd \<and> path m (nd_next nd) as)"

definition frame_at :: "node_store \<Rightarrow> nat \<Rightarrow> websocket_frame" where
  "frame_at m a = nd_frame (the (map_of m a))"

text \<open>
  A queue with the nodes at the addresses \<open>as\<close>: they are different, the last one is the tail, their number
  is the length, and no other node is allocated, so nothing leaks.
\<close>

definition queue_at :: "frame_queue \<Rightarrow> nat list \<Rightarrow> bool" where
  "queue_at q as \<longleftrightarrow>
     path (fq_nodes q) (fq_head q) as \<and> distinct as \<and> dom (map_of (fq_nodes q)) = set as
     \<and> fq_tail q = (if as = [] then None else Some (last as)) \<and> fq_len q = int (length as)
     \<and> length as \<le> nat WS_MAX_QUEUED_FRAMES \<and> \<not> fq_bad q"

definition queue_inv :: "frame_queue \<Rightarrow> bool" where
  "queue_inv q \<longleftrightarrow> (\<exists>as. queue_at q as)"

function frames_from :: "nat option \<Rightarrow> node_store \<Rightarrow> websocket_frame list" where
  "frames_from p m =
     (case p of
        None \<Rightarrow> []
      | Some a \<Rightarrow>
          (case map_of m a of
             None \<Rightarrow> []
           | Some nd \<Rightarrow> nd_frame nd # frames_from (nd_next nd) (AList.delete a m)))"
  by pat_completeness auto
termination
  by (relation "measure (\<lambda>(p, m). length m)") (auto simp: delete_shorter)

declare frames_from.simps [simp del]

definition queue_frames :: "frame_queue \<Rightarrow> websocket_frame list" where
  "queue_frames q = frames_from (fq_head q) (fq_nodes q)"
lemma path_cong:
  "path m p as \<Longrightarrow> (\<And>a. a \<in> set as \<Longrightarrow> map_of m' a = map_of m a) \<Longrightarrow> path m' p as"
  by (induction as arbitrary: p) auto

lemma path_frames: "path m p as \<Longrightarrow> distinct as \<Longrightarrow> frames_from p m = map (frame_at m) as"
proof (induction as arbitrary: m p)
  case Nil
  then show ?case by (simp add: frames_from.simps)
next
  case (Cons a as)
  then obtain nd where nd: "p = Some a" "map_of m a = Some nd" "path m (nd_next nd) as" by auto
  let ?m = "AList.delete a m"
  have same: "map_of ?m b = map_of m b" if "b \<in> set as" for b
    using that Cons.prems(2) by (intro AList.map_of_delete) auto
  have "path ?m (nd_next nd) as" using nd(3) same by (rule path_cong)
  then have "frames_from (nd_next nd) ?m = map (frame_at ?m) as" using Cons by simp
  moreover have "map (frame_at ?m) as = map (frame_at m) as" using same by (simp add: frame_at_def)
  moreover have "frame_at m a = nd_frame nd" using nd(2) by (simp add: frame_at_def)
  ultimately show ?case using nd by (simp add: frames_from.simps [of "Some a" m])
qed

lemma path_clear:
  "path m p as \<Longrightarrow> distinct as \<Longrightarrow> \<exists>m'. clear_nodes p m bad = (m', bad) \<and> map_of m' = map_of m |` (- set as)"
proof (induction as arbitrary: m p)
  case Nil
  then show ?case by (simp add: clear_nodes.simps)
next
  case (Cons a as)
  then obtain nd where nd: "p = Some a" "map_of m a = Some nd" "path m (nd_next nd) as" by auto
  let ?m = "AList.delete a m"
  have "path ?m (nd_next nd) as"
    using nd(3) by (rule path_cong) (use Cons.prems(2) in \<open>auto intro!: AList.map_of_delete\<close>)
  then obtain m' where "clear_nodes (nd_next nd) ?m bad = (m', bad)" "map_of m' = map_of ?m |` (- set as)"
    using Cons by auto
  then show ?case using nd by (auto simp: clear_nodes.simps [of "Some a" m] AList.delete_conv' restrict_map_def fun_eq_iff)
qed

lemma path_snoc:
  assumes "path m p as" and "distinct as" and "as \<noteq> []" and "a \<notin> set as"
    and last: "map_of m (last as) = Some nd" and m': "map_of m' = (map_of m)(a \<mapsto> nd', last as \<mapsto> nd\<lparr>nd_next := Some a\<rparr>)"
    and nd': "nd_next nd' = None"
  shows "path m' p (as @ [a])"
  using assms(1-4) last m'
proof (induction as arbitrary: p)
  case (Cons b as)
  show ?case
  proof (cases "as = []")
    case True
    with Cons nd' show ?thesis by auto
  next
    case False
    then obtain nb where "map_of m b = Some nb" "path m (nd_next nb) as" "p = Some b" using Cons.prems by auto
    moreover have "path m' (nd_next nb) (as @ [a])"
      using Cons False calculation by auto
    moreover have "map_of m' b = map_of m b" using Cons.prems False by auto
    ultimately show ?thesis by simp
  qed
qed simp

lemma fresh_node_notin: "fresh_node m \<notin> dom (map_of m)"
proof
  assume "fresh_node m \<in> dom (map_of m)"
  then have "fresh_node m \<in> set (map fst m)" by (simp add: dom_map_of_conv_image_fst)
  then have "fresh_node m \<le> sum_list (map fst m)" by (rule member_le_sum_list) simp
  then show False by (simp add: fresh_node_def)
qed

section \<open>The operations implement a bounded queue\<close>

lemma queue_frames_at: "queue_at q as \<Longrightarrow> queue_frames q = map (frame_at (fq_nodes q)) as"
  by (simp add: queue_frames_def queue_at_def path_frames)

lemma queue_len_at: "queue_inv q \<Longrightarrow> fq_len q = int (length (queue_frames q))"
  using queue_frames_at by (auto simp: queue_inv_def queue_at_def)

lemma empty_queue_at: "queue_at empty_queue []"
  by (simp add: queue_at_def empty_queue_def)

lemma push_at:
  assumes q: "queue_at q as" and room: "length as < nat WS_MAX_QUEUED_FRAMES" and can: "can (nat (fq_len q))"
  shows "queue_at (ws_frame_queue_push can f q) (as @ [fresh_node (fq_nodes q)])
    \<and> queue_frames (ws_frame_queue_push can f q) = queue_frames q @ [f]"
proof -
  let ?m = "fq_nodes q" and ?a = "fresh_node (fq_nodes q)"
  let ?n = "\<lparr>nd_frame = f, nd_next = None\<rparr>"
  have dom: "dom (map_of ?m) = set as" and d: "distinct as" and p: "path ?m (fq_head q) as"
    using q by (simp_all add: queue_at_def)
  have a: "?a \<notin> set as" using fresh_node_notin [of ?m] dom by simp
  have len: "\<not> WS_MAX_QUEUED_FRAMES \<le> fq_len q" using room q by (simp add: queue_at_def WS_MAX_QUEUED_FRAMES_def)
  have "\<exists>m'. ws_frame_queue_push can f q = q\<lparr>fq_nodes := m', fq_head := (if as = [] then Some ?a else fq_head q),
        fq_tail := Some ?a, fq_len := fq_len q + 1\<rparr>
      \<and> path m' (if as = [] then Some ?a else fq_head q) (as @ [?a])
      \<and> dom (map_of m') = insert ?a (set as) \<and> frame_at m' ?a = f \<and> (\<forall>b \<in> set as. frame_at m' b = frame_at ?m b)"
  proof (cases "as = []")
    case True
    then have "fq_tail q = None" using q by (simp add: queue_at_def)
    with True len can dom show ?thesis
      by (intro exI [of _ "(?a, ?n) # ?m"]) (simp add: ws_frame_queue_push_def frame_at_def Let_def)
  next
    case False
    then have t: "fq_tail q = Some (last as)" using q by (simp add: queue_at_def)
    have "last as \<in> dom (map_of ?m)" using False dom by simp
    then obtain nd where nd: "map_of ?m (last as) = Some nd" by blast
    have la: "last as \<noteq> ?a" using a last_in_set [OF False] by auto
    let ?m' = "AList.update (last as) (nd\<lparr>nd_next := Some ?a\<rparr>) ((?a, ?n) # ?m)"
    have m': "map_of ?m' = (map_of ?m)(?a \<mapsto> ?n, last as \<mapsto> nd\<lparr>nd_next := Some ?a\<rparr>)"
      by (simp only: AList.update_conv' map_of.simps fst_conv snd_conv)
    have "path ?m' (fq_head q) (as @ [?a])"
      by (rule path_snoc [OF p d False a nd m']) simp
    moreover have "ws_frame_queue_push can f q = q\<lparr>fq_nodes := ?m', fq_head := fq_head q, fq_tail := Some ?a, fq_len := fq_len q + 1\<rparr>"
      using False len can t nd la by (simp add: ws_frame_queue_push_def set_next_def Let_def)
    moreover have "dom (map_of ?m') = insert ?a (set as)" unfolding m' using dom False by auto
    moreover have "frame_at ?m' ?a = f" "\<forall>b \<in> set as. frame_at ?m' b = frame_at ?m b"
      unfolding frame_at_def m' using la a nd by auto
    ultimately show ?thesis using False by (intro exI [of _ ?m']) simp
  qed
  then obtain m' where m': "ws_frame_queue_push can f q = q\<lparr>fq_nodes := m', fq_head := (if as = [] then Some ?a else fq_head q),
        fq_tail := Some ?a, fq_len := fq_len q + 1\<rparr>"
      "path m' (if as = [] then Some ?a else fq_head q) (as @ [?a])"
      "dom (map_of m') = insert ?a (set as)" "frame_at m' ?a = f" "\<forall>b \<in> set as. frame_at m' b = frame_at ?m b"
    by blast
  have at: "queue_at (ws_frame_queue_push can f q) (as @ [?a])"
    using m' q a room by (simp add: queue_at_def)
  with queue_frames_at [OF at] queue_frames_at [OF q] m' show ?thesis by simp
qed
lemma push_full:
  assumes q: "queue_at q as" and "\<not> (length as < nat WS_MAX_QUEUED_FRAMES \<and> can (nat (fq_len q)))"
  shows "ws_frame_queue_push can f q = q"
  using assms by (auto simp: queue_at_def ws_frame_queue_push_def WS_MAX_QUEUED_FRAMES_def)

lemma pop_at_Nil: "queue_at q [] \<Longrightarrow> ws_frame_queue_pop q = (None, q)"
  by (simp add: queue_at_def ws_frame_queue_pop_def)

lemma pop_at_Cons:
  assumes q: "queue_at q (a # as)"
  shows "fst (ws_frame_queue_pop q) = Some (frame_at (fq_nodes q) a) \<and> queue_at (snd (ws_frame_queue_pop q)) as
    \<and> queue_frames (snd (ws_frame_queue_pop q)) = map (frame_at (fq_nodes q)) as"
proof -
  let ?m = "fq_nodes q" and ?m' = "AList.delete a (fq_nodes q)"
  from q obtain nd where nd: "fq_head q = Some a" "map_of ?m a = Some nd" "path ?m (nd_next nd) as"
      "distinct (a # as)" "dom (map_of ?m) = set (a # as)"
    by (auto simp: queue_at_def)
  have same: "map_of ?m' b = map_of ?m b" if "b \<in> set as" for b
    using that nd(4) by (intro AList.map_of_delete) auto
  have p: "path ?m' (nd_next nd) as" using nd(3) same by (rule path_cong)
  have e: "nd_next nd = None \<longleftrightarrow> as = []" using p by (cases as) auto
  have "dom (map_of ?m') = set as" using nd(4,5) by (auto simp: AList.delete_conv')
  with p e q nd have at: "queue_at (snd (ws_frame_queue_pop q)) as"
    by (auto simp: ws_frame_queue_pop_def Let_def queue_at_def)
  moreover have "map (frame_at ?m') as = map (frame_at ?m) as" using same by (simp add: frame_at_def)
  moreover have "fq_nodes (snd (ws_frame_queue_pop q)) = ?m'"
    using nd by (simp add: ws_frame_queue_pop_def Let_def)
  ultimately show ?thesis
    using nd(1,2) queue_frames_at [OF at] by (simp add: ws_frame_queue_pop_def frame_at_def Let_def)
qed

lemma clear_at: "queue_at q as \<Longrightarrow> \<exists>m. ws_frame_queue_clear q = empty_queue\<lparr>fq_nodes := m\<rparr> \<and> map_of m = Map.empty"
proof -
  assume q: "queue_at q as"
  then obtain m where "clear_nodes (fq_head q) (fq_nodes q) (fq_bad q) = (m, fq_bad q)"
      "map_of m = map_of (fq_nodes q) |` (- set as)"
    using path_clear [of "fq_nodes q" "fq_head q" as "fq_bad q"] by (auto simp: queue_at_def)
  moreover have "map_of (fq_nodes q) |` (- set as) = Map.empty"
    using q by (auto simp: queue_at_def restrict_map_def fun_eq_iff)
  ultimately show ?thesis using q by (simp add: ws_frame_queue_clear_def empty_queue_def queue_at_def)
qed

lemma map_of_empty: "map_of m = Map.empty \<longleftrightarrow> m = []"
  by (cases m) (auto simp: fun_eq_iff)

lemma clear_empty: "queue_inv q \<Longrightarrow> ws_frame_queue_clear q = empty_queue"
  using clear_at by (fastforce simp: queue_inv_def map_of_empty empty_queue_def)

lemma queue_frames_empty [simp]: "queue_frames empty_queue = []"
  by (simp add: queue_frames_def empty_queue_def frames_from.simps)

lemma queue_inv_empty [simp]: "queue_inv empty_queue"
  using empty_queue_at by (auto simp: queue_inv_def)
interpretation wsq: bounded_fifo "ws_frame_queue_push can" ws_frame_queue_pop ws_frame_queue_clear queue_frames
    queue_inv can "nat WS_MAX_QUEUED_FRAMES" for can
proof
  fix q x
  assume inv: "queue_inv q"
  then obtain as where q: "queue_at q as" by (auto simp: queue_inv_def)
  have len: "length (queue_frames q) = length as" "nat (fq_len q) = length as"
    using queue_frames_at [OF q] q by (simp_all add: queue_at_def)
  show "queue_inv (ws_frame_queue_push can x q)"
    using push_at [OF q, of can x] push_full [OF q, of can x] q by (cases "length as < nat WS_MAX_QUEUED_FRAMES \<and> can (nat (fq_len q))")
      (auto simp: queue_inv_def)
  show "queue_frames (ws_frame_queue_push can x q) =
      (if length (queue_frames q) < nat WS_MAX_QUEUED_FRAMES \<and> can (length (queue_frames q)) then queue_frames q @ [x] else queue_frames q)"
    using push_at [OF q, of can x] push_full [OF q, of can x] len by auto
  show "queue_inv (snd (ws_frame_queue_pop q))"
    using q pop_at_Nil [of q] pop_at_Cons [of q] by (cases as) (auto simp: queue_inv_def)
  show "fst (ws_frame_queue_pop q) = (case queue_frames q of [] \<Rightarrow> None | x # xs \<Rightarrow> Some x)"
    using q pop_at_Nil [of q] pop_at_Cons [of q] queue_frames_at [OF q] by (cases as) auto
  show "queue_frames (snd (ws_frame_queue_pop q)) = tl (queue_frames q)"
    using q pop_at_Nil [of q] pop_at_Cons [of q] queue_frames_at [OF q] by (cases as) auto
  show "queue_inv (ws_frame_queue_clear q)" "queue_frames (ws_frame_queue_clear q) = []"
    by (simp_all add: clear_empty [OF inv])
  show "length (queue_frames q) \<le> nat WS_MAX_QUEUED_FRAMES" using len q by (simp add: queue_at_def)
qed

lemmas queue_simps = wsq.push_inv wsq.push_content wsq.pop_inv wsq.pop_result wsq.pop_content

text \<open>
  (C4) The linked list of frames implements a bounded first-in first-out queue: for every sequence of pushes,
  pops and clears, with any outcome of each \<open>malloc\<close>, the pops return what they return on a list of at most 64
  frames that drops the frames that do not fit. Throughout, the pointers lead only to allocated nodes, every
  allocated node is in the list, and the length field is the number of nodes.
\<close>

theorem ws_frame_queue_refines:
  "fst (queue_run (ws_frame_queue_push can) ws_frame_queue_pop ws_frame_queue_clear ops empty_queue)
     = fst (list_run can 64 ops [])
   \<and> (let q = snd (queue_run (ws_frame_queue_push can) ws_frame_queue_pop ws_frame_queue_clear ops empty_queue)
      in queue_frames q = snd (list_run can 64 ops []) \<and> queue_inv q)"
  using wsq.run_refines [of empty_queue can ops] by (simp add: WS_MAX_QUEUED_FRAMES_def)

end
