(* ===== verification/Httpd.thy ===== *)
theory Httpd
  imports C_Numbers Ws_Queue
begin

text \<open>
  The HTTP server: the metrics of \<open>src/httpd_metrics.c\<close>, the configuration and the request life cycle of
  \<open>src/httpd.c\<close>, and the body and reply functions of \<open>src/httpd_request.c\<close>. The state of a request and of its
  connection is one record; the reply functions of libevent are represented by the sequence of calls made to them.
\<close>

section \<open>Metrics\<close>

text \<open>The counters are \<open>unsigned long\<close>, 64 bits wide.\<close>

record httpd_metrics =
  requests_total :: u64
  requests_active :: u64
  bytes_sent :: u64
  bytes_received :: u64
  errors_total :: u64
  memory_allocated :: u64
  connections_total :: u64
  keepalive_reused :: u64
  start_time :: int
  requests_get :: u64
  requests_post :: u64
  requests_put :: u64
  requests_delete :: u64
  requests_other :: u64
  responses_2xx :: u64
  responses_3xx :: u64
  responses_4xx :: u64
  responses_5xx :: u64

definition metrics_init :: "int \<Rightarrow> httpd_metrics" where
  "metrics_init now =
     \<lparr>requests_total = 0, requests_active = 0, bytes_sent = 0, bytes_received = 0, errors_total = 0,
      memory_allocated = 0, connections_total = 0, keepalive_reused = 0, start_time = now,
      requests_get = 0, requests_post = 0, requests_put = 0, requests_delete = 0, requests_other = 0,
      responses_2xx = 0, responses_3xx = 0, responses_4xx = 0, responses_5xx = 0\<rparr>"

definition metrics_update_request_start :: "string option \<Rightarrow> httpd_metrics \<Rightarrow> httpd_metrics" where
  "metrics_update_request_start method g =
     (let g = g\<lparr>requests_total := requests_total g + 1, requests_active := requests_active g + 1\<rparr>
      in case method of
           None \<Rightarrow> g
         | Some m \<Rightarrow>
             if m = ''GET'' then g\<lparr>requests_get := requests_get g + 1\<rparr>
             else if m = ''POST'' then g\<lparr>requests_post := requests_post g + 1\<rparr>
             else if m = ''PUT'' then g\<lparr>requests_put := requests_put g + 1\<rparr>
             else if m = ''DELETE'' then g\<lparr>requests_delete := requests_delete g + 1\<rparr>
             else g\<lparr>requests_other := requests_other g + 1\<rparr>)"

definition metrics_update_request_end :: "int \<Rightarrow> nat \<Rightarrow> httpd_metrics \<Rightarrow> httpd_metrics" where
  "metrics_update_request_end status_code sent g =
     (let g = (if 0 < requests_active g then g\<lparr>requests_active := requests_active g - 1\<rparr> else g);
          g = g\<lparr>bytes_sent := bytes_sent g + word_of_nat sent\<rparr>
      in if 200 \<le> status_code \<and> status_code < 300 then g\<lparr>responses_2xx := responses_2xx g + 1\<rparr>
         else if 300 \<le> status_code \<and> status_code < 400 then g\<lparr>responses_3xx := responses_3xx g + 1\<rparr>
         else if 400 \<le> status_code \<and> status_code < 500
         then g\<lparr>responses_4xx := responses_4xx g + 1, errors_total := errors_total g + 1\<rparr>
         else if 500 \<le> status_code
         then g\<lparr>responses_5xx := responses_5xx g + 1, errors_total := errors_total g + 1\<rparr>
         else g)"

definition metrics_update_connection :: "httpd_metrics \<Rightarrow> httpd_metrics" where
  "metrics_update_connection g = g\<lparr>connections_total := connections_total g + 1\<rparr>"

text \<open>The lines of the endpoint: a name, and the value or nothing for a comment.\<close>

definition metric_line :: "string \<Rightarrow> nat \<Rightarrow> bytes" where
  "metric_line name v = map of_char name @ [0x20] @ decimal v @ [0x0a]"

definition comment_line :: "string \<Rightarrow> bytes" where
  "comment_line s = map of_char s @ [0x0a]"

text \<open>The reply of the endpoint: status code, content type and body. The flag says whether \<open>evbuffer_new\<close> succeeds.\<close>

definition metrics_request_cb :: "bool \<Rightarrow> int \<Rightarrow> httpd_metrics \<Rightarrow> int \<times> string option \<times> bytes" where
  "metrics_request_cb evnew now g =
     (if \<not> evnew then (500, None, [])
      else
        (200, Some ''text/plain; charset=utf-8'',
         comment_line ''# HTTPD Server Metrics''
         @ map of_char ''uptime_seconds '' @ int_text (now - start_time g) @ [0x0a]
         @ metric_line ''requests_total'' (unat (requests_total g))
         @ metric_line ''requests_active'' (unat (requests_active g))
         @ metric_line ''bytes_sent_total'' (unat (bytes_sent g))
         @ metric_line ''bytes_received_total'' (unat (bytes_received g))
         @ metric_line ''errors_total'' (unat (errors_total g))
         @ metric_line ''memory_allocated_bytes'' (unat (memory_allocated g))
         @ metric_line ''connections_total'' (unat (connections_total g))
         @ metric_line ''keepalive_reused_total'' (unat (keepalive_reused g))
         @ [0x0a] @ comment_line ''# Requests by method''
         @ metric_line ''requests_get_total'' (unat (requests_get g))
         @ metric_line ''requests_post_total'' (unat (requests_post g))
         @ metric_line ''requests_put_total'' (unat (requests_put g))
         @ metric_line ''requests_delete_total'' (unat (requests_delete g))
         @ metric_line ''requests_other_total'' (unat (requests_other g))
         @ [0x0a] @ comment_line ''# Responses by status class''
         @ metric_line ''responses_2xx_total'' (unat (responses_2xx g))
         @ metric_line ''responses_3xx_total'' (unat (responses_3xx g))
         @ metric_line ''responses_4xx_total'' (unat (responses_4xx g))
         @ metric_line ''responses_5xx_total'' (unat (responses_5xx g))))"

definition smoke_request_cb :: "int \<times> string option \<times> bytes" where
  "smoke_request_cb = (200, None, [])"

section \<open>Server configuration\<close>

record LuaServer =
  sv_enable_keep_alive :: bool
  sv_keep_alive_timeout :: int
  sv_max_keep_alive_requests :: int
  sv_max_body_size :: nat
  sv_port :: int

definition HTTP_POST_BODY_LIMIT :: nat where
  "HTTP_POST_BODY_LIMIT = 100 * 1024 * 1024"

definition validate_httpd_config :: "LuaServer \<Rightarrow> bool" where
  "validate_httpd_config server =
     (if sv_keep_alive_timeout server < 1 \<or> 3600 < sv_keep_alive_timeout server then False
      else if sv_max_keep_alive_requests server < 1 \<or> 10000 < sv_max_keep_alive_requests server then False
      else if sv_max_body_size server < 1024 \<or> 1073741824 < sv_max_body_size server then False
      else if sv_port server < 0 \<or> 65535 < sv_port server then False
      else True)"

text \<open>
  The fields of the table given to \<open>bind\<close>, as \<open>lua_toboolean\<close> and \<open>lua_tointeger\<close> return them; \<open>None\<close> is a field
  of another type. The conversions to \<open>int\<close> and \<open>size_t\<close> are written out.
\<close>

record httpd_conf =
  cf_enable_keep_alive :: "bool option"
  cf_keep_alive_timeout :: "int option"
  cf_max_keep_alive_requests :: "int option"
  cf_max_body_size :: "int option"
  cf_port :: "int option"

text \<open>
  The configuration part of \<open>utd_bind\<close>: the defaults, the options, the validation, and the port, which is read
  after the validation. \<open>None\<close> is the error for invalid parameters.
\<close>

definition utd_bind_config :: "httpd_conf \<Rightarrow> LuaServer option" where
  "utd_bind_config cf =
     (let server = \<lparr>sv_enable_keep_alive = True, sv_keep_alive_timeout = 30, sv_max_keep_alive_requests = 100,
                    sv_max_body_size = HTTP_POST_BODY_LIMIT, sv_port = 0\<rparr>;
          server = (case cf_enable_keep_alive cf of Some b \<Rightarrow> server\<lparr>sv_enable_keep_alive := b\<rparr> | None \<Rightarrow> server);
          server = (case cf_keep_alive_timeout cf of
                      Some z \<Rightarrow> server\<lparr>sv_keep_alive_timeout := c_int z\<rparr> | None \<Rightarrow> server);
          server = (case cf_max_keep_alive_requests cf of
                      Some z \<Rightarrow> server\<lparr>sv_max_keep_alive_requests := c_int z\<rparr> | None \<Rightarrow> server);
          server = (case cf_max_body_size cf of
                      Some z \<Rightarrow> server\<lparr>sv_max_body_size := nat (z mod 2 ^ 64)\<rparr> | None \<Rightarrow> server)
      in if \<not> validate_httpd_config server then None
         else Some (server\<lparr>sv_port := (case cf_port cf of Some z \<Rightarrow> c_int z | None \<Rightarrow> 0)\<rparr>))"

section \<open>Requests and connections\<close>

datatype reply_status = REPLY_STATUS_NONE | REPLY_STATUS_REPLYED | REPLY_STATUS_REPLY_START

datatype websocket_state = WS_STATE_CONNECTING | WS_STATE_OPEN | WS_STATE_CLOSING | WS_STATE_CLOSED

text \<open>A pointer or a reference is True when it is not \<open>NULL\<close> or \<open>LUA_NOREF\<close>.\<close>

record request =
  rq_req :: bool
  rq_reply_status :: reply_status
  rq_is_websocket :: bool
  rq_ws_state :: websocket_state
  rq_ws_bev :: bool
  rq_ref :: bool
  rq_self_ref :: bool
  rq_prevent_gc_ref :: bool
  rq_queue :: frame_queue
  rq_owns_request :: bool
  rq_ws_cleaning_up :: bool

text \<open>The calls to the reply functions of libevent.\<close>

datatype http_call =
    SendReply int "bytes option" bytes
  | SendReplyStart int "bytes option"
  | SendReplyChunk bytes
  | SendReplyEnd
  | SendError int

text \<open>Which callbacks the connection's bufferevent has.\<close>

datatype bev_callbacks = CbHttp | CbWebsocket | CbFlush | CbNone

text \<open>
  The methods that Lua code calls on a request, with their arguments as the C API returns them, and what a
  coroutine does from one resume to the next: the calls it makes, and whether it then yields, returns or fails.
\<close>

datatype api_call =
    ApiAvailable
  | ApiRead "int option"
  | ApiBody
  | ApiAddHeader bytes bytes
  | ApiReply int "bytes option" "bytes option"
  | ApiReplyStart int "bytes option"
  | ApiReplyChunk "bytes option list"
  | ApiReplyEnd
  | ApiIsUpgrade
  | ApiAccept
  | ApiSend bytes "int option" "int option"
  | ApiPing "bytes option"
  | ApiPong "bytes option"
  | ApiClose "int option" "bytes option"
  | ApiState
  | ApiReceive

datatype co_status = CoOk | CoYield | CoError

type_synonym script = "api_call list \<times> co_status"

text \<open>
  The state of one request and its connection. \<open>wd_calls\<close> and \<open>wd_sent\<close> record the calls made to libevent and the
  bytes given to the bufferevent; \<open>wd_out\<close> are those not yet written to the socket. \<open>wd_lua\<close> is what the coroutine
  will do at its next resumes, \<open>wd_resumed\<close> the values it was resumed with.
\<close>

record world =
  wd_rq :: request
  wd_metrics :: httpd_metrics
  wd_calls :: "http_call list"
  wd_out_headers :: "(bytes \<times> bytes) list"
  wd_body :: bytes
  wd_body_cache :: "bytes option"
  wd_evcon :: bool
  wd_closecb :: bool
  wd_freed :: bool
  wd_in :: bytes
  wd_out :: bytes
  wd_sent :: bytes
  wd_callbacks :: bev_callbacks
  wd_reading :: bool
  wd_timers :: nat
  wd_lua :: "script list"
  wd_resumed :: "lval list list"

text \<open>
  The behaviour of libevent, OpenSSL and the allocator that the code branches on: whether \<open>malloc\<close>,
  \<open>evbuffer_new\<close>, \<open>evbuffer_add\<close> and \<open>bufferevent_write_buffer\<close> succeed, whether the connection has a bufferevent,
  whether \<open>recv\<close> with \<open>MSG_PEEK\<close> reports that the peer has closed, the request headers, the server in the registry,
  and the digest of the handshake, with the base64 text of the SHA-1 of its argument.
\<close>

record http_env =
  en_al :: allocator
  en_node :: "nat \<Rightarrow> bool"
  en_evbuffer_new :: bool
  en_evbuffer_add :: bool
  en_write :: bool
  en_bev :: bool
  en_peer_closed :: bool
  en_header :: "string \<Rightarrow> bytes option"
  en_server :: "LuaServer option"
  en_accept_digest :: "bytes \<Rightarrow> bytes"

definition upd_rq :: "(request \<Rightarrow> request) \<Rightarrow> world \<Rightarrow> world" where
  "upd_rq f w = w\<lparr>wd_rq := f (wd_rq w)\<rparr>"

definition call_http :: "http_call \<Rightarrow> world \<Rightarrow> world" where
  "call_http c w = w\<lparr>wd_calls := wd_calls w @ [c]\<rparr>"
section \<open>Life cycle of a request\<close>

definition httpd_conn_close_cb :: "world \<Rightarrow> world" where
  "httpd_conn_close_cb w =
     (let w = (if rq_req (wd_rq w) \<and> rq_reply_status (wd_rq w) = REPLY_STATUS_REPLY_START
               then call_http SendReplyEnd w else w)
      in upd_rq (\<lambda>r. r\<lparr>rq_req := False, rq_reply_status := REPLY_STATUS_REPLYED, rq_prevent_gc_ref := False\<rparr>) w)"

definition httpd_release_conn_guard :: "world \<Rightarrow> world" where
  "httpd_release_conn_guard w =
     (let w = (if rq_req (wd_rq w) \<and> wd_evcon w then w\<lparr>wd_closecb := False\<rparr> else w)
      in upd_rq (\<lambda>r. r\<lparr>rq_prevent_gc_ref := False\<rparr>) w)"

text \<open>
  The request object of a new request. Its field \<open>mainthread\<close> is never NULL from here on, so the tests of that
  field are left out.
\<close>

definition new_request :: request where
  "new_request =
     \<lparr>rq_req = True, rq_reply_status = REPLY_STATUS_NONE, rq_is_websocket = False,
      rq_ws_state = WS_STATE_CONNECTING, rq_ws_bev = False, rq_ref = False, rq_self_ref = False,
      rq_prevent_gc_ref = False, rq_queue = empty_queue, rq_owns_request = False, rq_ws_cleaning_up = False\<rparr>"

definition newtable_from_req :: "world \<Rightarrow> world" where
  "newtable_from_req w =
     (let w = w\<lparr>wd_rq := new_request\<lparr>rq_prevent_gc_ref := True\<rparr>, wd_body_cache := None\<rparr>
      in if wd_evcon w then w\<lparr>wd_closecb := True\<rparr> else w)"

definition evhttp_add_header :: "string \<Rightarrow> bytes \<Rightarrow> world \<Rightarrow> world" where
  "evhttp_add_header k v w = w\<lparr>wd_out_headers := wd_out_headers w @ [(map of_char k, v)]\<rparr>"

definition strcaseeq :: "bytes \<Rightarrow> bytes \<Rightarrow> bool" where
  "strcaseeq a b \<longleftrightarrow> map lower a = map lower b"

definition keep_alive_headers :: "LuaServer \<Rightarrow> world \<Rightarrow> world" where
  "keep_alive_headers server w =
     evhttp_add_header ''Connection'' (map of_char ''keep-alive'')
       (evhttp_add_header ''Keep-Alive''
          (take 63 (map of_char ''timeout='' @ int_text (sv_keep_alive_timeout server)
                    @ map of_char '', max='' @ int_text (sv_max_keep_alive_requests server))) w)"

definition set_connection_header :: "http_env \<Rightarrow> LuaServer \<Rightarrow> world \<Rightarrow> world" where
  "set_connection_header en server w =
     (let close = evhttp_add_header ''Connection'' (map of_char ''close'') w;
          major = (1 :: int);
          minor = (1 :: int);
          connection = en_header en ''Connection''
      in if \<not> sv_enable_keep_alive server then close
         else if 1 < major \<or> major = 1 \<and> 1 \<le> minor
         then if (case connection of Some c \<Rightarrow> strcaseeq c (map of_char ''close'') | None \<Rightarrow> False)
              then close else keep_alive_headers server w
         else if (case connection of Some c \<Rightarrow> strcaseeq c (map of_char ''keep-alive'') | None \<Rightarrow> False)
              then keep_alive_headers server w else close)"

section \<open>Reading the body\<close>

text \<open>What a method returns, or the message of the error it raises. The request object itself is \<open>LTable 0\<close>.\<close>

datatype api_result = Returns "lval list" | Raises string | Yields

definition evbuffer_remove :: "bytes \<Rightarrow> nat \<Rightarrow> bytes \<times> bytes" where
  "evbuffer_remove buf n = (take n buf, drop n buf)"

function read_all :: "bytes \<Rightarrow> nat \<Rightarrow> bytes \<Rightarrow> bytes \<times> bytes" where
  "read_all buf need acc =
     (if need = 0 then (acc, buf)
      else let (d, buf') = evbuffer_remove buf need
           in if d = [] then (acc, buf') else read_all buf' (need - length d) (acc @ d))"
  by pat_completeness auto
termination
  by (relation "measure (\<lambda>(buf, need, acc). need)") (auto simp: evbuffer_remove_def)

declare read_all.simps [simp del]

definition request_push_body :: "http_env \<Rightarrow> world \<Rightarrow> lval \<times> world" where
  "request_push_body en w =
     (case wd_body_cache w of
        Some b \<Rightarrow> (LStr b, w)
      | None \<Rightarrow>
          if \<not> rq_req (wd_rq w) then (LNil, w)
          else
            let len = length (wd_body w);
                body_limit = (case en_server en of Some server \<Rightarrow> sv_max_body_size server | None \<Rightarrow> HTTP_POST_BODY_LIMIT)
            in if 0 < len \<and> len < body_limit
               then if \<not> can_alloc (en_al en) (len + 1) then (LNil, w)
                    else let (data, rest) = read_all (wd_body w) len []
                         in (LStr data, w\<lparr>wd_body := rest, wd_body_cache := Some data\<rparr>)
               else (LNil, w))"

definition lua_evhttp_request_available :: "world \<Rightarrow> api_result \<times> world" where
  "lua_evhttp_request_available w =
     (if \<not> rq_req (wd_rq w) then (Returns [LNum (dbl_of_nat 0)], w)
      else (Returns [LNum (dbl_of_nat (length (wd_body w)))], w))"

definition READ_BUFF_LEN :: nat where
  "READ_BUFF_LEN = 64 * 1024"

definition MAX_READ_BUFFER_SIZE :: int where
  "MAX_READ_BUFFER_SIZE = 1024 * 1024"

definition lua_evhttp_request_read :: "http_env \<Rightarrow> int option \<Rightarrow> world \<Rightarrow> api_result \<times> world" where
  "lua_evhttp_request_read en arg w =
     (if \<not> rq_req (wd_rq w) then (Returns [LNil], w)
      else if length (wd_body w) \<noteq> 0
      then let buff_len = (case arg of Some n \<Rightarrow> n | None \<Rightarrow> int (min READ_BUFF_LEN (length (wd_body w))))
           in if buff_len \<le> 0 \<or> MAX_READ_BUFFER_SIZE < buff_len then (Returns [LNil], w)
              else if \<not> can_alloc (en_al en) (nat buff_len) then (Returns [LNil], w)
              else let (d, rest) = evbuffer_remove (wd_body w) (nat buff_len)
                   in ((if d \<noteq> [] then Returns [LStr d] else Returns [LNil]), w\<lparr>wd_body := rest\<rparr>)
      else (Returns [LNil], w))"

section \<open>Replies\<close>

definition finish_reply :: "world \<Rightarrow> world" where
  "finish_reply w = httpd_release_conn_guard (upd_rq (\<lambda>r. r\<lparr>rq_reply_status := REPLY_STATUS_REPLYED\<rparr>) w)"

definition lua_evhttp_request_reply ::
  "http_env \<Rightarrow> int \<Rightarrow> bytes option \<Rightarrow> bytes option \<Rightarrow> world \<Rightarrow> api_result \<times> world" where
  "lua_evhttp_request_reply en code msg body w =
     (if \<not> rq_req (wd_rq w) then (Raises ''connection closed by peer'', w)
      else case rq_reply_status (wd_rq w) of
             REPLY_STATUS_REPLYED \<Rightarrow> (Raises ''reply has completed already.'', w)
           | REPLY_STATUS_REPLY_START \<Rightarrow> (Returns [LTable 0], finish_reply (call_http SendReplyEnd w))
           | REPLY_STATUS_NONE \<Rightarrow>
               let data = (case body of Some d \<Rightarrow> d | None \<Rightarrow> []);
                   w = (case en_server en of
                          Some server \<Rightarrow> set_connection_header en server w
                        | None \<Rightarrow> evhttp_add_header ''Connection'' (map of_char ''close'') w)
               in if \<not> en_evbuffer_new en then (Raises ''Failed to create response buffer'', w)
                  else if data \<noteq> [] \<and> \<not> en_evbuffer_add en
                  then (Raises ''Failed to add data to response buffer'', w)
                  else
                    let w = finish_reply (call_http (SendReply code msg data) w)
                    in (Returns [], w\<lparr>wd_metrics := metrics_update_request_end code (length data) (wd_metrics w)\<rparr>))"

definition lua_evhttp_request_reply_addheader :: "bytes \<Rightarrow> bytes \<Rightarrow> world \<Rightarrow> api_result \<times> world" where
  "lua_evhttp_request_reply_addheader key value w =
     (if \<not> rq_req (wd_rq w) then (Raises ''connection closed by peer'', w)
      else case rq_reply_status (wd_rq w) of
             REPLY_STATUS_REPLYED \<Rightarrow> (Raises ''reply has completed already.'', w)
           | REPLY_STATUS_REPLY_START \<Rightarrow> (Raises ''reply has started already.'', w)
           | REPLY_STATUS_NONE \<Rightarrow>
               (Returns [LTable 0], w\<lparr>wd_out_headers := wd_out_headers w @ [(key, value)]\<rparr>))"

definition lua_evhttp_request_reply_start :: "int \<Rightarrow> bytes option \<Rightarrow> world \<Rightarrow> api_result \<times> world" where
  "lua_evhttp_request_reply_start code msg w =
     (if \<not> rq_req (wd_rq w) then (Raises ''connection closed by peer'', w)
      else case rq_reply_status (wd_rq w) of
             REPLY_STATUS_REPLYED \<Rightarrow> (Raises ''reply has completed already.'', w)
           | REPLY_STATUS_REPLY_START \<Rightarrow> (Raises ''reply has started already.'', w)
           | REPLY_STATUS_NONE \<Rightarrow>
               (Returns [LTable 0],
                upd_rq (\<lambda>r. r\<lparr>rq_reply_status := REPLY_STATUS_REPLY_START\<rparr>) (call_http (SendReplyStart code msg) w)))"

text \<open>An argument that is neither a string nor a number contributes nothing to a chunk.\<close>

definition chunk_data :: "bytes option list \<Rightarrow> bytes" where
  "chunk_data args = concat (map (\<lambda>a. case a of Some d \<Rightarrow> d | None \<Rightarrow> []) args)"

definition lua_evhttp_request_reply_chunk :: "http_env \<Rightarrow> bytes option list \<Rightarrow> world \<Rightarrow> api_result \<times> world" where
  "lua_evhttp_request_reply_chunk en args w =
     (let closed = upd_rq (\<lambda>r. r\<lparr>rq_reply_status := REPLY_STATUS_REPLYED\<rparr>) w
      in if \<not> rq_req (wd_rq w) then (Raises ''connection closed by peer'', closed)
         else case rq_reply_status (wd_rq w) of
                REPLY_STATUS_REPLYED \<Rightarrow> (Raises ''reply has completed already.'', w)
              | REPLY_STATUS_NONE \<Rightarrow> (Raises ''reply has not started yet.'', w)
              | REPLY_STATUS_REPLY_START \<Rightarrow>
                  if \<not> wd_evcon w then (Raises ''connection closed by peer'', closed)
                  else if en_bev en \<and> en_peer_closed en then (Raises ''connection closed by peer'', closed)
                  else if args \<noteq> []
                  then if \<not> en_evbuffer_new en then (Raises ''Failed to create chunk buffer'', w)
                       else if chunk_data args \<noteq> [] \<and> \<not> en_evbuffer_add en
                       then (Raises ''Failed to add data to chunk buffer'', w)
                       else (Returns [LTable 0], call_http (SendReplyChunk (chunk_data args)) w)
                  else (Returns [LTable 0], w))"

definition lua_evhttp_request_reply_end :: "world \<Rightarrow> api_result \<times> world" where
  "lua_evhttp_request_reply_end w =
     (if \<not> rq_req (wd_rq w)
      then (Returns [LTable 0], upd_rq (\<lambda>r. r\<lparr>rq_reply_status := REPLY_STATUS_REPLYED\<rparr>) w)
      else case rq_reply_status (wd_rq w) of
             REPLY_STATUS_REPLYED \<Rightarrow> (Raises ''reply has completed already.'', w)
           | REPLY_STATUS_NONE \<Rightarrow> (Raises ''reply has not started yet.'', w)
           | REPLY_STATUS_REPLY_START \<Rightarrow>
               (Returns [LTable 0], finish_reply (if wd_evcon w then call_http SendReplyEnd w else w)))"

end
