(* ===== verification/Websocket.thy ===== *)
theory Websocket
  imports Httpd
begin

text \<open>
  The WebSocket layer of \<open>src/httpd_websocket.c\<close> and the request dispatch of \<open>src/httpd.c\<close>: the handshake, the methods
  that Lua code calls, the bufferevent callbacks, the cleanup with its deferred free, and the event loop as a step
  function on the state of a request. A resumed coroutine makes an arbitrary finite sequence of method calls, so the
  theorems about reachable states hold for every Lua program and every peer.
\<close>

section \<open>The handshake\<close>

definition WEBSOCKET_MAGIC_STRING :: bytes where
  "WEBSOCKET_MAGIC_STRING = map of_char ''258EAFA5-E914-47DA-95CA-C5AB0DC85B11''"

definition WEBSOCKET_KEY_LEN :: nat where "WEBSOCKET_KEY_LEN = 24"

definition WEBSOCKET_GUID_LEN :: nat where "WEBSOCKET_GUID_LEN = 36"

text \<open>\<open>strcasestr\<close>: whether a string occurs in another, without regard to case.\<close>

fun contains_nocase :: "bytes \<Rightarrow> bytes \<Rightarrow> bool" where
  "contains_nocase [] t \<longleftrightarrow> t = []"
| "contains_nocase (c # s) t \<longleftrightarrow> starts_with (map lower t) (c # s) \<or> contains_nocase s t"

definition is_websocket_upgrade_request :: "http_env \<Rightarrow> bool" where
  "is_websocket_upgrade_request en \<longleftrightarrow>
     (case en_header en ''Upgrade'' of Some u \<Rightarrow> strcaseeq u (map of_char ''websocket'') | None \<Rightarrow> False)
     \<and> (case en_header en ''Connection'' of Some c \<Rightarrow> contains_nocase c (map of_char ''upgrade'') | None \<Rightarrow> False)
     \<and> (case en_header en ''Sec-WebSocket-Key'' of Some k \<Rightarrow> 0 < length k | None \<Rightarrow> False)
     \<and> (case en_header en ''Sec-WebSocket-Version'' of Some v \<Rightarrow> v = map of_char ''13'' | None \<Rightarrow> False)"

text \<open>The key and the GUID are concatenated in a buffer of fixed size, then hashed; \<open>None\<close> is a failed \<open>malloc\<close>.\<close>

definition generate_websocket_accept_key :: "http_env \<Rightarrow> bytes \<Rightarrow> bytes option" where
  "generate_websocket_accept_key en client_key =
     (let combined = take (WEBSOCKET_KEY_LEN + WEBSOCKET_GUID_LEN) (client_key @ WEBSOCKET_MAGIC_STRING);
          digest = en_accept_digest en combined
      in if can_alloc (en_al en) (length digest + 1) then Some digest else None)"

definition handshake_response :: "bytes \<Rightarrow> bytes" where
  "handshake_response accept_key =
     map of_char ''HTTP/1.1 101 Switching Protocols'' @ [0x0d, 0x0a]
     @ map of_char ''Upgrade: websocket'' @ [0x0d, 0x0a]
     @ map of_char ''Connection: Upgrade'' @ [0x0d, 0x0a]
     @ map of_char ''Sec-WebSocket-Accept: '' @ accept_key @ [0x0d, 0x0a, 0x0d, 0x0a]"

text \<open>\<open>bufferevent_write_buffer\<close>, whose result tells whether the bytes were added to the output.\<close>

definition bev_write :: "http_env \<Rightarrow> bytes \<Rightarrow> world \<Rightarrow> world" where
  "bev_write en bs w = (if en_write en then w\<lparr>wd_out := wd_out w @ bs, wd_sent := wd_sent w @ bs\<rparr> else w)"

definition lua_evhttp_request_is_websocket_upgrade :: "http_env \<Rightarrow> world \<Rightarrow> api_result \<times> world" where
  "lua_evhttp_request_is_websocket_upgrade en w =
     (if \<not> rq_req (wd_rq w) then (Returns [LBool False], w)
      else (Returns [LBool (is_websocket_upgrade_request en)], w))"

definition lua_evhttp_request_websocket_accept :: "http_env \<Rightarrow> world \<Rightarrow> api_result \<times> world" where
  "lua_evhttp_request_websocket_accept en w =
     (if \<not> rq_req (wd_rq w) then (Raises ''connection closed by peer'', w)
      else if rq_reply_status (wd_rq w) \<noteq> REPLY_STATUS_NONE then (Raises ''Response already started'', w)
      else if \<not> is_websocket_upgrade_request en then (Raises ''Not a valid WebSocket upgrade request'', w)
      else
        case en_header en ''Sec-WebSocket-Key'' of
          None \<Rightarrow> (Raises ''Missing Sec-WebSocket-Key header'', w)
        | Some ws_key \<Rightarrow>
            (case generate_websocket_accept_key en ws_key of
               None \<Rightarrow> (Raises ''Failed to generate WebSocket accept key'', w)
             | Some accept_key \<Rightarrow>
                 let w = upd_rq (\<lambda>r. r\<lparr>rq_owns_request := True\<rparr>) w
                 in if \<not> en_evbuffer_new en then (Raises ''Failed to create response buffer'', w)
                    else if en_bev en
                    then
                      let w = bev_write en (handshake_response accept_key) w;
                          w = upd_rq (\<lambda>r. r\<lparr>rq_is_websocket := True, rq_ws_state := WS_STATE_OPEN, rq_ws_bev := True,
                                            rq_reply_status := REPLY_STATUS_REPLYED, rq_self_ref := True\<rparr>) w
                      in (Returns [LBool True],
                          w\<lparr>wd_closecb := False, wd_callbacks := CbWebsocket, wd_reading := True\<rparr>)
                    else (Returns [LBool False], w)))"

section \<open>Cleanup\<close>

text \<open>\<open>evhttp_connection_free\<close> on the connection of the request, if it has one.\<close>

definition free_connection :: "world \<Rightarrow> world" where
  "free_connection w = (if wd_evcon w then w\<lparr>wd_evcon := False, wd_freed := True\<rparr> else w)"

definition drop_refs :: "world \<Rightarrow> world" where
  "drop_refs w = upd_rq (\<lambda>r. r\<lparr>rq_self_ref := False, rq_prevent_gc_ref := False\<rparr>) w"

definition ws_deferred_free_cb :: "world \<Rightarrow> world" where
  "ws_deferred_free_cb w =
     (if \<not> rq_ws_cleaning_up (wd_rq w) then w
      else
        let w = (if rq_owns_request (wd_rq w) \<and> rq_req (wd_rq w)
                 then free_connection (upd_rq (\<lambda>r. r\<lparr>rq_req := False, rq_owns_request := False\<rparr>) w) else w)
        in drop_refs (upd_rq (\<lambda>r. r\<lparr>rq_req := False, rq_owns_request := False\<rparr>) w))"

definition ws_schedule_free :: "world \<Rightarrow> world" where
  "ws_schedule_free w = w\<lparr>wd_callbacks := CbNone, wd_timers := wd_timers w + 1\<rparr>"

definition ws_flush_writecb :: "world \<Rightarrow> world" where
  "ws_flush_writecb w =
     (if rq_ws_cleaning_up (wd_rq w) then w
      else if wd_out w = [] then ws_schedule_free w else w)"

text \<open>The flag of the event callbacks: end of file, an error, or another event.\<close>

datatype bev_event = BevEof | BevError | BevOther

definition ws_flush_eventcb :: "bev_event \<Rightarrow> world \<Rightarrow> world" where
  "ws_flush_eventcb what w =
     (if rq_ws_cleaning_up (wd_rq w) then w
      else if what \<noteq> BevOther then ws_schedule_free w else w)"

definition ws_connection_cleanup :: "world \<Rightarrow> world" where
  "ws_connection_cleanup w =
     (if rq_ws_cleaning_up (wd_rq w) then w
      else
        let w = upd_rq (\<lambda>r. r\<lparr>rq_ws_cleaning_up := True, rq_queue := ws_frame_queue_clear (rq_queue r)\<rparr>) w
        in if rq_ws_bev (wd_rq w)
           then
             let w = (upd_rq (\<lambda>r. r\<lparr>rq_ws_bev := False\<rparr>) w)\<lparr>wd_reading := False\<rparr>
             in if wd_out w = [] then ws_schedule_free w else w\<lparr>wd_callbacks := CbFlush\<rparr>
           else if rq_owns_request (wd_rq w) \<and> rq_req (wd_rq w)
           then drop_refs (free_connection (upd_rq (\<lambda>r. r\<lparr>rq_req := False, rq_owns_request := False\<rparr>) w))
           else w)"

section \<open>Sending\<close>

definition ws_write_frame :: "http_env \<Rightarrow> u8 \<Rightarrow> bytes option \<Rightarrow> nat \<Rightarrow> bool \<Rightarrow> world \<Rightarrow> world" where
  "ws_write_frame en opcode payload len fin w =
     (case websocket_create_frame (en_evbuffer_new en) opcode payload len fin of
        None \<Rightarrow> w
      | Some bs \<Rightarrow> bev_write en bs w)"

definition ws_send_frame :: "http_env \<Rightarrow> string \<Rightarrow> u8 \<Rightarrow> bytes option \<Rightarrow> bool \<Rightarrow> world \<Rightarrow> api_result \<times> world" where
  "ws_send_frame en err opcode payload fin w =
     (let len = (case payload of Some p \<Rightarrow> length p | None \<Rightarrow> 0)
      in if \<not> en_evbuffer_new en then (Raises err, w)
         else (Returns [LBool (en_write en)], ws_write_frame en opcode payload len fin w))"

definition ws_sendable :: "world \<Rightarrow> string option" where
  "ws_sendable w =
     (if \<not> rq_is_websocket (wd_rq w) \<or> rq_ws_state (wd_rq w) \<noteq> WS_STATE_OPEN
      then Some ''WebSocket connection not open''
      else if \<not> rq_ws_bev (wd_rq w) then Some ''WebSocket connection not available''
      else None)"

definition lua_evhttp_request_websocket_send ::
  "http_env \<Rightarrow> bytes \<Rightarrow> int option \<Rightarrow> int option \<Rightarrow> world \<Rightarrow> api_result \<times> world" where
  "lua_evhttp_request_websocket_send en data op fin w =
     (case ws_sendable w of
        Some e \<Rightarrow> (Raises e, w)
      | None \<Rightarrow>
          let opcode = (case op of Some z \<Rightarrow> c_int z | None \<Rightarrow> 1);
              fin = (case fin of Some z \<Rightarrow> c_int z | None \<Rightarrow> 1)
          in if opcode < 0 \<or> 0xF < opcode then (Raises ''Invalid WebSocket opcode'', w)
             else ws_send_frame en ''Failed to create WebSocket frame'' (word_of_int opcode) (Some data) (fin \<noteq> 0) w)"

definition lua_evhttp_request_websocket_ping :: "http_env \<Rightarrow> bytes option \<Rightarrow> world \<Rightarrow> api_result \<times> world" where
  "lua_evhttp_request_websocket_ping en payload w =
     (case ws_sendable w of
        Some e \<Rightarrow> (Raises e, w)
      | None \<Rightarrow>
          if 125 < (case payload of Some p \<Rightarrow> length p | None \<Rightarrow> 0)
          then (Raises ''Ping payload too large (max 125 bytes)'', w)
          else ws_send_frame en ''Failed to create ping frame'' WS_OPCODE_PING payload True w)"

definition lua_evhttp_request_websocket_pong :: "http_env \<Rightarrow> bytes option \<Rightarrow> world \<Rightarrow> api_result \<times> world" where
  "lua_evhttp_request_websocket_pong en payload w =
     (case ws_sendable w of
        Some e \<Rightarrow> (Raises e, w)
      | None \<Rightarrow>
          if 125 < (case payload of Some p \<Rightarrow> length p | None \<Rightarrow> 0)
          then (Raises ''Pong payload too large (max 125 bytes)'', w)
          else ws_send_frame en ''Failed to create pong frame'' WS_OPCODE_PONG payload True w)"

text \<open>The payload of a close frame: the code and as much of the reason as the buffer of 127 bytes takes.\<close>

definition close_payload :: "int \<Rightarrow> bytes option \<Rightarrow> bytes" where
  "close_payload close_code reason =
     (if 1000 \<le> close_code \<and> close_code \<le> 4999
      then [word_of_int (close_code div 256), word_of_int (close_code mod 256)]
           @ (case reason of Some r \<Rightarrow> take (127 - 2) r | None \<Rightarrow> [])
      else [])"

definition lua_evhttp_request_websocket_close ::
  "http_env \<Rightarrow> int option \<Rightarrow> bytes option \<Rightarrow> world \<Rightarrow> api_result \<times> world" where
  "lua_evhttp_request_websocket_close en code reason w =
     (if \<not> rq_is_websocket (wd_rq w) then (Raises ''Not a WebSocket connection'', w)
      else if rq_ws_state (wd_rq w) = WS_STATE_CLOSED then (Returns [LBool True], w)
      else if \<not> rq_ws_bev (wd_rq w)
      then (Returns [LBool True], upd_rq (\<lambda>r. r\<lparr>rq_ws_state := WS_STATE_CLOSED\<rparr>) w)
      else
        let p = close_payload (case code of Some z \<Rightarrow> c_int z | None \<Rightarrow> 1000) reason;
            w = ws_write_frame en WS_OPCODE_CLOSE (if 0 < length p then Some p else None) (length p) True w
        in (Returns [LBool True], upd_rq (\<lambda>r. r\<lparr>rq_ws_state := WS_STATE_CLOSING\<rparr>) w))"

definition lua_evhttp_request_websocket_state :: "world \<Rightarrow> api_result \<times> world" where
  "lua_evhttp_request_websocket_state w =
     (if \<not> rq_is_websocket (wd_rq w) then (Returns [LStr (map of_char ''not_websocket'')], w)
      else (Returns [LStr (map of_char
             (case rq_ws_state (wd_rq w) of
                WS_STATE_CONNECTING \<Rightarrow> ''connecting'' | WS_STATE_OPEN \<Rightarrow> ''open''
              | WS_STATE_CLOSING \<Rightarrow> ''closing'' | WS_STATE_CLOSED \<Rightarrow> ''closed''))], w))"

definition frame_value :: "websocket_frame \<Rightarrow> lval list" where
  "frame_value f =
     [LStr (if fr_payload_len f > 0 then (case fr_payload f of Some p \<Rightarrow> p | None \<Rightarrow> []) else []),
      LNum (dbl_of_nat (unat (fr_opcode f)))]"

definition lua_evhttp_request_websocket_receive :: "world \<Rightarrow> api_result \<times> world" where
  "lua_evhttp_request_websocket_receive w =
     (if \<not> rq_is_websocket (wd_rq w) then (Raises ''Not a WebSocket connection'', w)
      else if rq_ws_state (wd_rq w) = WS_STATE_CLOSED then (Returns [LNil, LStr (map of_char ''closed'')], w)
      else if rq_ws_state (wd_rq w) \<noteq> WS_STATE_OPEN then (Returns [LNil, LStr (map of_char ''not open'')], w)
      else
        case ws_frame_queue_pop (rq_queue (wd_rq w)) of
          (Some f, q) \<Rightarrow> (Returns (frame_value f), upd_rq (\<lambda>r. r\<lparr>rq_queue := q\<rparr>) w)
        | (None, q) \<Rightarrow>
            let w = upd_rq (\<lambda>r. r\<lparr>rq_queue := q\<rparr>) w
            in if rq_ref (wd_rq w)
               then (Raises ''Another coroutine is already waiting on this WebSocket'', w)
               else (Yields, upd_rq (\<lambda>r. r\<lparr>rq_ref := True\<rparr>) w))"
section \<open>Running Lua code\<close>

definition api_step :: "http_env \<Rightarrow> api_call \<Rightarrow> world \<Rightarrow> api_result \<times> world" where
  "api_step en c w =
     (case c of
        ApiAvailable \<Rightarrow> lua_evhttp_request_available w
      | ApiRead n \<Rightarrow> lua_evhttp_request_read en n w
      | ApiBody \<Rightarrow> (let (v, w) = request_push_body en w in (Returns [v], w))
      | ApiAddHeader k v \<Rightarrow> lua_evhttp_request_reply_addheader k v w
      | ApiReply code msg body \<Rightarrow> lua_evhttp_request_reply en code msg body w
      | ApiReplyStart code msg \<Rightarrow> lua_evhttp_request_reply_start code msg w
      | ApiReplyChunk args \<Rightarrow> lua_evhttp_request_reply_chunk en args w
      | ApiReplyEnd \<Rightarrow> lua_evhttp_request_reply_end w
      | ApiIsUpgrade \<Rightarrow> lua_evhttp_request_is_websocket_upgrade en w
      | ApiAccept \<Rightarrow> lua_evhttp_request_websocket_accept en w
      | ApiSend data op fin \<Rightarrow> lua_evhttp_request_websocket_send en data op fin w
      | ApiPing p \<Rightarrow> lua_evhttp_request_websocket_ping en p w
      | ApiPong p \<Rightarrow> lua_evhttp_request_websocket_pong en p w
      | ApiClose code reason \<Rightarrow> lua_evhttp_request_websocket_close en code reason w
      | ApiState \<Rightarrow> lua_evhttp_request_websocket_state w
      | ApiReceive \<Rightarrow> lua_evhttp_request_websocket_receive w)"

text \<open>
  The calls of a coroutine until it yields, returns or fails. A call that yields ends the run. Since the sequence
  of calls is arbitrary, this covers code that stops at an error as well as code that catches it.
\<close>

fun run_calls :: "http_env \<Rightarrow> api_call list \<Rightarrow> co_status \<Rightarrow> world \<Rightarrow> co_status \<times> world" where
  "run_calls en [] st w = (st, w)"
| "run_calls en (c # cs) st w =
     (case api_step en c w of
        (Yields, w') \<Rightarrow> (CoYield, w')
      | (_, w') \<Rightarrow> run_calls en cs st w')"

definition fan_resume :: "http_env \<Rightarrow> world \<Rightarrow> co_status \<times> world" where
  "fan_resume en w =
     (case wd_lua w of
        [] \<Rightarrow> (CoYield, w)
      | (cs, st) # rest \<Rightarrow> run_calls en cs st (w\<lparr>wd_lua := rest\<rparr>))"

definition cleanup_unless_yield :: "co_status \<times> world \<Rightarrow> world" where
  "cleanup_unless_yield sw = (case sw of (st, w) \<Rightarrow> if st \<noteq> CoYield then ws_connection_cleanup w else w)"

definition resume_waiting :: "http_env \<Rightarrow> lval list \<Rightarrow> world \<Rightarrow> world" where
  "resume_waiting en vs w =
     cleanup_unless_yield
       (fan_resume en ((upd_rq (\<lambda>r. r\<lparr>rq_ref := False\<rparr>) w)\<lparr>wd_resumed := wd_resumed w @ [vs]\<rparr>))"

text \<open>Both functions resume the coroutine that waits, if one does, and clean up when it has ended.\<close>

definition ws_resume_with_error :: "http_env \<Rightarrow> string \<Rightarrow> world \<Rightarrow> world" where
  "ws_resume_with_error en errmsg w =
     (if \<not> rq_ref (wd_rq w) then w else resume_waiting en [LNil, LStr (map of_char errmsg)] w)"

definition ws_resume_with_frame :: "http_env \<Rightarrow> websocket_frame \<Rightarrow> world \<Rightarrow> world" where
  "ws_resume_with_frame en frame w =
     (if \<not> rq_ref (wd_rq w) then w else resume_waiting en (frame_value frame) w)"

section \<open>Bufferevent callbacks\<close>

definition ws_closed :: "http_env \<Rightarrow> string \<Rightarrow> world \<Rightarrow> world" where
  "ws_closed en msg w =
     (if rq_ref (wd_rq w) then ws_resume_with_error en msg w else ws_connection_cleanup w)"

definition set_closed :: "world \<Rightarrow> world" where
  "set_closed w = upd_rq (\<lambda>r. r\<lparr>rq_ws_state := WS_STATE_CLOSED\<rparr>) w"

text \<open>
  What the loop of \<open>ws_readcb\<close> does with one frame, and whether it goes on: the flag is False when the callback
  returns.
\<close>

definition ws_handle_frame :: "http_env \<Rightarrow> websocket_frame \<Rightarrow> world \<Rightarrow> bool \<times> world" where
  "ws_handle_frame en frame w =
     (if fr_opcode frame = WS_OPCODE_PING
      then (True,
            if rq_ws_bev (wd_rq w) \<and> rq_ws_state (wd_rq w) = WS_STATE_OPEN
            then ws_write_frame en WS_OPCODE_PONG (fr_payload frame) (fr_payload_len frame) True w else w)
      else if fr_opcode frame = WS_OPCODE_PONG then (True, w)
      else if fr_opcode frame = WS_OPCODE_CLOSE
      then let w = set_closed w;
               w = (if rq_ws_bev (wd_rq w)
                    then ws_write_frame en WS_OPCODE_CLOSE (fr_payload frame) (fr_payload_len frame) True w else w)
           in (False, ws_closed en ''closed'' w)
      else if fr_opcode frame = WS_OPCODE_TEXT \<or> fr_opcode frame = WS_OPCODE_BINARY
      then if rq_ref (wd_rq w)
           then let w = ws_resume_with_frame en frame w in (rq_ws_bev (wd_rq w), w)
           else (True, upd_rq (\<lambda>r. r\<lparr>rq_queue := ws_frame_queue_push (en_node en) frame (rq_queue r)\<rparr>) w)
      else (True, w))"

function ws_read_loop :: "http_env \<Rightarrow> bytes \<Rightarrow> world \<Rightarrow> bytes \<times> world" where
  "ws_read_loop en input w =
     (if input = [] then ([], w)
      else case websocket_parse_frame (en_al en) input of
             ParseMore \<Rightarrow> (input, w)
           | ParseFailed rest \<Rightarrow> (rest, ws_closed en ''frame parse error'' (set_closed w))
           | ParsedFrame frame rest \<Rightarrow>
               (case ws_handle_frame en frame w of
                  (goon, w') \<Rightarrow> if goon then ws_read_loop en rest w' else (rest, w')))"
  by pat_completeness auto
termination
  by (relation "measure (\<lambda>(en, input, w). length input)") (auto dest: parse_frame_shape(1))

declare ws_read_loop.simps [simp del]

definition ws_readcb :: "http_env \<Rightarrow> world \<Rightarrow> world" where
  "ws_readcb en w = (case ws_read_loop en (wd_in w) w of (rest, w') \<Rightarrow> w'\<lparr>wd_in := rest\<rparr>)"

definition ws_eventcb :: "http_env \<Rightarrow> bev_event \<Rightarrow> world \<Rightarrow> world" where
  "ws_eventcb en what w =
     (if what \<noteq> BevOther
      then ws_closed en (if what = BevEof then ''connection closed'' else ''connection error'') (set_closed w)
      else w)"

section \<open>Dispatch\<close>

datatype evhttp_cmd_type =
    EVHTTP_REQ_GET | EVHTTP_REQ_POST | EVHTTP_REQ_HEAD | EVHTTP_REQ_PUT | EVHTTP_REQ_DELETE
  | EVHTTP_REQ_OPTIONS | EVHTTP_REQ_TRACE | EVHTTP_REQ_CONNECT | EVHTTP_REQ_PATCH | EVHTTP_REQ_OTHER nat

definition methodMap :: "(string \<times> evhttp_cmd_type) list" where
  "methodMap =
     [(''GET'', EVHTTP_REQ_GET), (''POST'', EVHTTP_REQ_POST), (''HEAD'', EVHTTP_REQ_HEAD), (''PUT'', EVHTTP_REQ_PUT),
      (''DELETE'', EVHTTP_REQ_DELETE), (''OPTIONS'', EVHTTP_REQ_OPTIONS), (''TRACE'', EVHTTP_REQ_TRACE),
      (''CONNECT'', EVHTTP_REQ_CONNECT), (''PATCH'', EVHTTP_REQ_PATCH)]"

definition method_name :: "evhttp_cmd_type \<Rightarrow> string option" where
  "method_name cmd = map_option fst (find (\<lambda>(name, c). c = cmd) methodMap)"

text \<open>
  A new request. \<open>co\<close> and \<open>callable\<close> say whether the coroutine could
  be created and whether the service callback is a function.
\<close>

definition httpd_handler_cgi_bin :: "http_env \<Rightarrow> evhttp_cmd_type \<Rightarrow> bool \<Rightarrow> bool \<Rightarrow> world \<Rightarrow> world" where
  "httpd_handler_cgi_bin en cmd co callable w =
     (let g = metrics_update_request_start (method_name cmd) (metrics_update_connection (wd_metrics w));
          w = w\<lparr>wd_metrics := g\<rparr>
      in if \<not> co \<or> \<not> callable then call_http (SendError 500) w
         else
           case fan_resume en (newtable_from_req w) of
             (st, w) \<Rightarrow>
               if st \<noteq> CoYield \<and> rq_reply_status (wd_rq w) \<noteq> REPLY_STATUS_REPLYED
               then httpd_release_conn_guard w else w)"

section \<open>The event loop\<close>

text \<open>
  What happens to an accepted request: Lua code calls a method, bytes arrive, the connection reports an event,
  \<open>n\<close> bytes of the output are written to the socket, the timer of the deferred free fires, or the peer closes the
  connection of a plain HTTP request. Each event comes with the behaviour of the environment during it.
\<close>

datatype ws_event =
    EvCall api_call
  | EvData bytes
  | EvEvent bev_event
  | EvDrain nat
  | EvTimer
  | EvHttpClose

definition ws_step :: "http_env \<Rightarrow> ws_event \<Rightarrow> world \<Rightarrow> world" where
  "ws_step en e w =
     (case e of
        EvCall c \<Rightarrow> snd (api_step en c w)
      | EvData bs \<Rightarrow>
          (let w = w\<lparr>wd_in := wd_in w @ bs\<rparr>
           in if wd_callbacks w = CbWebsocket \<and> wd_reading w then ws_readcb en w else w)
      | EvEvent what \<Rightarrow>
          (case wd_callbacks w of
             CbWebsocket \<Rightarrow> ws_eventcb en what w
           | CbFlush \<Rightarrow> ws_flush_eventcb what w
           | _ \<Rightarrow> w)
      | EvDrain n \<Rightarrow>
          (let w = w\<lparr>wd_out := drop n (wd_out w)\<rparr>
           in if wd_callbacks w = CbFlush \<and> wd_out w = [] then ws_flush_writecb w else w)
      | EvTimer \<Rightarrow> if 0 < wd_timers w then ws_deferred_free_cb (w\<lparr>wd_timers := wd_timers w - 1\<rparr>) else w
      | EvHttpClose \<Rightarrow> if wd_closecb w then (httpd_conn_close_cb w)\<lparr>wd_evcon := False, wd_closecb := False\<rparr> else w)"

end
