(* ===== verification/Ws_Safety.thy ===== *)
theory Ws_Safety
  imports Websocket
begin

text \<open>
  The invariant of a request and its connection, and how its state may develop. For each operation of the model there
  is a lemma that it keeps the invariant and takes nothing back; the properties follow for all reachable states by
  induction over the events.
\<close>

section \<open>Invariant\<close>

text \<open>The calls to libevent's reply functions that fit a reply status.\<close>

fun calls_ok :: "reply_status \<Rightarrow> http_call list \<Rightarrow> bool" where
  "calls_ok REPLY_STATUS_NONE cs \<longleftrightarrow> cs = []"
| "calls_ok REPLY_STATUS_REPLY_START cs \<longleftrightarrow> (\<exists>c m ds. cs = SendReplyStart c m # map SendReplyChunk ds)"
| "calls_ok REPLY_STATUS_REPLYED cs \<longleftrightarrow>
     cs = [] \<or> (\<exists>c m d. cs = [SendReply c m d])
     \<or> (\<exists>c m ds. cs = SendReplyStart c m # map SendReplyChunk ds \<or> cs = SendReplyStart c m # map SendReplyChunk ds @ [SendReplyEnd])"

lemma calls_ok_step:
  "calls_ok REPLY_STATUS_NONE cs \<Longrightarrow> calls_ok REPLY_STATUS_REPLYED (cs @ [SendReply c m d])"
  "calls_ok REPLY_STATUS_NONE cs \<Longrightarrow> calls_ok REPLY_STATUS_REPLY_START (cs @ [SendReplyStart c m])"
  "calls_ok REPLY_STATUS_REPLY_START cs \<Longrightarrow> calls_ok REPLY_STATUS_REPLYED (cs @ [SendReplyEnd])"
  "calls_ok st cs \<Longrightarrow> calls_ok REPLY_STATUS_REPLYED cs"
  by (auto, cases st, auto)

lemma calls_ok_chunk:
  assumes "calls_ok REPLY_STATUS_REPLY_START cs"
  shows "calls_ok REPLY_STATUS_REPLY_START (cs @ [SendReplyChunk d])"
proof -
  from assms obtain c m ds where "cs = SendReplyStart c m # map SendReplyChunk ds" by auto
  then have "cs @ [SendReplyChunk d] = SendReplyStart c m # map SendReplyChunk (ds @ [d])" by simp
  then show ?thesis by (auto simp del: map_append)
qed

lemmas calls_ok_intros = calls_ok_step(1-3) calls_ok_chunk

declare calls_ok.simps [simp del]

definition ws_inv :: "world \<Rightarrow> bool" where
  "ws_inv w \<longleftrightarrow>
     queue_inv (rq_queue (wd_rq w))
     \<and> (rq_ws_bev (wd_rq w) \<longleftrightarrow> wd_callbacks w = CbWebsocket)
     \<and> (rq_ws_bev (wd_rq w) \<longrightarrow> rq_is_websocket (wd_rq w) \<and> \<not> rq_ws_cleaning_up (wd_rq w))
     \<and> (rq_ws_cleaning_up (wd_rq w) \<longrightarrow> rq_queue (wd_rq w) = empty_queue \<and> rq_is_websocket (wd_rq w))
     \<and> (rq_is_websocket (wd_rq w) \<longrightarrow> rq_reply_status (wd_rq w) = REPLY_STATUS_REPLYED \<and> wd_calls w = [])
     \<and> (rq_is_websocket (wd_rq w) \<longleftrightarrow> rq_ws_state (wd_rq w) \<noteq> WS_STATE_CONNECTING)
     \<and> (\<not> rq_is_websocket (wd_rq w) \<longrightarrow> rq_queue (wd_rq w) = empty_queue)
     \<and> calls_ok (rq_reply_status (wd_rq w)) (wd_calls w)"

fun ws_rank :: "websocket_state \<Rightarrow> nat" where
  "ws_rank WS_STATE_CONNECTING = 0"
| "ws_rank WS_STATE_OPEN = 1"
| "ws_rank WS_STATE_CLOSING = 2"
| "ws_rank WS_STATE_CLOSED = 3"

fun reply_rank :: "reply_status \<Rightarrow> nat" where
  "reply_rank REPLY_STATUS_NONE = 0"
| "reply_rank REPLY_STATUS_REPLY_START = 1"
| "reply_rank REPLY_STATUS_REPLYED = 2"

text \<open>What a call to libevent's reply functions means for the metrics: only a complete reply is counted.\<close>

fun meter :: "http_call \<Rightarrow> httpd_metrics \<Rightarrow> httpd_metrics" where
  "meter (SendReply code msg data) g = metrics_update_request_end code (length data) g"
| "meter _ g = g"

text \<open>How the state may develop: nothing is taken back, and the metrics follow the calls.\<close>

definition evolves :: "world \<Rightarrow> world \<Rightarrow> bool" where
  "evolves w w' \<longleftrightarrow>
     ws_inv w' \<and> ws_rank (rq_ws_state (wd_rq w)) \<le> ws_rank (rq_ws_state (wd_rq w'))
     \<and> reply_rank (rq_reply_status (wd_rq w)) \<le> reply_rank (rq_reply_status (wd_rq w'))
     \<and> (rq_ws_cleaning_up (wd_rq w) \<longrightarrow> rq_ws_cleaning_up (wd_rq w'))
     \<and> (\<exists>cs. wd_calls w' = wd_calls w @ cs \<and> wd_metrics w' = fold meter cs (wd_metrics w))
     \<and> (\<exists>bs. wd_sent w' = wd_sent w @ bs)"

lemma evolves_refl [simp]: "ws_inv w \<Longrightarrow> evolves w w"
  by (simp add: evolves_def)

lemma evolves_trans: "evolves w w1 \<Longrightarrow> evolves w1 w2 \<Longrightarrow> evolves w w2"
  by (auto simp: evolves_def)

lemma evolves_inv: "evolves w w' \<Longrightarrow> ws_inv w'"
  by (simp add: evolves_def)

lemma evolves_websocket: "evolves w w' \<Longrightarrow> ws_inv w \<Longrightarrow> rq_is_websocket (wd_rq w) \<Longrightarrow> rq_is_websocket (wd_rq w')"
  by (cases "rq_ws_state (wd_rq w)"; cases "rq_ws_state (wd_rq w')") (auto simp: evolves_def ws_inv_def)

lemmas upd_simps [simp] = upd_rq_def call_http_def

section \<open>Methods of a request\<close>

lemma reply_unchanged:
  assumes "ws_inv w" and "wd_rq w' = wd_rq w" and "wd_calls w' = wd_calls w" and "wd_callbacks w' = wd_callbacks w"
    and "wd_sent w' = wd_sent w" and "wd_metrics w' = wd_metrics w"
  shows "evolves w w'"
  using assms by (auto simp: evolves_def ws_inv_def)

lemma connection_header_frame:
  "wd_rq (set_connection_header en s w) = wd_rq w" "wd_calls (set_connection_header en s w) = wd_calls w"
  "wd_callbacks (set_connection_header en s w) = wd_callbacks w" "wd_sent (set_connection_header en s w) = wd_sent w"
  "wd_evcon (set_connection_header en s w) = wd_evcon w" "wd_metrics (set_connection_header en s w) = wd_metrics w"
  by (simp_all add: set_connection_header_def Let_def keep_alive_headers_def evhttp_add_header_def)

lemma reply_evolves:
  assumes "ws_inv w"
  shows "evolves w (snd (lua_evhttp_request_reply en code msg body w))"
  using assms
  by (cases "rq_reply_status (wd_rq w)"; cases "en_server en")
    (auto simp: lua_evhttp_request_reply_def evolves_def ws_inv_def finish_reply_def httpd_release_conn_guard_def
       Let_def connection_header_frame evhttp_add_header_def intro: calls_ok_intros)

lemma addheader_evolves: "ws_inv w \<Longrightarrow> evolves w (snd (lua_evhttp_request_reply_addheader k v w))"
  by (auto simp: lua_evhttp_request_reply_addheader_def intro!: reply_unchanged split: reply_status.splits)

lemma reply_start_evolves: "ws_inv w \<Longrightarrow> evolves w (snd (lua_evhttp_request_reply_start code msg w))"
  by (cases "rq_reply_status (wd_rq w)")
    (auto simp: lua_evhttp_request_reply_start_def evolves_def ws_inv_def intro: calls_ok_intros)

lemma reply_chunk_evolves: "ws_inv w \<Longrightarrow> evolves w (snd (lua_evhttp_request_reply_chunk en args w))"
  by (cases "rq_reply_status (wd_rq w)")
    (auto simp: lua_evhttp_request_reply_chunk_def evolves_def ws_inv_def Let_def intro: calls_ok_intros calls_ok_step(4))

lemma reply_end_evolves: "ws_inv w \<Longrightarrow> evolves w (snd (lua_evhttp_request_reply_end w))"
  by (cases "rq_reply_status (wd_rq w)")
    (auto simp: lua_evhttp_request_reply_end_def evolves_def ws_inv_def finish_reply_def httpd_release_conn_guard_def Let_def
       intro: calls_ok_intros calls_ok_step(4))

lemma body_evolves:
  "ws_inv w \<Longrightarrow> evolves w (snd (request_push_body en w))"
  "ws_inv w \<Longrightarrow> evolves w (snd (lua_evhttp_request_read en n w))"
  "ws_inv w \<Longrightarrow> evolves w (snd (lua_evhttp_request_available w))"
  by (auto simp: request_push_body_def lua_evhttp_request_read_def lua_evhttp_request_available_def Let_def
      intro!: reply_unchanged split: option.splits prod.splits)
lemma write_frame_frame [simp]:
  "wd_rq (ws_write_frame en op p n fin w) = wd_rq w" "wd_calls (ws_write_frame en op p n fin w) = wd_calls w"
  "wd_callbacks (ws_write_frame en op p n fin w) = wd_callbacks w" "wd_metrics (ws_write_frame en op p n fin w) = wd_metrics w"
  "\<exists>bs. wd_sent (ws_write_frame en op p n fin w) = wd_sent w @ bs"
  by (auto simp: ws_write_frame_def bev_write_def split: option.splits)

lemma ws_changed:
  assumes "ws_inv w" and "wd_callbacks w' = wd_callbacks w" and "wd_calls w' = wd_calls w" and "wd_metrics w' = wd_metrics w"
    and "\<exists>bs. wd_sent w' = wd_sent w @ bs" and "ws_inv w'" and "rq_reply_status (wd_rq w') = rq_reply_status (wd_rq w)"
    and "rq_ws_cleaning_up (wd_rq w') = rq_ws_cleaning_up (wd_rq w)"
    and "ws_rank (rq_ws_state (wd_rq w)) \<le> ws_rank (rq_ws_state (wd_rq w'))"
  shows "evolves w w'"
  using assms by (simp add: evolves_def)

lemma write_frame_evolves: "ws_inv w \<Longrightarrow> evolves w (ws_write_frame en op p n fin w)"
  by (intro ws_changed) (auto simp: ws_inv_def)

lemma send_frame_evolves: "ws_inv w \<Longrightarrow> evolves w (snd (ws_send_frame en e op p fin w))"
  by (auto simp: ws_send_frame_def Let_def intro: write_frame_evolves)

lemma send_evolves:
  "ws_inv w \<Longrightarrow> evolves w (snd (lua_evhttp_request_websocket_send en data op fin w))"
  "ws_inv w \<Longrightarrow> evolves w (snd (lua_evhttp_request_websocket_ping en p w))"
  "ws_inv w \<Longrightarrow> evolves w (snd (lua_evhttp_request_websocket_pong en p w))"
  by (auto simp: lua_evhttp_request_websocket_send_def lua_evhttp_request_websocket_ping_def
      lua_evhttp_request_websocket_pong_def Let_def intro: send_frame_evolves split: option.splits)

lemma rank_closed: "ws_rank st \<le> 3"
  by (cases st) simp_all

lemma set_closed_evolves:
  assumes "ws_inv w" and "rq_is_websocket (wd_rq w)"
  shows "evolves w (set_closed w)"
  using assms rank_closed by (auto simp: set_closed_def evolves_def ws_inv_def)

lemma close_evolves:
  assumes w: "ws_inv w"
  shows "evolves w (snd (lua_evhttp_request_websocket_close en code reason w))"
proof -
  have c: "evolves v (upd_rq (\<lambda>r. r\<lparr>rq_ws_state := WS_STATE_CLOSING\<rparr>) v)"
    if "ws_inv v" "rq_is_websocket (wd_rq v)" "rq_ws_state (wd_rq v) \<noteq> WS_STATE_CLOSED" for v
    using that by (cases "rq_ws_state (wd_rq v)") (auto simp: evolves_def ws_inv_def)
  have "evolves w (upd_rq (\<lambda>r. r\<lparr>rq_ws_state := WS_STATE_CLOSING\<rparr>) (ws_write_frame en op p n fin w))"
    if "rq_is_websocket (wd_rq w)" "rq_ws_state (wd_rq w) \<noteq> WS_STATE_CLOSED" for op p n fin
    using that evolves_inv [OF write_frame_evolves [OF w]] by (intro evolves_trans [OF write_frame_evolves [OF w] c]) simp_all
  moreover have "evolves w (upd_rq (\<lambda>r. r\<lparr>rq_ws_state := WS_STATE_CLOSED\<rparr>) w)" if "rq_is_websocket (wd_rq w)"
    using set_closed_evolves [OF w that] by (simp add: set_closed_def)
  ultimately show ?thesis using w by (simp add: lua_evhttp_request_websocket_close_def Let_def)
qed

lemma receive_evolves: "ws_inv w \<Longrightarrow> evolves w (snd (lua_evhttp_request_websocket_receive w))"
proof -
  assume w: "ws_inv w"
  have q: "queue_inv (snd (ws_frame_queue_pop (rq_queue (wd_rq w))))" using w by (simp add: ws_inv_def wsq.pop_inv)
  have e: "snd (ws_frame_queue_pop (rq_queue (wd_rq w))) = empty_queue" if "rq_queue (wd_rq w) = empty_queue"
    using that by (simp add: ws_frame_queue_pop_def empty_queue_def)
  show ?thesis
    using w q e by (cases "ws_frame_queue_pop (rq_queue (wd_rq w))")
      (auto simp: lua_evhttp_request_websocket_receive_def Let_def evolves_def ws_inv_def split: option.splits)
qed

lemma accept_evolves: "ws_inv w \<Longrightarrow> evolves w (snd (lua_evhttp_request_websocket_accept en w))"
  by (auto simp: lua_evhttp_request_websocket_accept_def Let_def evolves_def ws_inv_def bev_write_def
      calls_ok.simps split: option.splits)

lemma api_evolves: "ws_inv w \<Longrightarrow> evolves w (snd (api_step en c w))"
  by (cases c)
    (auto simp: api_step_def case_prod_beta reply_evolves addheader_evolves reply_start_evolves reply_chunk_evolves
      reply_end_evolves body_evolves send_evolves close_evolves receive_evolves accept_evolves
      lua_evhttp_request_is_websocket_upgrade_def lua_evhttp_request_websocket_state_def)

section \<open>Callbacks\<close>

lemma run_calls_evolves: "ws_inv w \<Longrightarrow> evolves w (snd (run_calls en cs st w))"
proof (induction en cs st w rule: run_calls.induct)
  case (2 en c cs st w)
  obtain r w' where r: "api_step en c w = (r, w')" by fastforce
  then have e: "evolves w w'" using api_evolves [OF 2(3), of en c] by simp
  then have "evolves w' (snd (run_calls en cs st w'))" if "r \<noteq> Yields"
    using 2(1,2) r that evolves_inv [OF e] by (cases r) auto
  with e r show ?case by (cases r) (auto intro: evolves_trans)
qed simp

lemma resume_evolves: "ws_inv w \<Longrightarrow> evolves w (snd (fan_resume en w))"
proof -
  assume w: "ws_inv w"
  have "evolves w (w\<lparr>wd_lua := l\<rparr>)" for l using w by (intro reply_unchanged) simp_all
  then have "evolves w (snd (run_calls en cs st (w\<lparr>wd_lua := l\<rparr>)))" for cs st l
    by (meson evolves_inv evolves_trans run_calls_evolves)
  with w show ?thesis by (auto simp: fan_resume_def split: list.splits)
qed

lemma cleanup_evolves: "ws_inv w \<Longrightarrow> rq_is_websocket (wd_rq w) \<Longrightarrow> evolves w (ws_connection_cleanup w)"
  by (auto simp: ws_connection_cleanup_def evolves_def ws_inv_def Let_def clear_empty ws_schedule_free_def
      drop_refs_def free_connection_def)

lemma resume_waiting_evolves:
  assumes w: "ws_inv w" and ws: "rq_is_websocket (wd_rq w)"
  shows "evolves w (resume_waiting en vs w)"
proof -
  let ?w = "(upd_rq (\<lambda>r. r\<lparr>rq_ref := False\<rparr>) w)\<lparr>wd_resumed := wd_resumed w @ [vs]\<rparr>"
  from w have "evolves w ?w" by (auto simp: evolves_def ws_inv_def)
  moreover from this have "evolves ?w (snd (fan_resume en ?w))" by (intro resume_evolves) (rule evolves_inv)
  ultimately have e: "evolves w (snd (fan_resume en ?w))" by (rule evolves_trans)
  have "evolves w (ws_connection_cleanup (snd (fan_resume en ?w)))"
    by (rule evolves_trans [OF e cleanup_evolves [OF evolves_inv [OF e] evolves_websocket [OF e w ws]]])
  with e show ?thesis
    unfolding resume_waiting_def cleanup_unless_yield_def by (simp add: case_prod_beta)
qed

lemma closed_evolves: "ws_inv w \<Longrightarrow> rq_is_websocket (wd_rq w) \<Longrightarrow> evolves w (ws_closed en msg w)"
  by (simp add: ws_closed_def ws_resume_with_error_def resume_waiting_evolves cleanup_evolves)

lemma closed_evolves_from:
  "ws_inv w \<Longrightarrow> rq_is_websocket (wd_rq w) \<Longrightarrow> evolves w w' \<Longrightarrow> evolves w (ws_closed en msg w')"
  by (meson closed_evolves evolves_inv evolves_trans evolves_websocket)

lemma push_evolves:
  assumes "ws_inv w" and "rq_ws_bev (wd_rq w)"
  shows "evolves w (upd_rq (\<lambda>r. r\<lparr>rq_queue := ws_frame_queue_push can f (rq_queue r)\<rparr>) w)"
  using assms wsq.push_inv by (auto simp: evolves_def ws_inv_def)

lemma handle_frame_evolves:
  assumes w: "ws_inv w" and bev: "rq_ws_bev (wd_rq w)"
  shows "evolves w (snd (ws_handle_frame en f w))"
    and "fst (ws_handle_frame en f w) \<Longrightarrow> rq_ws_bev (wd_rq (snd (ws_handle_frame en f w)))"
proof -
  have ws: "rq_is_websocket (wd_rq w)" using w bev by (simp add: ws_inv_def)
  let ?c = "set_closed w"
  have c: "evolves w ?c" by (rule set_closed_evolves [OF w ws])
  have "evolves w (ws_write_frame en op p n fin ?c)" for op p n fin
    by (rule evolves_trans [OF c write_frame_evolves [OF evolves_inv [OF c]]])
  then have close: "evolves w (ws_closed en msg (if b then ws_write_frame en op p n fin ?c else ?c))" for b op p n fin msg
    using c by (cases b) (auto intro: closed_evolves_from [OF w ws])
  show "evolves w (snd (ws_handle_frame en f w))"
    using w bev ws close push_evolves [OF w bev, of "en_node en" f]
    by (simp add: ws_handle_frame_def Let_def write_frame_evolves ws_resume_with_frame_def resume_waiting_evolves)
  show "fst (ws_handle_frame en f w) \<Longrightarrow> rq_ws_bev (wd_rq (snd (ws_handle_frame en f w)))"
    using bev by (auto simp: ws_handle_frame_def Let_def split: if_splits)
qed

lemma read_loop_evolves:
  "ws_inv w \<Longrightarrow> rq_ws_bev (wd_rq w) \<Longrightarrow> evolves w (snd (ws_read_loop en input w))"
proof (induction en input w rule: ws_read_loop.induct)
  case (1 en input w)
  have ws: "rq_is_websocket (wd_rq w)" using 1 by (simp add: ws_inv_def)
  show ?case
  proof (cases "websocket_parse_frame (en_al en) input")
    case (ParsedFrame f rest)
    obtain g w' where g: "ws_handle_frame en f w = (g, w')" by fastforce
    have e: "evolves w w'" using handle_frame_evolves(1) [OF 1(2,3), of en f] g by simp
    have "evolves w' (snd (ws_read_loop en rest w'))" if g "input \<noteq> []"
      using 1(1) [OF that(2) ParsedFrame g [symmetric] that(1)] handle_frame_evolves(2) [OF 1(2,3), of en f] g that
        evolves_inv [OF e] by simp
    with e 1(2) g ParsedFrame show ?thesis by (subst ws_read_loop.simps) (auto intro: evolves_trans)
  qed (use 1(2) closed_evolves_from [OF 1(2) ws set_closed_evolves [OF 1(2) ws]] in \<open>subst ws_read_loop.simps, auto\<close>)+
qed
section \<open>Events\<close>

lemma readcb_evolves: "ws_inv w \<Longrightarrow> rq_ws_bev (wd_rq w) \<Longrightarrow> evolves w (ws_readcb en w)"
proof -
  assume "ws_inv w" "rq_ws_bev (wd_rq w)"
  then have "evolves w (snd (ws_read_loop en (wd_in w) w))" by (rule read_loop_evolves)
  then show ?thesis by (auto simp: ws_readcb_def case_prod_beta evolves_def ws_inv_def)
qed

lemma flush_evolves:
  "ws_inv w \<Longrightarrow> wd_callbacks w = CbFlush \<Longrightarrow> evolves w (ws_flush_writecb w)"
  "ws_inv w \<Longrightarrow> wd_callbacks w = CbFlush \<Longrightarrow> evolves w (ws_flush_eventcb what w)"
  by (auto simp: ws_flush_writecb_def ws_flush_eventcb_def ws_schedule_free_def evolves_def ws_inv_def)

lemma deferred_free_evolves: "ws_inv w \<Longrightarrow> evolves w (ws_deferred_free_cb w)"
  by (auto simp: ws_deferred_free_cb_def Let_def drop_refs_def free_connection_def evolves_def ws_inv_def)

lemma conn_close_evolves: "ws_inv w \<Longrightarrow> evolves w (httpd_conn_close_cb w)"
  by (cases "rq_reply_status (wd_rq w)")
    (auto simp: httpd_conn_close_cb_def Let_def evolves_def ws_inv_def intro: calls_ok_intros calls_ok_step(4))

lemma field_evolves:
  assumes "evolves w w'"
  shows "evolves w (w'\<lparr>wd_in := i\<rparr>)" and "evolves w (w'\<lparr>wd_out := i'\<rparr>)" and "evolves w (w'\<lparr>wd_timers := n\<rparr>)"
    and "evolves w (w'\<lparr>wd_evcon := b, wd_closecb := b'\<rparr>)"
  using assms by (auto simp: evolves_def ws_inv_def)

lemma step_evolves: "ws_inv w \<Longrightarrow> evolves w (ws_step en e w)"
proof -
  assume w: "ws_inv w"
  note f = field_evolves [OF evolves_refl [OF w]]
  note fi = f [THEN evolves_inv]
  show ?thesis
  proof (cases e)
    case (EvData bs)
    let ?w = "w\<lparr>wd_in := wd_in w @ bs\<rparr>"
    have "evolves w (ws_readcb en ?w)" if "wd_callbacks w = CbWebsocket"
      using evolves_trans [OF f(1) readcb_evolves [OF fi(1)]] that w by (simp add: ws_inv_def)
    with f(1) EvData show ?thesis by (simp add: ws_step_def Let_def)
  next
    case (EvEvent what)
    have "evolves w (ws_eventcb en what w)" if "wd_callbacks w = CbWebsocket"
    proof -
      have "rq_is_websocket (wd_rq w)" using that w by (auto simp: ws_inv_def)
      with w show ?thesis by (simp add: ws_eventcb_def closed_evolves_from set_closed_evolves)
    qed
    with w EvEvent flush_evolves(2) [OF w] show ?thesis by (simp add: ws_step_def split: bev_callbacks.splits)
  next
    case (EvDrain n)
    then show ?thesis
      using f(2) [of "drop n (wd_out w)"] flush_evolves(1) [OF fi(2), of "drop n (wd_out w)"] evolves_trans
      by (auto simp: ws_step_def Let_def)
  next
    case EvTimer
    then show ?thesis
      using w evolves_trans [OF f(3) deferred_free_evolves [OF fi(3)]] by (simp add: ws_step_def)
  next
    case EvHttpClose
    then show ?thesis using w field_evolves(4) [OF conn_close_evolves [OF w]] by (simp add: ws_step_def)
  next
    case (EvCall c)
    then show ?thesis using w by (simp add: ws_step_def api_evolves)
  qed
qed

text \<open>The states a request can get into.\<close>

inductive ws_reaches :: "world \<Rightarrow> world \<Rightarrow> bool" for w0 where
  ws_start: "ws_reaches w0 w0"
| ws_next: "ws_reaches w0 w \<Longrightarrow> ws_reaches w0 (ws_step en e w)"

inductive_cases ws_reachesE: "ws_reaches w0 w"

definition new_world :: "world \<Rightarrow> bool" where
  "new_world w \<longleftrightarrow>
     wd_rq w = new_request\<lparr>rq_prevent_gc_ref := True\<rparr> \<and> wd_calls w = [] \<and> wd_sent w = [] \<and> wd_callbacks w = CbHttp"

lemma new_world_inv: "new_world w \<Longrightarrow> ws_inv w"
  by (auto simp: new_world_def ws_inv_def new_request_def calls_ok.simps)

lemma reaches_evolves: "ws_reaches w0 w \<Longrightarrow> ws_inv w0 \<Longrightarrow> evolves w0 w"
  by (induction rule: ws_reaches.induct) (auto intro: evolves_trans step_evolves dest: evolves_inv)

lemma reaches_trans: "ws_reaches w1 w2 \<Longrightarrow> ws_reaches w0 w1 \<Longrightarrow> ws_reaches w0 w2"
  by (induction rule: ws_reaches.induct) (auto intro: ws_next)

definition sample_world :: world where
  "sample_world =
     \<lparr>wd_rq = new_request\<lparr>rq_prevent_gc_ref := True\<rparr>, wd_metrics = metrics_init 0, wd_calls = [], wd_out_headers = [],
      wd_body = [], wd_body_cache = None, wd_evcon = True, wd_closecb = True, wd_freed = False, wd_in = [], wd_out = [],
      wd_sent = [], wd_callbacks = CbHttp, wd_reading = True, wd_timers = 0, wd_lua = [], wd_resumed = []\<rparr>"

definition sample_env :: http_env where
  "sample_env =
     \<lparr>en_al = roomy_alloc, en_node = (\<lambda>_. True), en_evbuffer_new = True, en_evbuffer_add = True, en_write = True,
      en_bev = True, en_peer_closed = False,
      en_header = [''Upgrade'' \<mapsto> map of_char ''websocket'', ''Connection'' \<mapsto> map of_char ''Upgrade'',
                   ''Sec-WebSocket-Key'' \<mapsto> [0x41], ''Sec-WebSocket-Version'' \<mapsto> map of_char ''13''],
      en_server = None, en_accept_digest = (\<lambda>bs. bs)\<rparr>"

lemma sample_new: "new_world sample_world"
  by (simp add: new_world_def sample_world_def)

text \<open>
  (C5) The invariant of a request and its connection, in every state that any sequence of method calls, network
  events and timers leads to, with any behaviour of the peer, of the Lua code and of the allocator: the frame queue
  is a well-formed list of at most 64 frames; the bufferevent is set exactly while the WebSocket callbacks are
  installed, and then the request is a WebSocket that is not being cleaned up; once cleanup has begun the queue is
  empty; and the calls made to libevent's reply functions fit the reply status.
\<close>

theorem websocket_invariant:
  assumes "new_world w0" and "ws_reaches w0 w"
  shows "ws_inv w"
  using reaches_evolves [OF assms(2) new_world_inv [OF assms(1)]] by (rule evolves_inv)

theorem websocket_invariant_witness:
  "new_world sample_world \<and> ws_reaches sample_world (ws_step sample_env (EvCall ApiAccept) sample_world)
   \<and> ws_inv (ws_step sample_env (EvCall ApiAccept) sample_world)"
proof -
  have r: "ws_reaches sample_world (ws_step sample_env (EvCall ApiAccept) sample_world)" by (intro ws_next ws_start)
  from websocket_invariant [OF sample_new r] sample_new r show ?thesis by blast
qed

text \<open>
  A request never goes back: from every reachable state on, the WebSocket state only moves along connecting,
  open, closing, closed, the reply status only along none, started, replied, a cleanup that has begun stays begun,
  and what was sent stays sent.
\<close>

lemma websocket_no_way_back:
  assumes "new_world w0" and "ws_reaches w0 w" and "ws_reaches w w'"
  shows "ws_rank (rq_ws_state (wd_rq w)) \<le> ws_rank (rq_ws_state (wd_rq w'))
    \<and> reply_rank (rq_reply_status (wd_rq w)) \<le> reply_rank (rq_reply_status (wd_rq w'))
    \<and> (rq_ws_cleaning_up (wd_rq w) \<longrightarrow> rq_ws_cleaning_up (wd_rq w'))
    \<and> (\<exists>bs. wd_sent w' = wd_sent w @ bs)"
proof -
  have "ws_inv w" using reaches_evolves [OF assms(2) new_world_inv [OF assms(1)]] by (rule evolves_inv)
  from reaches_evolves [OF assms(3) this] show ?thesis by (simp add: evolves_def)
qed

lemma websocket_no_way_back_witness:
  "let w = ws_step sample_env (EvCall ApiAccept) sample_world; w' = ws_step sample_env (EvCall (ApiClose None None)) w
   in new_world sample_world \<and> ws_reaches sample_world w \<and> ws_reaches w w'
      \<and> ws_rank (rq_ws_state (wd_rq w)) \<le> ws_rank (rq_ws_state (wd_rq w'))"
proof -
  let ?w = "ws_step sample_env (EvCall ApiAccept) sample_world"
  have r: "ws_reaches sample_world ?w" "ws_reaches ?w (ws_step sample_env (EvCall (ApiClose None None)) ?w)"
    by (intro ws_next ws_start)+
  from websocket_no_way_back [OF sample_new r] sample_new r show ?thesis by (simp add: Let_def)
qed

text \<open>
  (C8) One reply per request: in every reachable state the calls made to libevent for a request are none, one
  complete reply, or the start of a chunked reply followed by chunks and at most one end. In particular there is
  never a second reply and nothing follows the end.
\<close>

theorem httpd_one_reply:
  assumes "new_world w0" and "ws_reaches w0 w"
  shows "wd_calls w = [] \<or> (\<exists>c m d. wd_calls w = [SendReply c m d])
    \<or> (\<exists>c m ds. wd_calls w = SendReplyStart c m # map SendReplyChunk ds
        \<or> wd_calls w = SendReplyStart c m # map SendReplyChunk ds @ [SendReplyEnd])"
proof -
  have "calls_ok (rq_reply_status (wd_rq w)) (wd_calls w)"
    using reaches_evolves [OF assms(2) new_world_inv [OF assms(1)]] by (simp add: evolves_def ws_inv_def)
  from calls_ok_step(4) [OF this] show ?thesis by (simp only: calls_ok.simps)
qed

theorem httpd_one_reply_witness:
  "let w = ws_step sample_env (EvCall (ApiReply 200 None (Some [1]))) sample_world
   in new_world sample_world \<and> ws_reaches sample_world w
      \<and> (wd_calls w = [] \<or> (\<exists>c m d. wd_calls w = [SendReply c m d])
         \<or> (\<exists>c m ds. wd_calls w = SendReplyStart c m # map SendReplyChunk ds
              \<or> wd_calls w = SendReplyStart c m # map SendReplyChunk ds @ [SendReplyEnd]))"
proof -
  let ?w = "ws_step sample_env (EvCall (ApiReply 200 None (Some [1]))) sample_world"
  have r: "ws_reaches sample_world ?w" by (intro ws_next ws_start)
  from httpd_one_reply [OF sample_new r] sample_new r show ?thesis unfolding Let_def by blast
qed

end
