(* ===== verification/Ws_Delivery.thy ===== *)
theory Ws_Delivery
  imports Ws_Safety
begin

text \<open>
  What a WebSocket connection does with the frames of its peer and how it ends: data frames are delivered completely
  and in order however the network splits them, fragments of a message are lost, and the two ways in which a
  connection is closed are followed to the point where its memory is released, or is not.
\<close>

section \<open>Delivery of frames\<close>

text \<open>A data frame as a client sends it: the final flag, the opcode, the masking key and the payload.\<close>

type_synonym client_frame = "bool \<times> nat \<times> bytes \<times> bytes"

definition client_bytes :: "client_frame \<Rightarrow> bytes" where
  "client_bytes f = (case f of (fin, op, key, p) \<Rightarrow> rfc_frame fin op (Some key) p)"

definition client_frame_of :: "client_frame \<Rightarrow> websocket_frame" where
  "client_frame_of f = (case f of (fin, op, key, p) \<Rightarrow> frame_of fin op (Some key) p)"

definition data_frame :: "client_frame \<Rightarrow> bool" where
  "data_frame f \<longleftrightarrow> (case f of (fin, op, key, p) \<Rightarrow> (op = 1 \<or> op = 2) \<and> length key = 4 \<and> length p + 14 < 2 ^ 64)"

definition push_frames :: "http_env \<Rightarrow> websocket_frame list \<Rightarrow> world \<Rightarrow> world" where
  "push_frames en fs w =
     upd_rq (\<lambda>r. r\<lparr>rq_queue := fold (ws_frame_queue_push (en_node en)) fs (rq_queue r)\<rparr>) w"

lemma client_bytes_not_Nil [simp]: "client_bytes f \<noteq> []"
  by (cases f) (simp add: client_bytes_def rfc_frame_def rfc_header_def)

lemma parse_client:
  assumes "data_frame f" and "roomy (en_al en)"
  shows "websocket_parse_frame (en_al en) (client_bytes f @ rest) = ParsedFrame (client_frame_of f) rest"
  using assms by (cases f) (auto simp: data_frame_def client_bytes_def client_frame_of_def roomy_def parse_rfc)

lemma parse_client_short:
  assumes "data_frame f" and "k < length (client_bytes f)"
  shows "websocket_parse_frame al (take k (client_bytes f)) = ParseMore"
  using assms by (cases f) (auto simp: data_frame_def client_bytes_def intro!: parse_rfc_short)

lemma handle_data:
  assumes "data_frame f" and "\<not> rq_ref (wd_rq w)"
  shows "ws_handle_frame en (client_frame_of f) w = (True, push_frames en [client_frame_of f] w)"
proof -
  have "fr_opcode (client_frame_of f) = 1 \<or> fr_opcode (client_frame_of f) = 2"
    using assms(1) by (cases f) (auto simp: data_frame_def client_frame_of_def frame_of_def)
  with assms(2) show ?thesis by (elim disjE) (simp_all add: ws_handle_frame_def push_frames_def opcode_defs)
qed

lemma push_frames_Cons: "push_frames en fs (push_frames en [f] w) = push_frames en (f # fs) w"
  by (simp add: push_frames_def)

text \<open>A rest of input that is shorter than the next frame.\<close>

definition waiting :: "bytes \<Rightarrow> client_frame list \<Rightarrow> bool" where
  "waiting part fs \<longleftrightarrow>
     part = [] \<or> (\<exists>f fs'. fs = f # fs' \<and> (\<exists>k < length (client_bytes f). part = take k (client_bytes f)))"

lemma read_frames:
  assumes "roomy (en_al en)" and "list_all data_frame (fs @ fs')" and "waiting part fs'" and "\<not> rq_ref (wd_rq w)"
  shows "ws_read_loop en (concat (map client_bytes fs) @ part) w = (part, push_frames en (map client_frame_of fs) w)"
  using assms(2-4)
proof (induction fs arbitrary: w)
  case Nil
  have "part = [] \<or> websocket_parse_frame (en_al en) part = ParseMore"
    using Nil by (auto simp: waiting_def parse_client_short)
  then show ?case by (subst ws_read_loop.simps) (auto simp: push_frames_def)
next
  case (Cons f fs)
  have "ws_read_loop en (concat (map client_bytes (f # fs)) @ part) w
      = ws_read_loop en (concat (map client_bytes fs) @ part) (push_frames en [client_frame_of f] w)"
    using Cons.prems assms(1) by (subst ws_read_loop.simps) (simp add: parse_client handle_data)
  also have "\<dots> = (part, push_frames en (map client_frame_of fs) (push_frames en [client_frame_of f] w))"
    using Cons by (intro Cons.IH) (simp_all add: push_frames_def)
  finally show ?case by (simp only: push_frames_Cons list.map)
qed

lemma split_frames:
  "list_all data_frame fs \<Longrightarrow> bs @ rest = concat (map client_bytes fs) \<Longrightarrow>
     \<exists>fs1 fs2 part. fs = fs1 @ fs2 \<and> bs = concat (map client_bytes fs1) @ part \<and> waiting part fs2
       \<and> part @ rest = concat (map client_bytes fs2)"
proof (induction fs arbitrary: bs)
  case Nil
  then show ?case by (simp add: waiting_def)
next
  case (Cons f fs)
  show ?case
  proof (cases "length bs < length (client_bytes f)")
    case True
    have "bs = take (length bs) (client_bytes f)"
      using arg_cong [OF Cons.prems(2), of "take (length bs)"] True by simp
    with True have "waiting bs (f # fs)" unfolding waiting_def by blast
    with Cons.prems(2) show ?thesis by (intro exI [of _ "[]"] exI [of _ "f # fs"] exI [of _ bs]) simp
  next
    case False
    have "take (length (client_bytes f)) bs = client_bytes f"
      using arg_cong [OF Cons.prems(2), of "take (length (client_bytes f))"] False by simp
    then obtain bs' where bs: "bs = client_bytes f @ bs'" by (metis append_take_drop_id)
    with Cons.prems have "bs' @ rest = concat (map client_bytes fs)" by simp
    with Cons.IH [of bs'] Cons.prems(1) obtain fs1 fs2 part where "fs = fs1 @ fs2" "bs' = concat (map client_bytes fs1) @ part"
        "waiting part fs2" "part @ rest = concat (map client_bytes fs2)"
      by auto
    with bs show ?thesis by (intro exI [of _ "f # fs1"] exI [of _ fs2] exI [of _ part]) simp
  qed
qed

definition feed :: "http_env \<Rightarrow> bytes list \<Rightarrow> world \<Rightarrow> world" where
  "feed en bss w = fold (\<lambda>bs. ws_step en (EvData bs)) bss w"

lemma feed_frames:
  assumes "roomy (en_al en)"
  shows "list_all data_frame fs \<Longrightarrow> wd_in w @ concat bss = concat (map client_bytes fs) \<Longrightarrow> waiting (wd_in w) fs
    \<Longrightarrow> \<not> rq_ref (wd_rq w) \<Longrightarrow> wd_callbacks w = CbWebsocket \<Longrightarrow> wd_reading w
    \<Longrightarrow> feed en bss w = (push_frames en (map client_frame_of fs) w)\<lparr>wd_in := []\<rparr>"
proof (induction bss arbitrary: fs w)
  case Nil
  have "fs = []"
  proof (cases fs)
    case (Cons f fs')
    then have "length (wd_in w) \<ge> length (client_bytes f)" using arg_cong [OF Nil(2), of length] by simp
    moreover have "length (wd_in w) < length (client_bytes f)" using Nil(3) Cons by (auto simp: waiting_def)
    ultimately show ?thesis by simp
  qed
  with Nil show ?case by (simp add: feed_def push_frames_def)
next
  case (Cons bs bss)
  have "(wd_in w @ bs) @ concat bss = concat (map client_bytes fs)" using Cons.prems(2) by simp
  from split_frames [OF Cons.prems(1) this] obtain fs1 fs2 part where s: "fs = fs1 @ fs2"
      "wd_in w @ bs = concat (map client_bytes fs1) @ part" "waiting part fs2" "part @ concat bss = concat (map client_bytes fs2)"
    by blast
  let ?v = "w\<lparr>wd_in := wd_in w @ bs\<rparr>"
  have "ws_read_loop en (wd_in ?v) ?v = (part, push_frames en (map client_frame_of fs1) ?v)"
    using read_frames [OF assms _ s(3), of fs1 ?v] Cons.prems(1,4) s(1,2) by simp
  then have step: "ws_step en (EvData bs) w = (push_frames en (map client_frame_of fs1) w)\<lparr>wd_in := part\<rparr>"
    using Cons.prems by (simp add: ws_step_def Let_def ws_readcb_def push_frames_def)
  have "feed en bss (ws_step en (EvData bs) w)
      = (push_frames en (map client_frame_of fs2) (ws_step en (EvData bs) w))\<lparr>wd_in := []\<rparr>"
    using Cons.prems s step by (intro Cons.IH) (simp_all add: push_frames_def)
  then show ?case unfolding step by (simp add: feed_def step push_frames_def s(1))
qed

lemma fold_push_frames:
  assumes can: "\<forall>n. can n"
  shows "queue_inv q \<Longrightarrow> length (queue_frames q) + length fs \<le> 64 \<Longrightarrow>
     queue_frames (fold (ws_frame_queue_push can) fs q) = queue_frames q @ fs"
proof (induction fs arbitrary: q)
  case (Cons f fs)
  have "queue_frames (ws_frame_queue_push can f q) = queue_frames q @ [f]"
    using Cons.prems can wsq.push_content [OF Cons.prems(1), of can f] by (simp add: WS_MAX_QUEUED_FRAMES_def)
  with Cons wsq.push_inv [OF Cons.prems(1), of can f] show ?case by simp
qed simp
text \<open>An open WebSocket on which no coroutine waits and no input is pending.\<close>

definition ws_idle :: "world \<Rightarrow> bool" where
  "ws_idle w \<longleftrightarrow>
     ws_inv w \<and> rq_ws_bev (wd_rq w) \<and> rq_ws_state (wd_rq w) = WS_STATE_OPEN \<and> wd_reading w
     \<and> \<not> rq_ref (wd_rq w) \<and> wd_in w = []"

lemma idle_callbacks: "ws_idle w \<Longrightarrow> wd_callbacks w = CbWebsocket"
  by (auto simp: ws_idle_def ws_inv_def)

definition accepted_world :: world where
  "accepted_world = ws_step sample_env (EvCall ApiAccept) sample_world"

lemma accepted_idle: "ws_idle accepted_world"
proof -
  have "rq_ws_bev (wd_rq accepted_world) \<and> rq_ws_state (wd_rq accepted_world) = WS_STATE_OPEN \<and> wd_reading accepted_world
      \<and> \<not> rq_ref (wd_rq accepted_world) \<and> wd_in accepted_world = []"
    unfolding accepted_world_def by code_simp
  moreover have "ws_inv accepted_world"
    unfolding accepted_world_def using step_evolves [OF new_world_inv [OF sample_new]] by (rule evolves_inv)
  ultimately show ?thesis by (simp add: ws_idle_def)
qed

lemma accepted_fields:
  "queue_frames (rq_queue (wd_rq accepted_world)) = []" "wd_out accepted_world \<noteq> []" "rq_self_ref (wd_rq accepted_world)"
  "\<not> wd_freed accepted_world" "\<not> wd_closecb accepted_world" "wd_timers accepted_world = 0"
  "rq_owns_request (wd_rq accepted_world)" "rq_req (wd_rq accepted_world)" "wd_evcon accepted_world"
  unfolding accepted_world_def by code_simp+

text \<open>
  (C17) Frames are delivered completely and in order, however the network splits them: when the bytes of data frames,
  each with its own masking key, arrive at an idle WebSocket in pieces of any sizes, and the queue has room, then
  afterwards the queue holds exactly the unmasked frames behind those that were there, and no input is left over.
\<close>

theorem websocket_delivers_in_order:
  assumes "ws_idle w" and "list_all data_frame fs" and "concat bss = concat (map client_bytes fs)"
    and "roomy (en_al en)" and "\<forall>n. en_node en n" and "length (queue_frames (rq_queue (wd_rq w))) + length fs \<le> 64"
  shows "queue_frames (rq_queue (wd_rq (feed en bss w))) = queue_frames (rq_queue (wd_rq w)) @ map client_frame_of fs
    \<and> wd_in (feed en bss w) = []"
proof -
  have "feed en bss w = (push_frames en (map client_frame_of fs) w)\<lparr>wd_in := []\<rparr>"
    using assms idle_callbacks [OF assms(1)] by (intro feed_frames) (simp_all add: ws_idle_def waiting_def)
  moreover have "queue_inv (rq_queue (wd_rq w))" using assms(1) by (simp add: ws_idle_def ws_inv_def)
  ultimately show ?thesis using assms(5,6) by (simp add: push_frames_def fold_push_frames)
qed

theorem websocket_delivers_in_order_witness:
  "let f = (True, 1, [1, 2, 3, 4], [0x68, 0x69]); bs = client_bytes f
   in ws_idle accepted_world \<and> list_all data_frame [f] \<and> concat [take 3 bs, drop 3 bs] = concat (map client_bytes [f])
      \<and> roomy (en_al sample_env) \<and> (\<forall>n. en_node sample_env n)
      \<and> length (queue_frames (rq_queue (wd_rq accepted_world))) + length [f] \<le> 64
      \<and> queue_frames (rq_queue (wd_rq (feed sample_env [take 3 bs, drop 3 bs] accepted_world)))
          = queue_frames (rq_queue (wd_rq accepted_world)) @ map client_frame_of [f]
      \<and> wd_in (feed sample_env [take 3 bs, drop 3 bs] accepted_world) = []"
proof -
  let ?f = "(True, 1, [1, 2, 3, 4], [0x68, 0x69]) :: client_frame" and ?bs = "client_bytes (True, 1, [1, 2, 3, 4], [0x68, 0x69])"
  have h: "list_all data_frame [?f]" "concat [take 3 ?bs, drop 3 ?bs] = concat (map client_bytes [?f])"
      "roomy (en_al sample_env)" "\<forall>n. en_node sample_env n"
      "length (queue_frames (rq_queue (wd_rq accepted_world))) + length [?f] \<le> 64"
    by (simp_all add: data_frame_def sample_env_def roomy_roomy_alloc accepted_fields)
  show ?thesis using websocket_delivers_in_order [OF accepted_idle h] accepted_idle h unfolding Let_def by blast
qed

section \<open>Messages in fragments\<close>

lemma handle_other:
  assumes "fr_opcode f = 0"
  shows "ws_handle_frame en f w = (True, w)"
  using assms by (simp add: ws_handle_frame_def opcode_defs)

text \<open>
  A fragmented message loses everything but its first fragment: when a client sends a message as a frame
  without the final flag and a continuation frame, the first payload is queued like a complete message and the
  payload of the continuation frame is discarded.
\<close>

lemma websocket_continuation_lost:
  assumes w: "ws_idle w" and en: "roomy (en_al en)" and f: "data_frame (False, op, k1, p1)"
    and k: "length k2 = 4" "length p2 + 14 < 2 ^ 64"
  shows "ws_step en (EvData (rfc_frame False op (Some k1) p1 @ rfc_frame True 0 (Some k2) p2)) w
    = push_frames en [frame_of False op (Some k1) p1] w"
proof -
  let ?f = "(False, op, k1, p1)" and ?c = "frame_of True 0 (Some k2) p2"
  have c: "websocket_parse_frame (en_al en) (rfc_frame True 0 (Some k2) p2) = ParsedFrame ?c []"
    using parse_rfc [of 0 "Some k2" p2 "en_al en" True "[]"] k en by (simp add: roomy_def)
  have n: "rfc_frame True 0 (Some k2) p2 \<noteq> []" by (simp add: rfc_frame_def rfc_header_def)
  have "fr_opcode ?c = 0" by (simp add: frame_of_def)
  then have last: "ws_read_loop en (rfc_frame True 0 (Some k2) p2) v = ([], v)" for v
    using c n by (subst ws_read_loop.simps, simp add: handle_other) (subst ws_read_loop.simps, simp)
  let ?v = "w\<lparr>wd_in := client_bytes ?f @ rfc_frame True 0 (Some k2) p2\<rparr>"
  have "ws_read_loop en (client_bytes ?f @ rfc_frame True 0 (Some k2) p2) ?v = ([], push_frames en [client_frame_of ?f] ?v)"
    using w f en last by (subst ws_read_loop.simps) (simp add: parse_client handle_data ws_idle_def)
  then show ?thesis using w idle_callbacks [OF w]
    by (simp add: ws_step_def Let_def ws_readcb_def ws_idle_def client_bytes_def client_frame_of_def push_frames_def)
qed

lemma websocket_continuation_lost_witness:
  "let k = [1, 2, 3, 4]; p1 = [0x61]; p2 = [0x62]
   in ws_idle accepted_world \<and> roomy (en_al sample_env) \<and> data_frame (False, 1, k, p1) \<and> length k = 4 \<and> length p2 + 14 < 2 ^ 64
      \<and> ws_step sample_env (EvData (rfc_frame False 1 (Some k) p1 @ rfc_frame True 0 (Some k) p2)) accepted_world
          = push_frames sample_env [frame_of False 1 (Some k) p1] accepted_world"
proof -
  have h: "roomy (en_al sample_env)" "data_frame (False, 1, [1, 2, 3, 4], [0x61])"
    by (simp_all add: sample_env_def roomy_roomy_alloc data_frame_def)
  show ?thesis
    using websocket_continuation_lost [OF accepted_idle h, of "[1, 2, 3, 4]" "[0x62]"] accepted_idle h by (simp add: Let_def)
qed

section \<open>Closing\<close>

definition close_frame :: "bytes \<Rightarrow> bytes" where
  "close_frame p = rfc_frame True 8 None p"

lemma write_close:
  assumes "en_evbuffer_new en" and "en_write en" and "length p < 2 ^ 64"
  shows "ws_write_frame en WS_OPCODE_CLOSE (if p = [] then None else Some p) (length p) True w
    = w\<lparr>wd_out := wd_out w @ close_frame p, wd_sent := wd_sent w @ close_frame p\<rparr>"
  using assms create_rfc [of p WS_OPCODE_CLOSE True]
  by (cases "p = []") (simp_all add: ws_write_frame_def bev_write_def close_frame_def WS_OPCODE_CLOSE_def)

lemma close_frame_not_Nil [simp]: "close_frame p \<noteq> []"
  by (simp add: close_frame_def rfc_frame_def rfc_header_def)

lemma close_read:
  assumes "websocket_parse_frame (en_al en) input = ParsedFrame f rest" and "fr_opcode f = 8" and "input \<noteq> []"
    and "rq_ws_bev (wd_rq w)"
  shows "ws_read_loop en input w =
    (rest, ws_closed en ''closed'' (ws_write_frame en WS_OPCODE_CLOSE (fr_payload f) (fr_payload_len f) True (set_closed w)))"
  using assms by (subst ws_read_loop.simps) (simp add: ws_handle_frame_def opcode_defs Let_def set_closed_def)

lemma close_received:
  assumes f: "websocket_parse_frame (en_al en) (wd_in w @ bs) = ParsedFrame f rest" "fr_opcode f = 8"
    and p: "fr_payload f = (if p = [] then None else Some p)" "fr_payload_len f = length p"
    and w: "rq_ws_bev (wd_rq w)" "wd_callbacks w = CbWebsocket" "wd_reading w" "wd_in w @ bs \<noteq> []"
  shows "ws_step en (EvData bs) w =
    (ws_closed en ''closed'' (ws_write_frame en WS_OPCODE_CLOSE (if p = [] then None else Some p) (length p) True
       (set_closed (w\<lparr>wd_in := wd_in w @ bs\<rparr>))))\<lparr>wd_in := rest\<rparr>"
proof -
  have "rq_ws_bev (wd_rq (w\<lparr>wd_in := wd_in w @ bs\<rparr>))" using w(1) by simp
  note close_read [OF f w(4) this, unfolded p]
  then show ?thesis using w(2,3) unfolding ws_step_def ws_readcb_def Let_def by simp
qed

lemma parse_close:
  assumes "roomy (en_al en)" and "length k = 4" and "length p + 14 < 2 ^ 64"
  shows "websocket_parse_frame (en_al en) (rfc_frame True 8 (Some k) p @ rest) = ParsedFrame (frame_of True 8 (Some k) p) rest"
  using parse_rfc [of 8 "Some k" p "en_al en" True rest] assms by (simp add: roomy_def)

lemma close_step:
  assumes bev: "rq_ws_bev (wd_rq w)" "wd_callbacks w = CbWebsocket" "wd_reading w" "wd_in w = []"
    and en: "roomy (en_al en)" "en_evbuffer_new en" "en_write en" and k: "length k = 4" and p: "length p + 14 < 2 ^ 64"
  shows "ws_step en (EvData (rfc_frame True 8 (Some k) p)) w =
    (ws_closed en ''closed'' (set_closed (w\<lparr>wd_in := rfc_frame True 8 (Some k) p, wd_out := wd_out w @ close_frame p,
       wd_sent := wd_sent w @ close_frame p\<rparr>)))\<lparr>wd_in := []\<rparr>"
proof -
  have f: "fr_opcode (frame_of True 8 (Some k) p) = 8" "fr_payload_len (frame_of True 8 (Some k) p) = length p"
      "fr_payload (frame_of True 8 (Some k) p) = (if p = [] then None else Some p)"
    by (simp_all add: frame_of_def)
  have "rfc_frame True 8 (Some k) p \<noteq> []" by (simp add: rfc_frame_def rfc_header_def)
  with close_received [where w = w and bs = "rfc_frame True 8 (Some k) p" and rest = "[]" and f = "frame_of True 8 (Some k) p" and p = p and en = en]
    parse_close [OF en(1) k p, of "[]"] f bev
  have "ws_step en (EvData (rfc_frame True 8 (Some k) p)) w =
    (ws_closed en ''closed'' (ws_write_frame en WS_OPCODE_CLOSE (if p = [] then None else Some p) (length p) True
       (set_closed (w\<lparr>wd_in := rfc_frame True 8 (Some k) p\<rparr>))))\<lparr>wd_in := []\<rparr>"
    by simp
  also have "ws_write_frame en WS_OPCODE_CLOSE (if p = [] then None else Some p) (length p) True
       (set_closed (w\<lparr>wd_in := rfc_frame True 8 (Some k) p\<rparr>))
    = set_closed (w\<lparr>wd_in := rfc_frame True 8 (Some k) p, wd_out := wd_out w @ close_frame p, wd_sent := wd_sent w @ close_frame p\<rparr>)"
    using write_close [OF en(2,3), of p] p by (simp add: set_closed_def)
  finally show ?thesis .
qed

text \<open>A connection that is being cleaned up and waits for its output to drain.\<close>

definition draining :: "world \<Rightarrow> bool" where
  "draining w \<longleftrightarrow>
     rq_ws_cleaning_up (wd_rq w) \<and> \<not> rq_ws_bev (wd_rq w) \<and> wd_callbacks w = CbFlush \<and> wd_timers w = 0
     \<and> rq_self_ref (wd_rq w) \<and> \<not> wd_freed w \<and> \<not> wd_closecb w \<and> rq_reply_status (wd_rq w) = REPLY_STATUS_REPLYED"

lemma draining_call: "draining w \<Longrightarrow> draining (snd (api_step en c w))"
  by (cases c)
    (auto simp: draining_def api_step_def lua_evhttp_request_available_def lua_evhttp_request_read_def
      request_push_body_def lua_evhttp_request_reply_addheader_def lua_evhttp_request_reply_def
      lua_evhttp_request_reply_start_def lua_evhttp_request_reply_chunk_def lua_evhttp_request_reply_end_def
      lua_evhttp_request_is_websocket_upgrade_def lua_evhttp_request_websocket_accept_def
      lua_evhttp_request_websocket_send_def lua_evhttp_request_websocket_ping_def lua_evhttp_request_websocket_pong_def
      lua_evhttp_request_websocket_close_def lua_evhttp_request_websocket_state_def
      lua_evhttp_request_websocket_receive_def ws_sendable_def Let_def split: option.splits prod.splits)

lemma draining_step: "draining w \<Longrightarrow> draining (ws_step en e w)"
  by (cases e) (auto simp: ws_step_def draining_call Let_def draining_def [of w] draining_def [of "w\<lparr>wd_in := _\<rparr>"]
      draining_def [of "w\<lparr>wd_out := _\<rparr>"] ws_flush_eventcb_def ws_flush_writecb_def)

lemma draining_reaches: "ws_reaches w w' \<Longrightarrow> draining w \<Longrightarrow> draining w'"
  by (induction rule: ws_reaches.induct) (auto intro: draining_step)

text \<open>
  The closing handshake leaks the connection. When a client closes an idle WebSocket with a Close frame, the
  answer is still in the output buffer when the cleanup begins; the callbacks that should free the connection once
  the output is written give up because the cleanup has begun. So in every later state, whatever is written,
  received, called or timed out, the connection is not freed and the request object stays referenced.
\<close>

lemma websocket_close_leaks_connection:
  assumes w: "ws_idle w" and refs: "rq_self_ref (wd_rq w)" "\<not> wd_freed w" "\<not> wd_closecb w" "wd_timers w = 0"
    and en: "roomy (en_al en)" "en_evbuffer_new en" "en_write en" and k: "length k = 4" and p: "length p + 14 < 2 ^ 64"
    and later: "ws_reaches (ws_step en (EvData (rfc_frame True 8 (Some k) p)) w) w'"
  shows "\<not> wd_freed w' \<and> rq_self_ref (wd_rq w')"
proof -
  have i: "rq_ws_bev (wd_rq w)" "wd_reading w" "wd_in w = []" "\<not> rq_ref (wd_rq w)" "\<not> rq_ws_cleaning_up (wd_rq w)"
      "rq_reply_status (wd_rq w) = REPLY_STATUS_REPLYED"
    using w by (auto simp: ws_idle_def ws_inv_def)
  have "draining (ws_step en (EvData (rfc_frame True 8 (Some k) p)) w)"
    using i refs unfolding close_step [OF i(1) idle_callbacks [OF w] i(2,3) en k p]
    by (simp add: draining_def ws_closed_def set_closed_def ws_connection_cleanup_def Let_def)
  from draining_reaches [OF later this] show ?thesis by (simp add: draining_def)
qed

lemma websocket_close_leaks_connection_witness:
  "let w = ws_step sample_env (EvData (rfc_frame True 8 (Some [1, 2, 3, 4]) [3, 232])) accepted_world;
       w' = ws_step sample_env EvTimer (ws_step sample_env (EvDrain 1000) w)
   in ws_idle accepted_world \<and> rq_self_ref (wd_rq accepted_world) \<and> \<not> wd_freed accepted_world
      \<and> ws_reaches w w' \<and> \<not> wd_freed w' \<and> rq_self_ref (wd_rq w')"
proof -
  let ?w = "ws_step sample_env (EvData (rfc_frame True 8 (Some [1, 2, 3, 4]) [3, 232])) accepted_world"
  have en: "roomy (en_al sample_env)" "en_evbuffer_new sample_env" "en_write sample_env"
    by (simp_all add: sample_env_def roomy_roomy_alloc)
  have r: "ws_reaches ?w (ws_step sample_env EvTimer (ws_step sample_env (EvDrain 1000) ?w))" by (intro ws_next ws_start)
  show ?thesis
    using websocket_close_leaks_connection [OF accepted_idle accepted_fields(3-6) en _ _ r] r accepted_idle accepted_fields
    by (simp add: Let_def)
qed

text \<open>
  (C18) When the peer drops an idle connection and nothing is left to send, the deferred free releases everything: after
  the end-of-file event and the timer, the connection is freed, the request no longer refers to it, and the two
  references that kept the request object alive are gone.
\<close>

theorem websocket_eof_frees_connection:
  assumes w: "ws_idle w" and own: "rq_owns_request (wd_rq w)" "rq_req (wd_rq w)" "wd_evcon w" and out: "wd_out w = []"
    and t: "wd_timers w = 0"
  shows "let w' = ws_step en' EvTimer (ws_step en (EvEvent BevEof) w)
    in wd_freed w' \<and> \<not> rq_req (wd_rq w') \<and> \<not> rq_self_ref (wd_rq w') \<and> \<not> rq_prevent_gc_ref (wd_rq w')
    \<and> rq_ws_state (wd_rq w') = WS_STATE_CLOSED \<and> rq_queue (wd_rq w') = empty_queue"
proof -
  have i: "rq_ws_bev (wd_rq w)" "\<not> rq_ref (wd_rq w)" "\<not> rq_ws_cleaning_up (wd_rq w)" "queue_inv (rq_queue (wd_rq w))"
    using w by (auto simp: ws_idle_def ws_inv_def)
  show ?thesis
    using i own out t
    by (simp add: ws_step_def idle_callbacks [OF w] ws_eventcb_def ws_closed_def set_closed_def ws_connection_cleanup_def
        Let_def ws_schedule_free_def ws_deferred_free_cb_def free_connection_def drop_refs_def clear_empty)
qed

theorem websocket_eof_frees_connection_witness:
  "let w = accepted_world\<lparr>wd_out := []\<rparr>; w' = ws_step sample_env EvTimer (ws_step sample_env (EvEvent BevEof) w)
   in ws_idle w \<and> rq_owns_request (wd_rq w) \<and> rq_req (wd_rq w) \<and> wd_evcon w \<and> wd_out w = [] \<and> wd_timers w = 0
      \<and> wd_freed w' \<and> \<not> rq_req (wd_rq w') \<and> \<not> rq_self_ref (wd_rq w') \<and> \<not> rq_prevent_gc_ref (wd_rq w')
      \<and> rq_ws_state (wd_rq w') = WS_STATE_CLOSED \<and> rq_queue (wd_rq w') = empty_queue"
proof -
  let ?w = "accepted_world\<lparr>wd_out := []\<rparr>"
  have i: "ws_idle ?w" using accepted_idle by (auto simp: ws_idle_def ws_inv_def)
  show ?thesis using websocket_eof_frees_connection [OF i, of sample_env sample_env] i accepted_fields by (simp add: Let_def)
qed

lemma api_close:
  assumes w: "ws_idle w" and en: "en_evbuffer_new en" "en_write en" and p: "p = close_payload (c_int code) reason"
  shows "ws_step en (EvCall (ApiClose (Some code) reason)) w =
    (upd_rq (\<lambda>r. r\<lparr>rq_ws_state := WS_STATE_CLOSING\<rparr>) w)\<lparr>wd_out := wd_out w @ close_frame p, wd_sent := wd_sent w @ close_frame p\<rparr>"
proof -
  have i: "rq_is_websocket (wd_rq w)" "rq_ws_bev (wd_rq w)" "rq_ws_state (wd_rq w) = WS_STATE_OPEN"
    using w by (auto simp: ws_idle_def ws_inv_def)
  have "length p < 2 ^ 64" unfolding p close_payload_def by (auto split: option.splits)
  from write_close [OF en this, of w]
  have "ws_write_frame en WS_OPCODE_CLOSE (if 0 < length p then Some p else None) (length p) True w
      = w\<lparr>wd_out := wd_out w @ close_frame p, wd_sent := wd_sent w @ close_frame p\<rparr>"
    by (cases "p = []") simp_all
  with i show ?thesis
    unfolding ws_step_def api_step_def lua_evhttp_request_websocket_close_def Let_def
    by (cases p) (simp_all flip: p)
qed

text \<open>
  A Close frame that the server sends can be longer than a control frame may be: with a reason of 125 bytes or
  more, \<open>websocket_close\<close> writes a Close frame with a payload of 127 bytes, although RFC 6455 limits the payload of
  control frames to 125 bytes, a limit that ping and pong respect.
\<close>

theorem websocket_close_frame_too_long:
  assumes w: "ws_idle w" and en: "en_evbuffer_new en" "en_write en" and c: "1000 \<le> code" "code \<le> 4999"
    and r: "125 \<le> length r"
  shows "\<exists>p. length p = 127 \<and> wd_sent (ws_step en (EvCall (ApiClose (Some code) (Some r))) w) = wd_sent w @ close_frame p"
proof -
  have "c_int code = code" using c by (simp add: c_int_def signed_take_bit_int_eq_self)
  then have "length (close_payload (c_int code) (Some r)) = 127" using c r by (simp add: close_payload_def)
  moreover note api_close [OF w en refl, of code "Some r"]
  ultimately show ?thesis by auto
qed

theorem websocket_close_frame_too_long_witness:
  "\<exists>r :: bytes. ws_idle accepted_world \<and> en_evbuffer_new sample_env \<and> en_write sample_env \<and> (1000 :: int) \<le> 1001 \<and> (1001 :: int) \<le> 4999
   \<and> 125 \<le> length r
   \<and> (\<exists>p. length p = 127 \<and> wd_sent (ws_step sample_env (EvCall (ApiClose (Some 1001) (Some r))) accepted_world)
        = wd_sent accepted_world @ close_frame p)"
proof -
  have en: "en_evbuffer_new sample_env" "en_write sample_env" by (simp_all add: sample_env_def)
  have "125 \<le> length (replicate 200 (0x61 :: u8))" unfolding length_replicate by simp
  with websocket_close_frame_too_long [OF accepted_idle en, of 1001] accepted_idle en show ?thesis
    by (intro exI [of _ "replicate 200 (0x61 :: u8)"]) simp
qed

text \<open>
  The server answers the answer to its own Close frame: after \<open>websocket_close\<close> has sent a Close frame, the
  Close frame with which the client completes the handshake makes the server send a second one, although an endpoint
  must not send anything after its Close frame.
\<close>

theorem websocket_second_close_frame:
  assumes w: "ws_idle w" and en: "roomy (en_al en)" "en_evbuffer_new en" "en_write en" and k: "length k = 4"
    and p: "length p + 14 < 2 ^ 64"
  shows "wd_sent (ws_step en (EvData (rfc_frame True 8 (Some k) p)) (ws_step en (EvCall (ApiClose (Some code) reason)) w))
    = wd_sent w @ close_frame (close_payload (c_int code) reason) @ close_frame p"
proof -
  let ?w = "ws_step en (EvCall (ApiClose (Some code) reason)) w"
  have w1: "rq_ws_bev (wd_rq ?w)" "wd_callbacks ?w = CbWebsocket" "wd_reading ?w" "wd_in ?w = []" "\<not> rq_ref (wd_rq ?w)"
      "wd_sent ?w = wd_sent w @ close_frame (close_payload (c_int code) reason)"
    using api_close [OF w en(2,3) refl, of code reason] w idle_callbacks [OF w] by (simp_all add: ws_idle_def)
  show ?thesis
    unfolding close_step [OF w1(1-4) en k p]
    using w1(5,6) by (simp add: ws_closed_def set_closed_def ws_connection_cleanup_def Let_def ws_schedule_free_def
        drop_refs_def free_connection_def)
qed

theorem websocket_second_close_frame_witness:
  "ws_idle accepted_world \<and> roomy (en_al sample_env) \<and> en_evbuffer_new sample_env \<and> en_write sample_env
   \<and> length [1, 2, 3, 4 :: u8] = 4 \<and> length ([] :: bytes) + 14 < 2 ^ 64
   \<and> wd_sent (ws_step sample_env (EvData (rfc_frame True 8 (Some [1, 2, 3, 4]) []))
        (ws_step sample_env (EvCall (ApiClose (Some 1000) None)) accepted_world))
      = wd_sent accepted_world @ close_frame (close_payload (c_int 1000) None) @ close_frame []"
proof -
  have en: "roomy (en_al sample_env)" "en_evbuffer_new sample_env" "en_write sample_env"
    by (simp_all add: sample_env_def roomy_roomy_alloc)
  show ?thesis using websocket_second_close_frame [OF accepted_idle en, of "[1, 2, 3, 4]" "[]" 1000 None] accepted_idle en by simp
qed

end
