(* ===== verification/Httpd_Service.thy ===== *)
theory Httpd_Service
  imports Ws_Safety "HOL-Library.Sublist"
begin

text \<open>
  The rest of \<open>src/httpd.c\<close>, the fields of a request that Lua code reads and the life of a server object, and what
  the properties of the HTTP service say about bodies, parameters, metrics and configuration.
\<close>

section \<open>Fields of a request\<close>

text \<open>
  What libevent knows about a request. \<open>rd_parse_query\<close> is \<open>evhttp_parse_query_str\<close>: the names and values of a
  query string, in order; NULL is \<open>None\<close>.
\<close>

record request_data =
  rd_path :: "bytes option"
  rd_query :: "bytes option"
  rd_command :: evhttp_cmd_type
  rd_headers :: "(bytes \<times> bytes) list"
  rd_content_type :: "bytes option"
  rd_parse_query :: "bytes option \<Rightarrow> (bytes \<times> bytes) list"
  rd_peer_address :: "bytes option"
  rd_peer_port :: nat

text \<open>
  The result of reading a field: a method, a value, a table of strings, no value, or an error. \<open>LkUndefined\<close> is
  \<open>strcmp\<close> on a null pointer, which a key that is neither a string nor a number leads to.
\<close>

datatype lookup_result =
    LkMethod string
  | LkValue lval
  | LkTable "(bytes \<times> bytes) list"
  | LkNothing
  | LkRaises string
  | LkUndefined

definition evhttp_request_lib :: "string list" where
  "evhttp_request_lib =
     [''read'', ''available'', ''addheader'', ''reply'', ''reply_start'', ''reply_chunk'', ''reply_end'',
      ''is_websocket_upgrade'', ''websocket_accept'', ''websocket_send'', ''websocket_ping'', ''websocket_pong'',
      ''websocket_close'', ''websocket_state'', ''websocket_receive'']"

definition push_string :: "bytes option \<Rightarrow> lval" where
  "push_string s = (case s of Some b \<Rightarrow> LStr b | None \<Rightarrow> LNil)"

text \<open>A loop of \<open>lua_setfield\<close> over names and values: a later value replaces an earlier one.\<close>

definition set_fields :: "(bytes \<times> bytes) list \<Rightarrow> (bytes \<times> bytes) list \<Rightarrow> (bytes \<times> bytes) list" where
  "set_fields kvs t = fold (\<lambda>(k, v). AList.update k v) kvs t"

definition is_form :: "request_data \<Rightarrow> bool" where
  "is_form rd \<longleftrightarrow>
     (case rd_content_type rd of
        Some t \<Rightarrow> prefix (map of_char ''application/x-www-form-urlencoded'') t
      | None \<Rightarrow> False)"

definition request_params :: "http_env \<Rightarrow> request_data \<Rightarrow> world \<Rightarrow> (bytes \<times> bytes) list \<times> world" where
  "request_params en rd w =
     (let t = set_fields (rd_parse_query rd (rd_query rd)) []
      in if is_form rd
         then case request_push_body en w of
                (LStr data, w') \<Rightarrow> (set_fields (rd_parse_query rd (Some (c_string data))) t, w')
              | (_, w') \<Rightarrow> (t, w')
         else (t, w))"

definition lua_evhttp_request_lookup :: "http_env \<Rightarrow> request_data \<Rightarrow> string option \<Rightarrow> world \<Rightarrow> lookup_result \<times> world" where
  "lua_evhttp_request_lookup en rd key w =
     (case key of
        None \<Rightarrow> (LkUndefined, w)
      | Some p \<Rightarrow>
          if p \<in> set evhttp_request_lib then (LkMethod p, w)
          else if \<not> rq_req (wd_rq w) then (LkRaises ''request already closed (connection dropped)'', w)
          else if p = ''path'' then (LkValue (push_string (rd_path rd)), w)
          else if p = ''query'' then (LkValue (push_string (rd_query rd)), w)
          else if p = ''method''
          then (case method_name (rd_command rd) of
                  Some m \<Rightarrow> (LkValue (LStr (map of_char m)), w)
                | None \<Rightarrow> (LkNothing, w))
          else if p = ''headers'' then (LkTable (set_fields (rd_headers rd) []), w)
          else if p = ''params'' then (case request_params en rd w of (t, w') \<Rightarrow> (LkTable t, w'))
          else if p = ''body'' then (case request_push_body en w of (v, w') \<Rightarrow> (LkValue v, w'))
          else if p = ''remoteip'' then (LkValue (push_string (rd_peer_address rd)), w)
          else if p = ''remoteport'' then (LkValue (LNum (dbl_of_nat (rd_peer_port rd))), w)
          else (LkNothing, w))"

section \<open>Server objects\<close>

text \<open>
  The handles of a server object. A handle is True while it is set; \<open>sh_evhttps\<close> counts the libevent servers and
  \<open>sh_ctxs\<close> the SSL contexts that have been created and not freed.
\<close>

record server_handles =
  sh_httpd :: bool
  sh_boundsocket :: bool
  sh_ctx :: bool
  sh_onService :: bool
  sh_port :: int
  sh_evhttps :: nat
  sh_ctxs :: nat

text \<open>
  The result of \<open>evhttp_bind_socket_with_handle\<close> is None when it fails, else the port of the socket.
\<close>

definition httpd_server_rebind :: "int option \<Rightarrow> server_handles \<Rightarrow> server_handles" where
  "httpd_server_rebind bound h =
     (case bound of
        Some port \<Rightarrow> h\<lparr>sh_boundsocket := True, sh_port := port\<rparr>
      | None \<Rightarrow> h\<lparr>sh_boundsocket := False, sh_port := 0\<rparr>)"

text \<open>
  What follows the validation in \<open>utd_bind\<close>. \<open>ssl\<close> is None without certificate and key, else whether the context
  could be set up, without which an error is raised; \<open>onService\<close> says whether that field is a function.
\<close>

datatype bind_result = BindRaises | BindNothing | BindServer int

definition utd_bind_start :: "bool option \<Rightarrow> int option \<Rightarrow> bool \<Rightarrow> bind_result \<times> server_handles" where
  "utd_bind_start ssl bound onService =
     (let h = \<lparr>sh_httpd = False, sh_boundsocket = False, sh_ctx = False, sh_onService = False, sh_port = 0,
               sh_evhttps = 1, sh_ctxs = 0\<rparr>;
          h = (if ssl = None then h else h\<lparr>sh_ctx := True, sh_ctxs := 1\<rparr>)
      in if ssl = Some False then (BindRaises, h)
         else
           let h = httpd_server_rebind bound (h\<lparr>sh_httpd := True\<rparr>)
           in if \<not> sh_boundsocket h
              then let h = (if sh_ctx h then h\<lparr>sh_ctx := False, sh_ctxs := sh_ctxs h - 1\<rparr> else h)
                   in (BindNothing, h\<lparr>sh_evhttps := sh_evhttps h - 1, sh_httpd := False\<rparr>)
              else (BindServer (sh_port h), h\<lparr>sh_onService := onService\<rparr>))"

definition lua_evhttp_server_gc :: "server_handles \<Rightarrow> server_handles" where
  "lua_evhttp_server_gc h =
     (let h = h\<lparr>sh_onService := False\<rparr>;
          h = (if sh_httpd h
               then h\<lparr>sh_boundsocket := False, sh_httpd := False, sh_evhttps := sh_evhttps h - 1\<rparr> else h)
      in if sh_ctx h then h\<lparr>sh_ctxs := sh_ctxs h - 1\<rparr> else h)"

definition lua_evhttp_server_rebind :: "int option \<Rightarrow> server_handles \<Rightarrow> server_handles" where
  "lua_evhttp_server_rebind bound h = httpd_server_rebind bound h"

section \<open>Bodies and parameters\<close>

lemma read_all_whole: "read_all buf (length buf) acc = (acc @ buf, [])"
  by (subst read_all.simps) (simp add: evbuffer_remove_def read_all.simps [of "[]" 0])

definition body_limit :: "http_env \<Rightarrow> nat" where
  "body_limit en = (case en_server en of Some server \<Rightarrow> sv_max_body_size server | None \<Rightarrow> HTTP_POST_BODY_LIMIT)"

lemma push_body_cases:
  assumes "rq_req (wd_rq w)" and "wd_body_cache w = None"
  shows "request_push_body en w =
    (if 0 < length (wd_body w) \<and> length (wd_body w) < body_limit en \<and> can_alloc (en_al en) (length (wd_body w) + 1)
     then (LStr (wd_body w), w\<lparr>wd_body := [], wd_body_cache := Some (wd_body w)\<rparr>) else (LNil, w))"
  using assms by (simp add: request_push_body_def body_limit_def Let_def read_all_whole)

text \<open>
  Reading the body of a request that is not closed: a body that is not empty and is shorter than the limit of
  the server is returned completely when the memory can be allocated, and every later read returns the same bytes
  again, even after the connection is gone; any other body yields nil and stays in the input, where \<open>read\<close> finds it.
\<close>

lemma request_body_contract:
  assumes "rq_req (wd_rq w)" and "wd_body_cache w = None"
    and "request_push_body en w = (v, w')"
  shows "if 0 < length (wd_body w) \<and> length (wd_body w) < body_limit en \<and> can_alloc (en_al en) (length (wd_body w) + 1)
    then v = LStr (wd_body w) \<and> wd_body w' = [] \<and> (\<forall>en'. request_push_body en' w' = (v, w'))
      \<and> (\<forall>en'. request_push_body en' (httpd_conn_close_cb w') = (v, httpd_conn_close_cb w'))
    else v = LNil \<and> w' = w"
  using assms(3) unfolding push_body_cases [OF assms(1,2)]
  by (auto simp: request_push_body_def httpd_conn_close_cb_def Let_def)

definition body_world :: world where
  "body_world = sample_world\<lparr>wd_body := [0x61, 0x3d, 0x31]\<rparr>"

lemma request_body_contract_witness:
  "rq_req (wd_rq body_world) \<and> wd_body_cache body_world = None
   \<and> fst (request_push_body sample_env body_world) = LStr [0x61, 0x3d, 0x31]
   \<and> (\<forall>en'. fst (request_push_body en' (snd (request_push_body sample_env body_world))) = LStr [0x61, 0x3d, 0x31])"
proof -
  have h: "rq_req (wd_rq body_world)" "wd_body_cache body_world = None"
    by (simp_all add: body_world_def sample_world_def new_request_def)
  obtain v w' where p: "request_push_body sample_env body_world = (v, w')" by fastforce
  have "0 < length (wd_body body_world) \<and> length (wd_body body_world) < body_limit sample_env
      \<and> can_alloc (en_al sample_env) (length (wd_body body_world) + 1)"
    by (simp add: body_world_def body_limit_def sample_env_def HTTP_POST_BODY_LIMIT_def roomy_alloc_def)
  with request_body_contract [OF h p] h p show ?thesis by (simp add: body_world_def)
qed

lemma set_fields_lookup: "map_of (set_fields kvs t) k = (map_of t ++ map_of (rev kvs)) k"
  by (induction kvs arbitrary: t) (auto simp: set_fields_def AList.update_conv' map_add_def split: option.splits)

text \<open>
  The parameters of a request: a name has the value of its last occurrence in the form data of the body if
  the content type says that there is one, the body can be read and the name occurs there; else the value of its
  last occurrence in the query string; else none.
\<close>

lemma request_params_lookup:
  assumes "rq_req (wd_rq w)" and "lua_evhttp_request_lookup en rd (Some ''params'') w = (r, w')"
  shows "\<exists>t. r = LkTable t \<and>
    (\<forall>name. map_of t name =
       (case (if is_form rd then fst (request_push_body en w) else LNil) of
          LStr data \<Rightarrow>
            (case map_of (rev (rd_parse_query rd (Some (c_string data)))) name of
               Some v \<Rightarrow> Some v
             | None \<Rightarrow> map_of (rev (rd_parse_query rd (rd_query rd))) name)
        | _ \<Rightarrow> map_of (rev (rd_parse_query rd (rd_query rd))) name))"
proof -
  have "r = LkTable (fst (request_params en rd w))"
    using assms by (auto simp: lua_evhttp_request_lookup_def evhttp_request_lib_def split: prod.splits)
  then show ?thesis
    by (auto simp: request_params_def Let_def set_fields_lookup map_add_def case_prod_beta split: lval.splits option.splits prod.splits)
qed

text \<open>A request with a query and a form that both set the name \<open>a\<close>.\<close>

definition sample_data :: request_data where
  "sample_data =
     \<lparr>rd_path = None, rd_query = Some [0x61, 0x3d, 0x30], rd_command = EVHTTP_REQ_POST, rd_headers = [],
      rd_content_type = Some (map of_char ''application/x-www-form-urlencoded''),
      rd_parse_query = (\<lambda>q. case q of Some (k # e # v) \<Rightarrow> [([k], v)] | _ \<Rightarrow> []),
      rd_peer_address = None, rd_peer_port = 0\<rparr>"

lemma request_params_lookup_witness:
  "rq_req (wd_rq body_world)
   \<and> (\<exists>t. fst (lua_evhttp_request_lookup sample_env sample_data (Some ''params'') body_world) = LkTable t
        \<and> map_of t [0x61] = Some [0x31])"
proof -
  have req: "rq_req (wd_rq body_world)" by (simp add: body_world_def sample_world_def new_request_def)
  obtain r w' where p: "lua_evhttp_request_lookup sample_env sample_data (Some ''params'') body_world = (r, w')" by fastforce
  have "is_form sample_data" by (simp add: is_form_def sample_data_def)
  moreover have "fst (request_push_body sample_env body_world) = LStr [0x61, 0x3d, 0x31]"
    by (simp add: push_body_cases body_world_def body_limit_def sample_world_def new_request_def sample_env_def
        HTTP_POST_BODY_LIMIT_def roomy_alloc_def)
  ultimately show ?thesis
    using request_params_lookup [OF req p] req p by (auto simp: sample_data_def c_string_def)
qed

section \<open>Metrics\<close>

text \<open>
  (C19) What the metrics count. In every state that a request can get into, the metrics are those of its start
  updated once for each complete reply, with its status and its length, and with nothing else. So a request that is
  answered in chunks, is upgraded to a WebSocket or is dropped by the peer leaves the metrics as they were: it is
  never counted as a response and stays in \<open>requests_active\<close> for ever.
\<close>

theorem httpd_metrics_accounting:
  assumes "new_world w0" and "ws_reaches w0 w"
  shows "wd_metrics w = fold meter (wd_calls w) (wd_metrics w0)
    \<and> ((\<forall>c m d. SendReply c m d \<notin> set (wd_calls w)) \<longrightarrow> wd_metrics w = wd_metrics w0)"
proof -
  have "wd_calls w0 = []" using assms(1) by (simp add: new_world_def)
  then have m: "wd_metrics w = fold meter (wd_calls w) (wd_metrics w0)"
    using reaches_evolves [OF assms(2) new_world_inv [OF assms(1)]] by (auto simp: evolves_def)
  have "fold meter cs g = g" if "\<forall>c m d. SendReply c m d \<notin> set cs" for cs g
    using that
  proof (induction cs)
    case (Cons x cs)
    then have "meter x g = g" by (cases x) auto
    with Cons show ?case by simp
  qed simp
  with m show ?thesis by auto
qed

theorem httpd_metrics_accounting_witness:
  "let w0 = sample_world\<lparr>wd_metrics := metrics_update_request_start (Some ''GET'') (metrics_init 0)\<rparr>;
       w = ws_step sample_env (EvCall ApiReplyEnd) (ws_step sample_env (EvCall (ApiReplyStart 200 None)) w0)
   in new_world w0 \<and> ws_reaches w0 w \<and> wd_calls w = [SendReplyStart 200 None, SendReplyEnd]
      \<and> requests_active (wd_metrics w) = 1 \<and> responses_2xx (wd_metrics w) = 0"
proof -
  let ?v = "sample_world\<lparr>wd_metrics := metrics_update_request_start (Some ''GET'') (metrics_init 0)\<rparr>"
  let ?w = "ws_step sample_env (EvCall ApiReplyEnd) (ws_step sample_env (EvCall (ApiReplyStart 200 None)) ?v)"
  have n: "new_world ?v" using sample_new by (simp add: new_world_def)
  have r: "ws_reaches ?v ?w" by (intro ws_next ws_start)
  have c: "wd_calls ?w = [SendReplyStart 200 None, SendReplyEnd]"
    by (simp add: ws_step_def api_step_def lua_evhttp_request_reply_start_def lua_evhttp_request_reply_end_def
        finish_reply_def httpd_release_conn_guard_def Let_def sample_world_def new_request_def)
  have "requests_active (wd_metrics ?v) = 1" "responses_2xx (wd_metrics ?v) = 0"
    by (simp_all add: metrics_update_request_start_def metrics_init_def)
  with httpd_metrics_accounting [OF n r] n r c show ?thesis by (simp add: Let_def)
qed

section \<open>Configuration\<close>

text \<open>
  An accepted configuration has its timeouts and limits in range, but any number can be the port, since it is read
  after the validation.
\<close>

lemma bind_config_port_unchecked:
  assumes "utd_bind_config cf = Some server"
  shows "1 \<le> sv_keep_alive_timeout server \<and> sv_keep_alive_timeout server \<le> 3600
    \<and> 1 \<le> sv_max_keep_alive_requests server \<and> sv_max_keep_alive_requests server \<le> 10000
    \<and> 1024 \<le> sv_max_body_size server \<and> sv_max_body_size server \<le> 1073741824"
    and "\<exists>server'. utd_bind_config (cf\<lparr>cf_port := Some port\<rparr>) = Some server' \<and> sv_port server' = c_int port"
  using assms by (auto simp: utd_bind_config_def Let_def validate_httpd_config_def split: if_splits option.splits)

text \<open>
  Collecting a server object frees its libevent server and its SSL context, except that the libevent server of a
  \<open>bind\<close> that failed on its certificate is lost.
\<close>

lemma server_gc_frees:
  "sh_evhttps (lua_evhttp_server_gc (snd (utd_bind_start ssl bound f))) = (if ssl = Some False then 1 else 0)"
  "sh_ctxs (lua_evhttp_server_gc (snd (utd_bind_start ssl bound f))) = 0"
  by (auto simp: lua_evhttp_server_gc_def utd_bind_start_def Let_def httpd_server_rebind_def split: option.splits)

end
