(* ===== verification/Tcpd_Config.thy ===== *)
theory Tcpd_Config
  imports C_Numbers
begin

text \<open>
  Configuration and errors of TCP connections: \<open>src/tcpd_config.c\<close>, \<open>src/tcpd_error.c\<close> and the socket options
  shared with UDP in \<open>src/conn_config.h\<close>. The calls to \<open>setsockopt\<close> are recorded in order, and a parameter says
  which of them succeed. The build is the one for Linux, where \<open>TCP_KEEPIDLE\<close>, \<open>TCP_KEEPINTVL\<close> and \<open>TCP_KEEPCNT\<close>
  exist and \<open>IP_BOUND_IF\<close> does not.
\<close>

section \<open>Configuration\<close>

record tcpd_config =
  tc_send_buffer_size :: int
  tc_receive_buffer_size :: int
  tc_keepalive_enabled :: bool
  tc_keepalive_idle :: int
  tc_keepalive_interval :: int
  tc_keepalive_count :: int
  tc_read_timeout :: u64
  tc_write_timeout :: u64
  tc_interface :: int
  tc_ssl_enabled :: bool
  tc_ssl_verifyhost :: int
  tc_ssl_verifypeer :: int
  tc_callback_self_first :: bool

definition tcpd_config_init :: tcpd_config where
  "tcpd_config_init =
     \<lparr>tc_send_buffer_size = 0, tc_receive_buffer_size = 0, tc_keepalive_enabled = False, tc_keepalive_idle = 0,
      tc_keepalive_interval = 0, tc_keepalive_count = 0, tc_read_timeout = 0, tc_write_timeout = 0, tc_interface = 0,
      tc_ssl_enabled = False, tc_ssl_verifyhost = 0, tc_ssl_verifypeer = 0, tc_callback_self_first = False\<rparr>"

definition tcpd_config_set_defaults :: "tcpd_config \<Rightarrow> tcpd_config" where
  "tcpd_config_set_defaults config =
     config\<lparr>tc_send_buffer_size := 0, tc_receive_buffer_size := 0, tc_keepalive_enabled := False,
            tc_keepalive_idle := 7200, tc_keepalive_interval := 75, tc_keepalive_count := 9,
            tc_read_timeout := 0, tc_write_timeout := 0, tc_interface := 0, tc_ssl_enabled := False,
            tc_ssl_verifyhost := 1, tc_ssl_verifypeer := 1, tc_callback_self_first := False\<rparr>"

text \<open>
  The fields of the table given to \<open>connect\<close> or \<open>bind\<close>. A number is Some of what \<open>lua_tointeger\<close> or \<open>lua_tonumber\<close>
  returns when \<open>lua_isnumber\<close> holds; \<open>lt_interface\<close> is Some of the result of \<open>if_nametoindex\<close> for a string.
\<close>

record tcpd_table =
  lt_send_buffer_size :: "int option"
  lt_receive_buffer_size :: "int option"
  lt_keepalive :: bool
  lt_keepalive_idle :: "int option"
  lt_keepalive_interval :: "int option"
  lt_keepalive_count :: "int option"
  lt_read_timeout :: "u64 option"
  lt_write_timeout :: "u64 option"
  lt_interface :: "int option"
  lt_ssl :: bool
  lt_ssl_verifyhost :: "int option"
  lt_ssl_verifypeer :: "int option"
  lt_callback_self_first :: bool

definition opt_int :: "int option \<Rightarrow> int \<Rightarrow> int" where
  "opt_int v d = (case v of Some z \<Rightarrow> c_int z | None \<Rightarrow> d)"

definition tcpd_config_from_lua_table :: "tcpd_table \<Rightarrow> tcpd_config \<Rightarrow> tcpd_config" where
  "tcpd_config_from_lua_table t config =
     (let c = tcpd_config_set_defaults config;
          c = c\<lparr>tc_send_buffer_size := opt_int (lt_send_buffer_size t) (tc_send_buffer_size c)\<rparr>;
          c = c\<lparr>tc_receive_buffer_size := opt_int (lt_receive_buffer_size t) (tc_receive_buffer_size c)\<rparr>;
          c = c\<lparr>tc_keepalive_enabled := lt_keepalive t\<rparr>;
          c = (if tc_keepalive_enabled c
               then c\<lparr>tc_keepalive_idle := opt_int (lt_keepalive_idle t) (tc_keepalive_idle c),
                      tc_keepalive_interval := opt_int (lt_keepalive_interval t) (tc_keepalive_interval c),
                      tc_keepalive_count := opt_int (lt_keepalive_count t) (tc_keepalive_count c)\<rparr>
               else c);
          c = c\<lparr>tc_read_timeout := (case lt_read_timeout t of Some d \<Rightarrow> d | None \<Rightarrow> tc_read_timeout c)\<rparr>;
          c = c\<lparr>tc_write_timeout := (case lt_write_timeout t of Some d \<Rightarrow> d | None \<Rightarrow> tc_write_timeout c)\<rparr>;
          c = c\<lparr>tc_interface := opt_int (lt_interface t) (tc_interface c)\<rparr>;
          c = c\<lparr>tc_ssl_enabled := lt_ssl t\<rparr>;
          c = (if tc_ssl_enabled c
               then c\<lparr>tc_ssl_verifyhost := opt_int (lt_ssl_verifyhost t) (tc_ssl_verifyhost c),
                      tc_ssl_verifypeer := opt_int (lt_ssl_verifypeer t) (tc_ssl_verifypeer c)\<rparr>
               else c)
      in c\<lparr>tc_callback_self_first := lt_callback_self_first t\<rparr>)"

section \<open>Socket options\<close>

datatype sockopt =
    SO_SNDBUF | SO_RCVBUF | SO_KEEPALIVE | TCP_KEEPIDLE | TCP_KEEPINTVL | TCP_KEEPCNT
  | SO_REUSEADDR | SO_REUSEPORT | SO_BROADCAST | IP_ADD_MEMBERSHIP | IP_MULTICAST_TTL

type_synonym sockopt_calls = "(sockopt \<times> int) list"

text \<open>The results of the functions that apply options: 0 or -1, and the calls made so far.\<close>

definition setsockopt :: "(sockopt \<Rightarrow> bool) \<Rightarrow> sockopt \<Rightarrow> int \<Rightarrow> sockopt_calls \<Rightarrow> int \<times> sockopt_calls" where
  "setsockopt ok opt v calls = (if ok opt then 0 else -1, calls @ [(opt, v)])"

definition conn_config_apply_sndbuf :: "(sockopt \<Rightarrow> bool) \<Rightarrow> int \<Rightarrow> int \<Rightarrow> sockopt_calls \<Rightarrow> int \<times> sockopt_calls" where
  "conn_config_apply_sndbuf ok fd sz calls =
     (if fd < 0 \<or> sz \<le> 0 then (0, calls) else setsockopt ok SO_SNDBUF sz calls)"

definition conn_config_apply_rcvbuf :: "(sockopt \<Rightarrow> bool) \<Rightarrow> int \<Rightarrow> int \<Rightarrow> sockopt_calls \<Rightarrow> int \<times> sockopt_calls" where
  "conn_config_apply_rcvbuf ok fd sz calls =
     (if fd < 0 \<or> sz \<le> 0 then (0, calls) else setsockopt ok SO_RCVBUF sz calls)"

definition conn_config_apply_bound_if :: "int \<Rightarrow> int \<Rightarrow> sockopt_calls \<Rightarrow> int \<times> sockopt_calls" where
  "conn_config_apply_bound_if fd iface calls = (if fd < 0 \<or> iface \<le> 0 then (0, calls) else (0, calls))"

text \<open>A call whose failure returns -1 at once, and what follows it.\<close>

definition unless_failed ::
  "int \<times> sockopt_calls \<Rightarrow> (sockopt_calls \<Rightarrow> int \<times> sockopt_calls) \<Rightarrow> int \<times> sockopt_calls" where
  "unless_failed r f = (case r of (rc, calls) \<Rightarrow> if rc \<noteq> 0 then (-1, calls) else f calls)"

definition set_positive :: "(sockopt \<Rightarrow> bool) \<Rightarrow> sockopt \<Rightarrow> int \<Rightarrow> sockopt_calls \<Rightarrow> int \<times> sockopt_calls" where
  "set_positive ok opt v calls = (if 0 < v then setsockopt ok opt v calls else (0, calls))"

definition tcpd_config_apply_keepalive ::
  "(sockopt \<Rightarrow> bool) \<Rightarrow> tcpd_config \<Rightarrow> sockopt_calls \<Rightarrow> int \<times> sockopt_calls" where
  "tcpd_config_apply_keepalive ok config calls =
     (if \<not> tc_keepalive_enabled config then (0, calls)
      else unless_failed (setsockopt ok SO_KEEPALIVE 1 calls) (\<lambda>calls.
           unless_failed (set_positive ok TCP_KEEPIDLE (tc_keepalive_idle config) calls) (\<lambda>calls.
           unless_failed (set_positive ok TCP_KEEPINTVL (tc_keepalive_interval config) calls) (\<lambda>calls.
           unless_failed (set_positive ok TCP_KEEPCNT (tc_keepalive_count config) calls) (\<lambda>calls. (0, calls))))))"

text \<open>The second component of the result is the high watermark for reading, if it was set.\<close>

definition tcpd_config_apply_buffers ::
  "(sockopt \<Rightarrow> bool) \<Rightarrow> tcpd_config \<Rightarrow> int \<Rightarrow> sockopt_calls \<Rightarrow> (int \<times> sockopt_calls) \<times> int option" where
  "tcpd_config_apply_buffers ok config fd calls =
     (case conn_config_apply_sndbuf ok fd (tc_send_buffer_size config) calls of
        (rc, calls) \<Rightarrow>
          if rc \<noteq> 0 then ((-1, calls), None)
          else if 0 < tc_receive_buffer_size config
          then (unless_failed (conn_config_apply_rcvbuf ok fd (tc_receive_buffer_size config) calls) (\<lambda>calls. (0, calls)),
                Some (tc_receive_buffer_size config))
          else ((0, calls), None))"

definition tcpd_config_apply_interface :: "tcpd_config \<Rightarrow> int \<Rightarrow> sockopt_calls \<Rightarrow> int \<times> sockopt_calls" where
  "tcpd_config_apply_interface config fd calls = conn_config_apply_bound_if fd (tc_interface config) calls"

section \<open>Timeouts\<close>

text \<open>
  The comparison of a double with 0 and the conversion of a positive one to a \<open>timeval\<close>: the whole seconds, and the
  rest times a million, rounded to a double and cut off. The difference is exact. None is the conversion to \<open>long\<close>
  of a number that does not fit, which is undefined.
\<close>

definition dbl_positive :: "u64 \<Rightarrow> bool" where
  "dbl_positive d \<longleftrightarrow> \<not> dbl_is_nan d \<and> \<not> dbl_negative d \<and> d \<noteq> 0"

definition timeval_of :: "u64 \<Rightarrow> (nat \<times> nat) option" where
  "timeval_of d =
     (let sec = dbl_num d div dbl_den d;
          micro = dbl_round False (dbl_num d mod dbl_den d * 1000000) (dbl_den d)
      in if dbl_is_inf d \<or> 2 ^ 63 \<le> sec then None else Some (sec, dbl_num micro div dbl_den micro))"

text \<open>The call to \<open>bufferevent_set_timeouts\<close>, if there is one: NULL is None, and Some None an undefined value.\<close>

definition tcpd_config_apply_timeouts ::
  "tcpd_config \<Rightarrow> ((nat \<times> nat) option option \<times> (nat \<times> nat) option option) option" where
  "tcpd_config_apply_timeouts config =
     (let read_tvp = (if dbl_positive (tc_read_timeout config) then Some (timeval_of (tc_read_timeout config)) else None);
          write_tvp = (if dbl_positive (tc_write_timeout config) then Some (timeval_of (tc_write_timeout config)) else None)
      in if read_tvp \<noteq> None \<or> write_tvp \<noteq> None then Some (read_tvp, write_tvp) else None)"

section \<open>Errors\<close>

datatype tcpd_error_type =
    TCPD_ERROR_NONE | TCPD_ERROR_TIMEOUT | TCPD_ERROR_CONNECTION_RESET | TCPD_ERROR_DNS_FAILED | TCPD_ERROR_SSL_ERROR
  | TCPD_ERROR_EOF | TCPD_ERROR_UNKNOWN

record tcpd_error =
  er_type :: tcpd_error_type
  er_message :: "string option"
  er_system_error :: int

definition no_error :: tcpd_error where
  "no_error = \<lparr>er_type = TCPD_ERROR_NONE, er_message = None, er_system_error = 0\<rparr>"

fun error_type_strings :: "tcpd_error_type \<Rightarrow> string" where
  "error_type_strings TCPD_ERROR_NONE = ''no error''"
| "error_type_strings TCPD_ERROR_TIMEOUT = ''timeout''"
| "error_type_strings TCPD_ERROR_CONNECTION_RESET = ''connection reset by peer''"
| "error_type_strings TCPD_ERROR_DNS_FAILED = ''DNS resolution failed''"
| "error_type_strings TCPD_ERROR_SSL_ERROR = ''SSL error''"
| "error_type_strings TCPD_ERROR_EOF = ''connection closed''"
| "error_type_strings TCPD_ERROR_UNKNOWN = ''unknown error''"

definition tcpd_error_to_string :: "tcpd_error \<Rightarrow> string" where
  "tcpd_error_to_string error =
     (case er_message error of Some m \<Rightarrow> m | None \<Rightarrow> error_type_strings (er_type error))"

definition tcpd_error_cleanup :: "tcpd_error \<Rightarrow> tcpd_error" where
  "tcpd_error_cleanup error = error\<lparr>er_message := None, er_type := TCPD_ERROR_NONE, er_system_error := 0\<rparr>"

definition strdup :: "allocator \<Rightarrow> string \<Rightarrow> string option" where
  "strdup al s = (if can_alloc al (length s + 1) then Some s else None)"

text \<open>The flags of a bufferevent event.\<close>

definition BEV_EVENT_READING :: u16 where "BEV_EVENT_READING = 0x01"
definition BEV_EVENT_WRITING :: u16 where "BEV_EVENT_WRITING = 0x02"
definition BEV_EVENT_EOF :: u16 where "BEV_EVENT_EOF = 0x10"
definition BEV_EVENT_ERROR :: u16 where "BEV_EVENT_ERROR = 0x20"
definition BEV_EVENT_TIMEOUT :: u16 where "BEV_EVENT_TIMEOUT = 0x40"
definition BEV_EVENT_CONNECTED :: u16 where "BEV_EVENT_CONNECTED = 0x80"

lemmas bev_flags = BEV_EVENT_READING_def BEV_EVENT_WRITING_def BEV_EVENT_EOF_def BEV_EVENT_ERROR_def
  BEV_EVENT_TIMEOUT_def BEV_EVENT_CONNECTED_def

definition tcpd_error_from_socket_error :: "allocator \<Rightarrow> (int \<Rightarrow> string) \<Rightarrow> int \<Rightarrow> tcpd_error" where
  "tcpd_error_from_socket_error al strerror code =
     no_error\<lparr>er_system_error := code, er_type := TCPD_ERROR_CONNECTION_RESET, er_message := strdup al (strerror code)\<rparr>"

definition timeout_message :: "u16 \<Rightarrow> string" where
  "timeout_message events =
     (if events AND BEV_EVENT_READING \<noteq> 0 then ''read timeout''
      else if events AND BEV_EVENT_WRITING \<noteq> 0 then ''write timeout''
      else ''unknown timeout'')"

definition tcpd_error_timeout :: "allocator \<Rightarrow> u16 \<Rightarrow> tcpd_error" where
  "tcpd_error_timeout al events =
     no_error\<lparr>er_type := TCPD_ERROR_TIMEOUT, er_message := strdup al (timeout_message events)\<rparr>"

definition tcpd_error_dns :: "allocator \<Rightarrow> (int \<Rightarrow> string) \<Rightarrow> int \<Rightarrow> tcpd_error" where
  "tcpd_error_dns al gai_strerror code =
     no_error\<lparr>er_type := TCPD_ERROR_DNS_FAILED, er_system_error := code, er_message := strdup al (gai_strerror code)\<rparr>"

datatype tcpd_conn_type = TCPD_CONN_TYPE_CLIENT | TCPD_CONN_TYPE_ACCEPT | TCPD_CONN_TYPE_SERVER

definition tcpd_error_eof :: "allocator \<Rightarrow> tcpd_conn_type \<Rightarrow> tcpd_error" where
  "tcpd_error_eof al conn_type =
     no_error\<lparr>er_type := TCPD_ERROR_EOF,
               er_message := strdup al (case conn_type of
                  TCPD_CONN_TYPE_ACCEPT \<Rightarrow> ''client disconnected''
                | TCPD_CONN_TYPE_CLIENT \<Rightarrow> ''server disconnected''
                | TCPD_CONN_TYPE_SERVER \<Rightarrow> ''connection closed'')\<rparr>"

definition tcpd_error_ssl :: "allocator \<Rightarrow> string option \<Rightarrow> tcpd_error" where
  "tcpd_error_ssl al msg =
     no_error\<lparr>er_type := TCPD_ERROR_SSL_ERROR,
               er_message := (case msg of
                  Some m \<Rightarrow> if can_alloc al (length m + 12) then Some (take (length m + 11) (''SSLError: '' @ m)) else None
                | None \<Rightarrow> strdup al ''SSL error'')\<rparr>"

end
