(* ===== verification/Tcpd.thy ===== *)
theory Tcpd
  imports Bytearray Tcpd_Config
begin

text \<open>
  TCP connections: \<open>src/tcpd_event.c\<close>, \<open>src/tcpd.c\<close> and the accepted connections of \<open>src/tcpd_server.c\<close>. The state is
  one connection with its bufferevent, the Lua registry slots of its callbacks, and a record of the callbacks that
  were called. Two flags that are not part of the program record undefined behaviour: an access to a bufferevent
  that is freed or to memory outside a buffer, and the use of a mutex that is destroyed. This theory runs the operations one after the other;
  their interleaving in two threads is in \<open>Tcpd_Race\<close>.
\<close>

section \<open>State\<close>

datatype tcpd_conn_state = TCPD_CONN_DISCONNECTED | TCPD_CONN_CONNECTING | TCPD_CONN_CONNECTED | TCPD_CONN_ERROR

text \<open>A reference is the number of a registry slot or None for \<open>LUA_NOREF\<close>; a pointer is True when it is not NULL.\<close>

record tcpd_base_conn =
  cn_buf :: bool
  cn_mutex :: bool
  cn_state :: tcpd_conn_state
  cn_type :: tcpd_conn_type
  cn_cleaned_up :: bool
  cn_mainthread :: bool
  cn_onRead :: "nat option"
  cn_onSendReady :: "nat option"
  cn_onDisconnected :: "nat option"
  cn_onConnected :: "nat option"
  cn_config :: tcpd_config
  cn_ssl_ctx :: bool
  cn_host :: "string option"
  cn_port :: int
  cn_unix_path :: "string option"
  cn_ip :: string

text \<open>
  A bufferevent: whether it is freed, whether the callbacks are installed, whether reading is enabled, its two
  buffers, whether the writing side of the socket was shut down, and the timeouts that were set.
\<close>

record bufferevent =
  bv_freed :: bool
  bv_callbacks :: bool
  bv_read :: bool
  bv_in :: bytes
  bv_out :: bytes
  bv_shut :: bool
  bv_timeouts :: "((nat \<times> nat) option option \<times> (nat \<times> nat) option option) option"

text \<open>
  The callbacks of a connection, and what Lua code calls on a connection: the methods of the object, with what
  \<open>bind\<close> of an accepted connection finds in its table (which of the four fields are functions).
\<close>

datatype tcpd_callback =
    OnRead bytes
  | OnSendReady
  | OnConnected
  | OnDisconnected string

datatype tcpd_call =
    CallSend bytes
  | CallClose
  | CallShutdown
  | CallPauseRead
  | CallResumeRead
  | CallGetsockname
  | CallGetpeername
  | CallTostring
  | CallBind bool bool bool bool

text \<open>
  \<open>tw_registry\<close> are the slots that hold a function of this connection, \<open>tw_next\<close> the next free one; \<open>tw_ssl_refs\<close>
  the references to an SSL context that the connection holds, \<open>tw_sockopts\<close> the socket options that were set;
  \<open>tw_lua\<close> is what the next callbacks will call. The flag of a log entry says whether the connection object is passed.
\<close>

record tcpd_world =
  tw_conn :: tcpd_base_conn
  tw_bev :: bufferevent
  tw_registry :: "nat list"
  tw_next :: nat
  tw_ssl_refs :: int
  tw_sockopts :: sockopt_calls
  tw_log :: "(bool \<times> tcpd_callback) list"
  tw_lua :: "tcpd_call list list"
  tw_bad_access :: bool
  tw_dead_mutex :: bool

text \<open>The result of \<open>getsockname\<close> or \<open>getpeername\<close>: it fails, or an address of one of the two families, or another.\<close>

datatype sock_name = NameFailed | NameInet string nat | NameOther

text \<open>
  The behaviour of the environment: the allocator, whether \<open>fan_cb_setup\<close> can create a coroutine, whether
  \<open>setsockopt\<close> succeeds, the descriptor and the addresses of the socket, the error of a lookup and of the socket,
  and whether the error queue of OpenSSL has an entry, with the text made of it (None if it cannot be allocated).
\<close>

record tcpd_env =
  te_al :: allocator
  te_co :: bool
  te_sockopt :: "sockopt \<Rightarrow> bool"
  te_fd :: int
  te_sockname :: sock_name
  te_peername :: sock_name
  te_dns_error :: int
  te_socket_error :: int
  te_ssl_error :: "string option option"
  te_gai_strerror :: "int \<Rightarrow> string"
  te_strerror :: "int \<Rightarrow> string"

definition upd_conn :: "(tcpd_base_conn \<Rightarrow> tcpd_base_conn) \<Rightarrow> tcpd_world \<Rightarrow> tcpd_world" where
  "upd_conn f w = w\<lparr>tw_conn := f (tw_conn w)\<rparr>"

text \<open>Every access to the bufferevent goes through this function.\<close>

definition upd_bev :: "(bufferevent \<Rightarrow> bufferevent) \<Rightarrow> tcpd_world \<Rightarrow> tcpd_world" where
  "upd_bev f w =
     (if bv_freed (tw_bev w) then w\<lparr>tw_bad_access := True\<rparr> else w\<lparr>tw_bev := f (tw_bev w)\<rparr>)"

definition lock_buf :: "tcpd_world \<Rightarrow> tcpd_world" where
  "lock_buf w = (if cn_mutex (tw_conn w) then w else w\<lparr>tw_dead_mutex := True\<rparr>)"

section \<open>References to Lua functions\<close>

text \<open>\<open>SET_FUNC_REF_FROM_TABLE\<close> takes a new slot for a function; \<open>CLEAR_REF\<close> frees a slot.\<close>

definition set_func_ref :: "bool \<Rightarrow> tcpd_world \<Rightarrow> nat option \<times> tcpd_world" where
  "set_func_ref is_function w =
     (if is_function then (Some (tw_next w), w\<lparr>tw_registry := tw_next w # tw_registry w, tw_next := tw_next w + 1\<rparr>)
      else (None, w))"

definition clear_ref :: "nat option \<Rightarrow> tcpd_world \<Rightarrow> tcpd_world" where
  "clear_ref r w = (case r of Some n \<Rightarrow> w\<lparr>tw_registry := remove1 n (tw_registry w)\<rparr> | None \<Rightarrow> w)"

definition tcpd_base_conn_set_callbacks :: "bool \<Rightarrow> bool \<Rightarrow> bool \<Rightarrow> bool \<Rightarrow> tcpd_world \<Rightarrow> tcpd_world" where
  "tcpd_base_conn_set_callbacks rd sr dc co w =
     (let w = upd_conn (\<lambda>c. c\<lparr>cn_onRead := None, cn_onSendReady := None, cn_onDisconnected := None, cn_onConnected := None\<rparr>) w;
          (r, w) = set_func_ref rd w;
          w = upd_conn (\<lambda>c. c\<lparr>cn_onRead := r\<rparr>) w;
          (r, w) = set_func_ref sr w;
          w = upd_conn (\<lambda>c. c\<lparr>cn_onSendReady := r\<rparr>) w;
          (r, w) = set_func_ref dc w;
          w = upd_conn (\<lambda>c. c\<lparr>cn_onDisconnected := r\<rparr>) w;
          (r, w) = set_func_ref co w
      in upd_conn (\<lambda>c. c\<lparr>cn_onConnected := r\<rparr>) w)"

definition tcpd_base_conn_init :: "tcpd_conn_type \<Rightarrow> tcpd_base_conn" where
  "tcpd_base_conn_init ty =
     \<lparr>cn_buf = False, cn_mutex = True, cn_state = TCPD_CONN_DISCONNECTED, cn_type = ty, cn_cleaned_up = False,
      cn_mainthread = True, cn_onRead = None, cn_onSendReady = None, cn_onDisconnected = None, cn_onConnected = None,
      cn_config = tcpd_config_set_defaults tcpd_config_init, cn_ssl_ctx = False, cn_host = None, cn_port = 0,
      cn_unix_path = None, cn_ip = []\<rparr>"

section \<open>Cleanup\<close>

text \<open>Without callbacks and without reading nothing is called any more; the free is the last access.\<close>

definition tcpd_shutdown_bufferevent :: "tcpd_world \<Rightarrow> tcpd_world" where
  "tcpd_shutdown_bufferevent w = upd_bev (\<lambda>b. b\<lparr>bv_callbacks := False, bv_read := False, bv_freed := True\<rparr>) w"

text \<open>One reference to the SSL context is given back.\<close>

definition release_ssl :: "tcpd_world \<Rightarrow> tcpd_world" where
  "release_ssl w =
     (if cn_ssl_ctx (tw_conn w)
      then upd_conn (\<lambda>c. c\<lparr>cn_ssl_ctx := False\<rparr>) (w\<lparr>tw_ssl_refs := tw_ssl_refs w - 1\<rparr>) else w)"

text \<open>The pointer is taken under the mutex, so that no one else can free or use the bufferevent.\<close>

definition take_buf :: "tcpd_world \<Rightarrow> tcpd_world" where
  "take_buf w =
     (let w = lock_buf w;
          bev_to_free = cn_buf (tw_conn w);
          w = upd_conn (\<lambda>c. c\<lparr>cn_buf := False\<rparr>) w
      in if bev_to_free then tcpd_shutdown_bufferevent w else w)"

definition clear_refs :: "tcpd_world \<Rightarrow> tcpd_world" where
  "clear_refs w =
     (let w = upd_conn (\<lambda>c. c\<lparr>cn_onRead := None\<rparr>) (clear_ref (cn_onRead (tw_conn w)) w);
          w = upd_conn (\<lambda>c. c\<lparr>cn_onSendReady := None\<rparr>) (clear_ref (cn_onSendReady (tw_conn w)) w);
          w = upd_conn (\<lambda>c. c\<lparr>cn_onDisconnected := None\<rparr>) (clear_ref (cn_onDisconnected (tw_conn w)) w)
      in upd_conn (\<lambda>c. c\<lparr>cn_onConnected := None\<rparr>) (clear_ref (cn_onConnected (tw_conn w)) w))"

definition tcpd_base_conn_cleanup :: "tcpd_world \<Rightarrow> tcpd_world" where
  "tcpd_base_conn_cleanup w =
     (let w = take_buf w;
          w = (if cn_mainthread (tw_conn w) then clear_refs w else w);
          w = upd_conn (\<lambda>c. c\<lparr>cn_host := None, cn_unix_path := None\<rparr>) w;
          w = release_ssl w
      in upd_conn (\<lambda>c. c\<lparr>cn_state := TCPD_CONN_DISCONNECTED, cn_mainthread := False, cn_mutex := False\<rparr>) w)"

definition tcpd_client_cleanup_on_disconnect :: "tcpd_world \<Rightarrow> tcpd_world" where
  "tcpd_client_cleanup_on_disconnect w =
     (if cn_cleaned_up (tw_conn w) then w
      else tcpd_base_conn_cleanup (release_ssl (upd_conn (\<lambda>c. c\<lparr>cn_cleaned_up := True\<rparr>) w)))"

definition tcpd_accept_cleanup_on_disconnect :: "tcpd_world \<Rightarrow> tcpd_world" where
  "tcpd_accept_cleanup_on_disconnect w =
     (if cn_cleaned_up (tw_conn w) then w
      else tcpd_base_conn_cleanup (upd_conn (\<lambda>c. c\<lparr>cn_cleaned_up := True\<rparr>) w))"

definition tcpd_connection_cleanup_on_disconnect :: "tcpd_world \<Rightarrow> tcpd_world" where
  "tcpd_connection_cleanup_on_disconnect w =
     (case cn_type (tw_conn w) of
        TCPD_CONN_TYPE_CLIENT \<Rightarrow> tcpd_client_cleanup_on_disconnect w
      | _ \<Rightarrow> if cn_cleaned_up (tw_conn w) then w
             else tcpd_base_conn_cleanup (upd_conn (\<lambda>c. c\<lparr>cn_cleaned_up := True\<rparr>) w))"

section \<open>Methods of a connection\<close>

text \<open>
  The results that Lua code sees. The address of a socket of another family is an array that was never written, and
  its port is 0.
\<close>

datatype tcpd_result = RInt int | RNothing | RAddress string nat | RNilNil | RUninitialised | RText string

definition apply_timeouts :: "tcpd_config \<Rightarrow> bufferevent \<Rightarrow> bufferevent" where
  "apply_timeouts config b =
     (case tcpd_config_apply_timeouts config of Some t \<Rightarrow> b\<lparr>bv_timeouts := Some t\<rparr> | None \<Rightarrow> b)"

definition tcpd_conn_send :: "bytes \<Rightarrow> tcpd_world \<Rightarrow> tcpd_result \<times> tcpd_world" where
  "tcpd_conn_send data w =
     (if length data = 0 then (RInt (-1), w)
      else let w = lock_buf w
           in if \<not> cn_buf (tw_conn w) then (RInt (-1), w)
              else let w = upd_bev (\<lambda>b. (apply_timeouts (cn_config (tw_conn w)) b)\<lparr>bv_out := bv_out b @ data\<rparr>) w
                   in (RInt (int (length (bv_out (tw_bev w)))), w))"

definition tcpd_accept_send :: "bytes \<Rightarrow> tcpd_world \<Rightarrow> tcpd_result \<times> tcpd_world" where
  "tcpd_accept_send data w =
     (if length data = 0 then (RInt (-1), w)
      else let w = lock_buf w
           in if \<not> cn_buf (tw_conn w) then (RInt (-1), w)
              else let w = upd_bev (\<lambda>b. (apply_timeouts (cn_config (tw_conn w)) b)\<lparr>bv_out := bv_out b @ data\<rparr>) w
                   in (RInt (int (length (bv_out (tw_bev w)))), w))"

definition tcpd_conn_close :: "tcpd_world \<Rightarrow> tcpd_result \<times> tcpd_world" where
  "tcpd_conn_close w = (RNothing, tcpd_client_cleanup_on_disconnect w)"

definition tcpd_accept_close :: "tcpd_world \<Rightarrow> tcpd_result \<times> tcpd_world" where
  "tcpd_accept_close w = (RNothing, tcpd_accept_cleanup_on_disconnect w)"

definition tcpd_conn_shutdown :: "tcpd_env \<Rightarrow> tcpd_world \<Rightarrow> tcpd_result \<times> tcpd_world" where
  "tcpd_conn_shutdown te w =
     (let w = lock_buf w
      in if \<not> cn_buf (tw_conn w) then (RInt 0, w)
         else let pending = length (bv_out (tw_bev w))
              in (RInt (int pending),
                  if pending = 0 \<and> 0 \<le> te_fd te then upd_bev (\<lambda>b. b\<lparr>bv_shut := True\<rparr>) w else upd_bev id w))"

definition read_pause :: "tcpd_world \<Rightarrow> tcpd_result \<times> tcpd_world" where
  "read_pause w =
     (let w = lock_buf w
      in (RNothing, if cn_buf (tw_conn w) then upd_bev (\<lambda>b. b\<lparr>bv_read := False\<rparr>) w else w))"

definition read_resume :: "tcpd_world \<Rightarrow> tcpd_result \<times> tcpd_world" where
  "read_resume w =
     (let w = lock_buf w
      in (RNothing, if cn_buf (tw_conn w) then upd_bev (\<lambda>b. b\<lparr>bv_read := True\<rparr>) w else w))"

text \<open>\<open>getsockname\<close> and \<open>getpeername\<close>, with the function of the same name of the C library as an argument.\<close>

definition get_address :: "tcpd_env \<Rightarrow> sock_name \<Rightarrow> tcpd_world \<Rightarrow> tcpd_result \<times> tcpd_world" where
  "get_address te name w =
     (let w = lock_buf w
      in if cn_buf (tw_conn w)
         then (if 0 \<le> te_fd te
               then case name of NameInet ip port \<Rightarrow> RAddress ip port | NameOther \<Rightarrow> RUninitialised | NameFailed \<Rightarrow> RNilNil
               else RNilNil,
               upd_bev id w)
         else (RNilNil, w))"

text \<open>The methods of the two kinds of objects that share these bodies.\<close>

definition tcpd_conn_read_pause :: "tcpd_world \<Rightarrow> tcpd_result \<times> tcpd_world" where
  [simp]: "tcpd_conn_read_pause w = read_pause w"

definition tcpd_accept_read_pause :: "tcpd_world \<Rightarrow> tcpd_result \<times> tcpd_world" where
  [simp]: "tcpd_accept_read_pause w = read_pause w"

definition tcpd_conn_read_resume :: "tcpd_world \<Rightarrow> tcpd_result \<times> tcpd_world" where
  [simp]: "tcpd_conn_read_resume w = read_resume w"

definition tcpd_accept_read_resume :: "tcpd_world \<Rightarrow> tcpd_result \<times> tcpd_world" where
  [simp]: "tcpd_accept_read_resume w = read_resume w"

definition tcpd_conn_getsockname :: "tcpd_env \<Rightarrow> tcpd_world \<Rightarrow> tcpd_result \<times> tcpd_world" where
  [simp]: "tcpd_conn_getsockname te w = get_address te (te_sockname te) w"

definition tcpd_accept_getsockname :: "tcpd_env \<Rightarrow> tcpd_world \<Rightarrow> tcpd_result \<times> tcpd_world" where
  [simp]: "tcpd_accept_getsockname te w = get_address te (te_sockname te) w"

definition tcpd_conn_getpeername :: "tcpd_env \<Rightarrow> tcpd_world \<Rightarrow> tcpd_result \<times> tcpd_world" where
  [simp]: "tcpd_conn_getpeername te w = get_address te (te_peername te) w"

definition tcpd_accept_getpeername :: "tcpd_env \<Rightarrow> tcpd_world \<Rightarrow> tcpd_result \<times> tcpd_world" where
  [simp]: "tcpd_accept_getpeername te w = get_address te (te_peername te) w"

definition state_number :: "tcpd_conn_state \<Rightarrow> nat" where
  "state_number st =
     (case st of TCPD_CONN_DISCONNECTED \<Rightarrow> 0 | TCPD_CONN_CONNECTING \<Rightarrow> 1 | TCPD_CONN_CONNECTED \<Rightarrow> 2 | TCPD_CONN_ERROR \<Rightarrow> 3)"

text \<open>
  The text of a connection. When the address can be read it is also copied into the field \<open>ip\<close>. None is a failed
  allocation.
\<close>

definition dec_text :: "int \<Rightarrow> string" where
  "dec_text z = map (\<lambda>c. char_of (unat c)) (int_text z)"

definition tcpd_format_connection_info :: "tcpd_env \<Rightarrow> tcpd_world \<Rightarrow> string option \<times> tcpd_world" where
  "tcpd_format_connection_info te w =
     (let host = (case cn_host (tw_conn w) of Some h \<Rightarrow> h | None \<Rightarrow> ''unknown'');
          w = lock_buf w;
          buf = cn_buf (tw_conn w);
          w = (if buf then upd_bev id w else w);
          fd = (if buf then te_fd te else -1);
          name = (if buf \<and> 0 \<le> fd then te_sockname te else NameFailed);
          w = (case name of NameInet ip port \<Rightarrow> upd_conn (\<lambda>c. c\<lparr>cn_ip := ip\<rparr>) w | _ \<Rightarrow> w);
          local_ip = (case name of NameInet ip port \<Rightarrow> ip | _ \<Rightarrow> ''unknown'');
          local_port = (case name of NameInet ip port \<Rightarrow> int port | _ \<Rightarrow> 0);
          len = length host + length local_ip + 128
      in (if can_alloc (te_al te) len
          then Some (take (len - 1)
                 (''<TCP: target='' @ host @ '':'' @ dec_text (cn_port (tw_conn w)) @ '', local='' @ local_ip @ '':''
                  @ dec_text local_port @ '', fd='' @ dec_text fd @ '', state=''
                  @ dec_text (int (state_number (cn_state (tw_conn w)))) @ ''>''))
          else None,
          w))"

definition tcpd_conn_tostring :: "tcpd_env \<Rightarrow> tcpd_world \<Rightarrow> tcpd_result \<times> tcpd_world" where
  "tcpd_conn_tostring te w =
     (case tcpd_format_connection_info te w of
        (Some info, w) \<Rightarrow> (RText info, w)
      | (None, w) \<Rightarrow> (RText ''<TCP connection>'', w))"

definition tcpd_accept_bind :: "bool \<Rightarrow> bool \<Rightarrow> bool \<Rightarrow> bool \<Rightarrow> tcpd_world \<Rightarrow> tcpd_result \<times> tcpd_world" where
  "tcpd_accept_bind rd sr dc co w =
     (let w = tcpd_base_conn_set_callbacks rd sr dc co w;
          w = lock_buf w;
          w = (if cn_buf (tw_conn w) then upd_bev (\<lambda>b. b\<lparr>bv_read := True\<rparr>) w else w)
      in (RAddress (cn_ip (tw_conn w)) (nat (cn_port (tw_conn w))), w))"

text \<open>
  The methods of the two kinds of objects: an accepted connection has no \<open>shutdown\<close> and no text, a client
  connection no \<open>bind\<close>; calling a method that is missing is an error in Lua.
\<close>

definition tcpd_call_step :: "tcpd_env \<Rightarrow> tcpd_call \<Rightarrow> tcpd_world \<Rightarrow> tcpd_world" where
  "tcpd_call_step te c w =
     (let client = (cn_type (tw_conn w) = TCPD_CONN_TYPE_CLIENT)
      in case c of
           CallSend data \<Rightarrow> snd (if client then tcpd_conn_send data w else tcpd_accept_send data w)
         | CallClose \<Rightarrow> snd (if client then tcpd_conn_close w else tcpd_accept_close w)
         | CallShutdown \<Rightarrow> (if client then snd (tcpd_conn_shutdown te w) else w)
         | CallPauseRead \<Rightarrow> snd (if client then tcpd_conn_read_pause w else tcpd_accept_read_pause w)
         | CallResumeRead \<Rightarrow> snd (if client then tcpd_conn_read_resume w else tcpd_accept_read_resume w)
         | CallGetsockname \<Rightarrow> snd (if client then tcpd_conn_getsockname te w else tcpd_accept_getsockname te w)
         | CallGetpeername \<Rightarrow> snd (if client then tcpd_conn_getpeername te w else tcpd_accept_getpeername te w)
         | CallTostring \<Rightarrow> (if client then snd (tcpd_conn_tostring te w) else w)
         | CallBind rd sr dc co \<Rightarrow> (if client then w else snd (tcpd_accept_bind rd sr dc co w)))"

section \<open>Callbacks\<close>

text \<open>
  Calling a callback: the coroutine is set up with the function in the slot of the reference, the call is recorded
  with its arguments, and the calls that the function makes on the connection follow. Nothing happens without a
  coroutine or when the slot does not hold a function.
\<close>

definition can_call :: "tcpd_env \<Rightarrow> nat option \<Rightarrow> tcpd_world \<Rightarrow> bool" where
  "can_call te r w \<longleftrightarrow>
     cn_mainthread (tw_conn w) \<and> te_co te \<and> (case r of Some n \<Rightarrow> n \<in> set (tw_registry w) | None \<Rightarrow> False)"

definition run_callback :: "tcpd_env \<Rightarrow> tcpd_callback \<Rightarrow> tcpd_world \<Rightarrow> tcpd_world" where
  "run_callback te cb w =
     (let w = w\<lparr>tw_log := tw_log w @ [(tc_callback_self_first (cn_config (tw_conn w)), cb)]\<rparr>
      in case tw_lua w of
           [] \<Rightarrow> w
         | cs # rest \<Rightarrow> fold (tcpd_call_step te) cs (w\<lparr>tw_lua := rest\<rparr>))"

definition BUFLEN :: nat where "BUFLEN = 1024"

text \<open>
  The loop that moves the input into a byte array in pieces of \<open>BUFLEN\<close> bytes, without looking at the results of the
  writes, and the string that is made of the array. None is undefined behaviour.
\<close>

function drain_input :: "allocator \<Rightarrow> bytes \<Rightarrow> BYTEARRAY \<Rightarrow> BYTEARRAY option" where
  "drain_input al input ba =
     (if input = [] then Some ba
      else case bytearray_writebuffer al ba (take BUFLEN input) of
             None \<Rightarrow> None
           | Some (_, ba') \<Rightarrow> drain_input al (drop BUFLEN input) ba')"
  by pat_completeness auto
termination
  by (relation "measure (\<lambda>(al, input, ba). length input)") (auto simp: BUFLEN_def)

declare drain_input.simps [simp del]

definition pushlstring :: "BYTEARRAY \<Rightarrow> bytes option" where
  "pushlstring ba = (if ba_total ba = 0 then Some [] else load_at (ba_buffer ba) 0 (ba_total ba))"

definition read_input :: "allocator \<Rightarrow> nat \<Rightarrow> bytes \<Rightarrow> bytes option" where
  "read_input al size0 input =
     (case drain_input al input (snd (bytearray_alloc al zero_ba (word_of_nat size0))) of
        None \<Rightarrow> None
      | Some ba \<Rightarrow> pushlstring (snd (bytearray_read_ready ba)))"

text \<open>The input is consumed whether or not the callback can be called with it.\<close>

definition deliver_input :: "tcpd_env \<Rightarrow> nat \<Rightarrow> tcpd_world \<Rightarrow> tcpd_world" where
  "deliver_input te size0 w =
     (case read_input (te_al te) size0 (bv_in (tw_bev w)) of
        None \<Rightarrow> w\<lparr>tw_bad_access := True\<rparr>
      | Some data \<Rightarrow>
          let w = upd_bev (\<lambda>b. b\<lparr>bv_in := []\<rparr>) w
          in if can_call te (cn_onRead (tw_conn w)) w then run_callback te (OnRead data) w else w)"

definition tcpd_common_readcb :: "tcpd_env \<Rightarrow> tcpd_world \<Rightarrow> tcpd_world" where
  "tcpd_common_readcb te w =
     (let w = lock_buf w
      in if \<not> cn_buf (tw_conn w) then w
         else if cn_onRead (tw_conn w) = None then w
         else deliver_input te (BUFLEN * 2) w)"

definition tcpd_common_writecb :: "tcpd_env \<Rightarrow> tcpd_world \<Rightarrow> tcpd_world" where
  "tcpd_common_writecb te w =
     (let w = lock_buf w
      in if \<not> cn_buf (tw_conn w) then w
         else if cn_onSendReady (tw_conn w) = None then w
         else let w = upd_bev id w
              in if bv_out (tw_bev w) = [] \<and> can_call te (cn_onSendReady (tw_conn w)) w
                 then run_callback te OnSendReady w else w)"

definition tcpd_analyze_event_error :: "tcpd_env \<Rightarrow> u16 \<Rightarrow> tcpd_error" where
  "tcpd_analyze_event_error te events =
     (if events AND BEV_EVENT_TIMEOUT \<noteq> 0
      then no_error\<lparr>er_type := TCPD_ERROR_TIMEOUT, er_message := strdup (te_al te) (timeout_message events)\<rparr>
      else if events AND BEV_EVENT_ERROR \<noteq> 0
      then if te_dns_error te \<noteq> 0
           then no_error\<lparr>er_type := TCPD_ERROR_DNS_FAILED, er_system_error := te_dns_error te,
                         er_message := strdup (te_al te) (te_gai_strerror te (te_dns_error te))\<rparr>
           else if te_socket_error te \<noteq> 0
           then no_error\<lparr>er_type := TCPD_ERROR_CONNECTION_RESET, er_system_error := te_socket_error te,
                         er_message := strdup (te_al te) (te_strerror te (te_socket_error te))\<rparr>
           else (case te_ssl_error te of
                   Some msg \<Rightarrow>
                     no_error\<lparr>er_type := TCPD_ERROR_SSL_ERROR,
                              er_message := (case msg of Some m \<Rightarrow> Some m | None \<Rightarrow> strdup (te_al te) ''SSL error'')\<rparr>
                 | None \<Rightarrow> no_error\<lparr>er_type := TCPD_ERROR_UNKNOWN, er_message := strdup (te_al te) ''unknown error''\<rparr>)
      else if events AND BEV_EVENT_EOF \<noteq> 0
      then no_error\<lparr>er_type := TCPD_ERROR_EOF, er_message := strdup (te_al te) ''connection closed''\<rparr>
      else no_error\<lparr>er_type := TCPD_ERROR_UNKNOWN, er_message := strdup (te_al te) ''unknown disconnection''\<rparr>)"

text \<open>The remaining input at the end of a stream is delivered before the cleanup.\<close>

definition eof_read :: "tcpd_env \<Rightarrow> u16 \<Rightarrow> tcpd_world \<Rightarrow> tcpd_world" where
  "eof_read te events w =
     (if events AND BEV_EVENT_EOF \<noteq> 0 \<and> cn_buf (tw_conn w) \<and> cn_onRead (tw_conn w) \<noteq> None
      then let w = upd_bev id w; pending = length (bv_in (tw_bev w))
           in if 0 < pending then deliver_input te (pending + BUFLEN) w else w
      else w)"

text \<open>The callback is called with the error, after its reference is cleared.\<close>

definition call_disconnected :: "tcpd_env \<Rightarrow> tcpd_error \<Rightarrow> tcpd_world \<Rightarrow> tcpd_world" where
  "call_disconnected te error w =
     (if can_call te (cn_onDisconnected (tw_conn w)) w
      then run_callback te (OnDisconnected (tcpd_error_to_string error))
             (upd_conn (\<lambda>c. c\<lparr>cn_onDisconnected := None\<rparr>) (clear_ref (cn_onDisconnected (tw_conn w)) w))
      else w)"

text \<open>
  The error is read from the bufferevent of the event; only an error event looks at it. The end of the function is
  reached on every path of the second case.
\<close>

definition tcpd_common_eventcb :: "tcpd_env \<Rightarrow> u16 \<Rightarrow> tcpd_world \<Rightarrow> tcpd_world" where
  "tcpd_common_eventcb te events w =
     (if events AND BEV_EVENT_CONNECTED \<noteq> 0 \<and> cn_type (tw_conn w) = TCPD_CONN_TYPE_CLIENT
      then let w = upd_conn (\<lambda>c. c\<lparr>cn_state := TCPD_CONN_CONNECTED\<rparr>) w
           in if can_call te (cn_onConnected (tw_conn w)) w then run_callback te OnConnected w else w
      else if events AND (BEV_EVENT_ERROR OR BEV_EVENT_EOF OR BEV_EVENT_TIMEOUT) \<noteq> 0
      then let w = eof_read te events w;
               w = upd_conn (\<lambda>c. c\<lparr>cn_state := (if events AND BEV_EVENT_ERROR \<noteq> 0 then TCPD_CONN_ERROR
                                               else TCPD_CONN_DISCONNECTED)\<rparr>) w;
               w = (if events AND BEV_EVENT_TIMEOUT = 0 \<and> events AND BEV_EVENT_ERROR \<noteq> 0 then upd_bev id w else w);
               error = tcpd_analyze_event_error te events;
               w = take_buf w;
               w = call_disconnected te error w
           in tcpd_connection_cleanup_on_disconnect w
      else w)"

definition tcpd_client_conn_gc :: "tcpd_world \<Rightarrow> tcpd_world" where
  "tcpd_client_conn_gc w = tcpd_client_cleanup_on_disconnect w"

definition tcpd_accept_conn_gc :: "tcpd_world \<Rightarrow> tcpd_world" where
  "tcpd_accept_conn_gc w = tcpd_accept_cleanup_on_disconnect w"

section \<open>Connecting\<close>

definition new_bev :: "bool \<Rightarrow> bufferevent" where
  "new_bev reading =
     \<lparr>bv_freed = False, bv_callbacks = False, bv_read = reading, bv_in = [], bv_out = [], bv_shut = False, bv_timeouts = None\<rparr>"

definition new_tcpd_world :: "tcpd_base_conn \<Rightarrow> tcpd_call list list \<Rightarrow> tcpd_world" where
  "new_tcpd_world c lua =
     \<lparr>tw_conn = c, tw_bev = new_bev False, tw_registry = [], tw_next = 0, tw_ssl_refs = 0, tw_sockopts = [], tw_log = [],
      tw_lua = lua, tw_bad_access = False, tw_dead_mutex = False\<rparr>"

text \<open>
  The arguments of \<open>connect\<close>: the configuration, which callbacks are functions, the address, and how the calls to
  OpenSSL and libevent end: the SSL set-up (no cache key, no context, a context that cannot be configured, or a
  context with its bufferevent, which may be NULL), the creation of a plain bufferevent, and the connection.
\<close>

datatype ssl_setup = SslNoKey | SslNoContext | SslBadConfig | SslReady bool

record connect_args =
  ca_table :: tcpd_table
  ca_callbacks :: "bool \<times> bool \<times> bool \<times> bool"
  ca_host :: "string option"
  ca_port :: "int option"
  ca_unix_path :: "string option"
  ca_ssl :: ssl_setup
  ca_bev :: bool
  ca_connect_rc :: int
  ca_script :: "tcpd_call list list"

definition apply_config :: "tcpd_env \<Rightarrow> tcpd_world \<Rightarrow> tcpd_world" where
  "apply_config te w =
     (let config = cn_config (tw_conn w);
          calls = snd (fst (tcpd_config_apply_buffers (te_sockopt te) config (te_fd te) (tw_sockopts w)));
          calls = snd (tcpd_config_apply_keepalive (te_sockopt te) config calls)
      in w\<lparr>tw_sockopts := calls\<rparr>)"

definition tcpd_connect :: "tcpd_env \<Rightarrow> connect_args \<Rightarrow> tcpd_world" where
  "tcpd_connect te a =
     (let w = new_tcpd_world (tcpd_base_conn_init TCPD_CONN_TYPE_CLIENT) (ca_script a);
          w = upd_conn (\<lambda>c. c\<lparr>cn_config := tcpd_config_from_lua_table (ca_table a) (cn_config c)\<rparr>) w;
          (rd, sr, dc, co) = ca_callbacks a;
          w = tcpd_base_conn_set_callbacks rd sr dc co w;
          w = upd_conn (\<lambda>c. c\<lparr>cn_host := ca_host a, cn_port := opt_int (ca_port a) 0, cn_unix_path := ca_unix_path a\<rparr>) w;
          w = (if tc_ssl_enabled (cn_config (tw_conn w))
               then case ca_ssl a of
                      SslNoKey \<Rightarrow> w
                    | SslNoContext \<Rightarrow> w
                    | SslBadConfig \<Rightarrow> upd_conn (\<lambda>c. c\<lparr>cn_ssl_ctx := True\<rparr>) (w\<lparr>tw_ssl_refs := 1\<rparr>)
                    | SslReady b \<Rightarrow> upd_conn (\<lambda>c. c\<lparr>cn_ssl_ctx := True, cn_buf := b\<rparr>) (w\<lparr>tw_ssl_refs := 1\<rparr>)
               else upd_conn (\<lambda>c. c\<lparr>cn_buf := ca_bev a\<rparr>) w)
      in if \<not> cn_buf (tw_conn w) then w
         else if ca_connect_rc a < 0
         then upd_conn (\<lambda>c. c\<lparr>cn_buf := False\<rparr>) (tcpd_shutdown_bufferevent w)
         else
           let w = apply_config te w;
               w = w\<lparr>tw_sockopts := snd (tcpd_config_apply_interface (cn_config (tw_conn w)) (te_fd te) (tw_sockopts w))\<rparr>;
               w = upd_conn (\<lambda>c. c\<lparr>cn_state := TCPD_CONN_CONNECTING\<rparr>) w
           in upd_bev (\<lambda>b. b\<lparr>bv_callbacks := True, bv_read := True\<rparr>) w)"

section \<open>Accepted connections\<close>

text \<open>
  The connection object that the listener makes of an accepted socket: with the configuration of the server, the
  address of the peer, and, when worker threads are used, without reading until \<open>bind\<close> has set the callbacks.
\<close>

definition tcpd_accept_new ::
  "tcpd_env \<Rightarrow> tcpd_config \<Rightarrow> bool \<Rightarrow> string \<Rightarrow> int \<Rightarrow> tcpd_call list list \<Rightarrow> tcpd_world" where
  "tcpd_accept_new te config use_worker ip port lua =
     (let w = new_tcpd_world ((tcpd_base_conn_init TCPD_CONN_TYPE_ACCEPT)\<lparr>cn_config := config\<rparr>) lua;
          w = upd_conn (\<lambda>c. c\<lparr>cn_buf := True, cn_state := TCPD_CONN_CONNECTED\<rparr>) w;
          w = upd_bev (\<lambda>b. b\<lparr>bv_callbacks := True, bv_read := \<not> use_worker\<rparr>) w;
          w = apply_config te w
      in upd_conn (\<lambda>c. c\<lparr>cn_ip := ip, cn_port := port\<rparr>) w)"

section \<open>The event loop\<close>

text \<open>
  What happens to a connection: Lua code calls a method, bytes arrive, \<open>n\<close> bytes of the output are written, the
  bufferevent reports an event, or the object is collected. libevent calls the callbacks only while they are
  installed; it reads only while reading is enabled, and calls the write callback when the output is empty.
\<close>

datatype tcpd_event =
    TcCall tcpd_call
  | TcData bytes
  | TcDrain nat
  | TcEvent u16
  | TcGc

definition tcpd_step :: "tcpd_env \<Rightarrow> tcpd_event \<Rightarrow> tcpd_world \<Rightarrow> tcpd_world" where
  "tcpd_step te e w =
     (let live = bv_callbacks (tw_bev w) \<and> \<not> bv_freed (tw_bev w)
      in case e of
           TcCall c \<Rightarrow> tcpd_call_step te c w
         | TcData bs \<Rightarrow>
             if live \<and> bv_read (tw_bev w)
             then tcpd_common_readcb te (upd_bev (\<lambda>b. b\<lparr>bv_in := bv_in b @ bs\<rparr>) w) else w
         | TcDrain n \<Rightarrow>
             if live
             then let w = upd_bev (\<lambda>b. b\<lparr>bv_out := drop n (bv_out b)\<rparr>) w
                  in if bv_out (tw_bev w) = [] then tcpd_common_writecb te w else w
             else w
         | TcEvent events \<Rightarrow> if live then tcpd_common_eventcb te events w else w
         | TcGc \<Rightarrow> (if cn_type (tw_conn w) = TCPD_CONN_TYPE_CLIENT then tcpd_client_conn_gc w else tcpd_accept_conn_gc w))"

end
