(* ===== verification/Tcpd_Safety.thy ===== *)
theory Tcpd_Safety
  imports Tcpd
begin

text \<open>
  What holds of every TCP connection: the pieces of the input reach the callback unchanged, the bufferevent, the
  registry slots and the SSL context are released exactly once, nothing is called after the cleanup, and the
  disconnection is the last thing that is reported.
\<close>

section \<open>Reading\<close>

text \<open>A byte array that can be written to, or the empty one whose allocation failed.\<close>

definition ba_ready :: "BYTEARRAY \<Rightarrow> bool" where
  "ba_ready ba \<longleftrightarrow> (ba_wf ba \<or> ba = zero_ba) \<and> \<not> ba_reading ba \<and> \<not> ba_wrapbuffer ba"

lemma alloc_ready: "ba_ready (snd (bytearray_alloc al zero_ba n))"
proof -
  have "ba_wf (snd (bytearray_alloc al zero_ba n))" if "malloc al (if n = 0 then MIN_CAPACITY else unat n) \<noteq> None"
  proof -
    have "unat n < 2 ^ 63" using unsigned_less [of n, where ?'a = nat] by simp
    with that show ?thesis
      by (auto simp: bytearray_alloc_def Let_def ba_wf_def MIN_CAPACITY_def dest: malloc_length)
  qed
  then show ?thesis by (auto simp: ba_ready_def bytearray_alloc_def Let_def zero_ba_def split: option.splits)
qed

lemma write_zero_ba:
  assumes "0 < length bs" and "length bs \<le> 1024"
  shows "write_value_optimized al zero_ba bs =
    (if can_alloc al (new_capacity (length bs))
     then put_at_offset (zero_ba\<lparr>ba_buffer := Some (map (junk al) [0..<new_capacity (length bs)]),
       ba_buflen := new_capacity (length bs), ba_total := new_capacity (length bs)\<rparr>) bs
     else Some (False, zero_ba))"
  using assms by (simp add: write_value_optimized_def ensure_capacity_optimized_def zero_ba_def Let_def realloc_def)

lemma write_ready_ba:
  assumes r: "ba_ready ba" and bs: "0 < length bs" "length bs \<le> 1024" and bound: "ba_offset ba + length bs \<le> 2 ^ 62"
  shows "\<exists>ok ba'. bytearray_writebuffer al ba bs = Some (ok, ba') \<and> ba_ready ba' \<and> ba_offset ba' \<le> ba_offset ba + length bs
    \<and> written ba' = written ba @ (if ok then bs else []) \<and> (roomy al \<longrightarrow> ok)"
proof (cases "ba_wf ba")
  case True
  have "can_grow al ba (length bs)" if "roomy al" using that r by (simp add: can_grow_def roomy_def ba_ready_def)
  with write_value_writes [OF True bound, of al] r True show ?thesis
    by (cases "can_grow al ba (length bs)")
      (auto simp: writes_def appended_def ba_ready_def bytearray_writebuffer_optimized_def)
next
  case False
  then have z: "ba = zero_ba" using r by (simp add: ba_ready_def)
  let ?n = "new_capacity (length bs)"
  let ?ba = "zero_ba\<lparr>ba_buffer := Some (map (junk al) [0..<?n]), ba_buflen := ?n, ba_total := ?n\<rparr>"
  have n: "length bs \<le> ?n" "?n < 2 ^ 63" using new_capacity_ge [of "length bs"] bs by auto
  then have "ba_wf ?ba" "length bs \<le> ba_total ?ba - ba_offset ?ba" by (simp_all add: ba_wf_def zero_ba_def)
  then obtain ba' where "put_at_offset ?ba bs = Some (True, ba')" "ba_wf ba'" "written ba' = written ?ba @ bs"
      "ba_reading ba' = ba_reading ?ba" "ba_wrapbuffer ba' = ba_wrapbuffer ?ba" "ba_offset ba' = ba_offset ?ba + length bs"
    by (rule put_at_offset_append)
  moreover have "written ?ba = []" "written zero_ba = []" by (simp_all add: written_def zero_ba_def)
  ultimately show ?thesis
    using r write_zero_ba [OF bs, of al]
    by (auto simp: z bytearray_writebuffer_optimized_def ba_ready_def roomy_def zero_ba_def)
qed

lemma drain_reads:
  "ba_ready ba \<Longrightarrow> ba_offset ba + length input \<le> 2 ^ 62 \<Longrightarrow>
     \<exists>ba'. drain_input al input ba = Some ba' \<and> ba_ready ba' \<and> (roomy al \<longrightarrow> written ba' = written ba @ input)"
proof (induction al input ba rule: drain_input.induct)
  case (1 al input ba)
  show ?case
  proof (cases "input = []")
    case True
    with 1 show ?thesis by (simp add: drain_input.simps)
  next
    case False
    let ?bs = "take BUFLEN input"
    have "0 < length ?bs" "length ?bs \<le> 1024" "ba_offset ba + length ?bs \<le> 2 ^ 62"
      using False 1(3) by (simp_all add: BUFLEN_def)
    from write_ready_ba [OF 1(2) this, of al] obtain ok ba1 where w: "bytearray_writebuffer al ba ?bs = Some (ok, ba1)"
        "ba_ready ba1" "ba_offset ba1 \<le> ba_offset ba + length ?bs" "written ba1 = written ba @ (if ok then ?bs else [])"
        "roomy al \<longrightarrow> ok"
      by blast
    have b: "ba_offset ba1 + length (drop BUFLEN input) \<le> 2 ^ 62" using w(3) 1(3) by simp
    show ?thesis
      using 1(1) [OF False w(1) refl w(2) b] w False by (subst drain_input.simps) auto
  qed
qed

lemma pushlstring_ready:
  assumes "ba_ready ba"
  shows "pushlstring (snd (bytearray_read_ready ba)) = Some (written ba)"
proof (cases "ba_wf ba")
  case True
  have "\<not> ba_reading ba" using assms by (simp add: ba_ready_def)
  with True show ?thesis
    by (elim ba_wfE) (auto simp: bytearray_read_ready_def pushlstring_def written_def mem_simps)
next
  case False
  with assms show ?thesis by (auto simp: ba_ready_def bytearray_read_ready_def pushlstring_def written_def zero_ba_def)
qed

lemma read_input_defined:
  assumes "length input \<le> 2 ^ 62"
  shows "\<exists>data. read_input al n input = Some data \<and> (roomy al \<longrightarrow> data = input)"
proof -
  let ?ba = "snd (bytearray_alloc al zero_ba (word_of_nat n))"
  have o: "ba_offset ?ba = 0" "written ?ba = []"
    by (simp_all add: bytearray_alloc_def Let_def zero_ba_def written_def split: option.splits)
  with drain_reads [OF alloc_ready, of al "word_of_nat n" input al] assms obtain ba where "drain_input al input ?ba = Some ba"
      "ba_ready ba" "roomy al \<longrightarrow> written ba = input"
    by auto
  then show ?thesis by (simp add: read_input_def pushlstring_ready)
qed

section \<open>Invariant\<close>

text \<open>The registry slots a connection refers to.\<close>

definition held :: "tcpd_base_conn \<Rightarrow> nat list" where
  "held c = List.map_filter id [cn_onRead c, cn_onSendReady c, cn_onDisconnected c, cn_onConnected c]"

definition refs_ok :: "tcpd_world \<Rightarrow> bool" where
  "refs_ok w \<longleftrightarrow>
     distinct (held (tw_conn w)) \<and> distinct (tw_registry w) \<and> set (held (tw_conn w)) \<subseteq> set (tw_registry w)
     \<and> (\<forall>n \<in> set (tw_registry w). n < tw_next w)
     \<and> (cn_type (tw_conn w) = TCPD_CONN_TYPE_CLIENT \<longrightarrow> set (tw_registry w) \<subseteq> set (held (tw_conn w)))
     \<and> (cn_type (tw_conn w) = TCPD_CONN_TYPE_CLIENT \<and> cn_cleaned_up (tw_conn w) \<longrightarrow> held (tw_conn w) = [])"

fun is_disconnected :: "bool \<times> tcpd_callback \<Rightarrow> bool" where
  "is_disconnected (_, OnDisconnected _) \<longleftrightarrow> True"
| "is_disconnected _ \<longleftrightarrow> False"

definition conn_ok :: "tcpd_world \<Rightarrow> bool" where
  "conn_ok w \<longleftrightarrow>
     (cn_buf (tw_conn w) \<longrightarrow> \<not> bv_freed (tw_bev w))
     \<and> (bv_callbacks (tw_bev w) \<longrightarrow> cn_buf (tw_conn w))
     \<and> (cn_cleaned_up (tw_conn w) \<longrightarrow> \<not> cn_buf (tw_conn w) \<and> \<not> cn_ssl_ctx (tw_conn w))
     \<and> (cn_mutex (tw_conn w) \<longleftrightarrow> \<not> cn_cleaned_up (tw_conn w))
     \<and> (cn_mainthread (tw_conn w) \<longleftrightarrow> \<not> cn_cleaned_up (tw_conn w))
     \<and> tw_ssl_refs w = (if cn_ssl_ctx (tw_conn w) then 1 else 0)
     \<and> length (bv_in (tw_bev w)) \<le> 2 ^ 62
     \<and> \<not> tw_bad_access w"

definition log_ok :: "tcpd_world \<Rightarrow> bool" where
  "log_ok w \<longleftrightarrow>
     \<not> list_ex is_disconnected (butlast (tw_log w))
     \<and> (tw_log w \<noteq> [] \<and> is_disconnected (last (tw_log w)) \<longrightarrow> cn_cleaned_up (tw_conn w))"

text \<open>How an operation changes a connection that is well-formed.\<close>

definition tc_keeps :: "tcpd_world \<Rightarrow> tcpd_world \<Rightarrow> bool" where
  "tc_keeps w w' \<longleftrightarrow>
     conn_ok w' \<and> refs_ok w' \<and> cn_type (tw_conn w') = cn_type (tw_conn w)
     \<and> (cn_cleaned_up (tw_conn w) \<longrightarrow> cn_cleaned_up (tw_conn w'))
     \<and> (\<not> cn_buf (tw_conn w) \<longrightarrow> \<not> cn_buf (tw_conn w'))
     \<and> tw_log w' = tw_log w"

lemma tc_keeps_refl: "conn_ok w \<Longrightarrow> refs_ok w \<Longrightarrow> tc_keeps w w"
  by (simp add: tc_keeps_def)

lemma tc_keeps_trans: "tc_keeps w w1 \<Longrightarrow> tc_keeps w1 w2 \<Longrightarrow> tc_keeps w w2"
  by (auto simp: tc_keeps_def)

lemma tc_keepsD: "tc_keeps w w' \<Longrightarrow> conn_ok w'" "tc_keeps w w' \<Longrightarrow> refs_ok w'"
  by (simp_all add: tc_keeps_def)

lemmas tc_defs = upd_conn_def upd_bev_def lock_buf_def

lemma held_simps [simp]:
  "held (c\<lparr>cn_buf := b\<rparr>) = held c" "held (c\<lparr>cn_state := st\<rparr>) = held c" "held (c\<lparr>cn_cleaned_up := b\<rparr>) = held c"
  "held (c\<lparr>cn_ssl_ctx := b\<rparr>) = held c" "held (c\<lparr>cn_host := h, cn_unix_path := u\<rparr>) = held c" "held (c\<lparr>cn_ip := i\<rparr>) = held c"
  "held (c\<lparr>cn_state := st, cn_mainthread := m, cn_mutex := x\<rparr>) = held c"
  by (simp_all add: held_def)

lemma lock_keeps: "conn_ok w \<Longrightarrow> refs_ok w \<Longrightarrow> tc_keeps w (lock_buf w)"
  by (auto simp: tc_keeps_def tc_defs conn_ok_def refs_ok_def)

lemma bev_keeps:
  assumes "conn_ok w" and "refs_ok w" and "cn_buf (tw_conn w)"
    and "\<And>b. bv_freed (f b) = bv_freed b" and "\<And>b. bv_callbacks (f b) = bv_callbacks b"
    and "\<And>b. length (bv_in (f b)) \<le> length (bv_in b)"
  shows "tc_keeps w (upd_bev f w)"
  using assms(1-5) order_trans [OF assms(6) [of "tw_bev w"], of "2 ^ 62"]
  by (auto simp: tc_keeps_def tc_defs conn_ok_def refs_ok_def)

lemma shutdown_keeps:
  assumes "conn_ok w" and "refs_ok w" and "cn_buf (tw_conn w)"
  shows "tc_keeps w (tcpd_shutdown_bufferevent (upd_conn (\<lambda>c. c\<lparr>cn_buf := False\<rparr>) w))"
  using assms by (auto simp: tc_keeps_def tcpd_shutdown_bufferevent_def tc_defs conn_ok_def refs_ok_def)

lemma take_buf_keeps:
  assumes "conn_ok w" and "refs_ok w"
  shows "tc_keeps w (take_buf w)" and "\<not> cn_buf (tw_conn (take_buf w))"
  using assms
  by (auto simp: take_buf_def Let_def tc_keeps_def tcpd_shutdown_bufferevent_def tc_defs conn_ok_def refs_ok_def)

lemma clear_ref_frame [simp]:
  "tw_conn (clear_ref r w) = tw_conn w" "tw_bev (clear_ref r w) = tw_bev w" "tw_log (clear_ref r w) = tw_log w"
  "tw_ssl_refs (clear_ref r w) = tw_ssl_refs w" "tw_bad_access (clear_ref r w) = tw_bad_access w"
  "tw_lua (clear_ref r w) = tw_lua w"
  by (simp_all add: clear_ref_def split: option.splits)

lemma clear_refs_held: "held (tw_conn (clear_refs w)) = []"
  by (simp add: clear_refs_def Let_def tc_defs held_def map_filter_def)

lemma map_filter_id: "List.map_filter id xs = map the (filter (\<lambda>x. x \<noteq> None) xs)"
  by (induction xs) (auto simp: map_filter_def)

lemma refs_ok_clear:
  assumes "refs_ok w"
  shows "refs_ok (upd_conn (\<lambda>c. c\<lparr>cn_onRead := None\<rparr>) (clear_ref (cn_onRead (tw_conn w)) w))"
    and "refs_ok (upd_conn (\<lambda>c. c\<lparr>cn_onSendReady := None\<rparr>) (clear_ref (cn_onSendReady (tw_conn w)) w))"
    and "refs_ok (upd_conn (\<lambda>c. c\<lparr>cn_onDisconnected := None\<rparr>) (clear_ref (cn_onDisconnected (tw_conn w)) w))"
    and "refs_ok (upd_conn (\<lambda>c. c\<lparr>cn_onConnected := None\<rparr>) (clear_ref (cn_onConnected (tw_conn w)) w))"
  using assms
  by (auto simp: refs_ok_def held_def map_filter_id clear_ref_def upd_conn_def split: option.splits if_splits)

lemma clear_refs_keeps:
  assumes "conn_ok w" and "refs_ok w"
  shows "tc_keeps w (clear_refs w)"
proof -
  have "refs_ok (clear_refs w)" unfolding clear_refs_def Let_def by (intro refs_ok_clear assms(2))
  moreover have "conn_ok (clear_refs w)" using assms(1) by (simp add: conn_ok_def clear_refs_def Let_def upd_conn_def)
  ultimately show ?thesis using assms(1) by (simp add: tc_keeps_def clear_refs_def Let_def upd_conn_def)
qed

lemma release_keeps: "conn_ok w \<Longrightarrow> refs_ok w \<Longrightarrow> tc_keeps w (release_ssl w)"
  by (auto simp: release_ssl_def tc_keeps_def conn_ok_def refs_ok_def upd_conn_def)

lemma release_ssl_ctx [simp]: "\<not> cn_ssl_ctx (tw_conn (release_ssl w))"
  by (simp add: release_ssl_def upd_conn_def)

text \<open>
  The cleanup starts with the flag set and the rest of the connection still alive. Since none of its steps looks at
  the flag, it is the same as a cleanup that sets the flag last, all of whose steps keep the invariant.
\<close>

definition mark_cleaned :: "tcpd_world \<Rightarrow> tcpd_world" where
  "mark_cleaned w = upd_conn (\<lambda>c. c\<lparr>cn_cleaned_up := True\<rparr>) w"

lemma mark_frame [simp]:
  "tw_bev (mark_cleaned w) = tw_bev w" "tw_registry (mark_cleaned w) = tw_registry w" "tw_log (mark_cleaned w) = tw_log w"
  by (simp_all add: mark_cleaned_def upd_conn_def)

lemma mark_clear_ref: "clear_ref r (mark_cleaned w) = mark_cleaned (clear_ref r w)"
  by (simp add: clear_ref_def mark_cleaned_def upd_conn_def split: option.splits)

lemma mark_take_buf: "take_buf (mark_cleaned w) = mark_cleaned (take_buf w)"
  by (simp add: take_buf_def mark_cleaned_def tcpd_shutdown_bufferevent_def tc_defs Let_def)

lemma mark_release: "release_ssl (mark_cleaned w) = mark_cleaned (release_ssl w)"
  by (simp add: release_ssl_def mark_cleaned_def upd_conn_def)

lemma mark_upd_conn:
  "(\<And>c. f (c\<lparr>cn_cleaned_up := True\<rparr>) = (f c)\<lparr>cn_cleaned_up := True\<rparr>) \<Longrightarrow> upd_conn f (mark_cleaned w) = mark_cleaned (upd_conn f w)"
  by (simp add: mark_cleaned_def upd_conn_def)

lemma mark_fields [simp]:
  "cn_onRead (tw_conn (mark_cleaned w)) = cn_onRead (tw_conn w)"
  "cn_onSendReady (tw_conn (mark_cleaned w)) = cn_onSendReady (tw_conn w)"
  "cn_onDisconnected (tw_conn (mark_cleaned w)) = cn_onDisconnected (tw_conn w)"
  "cn_onConnected (tw_conn (mark_cleaned w)) = cn_onConnected (tw_conn w)"
  "cn_mainthread (tw_conn (mark_cleaned w)) = cn_mainthread (tw_conn w)"
  by (simp_all add: mark_cleaned_def upd_conn_def)

lemma mark_clear_refs: "clear_refs (mark_cleaned w) = mark_cleaned (clear_refs w)"
  by (simp add: clear_refs_def Let_def mark_clear_ref mark_upd_conn)

lemma mark_cleanup: "tcpd_base_conn_cleanup (mark_cleaned w) = mark_cleaned (tcpd_base_conn_cleanup w)"
  by (simp add: tcpd_base_conn_cleanup_def Let_def mark_take_buf mark_clear_refs mark_release mark_upd_conn)

text \<open>A connection that holds nothing any more.\<close>

definition clean :: "tcpd_world \<Rightarrow> bool" where
  "clean w \<longleftrightarrow>
     cn_cleaned_up (tw_conn w) \<and> \<not> cn_buf (tw_conn w) \<and> held (tw_conn w) = [] \<and> tw_ssl_refs w = 0
     \<and> (cn_type (tw_conn w) = TCPD_CONN_TYPE_CLIENT \<longrightarrow> tw_registry w = [])"

lemma cleanup_keeps:
  assumes w: "conn_ok w" "refs_ok w" and fresh: "\<not> cn_cleaned_up (tw_conn w)"
  shows "tc_keeps w (mark_cleaned (tcpd_base_conn_cleanup w))" and "clean (mark_cleaned (tcpd_base_conn_cleanup w))"
proof -
  let ?w1 = "take_buf w" and ?w2 = "clear_refs (take_buf w)"
  let ?w3 = "upd_conn (\<lambda>c. c\<lparr>cn_host := None, cn_unix_path := None\<rparr>) ?w2"
  let ?w4 = "release_ssl ?w3"
  note k1 = take_buf_keeps [OF w]
  note k2 = clear_refs_keeps [OF tc_keepsD [OF k1(1)]]
  have k3: "tc_keeps ?w2 ?w3" using tc_keepsD [OF k2] by (auto simp: tc_keeps_def conn_ok_def refs_ok_def upd_conn_def)
  note k4 = release_keeps [OF tc_keepsD [OF k3]]
  have k: "tc_keeps w ?w4" by (rule tc_keeps_trans [OF k1(1) tc_keeps_trans [OF k2 tc_keeps_trans [OF k3 k4]]])
  have m: "cn_mainthread (tw_conn ?w1)"
    using w(1) fresh by (simp add: conn_ok_def take_buf_def Let_def tc_defs tcpd_shutdown_bufferevent_def)
  have f: "\<not> cn_buf (tw_conn ?w4)" "held (tw_conn ?w4) = []"
    using k1(2) k2 k3 k4 clear_refs_held [of ?w1] by (auto simp: tc_keeps_def release_ssl_def upd_conn_def)
  have eq: "mark_cleaned (tcpd_base_conn_cleanup w) = upd_conn (\<lambda>c. c\<lparr>cn_state := TCPD_CONN_DISCONNECTED,
      cn_mainthread := False, cn_mutex := False, cn_cleaned_up := True\<rparr>) ?w4"
    using m by (simp add: tcpd_base_conn_cleanup_def Let_def mark_cleaned_def upd_conn_def)
  have h: "held (c\<lparr>cn_state := st, cn_mainthread := b, cn_mutex := b', cn_cleaned_up := b''\<rparr>) = held c" for c st b b' b''
    by (simp add: held_def)
  show "tc_keeps w (mark_cleaned (tcpd_base_conn_cleanup w))"
    using k f fresh unfolding eq by (auto simp: tc_keeps_def conn_ok_def refs_ok_def upd_conn_def h)
  show "clean (mark_cleaned (tcpd_base_conn_cleanup w))"
    using k f release_ssl_ctx [of ?w3] unfolding eq by (auto simp: clean_def tc_keeps_def conn_ok_def refs_ok_def upd_conn_def h)
qed

lemma client_cleanup_keeps:
  assumes w: "conn_ok w" "refs_ok w"
  shows "tc_keeps w (tcpd_client_cleanup_on_disconnect w)"
    and "\<not> cn_cleaned_up (tw_conn w) \<Longrightarrow> clean (tcpd_client_cleanup_on_disconnect w)"
proof -
  note k = release_keeps [OF w]
  have "tcpd_client_cleanup_on_disconnect w = mark_cleaned (tcpd_base_conn_cleanup (release_ssl w))"
    if "\<not> cn_cleaned_up (tw_conn w)"
    using that mark_cleanup [of "release_ssl w"] mark_release [of w]
    by (simp add: tcpd_client_cleanup_on_disconnect_def mark_cleaned_def)
  moreover have "\<not> cn_cleaned_up (tw_conn (release_ssl w))" if "\<not> cn_cleaned_up (tw_conn w)"
    using that by (simp add: release_ssl_def upd_conn_def)
  ultimately show "\<not> cn_cleaned_up (tw_conn w) \<Longrightarrow> clean (tcpd_client_cleanup_on_disconnect w)"
    and "tc_keeps w (tcpd_client_cleanup_on_disconnect w)"
    using cleanup_keeps [OF tc_keepsD [OF k]] tc_keeps_trans [OF k] tc_keeps_refl [OF w]
    by (auto simp: tcpd_client_cleanup_on_disconnect_def [of w])
qed

lemma accept_cleanup_keeps:
  assumes w: "conn_ok w" "refs_ok w"
  shows "tc_keeps w (tcpd_accept_cleanup_on_disconnect w)"
    and "\<not> cn_cleaned_up (tw_conn w) \<Longrightarrow> clean (tcpd_accept_cleanup_on_disconnect w)"
  using cleanup_keeps [OF w] tc_keeps_refl [OF w] mark_cleanup [of w]
  by (auto simp: tcpd_accept_cleanup_on_disconnect_def mark_cleaned_def)

lemma disconnect_cleanup_keeps:
  assumes w: "conn_ok w" "refs_ok w"
  shows "tc_keeps w (tcpd_connection_cleanup_on_disconnect w)"
    and "\<not> cn_cleaned_up (tw_conn w) \<Longrightarrow> clean (tcpd_connection_cleanup_on_disconnect w)"
  using client_cleanup_keeps [OF w] accept_cleanup_keeps [OF w]
  by (auto simp: tcpd_connection_cleanup_on_disconnect_def tcpd_accept_cleanup_on_disconnect_def split: tcpd_conn_type.splits)

section \<open>Methods\<close>

lemma timeouts_frame [simp]:
  "bv_freed (apply_timeouts c b) = bv_freed b" "bv_callbacks (apply_timeouts c b) = bv_callbacks b" "bv_in (apply_timeouts c b) = bv_in b"
  by (simp_all add: apply_timeouts_def split: option.splits)

text \<open>The methods that lock the mutex and touch the bufferevent only when there is one.\<close>

lemma locked_keeps:
  assumes w: "conn_ok w" "refs_ok w"
    and "\<And>b. bv_freed (f b) = bv_freed b" and "\<And>b. bv_callbacks (f b) = bv_callbacks b"
    and "\<And>b. length (bv_in (f b)) \<le> length (bv_in b)"
  shows "tc_keeps w (if cn_buf (tw_conn w) then upd_bev f (lock_buf w) else lock_buf w)"
proof -
  note k = lock_keeps [OF w]
  have "cn_buf (tw_conn (lock_buf w)) = cn_buf (tw_conn w)" by (simp add: lock_buf_def)
  with k bev_keeps [OF tc_keepsD [OF k], of f] assms(3-5) show ?thesis by (auto intro: tc_keeps_trans)
qed

lemma lock_buf_conn [simp]: "tw_conn (lock_buf w) = tw_conn w" "tw_bev (lock_buf w) = tw_bev w" "tw_log (lock_buf w) = tw_log w"
  by (simp_all add: lock_buf_def)

lemma send_keeps:
  assumes w: "conn_ok w" "refs_ok w"
  shows "tc_keeps w (snd (tcpd_conn_send data w))" and "tc_keeps w (snd (tcpd_accept_send data w))"
  using locked_keeps [OF w, of "\<lambda>b. (apply_timeouts (cn_config (tw_conn w)) b)\<lparr>bv_out := bv_out b @ data\<rparr>"] tc_keeps_refl [OF w]
  by (auto simp: tcpd_conn_send_def tcpd_accept_send_def Let_def)

lemma shutdown_method_keeps:
  assumes w: "conn_ok w" "refs_ok w"
  shows "tc_keeps w (snd (tcpd_conn_shutdown te w))"
  using locked_keeps [OF w, of "\<lambda>b. b\<lparr>bv_shut := True\<rparr>"] locked_keeps [OF w, of id]
  by (auto simp: tcpd_conn_shutdown_def Let_def)

lemma pause_keeps:
  assumes w: "conn_ok w" "refs_ok w"
  shows "tc_keeps w (snd (read_pause w))" and "tc_keeps w (snd (read_resume w))" and "tc_keeps w (snd (get_address te n w))"
  using locked_keeps [OF w, of "\<lambda>b. b\<lparr>bv_read := False\<rparr>"] locked_keeps [OF w, of "\<lambda>b. b\<lparr>bv_read := True\<rparr>"]
    locked_keeps [OF w, of id]
  by (auto simp: read_pause_def read_resume_def get_address_def Let_def)

lemma tostring_keeps:
  assumes w: "conn_ok w" "refs_ok w"
  shows "tc_keeps w (snd (tcpd_conn_tostring te w))"
proof -
  let ?w = "if cn_buf (tw_conn w) then upd_bev id (lock_buf w) else lock_buf w"
  have k: "tc_keeps w ?w" using locked_keeps [OF w, of id] by simp
  have ip: "tc_keeps v (upd_conn (\<lambda>c. c\<lparr>cn_ip := i\<rparr>) v)" if "conn_ok v" "refs_ok v" for v i
    using that by (auto simp: tc_keeps_def conn_ok_def refs_ok_def upd_conn_def)
  have "snd (tcpd_conn_tostring te w) = ?w \<or> (\<exists>i. snd (tcpd_conn_tostring te w) = upd_conn (\<lambda>c. c\<lparr>cn_ip := i\<rparr>) ?w)"
    by (auto simp: tcpd_conn_tostring_def tcpd_format_connection_info_def Let_def split: prod.splits option.splits sock_name.splits if_splits)
  with k ip [OF tc_keepsD [OF k]] tc_keeps_trans [OF k] show ?thesis by auto
qed

lemma set_callbacks_keeps:
  assumes w: "conn_ok w" "refs_ok w" and ty: "cn_type (tw_conn w) \<noteq> TCPD_CONN_TYPE_CLIENT"
  shows "tc_keeps w (tcpd_base_conn_set_callbacks rd sr dc co w)"
proof -
  have "conn_ok (tcpd_base_conn_set_callbacks rd sr dc co w)"
    using w(1) by (auto simp: tcpd_base_conn_set_callbacks_def set_func_ref_def conn_ok_def upd_conn_def Let_def)
  moreover have "refs_ok (tcpd_base_conn_set_callbacks rd sr dc co w)"
    using w(2) ty by (cases rd; cases sr; cases dc; cases co)
      (auto simp: tcpd_base_conn_set_callbacks_def set_func_ref_def refs_ok_def held_def map_filter_id upd_conn_def)
  ultimately show ?thesis
    by (auto simp: tc_keeps_def tcpd_base_conn_set_callbacks_def set_func_ref_def upd_conn_def Let_def)
qed

lemma accept_bind_keeps:
  assumes w: "conn_ok w" "refs_ok w" and ty: "cn_type (tw_conn w) \<noteq> TCPD_CONN_TYPE_CLIENT"
  shows "tc_keeps w (snd (tcpd_accept_bind rd sr dc co w))"
proof -
  note k = set_callbacks_keeps [OF w ty, of rd sr dc co]
  show ?thesis
    using tc_keeps_trans [OF k locked_keeps [OF tc_keepsD [OF k], of "\<lambda>b. b\<lparr>bv_read := True\<rparr>"]]
    by (simp add: tcpd_accept_bind_def Let_def if_distrib [of snd] cong: if_cong)
qed

lemma call_keeps:
  assumes w: "conn_ok w" "refs_ok w"
  shows "tc_keeps w (tcpd_call_step te c w)"
  using send_keeps [OF w] client_cleanup_keeps(1) [OF w] accept_cleanup_keeps(1) [OF w] shutdown_method_keeps [OF w]
    pause_keeps [OF w] tostring_keeps [OF w] accept_bind_keeps [OF w] tc_keeps_refl [OF w]
  by (cases c) (simp_all add: tcpd_call_step_def Let_def tcpd_conn_close_def tcpd_accept_close_def)

lemma calls_keep: "conn_ok w \<Longrightarrow> refs_ok w \<Longrightarrow> tc_keeps w (fold (tcpd_call_step te) cs w)"
proof (induction cs arbitrary: w)
  case (Cons c cs)
  note k = call_keeps [OF Cons.prems, of te c]
  show ?case using tc_keeps_trans [OF k Cons.IH [OF tc_keepsD [OF k]]] by simp
qed (simp add: tc_keeps_refl)

section \<open>Callbacks\<close>

text \<open>An operation that calls callbacks: it keeps the invariant and adds to the log.\<close>

definition tc_logs :: "tcpd_world \<Rightarrow> (bool \<times> tcpd_callback) list \<Rightarrow> tcpd_world \<Rightarrow> bool" where
  "tc_logs w l w' \<longleftrightarrow> tc_keeps (w\<lparr>tw_log := tw_log w @ l\<rparr>) w'"

lemma tc_logs_Nil: "tc_logs w [] w' \<longleftrightarrow> tc_keeps w w'"
  by (simp add: tc_logs_def)

lemma tc_logs_trans: "tc_logs w l w1 \<Longrightarrow> tc_logs w1 l' w2 \<Longrightarrow> tc_logs w (l @ l') w2"
  by (auto simp: tc_logs_def tc_keeps_def)

lemma tc_logsD: "tc_logs w l w' \<Longrightarrow> conn_ok w'" "tc_logs w l w' \<Longrightarrow> refs_ok w'" "tc_logs w l w' \<Longrightarrow> tw_log w' = tw_log w @ l"
  by (simp_all add: tc_logs_def tc_keeps_def)

lemma run_callback_logs:
  assumes w: "conn_ok w" "refs_ok w"
  shows "tc_logs w [(tc_callback_self_first (cn_config (tw_conn w)), cb)] (run_callback te cb w)"
proof -
  let ?l = "[(tc_callback_self_first (cn_config (tw_conn w)), cb)]"
  have l: "conn_ok (w\<lparr>tw_log := tw_log w @ ?l\<rparr>)" "refs_ok (w\<lparr>tw_log := tw_log w @ ?l\<rparr>)"
    using w by (simp_all add: conn_ok_def refs_ok_def)
  have "conn_ok (w\<lparr>tw_log := tw_log w @ ?l, tw_lua := r\<rparr>)" "refs_ok (w\<lparr>tw_log := tw_log w @ ?l, tw_lua := r\<rparr>)" for r
    using w by (simp_all add: conn_ok_def refs_ok_def)
  from calls_keep [OF this] have "tc_keeps (w\<lparr>tw_log := tw_log w @ ?l\<rparr>) (fold (tcpd_call_step te) cs (w\<lparr>tw_log := tw_log w @ ?l, tw_lua := r\<rparr>))" for cs r
    by (simp add: tc_keeps_def)
  with l show ?thesis by (simp add: run_callback_def Let_def tc_logs_def tc_keeps_refl split: list.splits)
qed

lemma deliver_logs:
  assumes w: "conn_ok w" "refs_ok w" and buf: "cn_buf (tw_conn w)"
  shows "\<exists>data. tc_logs w (if can_call te (cn_onRead (tw_conn w)) w
      then [(tc_callback_self_first (cn_config (tw_conn w)), OnRead data)] else []) (deliver_input te n w)
    \<and> (roomy (te_al te) \<longrightarrow> data = bv_in (tw_bev w))"
proof -
  have "length (bv_in (tw_bev w)) \<le> 2 ^ 62" using w(1) by (simp add: conn_ok_def)
  from read_input_defined [OF this, of "te_al te" n] obtain data where d: "read_input (te_al te) n (bv_in (tw_bev w)) = Some data"
      "roomy (te_al te) \<longrightarrow> data = bv_in (tw_bev w)"
    by blast
  let ?w = "upd_bev (\<lambda>b. b\<lparr>bv_in := []\<rparr>) w"
  have k: "tc_keeps w ?w" by (rule bev_keeps [OF w buf]) simp_all
  have s: "tw_conn ?w = tw_conn w" "tw_registry ?w = tw_registry w" by (simp_all add: upd_bev_def)
  then have c: "can_call te r ?w = can_call te r w" for r by (auto simp: can_call_def split: option.splits)
  show ?thesis
    using d k tc_logs_trans [OF tc_logs_Nil [THEN iffD2, OF k] run_callback_logs [OF tc_keepsD [OF k]], of "OnRead data" te] s c
    by (auto simp: deliver_input_def Let_def tc_logs_Nil)
qed

definition no_disconnect :: "(bool \<times> tcpd_callback) list \<Rightarrow> bool" where
  "no_disconnect l \<longleftrightarrow> \<not> list_ex is_disconnected l"

lemma no_disconnect_simps [simp]:
  "no_disconnect []" "no_disconnect (l @ l') \<longleftrightarrow> no_disconnect l \<and> no_disconnect l'"
  "no_disconnect [(b, OnRead d)]" "no_disconnect [(b, OnSendReady)]" "no_disconnect [(b, OnConnected)]"
  by (simp_all add: no_disconnect_def)

lemma readcb_logs:
  assumes w: "conn_ok w" "refs_ok w"
  shows "\<exists>l. tc_logs w l (tcpd_common_readcb te w) \<and> no_disconnect l"
proof -
  note k = lock_keeps [OF w]
  have "\<exists>l. tc_logs w l (deliver_input te n (lock_buf w)) \<and> no_disconnect l" if "cn_buf (tw_conn w)" for n
    using deliver_logs [OF tc_keepsD [OF k], of te n] that
      tc_logs_trans [OF tc_logs_Nil [THEN iffD2, OF k], of _ "deliver_input te n (lock_buf w)"]
    by (fastforce split: if_splits)
  with k show ?thesis by (auto simp: tcpd_common_readcb_def Let_def tc_logs_Nil intro: exI [of _ "[]"])
qed

lemma writecb_logs:
  assumes w: "conn_ok w" "refs_ok w"
  shows "\<exists>l. tc_logs w l (tcpd_common_writecb te w) \<and> no_disconnect l"
proof -
  note k = lock_keeps [OF w]
  have "tc_keeps w (upd_bev id (lock_buf w))" if "cn_buf (tw_conn w)"
    using locked_keeps [OF w, of id] that by simp
  note k' = this
  have "\<exists>l. tc_logs w l (run_callback te OnSendReady (upd_bev id (lock_buf w))) \<and> no_disconnect l" if "cn_buf (tw_conn w)"
    using tc_logs_trans [OF tc_logs_Nil [THEN iffD2, OF k' [OF that]] run_callback_logs [OF tc_keepsD [OF k' [OF that]]], of OnSendReady te]
    by fastforce
  with k k' show ?thesis
    by (auto simp: tcpd_common_writecb_def Let_def tc_logs_Nil intro: exI [of _ "[]"])
qed

text \<open>The events that libevent reports have at most one of the flags for the end of the stream and for an error.\<close>

definition event_ok :: "u16 \<Rightarrow> bool" where
  "event_ok events \<longleftrightarrow> \<not> (events AND BEV_EVENT_EOF \<noteq> 0 \<and> events AND BEV_EVENT_ERROR \<noteq> 0)"

lemma eof_read_logs:
  assumes w: "conn_ok w" "refs_ok w"
  shows "\<exists>l. tc_logs w l (eof_read te events w) \<and> no_disconnect l"
proof -
  have k: "tc_keeps w (upd_bev id w)" if "cn_buf (tw_conn w)" using bev_keeps [OF w that, of id] by simp
  have "\<exists>l. tc_logs w l (deliver_input te n (upd_bev id w)) \<and> no_disconnect l" if "cn_buf (tw_conn w)" for n
    using deliver_logs [OF tc_keepsD [OF k [OF that]], of te n] that w(1)
      tc_logs_trans [OF tc_logs_Nil [THEN iffD2, OF k [OF that]], of _ "deliver_input te n (upd_bev id w)"]
    by (fastforce simp: upd_bev_def conn_ok_def split: if_splits)
  with k w show ?thesis by (auto simp: eof_read_def Let_def tc_logs_Nil tc_keeps_refl intro: exI [of _ "[]"])
qed

lemma state_keeps: "conn_ok w \<Longrightarrow> refs_ok w \<Longrightarrow> tc_keeps w (upd_conn (\<lambda>c. c\<lparr>cn_state := st\<rparr>) w)"
  by (auto simp: tc_keeps_def conn_ok_def refs_ok_def upd_conn_def)

lemma call_disconnected_logs:
  assumes w: "conn_ok w" "refs_ok w"
  shows "\<exists>l. tc_logs w l (call_disconnected te err w) \<and> length l \<le> 1"
proof -
  let ?w = "upd_conn (\<lambda>c. c\<lparr>cn_onDisconnected := None\<rparr>) (clear_ref (cn_onDisconnected (tw_conn w)) w)"
  have k: "tc_keeps w ?w"
    using w(1) refs_ok_clear(3) [OF w(2)] by (auto simp: tc_keeps_def conn_ok_def upd_conn_def)
  from tc_logs_trans [OF tc_logs_Nil [THEN iffD2, OF k] run_callback_logs [OF tc_keepsD [OF k]]]
  have "\<exists>l. tc_logs w l (run_callback te cb ?w) \<and> length l \<le> 1" for cb by fastforce
  with w show ?thesis by (auto simp: call_disconnected_def tc_logs_Nil tc_keeps_refl intro: exI [of _ "[]"])
qed

lemma connected_logs:
  assumes w: "conn_ok w" "refs_ok w"
  shows "\<exists>l. tc_logs w l (let w = upd_conn (\<lambda>c. c\<lparr>cn_state := TCPD_CONN_CONNECTED\<rparr>) w
    in if can_call te (cn_onConnected (tw_conn w)) w then run_callback te OnConnected w else w) \<and> no_disconnect l"
proof -
  note k = state_keeps [OF w, of TCPD_CONN_CONNECTED]
  have "\<exists>l. tc_logs w l (run_callback te OnConnected (upd_conn (\<lambda>c. c\<lparr>cn_state := TCPD_CONN_CONNECTED\<rparr>) w)) \<and> no_disconnect l"
    using tc_logs_trans [OF tc_logs_Nil [THEN iffD2, OF k] run_callback_logs [OF tc_keepsD [OF k]], of OnConnected te] by fastforce
  with k show ?thesis by (auto simp: Let_def tc_logs_Nil intro: exI [of _ "[]"])
qed

lemma keeps_logs: "tc_logs w l w1 \<Longrightarrow> tc_keeps w1 w2 \<Longrightarrow> tc_logs w l w2"
  using tc_logs_trans [of w l w1 "[]" w2] by (simp add: tc_logs_Nil)

lemma disconnect_logs:
  assumes w: "conn_ok w" "refs_ok w" and buf: "cn_buf (tw_conn w)" and ev: "event_ok events"
  shows "\<exists>l1 l2. tc_logs w (l1 @ l2)
      (tcpd_connection_cleanup_on_disconnect (call_disconnected te err (take_buf
        (let v = upd_conn (\<lambda>c. c\<lparr>cn_state := st\<rparr>) (eof_read te events w)
         in if events AND BEV_EVENT_TIMEOUT = 0 \<and> events AND BEV_EVENT_ERROR \<noteq> 0 then upd_bev id v else v))))
    \<and> no_disconnect l1 \<and> length l2 \<le> 1
    \<and> cn_cleaned_up (tw_conn (tcpd_connection_cleanup_on_disconnect (call_disconnected te err (take_buf
        (let v = upd_conn (\<lambda>c. c\<lparr>cn_state := st\<rparr>) (eof_read te events w)
         in if events AND BEV_EVENT_TIMEOUT = 0 \<and> events AND BEV_EVENT_ERROR \<noteq> 0 then upd_bev id v else v)))))"
proof -
  obtain l1 where l1: "tc_logs w l1 (eof_read te events w)" "no_disconnect l1" using eof_read_logs [OF w] by blast
  let ?v = "upd_conn (\<lambda>c. c\<lparr>cn_state := st\<rparr>) (eof_read te events w)"
  let ?u = "if events AND BEV_EVENT_TIMEOUT = 0 \<and> events AND BEV_EVENT_ERROR \<noteq> 0 then upd_bev id ?v else ?v"
  have v: "tc_logs w l1 ?v" by (rule keeps_logs [OF l1(1) state_keeps [OF tc_logsD(1,2) [OF l1(1)]]])
  have "cn_buf (tw_conn ?v)" if "events AND BEV_EVENT_ERROR \<noteq> 0"
    using that ev buf by (simp add: event_ok_def eof_read_def upd_conn_def)
  then have "tc_keeps ?v (upd_bev id ?v)" if "events AND BEV_EVENT_ERROR \<noteq> 0"
    using that bev_keeps [OF tc_logsD(1,2) [OF v], of id] by simp
  then have u: "tc_logs w l1 ?u" using v keeps_logs by auto
  note t = keeps_logs [OF u take_buf_keeps(1) [OF tc_logsD(1,2) [OF u]]]
  obtain l2 where "tc_logs (take_buf ?u) l2 (call_disconnected te err (take_buf ?u))" "length l2 \<le> 1"
    using call_disconnected_logs [OF tc_logsD(1,2) [OF t]] by blast
  then have d: "tc_logs w (l1 @ l2) (call_disconnected te err (take_buf ?u))" by (intro tc_logs_trans [OF t])
  note c = disconnect_cleanup_keeps [OF tc_logsD(1,2) [OF d]]
  have "cn_cleaned_up (tw_conn (tcpd_connection_cleanup_on_disconnect (call_disconnected te err (take_buf ?u))))"
    using c by (cases "cn_cleaned_up (tw_conn (call_disconnected te err (take_buf ?u)))") (auto simp: clean_def tc_keeps_def)
  with keeps_logs [OF d c(1)] l1(2) \<open>length l2 \<le> 1\<close> show ?thesis unfolding Let_def by blast
qed

lemma eventcb_logs:
  assumes w: "conn_ok w" "refs_ok w" and buf: "cn_buf (tw_conn w)" and ev: "event_ok events"
  shows "\<exists>l1 l2. tc_logs w (l1 @ l2) (tcpd_common_eventcb te events w) \<and> no_disconnect l1 \<and> length l2 \<le> 1
    \<and> (l2 = [] \<or> cn_cleaned_up (tw_conn (tcpd_common_eventcb te events w)))"
proof (cases "events AND BEV_EVENT_CONNECTED \<noteq> 0 \<and> cn_type (tw_conn w) = TCPD_CONN_TYPE_CLIENT")
  case True
  with connected_logs [OF w, of te] obtain l where "tc_logs w (l @ []) (tcpd_common_eventcb te events w)" "no_disconnect l"
    by (auto simp: tcpd_common_eventcb_def)
  then show ?thesis by (intro exI [of _ l] exI [of _ "[]"]) simp
next
  case no: False
  show ?thesis
  proof (cases "events AND (BEV_EVENT_ERROR OR BEV_EVENT_EOF OR BEV_EVENT_TIMEOUT) \<noteq> 0")
    case True
    have eq: "tcpd_common_eventcb te events w =
      tcpd_connection_cleanup_on_disconnect (call_disconnected te (tcpd_analyze_event_error te events) (take_buf
        (let v = upd_conn (\<lambda>c. c\<lparr>cn_state := (if events AND BEV_EVENT_ERROR \<noteq> 0 then TCPD_CONN_ERROR else TCPD_CONN_DISCONNECTED)\<rparr>)
               (eof_read te events w)
         in if events AND BEV_EVENT_TIMEOUT = 0 \<and> events AND BEV_EVENT_ERROR \<noteq> 0 then upd_bev id v else v)))"
      unfolding tcpd_common_eventcb_def if_not_P [OF no] if_P [OF True] Let_def by (rule refl)
    show ?thesis unfolding eq using disconnect_logs [OF w buf ev] by blast
  next
    case False
    have "tc_logs w ([] @ []) w" using w by (simp add: tc_logs_Nil tc_keeps_refl)
    moreover have "tcpd_common_eventcb te events w = w"
      unfolding tcpd_common_eventcb_def if_not_P [OF no] if_not_P [OF False] by (rule refl)
    ultimately show ?thesis by (intro exI [of _ "[]"]) simp
  qed
qed

section \<open>Runs\<close>

fun tcpd_event_ok :: "tcpd_event \<Rightarrow> tcpd_world \<Rightarrow> bool" where
  "tcpd_event_ok (TcEvent events) w \<longleftrightarrow> event_ok events"
| "tcpd_event_ok (TcData bs) w \<longleftrightarrow> length (bv_in (tw_bev w)) + length bs \<le> 2 ^ 62"
| "tcpd_event_ok _ w \<longleftrightarrow> True"

lemma step_logs:
  assumes w: "conn_ok w" "refs_ok w" and ev: "tcpd_event_ok e w"
  shows "\<exists>l1 l2. tc_logs w (l1 @ l2) (tcpd_step te e w) \<and> no_disconnect l1 \<and> length l2 \<le> 1
    \<and> (l2 = [] \<or> cn_cleaned_up (tw_conn (tcpd_step te e w))) \<and> (cn_cleaned_up (tw_conn w) \<longrightarrow> l1 = [] \<and> l2 = [])"
proof -
  define live where "live \<longleftrightarrow> bv_callbacks (tw_bev w) \<and> \<not> bv_freed (tw_bev w)"
  have buf: "cn_buf (tw_conn w)" "\<not> cn_cleaned_up (tw_conn w)" if live using w(1) that by (auto simp: conn_ok_def live_def)
  have none: "\<exists>l1 l2. tc_logs w (l1 @ l2) v \<and> no_disconnect l1 \<and> length l2 \<le> 1
      \<and> (l2 = [] \<or> cn_cleaned_up (tw_conn v)) \<and> (cn_cleaned_up (tw_conn w) \<longrightarrow> l1 = [] \<and> l2 = [])" if "tc_keeps w v" for v
    using that by (intro exI [of _ "[]"]) (simp add: tc_logs_Nil)
  have some: "\<exists>l1 l2. tc_logs w (l1 @ l2) v' \<and> no_disconnect l1 \<and> length l2 \<le> 1
      \<and> (l2 = [] \<or> cn_cleaned_up (tw_conn v')) \<and> (cn_cleaned_up (tw_conn w) \<longrightarrow> l1 = [] \<and> l2 = [])"
    if live "tc_keeps w v" "\<exists>l. tc_logs v l v' \<and> no_disconnect l" for v v'
    using that buf tc_logs_trans [OF tc_logs_Nil [THEN iffD2, OF that(2)]]
    by (metis append_Nil append_Nil2 list.size(3) zero_le)
  note refl = tc_keeps_refl [OF w]
  show ?thesis
  proof (cases e)
    case (TcCall c)
    then show ?thesis using none [OF call_keeps [OF w]] by (simp add: tcpd_step_def)
  next
    case (TcData bs)
    let ?v = "upd_bev (\<lambda>b. b\<lparr>bv_in := bv_in b @ bs\<rparr>) w"
    have k: "tc_keeps w ?v" if live using w ev TcData buf [OF that] by (auto simp: tc_keeps_def conn_ok_def refs_ok_def upd_bev_def)
    show ?thesis
      using TcData none [OF refl] some [OF _ k readcb_logs [OF tc_keepsD [OF k]], of te]
      by (cases live) (auto simp: tcpd_step_def live_def [symmetric])
  next
    case (TcDrain n)
    let ?v = "upd_bev (\<lambda>b. b\<lparr>bv_out := drop n (bv_out b)\<rparr>) w"
    have k: "tc_keeps w ?v" if live by (rule bev_keeps [OF w buf(1) [OF that]]) simp_all
    show ?thesis
      using TcDrain none [OF refl] none [OF k] some [OF _ k writecb_logs [OF tc_keepsD [OF k]], of te]
      by (cases live) (auto simp: tcpd_step_def Let_def live_def [symmetric])
  next
    case (TcEvent events)
    then have "event_ok events" using ev by simp
    then show ?thesis
      using TcEvent none [OF refl] eventcb_logs [OF w buf(1), of events te] buf(2)
      by (cases live) (auto simp: tcpd_step_def live_def [symmetric])
  next
    case TcGc
    then show ?thesis
      using none [OF client_cleanup_keeps(1) [OF w]] none [OF accept_cleanup_keeps(1) [OF w]]
      by (auto simp: tcpd_step_def tcpd_client_conn_gc_def tcpd_accept_conn_gc_def)
  qed
qed

definition tcpd_inv :: "tcpd_world \<Rightarrow> bool" where
  "tcpd_inv w \<longleftrightarrow> conn_ok w \<and> refs_ok w \<and> log_ok w"

lemma log_ok_append:
  assumes "log_ok w" and "tw_log w' = tw_log w @ l1 @ l2" and "no_disconnect l1" and "length l2 \<le> 1"
    and "l2 = [] \<or> cn_cleaned_up (tw_conn w')" and "cn_cleaned_up (tw_conn w) \<longrightarrow> l1 = [] \<and> l2 = []"
    and "cn_cleaned_up (tw_conn w) \<longrightarrow> cn_cleaned_up (tw_conn w')"
  shows "log_ok w'"
proof (cases "cn_cleaned_up (tw_conn w)")
  case True
  with assms show ?thesis by (simp add: log_ok_def)
next
  case False
  have "no_disconnect (tw_log w)"
    using assms(1) False unfolding log_ok_def no_disconnect_def by (cases "tw_log w" rule: rev_cases) auto
  then have n: "no_disconnect (tw_log w @ l1)" using assms(3) by simp
  have sub: "\<not> list_ex is_disconnected (butlast xs)" if "no_disconnect xs" for xs
    using that by (auto simp: no_disconnect_def list_ex_iff dest: in_set_butlastD)
  consider "l2 = []" | x where "l2 = [x]" using assms(4) by (cases l2) auto
  then show ?thesis
  proof cases
    case 1
    with n sub [OF n] assms(2) last_in_set [of "tw_log w @ l1"] show ?thesis
      by (auto simp: log_ok_def no_disconnect_def list_ex_iff)
  next
    case (2 x)
    with n assms(2,5) show ?thesis by (simp add: log_ok_def no_disconnect_def butlast_append)
  qed
qed

lemma step_inv:
  assumes "tcpd_inv w" and "tcpd_event_ok e w"
  shows "tcpd_inv (tcpd_step te e w)" and "cn_cleaned_up (tw_conn w) \<Longrightarrow> cn_cleaned_up (tw_conn (tcpd_step te e w))"
    and "cn_cleaned_up (tw_conn w) \<Longrightarrow> tw_log (tcpd_step te e w) = tw_log w"
    and "cn_type (tw_conn (tcpd_step te e w)) = cn_type (tw_conn w)"
proof -
  have w: "conn_ok w" "refs_ok w" "log_ok w" using assms(1) by (simp_all add: tcpd_inv_def)
  from step_logs [OF w(1,2) assms(2), of te] obtain l1 l2 where l: "tc_logs w (l1 @ l2) (tcpd_step te e w)" "no_disconnect l1"
      "length l2 \<le> 1" "l2 = [] \<or> cn_cleaned_up (tw_conn (tcpd_step te e w))" "cn_cleaned_up (tw_conn w) \<longrightarrow> l1 = [] \<and> l2 = []"
    by blast
  then have c: "cn_cleaned_up (tw_conn w) \<longrightarrow> cn_cleaned_up (tw_conn (tcpd_step te e w))" by (simp add: tc_logs_def tc_keeps_def)
  show "tcpd_inv (tcpd_step te e w)"
    using tc_logsD [OF l(1)] log_ok_append [OF w(3) tc_logsD(3) [OF l(1)] l(2-5) c] by (simp add: tcpd_inv_def)
  show "cn_cleaned_up (tw_conn w) \<Longrightarrow> cn_cleaned_up (tw_conn (tcpd_step te e w))" using c by simp
  show "cn_cleaned_up (tw_conn w) \<Longrightarrow> tw_log (tcpd_step te e w) = tw_log w" using tc_logsD(3) [OF l(1)] l(5) by simp
  show "cn_type (tw_conn (tcpd_step te e w)) = cn_type (tw_conn w)" using l(1) by (simp add: tc_logs_def tc_keeps_def)
qed

text \<open>The states of a connection, which starts as a client or as an accepted connection.\<close>

inductive tcpd_reaches :: "tcpd_world \<Rightarrow> tcpd_world \<Rightarrow> bool" for w0 where
  tcpd_start: "tcpd_reaches w0 w0"
| tcpd_next: "tcpd_reaches w0 w \<Longrightarrow> tcpd_event_ok e w \<Longrightarrow> tcpd_reaches w0 (tcpd_step te e w)"

inductive tcpd_initial :: "tcpd_world \<Rightarrow> bool" where
  client: "tcpd_initial (tcpd_connect te a)"
| accepted: "tcpd_initial (tcpd_accept_new te config use_worker ip port lua)"

inductive_cases tcpd_initialE: "tcpd_initial w"

text \<open>A client whose callbacks are set and that has no bufferevent yet.\<close>

definition fresh_client :: "tcpd_world \<Rightarrow> bool" where
  "fresh_client w \<longleftrightarrow>
     tcpd_inv w \<and> tw_bev w = new_bev False \<and> \<not> cn_buf (tw_conn w) \<and> \<not> cn_cleaned_up (tw_conn w)
     \<and> \<not> cn_ssl_ctx (tw_conn w) \<and> tw_ssl_refs w = 0 \<and> tw_log w = []"

lemma set_callbacks_fresh:
  "fresh_client (tcpd_base_conn_set_callbacks rd sr dc co (upd_conn (\<lambda>c. c\<lparr>cn_config := f c\<rparr>)
     (new_tcpd_world (tcpd_base_conn_init TCPD_CONN_TYPE_CLIENT) lua)))"
  by (cases rd; cases sr; cases dc; cases co)
    (simp_all add: fresh_client_def tcpd_inv_def conn_ok_def refs_ok_def log_ok_def held_def map_filter_id new_tcpd_world_def
      tcpd_base_conn_init_def tcpd_base_conn_set_callbacks_def set_func_ref_def upd_conn_def new_bev_def)

lemma fresh_inv:
  assumes "fresh_client w"
  shows "fresh_client (upd_conn (\<lambda>c. c\<lparr>cn_host := h, cn_port := n, cn_unix_path := u\<rparr>) w)"
    and "tcpd_inv (upd_conn (\<lambda>c. c\<lparr>cn_buf := b\<rparr>) w)"
    and "tcpd_inv (upd_conn (\<lambda>c. c\<lparr>cn_ssl_ctx := True\<rparr>) (w\<lparr>tw_ssl_refs := 1\<rparr>))"
    and "tcpd_inv (upd_conn (\<lambda>c. c\<lparr>cn_ssl_ctx := True, cn_buf := b\<rparr>) (w\<lparr>tw_ssl_refs := 1\<rparr>))"
  using assms
  by (auto simp: fresh_client_def tcpd_inv_def conn_ok_def refs_ok_def log_ok_def held_def upd_conn_def new_bev_def)

lemma connected_inv:
  assumes "tcpd_inv w" and "cn_buf (tw_conn w)"
  shows "tcpd_inv (upd_conn (\<lambda>c. c\<lparr>cn_buf := False\<rparr>) (tcpd_shutdown_bufferevent w))"
    and "tcpd_inv (upd_bev (\<lambda>b. b\<lparr>bv_callbacks := True, bv_read := True\<rparr>) (upd_conn (\<lambda>c. c\<lparr>cn_state := st\<rparr>) (w\<lparr>tw_sockopts := so\<rparr>)))"
  using assms
  by (auto simp: tcpd_inv_def conn_ok_def refs_ok_def log_ok_def upd_conn_def upd_bev_def tcpd_shutdown_bufferevent_def)

lemma connect_inv: "tcpd_inv (tcpd_connect te a)"
proof -
  obtain rd sr dc co where c: "ca_callbacks a = (rd, sr, dc, co)" by (cases "ca_callbacks a")
  let ?w = "upd_conn (\<lambda>c. c\<lparr>cn_host := ca_host a, cn_port := opt_int (ca_port a) 0, cn_unix_path := ca_unix_path a\<rparr>)
    (tcpd_base_conn_set_callbacks rd sr dc co
      (upd_conn (\<lambda>c. c\<lparr>cn_config := tcpd_config_from_lua_table (ca_table a) (cn_config c)\<rparr>)
        (new_tcpd_world (tcpd_base_conn_init TCPD_CONN_TYPE_CLIENT) (ca_script a))))"
  have f: "fresh_client ?w" by (rule fresh_inv(1) [OF set_callbacks_fresh])
  define w where "w = ?w"
  let ?v = "if tc_ssl_enabled (cn_config (tw_conn w))
     then case ca_ssl a of SslNoKey \<Rightarrow> w | SslNoContext \<Rightarrow> w
       | SslBadConfig \<Rightarrow> upd_conn (\<lambda>c. c\<lparr>cn_ssl_ctx := True\<rparr>) (w\<lparr>tw_ssl_refs := 1\<rparr>)
       | SslReady b \<Rightarrow> upd_conn (\<lambda>c. c\<lparr>cn_ssl_ctx := True, cn_buf := b\<rparr>) (w\<lparr>tw_ssl_refs := 1\<rparr>)
     else upd_conn (\<lambda>c. c\<lparr>cn_buf := ca_bev a\<rparr>) w"
  have f': "fresh_client w" using f by (simp add: w_def)
  then have "tcpd_inv w" by (simp add: fresh_client_def)
  with fresh_inv(2-4) [OF f'] have v: "tcpd_inv ?v" by (auto split: ssl_setup.splits)
  have "tcpd_connect te a = (if \<not> cn_buf (tw_conn ?v) then ?v
    else if ca_connect_rc a < 0 then upd_conn (\<lambda>c. c\<lparr>cn_buf := False\<rparr>) (tcpd_shutdown_bufferevent ?v)
    else upd_bev (\<lambda>b. b\<lparr>bv_callbacks := True, bv_read := True\<rparr>) (upd_conn (\<lambda>c. c\<lparr>cn_state := TCPD_CONN_CONNECTING\<rparr>)
      (?v\<lparr>tw_sockopts := tw_sockopts ((apply_config te ?v)\<lparr>tw_sockopts :=
         snd (tcpd_config_apply_interface (cn_config (tw_conn ?v)) (te_fd te) (tw_sockopts (apply_config te ?v)))\<rparr>)\<rparr>)))"
    unfolding tcpd_connect_def c w_def Let_def prod.case by (simp add: apply_config_def Let_def)
  then show ?thesis using v connected_inv [OF v] by presburger
qed

lemma accept_inv: "tcpd_inv (tcpd_accept_new te config use_worker ip port lua)"
  by (simp add: tcpd_inv_def conn_ok_def refs_ok_def log_ok_def held_def map_filter_id tcpd_accept_new_def Let_def
      new_tcpd_world_def tcpd_base_conn_init_def upd_conn_def upd_bev_def new_bev_def apply_config_def)

lemma initial_inv: "tcpd_initial w \<Longrightarrow> tcpd_inv w"
  by (auto elim: tcpd_initialE simp: connect_inv accept_inv)

lemma reaches_inv: "tcpd_reaches w0 w \<Longrightarrow> tcpd_inv w0 \<Longrightarrow> tcpd_inv w"
  by (induction rule: tcpd_reaches.induct) (auto intro: step_inv)

lemma reaches_cleaned:
  "tcpd_reaches w w' \<Longrightarrow> tcpd_inv w \<Longrightarrow> cn_cleaned_up (tw_conn w) \<Longrightarrow> tw_log w' = tw_log w \<and> cn_cleaned_up (tw_conn w')"
proof (induction rule: tcpd_reaches.induct)
  case (tcpd_next v e te)
  with reaches_inv [OF tcpd_next(1)] show ?case by (simp add: step_inv)
qed simp

text \<open>
  (C10) The resources of a TCP connection, in every state that any sequence of method calls, network events, callbacks
  and collections leads to, with any allocator: the program never touches a freed bufferevent nor memory outside its
  buffers; while the connection has a bufferevent it is not freed; and once the connection is cleaned up, by \<open>close\<close>,
  a disconnection or the collector, the bufferevent is freed, its reference to the SSL context has been given back
  exactly once, and a client connection has left no function in the registry.
\<close>

theorem tcpd_resources_safe:
  assumes "tcpd_initial w0" and "tcpd_reaches w0 w"
  shows "\<not> tw_bad_access w \<and> (cn_buf (tw_conn w) \<longrightarrow> \<not> bv_freed (tw_bev w))
    \<and> tw_ssl_refs w = (if cn_ssl_ctx (tw_conn w) then 1 else 0)
    \<and> (cn_cleaned_up (tw_conn w) \<longrightarrow> \<not> cn_buf (tw_conn w) \<and> \<not> bv_callbacks (tw_bev w) \<and> tw_ssl_refs w = 0
        \<and> (cn_type (tw_conn w) = TCPD_CONN_TYPE_CLIENT \<longrightarrow> tw_registry w = []))"
  using reaches_inv [OF assms(2) initial_inv [OF assms(1)]]
  by (auto simp: tcpd_inv_def conn_ok_def refs_ok_def)

definition sample_te :: tcpd_env where
  "sample_te =
     \<lparr>te_al = roomy_alloc, te_co = True, te_sockopt = (\<lambda>_. True), te_fd = 5, te_sockname = NameFailed,
      te_peername = NameFailed, te_dns_error = 0, te_socket_error = 0, te_ssl_error = None,
      te_gai_strerror = (\<lambda>_. []), te_strerror = (\<lambda>_. [])\<rparr>"

definition sample_args :: "tcpd_call list list \<Rightarrow> connect_args" where
  "sample_args lua =
     \<lparr>ca_table = \<lparr>lt_send_buffer_size = None, lt_receive_buffer_size = None, lt_keepalive = False, lt_keepalive_idle = None,
                  lt_keepalive_interval = None, lt_keepalive_count = None, lt_read_timeout = None, lt_write_timeout = None,
                  lt_interface = None, lt_ssl = False, lt_ssl_verifyhost = None, lt_ssl_verifypeer = None,
                  lt_callback_self_first = False\<rparr>,
      ca_callbacks = (True, True, True, True), ca_host = Some ''a'', ca_port = Some 80, ca_unix_path = None,
      ca_ssl = SslNoKey, ca_bev = True, ca_connect_rc = 0, ca_script = lua\<rparr>"

theorem tcpd_resources_safe_witness:
  "let w0 = tcpd_connect sample_te (sample_args []); w = tcpd_step sample_te (TcEvent BEV_EVENT_EOF) w0
   in tcpd_initial w0 \<and> tcpd_reaches w0 w \<and> cn_cleaned_up (tw_conn w) \<and> \<not> tw_bad_access w \<and> tw_registry w = []
      \<and> tw_log w = [(False, OnDisconnected ''connection closed'')]"
proof -
  let ?v = "tcpd_connect sample_te (sample_args [])"
  let ?w = "tcpd_step sample_te (TcEvent BEV_EVENT_EOF) ?v"
  have i: "tcpd_initial ?v" by (rule client)
  have "event_ok BEV_EVENT_EOF" by code_simp
  then have r: "tcpd_reaches ?v ?w" by (intro tcpd_next tcpd_start) simp
  have c: "cn_cleaned_up (tw_conn ?w) \<and> cn_type (tw_conn ?w) = TCPD_CONN_TYPE_CLIENT
      \<and> tw_log ?w = [(False, OnDisconnected ''connection closed'')]" by code_simp
  show ?thesis using tcpd_resources_safe [OF i r] i r c by (simp add: Let_def)
qed

text \<open>
  (C23) What a connection reports to Lua code: a disconnection is reported at most once and is the last thing that is
  ever reported, and after a connection has been cleaned up, by whichever way, no callback is called any more.
\<close>

theorem tcpd_disconnection_is_last:
  assumes "tcpd_initial w0" and "tcpd_reaches w0 w" and "tcpd_reaches w w'"
  shows "(\<forall>e \<in> set (butlast (tw_log w)). \<not> is_disconnected e)
    \<and> (tw_log w \<noteq> [] \<and> is_disconnected (last (tw_log w)) \<or> cn_cleaned_up (tw_conn w) \<longrightarrow> tw_log w' = tw_log w)"
proof -
  have i: "tcpd_inv w" by (rule reaches_inv [OF assms(2) initial_inv [OF assms(1)]])
  then have "log_ok w" by (simp add: tcpd_inv_def)
  with reaches_cleaned [OF assms(3) i] show ?thesis by (auto simp: log_ok_def list_ex_iff)
qed

theorem tcpd_disconnection_is_last_witness:
  "let w0 = tcpd_connect sample_te (sample_args [[CallClose]]); w = tcpd_step sample_te (TcEvent BEV_EVENT_CONNECTED) w0;
       w' = tcpd_step sample_te (TcEvent BEV_EVENT_EOF) w
   in tcpd_initial w0 \<and> tcpd_reaches w0 w \<and> tcpd_reaches w w' \<and> tw_log w = [(False, OnConnected)] \<and> tw_log w' = tw_log w"
proof -
  let ?v = "tcpd_connect sample_te (sample_args [[CallClose]])"
  let ?w = "tcpd_step sample_te (TcEvent BEV_EVENT_CONNECTED) ?v"
  have i: "tcpd_initial ?v" by (rule client)
  have e: "event_ok BEV_EVENT_CONNECTED" "event_ok BEV_EVENT_EOF" by code_simp+
  have r: "tcpd_reaches ?v ?w" using e by (intro tcpd_next tcpd_start) simp
  have r': "tcpd_reaches ?w (tcpd_step sample_te (TcEvent BEV_EVENT_EOF) ?w)" using e by (intro tcpd_next tcpd_start) simp
  have c: "cn_cleaned_up (tw_conn ?w) \<and> tw_log ?w = [(False, OnConnected)]" by code_simp
  show ?thesis using tcpd_disconnection_is_last [OF i r r'] i r r' c by (simp add: Let_def)
qed

text \<open>
  (C24) What arrives is what the callback gets: when bytes arrive on a connection that reads, with a function for
  \<open>onread\<close> and enough memory, the callback is called exactly once, with everything that was in the input buffer
  followed by the new bytes, unchanged and complete, whatever their number.
\<close>

theorem tcpd_read_delivers:
  assumes "tcpd_initial w0" and "tcpd_reaches w0 w" and "tcpd_event_ok (TcData bs) w" and "roomy (te_al te)" and "te_co te"
    and "bv_callbacks (tw_bev w)" and "bv_read (tw_bev w)" and "cn_onRead (tw_conn w) \<noteq> None"
  shows "tw_log (tcpd_step te (TcData bs) w)
    = tw_log w @ [(tc_callback_self_first (cn_config (tw_conn w)), OnRead (bv_in (tw_bev w) @ bs))]"
proof -
  have w: "conn_ok w" "refs_ok w" using reaches_inv [OF assms(2) initial_inv [OF assms(1)]] by (simp_all add: tcpd_inv_def)
  with assms(6) have b: "cn_buf (tw_conn w)" "\<not> bv_freed (tw_bev w)" "cn_mutex (tw_conn w)" "cn_mainthread (tw_conn w)"
    by (auto simp: conn_ok_def)
  let ?v = "upd_bev (\<lambda>b. b\<lparr>bv_in := bv_in b @ bs\<rparr>) w"
  have v: "conn_ok ?v" "refs_ok ?v" using w b assms(3) by (auto simp: conn_ok_def refs_ok_def upd_bev_def)
  have s: "tw_conn ?v = tw_conn w" "tw_log ?v = tw_log w" "bv_in (tw_bev ?v) = bv_in (tw_bev w) @ bs" "tw_registry ?v = tw_registry w"
    using b by (simp_all add: upd_bev_def)
  obtain n where n: "cn_onRead (tw_conn w) = Some n" using assms(8) by blast
  then have "n \<in> set (tw_registry w)" using w(2) by (auto simp: refs_ok_def held_def map_filter_def)
  with n b(4) assms(5) have call: "can_call te (cn_onRead (tw_conn ?v)) ?v" by (simp add: can_call_def s)
  have "lock_buf ?v = ?v" using b s by (simp add: lock_buf_def)
  then have step: "tcpd_step te (TcData bs) w = deliver_input te (BUFLEN * 2) ?v"
    using assms(6,7,8) b s by (auto simp: tcpd_step_def tcpd_common_readcb_def Let_def)
  from deliver_logs [OF v, of te "BUFLEN * 2"] b s call assms(4) show ?thesis
    unfolding step by (auto dest: tc_logsD(3))
qed

theorem tcpd_read_delivers_witness:
  "let w0 = tcpd_connect sample_te (sample_args [])
   in tcpd_initial w0 \<and> tcpd_reaches w0 w0 \<and> tcpd_event_ok (TcData [104, 105]) w0 \<and> roomy (te_al sample_te) \<and> te_co sample_te
      \<and> bv_callbacks (tw_bev w0) \<and> bv_read (tw_bev w0) \<and> cn_onRead (tw_conn w0) \<noteq> None
      \<and> tw_log (tcpd_step sample_te (TcData [104, 105]) w0) = [(False, OnRead [104, 105])]"
proof -
  let ?v = "tcpd_connect sample_te (sample_args [])"
  have h: "bv_callbacks (tw_bev ?v)" "bv_read (tw_bev ?v)" "cn_onRead (tw_conn ?v) \<noteq> None" by code_simp+
  have l: "tw_log ?v = [] \<and> bv_in (tw_bev ?v) = [] \<and> \<not> tc_callback_self_first (cn_config (tw_conn ?v))" by code_simp
  have e: "tcpd_event_ok (TcData [104, 105]) ?v" using l by simp
  have t: "roomy (te_al sample_te)" "te_co sample_te" by (simp_all add: sample_te_def roomy_roomy_alloc)
  show ?thesis
    using tcpd_read_delivers [OF client tcpd_start e t h] client [of sample_te "sample_args []"] tcpd_start e t h l by (simp add: Let_def)
qed

text \<open>
  Using a connection that is closed is undefined: the cleanup destroys the mutex, and every method but \<open>close\<close>
  locks it first. So in every state after the cleanup, sending data locks a destroyed mutex.
\<close>

lemma tcpd_send_after_close_undefined:
  assumes "tcpd_initial w0" and "tcpd_reaches w0 w" and "cn_cleaned_up (tw_conn w)" and "data \<noteq> []"
  shows "tw_dead_mutex (tcpd_step te (TcCall (CallSend data)) w)"
proof -
  have "\<not> cn_mutex (tw_conn w)" "\<not> cn_buf (tw_conn w)"
    using reaches_inv [OF assms(2) initial_inv [OF assms(1)]] assms(3) by (auto simp: tcpd_inv_def conn_ok_def)
  then show ?thesis
    using assms(4) by (simp add: tcpd_step_def tcpd_call_step_def tcpd_conn_send_def tcpd_accept_send_def lock_buf_def)
qed

lemma tcpd_send_after_close_undefined_witness:
  "let w0 = tcpd_connect sample_te (sample_args []); w = tcpd_step sample_te (TcCall CallClose) w0
   in tcpd_initial w0 \<and> tcpd_reaches w0 w \<and> cn_cleaned_up (tw_conn w) \<and> tw_dead_mutex (tcpd_step sample_te (TcCall (CallSend [1])) w)"
proof -
  let ?v = "tcpd_connect sample_te (sample_args [])"
  have r: "tcpd_reaches ?v (tcpd_step sample_te (TcCall CallClose) ?v)" by (intro tcpd_next tcpd_start) simp
  have c: "cn_cleaned_up (tw_conn (tcpd_step sample_te (TcCall CallClose) ?v))" by code_simp
  show ?thesis
    using tcpd_send_after_close_undefined [OF client r c, of "[1]" sample_te] client [of sample_te "sample_args []"] r c by (simp add: Let_def)
qed

text \<open>
  Calling \<open>bind\<close> again on an accepted connection loses the slots of the first functions: the cleanup frees only those
  it finds in the object.
\<close>

lemma accept_bind_twice_leaks:
  "length (tw_registry (tcpd_step sample_te (TcCall CallClose) (tcpd_step sample_te (TcCall (CallBind True False False False))
     (tcpd_step sample_te (TcCall (CallBind True True True False)) (tcpd_accept_new sample_te tcpd_config_init False [] 0 []))))) = 3"
  by code_simp

end
