(* ===== verification/Tcpd_Race.thy ===== *)
theory Tcpd_Race
  imports Tcpd
begin

text \<open>
  The protocol between the threads that share a TCP connection. Lua code runs in the main thread and calls \<open>send\<close> and
  the other methods; the callbacks of a connection may run in a worker thread. The methods use the bufferevent under \<open>buf_mutex\<close>, and whoever
  frees it first takes the pointer away under the mutex. The callbacks do not keep to that: \<open>tcpd_common_readcb\<close> and
  \<open>tcpd_common_writecb\<close> compare the pointer under the mutex and use the bufferevent after they have released it, and \<open>tcpd_common_eventcb\<close> reads the
  pointer and the input, and asks for the error of a name lookup, without the mutex. Here each access to shared memory is a step of its own, and the steps of any number of
  threads are interleaved. A callback whose Lua code closes the connection is the interleaving with another thread that does so, since no callback holds the mutex
  while Lua code runs.
\<close>

section \<open>Threads\<close>

text \<open>
  Where a thread is. \<open>SLock\<close> to \<open>SUnlock\<close> are the steps of \<open>tcpd_conn_send\<close>, which has the same locking as the other
  methods. \<open>CLock\<close> to \<open>CDone\<close> are those of the read and write callbacks. \<open>EPeek\<close>, \<open>EInput\<close>, \<open>EDrain\<close> and \<open>EAnalyze\<close> are the part of the event callback in front of the
  mutex: it tests the pointer, reads it again for the input, drains the input and analyses the error. \<open>TLock\<close> to \<open>TEnd\<close> take the bufferevent away and free it,
  in \<open>tcpd_common_eventcb\<close> (False) or in \<open>tcpd_base_conn_cleanup\<close> (True), which in the end destroys the mutex. The second argument is the local copy of
  the pointer.
\<close>

datatype thread_pc =
    Idle
  | SLock
  | SRead
  | SBranch bool
  | SUnlock
  | CLock
  | CTest
  | CUnlock bool
  | CUse
  | CDone
  | EPeek
  | EInput
  | EDrain
  | EAnalyze
  | TLock bool
  | TRead bool
  | TClear bool bool
  | TUnlock bool bool
  | TShutdown bool bool
  | TFree bool bool
  | TEnd bool

text \<open>
  \<open>rc_buf\<close> says whether the pointer of the connection is set, \<open>rc_callbacks\<close> whether the bufferevent has its callbacks, \<open>rc_owned\<close> whether \<open>bufferevent_free\<close> was not called yet, and
  \<open>rc_running\<close> lists the threads for whose callback libevent keeps the bufferevent. \<open>rc_bad_access\<close> records a use after the memory is gone, \<open>rc_null_access\<close> the use
  of a null pointer.
\<close>

record race =
  rc_buf :: bool
  rc_callbacks :: bool
  rc_owned :: bool
  rc_running :: "nat list"
  rc_owner :: "nat option"
  rc_destroyed :: bool
  rc_cleaned_up :: bool
  rc_bad_access :: bool
  rc_null_access :: bool
  rc_dead_mutex :: bool
  rc_pc :: "nat \<Rightarrow> thread_pc"

definition goto :: "nat \<Rightarrow> thread_pc \<Rightarrow> race \<Rightarrow> race" where
  "goto i p s = s\<lparr>rc_pc := (rc_pc s)(i := p)\<rparr>"

definition acquire :: "nat \<Rightarrow> race \<Rightarrow> race" where
  "acquire i s = s\<lparr>rc_owner := Some i, rc_dead_mutex := rc_dead_mutex s \<or> rc_destroyed s\<rparr>"

definition release :: "race \<Rightarrow> race" where
  "release s = s\<lparr>rc_owner := None, rc_dead_mutex := rc_dead_mutex s \<or> rc_destroyed s\<rparr>"

text \<open>The memory of the bufferevent is gone when it was freed and libevent does not keep it for a callback.\<close>

definition gone :: "race \<Rightarrow> bool" where
  "gone s \<longleftrightarrow> \<not> rc_owned s \<and> rc_running s = []"

definition use_bev :: "race \<Rightarrow> race" where
  "use_bev s = s\<lparr>rc_bad_access := rc_bad_access s \<or> gone s\<rparr>"

text \<open>
  \<open>kept\<close> is the behaviour of libevent that the code relies on: a bufferevent is reference-counted, and one that is freed is not deleted until its callbacks are done. Callbacks are
  only called while they are set, and \<open>bufferevent_setcb\<close> with null pointers in \<open>tcpd_shutdown_bufferevent\<close> clears them.
\<close>

definition callback_begins :: "bool \<Rightarrow> nat \<Rightarrow> race \<Rightarrow> race" where
  "callback_begins kept i s = (if kept then s\<lparr>rc_running := i # rc_running s\<rparr> else s)"

definition callback_ends :: "nat \<Rightarrow> race \<Rightarrow> race" where
  "callback_ends i s = s\<lparr>rc_running := remove1 i (rc_running s)\<rparr>"

text \<open>The methods: everything is done under the mutex.\<close>

inductive send_step :: "race \<Rightarrow> race \<Rightarrow> bool" where
  send_begin: "rc_pc s i = Idle \<Longrightarrow> send_step s (goto i SLock s)"
| send_lock: "rc_pc s i = SLock \<Longrightarrow> rc_owner s = None \<Longrightarrow> send_step s (goto i SRead (acquire i s))"
| send_read: "rc_pc s i = SRead \<Longrightarrow> send_step s (goto i (SBranch (rc_buf s)) s)"
| send_null: "rc_pc s i = SBranch False \<Longrightarrow> send_step s (goto i SUnlock s)"
| send_write: "rc_pc s i = SBranch True \<Longrightarrow> send_step s (goto i SUnlock (use_bev s))"
| send_unlock: "rc_pc s i = SUnlock \<Longrightarrow> send_step s (goto i Idle (release s))"

text \<open>The read and write callbacks: the comparison is under the mutex, the uses are not.\<close>

inductive callback_step :: "bool \<Rightarrow> race \<Rightarrow> race \<Rightarrow> bool" for kept where
  callback_begin: "rc_pc s i = Idle \<Longrightarrow> rc_callbacks s \<Longrightarrow> callback_step kept s (goto i CLock (callback_begins kept i s))"
| callback_lock: "rc_pc s i = CLock \<Longrightarrow> rc_owner s = None \<Longrightarrow> callback_step kept s (goto i CTest (acquire i s))"
| callback_test: "rc_pc s i = CTest \<Longrightarrow> callback_step kept s (goto i (CUnlock (rc_buf s)) s)"
| callback_unlock: "rc_pc s i = CUnlock b \<Longrightarrow> callback_step kept s (goto i (if b then CUse else CDone) (release s))"
| callback_use: "rc_pc s i = CUse \<Longrightarrow> callback_step kept s (goto i CUse (use_bev s))"
| callback_used: "rc_pc s i = CUse \<Longrightarrow> callback_step kept s (goto i CDone s)"
| callback_end: "rc_pc s i = CDone \<Longrightarrow> callback_step kept s (goto i Idle (callback_ends i s))"

text \<open>The event callback, up to where it takes the bufferevent away and from where it has freed it: nothing is under the mutex.\<close>

inductive event_step :: "bool \<Rightarrow> race \<Rightarrow> race \<Rightarrow> bool" for kept where
  event_eof: "rc_pc s i = Idle \<Longrightarrow> rc_callbacks s \<Longrightarrow> event_step kept s (goto i EPeek (callback_begins kept i s))"
| event_other: "rc_pc s i = Idle \<Longrightarrow> rc_callbacks s \<Longrightarrow> event_step kept s (goto i EAnalyze (callback_begins kept i s))"
| event_peek: "rc_pc s i = EPeek \<Longrightarrow> event_step kept s (goto i (if rc_buf s then EInput else EAnalyze) s)"
| event_input:
    "rc_pc s i = EInput \<Longrightarrow> event_step kept s (goto i EDrain (if rc_buf s then use_bev s else s\<lparr>rc_null_access := True\<rparr>))"
| event_drain: "rc_pc s i = EDrain \<Longrightarrow> event_step kept s (goto i EDrain (use_bev s))"
| event_drained: "rc_pc s i = EDrain \<Longrightarrow> event_step kept s (goto i EAnalyze s)"
| event_dns_error: "rc_pc s i = EAnalyze \<Longrightarrow> event_step kept s (goto i (TLock False) (use_bev s))"
| event_no_dns_error: "rc_pc s i = EAnalyze \<Longrightarrow> event_step kept s (goto i (TLock False) s)"
| event_end: "rc_pc s i = TEnd False \<Longrightarrow> event_step kept s (goto i Idle (callback_ends i s))"

text \<open>Taking the bufferevent away, shutting it down and freeing it, in the event callback and in the cleanup.\<close>

inductive take_step :: "race \<Rightarrow> race \<Rightarrow> bool" where
  cleanup_begin:
    "rc_pc s i = Idle \<Longrightarrow> \<not> rc_cleaned_up s \<Longrightarrow> take_step s (goto i (TLock True) (s\<lparr>rc_cleaned_up := True\<rparr>))"
| take_lock: "rc_pc s i = TLock k \<Longrightarrow> rc_owner s = None \<Longrightarrow> take_step s (goto i (TRead k) (acquire i s))"
| take_read: "rc_pc s i = TRead k \<Longrightarrow> take_step s (goto i (TClear k (rc_buf s)) s)"
| take_clear: "rc_pc s i = TClear k b \<Longrightarrow> take_step s (goto i (TUnlock k b) (s\<lparr>rc_buf := False\<rparr>))"
| take_unlock: "rc_pc s i = TUnlock k b \<Longrightarrow> take_step s (goto i (TShutdown k b) (release s))"
| take_nothing: "rc_pc s i = TShutdown k False \<Longrightarrow> take_step s (goto i (TEnd k) s)"
| take_shutdown: "rc_pc s i = TShutdown k True \<Longrightarrow> take_step s (goto i (TFree k True) ((use_bev s)\<lparr>rc_callbacks := False\<rparr>))"
| take_free:
    "rc_pc s i = TFree k b \<Longrightarrow>
       take_step s (goto i (TEnd k) (s\<lparr>rc_bad_access := rc_bad_access s \<or> \<not> rc_owned s, rc_owned := False\<rparr>))"
| cleanup_end:
    "rc_pc s i = TEnd True \<Longrightarrow>
       take_step s (goto i Idle (s\<lparr>rc_destroyed := True, rc_dead_mutex := rc_dead_mutex s \<or> rc_owner s \<noteq> None\<rparr>))"

inductive race_step :: "bool \<Rightarrow> race \<Rightarrow> race \<Rightarrow> bool" for kept where
  sending: "send_step s s' \<Longrightarrow> race_step kept s s'"
| read_write: "callback_step kept s s' \<Longrightarrow> race_step kept s s'"
| event: "event_step kept s s' \<Longrightarrow> race_step kept s s'"
| taking: "take_step s s' \<Longrightarrow> race_step kept s s'"

inductive race_reaches :: "bool \<Rightarrow> race \<Rightarrow> race \<Rightarrow> bool" for kept s0 where
  race_start: "race_reaches kept s0 s0"
| race_next: "race_reaches kept s0 s \<Longrightarrow> race_step kept s s' \<Longrightarrow> race_reaches kept s0 s'"

definition race_init :: race where
  "race_init =
     \<lparr>rc_buf = True, rc_callbacks = True, rc_owned = True, rc_running = [], rc_owner = None, rc_destroyed = False, rc_cleaned_up = False, rc_bad_access = False,
      rc_null_access = False, rc_dead_mutex = False, rc_pc = (\<lambda>_. Idle)\<rparr>"

section \<open>Invariant\<close>

text \<open>
  The places where a thread holds the mutex, where it has taken the bufferevent and not freed it yet, and where it is in a callback of
  the bufferevent.
\<close>

fun holds_mutex :: "thread_pc \<Rightarrow> bool" where
  "holds_mutex SRead \<longleftrightarrow> True"
| "holds_mutex (SBranch b) \<longleftrightarrow> True"
| "holds_mutex SUnlock \<longleftrightarrow> True"
| "holds_mutex CTest \<longleftrightarrow> True"
| "holds_mutex (CUnlock b) \<longleftrightarrow> True"
| "holds_mutex (TRead k) \<longleftrightarrow> True"
| "holds_mutex (TClear k b) \<longleftrightarrow> True"
| "holds_mutex (TUnlock k b) \<longleftrightarrow> True"
| "holds_mutex _ \<longleftrightarrow> False"

fun has_taken :: "thread_pc \<Rightarrow> bool" where
  "has_taken (TUnlock k b) \<longleftrightarrow> b"
| "has_taken (TShutdown k b) \<longleftrightarrow> b"
| "has_taken (TFree k b) \<longleftrightarrow> True"
| "has_taken _ \<longleftrightarrow> False"

fun in_callback :: "thread_pc \<Rightarrow> bool" where
  "in_callback CLock \<longleftrightarrow> True"
| "in_callback CTest \<longleftrightarrow> True"
| "in_callback (CUnlock b) \<longleftrightarrow> True"
| "in_callback CUse \<longleftrightarrow> True"
| "in_callback CDone \<longleftrightarrow> True"
| "in_callback EPeek \<longleftrightarrow> True"
| "in_callback EInput \<longleftrightarrow> True"
| "in_callback EDrain \<longleftrightarrow> True"
| "in_callback EAnalyze \<longleftrightarrow> True"
| "in_callback (TLock k) \<longleftrightarrow> \<not> k"
| "in_callback (TRead k) \<longleftrightarrow> \<not> k"
| "in_callback (TClear k b) \<longleftrightarrow> \<not> k"
| "in_callback (TUnlock k b) \<longleftrightarrow> \<not> k"
| "in_callback (TShutdown k b) \<longleftrightarrow> \<not> k"
| "in_callback (TFree k b) \<longleftrightarrow> \<not> k"
| "in_callback (TEnd k) \<longleftrightarrow> \<not> k"
| "in_callback _ \<longleftrightarrow> False"

text \<open>What a thread knows of the pointer while it holds the mutex.\<close>

fun knows :: "thread_pc \<Rightarrow> bool \<Rightarrow> bool" where
  "knows (SBranch b) buf \<longleftrightarrow> b = buf"
| "knows (CUnlock b) buf \<longleftrightarrow> b = buf"
| "knows (TClear k b) buf \<longleftrightarrow> b = buf"
| "knows _ buf \<longleftrightarrow> True"

definition race_inv :: "race \<Rightarrow> bool" where
  "race_inv s \<longleftrightarrow>
     (\<forall>i. holds_mutex (rc_pc s i) \<longleftrightarrow> rc_owner s = Some i)
     \<and> (\<forall>i. knows (rc_pc s i) (rc_buf s))
     \<and> (rc_buf s \<longrightarrow> rc_owned s)
     \<and> (\<forall>i. has_taken (rc_pc s i) \<longrightarrow> \<not> rc_buf s \<and> rc_owned s)
     \<and> (\<forall>i j. has_taken (rc_pc s i) \<and> has_taken (rc_pc s j) \<longrightarrow> i = j)
     \<and> (\<forall>i. in_callback (rc_pc s i) \<longleftrightarrow> i \<in> set (rc_running s)) \<and> distinct (rc_running s)
     \<and> \<not> rc_bad_access s"

lemma race_init_inv: "race_inv race_init"
  by (simp add: race_inv_def race_init_def)

lemma knows_clear: "\<not> holds_mutex p \<Longrightarrow> knows p b"
  by (cases p) simp_all

lemma thread_facts:
  assumes "rc_pc s i = p" and "race_inv s"
  shows "(holds_mutex p \<longleftrightarrow> rc_owner s = Some i) \<and> knows p (rc_buf s) \<and> (has_taken p \<longrightarrow> \<not> rc_buf s \<and> rc_owned s)
    \<and> (has_taken p \<longrightarrow> (\<forall>j. has_taken (rc_pc s j) \<longrightarrow> j = i)) \<and> (in_callback p \<longleftrightarrow> i \<in> set (rc_running s))"
  using assms unfolding race_inv_def by metis

text \<open>The three reasons why a thread may use the bufferevent: the pointer is set, it has been taken, or a callback runs.\<close>

lemma use_bev_same:
  assumes "race_inv s" and "rc_buf s \<or> has_taken (rc_pc s i) \<or> in_callback (rc_pc s i)"
  shows "use_bev s = s"
proof -
  have "\<not> gone s" using assms unfolding race_inv_def gone_def by (metis empty_iff list.set(1))
  with assms(1) show ?thesis by (simp add: use_bev_def race_inv_def)
qed

lemmas race_ops = race_inv_def goto_def acquire_def release_def callback_begins_def callback_ends_def

lemma send_inv:
  assumes "send_step s s'" and "race_inv s"
  shows "race_inv s'"
  using assms
proof (induction rule: send_step.induct)
  case (send_write s i)
  have "use_bev s = s" using use_bev_same [OF send_write(2)] thread_facts [OF send_write] by simp
  with thread_facts [OF send_write] send_write show ?case by (force simp: race_ops)
qed (frule (1) thread_facts; force simp: race_ops)+

lemma callback_inv:
  assumes "callback_step True s s'" and "race_inv s"
  shows "race_inv s'"
  using assms
proof (induction rule: callback_step.induct)
  case (callback_use s i)
  have "use_bev s = s" using use_bev_same [OF callback_use(2), of i] callback_use(1) by simp
  with thread_facts [OF callback_use] callback_use show ?case by (force simp: race_ops)
qed (frule (1) thread_facts; force simp: race_ops)+

lemma event_inv:
  assumes "event_step True s s'" and "race_inv s"
  shows "race_inv s'"
  using assms
proof (induction rule: event_step.induct)
  case (event_input s i)
  have "use_bev s = s" using use_bev_same [OF event_input(2), of i] event_input(1) by simp
  with thread_facts [OF event_input] event_input show ?case by (force simp: race_ops)
next
  case (event_drain s i)
  have "use_bev s = s" using use_bev_same [OF event_drain(2), of i] event_drain(1) by simp
  with thread_facts [OF event_drain] event_drain show ?case by (force simp: race_ops)
next
  case (event_dns_error s i)
  have "use_bev s = s" using use_bev_same [OF event_dns_error(2), of i] event_dns_error(1) by simp
  with thread_facts [OF event_dns_error] event_dns_error show ?case by (force simp: race_ops)
qed (frule (1) thread_facts; force simp: race_ops)+

lemma take_inv:
  assumes "take_step s s'" and "race_inv s"
  shows "race_inv s'"
  using assms
proof (induction rule: take_step.induct)
  case (take_clear s i k b)
  have o: "rc_owner s = Some i" using thread_facts [OF take_clear] by simp
  then have other: "\<not> holds_mutex (rc_pc s j)" if "j \<noteq> i" for j
    using take_clear(2) that by (auto simp: race_inv_def)
  have "b = rc_buf s" "i \<in> set (rc_running s) \<longleftrightarrow> \<not> k" using thread_facts [OF take_clear] by simp_all
  with take_clear(2) o show ?case
    unfolding race_inv_def goto_def by (auto simp: other knows_clear)
next
  case (take_shutdown s i k)
  have "use_bev s = s" using use_bev_same [OF take_shutdown(2), of i] take_shutdown(1) by simp
  with thread_facts [OF take_shutdown] take_shutdown show ?case by (force simp: race_ops)
qed (frule (1) thread_facts; force simp: race_ops)+

lemma race_step_inv: "race_step True s s' \<Longrightarrow> race_inv s \<Longrightarrow> race_inv s'"
  by (induction rule: race_step.induct) (blast intro: send_inv callback_inv event_inv take_inv)+

lemma race_reaches_inv: "race_reaches True race_init s \<Longrightarrow> race_inv s"
  by (induction rule: race_reaches.induct) (auto intro: race_init_inv race_step_inv)

text \<open>
  (C22) Provided that libevent keeps a bufferevent until its callbacks are done, no interleaving of any number of threads that send, run the read, write and event callbacks, or clean up the same connection
  uses a bufferevent after its memory is gone, or frees it twice: the uses outside \<open>buf_mutex\<close> included. While a thread is between the test of the pointer and
  the end of its use in \<open>send\<close>, the bufferevent is not even freed, and one thread at most has taken it. What is not excluded is the null pointer that the event callback may
  read at the second of its two accesses without the mutex.
\<close>

theorem tcpd_race_no_use_after_free:
  assumes "race_reaches True race_init s"
  shows "\<not> rc_bad_access s \<and> (rc_buf s \<longrightarrow> rc_owned s) \<and> (rc_pc s i = SBranch True \<longrightarrow> rc_buf s \<and> rc_owned s)
    \<and> (in_callback (rc_pc s i) \<longrightarrow> \<not> gone s) \<and> (has_taken (rc_pc s i) \<and> has_taken (rc_pc s j) \<longrightarrow> i = j)"
proof -
  have inv: "race_inv s" by (rule race_reaches_inv [OF assms])
  have "rc_buf s" if "rc_pc s i = SBranch True" using thread_facts [OF that inv] by simp
  moreover have "\<not> gone s" if "in_callback (rc_pc s i)" using inv that unfolding race_inv_def gone_def by (metis empty_iff list.set(1))
  ultimately show ?thesis using inv unfolding race_inv_def by blast
qed

text \<open>
  Thread 1 is in the read callback, has compared the pointer and released the mutex; thread 0 takes the bufferevent away and frees it; thread 1 goes on to
  use it.
\<close>

definition overtaken :: "bool \<Rightarrow> race" where
  "overtaken kept =
     race_init\<lparr>rc_buf := False, rc_callbacks := False, rc_owned := False, rc_running := (if kept then [1] else []), rc_cleaned_up := True,
       rc_pc := (\<lambda>_. Idle)(1 := CUse, 0 := TEnd True)\<rparr>"

lemma overtaken_reached: "race_reaches kept race_init (overtaken kept)"
proof -
  define s1 where "s1 = goto 1 CLock (callback_begins kept 1 race_init)"
  define s2 where "s2 = goto 1 CTest (acquire 1 s1)"
  define s3 where "s3 = goto 1 (CUnlock (rc_buf s2)) s2"
  define s4 where "s4 = goto 1 (if True then CUse else CDone) (release s3)"
  define s5 where "s5 = goto 0 (TLock True) (s4\<lparr>rc_cleaned_up := True\<rparr>)"
  define s6 where "s6 = goto 0 (TRead True) (acquire 0 s5)"
  define s7 where "s7 = goto 0 (TClear True (rc_buf s6)) s6"
  define s8 where "s8 = goto 0 (TUnlock True True) (s7\<lparr>rc_buf := False\<rparr>)"
  define s9 where "s9 = goto 0 (TShutdown True True) (release s8)"
  define s10 where "s10 = goto 0 (TFree True True) ((use_bev s9)\<lparr>rc_callbacks := False\<rparr>)"
  define s11 where "s11 = goto 0 (TEnd True) (s10\<lparr>rc_bad_access := rc_bad_access s10 \<or> \<not> rc_owned s10, rc_owned := False\<rparr>)"
  note d = s1_def s2_def s3_def s4_def s5_def s6_def s7_def s8_def s9_def s10_def s11_def goto_def acquire_def release_def callback_begins_def use_bev_def gone_def race_init_def
  have "race_step kept race_init s1" unfolding s1_def by (rule read_write, rule callback_begin) (simp_all add: race_init_def)
  moreover have "race_step kept s1 s2" unfolding s2_def by (rule read_write, rule callback_lock) (simp_all add: d)
  moreover have "race_step kept s2 s3" unfolding s3_def by (rule read_write, rule callback_test) (simp add: d)
  moreover have "race_step kept s3 s4" unfolding s4_def by (rule read_write, rule callback_unlock) (simp add: d)
  moreover have "race_step kept s4 s5" unfolding s5_def by (rule taking, rule cleanup_begin) (simp_all add: d)
  moreover have "race_step kept s5 s6" unfolding s6_def by (rule taking, rule take_lock) (simp_all add: d)
  moreover have "race_step kept s6 s7" unfolding s7_def by (rule taking, rule take_read) (simp add: d)
  moreover have "race_step kept s7 s8" unfolding s8_def by (rule taking, rule take_clear) (simp add: d)
  moreover have "race_step kept s8 s9" unfolding s9_def by (rule taking, rule take_unlock) (simp add: d)
  moreover have "race_step kept s9 s10" unfolding s10_def by (rule taking, rule take_shutdown) (simp add: d)
  moreover have "race_step kept s10 s11" unfolding s11_def by (rule taking, rule take_free) (simp add: d)
  moreover have "s11 = overtaken kept" by (auto simp: d overtaken_def fun_eq_iff)
  ultimately show ?thesis by (metis race_next race_start)
qed

theorem tcpd_race_no_use_after_free_witness:
  "race_reaches True race_init (overtaken True) \<and> rc_pc (overtaken True) 1 = CUse \<and> \<not> rc_owned (overtaken True)
   \<and> \<not> gone (overtaken True) \<and> \<not> rc_bad_access (overtaken True)"
proof -
  have p: "rc_pc (overtaken True) 1 = CUse" "\<not> rc_owned (overtaken True)" by (simp_all add: overtaken_def)
  then have "in_callback (rc_pc (overtaken True) 1)" by simp
  then show ?thesis using tcpd_race_no_use_after_free [OF overtaken_reached, of 1 1] overtaken_reached p by blast
qed

text \<open>\<open>buf_mutex\<close> alone is not enough: without the reference that libevent holds, the use that follows is one of freed memory.\<close>

lemma mutex_not_enough: "\<exists>s. race_reaches False race_init s \<and> rc_bad_access s"
proof (intro exI conjI)
  show "race_reaches False race_init (goto 1 CUse (use_bev (overtaken False)))"
    by (rule race_next [OF overtaken_reached read_write [OF callback_use]]) (simp add: overtaken_def)
  show "rc_bad_access (goto 1 CUse (use_bev (overtaken False)))" by (simp add: goto_def use_bev_def gone_def overtaken_def)
qed

text \<open>The event callback reads the pointer twice without the mutex, and a cleanup in between makes the second one null.\<close>

lemma event_null_pointer: "\<exists>s. race_reaches True race_init s \<and> rc_null_access s"
proof -
  define s1 where "s1 = goto 1 EPeek (callback_begins True 1 race_init)"
  define s2 where "s2 = goto 1 (if rc_buf s1 then EInput else EAnalyze) s1"
  define s3 where "s3 = goto 0 (TLock True) (s2\<lparr>rc_cleaned_up := True\<rparr>)"
  define s4 where "s4 = goto 0 (TRead True) (acquire 0 s3)"
  define s5 where "s5 = goto 0 (TClear True (rc_buf s4)) s4"
  define s6 where "s6 = goto 0 (TUnlock True True) (s5\<lparr>rc_buf := False\<rparr>)"
  define s7 where "s7 = goto 1 EDrain (if rc_buf s6 then use_bev s6 else s6\<lparr>rc_null_access := True\<rparr>)"
  note d = s1_def s2_def s3_def s4_def s5_def s6_def s7_def goto_def acquire_def callback_begins_def race_init_def
  have "race_step True race_init s1" unfolding s1_def by (rule event, rule event_eof) (simp_all add: race_init_def)
  moreover have "race_step True s1 s2" unfolding s2_def by (rule event, rule event_peek) (simp add: d)
  moreover have "race_step True s2 s3" unfolding s3_def by (rule taking, rule cleanup_begin) (simp_all add: d)
  moreover have "race_step True s3 s4" unfolding s4_def by (rule taking, rule take_lock) (simp_all add: d)
  moreover have "race_step True s4 s5" unfolding s5_def by (rule taking, rule take_read) (simp add: d)
  moreover have "race_step True s5 s6" unfolding s6_def by (rule taking, rule take_clear) (simp add: d)
  moreover have "race_step True s6 s7" unfolding s7_def by (rule event, rule event_input) (simp add: d)
  ultimately have "race_reaches True race_init s7" by (metis race_next race_start)
  moreover have "rc_null_access s7" by (simp add: d)
  ultimately show ?thesis by blast
qed

end
