(* ===== verification/Tcpd_Server.thy ===== *)
theory Tcpd_Server
  imports Tcpd_Safety
begin

text \<open>
  The TCP server of \<open>src/tcpd_server.c\<close>: binding, rebinding and collecting a server object, and the listener that
  turns accepted sockets into connections, whose further life is in \<open>Tcpd\<close>.
\<close>

section \<open>Server objects\<close>

record tcpd_server =
  ts_listener :: bool
  ts_onAccept :: bool
  ts_onSSLHostName :: bool
  ts_host :: "string option"
  ts_port :: int
  ts_unix_path :: "string option"
  ts_ipv6 :: bool
  ts_config :: tcpd_config
  ts_ssl_ctx :: bool

text \<open>
  What the listener is bound to: the path of a Unix socket, a name with the text of the port, or any address. The
  files that are removed are recorded in order.
\<close>

datatype bind_address = BindUnix string | BindHost string string bool | BindAny int bool

record server_state =
  ss_server :: tcpd_server
  ss_bound :: "bind_address option"
  ss_unlinked :: "string list"

text \<open>
  The behaviour of the environment: whether a name can be resolved, whether \<open>evconnlistener_new_bind\<close> succeeds, and
  the name of the socket of the listener.
\<close>

record server_env =
  se_resolves :: "string \<Rightarrow> string \<Rightarrow> bool \<Rightarrow> bool"
  se_listens :: "bind_address \<Rightarrow> bool"
  se_fd :: int
  se_sockname :: sock_name

definition SUN_PATH_SIZE :: nat where "SUN_PATH_SIZE = 108"

text \<open>\<open>evutil_snprintf\<close> into a buffer of six bytes.\<close>

definition port_text :: "int \<Rightarrow> string" where
  "port_text port = take 5 (dec_text port)"

definition start_listener :: "server_env \<Rightarrow> bind_address \<Rightarrow> server_state \<Rightarrow> server_state" where
  "start_listener se a s =
     (if se_listens se a then s\<lparr>ss_server := (ss_server s)\<lparr>ts_listener := True\<rparr>, ss_bound := Some a\<rparr>
      else s\<lparr>ss_server := (ss_server s)\<lparr>ts_listener := False\<rparr>, ss_bound := None\<rparr>)"

text \<open>The flag of the result says whether an error is raised, which is when a name cannot be resolved.\<close>

definition tcpd_server_rebind :: "server_env \<Rightarrow> server_state \<Rightarrow> bool \<times> server_state" where
  "tcpd_server_rebind se s =
     (let s = s\<lparr>ss_server := (ss_server s)\<lparr>ts_listener := False\<rparr>, ss_bound := None\<rparr>;
          server = ss_server s
      in case ts_unix_path server of
           Some path \<Rightarrow>
             (False, start_listener se (BindUnix (take (SUN_PATH_SIZE - 1) path)) (s\<lparr>ss_unlinked := ss_unlinked s @ [path]\<rparr>))
         | None \<Rightarrow>
             (case ts_host server of
                Some host \<Rightarrow>
                  if \<not> se_resolves se host (port_text (ts_port server)) (ts_ipv6 server) then (True, s)
                  else (False, start_listener se (BindHost host (port_text (ts_port server)) (ts_ipv6 server)) s)
              | None \<Rightarrow> (False, start_listener se (BindAny (ts_port server mod 65536) (ts_ipv6 server)) s)))"

definition lua_tcpd_server_rebind :: "server_env \<Rightarrow> server_state \<Rightarrow> bool \<times> server_state" where
  "lua_tcpd_server_rebind se s = tcpd_server_rebind se s"

definition lua_tcpd_server_localinfo :: "server_env \<Rightarrow> server_state \<Rightarrow> (string \<times> nat) option" where
  "lua_tcpd_server_localinfo se s =
     (if \<not> ts_listener (ss_server s) then None
      else if se_fd se < 0 then None
      else case se_sockname se of NameInet ip port \<Rightarrow> Some (ip, port) | _ \<Rightarrow> None)"

definition regress_get_socket_port :: "sock_name \<Rightarrow> int" where
  "regress_get_socket_port name = (case name of NameInet ip port \<Rightarrow> int port | _ \<Rightarrow> -1)"

text \<open>
  The fields of the table given to \<open>bind\<close>. \<open>ba_ssl\<close> says whether the SSL context can be created; an error of its
  configuration is not looked at.
\<close>

record bind_args =
  ba_onaccept :: bool
  ba_onsslhostname :: bool
  ba_host :: "string option"
  ba_port :: "int option"
  ba_unix_path :: "string option"
  ba_table :: tcpd_table
  ba_ssl :: bool
  ba_ipv6 :: bool

text \<open>
  The two values on top of the stack are returned: the port and what lies below it. That is the server object, or the
  SSL context when one was created, which is never popped.
\<close>

datatype tcpd_bind_result = BoundServer int | BoundContext int | BoundNothing | BindError

definition tcpd_bind :: "server_env \<Rightarrow> bind_args \<Rightarrow> tcpd_bind_result \<times> server_state" where
  "tcpd_bind se a =
     (let config = tcpd_config_from_lua_table (ba_table a) tcpd_config_init;
          server = \<lparr>ts_listener = False, ts_onAccept = ba_onaccept a, ts_onSSLHostName = ba_onsslhostname a, ts_host = ba_host a,
                    ts_port = opt_int (ba_port a) 0, ts_unix_path = ba_unix_path a, ts_ipv6 = ba_ipv6 a, ts_config = config,
                    ts_ssl_ctx = (tc_ssl_enabled config \<and> ba_ssl a)\<rparr>
      in case tcpd_server_rebind se \<lparr>ss_server = server, ss_bound = None, ss_unlinked = []\<rparr> of
           (True, s) \<Rightarrow> (BindError, s)
         | (False, s) \<Rightarrow>
             if \<not> ts_listener (ss_server s) then (BoundNothing, s)
             else let port = (if ts_port (ss_server s) = 0 then regress_get_socket_port (se_sockname se) else ts_port (ss_server s))
                  in (if ts_ssl_ctx (ss_server s) then BoundContext port else BoundServer port, s\<lparr>ss_server := (ss_server s)\<lparr>ts_port := port\<rparr>\<rparr>))"

definition tcpd_server_gc :: "server_state \<Rightarrow> server_state" where
  "tcpd_server_gc s =
     (let server = ss_server s;
          s = (case ts_unix_path server of Some path \<Rightarrow> s\<lparr>ss_unlinked := ss_unlinked s @ [path]\<rparr> | None \<Rightarrow> s)
      in s\<lparr>ss_server := server\<lparr>ts_onAccept := False, ts_onSSLHostName := False, ts_listener := False, ts_host := None,
                               ts_unix_path := None, ts_ssl_ctx := False\<rparr>,
           ss_bound := None\<rparr>)"

definition tcpd_server_close :: "server_state \<Rightarrow> server_state" where
  "tcpd_server_close s = tcpd_server_gc s"

section \<open>The listener\<close>

text \<open>
  What becomes of an accepted socket: nothing, with the descriptor left open; an error, with the descriptor left open,
  when there is no bufferevent: the coroutine is resumed with one argument while the new object is still on its stack
  above the function, so that Lua tries to call the object; or a call of \<open>onaccept\<close> with a new connection, where the
  flag says whether the server object comes first.
\<close>

datatype accept_result = AcceptDropped | AcceptError | AcceptConn bool tcpd_world

text \<open>
  \<open>callable\<close> and \<open>bev\<close> say whether the slot of \<open>onaccept\<close> holds a function and whether the bufferevent can be created,
  \<open>workers\<close> is the number of worker threads, \<open>self\<close> whether the server object is still in the weak table. An address
  that is neither of the two families is read as if it were the second: the text stays empty and the port is whatever
  is at its place.
\<close>

definition tcpd_server_listener_cb ::
  "tcpd_env \<Rightarrow> bool \<Rightarrow> bool \<Rightarrow> nat \<Rightarrow> bool \<Rightarrow> sock_name \<Rightarrow> nat \<Rightarrow> tcpd_call list list \<Rightarrow> tcpd_server \<Rightarrow> accept_result" where
  "tcpd_server_listener_cb te callable bev workers self peer stray lua server =
     (if \<not> ts_onAccept server then AcceptDropped
      else if \<not> te_co te \<or> \<not> callable then AcceptDropped
      else if \<not> bev then AcceptError
      else
        let ip = (case peer of NameInet ip port \<Rightarrow> ip | _ \<Rightarrow> []);
            port = (case peer of NameInet ip port \<Rightarrow> int port | _ \<Rightarrow> int stray);
            w = tcpd_accept_new te (ts_config server) (0 < workers) ip port (case lua of [] \<Rightarrow> [] | cs # rest \<Rightarrow> rest);
            calls = (case lua of [] \<Rightarrow> [] | cs # rest \<Rightarrow> cs)
        in AcceptConn (tc_callback_self_first (ts_config server) \<and> self) (fold (tcpd_call_step te) calls w))"

section \<open>What holds\<close>

text \<open>The connections that the listener hands out satisfy the invariant of connections.\<close>

lemma accepted_inv:
  assumes "tcpd_server_listener_cb te callable bev workers self peer stray lua server = AcceptConn b w"
  shows "tcpd_inv w"
proof -
  let ?rest = "case lua of [] \<Rightarrow> [] | cs # rest \<Rightarrow> rest"
  have "\<exists>ip port cs. w = fold (tcpd_call_step te) cs (tcpd_accept_new te (ts_config server) (0 < workers) ip port ?rest)"
    using assms unfolding tcpd_server_listener_cb_def Let_def by (metis accept_result.distinct accept_result.inject)
  then obtain ip port cs where
    w: "w = fold (tcpd_call_step te) cs (tcpd_accept_new te (ts_config server) (0 < workers) ip port ?rest)" by blast
  have "tcpd_inv (fold (tcpd_call_step te) cs u)" if "tcpd_inv u" for u
    using that
  proof (induction cs arbitrary: u)
    case (Cons c cs)
    have "tcpd_step te (TcCall c) u = tcpd_call_step te c u" by (simp add: tcpd_step_def)
    with step_inv(1) [OF Cons.prems, of "TcCall c" te] have "tcpd_inv (tcpd_call_step te c u)" by simp
    with Cons.IH show ?case by simp
  qed simp
  from this [OF accept_inv] show ?thesis unfolding w .
qed

text \<open>A port of up to five digits is passed on; the text of a longer one is cut off and names another port.\<close>

lemma port_text_cut: "port_text 80 = ''80''" "port_text 65535 = ''65535''" "port_text 123456 = ''12345''"
  by (simp_all add: port_text_def dec_text_def int_text_def decimal.simps char_of_def bit_0)

text \<open>
  A path that is too long for a socket address is bound under a shorter name, but the file with the long name is
  removed.
\<close>

lemma long_path_cut:
  assumes "ts_unix_path (ss_server s) = Some path" and "107 < length path" and "se_listens se (BindUnix (take 107 path))"
  shows "ss_bound (snd (tcpd_server_rebind se s)) = Some (BindUnix (take 107 path))"
    and "ss_unlinked (snd (tcpd_server_rebind se s)) = ss_unlinked s @ [path]" and "take 107 path \<noteq> path"
  using assms by (auto simp: tcpd_server_rebind_def Let_def SUN_PATH_SIZE_def start_listener_def)

text \<open>A server that is collected or closed has given everything back, and closing it again changes nothing.\<close>

lemma server_gc_clean:
  "\<not> ts_listener (ss_server (tcpd_server_gc s)) \<and> \<not> ts_onAccept (ss_server (tcpd_server_gc s))
   \<and> \<not> ts_ssl_ctx (ss_server (tcpd_server_gc s)) \<and> ss_bound (tcpd_server_gc s) = None"
  "tcpd_server_gc (tcpd_server_gc s) = tcpd_server_gc s"
  by (simp_all add: tcpd_server_gc_def Let_def split: option.splits)

text \<open>Binding with SSL returns the SSL context in place of the server object.\<close>

lemma ssl_bind_returns_context:
  assumes "lt_ssl (ba_table a)" and "ba_ssl a" and "tcpd_bind se a = (r, s)"
  shows "r \<noteq> BoundServer port"
  using assms
  by (auto simp: tcpd_bind_def tcpd_server_rebind_def start_listener_def tcpd_config_from_lua_table_def Let_def
      split: if_splits option.splits)

end
