(* ===== verification/Tcpd_Ssl.thy ===== *)
theory Tcpd_Ssl
  imports Stream "HOL-Library.AList"
begin

text \<open>
  The SSL contexts of \<open>src/tcpd_ssl.c\<close>: the cache key, the cache in the Lua registry with its retain counts, the
  configuration of a context, and the SSL side of a bufferevent. A context is a userdata that Lua collects when it is
  in no table any more; the connections and servers that hold it point to it without keeping it alive. OpenSSL is a
  parameter: what its functions return. Its own objects are the sequence of settings that were made.
\<close>

section \<open>Contexts\<close>

datatype ssl_setting =
    VerifyLocations "bytes option" "bytes option"
  | DefaultVerifyPaths
  | Certificate bytes
  | PrivateKey bytes
  | Pkcs12Certificate
  | Pkcs12PrivateKey
  | ExtraChainCerts nat
  | ReleaseBuffers
  | NoCompression
  | VerifyPeerCallback

record ssl_context =
  sx_ssl_ctx :: "ssl_setting list option"
  sx_cache_key :: "bytes option"
  sx_retain_count :: int
  sx_configured :: bool
  sx_cert_file :: "bytes option"
  sx_key_file :: "bytes option"
  sx_ca_info :: "bytes option"
  sx_ca_path :: "bytes option"
  sx_pkcs12_path :: "bytes option"
  sx_pkcs12_password :: "bytes option"
  sx_verify_peer :: int
  sx_verify_host :: int

text \<open>The fields of the table given to \<open>connect\<close> or \<open>bind\<close> that matter here.\<close>

record ssl_table =
  st_cert :: "bytes option"
  st_key :: "bytes option"
  st_cainfo :: "bytes option"
  st_capath :: "bytes option"
  st_pkcs12_path :: "bytes option"
  st_pkcs12_password :: "bytes option"
  st_verifyhost :: "int option"
  st_verifypeer :: "int option"
  st_ssl_host :: "bytes option"
  st_host :: "bytes option"

text \<open>
  What the calls to OpenSSL, libevent and the file system return. \<open>sv_pkcs12\<close> is None when the file cannot be opened,
  read or parsed, and otherwise says whether there are a certificate and a key, and how many further certificates;
  the flag of \<open>sv_access\<close> asks for a directory.
\<close>

record ssl_env =
  sv_al :: allocator
  sv_ctx_new :: bool
  sv_load_verify :: "bytes option \<Rightarrow> bytes option \<Rightarrow> bool"
  sv_default_paths :: bool
  sv_access :: "bool \<Rightarrow> bytes \<Rightarrow> bool"
  sv_use_certificate :: "bytes \<Rightarrow> bool"
  sv_use_key :: "bytes \<Rightarrow> bool"
  sv_check_key :: "bytes \<Rightarrow> bytes \<Rightarrow> bool"
  sv_pkcs12 :: "bytes \<Rightarrow> bytes option \<Rightarrow> (bool \<times> bool \<times> nat) option"
  sv_ssl_new :: bool
  sv_set1_host :: bool
  sv_bev :: bool

definition strdup_bytes :: "allocator \<Rightarrow> bytes \<Rightarrow> bytes option" where
  "strdup_bytes al s = (if can_alloc al (length (c_string s) + 1) then Some (c_string s) else None)"

definition tcpd_ssl_context_create :: ssl_context where
  "tcpd_ssl_context_create =
     \<lparr>sx_ssl_ctx = None, sx_cache_key = None, sx_retain_count = 1, sx_configured = False, sx_cert_file = None,
      sx_key_file = None, sx_ca_info = None, sx_ca_path = None, sx_pkcs12_path = None, sx_pkcs12_password = None,
      sx_verify_peer = 1, sx_verify_host = 1\<rparr>"

section \<open>Configuration\<close>

text \<open>
  The functions that load files return 0 or -1 with the settings that were made, also those before a failure. The
  caller does not look at the results.
\<close>

definition tcpd_ssl_load_cert_and_key :: "ssl_env \<Rightarrow> bytes \<Rightarrow> bytes \<Rightarrow> int \<times> ssl_setting list" where
  "tcpd_ssl_load_cert_and_key env cert_file key_file =
     (if \<not> sv_use_certificate env cert_file then (-1, [])
      else if \<not> sv_use_key env key_file then (-1, [Certificate cert_file])
      else (if sv_check_key env cert_file key_file then 0 else -1, [Certificate cert_file, PrivateKey key_file]))"

definition tcpd_ssl_load_pkcs12 :: "ssl_env \<Rightarrow> bytes \<Rightarrow> bytes option \<Rightarrow> int \<times> ssl_setting list" where
  "tcpd_ssl_load_pkcs12 env p12_path password =
     (case sv_pkcs12 env p12_path password of
        None \<Rightarrow> (-1, [])
      | Some (cert, pkey, ca) \<Rightarrow>
          (0, (if cert then [Pkcs12Certificate] else []) @ (if pkey then [Pkcs12PrivateKey] else [])
              @ (if 0 < ca then [ExtraChainCerts ca] else [])))"

definition tcpd_ssl_setup_ca_verification :: "ssl_env \<Rightarrow> bytes option \<Rightarrow> bytes option \<Rightarrow> int \<times> ssl_setting list" where
  "tcpd_ssl_setup_ca_verification env ca_info ca_path =
     (if sv_load_verify env ca_info ca_path then (0, [VerifyLocations ca_info ca_path]) else (-1, []))"

definition ca_files :: "bytes list" where
  "ca_files = map (map of_char)
     [''cacert.pem'', ''cert.pem'', ''/etc/ssl/cert.pem'', ''/etc/ssl/certs/ca-certificates.crt'',
      ''/etc/pki/tls/certs/ca-bundle.crt'', ''/etc/ssl/ca-bundle.pem'', ''/usr/local/etc/openssl@3/cert.pem'',
      ''/opt/homebrew/etc/openssl@3/cert.pem'', ''/usr/local/etc/openssl/cert.pem'', ''/opt/homebrew/etc/openssl/cert.pem'']"

definition ca_dirs :: "bytes list" where
  "ca_dirs = map (map of_char) [''/etc/ssl/certs'', ''/etc/pki/tls/certs'']"

text \<open>The loop over the candidates: the first one that can be accessed and loaded.\<close>

fun first_loadable ::
  "(bytes \<Rightarrow> bool) \<Rightarrow> (bytes \<Rightarrow> bytes option \<times> bytes option) \<Rightarrow> ssl_env \<Rightarrow> bytes list \<Rightarrow> ssl_setting list option" where
  "first_loadable acc arg env [] = None"
| "first_loadable acc arg env (p # ps) =
     (if \<not> acc p then first_loadable acc arg env ps
      else if sv_load_verify env (fst (arg p)) (snd (arg p)) then Some [VerifyLocations (fst (arg p)) (snd (arg p))]
      else first_loadable acc arg env ps)"

definition tcpd_ssl_setup_default_ca_verification :: "ssl_env \<Rightarrow> int \<times> ssl_setting list" where
  "tcpd_ssl_setup_default_ca_verification env =
     (if sv_default_paths env then (0, [DefaultVerifyPaths])
      else case first_loadable (sv_access env False) (\<lambda>p. (Some p, None)) env ca_files of
             Some settings \<Rightarrow> (0, settings)
           | None \<Rightarrow>
               (case first_loadable (sv_access env True) (\<lambda>p. (None, Some p)) env ca_dirs of
                  Some settings \<Rightarrow> (0, settings)
                | None \<Rightarrow> (-1, [])))"

text \<open>
  A string field is copied when it is a string; when the copy cannot be allocated the field is NULL and an error is
  raised. The continuation is the rest of the function.
\<close>

definition dup_into ::
  "allocator \<Rightarrow> bytes option \<Rightarrow> (bytes option \<Rightarrow> ssl_context \<Rightarrow> ssl_context) \<Rightarrow> string
     \<Rightarrow> (ssl_context \<Rightarrow> (string + int) \<times> ssl_context) \<Rightarrow> ssl_context \<Rightarrow> (string + int) \<times> ssl_context" where
  "dup_into al v upd name k ctx =
     (case v of
        None \<Rightarrow> k ctx
      | Some s \<Rightarrow>
          (case strdup_bytes al s of
             None \<Rightarrow> (Inl (''memory allocation failed for '' @ name), upd None ctx)
           | Some d \<Rightarrow> k (upd (Some d) ctx)))"

definition configure_ssl_ctx :: "ssl_env \<Rightarrow> ssl_table \<Rightarrow> ssl_context \<Rightarrow> (string + int) \<times> ssl_context" where
  "configure_ssl_ctx env t ctx =
     (let ctx = ctx\<lparr>sx_verify_host := (case st_verifyhost t of Some z \<Rightarrow> c_int z | None \<Rightarrow> sx_verify_host ctx),
                    sx_verify_peer := (case st_verifypeer t of Some z \<Rightarrow> c_int z | None \<Rightarrow> sx_verify_peer ctx)\<rparr>
      in if \<not> sv_ctx_new env then (Inr (-1), ctx\<lparr>sx_ssl_ctx := None\<rparr>)
         else
           let ca = snd (if sx_ca_info ctx \<noteq> None \<or> sx_ca_path ctx \<noteq> None
                         then tcpd_ssl_setup_ca_verification env (sx_ca_info ctx) (sx_ca_path ctx)
                         else tcpd_ssl_setup_default_ca_verification env);
               ck = (case (sx_cert_file ctx, sx_key_file ctx) of
                       (Some c, Some k) \<Rightarrow> snd (tcpd_ssl_load_cert_and_key env c k) | _ \<Rightarrow> []);
               p12 = (case sx_pkcs12_path ctx of
                        Some p \<Rightarrow> snd (tcpd_ssl_load_pkcs12 env p (sx_pkcs12_password ctx)) | None \<Rightarrow> [])
           in (Inr 0, ctx\<lparr>sx_ssl_ctx := Some (ca @ ck @ p12 @ [ReleaseBuffers, NoCompression, VerifyPeerCallback]),
                          sx_configured := True\<rparr>))"

definition tcpd_ssl_context_configure :: "ssl_env \<Rightarrow> ssl_table \<Rightarrow> ssl_context \<Rightarrow> (string + int) \<times> ssl_context" where
  "tcpd_ssl_context_configure env t ctx =
     (if sx_configured ctx then (Inr 0, ctx)
      else dup_into (sv_al env) (st_cert t) (\<lambda>v c. c\<lparr>sx_cert_file := v\<rparr>) ''cert_file''
          (dup_into (sv_al env) (st_key t) (\<lambda>v c. c\<lparr>sx_key_file := v\<rparr>) ''key_file''
          (dup_into (sv_al env) (st_cainfo t) (\<lambda>v c. c\<lparr>sx_ca_info := v\<rparr>) ''ca_info''
          (dup_into (sv_al env) (st_capath t) (\<lambda>v c. c\<lparr>sx_ca_path := v\<rparr>) ''ca_path''
          (dup_into (sv_al env) (st_pkcs12_path t) (\<lambda>v c. c\<lparr>sx_pkcs12_path := v\<rparr>) ''pkcs12_path''
          (dup_into (sv_al env) (st_pkcs12_password t) (\<lambda>v c. c\<lparr>sx_pkcs12_password := v\<rparr>) ''pkcs12_password''
          (configure_ssl_ctx env t)))))) ctx)"

section \<open>Cache key\<close>

text \<open>
  The key is written into a byte array whose results are ignored, closed with a zero byte, and copied with \<open>strdup\<close>. The
  outer None is undefined behaviour: a NULL buffer or one without a zero byte.
\<close>

datatype key_part = KeyText bytes | KeyByte u8

definition put_part :: "allocator \<Rightarrow> BYTEARRAY \<Rightarrow> key_part \<Rightarrow> BYTEARRAY option" where
  "put_part al ba p =
     map_option snd (case p of KeyText s \<Rightarrow> bytearray_writebuffer al ba (c_string s) | KeyByte b \<Rightarrow> bytearray_write8 al ba b)"

definition copy_key :: "allocator \<Rightarrow> BYTEARRAY \<Rightarrow> bytes option option" where
  "copy_key al ba =
     (case ba_buffer ba of
        None \<Rightarrow> None
      | Some b \<Rightarrow> if 0 \<in> set b then Some (strdup_bytes al b) else None)"

definition write_key :: "allocator \<Rightarrow> key_part list \<Rightarrow> bytes option option" where
  "write_key al parts =
     (case put_seq put_part al parts (snd (bytearray_alloc al zero_ba 1024)) of
        None \<Rightarrow> None
      | Some ba \<Rightarrow> copy_key al (snd (bytearray_read_ready ba)))"

definition opt_text :: "bytes option \<Rightarrow> key_part list" where
  "opt_text v = (case v of Some s \<Rightarrow> [KeyText s] | None \<Rightarrow> [])"

definition tcpd_ssl_generate_cache_key :: "allocator \<Rightarrow> ssl_context \<Rightarrow> bytes option option" where
  "tcpd_ssl_generate_cache_key al ctx =
     write_key al ([KeyText (map of_char ''SSL_CTX:'')] @ opt_text (sx_ca_info ctx) @ [KeyByte 0x1F] @ opt_text (sx_ca_path ctx)
       @ [KeyByte 0x1F] @ opt_text (sx_pkcs12_path ctx) @ [KeyByte 0x1F] @ opt_text (sx_pkcs12_password ctx) @ [KeyByte 0])"

definition key_parts :: "ssl_table \<Rightarrow> key_part list" where
  "key_parts t =
     [KeyText (map of_char ''SSL_CTX:''), KeyText (case st_cainfo t of Some s \<Rightarrow> s | None \<Rightarrow> map of_char ''default_ca''), KeyByte 0x1F]
     @ opt_text (st_capath t) @ [KeyByte 0x1F] @ opt_text (st_pkcs12_path t) @ [KeyByte 0x1F]
     @ opt_text (st_pkcs12_password t) @ [KeyByte 0]"

definition tcpd_ssl_generate_cache_key_from_table :: "allocator \<Rightarrow> ssl_table \<Rightarrow> bytes option option" where
  "tcpd_ssl_generate_cache_key_from_table al t = write_key al (key_parts t)"

section \<open>Bufferevents\<close>

text \<open>
  The SSL fields of a client and what was set on its SSL object: the name that the certificate is checked against, the
  verification mode (None keeps that of the context, which verifies), and the name sent to the server.
\<close>

record ssl_client =
  sl_ssl :: bool
  sl_ssl_host :: "bytes option"
  sl_check_host :: "bytes option"
  sl_verify_peer :: "bool option"
  sl_server_name :: "bytes option"
  sl_error_message :: "bytes option"

definition no_ssl :: ssl_client where
  "no_ssl = \<lparr>sl_ssl = False, sl_ssl_host = None, sl_check_host = None, sl_verify_peer = None, sl_server_name = None,
             sl_error_message = None\<rparr>"

definition tcpd_ssl_set_client_error :: "allocator \<Rightarrow> bytes option \<Rightarrow> ssl_client \<Rightarrow> ssl_client" where
  "tcpd_ssl_set_client_error al err cl = cl\<lparr>sl_error_message := Option.bind err (strdup_bytes al)\<rparr>"

definition tcpd_ssl_get_client_error :: "ssl_client \<Rightarrow> bytes option" where
  "tcpd_ssl_get_client_error cl = sl_error_message cl"

text \<open>The verification callback passes on the verdict of OpenSSL and records the text of an error for a client.\<close>

definition tcpd_ssl_verify_callback ::
  "allocator \<Rightarrow> bool \<Rightarrow> bytes \<Rightarrow> ssl_client option \<Rightarrow> bool \<times> ssl_client option" where
  "tcpd_ssl_verify_callback al preverify_ok err client =
     (preverify_ok,
      if preverify_ok then client else map_option (tcpd_ssl_set_client_error al (Some err)) client)"

definition tcpd_ssl_create_client_bufferevent ::
  "ssl_env \<Rightarrow> ssl_context \<Rightarrow> bytes option \<Rightarrow> ssl_client \<Rightarrow> bool \<times> ssl_client" where
  "tcpd_ssl_create_client_bufferevent env ctx hostname cl =
     (if sx_ssl_ctx ctx = None then (False, cl)
      else if \<not> sv_ssl_new env then (False, cl\<lparr>sl_ssl := False\<rparr>)
      else
        let cl = cl\<lparr>sl_ssl := True\<rparr>;
            cl = (case hostname of
                    Some h \<Rightarrow>
                      cl\<lparr>sl_ssl_host := strdup_bytes (sv_al env) h,
                         sl_check_host := (if sx_verify_host ctx \<noteq> 0 \<and> sv_set1_host env then Some (c_string h) else None),
                         sl_verify_peer := Some (sx_verify_peer ctx \<noteq> 0),
                         sl_server_name := Some (c_string h)\<rparr>
                  | None \<Rightarrow> cl)
        in if \<not> sv_bev env then (False, cl\<lparr>sl_ssl := False, sl_ssl_host := None\<rparr>) else (True, cl))"

definition tcpd_ssl_create_server_bufferevent :: "ssl_env \<Rightarrow> ssl_context \<Rightarrow> bool" where
  "tcpd_ssl_create_server_bufferevent env ctx = (sx_ssl_ctx ctx \<noteq> None \<and> sv_ssl_new env \<and> sv_bev env)"

section \<open>The cache\<close>

text \<open>
  The contexts that are not collected, the cache in the registry, for every connection the context it holds and its
  SSL fields, and the contexts that servers hold.
\<close>

record ssl_world =
  xw_ctxs :: "nat \<Rightarrow> ssl_context option"
  xw_next :: nat
  xw_registry :: "(bytes \<times> nat) list"
  xw_conns :: "nat option list"
  xw_clients :: "ssl_client list"
  xw_servers :: "nat option list"

definition ssl_initial :: ssl_world where
  "ssl_initial = \<lparr>xw_ctxs = \<lambda>_. None, xw_next = 0, xw_registry = [], xw_conns = [], xw_clients = [], xw_servers = []\<rparr>"

definition upd_ctx :: "nat \<Rightarrow> (ssl_context \<Rightarrow> ssl_context) \<Rightarrow> ssl_world \<Rightarrow> ssl_world" where
  "upd_ctx a f w = w\<lparr>xw_ctxs := (xw_ctxs w)(a := map_option f (xw_ctxs w a))\<rparr>"

definition new_context :: "ssl_context \<Rightarrow> ssl_world \<Rightarrow> nat \<times> ssl_world" where
  "new_context c w = (xw_next w, w\<lparr>xw_ctxs := (xw_ctxs w)(xw_next w \<mapsto> c), xw_next := xw_next w + 1\<rparr>)"

definition tcpd_ssl_context_retain :: "ssl_context \<Rightarrow> ssl_context" where
  "tcpd_ssl_context_retain c = c\<lparr>sx_retain_count := c_int (sx_retain_count c + 1)\<rparr>"

text \<open>None is the use of a context that was collected.\<close>

definition tcpd_ssl_context_get_or_create :: "allocator \<Rightarrow> bytes \<Rightarrow> ssl_world \<Rightarrow> (nat \<times> ssl_world) option" where
  "tcpd_ssl_context_get_or_create al cache_key w =
     (case map_of (xw_registry w) cache_key of
        Some a \<Rightarrow>
          (case xw_ctxs w a of
             None \<Rightarrow> None
           | Some c \<Rightarrow> Some (a, upd_ctx a (\<lambda>c. c\<lparr>sx_retain_count := c_int (sx_retain_count c + 1)\<rparr>) w))
      | None \<Rightarrow>
          (case new_context (tcpd_ssl_context_create\<lparr>sx_cache_key := strdup_bytes al cache_key\<rparr>) w of
             (a, w) \<Rightarrow> Some (a, w\<lparr>xw_registry := AList.update cache_key a (xw_registry w)\<rparr>)))"

text \<open>
  The release in two halves, as they can be separated by another thread: the count, whose old value is returned, and the
  removal from the cache.
\<close>

definition release_count :: "nat \<Rightarrow> ssl_world \<Rightarrow> (int \<times> ssl_world) option" where
  "release_count a w =
     (case xw_ctxs w a of
        None \<Rightarrow> None
      | Some c \<Rightarrow> Some (sx_retain_count c, upd_ctx a (\<lambda>c. c\<lparr>sx_retain_count := c_int (sx_retain_count c - 1)\<rparr>) w))"

definition release_uncache :: "int \<Rightarrow> nat \<Rightarrow> ssl_world \<Rightarrow> ssl_world option" where
  "release_uncache prev a w =
     (if prev \<le> 1
      then case xw_ctxs w a of
             None \<Rightarrow> None
           | Some c \<Rightarrow> Some (case sx_cache_key c of
                               Some key \<Rightarrow> w\<lparr>xw_registry := AList.delete key (xw_registry w)\<rparr>
                             | None \<Rightarrow> w)
      else Some w)"

definition tcpd_ssl_context_release :: "nat \<Rightarrow> ssl_world \<Rightarrow> ssl_world option" where
  "tcpd_ssl_context_release a w =
     (case release_count a w of None \<Rightarrow> None | Some (prev, w) \<Rightarrow> release_uncache prev a w)"

text \<open>The finaliser frees the OpenSSL context and the strings; then Lua frees the object.\<close>

definition tcpd_ssl_context_gc :: "ssl_context \<Rightarrow> ssl_context" where
  "tcpd_ssl_context_gc c =
     c\<lparr>sx_ssl_ctx := None, sx_cache_key := None, sx_cert_file := None, sx_key_file := None, sx_ca_info := None,
       sx_ca_path := None, sx_pkcs12_path := None, sx_pkcs12_password := None\<rparr>"

text \<open>
  The SSL part of \<open>connect\<close>. When the configuration fails the connection still holds the context; its finaliser
  releases it.
\<close>

definition ssl_connect :: "ssl_env \<Rightarrow> ssl_table \<Rightarrow> ssl_world \<Rightarrow> ssl_world option" where
  "ssl_connect env t w =
     (case tcpd_ssl_generate_cache_key_from_table (sv_al env) t of
        None \<Rightarrow> None
      | Some None \<Rightarrow> Some (w\<lparr>xw_conns := xw_conns w @ [None], xw_clients := xw_clients w @ [no_ssl]\<rparr>)
      | Some (Some key) \<Rightarrow>
          (case tcpd_ssl_context_get_or_create (sv_al env) key w of
             None \<Rightarrow> None
           | Some (a, w) \<Rightarrow>
               (case xw_ctxs w a of
                  None \<Rightarrow> None
                | Some c \<Rightarrow>
                    let (r, c) = tcpd_ssl_context_configure env t c;
                        host = (case st_ssl_host t of Some h \<Rightarrow> Some h | None \<Rightarrow> st_host t);
                        cl = (if r = Inr 0 then snd (tcpd_ssl_create_client_bufferevent env c host no_ssl) else no_ssl)
                    in Some (w\<lparr>xw_ctxs := (xw_ctxs w)(a \<mapsto> c), xw_conns := xw_conns w @ [Some a],
                               xw_clients := xw_clients w @ [cl]\<rparr>))))"

text \<open>A connection releases its context once, when it is cleaned up.\<close>

definition ssl_disconnect :: "nat \<Rightarrow> ssl_world \<Rightarrow> ssl_world option" where
  "ssl_disconnect i w =
     (if i < length (xw_conns w)
      then case xw_conns w ! i of
             None \<Rightarrow> Some w
           | Some a \<Rightarrow> map_option (\<lambda>w. w\<lparr>xw_conns := (xw_conns w)[i := None]\<rparr>) (tcpd_ssl_context_release a w)
      else Some w)"

text \<open>A context that is not in the cache is unreachable for Lua and may be collected at any time.\<close>

definition cached :: "nat \<Rightarrow> ssl_world \<Rightarrow> bool" where
  "cached a w \<longleftrightarrow> list_ex (\<lambda>(k, _). map_of (xw_registry w) k = Some a) (xw_registry w)"

definition ssl_collect :: "nat \<Rightarrow> ssl_world \<Rightarrow> ssl_world" where
  "ssl_collect a w = (if cached a w then w else w\<lparr>xw_ctxs := (xw_ctxs w)(a := None)\<rparr>)"

text \<open>The SSL part of \<open>bind\<close> and of the listener of a server, and the end of a server.\<close>

definition ssl_bind :: "ssl_env \<Rightarrow> ssl_table \<Rightarrow> ssl_world \<Rightarrow> ssl_world" where
  "ssl_bind env t w =
     (case new_context (snd (tcpd_ssl_context_configure env t tcpd_ssl_context_create)) w of
        (a, w) \<Rightarrow> w\<lparr>xw_servers := xw_servers w @ [Some a]\<rparr>)"

definition ssl_accept :: "ssl_env \<Rightarrow> nat \<Rightarrow> ssl_world \<Rightarrow> bool option" where
  "ssl_accept env i w =
     (case xw_servers w ! i of
        None \<Rightarrow> Some False
      | Some a \<Rightarrow> map_option (tcpd_ssl_create_server_bufferevent env) (xw_ctxs w a))"

datatype ssl_op = SslConnect ssl_table | SslDisconnect nat | SslCollect nat | SslBind ssl_table

definition ssl_step :: "ssl_env \<Rightarrow> ssl_op \<Rightarrow> ssl_world \<Rightarrow> ssl_world option" where
  "ssl_step env x w =
     (case x of
        SslConnect t \<Rightarrow> ssl_connect env t w
      | SslDisconnect i \<Rightarrow> ssl_disconnect i w
      | SslCollect a \<Rightarrow> Some (ssl_collect a w)
      | SslBind t \<Rightarrow> Some (ssl_bind env t w))"

section \<open>The key\<close>

primrec part_bytes :: "key_part \<Rightarrow> bytes" where
  "part_bytes (KeyText s) = c_string s"
| "part_bytes (KeyByte b) = [b]"

interpretation key_sink: byte_sink put_part part_bytes
proof
  fix al ba p
  assume "roomy al" "growable ba" "ba_offset ba + length (part_bytes p) \<le> 2 ^ 62"
  then show "\<exists>ba'. put_part al ba p = Some ba' \<and> appended ba (part_bytes p) ba'"
    using write_value_roomy [of al ba "c_string s" for s] write8_roomy [of al ba]
    by (cases p) (fastforce simp: put_part_def bytearray_writebuffer_optimized_def)+
qed

lemma c_string_append_0: "0 \<notin> set s \<Longrightarrow> c_string (s @ 0 # r) = s"
  by (induction s) (auto simp: c_string_def)

lemma c_string_no_0: "0 \<notin> set (c_string s)"
  by (auto simp: c_string_def dest: set_takeWhileD)

text \<open>With enough memory the key is the text of its parts up to the final zero byte.\<close>

lemma write_key_text:
  assumes "roomy al" and n: "0 \<notin> set (concat (map part_bytes parts))"
    and len: "length (concat (map part_bytes parts)) < 2 ^ 62"
  shows "write_key al (parts @ [KeyByte 0]) = Some (Some (concat (map part_bytes parts)))"
proof -
  let ?s = "concat (map part_bytes parts)"
  let ?ba = "snd (bytearray_alloc al zero_ba 1024)"
  note e = alloc_empty [OF assms(1), of zero_ba 1024]
  have "concat (map part_bytes (parts @ [KeyByte 0])) = ?s @ [0]" by simp
  with key_sink.put_seq_enc [OF assms(1) e(1), of "parts @ [KeyByte 0]"] e(4) len
  obtain ba where p: "put_seq put_part al (parts @ [KeyByte 0]) ?ba = Some ba" and a: "appended ?ba (?s @ [0]) ba"
    by auto
  from appended_from_empty [OF a e(2,3)] obtain b where b: "ba_buffer ba = Some b" "take (ba_offset ba) b = ?s @ [0]"
      "\<not> ba_reading ba"
    by (auto simp: written_def ba_wf_def split: option.splits)
  then have "b = ?s @ 0 # drop (ba_offset ba) b" using append_take_drop_id [of "ba_offset ba" b] by simp
  then have "c_string b = ?s" "0 \<in> set b" using c_string_append_0 [OF n] by (metis, metis in_set_conv_decomp)
  with p b assms(1) show ?thesis
    by (simp add: write_key_def copy_key_def bytearray_read_ready_def strdup_bytes_def roomy_def)
qed

text \<open>The text of the key of a table: the certificate and key files and the two verification flags are not in it.\<close>

definition cache_key_text :: "ssl_table \<Rightarrow> bytes" where
  "cache_key_text t =
     map of_char ''SSL_CTX:'' @ c_string (case st_cainfo t of Some s \<Rightarrow> s | None \<Rightarrow> map of_char ''default_ca'') @ [0x1F]
     @ c_string (case st_capath t of Some s \<Rightarrow> s | None \<Rightarrow> []) @ [0x1F]
     @ c_string (case st_pkcs12_path t of Some s \<Rightarrow> s | None \<Rightarrow> []) @ [0x1F]
     @ c_string (case st_pkcs12_password t of Some s \<Rightarrow> s | None \<Rightarrow> [])"

definition ssl_table_ok :: "ssl_table \<Rightarrow> bool" where
  "ssl_table_ok t \<longleftrightarrow> length (cache_key_text t) < 2 ^ 62"

lemma generated_key:
  assumes "roomy al" and "ssl_table_ok t"
  shows "tcpd_ssl_generate_cache_key_from_table al t = Some (Some (cache_key_text t))"
proof -
  let ?p = "butlast (key_parts t)"
  have k: "key_parts t = ?p @ [KeyByte 0]" by (simp add: key_parts_def butlast_append)
  have o: "concat (map part_bytes (opt_text v)) = c_string (case v of Some s \<Rightarrow> s | None \<Rightarrow> [])" for v
    by (simp add: opt_text_def c_string_def split: option.splits)
  have z: "c_string (map of_char ''SSL_CTX:'') = map of_char ''SSL_CTX:''" by code_simp
  have c: "concat (map part_bytes ?p) = cache_key_text t"
    by (simp add: key_parts_def butlast_append o z [simplified] cache_key_text_def)
  have "0 \<notin> set (cache_key_text t)" by (simp add: cache_key_text_def c_string_no_0)
  then show ?thesis
    using write_key_text [OF assms(1), of ?p] assms(2)
    by (simp add: tcpd_ssl_generate_cache_key_from_table_def c ssl_table_ok_def flip: k)
qed

lemma cache_key_c_string: "c_string (cache_key_text t) = cache_key_text t"
  unfolding c_string_def [of "cache_key_text t"] takeWhile_eq_all_conv by (auto simp: cache_key_text_def dest: c_string_no_0 [THEN notE])

section \<open>Sharing\<close>

text \<open>
  A context that a connection holds is in the cache and not collected; a context in the cache counts exactly the
  connections that hold it and knows the key under which it can be found.
\<close>

definition holders :: "nat \<Rightarrow> ssl_world \<Rightarrow> nat" where
  "holders a w = count_list (xw_conns w) (Some a)"

definition ssl_inv :: "ssl_world \<Rightarrow> bool" where
  "ssl_inv w \<longleftrightarrow>
     (\<forall>a. 0 < holders a w \<longrightarrow> (\<exists>k. map_of (xw_registry w) k = Some a))
     \<and> (\<forall>k a. map_of (xw_registry w) k = Some a \<longrightarrow>
          (\<exists>c. xw_ctxs w a = Some c \<and> sx_retain_count c = int (holders a w) \<and> sx_cache_key c \<in> {None, Some k}))
     \<and> (\<forall>a \<ge> xw_next w. xw_ctxs w a = None)"

lemma ssl_invE:
  assumes "ssl_inv w" and "map_of (xw_registry w) k = Some a"
  obtains c where "xw_ctxs w a = Some c" and "sx_retain_count c = int (holders a w)" and "sx_cache_key c \<in> {None, Some k}"
    and "a < xw_next w"
  using assms unfolding ssl_inv_def by (metis linorder_not_le option.distinct(1))

lemma held_cached:
  assumes "ssl_inv w" and "0 < holders a w"
  obtains k where "map_of (xw_registry w) k = Some a"
  using assms unfolding ssl_inv_def by blast

lemma cached_iff: "cached a w \<longleftrightarrow> (\<exists>k. map_of (xw_registry w) k = Some a)"
  unfolding cached_def list_ex_iff by (auto dest: map_of_SomeD)

lemma count_list_release:
  "i < length xs \<Longrightarrow> xs ! i = Some a \<Longrightarrow>
     count_list (xs[i := None]) (Some b) = count_list xs (Some b) - (if a = b then 1 else 0)
     \<and> (a = b \<longrightarrow> 0 < count_list xs (Some b))"
proof (induction xs arbitrary: i)
  case (Cons x xs)
  then show ?case by (cases i) auto
qed simp

lemma configure_keeps:
  "sx_retain_count (snd (tcpd_ssl_context_configure env t c)) = sx_retain_count c
   \<and> sx_cache_key (snd (tcpd_ssl_context_configure env t c)) = sx_cache_key c"
proof -
  let ?K = "\<lambda>f :: ssl_context \<Rightarrow> (string + int) \<times> ssl_context.
    \<forall>c. sx_retain_count (snd (f c)) = sx_retain_count c \<and> sx_cache_key (snd (f c)) = sx_cache_key c"
  have d: "?K (dup_into al v upd name k)" if "?K k"
      and "\<And>v c. sx_retain_count (upd v c) = sx_retain_count c \<and> sx_cache_key (upd v c) = sx_cache_key c" for al v upd name k
    using that by (simp add: dup_into_def split: option.splits)
  have "?K (configure_ssl_ctx env t)" by (simp add: configure_ssl_ctx_def Let_def)
  then have "?K (\<lambda>c. tcpd_ssl_context_configure env t c)"
    unfolding tcpd_ssl_context_configure_def by (simp add: d)
  then show ?thesis by blast
qed

lemma ssl_new_context_inv:
  assumes inv: "ssl_inv w" and "map_of (xw_registry w) key = None" and "sx_retain_count c = 1" and "sx_cache_key c \<in> {None, Some key}"
  shows "ssl_inv (w\<lparr>xw_next := Suc (xw_next w), xw_registry := AList.update key (xw_next w) (xw_registry w),
    xw_ctxs := (xw_ctxs w)(xw_next w \<mapsto> c), xw_conns := xw_conns w @ [Some (xw_next w)], xw_clients := cls\<rparr>)"
    (is "ssl_inv ?w")
proof -
  let ?a = "xw_next w"
  have f: "map_of (xw_registry w) k \<noteq> Some ?a" for k using inv unfolding ssl_inv_def by fastforce
  then have h: "holders ?a w = 0" using inv unfolding ssl_inv_def by blast
  have hw: "holders b ?w = (if b = ?a then 1 else holders b w)" for b using h by (simp add: holders_def)
  have r: "map_of (AList.update key ?a (xw_registry w)) = (map_of (xw_registry w))(key \<mapsto> ?a)" by (simp add: update_conv')
  have "\<exists>k. map_of (xw_registry ?w) k = Some b" if "0 < holders b ?w" for b
  proof (cases "b = ?a")
    case False
    with that hw obtain k where "map_of (xw_registry w) k = Some b" using held_cached [OF inv] by auto
    with assms(2) show ?thesis by (intro exI [of _ k]) (auto simp: r)
  qed (auto simp: r)
  moreover have "\<exists>c. xw_ctxs ?w b = Some c \<and> sx_retain_count c = int (holders b ?w) \<and> sx_cache_key c \<in> {None, Some k}"
    if m: "map_of (xw_registry ?w) k = Some b" for k b
  proof (cases "k = key")
    case True
    with m have "b = ?a" by (simp add: r split: if_splits)
    with True assms(3,4) hw show ?thesis by simp
  next
    case False
    with m have m': "map_of (xw_registry w) k = Some b" by (simp add: r split: if_splits)
    with f have "b \<noteq> ?a" by blast
    with inv m' hw show ?thesis by (auto elim!: ssl_invE)
  qed
  moreover have "\<forall>b \<ge> xw_next ?w. xw_ctxs ?w b = None" using inv by (simp add: ssl_inv_def)
  ultimately show ?thesis unfolding ssl_inv_def by blast
qed

lemma ssl_retain_inv:
  assumes inv: "ssl_inv w" and m: "map_of (xw_registry w) key = Some a" and "xw_ctxs w a = Some c"
    and "sx_retain_count c' = int (holders a w) + 1" and "sx_cache_key c' = sx_cache_key c"
  shows "ssl_inv (w\<lparr>xw_ctxs := (xw_ctxs w)(a \<mapsto> c'), xw_conns := xw_conns w @ [Some a], xw_clients := cls\<rparr>)" (is "ssl_inv ?w")
proof -
  have hw: "holders b ?w = holders b w + (if b = a then 1 else 0)" for b by (simp add: holders_def)
  have "\<exists>k. map_of (xw_registry ?w) k = Some b" if "0 < holders b ?w" for b
    using that m held_cached [OF inv, of b] unfolding hw by (cases "b = a") auto
  moreover have "\<exists>c. xw_ctxs ?w b = Some c \<and> sx_retain_count c = int (holders b ?w) \<and> sx_cache_key c \<in> {None, Some k}"
    if m': "map_of (xw_registry ?w) k = Some b" for k b
  proof (cases "b = a")
    case True
    have "map_of (xw_registry w) k = Some a" using m' True by simp
    with inv obtain "sx_cache_key c \<in> {None, Some k}" using assms(3) by (elim ssl_invE) auto
    with True assms(4,5) hw show ?thesis by simp
  next
    case False
    with inv m' hw show ?thesis by (auto elim!: ssl_invE)
  qed
  moreover have "\<forall>b \<ge> xw_next ?w. xw_ctxs ?w b = None" using inv assms(3) by (auto simp: ssl_inv_def)
  ultimately show ?thesis unfolding ssl_inv_def by blast
qed

lemma ssl_connect_inv:
  assumes inv: "ssl_inv w" and n: "length (xw_conns w) < 2 ^ 31 - 1" and al: "roomy (sv_al env)" and t: "ssl_table_ok t"
  shows "\<exists>w'. ssl_connect env t w = Some w' \<and> ssl_inv w' \<and> length (xw_conns w') = Suc (length (xw_conns w))"
proof (cases "map_of (xw_registry w) (cache_key_text t)")
  case None
  have k: "c_string (cache_key_text t) = cache_key_text t" using cache_key_c_string by simp
  let ?c = "snd (tcpd_ssl_context_configure env t (tcpd_ssl_context_create\<lparr>sx_cache_key := strdup_bytes (sv_al env) (cache_key_text t)\<rparr>))"
  have "sx_retain_count ?c = 1" "sx_cache_key ?c \<in> {None, Some (cache_key_text t)}"
    using configure_keeps by (simp_all add: tcpd_ssl_context_create_def strdup_bytes_def k)
  note i = ssl_new_context_inv [OF inv None this]
  show ?thesis
    using None by (simp add: i ssl_connect_def generated_key [OF al t] tcpd_ssl_context_get_or_create_def new_context_def case_prod_beta
        Let_def)
next
  case (Some a)
  with inv obtain c where c: "xw_ctxs w a = Some c" "sx_retain_count c = int (holders a w)" by (rule ssl_invE)
  let ?c = "snd (tcpd_ssl_context_configure env t (c\<lparr>sx_retain_count := c_int (sx_retain_count c + 1)\<rparr>))"
  have "holders a w \<le> length (xw_conns w)" by (simp add: holders_def count_le_length)
  then have "c_int (sx_retain_count c + 1) = int (holders a w) + 1" using n c(2) by (simp add: c_int_small)
  then have "sx_retain_count ?c = int (holders a w) + 1" "sx_cache_key ?c = sx_cache_key c" using configure_keeps by simp_all
  note i = ssl_retain_inv [OF inv Some c(1) this]
  show ?thesis
    using Some c(1) by (simp add: i ssl_connect_def generated_key [OF al t] tcpd_ssl_context_get_or_create_def upd_ctx_def case_prod_beta
        Let_def)
qed

lemma ssl_release_inv:
  assumes inv: "ssl_inv w" and i: "i < length (xw_conns w)" "xw_conns w ! i = Some a" and n: "length (xw_conns w) < 2 ^ 31"
  shows "\<exists>w'. ssl_disconnect i w = Some w' \<and> ssl_inv w' \<and> length (xw_conns w') = length (xw_conns w)"
proof -
  have h: "0 < holders a w" using count_list_release [OF i, of a] by (simp add: holders_def)
  with inv obtain k where k: "map_of (xw_registry w) k = Some a" by (rule held_cached)
  with inv obtain c where c: "xw_ctxs w a = Some c" "sx_retain_count c = int (holders a w)" "sx_cache_key c \<in> {None, Some k}"
      "a < xw_next w"
    by (rule ssl_invE)
  let ?c = "c\<lparr>sx_retain_count := int (holders a w) - 1\<rparr>"
  have "holders a w \<le> length (xw_conns w)" by (simp add: holders_def count_le_length)
  then have cc: "c_int (sx_retain_count c - 1) = int (holders a w) - 1" using n c(2) by (simp add: c_int_small)
  let ?reg = "if holders a w \<le> 1 \<and> sx_cache_key c \<noteq> None then AList.delete k (xw_registry w) else xw_registry w"
  let ?w = "w\<lparr>xw_ctxs := (xw_ctxs w)(a \<mapsto> ?c), xw_registry := ?reg, xw_conns := (xw_conns w)[i := None]\<rparr>"
  have d: "ssl_disconnect i w = Some ?w"
    using i c cc by (auto simp: ssl_disconnect_def tcpd_ssl_context_release_def release_count_def release_uncache_def upd_ctx_def)
  have hw: "holders b ?w = holders b w - (if b = a then 1 else 0)" for b
    using count_list_release [OF i, of b] by (auto simp: holders_def)
  have sub: "map_of (xw_registry w) j = Some b" if "map_of (xw_registry ?w) j = Some b" for j b
    using that by (auto simp: delete_conv' split: if_splits)
  have "\<exists>j. map_of (xw_registry ?w) j = Some b" if b: "0 < holders b ?w" for b
  proof -
    have "0 < holders b w" using b hw by (simp split: if_splits)
    with inv obtain j where j: "map_of (xw_registry w) j = Some b" by (rule held_cached)
    show ?thesis
    proof (cases "holders a w \<le> 1 \<and> sx_cache_key c \<noteq> None")
      case True
      then have "b \<noteq> a" using b hw by auto
      then have "j \<noteq> k" using j k by auto
      with j True show ?thesis by (intro exI [of _ j]) (simp add: delete_conv')
    next
      case False
      with j show ?thesis by auto
    qed
  qed
  moreover have "\<exists>c. xw_ctxs ?w b = Some c \<and> sx_retain_count c = int (holders b ?w) \<and> sx_cache_key c \<in> {None, Some j}"
    if m: "map_of (xw_registry ?w) j = Some b" for j b
  proof (cases "b = a")
    case True
    have "sx_cache_key c \<in> {None, Some j}" using sub [OF m] inv c(1) True by (elim ssl_invE) auto
    with True c h hw show ?thesis by (simp add: of_nat_diff)
  next
    case False
    with inv sub [OF m] hw show ?thesis by (auto elim!: ssl_invE)
  qed
  moreover have "\<forall>b \<ge> xw_next ?w. xw_ctxs ?w b = None" using inv c(4) by (auto simp: ssl_inv_def)
  ultimately have "ssl_inv ?w" unfolding ssl_inv_def by blast
  with d show ?thesis by simp
qed

lemma ssl_collect_inv: "ssl_inv w \<Longrightarrow> ssl_inv (ssl_collect a w)"
  unfolding ssl_inv_def ssl_collect_def cached_iff holders_def by auto

lemma ssl_bind_inv: "ssl_inv w \<Longrightarrow> ssl_inv (ssl_bind env t w)"
  by (fastforce simp: ssl_inv_def ssl_bind_def new_context_def holders_def)

lemma ssl_disconnect_inv:
  assumes "ssl_inv w" and "length (xw_conns w) < 2 ^ 31"
  shows "\<exists>w'. ssl_disconnect i w = Some w' \<and> ssl_inv w' \<and> length (xw_conns w') = length (xw_conns w)"
proof (cases "i < length (xw_conns w) \<and> xw_conns w ! i \<noteq> None")
  case True
  with assms show ?thesis by (auto intro: ssl_release_inv)
next
  case False
  with assms show ?thesis by (auto simp: ssl_disconnect_def)
qed

fun ssl_op_ok :: "ssl_op \<Rightarrow> bool" where
  "ssl_op_ok (SslConnect t) = ssl_table_ok t"
| "ssl_op_ok _ = True"

lemma ssl_step_inv:
  assumes "ssl_inv w" and "length (xw_conns w) < 2 ^ 31 - 1" and "roomy (sv_al env)" and "ssl_op_ok x"
  shows "\<exists>w'. ssl_step env x w = Some w' \<and> ssl_inv w' \<and> length (xw_conns w') \<le> Suc (length (xw_conns w))"
proof (cases x)
  case (SslConnect t)
  with assms ssl_connect_inv [of w env t] show ?thesis by (auto simp: ssl_step_def)
next
  case (SslDisconnect i)
  with assms ssl_disconnect_inv [of w i] show ?thesis by (auto simp: ssl_step_def)
next
  case (SslCollect a)
  with assms show ?thesis by (simp add: ssl_step_def ssl_collect_inv) (simp add: ssl_collect_def)
next
  case (SslBind t)
  with assms show ?thesis by (simp add: ssl_step_def ssl_bind_inv) (simp add: ssl_bind_def new_context_def)
qed

lemma ssl_run_inv:
  "ssl_inv w \<Longrightarrow> length (xw_conns w) + length xs < 2 ^ 31 \<Longrightarrow> roomy (sv_al env) \<Longrightarrow> list_all ssl_op_ok xs \<Longrightarrow>
     \<exists>w'. run_steps (ssl_step env) xs w = Some w' \<and> ssl_inv w'"
proof (induction xs arbitrary: w)
  case (Cons x xs)
  then obtain w' where w': "ssl_step env x w = Some w'" "ssl_inv w'" "length (xw_conns w') \<le> Suc (length (xw_conns w))"
    using ssl_step_inv [of w env x] by auto
  with Cons.prems have "length (xw_conns w') + length xs < 2 ^ 31" by simp
  with Cons.IH [OF w'(2)] Cons.prems w'(1) show ?case by simp
qed simp

lemma ssl_initial_inv: "ssl_inv ssl_initial"
  by (simp add: ssl_inv_def ssl_initial_def holders_def)

section \<open>Properties\<close>

text \<open>
  (C20) Contexts that client connections share are never used after they are collected: after any sequence of fewer than
  2^31 connects, disconnects, binds and collections of unreachable contexts, in any order and with enough memory, no step
  was undefined, every context that a connection holds exists and is in the cache, and its retain count is the number of
  connections that hold it.
\<close>

theorem ssl_contexts_stay_alive:
  assumes "roomy (sv_al env)" and "list_all ssl_op_ok xs" and "length xs < 2 ^ 31"
  shows "\<exists>w. run_steps (ssl_step env) xs ssl_initial = Some w
    \<and> (\<forall>a. Some a \<in> set (xw_conns w) \<longrightarrow>
         cached a w \<and> (\<exists>c. xw_ctxs w a = Some c \<and> sx_retain_count c = int (count_list (xw_conns w) (Some a))))"
proof -
  obtain w where w: "run_steps (ssl_step env) xs ssl_initial = Some w" "ssl_inv w"
    using ssl_run_inv [OF ssl_initial_inv, of xs env] assms by (auto simp: ssl_initial_def)
  have "cached a w \<and> (\<exists>c. xw_ctxs w a = Some c \<and> sx_retain_count c = int (count_list (xw_conns w) (Some a)))"
    if "Some a \<in> set (xw_conns w)" for a
  proof -
    have "0 < holders a w" using that count_list_0_iff [of "xw_conns w" "Some a"] by (simp add: holders_def)
    with w(2) obtain k where k: "map_of (xw_registry w) k = Some a" by (rule held_cached)
    with w(2) show ?thesis by (auto elim: ssl_invE simp: cached_iff holders_def)
  qed
  with w(1) show ?thesis by blast
qed

definition sample_ssl_env :: ssl_env where
  "sample_ssl_env =
     \<lparr>sv_al = roomy_alloc, sv_ctx_new = True, sv_load_verify = (\<lambda>_ _. True), sv_default_paths = True, sv_access = (\<lambda>_ _. False),
      sv_use_certificate = (\<lambda>_. True), sv_use_key = (\<lambda>_. True), sv_check_key = (\<lambda>_ _. True), sv_pkcs12 = (\<lambda>_ _. None),
      sv_ssl_new = True, sv_set1_host = True, sv_bev = True\<rparr>"

definition sample_ssl_table :: "int \<Rightarrow> ssl_table" where
  "sample_ssl_table verify =
     \<lparr>st_cert = None, st_key = None, st_cainfo = None, st_capath = None, st_pkcs12_path = None, st_pkcs12_password = None,
      st_verifyhost = Some verify, st_verifypeer = Some verify, st_ssl_host = None, st_host = Some [104]\<rparr>"

lemma ssl_sample_ok: "roomy (sv_al sample_ssl_env)" "ssl_table_ok (sample_ssl_table v)"
  by (simp_all add: sample_ssl_env_def roomy_roomy_alloc sample_ssl_table_def ssl_table_ok_def cache_key_text_def c_string_def)

theorem ssl_contexts_stay_alive_witness:
  "let xs = [SslConnect (sample_ssl_table 1), SslConnect (sample_ssl_table 1), SslDisconnect 0, SslCollect 0]
   in list_all ssl_op_ok xs \<and> (\<exists>w. run_steps (ssl_step sample_ssl_env) xs ssl_initial = Some w)"
  using ssl_contexts_stay_alive [of sample_ssl_env
      "[SslConnect (sample_ssl_table 1), SslConnect (sample_ssl_table 1), SslDisconnect 0, SslCollect 0]"]
  by (auto simp: ssl_sample_ok Let_def)

text \<open>With enough memory a context that is not configured takes all string fields of the table.\<close>

definition dup_field :: "bytes option \<Rightarrow> bytes option \<Rightarrow> bytes option" where
  "dup_field v old = (case v of Some s \<Rightarrow> Some (c_string s) | None \<Rightarrow> old)"

lemma dup_into_roomy:
  assumes "roomy al" and "\<And>c. upd (get c) c = c"
  shows "dup_into al v upd name k c = k (upd (dup_field v (get c)) c)"
  using assms by (simp add: dup_into_def dup_field_def strdup_bytes_def roomy_def split: option.splits)

lemma configure_roomy:
  assumes "roomy (sv_al env)" and "\<not> sx_configured c"
  shows "tcpd_ssl_context_configure env t c = configure_ssl_ctx env t
    (c\<lparr>sx_cert_file := dup_field (st_cert t) (sx_cert_file c), sx_key_file := dup_field (st_key t) (sx_key_file c),
       sx_ca_info := dup_field (st_cainfo t) (sx_ca_info c), sx_ca_path := dup_field (st_capath t) (sx_ca_path c),
       sx_pkcs12_path := dup_field (st_pkcs12_path t) (sx_pkcs12_path c),
       sx_pkcs12_password := dup_field (st_pkcs12_password t) (sx_pkcs12_password c)\<rparr>)"
  using assms(2)
  by (simp add: tcpd_ssl_context_configure_def dup_into_roomy [OF assms(1), where get = sx_cert_file]
      dup_into_roomy [OF assms(1), where get = sx_key_file] dup_into_roomy [OF assms(1), where get = sx_ca_info]
      dup_into_roomy [OF assms(1), where get = sx_ca_path] dup_into_roomy [OF assms(1), where get = sx_pkcs12_path]
      dup_into_roomy [OF assms(1), where get = sx_pkcs12_password])

lemma configure_again: "sx_configured c \<Longrightarrow> tcpd_ssl_context_configure env t c = (Inr 0, c)"
  by (simp add: tcpd_ssl_context_configure_def)

text \<open>
  (C21) The cache key has neither the certificate and key files nor the verification flags, and a context that is found in
  the cache is not configured again: a connection with the same authorities and PKCS12 file as an earlier one gets
  the certificate, key and verification of the earlier one. If the first connection turned verification off, the second
  one is not verified although it asks for it.
\<close>

theorem ssl_cache_ignores_verification:
  assumes "roomy (sv_al env)" and "ssl_table_ok t1" and "ssl_table_ok t2" and "cache_key_text t1 = cache_key_text t2"
    and "sv_ctx_new env" and "sv_ssl_new env" and "sv_bev env" and "st_ssl_host t2 = None" and "st_host t2 = Some h"
    and "st_verifypeer t1 = Some v" and "-(2 ^ 31) \<le> v" and "v < 2 ^ 31"
  shows "\<exists>w c cl1 cl2. run_steps (ssl_step env) [SslConnect t1, SslConnect t2] ssl_initial = Some w
    \<and> xw_conns w = [Some 0, Some 0] \<and> xw_ctxs w 0 = Some c \<and> sx_retain_count c = 2
    \<and> sx_cert_file c = map_option c_string (st_cert t1) \<and> sx_key_file c = map_option c_string (st_key t1)
    \<and> xw_clients w = [cl1, cl2] \<and> sl_verify_peer cl2 = Some (v \<noteq> 0)"
proof -
  have d: "strdup_bytes (sv_al env) s = Some (c_string s)" for s using assms(1) by (simp add: strdup_bytes_def roomy_def)
  let ?c0 = "tcpd_ssl_context_create\<lparr>sx_cache_key := Some (cache_key_text t1)\<rparr>"
  have i: "\<not> sx_configured ?c0" "sx_retain_count ?c0 = 1" "sx_cert_file ?c0 = None" "sx_key_file ?c0 = None"
    by (simp_all add: tcpd_ssl_context_create_def)
  obtain c where c: "tcpd_ssl_context_configure env t1 ?c0 = (Inr 0, c)"
      "sx_configured c" "sx_ssl_ctx c \<noteq> None" "sx_verify_peer c = v" "sx_retain_count c = 1"
      "sx_cert_file c = map_option c_string (st_cert t1)" "sx_key_file c = map_option c_string (st_key t1)"
    using assms(5,10) c_int_small [OF assms(11,12)] i
    by (simp add: configure_roomy [OF assms(1)] configure_ssl_ctx_def Let_def dup_field_def map_option_case split: option.splits)
  show ?thesis
    using c assms
    by (auto simp: ssl_step_def ssl_connect_def generated_key tcpd_ssl_context_get_or_create_def ssl_initial_def new_context_def
        d cache_key_c_string update_conv' upd_ctx_def configure_again tcpd_ssl_create_client_bufferevent_def c_int_small)
qed

theorem ssl_cache_ignores_verification_witness:
  "cache_key_text (sample_ssl_table 0) = cache_key_text (sample_ssl_table 1)
   \<and> (\<exists>w cl1 cl2. run_steps (ssl_step sample_ssl_env) [SslConnect (sample_ssl_table 0), SslConnect (sample_ssl_table 1)] ssl_initial
          = Some w \<and> xw_clients w = [cl1, cl2] \<and> sl_verify_peer cl2 = Some False)"
proof -
  have k: "cache_key_text (sample_ssl_table 0) = cache_key_text (sample_ssl_table 1)"
    by (simp add: cache_key_text_def sample_ssl_table_def)
  show ?thesis
    using ssl_cache_ignores_verification [OF ssl_sample_ok(1) ssl_sample_ok(2) ssl_sample_ok(2) k, of "[104]" 0] k
    by (auto simp: sample_ssl_env_def sample_ssl_table_def)
qed

text \<open>
  A release by one thread that is interrupted by a connect of another: the count drops to 0, the connect finds the
  context in the cache and takes it, and then the release removes it. The connection holds a context that Lua may
  collect.
\<close>

lemma release_race:
  assumes "xw_ctxs w a = Some c" and "sx_retain_count c = 1" and "sx_cache_key c = Some key" and "map_of (xw_registry w) key = Some a"
    and "\<And>k. map_of (xw_registry w) k = Some a \<Longrightarrow> k = key"
  shows "\<exists>w1 w2 w3. release_count a w = Some (1, w1) \<and> tcpd_ssl_context_get_or_create al key w1 = Some (a, w2)
    \<and> release_uncache 1 a w2 = Some w3 \<and> xw_ctxs (ssl_collect a w3) a = None"
proof -
  let ?c = "\<lambda>n. c\<lparr>sx_retain_count := c_int n\<rparr>"
  let ?w1 = "w\<lparr>xw_ctxs := (xw_ctxs w)(a \<mapsto> ?c 0)\<rparr>"
  let ?w2 = "w\<lparr>xw_ctxs := (xw_ctxs w)(a \<mapsto> c\<lparr>sx_retain_count := c_int (c_int 0 + 1)\<rparr>)\<rparr>"
  let ?w3 = "?w2\<lparr>xw_registry := AList.delete key (xw_registry w)\<rparr>"
  have "release_count a w = Some (1, ?w1)" using assms(1,2) by (simp add: release_count_def upd_ctx_def)
  moreover have "tcpd_ssl_context_get_or_create al key ?w1 = Some (a, ?w2)"
    using assms(4) by (simp add: tcpd_ssl_context_get_or_create_def upd_ctx_def)
  moreover have "release_uncache 1 a ?w2 = Some ?w3" using assms(3) by (simp add: release_uncache_def)
  moreover have "\<not> cached a ?w3" using assms(5) by (auto simp: cached_iff delete_conv')
  ultimately show ?thesis by (auto simp: ssl_collect_def)
qed

text \<open>
  The context of a server is in no table: once it is collected, the next connection that the server accepts uses freed
  memory.
\<close>

lemma server_context_collected:
  assumes "xw_servers w = []" and "ssl_inv w"
  shows "ssl_accept env 0 (ssl_collect (xw_next w) (ssl_bind env t w)) = None"
proof -
  have "map_of (xw_registry w) k \<noteq> Some (xw_next w)" for k using assms(2) unfolding ssl_inv_def by fastforce
  then show ?thesis using assms by (auto simp: ssl_accept_def ssl_collect_def ssl_bind_def new_context_def cached_iff)
qed

text \<open>The default authorities are found exactly when one of the candidates can be loaded.\<close>

lemma first_loadable_iff:
  "first_loadable acc arg env ps = None \<longleftrightarrow> (\<forall>p \<in> set ps. acc p \<longrightarrow> \<not> sv_load_verify env (fst (arg p)) (snd (arg p)))"
  by (induction ps) auto

end
