(* ===== verification/Udpd_Dest.thy ===== *)
theory Udpd_Dest
  imports Tcpd
begin

text \<open>
  UDP addresses and destinations (\<open>src/udpd_dest.c\<close> and the address functions of \<open>src/udpd_utils.c\<close>). A socket address is
  the array of bytes that the C code casts between the structures of the two families, as Linux lays them out. The
  conversions between addresses and text are parameters.
\<close>

section \<open>Socket addresses\<close>

definition AF_INET :: nat where "AF_INET = 2"
definition AF_INET6 :: nat where "AF_INET6 = 10"
definition STORAGE_SIZE :: nat where "STORAGE_SIZE = 128"

lemmas af_defs = AF_INET_def AF_INET6_def STORAGE_SIZE_def

text \<open>The text of an address and its parser, for addresses of four and of sixteen bytes.\<close>

record net_text =
  nt_pton4 :: "string \<Rightarrow> bytes option"
  nt_pton6 :: "string \<Rightarrow> bytes option"
  nt_ntop4 :: "bytes \<Rightarrow> string"
  nt_ntop6 :: "bytes \<Rightarrow> string"

definition net_text_ok :: "net_text \<Rightarrow> bool" where
  "net_text_ok nt \<longleftrightarrow>
     (\<forall>s b. nt_pton4 nt s = Some b \<longrightarrow> length b = 4) \<and> (\<forall>s b. nt_pton6 nt s = Some b \<longrightarrow> length b = 16)"

definition ss_family :: "bytes \<Rightarrow> nat" where
  "ss_family addr = le_val (take 2 addr)"

definition sin_port :: "bytes \<Rightarrow> nat" where
  "sin_port addr = be_val (take 2 (drop 2 addr))"

definition sin_addr :: "bytes \<Rightarrow> bytes" where
  "sin_addr addr = take 4 (drop 4 addr)"

definition sin6_addr :: "bytes \<Rightarrow> bytes" where
  "sin6_addr addr = take 16 (drop 8 addr)"

text \<open>The two structures in a storage that was cleared.\<close>

definition make_sin :: "nat \<Rightarrow> bytes \<Rightarrow> bytes" where
  "make_sin port ip = le_bytes 2 AF_INET @ be_bytes 2 port @ ip @ replicate 120 0"

definition make_sin6 :: "nat \<Rightarrow> bytes \<Rightarrow> bytes" where
  "make_sin6 port ip = le_bytes 2 AF_INET6 @ be_bytes 2 port @ replicate 4 0 @ ip @ replicate 104 0"

definition udpd_is_ip_address :: "net_text \<Rightarrow> string \<Rightarrow> bool" where
  "udpd_is_ip_address nt s = (nt_pton4 nt s \<noteq> None \<or> nt_pton6 nt s \<noteq> None)"

text \<open>None is the result -1; otherwise the storage and the length of the address.\<close>

definition udpd_create_address_from_string :: "net_text \<Rightarrow> string \<Rightarrow> int \<Rightarrow> (bytes \<times> nat) option" where
  "udpd_create_address_from_string nt host port =
     (if port \<le> 0 \<or> 65535 < port then None
      else case nt_pton4 nt host of
             Some ip \<Rightarrow> Some (make_sin (nat port) ip, 16)
           | None \<Rightarrow>
               (case nt_pton6 nt host of
                  Some ip \<Rightarrow> Some (make_sin6 (nat port) ip, 28)
                | None \<Rightarrow> None))"

definition udpd_is_address_family_supported :: "nat \<Rightarrow> bool" where
  "udpd_is_address_family_supported family = (family = AF_INET \<or> family = AF_INET6)"

definition udpd_sockaddr_to_string :: "allocator \<Rightarrow> net_text \<Rightarrow> bytes \<Rightarrow> string option" where
  "udpd_sockaddr_to_string al nt addr =
     (let host = (if ss_family addr = AF_INET then Some (nt_ntop4 nt (sin_addr addr))
                  else if ss_family addr = AF_INET6 then Some (nt_ntop6 nt (sin6_addr addr)) else None)
      in case host of
           None \<Rightarrow> None
         | Some h \<Rightarrow>
             if can_alloc al (length h + 16) then Some (take (length h + 15) (h @ '':'' @ dec_text (int (sin_port addr)))) else None)"

definition UDPD_MAX_PACKET_SIZE :: nat where "UDPD_MAX_PACKET_SIZE = 65507"

definition udpd_validate_packet_size :: "nat \<Rightarrow> bool" where
  "udpd_validate_packet_size n = (0 < n \<and> n \<le> UDPD_MAX_PACKET_SIZE)"

section \<open>Destinations\<close>

record udpd_dest =
  ds_addr :: bytes
  ds_addrlen :: nat
  ds_host :: "string option"
  ds_port :: int

definition udpd_dest_get_port :: "udpd_dest \<Rightarrow> int" where
  "udpd_dest_get_port d =
     (if ss_family (ds_addr d) = AF_INET then int (sin_port (ds_addr d))
      else if ss_family (ds_addr d) = AF_INET6 then int (sin_port (ds_addr d)) else 0)"

text \<open>The storage of a new destination is cleared, then the first bytes are those of the given address.\<close>

definition store_addr :: "bytes \<Rightarrow> bytes" where
  "store_addr addr = addr @ replicate (STORAGE_SIZE - length addr) 0"

definition udpd_dest_create :: "allocator \<Rightarrow> nat \<Rightarrow> bytes \<Rightarrow> udpd_dest option" where
  "udpd_dest_create al sz addr =
     (if addr = [] then None
      else if \<not> can_alloc al sz then None
      else if length addr \<le> STORAGE_SIZE
      then let d = \<lparr>ds_addr = store_addr addr, ds_addrlen = length addr, ds_host = None, ds_port = 0\<rparr>
           in Some (d\<lparr>ds_port := udpd_dest_get_port d\<rparr>)
      else None)"

definition udpd_dest_create_from_string :: "allocator \<Rightarrow> net_text \<Rightarrow> nat \<Rightarrow> string \<Rightarrow> int \<Rightarrow> udpd_dest option" where
  "udpd_dest_create_from_string al nt sz host port =
     (if port \<le> 0 then None
      else if \<not> can_alloc al sz then None
      else case strdup al host of
             None \<Rightarrow> None
           | Some h \<Rightarrow>
               (case udpd_create_address_from_string nt host port of
                  None \<Rightarrow> None
                | Some (addr, n) \<Rightarrow> Some \<lparr>ds_addr = addr, ds_addrlen = n, ds_host = Some h, ds_port = port\<rparr>))"

definition udpd_dest_equal :: "udpd_dest \<Rightarrow> udpd_dest \<Rightarrow> bool" where
  "udpd_dest_equal d1 d2 =
     (if ds_addrlen d1 \<noteq> ds_addrlen d2 then False
      else take (ds_addrlen d1) (ds_addr d1) = take (ds_addrlen d1) (ds_addr d2))"

definition udpd_dest_get_host_string :: "net_text \<Rightarrow> udpd_dest \<Rightarrow> string option" where
  "udpd_dest_get_host_string nt d =
     (case ds_host d of
        Some h \<Rightarrow> Some h
      | None \<Rightarrow>
          if ss_family (ds_addr d) = AF_INET then Some (nt_ntop4 nt (sin_addr (ds_addr d)))
          else if ss_family (ds_addr d) = AF_INET6 then Some (nt_ntop6 nt (sin6_addr (ds_addr d))) else None)"

definition udpd_dest_to_string :: "allocator \<Rightarrow> net_text \<Rightarrow> udpd_dest \<Rightarrow> string option" where
  "udpd_dest_to_string al nt d =
     (case udpd_dest_get_host_string nt d of
        None \<Rightarrow> None
      | Some h \<Rightarrow>
          if can_alloc al (length h + 16) then Some (take (length h + 15) (h @ '':'' @ dec_text (udpd_dest_get_port d))) else None)"

definition udpd_dest_copy :: "allocator \<Rightarrow> nat \<Rightarrow> udpd_dest \<Rightarrow> udpd_dest option" where
  "udpd_dest_copy al sz src =
     (if \<not> can_alloc al sz then None
      else case ds_host src of
             None \<Rightarrow> Some src
           | Some h \<Rightarrow> map_option (\<lambda>h'. src\<lparr>ds_host := Some h'\<rparr>) (strdup al h))"

definition udpd_dest_is_multicast :: "udpd_dest \<Rightarrow> bool" where
  "udpd_dest_is_multicast d =
     (ss_family (ds_addr d) = AF_INET \<and> (word_of_nat (be_val (sin_addr (ds_addr d))) :: u32) AND 0xF0000000 = 0xE0000000)"

definition udpd_dest_is_broadcast :: "udpd_dest \<Rightarrow> bool" where
  "udpd_dest_is_broadcast d =
     (ss_family (ds_addr d) = AF_INET \<and> (word_of_nat (le_val (sin_addr (ds_addr d))) :: u32) = 0xFFFFFFFF)"

definition udpd_dest_is_loopback :: "udpd_dest \<Rightarrow> bool" where
  "udpd_dest_is_loopback d =
     (if ss_family (ds_addr d) = AF_INET
      then (word_of_nat (be_val (sin_addr (ds_addr d))) :: u32) AND 0xFF000000 = 0x7F000000
      else if ss_family (ds_addr d) = AF_INET6 then sin6_addr (ds_addr d) = replicate 15 0 @ [1] else False)"

text \<open>The methods of a destination object; no value is None.\<close>

definition lua_udpd_dest_get_host :: "net_text \<Rightarrow> udpd_dest \<Rightarrow> string option" where
  "lua_udpd_dest_get_host nt d = udpd_dest_get_host_string nt d"

definition lua_udpd_dest_get_port :: "udpd_dest \<Rightarrow> int" where
  "lua_udpd_dest_get_port d = udpd_dest_get_port d"

definition lua_udpd_dest_get_ip :: "net_text \<Rightarrow> udpd_dest \<Rightarrow> string option" where
  "lua_udpd_dest_get_ip nt d =
     (if ss_family (ds_addr d) = AF_INET then Some (nt_ntop4 nt (sin_addr (ds_addr d)))
      else if ss_family (ds_addr d) = AF_INET6 then Some (nt_ntop6 nt (sin6_addr (ds_addr d))) else None)"

definition lua_udpd_dest_tostring :: "allocator \<Rightarrow> net_text \<Rightarrow> udpd_dest \<Rightarrow> string option" where
  "lua_udpd_dest_tostring al nt d = udpd_dest_to_string al nt d"

definition lua_udpd_dest_eq :: "udpd_dest \<Rightarrow> udpd_dest \<Rightarrow> bool" where
  "lua_udpd_dest_eq d1 d2 = udpd_dest_equal d1 d2"

definition lua_udpd_dest_gc :: "udpd_dest \<Rightarrow> udpd_dest" where
  "lua_udpd_dest_gc d = d\<lparr>ds_host := None\<rparr>"

definition udpd_dest_push_to_lua :: "bytes \<Rightarrow> udpd_dest" where
  "udpd_dest_push_to_lua addr =
     (let d = \<lparr>ds_addr = replicate STORAGE_SIZE 0, ds_addrlen = 0, ds_host = None, ds_port = 0\<rparr>
      in if length addr \<le> STORAGE_SIZE
         then let d = d\<lparr>ds_addr := store_addr addr, ds_addrlen := length addr\<rparr> in d\<lparr>ds_port := udpd_dest_get_port d\<rparr>
         else d)"

section \<open>What holds\<close>

lemma family_make: "ss_family (make_sin p ip) = AF_INET" "ss_family (make_sin6 p ip) = AF_INET6"
  by (simp_all add: ss_family_def make_sin_def make_sin6_def af_defs le_val_le_bytes)

lemma port_make:
  assumes "p < 65536"
  shows "sin_port (make_sin p ip) = p" "sin_port (make_sin6 p ip) = p"
  using assms by (simp_all add: sin_port_def make_sin_def make_sin6_def be_val_be_bytes)

lemma addr_make:
  shows "length ip = 4 \<Longrightarrow> sin_addr (make_sin p ip) = ip" and "length ip = 16 \<Longrightarrow> sin6_addr (make_sin6 p ip) = ip"
  by (simp_all add: sin_addr_def sin6_addr_def make_sin_def make_sin6_def)

text \<open>
  A destination made from the text of an address and a valid port has that port and that address, and two of them are
  equal exactly when address and port are.
\<close>

lemma dest_from_string:
  assumes "net_text_ok nt" and "udpd_dest_create_from_string al nt sz host port = Some d"
  shows "udpd_dest_get_port d = port \<and> ds_port d = port \<and> ds_host d = Some host \<and> 0 < port \<and> port < 65536
    \<and> (case nt_pton4 nt host of
         Some ip \<Rightarrow> ss_family (ds_addr d) = AF_INET \<and> sin_addr (ds_addr d) = ip
       | None \<Rightarrow> ss_family (ds_addr d) = AF_INET6 \<and> nt_pton6 nt host = Some (sin6_addr (ds_addr d)))"
proof -
  have l: "nt_pton4 nt host = Some ip \<Longrightarrow> length ip = 4" "nt_pton6 nt host = Some ip \<Longrightarrow> length ip = 16" for ip
    using assms(1) by (auto simp: net_text_ok_def)
  show ?thesis
    using assms(2)
    by (auto simp: udpd_dest_create_from_string_def udpd_create_address_from_string_def udpd_dest_get_port_def strdup_def
        family_make port_make addr_make l split: if_splits option.splits)
qed

end
