(* ===== verification/Udpd.thy ===== *)
theory Udpd
  imports Udpd_Dest
begin

text \<open>
  UDP connections: \<open>src/udpd_config.c\<close>, \<open>src/udpd_event.c\<close>, \<open>src/udpd.c\<close> and the name resolution of a connection in
  \<open>src/udpd_dns.c\<close>. The state is one connection object with the descriptors, libevent events and registry slots that were
  taken for it. Flags that are not part of the program record undefined behaviour: a use of an event that is freed,
  the use of a mutex that is destroyed, and the release of a registry slot that was never taken.
\<close>

section \<open>Configuration\<close>

record udpd_config =
  uc_base :: tcpd_config
  uc_broadcast_enabled :: bool
  uc_multicast_enabled :: bool
  uc_multicast_group :: "string option"
  uc_multicast_ttl :: int
  uc_reuse_addr :: bool
  uc_reuse_port :: bool

definition UDPD_DEFAULT_BUFFER_SIZE :: int where "UDPD_DEFAULT_BUFFER_SIZE = 256 * 1024"

definition udp_defaults :: "tcpd_config \<Rightarrow> udpd_config" where
  "udp_defaults base =
     \<lparr>uc_base = base\<lparr>tc_send_buffer_size := (if tc_send_buffer_size base = 0 then UDPD_DEFAULT_BUFFER_SIZE else tc_send_buffer_size base),
                     tc_receive_buffer_size := (if tc_receive_buffer_size base = 0 then UDPD_DEFAULT_BUFFER_SIZE
                                                else tc_receive_buffer_size base)\<rparr>,
      uc_broadcast_enabled = False, uc_multicast_enabled = False, uc_multicast_group = None, uc_multicast_ttl = 1,
      uc_reuse_addr = True, uc_reuse_port = False\<rparr>"

definition udpd_config_set_defaults :: "udpd_config \<Rightarrow> udpd_config" where
  "udpd_config_set_defaults config = udp_defaults (tcpd_config_set_defaults (uc_base config))"

definition zero_config :: udpd_config where
  "zero_config =
     \<lparr>uc_base = tcpd_config_init, uc_broadcast_enabled = False, uc_multicast_enabled = False, uc_multicast_group = None,
      uc_multicast_ttl = 0, uc_reuse_addr = False, uc_reuse_port = False\<rparr>"

definition udpd_config_init :: udpd_config where
  "udpd_config_init = udpd_config_set_defaults zero_config"

text \<open>The fields of the table; a boolean or number is Some only when it has that type.\<close>

record udp_table =
  ut_base :: tcpd_table
  ut_broadcast :: "bool option"
  ut_multicast :: "bool option"
  ut_multicast_group :: "string option"
  ut_multicast_ttl :: "int option"
  ut_reuse_addr :: "bool option"
  ut_reuse_port :: "bool option"

definition opt_bool :: "bool option \<Rightarrow> bool \<Rightarrow> bool" where
  "opt_bool v d = (case v of Some b \<Rightarrow> b | None \<Rightarrow> d)"

definition udpd_config_from_lua_table :: "allocator \<Rightarrow> udp_table \<Rightarrow> udpd_config" where
  "udpd_config_from_lua_table al t =
     (let c = udp_defaults (tcpd_config_from_lua_table (ut_base t) tcpd_config_init)
      in c\<lparr>uc_broadcast_enabled := opt_bool (ut_broadcast t) (uc_broadcast_enabled c),
           uc_multicast_enabled := opt_bool (ut_multicast t) (uc_multicast_enabled c),
           uc_multicast_group := Option.bind (ut_multicast_group t) (strdup al),
           uc_multicast_ttl := opt_int (ut_multicast_ttl t) (uc_multicast_ttl c),
           uc_reuse_addr := opt_bool (ut_reuse_addr t) (uc_reuse_addr c),
           uc_reuse_port := opt_bool (ut_reuse_port t) (uc_reuse_port c)\<rparr>)"

definition set_flag :: "(sockopt \<Rightarrow> bool) \<Rightarrow> bool \<Rightarrow> sockopt \<Rightarrow> sockopt_calls \<Rightarrow> int \<times> sockopt_calls" where
  "set_flag ok flag opt calls = (if flag then setsockopt ok opt 1 calls else (0, calls))"

definition udpd_config_apply_socket_options ::
  "(sockopt \<Rightarrow> bool) \<Rightarrow> udpd_config \<Rightarrow> int \<Rightarrow> sockopt_calls \<Rightarrow> int \<times> sockopt_calls" where
  "udpd_config_apply_socket_options ok config fd calls =
     (if fd < 0 then (-1, calls)
      else unless_failed (set_flag ok (uc_reuse_addr config) SO_REUSEADDR calls) (\<lambda>calls.
           unless_failed (set_flag ok (uc_reuse_port config) SO_REUSEPORT calls) (\<lambda>calls.
           unless_failed (set_flag ok (uc_broadcast_enabled config) SO_BROADCAST calls) (\<lambda>calls.
             let calls = snd (conn_config_apply_sndbuf ok fd (tc_send_buffer_size (uc_base config)) calls);
                 calls = snd (conn_config_apply_rcvbuf ok fd (tc_receive_buffer_size (uc_base config)) calls)
             in (0, snd (conn_config_apply_bound_if fd (tc_interface (uc_base config)) calls))))))"

text \<open>\<open>inet_aton\<close> is a parameter: the address in the order of the machine.\<close>

definition udpd_config_apply_bind_options ::
  "(sockopt \<Rightarrow> bool) \<Rightarrow> (string \<Rightarrow> u32 option) \<Rightarrow> udpd_config \<Rightarrow> int \<Rightarrow> sockopt_calls \<Rightarrow> int \<times> sockopt_calls" where
  "udpd_config_apply_bind_options ok aton config fd calls =
     (if fd < 0 then (-1, calls)
      else if uc_multicast_enabled config
      then case uc_multicast_group config of
             None \<Rightarrow> (0, calls)
           | Some g \<Rightarrow>
               (case aton g of
                  None \<Rightarrow> (-1, calls)
                | Some ip \<Rightarrow>
                    unless_failed (setsockopt ok IP_ADD_MEMBERSHIP (uint ip) calls) (\<lambda>calls.
                    unless_failed (setsockopt ok IP_MULTICAST_TTL (uc_multicast_ttl config) calls) (\<lambda>calls. (0, calls))))
      else (0, calls))"

definition udpd_config_cleanup :: "udpd_config \<Rightarrow> udpd_config" where
  "udpd_config_cleanup config = zero_config"

definition udpd_config_validate :: "(string \<Rightarrow> u32 option) \<Rightarrow> udpd_config \<Rightarrow> int" where
  "udpd_config_validate aton config =
     (if tc_receive_buffer_size (uc_base config) \<le> 0 then -1
      else if tc_send_buffer_size (uc_base config) \<le> 0 then -1
      else if uc_multicast_enabled config
      then case uc_multicast_group config of
             None \<Rightarrow> -1
           | Some g \<Rightarrow>
               if uc_multicast_ttl config < 0 \<or> 255 < uc_multicast_ttl config then -1
               else (case aton g of
                       None \<Rightarrow> -1
                     | Some ip \<Rightarrow> if ip AND 0xF0000000 \<noteq> 0xE0000000 then -1 else 0)
      else 0)"

definition udpd_config_copy :: "allocator \<Rightarrow> udpd_config \<Rightarrow> int \<times> udpd_config" where
  "udpd_config_copy al src =
     (case uc_multicast_group src of
        None \<Rightarrow> (0, src)
      | Some g \<Rightarrow> (case strdup al g of None \<Rightarrow> (-1, src\<lparr>uc_multicast_group := None\<rparr>) | Some g' \<Rightarrow> (0, src\<lparr>uc_multicast_group := Some g'\<rparr>)))"

section \<open>State\<close>

datatype udpd_conn_state =
    UDPD_CONN_DISCONNECTED | UDPD_CONN_BINDING | UDPD_CONN_BOUND | UDPD_CONN_RESOLVING | UDPD_CONN_READY | UDPD_CONN_ERROR

record udpd_dns_request =
  dq_hostname :: string
  dq_port :: int
  dq_yielded :: bool

text \<open>
  The references are None for \<open>LUA_NOREF\<close>; the field \<open>_ref_\<close>, which \<open>init\<close> leaves at 0, is then Some 0, a slot that is never
  handed out.
\<close>

record udpd_base_conn =
  ud_socket_fd :: int
  ud_state :: udpd_conn_state
  ud_ref :: "nat option"
  ud_onRead :: "nat option"
  ud_onSendReady :: "nat option"
  ud_config :: udpd_config
  ud_host :: "string option"
  ud_bind_host :: "string option"
  ud_port :: int
  ud_bind_port :: int
  ud_interface :: int
  ud_addr :: bytes
  ud_addrlen :: nat
  ud_bind_addr :: bytes
  ud_bind_addrlen :: nat
  ud_read_ev :: "nat option"
  ud_write_ev :: "nat option"
  ud_event_mutex :: bool
  ud_worker_id :: int
  ud_dns_request :: "udpd_dns_request option"

datatype udpd_callback = UdOnRead bytes udpd_dest | UdOnSendReady

datatype udpd_call = UcSend bytes "udpd_dest option" | UcSendReq | UcClose | UcRebind | UcTostring | UcGetPort

datatype udpd_result = UdConn | UdNil string | UdRaise string | UdInt int | UdTrue | UdFalse string | UdText string | UdNothing

text \<open>
  \<open>uw_open\<close> are the open descriptors, \<open>uw_events\<close> the events that are allocated and \<open>uw_added\<close> those that are waiting, \<open>uw_registry\<close>
  the slots in use; \<open>uw_weak\<close> says whether the object is in the weak table and \<open>uw_handed\<close> whether Lua code has it; \<open>uw_dns\<close> whether
  libevent will call back with an address; \<open>uw_resumed\<close> are the results that the coroutine of \<open>new\<close> was given.
\<close>

record udpd_world =
  uw_conn :: udpd_base_conn
  uw_open :: "int list"
  uw_events :: "nat list"
  uw_added :: "nat list"
  uw_registry :: "nat list"
  uw_next :: nat
  uw_sockopts :: sockopt_calls
  uw_weak :: bool
  uw_handed :: bool
  uw_dns :: bool
  uw_log :: "(bool \<times> udpd_callback) list"
  uw_resumed :: "udpd_result list"
  uw_sent :: "(bytes \<times> bytes) list"
  uw_lua :: "udpd_call list list"
  uw_collected :: bool
  uw_bad_access :: bool
  uw_dead_mutex :: bool
  uw_bad_unref :: bool

text \<open>
  The environment: the descriptor that \<open>socket\<close> returns, whether the other calls succeed, the address of a name to bind to,
  the result of \<open>sendto\<close>, and how \<open>evdns_getaddrinfo\<close> starts: it answers at once, in which case it has called the callback and
  returns NULL, or later, or it fails.
\<close>

datatype dns_answer = DnsError int | DnsAddr bytes

datatype dns_start = DnsNow dns_answer | DnsLater | DnsFails

record udpd_env =
  ue_al :: allocator
  ue_nt :: net_text
  ue_co :: bool
  ue_socket :: "nat \<Rightarrow> int"
  ue_getfl :: int
  ue_setfl :: "int \<Rightarrow> int"
  ue_sockopt :: "sockopt \<Rightarrow> bool"
  ue_aton :: "string \<Rightarrow> u32 option"
  ue_resolve :: "string \<Rightarrow> string \<Rightarrow> bytes option"
  ue_bind :: bool
  ue_sockname :: sock_name
  ue_event_new_read :: bool
  ue_event_new_write :: bool
  ue_event_add :: bool
  ue_sendto :: "bytes \<Rightarrow> bytes \<Rightarrow> int"
  ue_strerror :: string
  ue_gai_strerror :: "int \<Rightarrow> string"
  ue_dns :: dns_start
  ue_dest_size :: nat
  ue_nametoindex :: "string \<Rightarrow> u32"
  ue_junk :: bytes

definition upd_ud :: "(udpd_base_conn \<Rightarrow> udpd_base_conn) \<Rightarrow> udpd_world \<Rightarrow> udpd_world" where
  "upd_ud f w = w\<lparr>uw_conn := f (uw_conn w)\<rparr>"

definition lock_ev :: "udpd_world \<Rightarrow> udpd_world" where
  "lock_ev w = (if ud_event_mutex (uw_conn w) then w else w\<lparr>uw_dead_mutex := True\<rparr>)"

section \<open>Helpers\<close>

definition O_NONBLOCK :: int where "O_NONBLOCK = 2048"

text \<open>The results of the two \<open>fcntl\<close> calls are parameters.\<close>

definition udpd_socket_set_nonblock :: "int \<Rightarrow> (int \<Rightarrow> int) \<Rightarrow> int \<Rightarrow> int" where
  "udpd_socket_set_nonblock getfl setfl fd = (if fd < 0 then -1 else if getfl < 0 then -1 else setfl (getfl OR O_NONBLOCK))"

definition udpd_socket_set_reuse_addr :: "(sockopt \<Rightarrow> bool) \<Rightarrow> int \<Rightarrow> sockopt_calls \<Rightarrow> int \<times> sockopt_calls" where
  "udpd_socket_set_reuse_addr ok fd calls = (if fd < 0 then (-1, calls) else setsockopt ok SO_REUSEADDR 1 calls)"

definition udpd_socket_set_broadcast :: "(sockopt \<Rightarrow> bool) \<Rightarrow> int \<Rightarrow> sockopt_calls \<Rightarrow> int \<times> sockopt_calls" where
  "udpd_socket_set_broadcast ok fd calls = (if fd < 0 then (-1, calls) else setsockopt ok SO_BROADCAST 1 calls)"

definition udpd_socket_bind_interface :: "int \<Rightarrow> int \<Rightarrow> int" where
  "udpd_socket_bind_interface fd interface = (if fd < 0 \<or> interface \<le> 0 then -1 else 0)"

definition udpd_error_from_socket_error :: "allocator \<Rightarrow> (int \<Rightarrow> string) \<Rightarrow> int \<Rightarrow> tcpd_error" where
  "udpd_error_from_socket_error al strerror code = tcpd_error_from_socket_error al strerror code"

definition udpd_error_from_dns_error :: "allocator \<Rightarrow> (int \<Rightarrow> string) \<Rightarrow> int \<Rightarrow> tcpd_error" where
  "udpd_error_from_dns_error al gai_strerror code = tcpd_error_dns al gai_strerror code"

definition udpd_error_bind_failed :: "allocator \<Rightarrow> int \<Rightarrow> string option \<Rightarrow> int \<Rightarrow> tcpd_error" where
  "udpd_error_bind_failed al errno host port =
     (let h = (case host of Some h \<Rightarrow> h | None \<Rightarrow> ''(null)''); len = length h + 64
      in \<lparr>er_type = TCPD_ERROR_CONNECTION_RESET,
          er_message = (if can_alloc al len then Some (take (len - 1) (''Failed to bind UDP socket to '' @ h @ '':'' @ dec_text port)) else None),
          er_system_error = errno\<rparr>)"

section \<open>libevent and the registry\<close>

definition event_new :: "udpd_world \<Rightarrow> nat \<times> udpd_world" where
  "event_new w = (uw_next w, w\<lparr>uw_events := uw_events w @ [uw_next w], uw_next := uw_next w + 1\<rparr>)"

definition on_event :: "nat \<Rightarrow> (udpd_world \<Rightarrow> udpd_world) \<Rightarrow> udpd_world \<Rightarrow> udpd_world" where
  "on_event e f w = (if e \<in> set (uw_events w) then f w else w\<lparr>uw_bad_access := True\<rparr>)"

definition event_add :: "nat \<Rightarrow> udpd_world \<Rightarrow> udpd_world" where
  "event_add e w = on_event e (\<lambda>w. w\<lparr>uw_added := uw_added w @ [e]\<rparr>) w"

definition event_del :: "nat \<Rightarrow> udpd_world \<Rightarrow> udpd_world" where
  "event_del e w = on_event e (\<lambda>w. w\<lparr>uw_added := removeAll e (uw_added w)\<rparr>) w"

definition event_free :: "nat \<Rightarrow> udpd_world \<Rightarrow> udpd_world" where
  "event_free e w = on_event e (\<lambda>w. w\<lparr>uw_events := remove1 e (uw_events w), uw_added := removeAll e (uw_added w)\<rparr>) w"

definition ud_luaL_ref :: "udpd_world \<Rightarrow> nat \<times> udpd_world" where
  "ud_luaL_ref w = (uw_next w, w\<lparr>uw_registry := uw_registry w @ [uw_next w], uw_next := uw_next w + 1\<rparr>)"

definition ud_clear_ref :: "nat option \<Rightarrow> udpd_world \<Rightarrow> udpd_world" where
  "ud_clear_ref r w =
     (case r of
        None \<Rightarrow> w
      | Some n \<Rightarrow> if n = 0 then w\<lparr>uw_bad_unref := True\<rparr> else w\<lparr>uw_registry := remove1 n (uw_registry w)\<rparr>)"

definition close_socket :: "udpd_world \<Rightarrow> udpd_world" where
  "close_socket w =
     upd_ud (\<lambda>c. c\<lparr>ud_socket_fd := -1\<rparr>)
       (if ud_socket_fd (uw_conn w) \<in> set (uw_open w) then w\<lparr>uw_open := remove1 (ud_socket_fd (uw_conn w)) (uw_open w)\<rparr>
        else w\<lparr>uw_bad_access := True\<rparr>)"

section \<open>Connections\<close>

definition udpd_base_conn_init :: udpd_base_conn where
  "udpd_base_conn_init =
     \<lparr>ud_socket_fd = -1, ud_state = UDPD_CONN_DISCONNECTED, ud_ref = Some 0, ud_onRead = None, ud_onSendReady = None,
      ud_config = udpd_config_init, ud_host = None, ud_bind_host = None, ud_port = 0, ud_bind_port = 0, ud_interface = 0,
      ud_addr = replicate STORAGE_SIZE 0, ud_addrlen = 0, ud_bind_addr = replicate STORAGE_SIZE 0, ud_bind_addrlen = 0,
      ud_read_ev = None, ud_write_ev = None, ud_event_mutex = True, ud_worker_id = -1, ud_dns_request = None\<rparr>"

definition free_read_ev :: "bool \<Rightarrow> udpd_world \<Rightarrow> udpd_world" where
  "free_read_ev del w =
     (case ud_read_ev (uw_conn w) of
        None \<Rightarrow> w
      | Some e \<Rightarrow> upd_ud (\<lambda>c. c\<lparr>ud_read_ev := None\<rparr>) (event_free e (if del then event_del e w else w)))"

definition free_write_ev :: "bool \<Rightarrow> udpd_world \<Rightarrow> udpd_world" where
  "free_write_ev del w =
     (case ud_write_ev (uw_conn w) of
        None \<Rightarrow> w
      | Some e \<Rightarrow> upd_ud (\<lambda>c. c\<lparr>ud_write_ev := None\<rparr>) (event_free e (if del then event_del e w else w)))"

definition udpd_dns_request_cleanup :: "udpd_world \<Rightarrow> udpd_world" where
  "udpd_dns_request_cleanup w = upd_ud (\<lambda>c. c\<lparr>ud_dns_request := None\<rparr>) w"

definition clear_ud_refs :: "udpd_world \<Rightarrow> udpd_world" where
  "clear_ud_refs w =
     (let w = upd_ud (\<lambda>c. c\<lparr>ud_onRead := None\<rparr>) (ud_clear_ref (ud_onRead (uw_conn w)) w);
          w = upd_ud (\<lambda>c. c\<lparr>ud_onSendReady := None\<rparr>) (ud_clear_ref (ud_onSendReady (uw_conn w)) w)
      in upd_ud (\<lambda>c. c\<lparr>ud_ref := None\<rparr>) (ud_clear_ref (ud_ref (uw_conn w)) w))"

definition udpd_base_conn_cleanup :: "udpd_world \<Rightarrow> udpd_world" where
  "udpd_base_conn_cleanup w =
     (let w = clear_ud_refs w;
          w = upd_ud (\<lambda>c. c\<lparr>ud_host := None, ud_bind_host := None\<rparr>) w;
          w = free_write_ev True (free_read_ev True (lock_ev w));
          w = (if 0 \<le> ud_socket_fd (uw_conn w) then close_socket w else w);
          w = (if ud_dns_request (uw_conn w) \<noteq> None then udpd_dns_request_cleanup w else w)
      in upd_ud (\<lambda>c. c\<lparr>ud_config := udpd_config_cleanup (ud_config c), ud_state := UDPD_CONN_DISCONNECTED, ud_event_mutex := False\<rparr>) w)"

definition udpd_base_conn_set_callbacks :: "bool \<Rightarrow> bool \<Rightarrow> udpd_world \<Rightarrow> udpd_world" where
  "udpd_base_conn_set_callbacks rd sr w =
     (let w = (if rd then let (r, w) = ud_luaL_ref w in upd_ud (\<lambda>c. c\<lparr>ud_onRead := Some r\<rparr>) w
               else upd_ud (\<lambda>c. c\<lparr>ud_onRead := None\<rparr>) w)
      in if sr then let (r, w) = ud_luaL_ref w in upd_ud (\<lambda>c. c\<lparr>ud_onSendReady := Some r\<rparr>) w
         else upd_ud (\<lambda>c. c\<lparr>ud_onSendReady := None\<rparr>) w)"

text \<open>The boolean is the result: True for 0, False for -1.\<close>

definition udpd_base_conn_create_socket :: "udpd_env \<Rightarrow> udpd_world \<Rightarrow> bool \<times> udpd_world" where
  "udpd_base_conn_create_socket e w =
     (let af = (if 0 < ud_addrlen (uw_conn w) then ss_family (ud_addr (uw_conn w)) else AF_INET); fd = ue_socket e af
      in if fd < 0 then (False, w)
         else
           let w = upd_ud (\<lambda>c. c\<lparr>ud_socket_fd := fd\<rparr>) (w\<lparr>uw_open := uw_open w @ [fd]\<rparr>);
               opts = udpd_config_apply_socket_options (ue_sockopt e) (ud_config (uw_conn w)) fd (uw_sockopts w)
           in if udpd_socket_set_nonblock (ue_getfl e) (ue_setfl e) fd < 0
              then (False, upd_ud (\<lambda>c. c\<lparr>ud_state := UDPD_CONN_ERROR\<rparr>) (close_socket w))
              else if fst opts < 0
              then (False, upd_ud (\<lambda>c. c\<lparr>ud_state := UDPD_CONN_ERROR\<rparr>) (close_socket (w\<lparr>uw_sockopts := snd opts\<rparr>)))
              else (True, upd_ud (\<lambda>c. c\<lparr>ud_state := UDPD_CONN_BINDING\<rparr>) (w\<lparr>uw_sockopts := snd opts\<rparr>)))"

definition any_address :: "udpd_base_conn \<Rightarrow> bytes \<times> nat" where
  "any_address c =
     (if (if 0 < ud_addrlen c then ss_family (ud_addr c) else AF_INET) = AF_INET6
      then (make_sin6 (nat (ud_bind_port c)) (replicate 16 0), 28)
      else (make_sin (nat (ud_bind_port c)) (replicate 4 0), 16))"

definition udpd_base_conn_bind :: "udpd_env \<Rightarrow> udpd_world \<Rightarrow> bool \<times> udpd_world" where
  "udpd_base_conn_bind e w =
     (let c = uw_conn w
      in if ud_socket_fd c < 0 then (False, w)
         else
           case (case ud_bind_host c of
                   Some h \<Rightarrow> map_option (\<lambda>a. (store_addr a, length a)) (ue_resolve e h (take 5 (dec_text (ud_bind_port c))))
                 | None \<Rightarrow> Some (any_address c)) of
             None \<Rightarrow> (False, w)
           | Some (addr, n) \<Rightarrow>
               let w = upd_ud (\<lambda>c. c\<lparr>ud_bind_addr := addr, ud_bind_addrlen := n\<rparr>) w
               in if \<not> ue_bind e then (False, w)
                  else
                    let port = (if ud_bind_port c = 0
                                then case ue_sockname e of NameInet ip p \<Rightarrow> int p | _ \<Rightarrow> 0 else ud_bind_port c);
                        w = upd_ud (\<lambda>c. c\<lparr>ud_bind_port := port, ud_state := UDPD_CONN_BOUND\<rparr>) w
                    in (True, w\<lparr>uw_sockopts := snd (udpd_config_apply_bind_options (ue_sockopt e) (ue_aton e) (ud_config (uw_conn w))
                                                     (ud_socket_fd (uw_conn w)) (uw_sockopts w))\<rparr>))"

text \<open>The error exit of the following function frees the events that were made.\<close>

definition setup_failed :: "udpd_world \<Rightarrow> bool \<times> udpd_world" where
  "setup_failed w = (False, upd_ud (\<lambda>c. c\<lparr>ud_state := UDPD_CONN_ERROR\<rparr>) (free_write_ev False (free_read_ev False w)))"

definition setup_read_ev :: "udpd_env \<Rightarrow> udpd_world \<Rightarrow> bool \<times> udpd_world" where
  "setup_read_ev e w =
     (if ud_onRead (uw_conn w) = None then (True, w)
      else if \<not> ue_event_new_read e then (False, upd_ud (\<lambda>c. c\<lparr>ud_read_ev := None\<rparr>) w)
      else let (ev, w) = event_new w; w = upd_ud (\<lambda>c. c\<lparr>ud_read_ev := Some ev\<rparr>) w
           in if ue_event_add e then (True, event_add ev w) else (False, w))"

definition setup_write_ev :: "udpd_env \<Rightarrow> udpd_world \<Rightarrow> bool \<times> udpd_world" where
  "setup_write_ev e w =
     (if ud_onSendReady (uw_conn w) = None then (True, w)
      else if \<not> ue_event_new_write e then (False, upd_ud (\<lambda>c. c\<lparr>ud_write_ev := None\<rparr>) w)
      else let (ev, w) = event_new w in (True, upd_ud (\<lambda>c. c\<lparr>ud_write_ev := Some ev\<rparr>) w))"

definition udpd_base_conn_setup_events :: "udpd_env \<Rightarrow> udpd_world \<Rightarrow> bool \<times> udpd_world" where
  "udpd_base_conn_setup_events e w =
     (if ud_socket_fd (uw_conn w) < 0 then (False, w)
      else
        case setup_read_ev e (lock_ev w) of
          (False, w) \<Rightarrow> setup_failed w
        | (True, w) \<Rightarrow>
            (case setup_write_ev e w of
               (False, w) \<Rightarrow> setup_failed w
             | (True, w) \<Rightarrow> (True, upd_ud (\<lambda>c. c\<lparr>ud_state := UDPD_CONN_READY\<rparr>) w)))"

definition udpd_base_conn_request_send_ready :: "udpd_env \<Rightarrow> udpd_world \<Rightarrow> int \<times> udpd_world" where
  "udpd_base_conn_request_send_ready e w =
     (let w = lock_ev w
      in case ud_write_ev (uw_conn w) of
           None \<Rightarrow> (-1, w)
         | Some ev \<Rightarrow> if ue_event_add e then (0, event_add ev w) else (-1, on_event ev id w))"

text \<open>The two functions below are not called by the module.\<close>

definition udpd_connection_cleanup_on_disconnect :: "udpd_world \<Rightarrow> udpd_world" where
  "udpd_connection_cleanup_on_disconnect w =
     (let w = lock_ev w;
          w = (case ud_read_ev (uw_conn w) of Some ev \<Rightarrow> event_del ev w | None \<Rightarrow> w);
          w = (case ud_write_ev (uw_conn w) of Some ev \<Rightarrow> event_del ev w | None \<Rightarrow> w)
      in upd_ud (\<lambda>c. c\<lparr>ud_state := UDPD_CONN_DISCONNECTED\<rparr>) w)"

definition udpd_dns_cancel_resolution :: "udpd_world \<Rightarrow> udpd_world" where
  "udpd_dns_cancel_resolution w =
     (if ud_dns_request (uw_conn w) = None then w
      else upd_ud (\<lambda>c. c\<lparr>ud_state := UDPD_CONN_DISCONNECTED\<rparr>) (udpd_dns_request_cleanup w))"

section \<open>Methods\<close>

definition udpd_conn_send :: "udpd_env \<Rightarrow> bytes \<Rightarrow> udpd_dest option \<Rightarrow> udpd_world \<Rightarrow> udpd_result \<times> udpd_world" where
  "udpd_conn_send e data dest w =
     (let c = uw_conn w
      in if \<not> udpd_validate_packet_size (length data) then (UdNil ''Packet size exceeds UDP maximum'', w)
         else if ud_socket_fd c < 0 then (UdNil ''Socket not created'', w)
         else
           case (case dest of
                   Some d \<Rightarrow> Some (take (ds_addrlen d) (ds_addr d))
                 | None \<Rightarrow> if ud_addrlen c = 0 then None else Some (take (ud_addrlen c) (ud_addr c))) of
             None \<Rightarrow> (UdNil ''No destination address available'', w)
           | Some addr \<Rightarrow>
               let sent = ue_sendto e data addr
               in if sent < 0 then (UdNil (ue_strerror e), w) else (UdInt sent, w\<lparr>uw_sent := uw_sent w @ [(data, addr)]\<rparr>))"

definition udpd_conn_send_request :: "udpd_env \<Rightarrow> udpd_world \<Rightarrow> udpd_result \<times> udpd_world" where
  "udpd_conn_send_request e w =
     (if ud_onSendReady (uw_conn w) = None then (UdRaise ''onsendready callback not defined'', w)
      else case udpd_base_conn_request_send_ready e w of
             (rc, w) \<Rightarrow> if rc < 0 then (UdRaise ''Failed to request send ready notification'', w) else (UdNothing, w))"

definition udpd_conn_close :: "udpd_world \<Rightarrow> udpd_result \<times> udpd_world" where
  "udpd_conn_close w = (UdNothing, udpd_base_conn_cleanup w)"

definition lua_udpd_conn_rebind :: "udpd_env \<Rightarrow> udpd_world \<Rightarrow> udpd_result \<times> udpd_world" where
  "lua_udpd_conn_rebind e w =
     (let w = free_write_ev False (free_read_ev False w);
          w = (if 0 \<le> ud_socket_fd (uw_conn w) then close_socket w else w);
          w = (if ud_dns_request (uw_conn w) \<noteq> None then udpd_dns_request_cleanup w else w);
          w = upd_ud (\<lambda>c. c\<lparr>ud_state := UDPD_CONN_DISCONNECTED\<rparr>) w;
          fail = (\<lambda>msg w. (UdFalse msg, upd_ud (\<lambda>c. c\<lparr>ud_state := UDPD_CONN_ERROR\<rparr>) (close_socket w)))
      in case udpd_base_conn_create_socket e w of
           (False, w) \<Rightarrow> (UdFalse ''Failed to create socket'', w)
         | (True, w) \<Rightarrow>
             (case udpd_base_conn_bind e w of
                (False, w) \<Rightarrow> fail ''Failed to bind socket'' w
              | (True, w) \<Rightarrow>
                  (case udpd_base_conn_setup_events e w of
                     (False, w) \<Rightarrow> fail ''Failed to setup events'' w
                   | (True, w) \<Rightarrow> (UdTrue, w))))"

definition ud_state_number :: "udpd_conn_state \<Rightarrow> nat" where
  "ud_state_number st =
     (case st of UDPD_CONN_DISCONNECTED \<Rightarrow> 0 | UDPD_CONN_BINDING \<Rightarrow> 1 | UDPD_CONN_BOUND \<Rightarrow> 2 | UDPD_CONN_RESOLVING \<Rightarrow> 3
      | UDPD_CONN_READY \<Rightarrow> 4 | UDPD_CONN_ERROR \<Rightarrow> 5)"

definition udpd_format_connection_info :: "allocator \<Rightarrow> udpd_base_conn \<Rightarrow> string option" where
  "udpd_format_connection_info al c =
     (let host = (case ud_host c of Some h \<Rightarrow> h | None \<Rightarrow> ''unknown'');
          bind_host = (case ud_bind_host c of Some h \<Rightarrow> h | None \<Rightarrow> ''any'');
          len = length host + length bind_host + 128
      in if can_alloc al len
         then Some (take (len - 1)
                (''<UDP: target='' @ host @ '':'' @ dec_text (ud_port c) @ '', bind='' @ bind_host @ '':'' @ dec_text (ud_bind_port c)
                 @ '', fd='' @ dec_text (ud_socket_fd c) @ '', state='' @ dec_text (int (ud_state_number (ud_state c))) @ ''>''))
         else None)"

definition udpd_conn_tostring :: "udpd_env \<Rightarrow> udpd_world \<Rightarrow> udpd_result \<times> udpd_world" where
  "udpd_conn_tostring e w =
     (UdText (case udpd_format_connection_info (ue_al e) (uw_conn w) of Some t \<Rightarrow> t | None \<Rightarrow> ''<UDP connection>''), w)"

definition udpd_get_socket_port :: "int \<Rightarrow> sock_name \<Rightarrow> int" where
  "udpd_get_socket_port fd name = (if fd < 0 then 0 else case name of NameInet ip p \<Rightarrow> int p | _ \<Rightarrow> 0)"

definition udpd_conn_get_port :: "udpd_env \<Rightarrow> udpd_world \<Rightarrow> udpd_result \<times> udpd_world" where
  "udpd_conn_get_port e w = (UdInt (udpd_get_socket_port (ud_socket_fd (uw_conn w)) (ue_sockname e)), w)"

definition udpd_call_step :: "udpd_env \<Rightarrow> udpd_call \<Rightarrow> udpd_world \<Rightarrow> udpd_world" where
  "udpd_call_step e c w =
     snd (case c of
            UcSend data dest \<Rightarrow> udpd_conn_send e data dest w
          | UcSendReq \<Rightarrow> udpd_conn_send_request e w
          | UcClose \<Rightarrow> udpd_conn_close w
          | UcRebind \<Rightarrow> lua_udpd_conn_rebind e w
          | UcTostring \<Rightarrow> udpd_conn_tostring e w
          | UcGetPort \<Rightarrow> udpd_conn_get_port e w)"

section \<open>Callbacks\<close>

text \<open>Lua code that runs in a callback can use the object if it was handed out or is passed as the first argument.\<close>

definition run_lua :: "udpd_env \<Rightarrow> udpd_world \<Rightarrow> udpd_world" where
  "run_lua e w =
     (case uw_lua w of
        [] \<Rightarrow> w
      | cs # rest \<Rightarrow>
          if uw_handed w \<or> uw_weak w then fold (udpd_call_step e) cs (w\<lparr>uw_lua := rest\<rparr>) else w\<lparr>uw_lua := rest\<rparr>)"

definition ud_can_call :: "udpd_env \<Rightarrow> nat option \<Rightarrow> udpd_world \<Rightarrow> bool" where
  "ud_can_call e r w \<longleftrightarrow> ue_co e \<and> (case r of Some n \<Rightarrow> n \<in> set (uw_registry w) | None \<Rightarrow> False)"

definition ud_callback :: "udpd_env \<Rightarrow> udpd_callback \<Rightarrow> udpd_world \<Rightarrow> udpd_world" where
  "ud_callback e cb w =
     run_lua e (w\<lparr>uw_log := uw_log w @ [(tc_callback_self_first (uc_base (ud_config (uw_conn w))), cb)]\<rparr>)"

definition udpd_process_received_data :: "udpd_env \<Rightarrow> bytes \<Rightarrow> bytes \<Rightarrow> udpd_world \<Rightarrow> udpd_world" where
  "udpd_process_received_data e data from w =
     (if data = [] then w
      else if ud_can_call e (ud_onRead (uw_conn w)) w
      then let d = \<lparr>ds_addr = from @ drop (length from) (ue_junk e), ds_addrlen = length from, ds_host = None, ds_port = 0\<rparr>
           in ud_callback e (UdOnRead data (d\<lparr>ds_port := udpd_dest_get_port d\<rparr>)) w
      else w)"

definition udpd_handle_read_error :: "udpd_world \<Rightarrow> udpd_world" where
  "udpd_handle_read_error w =
     (let w = lock_ev (upd_ud (\<lambda>c. c\<lparr>ud_state := UDPD_CONN_ERROR\<rparr>) w)
      in case ud_read_ev (uw_conn w) of Some ev \<Rightarrow> event_del ev w | None \<Rightarrow> w)"

definition UDPD_RECV_BUFFER_SIZE :: nat where "UDPD_RECV_BUFFER_SIZE = 65536"

text \<open>What \<open>recvfrom\<close> finds: a packet with the address of its sender, an error, or nothing yet.\<close>

datatype packet = Packet bytes bytes | PacketError | PacketAgain

definition udpd_common_readcb :: "udpd_env \<Rightarrow> packet \<Rightarrow> udpd_world \<Rightarrow> udpd_world" where
  "udpd_common_readcb e p w =
     (if ud_onRead (uw_conn w) = None then w
      else case p of
             PacketAgain \<Rightarrow> w
           | PacketError \<Rightarrow> udpd_handle_read_error w
           | Packet data from \<Rightarrow> udpd_process_received_data e (take UDPD_RECV_BUFFER_SIZE data) from w)"

definition udpd_common_writecb :: "udpd_env \<Rightarrow> udpd_world \<Rightarrow> udpd_world" where
  "udpd_common_writecb e w =
     (if ud_onSendReady (uw_conn w) = None then w
      else if ud_can_call e (ud_onSendReady (uw_conn w)) w then ud_callback e UdOnSendReady w else w)"

section \<open>Name resolution of a connection\<close>

definition udpd_dns_request_create :: "allocator \<Rightarrow> nat \<Rightarrow> string \<Rightarrow> int \<Rightarrow> udpd_dns_request option" where
  "udpd_dns_request_create al sz hostname port =
     (if port \<le> 0 \<or> 65535 < port then None
      else if \<not> can_alloc al sz then None
      else map_option (\<lambda>h. \<lparr>dq_hostname = h, dq_port = port, dq_yielded = False\<rparr>) (strdup al hostname))"

definition dns_resume :: "udpd_env \<Rightarrow> udpd_result \<Rightarrow> udpd_world \<Rightarrow> udpd_world" where
  "dns_resume e r w = run_lua e (w\<lparr>uw_resumed := uw_resumed w @ [r]\<rparr>)"

definition dns_connect :: "udpd_env \<Rightarrow> bytes \<Rightarrow> udpd_world \<Rightarrow> udpd_world" where
  "dns_connect e addr w =
     (let w = upd_ud (\<lambda>c. c\<lparr>ud_addr := store_addr addr, ud_addrlen := length addr\<rparr>) w;
          (ok, w) = udpd_base_conn_create_socket e w;
          (ok, w) = (if ok \<and> ud_bind_host (uw_conn w) \<noteq> None then udpd_base_conn_bind e w else (ok, w));
          (ok, w) = (if ok then udpd_base_conn_setup_events e w else (ok, w))
      in if ok
         then let w = upd_ud (\<lambda>c. c\<lparr>ud_state := UDPD_CONN_READY\<rparr>) w
              in if uw_weak w then dns_resume e UdConn (w\<lparr>uw_handed := True\<rparr>)
                 else dns_resume e (UdNil ''Connection object not found in weak table'') w
         else dns_resume e (UdNil ''Failed to set up UDP connection after DNS resolution'')
                (upd_ud (\<lambda>c. c\<lparr>ud_state := UDPD_CONN_ERROR\<rparr>) w))"

definition udpd_conn_dns_callback :: "udpd_env \<Rightarrow> dns_answer \<Rightarrow> udpd_world \<Rightarrow> udpd_world" where
  "udpd_conn_dns_callback e r w =
     (if ud_state (uw_conn w) = UDPD_CONN_DISCONNECTED then w
      else if (case ud_ref (uw_conn w) of Some n \<Rightarrow> n \<notin> set (uw_registry w) | None \<Rightarrow> True) then w
      else
        let w = (case r of
                   DnsError code \<Rightarrow>
                     dns_resume e (UdNil (''DNS resolution failed for '' @ [CHR 0x27] @ (case ud_host (uw_conn w) of Some h \<Rightarrow> h | None \<Rightarrow> [])
                                          @ [CHR 0x27] @ '': '' @ ue_gai_strerror e code))
                       (upd_ud (\<lambda>c. c\<lparr>ud_state := UDPD_CONN_ERROR\<rparr>) w)
                 | DnsAddr addr \<Rightarrow> dns_connect e addr w);
            w = upd_ud (\<lambda>c. c\<lparr>ud_ref := None\<rparr>) (ud_clear_ref (ud_ref (uw_conn w)) w)
        in if ud_dns_request (uw_conn w) \<noteq> None then udpd_dns_request_cleanup w else w)"

definition udpd_dns_resolve_for_connection :: "udpd_env \<Rightarrow> udpd_world \<Rightarrow> bool \<times> udpd_world" where
  "udpd_dns_resolve_for_connection e w =
     (case ud_host (uw_conn w) of
        None \<Rightarrow> (False, w)
      | Some host \<Rightarrow>
          (case udpd_dns_request_create (ue_al e) 40 host (ud_port (uw_conn w)) of
             None \<Rightarrow> (False, w)
           | Some rq \<Rightarrow>
               let w = upd_ud (\<lambda>c. c\<lparr>ud_dns_request := Some rq\<rparr>) w
               in case ue_dns e of
                    DnsLater \<Rightarrow> (True, upd_ud (\<lambda>c. c\<lparr>ud_state := UDPD_CONN_RESOLVING\<rparr>) (w\<lparr>uw_dns := True\<rparr>))
                  | DnsNow r \<Rightarrow> (False, udpd_dns_request_cleanup (udpd_conn_dns_callback e r w))
                  | DnsFails \<Rightarrow> (False, udpd_dns_request_cleanup w)))"

section \<open>New connections\<close>

text \<open>The field \<open>interface\<close> is the name of an interface or its number.\<close>

datatype interface_field = IfName string | IfNumber int | IfOther

definition udpd_extract_interface_from_lua :: "(string \<Rightarrow> u32) \<Rightarrow> interface_field \<Rightarrow> int" where
  "udpd_extract_interface_from_lua index f =
     (case f of IfName s \<Rightarrow> c_int (uint (index s)) | IfNumber z \<Rightarrow> c_int z | IfOther \<Rightarrow> 0)"

record new_args =
  na_table :: udp_table
  na_onread :: bool
  na_onsendready :: bool
  na_host :: "string option"
  na_port :: "int option"
  na_bind_host :: "string option"
  na_bind_port :: "int option"
  na_interface :: interface_field
  na_worker :: "int option"
  na_script :: "udpd_call list list"

definition new_udpd_world :: "udpd_call list list \<Rightarrow> udpd_world" where
  "new_udpd_world lua =
     \<lparr>uw_conn = udpd_base_conn_init, uw_open = [], uw_events = [], uw_added = [], uw_registry = [], uw_next = 1, uw_sockopts = [],
      uw_weak = False, uw_handed = False, uw_dns = False, uw_log = [], uw_resumed = [], uw_sent = [], uw_lua = lua,
      uw_collected = False, uw_bad_access = False, uw_dead_mutex = False, uw_bad_unref = False\<rparr>"

definition new_failed :: "string \<Rightarrow> udpd_world \<Rightarrow> udpd_result option \<times> udpd_world" where
  "new_failed msg w = (Some (UdNil msg), udpd_base_conn_cleanup w)"

definition store_self :: "udpd_world \<Rightarrow> udpd_world" where
  "store_self w = (if tc_callback_self_first (uc_base (ud_config (uw_conn w))) then w\<lparr>uw_weak := True\<rparr> else w)"

text \<open>
  The steps that the paths of \<open>new\<close> share: the socket, the bind if \<open>bound\<close> holds, and the events.
\<close>

definition new_socket :: "udpd_env \<Rightarrow> bool \<Rightarrow> udpd_world \<Rightarrow> string option \<times> udpd_world" where
  "new_socket e bound w =
     (case udpd_base_conn_create_socket e w of
        (False, w) \<Rightarrow> (Some ''Failed to create UDP socket'', w)
      | (True, w) \<Rightarrow>
          (case (if bound then udpd_base_conn_bind e w else (True, w)) of
             (False, w) \<Rightarrow> (Some ''Failed to bind UDP socket'', w)
           | (True, w) \<Rightarrow>
               (case udpd_base_conn_setup_events e w of
                  (False, w) \<Rightarrow> (Some ''Failed to setup events'', w)
                | (True, w) \<Rightarrow> (None, w))))"

text \<open>The part of \<open>new\<close> that reads the table. A string is the error that is raised.\<close>

definition new_fields :: "udpd_env \<Rightarrow> new_args \<Rightarrow> string option \<times> udpd_world" where
  "new_fields e a =
     (let w = new_udpd_world (na_script a);
          w = upd_ud (\<lambda>c. c\<lparr>ud_config := udpd_config_from_lua_table (ue_al e) (na_table a)\<rparr>) w;
          w = udpd_base_conn_set_callbacks (na_onread a) (na_onsendready a) w;
          w = upd_ud (\<lambda>c. c\<lparr>ud_host := Option.bind (na_host a) (strdup (ue_al e)), ud_port := opt_int (na_port a) 0,
                            ud_bind_host := Option.bind (na_bind_host a) (strdup (ue_al e))\<rparr>) w;
          bind_port = opt_int (na_bind_port a) 0;
          interface = udpd_extract_interface_from_lua (ue_nametoindex e) (na_interface a)
      in if na_bind_host a \<noteq> None \<and> ud_bind_host (uw_conn w) = None then (Some ''memory allocation failed for bind_host'', w)
         else if bind_port < 0 \<or> 65535 < bind_port then (Some (''bind_port out of range (0-65535): '' @ dec_text bind_port), w)
         else (None, upd_ud (\<lambda>c. c\<lparr>ud_bind_port := bind_port, ud_interface := interface,
                                   ud_config := (ud_config c)\<lparr>uc_base := (uc_base (ud_config c))\<lparr>tc_interface := interface\<rparr>\<rparr>,
                                   ud_worker_id := opt_int (na_worker a) (-1)\<rparr>) w))"

definition hold_self :: "udpd_world \<Rightarrow> udpd_world" where
  "hold_self w = (let (r, w) = ud_luaL_ref w in upd_ud (\<lambda>c. c\<lparr>ud_ref := Some r\<rparr>) w)"

text \<open>The result is None when the coroutine yields to wait for the name.\<close>

definition udpd_new :: "udpd_env \<Rightarrow> new_args \<Rightarrow> udpd_result option \<times> udpd_world" where
  "udpd_new e a =
     (case new_fields e a of
        (Some msg, w) \<Rightarrow> (Some (UdRaise msg), w)
      | (None, w) \<Rightarrow>
          let w = hold_self w; c = uw_conn w
          in case ud_host c of
               Some host \<Rightarrow>
                 if 0 < ud_port c
                 then if udpd_is_ip_address (ue_nt e) host
                      then case udpd_create_address_from_string (ue_nt e) host (ud_port c) of
                             None \<Rightarrow> new_failed ''Failed to create address from IP'' w
                           | Some (addr, n) \<Rightarrow>
                               (case new_socket e (ud_bind_host c \<noteq> None) (upd_ud (\<lambda>c. c\<lparr>ud_addr := addr, ud_addrlen := n\<rparr>) w) of
                                  (Some msg, w) \<Rightarrow> new_failed msg w
                                | (None, w) \<Rightarrow> (Some UdConn, w\<lparr>uw_handed := True\<rparr>))
                      else (case udpd_dns_resolve_for_connection e w of
                              (False, w) \<Rightarrow> new_failed ''Failed to start DNS resolution'' w
                            | (True, w) \<Rightarrow> (None, store_self w))
                 else (case new_socket e True w of
                         (Some msg, w) \<Rightarrow> new_failed msg w
                       | (None, w) \<Rightarrow> (Some UdConn, (store_self w)\<lparr>uw_handed := True\<rparr>))
             | None \<Rightarrow>
                 (case new_socket e True w of
                    (Some msg, w) \<Rightarrow> new_failed msg w
                  | (None, w) \<Rightarrow> (Some UdConn, (store_self w)\<lparr>uw_handed := True\<rparr>)))"

definition lua_udpd_conn_gc :: "udpd_world \<Rightarrow> udpd_world" where
  "lua_udpd_conn_gc w = (udpd_base_conn_cleanup w)\<lparr>uw_collected := True\<rparr>"

section \<open>The event loop\<close>

text \<open>
  What happens to a connection until it is collected. An event is called only while it waits; the write event is not
  persistent. While a name is looked up the registry holds the coroutine and the coroutine holds the object.
\<close>

datatype udpd_event = UdCall udpd_call | UdPacket packet | UdWritable | UdDns dns_answer | UdGc

definition waits :: "nat option \<Rightarrow> udpd_world \<Rightarrow> bool" where
  "waits ev w \<longleftrightarrow> (case ev of Some n \<Rightarrow> n \<in> set (uw_added w) | None \<Rightarrow> False)"

definition udpd_step :: "udpd_env \<Rightarrow> udpd_event \<Rightarrow> udpd_world \<Rightarrow> udpd_world" where
  "udpd_step e x w =
     (if uw_collected w then w
      else case x of
             UdCall c \<Rightarrow> if uw_handed w then udpd_call_step e c w else w
           | UdPacket p \<Rightarrow> if waits (ud_read_ev (uw_conn w)) w then udpd_common_readcb e p w else w
           | UdWritable \<Rightarrow>
               if waits (ud_write_ev (uw_conn w)) w
               then udpd_common_writecb e (w\<lparr>uw_added := removeAll (the (ud_write_ev (uw_conn w))) (uw_added w)\<rparr>) else w
           | UdDns r \<Rightarrow> if uw_dns w then udpd_conn_dns_callback e r (w\<lparr>uw_dns := False\<rparr>) else w
           | UdGc \<Rightarrow> if uw_dns w then w else lua_udpd_conn_gc w)"

end
