(* ===== verification/Udpd_Safety.thy ===== *)
theory Udpd_Safety
  imports Udpd "HOL-Library.Multiset"
begin

text \<open>
  What holds of every UDP connection: the descriptor, the events and the registry slots that are in use are exactly those
  that the object refers to, whatever Lua code, packets and answers arrive in which order, and none is left when the object
  is collected. What does not hold is stated as well: the second cleanup uses the mutex that the first has destroyed.
\<close>

section \<open>Invariant\<close>

definition opt_mset :: "'a option \<Rightarrow> 'a multiset" where
  "opt_mset x = (case x of None \<Rightarrow> {#} | Some y \<Rightarrow> {#y#})"

lemma opt_mset_simps [simp]: "opt_mset None = {#}" "opt_mset (Some x) = {#x#}"
  by (simp_all add: opt_mset_def)

text \<open>A reference is a slot unless it is the 0 that was never handed out.\<close>

definition slot_mset :: "nat option \<Rightarrow> nat multiset" where
  "slot_mset r = opt_mset (if r = Some 0 then None else r)"

definition ud_evs :: "udpd_base_conn \<Rightarrow> nat multiset" where
  "ud_evs c = opt_mset (ud_read_ev c) + opt_mset (ud_write_ev c)"

definition ud_slots :: "udpd_base_conn \<Rightarrow> nat multiset" where
  "ud_slots c = slot_mset (ud_onRead c) + slot_mset (ud_onSendReady c) + slot_mset (ud_ref c)"

definition fds_ok :: "udpd_world \<Rightarrow> bool" where
  "fds_ok w \<longleftrightarrow> uw_open w = (if 0 \<le> ud_socket_fd (uw_conn w) then [ud_socket_fd (uw_conn w)] else [])"

definition evs_ok :: "udpd_world \<Rightarrow> bool" where
  "evs_ok w \<longleftrightarrow>
     mset (uw_events w) = ud_evs (uw_conn w) \<and> set (uw_added w) \<subseteq> set (uw_events w)
     \<and> (ud_evs (uw_conn w) \<noteq> {#} \<longrightarrow> 0 \<le> ud_socket_fd (uw_conn w))"

definition slots_ok :: "udpd_world \<Rightarrow> bool" where
  "slots_ok w \<longleftrightarrow> mset (uw_registry w) = ud_slots (uw_conn w) \<and> 0 < uw_next w"

definition ud_inv :: "udpd_world \<Rightarrow> bool" where
  "ud_inv w \<longleftrightarrow> fds_ok w \<and> evs_ok w \<and> slots_ok w \<and> \<not> uw_bad_access w \<and> (uw_dns w \<longrightarrow> ud_socket_fd (uw_conn w) < 0 \<and> \<not> uw_handed w)"

lemmas ud_inv_defs = ud_inv_def fds_ok_def evs_ok_def slots_ok_def

lemma ud_inv_conn:
  "ud_inv w \<Longrightarrow>
   (\<And>c. ud_socket_fd (f c) = ud_socket_fd c \<and> ud_evs (f c) = ud_evs c \<and> ud_slots (f c) = ud_slots c) \<Longrightarrow> ud_inv (upd_ud f w)"
  by (simp add: ud_inv_defs upd_ud_def)

lemma ud_inv_lock [simp]: "ud_inv (lock_ev w) = ud_inv w" "uw_conn (lock_ev w) = uw_conn w"
  by (simp_all add: ud_inv_defs lock_ev_def)

lemma ud_inv_frame [simp]:
  "ud_inv (w\<lparr>uw_sockopts := so\<rparr>) = ud_inv w" "ud_inv (w\<lparr>uw_weak := b\<rparr>) = ud_inv w"
  "ud_inv (w\<lparr>uw_log := lg\<rparr>) = ud_inv w" "ud_inv (w\<lparr>uw_resumed := rs\<rparr>) = ud_inv w" "ud_inv (w\<lparr>uw_sent := st\<rparr>) = ud_inv w"
  "ud_inv (w\<lparr>uw_lua := cs\<rparr>) = ud_inv w" "ud_inv (w\<lparr>uw_collected := b\<rparr>) = ud_inv w"
  by (simp_all add: ud_inv_defs)

lemma ud_inv_handed [simp]: "\<not> uw_dns w \<Longrightarrow> ud_inv (w\<lparr>uw_handed := b\<rparr>) = ud_inv w"
  by (simp add: ud_inv_defs)

lemma evs_in_events:
  assumes "ud_inv w"
  shows "ud_read_ev (uw_conn w) = Some e \<Longrightarrow> e \<in> set (uw_events w)" "ud_write_ev (uw_conn w) = Some e \<Longrightarrow> e \<in> set (uw_events w)"
  using assms by (simp_all add: ud_inv_defs ud_evs_def flip: set_mset_mset)

lemma added_remove: "set added \<subseteq> set evs \<Longrightarrow> set (removeAll e added) \<subseteq> set (remove1 e evs)"
proof
  fix x assume "set added \<subseteq> set evs" "x \<in> set (removeAll e added)"
  then have "x \<noteq> e" "x \<in> set evs" by auto
  then show "x \<in> set (remove1 e evs)" by simp
qed

lemma event_del_inv:
  "ud_inv w \<Longrightarrow> e \<in> set (uw_events w) \<Longrightarrow> ud_inv (event_del e w)"
  by (auto simp: ud_inv_defs event_del_def on_event_def)

lemma event_add_inv:
  "ud_inv w \<Longrightarrow> e \<in> set (uw_events w) \<Longrightarrow> ud_inv (event_add e w)"
  by (auto simp: ud_inv_defs event_add_def on_event_def)

lemma event_op_frame [simp]:
  "uw_conn (event_del e w) = uw_conn w" "uw_events (event_del e w) = uw_events w" "uw_conn (event_add e w) = uw_conn w"
  by (simp_all add: event_del_def event_add_def on_event_def)

lemma ud_clear_ref_handed [simp]: "uw_handed (ud_clear_ref r w) = uw_handed w"
  by (simp add: ud_clear_ref_def split: option.split)

lemma event_free_read_inv:
  "ud_inv w \<Longrightarrow> ud_read_ev (uw_conn w) = Some e \<Longrightarrow> ud_inv (upd_ud (\<lambda>c. c\<lparr>ud_read_ev := None\<rparr>) (event_free e w))"
  using evs_in_events(1) [of w e] added_remove [of "uw_added w" "uw_events w" e]
  by (auto simp: ud_inv_defs ud_evs_def ud_slots_def event_free_def on_event_def upd_ud_def)

lemma event_free_write_inv:
  "ud_inv w \<Longrightarrow> ud_write_ev (uw_conn w) = Some e \<Longrightarrow> ud_inv (upd_ud (\<lambda>c. c\<lparr>ud_write_ev := None\<rparr>) (event_free e w))"
  using evs_in_events(2) [of w e] added_remove [of "uw_added w" "uw_events w" e]
  by (auto simp: ud_inv_defs ud_evs_def ud_slots_def event_free_def on_event_def upd_ud_def)

lemma free_ev_inv: "ud_inv w \<Longrightarrow> ud_inv (free_read_ev d w)" "ud_inv w \<Longrightarrow> ud_inv (free_write_ev d w)"
  unfolding free_read_ev_def free_write_ev_def
  by (auto split: option.split intro!: event_free_read_inv event_free_write_inv event_del_inv dest: evs_in_events)

lemma unref_mset: "mset reg = slot_mset r + M \<Longrightarrow> mset (uw_registry (ud_clear_ref r (w\<lparr>uw_registry := reg\<rparr>))) = M"
  by (auto simp: ud_clear_ref_def slot_mset_def split: option.split)

lemma ud_clear_ref_frame [simp]:
  "uw_conn (ud_clear_ref r w) = uw_conn w" "uw_open (ud_clear_ref r w) = uw_open w" "uw_events (ud_clear_ref r w) = uw_events w"
  "uw_added (ud_clear_ref r w) = uw_added w" "uw_next (ud_clear_ref r w) = uw_next w"
  "uw_bad_access (ud_clear_ref r w) = uw_bad_access w" "uw_dns (ud_clear_ref r w) = uw_dns w"
  by (simp_all add: ud_clear_ref_def split: option.split)

lemma unref_inv:
  assumes "ud_inv w" and "ud_slots (uw_conn w) = slot_mset r + ud_slots (f (uw_conn w))"
    and "ud_socket_fd (f (uw_conn w)) = ud_socket_fd (uw_conn w)" "ud_evs (f (uw_conn w)) = ud_evs (uw_conn w)"
  shows "ud_inv (upd_ud f (ud_clear_ref r w))"
  using assms unref_mset [of "uw_registry w" r "ud_slots (f (uw_conn w))" w] by (simp add: ud_inv_defs upd_ud_def)

lemma clear_ud_refs_inv: "ud_inv w \<Longrightarrow> ud_inv (clear_ud_refs w)"
  unfolding clear_ud_refs_def Let_def by (intro unref_inv) (simp_all add: upd_ud_def ud_slots_def ud_evs_def slot_mset_def)

section \<open>Every operation keeps it\<close>

lemma close_socket_inv:
  "ud_inv w \<Longrightarrow> 0 \<le> ud_socket_fd (uw_conn w) \<Longrightarrow> ud_evs (uw_conn w) = {#} \<Longrightarrow> ud_inv (close_socket w)"
  by (auto simp: ud_inv_defs close_socket_def upd_ud_def ud_evs_def ud_slots_def)

lemma free_ev_frame [simp]:
  "ud_socket_fd (uw_conn (free_read_ev d w)) = ud_socket_fd (uw_conn w)"
  "ud_socket_fd (uw_conn (free_write_ev d w)) = ud_socket_fd (uw_conn w)"
  "ud_read_ev (uw_conn (free_read_ev d w)) = None" "ud_read_ev (uw_conn (free_write_ev d w)) = ud_read_ev (uw_conn w)"
  "ud_write_ev (uw_conn (free_write_ev d w)) = None"
  by (simp_all add: free_read_ev_def free_write_ev_def event_free_def on_event_def upd_ud_def split: option.split)

lemma free_evs: "ud_evs (uw_conn (free_write_ev d (free_read_ev d' w))) = {#}"
  by (simp add: ud_evs_def)

definition drop_dns :: "udpd_world \<Rightarrow> udpd_world" where
  "drop_dns w = (if ud_dns_request (uw_conn w) \<noteq> None then udpd_dns_request_cleanup w else w)"

definition drop_socket :: "udpd_world \<Rightarrow> udpd_world" where
  "drop_socket w = (if 0 \<le> ud_socket_fd (uw_conn w) then close_socket w else w)"

lemma drop_dns_inv: "ud_inv w \<Longrightarrow> ud_inv (drop_dns w)"
  unfolding drop_dns_def udpd_dns_request_cleanup_def by (simp add: ud_inv_conn ud_evs_def ud_slots_def)

lemma drop_socket_inv: "ud_inv w \<Longrightarrow> ud_evs (uw_conn w) = {#} \<Longrightarrow> ud_inv (drop_socket w)"
  unfolding drop_socket_def by (simp add: close_socket_inv)

lemma drop_frame [simp]:
  "ud_evs (uw_conn (drop_dns w)) = ud_evs (uw_conn w)" "ud_evs (uw_conn (drop_socket w)) = ud_evs (uw_conn w)"
  "ud_slots (uw_conn (drop_dns w)) = ud_slots (uw_conn w)" "ud_slots (uw_conn (drop_socket w)) = ud_slots (uw_conn w)"
  "ud_socket_fd (uw_conn (drop_dns w)) = ud_socket_fd (uw_conn w)"
  by (simp_all add: drop_dns_def drop_socket_def close_socket_def udpd_dns_request_cleanup_def upd_ud_def ud_evs_def ud_slots_def)

lemma drop_socket_fd: "ud_socket_fd (uw_conn (drop_socket w)) < 0"
  by (simp add: drop_socket_def close_socket_def upd_ud_def)

lemma upd_ud_conn [simp]: "uw_conn (upd_ud f w) = f (uw_conn w)"
  by (simp add: upd_ud_def)

lemma cleanup_eq:
  "udpd_base_conn_cleanup w =
     upd_ud (\<lambda>c. c\<lparr>ud_config := udpd_config_cleanup (ud_config c), ud_state := UDPD_CONN_DISCONNECTED, ud_event_mutex := False\<rparr>)
       (drop_dns (drop_socket (free_write_ev True (free_read_ev True
          (lock_ev (upd_ud (\<lambda>c. c\<lparr>ud_host := None, ud_bind_host := None\<rparr>) (clear_ud_refs w)))))))"
  by (simp add: udpd_base_conn_cleanup_def Let_def drop_dns_def drop_socket_def)

lemma cleanup_inv: "ud_inv w \<Longrightarrow> ud_inv (udpd_base_conn_cleanup w)"
  unfolding cleanup_eq
  by (intro ud_inv_conn drop_dns_inv drop_socket_inv free_ev_inv)
    (simp_all add: ud_evs_def ud_slots_def ud_inv_conn clear_ud_refs_inv)

lemma free_ev_slots [simp]:
  "ud_slots (uw_conn (free_read_ev d w)) = ud_slots (uw_conn w)" "ud_slots (uw_conn (free_write_ev d w)) = ud_slots (uw_conn w)"
  by (simp_all add: free_read_ev_def free_write_ev_def event_free_def on_event_def upd_ud_def ud_slots_def split: option.split)

text \<open>A connection without a descriptor, event or registry slot.\<close>

definition ud_clean :: "udpd_world \<Rightarrow> bool" where
  "ud_clean w \<longleftrightarrow> uw_open w = [] \<and> uw_events w = [] \<and> uw_added w = [] \<and> uw_registry w = [] \<and> \<not> uw_bad_access w"

lemma ud_cleanI:
  "ud_inv w \<Longrightarrow> ud_socket_fd (uw_conn w) < 0 \<Longrightarrow> ud_slots (uw_conn w) = {#} \<Longrightarrow> ud_clean w"
  by (auto simp: ud_inv_defs ud_clean_def)

lemma cleanup_clean: "ud_inv w \<Longrightarrow> ud_clean (udpd_base_conn_cleanup w)"
proof (rule ud_cleanI [OF cleanup_inv])
  show "ud_socket_fd (uw_conn (udpd_base_conn_cleanup w)) < 0" by (simp add: cleanup_eq drop_socket_fd)
  show "ud_slots (uw_conn (udpd_base_conn_cleanup w)) = {#}"
    by (simp add: cleanup_eq ud_slots_def slot_mset_def) (simp add: drop_dns_def drop_socket_def close_socket_def udpd_dns_request_cleanup_def
      free_read_ev_def free_write_ev_def event_free_def on_event_def clear_ud_refs_def Let_def upd_ud_def split: option.split)
qed

lemma free_ev_dns [simp]: "uw_dns (free_read_ev d w) = uw_dns w" "uw_dns (free_write_ev d w) = uw_dns w"
  by (simp_all add: free_read_ev_def free_write_ev_def event_free_def event_del_def on_event_def upd_ud_def split: option.split)

lemma drop_dns_dns [simp]: "uw_dns (drop_dns w) = uw_dns w" "uw_dns (drop_socket w) = uw_dns w" "uw_dns (lock_ev w) = uw_dns w"
    "uw_dns (clear_ud_refs w) = uw_dns w" "uw_dns (upd_ud f w) = uw_dns w"
  by (simp_all add: drop_dns_def drop_socket_def close_socket_def udpd_dns_request_cleanup_def upd_ud_def lock_ev_def clear_ud_refs_def Let_def)

lemma cleanup_dns [simp]: "uw_dns (udpd_base_conn_cleanup w) = uw_dns w"
  by (simp add: cleanup_eq)

lemma ud_state_inv: "ud_inv w \<Longrightarrow> ud_inv (upd_ud (\<lambda>c. c\<lparr>ud_state := st\<rparr>) w)"
  by (simp add: ud_inv_conn ud_evs_def ud_slots_def)

text \<open>
  Before a socket is made there is none; the socket that is made has no events yet.
\<close>

definition fresh_socket :: "bool \<times> udpd_world \<Rightarrow> bool" where
  "fresh_socket r \<longleftrightarrow>
     ud_inv (snd r) \<and> ud_evs (uw_conn (snd r)) = {#} \<and> \<not> uw_dns (snd r) \<and> (fst r \<longrightarrow> 0 \<le> ud_socket_fd (uw_conn (snd r)))"

lemma close_socket_frame [simp]: "uw_dns (close_socket w) = uw_dns w" "ud_evs (uw_conn (close_socket w)) = ud_evs (uw_conn w)"
  by (simp_all add: close_socket_def upd_ud_def ud_evs_def)

lemma ud_evs_state [simp]: "ud_evs (c\<lparr>ud_state := st\<rparr>) = ud_evs c" "ud_evs (c\<lparr>ud_socket_fd := fd\<rparr>) = ud_evs c"
  "ud_slots (c\<lparr>ud_state := st\<rparr>) = ud_slots c" "ud_slots (c\<lparr>ud_socket_fd := fd\<rparr>) = ud_slots c"
  by (simp_all add: ud_evs_def ud_slots_def)

lemma create_socket_fresh:
  assumes w: "ud_inv w" "ud_socket_fd (uw_conn w) < 0" "\<not> uw_dns w"
  shows "fresh_socket (udpd_base_conn_create_socket e w)"
proof -
  have evs: "ud_evs (uw_conn w) = {#}" using w by (auto simp: ud_inv_defs)
  have "ud_inv (upd_ud (\<lambda>c. c\<lparr>ud_socket_fd := fd\<rparr>) (w\<lparr>uw_open := uw_open w @ [fd]\<rparr>))" if "0 \<le> fd" for fd using that w by (simp add: ud_inv_defs upd_ud_def)
  then show ?thesis
    using w evs
    by (simp add: udpd_base_conn_create_socket_def Let_def fresh_socket_def ud_state_inv close_socket_inv)
qed

lemma bind_fresh:
  assumes "ud_inv w" "ud_evs (uw_conn w) = {#}" "\<not> uw_dns w" "0 \<le> ud_socket_fd (uw_conn w)"
  shows "fresh_socket (udpd_base_conn_bind e w) \<and> ud_socket_fd (uw_conn (snd (udpd_base_conn_bind e w))) = ud_socket_fd (uw_conn w)"
  using assms
  by (simp add: udpd_base_conn_bind_def Let_def fresh_socket_def ud_inv_conn ud_evs_def ud_slots_def split: option.split)

lemma setup_failed_fresh:
  "ud_inv w \<Longrightarrow> \<not> uw_dns w \<Longrightarrow> fresh_socket (setup_failed w)"
  unfolding setup_failed_def fresh_socket_def
  by (simp add: ud_state_inv free_ev_inv free_evs)

lemma setup_read_inv:
  assumes "ud_inv w" "ud_evs (uw_conn w) = {#}" "\<not> uw_dns w" "0 \<le> ud_socket_fd (uw_conn w)"
  shows "ud_inv (snd (setup_read_ev e w)) \<and> \<not> uw_dns (snd (setup_read_ev e w)) \<and> ud_write_ev (uw_conn (snd (setup_read_ev e w))) = None
    \<and> ud_socket_fd (uw_conn (snd (setup_read_ev e w))) = ud_socket_fd (uw_conn w)"
  using assms
  by (auto simp: setup_read_ev_def Let_def event_new_def event_add_def on_event_def upd_ud_def ud_inv_defs ud_evs_def ud_slots_def
    opt_mset_def split: option.splits)

lemma setup_write_inv:
  assumes "ud_inv w" "ud_write_ev (uw_conn w) = None" "\<not> uw_dns w" "0 \<le> ud_socket_fd (uw_conn w)"
  shows "ud_inv (snd (setup_write_ev e w)) \<and> \<not> uw_dns (snd (setup_write_ev e w))
    \<and> ud_socket_fd (uw_conn (snd (setup_write_ev e w))) = ud_socket_fd (uw_conn w)"
  using assms
  by (auto simp: setup_write_ev_def Let_def event_new_def upd_ud_def ud_inv_defs ud_evs_def ud_slots_def)

lemma setup_events_inv:
  fixes e :: udpd_env and w :: udpd_world
  assumes w: "ud_inv w" "ud_evs (uw_conn w) = {#}" "\<not> uw_dns w" "0 \<le> ud_socket_fd (uw_conn w)"
  defines "r \<equiv> udpd_base_conn_setup_events e w"
  shows "ud_inv (snd r) \<and> \<not> uw_dns (snd r) \<and> ud_socket_fd (uw_conn (snd r)) = ud_socket_fd (uw_conn w)
    \<and> (\<not> fst r \<longrightarrow> ud_evs (uw_conn (snd r)) = {#})"
proof -
  obtain ok w1 where 1: "setup_read_ev e (lock_ev w) = (ok, w1)" by (cases "setup_read_ev e (lock_ev w)")
  with setup_read_inv [of "lock_ev w" e] w have w1: "ud_inv w1" "\<not> uw_dns w1" "ud_write_ev (uw_conn w1) = None"
      "ud_socket_fd (uw_conn w1) = ud_socket_fd (uw_conn w)"
    by simp_all
  obtain ok2 w2 where 2: "setup_write_ev e w1 = (ok2, w2)" by (cases "setup_write_ev e w1")
  with setup_write_inv [of w1 e] w1 w have w2: "ud_inv w2" "\<not> uw_dns w2" "ud_socket_fd (uw_conn w2) = ud_socket_fd (uw_conn w)"
    by simp_all
  show ?thesis
    using 1 2 w1 w2 w setup_failed_fresh [of w1] setup_failed_fresh [of w2]
    by (auto simp: r_def udpd_base_conn_setup_events_def fresh_socket_def ud_state_inv setup_failed_def split: bool.split)
qed

lemma rebind_inv:
  assumes w: "ud_inv w" "\<not> uw_dns w"
  shows "ud_inv (snd (lua_udpd_conn_rebind e w)) \<and> \<not> uw_dns (snd (lua_udpd_conn_rebind e w))"
proof -
  define w0 where "w0 = upd_ud (\<lambda>c. c\<lparr>ud_state := UDPD_CONN_DISCONNECTED\<rparr>) (drop_dns (drop_socket (free_write_ev False (free_read_ev False w))))"
  have dns: "\<not> uw_dns w0"
    using w(2) by (simp add: w0_def)
  have w0: "ud_inv w0" "ud_socket_fd (uw_conn w0) < 0"
    unfolding w0_def using w by (simp_all add: ud_state_inv drop_dns_inv drop_socket_inv free_ev_inv free_evs drop_socket_fd)
  obtain ok w1 where 1: "udpd_base_conn_create_socket e w0 = (ok, w1)" by fastforce
  obtain ok2 w2 where 2: "udpd_base_conn_bind e w1 = (ok2, w2)" by fastforce
  obtain ok3 w3 where 3: "udpd_base_conn_setup_events e w2 = (ok3, w3)" by fastforce
  have f1: "fresh_socket (ok, w1)" using create_socket_fresh [OF w0 dns, of e] 1 by simp
  have f2: "fresh_socket (ok2, w2)" "0 \<le> ud_socket_fd (uw_conn w2)" if ok
    using that bind_fresh [of w1 e] f1 2 by (auto simp: fresh_socket_def)
  have f3: "ud_inv w3 \<and> \<not> uw_dns w3 \<and> 0 \<le> ud_socket_fd (uw_conn w3) \<and> (\<not> ok3 \<longrightarrow> ud_evs (uw_conn w3) = {#})" if ok
    using that setup_events_inv [of w2 e] f2 3 by (auto simp: fresh_socket_def)
  have "lua_udpd_conn_rebind e w =
    (if \<not> ok then (UdFalse ''Failed to create socket'', w1)
     else if \<not> ok2 then (UdFalse ''Failed to bind socket'', upd_ud (\<lambda>c. c\<lparr>ud_state := UDPD_CONN_ERROR\<rparr>) (close_socket w2))
     else if \<not> ok3 then (UdFalse ''Failed to setup events'', upd_ud (\<lambda>c. c\<lparr>ud_state := UDPD_CONN_ERROR\<rparr>) (close_socket w3))
     else (UdTrue, w3))"
    unfolding lua_udpd_conn_rebind_def Let_def drop_socket_def [symmetric] drop_dns_def [symmetric] w0_def [symmetric]
    using 1 2 3 by (simp split: bool.split)
  with f1 f2 f3 show ?thesis by (auto simp: fresh_socket_def ud_state_inv close_socket_inv)
qed

lemma send_ready_inv:
  assumes "ud_inv w"
  shows "ud_inv (snd (udpd_base_conn_request_send_ready e w)) \<and> uw_dns (snd (udpd_base_conn_request_send_ready e w)) = uw_dns w"
proof (cases "ud_write_ev (uw_conn w)")
  case (Some ev)
  with assms evs_in_events(2) [of "lock_ev w" ev] show ?thesis
    by (simp add: udpd_base_conn_request_send_ready_def Let_def event_add_inv) (simp add: on_event_def event_add_def)
qed (use assms in \<open>simp add: udpd_base_conn_request_send_ready_def\<close>)

lemma call_inv:
  "ud_inv w \<and> \<not> uw_dns w \<Longrightarrow> ud_inv (udpd_call_step e c w) \<and> \<not> uw_dns (udpd_call_step e c w)"
proof (cases c)
  case (UcSend data dest)
  then show "ud_inv w \<and> \<not> uw_dns w \<Longrightarrow> ?thesis"
    by (simp add: udpd_call_step_def udpd_conn_send_def Let_def split: option.split)
next
  case UcSendReq
  then show "ud_inv w \<and> \<not> uw_dns w \<Longrightarrow> ?thesis"
    using send_ready_inv [of w e] by (simp add: udpd_call_step_def udpd_conn_send_request_def split_beta)
next
  case UcRebind
  then show "ud_inv w \<and> \<not> uw_dns w \<Longrightarrow> ?thesis"
    using rebind_inv [of w e] by (simp add: udpd_call_step_def)
qed (simp_all add: udpd_call_step_def udpd_conn_close_def udpd_conn_tostring_def udpd_conn_get_port_def cleanup_inv)

lemma run_lua_inv: "ud_inv w \<Longrightarrow> \<not> uw_dns w \<Longrightarrow> ud_inv (run_lua e w) \<and> \<not> uw_dns (run_lua e w)"
proof -
  assume w: "ud_inv w" "\<not> uw_dns w"
  have "ud_inv (fold (udpd_call_step e) cs v) \<and> \<not> uw_dns (fold (udpd_call_step e) cs v)" if "ud_inv v \<and> \<not> uw_dns v" for cs v
    using that by (induction cs arbitrary: v) (simp_all add: call_inv)
  with w show ?thesis by (simp add: run_lua_def split: list.split)
qed

section \<open>Events\<close>

lemma ud_callback_inv: "ud_inv w \<Longrightarrow> \<not> uw_dns w \<Longrightarrow> ud_inv (ud_callback e cb w) \<and> \<not> uw_dns (ud_callback e cb w)"
  unfolding ud_callback_def by (rule run_lua_inv) simp_all

lemma readcb_inv:
  assumes "ud_inv w" "\<not> uw_dns w"
  shows "ud_inv (udpd_common_readcb e p w) \<and> \<not> uw_dns (udpd_common_readcb e p w)"
proof -
  have "ud_inv (udpd_handle_read_error w) \<and> \<not> uw_dns (udpd_handle_read_error w)"
    using assms evs_in_events(1) [of "lock_ev (upd_ud (\<lambda>c. c\<lparr>ud_state := UDPD_CONN_ERROR\<rparr>) w)"]
    by (auto simp: udpd_handle_read_error_def Let_def ud_state_inv event_del_inv split: option.split)
      (simp add: event_del_def on_event_def)
  with assms show ?thesis
    by (simp add: udpd_common_readcb_def udpd_process_received_data_def Let_def ud_callback_inv split: packet.split)
qed

lemma writecb_inv:
  "ud_inv w \<Longrightarrow> \<not> uw_dns w \<Longrightarrow> ud_inv (udpd_common_writecb e w) \<and> \<not> uw_dns (udpd_common_writecb e w)"
  by (simp add: udpd_common_writecb_def ud_callback_inv)

lemma dns_resume_inv: "ud_inv w \<Longrightarrow> \<not> uw_dns w \<Longrightarrow> ud_inv (dns_resume e r w) \<and> \<not> uw_dns (dns_resume e r w)"
  unfolding dns_resume_def by (rule run_lua_inv) simp_all

lemma dns_connect_inv:
  assumes w: "ud_inv w" "\<not> uw_dns w" "ud_socket_fd (uw_conn w) < 0"
  shows "ud_inv (dns_connect e addr w) \<and> \<not> uw_dns (dns_connect e addr w)"
proof -
  define w0 where "w0 = upd_ud (\<lambda>c. c\<lparr>ud_addr := store_addr addr, ud_addrlen := length addr\<rparr>) w"
  have w0: "ud_inv w0" "ud_socket_fd (uw_conn w0) < 0" "\<not> uw_dns w0"
    unfolding w0_def using w by (simp_all add: ud_inv_conn ud_evs_def ud_slots_def)
  obtain ok1 w1 where 1: "udpd_base_conn_create_socket e w0 = (ok1, w1)" by fastforce
  obtain ok2 w2 where 2: "(if ok1 \<and> ud_bind_host (uw_conn w1) \<noteq> None then udpd_base_conn_bind e w1 else (ok1, w1)) = (ok2, w2)"
    by (metis surj_pair)
  obtain ok3 w3 where 3: "(if ok2 then udpd_base_conn_setup_events e w2 else (ok2, w2)) = (ok3, w3)" by (metis surj_pair)
  have f1: "fresh_socket (ok1, w1)" using create_socket_fresh [OF w0, of e] 1 by simp
  then have f2: "fresh_socket (ok2, w2)"
    using bind_fresh [of w1 e] 2 by (auto simp: fresh_socket_def split: if_splits)
  then have f3: "ud_inv w3" "\<not> uw_dns w3"
    using setup_events_inv [of w2 e] 3 by (auto simp: fresh_socket_def split: if_splits)
  have "dns_connect e addr w =
      (if ok3
       then let w = upd_ud (\<lambda>c. c\<lparr>ud_state := UDPD_CONN_READY\<rparr>) w3
            in if uw_weak w then dns_resume e UdConn (w\<lparr>uw_handed := True\<rparr>)
               else dns_resume e (UdNil ''Connection object not found in weak table'') w
       else dns_resume e (UdNil ''Failed to set up UDP connection after DNS resolution'')
              (upd_ud (\<lambda>c. c\<lparr>ud_state := UDPD_CONN_ERROR\<rparr>) w3))"
    unfolding dns_connect_def w0_def [symmetric] using 1 2 3 by (simp add: Let_def)
  then show ?thesis by (simp add: Let_def dns_resume_inv ud_state_inv f3)
qed

lemma dns_callback_inv:
  assumes w: "ud_inv w" "\<not> uw_dns w" "ud_socket_fd (uw_conn w) < 0"
  shows "ud_inv (udpd_conn_dns_callback e r w) \<and> \<not> uw_dns (udpd_conn_dns_callback e r w)"
proof -
  have finish: "ud_inv v \<Longrightarrow> ud_inv (drop_dns (upd_ud (\<lambda>c. c\<lparr>ud_ref := None\<rparr>) (ud_clear_ref (ud_ref (uw_conn v)) v)))" for v
    by (intro drop_dns_inv unref_inv) (simp_all add: ud_slots_def ud_evs_def slot_mset_def)
  show ?thesis
    unfolding udpd_conn_dns_callback_def Let_def drop_dns_def [symmetric]
    using w dns_connect_inv [OF w, of e]
    by (auto simp: finish dns_resume_inv ud_state_inv split: dns_answer.split)
qed

lemma udpd_step_inv:
  assumes "ud_inv w"
  shows "ud_inv (udpd_step e x w)"
proof -
  have dns: "ud_inv (w\<lparr>uw_dns := False\<rparr>)" using assms by (simp add: ud_inv_defs)
  have handed: "waits ev w \<Longrightarrow> ev \<in> {ud_read_ev (uw_conn w), ud_write_ev (uw_conn w)} \<Longrightarrow> \<not> uw_dns w" for ev
    using assms by (auto simp: waits_def ud_inv_defs ud_evs_def split: option.splits)
  have added: "ud_inv (w\<lparr>uw_added := removeAll n (uw_added w)\<rparr>)" for n using assms by (auto simp: ud_inv_defs)
  show ?thesis
  proof (cases x)
    case (UdDns r)
    with assms dns dns_callback_inv [OF dns, of e r] show ?thesis by (auto simp: udpd_step_def ud_inv_defs)
  next
    case (UdCall c)
    have "uw_handed w \<Longrightarrow> \<not> uw_dns w" using assms by (auto simp: ud_inv_def)
    with UdCall assms call_inv [of w e c] show ?thesis by (auto simp: udpd_step_def)
  qed (use assms handed added readcb_inv writecb_inv cleanup_inv in \<open>auto simp: udpd_step_def lua_udpd_conn_gc_def\<close>)
qed

section \<open>New connections\<close>

lemma fields_inv:
  "ud_inv (snd (new_fields e a)) \<and> \<not> uw_dns (snd (new_fields e a)) \<and> ud_socket_fd (uw_conn (snd (new_fields e a))) < 0
    \<and> slot_mset (ud_ref (uw_conn (snd (new_fields e a)))) = {#}"
  by (simp add: new_fields_def new_udpd_world_def Let_def udpd_base_conn_set_callbacks_def udpd_base_conn_init_def ud_luaL_ref_def
      upd_ud_def ud_inv_defs ud_evs_def ud_slots_def slot_mset_def)

lemma new_failed_inv: "ud_inv w \<Longrightarrow> ud_inv (snd (new_failed msg w))"
  by (simp add: new_failed_def cleanup_inv)

lemma store_self_inv [simp]: "ud_inv (store_self w) = ud_inv w" "uw_dns (store_self w) = uw_dns w"
  by (simp_all add: store_self_def)

lemma new_socket_inv:
  assumes w: "ud_inv w" "ud_socket_fd (uw_conn w) < 0" "\<not> uw_dns w"
  shows "ud_inv (snd (new_socket e b w)) \<and> \<not> uw_dns (snd (new_socket e b w))"
proof -
  obtain ok1 w1 where 1: "udpd_base_conn_create_socket e w = (ok1, w1)" by fastforce
  obtain ok2 w2 where 2: "(if b then udpd_base_conn_bind e w1 else (True, w1)) = (ok2, w2)" by (metis surj_pair)
  obtain ok3 w3 where 3: "udpd_base_conn_setup_events e w2 = (ok3, w3)" by fastforce
  have f1: "fresh_socket (ok1, w1)" using create_socket_fresh [OF w, of e] 1 by simp
  then have f2: "ok1 \<Longrightarrow> fresh_socket (ok2, w2) \<and> 0 \<le> ud_socket_fd (uw_conn w2)"
    using bind_fresh [of w1 e] 2 by (auto simp: fresh_socket_def split: if_splits)
  then have "ok1 \<Longrightarrow> ok2 \<Longrightarrow> ud_inv w3 \<and> \<not> uw_dns w3"
    using setup_events_inv [of w2 e] 3 by (auto simp: fresh_socket_def)
  with 1 2 3 f1 f2 show ?thesis by (cases ok1; cases ok2; cases ok3; simp add: new_socket_def fresh_socket_def)
qed

lemma new_done_inv:
  assumes "ud_inv v" "ud_socket_fd (uw_conn v) < 0" "\<not> uw_dns v" and g: "\<And>w. ud_inv (g w) = ud_inv w" "\<And>w. uw_dns (g w) = uw_dns w"
  shows "ud_inv (snd (case new_socket e b v of (Some msg, w) \<Rightarrow> new_failed msg w | (None, w) \<Rightarrow> (Some UdConn, (g w)\<lparr>uw_handed := True\<rparr>)))"
proof -
  obtain m w where "new_socket e b v = (m, w)" by fastforce
  with new_socket_inv [OF assms(1-3), of e b] show ?thesis by (cases m) (simp_all add: new_failed_inv g)
qed

lemma ref_self_inv:
  assumes "ud_inv w" "slot_mset (ud_ref (uw_conn w)) = {#}"
  shows "ud_inv (hold_self w)"
  using assms by (auto simp: hold_self_def ud_luaL_ref_def upd_ud_def ud_inv_defs ud_evs_def ud_slots_def slot_mset_def)

lemma resolve_inv:
  assumes w: "ud_inv w" "\<not> uw_dns w" "\<not> uw_handed w" "ud_socket_fd (uw_conn w) < 0"
  shows "ud_inv (snd (udpd_dns_resolve_for_connection e w))"
proof -
  define v where "v rq = upd_ud (\<lambda>c. c\<lparr>ud_dns_request := Some rq\<rparr>) w" for rq
  have v: "ud_inv (v rq)" "\<not> uw_dns (v rq)" "ud_socket_fd (uw_conn (v rq)) < 0" "\<not> uw_handed (v rq)" for rq
    unfolding v_def using w by (simp_all add: ud_inv_conn ud_evs_def ud_slots_def) (simp add: upd_ud_def)
  have clean: "ud_inv u \<Longrightarrow> ud_inv (udpd_dns_request_cleanup u)" for u
    by (simp add: udpd_dns_request_cleanup_def ud_inv_conn ud_evs_def ud_slots_def)
  have wait: "ud_inv ((v rq)\<lparr>uw_dns := True\<rparr>)" for rq using v [of rq] by (simp add: ud_inv_defs)
  show ?thesis
    unfolding udpd_dns_resolve_for_connection_def Let_def v_def [symmetric]
    using w v clean wait dns_callback_inv [OF v(1-3), of e]
    by (auto simp: ud_state_inv split: option.split dns_start.split)
qed

lemma udpd_new_inv: "ud_inv (snd (udpd_new e a))"
proof -
  obtain m w0 where 0: "new_fields e a = (m, w0)" by fastforce
  with fields_inv [of e a] have w0: "ud_inv w0" "\<not> uw_dns w0" "ud_socket_fd (uw_conn w0) < 0" "slot_mset (ud_ref (uw_conn w0)) = {#}"
    by simp_all
  have h0: "\<not> uw_handed w0"
    using 0 by (auto simp: new_fields_def Let_def new_udpd_world_def udpd_base_conn_set_callbacks_def ud_luaL_ref_def upd_ud_def split: if_splits)
  define w where "w = hold_self w0"
  have w: "ud_inv w" "ud_socket_fd (uw_conn w) < 0" "\<not> uw_dns w" "\<not> uw_handed w"
    using ref_self_inv [OF w0(1) w0(4)] w0 h0 by (simp_all add: w_def) (simp_all add: hold_self_def ud_luaL_ref_def upd_ud_def)
  have addr: "ud_inv (upd_ud (\<lambda>c. c\<lparr>ud_addr := x, ud_addrlen := n\<rparr>) w)" for x n
    using w by (simp add: ud_inv_conn ud_evs_def ud_slots_def)
  have named: "ud_inv (snd (case udpd_dns_resolve_for_connection e w of
      (False, w) \<Rightarrow> new_failed ''Failed to start DNS resolution'' w | (True, w) \<Rightarrow> (None, store_self w)))"
    using resolve_inv [of w e] w by (auto simp: new_failed_inv split: prod.split bool.split)
  have numeric: "ud_inv (snd (case udpd_create_address_from_string (ue_nt e) host port of
        None \<Rightarrow> new_failed ''Failed to create address from IP'' w
      | Some (addr, n) \<Rightarrow>
          (case new_socket e b (upd_ud (\<lambda>c. c\<lparr>ud_addr := addr, ud_addrlen := n\<rparr>) w) of
             (Some msg, w) \<Rightarrow> new_failed msg w
           | (None, w) \<Rightarrow> (Some UdConn, w\<lparr>uw_handed := True\<rparr>))))" for host port b
    using new_done_inv [OF addr, where g = "\<lambda>w. w" and e = e and b = b] w
    by (cases "udpd_create_address_from_string (ue_nt e) host port") (simp_all add: new_failed_inv split_beta)
  have plain: "ud_inv (snd (case new_socket e True w of (Some msg, w) \<Rightarrow> new_failed msg w
      | (None, w) \<Rightarrow> (Some UdConn, (store_self w)\<lparr>uw_handed := True\<rparr>)))"
    by (rule new_done_inv) (use w in simp_all)
  show ?thesis
  proof (cases m)
    case None
    show ?thesis
    proof (cases "ud_host (uw_conn w)")
      case (Some host)
      then show ?thesis unfolding udpd_new_def 0 None by (simp only: prod.case option.case w_def [symmetric] Let_def) (simp add: named numeric plain)
    qed (unfold udpd_new_def 0 None, simp only: prod.case option.case w_def [symmetric] Let_def plain)
  qed (use w0 in \<open>simp add: udpd_new_def 0\<close>)
qed

section \<open>Every connection\<close>

inductive udpd_reaches :: "udpd_world \<Rightarrow> udpd_world \<Rightarrow> bool" for w0 where
  ud_start: "udpd_reaches w0 w0"
| ud_next: "udpd_reaches w0 w \<Longrightarrow> udpd_reaches w0 (udpd_step e x w)"

lemma ud_reaches_inv: "udpd_reaches w0 w \<Longrightarrow> ud_inv w0 \<Longrightarrow> ud_inv w"
  by (induction rule: udpd_reaches.induct) (simp_all add: udpd_step_inv)

lemma close_clean: "ud_inv w \<Longrightarrow> ud_clean (snd (udpd_conn_close w))" "ud_inv w \<Longrightarrow> ud_clean (lua_udpd_conn_gc w)"
  using cleanup_clean [of w] by (simp_all add: udpd_conn_close_def lua_udpd_conn_gc_def ud_clean_def)

section \<open>What the coroutine and the callbacks are told\<close>

text \<open>The operations on sockets, events and references leave alone what was reported and the weak table.\<close>

definition ud_quiet :: "udpd_world \<Rightarrow> udpd_world \<Rightarrow> bool" where
  "ud_quiet w w' \<longleftrightarrow>
     uw_weak w' = uw_weak w \<and> uw_resumed w' = uw_resumed w \<and> uw_log w' = uw_log w \<and> uw_lua w' = uw_lua w \<and> uw_dns w' = uw_dns w"

lemma ud_quiet_refl [simp]: "ud_quiet w w"
  by (simp add: ud_quiet_def)

lemma ud_quiet_trans: "ud_quiet w w1 \<Longrightarrow> ud_quiet w1 w2 \<Longrightarrow> ud_quiet w w2"
  by (simp add: ud_quiet_def)

lemma ud_quiet_upd [simp]: "ud_quiet w (upd_ud f w') = ud_quiet w w'" "ud_quiet w (lock_ev w') = ud_quiet w w'"
  "ud_quiet w (ud_clear_ref r w') = ud_quiet w w'" "ud_quiet w (close_socket w') = ud_quiet w w'"
  "ud_quiet w (event_add ev w') = ud_quiet w w'" "ud_quiet w (event_del ev w') = ud_quiet w w'"
  "ud_quiet w (event_free ev w') = ud_quiet w w'" "ud_quiet w (on_event ev id w') = ud_quiet w w'"
  "ud_quiet w (w'\<lparr>uw_sockopts := so\<rparr>) = ud_quiet w w'" "ud_quiet w (w'\<lparr>uw_open := fds\<rparr>) = ud_quiet w w'"
  "ud_quiet w (w'\<lparr>uw_sent := st\<rparr>) = ud_quiet w w'"
  by (simp_all add: ud_quiet_def upd_ud_def lock_ev_def ud_clear_ref_def close_socket_def event_add_def event_del_def event_free_def
      on_event_def split: option.split)

lemma ud_quiet_free [simp]: "ud_quiet w (free_read_ev d w') = ud_quiet w w'" "ud_quiet w (free_write_ev d w') = ud_quiet w w'"
  "ud_quiet w (drop_dns w') = ud_quiet w w'" "ud_quiet w (drop_socket w') = ud_quiet w w'" "ud_quiet w (clear_ud_refs w') = ud_quiet w w'"
  by (simp_all add: free_read_ev_def free_write_ev_def drop_dns_def drop_socket_def udpd_dns_request_cleanup_def clear_ud_refs_def Let_def
      split: option.split)

lemma ud_quiet_cleanup [simp]: "ud_quiet w (udpd_base_conn_cleanup w') = ud_quiet w w'"
  by (simp add: cleanup_eq)

lemma ud_quiet_socket: "ud_quiet w (snd (udpd_base_conn_create_socket e w))" "ud_quiet w (snd (udpd_base_conn_bind e w))"
  by (simp_all add: udpd_base_conn_create_socket_def udpd_base_conn_bind_def Let_def split: option.split)

lemma ud_quiet_setup: "ud_quiet w (snd (udpd_base_conn_setup_events e w))"
proof -
  have n: "ud_quiet w (v\<lparr>uw_events := evs, uw_next := n\<rparr>) = ud_quiet w v" for v evs n by (simp add: ud_quiet_def)
  have r: "ud_quiet w (snd (setup_read_ev e (lock_ev w)))" by (simp add: setup_read_ev_def event_new_def Let_def n)
  have wr: "ud_quiet w v \<Longrightarrow> ud_quiet w (snd (setup_write_ev e v))" for v by (simp add: setup_write_ev_def event_new_def Let_def n)
  show ?thesis
    using r wr [OF r] by (simp add: udpd_base_conn_setup_events_def setup_failed_def split_beta split: bool.split)
qed

lemma ud_quiet_rebind: "ud_quiet w (snd (lua_udpd_conn_rebind e w))"
proof -
  note q = ud_quiet_socket ud_quiet_setup
  have 1: "ud_quiet w v \<Longrightarrow> ud_quiet w (snd (udpd_base_conn_create_socket e v))" for v by (rule ud_quiet_trans [OF _ q(1)])
  have 2: "ud_quiet w v \<Longrightarrow> ud_quiet w (snd (udpd_base_conn_bind e v))" for v by (rule ud_quiet_trans [OF _ q(2)])
  have 3: "ud_quiet w v \<Longrightarrow> ud_quiet w (snd (udpd_base_conn_setup_events e v))" for v by (rule ud_quiet_trans [OF _ q(3)])
  define w0 where "w0 = upd_ud (\<lambda>c. c\<lparr>ud_state := UDPD_CONN_DISCONNECTED\<rparr>) (drop_dns (drop_socket (free_write_ev False (free_read_ev False w))))"
  have "ud_quiet w w0" by (simp add: w0_def)
  then show ?thesis
    unfolding lua_udpd_conn_rebind_def Let_def drop_socket_def [symmetric] drop_dns_def [symmetric] w0_def [symmetric]
    using 1 [of w0] by (simp add: 2 3 split_beta split: bool.split)
qed

lemma ud_quiet_call: "ud_quiet w (udpd_call_step e c w)"
proof (cases c)
  case UcSendReq
  then show ?thesis
    by (simp add: udpd_call_step_def udpd_conn_send_request_def udpd_base_conn_request_send_ready_def Let_def split: option.split)
qed (simp_all add: udpd_call_step_def udpd_conn_send_def udpd_conn_close_def udpd_conn_tostring_def udpd_conn_get_port_def
    ud_quiet_rebind Let_def split: option.split)

lemma run_lua_reports: "uw_log (run_lua e w) = uw_log w" "uw_resumed (run_lua e w) = uw_resumed w"
proof -
  have "ud_quiet v (fold (udpd_call_step e) cs v)" for cs v
    by (induction cs arbitrary: v) (auto intro: ud_quiet_trans ud_quiet_call)
  then have "uw_log (fold (udpd_call_step e) cs v) = uw_log v \<and> uw_resumed (fold (udpd_call_step e) cs v) = uw_resumed v" for cs v
    by (simp add: ud_quiet_def)
  then show "uw_log (run_lua e w) = uw_log w" "uw_resumed (run_lua e w) = uw_resumed w"
    by (simp_all add: run_lua_def split: list.split)
qed

lemma dns_connect_reports:
  assumes "\<not> uw_weak w"
  shows "\<exists>msg. uw_resumed (dns_connect e addr w) = uw_resumed w @ [UdNil msg]"
proof -
  define w0 where "w0 = upd_ud (\<lambda>c. c\<lparr>ud_addr := store_addr addr, ud_addrlen := length addr\<rparr>) w"
  obtain ok1 w1 where 1: "udpd_base_conn_create_socket e w0 = (ok1, w1)" by fastforce
  obtain ok2 w2 where 2: "(if ok1 \<and> ud_bind_host (uw_conn w1) \<noteq> None then udpd_base_conn_bind e w1 else (ok1, w1)) = (ok2, w2)"
    by (metis surj_pair)
  obtain ok3 w3 where 3: "(if ok2 then udpd_base_conn_setup_events e w2 else (ok2, w2)) = (ok3, w3)" by (metis surj_pair)
  have "ud_quiet w w0" by (simp add: w0_def)
  moreover have "ud_quiet w0 w1" using ud_quiet_socket(1) [of w0 e] 1 by simp
  moreover have "ud_quiet w1 w2" using ud_quiet_socket(2) [of w1 e] 2 by (auto split: if_splits)
  moreover have "ud_quiet w2 w3" using ud_quiet_setup [of w2 e] 3 by (auto split: if_splits)
  ultimately have "ud_quiet w w3" by (blast intro: ud_quiet_trans)
  then have "\<not> uw_weak w3" "uw_resumed w3 = uw_resumed w" using assms by (simp_all add: ud_quiet_def)
  then show ?thesis
    unfolding dns_connect_def w0_def [symmetric] using 1 2 3
    by (simp add: Let_def dns_resume_def run_lua_reports upd_ud_def)
qed

section \<open>Properties\<close>

text \<open>
  (C9) The resources of a UDP connection, in every state that a \<open>new\<close>, successful or not, and any sequence of method calls,
  packets, write events, answers of the name server and collections leads to: no event is used after it was freed and no
  descriptor is closed twice; the open descriptors, the allocated events and the used registry slots are exactly those that
  the object refers to, so nothing is leaked and nothing is dangling; events are allocated only while there is a socket; and
  after \<open>close\<close> as well as after the collection nothing is left.
\<close>

theorem udpd_resources_balanced:
  assumes "udpd_reaches (snd (udpd_new e a)) w"
  shows "\<not> uw_bad_access w \<and> uw_open w = (if 0 \<le> ud_socket_fd (uw_conn w) then [ud_socket_fd (uw_conn w)] else [])
    \<and> mset (uw_events w) = ud_evs (uw_conn w) \<and> set (uw_added w) \<subseteq> set (uw_events w)
    \<and> (uw_events w \<noteq> [] \<longrightarrow> uw_open w \<noteq> []) \<and> mset (uw_registry w) = ud_slots (uw_conn w)
    \<and> ud_clean (snd (udpd_conn_close w)) \<and> ud_clean (lua_udpd_conn_gc w)"
proof -
  have "ud_inv w" by (rule ud_reaches_inv [OF assms udpd_new_inv])
  with close_clean [of w] show ?thesis by (auto simp: ud_inv_defs)
qed

definition sample_ue :: udpd_env where
  "sample_ue =
     \<lparr>ue_al = roomy_alloc, ue_nt = \<lparr>nt_pton4 = (\<lambda>s. if s = ''10.0.0.1'' then Some [10, 0, 0, 1] else None), nt_pton6 = (\<lambda>_. None),
                                    nt_ntop4 = (\<lambda>_. ''10.0.0.1''), nt_ntop6 = (\<lambda>_. [])\<rparr>,
      ue_co = True, ue_socket = (\<lambda>_. 7), ue_getfl = 2, ue_setfl = (\<lambda>_. 0), ue_sockopt = (\<lambda>_. True), ue_aton = (\<lambda>_. None), ue_resolve = (\<lambda>_ _. None),
      ue_bind = True, ue_sockname = NameInet [] 4000, ue_event_new_read = True, ue_event_new_write = True, ue_event_add = True,
      ue_sendto = (\<lambda>d _. int (length d)), ue_strerror = [], ue_gai_strerror = (\<lambda>_. []), ue_dns = DnsLater, ue_dest_size = 160,
      ue_nametoindex = (\<lambda>_. 0), ue_junk = replicate 128 0\<rparr>"

definition sample_new :: "string option \<Rightarrow> new_args" where
  "sample_new host =
     \<lparr>na_table = \<lparr>ut_base = \<lparr>lt_send_buffer_size = None, lt_receive_buffer_size = None, lt_keepalive = False, lt_keepalive_idle = None,
                    lt_keepalive_interval = None, lt_keepalive_count = None, lt_read_timeout = None, lt_write_timeout = None,
                    lt_interface = None, lt_ssl = False, lt_ssl_verifyhost = None, lt_ssl_verifypeer = None,
                    lt_callback_self_first = False\<rparr>, ut_broadcast = None, ut_multicast = None, ut_multicast_group = None,
                  ut_multicast_ttl = None, ut_reuse_addr = None, ut_reuse_port = None\<rparr>,
      na_onread = True, na_onsendready = True, na_host = host, na_port = Some 53, na_bind_host = None, na_bind_port = None,
      na_interface = IfOther, na_worker = None, na_script = []\<rparr>"

theorem udpd_resources_balanced_witness:
  "let w0 = snd (udpd_new sample_ue (sample_new (Some ''10.0.0.1''))); w = udpd_step sample_ue (UdCall UcSendReq) w0
   in udpd_reaches w0 w \<and> uw_open w = [7] \<and> uw_events w = [4, 5] \<and> uw_added w = [4, 5] \<and> uw_registry w = [1, 2, 3]
      \<and> ud_clean (lua_udpd_conn_gc w)"
proof -
  let ?v = "snd (udpd_new sample_ue (sample_new (Some ''10.0.0.1'')))"
  let ?w = "udpd_step sample_ue (UdCall UcSendReq) ?v"
  have r: "udpd_reaches ?v ?w" by (intro ud_next ud_start)
  have "uw_open ?w = [7] \<and> uw_events ?w = [4, 5] \<and> uw_added ?w = [4, 5] \<and> uw_registry ?w = [1, 2, 3]" by code_simp
  with udpd_resources_balanced [OF r] r show ?thesis by (simp add: Let_def)
qed

text \<open>
  The cleanup is not guarded against a second run: the mutex that it destroys is locked again by the next cleanup, so
  the collection of a connection that was closed uses a destroyed mutex, and so does the collection of every object
  whose \<open>new\<close> has returned nil and a message.
\<close>

lemma udpd_second_cleanup_undefined:
  "uw_dead_mutex (lua_udpd_conn_gc (snd (udpd_conn_close w))) \<and> uw_dead_mutex (lua_udpd_conn_gc (snd (new_failed msg w)))"
proof -
  have e: "ud_event_mutex (uw_conn (clear_ud_refs w)) = ud_event_mutex (uw_conn w)" for w
    by (simp add: clear_ud_refs_def Let_def)
  have f: "uw_dead_mutex (free_read_ev d w) = uw_dead_mutex w" "uw_dead_mutex (free_write_ev d w) = uw_dead_mutex w"
      "uw_dead_mutex (drop_dns w) = uw_dead_mutex w" "uw_dead_mutex (drop_socket w) = uw_dead_mutex w" "uw_dead_mutex (upd_ud g w) = uw_dead_mutex w"
    for d w g
    by (simp_all add: free_read_ev_def free_write_ev_def event_free_def event_del_def on_event_def drop_dns_def drop_socket_def
        udpd_dns_request_cleanup_def close_socket_def upd_ud_def split: option.split)
  have "uw_dead_mutex (udpd_base_conn_cleanup w)" if "\<not> ud_event_mutex (uw_conn w)" for w
    using that by (simp add: cleanup_eq f) (simp add: lock_ev_def e upd_ud_def)
  moreover have "\<not> ud_event_mutex (uw_conn (udpd_base_conn_cleanup w))" by (simp add: cleanup_eq)
  ultimately show ?thesis by (simp add: lua_udpd_conn_gc_def udpd_conn_close_def new_failed_def)
qed

lemma fields_facts:
  fixes e :: udpd_env and a :: new_args
  defines "w \<equiv> snd (new_fields e a)"
  shows "\<not> uw_weak w \<and> uw_resumed w = [] \<and> \<not> uw_collected w"
    and "tc_callback_self_first (uc_base (ud_config (uw_conn w))) = lt_callback_self_first (ut_base (na_table a))"
proof -
  have *: "tc_callback_self_first (tcpd_config_from_lua_table t c) = lt_callback_self_first t" for t c
    by (simp add: tcpd_config_from_lua_table_def Let_def)
  show "\<not> uw_weak w \<and> uw_resumed w = [] \<and> \<not> uw_collected w"
    by (simp add: w_def new_fields_def Let_def new_udpd_world_def udpd_base_conn_set_callbacks_def ud_luaL_ref_def upd_ud_def)
  show "tc_callback_self_first (uc_base (ud_config (uw_conn w))) = lt_callback_self_first (ut_base (na_table a))"
    by (simp add: w_def new_fields_def Let_def new_udpd_world_def udpd_base_conn_set_callbacks_def ud_luaL_ref_def upd_ud_def
        udpd_config_from_lua_table_def udp_defaults_def *)
qed

lemma resolve_yields:
  assumes "fst (udpd_dns_resolve_for_connection e v)"
  shows "\<exists>rq. udpd_dns_resolve_for_connection e v =
      (True, upd_ud (\<lambda>c. c\<lparr>ud_state := UDPD_CONN_RESOLVING\<rparr>) ((upd_ud (\<lambda>c. c\<lparr>ud_dns_request := Some rq\<rparr>) v)\<lparr>uw_dns := True\<rparr>))"
proof (cases "ud_host (uw_conn v)")
  case (Some host)
  show ?thesis
  proof (cases "udpd_dns_request_create (ue_al e) 40 host (ud_port (uw_conn v))")
    case (Some rq)
    have "ue_dns e = DnsLater"
      using assms Some \<open>ud_host (uw_conn v) = Some host\<close> by (cases "ue_dns e") (simp_all add: udpd_dns_resolve_for_connection_def Let_def)
    then show ?thesis
      using Some \<open>ud_host (uw_conn v) = Some host\<close>
      by (intro exI [of _ rq]) (simp only: udpd_dns_resolve_for_connection_def Let_def option.case dns_start.case)
  qed (use assms Some in \<open>simp add: udpd_dns_resolve_for_connection_def\<close>)
qed (use assms in \<open>simp add: udpd_dns_resolve_for_connection_def\<close>)

text \<open>The state in which \<open>new\<close> yields.\<close>

lemma new_yields:
  assumes y: "fst (udpd_new e a) = None" and n: "\<not> lt_callback_self_first (ut_base (na_table a))"
  defines "w \<equiv> snd (udpd_new e a)"
  shows "\<not> uw_weak w \<and> uw_resumed w = [] \<and> \<not> uw_collected w \<and> uw_dns w \<and> ud_state (uw_conn w) = UDPD_CONN_RESOLVING
    \<and> (\<exists>r. ud_ref (uw_conn w) = Some r \<and> r \<in> set (uw_registry w))"
proof -
  obtain m w0 where 0: "new_fields e a = (m, w0)" by fastforce
  have m: "m = None" using y 0 by (auto simp: udpd_new_def split: option.splits)
  note f = fields_facts [of e a, unfolded 0 snd_conv]
  define v where "v = hold_self w0"
  have v: "\<not> uw_weak v \<and> uw_resumed v = [] \<and> \<not> uw_collected v \<and> (\<exists>r. ud_ref (uw_conn v) = Some r \<and> r \<in> set (uw_registry v))
      \<and> \<not> tc_callback_self_first (uc_base (ud_config (uw_conn v)))"
    using f n by (simp add: v_def hold_self_def ud_luaL_ref_def upd_ud_def)
  have s: "fst (case new_socket e b u of (Some msg, w) \<Rightarrow> new_failed msg w | (None, w) \<Rightarrow> (Some UdConn, g w)) \<noteq> None" for b u g
    by (simp add: new_failed_def split: prod.split option.split)
  have s': "fst (case x of None \<Rightarrow> new_failed msg v | Some (addr, n) \<Rightarrow>
      (case new_socket e b (u addr n) of (Some msg, w) \<Rightarrow> new_failed msg w | (None, w) \<Rightarrow> (Some UdConn, g w))) \<noteq> None" for x msg b u g
    by (simp add: new_failed_def split: prod.split option.split)
  have new: "udpd_new e a = (case udpd_dns_resolve_for_connection e v of
      (False, w) \<Rightarrow> new_failed ''Failed to start DNS resolution'' w | (True, w) \<Rightarrow> (None, store_self w))"
    using y unfolding udpd_new_def 0 m option.case prod.case v_def [symmetric] Let_def
    by (cases "ud_host (uw_conn v)"; cases "0 < ud_port (uw_conn v)";
        cases "udpd_is_ip_address (ue_nt e) (the (ud_host (uw_conn v)))"; simp only: s s' option.case if_True if_False option.sel simp_thms)
  then have "fst (udpd_dns_resolve_for_connection e v)"
    using y by (cases "udpd_dns_resolve_for_connection e v"; cases "fst (udpd_dns_resolve_for_connection e v)") (simp_all add: new_failed_def)
  from resolve_yields [OF this] obtain rq where "udpd_dns_resolve_for_connection e v =
      (True, upd_ud (\<lambda>c. c\<lparr>ud_state := UDPD_CONN_RESOLVING\<rparr>) ((upd_ud (\<lambda>c. c\<lparr>ud_dns_request := Some rq\<rparr>) v)\<lparr>uw_dns := True\<rparr>))"
    by blast
  with new v show ?thesis by (simp add: w_def store_self_def upd_ud_def)
qed

text \<open>
  A connection to a host name: the coroutine that waits for the name is never given the connection unless the option
  \<open>callback_self_first\<close> is set. Whatever the name server answers and whatever the socket calls return, it is resumed once, with
  nil and a message.
\<close>

lemma udpd_named_target_lost:
  assumes "fst (udpd_new e a) = None" and "\<not> lt_callback_self_first (ut_base (na_table a))"
  shows "\<exists>msg. uw_resumed (udpd_step e' (UdDns r) (snd (udpd_new e a))) = [UdNil msg]"
proof -
  define w where "w = (snd (udpd_new e a))\<lparr>uw_dns := False\<rparr>"
  have w: "\<not> uw_weak w" "uw_resumed w = []" "ud_state (uw_conn w) = UDPD_CONN_RESOLVING"
      "\<exists>r. ud_ref (uw_conn w) = Some r \<and> r \<in> set (uw_registry w)"
    and step: "udpd_step e' (UdDns r) (snd (udpd_new e a)) = udpd_conn_dns_callback e' r w"
    using new_yields [OF assms] by (auto simp: w_def udpd_step_def)
  have clear: "uw_resumed (ud_clear_ref q v) = uw_resumed v" "uw_resumed (drop_dns v) = uw_resumed v" "uw_resumed (upd_ud f v) = uw_resumed v"
    for q v f by (simp_all add: ud_clear_ref_def drop_dns_def udpd_dns_request_cleanup_def upd_ud_def split: option.split)
  show ?thesis
    unfolding step udpd_conn_dns_callback_def Let_def drop_dns_def [symmetric]
    using w dns_connect_reports [OF w(1), of e']
    by (cases r) (auto simp: clear dns_resume_def run_lua_reports)
qed

lemma udpd_named_target_lost_witness:
  "let a = sample_new (Some ''host''); w = snd (udpd_new sample_ue a)
   in fst (udpd_new sample_ue a) = None \<and> \<not> lt_callback_self_first (ut_base (na_table a))
      \<and> (\<exists>msg. uw_resumed (udpd_step sample_ue (UdDns (DnsAddr (take 16 (make_sin 53 [10, 0, 0, 1])))) w) = [UdNil msg])"
proof -
  have y: "fst (udpd_new sample_ue (sample_new (Some ''host''))) = None" by code_simp
  have n: "\<not> lt_callback_self_first (ut_base (na_table (sample_new (Some ''host''))))" by code_simp
  show ?thesis using udpd_named_target_lost [OF y n] y n by (simp add: Let_def)
qed

text \<open>
  (C25) A datagram and its answer: a packet that fits the receive buffer is reported to the callback exactly once with its
  bytes unchanged, and a reply that is sent to the destination object which the callback was given goes to the very address
  that the packet came from, from whichever connection it is sent.
\<close>

theorem udpd_packet_delivered:
  assumes "ud_can_call e (ud_onRead (uw_conn w)) w" and "0 < length data" "length data \<le> UDPD_RECV_BUFFER_SIZE"
  shows "\<exists>d. uw_log (udpd_common_readcb e (Packet data sender) w)
        = uw_log w @ [(tc_callback_self_first (uc_base (ud_config (uw_conn w))), UdOnRead data d)]
    \<and> (udpd_validate_packet_size (length reply) \<and> 0 \<le> ud_socket_fd (uw_conn v) \<and> 0 \<le> ue_sendto e' reply sender
       \<longrightarrow> udpd_conn_send e' reply (Some d) v = (UdInt (ue_sendto e' reply sender), v\<lparr>uw_sent := uw_sent v @ [(reply, sender)]\<rparr>))"
proof -
  define d where "d = \<lparr>ds_addr = sender @ drop (length sender) (ue_junk e), ds_addrlen = length sender, ds_host = None, ds_port = 0\<rparr>"
  have c: "ud_onRead (uw_conn w) \<noteq> None" using assms(1) by (auto simp: ud_can_call_def split: option.splits)
  have "uw_log (udpd_common_readcb e (Packet data sender) w)
      = uw_log w @ [(tc_callback_self_first (uc_base (ud_config (uw_conn w))), UdOnRead data (d\<lparr>ds_port := udpd_dest_get_port d\<rparr>))]"
    using assms c
    by (auto simp: udpd_common_readcb_def udpd_process_received_data_def ud_callback_def run_lua_reports d_def Let_def)
  moreover have "udpd_conn_send e' reply (Some (d\<lparr>ds_port := p\<rparr>)) v =
      (UdInt (ue_sendto e' reply sender), v\<lparr>uw_sent := uw_sent v @ [(reply, sender)]\<rparr>)"
    if "udpd_validate_packet_size (length reply)" "0 \<le> ud_socket_fd (uw_conn v)" "0 \<le> ue_sendto e' reply sender" for p
    using that by (simp add: udpd_conn_send_def Let_def d_def)
  ultimately show ?thesis by blast
qed

theorem udpd_packet_delivered_witness:
  "let w = snd (udpd_new sample_ue (sample_new None)); sender = take 16 (make_sin 53 [10, 0, 0, 1])
   in ud_can_call sample_ue (ud_onRead (uw_conn w)) w
      \<and> (\<exists>d. uw_log (udpd_common_readcb sample_ue (Packet [1, 2] sender) w) = uw_log w @ [(False, UdOnRead [1, 2] d)]
          \<and> udpd_conn_send sample_ue [3] (Some d) w = (UdInt 1, w\<lparr>uw_sent := uw_sent w @ [([3], sender)]\<rparr>))"
proof -
  let ?w = "snd (udpd_new sample_ue (sample_new None))"
  let ?sender = "take 16 (make_sin 53 [10, 0, 0, 1])"
  have c: "ud_can_call sample_ue (ud_onRead (uw_conn ?w)) ?w" by code_simp
  have n: "0 < length ([1, 2] :: bytes)" "length ([1, 2] :: bytes) \<le> UDPD_RECV_BUFFER_SIZE"
    by (simp_all add: UDPD_RECV_BUFFER_SIZE_def)
  have v: "udpd_validate_packet_size (length ([3] :: bytes))" by (simp add: udpd_validate_packet_size_def UDPD_MAX_PACKET_SIZE_def)
  have s: "0 \<le> ud_socket_fd (uw_conn ?w)" "0 \<le> ue_sendto sample_ue [3] ?sender"
      "ue_sendto sample_ue [3] ?sender = 1" "\<not> tc_callback_self_first (uc_base (ud_config (uw_conn ?w)))"
    by code_simp+
  show ?thesis
    using udpd_packet_delivered [OF c n, where reply = "[3]" and v = "?w" and e' = sample_ue and sender = "?sender"] c v s by (simp add: Let_def)
qed

text \<open>An empty datagram is valid in UDP and is never reported.\<close>

lemma empty_packet_dropped: "udpd_common_readcb e (Packet [] from) w = w"
  by (simp add: udpd_common_readcb_def udpd_process_received_data_def)

end
