(* ===== verification/Udpd_Make.thy ===== *)
theory Udpd_Make
  imports Udpd
begin

text \<open>
  Destination objects: \<open>udpd_conn_make_dest\<close> and \<open>udpd_conn_make_dests\<close> of \<open>src/udpd.c\<close> with the requests and callbacks
  of \<open>src/udpd_dns.c\<close> behind them. The state is that of one call: whether its request is allocated and registered, what the
  coroutine was resumed with, and whether something undefined happened.
\<close>

section \<open>State\<close>

text \<open>
  What a call gives back: destinations, nil and a message, a raised error, a yield, a message that \<open>lua_resume\<close> has left on the
  stack, or the number -1 that is no count of results.
\<close>

datatype make_result =
    MkDest udpd_dest | MkDests "udpd_dest list" | MkNil string | MkRaise string | MkYield | MkMessage string | MkMinusOne

datatype make_answer = MaError int | MaAddrs "bytes list"

datatype make_start = MaNow make_answer | MaLater | MaFails

text \<open>
  \<open>me_junk\<close> is what the memory of a new object holds; \<open>me_lua54\<close> says whether the library is Lua 5.4 or later, where \<open>lua_resume\<close>
  does not set the number of results when it refuses to resume.
\<close>

record make_env =
  me_al :: allocator
  me_nt :: net_text
  me_size :: nat
  me_yieldable :: bool
  me_start :: make_start
  me_junk :: bytes
  me_gai_strerror :: "int \<Rightarrow> string"
  me_lua54 :: bool

record make_world =
  mw_request :: "udpd_dns_request option"
  mw_ref :: bool
  mw_suspended :: bool
  mw_resumed :: "make_result list"
  mw_left :: "string option"
  mw_undefined :: bool

definition new_make_world :: make_world where
  "new_make_world =
     \<lparr>mw_request = None, mw_ref = False, mw_suspended = False, mw_resumed = [], mw_left = None, mw_undefined = False\<rparr>"

section \<open>Answers\<close>

definition make_resolved :: "make_env \<Rightarrow> udpd_dns_request \<Rightarrow> bytes \<Rightarrow> udpd_dest" where
  "make_resolved e rq addr =
     \<lparr>ds_addr = addr @ drop (length addr) (me_junk e), ds_addrlen = length addr, ds_host = strdup (me_al e) (dq_hostname rq),
      ds_port = dq_port rq\<rparr>"

text \<open>\<open>FAN_RESUME\<close>. A coroutine that is running is not resumed: the message of \<open>lua_resume\<close> is left on its stack.\<close>

definition make_resume :: "make_env \<Rightarrow> make_result \<Rightarrow> make_world \<Rightarrow> make_world" where
  "make_resume e r w =
     (if mw_suspended w then w\<lparr>mw_resumed := mw_resumed w @ [r], mw_suspended := False\<rparr>
      else if me_lua54 e then w\<lparr>mw_undefined := True\<rparr>
      else w\<lparr>mw_left := Some ''cannot resume non-suspended coroutine''\<rparr>)"

text \<open>The reference is cleared only if it is held; the request is freed in any case.\<close>

definition make_request_cleanup :: "make_world \<Rightarrow> make_world" where
  "make_request_cleanup w =
     (if mw_request w = None then w\<lparr>mw_undefined := True\<rparr> else w\<lparr>mw_request := None, mw_ref := False\<rparr>)"

definition dns_message :: "make_env \<Rightarrow> udpd_dns_request \<Rightarrow> int \<Rightarrow> string" where
  "dns_message e rq code =
     ''DNS resolution failed for '' @ [CHR 0x27] @ dq_hostname rq @ [CHR 0x27] @ '': '' @ me_gai_strerror e code"

definition udpd_dest_dns_callback :: "make_env \<Rightarrow> make_answer \<Rightarrow> make_world \<Rightarrow> make_world" where
  "udpd_dest_dns_callback e r w =
     (case mw_request w of
        None \<Rightarrow> w\<lparr>mw_undefined := True\<rparr>
      | Some rq \<Rightarrow>
          if \<not> mw_ref w then make_request_cleanup w
          else
            let w = (case r of
                       MaError code \<Rightarrow> if dq_yielded rq then make_resume e (MkNil (dns_message e rq code)) w else w
                     | MaAddrs [] \<Rightarrow> w\<lparr>mw_undefined := True\<rparr>
                     | MaAddrs (addr # _) \<Rightarrow> if dq_yielded rq then make_resume e (MkDest (make_resolved e rq addr)) w else w)
            in make_request_cleanup (w\<lparr>mw_ref := False\<rparr>))"

definition udpd_dests_dns_callback :: "make_env \<Rightarrow> make_answer \<Rightarrow> make_world \<Rightarrow> make_world" where
  "udpd_dests_dns_callback e r w =
     (case mw_request w of
        None \<Rightarrow> w\<lparr>mw_undefined := True\<rparr>
      | Some rq \<Rightarrow>
          if \<not> mw_ref w then make_request_cleanup w
          else
            let w = (case r of
                       MaError code \<Rightarrow> if dq_yielded rq then make_resume e (MkNil (dns_message e rq code)) w else w
                     | MaAddrs addrs \<Rightarrow> if dq_yielded rq then make_resume e (MkDests (map (make_resolved e rq) addrs)) w else w)
            in make_request_cleanup (w\<lparr>mw_ref := False\<rparr>))"

section \<open>Requests\<close>

text \<open>The two functions differ in the callback and the text of the error.\<close>

definition start_resolve ::
  "(make_env \<Rightarrow> make_answer \<Rightarrow> make_world \<Rightarrow> make_world) \<Rightarrow> string \<Rightarrow> make_env \<Rightarrow> string \<Rightarrow> int \<Rightarrow> make_world \<Rightarrow> make_result \<times> make_world" where
  "start_resolve callback name e host port w =
     (if \<not> me_yieldable e then (MkRaise (name @ '' with hostname requires a coroutine context''), w)
      else
        case udpd_dns_request_create (me_al e) 40 host port of
          None \<Rightarrow> (MkMinusOne, w)
        | Some rq \<Rightarrow>
            let w = w\<lparr>mw_request := Some (rq\<lparr>dq_yielded := True\<rparr>), mw_ref := True\<rparr>
            in case me_start e of
                 MaLater \<Rightarrow> (MkYield, w\<lparr>mw_suspended := True\<rparr>)
               | MaFails \<Rightarrow> (MkMinusOne, make_request_cleanup w)
               | MaNow r \<Rightarrow>
                   let w = callback e r w
                   in case mw_left w of Some m \<Rightarrow> (MkMessage m, w) | None \<Rightarrow> (MkMinusOne, make_request_cleanup w))"

definition udpd_dns_resolve_for_destination_with_evdns :: "make_env \<Rightarrow> string \<Rightarrow> int \<Rightarrow> make_world \<Rightarrow> make_result \<times> make_world" where
  "udpd_dns_resolve_for_destination_with_evdns = start_resolve udpd_dest_dns_callback ''udpd.make_dest''"

definition udpd_dns_resolve_for_destinations_with_evdns :: "make_env \<Rightarrow> string \<Rightarrow> int \<Rightarrow> make_world \<Rightarrow> make_result \<times> make_world" where
  "udpd_dns_resolve_for_destinations_with_evdns = start_resolve udpd_dests_dns_callback ''udpd.make_dests''"

text \<open>The destination that is given to Lua code is a copy, the temporary one is freed.\<close>

definition make_copy :: "make_env \<Rightarrow> udpd_dest \<Rightarrow> udpd_dest" where
  "make_copy e d = d\<lparr>ds_host := Option.bind (ds_host d) (strdup (me_al e))\<rparr>"

definition udpd_conn_make_dest :: "make_env \<Rightarrow> string \<Rightarrow> int \<Rightarrow> make_result \<times> make_world" where
  "udpd_conn_make_dest e host port =
     (let port = c_int port
      in if udpd_is_ip_address (me_nt e) host
         then case udpd_dest_create_from_string (me_al e) (me_nt e) (me_size e) host port of
                Some d \<Rightarrow> (MkDest (make_copy e d), new_make_world)
              | None \<Rightarrow> (MkNil ''Invalid IP address'', new_make_world)
         else udpd_dns_resolve_for_destination_with_evdns e host port new_make_world)"

definition udpd_conn_make_dests :: "make_env \<Rightarrow> string \<Rightarrow> int \<Rightarrow> make_result \<times> make_world" where
  "udpd_conn_make_dests e host port =
     (let port = c_int port
      in if udpd_is_ip_address (me_nt e) host
         then case udpd_dest_create_from_string (me_al e) (me_nt e) (me_size e) host port of
                Some d \<Rightarrow> (MkDests [make_copy e d], new_make_world)
              | None \<Rightarrow> (MkNil ''Invalid IP address'', new_make_world)
         else udpd_dns_resolve_for_destinations_with_evdns e host port new_make_world)"

section \<open>What holds\<close>

text \<open>
  When the name server answers later, the coroutine is resumed exactly once, with one destination per address, in the order
  of the answer, each with the name and the port that were asked for; the request and its registry slot are given back and
  nothing is undefined.
\<close>

lemma make_dests_answered:
  assumes "udpd_conn_make_dests e host port = (MkYield, w)"
  shows "\<exists>rq. dq_hostname rq = host \<and> dq_port rq = c_int port
    \<and> mw_resumed (udpd_dests_dns_callback e (MaAddrs addrs) w) = [MkDests (map (make_resolved e rq) addrs)]
    \<and> mw_resumed (udpd_dests_dns_callback e (MaError code) w) = [MkNil (dns_message e rq code)]
    \<and> mw_request (udpd_dests_dns_callback e r w) = None \<and> \<not> mw_ref (udpd_dests_dns_callback e r w)
    \<and> \<not> mw_undefined (udpd_dests_dns_callback e r w)"
proof -
  have "\<not> udpd_is_ip_address (me_nt e) host \<and> udpd_dns_resolve_for_destinations_with_evdns e host (c_int port) new_make_world = (MkYield, w)"
    using assms by (auto simp: udpd_conn_make_dests_def Let_def split: if_splits option.splits)
  then obtain rq where rq: "udpd_dns_request_create (me_al e) 40 host (c_int port) = Some rq"
    and w: "w = new_make_world\<lparr>mw_request := Some (rq\<lparr>dq_yielded := True\<rparr>), mw_ref := True, mw_suspended := True\<rparr>"
    by (auto simp: udpd_dns_resolve_for_destinations_with_evdns_def start_resolve_def Let_def
        split: if_splits option.splits make_start.splits)
  have "dq_hostname rq = host" "dq_port rq = c_int port"
    using rq by (auto simp: udpd_dns_request_create_def strdup_def split: if_splits)
  moreover have "make_resolved e (rq\<lparr>dq_yielded := True\<rparr>) = make_resolved e rq" "dns_message e (rq\<lparr>dq_yielded := True\<rparr>) = dns_message e rq"
    by (simp_all add: make_resolved_def dns_message_def fun_eq_iff)
  ultimately show ?thesis
    by (intro exI [of _ rq]) (simp add: w udpd_dests_dns_callback_def Let_def new_make_world_def make_resume_def make_request_cleanup_def
        split: make_answer.split)
qed

text \<open>
  When the name server answers at once the coroutine is not suspended yet: the destinations are lost, with Lua 5.4 after an
  undefined number of values was popped from its stack.
\<close>

lemma make_dests_sync_lost:
  assumes "\<not> udpd_is_ip_address (me_nt e) host" and "me_yieldable e" and "me_start e = MaNow r"
    and "udpd_dns_request_create (me_al e) 40 host (c_int port) \<noteq> None"
  shows "if me_lua54 e then mw_undefined (snd (udpd_conn_make_dests e host port))
    else fst (udpd_conn_make_dests e host port) = MkMessage ''cannot resume non-suspended coroutine''"
proof -
  obtain rq where "udpd_dns_request_create (me_al e) 40 host (c_int port) = Some rq" using assms(4) by blast
  with assms(1-3) show ?thesis
    by (cases r) (simp_all add: udpd_conn_make_dests_def udpd_dns_resolve_for_destinations_with_evdns_def start_resolve_def Let_def
        udpd_dests_dns_callback_def new_make_world_def make_resume_def make_request_cleanup_def)
qed

end
