(* ===== verification/Http_Header.thy ===== *)
theory Http_Header
  imports Prelude "HOL-Library.AList"
begin

text \<open>
  Response headers of \<open>src/http.c\<close>: libcurl passes every header line, with its line end, to \<open>fillheader\<close>, which stores name and
  value in a Lua table. A name that occurs again makes the value a list. The bytes of the line are not followed by a NUL,
  so that the string searches for the charset run on into the memory behind it, which is an argument here.
\<close>

section \<open>Lines\<close>

datatype header_atom = HaText bytes | HaCode int

datatype header_val = HvAtom header_atom | HvList "header_atom list"

type_synonym header_table = "(bytes \<times> header_val) list"

definition header_space :: "u8 \<Rightarrow> bool" where
  "header_space b \<longleftrightarrow> b = 32 \<or> (9 \<le> b \<and> b \<le> 13)"

text \<open>Skips at most so many blanks and returns how many more may be skipped.\<close>

fun skip_spaces :: "nat \<Rightarrow> bytes \<Rightarrow> nat \<times> bytes" where
  "skip_spaces n [] = (n, [])"
| "skip_spaces 0 bs = (0, bs)"
| "skip_spaces (Suc n) (b # bs) = (if header_space b then skip_spaces n bs else (Suc n, b # bs))"

text \<open>The value that follows the colon at position \<open>i\<close>, and the bytes from its first byte to the end of the line.\<close>

definition header_front :: "bytes \<Rightarrow> nat \<Rightarrow> nat \<times> bytes" where
  "header_front line i = skip_spaces (length line - i - 2) (drop (i + 1) line)"

definition header_value :: "bytes \<Rightarrow> nat \<Rightarrow> bytes" where
  "header_value line i = (let (n, v) = header_front line i in rev (snd (skip_spaces n (rev v))))"

definition add_header :: "bytes \<Rightarrow> bytes \<Rightarrow> header_table \<Rightarrow> header_table" where
  "add_header key v t =
     (case map_of t key of
        None \<Rightarrow> AList.update key (HvAtom (HaText v)) t
      | Some (HvAtom a) \<Rightarrow> AList.update key (HvList [a, HaText v]) t
      | Some (HvList as) \<Rightarrow> AList.update key (HvList (as @ [HaText v])) t)"

fun find_sub :: "bytes \<Rightarrow> bytes \<Rightarrow> nat option" where
  "find_sub pat [] = (if pat = [] then Some 0 else None)"
| "find_sub pat (b # bs) = (if take (length pat) (b # bs) = pat then Some 0 else map_option Suc (find_sub pat bs))"

definition CONTENT_TYPE :: bytes where
  "CONTENT_TYPE = [0x43, 0x6f, 0x6e, 0x74, 0x65, 0x6e, 0x74, 0x2d, 0x54, 0x79, 0x70, 0x65]"

definition CHARSET_IS :: bytes where
  "CHARSET_IS = [0x63, 0x68, 0x61, 0x72, 0x73, 0x65, 0x74, 0x3d]"

text \<open>
  The charset of a \<open>Content-Type\<close> line. The length of what is pushed is a difference of pointers converted to \<open>size_t\<close>: when
  the text was found behind the value it is negative by more than one and the copy runs out of the memory.
\<close>

datatype charset_result = NoCharset | Charset bytes | CharsetBeyond

definition header_charset :: "bytes \<Rightarrow> bytes \<Rightarrow> nat \<Rightarrow> charset_result" where
  "header_charset after line i =
     (if take (length CONTENT_TYPE) (c_string (line @ after)) \<noteq> CONTENT_TYPE then NoCharset
      else case find_sub CHARSET_IS (c_string (snd (header_front line i) @ after)) of
             None \<Rightarrow> NoCharset
           | Some k \<Rightarrow>
               if k + length CHARSET_IS \<le> length (header_value line i) then Charset (drop (k + length CHARSET_IS) (header_value line i))
               else CharsetBeyond)"

record header_state =
  hs_headers :: header_table
  hs_charset :: "bytes option"
  hs_bad :: bool

definition take_header :: "bytes \<Rightarrow> bytes \<Rightarrow> nat \<Rightarrow> header_state \<Rightarrow> header_state" where
  "take_header after line i s =
     (let s = s\<lparr>hs_headers := add_header (take i line) (header_value line i) (hs_headers s)\<rparr>
      in case header_charset after line i of
           NoCharset \<Rightarrow> s
         | Charset c \<Rightarrow> s\<lparr>hs_charset := Some c\<rparr>
         | CharsetBeyond \<Rightarrow> s\<lparr>hs_bad := True\<rparr>)"

text \<open>The loop over the line; the list is what is left of it from position \<open>i\<close>.\<close>

fun fill_loop :: "bytes \<Rightarrow> bytes \<Rightarrow> nat \<Rightarrow> bool \<Rightarrow> bytes \<Rightarrow> header_state \<Rightarrow> header_state" where
  "fill_loop after line i meetspace [] s = s"
| "fill_loop after line i meetspace (b # bs) s =
     (if \<not> meetspace \<and> b = 32 then fill_loop after line (i + 1) True bs s
      else if \<not> meetspace \<and> b = 58 \<and> i + 3 < length line
      then fill_loop after line (i + 1) meetspace bs (take_header after line i s)
      else fill_loop after line (i + 1) meetspace bs s)"

definition fill_line :: "bytes \<Rightarrow> bytes \<Rightarrow> header_state \<Rightarrow> header_state" where
  "fill_line after line s = fill_loop after line 0 False line s"

section \<open>Well-formed lines\<close>

lemma fill_loop_met: "fill_loop after line i True bs s = s"
  by (induction bs arbitrary: i) simp_all

lemma fill_loop_name:
  assumes "32 \<notin> set name" "58 \<notin> set name"
  shows "fill_loop after line i False (name @ rest) s = fill_loop after line (i + length name) False rest s"
  using assms by (induction name arbitrary: i) auto

text \<open>The line of a name and a value, and what the program makes of it.\<close>

definition header_line :: "bytes \<Rightarrow> bytes \<Rightarrow> bytes" where
  "header_line name v = name @ [58, 32] @ v @ [13, 10]"

definition trimmed :: "bytes \<Rightarrow> bool" where
  "trimmed v \<longleftrightarrow> v \<noteq> [] \<and> \<not> header_space (hd v) \<and> \<not> header_space (last v)"

lemma header_line_value:
  assumes "trimmed v"
  shows "header_front (header_line name v) (length name) = (length v + 1, v @ [13, 10])"
    and "header_value (header_line name v) (length name) = v"
proof -
  obtain a as where v: "v = a # as" "\<not> header_space a" using assms by (cases v) (auto simp: trimmed_def)
  obtain bs b where r: "rev v = b # bs" "\<not> header_space b"
    using assms by (cases "rev v") (auto simp: trimmed_def simp flip: hd_rev)
  show f: "header_front (header_line name v) (length name) = (length v + 1, v @ [13, 10])"
    using v by (auto simp: header_front_def header_line_def header_space_def numeral_3_eq_3)
  have "length v = Suc (length bs)" using r(1) by (metis length_Cons length_rev)
  moreover have "skip_spaces (Suc (length bs)) (13 # b # bs) = (length bs, b # bs)"
    using r(2) by (cases bs) (auto simp: header_space_def)
  ultimately have "skip_spaces (length v + 1) (10 # 13 # rev v) = (length bs, rev v)" using r by (simp add: header_space_def)
  then show "header_value (header_line name v) (length name) = v" by (simp add: header_value_def f)
qed

lemma fill_header_line:
  assumes "trimmed v" "32 \<notin> set name" "58 \<notin> set name"
  shows "fill_line after (header_line name v) s = take_header after (header_line name v) (length name) s"
proof -
  have "fill_line after (header_line name v) s =
      fill_loop after (header_line name v) (length name) False ([58, 32] @ v @ [13, 10]) s"
    using fill_loop_name [OF assms(2,3), of after "header_line name v" 0 "[58, 32] @ v @ [13, 10]" s]
    by (simp add: fill_line_def header_line_def)
  moreover have "0 < length v" using assms(1) by (simp add: trimmed_def)
  ultimately show ?thesis by (simp add: fill_loop_met) (simp add: header_line_def)
qed

section \<open>What the table holds\<close>

text \<open>The entry of a name that occurred with these values, in this order.\<close>

fun header_entry :: "bytes list \<Rightarrow> header_val option" where
  "header_entry [] = None"
| "header_entry [v] = Some (HvAtom (HaText v))"
| "header_entry vs = Some (HvList (map HaText vs))"

lemma add_header_entry:
  assumes "map_of t key = header_entry vs"
  shows "map_of (add_header key v t) key = header_entry (vs @ [v])"
  using assms by (cases vs rule: header_entry.cases) (simp_all add: add_header_def update_conv')

lemma add_header_other: "key' \<noteq> key \<Longrightarrow> map_of (add_header key v t) key' = map_of t key'"
  by (simp add: add_header_def update_conv' split: option.split header_val.split)

definition values_of :: "bytes \<Rightarrow> (bytes \<times> bytes) list \<Rightarrow> bytes list" where
  "values_of name kvs = map snd (filter (\<lambda>kv. fst kv = name) kvs)"

definition no_headers :: header_state where
  "no_headers = \<lparr>hs_headers = [], hs_charset = None, hs_bad = False\<rparr>"

lemma fill_lines_entries:
  assumes "\<forall>kv \<in> set kvs. trimmed (snd kv) \<and> 32 \<notin> set (fst kv) \<and> 58 \<notin> set (fst kv)"
  shows "map_of (hs_headers (fold (\<lambda>kv. fill_line after (header_line (fst kv) (snd kv))) kvs no_headers)) name
    = header_entry (values_of name kvs)"
  using assms
proof (induction kvs rule: rev_induct)
  case Nil
  then show ?case by (simp add: no_headers_def values_of_def)
next
  case (snoc kv kvs)
  obtain k v where kv: "kv = (k, v)" by (cases kv)
  let ?s = "fold (\<lambda>kv. fill_line after (header_line (fst kv) (snd kv))) kvs no_headers"
  have wf: "trimmed v" "32 \<notin> set k" "58 \<notin> set k" using snoc.prems by (simp_all add: kv)
  have t: "hs_headers (fill_line after (header_line k v) ?s) = add_header k v (hs_headers ?s)"
    unfolding fill_header_line [OF wf]
    by (simp add: take_header_def Let_def header_line_value(2) [OF wf(1)] split: charset_result.split)
      (simp add: header_line_def)
  have "map_of (hs_headers ?s) name = header_entry (values_of name kvs)" using snoc by simp
  then show ?case
    using t by (cases "k = name") (simp_all add: kv add_header_entry add_header_other values_of_def)
qed

text \<open>
  Response headers: after any sequence of header lines, each a name without blank and colon, a colon, a blank, a
  value without outer blanks and the line end, the table has for every name exactly the values that were sent for it, in
  their order: nothing for a name that did not occur, the value itself for a name that occurred once, a list otherwise.
\<close>

lemma http_headers_collected:
  assumes "\<forall>kv \<in> set kvs. trimmed (snd kv) \<and> 32 \<notin> set (fst kv) \<and> 58 \<notin> set (fst kv)"
  shows "map_of (hs_headers (fold (\<lambda>kv. fill_line after (header_line (fst kv) (snd kv))) kvs no_headers)) name
    = header_entry (values_of name kvs)"
  by (rule fill_lines_entries [OF assms])

lemma http_headers_collected_witness:
  "let kvs = [([0x41], [0x31]), ([0x42], [0x32]), ([0x41], [0x33, 0x20, 0x34])]
   in (\<forall>kv \<in> set kvs. trimmed (snd kv) \<and> 32 \<notin> set (fst kv) \<and> 58 \<notin> set (fst kv))
      \<and> map_of (hs_headers (fold (\<lambda>kv. fill_line [0] (header_line (fst kv) (snd kv))) kvs no_headers)) [0x41]
        = Some (HvList [HaText [0x31], HaText [0x33, 0x20, 0x34]])"
proof -
  let ?kvs = "[([0x41], [0x31]), ([0x42], [0x32]), ([0x41], [0x33, 0x20, 0x34])] :: (bytes \<times> bytes) list"
  have wf: "\<forall>kv \<in> set ?kvs. trimmed (snd kv) \<and> 32 \<notin> set (fst kv) \<and> 58 \<notin> set (fst kv)"
    by (simp add: trimmed_def header_space_def)
  have "values_of [0x41] ?kvs = [[0x31], [0x33, 0x20, 0x34]]" by (simp add: values_of_def)
  with http_headers_collected [OF wf, of "[0]" "[0x41]"] wf show ?thesis by (simp add: Let_def)
qed

text \<open>
  A line without a blank after the colon is split again at every later colon, and a value of blanks only becomes the line
  feed.
\<close>

lemma header_split_again:
  "hs_headers (fill_line [0] ([0x41, 58, 0x62, 58, 0x63, 0x64, 13, 10]) no_headers)
    = [([0x41], HvAtom (HaText [0x62, 58, 0x63, 0x64])), ([0x41, 58, 0x62], HvAtom (HaText [0x63, 0x64]))]"
  by code_simp

lemma header_blank_value:
  "hs_headers (fill_line [0] ([0x41, 58, 32, 13, 10]) no_headers) = [([0x41], HvAtom (HaText [10]))]"
  by code_simp

text \<open>A charset that is only found behind the line makes the length of the copy negative.\<close>

lemma header_charset_beyond:
  "hs_bad (fill_line (CHARSET_IS @ [0]) (header_line CONTENT_TYPE [0x61]) no_headers)"
  by code_simp

end
