(* ===== verification/Http.thy ===== *)
theory Http
  imports Http_Header Tcpd
begin

text \<open>
  The HTTP client of \<open>src/http.c\<close>: building a request from a Lua table, the list of requests in flight, the callbacks
  that libcurl makes, the completion of a request and the tear-down of the client. The structures \<open>ConnInfo\<close> are in an explicit
  store that maps addresses to them; an access to one that is freed sets the field \<open>hw_bad\<close>, which is not part of the
  program. libcurl is a parameter: the model records the options that are set and lets its callbacks arrive in any order.
\<close>

section \<open>State\<close>

text \<open>A value of an option; \<open>OptDouble\<close> is a double passed where the variadic function reads a long.\<close>

datatype optval = OptInt int | OptStr string | OptStrs "string list" | OptFn string | OptDouble

type_synonym curl_opts = "(string \<times> optval) list"

record conn_info =
  hc_opts :: curl_opts
  hc_error :: string
  hc_outputHeaders :: "string list option"
  hc_input :: BYTEARRAY
  hc_completed :: bool
  hc_verbose :: bool
  hc_onprogressref :: "nat option"
  hc_onheaderref :: "nat option"
  hc_onwriteref :: "nat option"
  hc_onreadref :: "nat option"
  hc_coref :: "nat option"
  hc_headerref :: nat
  hc_retref :: nat
  hc_bodyref :: "nat option"
  hc_resolve :: "string list option"
  hc_next :: "nat option"
  hc_prev :: "nat option"
  hc_response :: header_state

text \<open>What a request reports at its end: the table that the coroutine is resumed with.\<close>

record http_response =
  rp_headers :: header_table
  rp_charset :: "bytes option"
  rp_error :: "string option"
  rp_cookies :: "string list option"
  rp_times :: "(string \<times> u64) list"
  rp_body :: "bytes option"
  rp_code :: int

datatype http_callback =
    HcHeader header_table | HcProgress "int list" | HcWrite bytes | HcRead nat | HcComplete http_response

text \<open>
  \<open>hw_resumes\<close> are the timers that will resume a coroutine, each with the slot of the coroutine and the response;
  \<open>hw_lost\<close> are the slots that no object refers to any more. \<open>hw_undefined\<close> records undefined behaviour other than the use
  of a freed structure.
\<close>

record http_world =
  hw_store :: "(nat \<times> conn_info) list"
  hw_head :: "nat option"
  hw_registry :: "nat list"
  hw_next :: nat
  hw_lost :: "nat list"
  hw_resumes :: "(nat option \<times> http_response) list"
  hw_log :: "http_callback list"
  hw_cookiejar :: "string option"
  hw_cainfo :: "string option"
  hw_capath :: "string option"
  hw_multi :: bool
  hw_bad :: bool
  hw_undefined :: bool

definition conn_at :: "nat \<Rightarrow> (conn_info \<Rightarrow> conn_info) \<Rightarrow> http_world \<Rightarrow> http_world" where
  "conn_at a f w =
     (case map_of (hw_store w) a of
        None \<Rightarrow> w\<lparr>hw_bad := True\<rparr>
      | Some c \<Rightarrow> w\<lparr>hw_store := AList.update a (f c) (hw_store w)\<rparr>)"

section \<open>Requests in flight\<close>

definition inflight_add :: "nat \<Rightarrow> http_world \<Rightarrow> http_world" where
  "inflight_add conn w =
     (let w = conn_at conn (\<lambda>c. c\<lparr>hc_prev := None, hc_next := hw_head w\<rparr>) w;
          w = (case hw_head w of Some h \<Rightarrow> conn_at h (\<lambda>c. c\<lparr>hc_prev := Some conn\<rparr>) w | None \<Rightarrow> w)
      in w\<lparr>hw_head := Some conn\<rparr>)"

definition inflight_remove :: "nat \<Rightarrow> http_world \<Rightarrow> http_world" where
  "inflight_remove conn w =
     (case map_of (hw_store w) conn of
        None \<Rightarrow> w\<lparr>hw_bad := True\<rparr>
      | Some c \<Rightarrow>
          let w = (case hc_prev c of
                     Some p \<Rightarrow> conn_at p (\<lambda>d. d\<lparr>hc_next := hc_next c\<rparr>) w
                   | None \<Rightarrow> w\<lparr>hw_head := hc_next c\<rparr>);
              w = (case hc_next c of Some n \<Rightarrow> conn_at n (\<lambda>d. d\<lparr>hc_prev := hc_prev c\<rparr>) w | None \<Rightarrow> w)
          in conn_at conn (\<lambda>d. d\<lparr>hc_prev := None, hc_next := None\<rparr>) w)"

section \<open>Building a request\<close>

text \<open>
  The fields of the table. A string carries its value as a number if it has one; a number its text and whether it has an
  exact integer value.
\<close>

datatype hfield =
    HfNil | HfString string "int option" | HfNumber int string bool | HfFunction | HfTable "(hfield \<times> hfield) list" | HfOther

type_synonym http_table = "string \<Rightarrow> hfield"

definition as_string :: "hfield \<Rightarrow> string option" where
  "as_string f = (case f of HfString s n \<Rightarrow> Some s | HfNumber z t i \<Rightarrow> Some t | _ \<Rightarrow> None)"

definition as_number :: "hfield \<Rightarrow> int option" where
  "as_number f = (case f of HfNumber z t i \<Rightarrow> Some z | HfString s n \<Rightarrow> n | _ \<Rightarrow> None)"

datatype http_method = HTTP_GET | HTTP_POST | HTTP_PUT | HTTP_HEAD | HTTP_DELETE | HTTP_UPDATE

record client_env =
  he_al :: allocator
  he_calloc :: bool
  he_easy_init :: bool
  he_global_verbose :: bool
  he_dns_servers :: "string option"
  he_proxyType :: int
  he_proxyHost :: "string option"
  he_proxyPort :: int
  he_proxyUsername :: "string option"
  he_proxyPassword :: "string option"
  he_share :: bool
  he_add_handle :: "string option"
  he_cookies :: "string list option"
  he_times :: "string \<Rightarrow> u64 option"
  he_code :: int
  he_resume_info :: bool

text \<open>
  A request that is being built: its structure, the registry, and the slot of the completion function. A step ends in
  success, in the jump to \<open>ERROR\<close> with a message, in an error that Lua raises over the C frame, or is undefined.
\<close>

record http_build =
  hb_conn :: conn_info
  hb_registry :: "nat list"
  hb_next :: nat
  hb_oncomplete :: "nat option"

datatype build_outcome = BOk | BError string | BRaise string | BUndefined

type_synonym build_step = "http_build \<Rightarrow> build_outcome \<times> http_build"

fun run_build :: "build_step list \<Rightarrow> build_step" where
  "run_build [] b = (BOk, b)"
| "run_build (f # fs) b = (case f b of (BOk, b) \<Rightarrow> run_build fs b | r \<Rightarrow> r)"

definition upd_hc :: "(conn_info \<Rightarrow> conn_info) \<Rightarrow> http_build \<Rightarrow> http_build" where
  "upd_hc f b = b\<lparr>hb_conn := f (hb_conn b)\<rparr>"

definition setopt :: "string \<Rightarrow> optval \<Rightarrow> http_build \<Rightarrow> http_build" where
  "setopt name v = upd_hc (\<lambda>c. c\<lparr>hc_opts := hc_opts c @ [(name, v)]\<rparr>)"

definition hb_ref :: "http_build \<Rightarrow> nat \<times> http_build" where
  "hb_ref b = (hb_next b, b\<lparr>hb_registry := hb_registry b @ [hb_next b], hb_next := hb_next b + 1\<rparr>)"

definition ok :: "http_build \<Rightarrow> build_outcome \<times> http_build" where
  "ok b = (BOk, b)"

text \<open>A string option that is set if the field is a string; any other type is only logged.\<close>

definition opt_string :: "string \<Rightarrow> string \<Rightarrow> http_table \<Rightarrow> build_step" where
  "opt_string field name t b = ok (case as_string (t field) of Some s \<Rightarrow> setopt name (OptStr s) b | None \<Rightarrow> b)"

definition set_method :: "http_method \<Rightarrow> build_step" where
  "set_method m b =
     ok (case m of
           HTTP_GET \<Rightarrow> setopt ''POST'' (OptInt 0) b
         | HTTP_POST \<Rightarrow> setopt ''POST'' (OptInt 1) b
         | HTTP_PUT \<Rightarrow> setopt ''CUSTOMREQUEST'' (OptStr ''PUT'') (setopt ''POST'' (OptInt 1) b)
         | HTTP_HEAD \<Rightarrow> setopt ''NOBODY'' (OptInt 1) (setopt ''CUSTOMREQUEST'' (OptStr ''HEAD'') b)
         | HTTP_DELETE \<Rightarrow> setopt ''CUSTOMREQUEST'' (OptStr ''DELETE'') b
         | HTTP_UPDATE \<Rightarrow> setopt ''CUSTOMREQUEST'' (OptStr ''UPDATE'') b)"

definition set_verbose :: "client_env \<Rightarrow> http_table \<Rightarrow> build_step" where
  "set_verbose e t b =
     (case t ''verbose'' of
        HfNil \<Rightarrow> ok (upd_hc (\<lambda>c. c\<lparr>hc_verbose := he_global_verbose e\<rparr>) b)
      | f \<Rightarrow> (case as_number f of
                Some z \<Rightarrow> ok (upd_hc (\<lambda>c. c\<lparr>hc_verbose := z \<noteq> 0\<rparr>) b)
              | None \<Rightarrow> (BRaise ''number expected'', b)))"

definition set_url :: "http_table \<Rightarrow> build_step" where
  "set_url t b =
     (case as_string (t ''url'') of
        Some s \<Rightarrow> ok (setopt ''URL'' (OptStr s) b)
      | None \<Rightarrow> (BError ''invalid url type in table parameter'', b))"

definition set_debug :: build_step where
  "set_debug b =
     ok (if hc_verbose (hb_conn b)
         then setopt ''DEBUGDATA'' (OptFn ''conn'') (setopt ''DEBUGFUNCTION'' (OptFn ''debug_callback'') (setopt ''VERBOSE'' (OptInt 1) b))
         else b)"

definition set_dns_servers :: "client_env \<Rightarrow> http_table \<Rightarrow> build_step" where
  "set_dns_servers e t b =
     ok (case as_string (t ''dns_servers'') of
           Some s \<Rightarrow> setopt ''DNS_SERVERS'' (OptStr s) b
         | None \<Rightarrow>
             (case t ''dns_servers'' of
                HfNil \<Rightarrow> (case he_dns_servers e of Some s \<Rightarrow> setopt ''DNS_SERVERS'' (OptStr s) b | None \<Rightarrow> b)
              | _ \<Rightarrow> b))"

definition set_onprogress :: "http_table \<Rightarrow> build_step" where
  "set_onprogress t b =
     ok (case t ''onprogress'' of
           HfFunction \<Rightarrow>
             let (r, b) = hb_ref b
             in setopt ''NOPROGRESS'' (OptInt 0) (setopt ''PROGRESSDATA'' (OptFn ''conn'') (setopt ''PROGRESSFUNCTION'' (OptFn ''onprogress'')
                  (upd_hc (\<lambda>c. c\<lparr>hc_onprogressref := Some r\<rparr>) b)))
         | HfNil \<Rightarrow> upd_hc (\<lambda>c. c\<lparr>hc_onprogressref := None\<rparr>) b
         | _ \<Rightarrow> b)"

definition CURL_TIMEOUT_DEFAULT :: int where "CURL_TIMEOUT_DEFAULT = 60"

definition set_timeouts :: "http_table \<Rightarrow> build_step" where
  "set_timeouts t b =
     (let b = setopt ''LOW_SPEED_LIMIT'' (OptInt 1) b;
          b = (case as_number (t ''timeout'') of
                 Some z \<Rightarrow> setopt ''LOW_SPEED_TIME'' (OptInt z) b
               | None \<Rightarrow> (case t ''timeout'' of HfNil \<Rightarrow> setopt ''LOW_SPEED_TIME'' (OptInt CURL_TIMEOUT_DEFAULT) b | _ \<Rightarrow> b))
      in ok (case as_number (t ''conntimeout'') of Some z \<Rightarrow> setopt ''TIMEOUT'' (OptInt z) b | None \<Rightarrow> b))"

text \<open>The values of the two verification options are passed as doubles.\<close>

definition set_verify :: "http_table \<Rightarrow> build_step" where
  "set_verify t b =
     (let b = (case as_number (t ''ssl_verifypeer'') of
                 Some z \<Rightarrow> setopt ''SSL_VERIFYPEER'' OptDouble b
               | None \<Rightarrow> (case t ''ssl_verifypeer'' of HfNil \<Rightarrow> setopt ''SSL_VERIFYPEER'' (OptInt 1) b | _ \<Rightarrow> b))
      in ok (case as_number (t ''ssl_verifyhost'') of
               Some z \<Rightarrow> setopt ''SSL_VERIFYHOST'' OptDouble b
             | None \<Rightarrow> (case t ''ssl_verifyhost'' of HfNil \<Rightarrow> setopt ''SSL_VERIFYHOST'' (OptInt 2) b | _ \<Rightarrow> b)))"

definition set_ca :: "string \<Rightarrow> string \<Rightarrow> string option \<Rightarrow> string \<Rightarrow> http_table \<Rightarrow> build_step" where
  "set_ca field name stored dflt t b =
     ok (case as_string (t field) of
           Some s \<Rightarrow> setopt name (OptStr s) b
         | None \<Rightarrow>
             (case t field of
                HfNil \<Rightarrow> setopt name (OptStr (case stored of Some s \<Rightarrow> s | None \<Rightarrow> dflt)) b
              | _ \<Rightarrow> b))"

text \<open>
  The loop over the table of headers. A key that is a number is converted in place, which the next \<open>lua_next\<close> does not allow; a key
  without a text is copied from NULL; an integer outside the range of int has no defined conversion.
\<close>

definition c_str :: "string \<Rightarrow> string" where
  "c_str s = takeWhile (\<lambda>c. c \<noteq> CHR 0x00) s"

definition header_text :: "hfield \<Rightarrow> string option option" where
  "header_text v =
     (case v of
        HfNumber z t True \<Rightarrow> if c_int z = z then Some (Some (dec_text z)) else None
      | _ \<Rightarrow> Some (as_string v))"

definition is_number_key :: "hfield \<Rightarrow> bool" where
  "is_number_key k = (case k of HfNumber z t i \<Rightarrow> True | _ \<Rightarrow> False)"

fun header_strings :: "allocator \<Rightarrow> (hfield \<times> hfield) list \<Rightarrow> string list \<Rightarrow> build_outcome \<times> string list" where
  "header_strings al [] hs = (BOk, hs)"
| "header_strings al ((k, v) # kvs) hs =
     (if is_number_key k then (BUndefined, hs)
      else case header_text v of
             None \<Rightarrow> (BUndefined, hs)
           | Some text \<Rightarrow>
               if text = None \<or> text = Some [] then header_strings al kvs hs
               else (case as_string k of
                       None \<Rightarrow> (BUndefined, hs)
                     | Some key \<Rightarrow>
                         if can_alloc al (length key + length (the text) + 3)
                         then header_strings al kvs (hs @ [c_str (key @ '': '' @ the text)])
                         else (BError ''Memory allocation failure'', hs)))"

definition set_headers :: "client_env \<Rightarrow> http_table \<Rightarrow> build_step" where
  "set_headers e t b =
     (case t ''headers'' of
        HfTable kvs \<Rightarrow>
          (case header_strings (he_al e) kvs [] of
             (BOk, hs) \<Rightarrow>
               ok (if hs = [] then b else upd_hc (\<lambda>c. c\<lparr>hc_outputHeaders := Some hs\<rparr>) (setopt ''HTTPHEADER'' (OptStrs hs) b))
           | (r, hs) \<Rightarrow> (r, b))
      | HfNil \<Rightarrow> ok b
      | _ \<Rightarrow> (BError ''invalid headers type in table parameter'', b))"

definition INT16_MAX :: int where "INT16_MAX = 32767"

definition set_proxy_globals :: "client_env \<Rightarrow> build_step" where
  "set_proxy_globals e b =
     ok (if he_proxyType e \<noteq> INT16_MAX
         then
           let b = setopt ''PROXYTYPE'' (OptInt (he_proxyType e)) b;
               b = (case he_proxyHost e of Some s \<Rightarrow> setopt ''PROXY'' (OptStr s) b | None \<Rightarrow> b);
               b = (if he_proxyPort e \<noteq> 0 then setopt ''PROXYPORT'' (OptInt (he_proxyPort e)) b else b);
               b = (case he_proxyUsername e of Some s \<Rightarrow> setopt ''PROXYUSERNAME'' (OptStr s) b | None \<Rightarrow> b);
               b = (case he_proxyPassword e of Some s \<Rightarrow> setopt ''PROXYPASSWORD'' (OptStr s) b | None \<Rightarrow> b)
           in setopt ''NOPROXY'' (OptStr ''127.0.0.1,localhost'') (setopt ''HEADEROPT'' (OptInt 1) b)
         else b)"

definition use_proxy :: "string option \<Rightarrow> int \<Rightarrow> http_build \<Rightarrow> http_build" where
  "use_proxy proxy port b =
     (case proxy of
        Some p \<Rightarrow>
          if 0 < port
          then setopt ''NOPROXY'' (OptStr ''127.0.0.1,localhost'') (setopt ''HEADEROPT'' (OptInt 1)
                 (setopt ''PROXYPORT'' (OptInt port) (setopt ''PROXY'' (OptStr p) (setopt ''PROXYTYPE'' (OptInt 0) b))))
          else b
      | None \<Rightarrow> b)"

definition set_proxy :: "http_table \<Rightarrow> build_step" where
  "set_proxy t b =
     (if as_number (t ''proxytunnel'') = None \<and> t ''proxytunnel'' \<noteq> HfNil
      then (BError ''invalid proxytunnel type in table parameter'', b)
      else
        let b = (case as_number (t ''proxytunnel'') of Some z \<Rightarrow> setopt ''HTTPPROXYTUNNEL'' (OptInt z) b | None \<Rightarrow> b)
        in if as_string (t ''proxy'') = None \<and> t ''proxy'' \<noteq> HfNil then (BError ''invalid proxy type in table parameter'', b)
           else if as_number (t ''proxyport'') = None \<and> t ''proxyport'' \<noteq> HfNil
           then (BError ''invalid proxyport type in table parameter'', b)
           else
             let port = (case as_number (t ''proxyport'') of Some z \<Rightarrow> c_int z | None \<Rightarrow> 0)
             in ok (use_proxy (as_string (t ''proxy'')) port b))"

definition set_body :: "http_method \<Rightarrow> http_table \<Rightarrow> build_step" where
  "set_body m t b =
     (case as_string (t ''body'') of
        Some s \<Rightarrow>
          let (r, b) = hb_ref b
          in ok (setopt ''POSTFIELDS'' (OptStr s) (setopt ''POSTFIELDSIZE'' (OptInt (int (length s))) (upd_hc (\<lambda>c. c\<lparr>hc_bodyref := Some r\<rparr>) b)))
      | None \<Rightarrow>
          if t ''body'' = HfNil
          then ok (if m \<in> {HTTP_POST, HTTP_PUT, HTTP_UPDATE}
                   then setopt ''POSTFIELDS'' (OptStr []) (setopt ''POSTFIELDSIZE'' (OptInt 0) b) else b)
          else (BError ''invalid body type in table parameter'', b))"

definition set_onsend :: "http_method \<Rightarrow> http_table \<Rightarrow> build_step" where
  "set_onsend m t b =
     (case t ''onsend'' of
        HfFunction \<Rightarrow>
          let (r, b) = hb_ref b
          in ok (setopt ''READDATA'' (OptFn ''conn'') (setopt ''READFUNCTION'' (OptFn ''onread'') (upd_hc (\<lambda>c. c\<lparr>hc_onreadref := Some r\<rparr>) b)))
      | HfNil \<Rightarrow> set_body m t (upd_hc (\<lambda>c. c\<lparr>hc_onreadref := None\<rparr>) b)
      | _ \<Rightarrow> (BError ''invalid onsend type in table parameter'', b))"

definition set_onreceive :: "http_table \<Rightarrow> build_step" where
  "set_onreceive t b =
     (case t ''onreceive'' of
        HfFunction \<Rightarrow>
          let (r, b) = hb_ref b
          in ok (setopt ''WRITEDATA'' (OptFn ''conn'') (setopt ''WRITEFUNCTION'' (OptFn ''onwrite'') (upd_hc (\<lambda>c. c\<lparr>hc_onwriteref := Some r\<rparr>) b)))
      | HfNil \<Rightarrow>
          ok (setopt ''WRITEDATA'' (OptFn ''conn'') (setopt ''WRITEFUNCTION'' (OptFn ''filldata'') (upd_hc (\<lambda>c. c\<lparr>hc_onwriteref := None\<rparr>) b)))
      | _ \<Rightarrow> (BError ''invalid onreceive type in table parameter'', b))"

definition set_onheader :: "http_table \<Rightarrow> build_step" where
  "set_onheader t b =
     (case t ''onheader'' of
        HfFunction \<Rightarrow> (let (r, b) = hb_ref b in ok (upd_hc (\<lambda>c. c\<lparr>hc_onheaderref := Some r\<rparr>) b))
      | HfNil \<Rightarrow> ok (upd_hc (\<lambda>c. c\<lparr>hc_onheaderref := None\<rparr>) b)
      | _ \<Rightarrow> (BError ''invalid onheader type in table parameter'', b))"

definition set_oncomplete :: "http_table \<Rightarrow> build_step" where
  "set_oncomplete t b =
     (case t ''oncomplete'' of
        HfFunction \<Rightarrow> (let (r, b) = hb_ref b in ok (b\<lparr>hb_oncomplete := Some r\<rparr>))
      | HfNil \<Rightarrow> ok b
      | _ \<Rightarrow> (BError ''invalid oncomplete type in table parameter'', b))"

definition set_resolve :: "http_table \<Rightarrow> build_step" where
  "set_resolve t b =
     (let b = (case t ''resolve'' of
                 HfString s n \<Rightarrow> upd_hc (\<lambda>c. c\<lparr>hc_resolve := Some [s]\<rparr>) (setopt ''RESOLVE'' (OptStrs [s]) b)
               | _ \<Rightarrow> b)
      in ok (case as_number (t ''forbid_reuse'') of Some z \<Rightarrow> setopt ''FORBID_REUSE'' (OptInt z) b | None \<Rightarrow> b))"

definition set_cookiejar :: "string option \<Rightarrow> http_table \<Rightarrow> build_step" where
  "set_cookiejar stored t b =
     (let both = (\<lambda>s b. setopt ''COOKIEFILE'' (OptStr s) (setopt ''COOKIEJAR'' (OptStr s) b))
      in case as_string (t ''cookiejar'') of
           Some s \<Rightarrow> ok (both s b)
         | None \<Rightarrow>
             if t ''cookiejar'' \<noteq> HfNil then (BError ''invalid cookiejar type in table parameter'', b)
             else ok (both (case stored of Some s \<Rightarrow> s | None \<Rightarrow> ''/dev/null'') b))"

text \<open>The coroutine to resume: a new one that holds the completion function, or the one that called.\<close>

definition set_coroutine :: build_step where
  "set_coroutine b = (let (r, b) = hb_ref b in ok (upd_hc (\<lambda>c. c\<lparr>hc_coref := Some r\<rparr>) b))"

definition add_to_multi :: "client_env \<Rightarrow> build_step" where
  "add_to_multi e b =
     (let b = (if he_share e then setopt ''SHARE'' (OptFn ''share_handle'') b else b)
      in case he_add_handle e of Some msg \<Rightarrow> (BError msg, b) | None \<Rightarrow> ok b)"

definition build_steps :: "client_env \<Rightarrow> http_method \<Rightarrow> http_world \<Rightarrow> http_table \<Rightarrow> build_step list" where
  "build_steps e m w t =
     [set_method m, set_verbose e t, set_url t, set_debug, set_dns_servers e t, set_onprogress t, set_timeouts t, set_verify t,
      opt_string ''sslcert'' ''SSLCERT'' t, opt_string ''sslcertpasswd'' ''SSLCERTPASSWD'' t, opt_string ''sslcerttype'' ''SSLCERTTYPE'' t,
      opt_string ''sslkey'' ''SSLKEY'' t, opt_string ''sslkeypasswd'' ''SSLKEYPASSWD'' t, opt_string ''sslkeytype'' ''SSLKEYTYPE'' t,
      set_ca ''cainfo'' ''CAINFO'' (hw_cainfo w) ''cert.pem'' t, set_ca ''capath'' ''CAPATH'' (hw_capath w) ''.'' t,
      set_headers e t, set_proxy_globals e, set_proxy t, set_onsend m t, set_onreceive t, set_onheader t, set_oncomplete t,
      set_resolve t, set_cookiejar (hw_cookiejar w) t, set_coroutine, add_to_multi e]"

text \<open>The first argument of the Lua function.\<close>

datatype http_arg = ArgString string | ArgTable http_table | ArgOther

definition invalid_parameter :: build_step where
  "invalid_parameter b = (BError ''invalid parameter'', b)"

definition request_steps :: "client_env \<Rightarrow> http_method \<Rightarrow> http_arg \<Rightarrow> http_world \<Rightarrow> build_step list" where
  "request_steps e m arg w =
     (case arg of
        ArgString s \<Rightarrow> build_steps e m w (\<lambda>k. if k = ''url'' then HfString s None else HfNil)
      | ArgTable t \<Rightarrow> build_steps e m w t
      | ArgOther \<Rightarrow> [set_method m, invalid_parameter])"

definition new_conn :: "allocator \<Rightarrow> nat \<Rightarrow> nat \<Rightarrow> conn_info" where
  "new_conn al headerref retref =
     \<lparr>hc_opts = [(''WRITEFUNCTION'', OptFn ''filldata''), (''WRITEDATA'', OptFn ''conn''), (''HEADERFUNCTION'', OptFn ''fillheader''),
                 (''HEADERDATA'', OptFn ''conn''), (''NOSIGNAL'', OptInt 1), (''ERRORBUFFER'', OptFn ''error''), (''PRIVATE'', OptFn ''conn'')],
      hc_error = [], hc_outputHeaders = None, hc_input = snd (bytearray_alloc al zero_ba 1024), hc_completed = False, hc_verbose = False,
      hc_onprogressref = None, hc_onheaderref = None, hc_onwriteref = None, hc_onreadref = None, hc_coref = None,
      hc_headerref = headerref, hc_retref = retref, hc_bodyref = None, hc_resolve = None, hc_next = None, hc_prev = None,
      hc_response = no_headers\<rparr>"

definition opt_unref :: "nat option \<Rightarrow> nat list \<Rightarrow> nat list" where
  "opt_unref r reg = (case r of Some n \<Rightarrow> remove1 n reg | None \<Rightarrow> reg)"

text \<open>The code after the label \<open>ERROR\<close>. The slot of the body is not released.\<close>

definition release_failed :: "http_build \<Rightarrow> nat list" where
  "release_failed b =
     (let c = hb_conn b;
          reg = opt_unref (hc_onprogressref c) (hb_registry b);
          reg = opt_unref (hc_onheaderref c) reg;
          reg = opt_unref (hc_onreadref c) reg;
          reg = opt_unref (hc_onwriteref c) reg;
          reg = opt_unref (hc_coref c) reg;
          reg = opt_unref (hb_oncomplete b) reg
      in remove1 (hc_retref c) (remove1 (hc_headerref c) reg))"

datatype http_result = HrReturns | HrYields | HrRaises string

definition fresh_conn :: "http_world \<Rightarrow> nat" where
  "fresh_conn w = Suc (sum_list (map fst (hw_store w)))"

definition start_request :: "http_build \<Rightarrow> http_world \<Rightarrow> http_result \<times> http_world" where
  "start_request b w =
     (let a = fresh_conn w;
          w = w\<lparr>hw_store := AList.update a (hb_conn b) (hw_store w), hw_registry := hb_registry b, hw_next := hb_next b,
                hw_multi := True\<rparr>;
          w = inflight_add a w
      in case hb_oncomplete b of
           Some r \<Rightarrow> (HrReturns, w\<lparr>hw_registry := remove1 r (hw_registry w)\<rparr>)
         | None \<Rightarrow> (HrYields, w))"

text \<open>All slots that a request under construction has taken.\<close>

definition opt_slot :: "nat option \<Rightarrow> nat list" where
  "opt_slot r = (case r of Some n \<Rightarrow> [n] | None \<Rightarrow> [])"

definition conn_slots :: "conn_info \<Rightarrow> nat list" where
  "conn_slots c =
     hc_headerref c # hc_retref c # opt_slot (hc_bodyref c) @ opt_slot (hc_onprogressref c) @ opt_slot (hc_onheaderref c)
     @ opt_slot (hc_onreadref c) @ opt_slot (hc_onwriteref c) @ opt_slot (hc_coref c)"

definition http_getpost :: "client_env \<Rightarrow> http_method \<Rightarrow> http_arg \<Rightarrow> http_world \<Rightarrow> http_result \<times> http_world" where
  "http_getpost e m arg w =
     (if \<not> he_calloc e then (HrReturns, w\<lparr>hw_undefined := True\<rparr>)
      else if \<not> he_easy_init e then (HrRaises ''curl_easy_init() failed'', w)
      else
        let b = \<lparr>hb_conn = new_conn (he_al e) (hw_next w) (hw_next w + 1), hb_registry = hw_registry w @ [hw_next w, hw_next w + 1],
                 hb_next = hw_next w + 2, hb_oncomplete = None\<rparr>
        in case run_build (request_steps e m arg w) b of
             (BOk, b) \<Rightarrow> start_request b w
           | (BError msg, b) \<Rightarrow>
               (HrRaises msg, w\<lparr>hw_registry := release_failed b, hw_next := hb_next b, hw_lost := hw_lost w @ opt_slot (hc_bodyref (hb_conn b))\<rparr>)
           | (BRaise msg, b) \<Rightarrow>
               (HrRaises msg, w\<lparr>hw_registry := hb_registry b, hw_next := hb_next b,
                                hw_lost := hw_lost w @ conn_slots (hb_conn b) @ opt_slot (hb_oncomplete b)\<rparr>)
           | (BUndefined, b) \<Rightarrow> (HrReturns, w\<lparr>hw_undefined := True\<rparr>))"

definition http_get :: "client_env \<Rightarrow> http_arg \<Rightarrow> http_world \<Rightarrow> http_result \<times> http_world" where
  "http_get e arg w = http_getpost e HTTP_GET arg w"

definition http_post :: "client_env \<Rightarrow> http_arg \<Rightarrow> http_world \<Rightarrow> http_result \<times> http_world" where
  "http_post e arg w = http_getpost e HTTP_POST arg w"

definition http_put :: "client_env \<Rightarrow> http_arg \<Rightarrow> http_world \<Rightarrow> http_result \<times> http_world" where
  "http_put e arg w = http_getpost e HTTP_PUT arg w"

definition http_update :: "client_env \<Rightarrow> http_arg \<Rightarrow> http_world \<Rightarrow> http_result \<times> http_world" where
  "http_update e arg w = http_getpost e HTTP_UPDATE arg w"

definition http_delete :: "client_env \<Rightarrow> http_arg \<Rightarrow> http_world \<Rightarrow> http_result \<times> http_world" where
  "http_delete e arg w = http_getpost e HTTP_DELETE arg w"

definition http_head :: "client_env \<Rightarrow> http_arg \<Rightarrow> http_world \<Rightarrow> http_result \<times> http_world" where
  "http_head e arg w = http_getpost e HTTP_HEAD arg w"

definition http_cookiejar :: "string \<Rightarrow> http_world \<Rightarrow> http_world" where
  "http_cookiejar s w = w\<lparr>hw_cookiejar := Some s\<rparr>"

definition http_cainfo :: "string \<Rightarrow> http_world \<Rightarrow> http_world" where
  "http_cainfo s w = w\<lparr>hw_cainfo := Some s\<rparr>"

definition http_capath :: "string \<Rightarrow> http_world \<Rightarrow> http_world" where
  "http_capath s w = w\<lparr>hw_capath := Some s\<rparr>"

text \<open>\<open>curl_escape\<close> and \<open>curl_unescape\<close> are parameters; a NUL ends the result of the second.\<close>

definition http_escape :: "(bytes \<Rightarrow> bytes option) \<Rightarrow> bytes \<Rightarrow> bytes option" where
  "http_escape esc s = map_option c_string (esc s)"

definition http_unescape :: "(bytes \<Rightarrow> bytes option) \<Rightarrow> bytes \<Rightarrow> bytes option" where
  "http_unescape unesc s = map_option c_string (unesc s)"

section \<open>Callbacks of libcurl\<close>

text \<open>
  What a protected call gives back. A number carries its text. \<open>onread\<close> addresses its results by absolute positions on the
  stack of the main thread, whose other values are an argument.
\<close>

datatype pcall_value = PvNil | PvNumber int bytes | PvString bytes | PvOther

datatype pcall_result = PcFails | PcReturns "pcall_value list"

fun fill_chunks :: "allocator \<Rightarrow> nat \<Rightarrow> nat \<Rightarrow> bytes \<Rightarrow> BYTEARRAY \<Rightarrow> BYTEARRAY option" where
  "fill_chunks al nmemb 0 ptr ba = Some ba"
| "fill_chunks al nmemb (Suc n) ptr ba =
     (case bytearray_writebuffer al ba (take nmemb ptr) of
        None \<Rightarrow> None
      | Some (_, ba) \<Rightarrow> fill_chunks al nmemb n (drop nmemb ptr) ba)"

definition filldata :: "client_env \<Rightarrow> nat \<Rightarrow> nat \<Rightarrow> nat \<Rightarrow> bytes \<Rightarrow> http_world \<Rightarrow> nat \<times> http_world" where
  "filldata e a sz nmemb ptr w =
     (case map_of (hw_store w) a of
        None \<Rightarrow> (0, w\<lparr>hw_bad := True\<rparr>)
      | Some c \<Rightarrow>
          if hc_completed c then (0, w)
          else (case fill_chunks (he_al e) nmemb sz ptr (hc_input c) of
                  None \<Rightarrow> (0, w\<lparr>hw_undefined := True\<rparr>)
                | Some ba \<Rightarrow> (sz * nmemb, conn_at a (\<lambda>c. c\<lparr>hc_input := ba\<rparr>) w)))"

definition RESPONSE_CODE :: bytes where
  "RESPONSE_CODE = [0x72, 0x65, 0x73, 0x70, 0x6f, 0x6e, 0x73, 0x65, 0x43, 0x6f, 0x64, 0x65]"

definition client_call :: "nat option \<Rightarrow> http_callback \<Rightarrow> http_world \<Rightarrow> http_world" where
  "client_call r cb w =
     (case r of Some n \<Rightarrow> if n \<in> set (hw_registry w) then w\<lparr>hw_log := hw_log w @ [cb]\<rparr> else w | None \<Rightarrow> w)"

definition fillheader :: "client_env \<Rightarrow> nat \<Rightarrow> bytes \<Rightarrow> bytes \<Rightarrow> http_world \<Rightarrow> nat \<times> http_world" where
  "fillheader e a line after w =
     (case map_of (hw_store w) a of
        None \<Rightarrow> (0, w\<lparr>hw_bad := True\<rparr>)
      | Some c \<Rightarrow>
          if hc_completed c then (length line, w)
          else
            let s = fill_line after line (hc_response c);
                ended = (hc_onheaderref c \<noteq> None \<and> length line \<le> 2);
                s = (if ended then s\<lparr>hs_headers := AList.update RESPONSE_CODE (HvAtom (HaCode (he_code e))) (hs_headers s)\<rparr> else s);
                w = conn_at a (\<lambda>c. c\<lparr>hc_response := s\<rparr>) w;
                w = (if hs_bad s then w\<lparr>hw_undefined := True\<rparr> else w)
            in (length line, if ended then client_call (hc_onheaderref c) (HcHeader (hs_headers s)) w else w))"

definition first_number :: "pcall_result \<Rightarrow> int option" where
  "first_number r = (case r of PcReturns (PvNumber z t # _) \<Rightarrow> Some z | _ \<Rightarrow> None)"

definition onprogress :: "nat \<Rightarrow> int list \<Rightarrow> pcall_result \<Rightarrow> http_world \<Rightarrow> int \<times> http_world" where
  "onprogress a amounts r w =
     (case map_of (hw_store w) a of
        None \<Rightarrow> (0, w\<lparr>hw_bad := True\<rparr>)
      | Some c \<Rightarrow>
          if hc_completed c then (1, w)
          else if (case hc_onprogressref c of Some n \<Rightarrow> n \<notin> set (hw_registry w) | None \<Rightarrow> True) then (0, w)
          else (c_int (case first_number r of Some z \<Rightarrow> z | None \<Rightarrow> 0), client_call (hc_onprogressref c) (HcProgress amounts) w))"

definition onwrite :: "nat \<Rightarrow> bytes \<Rightarrow> pcall_result \<Rightarrow> http_world \<Rightarrow> int \<times> http_world" where
  "onwrite a ptr r w =
     (case map_of (hw_store w) a of
        None \<Rightarrow> (0, w\<lparr>hw_bad := True\<rparr>)
      | Some c \<Rightarrow>
          if hc_completed c then (0, w)
          else if (case hc_onwriteref c of Some n \<Rightarrow> n \<notin> set (hw_registry w) | None \<Rightarrow> True) then (0, w)
          else (c_int (case first_number r of Some z \<Rightarrow> z | None \<Rightarrow> int (length ptr)), client_call (hc_onwriteref c) (HcWrite ptr) w))"

definition CURL_READFUNC_ABORT :: nat where "CURL_READFUNC_ABORT = 0x10000000"

definition pv_text :: "pcall_value \<Rightarrow> bytes option" where
  "pv_text v = (case v of PvNumber z t \<Rightarrow> Some t | PvString s \<Rightarrow> Some s | _ \<Rightarrow> None)"

definition lower_byte :: "u8 \<Rightarrow> u8" where
  "lower_byte b = (if 0x41 \<le> b \<and> b \<le> 0x5a then b + 0x20 else b)"

definition is_abort :: "pcall_value \<Rightarrow> bool" where
  "is_abort v = (case pv_text v of Some s \<Rightarrow> map lower_byte (c_string s) = [0x61, 0x62, 0x6f, 0x72, 0x74] | None \<Rightarrow> False)"

text \<open>The value at position 1 or 2 of a stack; below it may lie other values of the main thread.\<close>

definition stack_value :: "pcall_value list \<Rightarrow> nat \<Rightarrow> pcall_value" where
  "stack_value st i = (if i \<le> length st then st ! (i - 1) else PvNil)"

text \<open>The result is the number that libcurl gets and the bytes that were written to its buffer.\<close>

definition onread_result :: "nat \<Rightarrow> pcall_value list \<Rightarrow> nat \<times> bytes" where
  "onread_result accept_size st =
     (case pv_text (stack_value st 1) of
        Some s \<Rightarrow> (min accept_size (length s), take accept_size s)
      | None \<Rightarrow> if stack_value st 1 = PvNil \<and> 1 < length st \<and> is_abort (stack_value st 2) then (CURL_READFUNC_ABORT, []) else (0, []))"

definition onread :: "nat \<Rightarrow> nat \<Rightarrow> pcall_value list \<Rightarrow> pcall_result \<Rightarrow> http_world \<Rightarrow> (nat \<times> bytes) \<times> http_world" where
  "onread a accept_size below r w =
     (case map_of (hw_store w) a of
        None \<Rightarrow> ((0, []), w\<lparr>hw_bad := True\<rparr>)
      | Some c \<Rightarrow>
          if hc_completed c then ((0, []), w)
          else if (case hc_onreadref c of Some n \<Rightarrow> n \<notin> set (hw_registry w) | None \<Rightarrow> True) then ((0, []), w)
          else (case r of
                  PcReturns vs \<Rightarrow> onread_result accept_size (below @ take 2 (vs @ [PvNil, PvNil]))
                | PcFails \<Rightarrow> (0, []), client_call (hc_onreadref c) (HcRead accept_size) w))"

section \<open>Completion\<close>

definition time_fields :: "string list" where
  "time_fields = [''dns_time'', ''connect_time'', ''appconnect_time'', ''pretransfer_time'', ''starttransfer_time'', ''total_time'']"

definition response_body :: "BYTEARRAY \<Rightarrow> bytes option option" where
  "response_body ba =
     (let ba = snd (bytearray_read_ready ba)
      in if 0 < ba_total ba then map_option Some (load_at (ba_buffer ba) 0 (ba_total ba)) else Some None)"

definition make_response :: "client_env \<Rightarrow> conn_info \<Rightarrow> bytes option \<Rightarrow> http_response" where
  "make_response e c body =
     \<lparr>rp_headers = hs_headers (hc_response c), rp_charset = hs_charset (hc_response c),
      rp_error = (if hc_error c = [] then None else Some (hc_error c)), rp_cookies = he_cookies e,
      rp_times = List.map_filter (\<lambda>n. map_option (Pair n) (he_times e n)) time_fields, rp_body = body, rp_code = he_code e\<rparr>"

text \<open>The slots that are released at the end of a request, in this order; the coroutine is released when it was resumed.\<close>

definition release_request :: "conn_info \<Rightarrow> nat list \<Rightarrow> nat list" where
  "release_request c reg =
     (let reg = opt_unref (hc_bodyref c) reg;
          reg = remove1 (hc_retref c) reg;
          reg = opt_unref (hc_onprogressref c) reg;
          reg = opt_unref (hc_onheaderref c) reg;
          reg = opt_unref (hc_onreadref c) reg;
          reg = opt_unref (hc_onwriteref c) reg
      in remove1 (hc_headerref c) reg)"

definition http_getpost_complete :: "client_env \<Rightarrow> nat \<Rightarrow> http_world \<Rightarrow> http_world" where
  "http_getpost_complete e a w =
     (case map_of (hw_store w) a of
        None \<Rightarrow> w\<lparr>hw_bad := True\<rparr>
      | Some c \<Rightarrow>
          if hc_completed c then w
          else
            let w = inflight_remove a (conn_at a (\<lambda>c. c\<lparr>hc_completed := True\<rparr>) w);
                body = response_body (hc_input c);
                w = (if body = None then w\<lparr>hw_undefined := True\<rparr> else w);
                w = w\<lparr>hw_registry := release_request c (hw_registry w)\<rparr>;
                w = conn_at a (\<lambda>c. c\<lparr>hc_bodyref := None, hc_onprogressref := None, hc_onheaderref := None, hc_onreadref := None,
                                     hc_onwriteref := None\<rparr>) w
            in if \<not> he_resume_info e then w\<lparr>hw_registry := opt_unref (hc_coref c) (hw_registry w)\<rparr>
               else conn_at a (\<lambda>c. c\<lparr>hc_coref := None\<rparr>)
                      (w\<lparr>hw_resumes := hw_resumes w @ [(hc_coref c, make_response e c (case body of Some x \<Rightarrow> x | None \<Rightarrow> None))]\<rparr>))"

definition free_conn :: "nat \<Rightarrow> http_world \<Rightarrow> http_world" where
  "free_conn a w = (if map_of (hw_store w) a = None then w\<lparr>hw_bad := True\<rparr> else w\<lparr>hw_store := AList.delete a (hw_store w)\<rparr>)"

text \<open>The messages of libcurl name the requests that are done.\<close>

definition timer_check_multi_info_cb :: "client_env \<Rightarrow> nat list \<Rightarrow> http_world \<Rightarrow> http_world" where
  "timer_check_multi_info_cb e done w = fold (\<lambda>a w. free_conn a (http_getpost_complete e a w)) done w"

definition resume_cb :: "nat \<Rightarrow> http_world \<Rightarrow> http_world" where
  "resume_cb i w =
     (let (r, rsp) = hw_resumes w ! i
      in w\<lparr>hw_resumes := take i (hw_resumes w) @ drop (i + 1) (hw_resumes w), hw_log := hw_log w @ [HcComplete rsp],
           hw_registry := opt_unref r (hw_registry w)\<rparr>)"

section \<open>Tear-down\<close>

definition drain_one :: "nat \<Rightarrow> conn_info \<Rightarrow> http_world \<Rightarrow> http_world" where
  "drain_one a c w =
     (let w = inflight_remove a w;
          w = (if hc_completed c then w
               else conn_at a (\<lambda>c. c\<lparr>hc_completed := True\<rparr>)
                      (w\<lparr>hw_registry := opt_unref (hc_coref c) (remove1 (hc_retref c) (remove1 (hc_headerref c)
                           (opt_unref (hc_onwriteref c) (opt_unref (hc_onreadref c) (opt_unref (hc_onheaderref c)
                             (opt_unref (hc_onprogressref c) (opt_unref (hc_bodyref c) (hw_registry w))))))))\<rparr>))
      in w\<lparr>hw_store := AList.delete a (hw_store w)\<rparr>)"

lemma conn_at_keys: "map fst (hw_store (conn_at a f w)) = map fst (hw_store w)"
  by (auto simp: conn_at_def update_keys map_of_eq_None_iff split: option.split)

lemma inflight_remove_keys: "map fst (hw_store (inflight_remove a w)) = map fst (hw_store w)"
  by (simp add: inflight_remove_def Let_def conn_at_keys split: option.split)

lemma delete_keys_shorter:
  assumes "map_of m a \<noteq> None" and "map fst m' = map fst m"
  shows "length (AList.delete a m') < length m"
proof -
  have "a \<in> set (map fst m')" using assms by (metis map_of_eq_None_iff list.set_map)
  then have "length (filter (\<lambda>k. k \<noteq> a) (map fst m')) < length (map fst m')" by (intro length_filter_less) auto
  moreover have "length (AList.delete a m') = length (filter (\<lambda>k. k \<noteq> a) (map fst m'))"
    by (induction m') auto
  ultimately show ?thesis by (metis assms(2) length_map)
qed

function drain_inflight :: "http_world \<Rightarrow> http_world" where
  "drain_inflight w =
     (case hw_head w of
        None \<Rightarrow> w
      | Some a \<Rightarrow>
          (case map_of (hw_store w) a of
             None \<Rightarrow> w\<lparr>hw_bad := True\<rparr>
           | Some c \<Rightarrow> drain_inflight (drain_one a c w)))"
  by pat_completeness auto
termination
proof (relation "measure (\<lambda>w. length (hw_store w))")
  fix w :: http_world and a c assume "map_of (hw_store w) a = Some c"
  then show "(drain_one a c w, w) \<in> measure (\<lambda>w. length (hw_store w))"
    by (simp add: drain_one_def Let_def delete_keys_shorter conn_at_keys inflight_remove_keys)
qed simp

declare drain_inflight.simps [simp del]

definition cleanup_http_curl :: "http_world \<Rightarrow> http_world" where
  "cleanup_http_curl w = (drain_inflight w)\<lparr>hw_multi := False\<rparr>"

section \<open>The client as a whole\<close>

text \<open>
  What can happen to the client: Lua code starts requests and sets defaults, libcurl calls back for requests that it was given
  and reports each of them as done once, a timer resumes a coroutine, and the event loop ends. Lua functions that are called
  by a callback are represented by what they return.
\<close>

datatype http_event =
    HeStart client_env http_method http_arg
  | HeHeader client_env nat bytes bytes
  | HeData client_env nat nat nat bytes
  | HeProgress nat "int list" pcall_result
  | HeWrite nat bytes pcall_result
  | HeRead nat nat "pcall_value list" pcall_result
  | HeDone client_env nat
  | HeResume nat
  | HeDefaults string string string
  | HeCleanup

definition if_given :: "nat \<Rightarrow> (http_world \<Rightarrow> http_world) \<Rightarrow> http_world \<Rightarrow> http_world" where
  "if_given a f w = (if a \<in> set (map fst (hw_store w)) then f w else w)"

definition http_step :: "http_event \<Rightarrow> http_world \<Rightarrow> http_world" where
  "http_step x w =
     (case x of
        HeStart e m arg \<Rightarrow> snd (http_getpost e m arg w)
      | HeHeader e a line after \<Rightarrow> if_given a (\<lambda>w. snd (fillheader e a line after w)) w
      | HeData e a n k ptr \<Rightarrow> if_given a (\<lambda>w. snd (filldata e a n k ptr w)) w
      | HeProgress a amounts r \<Rightarrow> if_given a (\<lambda>w. snd (onprogress a amounts r w)) w
      | HeWrite a ptr r \<Rightarrow> if_given a (\<lambda>w. snd (onwrite a ptr r w)) w
      | HeRead a n below r \<Rightarrow> if_given a (\<lambda>w. snd (onread a n below r w)) w
      | HeDone e a \<Rightarrow> if_given a (timer_check_multi_info_cb e [a]) w
      | HeResume i \<Rightarrow> if i < length (hw_resumes w) then resume_cb i w else w
      | HeDefaults jar info path \<Rightarrow> http_capath path (http_cainfo info (http_cookiejar jar w))
      | HeCleanup \<Rightarrow> cleanup_http_curl w)"

definition http_init :: http_world where
  "http_init =
     \<lparr>hw_store = [], hw_head = None, hw_registry = [], hw_next = 1, hw_lost = [], hw_resumes = [], hw_log = [], hw_cookiejar = None,
      hw_cainfo = None, hw_capath = None, hw_multi = False, hw_bad = False, hw_undefined = False\<rparr>"

end
