(* ===== verification/Http_Inflight.thy ===== *)
theory Http_Inflight
  imports Http
begin

text \<open>
  The doubly linked list of requests in flight refines a list of addresses: adding puts an address in front, removing takes
  it out wherever it is, and neither touches a structure outside of the list.
\<close>

section \<open>Segments\<close>

text \<open>
  The nodes \<open>xs\<close> are linked from the pointer \<open>s\<close> to the pointer \<open>e\<close>; \<open>p\<close> is the predecessor of the first and \<open>q\<close> the last node, or \<open>p\<close>.
\<close>

type_synonym conn_map = "nat \<Rightarrow> conn_info option"

fun dseg :: "conn_map \<Rightarrow> nat option \<Rightarrow> nat option \<Rightarrow> nat list \<Rightarrow> nat option \<Rightarrow> nat option \<Rightarrow> bool" where
  "dseg m p s [] e q \<longleftrightarrow> s = e \<and> p = q"
| "dseg m p s (x # xs) e q \<longleftrightarrow> s = Some x \<and> (\<exists>c. m x = Some c \<and> hc_prev c = p \<and> dseg m (Some x) (hc_next c) xs e q)"

lemma dseg_append: "dseg m p s (xs @ ys) e q \<longleftrightarrow> (\<exists>t r. dseg m p s xs t r \<and> dseg m r t ys e q)"
  by (induction xs arbitrary: p s) auto

text \<open>Only the two links of the nodes matter.\<close>

definition same_links :: "nat set \<Rightarrow> conn_map \<Rightarrow> conn_map \<Rightarrow> bool" where
  "same_links A m m' \<longleftrightarrow> (\<forall>x \<in> A. map_option (\<lambda>c. (hc_prev c, hc_next c)) (m' x) = map_option (\<lambda>c. (hc_prev c, hc_next c)) (m x))"

lemma dseg_same: "same_links (set xs) m m' \<Longrightarrow> dseg m p s xs e q \<Longrightarrow> dseg m' p s xs e q"
proof (induction xs arbitrary: p s)
  case (Cons x xs)
  then obtain c where c: "m x = Some c" "hc_prev c = p" "dseg m (Some x) (hc_next c) xs e q" "s = Some x" by auto
  with Cons.prems(1) obtain c' where "m' x = Some c'" "hc_prev c' = hc_prev c" "hc_next c' = hc_next c"
    by (auto simp: same_links_def)
  moreover have "same_links (set xs) m m'" using Cons.prems(1) by (simp add: same_links_def)
  ultimately show ?case using Cons.IH c by auto
qed simp

lemma dseg_upd [simp]: "x \<notin> set xs \<Longrightarrow> dseg m p s xs e q \<Longrightarrow> dseg (m(x := v)) p s xs e q"
  by (rule dseg_same) (auto simp: same_links_def)

lemma dseg_alloc: "dseg m p s xs e q \<Longrightarrow> x \<in> set xs \<Longrightarrow> \<exists>c. m x = Some c"
  by (induction xs arbitrary: p s) auto

text \<open>Changing the predecessor of the first node, and the successor of the last.\<close>

lemma dseg_first:
  assumes "dseg m p (Some z) (z # xs) e q" "m z = Some c" "z \<notin> set xs"
  shows "dseg (m(z \<mapsto> c\<lparr>hc_prev := p'\<rparr>)) p' (Some z) (z # xs) e q"
  using assms by auto

lemma dseg_last:
  assumes "dseg m p s (xs @ [y]) e q" "m y = Some c" "y \<notin> set xs"
  shows "dseg (m(y \<mapsto> c\<lparr>hc_next := e'\<rparr>)) p s (xs @ [y]) e' (Some y)"
  using assms by (auto simp: dseg_append)

section \<open>The list\<close>

definition inflight :: "http_world \<Rightarrow> nat list \<Rightarrow> bool" where
  "inflight w xs \<longleftrightarrow> distinct xs \<and> (\<exists>q. dseg (map_of (hw_store w)) None (hw_head w) xs None q)"

lemma conn_at_map:
  "map_of (hw_store (conn_at a f w)) = (case map_of (hw_store w) a of None \<Rightarrow> map_of (hw_store w) | Some c \<Rightarrow> (map_of (hw_store w))(a \<mapsto> f c))"
  by (simp add: conn_at_def update_conv' split: option.split)

lemma conn_at_frame [simp]:
  "hw_head (conn_at a f w) = hw_head w" "hw_registry (conn_at a f w) = hw_registry w" "hw_next (conn_at a f w) = hw_next w"
  "hw_lost (conn_at a f w) = hw_lost w" "hw_resumes (conn_at a f w) = hw_resumes w" "hw_log (conn_at a f w) = hw_log w"
  "map_of (hw_store w) a = Some c \<Longrightarrow> hw_bad (conn_at a f w) = hw_bad w"
  by (simp_all add: conn_at_def split: option.split)

lemma inflight_add_frame [simp]: "hw_registry (inflight_add a w) = hw_registry w" "hw_resumes (inflight_add a w) = hw_resumes w"
    "hw_lost (inflight_add a w) = hw_lost w"
  by (simp_all add: inflight_add_def Let_def split: option.split)

lemma inflight_remove_frame [simp]: "hw_registry (inflight_remove a w) = hw_registry w" "hw_resumes (inflight_remove a w) = hw_resumes w"
    "hw_lost (inflight_remove a w) = hw_lost w"
  by (simp_all add: inflight_remove_def Let_def split: option.split)

text \<open>Adding a structure that is not in the list.\<close>

lemma inflight_add_refines:
  assumes w: "inflight w xs" and a: "map_of (hw_store w) a = Some c" "a \<notin> set xs"
  shows "inflight (inflight_add a w) (a # xs)" and "hw_bad (inflight_add a w) = hw_bad w"
proof -
  obtain q where q: "dseg (map_of (hw_store w)) None (hw_head w) xs None q" and d: "distinct xs" using w by (auto simp: inflight_def)
  define w1 where "w1 = conn_at a (\<lambda>c. c\<lparr>hc_prev := None, hc_next := hw_head w\<rparr>) w"
  let ?c = "c\<lparr>hc_prev := None, hc_next := hw_head w\<rparr>"
  have m1: "map_of (hw_store w1) = (map_of (hw_store w))(a \<mapsto> ?c)" and b1: "hw_bad w1 = hw_bad w" and h1: "hw_head w1 = hw_head w"
    using a(1) by (simp_all add: w1_def conn_at_map)
  have "inflight (inflight_add a w) (a # xs) \<and> hw_bad (inflight_add a w) = hw_bad w"
  proof (cases xs)
    case Nil
    then have "hw_head w = None" using q by simp
    then show ?thesis
      using a(1) Nil by (auto simp: inflight_add_def inflight_def Let_def conn_at_map)
  next
    case (Cons z zs)
    then have h: "hw_head w = Some z" using q by simp
    obtain d where z: "map_of (hw_store w) z = Some d" using q Cons by auto
    have za: "z \<noteq> a" "z \<notin> set zs" using a(2) d Cons by auto
    have z1: "map_of (hw_store w1) z = Some d" using z za by (simp add: m1)
    have q1: "dseg (map_of (hw_store w1)) None (Some z) (z # zs) None q"
      using dseg_upd [OF a(2) q, of "Some ?c"] by (simp only: m1 Cons h)
    have "dseg ((map_of (hw_store w1))(z \<mapsto> d\<lparr>hc_prev := Some a\<rparr>)) (Some a) (Some z) (z # zs) None q"
      by (rule dseg_first [OF q1 z1 za(2)])
    moreover have "((map_of (hw_store w1))(z \<mapsto> d\<lparr>hc_prev := Some a\<rparr>)) a = Some ?c" using za by (simp add: m1)
    moreover have "inflight_add a w = (conn_at z (\<lambda>c. c\<lparr>hc_prev := Some a\<rparr>) w1)\<lparr>hw_head := Some a\<rparr>"
      using h h1 by (simp add: inflight_add_def Let_def w1_def)
    moreover have "map_of (hw_store (conn_at z (\<lambda>c. c\<lparr>hc_prev := Some a\<rparr>) w1)) = (map_of (hw_store w1))(z \<mapsto> d\<lparr>hc_prev := Some a\<rparr>)"
      using z1 by (simp add: conn_at_map)
    ultimately show ?thesis
      using a(2) d h Cons z1 b1 by (auto simp: inflight_def simp del: fun_upd_apply)
  qed
  then show "inflight (inflight_add a w) (a # xs)" "hw_bad (inflight_add a w) = hw_bad w" by blast+
qed

text \<open>Removing: first the link that leads to the node, then the link that leads back to it.\<close>

lemma unlink_forward:
  fixes t :: "nat option" and w :: http_world
  assumes w: "dseg (map_of (hw_store w)) None (hw_head w) as (Some x) r" and d: "distinct (as @ x # bs)"
  defines "w' \<equiv> (case r of Some p \<Rightarrow> conn_at p (\<lambda>d. d\<lparr>hc_next := t\<rparr>) w | None \<Rightarrow> w\<lparr>hw_head := t\<rparr>)"
  shows "dseg (map_of (hw_store w')) None (hw_head w') as t r" and "hw_bad w' = hw_bad w"
    and "y \<notin> set as \<Longrightarrow> map_of (hw_store w') y = map_of (hw_store w) y"
proof -
  have "dseg (map_of (hw_store w')) None (hw_head w') as t r \<and> hw_bad w' = hw_bad w
    \<and> (y \<notin> set as \<longrightarrow> map_of (hw_store w') y = map_of (hw_store w) y)"
  proof (cases as rule: rev_cases)
    case Nil
    with w show ?thesis by (simp add: w'_def)
  next
    case (snoc zs z)
    with w obtain c where c: "map_of (hw_store w) z = Some c" "r = Some z" by (auto simp: dseg_append)
    with dseg_last [OF w [unfolded snoc] c(1)] d snoc show ?thesis by (simp add: w'_def conn_at_map)
  qed
  then show "dseg (map_of (hw_store w')) None (hw_head w') as t r" "hw_bad w' = hw_bad w"
    "y \<notin> set as \<Longrightarrow> map_of (hw_store w') y = map_of (hw_store w) y" by blast+
qed

lemma unlink_back:
  fixes r :: "nat option" and w :: http_world
  assumes w: "dseg (map_of (hw_store w)) (Some x) t bs None q" and d: "distinct bs"
  defines "w' \<equiv> (case t of Some n \<Rightarrow> conn_at n (\<lambda>d. d\<lparr>hc_prev := r\<rparr>) w | None \<Rightarrow> w)"
  shows "\<exists>q. dseg (map_of (hw_store w')) r t bs None q" and "hw_bad w' = hw_bad w" and "hw_head w' = hw_head w"
    and "y \<notin> set bs \<Longrightarrow> map_of (hw_store w') y = map_of (hw_store w) y"
proof -
  have "(\<exists>q. dseg (map_of (hw_store w')) r t bs None q) \<and> hw_bad w' = hw_bad w \<and> hw_head w' = hw_head w
    \<and> (y \<notin> set bs \<longrightarrow> map_of (hw_store w') y = map_of (hw_store w) y)"
  proof (cases bs)
    case Nil
    with w show ?thesis by (auto simp: w'_def)
  next
    case (Cons z zs)
    with w obtain c where c: "map_of (hw_store w) z = Some c" and t: "t = Some z" by auto
    have "dseg ((map_of (hw_store w))(z \<mapsto> c\<lparr>hc_prev := r\<rparr>)) r (Some z) (z # zs) None q"
      by (rule dseg_first) (use w c t d Cons in auto)
    with c t Cons show ?thesis by (auto simp: w'_def conn_at_map simp del: dseg.simps)
  qed
  then show "\<exists>q. dseg (map_of (hw_store w')) r t bs None q" "hw_bad w' = hw_bad w" "hw_head w' = hw_head w"
    "y \<notin> set bs \<Longrightarrow> map_of (hw_store w') y = map_of (hw_store w) y" by blast+
qed

lemma inflight_remove_refines:
  assumes "inflight w xs" and x: "x \<in> set xs"
  shows "inflight (inflight_remove x w) (remove1 x xs)" and "hw_bad (inflight_remove x w) = hw_bad w"
    and "\<exists>c. map_of (hw_store (inflight_remove x w)) x = Some c"
proof -
  obtain as bs where xs: "xs = as @ x # bs" using x by (meson split_list)
  have d: "distinct (as @ x # bs)" using assms(1) xs by (simp add: inflight_def)
  obtain q where "dseg (map_of (hw_store w)) None (hw_head w) (as @ x # bs) None q"
    using assms(1) xs by (auto simp: inflight_def)
  then obtain r c where 1: "dseg (map_of (hw_store w)) None (hw_head w) as (Some x) r"
    and c: "map_of (hw_store w) x = Some c" "hc_prev c = r" and 2: "dseg (map_of (hw_store w)) (Some x) (hc_next c) bs None q"
    by (auto simp: dseg_append)
  define w1 where "w1 = (case r of Some p \<Rightarrow> conn_at p (\<lambda>d. d\<lparr>hc_next := hc_next c\<rparr>) w | None \<Rightarrow> w\<lparr>hw_head := hc_next c\<rparr>)"
  define w2 where "w2 = (case hc_next c of Some n \<Rightarrow> conn_at n (\<lambda>d. d\<lparr>hc_prev := r\<rparr>) w1 | None \<Rightarrow> w1)"
  note u = unlink_forward [OF 1 d, where t = "hc_next c", folded w1_def]
  have "same_links (set bs) (map_of (hw_store w)) (map_of (hw_store w1))"
    using d by (auto simp: same_links_def intro!: arg_cong [OF u(3)])
  from dseg_same [OF this 2] have 3: "dseg (map_of (hw_store w1)) (Some x) (hc_next c) bs None q" .
  have db: "distinct bs" using d by simp
  note v = unlink_back [OF 3 db, where r = r, folded w2_def]
  have 4: "dseg (map_of (hw_store w2)) None (hw_head w2) as (hc_next c) r"
  proof -
    have "same_links (set as) (map_of (hw_store w1)) (map_of (hw_store w2))" using d by (auto simp: same_links_def intro!: arg_cong [OF v(4)])
    from dseg_same [OF this u(1)] show ?thesis by (simp add: v(3))
  qed
  have c2: "map_of (hw_store w2) x = Some c" using u(3) v(4) d c(1) by simp
  have rm: "inflight_remove x w = conn_at x (\<lambda>d. d\<lparr>hc_prev := None, hc_next := None\<rparr>) w2"
    unfolding inflight_remove_def Let_def w1_def w2_def c(2) [symmetric] by (simp add: c(1))
  obtain q' where 5: "dseg (map_of (hw_store w2)) r (hc_next c) bs None q'" using v(1) by blast
  with 4 have "dseg (map_of (hw_store w2)) None (hw_head w2) (as @ bs) None q'" by (auto simp: dseg_append)
  moreover have "x \<notin> set (as @ bs)" using d by simp
  ultimately have "dseg (map_of (hw_store (inflight_remove x w))) None (hw_head (inflight_remove x w)) (as @ bs) None q'"
    by (simp add: rm conn_at_map c2)
  moreover have "remove1 x xs = as @ bs" using xs d by (simp add: remove1_append)
  ultimately show "inflight (inflight_remove x w) (remove1 x xs)" using d by (auto simp: inflight_def)
  show "hw_bad (inflight_remove x w) = hw_bad w" using u(2) v(2) c2 by (simp add: rm)
  show "\<exists>c. map_of (hw_store (inflight_remove x w)) x = Some c" using c2 by (simp add: rm conn_at_map)
qed

text \<open>
  Both operations change nothing but links: every structure keeps its other fields and none is allocated or freed.
\<close>

definition unlinked :: "conn_info \<Rightarrow> conn_info" where
  "unlinked c = c\<lparr>hc_prev := None, hc_next := None\<rparr>"

definition same_conns :: "http_world \<Rightarrow> http_world \<Rightarrow> bool" where
  "same_conns w w' \<longleftrightarrow>
     (\<forall>a. map_option unlinked (map_of (hw_store w') a) = map_option unlinked (map_of (hw_store w) a))
     \<and> map fst (hw_store w') = map fst (hw_store w)"

lemma same_conns_refl [simp]: "same_conns w w"
  by (simp add: same_conns_def)

lemma same_conns_trans: "same_conns w w1 \<Longrightarrow> same_conns w1 w2 \<Longrightarrow> same_conns w w2"
  by (simp add: same_conns_def)

lemma same_conns_at: "(\<And>c. unlinked (f c) = unlinked c) \<Longrightarrow> same_conns w (conn_at a f w)"
  by (simp add: same_conns_def conn_at_map conn_at_keys split: option.split)

lemma same_conns_head [simp]: "same_conns w (w'\<lparr>hw_head := h\<rparr>) = same_conns w w'" "same_conns (w\<lparr>hw_head := h\<rparr>) w' = same_conns w w'"
  by (simp_all add: same_conns_def)

lemma inflight_same_conns: "same_conns w (inflight_add a w)" "same_conns w (inflight_remove a w)"
proof -
  have u: "unlinked (c\<lparr>hc_prev := p, hc_next := n\<rparr>) = unlinked c" "unlinked (c\<lparr>hc_prev := p\<rparr>) = unlinked c" "unlinked (c\<lparr>hc_next := n\<rparr>) = unlinked c"
    for c p n by (simp_all add: unlinked_def)
  have s: "same_conns v (conn_at b (\<lambda>c. c\<lparr>hc_prev := p, hc_next := n\<rparr>) v)" "same_conns v (conn_at b (\<lambda>c. c\<lparr>hc_prev := p\<rparr>) v)"
    "same_conns v (conn_at b (\<lambda>c. c\<lparr>hc_next := n\<rparr>) v)" for v b p n by (rule same_conns_at, simp add: u)+
  show "same_conns w (inflight_add a w)"
    unfolding inflight_add_def Let_def by (auto split: option.split intro: s same_conns_trans)
  have h: "same_conns v (conn_at b (\<lambda>c. c\<lparr>hc_prev := p\<rparr>) (v\<lparr>hw_head := n\<rparr>))" for v b p n using s(2) [of "v\<lparr>hw_head := n\<rparr>"] by simp
  have bad: "same_conns w (w\<lparr>hw_bad := True\<rparr>)" by (simp add: same_conns_def)
  show "same_conns w (inflight_remove a w)"
    unfolding inflight_remove_def Let_def
    by (auto split: option.split intro: s h bad same_conns_trans [OF _ s(1)] same_conns_trans [OF s(3)] same_conns_trans [OF s(3) s(2)])
qed

text \<open>An environment for examples, in which libcurl accepts every request.\<close>

definition sample_he :: client_env where
  "sample_he =
     \<lparr>he_al = \<lparr>can_alloc = (\<lambda>n. n \<le> 64), junk = (\<lambda>_. 0)\<rparr>, he_calloc = True, he_easy_init = True, he_global_verbose = False, he_dns_servers = None, he_proxyType = INT16_MAX,
      he_proxyHost = None, he_proxyPort = 0, he_proxyUsername = None, he_proxyPassword = None, he_share = False, he_add_handle = None,
      he_cookies = None, he_times = (\<lambda>_. None), he_code = 200, he_resume_info = True\<rparr>"

end
