(* ===== verification/Http_Safety.thy ===== *)
theory Http_Safety
  imports Http_Inflight Tcpd_Safety "HOL-Library.Multiset"
begin

text \<open>
  What holds of the HTTP client: every registry slot that is in use belongs to a request in flight, to a coroutine that is
  about to be resumed, or was lost by a request that could not be started; no structure is used after it was freed; and the
  tear-down releases what the requests in flight hold.
\<close>

section \<open>Building a request\<close>

text \<open>The references that a step may set, each at most once per request.\<close>

datatype rtag = RProgress | RBody | RRead | RWrite | RHeader | RCo | RComplete

fun ref_of :: "rtag \<Rightarrow> http_build \<Rightarrow> nat option" where
  "ref_of RProgress b = hc_onprogressref (hb_conn b)"
| "ref_of RBody b = hc_bodyref (hb_conn b)"
| "ref_of RRead b = hc_onreadref (hb_conn b)"
| "ref_of RWrite b = hc_onwriteref (hb_conn b)"
| "ref_of RHeader b = hc_onheaderref (hb_conn b)"
| "ref_of RCo b = hc_coref (hb_conn b)"
| "ref_of RComplete b = hb_oncomplete b"

definition taken :: "http_build \<Rightarrow> nat multiset" where
  "taken b = mset (conn_slots (hb_conn b)) + mset (opt_slot (hb_oncomplete b))"

definition bal :: "nat multiset \<Rightarrow> http_build \<Rightarrow> bool" where
  "bal R b \<longleftrightarrow> mset (hb_registry b) = R + taken b"

definition touches :: "rtag set \<Rightarrow> build_step \<Rightarrow> bool" where
  "touches F f \<longleftrightarrow>
     (\<forall>b R. (\<forall>t \<in> F. ref_of t b = None) \<longrightarrow> bal R b \<longrightarrow>
        bal R (snd (f b)) \<and> (\<forall>t. t \<notin> F \<longrightarrow> ref_of t (snd (f b)) = ref_of t b)
        \<and> hc_completed (hb_conn (snd (f b))) = hc_completed (hb_conn b) \<and> hc_input (hb_conn (snd (f b))) = hc_input (hb_conn b))"

fun disjoint_tags :: "rtag set list \<Rightarrow> bool" where
  "disjoint_tags [] \<longleftrightarrow> True"
| "disjoint_tags (F # Fs) \<longleftrightarrow> F \<inter> \<Union> (set Fs) = {} \<and> disjoint_tags Fs"

lemma run_build_bal:
  assumes "list_all2 touches Fs fs" "disjoint_tags Fs" "\<forall>t \<in> \<Union> (set Fs). ref_of t b = None" "bal R b"
  shows "bal R (snd (run_build fs b)) \<and> hc_completed (hb_conn (snd (run_build fs b))) = hc_completed (hb_conn b)
    \<and> hc_input (hb_conn (snd (run_build fs b))) = hc_input (hb_conn b)"
  using assms
proof (induction Fs fs arbitrary: b rule: list_all2_induct)
  case (Cons F Fs f fs)
  have t: "bal R (snd (f b))" "\<forall>t. t \<notin> F \<longrightarrow> ref_of t (snd (f b)) = ref_of t b"
    "hc_completed (hb_conn (snd (f b))) = hc_completed (hb_conn b)" "hc_input (hb_conn (snd (f b))) = hc_input (hb_conn b)"
    using Cons.hyps(1) Cons.prems by (auto simp: touches_def)
  have "\<forall>t \<in> \<Union> (set Fs). ref_of t (snd (f b)) = None" using t(2) Cons.prems by fastforce
  with Cons.IH [of "snd (f b)"] Cons.prems t show ?case
    by (cases "f b"; cases "fst (f b)") auto
qed simp

lemma opt_slot_simps [simp]: "opt_slot None = []" "opt_slot (Some n) = [n]"
  by (simp_all add: opt_slot_def)

lemmas build_defs = bal_def taken_def conn_slots_def setopt_def upd_hc_def ok_def hb_ref_def Let_def

text \<open>A step that only sets options, or fails, changes nothing else of the structure.\<close>

definition strip :: "conn_info \<Rightarrow> conn_info" where
  "strip c = c\<lparr>hc_opts := [], hc_outputHeaders := None, hc_verbose := False, hc_resolve := None\<rparr>"

definition only_opts :: "http_build \<Rightarrow> http_build \<Rightarrow> bool" where
  "only_opts b b' \<longleftrightarrow> hb_registry b' = hb_registry b \<and> hb_oncomplete b' = hb_oncomplete b \<and> strip (hb_conn b') = strip (hb_conn b)"

lemma only_opts_simps [simp]:
  "only_opts b b" "only_opts b (setopt n v b') = only_opts b b'"
  "only_opts b (upd_hc (\<lambda>c. c\<lparr>hc_outputHeaders := h\<rparr>) b') = only_opts b b'"
  "only_opts b (upd_hc (\<lambda>c. c\<lparr>hc_resolve := r\<rparr>) b') = only_opts b b'"
  "only_opts b (upd_hc (\<lambda>c. c\<lparr>hc_verbose := x\<rparr>) b') = only_opts b b'"
  by (simp_all add: only_opts_def setopt_def upd_hc_def strip_def)

lemma stripD:
  assumes "strip c' = strip c"
  shows "conn_slots c' = conn_slots c" "hc_completed c' = hc_completed c" "hc_input c' = hc_input c"
    "hc_onprogressref c' = hc_onprogressref c" "hc_bodyref c' = hc_bodyref c" "hc_onreadref c' = hc_onreadref c"
    "hc_onwriteref c' = hc_onwriteref c" "hc_onheaderref c' = hc_onheaderref c" "hc_coref c' = hc_coref c"
proof -
  have "g (strip c') = g (strip c)" for g :: "conn_info \<Rightarrow> 'a" by (simp add: assms)
  from this [of conn_slots] show "conn_slots c' = conn_slots c" by (simp add: strip_def conn_slots_def)
  show "hc_completed c' = hc_completed c" "hc_input c' = hc_input c"
    "hc_onprogressref c' = hc_onprogressref c" "hc_bodyref c' = hc_bodyref c" "hc_onreadref c' = hc_onreadref c"
    "hc_onwriteref c' = hc_onwriteref c" "hc_onheaderref c' = hc_onheaderref c" "hc_coref c' = hc_coref c"
    using arg_cong [OF assms, of hc_completed] arg_cong [OF assms, of hc_input] arg_cong [OF assms, of hc_onprogressref]
      arg_cong [OF assms, of hc_bodyref] arg_cong [OF assms, of hc_onreadref] arg_cong [OF assms, of hc_onwriteref]
      arg_cong [OF assms, of hc_onheaderref] arg_cong [OF assms, of hc_coref]
    by (simp_all add: strip_def)
qed

lemma touches_only: "(\<And>b. only_opts b (snd (f b))) \<Longrightarrow> touches {} f"
proof -
  assume o: "\<And>b. only_opts b (snd (f b))"
  have "bal R (snd (f b)) = bal R b \<and> ref_of t (snd (f b)) = ref_of t b \<and> hc_completed (hb_conn (snd (f b))) = hc_completed (hb_conn b)
      \<and> hc_input (hb_conn (snd (f b))) = hc_input (hb_conn b)" for b R t
  proof -
    have "strip (hb_conn (snd (f b))) = strip (hb_conn b)" using o [of b] by (simp add: only_opts_def)
    note d = stripD [OF this]
    show ?thesis using o [of b] by (cases t) (simp_all add: only_opts_def bal_def taken_def d)
  qed
  then show ?thesis by (simp add: touches_def)
qed

lemma only_opts_cases [simp]:
  "only_opts b (case x of Some y \<Rightarrow> setopt n (v y) b' | None \<Rightarrow> b') = only_opts b b'"
  "only_opts b (if p then setopt n z b' else b') = only_opts b b'"
  by (simp_all split: option.split)

lemma touches_plain: "touches {} (set_method m)" "touches {} (set_url t)" "touches {} set_debug" "touches {} (opt_string f n t)"
  "touches {} (add_to_multi e)" "touches {} invalid_parameter"
  by (rule touches_only; simp add: set_method_def set_url_def set_debug_def opt_string_def add_to_multi_def invalid_parameter_def ok_def Let_def
      split: http_method.split option.split)+

lemma touches_verbose: "touches {} (set_verbose e t)"
  by (rule touches_only) (simp add: set_verbose_def ok_def split: hfield.split option.split)

lemma touches_defaults: "touches {} (set_dns_servers e t)" "touches {} (set_ca f n st d t)" "touches {} (set_cookiejar st t)"
  by (rule touches_only; simp add: set_dns_servers_def set_ca_def set_cookiejar_def ok_def Let_def split: hfield.split option.split)+

lemma touches_timeouts: "touches {} (set_timeouts t)"
  by (rule touches_only) (simp add: set_timeouts_def ok_def Let_def split: hfield.split option.split)

lemma touches_verify: "touches {} (set_verify t)"
  by (rule touches_only) (simp add: set_verify_def ok_def Let_def split: hfield.split option.split)

lemma touches_resolve: "touches {} (set_resolve t)"
  by (rule touches_only) (simp add: set_resolve_def ok_def Let_def split: hfield.split)

lemma touches_proxy_globals: "touches {} (set_proxy_globals e)"
  by (rule touches_only) (simp add: set_proxy_globals_def ok_def Let_def)

lemma touches_proxy: "touches {} (set_proxy t)"
proof (rule touches_only)
  fix b
  have "only_opts b (use_proxy p n b') = only_opts b b'" for p n b' by (simp add: use_proxy_def split: option.split)
  then show "only_opts b (snd (set_proxy t b))" by (simp add: set_proxy_def ok_def Let_def)
qed

lemma touches_headers: "touches {} (set_headers e t)"
  by (rule touches_only) (simp add: set_headers_def ok_def split: hfield.split prod.split build_outcome.split)

lemma all_rtag: "(\<forall>t. P t) \<longleftrightarrow> P RProgress \<and> P RBody \<and> P RRead \<and> P RWrite \<and> P RHeader \<and> P RCo \<and> P RComplete"
  by (metis rtag.exhaust)

lemma touches_refs:
  "touches {RProgress} (set_onprogress t)" "touches {RWrite} (set_onreceive t)" "touches {RHeader} (set_onheader t)"
  "touches {RComplete} (set_oncomplete t)" "touches {RCo} set_coroutine"
  unfolding touches_def all_rtag
  by (auto simp: build_defs set_onprogress_def set_onreceive_def set_onheader_def set_oncomplete_def set_coroutine_def
      split: hfield.split)

lemma touches_onsend: "touches {RRead, RBody} (set_onsend m t)"
  unfolding touches_def all_rtag
  by (auto simp: build_defs set_onsend_def set_body_def split: hfield.split option.split)

lemma build_steps_touch:
  "list_all2 touches [{}, {}, {}, {}, {}, {RProgress}, {}, {}, {}, {}, {}, {}, {}, {}, {}, {}, {}, {}, {}, {RRead, RBody}, {RWrite}, {RHeader},
      {RComplete}, {}, {}, {RCo}, {}] (build_steps e m w t)"
  by (simp add: build_steps_def touches_plain touches_verbose touches_defaults touches_timeouts touches_verify touches_resolve
      touches_proxy_globals touches_proxy touches_headers touches_refs touches_onsend)

lemma request_steps_touch: "\<exists>Fs. list_all2 touches Fs (request_steps e m arg w) \<and> disjoint_tags Fs"
proof (cases arg)
  case ArgOther
  then show ?thesis by (intro exI [of _ "[{}, {}]"]) (simp add: request_steps_def touches_plain)
next
  case (ArgString s)
  show ?thesis unfolding request_steps_def ArgString http_arg.case by (rule exI, rule conjI, rule build_steps_touch) simp
next
  case (ArgTable t)
  show ?thesis unfolding request_steps_def ArgTable http_arg.case by (rule exI, rule conjI, rule build_steps_touch) simp
qed

lemma request_bal:
  assumes "bal R b" "\<forall>t. ref_of t b = None"
  shows "bal R (snd (run_build (request_steps e m arg w) b))"
    and "hc_completed (hb_conn (snd (run_build (request_steps e m arg w) b))) = hc_completed (hb_conn b)"
    and "hc_input (hb_conn (snd (run_build (request_steps e m arg w) b))) = hc_input (hb_conn b)"
proof -
  obtain Fs where "list_all2 touches Fs (request_steps e m arg w)" "disjoint_tags Fs" using request_steps_touch by blast
  from run_build_bal [OF this, of b R] assms
  show "bal R (snd (run_build (request_steps e m arg w) b))"
    "hc_completed (hb_conn (snd (run_build (request_steps e m arg w) b))) = hc_completed (hb_conn b)"
    "hc_input (hb_conn (snd (run_build (request_steps e m arg w) b))) = hc_input (hb_conn b)"
    by simp_all
qed

section \<open>Invariant\<close>

definition slots_at :: "http_world \<Rightarrow> nat \<Rightarrow> nat multiset" where
  "slots_at w a = (case map_of (hw_store w) a of Some c \<Rightarrow> mset (conn_slots c) | None \<Rightarrow> {#})"

definition waiting_slots :: "http_world \<Rightarrow> nat multiset" where
  "waiting_slots w = sum_list (map (\<lambda>r. mset (opt_slot (fst r))) (hw_resumes w))"

text \<open>The structures that are allocated are exactly those in the list, none of them is completed, and every slot is accounted for.\<close>

definition http_ok :: "nat list \<Rightarrow> http_world \<Rightarrow> bool" where
  "http_ok xs w \<longleftrightarrow>
     inflight w xs \<and> set (map fst (hw_store w)) = set xs \<and> distinct (map fst (hw_store w))
     \<and> (\<forall>a c. map_of (hw_store w) a = Some c \<longrightarrow> \<not> hc_completed c)
     \<and> mset (hw_registry w) = sum_list (map (slots_at w) xs) + waiting_slots w + mset (hw_lost w)
     \<and> \<not> hw_bad w"

lemma opt_unref_mset: "mset (opt_unref r reg) = mset reg - mset (opt_slot r)"
  by (simp add: opt_unref_def split: option.split)

lemma release_failed_mset:
  assumes "bal R b"
  shows "mset (release_failed b) = R + mset (opt_slot (hc_bodyref (hb_conn b)))"
  using assms
  by (simp add: release_failed_def Let_def opt_unref_mset bal_def taken_def conn_slots_def multiset_eq_iff)

lemma release_request_mset:
  assumes "mset reg = mset (conn_slots c) + R"
  shows "mset (release_request c reg) = mset (opt_slot (hc_coref c)) + R"
  using assms
  by (simp add: release_request_def Let_def opt_unref_mset conn_slots_def multiset_eq_iff)

lemma same_conns_slots: "same_conns w w' \<Longrightarrow> slots_at w' a = slots_at w a"
proof -
  assume s: "same_conns w w'"
  have u: "conn_slots (unlinked c) = conn_slots c" for c by (simp add: unlinked_def conn_slots_def)
  have "map_option unlinked (map_of (hw_store w') a) = map_option unlinked (map_of (hw_store w) a)" using s by (simp add: same_conns_def)
  then have "map_option conn_slots (map_of (hw_store w') a) = map_option conn_slots (map_of (hw_store w) a)"
    using u by (metis (no_types, lifting) comp_apply option.map_comp option.map_cong)
  then show ?thesis by (cases "map_of (hw_store w') a"; cases "map_of (hw_store w) a") (simp_all add: slots_at_def)
qed

lemma same_conns_completed:
  assumes "same_conns w w'" "map_of (hw_store w') a = Some c"
  shows "\<exists>d. map_of (hw_store w) a = Some d \<and> unlinked d = unlinked c"
  using assms by (cases "map_of (hw_store w) a") (auto simp: same_conns_def dest!: spec [of _ a])

lemma unlinkedD: "unlinked d = unlinked c \<Longrightarrow> hc_completed d = hc_completed c"
  by (drule arg_cong [of _ _ hc_completed]) (simp add: unlinked_def)

text \<open>A change of a structure that keeps its links, its slots and the flag.\<close>

lemma http_ok_conn_at:
  assumes w: "http_ok xs w" and f: "\<And>c. hc_prev (f c) = hc_prev c \<and> hc_next (f c) = hc_next c \<and> conn_slots (f c) = conn_slots c
      \<and> hc_completed (f c) = hc_completed c" and a: "map_of (hw_store w) a \<noteq> None"
  shows "http_ok xs (conn_at a f w)"
proof -
  obtain c where c: "map_of (hw_store w) a = Some c" using a by blast
  have "same_links (set xs) (map_of (hw_store w)) (map_of (hw_store (conn_at a f w)))"
    using c f by (simp add: same_links_def conn_at_map)
  moreover obtain q where "dseg (map_of (hw_store w)) None (hw_head w) xs None q" "distinct xs"
    using w by (auto simp: http_ok_def inflight_def)
  ultimately have "inflight (conn_at a f w) xs" using dseg_same unfolding inflight_def conn_at_frame by blast
  moreover have "slots_at (conn_at a f w) = slots_at w" using c f by (auto simp: slots_at_def conn_at_map)
  ultimately show ?thesis
    using w c f by (auto simp: http_ok_def conn_at_keys waiting_slots_def conn_at_map simp del: map_map split: if_splits)
qed

lemma http_ok_frame [simp]:
  "http_ok xs (w\<lparr>hw_log := l\<rparr>) = http_ok xs w" "http_ok xs (w\<lparr>hw_undefined := b\<rparr>) = http_ok xs w" "http_ok xs (w\<lparr>hw_multi := b\<rparr>) = http_ok xs w"
  "http_ok xs (w\<lparr>hw_cookiejar := s\<rparr>) = http_ok xs w" "http_ok xs (w\<lparr>hw_cainfo := s\<rparr>) = http_ok xs w" "http_ok xs (w\<lparr>hw_capath := s\<rparr>) = http_ok xs w"
  "http_ok xs (w\<lparr>hw_next := n\<rparr>) = http_ok xs w"
  by (simp_all add: http_ok_def inflight_def slots_at_def [abs_def] waiting_slots_def)

lemma client_call_ok [simp]: "http_ok xs (client_call r cb w) = http_ok xs w"
  by (simp add: client_call_def split: option.split)

section \<open>Every event keeps it\<close>

lemma fresh_conn_new: "fresh_conn w \<notin> fst ` set (hw_store w)"
proof
  assume "fresh_conn w \<in> fst ` set (hw_store w)"
  then have "fresh_conn w \<le> sum_list (map fst (hw_store w))" using member_le_sum_list [of "fresh_conn w" "map fst (hw_store w)"] by simp
  then show False by (simp add: fresh_conn_def)
qed

lemma sum_list_cong: "(\<And>x. x \<in> set xs \<Longrightarrow> f x = g x) \<Longrightarrow> sum_list (map f xs) = (sum_list (map g xs) :: 'a :: comm_monoid_add)"
  by (simp cong: map_cong)

lemma start_ok:
  assumes w: "http_ok xs w" and b: "bal (mset (hw_registry w)) b" and c: "\<not> hc_completed (hb_conn b)"
  shows "\<exists>ys. http_ok ys (snd (start_request b w))"
proof -
  let ?a = "fresh_conn w"
  define v where "v = w\<lparr>hw_store := AList.update ?a (hb_conn b) (hw_store w), hw_registry := hb_registry b, hw_next := hb_next b, hw_multi := True\<rparr>"
  have new: "?a \<notin> set xs" "?a \<notin> set (map fst (hw_store w))" using w fresh_conn_new [of w] by (auto simp: http_ok_def)
  have m: "map_of (hw_store v) = (map_of (hw_store w))(?a \<mapsto> hb_conn b)" by (simp add: v_def update_conv')
  have k: "map fst (hw_store v) = map fst (hw_store w) @ [?a]" using new(2) by (simp add: v_def update_keys)
  obtain q where q: "dseg (map_of (hw_store w)) None (hw_head w) xs None q" "distinct xs" using w by (auto simp: http_ok_def inflight_def)
  have "inflight v xs" unfolding inflight_def m using dseg_upd [OF new(1) q(1)] q(2) by (auto simp: v_def)
  moreover have "map_of (hw_store v) ?a = Some (hb_conn b)" by (simp add: m)
  ultimately have i: "inflight (inflight_add ?a v) (?a # xs)" "hw_bad (inflight_add ?a v) = hw_bad v"
    by (rule inflight_add_refines [OF _ _ new(1)])+
  note s = inflight_same_conns(1) [of v ?a]
  have sl: "slots_at (inflight_add ?a v) x = (if x = ?a then mset (conn_slots (hb_conn b)) else slots_at w x)" for x
    by (simp add: same_conns_slots [OF s]) (simp add: slots_at_def m)
  have "sum_list (map (slots_at (inflight_add ?a v)) xs) = sum_list (map (slots_at w) xs)"
    by (rule sum_list_cong) (use new(1) in \<open>auto simp: sl\<close>)
  then have reg: "mset (hb_registry b) = sum_list (map (slots_at (inflight_add ?a v)) (?a # xs)) + waiting_slots w + mset (hw_lost w)
      + mset (opt_slot (hb_oncomplete b))"
    using b w by (simp add: sl bal_def taken_def http_ok_def)
  have comp: "\<not> hc_completed d" if d: "map_of (hw_store (inflight_add ?a v)) x = Some d" for x d
  proof -
    obtain d' where "map_of (hw_store v) x = Some d'" "unlinked d' = unlinked d" using same_conns_completed [OF s d] by blast
    moreover have "\<not> hc_completed d'" using w c calculation(1) by (auto simp: m http_ok_def split: if_splits)
    ultimately show ?thesis using unlinkedD by blast
  qed
  have keys: "map fst (hw_store (inflight_add ?a v)) = map fst (hw_store w) @ [?a]" using s k by (simp add: same_conns_def)
  have ok: "http_ok (?a # xs) ((inflight_add ?a v)\<lparr>hw_registry := reg'\<rparr>)"
    if "mset reg' + mset (opt_slot (hb_oncomplete b)) = mset (hb_registry b)" for reg'
  proof -
    have "mset reg' = sum_list (map (slots_at (inflight_add ?a v)) (?a # xs)) + waiting_slots w + mset (hw_lost w)"
      using that reg by (metis add_right_cancel)
    moreover have "\<not> hw_bad v" "hw_resumes v = hw_resumes w" "hw_lost v = hw_lost w" using w by (simp_all add: v_def http_ok_def)
    moreover have "set (map fst (hw_store w)) = set xs" "distinct (map fst (hw_store w))" using w by (simp_all add: http_ok_def)
    ultimately show ?thesis
      using i comp keys new by (auto simp: http_ok_def inflight_def slots_at_def [abs_def] waiting_slots_def simp del: map_map)
  qed
  have st: "snd (start_request b w) = (inflight_add ?a v)\<lparr>hw_registry := opt_unref (hb_oncomplete b) (hb_registry b)\<rparr>"
    by (simp add: start_request_def Let_def v_def opt_unref_def split: option.split)
  have "mset (opt_unref (hb_oncomplete b) (hb_registry b)) + mset (opt_slot (hb_oncomplete b)) = mset (hb_registry b)"
    using b by (simp add: opt_unref_mset bal_def taken_def)
  with ok show ?thesis unfolding st by blast
qed

lemma getpost_ok:
  assumes "http_ok xs w"
  shows "\<exists>ys. http_ok ys (snd (http_getpost e m arg w))"
proof -
  let ?b = "\<lparr>hb_conn = new_conn (he_al e) (hw_next w) (hw_next w + 1), hb_registry = hw_registry w @ [hw_next w, hw_next w + 1],
    hb_next = hw_next w + 2, hb_oncomplete = None\<rparr>"
  have "bal (mset (hw_registry w)) ?b" by (simp add: bal_def taken_def conn_slots_def new_conn_def)
  moreover have "\<forall>t. ref_of t ?b = None" unfolding all_rtag by (simp add: new_conn_def)
  moreover obtain r b where rb: "run_build (request_steps e m arg w) ?b = (r, b)" by fastforce
  ultimately have b: "bal (mset (hw_registry w)) b" "\<not> hc_completed (hb_conn b)"
    using request_bal [of "mset (hw_registry w)" ?b e m arg w] by (simp_all add: rb new_conn_def)
  have fin: "http_ok xs (w\<lparr>hw_registry := reg, hw_next := n, hw_lost := hw_lost w @ l\<rparr>)" if "mset reg = mset (hw_registry w) + mset l" for reg n l
    using assms that by (simp add: http_ok_def inflight_def slots_at_def [abs_def] waiting_slots_def)
  show ?thesis
  proof (cases r)
    case BOk
    then show ?thesis using assms start_ok [OF assms b] unfolding http_getpost_def Let_def rb by auto
  next
    case (BError msg)
    then show ?thesis
      using assms fin [OF release_failed_mset [OF b(1)]] unfolding http_getpost_def Let_def rb by auto
  next
    case (BRaise msg)
    have "mset (hb_registry b) = mset (hw_registry w) + mset (conn_slots (hb_conn b) @ opt_slot (hb_oncomplete b))"
      using b(1) by (simp add: bal_def taken_def)
    from fin [OF this, of "hb_next b"] show ?thesis using assms BRaise unfolding http_getpost_def Let_def rb by auto
  next
    case BUndefined
    then show ?thesis using assms unfolding http_getpost_def Let_def rb by auto
  qed
qed

text \<open>A structure that has left the list and is about to be freed; \<open>S\<close> are the slots that it still owes.\<close>

definition http_but :: "nat multiset \<Rightarrow> nat \<Rightarrow> nat list \<Rightarrow> http_world \<Rightarrow> bool" where
  "http_but S a ys w \<longleftrightarrow>
     inflight w ys \<and> a \<notin> set ys \<and> set (map fst (hw_store w)) = insert a (set ys) \<and> distinct (map fst (hw_store w))
     \<and> (\<forall>x c. x \<noteq> a \<longrightarrow> map_of (hw_store w) x = Some c \<longrightarrow> \<not> hc_completed c)
     \<and> mset (hw_registry w) = S + sum_list (map (slots_at w) ys) + waiting_slots w + mset (hw_lost w)
     \<and> \<not> hw_bad w"

lemma http_but_alloc: "http_but S a ys w \<Longrightarrow> \<exists>c. map_of (hw_store w) a = Some c"
  using map_of_eq_None_iff [of "hw_store w" a] by (auto simp: http_but_def)

lemma http_but_free:
  assumes w: "http_but {#} a ys w"
  shows "http_ok ys (w\<lparr>hw_store := AList.delete a (hw_store w)\<rparr>)"
proof -
  have m: "map_of (AList.delete a (hw_store w)) = (map_of (hw_store w))(a := None)" by (rule delete_conv')
  obtain q where q: "dseg (map_of (hw_store w)) None (hw_head w) ys None q" "distinct ys" "a \<notin> set ys"
    using w by (auto simp: http_but_def inflight_def)
  have "sum_list (map (slots_at (w\<lparr>hw_store := AList.delete a (hw_store w)\<rparr>)) ys) = sum_list (map (slots_at w) ys)"
    by (rule sum_list_cong) (use q(3) in \<open>auto simp: slots_at_def m\<close>)
  moreover have "inflight (w\<lparr>hw_store := AList.delete a (hw_store w)\<rparr>) ys"
    unfolding inflight_def using dseg_upd [OF q(3) q(1), of None] q(2) by (auto simp: m)
  moreover have "set (map fst (AList.delete a (hw_store w))) = set ys"
    using w q(3) by (auto simp: http_but_def delete_keys)
  moreover have "distinct (map fst (AList.delete a (hw_store w)))" using w distinct_delete by (auto simp: http_but_def)
  ultimately show ?thesis using w m by (auto simp: http_ok_def http_but_def waiting_slots_def split: if_splits)
qed

lemma http_but_conn_at:
  assumes w: "http_but S a ys w"
  shows "http_but S a ys (conn_at a f w)"
proof -
  obtain c where c: "map_of (hw_store w) a = Some c" using http_but_alloc [OF w] by blast
  have m: "map_of (hw_store (conn_at a f w)) = (map_of (hw_store w))(a \<mapsto> f c)" by (simp add: conn_at_map c)
  obtain q where q: "dseg (map_of (hw_store w)) None (hw_head w) ys None q" "distinct ys" "a \<notin> set ys"
    using w by (auto simp: http_but_def inflight_def)
  have "sum_list (map (slots_at (conn_at a f w)) ys) = sum_list (map (slots_at w) ys)"
    by (rule sum_list_cong) (use q(3) in \<open>auto simp: slots_at_def m\<close>)
  moreover have "inflight (conn_at a f w) ys" unfolding inflight_def using dseg_upd [OF q(3) q(1)] q(2) by (auto simp: m)
  ultimately show ?thesis using w c by (auto simp: http_but_def conn_at_keys waiting_slots_def m simp del: map_map)
qed

lemma remove_but:
  assumes w: "http_ok xs w" and a: "a \<in> set xs" and v: "v = w \<or> (\<exists>b. v = conn_at a (\<lambda>c. c\<lparr>hc_completed := b\<rparr>) w)"
  shows "http_but (slots_at w a) a (remove1 a xs) (inflight_remove a v)"
proof -
  obtain q where q: "dseg (map_of (hw_store w)) None (hw_head w) xs None q" "distinct xs" using w by (auto simp: http_ok_def inflight_def)
  obtain c where c: "map_of (hw_store w) a = Some c" using dseg_alloc [OF q(1) a] by blast
  have f: "hw_registry v = hw_registry w" "hw_resumes v = hw_resumes w" "hw_lost v = hw_lost w" "hw_bad v = hw_bad w" "hw_head v = hw_head w"
      "map fst (hw_store v) = map fst (hw_store w)"
    using v c by (auto simp: conn_at_keys)
  have oth: "map_of (hw_store v) x = map_of (hw_store w) x" if "x \<noteq> a" for x using v c that by (auto simp: conn_at_map)
  have "same_links (set xs) (map_of (hw_store w)) (map_of (hw_store v))" using v c by (auto simp: same_links_def conn_at_map)
  then have i: "inflight v xs" unfolding inflight_def f using dseg_same q by blast
  note r = inflight_remove_refines [OF i a]
  note s = inflight_same_conns(2) [of v a]
  have d: "distinct xs" using i by (simp add: inflight_def)
  have sl: "slots_at (inflight_remove a v) x = slots_at w x" if "x \<noteq> a" for x
    using same_conns_slots [OF s, of x] oth [OF that] by (simp add: slots_at_def)
  have comp: "\<not> hc_completed d" if x: "x \<noteq> a" and d: "map_of (hw_store (inflight_remove a v)) x = Some d" for x d
  proof -
    obtain d' where "map_of (hw_store v) x = Some d'" "unlinked d' = unlinked d" using same_conns_completed [OF s d] by blast
    moreover have "\<not> hc_completed d'" using w calculation(1) oth [OF x] by (auto simp: http_ok_def)
    ultimately show ?thesis using unlinkedD by blast
  qed
  have "sum_list (map (slots_at w) xs) = slots_at w a + sum_list (map (slots_at w) (remove1 a xs))" by (rule sum_list_map_remove1 [OF a])
  moreover have "sum_list (map (slots_at (inflight_remove a v)) (remove1 a xs)) = sum_list (map (slots_at w) (remove1 a xs))"
    by (rule sum_list_cong) (use d sl in auto)
  moreover have "map fst (hw_store (inflight_remove a v)) = map fst (hw_store w)" using s f(6) by (simp add: same_conns_def)
  ultimately show ?thesis
    using w r comp d a f by (auto simp: http_but_def http_ok_def waiting_slots_def simp del: map_map)
qed

lemma http_but_reg:
  assumes "http_but S a ys w" and "\<And>R. mset (hw_registry w) = S + R \<Longrightarrow> mset reg = T + R"
  shows "http_but T a ys (w\<lparr>hw_registry := reg\<rparr>)"
proof -
  have "mset (hw_registry w) = S + (sum_list (map (slots_at w) ys) + waiting_slots w + mset (hw_lost w))" using assms(1) by (simp add: http_but_def)
  from assms(2) [OF this] assms(1) show ?thesis
    by (simp add: http_but_def inflight_def slots_at_def [abs_def] waiting_slots_def)
qed

lemma http_but_wait:
  "http_but (mset (opt_slot r)) a ys w \<Longrightarrow> http_but {#} a ys (w\<lparr>hw_resumes := hw_resumes w @ [(r, rsp)]\<rparr>)"
  by (simp add: http_but_def inflight_def slots_at_def [abs_def] waiting_slots_def)

lemma http_but_frame [simp]: "http_but S a ys (w\<lparr>hw_undefined := b\<rparr>) = http_but S a ys w"
  by (simp add: http_but_def inflight_def slots_at_def [abs_def] waiting_slots_def)

lemma finish_ok:
  assumes w: "http_ok xs w" and a: "a \<in> set xs"
  shows "http_ok (remove1 a xs) (free_conn a (http_getpost_complete e a w))"
proof -
  let ?ys = "remove1 a xs"
  obtain q where "dseg (map_of (hw_store w)) None (hw_head w) xs None q" using w by (auto simp: http_ok_def inflight_def)
  from dseg_alloc [OF this a] obtain c where c: "map_of (hw_store w) a = Some c" by blast
  have nc: "\<not> hc_completed c" using w c by (auto simp: http_ok_def)
  define v where "v = inflight_remove a (conn_at a (\<lambda>c. c\<lparr>hc_completed := True\<rparr>) w)"
  have "http_but (slots_at w a) a ?ys v" unfolding v_def by (rule remove_but [OF w a]) blast
  then have v: "http_but (mset (conn_slots c)) a ?ys v" by (simp add: slots_at_def c)
  define u where "u = (if response_body (hc_input c) = None then v\<lparr>hw_undefined := True\<rparr> else v)"
  have u: "http_but (mset (conn_slots c)) a ?ys u" using v by (simp add: u_def)
  let ?t = "conn_at a (\<lambda>c. c\<lparr>hc_bodyref := None, hc_onprogressref := None, hc_onheaderref := None, hc_onreadref := None,
    hc_onwriteref := None\<rparr>) (u\<lparr>hw_registry := release_request c (hw_registry u)\<rparr>)"
  have t: "http_but (mset (opt_slot (hc_coref c))) a ?ys ?t"
    by (rule http_but_conn_at, rule http_but_reg [OF u]) (simp add: release_request_mset)
  have "http_but {#} a ?ys (http_getpost_complete e a w)"
  proof (cases "he_resume_info e")
    case True
    then have "http_getpost_complete e a w = conn_at a (\<lambda>c. c\<lparr>hc_coref := None\<rparr>)
        (?t\<lparr>hw_resumes := hw_resumes ?t @ [(hc_coref c, make_response e c (case response_body (hc_input c) of Some x \<Rightarrow> x | None \<Rightarrow> None))]\<rparr>)"
      using c nc by (simp add: http_getpost_complete_def Let_def u_def v_def)
    then show ?thesis using http_but_conn_at [OF http_but_wait [OF t]] by simp
  next
    case False
    then have "http_getpost_complete e a w = ?t\<lparr>hw_registry := opt_unref (hc_coref c) (hw_registry ?t)\<rparr>"
      using c nc by (simp add: http_getpost_complete_def Let_def u_def v_def)
    moreover have "http_but {#} a ?ys (?t\<lparr>hw_registry := opt_unref (hc_coref c) (hw_registry ?t)\<rparr>)"
      by (rule http_but_reg [OF t]) (simp add: opt_unref_mset)
    ultimately show ?thesis by simp
  qed
  with http_but_alloc [OF this] http_but_free [OF this] show ?thesis by (auto simp: free_conn_def)
qed

lemma drain_one_ok:
  assumes w: "http_ok xs w" and a: "a \<in> set xs" and c: "map_of (hw_store w) a = Some c"
  shows "http_ok (remove1 a xs) (drain_one a c w)"
proof -
  have nc: "\<not> hc_completed c" using w c by (auto simp: http_ok_def)
  let ?v = "inflight_remove a w"
  have "http_but (slots_at w a) a (remove1 a xs) ?v" by (rule remove_but [OF w a]) simp
  then have v: "http_but (mset (conn_slots c)) a (remove1 a xs) ?v" by (simp add: slots_at_def c)
  have "http_but {#} a (remove1 a xs) (?v\<lparr>hw_registry := opt_unref (hc_coref c) (remove1 (hc_retref c) (remove1 (hc_headerref c)
        (opt_unref (hc_onwriteref c) (opt_unref (hc_onreadref c) (opt_unref (hc_onheaderref c)
          (opt_unref (hc_onprogressref c) (opt_unref (hc_bodyref c) (hw_registry ?v))))))))\<rparr>)"
    by (rule http_but_reg [OF v]) (simp add: opt_unref_mset conn_slots_def multiset_eq_iff)
  from http_but_free [OF http_but_conn_at [OF this]] nc show ?thesis by (simp add: drain_one_def Let_def)
qed

lemma drain_ok: "http_ok xs w \<Longrightarrow> http_ok [] (drain_inflight w)"
proof (induction w arbitrary: xs rule: drain_inflight.induct)
  case (1 w)
  obtain q where q: "dseg (map_of (hw_store w)) None (hw_head w) xs None q" using 1(2) by (auto simp: http_ok_def inflight_def)
  show ?case
  proof (cases xs)
    case Nil
    with q have "hw_head w = None" by simp
    with 1(2) Nil show ?thesis by (simp add: drain_inflight.simps)
  next
    case (Cons a ys)
    with q obtain c where h: "hw_head w = Some a" and c: "map_of (hw_store w) a = Some c" by auto
    have "http_ok (remove1 a xs) (drain_one a c w)" by (rule drain_one_ok [OF 1(2) _ c]) (simp add: Cons)
    from 1(1) [OF h c this] show ?thesis using h c by (subst drain_inflight.simps) simp
  qed
qed

lemma resume_ok:
  assumes w: "http_ok xs w" and i: "i < length (hw_resumes w)"
  shows "http_ok xs (resume_cb i w)"
proof -
  obtain r rsp where r: "hw_resumes w ! i = (r, rsp)" by fastforce
  let ?f = "\<lambda>r :: nat option \<times> http_response. mset (opt_slot (fst r))"
  have "hw_resumes w = take i (hw_resumes w) @ (r, rsp) # drop (Suc i) (hw_resumes w)" using id_take_nth_drop [OF i] r by simp
  then have "waiting_slots w = sum_list (map ?f (take i (hw_resumes w) @ (r, rsp) # drop (Suc i) (hw_resumes w)))"
    unfolding waiting_slots_def by (rule arg_cong)
  then have "waiting_slots w = mset (opt_slot r) + sum_list (map ?f (take i (hw_resumes w) @ drop (i + 1) (hw_resumes w)))" by simp
  then show ?thesis
    using w r by (simp add: http_ok_def resume_cb_def inflight_def slots_at_def [abs_def] waiting_slots_def opt_unref_mset)
qed

lemma if_given_ok:
  "http_ok xs w \<Longrightarrow> (\<And>c. map_of (hw_store w) a = Some c \<Longrightarrow> http_ok xs (f w)) \<Longrightarrow> http_ok xs (if_given a f w)"
  by (cases "map_of (hw_store w) a") (auto simp: if_given_def map_of_eq_None_iff)

lemma step_ok:
  assumes w: "http_ok xs w"
  shows "\<exists>ys. http_ok ys (http_step x w)"
proof -
  have mem: "a \<in> set xs" if "a \<in> set (map fst (hw_store w))" for a
    using w that by (auto simp: http_ok_def)
  have field: "http_ok xs (conn_at a (\<lambda>c. c\<lparr>hc_response := s\<rparr>) w)" "http_ok xs (conn_at a (\<lambda>c. c\<lparr>hc_input := ba\<rparr>) w)"
    if "map_of (hw_store w) a = Some c" for a c s ba
    by (rule http_ok_conn_at [OF w]; use that in \<open>simp add: conn_slots_def\<close>)+
  show ?thesis
  proof (cases x)
    case (HeStart e m arg)
    then show ?thesis using getpost_ok [OF w] by (simp add: http_step_def)
  next
    case (HeHeader e a line after)
    then show ?thesis
      using field(1) w by (intro exI [of _ xs]) (auto simp: http_step_def fillheader_def Let_def intro!: if_given_ok [OF w])
  next
    case (HeData e a n k ptr)
    then show ?thesis
      using field(2) w by (intro exI [of _ xs]) (auto simp: http_step_def filldata_def intro!: if_given_ok [OF w] split: option.split)
  next
    case (HeProgress a amounts r)
    then show ?thesis
      using w by (intro exI [of _ xs]) (auto simp: http_step_def onprogress_def intro!: if_given_ok [OF w])
  next
    case (HeWrite a ptr r)
    then show ?thesis
      using w by (intro exI [of _ xs]) (auto simp: http_step_def onwrite_def intro!: if_given_ok [OF w])
  next
    case (HeRead a n below r)
    then show ?thesis
      using w by (intro exI [of _ xs]) (auto simp: http_step_def onread_def intro!: if_given_ok [OF w])
  next
    case (HeDone e a)
    then show ?thesis
      using w finish_ok [OF w mem] by (auto simp: http_step_def if_given_def timer_check_multi_info_cb_def)
  next
    case (HeResume i)
    then show ?thesis using w resume_ok [OF w] by (auto simp: http_step_def)
  next
    case (HeDefaults jar info path)
    then show ?thesis using w by (auto simp: http_step_def http_capath_def http_cainfo_def http_cookiejar_def)
  next
    case HeCleanup
    then show ?thesis using drain_ok [OF w] by (auto simp: http_step_def cleanup_http_curl_def)
  qed
qed

inductive http_reaches :: "http_world \<Rightarrow> bool" where
  http_starts: "http_reaches http_init"
| http_goes: "http_reaches w \<Longrightarrow> http_reaches (http_step x w)"

lemma init_ok: "http_ok [] http_init"
  by (simp add: http_ok_def http_init_def inflight_def waiting_slots_def)

lemma http_reaches_ok: "http_reaches w \<Longrightarrow> \<exists>xs. http_ok xs w"
  by (induction rule: http_reaches.induct) (auto intro: init_ok step_ok)

section \<open>Properties\<close>

text \<open>
  (C11) The HTTP client, in every state that any sequence of requests, callbacks of libcurl, completions, resumed coroutines and
  tear-downs leads to: no request structure is used after it was freed; the doubly linked list from \<open>inflight_head\<close> has exactly
  the allocated structures, each once and none of them completed; and every registry slot in use belongs to one of them, to a
  coroutine that is about to be resumed, or was lost by a request that failed to start. After \<open>cleanup_http_curl\<close> no structure is
  left and the slots of the requests that were in flight are released.
\<close>

theorem http_requests_balanced:
  assumes "http_reaches w"
  shows "\<not> hw_bad w
    \<and> (\<exists>xs. inflight w xs \<and> set xs = set (map fst (hw_store w))
         \<and> (\<forall>a c. map_of (hw_store w) a = Some c \<longrightarrow> \<not> hc_completed c)
         \<and> mset (hw_registry w) = sum_list (map (slots_at w) xs) + waiting_slots w + mset (hw_lost w))
    \<and> hw_store (cleanup_http_curl w) = [] \<and> hw_head (cleanup_http_curl w) = None
    \<and> mset (hw_registry (cleanup_http_curl w)) = waiting_slots (cleanup_http_curl w) + mset (hw_lost (cleanup_http_curl w))"
proof -
  obtain xs where w: "http_ok xs w" using http_reaches_ok [OF assms] by blast
  have "http_ok [] (cleanup_http_curl w)" using drain_ok [OF w] by (simp add: cleanup_http_curl_def)
  with w show ?thesis by (auto simp: http_ok_def inflight_def)
qed

lemmas request_defs = request_steps_def build_steps_def set_method_def set_verbose_def set_url_def set_debug_def set_dns_servers_def
  set_onprogress_def set_timeouts_def set_verify_def opt_string_def set_ca_def set_headers_def set_proxy_globals_def set_proxy_def use_proxy_def
  set_onsend_def set_body_def set_onreceive_def set_onheader_def set_oncomplete_def set_resolve_def set_cookiejar_def set_coroutine_def
  add_to_multi_def as_string_def as_number_def ok_def setopt_def upd_hc_def hb_ref_def Let_def

text \<open>A request with a URL only, and one whose table has a body and an unusable cookie jar.\<close>

lemma plain_request:
  "\<exists>os. run_build (request_steps sample_he HTTP_GET (ArgString u) w)
      \<lparr>hb_conn = new_conn (he_al sample_he) h r, hb_registry = reg, hb_next = n, hb_oncomplete = None\<rparr>
    = (BOk, \<lparr>hb_conn = (new_conn (he_al sample_he) h r)\<lparr>hc_opts := os, hc_coref := Some n\<rparr>, hb_registry = reg @ [n], hb_next = n + 1,
            hb_oncomplete = None\<rparr>)"
  by (simp add: request_defs sample_he_def new_conn_def)

theorem http_requests_balanced_witness:
  "let w = http_step (HeStart sample_he HTTP_GET (ArgString ''a'')) http_init
   in http_reaches w \<and> \<not> hw_bad w \<and> map fst (hw_store w) = [1] \<and> hw_head w = Some 1 \<and> hw_registry w = [1, 2, 3]
      \<and> hw_store (cleanup_http_curl w) = []"
proof -
  let ?w = "http_step (HeStart sample_he HTTP_GET (ArgString ''a'')) http_init"
  have r: "http_reaches ?w" by (intro http_goes http_starts)
  obtain os where "run_build (request_steps sample_he HTTP_GET (ArgString ''a'') http_init)
      \<lparr>hb_conn = new_conn (he_al sample_he) 1 2, hb_registry = [1, 2], hb_next = 3, hb_oncomplete = None\<rparr>
    = (BOk, \<lparr>hb_conn = (new_conn (he_al sample_he) 1 2)\<lparr>hc_opts := os, hc_coref := Some 3\<rparr>, hb_registry = [1, 2, 3], hb_next = 4,
            hb_oncomplete = None\<rparr>)"
    using plain_request [of "''a''" http_init 1 2 "[1, 2]" 3] by auto
  then have "map fst (hw_store ?w) = [1] \<and> hw_head ?w = Some 1 \<and> hw_registry ?w = [1, 2, 3]"
    by (simp add: http_step_def http_getpost_def Let_def http_init_def sample_he_def start_request_def fresh_conn_def inflight_add_def conn_at_def
        eval_nat_numeral)
  with http_requests_balanced [OF r] r show ?thesis by (simp add: Let_def)
qed

definition bad_jar :: "string \<Rightarrow> string \<Rightarrow> http_table" where
  "bad_jar url body k =
     (if k = ''url'' then HfString url None else if k = ''body'' then HfString body None else if k = ''cookiejar'' then HfOther else HfNil)"

text \<open>
  A request that fails after its body was registered: every call with a string body and a cookie jar of a wrong type raises
  an error and leaves the registry one slot larger, so that the body is never collected.
\<close>

lemma http_failed_request_leaks_body:
  "fst (http_post sample_he (ArgTable (bad_jar url body)) w) = HrRaises ''invalid cookiejar type in table parameter''
   \<and> mset (hw_registry (snd (http_post sample_he (ArgTable (bad_jar url body)) w))) = mset (hw_registry w) + {#hw_next w + 2#}
   \<and> hw_store (snd (http_post sample_he (ArgTable (bad_jar url body)) w)) = hw_store w"
proof -
  define b0 where "b0 = \<lparr>hb_conn = new_conn (he_al sample_he) (hw_next w) (hw_next w + 1),
    hb_registry = hw_registry w @ [hw_next w, hw_next w + 1], hb_next = hw_next w + 2, hb_oncomplete = None\<rparr>"
  obtain r b where rb: "run_build (request_steps sample_he HTTP_POST (ArgTable (bad_jar url body)) w) b0 = (r, b)" by fastforce
  have "bal (mset (hw_registry w)) b0" by (simp add: b0_def bal_def taken_def conn_slots_def new_conn_def)
  moreover have "\<forall>t. ref_of t b0 = None" unfolding all_rtag by (simp add: b0_def new_conn_def)
  ultimately have bal: "bal (mset (hw_registry w)) b"
    using request_bal(1) [of "mset (hw_registry w)" b0 sample_he HTTP_POST "ArgTable (bad_jar url body)" w] by (simp add: rb)
  have "r = BError ''invalid cookiejar type in table parameter''" "hc_bodyref (hb_conn b) = Some (hw_next w + 2)"
    using rb by (auto simp: b0_def request_defs sample_he_def new_conn_def bad_jar_def)
  with release_failed_mset [OF bal] rb show ?thesis
    unfolding http_post_def http_getpost_def Let_def b0_def [symmetric] by (simp add: sample_he_def)
qed

end
