(* ===== verification/Http_Body.thy ===== *)
theory Http_Body
  imports Http_Inflight Stream
begin

text \<open>
  The body of a response: libcurl hands it over in pieces, \<open>filldata\<close> appends each to the buffer of the request, and
  \<open>http_getpost_complete\<close> gives the whole buffer to the coroutine. Also what \<open>onread\<close> hands to libcurl.
\<close>

section \<open>Pieces\<close>

text \<open>A piece is a number of elements, their size and the memory that libcurl points to.\<close>

type_synonym piece = "nat \<times> nat \<times> bytes"

definition put_piece :: "allocator \<Rightarrow> BYTEARRAY \<Rightarrow> piece \<Rightarrow> BYTEARRAY option" where
  "put_piece al ba p = (case p of (n, k, ptr) \<Rightarrow> fill_chunks al k n ptr ba)"

definition piece_bytes :: "piece \<Rightarrow> bytes" where
  "piece_bytes p = (case p of (n, k, ptr) \<Rightarrow> take (n * k) ptr)"

lemma fill_chunks_appends:
  "roomy al \<Longrightarrow> growable ba \<Longrightarrow> ba_offset ba + length (take (n * k) ptr) \<le> 2 ^ 62 \<Longrightarrow>
     \<exists>ba'. fill_chunks al k n ptr ba = Some ba' \<and> appended ba (take (n * k) ptr) ba'"
proof (induction n arbitrary: ba ptr)
  case 0
  then show ?case by (simp add: appended_refl growable_def)
next
  case (Suc n)
  have split: "take (Suc n * k) ptr = take k ptr @ take (n * k) (drop k ptr)" by (simp add: take_add)
  with Suc.prems have small: "ba_offset ba + (length (take k ptr) + length (take (n * k) (drop k ptr))) \<le> 2 ^ 62" by simp
  then obtain ba1 where b1: "bytearray_writebuffer al ba (take k ptr) = Some (True, ba1)" "appended ba (take k ptr) ba1"
    using write_value_roomy [of al ba "take k ptr"] Suc.prems(1,2)
    by (auto simp: bytearray_writebuffer_def bytearray_writebuffer_optimized_def)
  then obtain ba2 where "fill_chunks al k n (drop k ptr) ba1 = Some ba2" "appended ba1 (take (n * k) (drop k ptr)) ba2"
    using Suc.IH [of ba1 "drop k ptr"] Suc.prems(1,2) appended_room [OF b1(2) small] appended_growable by blast
  with b1 split show ?case by (auto dest: appended_trans)
qed

interpretation response_sink: byte_sink put_piece piece_bytes
  by unfold_locales (auto simp: put_piece_def piece_bytes_def dest: fill_chunks_appends)

text \<open>The events that deliver pieces to a request, and the buffer they leave.\<close>

definition deliver :: "client_env \<Rightarrow> nat \<Rightarrow> piece list \<Rightarrow> http_world \<Rightarrow> http_world" where
  "deliver e a ps = fold (\<lambda>(n, k, ptr). http_step (HeData e a n k ptr)) ps"

lemma deliver_input:
  assumes "map_of (hw_store w) a = Some c" and "\<not> hc_completed c" and "put_seq put_piece (he_al e) ps (hc_input c) = Some ba"
  shows "map_of (hw_store (deliver e a ps w)) a = Some (c\<lparr>hc_input := ba\<rparr>) \<and> hw_resumes (deliver e a ps w) = hw_resumes w"
  using assms
proof (induction ps arbitrary: w c)
  case Nil
  then show ?case by (simp add: deliver_def)
next
  case (Cons p ps)
  obtain n k ptr where p: "p = (n, k, ptr)" by (cases p)
  with Cons.prems obtain ba1 where ba1: "fill_chunks (he_al e) k n ptr (hc_input c) = Some ba1"
    "put_seq put_piece (he_al e) ps ba1 = Some ba" by (auto simp: put_piece_def [of _ _ "(n, k, ptr)"] split: option.splits)
  let ?w = "http_step (HeData e a n k ptr) w"
  have "a \<in> set (map fst (hw_store w))" using Cons.prems(1) by (metis map_of_eq_None_iff list.set_map option.distinct(1))
  with Cons.prems ba1 have "map_of (hw_store ?w) a = Some (c\<lparr>hc_input := ba1\<rparr>)" "hw_resumes ?w = hw_resumes w"
    by (simp_all add: http_step_def if_given_def filldata_def conn_at_def update_conv')
  with Cons.IH [of ?w "c\<lparr>hc_input := ba1\<rparr>"] Cons.prems ba1 show ?case by (simp add: p deliver_def)
qed

lemma response_body_written:
  assumes "ba_wf ba" and "\<not> ba_reading ba"
  shows "response_body ba = Some (if written ba = [] then None else Some (written ba))"
proof -
  obtain ba' where "bytearray_read_ready ba = (True, ba')" "ba_wf ba'" "unread ba' = written ba"
    "ba_total ba' = length (written ba)" "ba_offset ba' = 0"
    using assms by (rule read_ready_content)
  then show ?thesis
    by (auto simp: response_body_def Let_def load_at_def ba_wf_def unread_def split: option.splits)
qed

section \<open>Properties\<close>

text \<open>
  (C26) A response without a receive function: whatever pieces the body arrives in, the coroutine is resumed with all their
  bytes, in order, as \<open>body\<close>, and without that field if there were none; the rest of the response is what the headers left.
\<close>

theorem http_body_delivered:
  assumes "roomy (he_al e)" and "he_resume_info e"
    and "map_of (hw_store w) a = Some c" and "\<not> hc_completed c" and "hc_input c = snd (bytearray_alloc (he_al e) zero_ba 1024)"
    and "length (concat (map piece_bytes ps)) \<le> 2 ^ 62"
  shows "hw_resumes (http_getpost_complete e a (deliver e a ps w))
     = hw_resumes w @ [(hc_coref c, make_response e c (let body = concat (map piece_bytes ps) in if body = [] then None else Some body))]"
proof -
  note empty = alloc_empty [OF assms(1), of zero_ba 1024, folded assms(5)]
  obtain ba where ba: "put_seq put_piece (he_al e) ps (hc_input c) = Some ba" "appended (hc_input c) (concat (map piece_bytes ps)) ba"
    using response_sink.put_seq_enc [OF assms(1) empty(1), of ps] empty(4) assms(6) by auto
  note d = deliver_input [OF assms(3,4) ba(1)]
  have "response_body ba = Some (let body = concat (map piece_bytes ps) in if body = [] then None else Some body)"
    using appended_from_empty [OF ba(2) empty(2,3)] by (simp add: response_body_written Let_def)
  with d assms(2,4) show ?thesis
    by (simp add: http_getpost_complete_def Let_def make_response_def)
qed

definition roomy_he :: client_env where
  "roomy_he = sample_he\<lparr>he_al := \<lparr>can_alloc = (\<lambda>_. True), junk = (\<lambda>_. 0)\<rparr>\<rparr>"

theorem http_body_delivered_witness:
  "let c = new_conn (he_al roomy_he) 1 2; w = http_init\<lparr>hw_store := [(1, c)], hw_head := Some 1\<rparr>
   in map (rp_body \<circ> snd) (hw_resumes (http_getpost_complete roomy_he 1 (deliver roomy_he 1 [(1, 2, [7, 8]), (2, 1, [9, 10])] w)))
      = [Some [7, 8, 9, 10]]"
proof -
  let ?c = "new_conn (he_al roomy_he) 1 2"
  have "roomy (he_al roomy_he)" "he_resume_info roomy_he" by (simp_all add: roomy_def roomy_he_def sample_he_def)
  from http_body_delivered [OF this, of "http_init\<lparr>hw_store := [(1, ?c)], hw_head := Some 1\<rparr>" 1 ?c "[(1, 2, [7, 8]), (2, 1, [9, 10])]"]
  show ?thesis by (simp add: Let_def new_conn_def piece_bytes_def make_response_def http_init_def)
qed

text \<open>
  Sending: on an empty Lua stack libcurl gets as much of the string that the function returns as fits into its buffer.
  But the results are read at the absolute positions 1 and 2 of the main thread, so that with any other string
  at the bottom of that stack it is this string that is sent, whatever the function returns.
\<close>

lemma http_onread_positions:
  assumes "map_of (hw_store w) a = Some c" and "\<not> hc_completed c" and "hc_onreadref c = Some r" and "r \<in> set (hw_registry w)"
  shows "fst (onread a n [] (PcReturns (PvString s # vs)) w) = (min n (length s), take n s)"
    and "fst (onread a n [] (PcReturns []) w) = (0, [])"
    and "fst (onread a n (PvString stale # below) (PcReturns res) w) = (min n (length stale), take n stale)"
  using assms by (simp_all add: onread_def onread_result_def stack_value_def pv_text_def is_abort_def)

end
