(* ===== verification/Http_Sockets.thy ===== *)
theory Http_Sockets
  imports Http_Header "HOL-Library.Multiset" "HOL-Library.Signed_Division"
begin

text \<open>
  The glue between libcurl and libevent of \<open>src/http.c\<close>: the \<open>SockInfo\<close> structures with their events, the two timers, their
  callbacks, and what opening the module and \<open>cleanup_http_curl\<close> do to them. The structures and the events are in explicit
  stores; \<open>sw_bad\<close> records that one was used after it was freed and \<open>sw_undefined\<close> that a null pointer was used.
\<close>

section \<open>Kinds of events\<close>

definition EV_READ :: int where "EV_READ = 0x02"
definition EV_WRITE :: int where "EV_WRITE = 0x04"
definition EV_PERSIST :: int where "EV_PERSIST = 0x10"
definition CURL_POLL_IN :: int where "CURL_POLL_IN = 1"
definition CURL_POLL_OUT :: int where "CURL_POLL_OUT = 2"
definition CURL_POLL_REMOVE :: int where "CURL_POLL_REMOVE = 4"
definition CURL_CSELECT_IN :: int where "CURL_CSELECT_IN = 1"
definition CURL_CSELECT_OUT :: int where "CURL_CSELECT_OUT = 2"

definition sock_kind :: "int \<Rightarrow> int" where
  "sock_kind act =
     ((if act AND CURL_POLL_IN \<noteq> 0 then EV_READ else 0) OR (if act AND CURL_POLL_OUT \<noteq> 0 then EV_WRITE else 0)) OR EV_PERSIST"

definition event_action :: "int \<Rightarrow> int" where
  "event_action kind =
     ((if kind AND EV_READ \<noteq> 0 then CURL_CSELECT_IN else 0) OR (if kind AND EV_WRITE \<noteq> 0 then CURL_CSELECT_OUT else 0))"

text \<open>What libcurl asks to wait for is what it is told about when it happens.\<close>

lemma event_action_sock_kind: "act \<in> {0..3} \<Longrightarrow> event_action (sock_kind act) = act"
proof -
  assume "act \<in> {0..3}"
  then have "act = 0 \<or> act = 1 \<or> act = 2 \<or> act = 3" by auto
  then show ?thesis
    by (elim disjE) (simp_all add: event_action_def sock_kind_def EV_READ_def EV_WRITE_def EV_PERSIST_def CURL_POLL_IN_def CURL_POLL_OUT_def
      CURL_CSELECT_IN_def CURL_CSELECT_OUT_def)
qed

section \<open>State\<close>

record sock_info =
  si_sockfd :: int
  si_easy :: nat
  si_action :: int
  si_ev :: "nat option"
  si_evset :: bool

text \<open>
  \<open>sw_assigned\<close> is what \<open>curl_multi_assign\<close> stored for each socket; \<open>sw_timer\<close> and \<open>sw_check\<close> say whether the timers exist
  and \<open>sw_timer_tv\<close> and \<open>sw_check_tv\<close> when they are due.
\<close>

record sock_world =
  sw_socks :: "(nat \<times> sock_info) list"
  sw_events :: "nat list"
  sw_next :: nat
  sw_assigned :: "(int \<times> nat) list"
  sw_multi :: bool
  sw_timer :: bool
  sw_timer_tv :: "(int \<times> int) option"
  sw_check :: bool
  sw_check_tv :: "(int \<times> int) option"
  sw_running :: int
  sw_bad :: bool
  sw_undefined :: bool

definition no_sock :: sock_info where
  "no_sock = \<lparr>si_sockfd = 0, si_easy = 0, si_action = 0, si_ev = None, si_evset = False\<rparr>"

definition ev_free :: "nat option \<Rightarrow> sock_world \<Rightarrow> sock_world" where
  "ev_free ev w =
     (case ev of
        None \<Rightarrow> w\<lparr>sw_undefined := True\<rparr>
      | Some n \<Rightarrow> if n \<in> set (sw_events w) then w\<lparr>sw_events := remove1 n (sw_events w)\<rparr> else w\<lparr>sw_bad := True\<rparr>)"

definition remsock :: "nat option \<Rightarrow> sock_world \<Rightarrow> sock_world" where
  "remsock sockp w =
     (case sockp of
        None \<Rightarrow> w
      | Some a \<Rightarrow>
          (case map_of (sw_socks w) a of
             None \<Rightarrow> w\<lparr>sw_bad := True\<rparr>
           | Some f \<Rightarrow>
               let w = (if si_evset f then ev_free (si_ev f) w else w)
               in w\<lparr>sw_socks := AList.delete a (sw_socks w)\<rparr>))"

text \<open>The flag says whether \<open>event_new\<close> succeeds; its result is passed to \<open>event_add\<close> unchecked.\<close>

definition setsock :: "bool \<Rightarrow> nat \<Rightarrow> int \<Rightarrow> nat \<Rightarrow> int \<Rightarrow> sock_world \<Rightarrow> sock_world" where
  "setsock made a s e act w =
     (case map_of (sw_socks w) a of
        None \<Rightarrow> w\<lparr>sw_bad := True\<rparr>
      | Some f \<Rightarrow>
          if \<not> made then w\<lparr>sw_undefined := True\<rparr>
          else
            let w = (if si_evset f then ev_free (si_ev f) w else w);
                f = f\<lparr>si_sockfd := s, si_action := act, si_easy := e, si_ev := Some (sw_next w), si_evset := True\<rparr>
            in w\<lparr>sw_socks := AList.update a f (sw_socks w), sw_events := sw_events w @ [sw_next w], sw_next := sw_next w + 1\<rparr>)"

definition fresh_sock :: "sock_world \<Rightarrow> nat" where
  "fresh_sock w = Suc (sum_list (map fst (sw_socks w)))"

definition addsock :: "bool \<Rightarrow> bool \<Rightarrow> int \<Rightarrow> nat \<Rightarrow> int \<Rightarrow> sock_world \<Rightarrow> sock_world" where
  "addsock alloc made s e act w =
     (if \<not> alloc \<or> \<not> made then w\<lparr>sw_undefined := True\<rparr>
      else
        let a = fresh_sock w;
            w = w\<lparr>sw_socks := AList.update a no_sock (sw_socks w)\<rparr>;
            w = setsock made a s e act w
        in w\<lparr>sw_assigned := AList.update s a (sw_assigned w)\<rparr>)"

definition sock_cb :: "bool \<Rightarrow> bool \<Rightarrow> nat \<Rightarrow> int \<Rightarrow> int \<Rightarrow> nat option \<Rightarrow> sock_world \<Rightarrow> sock_world" where
  "sock_cb alloc made e s what sockp w =
     (if what = CURL_POLL_REMOVE then remsock sockp w
      else case sockp of None \<Rightarrow> addsock alloc made s e what w | Some a \<Rightarrow> setsock made a s e what w)"

section \<open>Timers\<close>

definition multi_timer_cb :: "int \<Rightarrow> sock_world \<Rightarrow> sock_world" where
  "multi_timer_cb timeout_ms w =
     (let tv = (timeout_ms sdiv 1000, (timeout_ms smod 1000) * 1000)
      in if sw_timer w then w\<lparr>sw_timer_tv := Some tv\<rparr> else w\<lparr>sw_undefined := True\<rparr>)"

definition check_soon :: "int \<Rightarrow> sock_world \<Rightarrow> sock_world" where
  "check_soon usec w = (if sw_check w then w\<lparr>sw_check_tv := Some (0, usec)\<rparr> else w\<lparr>sw_undefined := True\<rparr>)"

text \<open>\<open>running\<close> is the number of running transfers that \<open>curl_multi_socket_action\<close> reports.\<close>

definition event_cb :: "int \<Rightarrow> sock_world \<Rightarrow> sock_world" where
  "event_cb running w =
     (let w = check_soon 100 (w\<lparr>sw_running := running\<rparr>)
      in if running \<le> 0 \<and> sw_timer_tv w \<noteq> None then w\<lparr>sw_timer_tv := None\<rparr> else w)"

definition timer_cb :: "int \<Rightarrow> sock_world \<Rightarrow> sock_world" where
  "timer_cb running w = check_soon 1000 (w\<lparr>sw_running := running\<rparr>)"

section \<open>Opening and closing\<close>

definition luaopen_fan_http_core :: "sock_world \<Rightarrow> sock_world" where
  "luaopen_fan_http_core w = w\<lparr>sw_timer := True, sw_check := True\<rparr>"

text \<open>
  libcurl calls \<open>sock_cb\<close> with what was assigned to the socket and forgets it when the socket is removed; when the multi handle
  is cleaned up it removes every socket that it still has.
\<close>

definition sock_call :: "bool \<Rightarrow> bool \<Rightarrow> nat \<Rightarrow> int \<Rightarrow> int \<Rightarrow> sock_world \<Rightarrow> sock_world" where
  "sock_call alloc made e s what w =
     (let w = sock_cb alloc made e s what (map_of (sw_assigned w) s) w
      in if what = CURL_POLL_REMOVE then w\<lparr>sw_assigned := AList.delete s (sw_assigned w)\<rparr> else w)"

definition cleanup_sockets :: "sock_world \<Rightarrow> sock_world" where
  "cleanup_sockets w =
     (let w = (if sw_multi w then fold (\<lambda>s. sock_call True True 0 s CURL_POLL_REMOVE) (map fst (sw_assigned w)) w else w)
      in w\<lparr>sw_multi := False, sw_timer := False, sw_timer_tv := None, sw_check := False, sw_check_tv := None, sw_running := 0\<rparr>)"

datatype sock_event =
    SeOpen | SeMulti | SeSocket bool bool nat int int | SeTimeout int | SeEvent int | SeTimer int | SeCleanup

definition sock_step :: "sock_event \<Rightarrow> sock_world \<Rightarrow> sock_world" where
  "sock_step x w =
     (case x of
        SeOpen \<Rightarrow> luaopen_fan_http_core w
      | SeMulti \<Rightarrow> w\<lparr>sw_multi := True\<rparr>
      | SeSocket alloc made e s what \<Rightarrow> if sw_multi w then sock_call alloc made e s what w else w
      | SeTimeout ms \<Rightarrow> if sw_multi w then multi_timer_cb ms w else w
      | SeEvent running \<Rightarrow> if sw_events w \<noteq> [] then event_cb running w else w
      | SeTimer running \<Rightarrow> if sw_timer_tv w \<noteq> None then timer_cb running (w\<lparr>sw_timer_tv := None\<rparr>) else w
      | SeCleanup \<Rightarrow> cleanup_sockets w)"

definition sock_init :: sock_world where
  "sock_init =
     \<lparr>sw_socks = [], sw_events = [], sw_next = 1, sw_assigned = [], sw_multi = False, sw_timer = False, sw_timer_tv = None, sw_check = False,
      sw_check_tv = None, sw_running = 0, sw_bad = False, sw_undefined = False\<rparr>"

section \<open>Log of a verbose request\<close>

text \<open>
  \<open>debug_callback\<close>: the log file is opened by the first verbose call and kept in the registry; the Lua function \<open>print\<close>, if it is
  there, gets the kind of the information and the data, or only its size if there is none or too much. Whether a file can be
  opened is a parameter.
\<close>

datatype printed = PrintData bytes | PrintSize nat

record debug_world =
  dw_dataPath :: "string option"
  dw_file :: "string option"
  dw_written :: "bytes list"
  dw_printed :: "(string \<times> printed) list"

definition open_log :: "(string \<Rightarrow> bool) \<Rightarrow> debug_world \<Rightarrow> debug_world" where
  "open_log fopen d =
     (if dw_file d \<noteq> None then d
      else
        let path = (case dw_dataPath d of Some p \<Rightarrow> p @ ''/verbose.log'' | None \<Rightarrow> ''verbose.log'')
        in if fopen path then d\<lparr>dw_file := Some path\<rparr> else d)"

definition infotype_name :: "nat \<Rightarrow> string" where
  "infotype_name t =
     (let names = [''CURLINFO_TEXT'', ''CURLINFO_HEADER_IN'', ''CURLINFO_HEADER_OUT'', ''CURLINFO_DATA_IN'', ''CURLINFO_DATA_OUT'',
                   ''CURLINFO_SSL_DATA_IN'', ''CURLINFO_SSL_DATA_OUT'', ''CURLINFO_END'']
      in if t < length names then names ! t else ''CURLINFO'')"

definition debug_callback :: "(string \<Rightarrow> bool) \<Rightarrow> bool \<Rightarrow> bool \<Rightarrow> nat \<Rightarrow> bytes \<Rightarrow> debug_world \<Rightarrow> debug_world" where
  "debug_callback fopen verbose print infotype buf d =
     (let d = (if verbose then open_log fopen d else d);
          d = (if verbose \<and> dw_file d \<noteq> None then d\<lparr>dw_written := dw_written d @ [[0x3e, 0x20], buf, [0x0a]]\<rparr> else d)
      in if print
         then d\<lparr>dw_printed := dw_printed d @ [(infotype_name infotype,
                  if 0 < length buf \<and> length buf < 1024 then PrintData buf else PrintSize (length buf))]\<rparr>
         else d)"

text \<open>Once there is a log file it stays, and every verbose call is written to it.\<close>

lemma debug_file_kept: "dw_file d = Some p \<Longrightarrow> dw_file (debug_callback fopen v pr t buf d) = Some p"
  by (simp add: debug_callback_def open_log_def Let_def)

lemma debug_all_written:
  "dw_file d = Some p \<Longrightarrow>
     dw_written (fold (\<lambda>(t, buf). debug_callback fopen True pr t buf) xs d)
     = dw_written d @ concat (map (\<lambda>(t, buf). [[0x3e, 0x20], buf, [0x0a]]) xs)"
proof (induction xs arbitrary: d)
  case (Cons x xs)
  obtain t buf where x: "x = (t, buf)" by (cases x)
  have "dw_written (debug_callback fopen True pr t buf d) = dw_written d @ [[0x3e, 0x20], buf, [0x0a]]"
    using Cons.prems by (simp add: debug_callback_def open_log_def Let_def)
  with Cons.IH [OF debug_file_kept [OF Cons.prems]] show ?case by (simp add: x)
qed simp

section \<open>Name servers of the system\<close>

text \<open>
  \<open>reset_dns_servers_cb\<close>, compiled on Apple systems only: the addresses of the resolver's servers are handed to the DNS base and joined in
  a buffer of \<open>BUFF_LEN\<close> bytes, which is zero at first and copied as a string at the end. The result is the addresses handed over and
  the content of the buffer; None if it was written past its end, or has no zero left.
\<close>

datatype ns_addr = Ns4 string | Ns6 string | NsOther

definition BUFF_LEN :: nat where "BUFF_LEN = 1024"

fun ns_text :: "ns_addr \<Rightarrow> string option" where
  "ns_text (Ns4 ip) = Some ip"
| "ns_text (Ns6 ip) = Some ip"
| "ns_text NsOther = None"

fun join_servers :: "ns_addr list \<Rightarrow> string list \<Rightarrow> string \<Rightarrow> (string list \<times> string) option" where
  "join_servers [] added buf = Some (added, buf)"
| "join_servers (a # as) added buf =
     (case ns_text a of
        None \<Rightarrow> join_servers as added buf
      | Some ip \<Rightarrow>
          let buf = buf @ ip @ '',''
          in if BUFF_LEN < length buf then None
             else if BUFF_LEN - 21 < length buf then Some (added @ [ip], buf)
             else join_servers as (added @ [ip]) buf)"

definition reset_dns_servers_cb :: "ns_addr list option \<Rightarrow> (string list \<times> string) option" where
  "reset_dns_servers_cb servers =
     (case servers of
        None \<Rightarrow> Some ([], [])
      | Some as \<Rightarrow>
          (case join_servers as [] [] of
             None \<Rightarrow> None
           | Some (added, buf) \<Rightarrow> if length buf < BUFF_LEN then Some (added, buf) else None))"

definition v4_only :: "ns_addr list \<Rightarrow> bool" where
  "v4_only as = list_all (\<lambda>a. case a of Ns4 ip \<Rightarrow> length ip \<le> 15 | Ns6 ip \<Rightarrow> False | NsOther \<Rightarrow> True) as"

lemma join_v4:
  "v4_only as \<Longrightarrow> length buf \<le> BUFF_LEN - 21 \<Longrightarrow> \<exists>added' buf'. join_servers as added buf = Some (added', buf') \<and> length buf' < BUFF_LEN"
proof (induction as added buf rule: join_servers.induct)
  case (2 a as added buf)
  then show ?case by (cases a) (auto simp: v4_only_def BUFF_LEN_def Let_def)
qed (simp add: BUFF_LEN_def)

lemma join_few:
  "list_all (\<lambda>a. case ns_text a of Some ip \<Rightarrow> length ip \<le> 45 | None \<Rightarrow> True) as \<Longrightarrow> length buf + 46 * length as \<le> BUFF_LEN - 21 \<Longrightarrow>
     \<exists>added' buf'. join_servers as added buf = Some (added', buf') \<and> length buf' < BUFF_LEN"
proof (induction as added buf rule: join_servers.induct)
  case (2 a as added buf)
  then show ?case by (auto simp: BUFF_LEN_def Let_def split: option.splits)
qed (simp add: BUFF_LEN_def)

text \<open>
  The limit that ends the loop is made for IPv4 addresses: with them, and with up to 21 servers of any kind, the buffer suffices; 26
  long IPv6 addresses overflow it.
\<close>

lemma reset_dns_servers_fits:
  "v4_only as \<Longrightarrow> reset_dns_servers_cb (Some as) \<noteq> None"
  "length as \<le> 21 \<Longrightarrow> list_all (\<lambda>a. case ns_text a of Some ip \<Rightarrow> length ip \<le> 45 | None \<Rightarrow> True) as \<Longrightarrow> reset_dns_servers_cb (Some as) \<noteq> None"
  using join_v4 [of as "[]" "[]"] join_few [of as "[]" "[]"] by (auto simp: reset_dns_servers_cb_def BUFF_LEN_def)

lemma reset_dns_servers_overflow: "reset_dns_servers_cb (Some (replicate 26 (Ns6 (replicate 39 (CHR ''f''))))) = None"
  by code_simp

section \<open>Invariant\<close>

lemma mset_alist_delete: "distinct (map fst m) \<Longrightarrow> map_of m a = Some v \<Longrightarrow> mset m = add_mset (a, v) (mset (AList.delete a m))"
proof (induction m)
  case (Cons p m)
  then show ?case
  proof (cases "fst p = a")
    case True
    with Cons.prems have "a \<notin> fst ` set m" by auto
    with True Cons.prems show ?thesis by (cases p) (auto simp: delete_id)
  qed (cases p, auto)
qed simp

lemma mset_alist_update: "mset (AList.update a v m) = (case map_of m a of None \<Rightarrow> add_mset (a, v) (mset m) | Some v0 \<Rightarrow> add_mset (a, v) (mset m - {#(a, v0)#}))"
  by (induction m) (auto split: option.splits dest: map_of_SomeD)

definition sock_ok :: "sock_world \<Rightarrow> bool" where
  "sock_ok w \<longleftrightarrow>
     \<not> sw_bad w \<and> distinct (map fst (sw_socks w)) \<and> distinct (map fst (sw_assigned w))
     \<and> image_mset snd (mset (sw_assigned w)) = image_mset fst (mset (sw_socks w))
     \<and> (\<forall>f \<in># image_mset snd (mset (sw_socks w)). si_evset f \<and> si_ev f \<noteq> None)
     \<and> mset (sw_events w) = image_mset (the \<circ> si_ev \<circ> snd) (mset (sw_socks w))
     \<and> (\<not> sw_multi w \<longrightarrow> sw_assigned w = [])"

lemma sock_ok_frame [simp]:
  "sock_ok (w\<lparr>sw_undefined := b\<rparr>) = sock_ok w" "sock_ok (w\<lparr>sw_timer_tv := t\<rparr>) = sock_ok w" "sock_ok (w\<lparr>sw_check_tv := t\<rparr>) = sock_ok w"
  "sock_ok (w\<lparr>sw_timer := b\<rparr>) = sock_ok w" "sock_ok (w\<lparr>sw_check := b\<rparr>) = sock_ok w" "sock_ok (w\<lparr>sw_running := n\<rparr>) = sock_ok w"
  by (simp_all add: sock_ok_def)

lemma sock_ok_ev:
  assumes "sock_ok w" and "map_of (sw_socks w) a = Some f"
  shows "\<exists>n. si_evset f \<and> si_ev f = Some n \<and> n \<in> set (sw_events w)"
proof -
  have f: "(a, f) \<in># mset (sw_socks w)" using assms(2) by (simp add: map_of_SomeD)
  with assms(1) have "si_evset f" "si_ev f \<noteq> None" by (force simp: sock_ok_def)+
  moreover have "the (si_ev f) \<in># mset (sw_events w)" using assms(1) f by (force simp: sock_ok_def)
  ultimately show ?thesis by auto
qed

lemma assigned_alloc:
  assumes "sock_ok w" and "map_of (sw_assigned w) s = Some a"
  shows "\<exists>f. map_of (sw_socks w) a = Some f"
proof -
  have "a \<in># image_mset snd (mset (sw_assigned w))" using assms(2) by (force dest: map_of_SomeD)
  also have "image_mset snd (mset (sw_assigned w)) = image_mset fst (mset (sw_socks w))" using assms(1) by (simp add: sock_ok_def)
  finally show ?thesis by (metis in_image_mset set_mset_mset map_of_eq_None_iff not_None_eq)
qed

text \<open>A socket of libcurl that has a structure is removed, or changed.\<close>

lemma remove_ok:
  assumes w: "sock_ok w" and s: "map_of (sw_assigned w) s = Some a"
  shows "sock_ok (sock_call x y e s CURL_POLL_REMOVE w)"
proof -
  obtain f where f: "map_of (sw_socks w) a = Some f" using assigned_alloc [OF w s] by blast
  obtain n where n: "si_evset f" "si_ev f = Some n" "n \<in> set (sw_events w)" using sock_ok_ev [OF w f] by blast
  have m: "mset (sw_socks w) = add_mset (a, f) (mset (AList.delete a (sw_socks w)))"
    "mset (sw_assigned w) = add_mset (s, a) (mset (AList.delete s (sw_assigned w)))"
    using w f s by (simp_all add: sock_ok_def mset_alist_delete)
  have "sock_call x y e s CURL_POLL_REMOVE w
      = w\<lparr>sw_events := remove1 n (sw_events w), sw_socks := AList.delete a (sw_socks w), sw_assigned := AList.delete s (sw_assigned w)\<rparr>"
    using f n s by (simp add: sock_call_def sock_cb_def remsock_def ev_free_def)
  with w m n show ?thesis by (simp add: sock_ok_def distinct_delete)
qed

lemma setsock_ok:
  assumes w: "sock_ok w" and f: "map_of (sw_socks w) a = Some f"
  shows "sock_ok (setsock made a s e act w)"
proof (cases made)
  case True
  obtain n where n: "si_evset f" "si_ev f = Some n" "n \<in> set (sw_events w)" using sock_ok_ev [OF w f] by blast
  have m: "mset (sw_socks w) = add_mset (a, f) (mset (AList.delete a (sw_socks w)))" using w f by (simp add: sock_ok_def mset_alist_delete)
  with w n f True show ?thesis by (simp add: setsock_def ev_free_def sock_ok_def Let_def mset_alist_update distinct_update)
qed (use w f in \<open>simp add: setsock_def\<close>)

lemma fresh_sock_new: "map_of (sw_socks w) (fresh_sock w) = None"
proof -
  have "fst p \<le> sum_list (map fst (sw_socks w))" if "p \<in> set (sw_socks w)" for p
    using that by (simp add: member_le_sum_list)
  then show ?thesis unfolding map_of_eq_None_iff fresh_sock_def by fastforce
qed

lemma addsock_ok:
  assumes w: "sock_ok w" and s: "map_of (sw_assigned w) s = None" and "sw_multi w"
  shows "sock_ok (addsock alloc made s e act w)"
  using assms fresh_sock_new [of w]
  by (simp add: addsock_def setsock_def Let_def no_sock_def sock_ok_def mset_alist_update update_conv' distinct_update
      flip: set_mset_mset)

lemma sock_call_ok:
  assumes w: "sock_ok w" "sw_multi w"
  shows "sock_ok (sock_call alloc made e s what w)"
proof (cases "map_of (sw_assigned w) s")
  case None
  then have "s \<notin> fst ` set (sw_assigned w)" by (simp add: map_of_eq_None_iff)
  with None show ?thesis
    using w(1) addsock_ok [OF w(1) None w(2)] by (simp add: sock_call_def sock_cb_def remsock_def delete_id)
next
  case (Some a)
  show ?thesis
  proof (cases "what = CURL_POLL_REMOVE")
    case True
    with remove_ok [OF w(1) Some] show ?thesis by simp
  next
    case False
    obtain f where "map_of (sw_socks w) a = Some f" using assigned_alloc [OF w(1) Some] by blast
    with False Some w show ?thesis by (simp add: sock_call_def sock_cb_def setsock_ok)
  qed
qed

lemma remove_all:
  assumes "sock_ok w" and "sw_multi w"
  shows "let w' = fold (\<lambda>s. sock_call True True 0 s CURL_POLL_REMOVE) (map fst (sw_assigned w)) w
    in sock_ok w' \<and> sw_assigned w' = [] \<and> sw_multi w'"
  using assms
proof (induction "sw_assigned w" arbitrary: w)
  case (Cons p ps)
  obtain s a where p: "p = (s, a)" by (cases p)
  let ?w = "sock_call True True 0 s CURL_POLL_REMOVE w"
  have "map_of (sw_assigned w) s = Some a" using Cons.hyps(2) p by (metis map_of_Cons_code(2))
  moreover have "s \<notin> fst ` set ps" using Cons.prems(1) Cons.hyps(2) [symmetric] p by (simp add: sock_ok_def)
  then have "ps = sw_assigned ?w"
    using Cons.hyps(2) [symmetric] p by (simp add: sock_call_def delete_id sock_cb_def remsock_def ev_free_def Let_def split: option.split)
  moreover have "sw_multi ?w"
    using Cons.prems(2) by (simp add: sock_call_def sock_cb_def remsock_def ev_free_def Let_def split: option.split)
  ultimately have "let w' = fold (\<lambda>s. sock_call True True 0 s CURL_POLL_REMOVE) (map fst (sw_assigned ?w)) ?w
    in sock_ok w' \<and> sw_assigned w' = [] \<and> sw_multi w'"
    using Cons.hyps(1) remove_ok Cons.prems(1) by blast
  then show ?case using \<open>ps = sw_assigned ?w\<close> Cons.hyps(2) [symmetric] p by simp
qed simp

lemma cleanup_sockets_ok:
  assumes "sock_ok w"
  shows "sock_ok (cleanup_sockets w)" and "sw_assigned (cleanup_sockets w) = []"
  using assms remove_all [of w] by (auto simp: cleanup_sockets_def Let_def sock_ok_def)

lemma sock_step_ok: "sock_ok w \<Longrightarrow> sock_ok (sock_step x w)"
  by (cases x)
    (auto simp: sock_step_def luaopen_fan_http_core_def multi_timer_cb_def event_cb_def timer_cb_def check_soon_def sock_call_ok
      cleanup_sockets_ok Let_def sock_ok_def [of "w\<lparr>sw_multi := True\<rparr>"] sock_ok_def [of w])

inductive sock_reaches :: "sock_world \<Rightarrow> bool" where
  socks_start: "sock_reaches sock_init"
| socks_go: "sock_reaches w \<Longrightarrow> sock_reaches (sock_step x w)"

lemma sock_reaches_ok: "sock_reaches w \<Longrightarrow> sock_ok w"
  by (induction rule: sock_reaches.induct) (simp_all add: sock_step_ok, simp add: sock_ok_def sock_init_def)

section \<open>Properties\<close>

text \<open>
  (C27) The sockets of libcurl in every state that opening, requests, calls of libcurl and tear-down lead to: no
  \<open>SockInfo\<close> and no event is used after it was freed, every socket that libcurl watches has exactly one structure, every structure
  exactly one event, and there are no others. After the tear-down none is left and both timers are gone.
\<close>

theorem http_sockets_balanced:
  assumes "sock_reaches w"
  shows "\<not> sw_bad w
    \<and> mset (map snd (sw_assigned w)) = mset (map fst (sw_socks w))
    \<and> mset (map Some (sw_events w)) = mset (map (si_ev \<circ> snd) (sw_socks w))
    \<and> sw_socks (cleanup_sockets w) = [] \<and> sw_events (cleanup_sockets w) = []
    \<and> \<not> sw_timer (cleanup_sockets w) \<and> \<not> sw_check (cleanup_sockets w)"
proof -
  note w = sock_reaches_ok [OF assms] and c = cleanup_sockets_ok [OF sock_reaches_ok [OF assms]]
  have "image_mset Some (image_mset (the \<circ> si_ev \<circ> snd) (mset (sw_socks w))) = image_mset (si_ev \<circ> snd) (mset (sw_socks w))"
    unfolding multiset.map_comp using w by (intro image_mset_cong) (auto simp: sock_ok_def)
  with w have "mset (map Some (sw_events w)) = mset (map (si_ev \<circ> snd) (sw_socks w))" by (simp add: sock_ok_def)
  moreover have "sw_socks (cleanup_sockets w) = []" using c by (simp add: sock_ok_def)
  moreover from this have "sw_events (cleanup_sockets w) = []" using c by (simp add: sock_ok_def)
  ultimately show ?thesis using w by (simp add: sock_ok_def cleanup_sockets_def Let_def)
qed

theorem http_sockets_balanced_witness:
  "let w = sock_step (SeSocket True True 9 5 1) (sock_step (SeSocket True True 9 5 2) (sock_step SeMulti (sock_step SeOpen sock_init)))
   in sock_reaches w \<and> sw_assigned w = [(5, 1)] \<and> sw_events w = [2] \<and> mset (map Some (sw_events w)) = mset (map (si_ev \<circ> snd) (sw_socks w))
      \<and> sw_socks (cleanup_sockets w) = []"
proof -
  let ?w = "sock_step (SeSocket True True 9 5 1) (sock_step (SeSocket True True 9 5 2) (sock_step SeMulti (sock_step SeOpen sock_init)))"
  have r: "sock_reaches ?w" by (intro socks_go socks_start)
  have "sw_assigned ?w = [(5, 1)] \<and> sw_events ?w = [2]" by code_simp
  with http_sockets_balanced [OF r] r show ?thesis by (simp add: Let_def)
qed

text \<open>
  The timers. A timeout that is not negative is set exactly, as whole seconds and a number of microseconds below a million. The
  timeout -1, by which libcurl asks to delete the timer, sets it instead, to a negative time. And \<open>cleanup_http_curl\<close> frees timers that only
  opening the module creates: the first timeout that libcurl asks for in a later request goes to a null pointer.
\<close>

lemma http_timer_values:
  "(sw_timer w \<longrightarrow> sw_timer_tv (multi_timer_cb (int ms) w) = Some (int (ms div 1000), int (ms mod 1000) * 1000))
   \<and> (sw_timer w \<longrightarrow> sw_timer_tv (multi_timer_cb (- 1) w) = Some (0, - 1000))
   \<and> sw_undefined (sock_step (SeTimeout t) (sock_step SeMulti (cleanup_sockets w)))"
  by (simp add: multi_timer_cb_def signed_divide_int_def signed_modulo_int_def sock_step_def cleanup_sockets_def Let_def sgn_if
      zdiv_int of_nat_mod)

lemma http_timer_values_witness:
  "sw_timer_tv (multi_timer_cb 1500 (luaopen_fan_http_core sock_init)) = Some (1, 500000)
   \<and> sw_timer_tv (multi_timer_cb (- 1) (luaopen_fan_http_core sock_init)) = Some (0, - 1000)"
  using http_timer_values [of "luaopen_fan_http_core sock_init" 1500] by (simp add: luaopen_fan_http_core_def)

end
