(* ===== verification/Event_Mgr.thy ===== *)
theory Event_Mgr
  imports Prelude "HOL-Library.AList" "HOL-Library.Multiset"
begin

text \<open>
  The event manager of \<open>src/event_mgr.c\<close>: the main event base with its DNS base and signal events, the worker threads with
  theirs, the event loop, and the three ways of cleaning up. Event bases and DNS bases are identified by numbers; those that
  are allocated are in explicit stores. \<open>em_bad\<close> records that one was used after it was freed, and \<open>em_undefined\<close> the use of a null
  pointer; both are not part of the program.
\<close>

section \<open>State\<close>

definition EVENT_MGR_MAX_WORKERS :: nat where "EVENT_MGR_MAX_WORKERS = 6"
definition EVENT_MGR_DEFAULT_WORKERS :: nat where "EVENT_MGR_DEFAULT_WORKERS = 4"

record event_worker =
  wk_base :: "nat option"
  wk_dnsbase :: "nat option"
  wk_thread :: bool
  wk_running :: bool

text \<open>
  \<open>em_signals\<close> is the base on which the two signal events are, \<open>em_http\<close> the one on which the HTTP client has its timers; \<open>em_dnsbases\<close>
  maps each DNS base to its event base.
\<close>

record event_mgr =
  em_base :: "nat option"
  em_dnsbase :: "nat option"
  em_signals :: "nat option"
  em_http :: "nat option"
  em_workers :: "event_worker list"
  em_num :: nat
  em_idx :: u32
  em_looping :: bool
  em_initialized :: bool
  em_signal_count :: nat
  em_bases :: "nat list"
  em_dnsbases :: "(nat \<times> nat) list"
  em_next :: nat
  em_bad :: bool
  em_undefined :: bool

text \<open>Which of the calls to libevent and pthread succeed.\<close>

record event_env =
  ee_base :: bool
  ee_dns :: bool
  ee_worker :: "nat \<Rightarrow> bool \<times> bool \<times> bool"

section \<open>Bases\<close>

definition event_base_new :: "bool \<Rightarrow> event_mgr \<Rightarrow> nat option \<times> event_mgr" where
  "event_base_new ok w =
     (if ok then (Some (em_next w), w\<lparr>em_next := em_next w + 1, em_bases := em_bases w @ [em_next w]\<rparr>) else (None, w))"

definition touch_base :: "nat \<Rightarrow> event_mgr \<Rightarrow> event_mgr" where
  "touch_base b w = (if b \<in> set (em_bases w) then w else w\<lparr>em_bad := True\<rparr>)"

definition event_base_free :: "nat \<Rightarrow> event_mgr \<Rightarrow> event_mgr" where
  "event_base_free b w = (if b \<in> set (em_bases w) then w\<lparr>em_bases := remove1 b (em_bases w)\<rparr> else w\<lparr>em_bad := True\<rparr>)"

definition evdns_base_new :: "bool \<Rightarrow> nat \<Rightarrow> event_mgr \<Rightarrow> nat option \<times> event_mgr" where
  "evdns_base_new ok b w =
     (let w = touch_base b w
      in if ok then (Some (em_next w), w\<lparr>em_next := em_next w + 1, em_dnsbases := em_dnsbases w @ [(em_next w, b)]\<rparr>) else (None, w))"

text \<open>A DNS base has events on its event base, and is used and freed with it.\<close>

definition touch_dns :: "nat \<Rightarrow> event_mgr \<Rightarrow> event_mgr" where
  "touch_dns d w = (case map_of (em_dnsbases w) d of Some b \<Rightarrow> touch_base b w | None \<Rightarrow> w\<lparr>em_bad := True\<rparr>)"

definition evdns_base_free :: "nat \<Rightarrow> event_mgr \<Rightarrow> event_mgr" where
  "evdns_base_free d w = (let w = touch_dns d w in w\<lparr>em_dnsbases := AList.delete d (em_dnsbases w)\<rparr>)"

section \<open>Workers\<close>

definition no_worker :: event_worker where
  "no_worker = \<lparr>wk_base = None, wk_dnsbase = None, wk_thread = False, wk_running = False\<rparr>"

definition upd_worker :: "nat \<Rightarrow> (event_worker \<Rightarrow> event_worker) \<Rightarrow> event_mgr \<Rightarrow> event_mgr" where
  "upd_worker i f w = w\<lparr>em_workers := (em_workers w)[i := f (em_workers w ! i)]\<rparr>"

text \<open>One round of the loop that starts the workers; False is the early return with -1.\<close>

definition start_worker :: "event_env \<Rightarrow> nat \<Rightarrow> event_mgr \<Rightarrow> bool \<times> event_mgr" where
  "start_worker e i w =
     (let (b_ok, d_ok, t_ok) = ee_worker e i;
          (b, w) = event_base_new b_ok w;
          w = upd_worker i (\<lambda>k. k\<lparr>wk_base := b\<rparr>) w
      in case b of
           None \<Rightarrow> (False, w)
         | Some b \<Rightarrow>
             let (d, w) = evdns_base_new d_ok b w;
                 w = upd_worker i (\<lambda>k. k\<lparr>wk_dnsbase := d\<rparr>) w
             in if d = None then (False, w)
                else (t_ok, upd_worker i (\<lambda>k. k\<lparr>wk_running := True, wk_thread := t_ok\<rparr>) w))"

fun start_workers :: "event_env \<Rightarrow> nat list \<Rightarrow> event_mgr \<Rightarrow> int \<times> event_mgr" where
  "start_workers e [] w = (0, w)"
| "start_workers e (i # is) w = (case start_worker e i w of (True, w) \<Rightarrow> start_workers e is w | (False, w) \<Rightarrow> (- 1, w))"

definition event_mgr_workers_init :: "event_env \<Rightarrow> int \<Rightarrow> event_mgr \<Rightarrow> int \<times> event_mgr" where
  "event_mgr_workers_init e cnt w =
     (let n = (if cnt \<le> 0 \<or> int EVENT_MGR_MAX_WORKERS < cnt then EVENT_MGR_DEFAULT_WORKERS else nat cnt)
      in start_workers e [0..<n] (w\<lparr>em_num := n\<rparr>))"

text \<open>A thread that runs is told to leave its loop, which needs its base, and joined; it clears \<open>running\<close> when it ends. The code tells
  all threads first and then joins all, in two passes over the workers, which touch nothing of each other.\<close>

definition stop_worker :: "nat \<Rightarrow> event_mgr \<Rightarrow> event_mgr" where
  "stop_worker i w =
     (let k = em_workers w ! i;
          w = (case wk_base k of Some b \<Rightarrow> if wk_running k then touch_base b w else w | None \<Rightarrow> w)
      in if wk_thread k then upd_worker i (\<lambda>k. k\<lparr>wk_thread := False, wk_running := False\<rparr>) w else w)"

definition event_mgr_workers_stop_threads :: "event_mgr \<Rightarrow> event_mgr" where
  "event_mgr_workers_stop_threads w = fold stop_worker [0..<em_num w] w"

definition free_worker :: "nat \<Rightarrow> event_mgr \<Rightarrow> event_mgr" where
  "free_worker i w =
     (let w = (case wk_dnsbase (em_workers w ! i) of
                 Some d \<Rightarrow> upd_worker i (\<lambda>k. k\<lparr>wk_dnsbase := None\<rparr>) (evdns_base_free d w) | None \<Rightarrow> w)
      in case wk_base (em_workers w ! i) of
           Some b \<Rightarrow> upd_worker i (\<lambda>k. k\<lparr>wk_base := None\<rparr>) (event_base_free b w) | None \<Rightarrow> w)"

definition event_mgr_workers_free_bases :: "event_mgr \<Rightarrow> event_mgr" where
  "event_mgr_workers_free_bases w = (fold free_worker [0..<em_num w] w)\<lparr>em_num := 0\<rparr>"

definition event_mgr_workers_shutdown :: "event_mgr \<Rightarrow> event_mgr" where
  "event_mgr_workers_shutdown w = event_mgr_workers_free_bases (event_mgr_workers_stop_threads w)"

definition event_mgr_next_worker :: "event_mgr \<Rightarrow> int \<times> event_mgr" where
  "event_mgr_next_worker w =
     (if em_num w = 0 then (- 1, w) else (int (unat (em_idx w) mod em_num w), w\<lparr>em_idx := em_idx w + 1\<rparr>))"

definition event_mgr_worker_count :: "event_mgr \<Rightarrow> nat" where
  "event_mgr_worker_count w = em_num w"

section \<open>Initialisation\<close>

definition ensure_base :: "event_env \<Rightarrow> event_mgr \<Rightarrow> event_mgr" where
  "ensure_base e w =
     (case em_base w of
        Some b \<Rightarrow> w
      | None \<Rightarrow> (case event_base_new (ee_base e) w of (b, w) \<Rightarrow> w\<lparr>em_base := b\<rparr>))"

text \<open>
  \<open>event_mgr_init\<close> and \<open>event_mgr_base\<close> call each other; the flag that is set first ends the recursion. Without a base the rest would use a
  null pointer.
\<close>

definition event_mgr_init :: "event_env \<Rightarrow> event_mgr \<Rightarrow> int \<times> event_mgr" where
  "event_mgr_init e w =
     (if em_initialized w then (- 1, w)
      else
        let w = ensure_base e w
        in case em_base w of
             None \<Rightarrow> (0, w\<lparr>em_undefined := True\<rparr>)
           | Some b \<Rightarrow>
               let (d, w) = evdns_base_new (ee_dns e) b (w\<lparr>em_initialized := True\<rparr>)
               in (0, w\<lparr>em_dnsbase := d, em_signals := Some b\<rparr>))"

definition event_mgr_base :: "event_env \<Rightarrow> event_mgr \<Rightarrow> nat option \<times> event_mgr" where
  "event_mgr_base e w = (let w = snd (event_mgr_init e (ensure_base e w)) in (em_base w, w))"

definition event_mgr_base_current :: "event_mgr \<Rightarrow> nat option" where
  "event_mgr_base_current w = em_base w"

definition event_mgr_dnsbase :: "event_mgr \<Rightarrow> nat option" where
  "event_mgr_dnsbase w = em_dnsbase w"

definition event_mgr_worker_base :: "event_env \<Rightarrow> int \<Rightarrow> event_mgr \<Rightarrow> nat option \<times> event_mgr" where
  "event_mgr_worker_base e i w =
     (if i < 0 \<or> int (em_num w) \<le> i then event_mgr_base e w else (wk_base (em_workers w ! nat i), w))"

definition event_mgr_worker_dnsbase :: "int \<Rightarrow> event_mgr \<Rightarrow> nat option" where
  "event_mgr_worker_dnsbase i w =
     (if i < 0 \<or> int (em_num w) \<le> i then event_mgr_dnsbase w else wk_dnsbase (em_workers w ! nat i))"

section \<open>Signals and clean-up\<close>

definition event_mgr_break :: "event_mgr \<Rightarrow> event_mgr" where
  "event_mgr_break w = (case em_base w of Some b \<Rightarrow> touch_base b w | None \<Rightarrow> w)"

datatype signal = SIGINT | SIGTERM | SIGHUP | SIGQUIT | SIGPIPE

text \<open>\<open>signal_handler\<close>: None is the exit of the process at a second interrupt.\<close>

definition signal_handler :: "signal \<Rightarrow> event_mgr \<Rightarrow> event_mgr option" where
  "signal_handler sig w =
     (case sig of
        SIGINT \<Rightarrow>
          let w = w\<lparr>em_signal_count := em_signal_count w + 1\<rparr>
          in if 1 < em_signal_count w then None else Some (event_mgr_break w)
      | SIGPIPE \<Rightarrow> Some w
      | _ \<Rightarrow> Some (event_mgr_break w))"

definition signal_cb :: "signal \<Rightarrow> event_mgr \<Rightarrow> event_mgr" where
  "signal_cb sig w = (if sig = SIGPIPE then w else event_mgr_break w)"

definition cleanup_signal_events :: "event_mgr \<Rightarrow> event_mgr" where
  "cleanup_signal_events w =
     (case em_base w of
        Some _ \<Rightarrow> (case em_signals w of Some b \<Rightarrow> (touch_base b w)\<lparr>em_signals := None\<rparr> | None \<Rightarrow> w)
      | None \<Rightarrow> w)"

definition cleanup_dnsbase :: "event_mgr \<Rightarrow> event_mgr" where
  "cleanup_dnsbase w = (case em_dnsbase w of Some d \<Rightarrow> (evdns_base_free d w)\<lparr>em_dnsbase := None\<rparr> | None \<Rightarrow> w)"

text \<open>What \<open>cleanup_http_curl\<close> does to the base; the rest of it is modelled with the HTTP client.\<close>

definition cleanup_http :: "event_mgr \<Rightarrow> event_mgr" where
  "cleanup_http w = (case em_http w of Some b \<Rightarrow> (touch_base b w)\<lparr>em_http := None\<rparr> | None \<Rightarrow> w)"

definition cleanup_eventbase :: "event_mgr \<Rightarrow> event_mgr" where
  "cleanup_eventbase w = (case em_base w of Some b \<Rightarrow> (event_base_free b w)\<lparr>em_base := None\<rparr> | None \<Rightarrow> w)"

definition reset_state :: "event_mgr \<Rightarrow> event_mgr" where
  "reset_state w = w\<lparr>em_initialized := False, em_looping := False, em_signal_count := 0\<rparr>"

definition full_cleanup :: "event_mgr \<Rightarrow> event_mgr" where
  "full_cleanup w =
     reset_state (cleanup_eventbase (event_mgr_workers_shutdown (cleanup_dnsbase (cleanup_http (cleanup_signal_events w)))))"

definition event_mgr_cleanup :: "event_mgr \<Rightarrow> event_mgr" where
  "event_mgr_cleanup w = (if em_initialized w then full_cleanup w else w)"

definition event_mgr_loop_cleanup :: "event_mgr \<Rightarrow> event_mgr" where
  "event_mgr_loop_cleanup w = cleanup_eventbase (event_mgr_workers_free_bases w)"

section \<open>The loop\<close>

text \<open>\<open>run\<close> is what happens while the loop runs. \<open>event_mgr_loop_later_cleanup\<close> has the same code as \<open>event_mgr_loop\<close>.\<close>

definition loop_enter :: "event_env \<Rightarrow> event_mgr \<Rightarrow> event_mgr" where
  "loop_enter e w =
     (let w = snd (event_mgr_init e w)
      in case em_base w of Some b \<Rightarrow> touch_base b (w\<lparr>em_looping := True\<rparr>) | None \<Rightarrow> w\<lparr>em_undefined := True\<rparr>)"

definition loop_exit :: "event_mgr \<Rightarrow> event_mgr" where
  "loop_exit w =
     (let w = event_mgr_workers_stop_threads (cleanup_dnsbase (cleanup_http (cleanup_signal_events w)))
      in w\<lparr>em_looping := False, em_initialized := False\<rparr>)"

definition event_mgr_loop :: "event_env \<Rightarrow> (event_mgr \<Rightarrow> event_mgr) \<Rightarrow> event_mgr \<Rightarrow> int \<times> event_mgr" where
  "event_mgr_loop e run w = (if em_looping w then (- 1, w) else (0, loop_exit (run (loop_enter e w))))"

definition event_mgr_loop_later_cleanup :: "event_env \<Rightarrow> (event_mgr \<Rightarrow> event_mgr) \<Rightarrow> event_mgr \<Rightarrow> int \<times> event_mgr" where
  "event_mgr_loop_later_cleanup e run w = event_mgr_loop e run w"

definition event_mgr_is_looping :: "event_mgr \<Rightarrow> bool" where
  "event_mgr_is_looping w = em_looping w"

definition em_start :: event_mgr where
  "em_start =
     \<lparr>em_base = None, em_dnsbase = None, em_signals = None, em_http = None, em_workers = replicate EVENT_MGR_MAX_WORKERS no_worker, em_num = 0,
      em_idx = 0, em_looping = False, em_initialized = False, em_signal_count = 0, em_bases = [], em_dnsbases = [], em_next = 1,
      em_bad = False, em_undefined = False\<rparr>"

section \<open>Use\<close>

text \<open>
  What the program does with the manager, each as one event: any part asks for the base, resolves a name with the DNS base or opens the
  HTTP client; workers are started and chosen; the loop is entered and left; signals arrive; and the embedding program cleans up.
\<close>

datatype em_event =
    EmBase event_env | EmResolve | EmHttp event_env | EmWorkers event_env int | EmNext | EmWorkerBase event_env int
  | EmEnter event_env | EmExit | EmSignal signal | EmBreak | EmCleanup | EmLoopCleanup

definition em_step :: "em_event \<Rightarrow> event_mgr \<Rightarrow> event_mgr" where
  "em_step x w =
     (case x of
        EmBase e \<Rightarrow> snd (event_mgr_base e w)
      | EmResolve \<Rightarrow> (case event_mgr_dnsbase w of Some d \<Rightarrow> touch_dns d w | None \<Rightarrow> w)
      | EmHttp e \<Rightarrow> (case event_mgr_base e w of (b, w) \<Rightarrow> w\<lparr>em_http := b\<rparr>)
      | EmWorkers e n \<Rightarrow> snd (event_mgr_workers_init e n w)
      | EmNext \<Rightarrow> snd (event_mgr_next_worker w)
      | EmWorkerBase e i \<Rightarrow> (case event_mgr_worker_base e i w of (Some b, w) \<Rightarrow> touch_base b w | (None, w) \<Rightarrow> w)
      | EmEnter e \<Rightarrow> if em_looping w then w else loop_enter e w
      | EmExit \<Rightarrow> if em_looping w then loop_exit w else w
      | EmSignal sig \<Rightarrow> signal_cb sig w
      | EmBreak \<Rightarrow> event_mgr_break w
      | EmCleanup \<Rightarrow> event_mgr_cleanup w
      | EmLoopCleanup \<Rightarrow> event_mgr_loop_cleanup w)"

text \<open>
  When the callers may use the operations: \<open>event_mgr_loop_cleanup\<close> belongs behind a loop that has ended, \<open>event_mgr_cleanup\<close> outside a loop,
  and the workers are started once.
\<close>

definition em_allowed :: "em_event \<Rightarrow> event_mgr \<Rightarrow> bool" where
  "em_allowed x w =
     (case x of
        EmLoopCleanup \<Rightarrow> \<not> em_initialized w
      | EmCleanup \<Rightarrow> \<not> em_looping w
      | EmWorkers e n \<Rightarrow> em_num w = 0
      | _ \<Rightarrow> True)"

section \<open>Ownership\<close>

text \<open>
  Every allocated base and DNS base has exactly one owner: the manager or a worker. A DNS base is on the event base of its
  owner.
\<close>

definition some_mset :: "'a option \<Rightarrow> 'a multiset" where
  "some_mset x = (case x of Some a \<Rightarrow> {#a#} | None \<Rightarrow> {#})"

lemma some_mset_simps [simp]: "some_mset None = {#}" "some_mset (Some a) = {#a#}"
  by (simp_all add: some_mset_def)

definition worker_bases :: "event_worker list \<Rightarrow> nat multiset" where
  "worker_bases ws = sum_list (map (\<lambda>k. some_mset (wk_base k)) ws)"

definition worker_dns :: "event_worker list \<Rightarrow> nat multiset" where
  "worker_dns ws = sum_list (map (\<lambda>k. some_mset (wk_dnsbase k)) ws)"

definition dns_on :: "nat option \<Rightarrow> nat option \<Rightarrow> (nat \<times> nat) list \<Rightarrow> bool" where
  "dns_on d b m \<longleftrightarrow> (case d of None \<Rightarrow> True | Some d \<Rightarrow> (\<exists>x. b = Some x \<and> map_of m d = Some x))"

definition idle :: "event_worker \<Rightarrow> bool" where
  "idle k \<longleftrightarrow> wk_base k = None \<and> wk_dnsbase k = None"

definition em_owned :: "event_mgr \<Rightarrow> bool" where
  "em_owned w \<longleftrightarrow>
     \<not> em_bad w \<and> distinct (map fst (em_dnsbases w))
     \<and> mset (em_bases w) = some_mset (em_base w) + worker_bases (em_workers w)
     \<and> mset (map fst (em_dnsbases w)) = some_mset (em_dnsbase w) + worker_dns (em_workers w)
     \<and> dns_on (em_dnsbase w) (em_base w) (em_dnsbases w)
     \<and> (\<forall>k \<in> set (em_workers w). dns_on (wk_dnsbase k) (wk_base k) (em_dnsbases w))
     \<and> (\<forall>d \<in> set (map fst (em_dnsbases w)). d < em_next w)"

definition em_state :: "event_mgr \<Rightarrow> bool" where
  "em_state w \<longleftrightarrow>
     length (em_workers w) = EVENT_MGR_MAX_WORKERS \<and> em_num w \<le> EVENT_MGR_MAX_WORKERS
     \<and> (\<forall>i < length (em_workers w). em_num w \<le> i \<longrightarrow> idle (em_workers w ! i))
     \<and> (em_signals w = None \<or> em_signals w = em_base w) \<and> (em_http w = None \<or> em_http w = em_base w)
     \<and> (em_initialized w \<longrightarrow> em_base w \<noteq> None)
     \<and> (\<not> em_initialized w \<longrightarrow> em_dnsbase w = None \<and> em_signals w = None \<and> em_http w = None)
     \<and> (em_looping w \<longrightarrow> em_initialized w)"

lemma sum_map_update:
  fixes f :: "'a \<Rightarrow> 'b :: comm_monoid_add"
  shows "i < length xs \<Longrightarrow> sum_list (map f (xs[i := y])) + f (xs ! i) = sum_list (map f xs) + f y"
proof (induction xs arbitrary: i)
  case (Cons x xs)
  show ?case
  proof (cases i)
    case 0
    then show ?thesis by (simp add: add_ac)
  next
    case (Suc j)
    with Cons have "sum_list (map f (xs[j := y])) + f (xs ! j) = sum_list (map f xs) + f y" by simp
    then show ?thesis unfolding Suc by (simp add: add.assoc)
  qed
qed simp

lemma part_of_sum: "x \<in> set xs \<Longrightarrow> f x \<subseteq># sum_list (map f xs)"
  by (induction xs) (auto intro: subset_mset.add_increasing subset_mset.add_increasing2)

lemma worker_bases_upd: "i < length ws \<Longrightarrow> worker_bases (ws[i := k]) + some_mset (wk_base (ws ! i)) = worker_bases ws + some_mset (wk_base k)"
  unfolding worker_bases_def by (rule sum_map_update)

lemma worker_dns_upd: "i < length ws \<Longrightarrow> worker_dns (ws[i := k]) + some_mset (wk_dnsbase (ws ! i)) = worker_dns ws + some_mset (wk_dnsbase k)"
  unfolding worker_dns_def by (rule sum_map_update)

lemma owner_alloc:
  assumes "em_owned w"
  shows "em_base w = Some b \<Longrightarrow> b \<in> set (em_bases w)"
    and "k \<in> set (em_workers w) \<Longrightarrow> wk_base k = Some b \<Longrightarrow> b \<in> set (em_bases w)"
proof -
  have m: "set (em_bases w) = set_mset (some_mset (em_base w) + worker_bases (em_workers w))"
    using assms by (metis em_owned_def set_mset_mset)
  show "em_base w = Some b \<Longrightarrow> b \<in> set (em_bases w)" unfolding m by simp
  show "k \<in> set (em_workers w) \<Longrightarrow> wk_base k = Some b \<Longrightarrow> b \<in> set (em_bases w)"
    unfolding m worker_bases_def using part_of_sum [of k "em_workers w" "\<lambda>k. some_mset (wk_base k)"] by (auto dest: mset_subset_eqD)
qed

lemma owned_dns:
  assumes "em_owned w"
  shows "em_dnsbase w = Some d \<Longrightarrow> \<exists>b. em_base w = Some b \<and> map_of (em_dnsbases w) d = Some b"
    and "k \<in> set (em_workers w) \<Longrightarrow> wk_dnsbase k = Some d \<Longrightarrow> \<exists>b. wk_base k = Some b \<and> map_of (em_dnsbases w) d = Some b"
proof -
  have "dns_on (em_dnsbase w) (em_base w) (em_dnsbases w)" using assms by (simp add: em_owned_def)
  then show "em_dnsbase w = Some d \<Longrightarrow> \<exists>b. em_base w = Some b \<and> map_of (em_dnsbases w) d = Some b" by (simp add: dns_on_def)
  have "\<forall>k \<in> set (em_workers w). dns_on (wk_dnsbase k) (wk_base k) (em_dnsbases w)" using assms by (simp add: em_owned_def)
  then show "k \<in> set (em_workers w) \<Longrightarrow> wk_dnsbase k = Some d \<Longrightarrow> \<exists>b. wk_base k = Some b \<and> map_of (em_dnsbases w) d = Some b"
    by (auto simp: dns_on_def split: option.splits)
qed

lemma touch_owned:
  assumes "em_owned w"
  shows "em_base w = Some b \<Longrightarrow> touch_base b w = w"
    and "k \<in> set (em_workers w) \<Longrightarrow> wk_base k = Some b \<Longrightarrow> touch_base b w = w"
    and "em_dnsbase w = Some d \<Longrightarrow> touch_dns d w = w"
    and "k \<in> set (em_workers w) \<Longrightarrow> wk_dnsbase k = Some d \<Longrightarrow> touch_dns d w = w"
proof -
  show base: "em_base w = Some b \<Longrightarrow> touch_base b w = w" for b using owner_alloc [OF assms] by (simp add: touch_base_def)
  show worker: "k \<in> set (em_workers w) \<Longrightarrow> wk_base k = Some b \<Longrightarrow> touch_base b w = w" for k b
    using owner_alloc [OF assms] by (simp add: touch_base_def)
  show "em_dnsbase w = Some d \<Longrightarrow> touch_dns d w = w" using owned_dns(1) [OF assms] base by (fastforce simp: touch_dns_def)
  show "k \<in> set (em_workers w) \<Longrightarrow> wk_dnsbase k = Some d \<Longrightarrow> touch_dns d w = w"
    using owned_dns(2) [OF assms] worker by (fastforce simp: touch_dns_def)
qed

lemma keys_delete: "distinct (map fst m) \<Longrightarrow> mset (map fst (AList.delete d m)) = mset (map fst m) - {#d#}"
  by (simp add: delete_keys distinct_remove1_removeAll [symmetric])

lemma dns_on_delete:
  assumes "dns_on d' b m" and "d' \<noteq> Some d"
  shows "dns_on d' b (AList.delete d m)"
  using assms by (auto simp: dns_on_def delete_conv' split: option.splits)

lemma dns_on_new: "dns_on d b m \<Longrightarrow> dns_on d b (m @ p)"
  by (auto simp: dns_on_def map_add_Some_iff split: option.splits)

lemma dns_on_base: "dns_on d None m \<Longrightarrow> d = None"
  by (auto simp: dns_on_def split: option.splits)

lemma owned_frame [simp]:
  "em_owned (w\<lparr>em_signals := x\<rparr>) = em_owned w" "em_owned (w\<lparr>em_http := x\<rparr>) = em_owned w" "em_owned (w\<lparr>em_num := n\<rparr>) = em_owned w"
  "em_owned (w\<lparr>em_idx := j\<rparr>) = em_owned w" "em_owned (w\<lparr>em_looping := b\<rparr>) = em_owned w" "em_owned (w\<lparr>em_initialized := b\<rparr>) = em_owned w"
  "em_owned (w\<lparr>em_signal_count := n\<rparr>) = em_owned w" "em_owned (w\<lparr>em_undefined := b\<rparr>) = em_owned w"
  by (simp_all add: em_owned_def)

definition em_inv :: "event_mgr \<Rightarrow> bool" where
  "em_inv w \<longleftrightarrow> em_owned w \<and> em_state w"

lemma ensure_base_inv: "em_inv w \<Longrightarrow> em_inv (ensure_base e w)"
  by (auto simp: em_inv_def em_owned_def em_state_def ensure_base_def event_base_new_def dns_on_def split: option.splits)

lemma ensure_base_some: "em_base (ensure_base e w) = Some b \<Longrightarrow> em_initialized (ensure_base e w) = em_initialized w"
  by (auto simp: ensure_base_def event_base_new_def split: option.splits)

lemma new_dns_owned:
  assumes w: "em_owned w" and "em_base w = Some b" and "em_dnsbase w = None"
  shows "em_owned ((snd (evdns_base_new ok b w))\<lparr>em_dnsbase := fst (evdns_base_new ok b w)\<rparr>)"
proof (cases ok)
  case True
  have "em_next w \<notin> fst ` set (em_dnsbases w)" using w by (auto simp: em_owned_def)
  moreover from this have "map_of (em_dnsbases w @ [(em_next w, b)]) (em_next w) = Some b" by (simp add: map_add_def map_of_eq_None_iff [THEN iffD2])
  ultimately show ?thesis
    using True assms by (auto simp: evdns_base_new_def touch_owned em_owned_def Let_def dns_on_new less_Suc_eq dns_on_def [of "Some _"])
qed (use assms in \<open>simp add: evdns_base_new_def touch_owned, simp add: em_owned_def\<close>)

lemma state_frame [simp]:
  "em_state (w\<lparr>em_idx := j\<rparr>) = em_state w" "em_state (w\<lparr>em_signal_count := n\<rparr>) = em_state w" "em_state (w\<lparr>em_undefined := b\<rparr>) = em_state w"
  "em_state (w\<lparr>em_bases := bs\<rparr>) = em_state w" "em_state (w\<lparr>em_dnsbases := ds\<rparr>) = em_state w" "em_state (w\<lparr>em_next := n\<rparr>) = em_state w"
  "em_state (w\<lparr>em_bad := b\<rparr>) = em_state w"
  by (simp_all add: em_state_def)

lemma init_inv:
  assumes "em_inv w"
  shows "em_inv (snd (event_mgr_init e w))"
proof -
  let ?w = "ensure_base e w"
  have w: "em_inv ?w" using assms by (rule ensure_base_inv)
  show ?thesis
  proof (cases "em_initialized w \<or> em_base ?w = None")
    case True
    with assms w show ?thesis by (cases "em_initialized w") (simp_all add: event_mgr_init_def em_inv_def Let_def)
  next
    case False
    then obtain b where b: "em_base ?w = Some b" and i: "\<not> em_initialized ?w" using ensure_base_some [of e w] by auto
    have "em_dnsbase (?w\<lparr>em_initialized := True\<rparr>) = None" using w i by (simp add: em_inv_def em_state_def)
    with w b have "em_owned ((snd (evdns_base_new (ee_dns e) b (?w\<lparr>em_initialized := True\<rparr>)))
        \<lparr>em_dnsbase := fst (evdns_base_new (ee_dns e) b (?w\<lparr>em_initialized := True\<rparr>))\<rparr>)"
      by (intro new_dns_owned) (simp_all add: em_inv_def)
    moreover have "em_state ((snd (evdns_base_new (ee_dns e) b (?w\<lparr>em_initialized := True\<rparr>)))
        \<lparr>em_dnsbase := fst (evdns_base_new (ee_dns e) b (?w\<lparr>em_initialized := True\<rparr>)), em_signals := Some b\<rparr>)"
      using w b i by (auto simp: em_inv_def em_state_def evdns_base_new_def touch_base_def Let_def)
    ultimately show ?thesis using False b by (auto simp: event_mgr_init_def em_inv_def Let_def split: prod.splits)
  qed
qed

lemma base_inv: "em_inv w \<Longrightarrow> em_inv (snd (event_mgr_base e w))"
  by (simp add: event_mgr_base_def Let_def init_inv ensure_base_inv)

lemma break_id: "em_inv w \<Longrightarrow> event_mgr_break w = w"
  by (auto simp: event_mgr_break_def em_inv_def touch_owned split: option.split)

text \<open>One worker gets other bases, and the stores change accordingly.\<close>

lemma worker_swap:
  assumes w: "em_owned w" and i: "i < length (em_workers w)"
    and bs: "mset bs + some_mset (wk_base (em_workers w ! i)) = mset (em_bases w) + some_mset (wk_base k)"
    and ds: "mset (map fst ds) + some_mset (wk_dnsbase (em_workers w ! i)) = mset (map fst (em_dnsbases w)) + some_mset (wk_dnsbase k)"
    and keys: "distinct (map fst ds)" "\<forall>d \<in> set (map fst ds). d < n"
    and on: "dns_on (wk_dnsbase k) (wk_base k) ds" "dns_on (em_dnsbase w) (em_base w) ds"
      "\<And>j. j < length (em_workers w) \<Longrightarrow> j \<noteq> i \<Longrightarrow> dns_on (wk_dnsbase (em_workers w ! j)) (wk_base (em_workers w ! j)) ds"
  shows "em_owned (w\<lparr>em_workers := (em_workers w)[i := k], em_bases := bs, em_dnsbases := ds, em_next := n\<rparr>)"
proof -
  have "mset bs = some_mset (em_base w) + worker_bases ((em_workers w)[i := k])"
  proof -
    have "mset bs + some_mset (wk_base (em_workers w ! i)) = some_mset (em_base w) + (worker_bases (em_workers w) + some_mset (wk_base k))"
      using bs w by (simp add: em_owned_def)
    also have "\<dots> = some_mset (em_base w) + worker_bases ((em_workers w)[i := k]) + some_mset (wk_base (em_workers w ! i))"
      using worker_bases_upd [OF i, of k] by simp
    finally show ?thesis by simp
  qed
  moreover have "mset (map fst ds) = some_mset (em_dnsbase w) + worker_dns ((em_workers w)[i := k])"
  proof -
    have "mset (map fst ds) + some_mset (wk_dnsbase (em_workers w ! i)) = some_mset (em_dnsbase w) + (worker_dns (em_workers w) + some_mset (wk_dnsbase k))"
      using ds w by (simp add: em_owned_def)
    also have "\<dots> = some_mset (em_dnsbase w) + worker_dns ((em_workers w)[i := k]) + some_mset (wk_dnsbase (em_workers w ! i))"
      using worker_dns_upd [OF i, of k] by simp
    finally show ?thesis by simp
  qed
  moreover have "\<forall>k' \<in> set ((em_workers w)[i := k]). dns_on (wk_dnsbase k') (wk_base k') ds"
  proof
    fix k' assume "k' \<in> set ((em_workers w)[i := k])"
    then obtain j where "j < length (em_workers w)" "k' = (em_workers w)[i := k] ! j" by (auto simp: in_set_conv_nth)
    then show "dns_on (wk_dnsbase k') (wk_base k') ds" using on(1,3) by (cases "j = i") simp_all
  qed
  ultimately show ?thesis using w keys on(2) by (simp add: em_owned_def)
qed

lemma set_nothing: "wk_dnsbase k = None \<Longrightarrow> k\<lparr>wk_base := b, wk_dnsbase := None\<rparr> = k\<lparr>wk_base := b\<rparr>"
  by (cases k) simp

definition idle_from :: "nat list \<Rightarrow> event_mgr \<Rightarrow> bool" where
  "idle_from is w \<longleftrightarrow> (\<forall>i \<in> set is. i < em_num w \<and> idle (em_workers w ! i))"

lemma start_worker_inv:
  assumes w: "em_inv w" and i: "i < em_num w" "idle (em_workers w ! i)"
  shows "em_inv (snd (start_worker e i w))"
    and "em_num (snd (start_worker e i w)) = em_num w"
    and "j \<noteq> i \<Longrightarrow> em_workers (snd (start_worker e i w)) ! j = em_workers w ! j"
proof -
  obtain b_ok d_ok t_ok where e: "ee_worker e i = (b_ok, d_ok, t_ok)" by (metis prod_cases3)
  have len: "i < length (em_workers w)" using w i by (simp add: em_inv_def em_state_def)
  define k where "k = (em_workers w ! i)\<lparr>wk_base := if b_ok then Some (em_next w) else None, wk_dnsbase := if b_ok \<and> d_ok then Some (em_next w + 1) else None,
    wk_running := (if b_ok \<and> d_ok then True else wk_running (em_workers w ! i)), wk_thread := (if b_ok \<and> d_ok then t_ok else wk_thread (em_workers w ! i))\<rparr>"
  let ?bs = "em_bases w @ (if b_ok then [em_next w] else [])"
  let ?ds = "em_dnsbases w @ (if b_ok \<and> d_ok then [(em_next w + 1, em_next w)] else [])"
  let ?n = "em_next w + (if b_ok then if d_ok then 2 else 1 else 0)"
  have r: "snd (start_worker e i w) = w\<lparr>em_workers := (em_workers w)[i := k], em_bases := ?bs, em_dnsbases := ?ds, em_next := ?n\<rparr>"
    using i(2) len e
    by (auto simp: start_worker_def event_base_new_def evdns_base_new_def touch_base_def upd_worker_def k_def Let_def idle_def set_nothing)
  have new: "em_next w + 1 \<notin> fst ` set (em_dnsbases w)" using w by (auto simp: em_inv_def em_owned_def)
  have "em_owned (w\<lparr>em_workers := (em_workers w)[i := k], em_bases := ?bs, em_dnsbases := ?ds, em_next := ?n\<rparr>)"
  proof (rule worker_swap)
    show "em_owned w" "i < length (em_workers w)" using w len by (simp_all add: em_inv_def)
    show "mset ?bs + some_mset (wk_base (em_workers w ! i)) = mset (em_bases w) + some_mset (wk_base k)"
      "mset (map fst ?ds) + some_mset (wk_dnsbase (em_workers w ! i)) = mset (map fst (em_dnsbases w)) + some_mset (wk_dnsbase k)"
      using i(2) by (simp_all add: k_def idle_def)
    show "distinct (map fst ?ds)" "\<forall>d \<in> set (map fst ?ds). d < ?n" using w new by (auto simp: em_inv_def em_owned_def)
    show "dns_on (wk_dnsbase k) (wk_base k) ?ds"
      using new by (auto simp: dns_on_def k_def map_add_def map_of_eq_None_iff [THEN iffD2])
    show "dns_on (em_dnsbase w) (em_base w) ?ds" using w by (simp add: em_inv_def em_owned_def dns_on_new)
    have "dns_on (wk_dnsbase k') (wk_base k') ?ds" if "k' \<in> set (em_workers w)" for k' using w that by (simp add: em_inv_def em_owned_def dns_on_new)
    then show "dns_on (wk_dnsbase (em_workers w ! j)) (wk_base (em_workers w ! j)) ?ds" if "j < length (em_workers w)" for j
      using that nth_mem by blast
  qed
  moreover have "em_state (snd (start_worker e i w))"
    using w i(1) unfolding r by (auto simp: em_inv_def em_state_def nth_list_update)
  ultimately show "em_inv (snd (start_worker e i w))" by (simp add: em_inv_def r)
  show "em_num (snd (start_worker e i w)) = em_num w" by (simp add: r)
  show "j \<noteq> i \<Longrightarrow> em_workers (snd (start_worker e i w)) ! j = em_workers w ! j" by (simp add: r)
qed

lemma start_workers_inv:
  "em_inv w \<Longrightarrow> distinct is \<Longrightarrow> idle_from is w \<Longrightarrow> em_inv (snd (start_workers e is w))"
proof (induction "is" arbitrary: w)
  case (Cons i "is")
  have i: "i < em_num w" "idle (em_workers w ! i)" using Cons.prems by (auto simp: idle_from_def)
  note s = start_worker_inv [OF Cons.prems(1) i, where e = e]
  have "idle_from is (snd (start_worker e i w))"
    using Cons.prems(2,3) s(2,3) by (auto simp: idle_from_def) (metis s(3))
  with Cons.IH [OF s(1)] Cons.prems(2) s(1) show ?case by (auto split: prod.splits bool.splits)
qed simp

lemma workers_init_inv:
  assumes w: "em_inv w" and "em_num w = 0"
  shows "em_inv (snd (event_mgr_workers_init e n w))"
proof -
  let ?n = "if n \<le> 0 \<or> int EVENT_MGR_MAX_WORKERS < n then EVENT_MGR_DEFAULT_WORKERS else nat n"
  have n: "?n \<le> EVENT_MGR_MAX_WORKERS" by (auto simp: EVENT_MGR_MAX_WORKERS_def EVENT_MGR_DEFAULT_WORKERS_def)
  have "em_inv (w\<lparr>em_num := ?n\<rparr>)" "idle_from [0..<?n] (w\<lparr>em_num := ?n\<rparr>)"
    using assms n by (auto simp: em_inv_def em_state_def idle_from_def)
  then show ?thesis unfolding event_mgr_workers_init_def Let_def by (intro start_workers_inv) simp_all
qed

lemma worker_at: "em_inv w \<Longrightarrow> i < em_num w \<Longrightarrow> i < length (em_workers w) \<and> em_workers w ! i \<in> set (em_workers w)"
  by (auto simp: em_inv_def em_state_def)

lemma stop_worker_inv:
  assumes w: "em_inv w" and i: "i < em_num w"
  shows "em_inv (stop_worker i w)" and "em_num (stop_worker i w) = em_num w"
proof -
  let ?k = "em_workers w ! i"
  have len: "i < length (em_workers w)" and mem: "?k \<in> set (em_workers w)" using worker_at [OF w i] by auto
  have o: "em_owned w" using w by (simp add: em_inv_def)
  have same: "em_owned (upd_worker i (\<lambda>k. k\<lparr>wk_thread := t, wk_running := r\<rparr>) w)" for t r
  proof -
    have on: "k' \<in> set (em_workers w) \<Longrightarrow> dns_on (wk_dnsbase k') (wk_base k') (em_dnsbases w)" for k' using o by (simp add: em_owned_def)
    have "em_owned (w\<lparr>em_workers := (em_workers w)[i := ?k\<lparr>wk_thread := t, wk_running := r\<rparr>], em_bases := em_bases w,
        em_dnsbases := em_dnsbases w, em_next := em_next w\<rparr>)"
      by (rule worker_swap [OF o len]) (use o mem on in \<open>simp_all add: em_owned_def\<close>)
    then show ?thesis by (simp add: em_owned_def upd_worker_def)
  qed
  have r: "stop_worker i w = (if wk_thread ?k then upd_worker i (\<lambda>k. k\<lparr>wk_thread := False, wk_running := False\<rparr>) w else w)"
    using touch_owned(2) [OF o mem] by (auto simp: stop_worker_def Let_def split: option.split)
  have "em_state (upd_worker i (\<lambda>k. k\<lparr>wk_thread := False, wk_running := False\<rparr>) w)"
    using w i by (auto simp: em_inv_def em_state_def upd_worker_def idle_def nth_list_update)
  with same w show "em_inv (stop_worker i w)" by (simp add: r em_inv_def)
  show "em_num (stop_worker i w) = em_num w" by (simp add: r upd_worker_def)
qed

lemma stop_threads_inv: "em_inv w \<Longrightarrow> em_inv (event_mgr_workers_stop_threads w) \<and> em_num (event_mgr_workers_stop_threads w) = em_num w"
proof -
  have "em_inv w \<Longrightarrow> \<forall>i \<in> set is. i < em_num w \<Longrightarrow> em_inv (fold stop_worker is w) \<and> em_num (fold stop_worker is w) = em_num w" for "is" w
    by (induction "is" arbitrary: w) (auto simp: stop_worker_inv)
  then show "em_inv w \<Longrightarrow> ?thesis" by (simp add: event_mgr_workers_stop_threads_def)
qed

lemma stop_frame [simp]:
  "em_base (stop_worker i w) = em_base w" "em_dnsbase (stop_worker i w) = em_dnsbase w" "em_signals (stop_worker i w) = em_signals w"
  "em_http (stop_worker i w) = em_http w" "em_initialized (stop_worker i w) = em_initialized w" "em_looping (stop_worker i w) = em_looping w"
  by (simp_all add: stop_worker_def Let_def upd_worker_def touch_base_def split: option.split)

lemma fold_stop_frame [simp]:
  "em_base (fold stop_worker is w) = em_base w" "em_dnsbase (fold stop_worker is w) = em_dnsbase w" "em_signals (fold stop_worker is w) = em_signals w"
  "em_http (fold stop_worker is w) = em_http w" "em_initialized (fold stop_worker is w) = em_initialized w"
  "em_looping (fold stop_worker is w) = em_looping w"
  by (induction "is" arbitrary: w) simp_all

lemma dns_unique:
  assumes w: "em_owned w" and i: "i < length (em_workers w)" and d: "wk_dnsbase (em_workers w ! i) = Some d"
  shows "em_dnsbase w \<noteq> Some d" and "j < length (em_workers w) \<Longrightarrow> j \<noteq> i \<Longrightarrow> wk_dnsbase (em_workers w ! j) \<noteq> Some d"
proof -
  let ?ws = "(em_workers w)[i := no_worker]"
  have "mset (map fst (em_dnsbases w)) = some_mset (em_dnsbase w) + worker_dns ?ws + {#d#}"
    using w worker_dns_upd [OF i, of no_worker] d by (simp add: em_owned_def no_worker_def)
  moreover have "count (mset (map fst (em_dnsbases w))) d \<le> 1" using w distinct_count_atmost_1 [of "map fst (em_dnsbases w)"] by (auto simp: em_owned_def)
  ultimately have none: "count (some_mset (em_dnsbase w)) d = 0" "count (worker_dns ?ws) d = 0" by simp_all
  from none(1) show "em_dnsbase w \<noteq> Some d" by auto
  show "wk_dnsbase (em_workers w ! j) \<noteq> Some d" if j: "j < length (em_workers w)" "j \<noteq> i"
  proof
    assume dj: "wk_dnsbase (em_workers w ! j) = Some d"
    have "?ws ! j \<in> set ?ws" using j by (intro nth_mem) simp
    then have "some_mset (wk_dnsbase (?ws ! j)) \<subseteq># worker_dns ?ws" unfolding worker_dns_def by (rule part_of_sum)
    with j dj none(2) show False by (simp add: not_in_iff [symmetric])
  qed
qed

lemma worker_cleared:
  "wk_base k = None \<Longrightarrow> k\<lparr>wk_base := None, wk_dnsbase := x\<rparr> = k\<lparr>wk_dnsbase := x\<rparr>" "wk_base k = None \<Longrightarrow> k\<lparr>wk_base := None\<rparr> = k" "wk_dnsbase k = None \<Longrightarrow> k\<lparr>wk_dnsbase := None\<rparr> = k"
    "k\<lparr>wk_dnsbase := None, wk_base := None\<rparr> = k\<lparr>wk_base := None, wk_dnsbase := None\<rparr>"
  by (cases k, simp)+

lemma free_worker_inv:
  assumes w: "em_inv w" and i: "i < em_num w"
  shows "em_inv (free_worker i w)" and "em_num (free_worker i w) = em_num w"
    and "idle (em_workers (free_worker i w) ! j) \<longleftrightarrow> i = j \<or> idle (em_workers w ! j)"
proof -
  let ?k = "em_workers w ! i"
  have len: "i < length (em_workers w)" and mem: "?k \<in> set (em_workers w)" using worker_at [OF w i] by auto
  have o: "em_owned w" using w by (simp add: em_inv_def)
  let ?bs = "case wk_base ?k of Some b \<Rightarrow> remove1 b (em_bases w) | None \<Rightarrow> em_bases w"
  let ?ds = "case wk_dnsbase ?k of Some d \<Rightarrow> AList.delete d (em_dnsbases w) | None \<Rightarrow> em_dnsbases w"
  define k where "k = ?k\<lparr>wk_base := None, wk_dnsbase := None\<rparr>"
  have r: "free_worker i w = w\<lparr>em_workers := (em_workers w)[i := k], em_bases := ?bs, em_dnsbases := ?ds, em_next := em_next w\<rparr>"
    using touch_owned(4) [OF o mem] owner_alloc(2) [OF o mem] len
    by (cases "wk_dnsbase ?k"; cases "wk_base ?k"; intro event_mgr.equality)
      (simp_all add: free_worker_def upd_worker_def k_def evdns_base_free_def event_base_free_def Let_def worker_cleared set_nothing)
  have "em_owned (w\<lparr>em_workers := (em_workers w)[i := k], em_bases := ?bs, em_dnsbases := ?ds, em_next := em_next w\<rparr>)"
  proof (rule worker_swap [OF o len])
    show "mset ?bs + some_mset (wk_base ?k) = mset (em_bases w) + some_mset (wk_base k)"
      using owner_alloc(2) [OF o mem] by (auto simp: k_def split: option.split)
    have key: "d \<in> set (map fst (em_dnsbases w))" if "wk_dnsbase ?k = Some d" for d
      using owned_dns(2) [OF o mem that] by (force dest: map_of_SomeD)
    then have "add_mset d (mset (map fst (AList.delete d (em_dnsbases w)))) = mset (map fst (em_dnsbases w))" if "wk_dnsbase ?k = Some d" for d
    proof -
      have "distinct (map fst (em_dnsbases w))" using o by (simp add: em_owned_def)
      moreover have "d \<in># mset (map fst (em_dnsbases w))" if "d \<in> set (map fst (em_dnsbases w))" using that by simp
      ultimately show ?thesis using \<open>wk_dnsbase ?k = Some d\<close> key [of d] insert_DiffM by (metis keys_delete)
    qed
    then show "mset (map fst ?ds) + some_mset (wk_dnsbase ?k) = mset (map fst (em_dnsbases w)) + some_mset (wk_dnsbase k)"
      by (simp add: k_def del: mset_map split: option.split)
    show "distinct (map fst ?ds)" "\<forall>d \<in> set (map fst ?ds). d < em_next w"
      using o by (auto simp: em_owned_def delete_keys distinct_removeAll simp del: set_map split: option.split)
    show "dns_on (wk_dnsbase k) (wk_base k) ?ds" by (simp add: k_def dns_on_def)
    show "dns_on (em_dnsbase w) (em_base w) ?ds"
      using o dns_unique(1) [OF o len] by (auto simp: em_owned_def intro: dns_on_delete split: option.split)
    show "dns_on (wk_dnsbase (em_workers w ! j)) (wk_base (em_workers w ! j)) ?ds" if "j < length (em_workers w)" "j \<noteq> i" for j
      using o dns_unique(2) [OF o len _ that] that nth_mem [of j "em_workers w"] by (auto simp: em_owned_def intro: dns_on_delete split: option.split)
  qed
  moreover have "em_state (free_worker i w)" using w i unfolding r by (auto simp: em_inv_def em_state_def nth_list_update)
  ultimately show "em_inv (free_worker i w)" by (simp add: em_inv_def r)
  show "em_num (free_worker i w) = em_num w" by (simp add: r)
  show "idle (em_workers (free_worker i w) ! j) \<longleftrightarrow> i = j \<or> idle (em_workers w ! j)"
    using len by (auto simp: r nth_list_update idle_def k_def)
qed

lemma free_workers_inv:
  "em_inv w \<Longrightarrow> \<forall>i \<in> set is. i < em_num w \<Longrightarrow>
     em_inv (fold free_worker is w) \<and> em_num (fold free_worker is w) = em_num w
     \<and> (\<forall>j. j \<in> set is \<or> idle (em_workers w ! j) \<longrightarrow> idle (em_workers (fold free_worker is w) ! j))"
  by (induction "is" arbitrary: w) (auto simp: free_worker_inv)

lemma free_frame [simp]:
  "em_base (free_worker i w) = em_base w" "em_dnsbase (free_worker i w) = em_dnsbase w" "em_signals (free_worker i w) = em_signals w"
  "em_http (free_worker i w) = em_http w" "em_initialized (free_worker i w) = em_initialized w" "em_looping (free_worker i w) = em_looping w"
  by (simp_all add: free_worker_def Let_def upd_worker_def evdns_base_free_def event_base_free_def touch_dns_def touch_base_def split: option.split)

lemma fold_free_frame [simp]:
  "em_base (fold free_worker is w) = em_base w" "em_dnsbase (fold free_worker is w) = em_dnsbase w" "em_signals (fold free_worker is w) = em_signals w"
  "em_http (fold free_worker is w) = em_http w" "em_initialized (fold free_worker is w) = em_initialized w"
  "em_looping (fold free_worker is w) = em_looping w"
  by (induction "is" arbitrary: w) simp_all

lemma all_idle: "(\<forall>k \<in> set ws. idle k) \<Longrightarrow> worker_bases ws = {#} \<and> worker_dns ws = {#}"
  unfolding worker_bases_def worker_dns_def by (induction ws) (simp_all add: idle_def)

lemma free_bases_inv:
  assumes w: "em_inv w"
  shows "em_inv (event_mgr_workers_free_bases w)" and "\<forall>k \<in> set (em_workers (event_mgr_workers_free_bases w)). idle k"
proof -
  let ?v = "fold free_worker [0..<em_num w] w"
  have v: "em_inv ?v" "\<And>j. j < em_num w \<or> idle (em_workers w ! j) \<Longrightarrow> idle (em_workers ?v ! j)" using free_workers_inv [OF w, of "[0..<em_num w]"] by auto
  have "idle (em_workers ?v ! j)" if "j < length (em_workers ?v)" for j
    using that v w by (cases "j < em_num w") (auto simp: em_inv_def em_state_def)
  then have idle: "\<forall>k \<in> set (em_workers ?v). idle k" by (auto simp: in_set_conv_nth)
  then show "\<forall>k \<in> set (em_workers (event_mgr_workers_free_bases w)). idle k" by (simp add: event_mgr_workers_free_bases_def)
  show "em_inv (event_mgr_workers_free_bases w)"
    using v(1) idle by (auto simp: event_mgr_workers_free_bases_def em_inv_def em_state_def)
qed

lemma free_bases_frame [simp]:
  "em_base (event_mgr_workers_free_bases w) = em_base w" "em_dnsbase (event_mgr_workers_free_bases w) = em_dnsbase w"
  "em_signals (event_mgr_workers_free_bases w) = em_signals w" "em_http (event_mgr_workers_free_bases w) = em_http w"
  "em_initialized (event_mgr_workers_free_bases w) = em_initialized w" "em_looping (event_mgr_workers_free_bases w) = em_looping w"
  "em_num (event_mgr_workers_free_bases w) = 0"
  by (simp_all add: event_mgr_workers_free_bases_def)

text \<open>The part of the clean-up that the loop does at its end, and that \<open>full_cleanup\<close> starts with.\<close>

definition detached :: "event_mgr \<Rightarrow> event_mgr" where
  "detached w = cleanup_dnsbase (cleanup_http (cleanup_signal_events w))"

lemma cleanup_dnsbase_inv:
  assumes "em_inv w"
  shows "em_inv (cleanup_dnsbase w)"
proof (cases "em_dnsbase w")
  case None
  with assms show ?thesis by (simp add: cleanup_dnsbase_def)
next
  case (Some d)
  have o: "em_owned w" using assms by (simp add: em_inv_def)
  obtain b where b: "em_base w = Some b" "map_of (em_dnsbases w) d = Some b" using owned_dns(1) [OF o Some] by blast
  have d: "d \<in> set (map fst (em_dnsbases w))" using b(2) by (force dest: map_of_SomeD)
  have "wk_dnsbase k \<noteq> Some d" if "k \<in> set (em_workers w)" for k
    using that dns_unique(1) [OF o] Some by (metis in_set_conv_nth)
  then have "\<forall>k \<in> set (em_workers w). dns_on (wk_dnsbase k) (wk_base k) (AList.delete d (em_dnsbases w))"
    using o by (auto simp: em_owned_def intro: dns_on_delete)
  moreover have "mset (map fst (AList.delete d (em_dnsbases w))) = worker_dns (em_workers w)"
    using o Some by (simp add: keys_delete em_owned_def del: mset_map)
  ultimately have "em_owned ((evdns_base_free d w)\<lparr>em_dnsbase := None\<rparr>)"
    using o touch_owned(3) [OF o Some] by (auto simp: em_owned_def evdns_base_free_def distinct_removeAll delete_keys dns_on_def [of None])
  moreover have "em_state ((evdns_base_free d w)\<lparr>em_dnsbase := None\<rparr>)"
    using assms touch_owned(3) [OF o Some] by (auto simp: em_inv_def em_state_def evdns_base_free_def)
  ultimately show ?thesis by (simp add: cleanup_dnsbase_def Some em_inv_def)
qed

lemma detached_inv:
  assumes w: "em_inv w"
  shows "em_inv (detached w)" and "em_dnsbase (detached w) = None" and "em_signals (detached w) = None" and "em_http (detached w) = None"
    and "em_base (detached w) = em_base w" and "em_num (detached w) = em_num w"
proof -
  have "cleanup_signal_events w = w\<lparr>em_signals := None\<rparr>"
    using w by (cases "em_signals w"; cases "em_base w") (auto simp: cleanup_signal_events_def em_inv_def em_state_def touch_owned)
  moreover have s: "em_inv (w\<lparr>em_signals := None\<rparr>)" using w by (auto simp: em_inv_def em_state_def)
  moreover have "cleanup_http (w\<lparr>em_signals := None\<rparr>) = w\<lparr>em_signals := None, em_http := None\<rparr>"
    using s by (cases "em_http w") (auto simp: cleanup_http_def em_inv_def em_state_def touch_owned)
  ultimately have d: "detached w = cleanup_dnsbase (w\<lparr>em_signals := None, em_http := None\<rparr>)" by (simp add: detached_def)
  have h: "em_inv (w\<lparr>em_signals := None, em_http := None\<rparr>)" using w by (auto simp: em_inv_def em_state_def)
  from cleanup_dnsbase_inv [OF h] show "em_inv (detached w)" by (simp add: d)
  show "em_dnsbase (detached w) = None" "em_signals (detached w) = None" "em_http (detached w) = None" "em_base (detached w) = em_base w"
    "em_num (detached w) = em_num w"
    by (auto simp: d cleanup_dnsbase_def evdns_base_free_def touch_dns_def touch_base_def Let_def split: option.split)
qed

lemma eventbase_inv:
  assumes "em_inv w" and "em_dnsbase w = None" and "em_signals w = None" and "em_http w = None"
  shows "em_inv ((cleanup_eventbase w)\<lparr>em_initialized := False, em_looping := False\<rparr>)"
proof (cases "em_base w")
  case None
  with assms show ?thesis by (auto simp: cleanup_eventbase_def em_inv_def em_state_def)
next
  case (Some b)
  have "b \<in> set (em_bases w)" using assms Some owner_alloc(1) by (simp add: em_inv_def)
  with assms Some show ?thesis
    by (auto simp: cleanup_eventbase_def event_base_free_def em_inv_def em_state_def em_owned_def dns_on_def [of None])
qed

lemma loop_exit_inv:
  assumes "em_inv w"
  shows "em_inv (loop_exit w)"
proof -
  have "em_inv (event_mgr_workers_stop_threads (detached w))" using stop_threads_inv detached_inv(1) [OF assms] by blast
  moreover have "em_dnsbase (event_mgr_workers_stop_threads (detached w)) = None" "em_signals (event_mgr_workers_stop_threads (detached w)) = None"
    "em_http (event_mgr_workers_stop_threads (detached w)) = None" using detached_inv [OF assms] by (simp_all add: event_mgr_workers_stop_threads_def)
  ultimately show ?thesis by (simp add: loop_exit_def Let_def detached_def [symmetric] em_inv_def em_state_def)
qed

lemma full_cleanup_inv:
  assumes "em_inv w"
  shows "em_inv (full_cleanup w)" and "em_bases (full_cleanup w) = [] \<and> em_dnsbases (full_cleanup w) = []"
proof -
  let ?v = "event_mgr_workers_shutdown (detached w)"
  have s: "em_inv (event_mgr_workers_stop_threads (detached w))" using stop_threads_inv detached_inv(1) [OF assms] by blast
  have v: "em_inv ?v" "\<forall>k \<in> set (em_workers ?v). idle k" using free_bases_inv [OF s] by (simp_all add: event_mgr_workers_shutdown_def)
  have n: "em_dnsbase ?v = None" "em_signals ?v = None" "em_http ?v = None"
    using detached_inv [OF assms] by (simp_all add: event_mgr_workers_shutdown_def event_mgr_workers_stop_threads_def)
  note f = eventbase_inv [OF v(1) n]
  then show inv: "em_inv (full_cleanup w)"
    by (simp add: full_cleanup_def reset_state_def detached_def [symmetric] em_inv_def em_state_def)
  have "em_base (full_cleanup w) = None" "em_dnsbase (full_cleanup w) = None" "em_workers (full_cleanup w) = em_workers ?v"
    using n by (auto simp: full_cleanup_def reset_state_def detached_def [symmetric] cleanup_eventbase_def event_base_free_def split: option.split)
  with inv all_idle [OF v(2)] show "em_bases (full_cleanup w) = [] \<and> em_dnsbases (full_cleanup w) = []"
    by (auto simp: em_inv_def em_owned_def)
qed

lemma loop_cleanup_inv:
  assumes w: "em_inv w" and "\<not> em_initialized w"
  shows "em_inv (event_mgr_loop_cleanup w)" and "em_bases (event_mgr_loop_cleanup w) = [] \<and> em_dnsbases (event_mgr_loop_cleanup w) = []"
proof -
  let ?v = "event_mgr_workers_free_bases w"
  have v: "em_inv ?v" "\<forall>k \<in> set (em_workers ?v). idle k" using free_bases_inv [OF w] by simp_all
  have n: "em_dnsbase ?v = None" "em_signals ?v = None" "em_http ?v = None" "\<not> em_initialized ?v" "\<not> em_looping ?v"
    using assms by (simp_all add: em_inv_def em_state_def)
  have same: "em_initialized (cleanup_eventbase ?v) = False" "em_looping (cleanup_eventbase ?v) = False"
    using n by (auto simp: cleanup_eventbase_def event_base_free_def split: option.split)
  have "(cleanup_eventbase ?v)\<lparr>em_initialized := False, em_looping := False\<rparr> = cleanup_eventbase ?v"
    by (intro event_mgr.equality) (use same in simp_all)
  with eventbase_inv [OF v(1) n(1-3)] show inv: "em_inv (event_mgr_loop_cleanup w)" by (simp add: event_mgr_loop_cleanup_def)
  have "em_base (event_mgr_loop_cleanup w) = None" "em_dnsbase (event_mgr_loop_cleanup w) = None" "em_workers (event_mgr_loop_cleanup w) = em_workers ?v"
    using n by (auto simp: event_mgr_loop_cleanup_def cleanup_eventbase_def event_base_free_def split: option.split)
  with inv all_idle [OF v(2)] show "em_bases (event_mgr_loop_cleanup w) = [] \<and> em_dnsbases (event_mgr_loop_cleanup w) = []"
    by (auto simp: em_inv_def em_owned_def)
qed

lemma init_base: "em_inv w \<Longrightarrow> em_base (snd (event_mgr_init e w)) = Some b \<Longrightarrow> em_initialized (snd (event_mgr_init e w))"
  by (auto simp: event_mgr_init_def Let_def evdns_base_new_def touch_base_def split: option.splits if_splits)

lemma enter_inv:
  assumes "em_inv w"
  shows "em_inv (loop_enter e w)"
proof (cases "em_base (snd (event_mgr_init e w))")
  case None
  with init_inv [OF assms, of e] show ?thesis by (simp add: loop_enter_def Let_def em_inv_def)
next
  case (Some b)
  let ?v = "snd (event_mgr_init e w)"
  have v: "em_inv (?v\<lparr>em_looping := True\<rparr>)"
    using init_inv [OF assms, of e] init_base [OF assms Some] by (simp add: em_inv_def em_state_def)
  with Some have "touch_base b (?v\<lparr>em_looping := True\<rparr>) = ?v\<lparr>em_looping := True\<rparr>" by (simp add: em_inv_def touch_owned)
  with v Some show ?thesis by (simp add: loop_enter_def Let_def)
qed

lemma base_alloc:
  assumes "em_inv w" and "event_mgr_base e w = (b, w')"
  shows "em_inv w'" and "em_base w' = b" and "b \<noteq> None \<Longrightarrow> em_initialized w'"
proof -
  show "em_inv w'" "em_base w' = b" using base_inv [OF assms(1), of e] assms(2) by (auto simp: event_mgr_base_def Let_def)
  then show "b \<noteq> None \<Longrightarrow> em_initialized w'"
    using init_base [OF ensure_base_inv [OF assms(1)], of e e] assms(2) by (auto simp: event_mgr_base_def Let_def)
qed

lemma em_step_inv:
  assumes w: "em_inv w" and ok: "em_allowed x w"
  shows "em_inv (em_step x w)"
proof (cases x)
  case (EmBase e)
  with w show ?thesis by (simp add: em_step_def base_inv)
next
  case EmResolve
  with w show ?thesis by (auto simp: em_step_def event_mgr_dnsbase_def em_inv_def touch_owned split: option.split)
next
  case (EmHttp e)
  obtain b w' where b: "event_mgr_base e w = (b, w')" by (cases "event_mgr_base e w")
  with base_alloc [OF w b] have "em_inv (w'\<lparr>em_http := b\<rparr>)" by (cases b) (auto simp: em_inv_def em_state_def)
  with EmHttp b show ?thesis by (simp add: em_step_def)
next
  case (EmWorkers e n)
  with w ok show ?thesis by (simp add: em_step_def em_allowed_def workers_init_inv)
next
  case EmNext
  with w show ?thesis by (simp add: em_step_def event_mgr_next_worker_def em_inv_def)
next
  case (EmWorkerBase e i)
  show ?thesis
  proof (cases "i < 0 \<or> int (em_num w) \<le> i")
    case True
    obtain b w' where b: "event_mgr_base e w = (b, w')" by (cases "event_mgr_base e w")
    with True EmWorkerBase base_alloc [OF w b] show ?thesis
      by (auto simp: em_step_def event_mgr_worker_base_def em_inv_def touch_owned split: option.split)
  next
    case False
    then have "em_workers w ! nat i \<in> set (em_workers w)" using worker_at [OF w, of "nat i"] by auto
    with False EmWorkerBase w show ?thesis
      by (auto simp: em_step_def event_mgr_worker_base_def em_inv_def touch_owned split: option.split)
  qed
next
  case (EmEnter e)
  with w show ?thesis by (simp add: em_step_def enter_inv)
next
  case EmExit
  with w show ?thesis by (simp add: em_step_def loop_exit_inv)
next
  case (EmSignal sig)
  with w show ?thesis by (simp add: em_step_def signal_cb_def break_id)
next
  case EmBreak
  with w show ?thesis by (simp add: em_step_def break_id)
next
  case EmCleanup
  with w show ?thesis by (simp add: em_step_def event_mgr_cleanup_def full_cleanup_inv)
next
  case EmLoopCleanup
  with w ok show ?thesis by (simp add: em_step_def em_allowed_def loop_cleanup_inv)
qed

inductive em_reaches :: "event_mgr \<Rightarrow> bool" where
  em_starts: "em_reaches em_start"
| em_goes: "em_reaches w \<Longrightarrow> em_allowed x w \<Longrightarrow> em_reaches (em_step x w)"

lemma start_inv: "em_inv em_start"
proof -
  have "\<forall>k \<in> set (em_workers em_start). idle k" by (simp add: em_start_def no_worker_def idle_def)
  with all_idle [OF this] show ?thesis
    by (simp add: em_inv_def em_owned_def em_state_def em_start_def dns_on_def no_worker_def idle_def)
qed

lemma em_reaches_inv: "em_reaches w \<Longrightarrow> em_inv w"
  by (induction rule: em_reaches.induct) (simp_all add: start_inv em_step_inv)

section \<open>Properties\<close>

text \<open>
  (C28) Life cycle of the event manager. In every state that its use in the documented order leads to (the loop is cleaned up after it has ended, the
  manager outside a loop, and workers are started once), no event base and no DNS base is used after it was freed, and every one that is
  allocated belongs to the manager or to one worker. Cleaning up frees all of them, both with \<open>event_mgr_cleanup\<close> while the
  manager is initialised and with \<open>event_mgr_loop_cleanup\<close> after a loop.
\<close>

theorem event_mgr_lifecycle:
  assumes "em_reaches w"
  shows "\<not> em_bad w
    \<and> mset (em_bases w) = some_mset (em_base w) + sum_list (map (\<lambda>k. some_mset (wk_base k)) (em_workers w))
    \<and> mset (map fst (em_dnsbases w)) = some_mset (em_dnsbase w) + sum_list (map (\<lambda>k. some_mset (wk_dnsbase k)) (em_workers w))
    \<and> (em_initialized w \<longrightarrow> em_bases (event_mgr_cleanup w) = [] \<and> em_dnsbases (event_mgr_cleanup w) = [])
    \<and> (\<not> em_initialized w \<longrightarrow> em_bases (event_mgr_loop_cleanup w) = [] \<and> em_dnsbases (event_mgr_loop_cleanup w) = [])"
proof -
  note inv = em_reaches_inv [OF assms]
  then have "em_owned w" by (simp add: em_inv_def)
  then show ?thesis
    using full_cleanup_inv(2) [OF inv] loop_cleanup_inv(2) [OF inv]
    by (simp add: em_owned_def worker_bases_def worker_dns_def event_mgr_cleanup_def)
qed

definition sample_ee :: event_env where
  "sample_ee = \<lparr>ee_base = True, ee_dns = True, ee_worker = (\<lambda>_. (True, True, True))\<rparr>"

theorem event_mgr_lifecycle_witness:
  "let w = em_step EmExit (em_step (EmEnter sample_ee) (em_step (EmWorkers sample_ee 2) em_start))
   in em_reaches w \<and> em_bases w = [1, 3, 5] \<and> em_dnsbases w = [(2, 1), (4, 3)] \<and> em_bases (event_mgr_loop_cleanup w) = []"
proof -
  let ?w = "em_step EmExit (em_step (EmEnter sample_ee) (em_step (EmWorkers sample_ee 2) em_start))"
  have r: "em_reaches ?w" by (intro em_goes em_starts) (simp_all add: em_allowed_def em_start_def)
  have "em_bases ?w = [1, 3, 5] \<and> em_dnsbases ?w = [(2, 1), (4, 3)] \<and> \<not> em_initialized ?w" by code_simp
  with event_mgr_lifecycle [OF r] r show ?thesis by (simp add: Let_def)
qed

fun next_workers :: "nat \<Rightarrow> event_mgr \<Rightarrow> int list" where
  "next_workers 0 w = []"
| "next_workers (Suc k) w = (case event_mgr_next_worker w of (i, w') \<Rightarrow> i # next_workers k w')"

lemma next_workers_map:
  "0 < em_num w \<Longrightarrow> unat (em_idx w) + k \<le> 2 ^ 32 \<Longrightarrow> next_workers k w = map (\<lambda>j. int ((unat (em_idx w) + j) mod em_num w)) [0..<k]"
proof (induction k arbitrary: w)
  case (Suc k)
  let ?w = "w\<lparr>em_idx := em_idx w + 1\<rparr>"
  have nx: "unat (em_idx w + 1) = Suc (unat (em_idx w))" if "0 < k"
    using Suc.prems(2) that unat_add_lem [of "em_idx w" 1] by simp
  have "next_workers k ?w = map (\<lambda>j. int ((unat (em_idx w) + Suc j) mod em_num w)) [0..<k]"
    by (cases "k = 0") (use Suc.IH [of ?w] Suc.prems nx in simp_all)
  then show ?case using Suc.prems(1)
    by (simp add: event_mgr_next_worker_def upt_conv_Cons map_Suc_upt [symmetric] del: upt_Suc)
qed simp

lemma window_mod:
  assumes "0 < (n :: nat)"
  shows "(\<lambda>j. (a + j) mod n) ` {0..<n} = {0..<n}"
proof -
  have "inj_on (\<lambda>j. (a + j) mod n) {0..<n}"
  proof (rule inj_onI)
    fix i j assume ij: "i \<in> {0..<n}" "j \<in> {0..<n}" "(a + i) mod n = (a + j) mod n"
    then obtain p q where "a + i + n * p = a + j + n * q" by (metis nat_mod_eq_iff)
    then have "i mod n = j mod n" by (metis add.assoc add_left_cancel nat_mod_eq_iff)
    with ij show "i = j" by simp
  qed
  then show ?thesis using assms by (intro endo_inj_surj) auto
qed

text \<open>
  (C29) Round robin: with \<open>n\<close> workers any \<open>n\<close> successive choices take every worker once, unless the 32-bit counter wraps in between; the
  choice is always the number of a worker.
\<close>

theorem event_mgr_round_robin:
  assumes "0 < em_num w" and "unat (em_idx w) + em_num w \<le> 2 ^ 32"
  shows "distinct (next_workers (em_num w) w) \<and> set (next_workers (em_num w) w) = {0..<int (em_num w)}"
proof -
  let ?f = "\<lambda>j. int ((unat (em_idx w) + j) mod em_num w)"
  have "set (next_workers (em_num w) w) = int ` (\<lambda>j. (unat (em_idx w) + j) mod em_num w) ` {0..<em_num w}"
    using assms by (simp add: next_workers_map image_image)
  also have "\<dots> = {0..<int (em_num w)}" by (simp add: window_mod [OF assms(1)] image_int_atLeastLessThan)
  finally have s: "set (next_workers (em_num w) w) = {0..<int (em_num w)}" .
  moreover have "length (next_workers (em_num w) w) = card (set (next_workers (em_num w) w))"
    unfolding s using assms by (simp add: next_workers_map)
  ultimately show ?thesis using card_distinct by metis
qed

theorem event_mgr_round_robin_witness:
  "let w = em_step (EmWorkers sample_ee 3) em_start in distinct (next_workers 3 w) \<and> set (next_workers 3 w) = {0, 1, 2}"
proof -
  let ?w = "em_step (EmWorkers sample_ee 3) em_start"
  have i: "em_num ?w = 3 \<and> em_idx ?w = 0"
    by (simp add: em_step_def event_mgr_workers_init_def EVENT_MGR_MAX_WORKERS_def upt_conv_Cons start_worker_def sample_ee_def event_base_new_def
        evdns_base_new_def touch_base_def upd_worker_def em_start_def Let_def)
  have "{0..<3} = {0, 1, 2 :: int}" by auto
  with event_mgr_round_robin [of ?w] i show ?thesis by (simp add: Let_def)
qed

lemma stopped_threads:
  assumes "em_inv w" and "i < em_num w"
  shows "\<not> wk_thread (em_workers (event_mgr_workers_stop_threads w) ! i)"
proof -
  have "em_inv w \<Longrightarrow> \<forall>i \<in> set is. i < em_num w \<Longrightarrow> i \<in> set is \<or> \<not> wk_thread (em_workers w ! i) \<Longrightarrow>
     \<not> wk_thread (em_workers (fold stop_worker is w) ! i)" for "is" w
  proof (induction "is" arbitrary: w)
    case (Cons j "is")
    have "i \<in> set is \<or> \<not> wk_thread (em_workers (stop_worker j w) ! i)"
      using Cons.prems worker_at [OF Cons.prems(1), of j]
      by (cases "j = i") (auto simp: stop_worker_def Let_def upd_worker_def touch_base_def nth_list_update split: option.split)
    with Cons show ?case by (simp add: stop_worker_inv)
  qed simp
  from this [of w "[0..<em_num w]"] assms show ?thesis by (simp add: event_mgr_workers_stop_threads_def)
qed

lemma enter_workers [simp]:
  "em_workers (loop_enter e w) = em_workers w" "em_num (loop_enter e w) = em_num w"
  by (simp_all add: loop_enter_def event_mgr_init_def ensure_base_def event_base_new_def evdns_base_new_def touch_base_def Let_def split: option.split prod.split)

text \<open>
  Two ways to leave the documented order. Cleaning up a loop that has not run, as the unit tests do, frees the base but keeps the DNS base that lives on it:
  the next name that is resolved uses freed memory. And at the end of a loop the worker threads are
  stopped for good but stay in the rotation: a second loop hands every accepted connection to a worker without a thread.
\<close>

lemma event_mgr_misuse:
  "em_bad (fold em_step [EmBase sample_ee, EmLoopCleanup, EmBase sample_ee, EmResolve] em_start)
   \<and> (\<forall>w. em_reaches w \<longrightarrow> 0 < em_num w \<longrightarrow>
        (case event_mgr_next_worker (loop_enter sample_ee (loop_exit w)) of
           (i, w') \<Rightarrow> nat i < em_num w \<and> \<not> wk_thread (em_workers w' ! nat i)))"
proof (intro conjI allI impI)
  show "em_bad (fold em_step [EmBase sample_ee, EmLoopCleanup, EmBase sample_ee, EmResolve] em_start)" by code_simp
next
  fix w assume "em_reaches w" and n: "0 < em_num w"
  then have d: "em_inv (detached w)" "em_num (detached w) = em_num w" using em_reaches_inv detached_inv by blast+
  let ?v = "event_mgr_workers_stop_threads (detached w)"
  have v: "em_num ?v = em_num w" using stop_threads_inv [OF d(1)] d(2) by simp
  have "unat (em_idx (loop_enter sample_ee (loop_exit w))) mod em_num w < em_num w" using n by simp
  with stopped_threads [OF d(1)] d(2) n v
  show "case event_mgr_next_worker (loop_enter sample_ee (loop_exit w)) of (i, w') \<Rightarrow> nat i < em_num w \<and> \<not> wk_thread (em_workers w' ! nat i)"
    by (simp add: event_mgr_next_worker_def loop_exit_def Let_def detached_def [symmetric])
qed

lemma event_mgr_misuse_witness:
  "let w = em_step (EmEnter sample_ee) (em_step (EmWorkers sample_ee 2) em_start)
   in em_reaches w \<and> wk_thread (em_workers w ! 0)
      \<and> (case event_mgr_next_worker (loop_enter sample_ee (loop_exit w)) of (i, w') \<Rightarrow> nat i < 2 \<and> \<not> wk_thread (em_workers w' ! nat i))"
proof -
  let ?w = "em_step (EmEnter sample_ee) (em_step (EmWorkers sample_ee 2) em_start)"
  have r: "em_reaches ?w" by (intro em_goes em_starts) (simp_all add: em_allowed_def em_start_def)
  have "em_num ?w = 2" "wk_thread (em_workers ?w ! 0)" by code_simp+
  with event_mgr_misuse r show ?thesis by (auto simp: Let_def)
qed

end
