(* ===== verification/Fifo.thy ===== *)
theory Fifo
  imports Prelude "HOL-Library.Multiset"
begin

text \<open>
  Named pipes, \<open>src/fifo.c\<close>: opening one, the callbacks of its two events, sending and closing. Descriptors, events and registry
  slots are identified by numbers; those in use are in explicit multisets. \<open>fw_bad\<close> records that one was released twice,
  \<open>fw_undefined\<close> that a C or Lua function was called against its contract; neither is part of the program.
\<close>

section \<open>State\<close>

record FIFO =
  ff_socket :: "nat option"
  ff_name :: "string option"
  ff_delete_on_close :: bool
  ff_onReadRef :: "nat option"
  ff_onSendReadyRef :: "nat option"
  ff_onDisconnectedRef :: "nat option"
  ff_read_ev :: "nat option"
  ff_write_ev :: "nat option"

datatype fifo_call = FcRead bytes | FcSendReady | FcDisconnected string

record fifo_world =
  fw_obj :: FIFO
  fw_fds :: "nat multiset"
  fw_events :: "nat multiset"
  fw_pending :: "nat list"
  fw_registry :: "nat multiset"
  fw_next :: nat
  fw_log :: "fifo_call list"
  fw_bad :: bool
  fw_undefined :: bool

definition upd_fifo :: "(FIFO \<Rightarrow> FIFO) \<Rightarrow> fifo_world \<Rightarrow> fifo_world" where
  "upd_fifo f w = w\<lparr>fw_obj := f (fw_obj w)\<rparr>"

section \<open>Releasing\<close>

text \<open>Slot 0 of the registry is not a reference but the head of its list of free slots.\<close>

definition fifo_clear_ref :: "nat option \<Rightarrow> fifo_world \<Rightarrow> fifo_world" where
  "fifo_clear_ref r w =
     (case r of
        None \<Rightarrow> w
      | Some n \<Rightarrow>
          if n = 0 then w\<lparr>fw_undefined := True\<rparr>
          else if n \<in># fw_registry w then w\<lparr>fw_registry := fw_registry w - {#n#}\<rparr> else w\<lparr>fw_bad := True\<rparr>)"

definition free_event :: "nat option \<Rightarrow> fifo_world \<Rightarrow> fifo_world" where
  "free_event ev w =
     (case ev of
        None \<Rightarrow> w
      | Some n \<Rightarrow>
          if n \<in># fw_events w then w\<lparr>fw_events := fw_events w - {#n#}, fw_pending := removeAll n (fw_pending w)\<rparr>
          else w\<lparr>fw_bad := True\<rparr>)"

definition close_fd :: "nat option \<Rightarrow> fifo_world \<Rightarrow> fifo_world" where
  "close_fd fd w =
     (case fd of
        None \<Rightarrow> w
      | Some n \<Rightarrow> if n \<in># fw_fds w then w\<lparr>fw_fds := fw_fds w - {#n#}\<rparr> else w\<lparr>fw_bad := True\<rparr>)"

text \<open>The name that is unlinked is a null pointer when the object was closed before.\<close>

definition luafan_fifo_close :: "fifo_world \<Rightarrow> fifo_world" where
  "luafan_fifo_close w =
     (let w = upd_fifo (\<lambda>f. f\<lparr>ff_onReadRef := None\<rparr>) (fifo_clear_ref (ff_onReadRef (fw_obj w)) w);
          w = upd_fifo (\<lambda>f. f\<lparr>ff_onSendReadyRef := None\<rparr>) (fifo_clear_ref (ff_onSendReadyRef (fw_obj w)) w);
          w = upd_fifo (\<lambda>f. f\<lparr>ff_onDisconnectedRef := None\<rparr>) (fifo_clear_ref (ff_onDisconnectedRef (fw_obj w)) w);
          w = upd_fifo (\<lambda>f. f\<lparr>ff_read_ev := None\<rparr>) (free_event (ff_read_ev (fw_obj w)) w);
          w = upd_fifo (\<lambda>f. f\<lparr>ff_write_ev := None\<rparr>) (free_event (ff_write_ev (fw_obj w)) w);
          w = upd_fifo (\<lambda>f. f\<lparr>ff_socket := None\<rparr>) (close_fd (ff_socket (fw_obj w)) w);
          w = (if ff_delete_on_close (fw_obj w) \<and> ff_name (fw_obj w) = None then w\<lparr>fw_undefined := True\<rparr> else w)
      in upd_fifo (\<lambda>f. f\<lparr>ff_name := None\<rparr>) w)"

definition luafan_fifo_gc :: "fifo_world \<Rightarrow> fifo_world" where
  "luafan_fifo_gc w = luafan_fifo_close w"

section \<open>Callbacks\<close>

text \<open>
  A Lua function that is called may close the object. It is not called if the coroutine cannot be made, or if its slot does not
  hold a function.
\<close>

datatype reaction = NoCoroutine | Returns | Closes

definition fifo_callback :: "reaction \<Rightarrow> nat option \<Rightarrow> fifo_call \<Rightarrow> fifo_world \<Rightarrow> fifo_world" where
  "fifo_callback re r c w =
     (case r of
        None \<Rightarrow> w
      | Some n \<Rightarrow>
          if re = NoCoroutine \<or> n \<notin># fw_registry w then w
          else let w = w\<lparr>fw_log := fw_log w @ [c]\<rparr> in if re = Closes then luafan_fifo_close w else w)"

text \<open>
  What \<open>read\<close> and \<open>write\<close> give. The result is kept in a \<open>size_t\<close>, in which -1 is the largest number, so that both tests for a
  negative length are false.
\<close>

datatype io_result = IoDone nat | IoError string

definition io_len :: "io_result \<Rightarrow> nat" where
  "io_len r = (case r of IoDone n \<Rightarrow> n | IoError _ \<Rightarrow> 2 ^ 64 - 1)"

definition fifo_BUFF_LEN :: nat where "fifo_BUFF_LEN = 64 * 1024"

definition fifo_write_cb :: "reaction \<Rightarrow> fifo_world \<Rightarrow> fifo_world" where
  "fifo_write_cb re w = fifo_callback re (ff_onSendReadyRef (fw_obj w)) FcSendReady w"

text \<open>\<open>buf\<close> is the content of the buffer; a string longer than it must not be pushed.\<close>

definition fifo_read_cb :: "reaction \<Rightarrow> io_result \<Rightarrow> bytes \<Rightarrow> fifo_world \<Rightarrow> fifo_world" where
  "fifo_read_cb re r buf w =
     (if io_len r = 0 then fifo_callback re (ff_onDisconnectedRef (fw_obj w)) (FcDisconnected ''pipe closed.'') w
      else if ff_onReadRef (fw_obj w) = None then w
      else if fifo_BUFF_LEN < io_len r
      then if re = NoCoroutine \<or> the (ff_onReadRef (fw_obj w)) \<notin># fw_registry w then w else w\<lparr>fw_undefined := True\<rparr>
      else fifo_callback re (ff_onReadRef (fw_obj w)) (FcRead (take (io_len r) buf)) w)"

section \<open>Methods\<close>

datatype fifo_result = FrBool bool | FrInt int | FrError string | FrNil string | FrNothing | FrObject

definition luafan_fifo_send_request :: "fifo_world \<Rightarrow> fifo_result \<times> fifo_world" where
  "luafan_fifo_send_request w =
     (case ff_write_ev (fw_obj w) of
        Some n \<Rightarrow> (FrBool True, w\<lparr>fw_pending := List.insert n (fw_pending w)\<rparr>)
      | None \<Rightarrow> if ff_onSendReadyRef (fw_obj w) = None then (FrError ''onsendready not defined.'', w) else (FrBool False, w))"

definition luafan_fifo_send :: "reaction \<Rightarrow> io_result \<Rightarrow> bytes option \<Rightarrow> fifo_world \<Rightarrow> fifo_result \<times> fifo_world" where
  "luafan_fifo_send re r data w =
     (case data of
        None \<Rightarrow> (FrInt 0, w)
      | Some bs \<Rightarrow>
          if bs = [] then (FrInt 0, w)
          else
            let w = (if io_len r = 0
                     then
                       let w = fifo_callback re (ff_onDisconnectedRef (fw_obj w)) (FcDisconnected ''pipe closed.'') w
                       in upd_fifo (\<lambda>f. f\<lparr>ff_write_ev := None\<rparr>) (free_event (ff_write_ev (fw_obj w)) w)
                     else w)
            in (FrInt (sint (word_of_nat (io_len r) :: u64)), w))"

section \<open>Opening\<close>

datatype file_kind = Missing | Regular | IsFifo | OtherKind

text \<open>
  The options: the functions that are given, and the mode, whose default is \<open>"rn"\<close>. The environment says what is at the name, whether
  \<open>mkfifo\<close> succeeds, after what is there was unlinked, and the error of \<open>open\<close>.
\<close>

datatype mode_option = ModeAbsent | ModeString string | ModeWrongType

definition opt_mode :: "mode_option \<Rightarrow> string option" where
  "opt_mode m = (case m of ModeAbsent \<Rightarrow> Some ''rn'' | ModeString s \<Rightarrow> Some s | ModeWrongType \<Rightarrow> None)"

record fifo_options =
  fo_name :: string
  fo_delete_on_close :: bool
  fo_rwmode :: mode_option
  fo_onread :: bool
  fo_onsendready :: bool
  fo_ondisconnected :: bool

record fifo_env =
  fe_kind :: file_kind
  fe_mkfifo :: bool
  fe_open :: "string option"

definition func_ref :: "bool \<Rightarrow> fifo_world \<Rightarrow> nat option \<times> fifo_world" where
  "func_ref given w =
     (if given then (Some (fw_next w), w\<lparr>fw_next := fw_next w + 1, fw_registry := add_mset (fw_next w) (fw_registry w)\<rparr>) else (None, w))"

definition new_event :: "bool \<Rightarrow> fifo_world \<Rightarrow> nat option \<times> fifo_world" where
  "new_event given w =
     (if given
      then (Some (fw_next w), w\<lparr>fw_next := fw_next w + 1, fw_events := add_mset (fw_next w) (fw_events w), fw_pending := fw_pending w @ [fw_next w]\<rparr>)
      else (None, w))"

definition no_fifo :: FIFO where
  "no_fifo = \<lparr>ff_socket = None, ff_name = None, ff_delete_on_close = False, ff_onReadRef = None, ff_onSendReadyRef = None, ff_onDisconnectedRef = None,
     ff_read_ev = None, ff_write_ev = None\<rparr>"

text \<open>A new object has zero in all its references, which is not \<open>LUA_NOREF\<close>.\<close>

definition zero_fifo :: "fifo_options \<Rightarrow> FIFO" where
  "zero_fifo opt = no_fifo\<lparr>ff_name := Some (fo_name opt), ff_delete_on_close := fo_delete_on_close opt, ff_onReadRef := Some 0,
     ff_onSendReadyRef := Some 0, ff_onDisconnectedRef := Some 0\<rparr>"

definition fifo_refs :: "fifo_options \<Rightarrow> string \<Rightarrow> fifo_world \<Rightarrow> fifo_world" where
  "fifo_refs opt rwmode w =
     (let (r, w) = func_ref (CHR ''r'' \<in> set rwmode \<and> fo_onread opt) w;
          (s, w) = func_ref (CHR ''w'' \<in> set rwmode \<and> fo_onsendready opt) w;
          (d, w) = func_ref (CHR ''w'' \<in> set rwmode \<and> fo_ondisconnected opt) w
      in upd_fifo (\<lambda>f. f\<lparr>ff_onReadRef := r, ff_onSendReadyRef := s, ff_onDisconnectedRef := d\<rparr>) w)"

definition fifo_events :: "fifo_world \<Rightarrow> fifo_world" where
  "fifo_events w =
     (let (we, w) = new_event (ff_onSendReadyRef (fw_obj w) \<noteq> None) w;
          (re, w) = new_event (ff_onReadRef (fw_obj w) \<noteq> None) w
      in upd_fifo (\<lambda>f. f\<lparr>ff_write_ev := we, ff_read_ev := re\<rparr>) w)"

definition open_fifo :: "fifo_world \<Rightarrow> fifo_world" where
  "open_fifo w =
     upd_fifo (\<lambda>f. f\<lparr>ff_socket := Some (fw_next w)\<rparr>) (w\<lparr>fw_next := fw_next w + 1, fw_fds := add_mset (fw_next w) (fw_fds w)\<rparr>)"

definition luafan_fifo_connect :: "fifo_env \<Rightarrow> fifo_options \<Rightarrow> fifo_world \<Rightarrow> fifo_result \<times> fifo_world" where
  "luafan_fifo_connect e opt w =
     (if fe_kind e = Regular then (FrError (''regular file exists: '' @ fo_name opt), w)
      else if fe_kind e \<noteq> IsFifo \<and> \<not> fe_mkfifo e then (FrNothing, w)
      else
        let w = w\<lparr>fw_obj := zero_fifo opt\<rparr>
        in case opt_mode (fo_rwmode opt) of
             None \<Rightarrow> (FrError ''string expected'', w)
           | Some rwmode \<Rightarrow>
               let w = fifo_refs opt rwmode w
               in case fe_open e of
                    Some err \<Rightarrow> (FrNil err, w)
                  | None \<Rightarrow> (FrObject, fifo_events (open_fifo w)))"

definition fifo_start :: fifo_world where
  "fifo_start = \<lparr>fw_obj = no_fifo, fw_fds = {#}, fw_events = {#}, fw_pending = [], fw_registry = {#}, fw_next = 1, fw_log = [], fw_bad = False,
     fw_undefined = False\<rparr>"

section \<open>Use\<close>

text \<open>The read event is persistent; the write event fires once each time that it is added.\<close>

datatype fifo_event =
    FeRead reaction io_result bytes | FeWrite reaction | FeSend reaction io_result "bytes option" | FeSendRequest | FeClose

definition fifo_step :: "fifo_event \<Rightarrow> fifo_world \<Rightarrow> fifo_world" where
  "fifo_step x w =
     (case x of
        FeRead re r buf \<Rightarrow>
          (case ff_read_ev (fw_obj w) of Some n \<Rightarrow> if n \<in> set (fw_pending w) then fifo_read_cb re r buf w else w | None \<Rightarrow> w)
      | FeWrite re \<Rightarrow>
          (case ff_write_ev (fw_obj w) of
             Some n \<Rightarrow> if n \<in> set (fw_pending w) then fifo_write_cb re (w\<lparr>fw_pending := removeAll n (fw_pending w)\<rparr>) else w
           | None \<Rightarrow> w)
      | FeSend re r data \<Rightarrow> snd (luafan_fifo_send re r data w)
      | FeSendRequest \<Rightarrow> snd (luafan_fifo_send_request w)
      | FeClose \<Rightarrow> luafan_fifo_close w)"

inductive fifo_reaches :: "fifo_world \<Rightarrow> bool" where
  fifo_opens: "fo_rwmode opt \<noteq> ModeWrongType \<Longrightarrow> fifo_reaches (snd (luafan_fifo_connect e opt fifo_start))"
| fifo_goes: "fifo_reaches w \<Longrightarrow> fifo_reaches (fifo_step x w)"

section \<open>Invariant\<close>

definition in_use :: "'a option \<Rightarrow> 'a multiset" where
  "in_use x = (case x of Some a \<Rightarrow> {#a#} | None \<Rightarrow> {#})"

lemma in_use_simps [simp]: "in_use None = {#}" "in_use (Some a) = {#a#}"
  by (simp_all add: in_use_def)

text \<open>Everything in use is held by the object, once.\<close>

definition fifo_ok :: "fifo_world \<Rightarrow> bool" where
  "fifo_ok w \<longleftrightarrow>
     \<not> fw_bad w \<and> 0 \<notin># fw_registry w
     \<and> fw_fds w = in_use (ff_socket (fw_obj w))
     \<and> fw_events w = in_use (ff_read_ev (fw_obj w)) + in_use (ff_write_ev (fw_obj w))
     \<and> fw_registry w = in_use (ff_onReadRef (fw_obj w)) + in_use (ff_onSendReadyRef (fw_obj w)) + in_use (ff_onDisconnectedRef (fw_obj w))"

lemma fifo_clear_ref_held: "fw_registry w = in_use r + M \<Longrightarrow> 0 \<notin># fw_registry w \<Longrightarrow> fifo_clear_ref r w = w\<lparr>fw_registry := M\<rparr>"
  by (cases r) (auto simp: fifo_clear_ref_def)

lemma free_event_held: "fw_events w = in_use ev + M \<Longrightarrow> \<exists>p. free_event ev w = w\<lparr>fw_events := M, fw_pending := p\<rparr>"
  by (cases ev) (auto simp: free_event_def intro: exI [of _ "fw_pending w"])

lemma close_fd_held: "fw_fds w = in_use fd \<Longrightarrow> close_fd fd w = w\<lparr>fw_fds := {#}\<rparr>"
  by (cases fd) (auto simp: close_fd_def)

definition closed_fifo :: "fifo_world \<Rightarrow> bool" where
  "closed_fifo w \<longleftrightarrow> \<not> fw_bad w \<and> fw_fds w = {#} \<and> fw_events w = {#} \<and> fw_registry w = {#}
     \<and> fw_obj w = no_fifo\<lparr>ff_delete_on_close := ff_delete_on_close (fw_obj w)\<rparr>"

lemma closed_ok: "closed_fifo w \<Longrightarrow> fifo_ok w"
  by (simp add: closed_fifo_def fifo_ok_def) (metis (no_types, lifting) FIFO.select_convs FIFO.update_convs no_fifo_def in_use_simps(1) add_0)

lemma close_closed:
  assumes w: "fifo_ok w"
  shows "closed_fifo (luafan_fifo_close w)" and "fw_log (luafan_fifo_close w) = fw_log w"
proof -
  let ?f = "fw_obj w"
  let ?rs = "in_use (ff_onSendReadyRef ?f) + in_use (ff_onDisconnectedRef ?f)"
  define w1 where "w1 = upd_fifo (\<lambda>f. f\<lparr>ff_onReadRef := None\<rparr>) (w\<lparr>fw_registry := ?rs\<rparr>)"
  have c1: "fifo_clear_ref (ff_onReadRef ?f) w = w\<lparr>fw_registry := ?rs\<rparr>" using w by (intro fifo_clear_ref_held) (auto simp: fifo_ok_def add.assoc)
  define w2 where "w2 = upd_fifo (\<lambda>f. f\<lparr>ff_onSendReadyRef := None\<rparr>) (w1\<lparr>fw_registry := in_use (ff_onDisconnectedRef ?f)\<rparr>)"
  have c2: "fifo_clear_ref (ff_onSendReadyRef ?f) w1 = w1\<lparr>fw_registry := in_use (ff_onDisconnectedRef ?f)\<rparr>"
    using w by (intro fifo_clear_ref_held) (auto simp: fifo_ok_def w1_def upd_fifo_def)
  define w3 where "w3 = upd_fifo (\<lambda>f. f\<lparr>ff_onDisconnectedRef := None\<rparr>) (w2\<lparr>fw_registry := {#}\<rparr>)"
  have c3: "fifo_clear_ref (ff_onDisconnectedRef ?f) w2 = w2\<lparr>fw_registry := {#}\<rparr>"
    using w by (intro fifo_clear_ref_held) (auto simp: fifo_ok_def w2_def upd_fifo_def)
  have "\<exists>p. free_event (ff_read_ev ?f) w3 = w3\<lparr>fw_events := in_use (ff_write_ev ?f), fw_pending := p\<rparr>"
    using w by (intro free_event_held) (simp add: fifo_ok_def w3_def w2_def w1_def upd_fifo_def)
  then obtain p where c4: "free_event (ff_read_ev ?f) w3 = w3\<lparr>fw_events := in_use (ff_write_ev ?f), fw_pending := p\<rparr>" by blast
  define w4 where "w4 = upd_fifo (\<lambda>f. f\<lparr>ff_read_ev := None\<rparr>) (w3\<lparr>fw_events := in_use (ff_write_ev ?f), fw_pending := p\<rparr>)"
  have "\<exists>p. free_event (ff_write_ev ?f) w4 = w4\<lparr>fw_events := {#}, fw_pending := p\<rparr>" by (intro free_event_held) (simp add: w4_def upd_fifo_def)
  then obtain q where c5: "free_event (ff_write_ev ?f) w4 = w4\<lparr>fw_events := {#}, fw_pending := q\<rparr>" by blast
  define w5 where "w5 = upd_fifo (\<lambda>f. f\<lparr>ff_write_ev := None\<rparr>) (w4\<lparr>fw_events := {#}, fw_pending := q\<rparr>)"
  have c6: "close_fd (ff_socket ?f) w5 = w5\<lparr>fw_fds := {#}\<rparr>"
    using w by (intro close_fd_held) (simp add: fifo_ok_def w5_def w4_def w3_def w2_def w1_def upd_fifo_def)
  note ws = w5_def w4_def w3_def w2_def w1_def upd_fifo_def
  have sel: "ff_onSendReadyRef (fw_obj w1) = ff_onSendReadyRef ?f" "ff_onDisconnectedRef (fw_obj w2) = ff_onDisconnectedRef ?f"
    "ff_read_ev (fw_obj w3) = ff_read_ev ?f" "ff_write_ev (fw_obj w4) = ff_write_ev ?f" "ff_socket (fw_obj w5) = ff_socket ?f"
    by (simp_all add: ws)
  have "luafan_fifo_close w = (let v = upd_fifo (\<lambda>f. f\<lparr>ff_socket := None\<rparr>) (w5\<lparr>fw_fds := {#}\<rparr>);
      v = (if ff_delete_on_close (fw_obj v) \<and> ff_name (fw_obj v) = None then v\<lparr>fw_undefined := True\<rparr> else v)
    in upd_fifo (\<lambda>f. f\<lparr>ff_name := None\<rparr>) v)"
    unfolding luafan_fifo_close_def Let_def c1 w1_def [symmetric] sel c2 w2_def [symmetric] c3 w3_def [symmetric] c4 w4_def [symmetric] c5
      w5_def [symmetric] c6 by (rule refl)
  then show "closed_fifo (luafan_fifo_close w)" "fw_log (luafan_fifo_close w) = fw_log w"
    using w by (auto simp: Let_def closed_fifo_def fifo_ok_def no_fifo_def ws)
qed

lemma callback_ok: "fifo_ok w \<Longrightarrow> fifo_ok (fifo_callback re r c w)"
proof -
  assume w: "fifo_ok w"
  then have "fifo_ok (w\<lparr>fw_log := fw_log w @ [c]\<rparr>)" by (auto simp: fifo_ok_def)
  with w show ?thesis by (auto simp: fifo_callback_def Let_def closed_ok close_closed split: option.split)
qed

lemma fifo_ok_frame [simp]:
  "fifo_ok (w\<lparr>fw_undefined := b\<rparr>) = fifo_ok w" "fifo_ok (w\<lparr>fw_pending := p\<rparr>) = fifo_ok w"
  by (simp_all add: fifo_ok_def)

lemma drop_write_ev:
  assumes "fifo_ok w"
  shows "fifo_ok (upd_fifo (\<lambda>f. f\<lparr>ff_write_ev := None\<rparr>) (free_event (ff_write_ev (fw_obj w)) w))"
proof -
  have "\<exists>p. free_event (ff_write_ev (fw_obj w)) w = w\<lparr>fw_events := in_use (ff_read_ev (fw_obj w)), fw_pending := p\<rparr>"
    using assms by (intro free_event_held) (simp add: fifo_ok_def add.commute)
  with assms show ?thesis by (auto simp: fifo_ok_def upd_fifo_def)
qed

lemma fifo_step_ok: "fifo_ok w \<Longrightarrow> fifo_ok (fifo_step x w)"
  by (cases x)
    (auto simp: fifo_step_def fifo_read_cb_def fifo_write_cb_def luafan_fifo_send_def luafan_fifo_send_request_def Let_def callback_ok drop_write_ev
      closed_ok close_closed split: option.split)

text \<open>What opening builds: each reference, event and descriptor is a fresh number.\<close>

definition fresh_world :: "fifo_world \<Rightarrow> bool" where
  "fresh_world w \<longleftrightarrow> fifo_ok w \<and> 0 < fw_next w"

lemma refs_fresh:
  assumes "fw_bad w = False" "fw_registry w = {#}" "fw_events w = {#}" "fw_fds w = {#}" "0 < fw_next w"
    "ff_read_ev (fw_obj w) = None" "ff_write_ev (fw_obj w) = None" "ff_socket (fw_obj w) = None"
  shows "fresh_world (fifo_refs opt m w)" "ff_read_ev (fw_obj (fifo_refs opt m w)) = None" "ff_write_ev (fw_obj (fifo_refs opt m w)) = None"
    "ff_socket (fw_obj (fifo_refs opt m w)) = None"
  using assms by (simp_all add: fifo_refs_def func_ref_def upd_fifo_def fresh_world_def fifo_ok_def Let_def)

lemma open_fresh:
  assumes "fresh_world w" "ff_socket (fw_obj w) = None"
  shows "fresh_world (open_fifo w)" "ff_read_ev (fw_obj (open_fifo w)) = ff_read_ev (fw_obj w)" "ff_write_ev (fw_obj (open_fifo w)) = ff_write_ev (fw_obj w)"
  using assms by (auto simp: open_fifo_def upd_fifo_def fresh_world_def fifo_ok_def)

lemma events_fresh:
  assumes "fresh_world w" "ff_read_ev (fw_obj w) = None" "ff_write_ev (fw_obj w) = None"
  shows "fifo_ok (fifo_events w)"
  using assms by (auto simp: fifo_events_def new_event_def upd_fifo_def fresh_world_def fifo_ok_def Let_def)

lemma connect_ok:
  assumes "fo_rwmode opt \<noteq> ModeWrongType"
  shows "fifo_ok (snd (luafan_fifo_connect e opt fifo_start))"
proof -
  obtain m where m: "opt_mode (fo_rwmode opt) = Some m" using assms by (cases "fo_rwmode opt") (auto simp: opt_mode_def)
  let ?w = "fifo_refs opt m (fifo_start\<lparr>fw_obj := zero_fifo opt\<rparr>)"
  have w: "fresh_world ?w" "ff_read_ev (fw_obj ?w) = None" "ff_write_ev (fw_obj ?w) = None" "ff_socket (fw_obj ?w) = None"
    by (rule refs_fresh; simp add: fifo_start_def zero_fifo_def no_fifo_def)+
  have "fifo_ok fifo_start" by (simp add: fifo_ok_def fifo_start_def no_fifo_def)
  moreover have "fifo_ok (fifo_events (open_fifo ?w))" using w open_fresh by (intro events_fresh) auto
  ultimately show ?thesis using w m by (auto simp: luafan_fifo_connect_def Let_def fresh_world_def split: option.split)
qed

lemma fifo_reaches_ok: "fifo_reaches w \<Longrightarrow> fifo_ok w"
  by (induction rule: fifo_reaches.induct) (simp_all add: connect_ok fifo_step_ok)

section \<open>Properties\<close>

text \<open>
  (C32) A named pipe in every state that opening it, its events, sending and closing lead to, whether or not its functions close it: the open
  descriptors, allocated events and used registry slots are exactly those that the object refers to, and none is released twice. Closing it releases
  all of them, and after that no function is called.
\<close>

theorem fifo_resources_balanced:
  assumes "fifo_reaches w"
  shows "\<not> fw_bad w \<and> fw_fds w = in_use (ff_socket (fw_obj w))
    \<and> fw_events w = in_use (ff_read_ev (fw_obj w)) + in_use (ff_write_ev (fw_obj w))
    \<and> fw_registry w = in_use (ff_onReadRef (fw_obj w)) + in_use (ff_onSendReadyRef (fw_obj w)) + in_use (ff_onDisconnectedRef (fw_obj w))
    \<and> (let c = luafan_fifo_close w in fw_fds c = {#} \<and> fw_events c = {#} \<and> fw_registry c = {#} \<and> fw_log (fifo_step x c) = fw_log w)"
proof -
  have w: "fifo_ok w" using assms by (rule fifo_reaches_ok)
  let ?c = "luafan_fifo_close w"
  have c: "closed_fifo ?c" "fw_log ?c = fw_log w" using close_closed [OF w] by auto
  then have o: "ff_read_ev (fw_obj ?c) = None" "ff_write_ev (fw_obj ?c) = None" "ff_onDisconnectedRef (fw_obj ?c) = None" "ff_onSendReadyRef (fw_obj ?c) = None"
    unfolding closed_fifo_def by (metis (no_types) FIFO.select_convs FIFO.update_convs no_fifo_def)+
  have "fw_log (fifo_step x ?c) = fw_log w"
    using c o close_closed(2) [OF closed_ok [OF c(1)]]
    by (cases x) (auto simp: fifo_step_def luafan_fifo_send_def luafan_fifo_send_request_def fifo_callback_def free_event_def upd_fifo_def Let_def split: option.split)
  with w c show ?thesis by (simp add: fifo_ok_def closed_fifo_def Let_def)
qed

definition sample_fo :: fifo_options where
  "sample_fo = \<lparr>fo_name = ''p'', fo_delete_on_close = False, fo_rwmode = ModeString ''rw'', fo_onread = True, fo_onsendready = True, fo_ondisconnected = True\<rparr>"

definition sample_fe :: fifo_env where
  "sample_fe = \<lparr>fe_kind = Missing, fe_mkfifo = True, fe_open = None\<rparr>"

definition sample_fifo :: fifo_world where
  "sample_fifo = snd (luafan_fifo_connect sample_fe sample_fo fifo_start)"

lemmas sample_fifo_defs = sample_fifo_def sample_fe_def sample_fo_def luafan_fifo_connect_def opt_mode_def fifo_refs_def func_ref_def open_fifo_def fifo_events_def
  new_event_def upd_fifo_def zero_fifo_def no_fifo_def fifo_start_def Let_def

theorem fifo_resources_balanced_witness:
  "fifo_reaches sample_fifo \<and> fw_fds sample_fifo = {#4#} \<and> fw_events sample_fifo = {#6, 5#} \<and> fw_registry sample_fifo = {#1, 2, 3#}
   \<and> fw_registry (luafan_fifo_close sample_fifo) = {#}"
proof -
  have r: "fifo_reaches sample_fifo" unfolding sample_fifo_def by (rule fifo_opens) (simp add: sample_fo_def)
  moreover have "fw_obj sample_fifo = \<lparr>ff_socket = Some 4, ff_name = Some ''p'', ff_delete_on_close = False, ff_onReadRef = Some 1,
      ff_onSendReadyRef = Some 2, ff_onDisconnectedRef = Some 3, ff_read_ev = Some 6, ff_write_ev = Some 5\<rparr>"
    by (simp add: sample_fifo_defs)
  ultimately show ?thesis using fifo_resources_balanced [OF r] by (simp add: Let_def)
qed

lemma eof_repeats:
  assumes "ff_onDisconnectedRef (fw_obj w) = Some d" and "d \<in># fw_registry w"
  shows "((fifo_read_cb Returns (IoDone 0) buf) ^^ n) w = w\<lparr>fw_log := fw_log w @ replicate n (FcDisconnected ''pipe closed.'')\<rparr>"
proof (induction n)
  case (Suc n)
  then show ?case using assms by (simp add: fifo_read_cb_def io_len_def fifo_callback_def Let_def replicate_append_same [symmetric])
qed simp

text \<open>
  Errors of \<open>read\<close> and \<open>write\<close> are not noticed, since their results are kept in an unsigned variable. A failed write, as to a pipe without a
  reader, calls nothing and returns -1; a failed read hands a string of \<open>2 ^ 64 - 1\<close> bytes to Lua. And the end of the
  pipe is reported again each time that the event loop looks, because the event stays.
\<close>

lemma fifo_errors_unnoticed:
  assumes "fifo_reaches w"
  shows "(bs \<noteq> [] \<longrightarrow> luafan_fifo_send re (IoError msg) (Some bs) w = (FrInt (- 1), w))
    \<and> (ff_onReadRef (fw_obj w) \<noteq> None \<longrightarrow> fw_undefined (fifo_read_cb Returns (IoError msg) buf w))
    \<and> (ff_onDisconnectedRef (fw_obj w) \<noteq> None \<longrightarrow>
         ((fifo_read_cb Returns (IoDone 0) buf) ^^ n) w = w\<lparr>fw_log := fw_log w @ replicate n (FcDisconnected ''pipe closed.'')\<rparr>)"
proof -
  have reg: "fw_registry w = in_use (ff_onReadRef (fw_obj w)) + in_use (ff_onSendReadyRef (fw_obj w)) + in_use (ff_onDisconnectedRef (fw_obj w))"
    using fifo_reaches_ok [OF assms] by (simp add: fifo_ok_def)
  have minus_one: "sint (word_of_nat (2 ^ 64 - 1) :: u64) = - 1" by simp
  have "fw_undefined (fifo_read_cb Returns (IoError msg) buf w)" if "ff_onReadRef (fw_obj w) = Some r" for r
    using that reg by (simp add: fifo_read_cb_def io_len_def fifo_BUFF_LEN_def)
  moreover have "((fifo_read_cb Returns (IoDone 0) buf) ^^ n) w = w\<lparr>fw_log := fw_log w @ replicate n (FcDisconnected ''pipe closed.'')\<rparr>"
    if "ff_onDisconnectedRef (fw_obj w) = Some d" for d using that reg by (intro eof_repeats) auto
  ultimately show ?thesis using minus_one by (auto simp: luafan_fifo_send_def io_len_def Let_def)
qed

lemma fifo_errors_unnoticed_witness:
  "luafan_fifo_send Returns (IoError ''EPIPE'') (Some [1]) sample_fifo = (FrInt (- 1), sample_fifo)
   \<and> fw_undefined (fifo_read_cb Returns (IoError ''EAGAIN'') [] sample_fifo)"
proof -
  have "fifo_reaches sample_fifo" unfolding sample_fifo_def by (rule fifo_opens) (simp add: sample_fo_def)
  moreover have "ff_onReadRef (fw_obj sample_fifo) = Some 1" by (simp add: sample_fifo_defs)
  ultimately show ?thesis
    using fifo_errors_unnoticed [of sample_fifo "[1]" Returns "''EPIPE''"] fifo_errors_unnoticed [of sample_fifo "[1]" Returns "''EAGAIN''" "[]"] by auto
qed

text \<open>
  Two more ways to go wrong: an object whose mode is no string is collected with references that were never set, which are zero; and closing an
  object with \<open>delete_on_close\<close> a second time, as the collector does, unlinks a null pointer.
\<close>

lemma fifo_bad_mode:
  "fe_kind e = IsFifo \<Longrightarrow> fw_undefined (luafan_fifo_gc (snd (luafan_fifo_connect e (opt\<lparr>fo_rwmode := ModeWrongType\<rparr>) fifo_start)))"
  by (simp add: luafan_fifo_connect_def opt_mode_def luafan_fifo_gc_def luafan_fifo_close_def fifo_clear_ref_def free_event_def close_fd_def zero_fifo_def no_fifo_def fifo_start_def
      upd_fifo_def Let_def)

lemma release_name [simp]:
  "ff_name (fw_obj (fifo_clear_ref r w)) = ff_name (fw_obj w)" "ff_delete_on_close (fw_obj (fifo_clear_ref r w)) = ff_delete_on_close (fw_obj w)"
  "ff_name (fw_obj (free_event ev w)) = ff_name (fw_obj w)" "ff_delete_on_close (fw_obj (free_event ev w)) = ff_delete_on_close (fw_obj w)"
  "ff_name (fw_obj (close_fd fd w)) = ff_name (fw_obj w)" "ff_delete_on_close (fw_obj (close_fd fd w)) = ff_delete_on_close (fw_obj w)"
  by (simp_all add: fifo_clear_ref_def free_event_def close_fd_def split: option.split)

lemma fifo_closed_twice:
  assumes "ff_delete_on_close (fw_obj w)"
  shows "fw_undefined (luafan_fifo_gc (luafan_fifo_close w))"
proof -
  let ?c = "luafan_fifo_close w"
  have n: "ff_delete_on_close (fw_obj ?c)" "ff_name (fw_obj ?c) = None" using assms by (simp_all add: luafan_fifo_close_def upd_fifo_def Let_def)
  show ?thesis unfolding luafan_fifo_gc_def luafan_fifo_close_def [of ?c] using n by (simp add: upd_fifo_def Let_def)
qed

end
