(* ===== verification/Popen.thy ===== *)
theory Popen
  imports C_Numbers Fifo "HOL-Library.Sublist"
begin

text \<open>
  Child processes, \<open>src/popen.c\<close>: the words of the command, the environment of the child, its three standard descriptors, the events of the
  two output pipes, and the end of the child with its exit code. Descriptors, events and registry slots are in explicit multisets as for
  named pipes; \<open>pw_blocks\<close> counts allocated blocks of memory. \<open>pw_bad\<close> records that something was released
  twice or that a signal was sent to a process that was already waited for, whose number may belong to another one.
\<close>

section \<open>The command\<close>

text \<open>\<open>strtok_r\<close> with blanks, for at most \<open>n\<close> words.\<close>

definition blank :: "u8 \<Rightarrow> bool" where "blank c \<longleftrightarrow> c = 0x20"

fun strtok_words :: "nat \<Rightarrow> bytes \<Rightarrow> bytes list" where
  "strtok_words 0 s = []"
| "strtok_words (Suc n) s =
     (let s = dropWhile blank s
      in if s = [] then [] else takeWhile (\<lambda>c. \<not> blank c) s # strtok_words n (dropWhile (\<lambda>c. \<not> blank c) s))"

text \<open>An item of the command is None if it is neither a string nor a number. The result has the number of blocks allocated.\<close>

datatype command = CmdArray "bytes option list" | CmdString bytes | CmdOther

definition parse_command :: "allocator \<Rightarrow> command \<Rightarrow> string + bytes list \<times> nat" where
  "parse_command al c =
     (case c of
        CmdArray items \<Rightarrow>
          if items = [] then Inl ''command array is empty''
          else if 255 < length items then Inl ''command array too large (max 255)''
          else if None \<in> set items then Inl ''string expected''
          else Inr (map (c_string \<circ> the) items, 0)
      | CmdString s \<Rightarrow>
          if \<not> can_alloc al (length (c_string s) + 1) then Inl ''out of memory''
          else Inr (strtok_words 255 (c_string s), 1)
      | CmdOther \<Rightarrow> Inl ''command must be a string or array'')"

section \<open>The environment\<close>

text \<open>Keys and values of the table, in the order of \<open>lua_next\<close>; only pairs of strings are used.\<close>

datatype env_item = EiString bytes | EiOther

definition user_strings :: "(env_item \<times> env_item) list \<Rightarrow> (bytes \<times> bytes) list" where
  "user_strings kvs =
     concat (map (\<lambda>(k, v). case (k, v) of (EiString k, EiString v) \<Rightarrow> [(c_string k, c_string v)] | _ \<Rightarrow> []) kvs)"

definition user_count :: "(env_item \<times> env_item) list \<Rightarrow> nat" where
  "user_count kvs = length (filter (\<lambda>(k, v). k \<noteq> EiOther) kvs)"

definition env_entry :: "bytes \<times> bytes \<Rightarrow> bytes" where
  "env_entry kv = fst kv @ 0x3d # snd kv"

text \<open>The key of an entry is what is in front of the first \<open>=\<close>.\<close>

definition env_key :: "bytes \<Rightarrow> bytes" where
  "env_key e = takeWhile (\<lambda>c. c \<noteq> 0x3d) e"

text \<open>A pair whose entry cannot be allocated is skipped, and then not shadowed either.\<close>

definition merge_env :: "allocator \<Rightarrow> bytes list \<Rightarrow> (bytes \<times> bytes) list \<Rightarrow> bytes list \<times> nat" where
  "merge_env al environ kvs =
     (let taken = filter (\<lambda>kv. can_alloc al (length (fst kv) + 1 + length (snd kv) + 1)) kvs
      in (map env_entry taken @ filter (\<lambda>e. env_key e \<notin> fst ` set taken) environ, length taken))"

definition build_env :: "allocator \<Rightarrow> bytes list \<Rightarrow> (env_item \<times> env_item) list option \<Rightarrow> string + bytes list \<times> nat" where
  "build_env al environ env =
     (case env of
        None \<Rightarrow> Inr (environ, 0)
      | Some kvs \<Rightarrow>
          if \<not> can_alloc al ((length environ + user_count kvs + 1) * 8) then Inl ''out of memory (env)''
          else if \<not> can_alloc al ((user_count kvs + 1) * 8) then Inl ''out of memory (env keys)''
          else case merge_env al environ (user_strings kvs) of (envp, n) \<Rightarrow> Inr (envp, n + 1))"

section \<open>State\<close>

record POPEN =
  pp_stdin :: "nat option"
  pp_stdout :: "nat option"
  pp_stderr :: "nat option"
  pp_child_pid :: "nat option"
  pp_onReadRef :: "nat option"
  pp_onStderrRef :: "nat option"
  pp_onDisconnectedRef :: "nat option"
  pp_stdout_ev :: "nat option"
  pp_stderr_ev :: "nat option"
  pp_closed :: bool

datatype wait_status = WExited nat | WSignaled nat

text \<open>The child as the kernel sees it; a zombie is waited for once.\<close>

datatype child = ChNone | ChRunning | ChZombie wait_status | ChReaped

datatype popen_call = PcRead bytes | PcStderr bytes | PcDisconnected string int

record popen_world =
  pw_obj :: POPEN
  pw_fds :: "nat multiset"
  pw_events :: "nat multiset"
  pw_registry :: "nat multiset"
  pw_next :: nat
  pw_child :: child
  pw_log :: "popen_call list"
  pw_blocks :: nat
  pw_bad :: bool

definition upd_popen :: "(POPEN \<Rightarrow> POPEN) \<Rightarrow> popen_world \<Rightarrow> popen_world" where
  "upd_popen f w = w\<lparr>pw_obj := f (pw_obj w)\<rparr>"

definition popen_unref :: "nat option \<Rightarrow> popen_world \<Rightarrow> popen_world" where
  "popen_unref r w =
     (case r of
        None \<Rightarrow> w
      | Some n \<Rightarrow> if n \<in># pw_registry w then w\<lparr>pw_registry := pw_registry w - {#n#}\<rparr> else w\<lparr>pw_bad := True\<rparr>)"

definition popen_event_free :: "nat option \<Rightarrow> popen_world \<Rightarrow> popen_world" where
  "popen_event_free ev w =
     (case ev of
        None \<Rightarrow> w
      | Some n \<Rightarrow> if n \<in># pw_events w then w\<lparr>pw_events := pw_events w - {#n#}\<rparr> else w\<lparr>pw_bad := True\<rparr>)"

definition popen_close_fd :: "nat option \<Rightarrow> popen_world \<Rightarrow> popen_world" where
  "popen_close_fd fd w =
     (case fd of
        None \<Rightarrow> w
      | Some n \<Rightarrow> if n \<in># pw_fds w then w\<lparr>pw_fds := pw_fds w - {#n#}\<rparr> else w\<lparr>pw_bad := True\<rparr>)"

section \<open>Waiting for the child\<close>

text \<open>
  A timing says when a running child ends by itself during an operation that waits: at which of its looks, and how. \<open>look\<close> is the state at look
  \<open>i\<close>.
\<close>

type_synonym timing = "(nat \<times> wait_status) option"

definition look :: "timing \<Rightarrow> nat \<Rightarrow> popen_world \<Rightarrow> popen_world" where
  "look t i w =
     (case (pw_child w, t) of (ChRunning, Some (n, st)) \<Rightarrow> if n \<le> i then w\<lparr>pw_child := ChZombie st\<rparr> else w | _ \<Rightarrow> w)"

datatype wait_result = WaitNone | WaitGot wait_status | WaitFailed

text \<open>\<open>waitpid\<close> with \<open>WNOHANG\<close>.\<close>

definition waitpid_nohang :: "popen_world \<Rightarrow> wait_result \<times> popen_world" where
  "waitpid_nohang w =
     (case pw_child w of
        ChRunning \<Rightarrow> (WaitNone, w)
      | ChZombie st \<Rightarrow> (WaitGot st, w\<lparr>pw_child := ChReaped\<rparr>)
      | _ \<Rightarrow> (WaitFailed, w))"

definition popen_kill :: "popen_world \<Rightarrow> popen_world" where
  "popen_kill w = (if pw_child w = ChNone \<or> pw_child w = ChReaped then w\<lparr>pw_bad := True\<rparr> else w)"

definition exit_code :: "wait_status \<Rightarrow> int" where
  "exit_code st = (case st of WExited c \<Rightarrow> int c | WSignaled s \<Rightarrow> 128 + int s)"

fun reap_loop :: "timing \<Rightarrow> nat \<Rightarrow> nat \<Rightarrow> popen_world \<Rightarrow> int \<times> popen_world" where
  "reap_loop t i 0 w = (- 1, w)"
| "reap_loop t i (Suc n) w =
     (case waitpid_nohang (look t i w) of
        (WaitGot st, w) \<Rightarrow> (exit_code st, upd_popen (\<lambda>p. p\<lparr>pp_child_pid := None\<rparr>) w)
      | (_, w) \<Rightarrow> reap_loop t (Suc i) n w)"

section \<open>Closing\<close>

definition close_child :: "timing \<Rightarrow> popen_world \<Rightarrow> popen_world" where
  "close_child t w =
     (case pp_child_pid (pw_obj w) of
        None \<Rightarrow> w
      | Some _ \<Rightarrow>
          upd_popen (\<lambda>p. p\<lparr>pp_child_pid := None\<rparr>)
            (case waitpid_nohang (look t 0 (popen_kill w)) of
               (WaitNone, w) \<Rightarrow>
                 (case waitpid_nohang (look t 1 w) of
                    (WaitNone, w) \<Rightarrow> (popen_kill w)\<lparr>pw_child := ChReaped\<rparr>
                  | (_, w) \<Rightarrow> w)
             | (_, w) \<Rightarrow> w))"

definition close_refs :: "popen_world \<Rightarrow> popen_world" where
  "close_refs w =
     (let w = upd_popen (\<lambda>p. p\<lparr>pp_onReadRef := None\<rparr>) (popen_unref (pp_onReadRef (pw_obj w)) w);
          w = upd_popen (\<lambda>p. p\<lparr>pp_onStderrRef := None\<rparr>) (popen_unref (pp_onStderrRef (pw_obj w)) w)
      in upd_popen (\<lambda>p. p\<lparr>pp_onDisconnectedRef := None\<rparr>) (popen_unref (pp_onDisconnectedRef (pw_obj w)) w))"

definition drop_stdout_ev :: "popen_world \<Rightarrow> popen_world" where
  "drop_stdout_ev w = upd_popen (\<lambda>p. p\<lparr>pp_stdout_ev := None\<rparr>) (popen_event_free (pp_stdout_ev (pw_obj w)) w)"

definition drop_stderr_ev :: "popen_world \<Rightarrow> popen_world" where
  "drop_stderr_ev w = upd_popen (\<lambda>p. p\<lparr>pp_stderr_ev := None\<rparr>) (popen_event_free (pp_stderr_ev (pw_obj w)) w)"

definition luafan_popen_close_stdin :: "popen_world \<Rightarrow> popen_world" where
  "luafan_popen_close_stdin w = upd_popen (\<lambda>p. p\<lparr>pp_stdin := None\<rparr>) (popen_close_fd (pp_stdin (pw_obj w)) w)"

definition close_fds :: "popen_world \<Rightarrow> popen_world" where
  "close_fds w =
     (let w = luafan_popen_close_stdin w;
          w = upd_popen (\<lambda>p. p\<lparr>pp_stdout := None\<rparr>) (popen_close_fd (pp_stdout (pw_obj w)) w)
      in upd_popen (\<lambda>p. p\<lparr>pp_stderr := None\<rparr>) (popen_close_fd (pp_stderr (pw_obj w)) w))"

definition luafan_popen_close :: "timing \<Rightarrow> popen_world \<Rightarrow> popen_world" where
  "luafan_popen_close t w =
     (if pp_closed (pw_obj w) then w
      else close_child t (close_fds (drop_stderr_ev (drop_stdout_ev (close_refs (upd_popen (\<lambda>p. p\<lparr>pp_closed := True\<rparr>) w))))))"

definition luafan_popen_gc :: "timing \<Rightarrow> popen_world \<Rightarrow> popen_world" where
  "luafan_popen_gc t w = luafan_popen_close t w"

section \<open>Callbacks\<close>

text \<open>A Lua function may close the object; it is not called if its coroutine cannot be made or its slot holds no function.\<close>

datatype popen_reaction = PrNoCoroutine | PrReturns | PrCloses timing

definition popen_callback :: "popen_reaction \<Rightarrow> nat option \<Rightarrow> popen_call \<Rightarrow> popen_world \<Rightarrow> popen_world" where
  "popen_callback re r c w =
     (case r of
        None \<Rightarrow> w
      | Some n \<Rightarrow>
          if re = PrNoCoroutine \<or> n \<notin># pw_registry w then w
          else let w = w\<lparr>pw_log := pw_log w @ [c]\<rparr> in (case re of PrCloses t \<Rightarrow> luafan_popen_close t w | _ \<Rightarrow> w))"

definition popen_try_disconnected :: "popen_reaction \<Rightarrow> timing \<Rightarrow> string \<Rightarrow> popen_world \<Rightarrow> popen_world" where
  "popen_try_disconnected re t reason w =
     (if pp_stdout_ev (pw_obj w) \<noteq> None \<or> pp_stderr_ev (pw_obj w) \<noteq> None then w
      else if pp_onDisconnectedRef (pw_obj w) = None then w
      else
        let (code, w) = (if pp_child_pid (pw_obj w) \<noteq> None then reap_loop t 0 10 w else (- 1, w))
        in popen_callback re (pp_onDisconnectedRef (pw_obj w)) (PcDisconnected reason code) w)"

datatype pipe_read = RdData bytes | RdEof | RdAgain | RdError string

definition popen_stdout_cb :: "popen_reaction \<Rightarrow> timing \<Rightarrow> pipe_read \<Rightarrow> popen_world \<Rightarrow> popen_world" where
  "popen_stdout_cb re t r w =
     (case r of
        RdAgain \<Rightarrow> w
      | RdEof \<Rightarrow> popen_try_disconnected re t ''stdout closed'' (drop_stdout_ev w)
      | RdError e \<Rightarrow> popen_try_disconnected re t e (drop_stdout_ev w)
      | RdData bs \<Rightarrow> popen_callback re (pp_onReadRef (pw_obj w)) (PcRead bs) w)"

definition popen_stderr_cb :: "popen_reaction \<Rightarrow> timing \<Rightarrow> pipe_read \<Rightarrow> popen_world \<Rightarrow> popen_world" where
  "popen_stderr_cb re t r w =
     (case r of
        RdAgain \<Rightarrow> w
      | RdEof \<Rightarrow> popen_try_disconnected re t ''stderr closed'' (drop_stderr_ev w)
      | RdError e \<Rightarrow> popen_try_disconnected re t e (drop_stderr_ev w)
      | RdData bs \<Rightarrow> popen_callback re (pp_onStderrRef (pw_obj w)) (PcStderr bs) w)"

section \<open>Starting\<close>

text \<open>What the child does with the descriptors it inherits, before it runs the program.\<close>

datatype file_action = FaDup2 nat nat | FaClose nat

definition file_actions :: "nat \<times> nat \<Rightarrow> nat \<times> nat \<Rightarrow> (nat \<times> nat) option \<Rightarrow> file_action list" where
  "file_actions i out err =
     [FaDup2 (fst i) 0, FaClose (fst i), FaClose (snd i), FaDup2 (snd out) 1, FaClose (fst out), FaClose (snd out)]
     @ (case err of Some p \<Rightarrow> [FaDup2 (snd p) 2, FaClose (fst p), FaClose (snd p)] | None \<Rightarrow> [])"

definition run_action :: "file_action \<Rightarrow> (nat \<rightharpoonup> 'a) \<Rightarrow> (nat \<rightharpoonup> 'a)" where
  "run_action a m = (case a of FaDup2 i j \<Rightarrow> m(j := m i) | FaClose i \<Rightarrow> m(i := None))"

record popen_options =
  po_command :: command
  po_capture :: bool
  po_env :: "(env_item \<times> env_item) list option"
  po_onread :: bool
  po_onstderr :: bool
  po_ondisconnected :: bool

text \<open>The pipes that the system gives, or its error; and the number of the child or the error of \<open>posix_spawnp\<close>.\<close>

record popen_env =
  pe_stdin :: "string + nat \<times> nat"
  pe_stdout :: "string + nat \<times> nat"
  pe_stderr :: "string + nat \<times> nat"
  pe_spawn :: "string + nat"

datatype popen_result =
    PoError string | PoNil string | PoObject | PoInt nat | PoBool bool | PoNoPid

definition pipe_mset :: "nat \<times> nat \<Rightarrow> nat multiset" where
  "pipe_mset p = {#fst p, snd p#}"

definition open_pipe :: "nat \<times> nat \<Rightarrow> popen_world \<Rightarrow> popen_world" where
  "open_pipe p w = w\<lparr>pw_fds := pw_fds w + pipe_mset p\<rparr>"

definition close_pipe :: "nat \<times> nat \<Rightarrow> popen_world \<Rightarrow> popen_world" where
  "close_pipe p w = popen_close_fd (Some (snd p)) (popen_close_fd (Some (fst p)) w)"

definition popen_pipes :: "popen_env \<Rightarrow> bool \<Rightarrow> popen_world \<Rightarrow> (string + (nat \<times> nat) \<times> (nat \<times> nat) \<times> (nat \<times> nat) option) \<times> popen_world" where
  "popen_pipes e capture w =
     (case pe_stdin e of
        Inl s \<Rightarrow> (Inl (''pipe(stdin): '' @ s), w)
      | Inr i \<Rightarrow>
          let w = open_pipe i w
          in case pe_stdout e of
               Inl s \<Rightarrow> (Inl (''pipe(stdout): '' @ s), close_pipe i w)
             | Inr out \<Rightarrow>
                 let w = open_pipe out w
                 in if \<not> capture then (Inr (i, out, None), w)
                    else case pe_stderr e of
                           Inl s \<Rightarrow> (Inl (''pipe(stderr): '' @ s), close_pipe out (close_pipe i w))
                         | Inr err \<Rightarrow> (Inr (i, out, Some err), open_pipe err w))"

definition popen_func_ref :: "bool \<Rightarrow> popen_world \<Rightarrow> nat option \<times> popen_world" where
  "popen_func_ref given w =
     (if given then (Some (pw_next w), w\<lparr>pw_next := pw_next w + 1, pw_registry := add_mset (pw_next w) (pw_registry w)\<rparr>) else (None, w))"

definition popen_event_new :: "bool \<Rightarrow> popen_world \<Rightarrow> nat option \<times> popen_world" where
  "popen_event_new given w =
     (if given then (Some (pw_next w), w\<lparr>pw_next := pw_next w + 1, pw_events := add_mset (pw_next w) (pw_events w)\<rparr>) else (None, w))"

definition no_popen :: POPEN where
  "no_popen = \<lparr>pp_stdin = None, pp_stdout = None, pp_stderr = None, pp_child_pid = None, pp_onReadRef = None, pp_onStderrRef = None,
     pp_onDisconnectedRef = None, pp_stdout_ev = None, pp_stderr_ev = None, pp_closed = False\<rparr>"

definition popen_refs :: "popen_options \<Rightarrow> popen_world \<Rightarrow> popen_world" where
  "popen_refs opt w =
     (let (r, w) = popen_func_ref (po_onread opt) w;
          (s, w) = popen_func_ref (po_onstderr opt) w;
          (d, w) = popen_func_ref (po_ondisconnected opt) w
      in upd_popen (\<lambda>p. p\<lparr>pp_onReadRef := r, pp_onStderrRef := s, pp_onDisconnectedRef := d\<rparr>) w)"

definition popen_events :: "bool \<Rightarrow> popen_world \<Rightarrow> popen_world" where
  "popen_events capture w =
     (let (o_ev, w) = popen_event_new (pp_onReadRef (pw_obj w) \<noteq> None) w;
          (e_ev, w) = popen_event_new (capture \<and> pp_onStderrRef (pw_obj w) \<noteq> None) w
      in upd_popen (\<lambda>p. p\<lparr>pp_stdout_ev := o_ev, pp_stderr_ev := e_ev\<rparr>) w)"

text \<open>The parent after the child was started: it closes the child's ends and makes the object.\<close>

definition popen_parent :: "popen_options \<Rightarrow> nat \<times> nat \<Rightarrow> nat \<times> nat \<Rightarrow> (nat \<times> nat) option \<Rightarrow> nat \<Rightarrow> popen_world \<Rightarrow> popen_world" where
  "popen_parent opt i out err pid w =
     (let w = popen_close_fd (Some (fst i)) w;
          w = popen_close_fd (Some (snd out)) w;
          w = popen_close_fd (map_option snd err) w;
          w = w\<lparr>pw_child := ChRunning,
                pw_obj := no_popen\<lparr>pp_stdin := Some (snd i), pp_stdout := Some (fst out), pp_stderr := map_option fst err, pp_child_pid := Some pid\<rparr>\<rparr>
      in popen_events (po_capture opt) (popen_refs opt w))"

definition luafan_popen_spawn :: "allocator \<Rightarrow> bytes list \<Rightarrow> popen_env \<Rightarrow> popen_options \<Rightarrow> popen_world \<Rightarrow> popen_result \<times> popen_world" where
  "luafan_popen_spawn al environ e opt w =
     (case parse_command al (po_command opt) of
        Inl s \<Rightarrow> (PoError s, w)
      | Inr (argv, n) \<Rightarrow>
          let w = w\<lparr>pw_blocks := pw_blocks w + n\<rparr>
          in if argv = [] then (PoError ''command is empty'', w)
             else case build_env al environ (po_env opt) of
                    Inl s \<Rightarrow> (PoError s, w)
                  | Inr (envp, m) \<Rightarrow>
                      let w = w\<lparr>pw_blocks := pw_blocks w + m\<rparr>
                      in case popen_pipes e (po_capture opt) w of
                           (Inl s, w) \<Rightarrow> (PoNil s, w)
                         | (Inr (i, out, err), w) \<Rightarrow>
                             let w = w\<lparr>pw_blocks := pw_blocks w - n - m\<rparr>
                             in case pe_spawn e of
                                  Inl s \<Rightarrow>
                                    (PoNil (''posix_spawn: '' @ s),
                                     (case err of Some p \<Rightarrow> close_pipe p | None \<Rightarrow> id) (close_pipe out (close_pipe i w)))
                                | Inr pid \<Rightarrow> (PoObject, popen_parent opt i out err pid w))"

section \<open>Methods\<close>

datatype pipe_write = WrDone nat | WrAgain | WrError string

definition luafan_popen_send :: "pipe_write \<Rightarrow> bytes option \<Rightarrow> popen_world \<Rightarrow> popen_result" where
  "luafan_popen_send r data w =
     (if pp_closed (pw_obj w) \<or> pp_stdin (pw_obj w) = None then PoNil ''stdin is closed''
      else case data of
             None \<Rightarrow> PoInt 0
           | Some bs \<Rightarrow>
               if bs = [] then PoInt 0 else case r of WrDone n \<Rightarrow> PoInt n | WrAgain \<Rightarrow> PoInt 0 | WrError s \<Rightarrow> PoNil s)"

definition luafan_popen_getpid :: "popen_world \<Rightarrow> popen_result" where
  "luafan_popen_getpid w = (case pp_child_pid (pw_obj w) of Some n \<Rightarrow> PoInt n | None \<Rightarrow> PoNoPid)"

definition luafan_popen_is_alive :: "timing \<Rightarrow> popen_world \<Rightarrow> popen_result \<times> popen_world" where
  "luafan_popen_is_alive t w =
     (if pp_child_pid (pw_obj w) = None then (PoBool False, w)
      else case waitpid_nohang (look t 0 w) of
             (WaitNone, w) \<Rightarrow> (PoBool True, w)
           | (_, w) \<Rightarrow> (PoBool False, upd_popen (\<lambda>p. p\<lparr>pp_child_pid := None\<rparr>) w))"

definition popen_start :: popen_world where
  "popen_start = \<lparr>pw_obj = no_popen, pw_fds = {#}, pw_events = {#}, pw_registry = {#}, pw_next = 1, pw_child = ChNone, pw_log = [], pw_blocks = 0,
     pw_bad = False\<rparr>"

section \<open>Use\<close>

text \<open>The two events arrive as long as they exist; the child may end at any time.\<close>

datatype popen_event =
    PvStdout popen_reaction timing pipe_read | PvStderr popen_reaction timing pipe_read | PvCloseStdin | PvClose timing | PvIsAlive timing
  | PvExit wait_status

definition popen_step :: "popen_event \<Rightarrow> popen_world \<Rightarrow> popen_world" where
  "popen_step x w =
     (case x of
        PvStdout re t r \<Rightarrow> if pp_stdout_ev (pw_obj w) = None then w else popen_stdout_cb re t r w
      | PvStderr re t r \<Rightarrow> if pp_stderr_ev (pw_obj w) = None then w else popen_stderr_cb re t r w
      | PvCloseStdin \<Rightarrow> luafan_popen_close_stdin w
      | PvClose t \<Rightarrow> luafan_popen_close t w
      | PvIsAlive t \<Rightarrow> snd (luafan_popen_is_alive t w)
      | PvExit st \<Rightarrow> look (Some (0, st)) 0 w)"

inductive popen_reaches :: "popen_world \<Rightarrow> bool" where
  popen_spawns: "popen_reaches (snd (luafan_popen_spawn al environ e opt popen_start))"
| popen_goes: "popen_reaches w \<Longrightarrow> popen_reaches (popen_step x w)"

section \<open>Invariant\<close>

fun popen_disconnected :: "popen_call \<Rightarrow> bool" where
  "popen_disconnected (PcDisconnected _ _) = True"
| "popen_disconnected _ = False"

text \<open>
  Everything in use is held by the object once; the number of the child is known as long as it was not waited for; nothing is called after the
  report of the end; and a closed object is empty.
\<close>

definition popen_ok :: "popen_world \<Rightarrow> bool" where
  "popen_ok w \<longleftrightarrow>
     \<not> pw_bad w
     \<and> pw_fds w = in_use (pp_stdin (pw_obj w)) + (in_use (pp_stdout (pw_obj w)) + in_use (pp_stderr (pw_obj w)))
     \<and> pw_events w = in_use (pp_stdout_ev (pw_obj w)) + in_use (pp_stderr_ev (pw_obj w))
     \<and> pw_registry w = in_use (pp_onReadRef (pw_obj w)) + (in_use (pp_onStderrRef (pw_obj w)) + in_use (pp_onDisconnectedRef (pw_obj w)))
     \<and> (pp_child_pid (pw_obj w) = None \<longleftrightarrow> pw_child w = ChNone \<or> pw_child w = ChReaped)
     \<and> (pp_closed (pw_obj w) \<longrightarrow> pw_obj w = no_popen\<lparr>pp_closed := True\<rparr>)
     \<and> list_all (\<lambda>c. \<not> popen_disconnected c) (butlast (pw_log w))
     \<and> (pw_log w \<noteq> [] \<longrightarrow> popen_disconnected (last (pw_log w)) \<longrightarrow> pp_stdout_ev (pw_obj w) = None \<and> pp_stderr_ev (pw_obj w) = None)"

definition popen_quiet :: "popen_world \<Rightarrow> bool" where
  "popen_quiet w \<longleftrightarrow> list_all (\<lambda>c. \<not> popen_disconnected c) (pw_log w)"

lemma events_quiet:
  assumes "popen_ok w" and "pp_stdout_ev (pw_obj w) \<noteq> None \<or> pp_stderr_ev (pw_obj w) \<noteq> None"
  shows "popen_quiet w"
proof (cases "pw_log w" rule: rev_cases)
  case (snoc xs c)
  with assms show ?thesis by (auto simp: popen_ok_def popen_quiet_def)
qed (simp add: popen_quiet_def)

lemma unref_held: "in_use r \<subseteq># pw_registry w \<Longrightarrow> popen_unref r w = w\<lparr>pw_registry := pw_registry w - in_use r\<rparr>"
  by (cases r) (simp_all add: popen_unref_def)

lemma popen_event_free_held: "in_use ev \<subseteq># pw_events w \<Longrightarrow> popen_event_free ev w = w\<lparr>pw_events := pw_events w - in_use ev\<rparr>"
  by (cases ev) (simp_all add: popen_event_free_def)

lemma popen_close_fd_held: "in_use fd \<subseteq># pw_fds w \<Longrightarrow> popen_close_fd fd w = w\<lparr>pw_fds := pw_fds w - in_use fd\<rparr>"
  by (cases fd) (simp_all add: popen_close_fd_def)

lemmas released = unref_held popen_event_free_held popen_close_fd_held

lemma close_refs_eq:
  assumes "pw_registry w = in_use (pp_onReadRef (pw_obj w)) + (in_use (pp_onStderrRef (pw_obj w)) + in_use (pp_onDisconnectedRef (pw_obj w)))"
  shows "close_refs w = w\<lparr>pw_registry := {#}, pw_obj := (pw_obj w)\<lparr>pp_onReadRef := None, pp_onStderrRef := None, pp_onDisconnectedRef := None\<rparr>\<rparr>"
  using assms by (simp add: close_refs_def upd_popen_def released Let_def)

lemma drop_stdout_eq:
  "pw_events w = in_use (pp_stdout_ev (pw_obj w)) + in_use (pp_stderr_ev (pw_obj w)) \<Longrightarrow>
   drop_stdout_ev w = w\<lparr>pw_events := in_use (pp_stderr_ev (pw_obj w)), pw_obj := (pw_obj w)\<lparr>pp_stdout_ev := None\<rparr>\<rparr>"
  by (simp add: drop_stdout_ev_def upd_popen_def released)

lemma drop_stderr_eq:
  "pw_events w = in_use (pp_stdout_ev (pw_obj w)) + in_use (pp_stderr_ev (pw_obj w)) \<Longrightarrow>
   drop_stderr_ev w = w\<lparr>pw_events := in_use (pp_stdout_ev (pw_obj w)), pw_obj := (pw_obj w)\<lparr>pp_stderr_ev := None\<rparr>\<rparr>"
  by (simp add: drop_stderr_ev_def upd_popen_def released)

lemma close_stdin_eq:
  "pw_fds w = in_use (pp_stdin (pw_obj w)) + M \<Longrightarrow> luafan_popen_close_stdin w = w\<lparr>pw_fds := M, pw_obj := (pw_obj w)\<lparr>pp_stdin := None\<rparr>\<rparr>"
  by (simp add: luafan_popen_close_stdin_def upd_popen_def released)

lemma close_fds_eq:
  assumes "pw_fds w = in_use (pp_stdin (pw_obj w)) + (in_use (pp_stdout (pw_obj w)) + in_use (pp_stderr (pw_obj w)))"
  shows "close_fds w = w\<lparr>pw_fds := {#}, pw_obj := (pw_obj w)\<lparr>pp_stdin := None, pp_stdout := None, pp_stderr := None\<rparr>\<rparr>"
  using assms by (simp add: close_fds_def close_stdin_eq upd_popen_def released Let_def)

lemma close_child_eq:
  assumes "pp_child_pid (pw_obj w) = None \<longleftrightarrow> pw_child w = ChNone \<or> pw_child w = ChReaped"
  shows "\<exists>c. (c = ChNone \<or> c = ChReaped) \<and> close_child t w = w\<lparr>pw_child := c, pw_obj := (pw_obj w)\<lparr>pp_child_pid := None\<rparr>\<rparr>"
proof (cases "pp_child_pid (pw_obj w)")
  case None
  then have "close_child t w = w\<lparr>pw_child := pw_child w, pw_obj := (pw_obj w)\<lparr>pp_child_pid := None\<rparr>\<rparr>" by (simp add: close_child_def)
  with None assms show ?thesis by blast
next
  case (Some n)
  with assms have "close_child t w = w\<lparr>pw_child := ChReaped, pw_obj := (pw_obj w)\<lparr>pp_child_pid := None\<rparr>\<rparr>"
    by (cases "pw_child w"; cases t) (auto simp: close_child_def waitpid_nohang_def look_def popen_kill_def upd_popen_def)
  then show ?thesis by blast
qed

lemma close_eq:
  assumes w: "popen_ok w" and open_w: "\<not> pp_closed (pw_obj w)"
  shows "\<exists>c. (c = ChNone \<or> c = ChReaped)
    \<and> luafan_popen_close t w = w\<lparr>pw_fds := {#}, pw_events := {#}, pw_registry := {#}, pw_child := c, pw_obj := no_popen\<lparr>pp_closed := True\<rparr>\<rparr>"
proof -
  let ?o = "(pw_obj w)\<lparr>pp_closed := True, pp_onReadRef := None, pp_onStderrRef := None, pp_onDisconnectedRef := None, pp_stdout_ev := None,
    pp_stderr_ev := None, pp_stdin := None, pp_stdout := None, pp_stderr := None\<rparr>"
  let ?v = "w\<lparr>pw_fds := {#}, pw_events := {#}, pw_registry := {#}, pw_obj := ?o\<rparr>"
  have "close_fds (drop_stderr_ev (drop_stdout_ev (close_refs (upd_popen (\<lambda>p. p\<lparr>pp_closed := True\<rparr>) w)))) = ?v"
    using w by (simp add: popen_ok_def upd_popen_def close_refs_eq drop_stdout_eq drop_stderr_eq close_fds_eq)
  then have "luafan_popen_close t w = close_child t ?v" using open_w by (simp add: luafan_popen_close_def)
  moreover have "\<exists>c. (c = ChNone \<or> c = ChReaped) \<and> close_child t ?v = ?v\<lparr>pw_child := c, pw_obj := (pw_obj ?v)\<lparr>pp_child_pid := None\<rparr>\<rparr>"
    using w by (intro close_child_eq) (simp add: popen_ok_def)
  moreover have "?o\<lparr>pp_child_pid := None\<rparr> = no_popen\<lparr>pp_closed := True\<rparr>" by (simp add: no_popen_def)
  ultimately show ?thesis by auto
qed

lemma closed_empty:
  fixes t :: timing
  assumes "popen_ok w"
  defines "c \<equiv> luafan_popen_close t w"
  shows "popen_ok c \<and> pw_obj c = no_popen\<lparr>pp_closed := True\<rparr> \<and> pw_fds c = {#} \<and> pw_events c = {#} \<and> pw_registry c = {#}
    \<and> (pw_child c = ChNone \<or> pw_child c = ChReaped) \<and> pw_log c = pw_log w"
proof (cases "pp_closed (pw_obj w)")
  case True
  then have "c = w" by (simp add: c_def luafan_popen_close_def)
  with True assms show ?thesis by (auto simp: popen_ok_def no_popen_def)
next
  case False
  then obtain d where "d = ChNone \<or> d = ChReaped"
    "c = w\<lparr>pw_fds := {#}, pw_events := {#}, pw_registry := {#}, pw_child := d, pw_obj := no_popen\<lparr>pp_closed := True\<rparr>\<rparr>"
    using close_eq [OF assms(1)] unfolding c_def by blast
  with assms(1) show ?thesis by (auto simp: popen_ok_def no_popen_def)
qed

lemma popen_callback_ok:
  assumes w: "popen_ok w" "popen_quiet w" and c: "popen_disconnected c \<Longrightarrow> pp_stdout_ev (pw_obj w) = None \<and> pp_stderr_ev (pw_obj w) = None"
  shows "popen_ok (popen_callback re r c w)"
proof -
  have "popen_ok (w\<lparr>pw_log := pw_log w @ [c]\<rparr>)" using assms by (auto simp: popen_ok_def popen_quiet_def)
  with w closed_empty show ?thesis by (auto simp: popen_callback_def Let_def split: option.split popen_reaction.split)
qed

lemma look_ok: "popen_ok w \<Longrightarrow> popen_ok (look t i w)"
  by (auto simp: popen_ok_def look_def split: child.split option.split)

lemma look_obj [simp]: "pw_obj (look t i w) = pw_obj w" "pw_log (look t i w) = pw_log w" "pw_registry (look t i w) = pw_registry w"
  by (auto simp: look_def split: child.split option.split)

lemma open_pid: "popen_ok w \<Longrightarrow> pp_child_pid (pw_obj w) = Some n \<Longrightarrow> \<not> pp_closed (pw_obj w)"
  by (auto simp: popen_ok_def no_popen_def)

lemma reap_ok:
  "popen_ok w \<Longrightarrow> pp_child_pid (pw_obj w) = Some p \<Longrightarrow> reap_loop t i n w = (code, v) \<Longrightarrow>
   popen_ok v \<and> pw_log v = pw_log w \<and> pw_registry v = pw_registry w \<and> (\<exists>q. pw_obj v = (pw_obj w)\<lparr>pp_child_pid := q\<rparr>)"
proof (induction n arbitrary: i w)
  case 0
  then show ?case by (auto intro!: exI [of _ "Some p"])
next
  case (Suc n)
  let ?l = "look t i w"
  have l: "popen_ok ?l" "pp_child_pid (pw_obj ?l) = Some p" "\<not> pp_closed (pw_obj ?l)" using Suc.prems look_ok open_pid by auto
  show ?case
  proof (cases "pw_child ?l")
    case (ChZombie st)
    with Suc.prems(3) have "v = upd_popen (\<lambda>p. p\<lparr>pp_child_pid := None\<rparr>) (?l\<lparr>pw_child := ChReaped\<rparr>)" by (simp add: waitpid_nohang_def)
    with l show ?thesis by (auto simp: popen_ok_def upd_popen_def)
  next
    case ChRunning
    with Suc.prems(3) have "reap_loop t (Suc i) n ?l = (code, v)" by (simp add: waitpid_nohang_def)
    from Suc.IH [OF l(1,2) this] show ?thesis by simp
  qed (use l in \<open>auto simp: popen_ok_def\<close>)
qed

lemma try_disconnected_ok:
  assumes w: "popen_ok w" "popen_quiet w"
  shows "popen_ok (popen_try_disconnected re t reason w)"
proof (cases "pp_stdout_ev (pw_obj w) \<noteq> None \<or> pp_stderr_ev (pw_obj w) \<noteq> None \<or> pp_onDisconnectedRef (pw_obj w) = None")
  case True
  with w show ?thesis by (auto simp: popen_try_disconnected_def)
next
  case False
  define cv where "cv = (if pp_child_pid (pw_obj w) \<noteq> None then reap_loop t 0 10 w else (- 1, w))"
  obtain code v where cv: "cv = (code, v)" by (cases cv)
  then have v: "popen_ok v \<and> pw_log v = pw_log w \<and> (\<exists>q. pw_obj v = (pw_obj w)\<lparr>pp_child_pid := q\<rparr>)"
  proof (cases "pp_child_pid (pw_obj w)")
    case None
    with cv w have "v = w" by (simp add: cv_def)
    then have "pw_obj v = (pw_obj w)\<lparr>pp_child_pid := pp_child_pid (pw_obj w)\<rparr>" by simp
    with w \<open>v = w\<close> show ?thesis by blast
  next
    case (Some p)
    with cv reap_ok [OF w(1) Some, of t 0 10 code v] show ?thesis by (simp add: cv_def)
  qed
  have "popen_try_disconnected re t reason w = popen_callback re (pp_onDisconnectedRef (pw_obj v)) (PcDisconnected reason code) v"
    using False unfolding popen_try_disconnected_def cv_def [symmetric] cv by auto
  moreover have "popen_ok (popen_callback re (pp_onDisconnectedRef (pw_obj v)) (PcDisconnected reason code) v)"
    using v w False by (intro popen_callback_ok) (auto simp: popen_quiet_def)
  ultimately show ?thesis by simp
qed

lemma drop_ok:
  assumes "popen_ok w"
  shows "popen_ok (drop_stdout_ev w)" "pw_log (drop_stdout_ev w) = pw_log w"
    "popen_ok (drop_stderr_ev w)" "pw_log (drop_stderr_ev w) = pw_log w"
  using assms by (auto simp: popen_ok_def no_popen_def drop_stdout_eq drop_stderr_eq)

lemma read_cb_ok:
  assumes "popen_ok w" and "popen_quiet w"
  shows "popen_ok (popen_stdout_cb re t r w)" "popen_ok (popen_stderr_cb re t r w)"
  using assms by (auto simp: popen_stdout_cb_def popen_stderr_cb_def popen_quiet_def drop_ok intro!: try_disconnected_ok popen_callback_ok split: pipe_read.split)

lemma close_stdin_ok: "popen_ok w \<Longrightarrow> popen_ok (luafan_popen_close_stdin w)"
proof -
  assume w: "popen_ok w"
  then have "luafan_popen_close_stdin w = w\<lparr>pw_fds := in_use (pp_stdout (pw_obj w)) + in_use (pp_stderr (pw_obj w)), pw_obj := (pw_obj w)\<lparr>pp_stdin := None\<rparr>\<rparr>"
    by (intro close_stdin_eq) (simp add: popen_ok_def)
  with w show ?thesis by (auto simp: popen_ok_def no_popen_def)
qed

lemma is_alive_ok:
  assumes "popen_ok w"
  shows "popen_ok (snd (luafan_popen_is_alive t w))"
proof (cases "pp_child_pid (pw_obj w)")
  case (Some p)
  let ?l = "look t 0 w"
  have "popen_ok ?l" "pp_child_pid (pw_obj ?l) = Some p" "\<not> pp_closed (pw_obj ?l)" using assms Some look_ok open_pid by auto
  with Some show ?thesis
    by (cases "pw_child ?l") (auto simp: luafan_popen_is_alive_def waitpid_nohang_def popen_ok_def upd_popen_def)
qed (simp add: luafan_popen_is_alive_def assms)

lemma popen_step_ok: "popen_ok w \<Longrightarrow> popen_ok (popen_step x w)"
  by (cases x) (auto simp: popen_step_def events_quiet read_cb_ok close_stdin_ok closed_empty is_alive_ok look_ok)

lemma close_pipe_held: "pipe_mset p \<subseteq># pw_fds w \<Longrightarrow> close_pipe p w = w\<lparr>pw_fds := pw_fds w - pipe_mset p\<rparr>"
  by (cases p) (auto simp: close_pipe_def popen_close_fd_def pipe_mset_def insert_subset_eq_iff add_mset_commute)

lemma pipes_eq:
  assumes "popen_pipes e capture w = (r, v)"
  shows "case r of
      Inl _ \<Rightarrow> v = w
    | Inr (i, out, err) \<Rightarrow> v = w\<lparr>pw_fds := pw_fds w + pipe_mset i + pipe_mset out + (case err of Some p \<Rightarrow> pipe_mset p | None \<Rightarrow> {#})\<rparr>"
  using assms
  by (auto simp: popen_pipes_def open_pipe_def close_pipe_held Let_def split: sum.splits if_splits)

text \<open>A world in which nothing is open yet.\<close>

definition popen_idle :: "popen_world \<Rightarrow> bool" where
  "popen_idle w \<longleftrightarrow> \<not> pw_bad w \<and> pw_events w = {#} \<and> pw_registry w = {#} \<and> pw_log w = []"

lemma refs_ok:
  assumes "popen_ok w" and "popen_idle w" and "\<not> pp_closed (pw_obj w)"
  shows "popen_ok (popen_refs opt w)" "pw_events (popen_refs opt w) = {#}" "\<not> pp_closed (pw_obj (popen_refs opt w))" "pw_log (popen_refs opt w) = []"
  using assms by (auto simp: popen_refs_def popen_func_ref_def upd_popen_def popen_ok_def popen_idle_def Let_def)

lemma popen_events_ok:
  assumes "popen_ok w" and "pw_events w = {#}" and "\<not> pp_closed (pw_obj w)" and "pw_log w = []"
  shows "popen_ok (popen_events capture w)"
  using assms by (auto simp: popen_events_def popen_event_new_def upd_popen_def popen_ok_def Let_def)

lemma parent_ok:
  assumes "popen_idle w" and fds: "pw_fds w = pipe_mset i + pipe_mset out + (case err of Some p \<Rightarrow> pipe_mset p | None \<Rightarrow> {#})"
  shows "popen_ok (popen_parent opt i out err pid w)"
proof -
  define v where "v = popen_close_fd (map_option snd err) (popen_close_fd (Some (snd out)) (popen_close_fd (Some (fst i)) w))"
  have "v = w\<lparr>pw_fds := {#snd i#} + ({#fst out#} + in_use (map_option fst err))\<rparr>"
    unfolding v_def using fds by (cases err) (simp_all add: popen_close_fd_def pipe_mset_def ac_simps)
  then have "popen_ok (v\<lparr>pw_child := ChRunning,
      pw_obj := no_popen\<lparr>pp_stdin := Some (snd i), pp_stdout := Some (fst out), pp_stderr := map_option fst err, pp_child_pid := Some pid\<rparr>\<rparr>)"
    "popen_idle (v\<lparr>pw_child := ChRunning,
      pw_obj := no_popen\<lparr>pp_stdin := Some (snd i), pp_stdout := Some (fst out), pp_stderr := map_option fst err, pp_child_pid := Some pid\<rparr>\<rparr>)"
    using assms by (auto simp: popen_ok_def popen_idle_def no_popen_def)
  from popen_events_ok [OF refs_ok [OF this]] show ?thesis by (simp add: popen_parent_def Let_def no_popen_def flip: v_def)
qed

lemma spawn_ok: "popen_ok (snd (luafan_popen_spawn al environ e opt popen_start))"
proof -
  have start: "popen_ok (popen_start\<lparr>pw_blocks := n\<rparr>)" "popen_idle (popen_start\<lparr>pw_blocks := n\<rparr>)" for n
    by (simp_all add: popen_ok_def popen_start_def no_popen_def popen_idle_def)
  have start': "popen_ok popen_start" by (simp add: popen_ok_def popen_start_def no_popen_def)
  let ?w = "\<lambda>n. popen_start\<lparr>pw_blocks := n\<rparr>"
  have piped: "popen_ok (snd (case popen_pipes e (po_capture opt) (?w n) of
       (Inl s, w) \<Rightarrow> (PoNil s, w)
     | (Inr (i, out, err), w) \<Rightarrow>
         let w = w\<lparr>pw_blocks := b w\<rparr>
         in case pe_spawn e of
              Inl s \<Rightarrow> (PoNil (''posix_spawn: '' @ s), (case err of Some p \<Rightarrow> close_pipe p | None \<Rightarrow> id) (close_pipe out (close_pipe i w)))
            | Inr pid \<Rightarrow> (PoObject, popen_parent opt i out err pid w)))" for n b
  proof -
    obtain r v where rv: "popen_pipes e (po_capture opt) (?w n) = (r, v)" by force
    show ?thesis
    proof (cases r)
      case (Inl s)
      with rv pipes_eq [OF rv] start show ?thesis by simp
    next
      case (Inr q)
      obtain i out err where q: "q = (i, out, err)" by (cases q)
      let ?fds = "pipe_mset i + pipe_mset out + (case err of Some p \<Rightarrow> pipe_mset p | None \<Rightarrow> {#})"
      have v: "v = ?w n\<lparr>pw_fds := ?fds\<rparr>" using pipes_eq [OF rv] Inr q by (simp add: popen_start_def)
      then have "popen_ok (popen_parent opt i out err pid (v\<lparr>pw_blocks := b v\<rparr>))" for pid
        by (intro parent_ok) (simp_all add: popen_idle_def popen_start_def)
      moreover have "(case err of Some p \<Rightarrow> close_pipe p | None \<Rightarrow> id) (close_pipe out (close_pipe i (v\<lparr>pw_blocks := b v\<rparr>))) = ?w (b v)"
        using v by (cases err) (simp_all add: close_pipe_held popen_start_def)
      ultimately show ?thesis using rv Inr q start by (simp add: Let_def split: sum.split)
    qed
  qed
  show ?thesis
    using start start' piped [where b = "\<lambda>w. pw_blocks w - _ - _"]
    by (simp add: luafan_popen_spawn_def Let_def split: sum.split prod.split)
qed

lemma popen_reaches_ok: "popen_reaches w \<Longrightarrow> popen_ok w"
  by (induction rule: popen_reaches.induct) (simp_all add: spawn_ok popen_step_ok)

section \<open>Properties\<close>

text \<open>Without \<open>onread\<close> and \<open>onstderr\<close> there is no event, so the end of the child is never reported.\<close>

lemma disconnect_needs_reader:
  assumes "pp_stdout_ev (pw_obj w) = None" and "pp_stderr_ev (pw_obj w) = None"
  shows "pw_log (popen_step x w) = pw_log w"
proof -
  have frames: "pw_log (popen_unref r v) = pw_log v" "pw_log (popen_event_free r v) = pw_log v" "pw_log (popen_close_fd r v) = pw_log v" for r v
    by (simp_all add: popen_unref_def popen_event_free_def popen_close_fd_def split: option.split)
  have wp: "pw_log (snd (waitpid_nohang v)) = pw_log v" for v by (simp add: waitpid_nohang_def split: child.split)
  have k: "pw_log (popen_kill v) = pw_log v" for v by (simp add: popen_kill_def)
  have "pw_log (close_child t v) = pw_log v" for t v
    using wp k by (auto simp: close_child_def upd_popen_def split: option.split prod.split wait_result.split) (metis look_obj(2) snd_conv)+
  then have "pw_log (luafan_popen_close t w) = pw_log w" for t
    by (simp add: luafan_popen_close_def close_refs_def drop_stdout_ev_def drop_stderr_ev_def close_fds_def luafan_popen_close_stdin_def upd_popen_def frames Let_def)
  moreover have "pw_log (snd (luafan_popen_is_alive t w)) = pw_log w" for t
    using wp by (auto simp: luafan_popen_is_alive_def upd_popen_def split: prod.split wait_result.split) (metis look_obj(2) snd_conv)+
  ultimately show ?thesis using assms
    by (cases x) (simp_all add: popen_step_def luafan_popen_close_stdin_def upd_popen_def frames)
qed

text \<open>
  (C33) A child process in every state that starting it, its output, its end, the methods and the collector lead to, whether or not the
  functions close it: the open descriptors, events and registry slots are exactly those that the object refers to and
  none is released twice; no signal is sent to a process that was already waited for; the number of the child is known exactly as long as it was not waited for; and
  \<open>ondisconnected\<close> is called at most once, after everything else. Closing releases everything, waits for the child, and nothing is called after it.
\<close>

theorem popen_lifecycle:
  assumes "popen_reaches w"
  shows "\<not> pw_bad w
    \<and> pw_fds w = in_use (pp_stdin (pw_obj w)) + (in_use (pp_stdout (pw_obj w)) + in_use (pp_stderr (pw_obj w)))
    \<and> pw_events w = in_use (pp_stdout_ev (pw_obj w)) + in_use (pp_stderr_ev (pw_obj w))
    \<and> pw_registry w = in_use (pp_onReadRef (pw_obj w)) + (in_use (pp_onStderrRef (pw_obj w)) + in_use (pp_onDisconnectedRef (pw_obj w)))
    \<and> (pp_child_pid (pw_obj w) = None \<longleftrightarrow> pw_child w = ChNone \<or> pw_child w = ChReaped)
    \<and> list_all (\<lambda>c. \<not> popen_disconnected c) (butlast (pw_log w))
    \<and> (let c = luafan_popen_close t w
       in pw_fds c = {#} \<and> pw_events c = {#} \<and> pw_registry c = {#} \<and> (pw_child c = ChNone \<or> pw_child c = ChReaped) \<and> pw_log (popen_step x c) = pw_log w)"
proof -
  have w: "popen_ok w" using assms by (rule popen_reaches_ok)
  let ?c = "luafan_popen_close t w"
  have c: "popen_ok ?c \<and> pw_obj ?c = no_popen\<lparr>pp_closed := True\<rparr> \<and> pw_fds ?c = {#} \<and> pw_events ?c = {#} \<and> pw_registry ?c = {#}
    \<and> (pw_child ?c = ChNone \<or> pw_child ?c = ChReaped) \<and> pw_log ?c = pw_log w" by (rule closed_empty [OF w])
  then have "pw_log (popen_step x ?c) = pw_log w" using disconnect_needs_reader [of ?c x] by (simp add: no_popen_def)
  with w c show ?thesis unfolding popen_ok_def Let_def by blast
qed

definition sample_po :: popen_options where
  "sample_po = \<lparr>po_command = CmdString [0x6c, 0x73, 0x20, 0x2f], po_capture = True, po_env = None, po_onread = True, po_onstderr = False, po_ondisconnected = True\<rparr>"

definition sample_pe :: popen_env where
  "sample_pe = \<lparr>pe_stdin = Inr (3, 4), pe_stdout = Inr (5, 6), pe_stderr = Inr (7, 8), pe_spawn = Inr 99\<rparr>"

definition sample_popen :: popen_world where
  "sample_popen = snd (luafan_popen_spawn roomy_alloc [] sample_pe sample_po popen_start)"

text \<open>Another child, with a reader of stderr, after the end of its stdout.\<close>

definition sample_stderr :: popen_world where
  "sample_stderr = popen_step (PvStdout PrReturns None RdEof)
     (snd (luafan_popen_spawn roomy_alloc [] sample_pe (sample_po\<lparr>po_onstderr := True\<rparr>) popen_start))"

lemma sample_spawn:
  assumes "opt = sample_po\<lparr>po_onstderr := b\<rparr>"
  shows "snd (luafan_popen_spawn roomy_alloc [] sample_pe opt popen_start)
    = popen_events True (popen_refs opt (popen_start\<lparr>pw_fds := {#4, 5, 7#}, pw_child := ChRunning,
        pw_obj := no_popen\<lparr>pp_stdin := Some 4, pp_stdout := Some 5, pp_stderr := Some 7, pp_child_pid := Some 99\<rparr>\<rparr>))"
proof -
  let ?w = "popen_start\<lparr>pw_fds := {#3, 4#} + {#5, 6#} + {#7, 8#}\<rparr>"
  have "parse_command roomy_alloc (po_command sample_po) = Inr ([[0x6c, 0x73], [0x2f]], 1)" by code_simp
  then have c: "parse_command roomy_alloc (po_command opt) = Inr ([[0x6c, 0x73], [0x2f]], 1)" using assms by simp
  have "popen_pipes sample_pe True (popen_start\<lparr>pw_blocks := 1\<rparr>) = (Inr ((3, 4), (5, 6), Some (7, 8)), ?w\<lparr>pw_blocks := 1\<rparr>)"
    by (simp add: popen_pipes_def sample_pe_def open_pipe_def pipe_mset_def popen_start_def)
  moreover have "popen_start\<lparr>pw_blocks := pw_blocks popen_start + 1\<rparr> = popen_start\<lparr>pw_blocks := 1\<rparr>" "?w\<lparr>pw_blocks := 0\<rparr> = ?w" by (simp_all add: popen_start_def)
  ultimately have "snd (luafan_popen_spawn roomy_alloc [] sample_pe opt popen_start) = popen_parent opt (3, 4) (5, 6) (Some (7, 8)) 99 ?w"
    unfolding luafan_popen_spawn_def c using assms by (simp add: build_env_def sample_po_def sample_pe_def Let_def)
  then show ?thesis using assms by (simp add: popen_parent_def popen_close_fd_def sample_po_def add_mset_commute)
qed

lemma sample_popen_eq:
  "sample_popen = \<lparr>pw_obj = \<lparr>pp_stdin = Some 4, pp_stdout = Some 5, pp_stderr = Some 7, pp_child_pid = Some 99, pp_onReadRef = Some 1, pp_onStderrRef = None,
     pp_onDisconnectedRef = Some 2, pp_stdout_ev = Some 3, pp_stderr_ev = None, pp_closed = False\<rparr>, pw_fds = {#4, 5, 7#}, pw_events = {#3#}, pw_registry = {#2, 1#},
     pw_next = 4, pw_child = ChRunning, pw_log = [], pw_blocks = 0, pw_bad = False\<rparr>"
proof -
  have "sample_po = sample_po\<lparr>po_onstderr := False\<rparr>" by (simp add: sample_po_def)
  from sample_spawn [OF this] show ?thesis
    by (simp add: sample_popen_def popen_refs_def popen_func_ref_def popen_events_def popen_event_new_def upd_popen_def no_popen_def popen_start_def sample_po_def)
qed

lemma sample_stderr_eq:
  "sample_stderr = \<lparr>pw_obj = \<lparr>pp_stdin = Some 4, pp_stdout = Some 5, pp_stderr = Some 7, pp_child_pid = Some 99, pp_onReadRef = Some 1, pp_onStderrRef = Some 2,
     pp_onDisconnectedRef = Some 3, pp_stdout_ev = None, pp_stderr_ev = Some 5, pp_closed = False\<rparr>, pw_fds = {#4, 5, 7#}, pw_events = {#5#}, pw_registry = {#3, 2, 1#},
     pw_next = 6, pw_child = ChRunning, pw_log = [], pw_blocks = 0, pw_bad = False\<rparr>"
  unfolding sample_stderr_def sample_spawn [OF refl]
  by (simp add: popen_refs_def popen_func_ref_def popen_events_def popen_event_new_def upd_popen_def no_popen_def popen_start_def sample_po_def
      popen_step_def popen_stdout_cb_def popen_try_disconnected_def drop_stdout_ev_def popen_event_free_def)
    (simp add: numeral_eq_Suc)

theorem popen_lifecycle_witness:
  "popen_reaches sample_popen \<and> pw_fds sample_popen = {#4, 5, 7#} \<and> pw_fds (luafan_popen_close None sample_popen) = {#}
   \<and> pw_child (luafan_popen_close None sample_popen) = ChReaped"
proof -
  have r: "popen_reaches sample_popen" unfolding sample_popen_def by (rule popen_spawns)
  have "pw_child (luafan_popen_close None sample_popen) = ChReaped"
    by (simp add: sample_popen_eq luafan_popen_close_def close_refs_def drop_stdout_ev_def drop_stderr_ev_def close_fds_def luafan_popen_close_stdin_def
      close_child_def waitpid_nohang_def look_def popen_kill_def popen_unref_def popen_event_free_def popen_close_fd_def upd_popen_def Let_def)
  with popen_lifecycle [OF r, of None] r show ?thesis by (simp add: Let_def) (simp add: sample_popen_eq)
qed

lemma reap_exits:
  assumes "pw_child w = ChZombie st \<or> pw_child w = ChRunning \<and> t = Some (k, st) \<and> k < i + n" and "0 < n"
  shows "\<exists>v. reap_loop t i n w = (exit_code st, v) \<and> pw_log v = pw_log w \<and> pw_registry v = pw_registry w
    \<and> pw_child v = ChReaped \<and> pw_obj v = (pw_obj w)\<lparr>pp_child_pid := None\<rparr>"
  using assms
proof (induction n arbitrary: i)
  case (Suc n)
  show ?case
  proof (cases "pw_child w = ChRunning \<and> i < k")
    case True
    with Suc.prems have t: "t = Some (k, st)" "k < Suc i + n" "0 < n" by auto
    with True have "reap_loop t i (Suc n) w = reap_loop t (Suc i) n w" by (simp add: look_def waitpid_nohang_def)
    with Suc.IH [of "Suc i"] True t show ?thesis by simp
  next
    case False
    with Suc.prems have "look t i w = w\<lparr>pw_child := ChZombie st\<rparr>" by (auto simp: look_def)
    then show ?thesis by (auto simp: waitpid_nohang_def upd_popen_def)
  qed
qed simp

text \<open>How a read says that its pipe ended, by its end or by an error, and what the report of the end of the child is.\<close>

definition pipe_reason :: "string \<Rightarrow> pipe_read \<Rightarrow> string option" where
  "pipe_reason closed r = (case r of RdEof \<Rightarrow> Some closed | RdError e \<Rightarrow> Some e | _ \<Rightarrow> None)"

definition exit_reported :: "string \<Rightarrow> wait_status \<Rightarrow> popen_world \<Rightarrow> popen_world \<Rightarrow> bool" where
  "exit_reported why st w v \<longleftrightarrow>
     pw_log v = pw_log w @ [PcDisconnected why (exit_code st)] \<and> pw_child v = ChReaped \<and> pp_child_pid (pw_obj v) = None"

lemma try_disconnected_reports:
  assumes "pp_stdout_ev (pw_obj w) = None" and "pp_stderr_ev (pw_obj w) = None" and "pp_child_pid (pw_obj w) \<noteq> None"
    and "pp_onDisconnectedRef (pw_obj w) = Some d" and "d \<in># pw_registry w"
    and "pw_child w = ChZombie st \<or> pw_child w = ChRunning \<and> t = Some (k, st) \<and> k < 10"
  shows "exit_reported why st w (popen_try_disconnected PrReturns t why w)"
proof -
  obtain v where "reap_loop t 0 10 w = (exit_code st, v)" "pw_log v = pw_log w" "pw_registry v = pw_registry w"
      "pw_child v = ChReaped" "pw_obj v = (pw_obj w)\<lparr>pp_child_pid := None\<rparr>"
    using reap_exits [of w st t k 0 10] assms(6) by auto
  with assms(1-5) show ?thesis by (simp add: exit_reported_def popen_try_disconnected_def popen_callback_def)
qed

lemma pipe_end_cb:
  assumes "popen_ok w" and "pipe_reason closed r = Some why"
  shows "closed = ''stdout closed'' \<Longrightarrow> popen_stdout_cb re t r w = popen_try_disconnected re t why
      (w\<lparr>pw_events := in_use (pp_stderr_ev (pw_obj w)), pw_obj := (pw_obj w)\<lparr>pp_stdout_ev := None\<rparr>\<rparr>)"
    and "closed = ''stderr closed'' \<Longrightarrow> popen_stderr_cb re t r w = popen_try_disconnected re t why
      (w\<lparr>pw_events := in_use (pp_stdout_ev (pw_obj w)), pw_obj := (pw_obj w)\<lparr>pp_stderr_ev := None\<rparr>\<rparr>)"
  using assms by (auto simp: popen_stdout_cb_def popen_stderr_cb_def pipe_reason_def popen_ok_def drop_stdout_eq drop_stderr_eq split: pipe_read.splits)

text \<open>
  (C34) The end of a child is reported, whichever of its two output pipes ends last, and whether it ends by its end or by an error of the read: if the child has ended by then, or ends
  within the nine milliseconds in which it is looked for, \<open>ondisconnected\<close> is called once, with the reason and the exit code of the child, or 128 and the number of
  the signal that ended it, and the child is waited for. The end of the first of two pipes reports nothing.
\<close>

theorem popen_exit_reported:
  assumes "popen_reaches w" and "pp_onDisconnectedRef (pw_obj w) \<noteq> None"
    and "pw_child w = ChZombie st \<or> pw_child w = ChRunning \<and> t = Some (k, st) \<and> k < 10"
  shows "(pp_stdout_ev (pw_obj w) \<noteq> None \<and> pp_stderr_ev (pw_obj w) = None \<and> pipe_reason ''stdout closed'' r = Some why
      \<longrightarrow> exit_reported why st w (popen_step (PvStdout PrReturns t r) w))
    \<and> (pp_stderr_ev (pw_obj w) \<noteq> None \<and> pp_stdout_ev (pw_obj w) = None \<and> pipe_reason ''stderr closed'' r = Some why
      \<longrightarrow> exit_reported why st w (popen_step (PvStderr PrReturns t r) w))
    \<and> (pp_stdout_ev (pw_obj w) \<noteq> None \<and> pp_stderr_ev (pw_obj w) \<noteq> None \<and> pipe_reason ''stdout closed'' r \<noteq> None
      \<longrightarrow> pw_log (popen_step (PvStdout PrReturns t r) w) = pw_log w \<and> pw_log (popen_step (PvStderr PrReturns t r) w) = pw_log w)"
proof -
  have w: "popen_ok w" using assms(1) by (rule popen_reaches_ok)
  obtain d where d: "pp_onDisconnectedRef (pw_obj w) = Some d" using assms(2) by blast
  have use: "pp_child_pid (pw_obj w) \<noteq> None" "d \<in># pw_registry w" using w d assms(3) by (auto simp: popen_ok_def)
  note cb = pipe_end_cb [OF w]
  let ?o = "w\<lparr>pw_events := in_use (pp_stderr_ev (pw_obj w)), pw_obj := (pw_obj w)\<lparr>pp_stdout_ev := None\<rparr>\<rparr>"
  let ?e = "w\<lparr>pw_events := in_use (pp_stdout_ev (pw_obj w)), pw_obj := (pw_obj w)\<lparr>pp_stderr_ev := None\<rparr>\<rparr>"
  have "exit_reported why st ?o (popen_try_disconnected PrReturns t why ?o)" if "pp_stderr_ev (pw_obj w) = None"
    using that use d assms(3) by (intro try_disconnected_reports) simp_all
  moreover have "exit_reported why st ?e (popen_try_disconnected PrReturns t why ?e)" if "pp_stdout_ev (pw_obj w) = None"
    using that use d assms(3) by (intro try_disconnected_reports) simp_all
  moreover have "pw_log (popen_stdout_cb PrReturns t r w) = pw_log w \<and> pw_log (popen_stderr_cb PrReturns t r w) = pw_log w"
    if "pp_stdout_ev (pw_obj w) \<noteq> None" "pp_stderr_ev (pw_obj w) \<noteq> None" "pipe_reason ''stdout closed'' r \<noteq> None"
    using that w by (auto simp: popen_stdout_cb_def popen_stderr_cb_def pipe_reason_def popen_ok_def drop_stdout_eq drop_stderr_eq popen_try_disconnected_def
        split: pipe_read.splits)
  ultimately show ?thesis by (auto simp: popen_step_def cb exit_reported_def)
qed

text \<open>In the witness the program has no reader of stderr in the first state; in the second it has one, and stdout ended before.\<close>

theorem popen_exit_reported_witness:
  "exit_reported ''stdout closed'' (WSignaled 9) sample_popen (popen_step (PvStdout PrReturns (Some (3, WSignaled 9)) RdEof) sample_popen)
   \<and> exit_reported ''stderr closed'' (WExited 2) sample_stderr (popen_step (PvStderr PrReturns (Some (3, WExited 2)) RdEof) sample_stderr)
   \<and> exit_code (WSignaled 9) = 137"
proof -
  have r: "popen_reaches sample_popen" "popen_reaches sample_stderr"
    unfolding sample_popen_def sample_stderr_def by (intro popen_spawns popen_goes)+
  show ?thesis
    using popen_exit_reported [OF r(1), of "WSignaled 9" "Some (3, WSignaled 9)" 3 RdEof "''stdout closed''"]
      popen_exit_reported [OF r(2), of "WExited 2" "Some (3, WExited 2)" 3 RdEof "''stderr closed''"]
    by (simp add: sample_popen_eq sample_stderr_eq exit_code_def pipe_reason_def)
qed

text \<open>What a program finds under a name in its environment: the value of the first entry with that key.\<close>

definition getenv :: "bytes list \<Rightarrow> bytes \<Rightarrow> bytes option" where
  "getenv env k = map_option (drop (length k + 1)) (find (\<lambda>e. prefix (k @ [0x3d]) e) env)"

lemma entry_prefix:
  assumes "0x3d \<notin> set k"
  shows "prefix (k @ [0x3d]) e \<longleftrightarrow> env_key e = k \<and> 0x3d \<in> set e"
proof
  assume "prefix (k @ [0x3d]) e"
  then obtain r where "e = k @ 0x3d # r" by (auto simp: prefix_def)
  with assms show "env_key e = k \<and> 0x3d \<in> set e" by (auto simp: env_key_def takeWhile_append)
next
  assume e: "env_key e = k \<and> 0x3d \<in> set e"
  then obtain a r where "e = a @ 0x3d # r" "0x3d \<notin> set a" by (metis split_list_first)
  with e show "prefix (k @ [0x3d]) e" by (auto simp: env_key_def takeWhile_append prefix_def)
qed

lemma find_entries:
  assumes "0x3d \<notin> set k" and "\<forall>kv \<in> set kvs. 0x3d \<notin> set (fst kv)"
  shows "find (\<lambda>e. prefix (k @ [0x3d]) e) (map env_entry kvs @ rest)
    = (case map_of kvs k of Some v \<Rightarrow> Some (env_entry (k, v)) | None \<Rightarrow> find (\<lambda>e. prefix (k @ [0x3d]) e) rest)"
  using assms(2)
proof (induction kvs)
  case (Cons kv kvs)
  have "env_key (env_entry kv) = fst kv" using Cons.prems by (auto simp: env_key_def env_entry_def takeWhile_append)
  then have "prefix (k @ [0x3d]) (env_entry kv) \<longleftrightarrow> fst kv = k" using assms(1) by (auto simp: entry_prefix env_entry_def)
  with Cons show ?case by (cases kv) auto
qed simp

lemma find_inherited:
  assumes "0x3d \<notin> set k" and "k \<notin> K"
  shows "find (\<lambda>e. prefix (k @ [0x3d]) e) (filter (\<lambda>e. env_key e \<notin> K) env) = find (\<lambda>e. prefix (k @ [0x3d]) e) env"
  using assms by (induction env) (auto simp: entry_prefix)

lemma user_strings_count: "length (user_strings kvs) \<le> user_count kvs"
  by (induction kvs) (auto simp: user_strings_def user_count_def split: env_item.split)

text \<open>
  The environment of the child: a variable that the program reads has the value of the table, if the table has that key with a string, and otherwise the inherited
  value. The array never has more entries than were allocated for it. (Keys with \<open>=\<close> are excluded: they would define another variable.)
\<close>

lemma popen_environment:
  assumes "build_env al environ (Some kvs) = Inr (envp, n)" and "roomy al"
    and "\<forall>kv \<in> set (user_strings kvs). 0x3d \<notin> set (fst kv)" and "0x3d \<notin> set k"
  shows "getenv envp k = (case map_of (user_strings kvs) k of Some v \<Rightarrow> Some v | None \<Rightarrow> getenv environ k)
    \<and> length envp \<le> length environ + user_count kvs"
proof -
  let ?u = "user_strings kvs"
  have e: "envp = map env_entry ?u @ filter (\<lambda>e. env_key e \<notin> fst ` set ?u) environ"
    using assms(1,2) by (simp add: build_env_def merge_env_def roomy_def Let_def)
  have "length envp \<le> length environ + user_count kvs"
    using user_strings_count [of kvs] length_filter_le [of "\<lambda>e. env_key e \<notin> fst ` set ?u" environ]
    unfolding e length_append length_map by linarith
  moreover have "getenv envp k = (case map_of ?u k of Some v \<Rightarrow> Some v | None \<Rightarrow> getenv environ k)"
  proof (cases "map_of ?u k")
    case None
    then have "k \<notin> fst ` set ?u" by (simp add: map_of_eq_None_iff)
    with None assms(3,4) show ?thesis unfolding getenv_def e by (simp add: find_entries find_inherited)
  next
    case (Some v)
    with assms(3,4) show ?thesis unfolding getenv_def e by (simp add: find_entries env_entry_def)
  qed
  ultimately show ?thesis by blast
qed

lemma popen_environment_witness:
  "\<exists>envp n. build_env roomy_alloc [[0x41, 0x3d, 0x31], [0x42, 0x3d, 0x32]] (Some [(EiString [0x42], EiString [0x33])]) = Inr (envp, n)
     \<and> getenv envp [0x42] = Some [0x33] \<and> getenv envp [0x41] = Some [0x31]"
proof -
  let ?env = "[[0x41, 0x3d, 0x31], [0x42, 0x3d, 0x32]] :: bytes list" and ?u = "[(EiString [0x42], EiString [0x33])]"
  have u: "user_strings ?u = [([0x42], [0x33])]" by (simp add: user_strings_def c_string_def)
  let ?m = "merge_env roomy_alloc ?env (user_strings ?u)"
  have "can_alloc roomy_alloc n" for n by (simp add: roomy_alloc_def)
  then have b: "build_env roomy_alloc ?env (Some ?u) = Inr (fst ?m, snd ?m + 1)" by (simp add: build_env_def case_prod_beta)
  have "getenv ?env [0x41] = Some [0x31]" by (simp add: getenv_def)
  with popen_environment [OF b roomy_roomy_alloc, of "[0x42]"] popen_environment [OF b roomy_roomy_alloc, of "[0x41]"] b u show ?thesis by auto
qed

text \<open>
  The standard descriptors of the child, whatever else it inherits: with pipes on six different descriptors above 2, it reads the pipe of \<open>send\<close> on 0 and writes
  the other two on 1 and, if they are captured, 2; all six are closed in it, and the other descriptors are unchanged.
\<close>

lemma popen_child_descriptors:
  fixes m :: "nat \<rightharpoonup> 'a"
  assumes "distinct [fst i, snd i, fst out, snd out, fst err, snd err]" and "\<forall>fd \<in> {fst i, snd i, fst out, snd out, fst err, snd err}. 2 < fd"
  shows "fold run_action (file_actions i out (Some err)) m
      = (m |` (- {fst i, snd i, fst out, snd out, fst err, snd err}))(0 := m (fst i), 1 := m (snd out), 2 := m (snd err))
    \<and> fold run_action (file_actions i out None) m
      = (m |` (- {fst i, snd i, fst out, snd out}))(0 := m (fst i), 1 := m (snd out))"
proof -
  have "fd \<noteq> 0 \<and> fd \<noteq> 1 \<and> fd \<noteq> 2" if "fd \<in> {fst i, snd i, fst out, snd out, fst err, snd err}" for fd using assms(2) that by force
  then have "fst i \<notin> {0, 1, 2}" "snd i \<notin> {0, 1, 2}" "fst out \<notin> {0, 1, 2}" "snd out \<notin> {0, 1, 2}" "fst err \<notin> {0, 1, 2}" "snd err \<notin> {0, 1, 2}" by blast+
  moreover have "fst i \<noteq> snd i" "fst i \<noteq> fst out" "fst i \<noteq> snd out" "fst i \<noteq> fst err" "fst i \<noteq> snd err" "snd i \<noteq> fst out" "snd i \<noteq> snd out" "snd i \<noteq> fst err"
    "snd i \<noteq> snd err" "fst out \<noteq> snd out" "fst out \<noteq> fst err" "fst out \<noteq> snd err" "snd out \<noteq> fst err" "snd out \<noteq> snd err" "fst err \<noteq> snd err"
    using assms(1) by auto
  ultimately show ?thesis
    unfolding file_actions_def run_action_def restrict_map_def by (intro conjI ext) (simp_all add: fun_upd_def, auto)
qed

lemma popen_child_descriptors_witness:
  "fold run_action (file_actions (3, 4) (5, 6) (Some (7, 8))) (\<lambda>fd. if fd < 9 then Some fd else None) 0 = Some (3 :: nat)
   \<and> fold run_action (file_actions (3, 4) (5, 6) (Some (7, 8))) (\<lambda>fd. if fd < 9 then Some fd else None) 2 = Some (8 :: nat)
   \<and> fold run_action (file_actions (3, 4) (5, 6) (Some (7, 8))) (\<lambda>fd. if fd < 9 then Some fd else None) 4 = None"
  using popen_child_descriptors [of "(3, 4)" "(5, 6)" "(7, 8)" "\<lambda>fd. if fd < 9 then Some fd else None"] by simp

text \<open>If the program itself has no standard input, the pipe can get the descriptor 0, and the child closes what it has just put there.\<close>

lemma child_without_stdin: "fold run_action (file_actions (0, j) out None) m 0 = None" if "fst out \<noteq> 0" "snd out \<noteq> 0" "j \<noteq> 0"
  using that by (simp add: file_actions_def run_action_def)

text \<open>The words of a command are those between the blanks, but at most 255; blanks cannot be quoted.\<close>

lemma command_words:
  assumes "list_all (\<lambda>w. w \<noteq> [] \<and> list_all (\<lambda>c. \<not> blank c) w) ws"
  shows "strtok_words n (concat (map (\<lambda>w. 0x20 # w) ws)) = take n ws"
  using assms
proof (induction n arbitrary: ws)
  case (Suc n)
  show ?case
  proof (cases ws)
    case Nil
    then show ?thesis by simp
  next
    case (Cons w r)
    let ?r = "concat (map (\<lambda>w. 0x20 # w) r)"
    have w: "w \<noteq> []" "\<forall>c \<in> set w. \<not> blank c" using Suc.prems Cons by (auto simp: list_all_iff)
    have b: "blank 0x20" by (simp add: blank_def)
    have "dropWhile blank (0x20 # w @ ?r) = w @ ?r" using w b by (cases w) auto
    moreover have "takeWhile (\<lambda>c. \<not> blank c) (w @ ?r) = w" "dropWhile (\<lambda>c. \<not> blank c) (w @ ?r) = ?r"
      using w b by (cases r; auto simp: takeWhile_append dropWhile_append)+
    ultimately show ?thesis using Suc Cons w by simp
  qed
qed simp

text \<open>A failure to make a pipe leaks the copy of the command and the environment.\<close>

lemma popen_pipe_failure_leaks:
  assumes "parse_command al (po_command opt) = Inr (argv, n)" and "argv \<noteq> []" and "build_env al environ (po_env opt) = Inr (envp, m)"
    and "pe_stdin e = Inl s"
  shows "pw_blocks (snd (luafan_popen_spawn al environ e opt w)) = pw_blocks w + n + m"
  using assms by (simp add: luafan_popen_spawn_def popen_pipes_def)

end
