(* ===== verification/Fan_Text.thy ===== *)
theory Fan_Text
  imports C_Numbers
begin

text \<open>
  The text functions of \<open>src/luafan.c\<close>: hexadecimal conversion in both directions, and the validation and repair of UTF-8. Buffers are
  taken from the allocator with their uninitialised content, and every write is checked against their size.
\<close>

section \<open>Results\<close>

text \<open>What a function gives to Lua: nothing, a text, a truth value, or an error; \<open>TrUndefined\<close> is a write outside the buffer.\<close>

datatype text_result = TrNothing | TrText bytes | TrBool bool | TrRaises string | TrUndefined

section \<open>Hexadecimal\<close>

definition hexdigits :: bytes where
  "hexdigits = [0x30, 0x31, 0x32, 0x33, 0x34, 0x35, 0x36, 0x37, 0x38, 0x39, 0x41, 0x42, 0x43, 0x44, 0x45, 0x46]"

text \<open>\<open>strtol\<close> with base 16: blanks, a sign and the prefix \<open>0x\<close> are accepted, and what is no number is 0.\<close>

definition c_isspace :: "u8 \<Rightarrow> bool" where
  "c_isspace c \<longleftrightarrow> c = 0x20 \<or> 0x09 \<le> c \<and> c \<le> 0x0d"

definition strtol16 :: "bytes \<Rightarrow> int" where
  "strtol16 bs =
     (let s = dropWhile c_isspace bs;
          neg = (s \<noteq> [] \<and> hd s = 0x2d);
          s = (if s \<noteq> [] \<and> (hd s = 0x2d \<or> hd s = 0x2b) then tl s else s);
          s = (if 2 < length s \<and> s ! 0 = 0x30 \<and> lower (s ! 1) = 0x78 \<and> is_xdigit (s ! 2) then drop 2 s else s);
          n = int (digits_val 16 (takeWhile is_xdigit s))
      in if neg then - n else n)"

definition strToChar :: "u8 \<Rightarrow> u8 \<Rightarrow> u8" where
  "strToChar a b = word_of_int (strtol16 (c_string [a, b]))"

text \<open>The loop stops at the first zero, which may lie inside the string.\<close>

fun hex_loop :: "bytes \<Rightarrow> bytes" where
  "hex_loop (a # b # r) = (if a \<noteq> 0 \<and> b \<noteq> 0 then strToChar a b # hex_loop r else [])"
| "hex_loop _ = []"

definition hex2data :: "allocator \<Rightarrow> bytes option \<Rightarrow> text_result" where
  "hex2data al arg =
     (case arg of
        None \<Rightarrow> TrNothing
      | Some bs \<Rightarrow>
          (case malloc al (length bs div 2 + 1) of
             None \<Rightarrow> TrRaises ''Memory allocation failure''
           | Some r \<Rightarrow>
               (case store_at (Some r) 0 (hex_loop bs @ [0]) of
                  None \<Rightarrow> TrUndefined
                | Some r' \<Rightarrow> TrText (take (length bs div 2) r'))))"

definition hex_pair :: "u8 \<Rightarrow> bytes" where
  "hex_pair c = [hexdigits ! unat (drop_bit 4 c AND 0xF), hexdigits ! unat (c AND 0xF)]"

definition data2hex :: "allocator \<Rightarrow> bytes option \<Rightarrow> text_result" where
  "data2hex al arg =
     (case arg of
        None \<Rightarrow> TrNothing
      | Some bs \<Rightarrow>
          (case malloc al (length bs * 2 + 1) of
             None \<Rightarrow> TrRaises ''Memory allocation failure''
           | Some r \<Rightarrow>
               (case store_at (Some r) 0 (concat (map hex_pair bs) @ [0]) of
                  None \<Rightarrow> TrUndefined
                | Some r' \<Rightarrow> TrText (take (length bs * 2) r'))))"

section \<open>UTF-8\<close>

text \<open>The number of bytes of the well-formed character at the front of the rest of the text, or 0.\<close>

definition utf8_decode_one :: "bytes \<Rightarrow> nat" where
  "utf8_decode_one p =
     (let b = p ! 0 in
      if b < 0x80 then 1
      else if b < 0xC2 then 0
      else if b < 0xE0 then
        (if length p < 2 then 0
         else if p ! 1 AND 0xC0 \<noteq> 0x80 then 0
         else 2)
      else if b < 0xF0 then
        (if length p < 3 then 0
         else
           let b2 = p ! 1 in
           if (if b = 0xE0 then b2 < 0xA0 \<or> b2 > 0xBF
               else if b = 0xED then b2 < 0x80 \<or> b2 > 0x9F
               else b2 AND 0xC0 \<noteq> 0x80) then 0
           else if p ! 2 AND 0xC0 \<noteq> 0x80 then 0
           else 3)
      else if b < 0xF5 then
        (if length p < 4 then 0
         else
           let b2 = p ! 1 in
           if (if b = 0xF0 then b2 < 0x90 \<or> b2 > 0xBF
               else if b = 0xF4 then b2 < 0x80 \<or> b2 > 0x8F
               else b2 AND 0xC0 \<noteq> 0x80) then 0
           else if p ! 2 AND 0xC0 \<noteq> 0x80 then 0
           else if p ! 3 AND 0xC0 \<noteq> 0x80 then 0
           else 4)
      else 0)"

text \<open>The loop that both functions start with: what is left when it stops.\<close>

function utf8_scan :: "bytes \<Rightarrow> bytes" where
  "utf8_scan p = (if p = [] \<or> utf8_decode_one p = 0 then p else utf8_scan (drop (utf8_decode_one p) p))"
  by pat_completeness auto
termination by (relation "measure length") auto

declare utf8_scan.simps [simp del]

definition luafan_is_valid_utf8 :: "bytes option \<Rightarrow> text_result" where
  "luafan_is_valid_utf8 arg = TrBool (utf8_scan (case arg of Some s \<Rightarrow> s | None \<Rightarrow> []) = [])"

definition U_FFFD :: bytes where "U_FFFD = [0xEF, 0xBF, 0xBD]"

text \<open>
  The repair loop: the rest of the input, the capacity of the buffer and its content so far. \<open>size_t\<close> does not overflow, since a
  Lua string has less than \<open>2 ^ 61\<close> bytes.
\<close>

function utf8_repair :: "allocator \<Rightarrow> bytes \<Rightarrow> nat \<Rightarrow> bytes \<Rightarrow> text_result" where
  "utf8_repair al q cap out =
     (if q = [] then TrText out
      else
        let n = utf8_decode_one q;
            piece = (if 0 < n then take n q else U_FFFD);
            grow = (cap < length out + length piece);
            cap' = (if grow then (length out + length piece) * 2 else cap)
        in if grow \<and> \<not> can_alloc al cap' then TrRaises ''out of memory in sanitize_utf8''
           else if cap' < length out + length piece then TrUndefined
           else utf8_repair al (drop (if 0 < n then n else 1) q) cap' (out @ piece))"
  by pat_completeness auto
termination by (relation "measure (\<lambda>(al, q, cap, out). length q)") auto

declare utf8_repair.simps [simp del]

text \<open>A missing argument is read as the empty text, and then returned as it is: \<open>TrNothing\<close>.\<close>

definition luafan_sanitize_utf8 :: "allocator \<Rightarrow> bytes option \<Rightarrow> text_result" where
  "luafan_sanitize_utf8 al arg =
     (let s = (case arg of Some s \<Rightarrow> s | None \<Rightarrow> []);
          q = utf8_scan s
      in if q = [] then (case arg of Some s \<Rightarrow> TrText s | None \<Rightarrow> TrNothing)
         else if \<not> can_alloc al (length s + 16) then TrRaises ''out of memory in sanitize_utf8''
         else utf8_repair al q (length s + 16) (take (length s - length q) s))"

section \<open>Lemmas on bytes\<close>

lemma u8_nat [simp]: "n < 256 \<Longrightarrow> unat (word_of_nat n :: u8) = n"
  by (metis unat_u8_of_nat mod_less)

lemma low_bits: "unat (take_bit k b :: u8) = unat b mod 2 ^ k"
  by (subst unsigned_take_bit_eq) (rule take_bit_eq_mod)

lemma in_third_quarter: "n = n mod 64 + 0x80 \<longleftrightarrow> 0x80 \<le> n \<and> n < (0xC0 :: nat)"
proof
  assume n: "n = n mod 64 + 0x80"
  have "n mod 64 < 64" by simp
  with n show "0x80 \<le> n \<and> n < 0xC0" by linarith
next
  assume "0x80 \<le> n \<and> n < 0xC0"
  then obtain k where k: "n = k + 64 * 2" "k < 64" by (auto simp: le_iff_add)
  then have "n mod 64 = k" by (simp only: mod_mult_self2 mod_less)
  with k show "n = n mod 64 + 0x80" by simp
qed

lemma continuation_nat: "b AND 0xC0 = (0x80 :: u8) \<longleftrightarrow> 0x80 \<le> unat b \<and> unat b < 0xC0"
proof -
  have "take_bit 6 b + (b AND 0xC0) = b"
  proof -
    have "0xC0 = NOT (mask 6 :: u8)" by (simp add: mask_eq_exp_minus_1)
    moreover have "b AND NOT (mask 6) = push_bit 6 (drop_bit 6 b)" by (auto intro!: bit_eqI simp: bit_simps)
    ultimately have "b AND 0xC0 = push_bit 6 (drop_bit 6 b)" by (simp only:)
    then show ?thesis using bits_ident [of 6 b] by (simp add: add.commute)
  qed
  then have "b AND 0xC0 = 0x80 \<longleftrightarrow> b = take_bit 6 b + 0x80" by (metis add_left_cancel)
  also have "\<dots> \<longleftrightarrow> unat b = unat b mod 64 + 0x80"
  proof -
    have "unat (take_bit 6 b + 0x80) = unat b mod 64 + 0x80"
      using low_bits [of 6 b] by (subst unat_plus_simple [THEN iffD1]) (auto simp: word_le_nat_alt unat_word_ariths)
    then show ?thesis by (metis word_unat_eq_iff)
  qed
  also have "\<dots> \<longleftrightarrow> 0x80 \<le> unat b \<and> unat b < 0xC0" by (rule in_third_quarter)
  finally show ?thesis .
qed

lemma nibbles: "unat (drop_bit 4 c AND 0xF :: u8) = unat c div 16" "unat (c AND 0xF :: u8) = unat c mod 16"
proof -
  have m: "x AND 0xF = take_bit 4 x" for x :: u8 by (simp add: take_bit_eq_mask mask_eq_exp_minus_1)
  show "unat (c AND 0xF :: u8) = unat c mod 16" unfolding m low_bits by simp
  have "unat c div 16 < 16" using unat_u8_bound [of c] by (simp add: less_mult_imp_div_less)
  then show "unat (drop_bit 4 c AND 0xF :: u8) = unat c div 16"
    unfolding m low_bits by (subst unat_drop_bit_eq) (simp add: drop_bit_eq_div)
qed

lemma hexdigit_props:
  assumes "i < 16"
  shows "is_xdigit (hexdigits ! i) \<and> xdigit_val (hexdigits ! i) = i \<and> hexdigits ! i \<noteq> 0 \<and> \<not> c_isspace (hexdigits ! i)
     \<and> hexdigits ! i \<noteq> 0x2d \<and> hexdigits ! i \<noteq> 0x2b"
proof -
  have "\<forall>i \<in> set [0..<16]. is_xdigit (hexdigits ! i) \<and> xdigit_val (hexdigits ! i) = i \<and> hexdigits ! i \<noteq> 0 \<and> \<not> c_isspace (hexdigits ! i)
     \<and> hexdigits ! i \<noteq> 0x2d \<and> hexdigits ! i \<noteq> 0x2b" by code_simp
  with assms show ?thesis by simp
qed

lemma strToChar_digits:
  assumes "m < 16" and "n < 16"
  shows "strToChar (hexdigits ! m) (hexdigits ! n) = word_of_nat (16 * m + n)"
  using hexdigit_props [OF assms(1)] hexdigit_props [OF assms(2)]
  by (simp add: strToChar_def c_string_def strtol16_def digits_val_def Let_def)

lemma hex_loop_pairs: "hex_loop (concat (map hex_pair bs)) = bs"
proof (induction bs)
  case (Cons c bs)
  have b: "unat c div 16 < 16" "unat c mod 16 < 16" using unat_u8_bound [of c] by (simp_all add: less_mult_imp_div_less)
  have hp: "hex_pair c = [hexdigits ! (unat c div 16), hexdigits ! (unat c mod 16)]" unfolding hex_pair_def nibbles(1) unfolding nibbles(2) by (rule refl)
  have "word_of_nat (16 * (unat c div 16) + unat c mod 16) = c" by (metis mult_div_mod_eq unat_u8_bound word_unat_eq_iff u8_nat)
  then have "strToChar (hexdigits ! (unat c div 16)) (hexdigits ! (unat c mod 16)) = c" using strToChar_digits [OF b] by metis
  with Cons hexdigit_props [OF b(1)] hexdigit_props [OF b(2)] show ?case by (simp add: hp)
qed simp

lemma hex_loop_length: "length (hex_loop bs) \<le> length bs div 2"
  by (induction bs rule: hex_loop.induct) auto

section \<open>Well-formed UTF-8\<close>

definition scalar_value :: "nat \<Rightarrow> bool" where
  "scalar_value c \<longleftrightarrow> c < 0xD800 \<or> 0xE000 \<le> c \<and> c < 0x110000"

definition utf8_codes :: "nat \<Rightarrow> nat list" where
  "utf8_codes c =
       (if c < 0x80 then [c]
        else if c < 0x800 then [0xC0 + c div 64, 0x80 + c mod 64]
        else if c < 0x10000 then [0xE0 + c div 4096, 0x80 + c div 64 mod 64, 0x80 + c mod 64]
        else [0xF0 + c div 262144, 0x80 + c div 4096 mod 64, 0x80 + c div 64 mod 64, 0x80 + c mod 64])"

definition utf8_encode :: "nat \<Rightarrow> bytes" where
  "utf8_encode c = map word_of_nat (utf8_codes c)"

definition cont :: "nat \<Rightarrow> bool" where "cont n \<longleftrightarrow> 0x80 \<le> n \<and> n < 0xC0"

text \<open>The decoder on the numbers of the bytes.\<close>

definition decode_codes :: "nat list \<Rightarrow> nat" where
  "decode_codes p =
     (case p of
        [] \<Rightarrow> 0
      | b # r \<Rightarrow>
          if b < 0x80 then 1 else if b < 0xC2 then 0
          else if b < 0xE0 then (case r of b2 # _ \<Rightarrow> if cont b2 then 2 else 0 | _ \<Rightarrow> 0)
          else if b < 0xF0
          then (case r of
                  b2 # b3 # _ \<Rightarrow> if cont b2 \<and> (b = 0xE0 \<longrightarrow> 0xA0 \<le> b2) \<and> (b = 0xED \<longrightarrow> b2 \<le> 0x9F) \<and> cont b3 then 3 else 0
                | _ \<Rightarrow> 0)
          else if b < 0xF5
          then (case r of
                  b2 # b3 # b4 # _ \<Rightarrow>
                    if cont b2 \<and> (b = 0xF0 \<longrightarrow> 0x90 \<le> b2) \<and> (b = 0xF4 \<longrightarrow> b2 \<le> 0x8F) \<and> cont b3 \<and> cont b4 then 4 else 0
                | _ \<Rightarrow> 0)
          else 0)"

lemmas u8_arith = word_less_nat_alt word_le_nat_alt word_unat_eq_iff continuation_nat cont_def

lemma decode_one_codes:
  assumes "p \<noteq> []"
  shows "utf8_decode_one p = decode_codes (map unat p)"
proof -
  consider (one) a where "p = [a]" | (two) a b where "p = [a, b]" | (three) a b c where "p = [a, b, c]"
    | (more) a b c d r where "p = a # b # c # d # r"
    using assms by (metis neq_Nil_conv)
  then show ?thesis
  proof cases
    case one
    then show ?thesis unfolding utf8_decode_one_def Let_def continuation_nat by (auto simp: decode_codes_def u8_arith)
  next
    case two
    then show ?thesis unfolding utf8_decode_one_def Let_def continuation_nat by (auto simp: decode_codes_def u8_arith)
  next
    case three
    then show ?thesis unfolding utf8_decode_one_def Let_def continuation_nat by (auto simp: decode_codes_def u8_arith)
  next
    case more
    then show ?thesis unfolding utf8_decode_one_def Let_def continuation_nat by (auto simp: decode_codes_def u8_arith)
  qed
qed

lemma codes_small: "scalar_value c \<Longrightarrow> list_all (\<lambda>n. n < 256) (utf8_codes c)"
  by (auto simp: utf8_codes_def scalar_value_def)

lemma split3: "(c :: nat) div 4096 = c div 64 div 64"
  by (simp add: div_mult2_eq [symmetric])

lemma split4: "(c :: nat) div 262144 = c div 64 div 64 div 64"
  by (simp add: div_mult2_eq [symmetric])

lemma decode_codes_encode:
  assumes "scalar_value c"
  shows "decode_codes (utf8_codes c @ r) = length (utf8_codes c)"
proof -
  define e where "e = c div 64"
  define d where "d = c div 64 div 64"
  have "c < 0x110000" using assms by (auto simp: scalar_value_def)
  then consider "c < 0x80" | "0x80 \<le> c" "c < 0x800" | "0x800 \<le> c" "c < 0x10000" | "0x10000 \<le> c" "c < 0x110000"
    by linarith
  then show ?thesis
  proof cases
    case 1
    then show ?thesis by (simp add: utf8_codes_def decode_codes_def)
  next
    case 2
    then have "2 \<le> c div 64" "c div 64 < 32" by auto
    with 2 show ?thesis by (simp add: utf8_codes_def decode_codes_def cont_def)
  next
    case 3
    then have "32 \<le> e" "e < 0x400" "e < 0x360 \<or> 0x380 \<le> e" using assms by (auto simp: e_def scalar_value_def)
    moreover have "64 * (e div 64) + e mod 64 = e" "e mod 64 < 64" by simp_all
    ultimately have "e div 64 < 16" "e div 64 = 0 \<longrightarrow> 32 \<le> e mod 64" "e div 64 = 13 \<longrightarrow> e mod 64 < 32"
      by (linarith, intro impI, linarith, intro impI, linarith)
    with 3 show ?thesis by (auto simp: utf8_codes_def decode_codes_def cont_def split3 simp flip: e_def)
  next
    case 4
    then have "16 \<le> d" "d < 0x110" by (auto simp: d_def simp flip: split3)
    moreover have "64 * (d div 64) + d mod 64 = d" "d mod 64 < 64" by simp_all
    ultimately have "d div 64 < 5" "d div 64 = 0 \<longrightarrow> 16 \<le> d mod 64" "d div 64 = 4 \<longrightarrow> d mod 64 < 16"
      by (linarith, intro impI, linarith, intro impI, linarith)
    with 4 show ?thesis by (auto simp: utf8_codes_def decode_codes_def cont_def split3 split4 simp flip: d_def)
  qed
qed

lemma digits64:
  "w < 64 \<Longrightarrow> (w + 64 * x) div 64 = (x :: nat)" "w < 64 \<Longrightarrow> (w + 64 * x) mod 64 = (w :: nat)"
  by auto

lemma codes_of_decoded:
  assumes "decode_codes p = n" and "0 < n"
  shows "\<exists>c. scalar_value c \<and> take n p = utf8_codes c"
proof -
  obtain b r where p: "p = b # r" using assms by (cases p) (auto simp: decode_codes_def)
  consider "n = 1" "b < 0x80" | b2 r' where "n = 2" "r = b2 # r'" "0xC2 \<le> b" "b < 0xE0" "cont b2"
    | b2 b3 r' where "n = 3" "r = b2 # b3 # r'" "0xE0 \<le> b" "b < 0xF0" "cont b2" "b = 0xE0 \<longrightarrow> 0xA0 \<le> b2" "b = 0xED \<longrightarrow> b2 \<le> 0x9F" "cont b3"
    | b2 b3 b4 r' where "n = 4" "r = b2 # b3 # b4 # r'" "0xF0 \<le> b" "b < 0xF5" "cont b2" "b = 0xF0 \<longrightarrow> 0x90 \<le> b2" "b = 0xF4 \<longrightarrow> b2 \<le> 0x8F"
        "cont b3" "cont b4"
    using assms by (auto simp: p decode_codes_def split: if_splits list.splits)
  then show ?thesis
  proof cases
    case 1
    then show ?thesis by (intro exI [of _ b]) (simp add: p scalar_value_def utf8_codes_def)
  next
    case (2 b2 r')
    define x y where "x = b - 0xC0" and "y = b2 - 0x80"
    then have "b = 0xC0 + x" "b2 = 0x80 + y" "2 \<le> x" "x < 32" "y < 64" using 2 by (auto simp: cont_def)
    then show ?thesis using 2(1,2)
      by (intro exI [of _ "y + 64 * x"]) (simp add: p scalar_value_def utf8_codes_def digits64)
  next
    case (3 b2 b3 r')
    define x y z where "x = b - 0xE0" and "y = b2 - 0x80" and "z = b3 - 0x80"
    then have "b = 0xE0 + x" "b2 = 0x80 + y" "b3 = 0x80 + z" "x < 16" "y < 64" "z < 64" "x = 0 \<longrightarrow> 32 \<le> y" "x = 13 \<longrightarrow> y < 32"
      using 3 by (auto simp: cont_def)
    note f = this
    define c where "c = z + 64 * (y + 64 * x)"
    have "0x800 \<le> c" "c < 0x10000" using f by (cases "x = 0"; auto simp: c_def)+
    moreover have "scalar_value c" using f by (cases "x < 13"; cases "x = 13"; auto simp: scalar_value_def c_def)
    moreover have "c div 64 = y + 64 * x" "c mod 64 = z" "(y + 64 * x) div 64 = x" "(y + 64 * x) mod 64 = y"
      unfolding c_def using f by (simp_all only: digits64)
    ultimately show ?thesis using 3(1,2) f(1-3) by (intro exI [of _ c]) (simp add: p utf8_codes_def split3)
  next
    case (4 b2 b3 b4 r')
    define x y z u where "x = b - 0xF0" and "y = b2 - 0x80" and "z = b3 - 0x80" and "u = b4 - 0x80"
    then have "b = 0xF0 + x" "b2 = 0x80 + y" "b3 = 0x80 + z" "b4 = 0x80 + u" "x < 5" "y < 64" "z < 64" "u < 64"
      "x = 0 \<longrightarrow> 16 \<le> y" "x = 4 \<longrightarrow> y < 16"
      using 4 by (auto simp: cont_def)
    note f = this
    define c where "c = u + 64 * (z + 64 * (y + 64 * x))"
    have "0x10000 \<le> c" using f by (cases "x = 0") (auto simp: c_def)
    moreover have "c < 0x110000" using f by (cases "x = 4") (auto simp: c_def)
    moreover have "c div 64 = z + 64 * (y + 64 * x)" "c mod 64 = u" "(z + 64 * (y + 64 * x)) div 64 = y + 64 * x"
      "(z + 64 * (y + 64 * x)) mod 64 = z" "(y + 64 * x) div 64 = x" "(y + 64 * x) mod 64 = y"
      unfolding c_def using f by (simp_all only: digits64)
    ultimately show ?thesis using 4(1,2) f(1-4) by (intro exI [of _ c]) (simp add: p scalar_value_def utf8_codes_def split3 split4)
  qed
qed


lemma codes_unat: "scalar_value c \<Longrightarrow> map unat (utf8_encode c) = utf8_codes c"
  using codes_small [of c] by (auto simp: utf8_encode_def list_all_iff intro!: map_idI)

lemma length_encode [simp]: "length (utf8_encode c) = length (utf8_codes c)"
  by (simp add: utf8_encode_def)

lemma codes_nonempty [simp]: "utf8_codes c \<noteq> []" "utf8_encode c \<noteq> []"
  by (simp_all add: utf8_codes_def utf8_encode_def)

lemma decode_encode: "scalar_value c \<Longrightarrow> utf8_decode_one (utf8_encode c @ r) = length (utf8_encode c)"
  by (subst decode_one_codes) (simp_all add: codes_unat decode_codes_encode)

lemma decoded_encode:
  assumes "p \<noteq> []" and "0 < utf8_decode_one p"
  shows "\<exists>c. scalar_value c \<and> take (utf8_decode_one p) p = utf8_encode c"
proof -
  obtain c where c: "scalar_value c" "take (utf8_decode_one p) (map unat p) = utf8_codes c"
    using codes_of_decoded [OF refl, of "map unat p"] assms by (auto simp: decode_one_codes)
  have "take (utf8_decode_one p) p = map word_of_nat (take (utf8_decode_one p) (map unat p))"
    by (simp add: take_map o_def)
  with c show ?thesis by (auto simp: utf8_encode_def)
qed

text \<open>A text is well-formed if it is the encoding of a sequence of Unicode scalar values.\<close>

definition well_formed :: "bytes \<Rightarrow> bool" where
  "well_formed s \<longleftrightarrow> (\<exists>cs. list_all scalar_value cs \<and> s = concat (map utf8_encode cs))"

lemma well_formed_Nil [simp]: "well_formed []"
  by (auto simp: well_formed_def intro!: exI [of _ "[]"])

lemma well_formed_char: "scalar_value c \<Longrightarrow> well_formed s \<Longrightarrow> well_formed (utf8_encode c @ s)"
  unfolding well_formed_def by (elim exE conjE) (rule exI [of _ "c # _"], simp)

lemma well_formed_step:
  assumes "p \<noteq> []" and "0 < utf8_decode_one p" and "well_formed (drop (utf8_decode_one p) p)"
  shows "well_formed p"
  using decoded_encode [OF assms(1,2)] well_formed_char [OF _ assms(3)] by (metis append_take_drop_id)

lemma scan_well_formed: "utf8_scan s = [] \<Longrightarrow> well_formed s"
proof (induction s rule: utf8_scan.induct)
  case (1 p)
  then show ?case
    by (cases "p = []") (auto simp: utf8_scan.simps [of p] intro: well_formed_step split: if_splits)
qed

lemma scan_encoded: "list_all scalar_value cs \<Longrightarrow> utf8_scan (concat (map utf8_encode cs)) = []"
  by (induction cs) (simp add: utf8_scan.simps, subst utf8_scan.simps, simp add: decode_encode)

lemma scan_iff: "utf8_scan s = [] \<longleftrightarrow> well_formed s"
  using scan_well_formed scan_encoded by (auto simp: well_formed_def)

section \<open>Repair\<close>

text \<open>
  What the comment inside the function says of the repair: every byte that starts no well-formed character becomes U+FFFD and is skipped.
\<close>

function sanitized :: "bytes \<Rightarrow> bytes" where
  "sanitized p =
     (if p = [] then []
      else if utf8_decode_one p = 0 then U_FFFD @ sanitized (tl p)
      else take (utf8_decode_one p) p @ sanitized (drop (utf8_decode_one p) p))"
  by pat_completeness auto
termination by (relation "measure length") auto

declare sanitized.simps [simp del]

text \<open>
  What the comment above the function says: every run of malformed bytes becomes one U+FFFD. The first argument tells whether the byte before
  belongs to such a run; \<open>surplus\<close> counts the malformed bytes that follow one.
\<close>

function sanitized_runs :: "bool \<Rightarrow> bytes \<Rightarrow> bytes" where
  "sanitized_runs run p =
     (if p = [] then []
      else if utf8_decode_one p = 0 then (if run then [] else U_FFFD) @ sanitized_runs True (tl p)
      else take (utf8_decode_one p) p @ sanitized_runs False (drop (utf8_decode_one p) p))"
  by pat_completeness auto
termination by (relation "measure (length \<circ> snd)") auto

function surplus :: "bool \<Rightarrow> bytes \<Rightarrow> nat" where
  "surplus run p =
     (if p = [] then 0
      else if utf8_decode_one p = 0 then of_bool run + surplus True (tl p)
      else surplus False (drop (utf8_decode_one p) p))"
  by pat_completeness auto
termination by (relation "measure (length \<circ> snd)") auto

declare sanitized_runs.simps [simp del] surplus.simps [simp del]

lemma U_FFFD_encode: "U_FFFD = utf8_encode 0xFFFD" "scalar_value 0xFFFD"
  by (simp_all add: U_FFFD_def utf8_encode_def utf8_codes_def scalar_value_def)

lemma sanitized_well_formed: "well_formed (sanitized p)"
proof (induction p rule: sanitized.induct)
  case (1 p)
  show ?case
  proof (cases "p = [] \<or> utf8_decode_one p = 0")
    case True
    with 1 show ?thesis by (auto simp: sanitized.simps [of p] U_FFFD_encode well_formed_char)
  next
    case False
    then obtain c where "scalar_value c" "take (utf8_decode_one p) p = utf8_encode c" using decoded_encode [of p] by auto
    with 1 False show ?thesis by (simp add: sanitized.simps [of p] well_formed_char)
  qed
qed

lemma sanitized_length: "length (sanitized p) \<le> 3 * length p"
proof (induction p rule: sanitized.induct)
  case (1 p)
  show ?case
  proof (cases "p = [] \<or> utf8_decode_one p = 0")
    case True
    with 1 show ?thesis by (cases p) (auto simp: sanitized.simps [of "[]"] sanitized.simps [of "_ # _"] U_FFFD_def)
  next
    case False
    with 1 have "length (sanitized (drop (utf8_decode_one p) p)) \<le> 3 * (length p - utf8_decode_one p)" by auto
    with False show ?thesis by (simp add: sanitized.simps [of p])
  qed
qed

lemma sanitized_scan: "\<exists>s. p = s @ utf8_scan p \<and> sanitized p = s @ sanitized (utf8_scan p)"
proof (induction p rule: utf8_scan.induct)
  case (1 p)
  show ?case
  proof (cases "p = [] \<or> utf8_decode_one p = 0")
    case True
    then show ?thesis by (simp add: utf8_scan.simps [of p])
  next
    case False
    with 1 obtain s where s: "drop (utf8_decode_one p) p = s @ utf8_scan p" "sanitized (drop (utf8_decode_one p) p) = s @ sanitized (utf8_scan p)"
      by (auto simp: utf8_scan.simps [of p])
    then have "p = (take (utf8_decode_one p) p @ s) @ utf8_scan p" by (metis append.assoc append_take_drop_id)
    moreover have "sanitized p = (take (utf8_decode_one p) p @ s) @ sanitized (utf8_scan p)"
      using False s(2) by (simp add: sanitized.simps [of p])
    ultimately show ?thesis by blast
  qed
qed

lemma length_runs: "length (sanitized p) = length (sanitized_runs run p) + 3 * surplus run p"
proof (induction run p rule: sanitized_runs.induct)
  case (1 run p)
  then show ?case
    by (auto simp: sanitized.simps [of p] sanitized_runs.simps [of run p] surplus.simps [of run p] U_FFFD_def)
qed

lemma no_surplus: "surplus run p = 0 \<Longrightarrow> sanitized p = sanitized_runs run p"
proof (induction run p rule: sanitized_runs.induct)
  case (1 run p)
  then show ?case
    by (auto simp: sanitized.simps [of p] sanitized_runs.simps [of run p] surplus.simps [of run p] split: if_splits)
qed

lemma runs_iff: "sanitized p = sanitized_runs run p \<longleftrightarrow> surplus run p = 0"
  using length_runs [of p run] no_surplus [of run p] by auto

lemma repair_result:
  "utf8_repair al q cap out = TrText (out @ sanitized q)
   \<or> \<not> roomy al \<and> utf8_repair al q cap out = TrRaises ''out of memory in sanitize_utf8''"
proof (induction al q cap out rule: utf8_repair.induct)
  case (1 al q cap out)
  show ?case
  proof (cases "q = []")
    case True
    then show ?thesis by (simp add: utf8_repair.simps [of al "[]"] sanitized.simps [of "[]"])
  next
    case False
    let ?n = "utf8_decode_one q"
    let ?piece = "if 0 < ?n then take ?n q else U_FFFD"
    let ?grow = "cap < length out + length ?piece"
    let ?cap = "if ?grow then (length out + length ?piece) * 2 else cap"
    have "\<not> ?cap < length out + length ?piece" by auto
    moreover have "drop (if 0 < ?n then ?n else 1) q = (if 0 < ?n then drop ?n q else tl q)" by (simp add: drop_Suc)
    moreover have "sanitized q = ?piece @ sanitized (if 0 < ?n then drop ?n q else tl q)"
      using False by (simp add: sanitized.simps [of q])
    ultimately show ?thesis
      using False 1 [OF False refl refl refl refl] unfolding utf8_repair.simps [of al q] Let_def
      by (cases "?grow \<and> \<not> can_alloc al ?cap") (simp_all add: roomy_def, blast)
  qed
qed

section \<open>Properties\<close>

text \<open>
  Hexadecimal: every sequence of bytes is converted to two digits per byte and back to itself, whatever the
  allocated memory held before.
\<close>

lemma hex_roundtrip:
  assumes "roomy al"
  shows "\<exists>h. data2hex al (Some bs) = TrText h \<and> length h = 2 * length bs \<and> hex2data al (Some h) = TrText bs"
proof -
  let ?h = "concat (map hex_pair bs)"
  have len: "length ?h = 2 * length bs" by (induction bs) (simp_all add: hex_pair_def)
  then have "data2hex al (Some bs) = TrText ?h" using assms
    by (simp add: data2hex_def malloc_def roomy_def store_at_def)
  moreover have "hex2data al (Some ?h) = TrText bs" using assms len
    by (simp add: hex2data_def malloc_def roomy_def store_at_def hex_loop_pairs)
  ultimately show ?thesis using len by blast
qed

lemma hex_roundtrip_witness:
  "\<exists>h. data2hex roomy_alloc (Some [0xca, 0x0f]) = TrText h \<and> hex2data roomy_alloc (Some h) = TrText [0xca, 0x0f]"
  using hex_roundtrip [OF roomy_roomy_alloc, of "[0xca, 0x0f]"] by blast

text \<open>A zero inside the string ends the conversion, but not the result: the rest of it is uninitialised memory.\<close>

lemma hex2data_exposes_memory:
  assumes "roomy al"
  shows "hex2data al (Some (0 # bs)) = TrText (take (Suc (length bs) div 2) (0 # map (junk al) [1..<Suc (length bs) div 2 + 1]))"
  using assms by (cases bs) (simp_all add: hex2data_def malloc_def roomy_def store_at_def drop_map upt_conv_Cons del: upt_Suc)

text \<open>
  (C30) Validation: \<open>is_valid_utf8\<close> accepts a text exactly if it is the encoding of some sequence of Unicode scalar values, that is of
  numbers below 0x110000 that are no surrogates, each in its shortest form.
\<close>

theorem utf8_valid_iff: "luafan_is_valid_utf8 (Some s) = TrBool (well_formed s)"
  by (simp add: luafan_is_valid_utf8_def scan_iff)

text \<open>
  (C31) Repair: \<open>sanitize_utf8\<close> never writes outside its buffer. It gives the text in which every byte that starts no well-formed character is
  replaced by U+FFFD, or an error if memory runs out. That text is well-formed, is the input itself if that was
  well-formed, and is at most three times as long. It is what the comment inside the function says. The comment above the function promises one
  U+FFFD for every malformed run: the code gives that exactly if no malformed byte follows another, and is three bytes longer
  for every one that does.
\<close>

theorem utf8_sanitize_correct:
  "(luafan_sanitize_utf8 al (Some s) = TrText (sanitized s)
    \<or> \<not> roomy al \<and> luafan_sanitize_utf8 al (Some s) = TrRaises ''out of memory in sanitize_utf8'')
   \<and> well_formed (sanitized s) \<and> (well_formed s \<longleftrightarrow> sanitized s = s) \<and> length (sanitized s) \<le> 3 * length s
   \<and> (sanitized s = sanitized_runs False s \<longleftrightarrow> surplus False s = 0)
   \<and> length (sanitized s) = length (sanitized_runs False s) + 3 * surplus False s"
proof -
  obtain t where t: "s = t @ utf8_scan s" "sanitized s = t @ sanitized (utf8_scan s)" using sanitized_scan by blast
  have id: "sanitized s = s" if "utf8_scan s = []" using t that by (simp add: sanitized.simps [of "[]"])
  then have "well_formed s \<longleftrightarrow> sanitized s = s" using sanitized_well_formed [of s] by (metis scan_iff)
  moreover have "luafan_sanitize_utf8 al (Some s) = TrText (sanitized s)
    \<or> \<not> roomy al \<and> luafan_sanitize_utf8 al (Some s) = TrRaises ''out of memory in sanitize_utf8''"
  proof (cases "utf8_scan s = []")
    case True
    with id show ?thesis by (simp add: luafan_sanitize_utf8_def)
  next
    case False
    have "take (length s - length (utf8_scan s)) s = t" using t(1) by (metis append_eq_conv_conj diff_add_inverse2 length_append)
    with False t(2) repair_result [of al "utf8_scan s" "length s + 16" t] show ?thesis
      by (auto simp: luafan_sanitize_utf8_def Let_def roomy_def)
  qed
  ultimately show ?thesis using sanitized_well_formed sanitized_length runs_iff length_runs by blast
qed

text \<open>
  The two comments disagree on a three-byte character that is cut after its second byte: it is one malformed run, and it becomes two
  replacement characters.
\<close>

lemma sanitize_not_per_run:
  "luafan_sanitize_utf8 roomy_alloc (Some [0xE2, 0x82]) = TrText (U_FFFD @ U_FFFD)" "sanitized_runs False [0xE2, 0x82] = U_FFFD"
  by (simp_all add: luafan_sanitize_utf8_def utf8_scan.simps utf8_repair.simps sanitized_runs.simps utf8_decode_one_def U_FFFD_def
      roomy_alloc_def Let_def)

text \<open>A missing argument is no text, and is returned as no text.\<close>

lemma sanitize_nothing: "luafan_sanitize_utf8 al None = TrNothing"
  by (simp add: luafan_sanitize_utf8_def utf8_scan.simps)

end
