(* ===== verification/Json_Utf8.thy ===== *)
theory Json_Utf8
  imports Json Fan_Text
begin

text \<open>
  The two UTF-8 parts of the library against each other: the bytes that \<open>codepoint_to_utf8\<close> of \<open>src/json.c\<close> makes of an escape
  \<open>\<close>\<open>u....\<close> and the encoding that \<open>is_valid_utf8\<close> of \<open>src/luafan.c\<close> accepts.
\<close>

section \<open>Or and plus\<close>

lemma or_plus:
  assumes "x < 2 ^ k"
  shows "(push_bit k a OR x :: nat) = push_bit k a + x"
proof (rule disjunctive_add [symmetric])
  fix n
  have "\<not> bit x n" if "k \<le> n"
    using assms that by (auto simp: bit_nat_iff bit_iff_odd dest: less_le_trans [of x "2 ^ k" "2 ^ n"])
  then show "\<not> bit (push_bit k a) n \<or> \<not> bit x n" by (auto simp: bit_simps)
qed

lemma lead_byte:
  assumes "unat (x :: u32) < 2 ^ k" and "push_bit k a + unat x < 256" and "unat m = push_bit k a"
  shows "ucast (m OR x) = (word_of_nat (unat m + unat x) :: u8)"
proof -
  have "unat (m OR x) = unat m + unat x"
    unfolding unsigned_or_eq assms(3) by (rule or_plus [OF assms(1)])
  with assms(2,3) have "unat (ucast (m OR x) :: u8) = unat m + unat x" by (simp add: unsigned_ucast_eq take_bit_nat_eq_self)
  with assms(2,3) show ?thesis by (simp add: word_unat_eq_iff del: of_nat_add)
qed

lemma u32_nat: "unat (n AND 0x3f :: u32) = unat n mod 64" "unat (drop_bit k n :: u32) = unat n div 2 ^ k"
proof -
  have "n AND 0x3f = take_bit 6 n" by (simp add: take_bit_eq_mask mask_eq_exp_minus_1)
  then show "unat (n AND 0x3f) = unat n mod 64" by (simp only: unsigned_take_bit_eq) (simp add: take_bit_eq_mod)
  show "unat (drop_bit k n :: u32) = unat n div 2 ^ k" by (subst unat_drop_bit_eq) (simp add: drop_bit_eq_div)
qed

lemma codepoint_encode: "codepoint_to_utf8 n = (if unat n < 0x110000 then Some (utf8_encode (unat n)) else None)"
proof -
  have cont: "ucast (0x80 OR (m AND 0x3f) :: u32) = (word_of_nat (0x80 + unat m mod 64) :: u8)" for m :: u32
    using lead_byte [where x = "m AND 0x3f" and k = 6 and a = 2 and m = "0x80"] by (simp add: u32_nat push_bit_eq_mult)
  have two: "ucast (0xc0 OR drop_bit 6 n) = (word_of_nat (0xc0 + unat n div 64) :: u8)" if "unat n < 0x800"
    using lead_byte [where x = "drop_bit 6 n" and k = 5 and a = 6 and m = "0xc0"] that by (simp add: u32_nat push_bit_eq_mult)
  have three: "ucast (0xe0 OR drop_bit 12 n) = (word_of_nat (0xe0 + unat n div 4096) :: u8)" if "unat n < 0x10000"
    using lead_byte [where x = "drop_bit 12 n" and k = 4 and a = 14 and m = "0xe0"] that by (simp add: u32_nat push_bit_eq_mult)
  have four: "ucast (0xf0 OR drop_bit 18 n) = (word_of_nat (0xf0 + unat n div 262144) :: u8)" if "unat n < 0x110000"
    using lead_byte [where x = "drop_bit 18 n" and k = 3 and a = 30 and m = "0xf0"] that by (simp add: u32_nat push_bit_eq_mult)
  have one: "ucast n = (word_of_nat (unat n) :: u8)" by simp
  consider "unat n < 0x80" | "0x80 \<le> unat n" "unat n < 0x800" | "0x800 \<le> unat n" "unat n < 0x10000"
    | "0x10000 \<le> unat n" "unat n < 0x110000" | "0x110000 \<le> unat n" by linarith
  then show ?thesis
    by cases (simp_all add: codepoint_to_utf8_def utf8_encode_def utf8_codes_def word_le_nat_alt cont two three four u32_nat del: of_nat_add)
qed

section \<open>Surrogates\<close>

lemma decode_surrogate:
  assumes "0xD800 \<le> c" and "c < 0xE000"
  shows "utf8_decode_one (utf8_encode c) = 0"
proof -
  define e where "e = c div 64"
  have e: "0x360 \<le> e" "e < 0x380" using assms by (auto simp: e_def)
  moreover have "64 * (e div 64) + e mod 64 = e" "e mod 64 < 64" by simp_all
  ultimately have d: "e div 64 = 13" by linarith
  then have "32 \<le> e mod 64" using e(1) mult_div_mod_eq [of 64 e] by linarith
  note d = d this
  have "c mod 64 < 64" by simp
  with d assms have "map unat (utf8_encode c) = [0xED, 0x80 + e mod 64, 0x80 + c mod 64]"
    by (simp add: utf8_encode_def utf8_codes_def split3 del: of_nat_add flip: e_def)
  with d show ?thesis by (simp add: decode_one_codes decode_codes_def cont_def)
qed

lemma encode_well_formed:
  assumes "c < 0x110000"
  shows "well_formed (utf8_encode c) \<longleftrightarrow> scalar_value c"
proof
  assume "scalar_value c"
  then show "well_formed (utf8_encode c)" using well_formed_char [of c "[]"] by simp
next
  assume w: "well_formed (utf8_encode c)"
  show "scalar_value c"
  proof (rule ccontr)
    assume "\<not> scalar_value c"
    with assms have "utf8_decode_one (utf8_encode c) = 0" by (intro decode_surrogate) (auto simp: scalar_value_def)
    then have "utf8_scan (utf8_encode c) = utf8_encode c" by (simp add: utf8_scan.simps)
    with w show False by (simp flip: scan_iff)
  qed
qed

section \<open>Property\<close>

text \<open>
  The bytes that the JSON decoder makes of a code point are its UTF-8 encoding, for every number below 0x110000, and nothing above. They are valid
  for \<open>is_valid_utf8\<close> exactly if the number is no surrogate: a lone surrogate in an escape, which the decoder does not refuse, gives a string
  that the same library calls malformed.
\<close>

lemma json_codepoint_utf8:
  "(case codepoint_to_utf8 n of
      Some s \<Rightarrow> s = utf8_encode (unat n) \<and> luafan_is_valid_utf8 (Some s) = TrBool (scalar_value (unat n))
    | None \<Rightarrow> 0x110000 \<le> unat n)"
  by (simp add: codepoint_encode luafan_is_valid_utf8_def scan_iff encode_well_formed)

end
