(* ===== verification/Ref_Tracker.thy ===== *)
theory Ref_Tracker
  imports Prelude
begin

text \<open>
  The tracker of registry references of debug builds, \<open>src/thread_tracker.c\<close>: two arrays of records, one for coroutines and one for functions, with
  the counters and the two reports. The functions for the two arrays have the same text in the source and are instances of one definition here.
\<close>

section \<open>State\<close>

definition MAX_THREAD_RECORDS :: nat where "MAX_THREAD_RECORDS = 1000"
definition MAX_FUNCTION_RECORDS :: nat where "MAX_FUNCTION_RECORDS = 2000"

datatype ref_type = REF_TYPE_THREAD | REF_TYPE_FUNCTION | REF_TYPE_OTHER

record ref_record =
  rr_ref :: int
  rr_type :: ref_type
  rr_location :: string
  rr_created :: int
  rr_active :: bool

text \<open>An array with its position for overwriting, its overflow counter and its global counter; both are 32 bits wide.\<close>

record tracker =
  tk_records :: "ref_record list"
  tk_next :: nat
  tk_overflow :: u32
  tk_count :: u32

datatype tracker_msg =
    TmInit | TmFull ref_type u32 | TmDuplicate ref_type int string | TmCreate ref_type int string u32 | TmDestroy ref_type int string u32
  | TmUntracked int | TmNotInit int

record ref_tracker =
  rt_initialized :: bool
  rt_threads :: tracker
  rt_functions :: tracker
  rt_out :: "tracker_msg list"

definition zero_record :: ref_record where
  "zero_record = \<lparr>rr_ref = 0, rr_type = REF_TYPE_THREAD, rr_location = [], rr_created = 0, rr_active = False\<rparr>"

definition zero_tracker :: "nat \<Rightarrow> tracker" where
  "zero_tracker cap = \<lparr>tk_records = replicate cap zero_record, tk_next = 0, tk_overflow = 0, tk_count = 0\<rparr>"

text \<open>The static variables at the start of the program.\<close>

definition tracker_start :: ref_tracker where
  "tracker_start = \<lparr>rt_initialized = False, rt_threads = zero_tracker MAX_THREAD_RECORDS, rt_functions = zero_tracker MAX_FUNCTION_RECORDS, rt_out = []\<rparr>"

definition say :: "tracker_msg list \<Rightarrow> ref_tracker \<Rightarrow> ref_tracker" where
  "say ms t = t\<lparr>rt_out := rt_out t @ ms\<rparr>"

text \<open>The overflow counters are not reset.\<close>

definition thread_tracker_init :: "ref_tracker \<Rightarrow> ref_tracker" where
  "thread_tracker_init t =
     (if rt_initialized t then t
      else say [TmInit]
        (t\<lparr>rt_threads := (zero_tracker MAX_THREAD_RECORDS)\<lparr>tk_overflow := tk_overflow (rt_threads t)\<rparr>,
           rt_functions := (zero_tracker MAX_FUNCTION_RECORDS)\<lparr>tk_overflow := tk_overflow (rt_functions t)\<rparr>,
           rt_initialized := True\<rparr>))"

section \<open>Arrays\<close>

text \<open>The position of the first record with a property.\<close>

fun find_slot :: "('a \<Rightarrow> bool) \<Rightarrow> 'a list \<Rightarrow> nat option" where
  "find_slot P [] = None"
| "find_slot P (x # xs) = (if P x then Some 0 else map_option Suc (find_slot P xs))"

definition find_record :: "int \<Rightarrow> tracker \<Rightarrow> nat option" where
  "find_record ref tk = find_slot (\<lambda>r. rr_active r \<and> rr_ref r = ref) (tk_records tk)"

definition get_next_record :: "nat \<Rightarrow> ref_type \<Rightarrow> tracker \<Rightarrow> nat \<times> tracker \<times> tracker_msg list" where
  "get_next_record cap ty tk =
     (case find_slot (\<lambda>r. \<not> rr_active r) (tk_records tk) of
        Some i \<Rightarrow> (i, tk, [])
      | None \<Rightarrow>
          let tk' = tk\<lparr>tk_overflow := tk_overflow tk + 1, tk_next := (tk_next tk + 1) mod cap\<rparr>
          in (tk_next tk, tk', if tk_next tk = 0 then [TmFull ty (tk_overflow tk')] else []))"

definition or_unknown :: "string option \<Rightarrow> string" where
  "or_unknown loc = (case loc of Some s \<Rightarrow> s | None \<Rightarrow> ''unknown'')"

definition track_create :: "nat \<Rightarrow> ref_type \<Rightarrow> int \<Rightarrow> string option \<Rightarrow> int \<Rightarrow> tracker \<Rightarrow> tracker \<times> tracker_msg list" where
  "track_create cap ty now loc ref tk =
     (let tk = tk\<lparr>tk_count := tk_count tk + 1\<rparr>;
          (i, tk, ms) = (case find_record ref tk of
                           Some i \<Rightarrow> (i, tk, [TmDuplicate ty ref (rr_location (tk_records tk ! i))])
                         | None \<Rightarrow> get_next_record cap ty tk);
          r = \<lparr>rr_ref = ref, rr_type = ty, rr_location = take 255 (or_unknown loc), rr_created = now, rr_active = True\<rparr>
      in (tk\<lparr>tk_records := (tk_records tk)[i := r]\<rparr>, ms @ [TmCreate ty ref (or_unknown loc) (tk_count tk)]))"

definition track_destroy :: "ref_type \<Rightarrow> int \<Rightarrow> tracker \<Rightarrow> (tracker \<times> tracker_msg) option" where
  "track_destroy ty ref tk =
     (case find_record ref tk of
        None \<Rightarrow> None
      | Some i \<Rightarrow>
          let r = tk_records tk ! i;
              tk = tk\<lparr>tk_records := (tk_records tk)[i := r\<lparr>rr_active := False\<rparr>], tk_count := tk_count tk - 1\<rparr>
          in Some (tk, TmDestroy ty ref (rr_location r) (tk_count tk)))"

section \<open>Operations\<close>

definition thread_tracker_log_create :: "int \<Rightarrow> string option \<Rightarrow> int \<Rightarrow> ref_tracker \<Rightarrow> ref_tracker" where
  "thread_tracker_log_create now loc ref t =
     (let t = thread_tracker_init t;
          (tk, ms) = track_create MAX_THREAD_RECORDS REF_TYPE_THREAD now loc ref (rt_threads t)
      in say ms (t\<lparr>rt_threads := tk\<rparr>))"

definition function_tracker_log_create :: "int \<Rightarrow> string option \<Rightarrow> int \<Rightarrow> ref_tracker \<Rightarrow> ref_tracker" where
  "function_tracker_log_create now loc ref t =
     (let t = thread_tracker_init t;
          (tk, ms) = track_create MAX_FUNCTION_RECORDS REF_TYPE_FUNCTION now loc ref (rt_functions t)
      in say ms (t\<lparr>rt_functions := tk\<rparr>))"

definition thread_tracker_log_destroy :: "int \<Rightarrow> ref_tracker \<Rightarrow> ref_tracker" where
  "thread_tracker_log_destroy ref t =
     (if \<not> rt_initialized t then say [TmNotInit ref] t
      else case track_destroy REF_TYPE_THREAD ref (rt_threads t) of
             Some (tk, m) \<Rightarrow> say [m] (t\<lparr>rt_threads := tk\<rparr>)
           | None \<Rightarrow> say [TmUntracked ref] t)"

definition function_tracker_log_destroy :: "int \<Rightarrow> ref_tracker \<Rightarrow> ref_tracker" where
  "function_tracker_log_destroy ref t =
     (if \<not> rt_initialized t then say [TmNotInit ref] t
      else case track_destroy REF_TYPE_FUNCTION ref (rt_functions t) of
             Some (tk, m) \<Rightarrow> say [m] (t\<lparr>rt_functions := tk\<rparr>)
           | None \<Rightarrow> say [TmUntracked ref] t)"

definition ref_tracker_log_destroy :: "int \<Rightarrow> ref_tracker \<Rightarrow> ref_tracker" where
  "ref_tracker_log_destroy ref t =
     (if \<not> rt_initialized t then say [TmNotInit ref] t
      else case track_destroy REF_TYPE_THREAD ref (rt_threads t) of
             Some (tk, m) \<Rightarrow> say [m] (t\<lparr>rt_threads := tk\<rparr>)
           | None \<Rightarrow>
               (case track_destroy REF_TYPE_FUNCTION ref (rt_functions t) of
                  Some (tk, m) \<Rightarrow> say [m] (t\<lparr>rt_functions := tk\<rparr>)
                | None \<Rightarrow> say [TmUntracked ref] t))"

definition thread_tracker_get_count :: "ref_tracker \<Rightarrow> int" where
  "thread_tracker_get_count t = sint (tk_count (rt_threads t))"

definition function_tracker_get_count :: "ref_tracker \<Rightarrow> int" where
  "function_tracker_get_count t = sint (tk_count (rt_functions t))"

section \<open>Reports\<close>

text \<open>The lines of a report: an active record with its age, or the warning that the number of records and the counter differ.\<close>

datatype report_line = RlNotInit | RlActive ref_type int int string | RlLongLived ref_type int int string | RlMismatch ref_type nat int | RlLeaked nat nat | RlNone

definition active_records :: "tracker \<Rightarrow> ref_record list" where
  "active_records tk = filter rr_active (tk_records tk)"

definition print_records :: "ref_type \<Rightarrow> int \<Rightarrow> tracker \<Rightarrow> report_line list" where
  "print_records ty now tk =
     (let rs = active_records tk; n = sint (tk_count tk)
      in if n \<le> 0 then []
         else map (\<lambda>r. RlActive ty (rr_ref r) (now - rr_created r) (rr_location r)) rs
              @ (if int (length rs) \<noteq> n then [RlMismatch ty (length rs) n] else []))"

definition thread_tracker_print_active :: "int \<Rightarrow> ref_tracker \<Rightarrow> report_line list" where
  "thread_tracker_print_active now t =
     (if \<not> rt_initialized t then [RlNotInit]
      else print_records REF_TYPE_THREAD now (rt_threads t) @ print_records REF_TYPE_FUNCTION now (rt_functions t))"

definition long_lived :: "int \<Rightarrow> ref_record \<Rightarrow> bool" where
  "long_lived now r \<longleftrightarrow> 30 < now - rr_created r"

definition check_records :: "ref_type \<Rightarrow> int \<Rightarrow> tracker \<Rightarrow> report_line list \<times> nat" where
  "check_records ty now tk =
     (if sint (tk_count tk) \<le> 0 then ([], 0)
      else (map (\<lambda>r. (if long_lived now r then RlLongLived else RlActive) ty (rr_ref r) (now - rr_created r) (rr_location r)) (active_records tk),
            length (filter (long_lived now) (active_records tk))))"

definition thread_tracker_periodic_check :: "int \<Rightarrow> ref_tracker \<Rightarrow> report_line list" where
  "thread_tracker_periodic_check now t =
     (if \<not> rt_initialized t then []
      else if sint (tk_count (rt_threads t) + tk_count (rt_functions t)) \<le> 0 then [RlNone]
      else
        let (ts, nt) = check_records REF_TYPE_THREAD now (rt_threads t);
            (fs, nf) = check_records REF_TYPE_FUNCTION now (rt_functions t)
        in ts @ fs @ (if 0 < nt + nf then [RlLeaked nt nf] else []))"

section \<open>Use\<close>

datatype tracker_event =
    TeThread int "string option" int | TeFunction int "string option" int | TeDestroyThread int | TeDestroyFunction int | TeDestroy int

definition tracker_step :: "tracker_event \<Rightarrow> ref_tracker \<Rightarrow> ref_tracker" where
  "tracker_step x t =
     (case x of
        TeThread now loc ref \<Rightarrow> thread_tracker_log_create now loc ref t
      | TeFunction now loc ref \<Rightarrow> function_tracker_log_create now loc ref t
      | TeDestroyThread ref \<Rightarrow> thread_tracker_log_destroy ref t
      | TeDestroyFunction ref \<Rightarrow> function_tracker_log_destroy ref t
      | TeDestroy ref \<Rightarrow> ref_tracker_log_destroy ref t)"

section \<open>Lemmas on arrays\<close>

lemma find_slot_Some: "find_slot P xs = Some i \<Longrightarrow> i < length xs \<and> P (xs ! i)"
  by (induction xs arbitrary: i) (auto split: if_splits)

lemma find_slot_None: "find_slot P xs = None \<longleftrightarrow> (\<forall>x \<in> set xs. \<not> P x)"
  by (induction xs) auto

definition active_at :: "tracker \<Rightarrow> nat set" where
  "active_at tk = {i. i < length (tk_records tk) \<and> rr_active (tk_records tk ! i)}"

definition active_refs :: "tracker \<Rightarrow> int set" where
  "active_refs tk = (\<lambda>i. rr_ref (tk_records tk ! i)) ` active_at tk"

lemma finite_active [simp]: "finite (active_at tk)"
  by (simp add: active_at_def)

lemma active_count: "length (active_records tk) = card (active_at tk)"
  by (simp add: active_records_def active_at_def length_filter_conv_card)

text \<open>Every reference has at most one active record.\<close>

definition tk_inv :: "nat \<Rightarrow> tracker \<Rightarrow> bool" where
  "tk_inv cap tk \<longleftrightarrow> length (tk_records tk) = cap \<and> tk_next tk < cap \<and> inj_on (\<lambda>i. rr_ref (tk_records tk ! i)) (active_at tk)"

lemma find_record_Some: "find_record ref tk = Some i \<Longrightarrow> i \<in> active_at tk \<and> rr_ref (tk_records tk ! i) = ref"
  unfolding find_record_def by (drule find_slot_Some) (simp add: active_at_def)

lemma find_record_None: "find_record ref tk = None \<longleftrightarrow> ref \<notin> active_refs tk"
  by (auto simp: find_record_def find_slot_None all_set_conv_all_nth active_refs_def active_at_def)

lemma active_put: "i < length (tk_records tk) \<Longrightarrow> rr_active r \<Longrightarrow> active_at (tk\<lparr>tk_records := (tk_records tk)[i := r]\<rparr>) = insert i (active_at tk)"
  by (auto simp: active_at_def nth_list_update)

lemma active_drop:
  "i < length (tk_records tk) \<Longrightarrow> \<not> rr_active r \<Longrightarrow> active_at (tk\<lparr>tk_records := (tk_records tk)[i := r]\<rparr>) = active_at tk - {i}"
  by (auto simp: active_at_def nth_list_update)

lemma active_frame [simp]:
  "active_at (tk\<lparr>tk_count := c\<rparr>) = active_at tk" "active_at (tk\<lparr>tk_overflow := v\<rparr>) = active_at tk" "active_at (tk\<lparr>tk_next := n\<rparr>) = active_at tk"
  by (simp_all add: active_at_def)

lemma find_record_frame [simp]: "find_record ref (tk\<lparr>tk_count := c\<rparr>) = find_record ref tk"
  by (simp add: find_record_def)

text \<open>Where a record is put: in its old place, in a free place, or over another one.\<close>

lemma put_inv:
  assumes "tk_inv cap tk" and "i < cap" and "\<forall>j \<in> active_at tk. j \<noteq> i \<longrightarrow> rr_ref (tk_records tk ! j) \<noteq> rr_ref r"
  shows "tk_inv cap (tk\<lparr>tk_records := (tk_records tk)[i := r]\<rparr>)"
  using assms by (auto simp: tk_inv_def inj_on_def active_at_def nth_list_update)

lemma put_refs:
  assumes "tk_inv cap tk" and "i < cap" and "rr_active r" and "i \<notin> active_at tk \<or> rr_ref (tk_records tk ! i) = rr_ref r"
  shows "active_refs (tk\<lparr>tk_records := (tk_records tk)[i := r]\<rparr>) = insert (rr_ref r) (active_refs tk)"
proof -
  have l: "i < length (tk_records tk)" using assms by (simp add: tk_inv_def)
  have "active_refs (tk\<lparr>tk_records := (tk_records tk)[i := r]\<rparr>) = (\<lambda>j. rr_ref ((tk_records tk)[i := r] ! j)) ` insert i (active_at tk)"
    unfolding active_refs_def using active_put [OF l assms(3)] by simp
  also have "\<dots> = insert (rr_ref r) (active_refs tk)"
    using l assms(4) by (auto simp: active_refs_def nth_list_update image_iff) blast+
  finally show ?thesis .
qed

lemma drop_refs:
  assumes "tk_inv cap tk" and "i \<in> active_at tk"
  shows "active_refs (tk\<lparr>tk_records := (tk_records tk)[i := (tk_records tk ! i)\<lparr>rr_active := False\<rparr>]\<rparr>) = active_refs tk - {rr_ref (tk_records tk ! i)}"
    and "tk_inv cap (tk\<lparr>tk_records := (tk_records tk)[i := (tk_records tk ! i)\<lparr>rr_active := False\<rparr>]\<rparr>)"
proof -
  let ?r = "(tk_records tk ! i)\<lparr>rr_active := False\<rparr>"
  let ?tk = "tk\<lparr>tk_records := (tk_records tk)[i := ?r]\<rparr>"
  have a: "active_at ?tk = active_at tk - {i}" using assms(2) by (intro active_drop) (auto simp: active_at_def)
  have "active_refs ?tk = (\<lambda>j. rr_ref (tk_records tk ! j)) ` (active_at tk - {i})"
    unfolding active_refs_def a by (auto simp: nth_list_update)
  also have "\<dots> = active_refs tk - {rr_ref (tk_records tk ! i)}"
    using assms unfolding active_refs_def by (subst inj_on_image_set_diff [of _ "active_at tk"]) (auto simp: tk_inv_def)
  finally show "active_refs ?tk = active_refs tk - {rr_ref (tk_records tk ! i)}" .
  show "tk_inv cap ?tk" using assms unfolding tk_inv_def a by (auto simp: inj_on_def nth_list_update)
qed

section \<open>The effect of creating and destroying\<close>

definition is_dup :: "ref_type \<Rightarrow> tracker_msg \<Rightarrow> bool" where
  "is_dup ty m \<longleftrightarrow> (case m of TmDuplicate ty' _ _ \<Rightarrow> ty' = ty | _ \<Rightarrow> False)"

definition dups :: "ref_type \<Rightarrow> tracker_msg list \<Rightarrow> nat" where
  "dups ty ms = length (filter (is_dup ty) ms)"

lemma dups_simps [simp]:
  "dups ty [] = 0" "dups ty (ms @ ns) = dups ty ms + dups ty ns" "dups ty (TmCreate a b c d # ms) = dups ty ms"
  "dups ty (TmDuplicate ty' b c # ms) = (if ty' = ty then Suc (dups ty ms) else dups ty ms)" "dups ty (TmFull a d # ms) = dups ty ms"
  "dups ty (TmDestroy a b c d # ms) = dups ty ms" "dups ty (TmUntracked b # ms) = dups ty ms" "dups ty (TmNotInit b # ms) = dups ty ms"
  "dups ty (TmInit # ms) = dups ty ms"
  by (simp_all add: dups_def is_dup_def)

text \<open>The difference between the counter and what it should count.\<close>

definition drift :: "tracker \<Rightarrow> u32" where
  "drift tk = tk_count tk - word_of_nat (card (active_at tk)) - tk_overflow tk"

lemma create_duplicate:
  assumes "tk_inv cap tk" and "ref \<in> active_refs tk" and "track_create cap ty now loc ref tk = (tk', ms)"
  shows "tk_inv cap tk' \<and> active_refs tk' = active_refs tk \<and> drift tk' = drift tk + 1 \<and> dups ty ms = 1 \<and> (ty' \<noteq> ty \<longrightarrow> dups ty' ms = 0)"
proof -
  obtain i where i: "find_record ref tk = Some i" using assms(2) find_record_None by fastforce
  have a: "i \<in> active_at tk" "rr_ref (tk_records tk ! i) = ref" using find_record_Some [OF i] by auto
  then have cap: "i < cap" using assms(1) by (auto simp: tk_inv_def active_at_def)
  define r where "r = \<lparr>rr_ref = ref, rr_type = ty, rr_location = take 255 (or_unknown loc), rr_created = now, rr_active = True\<rparr>"
  let ?v = "tk\<lparr>tk_records := (tk_records tk)[i := r]\<rparr>"
  have tk': "tk' = ?v\<lparr>tk_count := tk_count tk + 1\<rparr>" "dups ty ms = 1" "ty' \<noteq> ty \<longrightarrow> dups ty' ms = 0"
    using assms(3) i by (auto simp: track_create_def r_def Let_def)
  have "tk_inv cap ?v" using assms(1) cap a by (intro put_inv) (auto simp: r_def tk_inv_def inj_on_def)
  moreover have "active_refs ?v = insert ref (active_refs tk)" using put_refs [OF assms(1) cap, of r] a by (simp add: r_def)
  moreover have "active_at ?v = active_at tk" using active_put [of i tk r] assms(1) cap a by (auto simp: r_def tk_inv_def)
  ultimately show ?thesis using tk' assms(2) by (auto simp: tk_inv_def active_refs_def drift_def)
qed

lemma create_free:
  assumes "tk_inv cap tk" and "ref \<notin> active_refs tk" and "card (active_at tk) < cap" and "track_create cap ty now loc ref tk = (tk', ms)"
  shows "tk_inv cap tk' \<and> active_refs tk' = insert ref (active_refs tk) \<and> drift tk' = drift tk \<and> tk_overflow tk' = tk_overflow tk \<and> dups ty' ms = 0
    \<and> card (active_at tk') = Suc (card (active_at tk))"
proof -
  have "\<exists>x \<in> set (tk_records tk). \<not> rr_active x"
  proof (rule ccontr)
    assume "\<not> ?thesis"
    then have "active_at tk = {..<cap}" using assms(1) by (auto simp: active_at_def tk_inv_def)
    with assms(3) show False by simp
  qed
  then obtain i where i: "find_slot (\<lambda>r. \<not> rr_active r) (tk_records tk) = Some i" using find_slot_None by fastforce
  have a: "i < cap" "i \<notin> active_at tk" using find_slot_Some [OF i] assms(1) by (auto simp: tk_inv_def active_at_def)
  have n: "find_record ref tk = None" using assms(2) by (simp add: find_record_None)
  define r where "r = \<lparr>rr_ref = ref, rr_type = ty, rr_location = take 255 (or_unknown loc), rr_created = now, rr_active = True\<rparr>"
  let ?v = "tk\<lparr>tk_records := (tk_records tk)[i := r]\<rparr>"
  have tk': "tk' = ?v\<lparr>tk_count := tk_count tk + 1\<rparr>" "dups ty' ms = 0"
    using assms(4) i n by (auto simp: track_create_def get_next_record_def r_def Let_def)
  have "tk_inv cap ?v" using assms(1,2) a by (intro put_inv) (auto simp: r_def active_refs_def)
  moreover have "active_refs ?v = insert ref (active_refs tk)" using put_refs [OF assms(1) a(1), of r] a by (simp add: r_def)
  moreover have "active_at ?v = insert i (active_at tk)" using active_put [of i tk r] assms(1) a by (auto simp: r_def tk_inv_def)
  ultimately show ?thesis using tk' a(2) by (auto simp: tk_inv_def active_refs_def drift_def)
qed

lemma create_full:
  assumes "tk_inv cap tk" and "ref \<notin> active_refs tk" and "\<not> card (active_at tk) < cap" and "track_create cap ty now loc ref tk = (tk', ms)"
  shows "tk_inv cap tk' \<and> drift tk' = drift tk \<and> dups ty' ms = 0"
proof -
  have l: "length (tk_records tk) = cap" using assms(1) by (simp add: tk_inv_def)
  have sub: "active_at tk \<subseteq> {..<cap}" using l by (auto simp: active_at_def)
  with assms(3) have "card (active_at tk) = cap" using card_mono [OF _ sub] by simp
  with sub have full: "active_at tk = {..<cap}" by (intro card_subset_eq) auto
  then have all: "find_slot (\<lambda>r. \<not> rr_active r) (tk_records tk) = None"
    using l by (auto simp: find_slot_None all_set_conv_all_nth active_at_def)
  have i: "tk_next tk < cap" using assms(1) by (simp add: tk_inv_def)
  have n: "find_record ref tk = None" using assms(2) by (simp add: find_record_None)
  define r where "r = \<lparr>rr_ref = ref, rr_type = ty, rr_location = take 255 (or_unknown loc), rr_created = now, rr_active = True\<rparr>"
  let ?v = "tk\<lparr>tk_records := (tk_records tk)[tk_next tk := r]\<rparr>"
  have tk': "tk' = ?v\<lparr>tk_count := tk_count tk + 1, tk_overflow := tk_overflow tk + 1, tk_next := (tk_next tk + 1) mod cap\<rparr>" "dups ty' ms = 0"
    using assms(4) all n by (auto simp: track_create_def get_next_record_def r_def Let_def)
  have "tk_inv cap ?v" using assms(1,2) i by (intro put_inv) (auto simp: r_def active_refs_def)
  moreover have "active_at ?v = active_at tk"
    using active_put [of "tk_next tk" tk r] l i full by (auto simp: r_def)
  ultimately show ?thesis using tk' i by (auto simp: tk_inv_def drift_def)
qed

lemma destroy_spec:
  assumes "tk_inv cap tk"
  shows "case track_destroy ty ref tk of
      None \<Rightarrow> ref \<notin> active_refs tk
    | Some (tk', m) \<Rightarrow> ref \<in> active_refs tk \<and> tk_inv cap tk' \<and> active_refs tk' = active_refs tk - {ref} \<and> drift tk' = drift tk
        \<and> tk_overflow tk' = tk_overflow tk \<and> dups ty' [m] = 0 \<and> Suc (card (active_at tk')) = card (active_at tk)"
proof (cases "find_record ref tk")
  case None
  then have "ref \<notin> active_refs tk" by (simp add: find_record_None)
  with None show ?thesis by (simp add: track_destroy_def)
next
  case (Some i)
  then have a: "i \<in> active_at tk" "rr_ref (tk_records tk ! i) = ref" using find_record_Some by auto
  let ?v = "tk\<lparr>tk_records := (tk_records tk)[i := (tk_records tk ! i)\<lparr>rr_active := False\<rparr>]\<rparr>"
  have v: "active_refs ?v = active_refs tk - {ref}" "tk_inv cap ?v" using drop_refs [OF assms a(1)] a(2) by auto
  have at: "active_at ?v = active_at tk - {i}" using a(1) by (intro active_drop) (auto simp: active_at_def)
  have card: "card (active_at tk) = Suc (card (active_at tk - {i}))" using a(1) by (metis card.remove finite_active)
  have "ref \<in> active_refs tk" using a by (auto simp: active_refs_def)
  with v at card Some show ?thesis
    by (auto simp: track_destroy_def Let_def tk_inv_def active_refs_def drift_def)
qed

section \<open>Properties\<close>

lemma zero_active: "active_at (zero_tracker cap) = {}"
  by (auto simp: zero_tracker_def active_at_def zero_record_def)

lemma zero_inv: "0 < cap \<Longrightarrow> tk_inv cap (zero_tracker cap)" "active_refs (zero_tracker cap) = {}"
  "tk_count (zero_tracker cap) = 0" "tk_overflow (zero_tracker cap) = 0" "drift (zero_tracker cap) = 0"
  by (simp_all add: zero_active tk_inv_def active_refs_def drift_def) (simp_all add: zero_tracker_def)

lemma zero_overflow [simp]: "(zero_tracker cap)\<lparr>tk_overflow := 0\<rparr> = zero_tracker cap"
  by (simp add: zero_tracker_def)

definition tracker_ok :: "ref_tracker \<Rightarrow> bool" where
  "tracker_ok t \<longleftrightarrow>
     tk_inv MAX_THREAD_RECORDS (rt_threads t) \<and> tk_inv MAX_FUNCTION_RECORDS (rt_functions t)
     \<and> (\<not> rt_initialized t \<longrightarrow> rt_threads t = zero_tracker MAX_THREAD_RECORDS \<and> rt_functions t = zero_tracker MAX_FUNCTION_RECORDS)
     \<and> drift (rt_threads t) = word_of_nat (dups REF_TYPE_THREAD (rt_out t))
     \<and> drift (rt_functions t) = word_of_nat (dups REF_TYPE_FUNCTION (rt_out t))"

lemma caps_pos: "0 < MAX_THREAD_RECORDS" "0 < MAX_FUNCTION_RECORDS"
  by (simp_all add: MAX_THREAD_RECORDS_def MAX_FUNCTION_RECORDS_def)

lemma start_tracker_ok: "tracker_ok tracker_start"
  by (simp add: tracker_ok_def tracker_start_def zero_inv caps_pos)

lemma init_tracker:
  assumes "tracker_ok t"
  shows "tracker_ok (thread_tracker_init t)" "rt_initialized (thread_tracker_init t)" "rt_threads (thread_tracker_init t) = rt_threads t"
    "rt_functions (thread_tracker_init t) = rt_functions t" "dups ty (rt_out (thread_tracker_init t)) = dups ty (rt_out t)"
  using assms
  by (auto simp: tracker_ok_def thread_tracker_init_def say_def zero_inv(4))

lemma create_ok:
  assumes "tk_inv cap tk" and "track_create cap ty now loc ref tk = (tk', ms)"
  shows "tk_inv cap tk' \<and> drift tk' = drift tk + word_of_nat (dups ty ms) \<and> (ty' \<noteq> ty \<longrightarrow> dups ty' ms = 0)"
proof -
  consider "ref \<in> active_refs tk" | "ref \<notin> active_refs tk" "card (active_at tk) < cap" | "ref \<notin> active_refs tk" "\<not> card (active_at tk) < cap" by blast
  then show ?thesis
  proof cases
    case 1
    with create_duplicate [OF assms(1) 1 assms(2), of ty'] show ?thesis by simp
  next
    case 2
    with create_free [OF assms(1) 2 assms(2), of ty] create_free [OF assms(1) 2 assms(2), of ty'] show ?thesis by simp
  next
    case 3
    with create_full [OF assms(1) 3 assms(2), of ty] create_full [OF assms(1) 3 assms(2), of ty'] show ?thesis by simp
  qed
qed

lemma tracker_step_ok:
  assumes "tracker_ok t"
  shows "tracker_ok (tracker_step x t)"
proof -
  let ?t = "thread_tracker_init t"
  note i = init_tracker [OF assms]
  have th: "tracker_ok (thread_tracker_log_create now loc ref t)" for now loc ref
    using i create_ok [where cap = MAX_THREAD_RECORDS and tk = "rt_threads t" and ty = REF_TYPE_THREAD and now = now and loc = loc and ref = ref and ty' = REF_TYPE_FUNCTION]
    by (auto simp: thread_tracker_log_create_def tracker_ok_def say_def Let_def split: prod.split)
  have fu: "tracker_ok (function_tracker_log_create now loc ref t)" for now loc ref
    using i create_ok [where cap = MAX_FUNCTION_RECORDS and tk = "rt_functions t" and ty = REF_TYPE_FUNCTION and now = now and loc = loc and ref = ref and ty' = REF_TYPE_THREAD]
    by (auto simp: function_tracker_log_create_def tracker_ok_def say_def Let_def split: prod.split)
  have d: "tk_inv MAX_THREAD_RECORDS (rt_threads t)" "tk_inv MAX_FUNCTION_RECORDS (rt_functions t)" using assms by (auto simp: tracker_ok_def)
  have "tracker_ok (thread_tracker_log_destroy ref t)" "tracker_ok (function_tracker_log_destroy ref t)" "tracker_ok (ref_tracker_log_destroy ref t)" for ref
    using assms destroy_spec [OF d(1), where ty = REF_TYPE_THREAD and ref = ref and ty' = REF_TYPE_THREAD] destroy_spec [OF d(1), where ty = REF_TYPE_THREAD and ref = ref and ty' = REF_TYPE_FUNCTION]
      destroy_spec [OF d(2), where ty = REF_TYPE_FUNCTION and ref = ref and ty' = REF_TYPE_THREAD] destroy_spec [OF d(2), where ty = REF_TYPE_FUNCTION and ref = ref and ty' = REF_TYPE_FUNCTION]
    by (auto simp: thread_tracker_log_destroy_def function_tracker_log_destroy_def ref_tracker_log_destroy_def tracker_ok_def say_def split: option.split)
  with th fu show ?thesis by (cases x) (simp_all add: tracker_step_def)
qed

lemma tracker_run_ok: "tracker_ok (fold tracker_step evs tracker_start)"
proof -
  have "tracker_ok t \<Longrightarrow> tracker_ok (fold tracker_step evs t)" for t by (induction evs arbitrary: t) (simp_all add: tracker_step_ok)
  then show ?thesis by (simp add: start_tracker_ok)
qed

text \<open>
  What the counters count, exactly and for every sequence of events: the active records, the records that were overwritten because the array was full, and
  the creations that found a record with the same reference. The latter two are never taken back.
\<close>

lemma tracker_accounting:
  fixes evs
  defines "t \<equiv> fold tracker_step evs tracker_start"
  shows "tk_count (rt_threads t) = word_of_nat (length (active_records (rt_threads t))) + tk_overflow (rt_threads t) + word_of_nat (dups REF_TYPE_THREAD (rt_out t))"
    and "tk_count (rt_functions t)
      = word_of_nat (length (active_records (rt_functions t))) + tk_overflow (rt_functions t) + word_of_nat (dups REF_TYPE_FUNCTION (rt_out t))"
  using tracker_run_ok [of evs] by (simp_all add: tracker_ok_def drift_def active_count algebra_simps flip: t_def)

text \<open>
  The references that are really alive, and the discipline of the registry: a new reference is not alive, and there are fewer than the array holds.
\<close>

definition live_step :: "tracker_event \<Rightarrow> int set \<times> int set \<Rightarrow> int set \<times> int set" where
  "live_step x s =
     (case s of (T, F) \<Rightarrow>
        (case x of
           TeThread _ _ r \<Rightarrow> (insert r T, F)
         | TeFunction _ _ r \<Rightarrow> (T, insert r F)
         | TeDestroyThread r \<Rightarrow> (T - {r}, F)
         | TeDestroyFunction r \<Rightarrow> (T, F - {r})
         | TeDestroy r \<Rightarrow> if r \<in> T then (T - {r}, F) else (T, F - {r})))"

fun disciplined :: "tracker_event list \<Rightarrow> int set \<times> int set \<Rightarrow> bool" where
  "disciplined [] s = True"
| "disciplined (x # xs) s =
     ((case x of
         TeThread _ _ r \<Rightarrow> r \<notin> fst s \<and> card (fst s) < MAX_THREAD_RECORDS
       | TeFunction _ _ r \<Rightarrow> r \<notin> snd s \<and> card (snd s) < MAX_FUNCTION_RECORDS
       | _ \<Rightarrow> True)
      \<and> disciplined xs (live_step x s))"

text \<open>The tracker represents the sets exactly.\<close>

definition exact :: "nat \<Rightarrow> tracker \<Rightarrow> int set \<Rightarrow> bool" where
  "exact cap tk S \<longleftrightarrow> tk_inv cap tk \<and> active_refs tk = S \<and> drift tk = 0 \<and> tk_overflow tk = 0"

lemma exact_card: "exact cap tk S \<Longrightarrow> card (active_at tk) = card S"
  by (auto simp: exact_def tk_inv_def active_refs_def card_image)

lemma create_exact:
  assumes "exact cap tk S" and "r \<notin> S" and "card S < cap"
  shows "exact cap (fst (track_create cap ty now loc r tk)) (insert r S)"
proof -
  obtain tk' ms where c: "track_create cap ty now loc r tk = (tk', ms)" by force
  have "r \<notin> active_refs tk" "card (active_at tk) < cap" "tk_inv cap tk" using assms exact_card by (auto simp: exact_def)
  with create_free [where cap = cap and tk = tk and ref = r and ty = ty and now = now and loc = loc and tk' = tk' and ms = ms] c assms(1) show ?thesis by (auto simp: exact_def)
qed

lemma destroy_exact:
  assumes "exact cap tk S"
  shows "case track_destroy ty r tk of None \<Rightarrow> r \<notin> S | Some (tk', m) \<Rightarrow> r \<in> S \<and> exact cap tk' (S - {r})"
  using destroy_spec [where cap = cap and tk = tk and ty = ty and ref = r] assms by (auto simp: exact_def split: option.split)

lemma init_exact:
  assumes "tracker_ok t"
  shows "exact cap (rt_threads (thread_tracker_init t)) S = exact cap (rt_threads t) S"
    "exact cap (rt_functions (thread_tracker_init t)) S = exact cap (rt_functions t) S"
  using init_tracker [OF assms] by simp_all

lemma exact_uninit: "tracker_ok t \<Longrightarrow> \<not> rt_initialized t \<Longrightarrow> exact c (rt_threads t) T \<Longrightarrow> exact d (rt_functions t) F \<Longrightarrow> T = {} \<and> F = {}"
  by (auto simp: tracker_ok_def exact_def zero_inv)

lemma live_refines:
  assumes "tracker_ok t" and "exact MAX_THREAD_RECORDS (rt_threads t) T" and "exact MAX_FUNCTION_RECORDS (rt_functions t) F" and "disciplined [x] (T, F)"
  shows "case live_step x (T, F) of
      (T', F') \<Rightarrow> exact MAX_THREAD_RECORDS (rt_threads (tracker_step x t)) T' \<and> exact MAX_FUNCTION_RECORDS (rt_functions (tracker_step x t)) F'"
proof (cases x)
  case (TeThread now loc r)
  with assms init_exact [OF assms(1)] create_exact [where cap = MAX_THREAD_RECORDS and tk = "rt_threads (thread_tracker_init t)" and S = T and r = r and ty = REF_TYPE_THREAD and now = now and loc = loc] show ?thesis
    by (auto simp: tracker_step_def live_step_def thread_tracker_log_create_def say_def Let_def split: prod.split)
next
  case (TeFunction now loc r)
  with assms init_exact [OF assms(1)] create_exact [where cap = MAX_FUNCTION_RECORDS and tk = "rt_functions (thread_tracker_init t)" and S = F and r = r and ty = REF_TYPE_FUNCTION and now = now and loc = loc] show ?thesis
    by (auto simp: tracker_step_def live_step_def function_tracker_log_create_def say_def Let_def split: prod.split)
next
  case (TeDestroyThread r)
  with assms destroy_exact [OF assms(2), where ty = REF_TYPE_THREAD and r = r] exact_uninit [OF assms(1) _ assms(2,3)] show ?thesis
    by (auto simp: tracker_step_def live_step_def thread_tracker_log_destroy_def say_def split: option.splits)
next
  case (TeDestroyFunction r)
  with assms destroy_exact [OF assms(3), where ty = REF_TYPE_FUNCTION and r = r] exact_uninit [OF assms(1) _ assms(2,3)] show ?thesis
    by (auto simp: tracker_step_def live_step_def function_tracker_log_destroy_def say_def split: option.splits)
next
  case (TeDestroy r)
  with assms destroy_exact [OF assms(2), where ty = REF_TYPE_THREAD and r = r] destroy_exact [OF assms(3), where ty = REF_TYPE_FUNCTION and r = r] exact_uninit [OF assms(1) _ assms(2,3)] show ?thesis
    by (auto simp: tracker_step_def live_step_def ref_tracker_log_destroy_def say_def split: option.splits)
qed

lemma exact_report:
  assumes "exact cap tk S" and "cap \<le> 2000"
  shows "sint (tk_count tk) = int (card S) \<and> (\<forall>n k. RlMismatch ty n k \<notin> set (print_records ty' now tk))"
proof -
  have c: "card (active_at tk) \<le> cap"
    using assms(1) card_mono [of "{..<cap}" "active_at tk"] by (auto simp: exact_def tk_inv_def active_at_def)
  have "tk_count tk = word_of_nat (card (active_at tk))" using assms(1) by (auto simp: exact_def drift_def)
  then have s: "sint (tk_count tk) = int (card (active_at tk))"
    using c assms(2) by (simp add: signed_of_nat signed_take_bit_int_eq_self)
  then show ?thesis using exact_card [OF assms(1)] by (auto simp: print_records_def Let_def active_count)
qed

text \<open>
  (C39) The tracker against a set: as long as the registry hands out references that are not alive and no array is full, the active
  records are exactly the live references after any sequence of creations and destructions, also those that do not say which kind they destroy; both counters are the
  numbers of live references, and the report never finds a mismatch.
\<close>

theorem tracker_refines_set:
  assumes "disciplined evs ({}, {})"
  shows "let t = fold tracker_step evs tracker_start; (T, F) = fold live_step evs ({}, {})
    in active_refs (rt_threads t) = T \<and> active_refs (rt_functions t) = F
       \<and> thread_tracker_get_count t = int (card T) \<and> function_tracker_get_count t = int (card F)
       \<and> (\<forall>ty n k. RlMismatch ty n k \<notin> set (thread_tracker_print_active now t))"
proof -
  have run: "case fold live_step evs (T, F) of
      (T', F') \<Rightarrow> exact MAX_THREAD_RECORDS (rt_threads (fold tracker_step evs t)) T' \<and> exact MAX_FUNCTION_RECORDS (rt_functions (fold tracker_step evs t)) F'"
    if "tracker_ok t" "exact MAX_THREAD_RECORDS (rt_threads t) T" "exact MAX_FUNCTION_RECORDS (rt_functions t) F" "disciplined evs (T, F)" for t T F
    using that
  proof (induction evs arbitrary: t T F)
    case (Cons x evs)
    obtain T' F' where l: "live_step x (T, F) = (T', F')" by force
    have "exact MAX_THREAD_RECORDS (rt_threads (tracker_step x t)) T'" "exact MAX_FUNCTION_RECORDS (rt_functions (tracker_step x t)) F'"
      using live_refines [OF Cons.prems(1-3), of x] Cons.prems(4) l by simp_all
    with Cons.IH [of "tracker_step x t" T' F'] Cons.prems(1,4) l show ?case by (simp add: tracker_step_ok)
  qed simp
  obtain T F where l: "fold live_step evs ({}, {}) = (T, F)" by force
  let ?t = "fold tracker_step evs tracker_start"
  have e: "exact MAX_THREAD_RECORDS (rt_threads ?t) T" "exact MAX_FUNCTION_RECORDS (rt_functions ?t) F"
    using run [of tracker_start "{}" "{}"] start_tracker_ok assms l by (simp_all add: exact_def tracker_start_def zero_inv caps_pos)
  moreover have "MAX_THREAD_RECORDS \<le> 2000" "MAX_FUNCTION_RECORDS \<le> 2000" by (simp_all add: MAX_THREAD_RECORDS_def MAX_FUNCTION_RECORDS_def)
  ultimately show ?thesis
    using l exact_report [OF e(1)] exact_report [OF e(2)]
    by (simp add: thread_tracker_get_count_def function_tracker_get_count_def thread_tracker_print_active_def exact_def)
qed

theorem tracker_refines_set_witness:
  "let t = fold tracker_step [TeThread 0 None 5, TeFunction 0 (Some ''http.c:10'') 6, TeThread 1 None 7, TeDestroy 5, TeDestroy 6] tracker_start
   in active_refs (rt_threads t) = {7} \<and> thread_tracker_get_count t = 1 \<and> function_tracker_get_count t = 0"
proof -
  let ?evs = "[TeThread 0 None 5, TeFunction 0 (Some ''http.c:10'') 6, TeThread 1 None 7, TeDestroy 5, TeDestroy 6]"
  have "disciplined ?evs ({}, {})" by (simp add: live_step_def MAX_THREAD_RECORDS_def MAX_FUNCTION_RECORDS_def)
  moreover have "fold live_step ?evs ({}, {}) = ({7}, {})" by (simp add: live_step_def insert_Diff_if)
  ultimately show ?thesis using tracker_refines_set [of ?evs 0] by (simp add: Let_def)
qed

end
