(* ===== verification/Mariadb.thy ===== *)
theory Mariadb
  imports Prelude "HOL-Library.Multiset"
begin

text \<open>
  The MariaDB binding, \<open>src/luamariadb.c\<close> and \<open>src/mariadb/\<close>: a connection with its cursors and prepared statements, and the operations that wait for the
  server. Each of them calls the start function of the client library; if that has to wait, the coroutine is kept in the
  registry, an event is added and the coroutine yields; the event calls the cont function, which waits again or resumes the
  coroutine. The client library is a parameter: every call has a reply, which may be any.
\<close>

section \<open>State\<close>

text \<open>What to wait for: the status that the library returns, zero if none is set.\<close>

record wait_flags =
  wf_read :: bool
  wf_write :: bool
  wf_timeout :: bool
  wf_except :: bool

definition wf_any :: "wait_flags \<Rightarrow> bool" where
  "wf_any f \<longleftrightarrow> wf_read f \<or> wf_write f \<or> wf_timeout f \<or> wf_except f"

definition wf_none :: wait_flags where
  "wf_none = \<lparr>wf_read = False, wf_write = False, wf_timeout = False, wf_except = False\<rparr>"

text \<open>The connection, its cursors and its statements; slots of the registry are named by what they hold.\<close>

datatype db_id = ObConn | ObCur nat | ObStmt nat

datatype db_slot = SlCoref db_id | SlExtra db_id | SlTable nat | SlColnames nat | SlColtypes nat

text \<open>
  The fields of \<open>DB_CTX\<close>, \<open>CURSOR_CTX\<close> and \<open>STMT_CTX\<close> that the operations use. \<open>ob_ctx\<close> is False if the pointer to the connection is null;
  \<open>ob_table\<close> and \<open>ob_colinfo\<close> say whether the references of a statement and of a cursor are set.
\<close>

record db_obj =
  ob_closed :: bool
  ob_coref :: "nat option"
  ob_coref_count :: int
  ob_ctx :: bool
  ob_table :: bool
  ob_colinfo :: bool

datatype db_cont =
    CtConnect | CtClose | CtPing | CtQuery | CtCommit | CtRollback | CtAutocommit | CtSetCharset | CtPrepare | CtExecute | CtStmtFetch
  | CtStoreResult | CtSendLongData | CtStmtClose | CtFetchRow | CtFreeResult

text \<open>What the event is given: an object, or the result of a cursor.\<close>

datatype db_data = DdObj db_id | DdResult nat

record db_bag =
  bg_L :: nat
  bg_data :: db_data
  bg_status :: wait_flags
  bg_extra :: "db_id option"
  bg_cont :: db_cont

datatype db_value = DvNil | DvBool bool | DvText string | DvInt int | DvRow | DvConn | DvCursor nat | DvStmt nat

record db_world =
  dw_objs :: "db_id \<Rightarrow> db_obj"
  dw_bags :: "(nat \<times> db_bag) list"
  dw_registry :: "db_slot multiset"
  dw_next :: nat
  dw_waiting :: "nat list"
  dw_log :: "(nat \<times> db_value list) list"
  dw_bad :: bool

datatype db_result = DbReturn "db_value list" | DbYield | DbRaise string

text \<open>
  A reply of the library: the error before and after the call, the status and the result, the rows and result sets that it gives, the status
  of freeing a result that has ended; and whether memory for the event was available.
\<close>

datatype result_set = RsRows | RsAffected int | RsError string

record db_reply =
  dr_before :: "string option"
  dr_after :: "string option"
  dr_status :: wait_flags
  dr_ret :: int
  dr_row :: bool
  dr_first :: result_set
  dr_more :: "(int \<times> result_set) list"
  dr_free :: wait_flags
  dr_values :: "db_value list"
  dr_stmt_error :: string
  dr_alloc :: bool

section \<open>Helpers\<close>

definition upd_obj :: "db_id \<Rightarrow> (db_obj \<Rightarrow> db_obj) \<Rightarrow> db_world \<Rightarrow> db_world" where
  "upd_obj i f w = w\<lparr>dw_objs := (dw_objs w)(i := f (dw_objs w i))\<rparr>"

definition db_ref :: "db_slot \<Rightarrow> db_world \<Rightarrow> db_world" where
  "db_ref s w = w\<lparr>dw_registry := add_mset s (dw_registry w)\<rparr>"

definition db_unref :: "db_slot \<Rightarrow> db_world \<Rightarrow> db_world" where
  "db_unref s w = (if s \<in># dw_registry w then w\<lparr>dw_registry := dw_registry w - {#s#}\<rparr> else w\<lparr>dw_bad := True\<rparr>)"

definition REF_CO :: "db_id \<Rightarrow> nat \<Rightarrow> db_world \<Rightarrow> db_world" where
  "REF_CO i co w =
     (if ob_coref (dw_objs w i) = None
      then upd_obj i (\<lambda>b. b\<lparr>ob_coref := Some co, ob_coref_count := 1\<rparr>) (db_ref (SlCoref i) w)
      else upd_obj i (\<lambda>b. b\<lparr>ob_coref_count := ob_coref_count b + 1\<rparr>) w)"

definition UNREF_CO :: "db_id \<Rightarrow> db_world \<Rightarrow> db_world" where
  "UNREF_CO i w =
     (if ob_coref (dw_objs w i) = None then w
      else
        let w = upd_obj i (\<lambda>b. b\<lparr>ob_coref_count := ob_coref_count b - 1\<rparr>) w
        in if ob_coref_count (dw_objs w i) = 0 then upd_obj i (\<lambda>b. b\<lparr>ob_coref := None\<rparr>) (db_unref (SlCoref i) w) else w)"

text \<open>\<open>wait_for_status\<close>: nothing happens without a connection, on a closed one, and without memory. \<open>extra\<close> is a reference kept for the cont function.\<close>

definition wait_for_status :: "bool \<Rightarrow> db_reply \<Rightarrow> wait_flags \<Rightarrow> nat \<Rightarrow> db_data \<Rightarrow> db_cont \<Rightarrow> db_id option \<Rightarrow> db_world \<Rightarrow> db_world" where
  "wait_for_status has_ctx r status co data cb extra w =
     (if \<not> has_ctx \<or> ob_closed (dw_objs w ObConn) then w
      else if \<not> dr_alloc r then w
      else w\<lparr>dw_bags := dw_bags w @ [(dw_next w, \<lparr>bg_L = co, bg_data = data, bg_status = status, bg_extra = extra, bg_cont = cb\<rparr>)],
             dw_next := dw_next w + 1\<rparr>)"

definition luamariadb_push_errno :: "string option \<Rightarrow> db_value list" where
  "luamariadb_push_errno e = (case e of Some m \<Rightarrow> [DvNil, DvText m] | None \<Rightarrow> [])"

definition luamariadb_push_stmt_error :: "db_reply \<Rightarrow> db_value list" where
  "luamariadb_push_stmt_error r = [DvNil, DvText (''stmt_error: '' @ dr_stmt_error r)]"

definition db_yield :: "nat \<Rightarrow> db_world \<Rightarrow> db_result \<times> db_world" where
  "db_yield co w = (DbYield, w\<lparr>dw_waiting := dw_waiting w @ [co]\<rparr>)"

text \<open>
  \<open>FAN_RESUME\<close>: the coroutine gets the values and runs. What it then does with the database are later calls; the code behind the resume only
  frees the event that has fired.
\<close>

definition db_resume :: "nat \<Rightarrow> db_value list \<Rightarrow> db_world \<Rightarrow> db_world" where
  "db_resume co vs w = w\<lparr>dw_waiting := remove1 co (dw_waiting w), dw_log := dw_log w @ [(co, vs)]\<rparr>"

definition finish :: "db_id \<Rightarrow> nat \<Rightarrow> db_value list \<Rightarrow> db_world \<Rightarrow> db_world" where
  "finish i co vs w = db_resume co vs (UNREF_CO i w)"

section \<open>Operations on the connection\<close>

text \<open>
  \<open>ping\<close>, \<open>commit\<close>, \<open>rollback\<close>, \<open>autocommit\<close> and \<open>setcharset\<close> have the same code; the last does not look for an error before it goes on.
\<close>

definition conn_op_start :: "db_cont \<Rightarrow> db_reply \<Rightarrow> nat \<Rightarrow> db_world \<Rightarrow> db_result \<times> db_world" where
  "conn_op_start cb r co w =
     (if ob_closed (dw_objs w ObConn) then (DbRaise ''connection is closed'', w)
      else if wf_any (dr_status r) then db_yield co (wait_for_status True r (dr_status r) co (DdObj ObConn) cb None (REF_CO ObConn co w))
      else if dr_ret r = 0 then (DbReturn [DvBool True], w)
      else (DbReturn (luamariadb_push_errno (dr_after r)), w))"

definition conn_op_cont :: "bool \<Rightarrow> db_reply \<Rightarrow> db_bag \<Rightarrow> db_world \<Rightarrow> db_world" where
  "conn_op_cont look r b w =
     (if look \<and> dr_before r \<noteq> None then finish ObConn (bg_L b) (luamariadb_push_errno (dr_before r)) w
      else if wf_any (dr_status r) then wait_for_status True r (dr_status r) (bg_L b) (DdObj ObConn) (bg_cont b) (bg_extra b) w
      else if dr_ret r = 0 then finish ObConn (bg_L b) [DvBool True] w
      else finish ObConn (bg_L b) (luamariadb_push_errno (dr_after r)) w)"

definition conn_ping_start where "conn_ping_start = conn_op_start CtPing"
definition conn_commit_start where "conn_commit_start = conn_op_start CtCommit"
definition conn_rollback_start where "conn_rollback_start = conn_op_start CtRollback"
definition conn_autocommit_start where "conn_autocommit_start = conn_op_start CtAutocommit"
definition set_character_set_start where "set_character_set_start = conn_op_start CtSetCharset"

definition conn_ping_event where "conn_ping_event = conn_op_cont True"
definition conn_commit_event where "conn_commit_event = conn_op_cont True"
definition conn_rollback_event where "conn_rollback_event = conn_op_cont True"
definition conn_autocommit_event where "conn_autocommit_event = conn_op_cont True"
definition set_character_set_cont where "set_character_set_cont = conn_op_cont False"

text \<open>Closing sets the flag before it waits.\<close>

definition conn_close_start :: "db_reply \<Rightarrow> nat \<Rightarrow> db_world \<Rightarrow> db_result \<times> db_world" where
  "conn_close_start r co w =
     (if ob_closed (dw_objs w ObConn) then (DbReturn [DvBool False], w)
      else
        let w = upd_obj ObConn (\<lambda>b. b\<lparr>ob_closed := True\<rparr>) w
        in if wf_any (dr_status r) then db_yield co (wait_for_status True r (dr_status r) co (DdObj ObConn) CtClose None (REF_CO ObConn co w))
           else (DbReturn [DvBool True], w))"

definition conn_close_cont :: "db_reply \<Rightarrow> db_bag \<Rightarrow> db_world \<Rightarrow> db_world" where
  "conn_close_cont r b w =
     (if wf_any (dr_status r) then wait_for_status True r (dr_status r) (bg_L b) (DdObj ObConn) CtClose (bg_extra b) w
      else finish ObConn (bg_L b) [DvBool True] w)"

definition conn_gc :: "db_reply \<Rightarrow> nat \<Rightarrow> db_world \<Rightarrow> db_result \<times> db_world" where
  "conn_gc r co w = (if ob_closed (dw_objs w ObConn) then (DbReturn [], w) else conn_close_start r co w)"

definition real_connect_start :: "db_reply \<Rightarrow> nat \<Rightarrow> db_world \<Rightarrow> db_result \<times> db_world" where
  "real_connect_start r co w =
     (if wf_any (dr_status r)
      then db_yield co (wait_for_status True r (dr_status r) co (DdObj ObConn) CtConnect (Some ObConn) (REF_CO ObConn co (db_ref (SlExtra ObConn) w)))
      else if dr_ret r = 0 then (DbReturn [DvConn], w)
      else (DbReturn (luamariadb_push_errno (dr_after r)), w))"

definition unref_extra :: "db_bag \<Rightarrow> db_world \<Rightarrow> db_world" where
  "unref_extra b w = (case bg_extra b of Some i \<Rightarrow> db_unref (SlExtra i) w | None \<Rightarrow> w)"

definition real_connect_cont :: "db_reply \<Rightarrow> db_bag \<Rightarrow> db_world \<Rightarrow> db_world" where
  "real_connect_cont r b w =
     (if wf_any (dr_status r) then wait_for_status True r (dr_status r) (bg_L b) (DdObj ObConn) CtConnect (bg_extra b) w
      else unref_extra b (finish ObConn (bg_L b) (if dr_ret r = 0 then [DvConn] else luamariadb_push_errno (dr_after r)) w))"

section \<open>Queries and cursors\<close>

definition new_obj :: db_obj where
  "new_obj = \<lparr>ob_closed = False, ob_coref = None, ob_coref_count = 0, ob_ctx = True, ob_table = False, ob_colinfo = False\<rparr>"

definition create_cursor :: "db_world \<Rightarrow> db_value \<times> db_world" where
  "create_cursor w = (DvCursor (dw_next w), (upd_obj (ObCur (dw_next w)) (\<lambda>_. new_obj) w)\<lparr>dw_next := dw_next w + 1\<rparr>)"

text \<open>The further result sets of a stored procedure: the loop ends at an error.\<close>

fun more_results :: "(int \<times> result_set) list \<Rightarrow> db_world \<Rightarrow> db_value list \<times> db_world" where
  "more_results [] w = ([], w)"
| "more_results ((n, rs) # rest) w =
     (if n \<noteq> 0 then ([], w)
      else case rs of
             RsRows \<Rightarrow> (case create_cursor w of (v, w) \<Rightarrow> (case more_results rest w of (vs, w) \<Rightarrow> (v # vs, w)))
           | RsAffected k \<Rightarrow> (case more_results rest w of (vs, w) \<Rightarrow> (DvInt k # vs, w))
           | RsError m \<Rightarrow> ([DvNil, DvText m], w))"

definition real_query_result :: "db_reply \<Rightarrow> db_world \<Rightarrow> db_value list \<times> db_world" where
  "real_query_result r w =
     (case dr_first r of
        RsRows \<Rightarrow> (case create_cursor w of (v, w) \<Rightarrow> (case more_results (dr_more r) w of (vs, w) \<Rightarrow> (v # vs, w)))
      | RsAffected k \<Rightarrow> (case more_results (dr_more r) w of (vs, w) \<Rightarrow> (DvInt k # vs, w))
      | RsError _ \<Rightarrow> (luamariadb_push_errno (dr_after r), w))"

definition real_query_start :: "db_reply \<Rightarrow> nat \<Rightarrow> db_world \<Rightarrow> db_result \<times> db_world" where
  "real_query_start r co w =
     (if ob_closed (dw_objs w ObConn) then (DbRaise ''connection is closed'', w)
      else if wf_any (dr_status r) then db_yield co (wait_for_status True r (dr_status r) co (DdObj ObConn) CtQuery None (REF_CO ObConn co w))
      else if dr_ret r = 0 then (case real_query_result r w of (vs, w) \<Rightarrow> (DbReturn vs, w))
      else (DbReturn (luamariadb_push_errno (dr_after r)), w))"

definition real_query_cont :: "db_reply \<Rightarrow> db_bag \<Rightarrow> db_world \<Rightarrow> db_world" where
  "real_query_cont r b w =
     (if dr_before r \<noteq> None then finish ObConn (bg_L b) (luamariadb_push_errno (dr_before r)) w
      else if wf_any (dr_status r) then wait_for_status True r (dr_status r) (bg_L b) (DdObj ObConn) CtQuery (bg_extra b) w
      else if dr_ret r = 0 then (case real_query_result r w of (vs, w) \<Rightarrow> finish ObConn (bg_L b) vs w)
      else finish ObConn (bg_L b) (luamariadb_push_errno (dr_after r)) w)"

text \<open>True is \<open>CONTINUE_YIELD\<close>. The pointer to the connection is cleared before the result is freed.\<close>

definition free_result_start :: "db_reply \<Rightarrow> nat \<Rightarrow> nat \<Rightarrow> db_world \<Rightarrow> bool \<times> db_world" where
  "free_result_start r c co w =
     (let has_ctx = ob_ctx (dw_objs w (ObCur c));
          w = (if ob_colinfo (dw_objs w (ObCur c)) then db_unref (SlColtypes c) (db_unref (SlColnames c) w) else w);
          w = upd_obj (ObCur c) (\<lambda>b. b\<lparr>ob_closed := True, ob_colinfo := False, ob_ctx := False\<rparr>) w
      in if wf_any (dr_free r) then (True, wait_for_status has_ctx r (dr_free r) co (DdObj (ObCur c)) CtFreeResult None w) else (False, w))"

text \<open>When it has to wait again, the event gets the result instead of the cursor.\<close>

definition free_result_cont :: "db_reply \<Rightarrow> db_bag \<Rightarrow> db_world \<Rightarrow> db_world" where
  "free_result_cont r b w =
     (case bg_data b of
        DdObj (ObCur c) \<Rightarrow>
          if wf_any (dr_status r) then wait_for_status True r (dr_status r) (bg_L b) (DdResult c) CtFreeResult (bg_extra b) w
          else finish (ObCur c) (bg_L b) [DvBool True] w
      | _ \<Rightarrow> w\<lparr>dw_bad := True\<rparr>)"

definition create_colinfo :: "nat \<Rightarrow> db_world \<Rightarrow> db_world" where
  "create_colinfo c w = upd_obj (ObCur c) (\<lambda>b. b\<lparr>ob_colinfo := True\<rparr>) (db_ref (SlColnames c) (db_ref (SlColtypes c) w))"

text \<open>None is \<open>CONTINUE_YIELD\<close>.\<close>

definition fetch_row_result :: "db_reply \<Rightarrow> nat \<Rightarrow> nat \<Rightarrow> db_world \<Rightarrow> db_value list option \<times> db_world" where
  "fetch_row_result r c co w =
     (if \<not> dr_row r then (case free_result_start r c co w of (True, w) \<Rightarrow> (None, w) | (False, w) \<Rightarrow> (Some [DvNil], w))
      else (Some [DvRow], if ob_colinfo (dw_objs w (ObCur c)) then w else create_colinfo c w))"

definition fetch_row_cont :: "db_reply \<Rightarrow> db_bag \<Rightarrow> db_world \<Rightarrow> db_world" where
  "fetch_row_cont r b w =
     (case bg_data b of
        DdObj (ObCur c) \<Rightarrow>
          if wf_any (dr_status r)
          then wait_for_status (ob_ctx (dw_objs w (ObCur c))) r (dr_status r) (bg_L b) (DdObj (ObCur c)) CtFetchRow (bg_extra b) w
          else (case fetch_row_result r c (bg_L b) w of (Some vs, w) \<Rightarrow> finish (ObCur c) (bg_L b) vs w | (None, w) \<Rightarrow> w)
      | _ \<Rightarrow> w\<lparr>dw_bad := True\<rparr>)"

definition fetch_row_start :: "db_reply \<Rightarrow> nat \<Rightarrow> nat \<Rightarrow> db_world \<Rightarrow> db_result \<times> db_world" where
  "fetch_row_start r c co w =
     (if ob_closed (dw_objs w (ObCur c)) then (DbRaise ''cursor is closed'', w)
      else if wf_any (dr_status r)
      then db_yield co (wait_for_status (ob_ctx (dw_objs w (ObCur c))) r (dr_status r) co (DdObj (ObCur c)) CtFetchRow None (REF_CO (ObCur c) co w))
      else case fetch_row_result r c co w of
             (Some vs, w) \<Rightarrow> (DbReturn vs, w)
           | (None, w) \<Rightarrow> db_yield co (REF_CO (ObCur c) co w))"

definition cur_close :: "db_reply \<Rightarrow> nat \<Rightarrow> nat \<Rightarrow> db_world \<Rightarrow> db_result \<times> db_world" where
  "cur_close r c co w =
     (if ob_closed (dw_objs w (ObCur c)) then (DbReturn [DvBool False], w)
      else case free_result_start r c co w of
             (True, w) \<Rightarrow> db_yield co (REF_CO (ObCur c) co w)
           | (False, w) \<Rightarrow> (DbReturn [DvBool True], w))"

definition cur_gc :: "db_reply \<Rightarrow> nat \<Rightarrow> nat \<Rightarrow> db_world \<Rightarrow> db_result \<times> db_world" where
  "cur_gc r c co w = (if ob_closed (dw_objs w (ObCur c)) then (DbReturn [], w) else cur_close r c co w)"

text \<open>\<open>getcolnames\<close> and \<open>getcoltypes\<close> differ only in the table they push.\<close>

definition cur_getcolnames :: "nat \<Rightarrow> db_world \<Rightarrow> db_result \<times> db_world" where
  "cur_getcolnames c w =
     (if ob_closed (dw_objs w (ObCur c)) then (DbRaise ''cursor is closed'', w)
      else (DbReturn [DvRow], if ob_colinfo (dw_objs w (ObCur c)) then w else create_colinfo c w))"

section \<open>Statements\<close>

definition stmt_prepare_start :: "db_reply \<Rightarrow> nat \<Rightarrow> db_world \<Rightarrow> db_result \<times> db_world" where
  "stmt_prepare_start r co w =
     (if ob_closed (dw_objs w ObConn) then (DbRaise ''connection is closed'', w)
      else
        let n = dw_next w;
            w = db_ref (SlTable n) ((upd_obj (ObStmt n) (\<lambda>_. new_obj\<lparr>ob_table := True\<rparr>) w)\<lparr>dw_next := n + 1\<rparr>)
        in if wf_any (dr_status r)
           then db_yield co (wait_for_status True r (dr_status r) co (DdObj (ObStmt n)) CtPrepare (Some (ObStmt n))
                  (REF_CO (ObStmt n) co (db_ref (SlExtra (ObStmt n)) w)))
           else if dr_ret r = 0 then (DbReturn [DvStmt n], w)
           else (DbReturn (luamariadb_push_errno (dr_after r)), w))"

definition stmt_prepare_cont :: "db_reply \<Rightarrow> db_bag \<Rightarrow> db_world \<Rightarrow> db_world" where
  "stmt_prepare_cont r b w =
     (case bg_data b of
        DdObj (ObStmt n) \<Rightarrow>
          if dr_before r \<noteq> None then unref_extra b (finish (ObStmt n) (bg_L b) (luamariadb_push_stmt_error r) w)
          else if wf_any (dr_status r) then wait_for_status True r (dr_status r) (bg_L b) (DdObj (ObStmt n)) CtPrepare (bg_extra b) w
          else if dr_ret r = 0 then unref_extra b (finish (ObStmt n) (bg_L b) [DvStmt n] w)
          else unref_extra b (finish (ObStmt n) (bg_L b) (luamariadb_push_errno (dr_after r)) w)
      | _ \<Rightarrow> w\<lparr>dw_bad := True\<rparr>)"

text \<open>
  \<open>execute\<close>, \<open>fetch\<close>, \<open>store_result\<close> and \<open>send_long_data\<close> have the same code but for the values they return, which are part of the reply, and for the end of the
  rows, which only the start of \<open>fetch\<close> knows (\<open>no_data\<close>).
\<close>

definition stmt_op_start :: "db_cont \<Rightarrow> bool \<Rightarrow> db_reply \<Rightarrow> nat \<Rightarrow> nat \<Rightarrow> db_world \<Rightarrow> db_result \<times> db_world" where
  "stmt_op_start cb no_data r n co w =
     (if ob_closed (dw_objs w (ObStmt n)) then (DbRaise ''statement is closed'', w)
      else if wf_any (dr_status r)
      then db_yield co (wait_for_status (ob_ctx (dw_objs w (ObStmt n))) r (dr_status r) co (DdObj (ObStmt n)) cb None (REF_CO (ObStmt n) co w))
      else if dr_ret r = 0 then (DbReturn (dr_values r), w)
      else if no_data then (DbReturn [], w)
      else (DbReturn (luamariadb_push_stmt_error r), w))"

definition stmt_op_cont :: "db_reply \<Rightarrow> db_bag \<Rightarrow> db_world \<Rightarrow> db_world" where
  "stmt_op_cont r b w =
     (case bg_data b of
        DdObj (ObStmt n) \<Rightarrow>
          if dr_before r \<noteq> None then finish (ObStmt n) (bg_L b) (luamariadb_push_stmt_error r) w
          else if wf_any (dr_status r)
          then wait_for_status (ob_ctx (dw_objs w (ObStmt n))) r (dr_status r) (bg_L b) (DdObj (ObStmt n)) (bg_cont b) (bg_extra b) w
          else if dr_ret r = 0 then finish (ObStmt n) (bg_L b) (dr_values r) w
          else finish (ObStmt n) (bg_L b) (luamariadb_push_stmt_error r) w
      | _ \<Rightarrow> w\<lparr>dw_bad := True\<rparr>)"

definition MYSQL_NO_DATA :: int where "MYSQL_NO_DATA = 100"

definition stmt_execute_start where "stmt_execute_start = stmt_op_start CtExecute False"
definition stmt_store_result_start where "stmt_store_result_start = stmt_op_start CtStoreResult False"
definition st_send_long_data where "st_send_long_data = stmt_op_start CtSendLongData False"

definition stmt_fetch_start :: "db_reply \<Rightarrow> nat \<Rightarrow> nat \<Rightarrow> db_world \<Rightarrow> db_result \<times> db_world" where
  "stmt_fetch_start r = stmt_op_start CtStmtFetch (dr_ret r = MYSQL_NO_DATA) r"

definition stmt_execute_cont where "stmt_execute_cont = stmt_op_cont"
definition stmt_fetch_cont where "stmt_fetch_cont = stmt_op_cont"
definition stmt_store_result_cont where "stmt_store_result_cont = stmt_op_cont"
definition stmt_send_long_data_event where "stmt_send_long_data_event = stmt_op_cont"

definition drop_table :: "nat \<Rightarrow> db_world \<Rightarrow> db_world" where
  "drop_table n w = upd_obj (ObStmt n) (\<lambda>b. b\<lparr>ob_table := False\<rparr>) (db_unref (SlTable n) w)"

definition stmt_close_start :: "db_reply \<Rightarrow> nat \<Rightarrow> nat \<Rightarrow> db_world \<Rightarrow> db_result \<times> db_world" where
  "stmt_close_start r n co w =
     (let w = upd_obj (ObStmt n) (\<lambda>b. b\<lparr>ob_closed := True\<rparr>) w
      in if wf_any (dr_status r)
         then db_yield co (wait_for_status (ob_ctx (dw_objs w (ObStmt n))) r (dr_status r) co (DdObj (ObStmt n)) CtStmtClose None (REF_CO (ObStmt n) co w))
         else if dr_ret r = 0 then (DbReturn [DvBool True], drop_table n w)
         else (DbReturn (luamariadb_push_errno (dr_after r)), w))"

definition stmt_close_cont :: "db_reply \<Rightarrow> db_bag \<Rightarrow> db_world \<Rightarrow> db_world" where
  "stmt_close_cont r b w =
     (case bg_data b of
        DdObj (ObStmt n) \<Rightarrow>
          if wf_any (dr_status r)
          then wait_for_status (ob_ctx (dw_objs w (ObStmt n))) r (dr_status r) (bg_L b) (DdObj (ObStmt n)) CtStmtClose (bg_extra b) w
          else finish (ObStmt n) (bg_L b) (if dr_ret r = 0 then [DvBool True] else luamariadb_push_errno (dr_after r)) (drop_table n w)
      | _ \<Rightarrow> w\<lparr>dw_bad := True\<rparr>)"

definition st_close :: "db_reply \<Rightarrow> nat \<Rightarrow> nat \<Rightarrow> db_world \<Rightarrow> db_result \<times> db_world" where
  "st_close r n co w = (if ob_closed (dw_objs w (ObStmt n)) then (DbReturn [DvBool False], w) else stmt_close_start r n co w)"

definition st_gc :: "db_reply \<Rightarrow> nat \<Rightarrow> nat \<Rightarrow> db_world \<Rightarrow> db_result \<times> db_world" where
  "st_gc r n co w = (if ob_closed (dw_objs w (ObStmt n)) then (DbReturn [], w) else stmt_close_start r n co w)"

section \<open>Events\<close>

definition call_cont :: "db_reply \<Rightarrow> db_bag \<Rightarrow> db_world \<Rightarrow> db_world" where
  "call_cont r b w =
     (case bg_cont b of
        CtConnect \<Rightarrow> real_connect_cont r b w
      | CtClose \<Rightarrow> conn_close_cont r b w
      | CtPing \<Rightarrow> conn_ping_event r b w
      | CtQuery \<Rightarrow> real_query_cont r b w
      | CtCommit \<Rightarrow> conn_commit_event r b w
      | CtRollback \<Rightarrow> conn_rollback_event r b w
      | CtAutocommit \<Rightarrow> conn_autocommit_event r b w
      | CtSetCharset \<Rightarrow> set_character_set_cont r b w
      | CtPrepare \<Rightarrow> stmt_prepare_cont r b w
      | CtExecute \<Rightarrow> stmt_execute_cont r b w
      | CtStmtFetch \<Rightarrow> stmt_fetch_cont r b w
      | CtStoreResult \<Rightarrow> stmt_store_result_cont r b w
      | CtSendLongData \<Rightarrow> stmt_send_long_data_event r b w
      | CtStmtClose \<Rightarrow> stmt_close_cont r b w
      | CtFetchRow \<Rightarrow> fetch_row_cont r b w
      | CtFreeResult \<Rightarrow> free_result_cont r b w)"

text \<open>An event fires if it waits for something; its function frees it at the end. An exceptional condition alone is not waited for.\<close>

definition db_fire :: "nat \<Rightarrow> db_reply \<Rightarrow> db_world \<Rightarrow> db_world" where
  "db_fire n r w =
     (case map_of (dw_bags w) n of
        Some b \<Rightarrow>
          if wf_read (bg_status b) \<or> wf_write (bg_status b) \<or> wf_timeout (bg_status b)
          then let w = call_cont r b w in w\<lparr>dw_bags := filter (\<lambda>(m, _). m \<noteq> n) (dw_bags w)\<rparr>
          else w
      | None \<Rightarrow> w)"

datatype db_op =
    OpClose | OpPing | OpQuery | OpSetCharset | OpPrepare | OpCommit | OpRollback | OpAutocommit | OpFetchRow nat | OpCurClose nat | OpColnames nat
  | OpStExecute nat | OpStFetch nat | OpStStore nat | OpStSend nat | OpStClose nat

definition db_call :: "db_op \<Rightarrow> db_reply \<Rightarrow> nat \<Rightarrow> db_world \<Rightarrow> db_result \<times> db_world" where
  "db_call op r co w =
     (case op of
        OpClose \<Rightarrow> conn_close_start r co w
      | OpPing \<Rightarrow> conn_ping_start r co w
      | OpQuery \<Rightarrow> real_query_start r co w
      | OpSetCharset \<Rightarrow> set_character_set_start r co w
      | OpPrepare \<Rightarrow> stmt_prepare_start r co w
      | OpCommit \<Rightarrow> conn_commit_start r co w
      | OpRollback \<Rightarrow> conn_rollback_start r co w
      | OpAutocommit \<Rightarrow> conn_autocommit_start r co w
      | OpFetchRow c \<Rightarrow> fetch_row_start r c co w
      | OpCurClose c \<Rightarrow> cur_close r c co w
      | OpColnames c \<Rightarrow> cur_getcolnames c w
      | OpStExecute n \<Rightarrow> stmt_execute_start r n co w
      | OpStFetch n \<Rightarrow> stmt_fetch_start r n co w
      | OpStStore n \<Rightarrow> stmt_store_result_start r n co w
      | OpStSend n \<Rightarrow> st_send_long_data r n co w
      | OpStClose n \<Rightarrow> st_close r n co w)"

definition db_start :: db_world where
  "db_start = \<lparr>dw_objs = (\<lambda>_. new_obj), dw_bags = [], dw_registry = {#}, dw_next = 1, dw_waiting = [], dw_log = [], dw_bad = False\<rparr>"

datatype db_event = DbCall db_op db_reply nat | DbFire nat db_reply

definition db_step :: "db_event \<Rightarrow> db_world \<Rightarrow> db_world" where
  "db_step x w = (case x of DbCall op r co \<Rightarrow> snd (db_call op r co w) | DbFire n r \<Rightarrow> db_fire n r w)"

section \<open>Orderly use\<close>

text \<open>
  The client library allows one operation at a time. Orderly use is that, with memory for the events, with statements and cursors that exist, with no operation that has to
  wait once the connection is being closed, and with results that are freed after waiting at most once.
\<close>

definition wf_live :: "wait_flags \<Rightarrow> bool" where
  "wf_live f \<longleftrightarrow> wf_read f \<or> wf_write f \<or> wf_timeout f"

definition reply_ok :: "db_reply \<Rightarrow> bool" where
  "reply_ok r \<longleftrightarrow> dr_alloc r \<and> (wf_any (dr_status r) \<longrightarrow> wf_live (dr_status r)) \<and> (wf_any (dr_free r) \<longrightarrow> wf_live (dr_free r))"

definition op_exists :: "db_op \<Rightarrow> db_world \<Rightarrow> bool" where
  "op_exists op w =
     (case op of
        OpFetchRow c \<Rightarrow> c < dw_next w
      | OpCurClose c \<Rightarrow> c < dw_next w
      | OpColnames c \<Rightarrow> c < dw_next w
      | OpStExecute n \<Rightarrow> n < dw_next w
      | OpStFetch n \<Rightarrow> n < dw_next w
      | OpStStore n \<Rightarrow> n < dw_next w
      | OpStSend n \<Rightarrow> n < dw_next w
      | OpStClose n \<Rightarrow> n < dw_next w \<and> (ob_closed (dw_objs w (ObStmt n)) \<or> ob_table (dw_objs w (ObStmt n)))
      | _ \<Rightarrow> True)"

definition db_allowed :: "db_event \<Rightarrow> db_world \<Rightarrow> bool" where
  "db_allowed x w =
     (case x of
        DbCall op r co \<Rightarrow>
          reply_ok r \<and> dw_bags w = [] \<and> op_exists op w
          \<and> (op = OpClose \<or> ob_closed (dw_objs w ObConn) \<longrightarrow> \<not> wf_any (dr_status r) \<and> \<not> wf_any (dr_free r))
      | DbFire n r \<Rightarrow>
          reply_ok r \<and> (\<forall>b. map_of (dw_bags w) n = Some b \<longrightarrow> bg_cont b = CtFreeResult \<longrightarrow> \<not> wf_any (dr_status r)))"

inductive db_reaches :: "db_world \<Rightarrow> bool" where
  db_connects: "reply_ok r \<Longrightarrow> db_reaches (snd (real_connect_start r co db_start))"
| db_goes: "db_reaches w \<Longrightarrow> db_allowed x w \<Longrightarrow> db_reaches (db_step x w)"

section \<open>Invariant\<close>

text \<open>The slots that should be in use; \<open>E\<close> is the object that a waiting event keeps.\<close>

definition db_slots :: "db_world \<Rightarrow> db_id option \<Rightarrow> db_slot \<Rightarrow> nat" where
  "db_slots w E s =
     (case s of
        SlCoref i \<Rightarrow> of_bool (ob_coref (dw_objs w i) \<noteq> None)
      | SlExtra i \<Rightarrow> of_bool (E = Some i)
      | SlTable n \<Rightarrow> of_bool (ob_table (dw_objs w (ObStmt n)))
      | SlColnames c \<Rightarrow> of_bool (ob_colinfo (dw_objs w (ObCur c)))
      | SlColtypes c \<Rightarrow> of_bool (ob_colinfo (dw_objs w (ObCur c))))"

definition core :: "db_world \<Rightarrow> db_id option \<Rightarrow> bool" where
  "core w E \<longleftrightarrow>
     \<not> dw_bad w \<and> (\<forall>s. count (dw_registry w) s = db_slots w E s)
     \<and> (\<forall>n. dw_next w \<le> n \<longrightarrow> dw_objs w (ObCur n) = new_obj \<and> dw_objs w (ObStmt n) = new_obj)
     \<and> (\<forall>c. ob_closed (dw_objs w (ObCur c)) \<or> ob_ctx (dw_objs w (ObCur c))) \<and> (\<forall>n. ob_ctx (dw_objs w (ObStmt n)))"

definition unanchored :: "db_world \<Rightarrow> bool" where
  "unanchored w \<longleftrightarrow> (\<forall>j. ob_coref (dw_objs w j) = None)"

definition anchored :: "db_id \<Rightarrow> nat \<Rightarrow> db_world \<Rightarrow> bool" where
  "anchored i co w \<longleftrightarrow> ob_coref (dw_objs w i) = Some co \<and> ob_coref_count (dw_objs w i) = 1 \<and> (\<forall>j. j \<noteq> i \<longrightarrow> ob_coref (dw_objs w j) = None)"

definition id_ok :: "db_id \<Rightarrow> db_world \<Rightarrow> bool" where
  "id_ok i w = (case i of ObConn \<Rightarrow> True | ObCur c \<Rightarrow> c < dw_next w | ObStmt n \<Rightarrow> n < dw_next w)"

definition bag_ok :: "db_cont \<Rightarrow> db_id \<Rightarrow> db_id option \<Rightarrow> db_world \<Rightarrow> bool" where
  "bag_ok cb i E w \<longleftrightarrow> id_ok i w \<and>
     (if cb = CtConnect then i = ObConn \<and> E = Some i
      else if cb = CtPrepare then (\<exists>n. i = ObStmt n) \<and> E = Some i
      else if cb \<in> {CtClose, CtPing, CtQuery, CtCommit, CtRollback, CtAutocommit, CtSetCharset} then i = ObConn \<and> E = None
      else if cb = CtFetchRow then (\<exists>c. i = ObCur c) \<and> E = None \<and> \<not> ob_closed (dw_objs w i)
      else if cb = CtFreeResult then (\<exists>c. i = ObCur c) \<and> E = None
      else if cb = CtStmtClose then (\<exists>n. i = ObStmt n) \<and> E = None \<and> ob_table (dw_objs w i)
      else (\<exists>n. i = ObStmt n) \<and> E = None)"

text \<open>Nothing is going on, or one coroutine waits for one event and is kept in the registry.\<close>

definition db_idle :: "db_world \<Rightarrow> bool" where
  "db_idle w \<longleftrightarrow> core w None \<and> unanchored w \<and> dw_bags w = [] \<and> dw_waiting w = []"

definition db_busy :: "nat \<Rightarrow> db_bag \<Rightarrow> db_id \<Rightarrow> db_world \<Rightarrow> bool" where
  "db_busy n b i w \<longleftrightarrow>
     core w (bg_extra b) \<and> anchored i (bg_L b) w \<and> dw_bags w = [(n, b)] \<and> dw_waiting w = [bg_L b] \<and> n < dw_next w \<and> bg_data b = DdObj i
     \<and> wf_live (bg_status b) \<and> bag_ok (bg_cont b) i (bg_extra b) w \<and> \<not> ob_closed (dw_objs w ObConn)"

definition db_inv :: "db_world \<Rightarrow> bool" where
  "db_inv w \<longleftrightarrow> db_idle w \<or> (\<exists>n b i. db_busy n b i w)"

subsection \<open>Primitive steps\<close>

lemma upd_obj_simps [simp]:
  "dw_objs (upd_obj i f w) = (dw_objs w)(i := f (dw_objs w i))" "dw_bags (upd_obj i f w) = dw_bags w" "dw_registry (upd_obj i f w) = dw_registry w"
  "dw_next (upd_obj i f w) = dw_next w" "dw_waiting (upd_obj i f w) = dw_waiting w" "dw_log (upd_obj i f w) = dw_log w" "dw_bad (upd_obj i f w) = dw_bad w"
  by (simp_all add: upd_obj_def)

lemma REF_CO_frame [simp]:
  "dw_bags (REF_CO i co w) = dw_bags w" "dw_waiting (REF_CO i co w) = dw_waiting w" "dw_next (REF_CO i co w) = dw_next w" "dw_log (REF_CO i co w) = dw_log w"
  "ob_closed (dw_objs (REF_CO i co w) j) = ob_closed (dw_objs w j)" "ob_ctx (dw_objs (REF_CO i co w) j) = ob_ctx (dw_objs w j)"
  "ob_table (dw_objs (REF_CO i co w) j) = ob_table (dw_objs w j)" "ob_colinfo (dw_objs (REF_CO i co w) j) = ob_colinfo (dw_objs w j)"
  by (simp_all add: REF_CO_def db_ref_def)

lemma REF_CO_core:
  assumes "core w E" and "unanchored w" and "id_ok i w"
  shows "core (REF_CO i co w) E" "anchored i co (REF_CO i co w)"
proof -
  have n: "ob_coref (dw_objs w j) = None" for j using assms(2) by (simp add: unanchored_def)
  show "anchored i co (REF_CO i co w)" by (simp add: REF_CO_def anchored_def db_ref_def n)
  have "i \<noteq> ObCur m" "i \<noteq> ObStmt m" if "dw_next w \<le> m" for m using assms(3) that by (auto simp: id_ok_def)
  then show "core (REF_CO i co w) E" using assms(1)
    by (auto simp: core_def REF_CO_def db_ref_def n db_slots_def split: db_slot.split)
qed

lemma UNREF_CO_frame [simp]:
  "dw_bags (UNREF_CO i w) = dw_bags w" "dw_waiting (UNREF_CO i w) = dw_waiting w" "dw_next (UNREF_CO i w) = dw_next w" "dw_log (UNREF_CO i w) = dw_log w"
  "ob_closed (dw_objs (UNREF_CO i w) j) = ob_closed (dw_objs w j)" "ob_ctx (dw_objs (UNREF_CO i w) j) = ob_ctx (dw_objs w j)"
  "ob_table (dw_objs (UNREF_CO i w) j) = ob_table (dw_objs w j)" "ob_colinfo (dw_objs (UNREF_CO i w) j) = ob_colinfo (dw_objs w j)"
  by (simp_all add: UNREF_CO_def db_unref_def Let_def)

lemma UNREF_CO_core:
  assumes "core w E" and "anchored i co w" and "id_ok i w"
  shows "core (UNREF_CO i w) E" "unanchored (UNREF_CO i w)"
proof -
  have a: "ob_coref (dw_objs w i) = Some co" "ob_coref_count (dw_objs w i) = 1" "j \<noteq> i \<Longrightarrow> ob_coref (dw_objs w j) = None" for j
    using assms(2) by (auto simp: anchored_def)
  have "count (dw_registry w) (SlCoref i) = 1" using assms(1) a by (simp add: core_def db_slots_def)
  then have m: "SlCoref i \<in># dw_registry w" by (metis count_inI zero_neq_one)
  show "unanchored (UNREF_CO i w)" using a m by (auto simp: unanchored_def UNREF_CO_def db_unref_def)
  have "i \<noteq> ObCur m" "i \<noteq> ObStmt m" if "dw_next w \<le> m" for m using assms(3) that by (auto simp: id_ok_def)
  then show "core (UNREF_CO i w) E" using assms(1) a m
    by (auto simp: core_def UNREF_CO_def db_unref_def db_slots_def Let_def split: db_slot.split)
qed

lemma id_ok_frame [simp]: "id_ok i (w\<lparr>dw_bags := bs\<rparr>) = id_ok i w" "id_ok i (w\<lparr>dw_waiting := ws\<rparr>) = id_ok i w" "id_ok i (w\<lparr>dw_log := l\<rparr>) = id_ok i w"
  "id_ok i (upd_obj j f w) = id_ok i w" "id_ok i (REF_CO j co w) = id_ok i w" "id_ok i (UNREF_CO j w) = id_ok i w"
  by (simp_all add: id_ok_def split: db_id.split)

lemma core_frame [simp]:
  "core (w\<lparr>dw_bags := bs\<rparr>) E = core w E" "core (w\<lparr>dw_waiting := ws\<rparr>) E = core w E" "core (w\<lparr>dw_log := l\<rparr>) E = core w E"
  by (simp_all add: core_def db_slots_def cong: db_slot.case_cong)

lemma anchored_frame [simp]:
  "anchored i co (w\<lparr>dw_bags := bs\<rparr>) = anchored i co w" "anchored i co (w\<lparr>dw_waiting := ws\<rparr>) = anchored i co w" "anchored i co (w\<lparr>dw_log := l\<rparr>) = anchored i co w"
  "unanchored (w\<lparr>dw_bags := bs\<rparr>) = unanchored w" "unanchored (w\<lparr>dw_waiting := ws\<rparr>) = unanchored w" "unanchored (w\<lparr>dw_log := l\<rparr>) = unanchored w"
  "anchored i co (w\<lparr>dw_next := m\<rparr>) = anchored i co w"
  by (simp_all add: anchored_def unanchored_def)

lemma core_next: "core w E \<Longrightarrow> core (w\<lparr>dw_next := dw_next w + 1\<rparr>) E"
  by (auto simp: core_def db_slots_def cong: db_slot.case_cong)

subsection \<open>Waiting and finishing\<close>

lemma wait_eq:
  "\<not> ob_closed (dw_objs w ObConn) \<Longrightarrow> dr_alloc r \<Longrightarrow>
   wait_for_status True r st co data cb E w
   = w\<lparr>dw_bags := dw_bags w @ [(dw_next w, \<lparr>bg_L = co, bg_data = data, bg_status = st, bg_extra = E, bg_cont = cb\<rparr>)], dw_next := dw_next w + 1\<rparr>"
  by (simp add: wait_for_status_def)

lemma bag_ok_next: "bag_ok cb i E w \<Longrightarrow> bag_ok cb i E (w\<lparr>dw_bags := bs, dw_next := dw_next w + 1\<rparr>)"
  "bag_ok cb i E w \<Longrightarrow> bag_ok cb i E (w\<lparr>dw_next := dw_next w + 1, dw_bags := bs\<rparr>)"
  by (auto simp: bag_ok_def id_ok_def split: db_id.splits if_splits)

lemma start_waiting:
  assumes "core w E" "unanchored w" "dw_bags w = []" "dw_waiting w = []" "\<not> ob_closed (dw_objs w ObConn)"
    and "dr_alloc r" "wf_live st" "bag_ok cb i E w"
  shows "db_inv (snd (db_yield co (wait_for_status True r st co (DdObj i) cb E (REF_CO i co w))))"
proof -
  let ?v = "REF_CO i co w"
  let ?b = "\<lparr>bg_L = co, bg_data = DdObj i, bg_status = st, bg_extra = E, bg_cont = cb\<rparr>"
  have i: "id_ok i w" using assms(8) by (simp add: bag_ok_def)
  have "bag_ok cb i E ?v" using assms(8) by (auto simp: bag_ok_def split: if_splits)
  with REF_CO_core [OF assms(1,2) i] assms have "db_busy (dw_next w) ?b i (?v\<lparr>dw_bags := [(dw_next w, ?b)], dw_next := dw_next w + 1, dw_waiting := [co]\<rparr>)"
    using core_next [of ?v E] bag_ok_next(1) [of cb i E ?v "[(dw_next w, ?b)]"]
    by (auto simp: db_busy_def bag_ok_def id_ok_def core_def db_slots_def cong: db_slot.case_cong)
  then show ?thesis using assms by (auto simp: db_inv_def db_yield_def wait_eq)
qed

lemma rearm:
  assumes "core w E" "anchored i co w" "dw_bags w = [(n, b)]" "dw_waiting w = [co]" "n < dw_next w" "\<not> ob_closed (dw_objs w ObConn)"
    and "dr_alloc r" "wf_live st" "bag_ok cb i E w"
  shows "db_inv (let v = wait_for_status True r st co (DdObj i) cb E w in v\<lparr>dw_bags := filter (\<lambda>(m, _). m \<noteq> n) (dw_bags v)\<rparr>)"
proof -
  let ?b = "\<lparr>bg_L = co, bg_data = DdObj i, bg_status = st, bg_extra = E, bg_cont = cb\<rparr>"
  have "db_busy (dw_next w) ?b i (w\<lparr>dw_next := dw_next w + 1, dw_bags := [(dw_next w, ?b)]\<rparr>)"
    using assms bag_ok_next(2) [OF assms(9), of "[(dw_next w, ?b)]"]
    by (auto simp: db_busy_def core_def db_slots_def anchored_def cong: db_slot.case_cong)
  then show ?thesis using assms by (auto simp: db_inv_def wait_eq)
qed

lemma finish_core:
  assumes "core w E" "anchored i co w" "id_ok i w" "dw_waiting w = [co]"
  shows "core (finish i co vs w) E" "unanchored (finish i co vs w)" "dw_waiting (finish i co vs w) = []" "dw_bags (finish i co vs w) = dw_bags w"
    "dw_log (finish i co vs w) = dw_log w @ [(co, vs)]"
  using UNREF_CO_core [OF assms(1-3)] assms(4) by (simp_all add: finish_def db_resume_def)

lemma finish_idle:
  assumes "core w None" "anchored i co w" "id_ok i w" "dw_waiting w = [co]" "dw_bags w = [(n, b)]"
  shows "db_inv (let v = finish i co vs w in v\<lparr>dw_bags := filter (\<lambda>(m, _). m \<noteq> n) (dw_bags v)\<rparr>)"
  using finish_core [OF assms(1-4), of vs] assms(5) by (simp add: db_inv_def db_idle_def)

lemma unref_extra_core:
  assumes "core w (Some i)" and "bg_extra b = Some i"
  shows "core (unref_extra b w) None" "unanchored (unref_extra b w) = unanchored w" "dw_waiting (unref_extra b w) = dw_waiting w"
    "dw_bags (unref_extra b w) = dw_bags w" "dw_log (unref_extra b w) = dw_log w"
proof -
  have "count (dw_registry w) (SlExtra i) = 1" using assms(1) by (simp add: core_def db_slots_def)
  then have m: "SlExtra i \<in># dw_registry w" by (metis count_inI zero_neq_one)
  show "core (unref_extra b w) None" using assms m by (auto simp: unref_extra_def db_unref_def core_def db_slots_def split: db_slot.split)
  show "unanchored (unref_extra b w) = unanchored w" "dw_waiting (unref_extra b w) = dw_waiting w" "dw_bags (unref_extra b w) = dw_bags w"
    "dw_log (unref_extra b w) = dw_log w"
    using assms m by (simp_all add: unref_extra_def db_unref_def unanchored_def)
qed

lemma finish_extra_idle:
  assumes "core w (Some i)" "anchored i co w" "id_ok i w" "dw_waiting w = [co]" "dw_bags w = [(n, b)]" "bg_extra b = Some i"
  shows "db_inv (let v = unref_extra b (finish i co vs w) in v\<lparr>dw_bags := filter (\<lambda>(m, _). m \<noteq> n) (dw_bags v)\<rparr>)"
  using finish_core [OF assms(1-4), of vs] unref_extra_core [of "finish i co vs w" i b] assms(5,6) by (simp add: db_inv_def db_idle_def)

subsection \<open>Objects\<close>

lemma create_cursor_eq: "core w E \<Longrightarrow> create_cursor w = (DvCursor (dw_next w), w\<lparr>dw_next := dw_next w + 1\<rparr>)"
proof -
  assume "core w E"
  then have "dw_objs w (ObCur (dw_next w)) = new_obj" by (simp add: core_def)
  then have "(dw_objs w)(ObCur (dw_next w) := new_obj) = dw_objs w" by (metis fun_upd_triv)
  then show ?thesis by (simp add: create_cursor_def upd_obj_def)
qed

text \<open>What a step that only allocates cursors keeps.\<close>

definition grows :: "db_world \<Rightarrow> db_world \<Rightarrow> bool" where
  "grows w v \<longleftrightarrow> (\<exists>m. dw_next w \<le> m \<and> v = w\<lparr>dw_next := m\<rparr>)"

lemma grows_refl: "grows w w"
  by (auto simp: grows_def intro!: exI [of _ "dw_next w"])

lemma grows_step: "grows (w\<lparr>dw_next := dw_next w + 1\<rparr>) v \<Longrightarrow> grows w v"
proof -
  assume "grows (w\<lparr>dw_next := dw_next w + 1\<rparr>) v"
  then obtain m where "Suc (dw_next w) \<le> m" "v = w\<lparr>dw_next := m\<rparr>" by (auto simp: grows_def)
  then show ?thesis by (auto simp: grows_def intro!: exI [of _ m])
qed

lemma more_results_grows: "core w E \<Longrightarrow> grows w (snd (more_results rs w))"
proof (induction rs arbitrary: w)
  case (Cons p rest)
  obtain n rs where p: "p = (n, rs)" by (cases p)
  let ?v = "w\<lparr>dw_next := dw_next w + 1\<rparr>"
  have "grows w (snd (more_results rest ?v))" using Cons.IH [OF core_next [OF Cons.prems]] by (rule grows_step)
  with Cons.IH [OF Cons.prems] p show ?case
    by (cases rs) (auto simp: grows_refl create_cursor_eq [OF Cons.prems] split: prod.split)
qed (simp add: grows_refl)

lemma query_result_grows:
  assumes "core w E"
  shows "grows w (snd (real_query_result r w))"
proof -
  let ?v = "w\<lparr>dw_next := dw_next w + 1\<rparr>"
  have "grows w (snd (more_results (dr_more r) ?v))" using more_results_grows [OF core_next [OF assms]] by (rule grows_step)
  with more_results_grows [OF assms, of "dr_more r"] show ?thesis
    by (auto simp: real_query_result_def create_cursor_eq [OF assms] grows_refl split: result_set.split prod.split)
qed

lemma grows_keeps:
  assumes "grows w v"
  shows "core w E \<Longrightarrow> core v E" "anchored i co v = anchored i co w" "unanchored v = unanchored w" "id_ok i w \<Longrightarrow> id_ok i v" "dw_bags v = dw_bags w"
    "dw_waiting v = dw_waiting w" "dw_objs v = dw_objs w" "dw_next w \<le> dw_next v" "dw_log v = dw_log w"
  using assms by (auto simp: grows_def core_def db_slots_def anchored_def unanchored_def id_ok_def cong: db_slot.case_cong split: db_id.splits)

lemma colinfo_core:
  assumes "core w E" "c < dw_next w" "\<not> ob_colinfo (dw_objs w (ObCur c))"
  shows "core (create_colinfo c w) E" "unanchored (create_colinfo c w) = unanchored w" "anchored i co (create_colinfo c w) = anchored i co w"
    "dw_bags (create_colinfo c w) = dw_bags w" "dw_waiting (create_colinfo c w) = dw_waiting w" "id_ok i (create_colinfo c w) = id_ok i w"
  using assms by (auto simp: create_colinfo_def db_ref_def core_def db_slots_def unanchored_def anchored_def id_ok_def split: db_slot.split db_id.split)

text \<open>A cursor without its references and without its connection.\<close>

definition freed :: "nat \<Rightarrow> db_world \<Rightarrow> db_world" where
  "freed c w = upd_obj (ObCur c) (\<lambda>b. b\<lparr>ob_closed := True, ob_colinfo := False, ob_ctx := False\<rparr>)
     (if ob_colinfo (dw_objs w (ObCur c)) then db_unref (SlColtypes c) (db_unref (SlColnames c) w) else w)"

lemma freed_core:
  assumes "core w E" "c < dw_next w"
  shows "core (freed c w) E" "unanchored (freed c w) = unanchored w" "anchored i co (freed c w) = anchored i co w" "dw_bags (freed c w) = dw_bags w"
    "dw_waiting (freed c w) = dw_waiting w" "dw_next (freed c w) = dw_next w" "ob_closed (dw_objs (freed c w) ObConn) = ob_closed (dw_objs w ObConn)"
    "id_ok i (freed c w) = id_ok i w"
proof -
  have m: "SlColnames c \<in># dw_registry w" "SlColtypes c \<in># dw_registry w" if "ob_colinfo (dw_objs w (ObCur c))"
    using assms(1) that by (auto simp: core_def db_slots_def count_greater_zero_iff [symmetric] simp del: count_greater_zero_iff)
  then have r: "freed c w = upd_obj (ObCur c) (\<lambda>b. b\<lparr>ob_closed := True, ob_colinfo := False, ob_ctx := False\<rparr>)
      (w\<lparr>dw_registry := (if ob_colinfo (dw_objs w (ObCur c)) then dw_registry w - {#SlColnames c, SlColtypes c#} else dw_registry w)\<rparr>)"
    by (auto simp: freed_def db_unref_def in_diff_count add_mset_commute)
  show "core (freed c w) E" using assms by (auto simp: r core_def db_slots_def split: db_slot.split)
  show "unanchored (freed c w) = unanchored w" "anchored i co (freed c w) = anchored i co w" "dw_bags (freed c w) = dw_bags w"
    "dw_waiting (freed c w) = dw_waiting w" "dw_next (freed c w) = dw_next w" "ob_closed (dw_objs (freed c w) ObConn) = ob_closed (dw_objs w ObConn)"
    "id_ok i (freed c w) = id_ok i w"
    by (auto simp: r unanchored_def anchored_def id_ok_def split: db_id.split)
qed

lemma free_result_start_eq:
  "free_result_start r c co w
   = (if wf_any (dr_free r) then (True, wait_for_status (ob_ctx (dw_objs w (ObCur c))) r (dr_free r) co (DdObj (ObCur c)) CtFreeResult None (freed c w))
      else (False, freed c w))"
  by (simp add: free_result_start_def freed_def Let_def)

lemma drop_table_core:
  assumes "core w E" "n < dw_next w" "ob_table (dw_objs w (ObStmt n))"
  shows "core (drop_table n w) E" "unanchored (drop_table n w) = unanchored w" "anchored i co (drop_table n w) = anchored i co w"
    "dw_bags (drop_table n w) = dw_bags w" "dw_waiting (drop_table n w) = dw_waiting w" "id_ok i (drop_table n w) = id_ok i w"
proof -
  have m: "SlTable n \<in># dw_registry w"
    using assms(1,3) by (auto simp: core_def db_slots_def count_greater_zero_iff [symmetric] simp del: count_greater_zero_iff)
  then show "core (drop_table n w) E" using assms by (auto simp: drop_table_def db_unref_def core_def db_slots_def split: db_slot.split)
  show "unanchored (drop_table n w) = unanchored w" "anchored i co (drop_table n w) = anchored i co w"
    "dw_bags (drop_table n w) = dw_bags w" "dw_waiting (drop_table n w) = dw_waiting w" "id_ok i (drop_table n w) = id_ok i w"
    using m by (auto simp: drop_table_def db_unref_def unanchored_def anchored_def id_ok_def split: db_id.split)
qed

subsection \<open>Events\<close>

definition drop_bag :: "nat \<Rightarrow> db_world \<Rightarrow> db_world" where
  "drop_bag n v = v\<lparr>dw_bags := filter (\<lambda>(m, _). m \<noteq> n) (dw_bags v)\<rparr>"

text \<open>What the function of an event may rely on.\<close>

lemma busyD:
  assumes "db_busy n b i w"
  shows "core w (bg_extra b)" "anchored i (bg_L b) w" "dw_bags w = [(n, b)]" "dw_waiting w = [bg_L b]" "n < dw_next w" "\<not> ob_closed (dw_objs w ObConn)"
    "bg_data b = DdObj i" "bag_ok (bg_cont b) i (bg_extra b) w" "id_ok i w"
  using assms by (auto simp: db_busy_def bag_ok_def)

lemmas rearm_drop = rearm [unfolded Let_def, folded drop_bag_def]
lemmas finish_drop = finish_idle [unfolded Let_def, folded drop_bag_def]
lemmas finish_extra_drop = finish_extra_idle [unfolded Let_def, folded drop_bag_def]

lemma busy_rearm:
  assumes "db_busy n b i w" and "dr_alloc r" and "wf_live st"
  shows "db_inv (drop_bag n (wait_for_status True r st (bg_L b) (DdObj i) (bg_cont b) (bg_extra b) w))"
  using busyD [OF assms(1)] assms(2,3) by (intro rearm_drop)

lemma busy_finish:
  assumes "db_busy n b i w" and "bg_extra b = None"
  shows "db_inv (drop_bag n (finish i (bg_L b) vs w))"
proof -
  note d = busyD [OF assms(1)]
  from d(1) assms(2) have "core w None" by simp
  then show ?thesis using d(2,9,4,3) by (rule finish_drop)
qed

lemma busy_finish_extra:
  assumes "db_busy n b i w" and "bg_extra b = Some i"
  shows "db_inv (drop_bag n (unref_extra b (finish i (bg_L b) vs w)))"
proof -
  note d = busyD [OF assms(1)]
  from d(1) assms(2) have "core w (Some i)" by simp
  then show ?thesis using d(2,9,4,3) assms(2) by (rule finish_extra_drop)
qed

lemma conn_op_inv:
  assumes "db_busy n b ObConn w" "bg_extra b = None" "reply_ok r"
  shows "db_inv (drop_bag n (conn_op_cont look r b w))"
  using assms busy_rearm [OF assms(1), of r "dr_status r"] by (auto simp: conn_op_cont_def reply_ok_def intro!: busy_finish)

lemma db_connect_inv:
  assumes "db_busy n b ObConn w" "bg_extra b = Some ObConn" "bg_cont b = CtConnect" "reply_ok r"
  shows "db_inv (drop_bag n (real_connect_cont r b w))"
  using assms busy_rearm [OF assms(1), of r "dr_status r"] by (auto simp: real_connect_cont_def reply_ok_def intro!: busy_finish_extra)

lemma close_inv:
  assumes "db_busy n b ObConn w" "bg_extra b = None" "bg_cont b = CtClose" "reply_ok r"
  shows "db_inv (drop_bag n (conn_close_cont r b w))"
  using assms busy_rearm [OF assms(1), of r "dr_status r"] by (auto simp: conn_close_cont_def reply_ok_def intro!: busy_finish)

lemma query_inv:
  assumes b: "db_busy n b ObConn w" "bg_extra b = None" "bg_cont b = CtQuery" "reply_ok r"
  shows "db_inv (drop_bag n (real_query_cont r b w))"
proof -
  note d = busyD [OF b(1)]
  obtain vs v where v: "real_query_result r w = (vs, v)" by force
  have c: "core w None" using d(1) b(2) by simp
  have g: "grows w v" using query_result_grows [OF c, of r] v by simp
  have "db_inv (drop_bag n (finish ObConn (bg_L b) vs v))"
    using grows_keeps [OF g] c d by (intro finish_drop) auto
  with b v busy_rearm [OF b(1), of r "dr_status r"] show ?thesis
    by (auto simp: real_query_cont_def reply_ok_def intro!: busy_finish)
qed

lemma prepare_inv:
  assumes "db_busy n b (ObStmt k) w" "bg_extra b = Some (ObStmt k)" "bg_cont b = CtPrepare" "reply_ok r"
  shows "db_inv (drop_bag n (stmt_prepare_cont r b w))"
  using assms busyD(7) [OF assms(1)] busy_rearm [OF assms(1), of r "dr_status r"]
  by (auto simp: stmt_prepare_cont_def reply_ok_def intro!: busy_finish_extra)

lemma stmt_ctx: "core w E \<Longrightarrow> ob_ctx (dw_objs w (ObStmt k))"
  by (simp add: core_def)

lemma stmt_op_inv:
  assumes "db_busy n b (ObStmt k) w" "bg_extra b = None" "reply_ok r"
  shows "db_inv (drop_bag n (stmt_op_cont r b w))"
  using assms busyD(7) [OF assms(1)] stmt_ctx [OF busyD(1) [OF assms(1)]] busy_rearm [OF assms(1), of r "dr_status r"]
  by (auto simp: stmt_op_cont_def reply_ok_def intro!: busy_finish)

lemma stmt_close_inv:
  assumes b: "db_busy n b (ObStmt k) w" "bg_extra b = None" "bg_cont b = CtStmtClose" "reply_ok r"
  shows "db_inv (drop_bag n (stmt_close_cont r b w))"
proof -
  note d = busyD [OF b(1)]
  have k: "k < dw_next w" "ob_table (dw_objs w (ObStmt k))" using d(8) b(3) by (auto simp: bag_ok_def id_ok_def)
  have c: "core w None" using d(1) b(2) by simp
  note t = drop_table_core [OF c k]
  have "db_inv (drop_bag n (finish (ObStmt k) (bg_L b) vs (drop_table k w)))" for vs
    using t d by (intro finish_drop) auto
  with b d(7) stmt_ctx [OF d(1)] busy_rearm [OF b(1), of r "dr_status r"] show ?thesis
    by (auto simp: stmt_close_cont_def reply_ok_def)
qed

lemma free_inv:
  assumes b: "db_busy n b (ObCur c) w" "bg_extra b = None" "reply_ok r" "\<not> wf_any (dr_status r)"
  shows "db_inv (drop_bag n (free_result_cont r b w))"
  using b busyD(7) [OF b(1)] by (auto simp: free_result_cont_def intro!: busy_finish)

lemma fetch_inv:
  assumes b: "db_busy n b (ObCur c) w" "bg_extra b = None" "bg_cont b = CtFetchRow" "reply_ok r"
  shows "db_inv (drop_bag n (fetch_row_cont r b w))"
proof -
  note d = busyD [OF b(1)]
  have c: "core w None" "c < dw_next w" "\<not> ob_closed (dw_objs w (ObCur c))" using d(1,8) b(2,3) by (auto simp: bag_ok_def id_ok_def)
  then have x: "ob_ctx (dw_objs w (ObCur c))" by (auto simp: core_def)
  note f = freed_core [OF c(1,2)]
  have free: "db_inv (drop_bag n (finish (ObCur c) (bg_L b) vs (freed c w)))" for vs using f d by (intro finish_drop) auto
  have wait: "db_inv (drop_bag n (wait_for_status True r (dr_free r) (bg_L b) (DdObj (ObCur c)) CtFreeResult None (freed c w)))" if "wf_any (dr_free r)"
    using f d c(2) b(4) that by (intro rearm_drop) (auto simp: reply_ok_def bag_ok_def id_ok_def)
  have row: "db_inv (drop_bag n (finish (ObCur c) (bg_L b) vs (if ob_colinfo (dw_objs w (ObCur c)) then w else create_colinfo c w)))" for vs
    using colinfo_core [OF c(1,2)] c(1) d by (intro finish_drop) auto
  show ?thesis
    using b d(7) x free wait row busy_rearm [OF b(1), of r "dr_status r"]
    by (auto simp: fetch_row_cont_def fetch_row_result_def free_result_start_eq reply_ok_def)
qed

lemma call_cont_inv:
  assumes b: "db_busy n b i w" and r: "reply_ok r" "bg_cont b = CtFreeResult \<longrightarrow> \<not> wf_any (dr_status r)"
  shows "db_inv (drop_bag n (call_cont r b w))"
proof -
  note k = busyD(8) [OF b]
  show ?thesis
  proof (cases "bg_cont b")
    case CtConnect
    with k b r show ?thesis by (auto simp: call_cont_def bag_ok_def intro!: db_connect_inv)
  next
    case CtClose
    with k b r show ?thesis by (auto simp: call_cont_def bag_ok_def intro!: close_inv)
  next
    case CtQuery
    with k b r show ?thesis by (auto simp: call_cont_def bag_ok_def intro!: query_inv)
  next
    case CtPrepare
    with k b r show ?thesis by (auto simp: call_cont_def bag_ok_def intro!: prepare_inv)
  next
    case CtStmtClose
    with k b r show ?thesis by (auto simp: call_cont_def bag_ok_def intro!: stmt_close_inv)
  next
    case CtFetchRow
    with k b r show ?thesis by (auto simp: call_cont_def bag_ok_def intro!: fetch_inv)
  next
    case CtFreeResult
    with k b r show ?thesis by (auto simp: call_cont_def bag_ok_def intro!: free_inv)
  qed (use k b r in \<open>auto simp: call_cont_def bag_ok_def conn_ping_event_def conn_commit_event_def conn_rollback_event_def conn_autocommit_event_def
      set_character_set_cont_def stmt_execute_cont_def stmt_fetch_cont_def stmt_store_result_cont_def stmt_send_long_data_event_def
      intro!: conn_op_inv stmt_op_inv\<close>)
qed

lemma fire_inv:
  assumes "db_inv w" and "db_allowed (DbFire n r) w"
  shows "db_inv (db_fire n r w)"
proof (cases "map_of (dw_bags w) n")
  case None
  with assms show ?thesis by (simp add: db_fire_def)
next
  case (Some b)
  with assms(1) obtain i where i: "db_busy n b i w" by (auto simp: db_inv_def db_idle_def db_busy_def split: if_splits)
  then have "wf_live (bg_status b)" by (simp add: db_busy_def)
  then have "db_fire n r w = drop_bag n (call_cont r b w)" using Some by (simp add: db_fire_def wf_live_def drop_bag_def Let_def)
  with call_cont_inv [OF i, of r] assms(2) Some show ?thesis by (simp add: db_allowed_def)
qed

subsection \<open>Calls\<close>

text \<open>A call that finds nothing going on.\<close>

lemma idleD:
  assumes "db_idle w"
  shows "core w None" "unanchored w" "dw_bags w = []" "dw_waiting w = []"
  using assms by (auto simp: db_idle_def)

lemma idle_inv: "db_idle w \<Longrightarrow> db_inv w"
  by (simp add: db_inv_def)

lemma idle_wait:
  assumes "db_idle w" "\<not> ob_closed (dw_objs w ObConn)" "reply_ok r" "wf_any (dr_status r)" "bag_ok cb i None w"
  shows "db_inv (snd (db_yield co (wait_for_status True r (dr_status r) co (DdObj i) cb None (REF_CO i co w))))"
  using idleD [OF assms(1)] assms(2-5) by (intro start_waiting) (auto simp: reply_ok_def)

lemma conn_op_start_inv:
  assumes "db_idle w" "reply_ok r" "cb \<in> {CtPing, CtCommit, CtRollback, CtAutocommit, CtSetCharset}"
  shows "db_inv (snd (conn_op_start cb r co w))"
  using assms idle_inv [OF assms(1)] by (auto simp: conn_op_start_def bag_ok_def id_ok_def intro!: idle_wait)

lemma close_start_inv:
  assumes "db_idle w" "\<not> wf_any (dr_status r)"
  shows "db_inv (snd (conn_close_start r co w))"
  using assms by (auto simp: conn_close_start_def Let_def db_inv_def db_idle_def core_def db_slots_def unanchored_def split: db_slot.split)

lemma query_start_inv:
  assumes "db_idle w" "reply_ok r"
  shows "db_inv (snd (real_query_start r co w))"
proof -
  note d = idleD [OF assms(1)]
  obtain vs v where v: "real_query_result r w = (vs, v)" by force
  then have "db_idle v" using grows_keeps [OF query_result_grows [OF d(1), of r]] d by (simp add: db_idle_def)
  with assms v show ?thesis by (auto simp: real_query_start_def bag_ok_def id_ok_def idle_inv intro!: idle_wait)
qed

lemma prepare_start_inv:
  assumes "db_idle w" "reply_ok r"
  shows "db_inv (snd (stmt_prepare_start r co w))"
proof -
  note d = idleD [OF assms(1)]
  let ?n = "dw_next w"
  define v where "v = db_ref (SlTable ?n) ((upd_obj (ObStmt ?n) (\<lambda>_. new_obj\<lparr>ob_table := True\<rparr>) w)\<lparr>dw_next := ?n + 1\<rparr>)"
  have fresh: "dw_objs w (ObStmt ?n) = new_obj" using d(1) by (simp add: core_def)
  have v: "db_idle v" "ob_closed (dw_objs v ObConn) = ob_closed (dw_objs w ObConn)" "id_ok (ObStmt ?n) v"
    using d fresh by (auto simp: v_def db_idle_def db_ref_def core_def db_slots_def unanchored_def new_obj_def id_ok_def split: db_slot.split)
  let ?x = "db_ref (SlExtra (ObStmt ?n)) v"
  have x: "core ?x (Some (ObStmt ?n))" "unanchored ?x" "dw_bags ?x = []" "dw_waiting ?x = []" "ob_closed (dw_objs ?x ObConn) = ob_closed (dw_objs w ObConn)"
    using idleD [OF v(1)] v(2) by (auto simp: db_ref_def core_def db_slots_def unanchored_def split: db_slot.split)
  have "db_inv (snd (db_yield co (wait_for_status True r (dr_status r) co (DdObj (ObStmt ?n)) CtPrepare (Some (ObStmt ?n)) (REF_CO (ObStmt ?n) co ?x))))"
    if "wf_any (dr_status r)" "\<not> ob_closed (dw_objs w ObConn)"
    using x v(3) that assms(2) by (intro start_waiting) (auto simp: reply_ok_def bag_ok_def db_ref_def id_ok_def)
  with v(1) assms show ?thesis unfolding stmt_prepare_start_def Let_def v_def [symmetric] by (auto simp: idle_inv)
qed

lemma stmt_op_start_inv:
  assumes "db_idle w" "reply_ok r" "k < dw_next w" "cb \<in> {CtExecute, CtStmtFetch, CtStoreResult, CtSendLongData}"
    and "wf_any (dr_status r) \<longrightarrow> \<not> ob_closed (dw_objs w ObConn)"
  shows "db_inv (snd (stmt_op_start cb no_data r k co w))"
  using assms idle_inv [OF assms(1)] stmt_ctx [OF idleD(1) [OF assms(1)], of k]
  by (auto simp: stmt_op_start_def bag_ok_def id_ok_def intro!: idle_wait)

lemma stmt_close_start_inv:
  assumes "db_idle w" "reply_ok r" "k < dw_next w" "ob_table (dw_objs w (ObStmt k))" "wf_any (dr_status r) \<longrightarrow> \<not> ob_closed (dw_objs w ObConn)"
  shows "db_inv (snd (stmt_close_start r k co w))"
proof -
  note d = idleD [OF assms(1)]
  let ?v = "upd_obj (ObStmt k) (\<lambda>b. b\<lparr>ob_closed := True\<rparr>) w"
  have v: "db_idle ?v" using d assms(3) by (auto simp: db_idle_def core_def db_slots_def unanchored_def split: db_slot.split)
  have t: "ob_table (dw_objs ?v (ObStmt k))" "ob_ctx (dw_objs ?v (ObStmt k))" using assms(4) stmt_ctx [OF d(1), of k] by simp_all
  have "db_idle (drop_table k ?v)" using drop_table_core [OF idleD(1) [OF v], of k] assms(3) t(1) idleD [OF v] by (simp add: db_idle_def)
  moreover have "db_inv (snd (db_yield co (wait_for_status True r (dr_status r) co (DdObj (ObStmt k)) CtStmtClose None (REF_CO (ObStmt k) co ?v))))"
    if "wf_any (dr_status r)"
    using v assms(2,3,5) t that by (intro idle_wait) (auto simp: bag_ok_def id_ok_def)
  ultimately show ?thesis using v t(2) by (auto simp: stmt_close_start_def Let_def idle_inv)
qed

lemma colinfo_idle:
  assumes "db_idle w" "c < dw_next w" "\<not> ob_colinfo (dw_objs w (ObCur c))"
  shows "db_idle (create_colinfo c w)"
  using colinfo_core(1,2,4,5) [OF idleD(1) [OF assms(1)] assms(2,3)] idleD [OF assms(1)] by (simp add: db_idle_def)

lemma freed_idle: "db_idle w \<Longrightarrow> c < dw_next w \<Longrightarrow> db_idle (freed c w)"
  using freed_core [of w None c] by (simp add: db_idle_def)

text \<open>Freeing a result that has to wait: the event is added before the coroutine is kept, with the same outcome.\<close>

lemma free_wait:
  assumes "db_idle w" "c < dw_next w" "reply_ok r" "wf_any (dr_free r)" "\<not> ob_closed (dw_objs w ObConn)"
  shows "db_inv (snd (db_yield co (REF_CO (ObCur c) co (wait_for_status True r (dr_free r) co (DdObj (ObCur c)) CtFreeResult None (freed c w)))))"
proof -
  note f = freed_core [OF idleD(1) [OF assms(1)] assms(2)]
  have "\<not> ob_closed (dw_objs (freed c w) ObConn)" using f(7) assms(5) by simp
  then have e: "REF_CO (ObCur c) co (wait_for_status True r (dr_free r) co (DdObj (ObCur c)) CtFreeResult None (freed c w))
      = wait_for_status True r (dr_free r) co (DdObj (ObCur c)) CtFreeResult None (REF_CO (ObCur c) co (freed c w))"
    using assms(3) by (simp add: wait_for_status_def reply_ok_def REF_CO_def db_ref_def upd_obj_def)
  show ?thesis unfolding e
    using freed_idle [OF assms(1,2)] f assms by (intro start_waiting) (auto simp: db_idle_def reply_ok_def bag_ok_def id_ok_def)
qed

lemma fetch_start_inv:
  assumes "db_idle w" "reply_ok r" "c < dw_next w" "wf_any (dr_status r) \<or> wf_any (dr_free r) \<longrightarrow> \<not> ob_closed (dw_objs w ObConn)"
  shows "db_inv (snd (fetch_row_start r c co w))" and "db_inv (snd (cur_close r c co w))"
proof -
  note d = idleD [OF assms(1)]
  have x: "ob_ctx (dw_objs w (ObCur c))" if "\<not> ob_closed (dw_objs w (ObCur c))" using d(1) that by (auto simp: core_def)
  have row: "db_idle (if ob_colinfo (dw_objs w (ObCur c)) then w else create_colinfo c w)"
    using colinfo_core [OF d(1) assms(3)] assms(1) d by (auto simp: db_idle_def)
  have fr: "db_idle (freed c w)" using freed_idle assms(1,3) by blast
  have "bag_ok CtFetchRow (ObCur c) None w" if "\<not> ob_closed (dw_objs w (ObCur c))" using assms(3) that by (auto simp: bag_ok_def id_ok_def)
  then have wait: "db_inv (snd (db_yield co (wait_for_status True r (dr_status r) co (DdObj (ObCur c)) CtFetchRow None (REF_CO (ObCur c) co w))))"
    if "wf_any (dr_status r)" "\<not> ob_closed (dw_objs w (ObCur c))" using assms that by (intro idle_wait) auto
  note fw = free_wait [OF assms(1,3,2)]
  show "db_inv (snd (fetch_row_start r c co w))"
    using wait x row fr fw assms idle_inv
    by (auto simp: fetch_row_start_def fetch_row_result_def free_result_start_eq)
  show "db_inv (snd (cur_close r c co w))"
    using x fr fw assms idle_inv by (auto simp: cur_close_def free_result_start_eq)
qed

lemma db_call_inv:
  assumes "db_inv w" and a: "db_allowed (DbCall op r co) w"
  shows "db_inv (snd (db_call op r co w))"
proof -
  have i: "db_idle w" using assms by (auto simp: db_inv_def db_busy_def db_allowed_def)
  note al = a [unfolded db_allowed_def, simplified]
  show ?thesis
  proof (cases op)
    case OpClose
    with i al show ?thesis by (simp add: db_call_def close_start_inv)
  next
    case OpQuery
    with i al show ?thesis by (simp add: db_call_def query_start_inv)
  next
    case OpPrepare
    with i al show ?thesis by (simp add: db_call_def prepare_start_inv)
  next
    case (OpFetchRow c)
    with i al fetch_start_inv [OF i, of r c co] show ?thesis by (auto simp: db_call_def op_exists_def)
  next
    case (OpCurClose c)
    with i al fetch_start_inv [OF i, of r c co] show ?thesis by (auto simp: db_call_def op_exists_def)
  next
    case (OpColnames c)
    with i al colinfo_idle [OF i, of c] show ?thesis by (auto simp: db_call_def cur_getcolnames_def op_exists_def idle_inv)
  next
    case (OpStClose k)
    with i al stmt_close_start_inv [OF i, of r k co] show ?thesis by (auto simp: db_call_def st_close_def op_exists_def idle_inv)
  next
    case (OpStExecute k)
    with i al stmt_op_start_inv [OF i, of r k CtExecute False co] show ?thesis by (auto simp: db_call_def op_exists_def stmt_execute_start_def)
  next
    case (OpStFetch k)
    with i al stmt_op_start_inv [OF i, of r k CtStmtFetch "dr_ret r = MYSQL_NO_DATA" co] show ?thesis by (auto simp: db_call_def op_exists_def stmt_fetch_start_def)
  next
    case (OpStStore k)
    with i al stmt_op_start_inv [OF i, of r k CtStoreResult False co] show ?thesis by (auto simp: db_call_def op_exists_def stmt_store_result_start_def)
  next
    case (OpStSend k)
    with i al stmt_op_start_inv [OF i, of r k CtSendLongData False co] show ?thesis by (auto simp: db_call_def op_exists_def st_send_long_data_def)
  qed (use i al in \<open>auto simp: db_call_def conn_ping_start_def conn_commit_start_def conn_rollback_start_def conn_autocommit_start_def set_character_set_start_def
      intro!: conn_op_start_inv\<close>)
qed

lemma start_db_idle: "db_idle db_start"
  by (auto simp: db_idle_def db_start_def core_def db_slots_def unanchored_def new_obj_def split: db_slot.split)

lemma connect_start_inv:
  assumes "reply_ok r"
  shows "db_inv (snd (real_connect_start r co db_start))"
proof -
  let ?x = "db_ref (SlExtra ObConn) db_start"
  have "core ?x (Some ObConn)" "unanchored ?x" "dw_bags ?x = []" "dw_waiting ?x = []" "\<not> ob_closed (dw_objs ?x ObConn)"
    using idleD [OF start_db_idle] by (auto simp: db_ref_def core_def db_slots_def unanchored_def db_start_def new_obj_def split: db_slot.split)
  then have "db_inv (snd (db_yield co (wait_for_status True r (dr_status r) co (DdObj ObConn) CtConnect (Some ObConn) (REF_CO ObConn co ?x))))"
    if "wf_any (dr_status r)" using that assms by (intro start_waiting) (auto simp: reply_ok_def bag_ok_def id_ok_def)
  with start_db_idle show ?thesis by (auto simp: real_connect_start_def idle_inv)
qed

lemma db_reaches_inv: "db_reaches w \<Longrightarrow> db_inv w"
proof (induction rule: db_reaches.induct)
  case (db_goes w x)
  then show ?case by (cases x) (simp_all add: db_step_def db_call_inv fire_inv)
qed (rule connect_start_inv)

section \<open>Completion\<close>

lemma log_frames [simp]:
  "dw_log (db_unref s w) = dw_log w" "dw_log (unref_extra b w) = dw_log w" "dw_log (create_colinfo c w) = dw_log w" "dw_log (freed c w) = dw_log w"
  "dw_log (drop_table k w) = dw_log w" "dw_log (finish i co vs w) = dw_log w @ [(co, vs)]"
  by (simp_all add: db_unref_def unref_extra_def create_colinfo_def db_ref_def freed_def drop_table_def finish_def db_resume_def split: option.split)

lemma bag_frames [simp]:
  "dw_bags (db_unref s w) = dw_bags w" "dw_bags (unref_extra b w) = dw_bags w" "dw_bags (create_colinfo c w) = dw_bags w" "dw_bags (freed c w) = dw_bags w"
  "dw_bags (drop_table k w) = dw_bags w" "dw_bags (finish i co vs w) = dw_bags w"
  by (simp_all add: db_unref_def unref_extra_def create_colinfo_def db_ref_def freed_def drop_table_def finish_def db_resume_def split: option.split)

text \<open>When the library has finished, every function of an event resumes its coroutine, once.\<close>

lemma cont_completes:
  assumes b: "db_busy n b i w" and r: "\<not> wf_any (dr_status r)" "\<not> wf_any (dr_free r)"
  shows "\<exists>vs. dw_log (call_cont r b w) = dw_log w @ [(bg_L b, vs)] \<and> dw_bags (call_cont r b w) = dw_bags w"
proof -
  note d = busyD [OF b]
  note k = d(8) [unfolded bag_ok_def]
  show ?thesis
  proof (cases "bg_cont b")
    case CtQuery
    obtain vs v where v: "real_query_result r w = (vs, v)" by force
    have "grows w v" using query_result_grows [OF d(1), of r] v by simp
    with CtQuery r v grows_keeps(5,9) [of w v] show ?thesis by (auto simp: call_cont_def real_query_cont_def)
  next
    case CtFetchRow
    with k d(7) r show ?thesis
      by (auto simp: call_cont_def fetch_row_cont_def fetch_row_result_def free_result_start_eq)
  next
    case CtFreeResult
    with k d(7) r show ?thesis by (auto simp: call_cont_def free_result_cont_def)
  next
    case CtStmtClose
    with k d(7) r show ?thesis by (auto simp: call_cont_def stmt_close_cont_def)
  qed (use k d(7) r in \<open>auto simp: call_cont_def conn_op_cont_def real_connect_cont_def conn_close_cont_def stmt_prepare_cont_def stmt_op_cont_def conn_ping_event_def
      conn_commit_event_def conn_rollback_event_def conn_autocommit_event_def set_character_set_cont_def stmt_execute_cont_def stmt_fetch_cont_def
      stmt_store_result_cont_def stmt_send_long_data_event_def\<close>)
qed

section \<open>Properties\<close>

text \<open>
  (C35) Waiting for the database, in orderly use. In every state nothing is going on, with nothing of it left in the registry, or exactly one coroutine waits: it has one event, which will
  fire, and it is kept in the registry by the object it works on, so that it cannot be collected. Whenever that event fires and the
  library has finished, that coroutine and no other is resumed, once, and nothing is going on any more.
\<close>

theorem mariadb_orderly:
  assumes "db_reaches w"
  shows "\<not> dw_bad w \<and> length (dw_bags w) \<le> 1 \<and> dw_waiting w = map (\<lambda>(n, b). bg_L b) (dw_bags w)
    \<and> (dw_bags w = [] \<longrightarrow> (\<forall>i. SlCoref i \<notin># dw_registry w \<and> SlExtra i \<notin># dw_registry w))
    \<and> (\<forall>n b. dw_bags w = [(n, b)] \<longrightarrow>
         wf_live (bg_status b) \<and> (\<exists>i. bg_data b = DdObj i \<and> ob_coref (dw_objs w i) = Some (bg_L b) \<and> SlCoref i \<in># dw_registry w)
         \<and> (\<forall>r. reply_ok r \<longrightarrow> \<not> wf_any (dr_status r) \<longrightarrow> \<not> wf_any (dr_free r) \<longrightarrow>
              (\<exists>vs. dw_log (db_fire n r w) = dw_log w @ [(bg_L b, vs)]) \<and> dw_bags (db_fire n r w) = [] \<and> dw_waiting (db_fire n r w) = []))"
proof -
  have inv: "db_inv w" using assms by (rule db_reaches_inv)
  then consider "db_idle w" | n b i where "db_busy n b i w" by (auto simp: db_inv_def)
  then show ?thesis
  proof cases
    case 1
    then have "count (dw_registry w) (SlCoref i) = 0" "count (dw_registry w) (SlExtra i) = 0" for i
      by (auto simp: db_idle_def core_def db_slots_def unanchored_def)
    with 1 show ?thesis by (simp add: db_idle_def core_def not_in_iff)
  next
    case (2 n b i)
    note d = busyD [OF 2]
    have "count (dw_registry w) (SlCoref i) = 1" using d(1,2) by (simp add: core_def db_slots_def anchored_def)
    then have reg: "SlCoref i \<in># dw_registry w" by (metis count_inI zero_neq_one)
    have live: "wf_live (bg_status b)" using 2 by (simp add: db_busy_def)
    have fire: "(\<exists>vs. dw_log (db_fire n r w) = dw_log w @ [(bg_L b, vs)]) \<and> dw_bags (db_fire n r w) = [] \<and> dw_waiting (db_fire n r w) = []"
      if r: "reply_ok r" "\<not> wf_any (dr_status r)" "\<not> wf_any (dr_free r)" for r
    proof -
      obtain vs where vs: "dw_log (call_cont r b w) = dw_log w @ [(bg_L b, vs)]" "dw_bags (call_cont r b w) = dw_bags w"
        using cont_completes [OF 2 r(2,3)] by blast
      have f: "db_fire n r w = drop_bag n (call_cont r b w)" using d(3) live by (simp add: db_fire_def wf_live_def drop_bag_def Let_def)
      then have "dw_bags (db_fire n r w) = []" using vs(2) d(3) by (simp add: drop_bag_def)
      moreover have "db_inv (db_fire n r w)" unfolding f using r by (intro call_cont_inv [OF 2]) auto
      ultimately have "db_idle (db_fire n r w)" by (auto simp: db_inv_def db_busy_def)
      then show ?thesis using f vs(1) by (simp add: db_idle_def drop_bag_def)
    qed
    have "\<not> dw_bad w" using d(1) by (simp add: core_def)
    with d reg live fire show ?thesis by (auto simp: anchored_def)
  qed
qed

definition sample_reply :: db_reply where
  "sample_reply = \<lparr>dr_before = None, dr_after = None, dr_status = wf_none, dr_ret = 0, dr_row = False, dr_first = RsRows, dr_more = [], dr_free = wf_none,
     dr_values = [], dr_stmt_error = [], dr_alloc = True\<rparr>"

definition waiting_reply :: db_reply where
  "waiting_reply = sample_reply\<lparr>dr_status := wf_none\<lparr>wf_read := True\<rparr>\<rparr>"

lemma sample_replies: "reply_ok sample_reply" "reply_ok waiting_reply" "\<not> wf_any (dr_status sample_reply)" "\<not> wf_any (dr_free sample_reply)"
  "wf_any (dr_status waiting_reply)"
  by (simp_all add: reply_ok_def sample_reply_def waiting_reply_def wf_any_def wf_live_def wf_none_def)

definition querying :: db_world where
  "querying = db_step (DbCall OpQuery waiting_reply 7) (snd (real_connect_start sample_reply 7 db_start))"

lemma querying_reaches: "db_reaches querying"
proof -
  have "db_allowed (DbCall OpQuery waiting_reply 7) (snd (real_connect_start sample_reply 7 db_start))"
    using sample_replies by (simp add: db_allowed_def op_exists_def real_connect_start_def) (simp add: db_start_def sample_reply_def new_obj_def)
  then show ?thesis unfolding querying_def using sample_replies by (intro db_goes db_connects)
qed

theorem mariadb_orderly_witness:
  "db_reaches querying \<and> dw_waiting querying = [7] \<and> (\<exists>vs. dw_log (db_fire 1 sample_reply querying) = [(7, vs)])"
proof -
  have q: "map fst (dw_bags querying) = [1] \<and> dw_waiting querying = [7] \<and> dw_log querying = []"
    using sample_replies
    by (simp add: querying_def db_step_def db_call_def real_query_start_def real_connect_start_def db_yield_def wait_for_status_def REF_CO_def db_ref_def upd_obj_def)
      (simp add: db_start_def sample_reply_def waiting_reply_def new_obj_def)
  then obtain b where b: "dw_bags querying = [(1, b)]" by (cases "dw_bags querying") auto
  with mariadb_orderly [OF querying_reaches] q have "bg_L b = 7" by auto
  with mariadb_orderly [OF querying_reaches] sample_replies b q querying_reaches show ?thesis by auto
qed

text \<open>On a connection that is closed nothing waits and nothing is resumed any more.\<close>

definition stuck :: "db_world \<Rightarrow> bool" where
  "stuck w \<longleftrightarrow> ob_closed (dw_objs w ObConn) \<and> dw_bags w = []"

lemma stuck_wait: "stuck w \<Longrightarrow> wait_for_status h r st co data cb E w = w"
  by (simp add: stuck_def wait_for_status_def)

lemma stuck_frames [simp]:
  "stuck (REF_CO i co w) = stuck w" "stuck (freed c w) = stuck w" "stuck (create_colinfo c w) = stuck w" "stuck (drop_table k w) = stuck w"
  by (auto simp: stuck_def freed_def create_colinfo_def drop_table_def db_unref_def db_ref_def)

lemma waiting_frames [simp]:
  "dw_waiting (freed c w) = dw_waiting w" "dw_waiting (create_colinfo c w) = dw_waiting w" "dw_waiting (drop_table k w) = dw_waiting w"
  by (simp_all add: freed_def create_colinfo_def drop_table_def db_unref_def db_ref_def)

lemma stuck_step:
  assumes "stuck w"
  shows "stuck (db_step x w) \<and> dw_log (db_step x w) = dw_log w \<and> set (dw_waiting w) \<subseteq> set (dw_waiting (db_step x w))"
proof (cases x)
  case (DbFire n r)
  with assms show ?thesis by (simp add: db_step_def db_fire_def stuck_def)
next
  case (DbCall op r co)
  have yld: "stuck (w\<lparr>dw_waiting := ws\<rparr>) = stuck w" for w :: db_world and ws by (simp add: stuck_def)
  have cl: "ob_closed (dw_objs w ObConn)" using assms by (simp add: stuck_def)
  have st: "stuck (upd_obj (ObStmt k) f w)" for k f using assms by (simp add: stuck_def)
  show ?thesis using assms cl st
    by (cases op) (auto simp: DbCall db_step_def db_call_def conn_close_start_def conn_ping_start_def real_query_start_def set_character_set_start_def stmt_prepare_start_def
      conn_commit_start_def conn_rollback_start_def conn_autocommit_start_def conn_op_start_def fetch_row_start_def fetch_row_result_def free_result_start_eq cur_close_def
      cur_getcolnames_def stmt_execute_start_def stmt_fetch_start_def stmt_store_result_start_def st_send_long_data_def stmt_op_start_def st_close_def
      stmt_close_start_def db_yield_def stuck_wait yld Let_def)
qed

text \<open>
  (C36) Closing a connection when the library has to wait for it never returns: the flag that refuses new events is set before the event for
  the close itself is added. Whatever happens later, the coroutine that called \<open>close\<close> is never resumed, and no other is.
\<close>

theorem mariadb_close_hangs:
  assumes "db_reaches w" and "dw_bags w = []" and "\<not> ob_closed (dw_objs w ObConn)" and "wf_any (dr_status r)"
  shows "co \<in> set (dw_waiting (fold db_step evs (db_step (DbCall OpClose r co) w))) \<and> dw_log (fold db_step evs (db_step (DbCall OpClose r co) w)) = dw_log w"
proof -
  let ?v = "db_step (DbCall OpClose r co) w"
  have v: "stuck ?v" "co \<in> set (dw_waiting ?v)" "dw_log ?v = dw_log w"
    using assms by (auto simp: db_step_def db_call_def conn_close_start_def db_yield_def wait_for_status_def stuck_def Let_def)
  have keeps: "stuck u \<Longrightarrow> dw_log (fold db_step evs u) = dw_log u \<and> set (dw_waiting u) \<subseteq> set (dw_waiting (fold db_step evs u))" for u
  proof (induction evs arbitrary: u)
    case (Cons x evs)
    with stuck_step [of u x] show ?case by fastforce
  qed simp
  show ?thesis using keeps [OF v(1)] v by auto
qed

theorem mariadb_close_hangs_witness:
  "7 \<in> set (dw_waiting (fold db_step [DbFire 1 sample_reply, DbFire 2 sample_reply] (db_step (DbCall OpClose waiting_reply 7) (snd (real_connect_start sample_reply 7 db_start)))))"
proof -
  let ?w = "snd (real_connect_start sample_reply 7 db_start)"
  have "db_reaches ?w" using sample_replies by (intro db_connects)
  moreover have "dw_bags ?w = []" "\<not> ob_closed (dw_objs ?w ObConn)"
    using sample_replies by (simp_all add: real_connect_start_def) (simp_all add: sample_reply_def db_start_def new_obj_def)
  ultimately show ?thesis using mariadb_close_hangs sample_replies(5) by blast
qed

text \<open>
  Other ways out of orderly use: two coroutines that use one object at the same time, of which only the first is kept in the registry; and a result
  that has to be waited for twice, whose event then takes the result for a cursor.
\<close>

lemma second_coroutine_unanchored:
  assumes "ob_coref (dw_objs w i) = Some co"
  shows "ob_coref (dw_objs (REF_CO i co' w) i) = Some co \<and> dw_registry (REF_CO i co' w) = dw_registry w"
  using assms by (simp add: REF_CO_def)

lemma free_twice_confused:
  assumes "bg_data b = DdObj (ObCur c)" and "wf_any (dr_status r)" and "dr_alloc r" and "\<not> ob_closed (dw_objs w ObConn)"
  shows "map (bg_data \<circ> snd) (dw_bags (free_result_cont r b w)) = map (bg_data \<circ> snd) (dw_bags w) @ [DdResult c]
    \<and> dw_bad (free_result_cont r' (b\<lparr>bg_data := DdResult c\<rparr>) v)"
  using assms by (simp add: free_result_cont_def wait_for_status_def)

text \<open>Freeing the result behind the last row may have to wait; then \<open>fetch\<close> returns true instead of nil.\<close>

lemma fetch_end_returns_true:
  assumes "bg_data b = DdObj (ObCur c)" and "\<not> wf_any (dr_status r)"
  shows "dw_log (free_result_cont r b w) = dw_log w @ [(bg_L b, [DvBool True])]"
  using assms by (simp add: free_result_cont_def)

text \<open>A statement whose close fails at once keeps its table in the registry.\<close>

lemma stmt_close_failure_leaks:
  assumes "\<not> wf_any (dr_status r)" and "dr_ret r \<noteq> 0"
  shows "dw_registry (snd (stmt_close_start r n co w)) = dw_registry w \<and> ob_closed (dw_objs (snd (stmt_close_start r n co w)) (ObStmt n))"
  using assms by (simp add: stmt_close_start_def)

end
