(* ===== verification/Mariadb_Values.thy ===== *)
theory Mariadb_Values
  imports Fan_Text
begin

text \<open>
  The values of the MariaDB binding: the columns of a row that a cursor delivers as text, the parameters of a prepared statement and the buffers
  for its results (\<open>luamariadb_cursor.c\<close>, \<open>luamariadb_stmt.c\<close>, \<open>luamariadb_stmt_execute.c\<close>, \<open>luamariadb_stmt_fetch.c\<close>). What the client library writes
  into the buffers is a parameter, and so are the size and the layout of its \<open>MYSQL_TIME\<close>.
\<close>

section \<open>Values and column types\<close>

datatype enum_field_types =
    MYSQL_TYPE_DECIMAL | MYSQL_TYPE_TINY | MYSQL_TYPE_SHORT | MYSQL_TYPE_LONG | MYSQL_TYPE_FLOAT | MYSQL_TYPE_DOUBLE | MYSQL_TYPE_NULL | MYSQL_TYPE_TIMESTAMP
  | MYSQL_TYPE_LONGLONG | MYSQL_TYPE_INT24 | MYSQL_TYPE_DATE | MYSQL_TYPE_TIME | MYSQL_TYPE_DATETIME | MYSQL_TYPE_YEAR | MYSQL_TYPE_NEWDATE | MYSQL_TYPE_VARCHAR
  | MYSQL_TYPE_BIT | MYSQL_TYPE_NEWDECIMAL | MYSQL_TYPE_ENUM | MYSQL_TYPE_SET | MYSQL_TYPE_TINY_BLOB | MYSQL_TYPE_MEDIUM_BLOB | MYSQL_TYPE_LONG_BLOB
  | MYSQL_TYPE_BLOB | MYSQL_TYPE_VAR_STRING | MYSQL_TYPE_STRING | MYSQL_TYPE_GEOMETRY

record mysql_time =
  mt_year :: nat
  mt_month :: nat
  mt_day :: nat
  mt_hour :: nat
  mt_minute :: nat
  mt_second :: nat
  mt_second_part :: nat
  mt_neg :: bool
  mt_time_type :: int

text \<open>The value of a column in Lua; a time is the list of the fields of its table. \<open>CvUndefined\<close> is a read behind the end of a buffer.\<close>

datatype col_value = CvNil | CvInt int | CvNum u64 | CvText bytes | CvTime "(string \<times> nat) list" | CvUndefined

section \<open>Cursors\<close>

text \<open>\<open>strtoll\<close> with base 10: blanks and a sign are accepted, what is no number is 0, and what does not fit is the nearest value that does.\<close>

definition strtoll10 :: "bytes \<Rightarrow> int" where
  "strtoll10 bs =
     (let s = dropWhile c_isspace (c_string bs);
          neg = (s \<noteq> [] \<and> hd s = 0x2d);
          s = (if s \<noteq> [] \<and> (hd s = 0x2d \<or> hd s = 0x2b) then tl s else s);
          n = int (digits_val 10 (takeWhile is_digit s))
      in if neg then max (- (2 ^ 63)) (- n) else min (2 ^ 63 - 1) n)"

definition pushvalue :: "bytes option \<Rightarrow> enum_field_types \<Rightarrow> col_value" where
  "pushvalue row field_type =
     (case row of
        None \<Rightarrow> CvNil
      | Some b \<Rightarrow>
          if field_type \<in> {MYSQL_TYPE_TINY, MYSQL_TYPE_SHORT, MYSQL_TYPE_LONG, MYSQL_TYPE_LONGLONG, MYSQL_TYPE_INT24, MYSQL_TYPE_YEAR} then CvInt (strtoll10 b)
          else if field_type \<in> {MYSQL_TYPE_FLOAT, MYSQL_TYPE_DOUBLE, MYSQL_TYPE_DECIMAL, MYSQL_TYPE_NEWDECIMAL} then CvNum (fst (strtod (c_string b)))
          else CvText b)"

definition getcolumntype :: "enum_field_types \<Rightarrow> string" where
  "getcolumntype t =
     (if t \<in> {MYSQL_TYPE_VAR_STRING, MYSQL_TYPE_STRING} then ''string''
      else if t \<in> {MYSQL_TYPE_DECIMAL, MYSQL_TYPE_SHORT, MYSQL_TYPE_LONG, MYSQL_TYPE_FLOAT, MYSQL_TYPE_DOUBLE, MYSQL_TYPE_LONGLONG, MYSQL_TYPE_INT24,
                   MYSQL_TYPE_YEAR, MYSQL_TYPE_TINY} then ''number''
      else if t \<in> {MYSQL_TYPE_TINY_BLOB, MYSQL_TYPE_MEDIUM_BLOB, MYSQL_TYPE_LONG_BLOB, MYSQL_TYPE_BLOB} then ''binary''
      else if t \<in> {MYSQL_TYPE_DATE, MYSQL_TYPE_NEWDATE} then ''date''
      else if t = MYSQL_TYPE_DATETIME then ''datetime''
      else if t = MYSQL_TYPE_TIME then ''time''
      else if t = MYSQL_TYPE_TIMESTAMP then ''timestamp''
      else if t \<in> {MYSQL_TYPE_ENUM, MYSQL_TYPE_SET} then ''set''
      else if t = MYSQL_TYPE_NULL then ''null''
      else ''undefined'')"

record mysql_field =
  fd_name :: bytes
  fd_type :: enum_field_types
  fd_length :: u64

definition ascii :: "string \<Rightarrow> bytes" where
  "ascii s = map of_char s"

text \<open>\<open>snprintf\<close> into fifty bytes, the last of which ends the string.\<close>

definition column_type_text :: "mysql_field \<Rightarrow> bytes" where
  "column_type_text f = take 49 (take 20 (ascii (getcolumntype (fd_type f))) @ ascii ''('' @ int_text (sint (fd_length f)) @ ascii '')'')"

definition colinfo_tables :: "mysql_field list \<Rightarrow> bytes list \<times> bytes list" where
  "colinfo_tables flds = (map fd_name flds, map column_type_text flds)"

text \<open>A table with string keys: setting a field to nil removes it.\<close>

definition set_col :: "bytes \<Rightarrow> col_value \<Rightarrow> (bytes \<rightharpoonup> col_value) \<Rightarrow> (bytes \<rightharpoonup> col_value)" where
  "set_col k v t = (if v = CvNil then t(k := None) else t(k \<mapsto> v))"

fun row_table :: "(bytes \<times> col_value) list \<Rightarrow> (bytes \<rightharpoonup> col_value) \<Rightarrow> (bytes \<rightharpoonup> col_value)" where
  "row_table [] t = t"
| "row_table ((k, v) # cols) t = row_table cols (set_col k v t)"

definition cursor_row :: "mysql_field list \<Rightarrow> bytes option list \<Rightarrow> (bytes \<rightharpoonup> col_value)" where
  "cursor_row flds row =
     row_table (map (\<lambda>i. (fst (colinfo_tables flds) ! i, pushvalue (row ! i) (fd_type (flds ! i)))) [0..<length flds]) Map.empty"

section \<open>Parameters of a prepared statement\<close>

text \<open>
  A buffer is a Lua string that the table of the statement keeps, or an element of the array of doubles. \<open>mb_length\<close> is the element of the same array that
  \<open>length\<close> points to, if it does.
\<close>

datatype bind_buffer = BufNull | BufString bytes | BufNum nat

record mysql_bind =
  mb_type :: enum_field_types
  mb_buffer :: bind_buffer
  mb_buffer_length :: nat
  mb_length :: "nat option"
  mb_unsigned :: bool

definition zero_bind :: mysql_bind where
  "zero_bind = \<lparr>mb_type = MYSQL_TYPE_DECIMAL, mb_buffer = BufNull, mb_buffer_length = 0, mb_length = None, mb_unsigned = False\<rparr>"

datatype bind_arg = BaString bytes | BaNumber u64 | BaBoolean bool | BaLongData | BaLight | BaNil | BaOther

text \<open>The array, the doubles, the strings that are kept, the flag, and the copy of the array that the library has.\<close>

record stmt_bind =
  sb_bind :: "mysql_bind list"
  sb_nums :: "u64 list"
  sb_kept :: "nat \<rightharpoonup> bytes"
  sb_has_bind_param :: bool
  sb_params :: "mysql_bind list option"

definition stmt_prepare_result :: "nat \<Rightarrow> stmt_bind" where
  "stmt_prepare_result param_count =
     \<lparr>sb_bind = replicate param_count zero_bind, sb_nums = replicate param_count 0, sb_kept = Map.empty, sb_has_bind_param = False, sb_params = None\<rparr>"

definition MYSQL_SET_VARSTRING :: "bind_buffer \<Rightarrow> nat \<Rightarrow> mysql_bind \<Rightarrow> mysql_bind" where
  "MYSQL_SET_VARSTRING buff n b = b\<lparr>mb_type := MYSQL_TYPE_VAR_STRING, mb_buffer := buff, mb_buffer_length := n\<rparr>"

definition MYSQL_SET_DOUBLE :: "bind_buffer \<Rightarrow> mysql_bind \<Rightarrow> mysql_bind" where
  "MYSQL_SET_DOUBLE buff b = b\<lparr>mb_type := MYSQL_TYPE_DOUBLE, mb_buffer := buff, mb_unsigned := False, mb_buffer_length := 8\<rparr>"

definition MYSQL_SET_TINYINT :: "bind_buffer \<Rightarrow> mysql_bind \<Rightarrow> mysql_bind" where
  "MYSQL_SET_TINYINT buff b = b\<lparr>mb_type := MYSQL_TYPE_TINY, mb_buffer := buff, mb_unsigned := False, mb_buffer_length := 1\<rparr>"

definition bind_one :: "nat \<Rightarrow> bind_arg \<Rightarrow> stmt_bind \<Rightarrow> stmt_bind" where
  "bind_one i a st =
     (let put = (\<lambda>f st. st\<lparr>sb_bind := (sb_bind st)[i := f (sb_bind st ! i)]\<rparr>)
      in case a of
           BaString s \<Rightarrow> put (MYSQL_SET_VARSTRING (BufString s) (length s)) (st\<lparr>sb_kept := (sb_kept st)(i + 1000 \<mapsto> s)\<rparr>)
         | BaNumber d \<Rightarrow> put (MYSQL_SET_DOUBLE (BufNum i)) (st\<lparr>sb_nums := (sb_nums st)[i := d]\<rparr>)
         | BaBoolean v \<Rightarrow> put (MYSQL_SET_TINYINT (BufNum i)) (st\<lparr>sb_nums := (sb_nums st)[i := dbl_of_nat (of_bool v)]\<rparr>)
         | BaLongData \<Rightarrow> put (\<lambda>_. zero_bind\<lparr>mb_type := MYSQL_TYPE_STRING, mb_length := Some i\<rparr>) st
         | BaLight \<Rightarrow> st
         | BaNil \<Rightarrow> put (\<lambda>b. b\<lparr>mb_type := MYSQL_TYPE_NULL\<rparr>) st
         | BaOther \<Rightarrow> st)"

fun bind_all :: "nat \<Rightarrow> bind_arg list \<Rightarrow> stmt_bind \<Rightarrow> stmt_bind" where
  "bind_all i [] st = st"
| "bind_all i (a # as) st = bind_all (Suc i) as (bind_one i a st)"

definition st_bind_any :: "bool \<Rightarrow> bind_arg list \<Rightarrow> stmt_bind \<Rightarrow> (nat \<times> nat) + stmt_bind" where
  "st_bind_any cache_bind args st =
     (let param_count = length (sb_bind st)
      in if length args \<noteq> param_count then Inl (param_count, length args)
         else
           let st = bind_all 0 args st
           in Inr (if \<not> cache_bind \<or> \<not> sb_has_bind_param st then st\<lparr>sb_params := Some (sb_bind st), sb_has_bind_param := True\<rparr> else st))"

definition st_bind_param :: "bind_arg list \<Rightarrow> stmt_bind \<Rightarrow> (nat \<times> nat) + stmt_bind" where
  "st_bind_param = st_bind_any False"

definition st_bind :: "bind_arg list \<Rightarrow> stmt_bind \<Rightarrow> (nat \<times> nat) + stmt_bind" where
  "st_bind = st_bind_any True"

text \<open>
  The bytes that an element of the array designates, as the client library documents it: the type decides the number of bytes of a number and \<open>length\<close> is ignored; for a string that number is
  what \<open>length\<close> points to, and \<open>buffer_length\<close> only if it points to nothing. None is a read behind the end of the buffer.
\<close>

definition buffer_prefix :: "u64 list \<Rightarrow> bind_buffer \<Rightarrow> nat \<Rightarrow> bytes option" where
  "buffer_prefix nums buf n =
     (let bs = (case buf of BufNull \<Rightarrow> [] | BufString s \<Rightarrow> s | BufNum i \<Rightarrow> le_bytes 8 (unat (nums ! i)))
      in if n \<le> length bs then Some (take n bs) else None)"

definition bound_bytes :: "u64 list \<Rightarrow> mysql_bind \<Rightarrow> bytes option" where
  "bound_bytes nums b =
     (if mb_type b = MYSQL_TYPE_NULL then Some []
      else buffer_prefix nums (mb_buffer b)
        (if mb_type b = MYSQL_TYPE_DOUBLE then 8
         else if mb_type b = MYSQL_TYPE_TINY then 1
         else case mb_length b of None \<Rightarrow> mb_buffer_length b | Some j \<Rightarrow> unat (nums ! j)))"

text \<open>A statement after calls of \<open>bind\<close> (True) and \<open>bind_param\<close> (False); a call with the wrong number of arguments raises an error and changes nothing.\<close>

definition bind_calls :: "(bool \<times> bind_arg list) list \<Rightarrow> stmt_bind \<Rightarrow> stmt_bind" where
  "bind_calls = fold (\<lambda>(cache_bind, args) st. case st_bind_any cache_bind args st of Inl _ \<Rightarrow> st | Inr st' \<Rightarrow> st')"

definition was_long_data :: "nat \<Rightarrow> nat \<Rightarrow> (bool \<times> bind_arg list) list \<Rightarrow> bool" where
  "was_long_data n i calls = list_ex (\<lambda>(_, args). length args = n \<and> args ! i = BaLongData) calls"

section \<open>Buffers for results\<close>

text \<open>
  The arrays for the columns are created by the first execution: the array of result bindings, the references of the buffers, the lengths and the null
  flags. A binding is its type and the number of bytes that the library may write; \<open>rs_bad\<close> notes an access behind the end of an array.
\<close>

record res_bind =
  rb_type :: enum_field_types
  rb_buffer_length :: nat
  rb_bound :: bool

record res_state =
  rs_rbind :: "res_bind list option"
  rs_buffers :: "bytes option list option"
  rs_lens :: "nat list option"
  rs_nulls :: "bool list option"
  rs_bad :: bool

definition res_start :: res_state where
  "res_start = \<lparr>rs_rbind = None, rs_buffers = None, rs_lens = None, rs_nulls = None, rs_bad = False\<rparr>"

definition get_or_create_ud :: "'a option \<Rightarrow> 'a \<Rightarrow> 'a" where
  "get_or_create_ud ref zeroed = (case ref of None \<Rightarrow> zeroed | Some ud \<Rightarrow> ud)"

definition zero_res_bind :: res_bind where
  "zero_res_bind = \<lparr>rb_type = MYSQL_TYPE_DECIMAL, rb_buffer_length = 0, rb_bound = False\<rparr>"

record time_abi =
  ta_size :: nat
  ta_read :: "bytes \<Rightarrow> mysql_time"

text \<open>How a column is bound: its type in the binding and the size of its buffer; None for the types that are only reported as unknown.\<close>

definition bind_kind :: "time_abi \<Rightarrow> mysql_field \<Rightarrow> (enum_field_types \<times> nat) option" where
  "bind_kind ta f =
     (if fd_type f \<in> {MYSQL_TYPE_TINY_BLOB, MYSQL_TYPE_MEDIUM_BLOB, MYSQL_TYPE_LONG_BLOB, MYSQL_TYPE_BLOB, MYSQL_TYPE_VAR_STRING, MYSQL_TYPE_STRING}
      then Some (MYSQL_TYPE_VAR_STRING, unat (fd_length f))
      else if fd_type f \<in> {MYSQL_TYPE_SHORT, MYSQL_TYPE_LONG, MYSQL_TYPE_LONGLONG, MYSQL_TYPE_INT24, MYSQL_TYPE_YEAR, MYSQL_TYPE_TINY}
      then Some (MYSQL_TYPE_LONGLONG, 8)
      else if fd_type f \<in> {MYSQL_TYPE_FLOAT, MYSQL_TYPE_DOUBLE} then Some (MYSQL_TYPE_DOUBLE, 8)
      else if fd_type f \<in> {MYSQL_TYPE_DATE, MYSQL_TYPE_TIME, MYSQL_TYPE_DATETIME, MYSQL_TYPE_TIMESTAMP} then Some (MYSQL_TYPE_TIMESTAMP, ta_size ta)
      else None)"

definition bind_column :: "time_abi \<Rightarrow> mysql_field \<Rightarrow> bytes option \<Rightarrow> res_bind \<Rightarrow> bytes option \<times> res_bind" where
  "bind_column ta f buf rb =
     (case bind_kind ta f of
        Some (t, n) \<Rightarrow> (Some (get_or_create_ud buf (replicate n 0)), \<lparr>rb_type = t, rb_buffer_length = n, rb_bound = True\<rparr>)
      | None \<Rightarrow> (buf, rb))"

fun bind_columns :: "time_abi \<Rightarrow> nat \<Rightarrow> mysql_field list \<Rightarrow> bytes option list \<Rightarrow> res_bind list \<Rightarrow> bytes option list \<times> res_bind list \<times> bool" where
  "bind_columns ta i [] bufs rbs = (bufs, rbs, False)"
| "bind_columns ta i (f # fs) bufs rbs =
     (if length bufs \<le> i \<or> length rbs \<le> i then (bufs, rbs, True)
      else case bind_column ta f (bufs ! i) (rbs ! i) of (buf, rb) \<Rightarrow> bind_columns ta (Suc i) fs (bufs[i := buf]) (rbs[i := rb]))"

definition stmt_execute_result :: "time_abi \<Rightarrow> mysql_field list \<Rightarrow> res_state \<Rightarrow> res_state" where
  "stmt_execute_result ta flds rs =
     (let field_count = length flds;
          rbind = get_or_create_ud (rs_rbind rs) (replicate field_count zero_res_bind);
          buffers = get_or_create_ud (rs_buffers rs) (replicate field_count None);
          lens = get_or_create_ud (rs_lens rs) (replicate field_count 0);
          nulls = get_or_create_ud (rs_nulls rs) (replicate field_count False)
      in case bind_columns ta 0 flds buffers rbind of
           (bufs, rbs, bad) \<Rightarrow>
             \<lparr>rs_rbind = Some rbs, rs_buffers = Some bufs, rs_lens = Some lens, rs_nulls = Some nulls,
              rs_bad = (rs_bad rs \<or> bad \<or> length lens < field_count \<or> length nulls < field_count)\<rparr>)"

text \<open>Reading the columns of the row that was fetched.\<close>

definition time_value :: "mysql_time \<Rightarrow> col_value" where
  "time_value m =
     (if 0 < mt_time_type m
      then CvTime [(''year'', mt_year m), (''month'', mt_month m), (''day'', mt_day m), (''hour'', mt_hour m), (''minute'', mt_minute m),
                   (''second'', mt_second m), (''second_part'', mt_second_part m)]
      else CvNil)"

definition read_column :: "time_abi \<Rightarrow> mysql_field \<Rightarrow> bytes option \<Rightarrow> nat \<Rightarrow> bool \<Rightarrow> col_value" where
  "read_column ta f buf len is_null =
     (if is_null then CvNil
      else case bind_kind ta f of
             None \<Rightarrow> CvNil
           | Some (t, n) \<Rightarrow>
               let b = get_or_create_ud buf (replicate n 0)
               in if (if t = MYSQL_TYPE_VAR_STRING then length b < len else length b < n) then CvUndefined
                  else if t = MYSQL_TYPE_VAR_STRING then CvText (take len b)
                  else if t = MYSQL_TYPE_LONGLONG then CvInt (sint (word_of_nat (le_val (take 8 b)) :: u64))
                  else if t = MYSQL_TYPE_DOUBLE then CvNum (word_of_nat (le_val (take 8 b)))
                  else time_value (ta_read ta b))"

definition stmt_fetch_result :: "time_abi \<Rightarrow> mysql_field list \<Rightarrow> res_state \<Rightarrow> (bytes \<rightharpoonup> col_value)" where
  "stmt_fetch_result ta flds rs =
     (let field_count = length flds;
          buffers = get_or_create_ud (rs_buffers rs) (replicate field_count None);
          lens = get_or_create_ud (rs_lens rs) (replicate field_count 0);
          nulls = get_or_create_ud (rs_nulls rs) (replicate field_count False)
      in row_table (map (\<lambda>i. (fd_name (flds ! i), read_column ta (flds ! i) (buffers ! i) (lens ! i) (nulls ! i))) [0..<field_count]) Map.empty)"

section \<open>Columns of a cursor\<close>

lemma int_text_no_zero: "c_string (int_text z) = int_text z"
proof -
  obtain c ds where d: "int_text z = c # ds" "c = 0x2d \<or> is_digit c" "list_all is_digit ds" by (rule int_text_Cons)
  have "is_digit x \<Longrightarrow> x \<noteq> 0" for x by (auto simp: is_digit_def)
  with d show ?thesis by (auto simp: c_string_def takeWhile_eq_all_conv list_all_iff)
qed

lemma int_text_no_space: "dropWhile c_isspace (int_text z) = int_text z"
proof -
  obtain c ds where d: "int_text z = c # ds" "c = 0x2d \<or> is_digit c" by (rule int_text_Cons)
  have "\<not> c_isspace c" using d(2) digit_facts [of c] by (auto simp: c_isspace_def)
  with d(1) show ?thesis by simp
qed

lemma strtoll10_int_text: "strtoll10 (int_text z) = max (- (2 ^ 63)) (min (2 ^ 63 - 1) z)"
proof -
  have all: "takeWhile is_digit (decimal n) = decimal n" for n using decimal_digits [of n] by (simp add: takeWhile_eq_all_conv list_all_iff)
  show ?thesis
  proof (cases "z < 0")
    case True
    then have "int_text z = 0x2d # decimal (nat (- z))" by (simp add: int_text_def)
    with True int_text_no_zero [of z] int_text_no_space [of z] show ?thesis by (simp add: strtoll10_def all digits_val_decimal)
  next
    case False
    then have t: "int_text z = decimal (nat z)" by (simp add: int_text_def)
    obtain c ds where c: "decimal (nat z) = c # ds" "is_digit c" by (rule decimal_Cons)
    with digit_facts [of c] have "hd (decimal (nat z)) \<noteq> 0x2d" "hd (decimal (nat z)) \<noteq> 0x2b" by simp_all
    with False t int_text_no_zero [of z] int_text_no_space [of z] show ?thesis by (simp add: strtoll10_def all digits_val_decimal)
  qed
qed

lemma row_table_nth: "row_table cols t k = (case map_of (rev cols) k of None \<Rightarrow> t k | Some v \<Rightarrow> if v = CvNil then None else Some v)"
  by (induction cols t rule: row_table.induct) (auto simp: set_col_def map_add_def split: option.splits)

text \<open>With distinct names every column that is not null is in the table; of columns with the same name only the last is seen.\<close>

lemma row_table_distinct:
  assumes "distinct (map f [0..<n])" and "i < n"
  shows "row_table (map (\<lambda>i. (f i, g i)) [0..<n]) Map.empty (f i) = (if g i = CvNil then None else Some (g i))"
proof -
  have "map_of (rev (map (\<lambda>i. (f i, g i)) [0..<n])) (f i) = Some (g i)"
    using assms by (intro map_of_is_SomeI) (auto simp: rev_map [symmetric] comp_def)
  then show ?thesis by (simp add: row_table_nth)
qed

lemma cursor_row_lookup:
  assumes "distinct (map fd_name flds)" and "i < length flds"
  shows "cursor_row flds row (fd_name (flds ! i)) = (case row ! i of None \<Rightarrow> None | b \<Rightarrow> Some (pushvalue b (fd_type (flds ! i))))"
proof -
  let ?f = "\<lambda>i. fst (colinfo_tables flds) ! i"
  have f: "map ?f [0..<length flds] = map fd_name flds" by (rule nth_equalityI) (simp_all add: colinfo_tables_def)
  have "cursor_row flds row (?f i) = (if pushvalue (row ! i) (fd_type (flds ! i)) = CvNil then None else Some (pushvalue (row ! i) (fd_type (flds ! i))))"
    unfolding cursor_row_def using assms f by (intro row_table_distinct) simp_all
  with assms(2) show ?thesis by (auto simp: colinfo_tables_def pushvalue_def split: option.splits)
qed

lemma cursor_duplicate_name:
  "cursor_row [\<lparr>fd_name = n, fd_type = MYSQL_TYPE_STRING, fd_length = l\<rparr>, \<lparr>fd_name = n, fd_type = MYSQL_TYPE_STRING, fd_length = l\<rparr>] [Some a, None] = Map.empty"
  by (auto simp: cursor_row_def colinfo_tables_def pushvalue_def set_col_def upt_rec fun_eq_iff)

text \<open>The text of a column type is never cut.\<close>

lemma column_type_fits: "column_type_text f = ascii (getcolumntype (fd_type f)) @ ascii ''('' @ int_text (sint (fd_length f)) @ ascii '')''"
proof -
  have ty: "length (getcolumntype (fd_type f)) \<le> 9" by (simp add: getcolumntype_def)
  have dec: "length (decimal n) \<le> 19" if "n < 10 ^ 19" for n
  proof (cases "n = 0")
    case False
    with floor_log10_bounds [of n] that have "(10::nat) ^ floor_log10 n < 10 ^ 19" by linarith
    then have "floor_log10 n < 19" by (rule power_less_imp_less_exp [rotated]) simp
    then show ?thesis by (simp add: decimal_length)
  qed (simp add: decimal.simps)
  have "- (2 ^ 63) \<le> sint (fd_length f)" "sint (fd_length f) < 2 ^ 63" using sint_greater_eq [of "fd_length f"] sint_less [of "fd_length f"] by simp_all
  then have "nat \<bar>sint (fd_length f)\<bar> < 10 ^ 19" by simp
  from dec [OF this] have "length (int_text (sint (fd_length f))) \<le> 20" by (auto simp: int_text_def)
  with ty show ?thesis by (simp add: column_type_text_def ascii_def)
qed

text \<open>
  Columns of a cursor. A column of an integer type whose text is the decimal representation of z arrives in Lua as z if that fits into 64 bits and as the
  nearest such number otherwise, under the name of the column if the names are distinct; a null column is absent.
\<close>

lemma cursor_integer_columns:
  assumes "distinct (map fd_name flds)" and "i < length flds"
    and "fd_type (flds ! i) \<in> {MYSQL_TYPE_TINY, MYSQL_TYPE_SHORT, MYSQL_TYPE_LONG, MYSQL_TYPE_LONGLONG, MYSQL_TYPE_INT24, MYSQL_TYPE_YEAR}"
  shows "(cursor_row flds row (fd_name (flds ! i)) = None \<longleftrightarrow> row ! i = None)
     \<and> (\<forall>z. row ! i = Some (int_text z) \<longrightarrow> cursor_row flds row (fd_name (flds ! i)) = Some (CvInt (max (- (2 ^ 63)) (min (2 ^ 63 - 1) z))))"
  using assms(3) by (auto simp: cursor_row_lookup [OF assms(1,2)] pushvalue_def strtoll10_int_text split: option.split)

definition id_field :: mysql_field where
  "id_field = \<lparr>fd_name = [0x69, 0x64], fd_type = MYSQL_TYPE_LONGLONG, fd_length = 20\<rparr>"

lemma cursor_integer_columns_witness:
  "cursor_row [id_field] [Some (int_text (2 ^ 64 - 1))] [0x69, 0x64] = Some (CvInt (2 ^ 63 - 1)) \<and> cursor_row [id_field] [None] [0x69, 0x64] = None"
  using cursor_integer_columns [of "[id_field]" 0 "[Some (int_text (2 ^ 64 - 1))]"] cursor_integer_columns [of "[id_field]" 0 "[None]"]
  by (simp add: id_field_def)

section \<open>Parameters\<close>

text \<open>What binding an argument does to its element of the array, to its double and to the strings that are kept.\<close>

definition bind_elem :: "nat \<Rightarrow> bind_arg \<Rightarrow> mysql_bind \<Rightarrow> mysql_bind" where
  "bind_elem i a b =
     (case a of
        BaString s \<Rightarrow> MYSQL_SET_VARSTRING (BufString s) (length s) b
      | BaNumber d \<Rightarrow> MYSQL_SET_DOUBLE (BufNum i) b
      | BaBoolean v \<Rightarrow> MYSQL_SET_TINYINT (BufNum i) b
      | BaLongData \<Rightarrow> zero_bind\<lparr>mb_type := MYSQL_TYPE_STRING, mb_length := Some i\<rparr>
      | BaNil \<Rightarrow> b\<lparr>mb_type := MYSQL_TYPE_NULL\<rparr>
      | _ \<Rightarrow> b)"

definition num_elem :: "bind_arg \<Rightarrow> u64 \<Rightarrow> u64" where
  "num_elem a x = (case a of BaNumber d \<Rightarrow> d | BaBoolean v \<Rightarrow> dbl_of_nat (of_bool v) | _ \<Rightarrow> x)"

definition kept_elem :: "bind_arg \<Rightarrow> bytes option \<Rightarrow> bytes option" where
  "kept_elem a k = (case a of BaString s \<Rightarrow> Some s | _ \<Rightarrow> k)"

lemmas set_macros = MYSQL_SET_VARSTRING_def MYSQL_SET_DOUBLE_def MYSQL_SET_TINYINT_def

lemma bind_one_effect:
  assumes "i < length (sb_bind st)" and "length (sb_nums st) = length (sb_bind st)"
  shows "sb_bind (bind_one i a st) = (sb_bind st)[i := bind_elem i a (sb_bind st ! i)]"
    "sb_nums (bind_one i a st) = (sb_nums st)[i := num_elem a (sb_nums st ! i)]"
    "sb_kept (bind_one i a st) = (sb_kept st)(i + 1000 := kept_elem a (sb_kept st (i + 1000)))"
    "sb_has_bind_param (bind_one i a st) = sb_has_bind_param st" "sb_params (bind_one i a st) = sb_params st"
  using assms by (simp_all add: bind_one_def bind_elem_def num_elem_def kept_elem_def nth_list_update fun_upd_idem split: bind_arg.split)

lemma bind_one_length [simp]:
  "length (sb_bind (bind_one i a st)) = length (sb_bind st)" "length (sb_nums (bind_one i a st)) = length (sb_nums st)"
  by (simp_all add: bind_one_def Let_def split: bind_arg.split)

lemma bind_all_length [simp]: "length (sb_bind (bind_all i as st)) = length (sb_bind st)"
  by (induction i as st rule: bind_all.induct) simp_all

lemma nth_Cons_diff: "Suc i \<le> j \<Longrightarrow> (a # as) ! (j - i) = as ! (j - Suc i)"
  by (simp add: nth_Cons' Suc_diff_le)

lemma bind_all_nth:
  assumes "i + length as = length (sb_bind st)" and "length (sb_nums st) = length (sb_bind st)" and "j < length (sb_bind st)"
  shows "sb_bind (bind_all i as st) ! j = (if i \<le> j then bind_elem j (as ! (j - i)) (sb_bind st ! j) else sb_bind st ! j)"
  using assms
proof (induction i as st rule: bind_all.induct)
  case (2 i a as st)
  have e: "i < length (sb_bind st)" using "2.prems" by simp
  consider "j < i" | "j = i" | "Suc i \<le> j" by linarith
  then show ?case using "2.IH" "2.prems" bind_one_effect(1) [OF e "2.prems"(2), of a] by cases (simp_all add: nth_Cons_diff nth_list_update)
qed simp

lemma bind_all_nums:
  assumes "i + length as = length (sb_bind st)" and "length (sb_nums st) = length (sb_bind st)" and "j < length (sb_bind st)"
  shows "sb_nums (bind_all i as st) ! j =
     (if i \<le> j then num_elem (as ! (j - i)) (sb_nums st ! j) else sb_nums st ! j)"
  using assms
proof (induction i as st rule: bind_all.induct)
  case (2 i a as st)
  have e: "i < length (sb_bind st)" using "2.prems" by simp
  consider "j < i" | "j = i" | "Suc i \<le> j" by linarith
  then show ?case using "2.IH" "2.prems" bind_one_effect(2) [OF e "2.prems"(2), of a]
    by cases (simp_all add: nth_Cons_diff nth_list_update)
qed simp

lemma bind_all_kept:
  assumes "i + length as = length (sb_bind st)" and "length (sb_nums st) = length (sb_bind st)"
  shows "sb_kept (bind_all i as st) (j + 1000) =
     (if i \<le> j \<and> j < length (sb_bind st) then kept_elem (as ! (j - i)) (sb_kept st (j + 1000)) else sb_kept st (j + 1000))"
  using assms
proof (induction i as st rule: bind_all.induct)
  case (2 i a as st)
  have e: "i < length (sb_bind st)" using "2.prems" by simp
  consider "j < i" | "j = i" | "Suc i \<le> j" by linarith
  then show ?case using "2.IH" "2.prems" bind_one_effect(3) [OF e "2.prems"(2), of a] by cases (simp_all add: nth_Cons_diff)
qed auto

lemma le_bytes_first: "0 < n \<Longrightarrow> take (Suc 0) (le_bytes n x) = [word_of_nat (x mod 256)]"
  by (cases n) simp_all

lemma bool_low_byte: "take 1 (le_bytes 8 (unat (dbl_of_nat (of_bool v)))) = [0]"
proof (cases v)
  case True
  have "unat (dbl_of_nat 1) = (0 + 1023) * 2 ^ 52 + (1 - 2 ^ 0) * 2 ^ (52 - 0)" by (rule dbl_of_nat_fields) simp_all
  then have "unat (dbl_of_nat 1) mod 256 = 0" by simp
  with True show ?thesis by (simp add: le_bytes_first)
qed (simp add: le_bytes_first dbl_of_nat_def)

lemma bind_all_nums_length [simp]: "length (sb_nums (bind_all i as st)) = length (sb_nums st)"
  by (induction i as st rule: bind_all.induct) simp_all

lemma bind_elem_length: "mb_length (bind_elem i a b) = (if a = BaLongData then Some i else mb_length b)"
  by (simp add: bind_elem_def set_macros split: bind_arg.split)

lemma bind_call_length:
  assumes "length (sb_bind st) = n" and "length (sb_nums st) = n" and "i < n" and "st' = (case st_bind_any c args st of Inl _ \<Rightarrow> st | Inr st' \<Rightarrow> st')"
  shows "length (sb_bind st') = n \<and> length (sb_nums st') = n
    \<and> mb_length (sb_bind st' ! i) = (if length args = n \<and> args ! i = BaLongData then Some i else mb_length (sb_bind st ! i))"
  using assms bind_all_nth [of 0 args st i] by (simp add: st_bind_any_def Let_def bind_elem_length)

text \<open>After any calls the pointer \<open>length\<close> of a parameter is set exactly if the parameter was once bound to \<open>LONG_DATA\<close>.\<close>

lemma bind_calls_length:
  assumes "length (sb_bind st) = n" and "length (sb_nums st) = n" and "i < n"
  shows "length (sb_bind (bind_calls calls st)) = n \<and> length (sb_nums (bind_calls calls st)) = n
    \<and> mb_length (sb_bind (bind_calls calls st) ! i) = (if was_long_data n i calls then Some i else mb_length (sb_bind st ! i))"
  using assms(1,2)
proof (induction calls arbitrary: st)
  case (Cons c calls)
  obtain b args where c: "c = (b, args)" by (cases c)
  define st' where "st' = (case st_bind_any b args st of Inl _ \<Rightarrow> st | Inr st' \<Rightarrow> st')"
  have e: "bind_calls (c # calls) st = bind_calls calls st'" by (simp add: bind_calls_def c st'_def)
  have w: "was_long_data n i (c # calls) \<longleftrightarrow> length args = n \<and> args ! i = BaLongData \<or> was_long_data n i calls" by (simp add: was_long_data_def c)
  show ?case unfolding e w using Cons.IH [of st'] bind_call_length [OF Cons.prems assms(3) st'_def] by simp
qed (simp add: bind_calls_def was_long_data_def)

lemma prepared_calls:
  assumes "st = bind_calls calls (stmt_prepare_result n)" and "i < n"
  shows "length (sb_bind st) = n" "length (sb_nums st) = n" "mb_length (sb_bind st ! i) = (if was_long_data n i calls then Some i else None)"
  using bind_calls_length [of "stmt_prepare_result n" n i calls] assms by (simp_all add: stmt_prepare_result_def zero_bind_def)

text \<open>
  (C37) Parameters of a prepared statement. After any calls, \<open>bind_param\<close> with as many arguments as the statement has parameters gives the library bindings that designate, for each argument,
  its bytes: a string, which the statement keeps alive, a number as a double, nil as null. There are two exceptions. The byte of a boolean is the lowest of the double,
  and that is 0 for true and for false. And of a string whose parameter was bound to \<open>LONG_DATA\<close> by an earlier call as many bytes are taken as the
  bits of the double say that was bound there last: \<open>length\<close> still points to it. (What a binding designates is read as the client library documents it.)
\<close>

theorem bind_params_passed:
  assumes "st = bind_calls calls (stmt_prepare_result n)" and "length args = n" and "i < n"
  shows "\<exists>st' ps. st_bind_param args st = Inr st' \<and> sb_params st' = Some ps \<and> length ps = n
     \<and> (case args ! i of
          BaString s \<Rightarrow> mb_type (ps ! i) = MYSQL_TYPE_VAR_STRING \<and> sb_kept st' (i + 1000) = Some s
            \<and> bound_bytes (sb_nums st') (ps ! i)
                = (if \<not> was_long_data n i calls then Some s
                   else if unat (sb_nums st ! i) \<le> length s then Some (take (unat (sb_nums st ! i)) s)
                   else None)
        | BaNumber d \<Rightarrow> mb_type (ps ! i) = MYSQL_TYPE_DOUBLE \<and> bound_bytes (sb_nums st') (ps ! i) = Some (le_bytes 8 (unat d))
        | BaBoolean v \<Rightarrow> mb_type (ps ! i) = MYSQL_TYPE_TINY \<and> bound_bytes (sb_nums st') (ps ! i) = Some [0]
        | BaNil \<Rightarrow> mb_type (ps ! i) = MYSQL_TYPE_NULL
        | BaLongData \<Rightarrow> mb_type (ps ! i) = MYSQL_TYPE_STRING \<and> mb_buffer (ps ! i) = BufNull \<and> mb_length (ps ! i) = Some i
        | _ \<Rightarrow> ps ! i = sb_bind st ! i)"
proof -
  note p = prepared_calls [OF assms(1,3)]
  let ?st = "bind_all 0 args st"
  let ?r = "?st\<lparr>sb_params := Some (sb_bind ?st), sb_has_bind_param := True\<rparr>"
  have r: "st_bind_param args st = Inr ?r" using assms(2) p by (simp add: st_bind_param_def st_bind_any_def Let_def)
  have e: "sb_bind ?st ! i = bind_elem i (args ! i) (sb_bind st ! i)"
    "sb_nums ?st ! i = num_elem (args ! i) (sb_nums st ! i)"
    "sb_kept ?st (i + 1000) = kept_elem (args ! i) (sb_kept st (i + 1000))"
    using bind_all_nth [of 0 args st i] bind_all_nums [of 0 args st i] bind_all_kept [of 0 args st i] assms(2,3) p by simp_all
  have num: "take 8 (le_bytes 8 x) = le_bytes 8 x" for x by simp
  from e bool_low_byte p show ?thesis
    by (intro exI [of _ ?r] exI [of _ "sb_bind ?st"])
      (cases "args ! i"; simp add: r bind_elem_def num_elem_def kept_elem_def zero_bind_def bound_bytes_def buffer_prefix_def set_macros num)
qed

theorem bind_params_passed_witness:
  "\<exists>st' ps. st_bind_param [BaBoolean True, BaString [0x61]] (bind_calls [(False, [BaLongData, BaNil])] (stmt_prepare_result 2)) = Inr st'
     \<and> sb_params st' = Some ps \<and> bound_bytes (sb_nums st') (ps ! 1) = Some [0x61]"
  using bind_params_passed [OF refl, of "[BaBoolean True, BaString [0x61]]" 2 1 "[(False, [BaLongData, BaNil])]"] by (auto simp: was_long_data_def)

text \<open>
  A string that is bound to a parameter after \<open>LONG_DATA\<close> is sent as the empty string if no number was bound before; after a number the library reads behind its
  end, since the bits of every positive double are a huge length.
\<close>

lemma string_after_long_data:
  "\<exists>st ps. st_bind_param [BaString s] (bind_calls [(False, [BaLongData])] (stmt_prepare_result 1)) = Inr st
     \<and> sb_params st = Some ps \<and> bound_bytes (sb_nums st) (ps ! 0) = Some []"
  by (simp add: st_bind_param_def st_bind_any_def bind_calls_def stmt_prepare_result_def bind_one_def bound_bytes_def buffer_prefix_def set_macros zero_bind_def)

lemma string_after_number_and_long_data:
  assumes "length s < unat d"
  shows "\<exists>st ps. st_bind_param [BaString s] (bind_calls [(False, [BaNumber d]), (False, [BaLongData])] (stmt_prepare_result 1)) = Inr st
     \<and> sb_params st = Some ps \<and> bound_bytes (sb_nums st) (ps ! 0) = None"
  using assms
  by (simp add: st_bind_param_def st_bind_any_def bind_calls_def stmt_prepare_result_def bind_one_def bound_bytes_def buffer_prefix_def set_macros zero_bind_def)

text \<open>With \<open>bind\<close> the library's copy is made by the first call only: it keeps the string of that call, which the second call lets go of.\<close>

lemma st_bind_second_stale:
  "\<exists>st1 st2. st_bind [BaString a] (stmt_prepare_result 1) = Inr st1 \<and> st_bind [BaString b] st1 = Inr st2
     \<and> map_option (map mb_buffer) (sb_params st2) = Some [BufString a] \<and> sb_kept st2 1000 = Some b"
  by (simp add: st_bind_def st_bind_any_def stmt_prepare_result_def bind_one_def set_macros)

lemma st_bind_count: "length args \<noteq> length (sb_bind st) \<Longrightarrow> st_bind_any c args st = Inl (length (sb_bind st), length args)"
  by (simp add: st_bind_any_def)

section \<open>Buffers\<close>

lemma bind_columns_nth:
  assumes "i + length fs \<le> length bufs" and "length rbs = length bufs"
  shows "case bind_columns ta i fs bufs rbs of (bufs', rbs', bad) \<Rightarrow>
     \<not> bad \<and> length bufs' = length bufs \<and> length rbs' = length bufs
     \<and> (\<forall>j < length bufs. (bufs' ! j, rbs' ! j) = (if i \<le> j \<and> j < i + length fs then bind_column ta (fs ! (j - i)) (bufs ! j) (rbs ! j) else (bufs ! j, rbs ! j)))"
  using assms
proof (induction ta i fs bufs rbs rule: bind_columns.induct)
  case (2 ta i f fs bufs rbs)
  obtain buf rb where c: "bind_column ta f (bufs ! i) (rbs ! i) = (buf, rb)" by (cases "bind_column ta f (bufs ! i) (rbs ! i)")
  have i: "i < length bufs" using "2.prems" by simp
  obtain b' r' bad where r: "bind_columns ta (Suc i) fs (bufs[i := buf]) (rbs[i := rb]) = (b', r', bad)"
    by (cases "bind_columns ta (Suc i) fs (bufs[i := buf]) (rbs[i := rb])") auto
  have IH: "\<not> bad \<and> length b' = length bufs \<and> length r' = length bufs
     \<and> (\<forall>j < length bufs. (b' ! j, r' ! j) = (if Suc i \<le> j \<and> j < Suc i + length fs then bind_column ta (fs ! (j - Suc i)) (bufs[i := buf] ! j) (rbs[i := rb] ! j)
          else (bufs[i := buf] ! j, rbs[i := rb] ! j)))"
    using "2.IH" [of buf rb] "2.prems" i c r by simp
  have "(b' ! j, r' ! j) = (if i \<le> j \<and> j < i + length (f # fs) then bind_column ta ((f # fs) ! (j - i)) (bufs ! j) (rbs ! j) else (bufs ! j, rbs ! j))"
    if j: "j < length bufs" for j
  proof -
    consider "j < i" | "j = i" | "Suc i \<le> j" by linarith
    then show ?thesis using IH j i c "2.prems" by cases (simp_all add: nth_Cons_diff)
  qed
  with IH show ?case using i c r "2.prems" by simp
qed auto

text \<open>What the library writes stays inside the buffers.\<close>

definition res_in_bounds :: "res_state \<Rightarrow> bool" where
  "res_in_bounds rs \<longleftrightarrow> \<not> rs_bad rs \<and>
     (\<exists>bufs rbs. rs_buffers rs = Some bufs \<and> rs_rbind rs = Some rbs \<and> length rbs = length bufs
        \<and> (\<forall>j < length bufs. rb_bound (rbs ! j) \<longrightarrow> (\<exists>b. bufs ! j = Some b \<and> rb_buffer_length (rbs ! j) \<le> length b)))"

text \<open>A later execution has no more columns than the first, and none of them needs more room.\<close>

definition not_wider :: "time_abi \<Rightarrow> mysql_field list \<Rightarrow> mysql_field list \<Rightarrow> bool" where
  "not_wider ta fs0 fs \<longleftrightarrow> length fs \<le> length fs0
     \<and> (\<forall>j < length fs. case bind_kind ta (fs ! j) of None \<Rightarrow> True | Some (t, n) \<Rightarrow> (\<exists>t0 n0. bind_kind ta (fs0 ! j) = Some (t0, n0) \<and> n \<le> n0))"

text \<open>The buffers are those of the first execution.\<close>

definition res_sized :: "time_abi \<Rightarrow> mysql_field list \<Rightarrow> res_state \<Rightarrow> bool" where
  "res_sized ta fs0 rs \<longleftrightarrow> \<not> rs_bad rs \<and>
     (\<exists>bufs rbs lens nulls. rs_buffers rs = Some bufs \<and> rs_rbind rs = Some rbs \<and> rs_lens rs = Some lens \<and> rs_nulls rs = Some nulls
        \<and> length bufs = length fs0 \<and> length rbs = length fs0 \<and> length lens = length fs0 \<and> length nulls = length fs0
        \<and> (\<forall>j < length fs0. case bind_kind ta (fs0 ! j) of
             None \<Rightarrow> bufs ! j = None \<and> \<not> rb_bound (rbs ! j)
           | Some (t, n) \<Rightarrow> \<exists>b. bufs ! j = Some b \<and> length b = n \<and> rb_buffer_length (rbs ! j) \<le> n))"

lemma res_sized_in_bounds: "res_sized ta fs0 rs \<Longrightarrow> res_in_bounds rs"
  by (fastforce simp: res_sized_def res_in_bounds_def split: option.splits)

lemma execute_first: "res_sized ta fs (stmt_execute_result ta fs res_start)"
proof -
  let ?b = "replicate (length fs) (None :: bytes option)" and ?r = "replicate (length fs) zero_res_bind"
  obtain b' r' bad where r: "bind_columns ta 0 fs ?b ?r = (b', r', bad)" by (cases "bind_columns ta 0 fs ?b ?r") auto
  have n: "\<not> bad \<and> length b' = length fs \<and> length r' = length fs \<and> (\<forall>j < length fs. (b' ! j, r' ! j) = bind_column ta (fs ! j) None zero_res_bind)"
    using bind_columns_nth [of 0 fs ?b ?r ta] r by simp
  have "case bind_kind ta (fs ! j) of None \<Rightarrow> b' ! j = None \<and> \<not> rb_bound (r' ! j)
      | Some (t, n) \<Rightarrow> \<exists>b. b' ! j = Some b \<and> length b = n \<and> rb_buffer_length (r' ! j) \<le> n" if "j < length fs" for j
  proof -
    have "(b' ! j, r' ! j) = bind_column ta (fs ! j) None zero_res_bind" using n that by blast
    then show ?thesis by (auto simp: bind_column_def get_or_create_ud_def zero_res_bind_def split: option.splits)
  qed
  with n r show ?thesis by (simp add: stmt_execute_result_def res_start_def get_or_create_ud_def res_sized_def Let_def)
qed

lemma execute_again:
  assumes "res_sized ta fs0 rs" and "not_wider ta fs0 fs"
  shows "res_sized ta fs0 (stmt_execute_result ta fs rs)"
proof -
  obtain bufs rbs lens nulls where s: "\<not> rs_bad rs" "rs_buffers rs = Some bufs" "rs_rbind rs = Some rbs" "rs_lens rs = Some lens" "rs_nulls rs = Some nulls"
    "length bufs = length fs0" "length rbs = length fs0" "length lens = length fs0" "length nulls = length fs0"
    and c: "\<And>j. j < length fs0 \<Longrightarrow> case bind_kind ta (fs0 ! j) of
             None \<Rightarrow> bufs ! j = None \<and> \<not> rb_bound (rbs ! j)
           | Some (t, n) \<Rightarrow> \<exists>b. bufs ! j = Some b \<and> length b = n \<and> rb_buffer_length (rbs ! j) \<le> n"
    using assms(1) by (auto simp: res_sized_def)
  have l: "length fs \<le> length fs0" using assms(2) by (simp add: not_wider_def)
  obtain b' r' bad where r: "bind_columns ta 0 fs bufs rbs = (b', r', bad)" by (cases "bind_columns ta 0 fs bufs rbs") auto
  have n: "\<not> bad \<and> length b' = length fs0 \<and> length r' = length fs0
    \<and> (\<forall>j < length fs0. (b' ! j, r' ! j) = (if j < length fs then bind_column ta (fs ! j) (bufs ! j) (rbs ! j) else (bufs ! j, rbs ! j)))"
    using bind_columns_nth [of 0 fs bufs rbs ta] r s l by simp
  have "case bind_kind ta (fs0 ! j) of None \<Rightarrow> b' ! j = None \<and> \<not> rb_bound (r' ! j)
      | Some (t, n) \<Rightarrow> \<exists>b. b' ! j = Some b \<and> length b = n \<and> rb_buffer_length (r' ! j) \<le> n" if j: "j < length fs0" for j
  proof (cases "j < length fs \<and> bind_kind ta (fs ! j) \<noteq> None")
    case False
    have "(b' ! j, r' ! j) = (if j < length fs then bind_column ta (fs ! j) (bufs ! j) (rbs ! j) else (bufs ! j, rbs ! j))" using n j by blast
    with False have "b' ! j = bufs ! j" "r' ! j = rbs ! j" by (auto simp: bind_column_def split: if_splits option.splits)
    with c [OF j] show ?thesis by (simp only:)
  next
    case True
    then have e: "(b' ! j, r' ! j) = bind_column ta (fs ! j) (bufs ! j) (rbs ! j)" using n j by presburger
    have "case bind_kind ta (fs ! j) of None \<Rightarrow> True | Some (t, n) \<Rightarrow> (\<exists>t0 n0. bind_kind ta (fs0 ! j) = Some (t0, n0) \<and> n \<le> n0)"
      using assms(2) True by (simp add: not_wider_def)
    then obtain t n t0 n0 where "bind_kind ta (fs ! j) = Some (t, n)" "bind_kind ta (fs0 ! j) = Some (t0, n0)" "n \<le> n0" using True by auto
    then show ?thesis using e c [OF j] by (auto simp: bind_column_def get_or_create_ud_def)
  qed
  with n r s l show ?thesis by (simp add: stmt_execute_result_def get_or_create_ud_def res_sized_def Let_def)
qed

text \<open>
  (C38) The result buffers of a prepared statement: however often it is executed, the library is never allowed to write behind the end of a buffer, provided
  that no later execution has more columns or wider ones than the first.
\<close>

theorem result_buffers_fit:
  assumes "list_all (not_wider ta fs) fss"
  shows "res_in_bounds (fold (stmt_execute_result ta) (fs # fss) res_start)"
proof -
  have "res_sized ta fs rs \<Longrightarrow> res_sized ta fs (fold (stmt_execute_result ta) fss rs)" for rs
    using assms by (induction fss arbitrary: rs) (simp_all add: execute_again)
  from this [OF execute_first] show ?thesis by (simp add: res_sized_in_bounds)
qed

definition name_field :: "u64 \<Rightarrow> mysql_field" where
  "name_field n = \<lparr>fd_name = [0x6e], fd_type = MYSQL_TYPE_VAR_STRING, fd_length = n\<rparr>"

definition plain_abi :: time_abi where
  "plain_abi = \<lparr>ta_size = 40, ta_read = (\<lambda>_. \<lparr>mt_year = 0, mt_month = 0, mt_day = 0, mt_hour = 0, mt_minute = 0, mt_second = 0, mt_second_part = 0, mt_neg = False, mt_time_type = 0\<rparr>)\<rparr>"

theorem result_buffers_fit_witness: "res_in_bounds (fold (stmt_execute_result plain_abi) [[name_field 20, name_field 4], [name_field 20], [name_field 12, name_field 4]] res_start)"
  by (rule result_buffers_fit) (simp add: not_wider_def name_field_def bind_kind_def less_Suc_eq)

text \<open>A column that has become wider is written behind the end of its buffer, and so is a column too many.\<close>

lemma wider_column_overflows: "\<not> res_in_bounds (fold (stmt_execute_result plain_abi) [[name_field 10], [name_field 20]] res_start)"
  by (simp add: res_in_bounds_def stmt_execute_result_def res_start_def get_or_create_ud_def name_field_def bind_column_def bind_kind_def Let_def)

lemma more_columns_overflow: "rs_bad (fold (stmt_execute_result plain_abi) [[name_field 10], [name_field 10, name_field 10]] res_start)"
  by (simp add: stmt_execute_result_def res_start_def get_or_create_ud_def name_field_def bind_column_def bind_kind_def Let_def)

section \<open>Reading a row\<close>

text \<open>What the library has left in the buffer, the length and the null flag of a column whose value is \<open>v\<close>.\<close>

definition lib_stored :: "time_abi \<Rightarrow> mysql_field \<Rightarrow> col_value \<Rightarrow> bytes option \<Rightarrow> nat \<Rightarrow> bool \<Rightarrow> bool" where
  "lib_stored ta f v buf len is_null =
     (case v of
        CvNil \<Rightarrow> is_null
      | CvText s \<Rightarrow> \<not> is_null \<and> (\<exists>n b. bind_kind ta f = Some (MYSQL_TYPE_VAR_STRING, n) \<and> buf = Some b \<and> len = length s \<and> len \<le> length b \<and> take len b = s)
      | CvInt z \<Rightarrow> \<not> is_null \<and> - (2 ^ 63) \<le> z \<and> z < 2 ^ 63
          \<and> (\<exists>b. bind_kind ta f = Some (MYSQL_TYPE_LONGLONG, 8) \<and> buf = Some b \<and> length b = 8 \<and> b = le_bytes 8 (nat (z mod 2 ^ 64)))
      | CvNum d \<Rightarrow> \<not> is_null \<and> (\<exists>b. bind_kind ta f = Some (MYSQL_TYPE_DOUBLE, 8) \<and> buf = Some b \<and> length b = 8 \<and> b = le_bytes 8 (unat d))
      | CvTime fs \<Rightarrow> \<not> is_null \<and> (\<exists>n b. bind_kind ta f = Some (MYSQL_TYPE_TIMESTAMP, n) \<and> buf = Some b \<and> n \<le> length b \<and> time_value (ta_read ta b) = CvTime fs)
      | CvUndefined \<Rightarrow> False)"

lemma sint_of_mod: "- (2 ^ 63) \<le> z \<Longrightarrow> z < 2 ^ 63 \<Longrightarrow> sint (word_of_int (z mod 2 ^ 64) :: u64) = z"
proof -
  assume z: "- (2 ^ 63) \<le> z" "z < 2 ^ 63"
  have "(word_of_int (z mod 2 ^ 64) :: u64) = word_of_int z" by (simp add: word_of_int_eq_iff take_bit_eq_mod)
  with z show ?thesis by (simp add: sint_sbintrunc' signed_take_bit_int_eq_self)
qed

lemma read_column_stored: "lib_stored ta f v buf len is_null \<Longrightarrow> read_column ta f buf len is_null = v"
proof -
  have u: "unat d mod 2 ^ 64 = unat d" for d :: u64 using unsigned_less [of d, where ?'a = nat] by simp
  assume "lib_stored ta f v buf len is_null"
  then show ?thesis using sint_of_mod u
    by (cases v) (auto simp: lib_stored_def read_column_def get_or_create_ud_def)
qed

text \<open>Every value that is stored arrives under the name of its column; a null column is absent.\<close>

lemma stmt_fetch_row:
  assumes "distinct (map fd_name flds)" and "i < length flds"
    and "rs_buffers rs = Some bufs" and "rs_lens rs = Some lens" and "rs_nulls rs = Some nulls"
    and "lib_stored ta (flds ! i) v (bufs ! i) (lens ! i) (nulls ! i)"
  shows "stmt_fetch_result ta flds rs (fd_name (flds ! i)) = (if v = CvNil then None else Some v)"
proof -
  let ?g = "\<lambda>i. read_column ta (flds ! i) (bufs ! i) (lens ! i) (nulls ! i)"
  have f: "map (\<lambda>i. fd_name (flds ! i)) [0..<length flds] = map fd_name flds" by (rule nth_equalityI) simp_all
  have "row_table (map (\<lambda>i. (fd_name (flds ! i), ?g i)) [0..<length flds]) Map.empty (fd_name (flds ! i)) = (if ?g i = CvNil then None else Some (?g i))"
    using row_table_distinct [of "\<lambda>i. fd_name (flds ! i)" "length flds" i ?g] assms(1,2) f by simp
  then show ?thesis using read_column_stored [OF assms(6)] assms(3-5) by (simp add: stmt_fetch_result_def get_or_create_ud_def Let_def)
qed

text \<open>The sign of a time is not read, and a column of a type without a buffer is absent whatever its value.\<close>

lemma time_sign_lost: "time_value (m\<lparr>mt_neg := True\<rparr>) = time_value (m\<lparr>mt_neg := False\<rparr>)"
  by (simp add: time_value_def)

lemma decimal_column_lost: "fd_type f \<in> {MYSQL_TYPE_DECIMAL, MYSQL_TYPE_NEWDECIMAL, MYSQL_TYPE_BIT, MYSQL_TYPE_ENUM, MYSQL_TYPE_SET} \<Longrightarrow> read_column ta f buf len is_null = CvNil"
  by (auto simp: read_column_def bind_kind_def)

end
