(* ===== verification/Fan_Loop.thy ===== *)
theory Fan_Loop
  imports Event_Mgr
begin

text \<open>
  The event loop as Lua sees it, \<open>src/luafan.c\<close>: \<open>fan.loop\<close> with its function, \<open>fan.loopbreak\<close> and \<open>fan.sleep\<close>, on the event manager. The memory
  of the two kinds of timers and the slots of the registry are in explicit stores; \<open>fl_bad\<close> records the use of memory or of an event base
  that was freed, the release of a pending timer and of a slot that is not taken, and is not part of the program.
\<close>

section \<open>State\<close>

text \<open>A slot of the registry holds the main function, the coroutine of a callback, or a coroutine that sleeps.\<close>

datatype fl_slot = FlMainRef nat | FlThreadRef nat | FlSleepRef nat

datatype fl_kind = TmMain | TmSleep nat nat

record fl_timer =
  ft_base :: "nat option"
  ft_kind :: fl_kind
  ft_pending :: bool

text \<open>What Lua code is run: the function in a coroutine of its own, the function at once, a coroutine that wakes up.\<close>

datatype fl_run = RunMain nat | RunNested bool | RunWakes nat

record fan_loop =
  fl_em :: event_mgr
  fl_timers :: "(nat \<times> fl_timer) list"
  fl_mainevent :: "nat option"
  fl_main_ref :: "nat option"
  fl_registry :: "fl_slot multiset"
  fl_next :: nat
  fl_sleeping :: "nat multiset"
  fl_runs :: "fl_run list"
  fl_bad :: bool

datatype fl_result = FlReturns | FlYields | FlRaises string

section \<open>Registry and timers\<close>

definition fl_ref :: "(nat \<Rightarrow> fl_slot) \<Rightarrow> fan_loop \<Rightarrow> nat \<times> fan_loop" where
  "fl_ref s w = (fl_next w, w\<lparr>fl_registry := add_mset (s (fl_next w)) (fl_registry w), fl_next := fl_next w + 1\<rparr>)"

definition fl_unref :: "fl_slot \<Rightarrow> fan_loop \<Rightarrow> fan_loop" where
  "fl_unref s w = (if s \<in># fl_registry w then w\<lparr>fl_registry := fl_registry w - {#s#}\<rparr> else w\<lparr>fl_bad := True\<rparr>)"

text \<open>\<open>evtimer_set\<close>, \<open>event_base_set\<close> and \<open>evtimer_add\<close> on a fresh block of memory.\<close>

definition timer_new :: "nat option \<Rightarrow> fl_kind \<Rightarrow> fan_loop \<Rightarrow> nat \<times> fan_loop" where
  "timer_new b k w =
     (fl_next w,
      w\<lparr>fl_timers := fl_timers w @ [(fl_next w, \<lparr>ft_base = b, ft_kind = k, ft_pending = True\<rparr>)], fl_next := fl_next w + 1,
        fl_bad := (fl_bad w \<or> b = None)\<rparr>)"

text \<open>\<open>evtimer_del\<close> needs the block and the base that the timer is on.\<close>

definition evtimer_del :: "nat \<Rightarrow> fan_loop \<Rightarrow> fan_loop" where
  "evtimer_del n w =
     (case map_of (fl_timers w) n of
        Some t \<Rightarrow>
          w\<lparr>fl_timers := AList.update n (t\<lparr>ft_pending := False\<rparr>) (fl_timers w),
            fl_bad := (fl_bad w \<or> (case ft_base t of Some b \<Rightarrow> b \<notin> set (em_bases (fl_em w)) | None \<Rightarrow> True))\<rparr>
      | None \<Rightarrow> w\<lparr>fl_bad := True\<rparr>)"

definition timer_free :: "nat \<Rightarrow> fan_loop \<Rightarrow> fan_loop" where
  "timer_free n w =
     (case map_of (fl_timers w) n of
        Some t \<Rightarrow> w\<lparr>fl_timers := AList.delete n (fl_timers w), fl_bad := (fl_bad w \<or> ft_pending t)\<rparr>
      | None \<Rightarrow> w\<lparr>fl_bad := True\<rparr>)"

section \<open>fan.loop\<close>

text \<open>
  \<open>fan_cb_setup\<close>: a new coroutine with a slot of its own, or nothing if memory runs out. The functions behind \<open>FAN_RESUME\<close> touch only what
  belongs to the timer that has fired, so that what the Lua code does is a later event.
\<close>

definition fan_cb_setup :: "bool \<Rightarrow> fan_loop \<Rightarrow> nat option \<times> fan_loop" where
  "fan_cb_setup ok w = (if ok then (case fl_ref FlThreadRef w of (r, w) \<Rightarrow> (Some r, w)) else (None, w))"

definition FAN_CB_CLEANUP :: "nat \<Rightarrow> fan_loop \<Rightarrow> fan_loop" where
  "FAN_CB_CLEANUP r w = fl_unref (FlThreadRef r) w"

definition main_handler :: "bool \<Rightarrow> fan_loop \<Rightarrow> fan_loop" where
  "main_handler setup_ok w =
     (case fl_mainevent w of
        None \<Rightarrow> w\<lparr>fl_bad := True\<rparr>
      | Some n \<Rightarrow>
          let w = (timer_free n (evtimer_del n w))\<lparr>fl_mainevent := None\<rparr>
          in case fan_cb_setup setup_ok w of
               (None, w) \<Rightarrow> w
             | (Some co, w) \<Rightarrow>
                 (case fl_main_ref w of
                    None \<Rightarrow> w\<lparr>fl_bad := True\<rparr>
                  | Some r \<Rightarrow>
                      let w = w\<lparr>fl_runs := fl_runs w @ [RunMain r]\<rparr>;
                          w = (fl_unref (FlMainRef r) w)\<lparr>fl_main_ref := None\<rparr>
                      in FAN_CB_CLEANUP co w))"

text \<open>
  The part of \<open>luafan_start\<close> up to the loop: a nested call runs the function at once (\<open>nested_ok\<close> says whether it raises no error). \<open>has_fn\<close>
  says whether the argument is a function, \<open>alloc\<close> whether there is memory for the timer.
\<close>

definition drop_mainevent :: "fan_loop \<Rightarrow> fan_loop" where
  "drop_mainevent w = (case fl_mainevent w of Some n \<Rightarrow> (timer_free n (evtimer_del n w))\<lparr>fl_mainevent := None\<rparr> | None \<Rightarrow> w)"

definition luafan_start :: "event_env \<Rightarrow> bool \<Rightarrow> bool \<Rightarrow> bool \<Rightarrow> fan_loop \<Rightarrow> fl_result \<times> fan_loop" where
  "luafan_start e has_fn alloc nested_ok w =
     (if event_mgr_is_looping (fl_em w)
      then (FlReturns, if has_fn then w\<lparr>fl_runs := fl_runs w @ [RunNested nested_ok]\<rparr> else w)
      else if \<not> has_fn then (FlReturns, w\<lparr>fl_em := loop_enter e (fl_em w)\<rparr>)
      else
        let (r, w) = fl_ref FlMainRef w;
            w = drop_mainevent (w\<lparr>fl_main_ref := Some r\<rparr>)
        in if \<not> alloc then (FlRaises ''Memory allocation failure'', w)
           else
             let em = snd (event_mgr_init e (fl_em w));
                 (b, em) = event_mgr_base e em;
                 (n, w) = timer_new b TmMain (w\<lparr>fl_em := em\<rparr>);
                 w = w\<lparr>fl_mainevent := Some n\<rparr>
             in (FlReturns, w\<lparr>fl_em := loop_enter e (fl_em w)\<rparr>))"

text \<open>The part behind the loop, when it has ended.\<close>

definition luafan_start_ends :: "fan_loop \<Rightarrow> fan_loop" where
  "luafan_start_ends w = w\<lparr>fl_em := loop_exit (fl_em w)\<rparr>"

definition luafan_stop :: "fan_loop \<Rightarrow> fan_loop" where
  "luafan_stop w = w\<lparr>fl_em := event_mgr_break (fl_em w)\<rparr>"

section \<open>fan.sleep\<close>

definition REF_STATE_SET :: "fan_loop \<Rightarrow> nat \<times> fan_loop" where
  "REF_STATE_SET w = fl_ref FlSleepRef w"

definition REF_STATE_CLEAR :: "nat \<Rightarrow> fan_loop \<Rightarrow> fan_loop" where
  "REF_STATE_CLEAR r w = fl_unref (FlSleepRef r) w"

text \<open>
  \<open>refused\<close> is the error of \<open>lua_yield\<close> if the caller cannot yield: the main thread, or a function that a nested \<open>fan.loop\<close> runs with \<open>lua_pcall\<close>. The timer and the slot
  are taken by then.
\<close>

definition luafan_sleep :: "event_env \<Rightarrow> bool \<Rightarrow> string option \<Rightarrow> nat \<Rightarrow> fan_loop \<Rightarrow> fl_result \<times> fan_loop" where
  "luafan_sleep e alloc refused co w =
     (let (b, em) = event_mgr_base e (fl_em w);
          w = w\<lparr>fl_em := em\<rparr>
      in if \<not> alloc then (FlRaises ''Memory allocation failure'', w)
         else
           let (r, w) = REF_STATE_SET w;
               (n, w) = timer_new b (TmSleep co r) w
           in (case refused of
                 None \<Rightarrow> (FlYields, w\<lparr>fl_sleeping := add_mset co (fl_sleeping w)\<rparr>)
               | Some s \<Rightarrow> (FlRaises s, w)))"

definition clock_handler :: "nat \<Rightarrow> nat \<Rightarrow> nat \<Rightarrow> fan_loop \<Rightarrow> fan_loop" where
  "clock_handler n co r w =
     (let w = evtimer_del n w;
          w = w\<lparr>fl_runs := fl_runs w @ [RunWakes co], fl_sleeping := fl_sleeping w - {#co#}\<rparr>;
          w = REF_STATE_CLEAR r w
      in timer_free n w)"

section \<open>Events\<close>

text \<open>A timer fires while the loop runs on its base; libevent takes it off the base first.\<close>

definition fl_fire :: "nat \<Rightarrow> bool \<Rightarrow> fan_loop \<Rightarrow> fan_loop" where
  "fl_fire n setup_ok w =
     (case map_of (fl_timers w) n of
        Some t \<Rightarrow>
          if em_looping (fl_em w) \<and> ft_pending t \<and> ft_base t = em_base (fl_em w)
          then let w = w\<lparr>fl_timers := AList.update n (t\<lparr>ft_pending := False\<rparr>) (fl_timers w)\<rparr>
               in (case ft_kind t of TmMain \<Rightarrow> main_handler setup_ok w | TmSleep co r \<Rightarrow> clock_handler n co r w)
          else w
      | None \<Rightarrow> w)"

datatype fl_event =
  FlStart event_env bool bool bool | FlEnds | FlStop | FlSleep event_env bool "string option" nat | FlFire nat bool | FlOther em_event

definition fl_step :: "fl_event \<Rightarrow> fan_loop \<Rightarrow> fan_loop" where
  "fl_step x w =
     (case x of
        FlStart e has_fn alloc nested_ok \<Rightarrow> snd (luafan_start e has_fn alloc nested_ok w)
      | FlEnds \<Rightarrow> if em_looping (fl_em w) then luafan_start_ends w else w
      | FlStop \<Rightarrow> luafan_stop w
      | FlSleep e alloc refused co \<Rightarrow> snd (luafan_sleep e alloc refused co w)
      | FlFire n setup_ok \<Rightarrow> fl_fire n setup_ok w
      | FlOther x \<Rightarrow> w\<lparr>fl_em := em_step x (fl_em w)\<rparr>)"

definition fl_start :: fan_loop where
  "fl_start = \<lparr>fl_em = em_start, fl_timers = [], fl_mainevent = None, fl_main_ref = None, fl_registry = {#}, fl_next = 1, fl_sleeping = {#}, fl_runs = [], fl_bad = False\<rparr>"

text \<open>
  Orderly use: there is memory for an event base, the function of a loop has been run before the next loop with a function is started, the caller of \<open>fan.sleep\<close> can yield, and the rest of the
  program uses the event manager as it is meant to be used.
\<close>

definition fl_allowed :: "fl_event \<Rightarrow> fan_loop \<Rightarrow> bool" where
  "fl_allowed x w =
     (case x of
        FlStart e has_fn alloc nested_ok \<Rightarrow> ee_base e \<and> (\<not> em_looping (fl_em w) \<and> has_fn \<longrightarrow> fl_main_ref w = None)
      | FlSleep e alloc refused co \<Rightarrow> ee_base e \<and> refused = None
      | FlOther x \<Rightarrow> em_allowed x (fl_em w)
      | _ \<Rightarrow> True)"

inductive fl_reaches :: "fan_loop \<Rightarrow> bool" where
  fl_starts: "fl_reaches fl_start"
| fl_goes: "fl_reaches w \<Longrightarrow> fl_allowed x w \<Longrightarrow> fl_reaches (fl_step x w)"

section \<open>Invariant\<close>

definition timer_slots :: "nat \<times> fl_timer \<Rightarrow> fl_slot multiset" where
  "timer_slots x = (case ft_kind (snd x) of TmSleep co r \<Rightarrow> {#FlSleepRef r#} | TmMain \<Rightarrow> {#})"

definition timer_cos :: "nat \<times> fl_timer \<Rightarrow> nat multiset" where
  "timer_cos x = (case ft_kind (snd x) of TmSleep co r \<Rightarrow> {#co#} | TmMain \<Rightarrow> {#})"

definition timer_ok :: "fan_loop \<Rightarrow> nat \<times> fl_timer \<Rightarrow> bool" where
  "timer_ok w x \<longleftrightarrow> fst x < fl_next w \<and> ft_pending (snd x) \<and> ft_base (snd x) \<noteq> None \<and> (ft_kind (snd x) = TmMain \<longleftrightarrow> fl_mainevent w = Some (fst x))"

definition main_runs :: "fl_run list \<Rightarrow> nat list" where
  "main_runs rs = concat (map (\<lambda>r. case r of RunMain n \<Rightarrow> [n] | _ \<Rightarrow> []) rs)"

definition main_slots :: "fan_loop \<Rightarrow> fl_slot multiset" where
  "main_slots w = (case fl_main_ref w of Some r \<Rightarrow> {#FlMainRef r#} | None \<Rightarrow> {#})"

definition fl_inv :: "fan_loop \<Rightarrow> bool" where
  "fl_inv w \<longleftrightarrow>
     em_inv (fl_em w) \<and> \<not> fl_bad w \<and> distinct (map fst (fl_timers w)) \<and> (\<forall>x \<in> set (fl_timers w). timer_ok w x)
     \<and> (\<forall>n. fl_mainevent w = Some n \<longrightarrow> n \<in> fst ` set (fl_timers w) \<and> fl_main_ref w \<noteq> None)
     \<and> fl_registry w = main_slots w + sum_list (map timer_slots (fl_timers w)) \<and> fl_sleeping w = sum_list (map timer_cos (fl_timers w))
     \<and> distinct (main_runs (fl_runs w)) \<and> (\<forall>r \<in> set (main_runs (fl_runs w)). r < fl_next w) \<and> (\<forall>r. fl_main_ref w = Some r \<longrightarrow> r < fl_next w \<and> r \<notin> set (main_runs (fl_runs w)))"

lemma main_runs_simps [simp]: "main_runs [] = []" "main_runs (rs @ [RunMain n]) = main_runs rs @ [n]" "main_runs (rs @ [RunNested b]) = main_runs rs"
  "main_runs (rs @ [RunWakes n]) = main_runs rs"
  by (simp_all add: main_runs_def)

lemma sum_delete:
  fixes f :: "'a \<times> 'b \<Rightarrow> 'c multiset"
  shows "distinct (map fst xs) \<Longrightarrow> map_of xs n = Some v \<Longrightarrow> sum_list (map f xs) = f (n, v) + sum_list (map f (AList.delete n xs))"
proof (induction xs)
  case (Cons x xs)
  obtain k u where x: "x = (k, u)" by (cases x)
  show ?case
  proof (cases "k = n")
    case True
    with Cons.prems x have "n \<notin> fst ` set xs" "u = v" by auto
    then have "AList.delete n xs = xs" by simp
    with True x \<open>u = v\<close> show ?thesis by simp
  next
    case False
    with Cons x show ?thesis by (simp add: add_ac)
  qed
qed simp

lemma distinct_delete: "distinct (map fst xs) \<Longrightarrow> distinct (map fst (AList.delete n xs))"
  by (simp add: AList.distinct_delete)

lemma base_ok: "ee_base e \<Longrightarrow> em_base (ensure_base e w) \<noteq> None"
  by (auto simp: ensure_base_def event_base_new_def split: option.split)

lemma init_keeps_base: "em_base w \<noteq> None \<Longrightarrow> em_base (snd (event_mgr_init e w)) = em_base w"
  by (auto simp: event_mgr_init_def ensure_base_def evdns_base_new_def touch_base_def Let_def split: option.splits)

lemma event_mgr_base_some: "ee_base e \<Longrightarrow> fst (event_mgr_base e w) \<noteq> None"
  using init_keeps_base [OF base_ok] base_ok by (simp add: event_mgr_base_def Let_def)

text \<open>The three steps that the operations are made of: a timer and its slot appear, and a timer and its slot go.\<close>

lemma fl_inv_em: "fl_inv w \<Longrightarrow> em_inv em \<Longrightarrow> fl_inv (w\<lparr>fl_em := em\<rparr>)"
  by (auto simp: fl_inv_def timer_ok_def main_slots_def)

lemma fl_inv_log: "fl_inv w \<Longrightarrow> main_runs (rs @ [x]) = main_runs rs \<Longrightarrow> rs = fl_runs w \<Longrightarrow> fl_inv (w\<lparr>fl_runs := rs @ [x]\<rparr>)"
  by (auto simp: fl_inv_def timer_ok_def main_slots_def)

lemma sleep_inv:
  assumes "fl_inv w" and "ee_base e"
  shows "fl_inv (snd (luafan_sleep e alloc None co w))"
proof -
  obtain b em where b: "event_mgr_base e (fl_em w) = (b, em)" by (cases "event_mgr_base e (fl_em w)")
  have em: "em_inv em" "b \<noteq> None" using base_alloc(1) [OF _ b] event_mgr_base_some [OF assms(2), of "fl_em w"] assms(1) b by (auto simp: fl_inv_def)
  show ?thesis
  proof (cases alloc)
    case False
    with b em(1) fl_inv_em [OF assms(1)] show ?thesis by (simp add: luafan_sleep_def)
  next
    case True
    have "fst x \<noteq> Suc (fl_next w)" if "x \<in> set (fl_timers w)" for x using that assms(1) by (auto simp: fl_inv_def timer_ok_def)
    moreover have "fl_mainevent w \<noteq> Some (Suc (fl_next w))" using calculation assms(1) by (fastforce simp: fl_inv_def)
    ultimately show ?thesis using assms(1) True b em
      by (auto simp: luafan_sleep_def REF_STATE_SET_def fl_ref_def timer_new_def fl_inv_def timer_ok_def main_slots_def timer_slots_def timer_cos_def)
  qed
qed

lemma delete_update: "AList.delete n (AList.update n t xs) = AList.delete n xs"
  by (induction xs) auto

text \<open>What a timer that fires does.\<close>

lemma fire_sleep:
  assumes "fl_inv w" and "map_of (fl_timers w) n = Some t" and "em_looping (fl_em w)" and "ft_base t = em_base (fl_em w)" and "ft_kind t = TmSleep co r"
  shows "fl_fire n ok w = w\<lparr>fl_timers := AList.delete n (fl_timers w), fl_runs := fl_runs w @ [RunWakes co], fl_sleeping := fl_sleeping w - {#co#},
      fl_registry := fl_registry w - {#FlSleepRef r#}\<rparr>"
proof -
  have m: "(n, t) \<in> set (fl_timers w)" using assms(2) by (rule map_of_SomeD)
  have p: "ft_pending t" and bad: "\<not> fl_bad w" using assms(1) m by (auto simp: fl_inv_def timer_ok_def)
  obtain b where b: "em_base (fl_em w) = Some b" "b \<in> set (em_bases (fl_em w))"
    using assms(1,3) owner_alloc [of "fl_em w"] by (auto simp: fl_inv_def em_inv_def em_state_def)
  have "fl_registry w = main_slots w + (timer_slots (n, t) + sum_list (map timer_slots (AList.delete n (fl_timers w))))"
    using assms(1) sum_delete [of "fl_timers w" n t timer_slots] assms(2) by (simp add: fl_inv_def)
  then have r: "FlSleepRef r \<in># fl_registry w" by (simp add: timer_slots_def assms(5))
  show ?thesis using assms(2-5) p b r bad
    by (simp add: fl_fire_def clock_handler_def evtimer_del_def timer_free_def REF_STATE_CLEAR_def fl_unref_def update_conv' delete_update Let_def)
qed

lemma fire_main:
  assumes "fl_inv w" and "map_of (fl_timers w) n = Some t" and "em_looping (fl_em w)" and "ft_base t = em_base (fl_em w)" and "ft_kind t = TmMain"
  obtains r where "fl_main_ref w = Some r" and "fl_mainevent w = Some n"
    and "fl_fire n True w = w\<lparr>fl_timers := AList.delete n (fl_timers w), fl_mainevent := None, fl_runs := fl_runs w @ [RunMain r], fl_main_ref := None,
      fl_registry := fl_registry w - {#FlMainRef r#}, fl_next := fl_next w + 1\<rparr>"
    and "fl_fire n False w = w\<lparr>fl_timers := AList.delete n (fl_timers w), fl_mainevent := None\<rparr>"
proof -
  have m: "(n, t) \<in> set (fl_timers w)" using assms(2) by (rule map_of_SomeD)
  have p: "ft_pending t" "fl_mainevent w = Some n" and bad: "\<not> fl_bad w" using assms(1,5) m by (auto simp: fl_inv_def timer_ok_def)
  then obtain r where r: "fl_main_ref w = Some r" using assms(1) by (auto simp: fl_inv_def)
  obtain b where b: "em_base (fl_em w) = Some b" "b \<in> set (em_bases (fl_em w))"
    using assms(1,3) owner_alloc [of "fl_em w"] by (auto simp: fl_inv_def em_inv_def em_state_def)
  have s: "FlMainRef r \<in># fl_registry w" using assms(1) r by (simp add: fl_inv_def main_slots_def)
  show ?thesis
  proof
    show "fl_main_ref w = Some r" "fl_mainevent w = Some n" by fact+
    show "fl_fire n True w = w\<lparr>fl_timers := AList.delete n (fl_timers w), fl_mainevent := None, fl_runs := fl_runs w @ [RunMain r], fl_main_ref := None,
      fl_registry := fl_registry w - {#FlMainRef r#}, fl_next := fl_next w + 1\<rparr>"
      using assms(2-5) p b r s bad
      by (simp add: fl_fire_def main_handler_def evtimer_del_def timer_free_def fan_cb_setup_def FAN_CB_CLEANUP_def fl_ref_def fl_unref_def update_conv' delete_update Let_def)
    show "fl_fire n False w = w\<lparr>fl_timers := AList.delete n (fl_timers w), fl_mainevent := None\<rparr>"
      using assms(2-5) p b r s bad
      by (simp add: fl_fire_def main_handler_def evtimer_del_def timer_free_def fan_cb_setup_def update_conv' delete_update Let_def)
  qed
qed

lemma delete_subset: "x \<in> set (AList.delete n xs) \<Longrightarrow> x \<in> set xs \<and> fst x \<noteq> n"
  by (auto simp: AList.delete_eq)

lemma fst_delete: "fst ` set (AList.delete n xs) = fst ` set xs - {n}"
  by (auto simp: AList.delete_eq image_iff)

lemma fl_fire_inv:
  assumes "fl_inv w"
  shows "fl_inv (fl_fire n ok w)"
proof (cases "\<exists>t. map_of (fl_timers w) n = Some t \<and> em_looping (fl_em w) \<and> ft_base t = em_base (fl_em w)")
  case False
  then show ?thesis using assms by (auto simp: fl_fire_def split: option.split)
next
  case True
  then obtain t where t: "map_of (fl_timers w) n = Some t" "em_looping (fl_em w)" "ft_base t = em_base (fl_em w)" by auto
  have d: "distinct (map fst (fl_timers w))" using assms by (simp add: fl_inv_def)
  note sums = sum_delete [OF d t(1), of timer_slots] sum_delete [OF d t(1), of timer_cos]
  show ?thesis
  proof (cases "ft_kind t")
    case (TmSleep co r)
    have "fl_mainevent w \<noteq> Some n" using assms map_of_SomeD [OF t(1)] TmSleep by (auto simp: fl_inv_def timer_ok_def)
    then show ?thesis using fire_sleep [OF assms t TmSleep] assms sums delete_subset [of _ n "fl_timers w"]
      by (auto simp: fl_inv_def timer_ok_def main_slots_def timer_slots_def timer_cos_def TmSleep AList.distinct_delete fst_delete)
  next
    case TmMain
    obtain r where f: "fl_main_ref w = Some r" "fl_mainevent w = Some n"
      "fl_fire n True w = w\<lparr>fl_timers := AList.delete n (fl_timers w), fl_mainevent := None, fl_runs := fl_runs w @ [RunMain r], fl_main_ref := None,
        fl_registry := fl_registry w - {#FlMainRef r#}, fl_next := fl_next w + 1\<rparr>"
      "fl_fire n False w = w\<lparr>fl_timers := AList.delete n (fl_timers w), fl_mainevent := None\<rparr>"
      by (rule fire_main [OF assms t TmMain])
    have k: "fst x < fl_next w \<and> ft_pending (snd x) \<and> ft_base (snd x) \<noteq> None \<and> ft_kind (snd x) \<noteq> TmMain" if "x \<in> set (AList.delete n (fl_timers w))" for x
      using delete_subset [OF that] assms f(2) by (auto simp: fl_inv_def timer_ok_def)
    have g: "timer_slots (n, t) = {#}" "timer_cos (n, t) = {#}" by (simp_all add: timer_slots_def timer_cos_def TmMain)
    have dd: "distinct (map fst (AList.delete n (fl_timers w)))" using d by (rule AList.distinct_delete)
    have u: "em_inv (fl_em w) \<and> \<not> fl_bad w \<and> fl_registry w = {#FlMainRef r#} + sum_list (map timer_slots (AList.delete n (fl_timers w)))
        \<and> fl_sleeping w = sum_list (map timer_cos (AList.delete n (fl_timers w))) \<and> distinct (main_runs (fl_runs w))
        \<and> (\<forall>r \<in> set (main_runs (fl_runs w)). r < fl_next w) \<and> r < fl_next w \<and> r \<notin> set (main_runs (fl_runs w))"
      using assms sums g f(1) unfolding fl_inv_def by (simp add: main_slots_def)
    show ?thesis
    proof (cases ok)
      case True
      with k u dd f(3) show ?thesis by (simp add: fl_inv_def timer_ok_def main_slots_def less_Suc_eq)
    next
      case False
      with k u dd f(1,4) show ?thesis by (simp add: fl_inv_def timer_ok_def main_slots_def)
    qed
  qed
qed

lemma start_inv_fl:
  assumes "fl_inv w" and "fl_allowed (FlStart e has_fn alloc nested_ok) w"
  shows "fl_inv (snd (luafan_start e has_fn alloc nested_ok w))"
proof (cases "em_looping (fl_em w) \<or> \<not> has_fn")
  case True
  then show ?thesis using assms(1) fl_inv_log [OF assms(1) _ refl] fl_inv_em [OF assms(1)] enter_inv [of "fl_em w" e]
    by (auto simp: luafan_start_def event_mgr_is_looping_def fl_inv_def [of w])
next
  case False
  with assms(2) have r: "fl_main_ref w = None" and e: "ee_base e" by (auto simp: fl_allowed_def)
  have me: "fl_mainevent w = None" using assms(1) r by (auto simp: fl_inv_def)
  let ?em = "snd (event_mgr_init e (fl_em w))"
  obtain b em where b: "event_mgr_base e ?em = (b, em)" by (cases "event_mgr_base e ?em")
  have em: "em_inv em" "b \<noteq> None" using base_alloc(1) [OF _ b] init_inv event_mgr_base_some [OF e, of ?em] assms(1) b by (auto simp: fl_inv_def)
  have em': "em_inv (loop_enter e em)" using em(1) by (rule enter_inv)
  have "fst x \<noteq> Suc (fl_next w)" if "x \<in> set (fl_timers w)" for x using that assms(1) by (auto simp: fl_inv_def timer_ok_def)
  then show ?thesis using assms(1) False r me b em(2) em'
    by (cases alloc) (auto simp: luafan_start_def event_mgr_is_looping_def fl_ref_def drop_mainevent_def timer_new_def fl_inv_def timer_ok_def main_slots_def
      timer_slots_def timer_cos_def less_Suc_eq)
qed

lemma fl_reaches_inv: "fl_reaches w \<Longrightarrow> fl_inv w"
proof (induction rule: fl_reaches.induct)
  case fl_starts
  then show ?case by (simp add: fl_inv_def fl_start_def start_inv main_slots_def)
next
  case (fl_goes w x)
  have em: "em_inv (fl_em w)" using fl_goes.IH by (simp add: fl_inv_def)
  show ?case
  proof (cases x)
    case (FlSleep e alloc refused co)
    then show ?thesis using fl_goes sleep_inv by (simp add: fl_step_def fl_allowed_def)
  qed (use fl_goes start_inv_fl fl_fire_inv fl_inv_em [OF fl_goes.IH] em in
    \<open>auto simp: fl_step_def fl_allowed_def luafan_start_ends_def luafan_stop_def break_id loop_exit_inv em_step_inv\<close>)
qed

section \<open>Properties\<close>

text \<open>
  (C40) The event loop in orderly use. In every state no memory and no event base is used after it was freed; the slots of the registry that are taken are those of the function that waits to be run and of
  the coroutines that sleep, each with one pending timer; every function given to \<open>fan.loop\<close> is run at most once; and a timer that fires runs the function, or wakes
  its coroutine, and gives back its slot.
\<close>

theorem fan_loop_balanced:
  assumes "fl_reaches w"
  shows "\<not> fl_bad w \<and> \<not> em_bad (fl_em w)
     \<and> fl_registry w = main_slots w + sum_list (map timer_slots (fl_timers w)) \<and> fl_sleeping w = sum_list (map timer_cos (fl_timers w))
     \<and> (\<forall>x \<in> set (fl_timers w). ft_pending (snd x)) \<and> distinct (main_runs (fl_runs w))
     \<and> (\<forall>n t. map_of (fl_timers w) n = Some t \<and> em_looping (fl_em w) \<and> ft_base t = em_base (fl_em w) \<longrightarrow>
          (case ft_kind t of
             TmSleep co r \<Rightarrow> fl_step (FlFire n True) w =
               w\<lparr>fl_timers := AList.delete n (fl_timers w), fl_runs := fl_runs w @ [RunWakes co], fl_sleeping := fl_sleeping w - {#co#},
                 fl_registry := fl_registry w - {#FlSleepRef r#}\<rparr>
           | TmMain \<Rightarrow> \<exists>r. fl_main_ref w = Some r \<and> fl_runs (fl_step (FlFire n True) w) = fl_runs w @ [RunMain r]
               \<and> fl_registry (fl_step (FlFire n True) w) = fl_registry w - {#FlMainRef r#}))"
proof -
  have inv: "fl_inv w" using assms by (rule fl_reaches_inv)
  have fire: "case ft_kind t of
       TmSleep co r \<Rightarrow> fl_step (FlFire n True) w =
         w\<lparr>fl_timers := AList.delete n (fl_timers w), fl_runs := fl_runs w @ [RunWakes co], fl_sleeping := fl_sleeping w - {#co#},
           fl_registry := fl_registry w - {#FlSleepRef r#}\<rparr>
     | TmMain \<Rightarrow> \<exists>r. fl_main_ref w = Some r \<and> fl_runs (fl_step (FlFire n True) w) = fl_runs w @ [RunMain r]
         \<and> fl_registry (fl_step (FlFire n True) w) = fl_registry w - {#FlMainRef r#}"
    if t: "map_of (fl_timers w) n = Some t" "em_looping (fl_em w)" "ft_base t = em_base (fl_em w)" for n t
  proof (cases "ft_kind t")
    case TmMain
    show ?thesis by (rule fire_main [OF inv t TmMain]) (simp add: TmMain fl_step_def)
  next
    case (TmSleep co r)
    then show ?thesis using fire_sleep [OF inv t TmSleep] by (simp add: fl_step_def)
  qed
  then show ?thesis using inv unfolding fl_inv_def by (auto simp: timer_ok_def em_inv_def em_owned_def)
qed

definition loop_running :: fan_loop where
  "loop_running = fl_step (FlSleep sample_ee True None 5) (fl_step (FlStart sample_ee True True True) fl_start)"

theorem fan_loop_balanced_witness:
  "fl_reaches loop_running \<and> fl_runs (fl_step (FlFire 4 True) loop_running) = [RunWakes 5] \<and> fl_runs (fl_step (FlFire 2 True) loop_running) = [RunMain 1]"
proof -
  have r: "fl_reaches loop_running"
    unfolding loop_running_def by (intro fl_goes fl_starts) (simp_all add: fl_allowed_def sample_ee_def fl_start_def)
  have c: "map_of (fl_timers loop_running) 4 = Some \<lparr>ft_base = Some 1, ft_kind = TmSleep 5 3, ft_pending = True\<rparr>"
    "map_of (fl_timers loop_running) 2 = Some \<lparr>ft_base = Some 1, ft_kind = TmMain, ft_pending = True\<rparr>"
    "em_looping (fl_em loop_running) \<and> em_base (fl_em loop_running) = Some 1" "fl_runs loop_running = []" "fl_main_ref loop_running = Some 1"
    by code_simp+
  with fan_loop_balanced [OF r] r show ?thesis by (fastforce split: fl_kind.splits)
qed

text \<open>
  Outside orderly use: a loop that ended before its function was run leaves the slot of the function behind when the next is started, and the next call uses the timer that is
  left although its base may have been freed.
\<close>

lemma stale_main_ref_leaks:
  assumes "\<not> em_looping (fl_em w)" and "FlMainRef r \<in># fl_registry w" and "r < fl_next w"
  shows "FlMainRef r \<in># fl_registry (snd (luafan_start e True alloc ok w)) \<and> fl_main_ref (snd (luafan_start e True alloc ok w)) = Some (fl_next w)"
  using assms
  by (auto simp: luafan_start_def event_mgr_is_looping_def fl_ref_def drop_mainevent_def timer_free_def evtimer_del_def timer_new_def Let_def
      split: option.split prod.split)

lemma stale_mainevent_uses_freed_base:
  assumes "\<not> em_looping (fl_em w)" and "fl_mainevent w = Some n" and "map_of (fl_timers w) n = Some t" and "ft_base t = Some b" and "b \<notin> set (em_bases (fl_em w))"
  shows "fl_bad (snd (luafan_start e True alloc ok w))"
  using assms
  by (simp add: luafan_start_def event_mgr_is_looping_def fl_ref_def drop_mainevent_def timer_free_def evtimer_del_def timer_new_def update_conv' Let_def
      split: prod.split)

text \<open>
  A call of \<open>fan.sleep\<close> from the main thread raises an error and leaves its timer and its slot behind; when the timer fires the thread that made the call is resumed, although it
  does not sleep.
\<close>

definition sleep_refused :: fan_loop where
  "sleep_refused = fl_step (FlStart sample_ee False True True) (fl_step (FlSleep sample_ee True (Some ''attempt to yield from outside a coroutine'') 5) fl_start)"

lemma refused_sleeper_resumed:
  "fl_sleeping sleep_refused = {#}" "fl_runs (fl_step (FlFire 2 True) sleep_refused) = [RunWakes 5]"
  by code_simp+

end
