(* ===== verification/Evdns.thy ===== *)
theory Evdns
  imports Event_Mgr
begin

text \<open>
  DNS bases with servers of their own, \<open>src/evdns.c\<close>: an object is either a reference to the DNS base of the event manager or owns one that was made for it. The DNS bases made for
  objects are in an explicit store with the event base they are on and their servers; \<open>ew_bad\<close> records the use of one, or of an event base, that
  was freed. Which servers libevent accepts is a parameter.
\<close>

section \<open>State\<close>

datatype dns_ptr = DpNull | DpManager nat | DpCustom nat

record lua_evdns =
  ed_dnsbase :: dns_ptr
  ed_is_default :: bool

record dns_custom =
  dc_base :: nat
  dc_servers :: "bytes list"
  dc_suspended :: bool

record evdns_world =
  ew_em :: event_mgr
  ew_objs :: "(nat \<times> lua_evdns) list"
  ew_dns :: "(nat \<times> dns_custom) list"
  ew_arrays :: int
  ew_next :: nat
  ew_bad :: bool

text \<open>The argument: an element of a table that is no string and no number is None.\<close>

datatype dns_arg = DaNone | DaNil | DaString bytes | DaTable "bytes option list" | DaOther

datatype evdns_result = EdReturns nat | EdRaises string

text \<open>Which calls succeed: the new DNS base, and the servers it takes.\<close>

record evdns_env =
  en_em :: event_env
  en_new :: bool
  en_takes :: "bytes \<Rightarrow> bool"

section \<open>Operations\<close>

definition custom_new :: "nat option \<Rightarrow> bool \<Rightarrow> evdns_world \<Rightarrow> nat option \<times> evdns_world" where
  "custom_new b ok w =
     (case b of
        None \<Rightarrow> (None, w\<lparr>ew_bad := True\<rparr>)
      | Some b \<Rightarrow>
          let w = (if b \<in> set (em_bases (ew_em w)) then w else w\<lparr>ew_bad := True\<rparr>)
          in if ok then (Some (ew_next w), w\<lparr>ew_dns := ew_dns w @ [(ew_next w, \<lparr>dc_base = b, dc_servers = [], dc_suspended = False\<rparr>)], ew_next := ew_next w + 1\<rparr>)
             else (None, w))"

definition custom_upd :: "nat \<Rightarrow> (dns_custom \<Rightarrow> dns_custom) \<Rightarrow> evdns_world \<Rightarrow> evdns_world" where
  "custom_upd d f w =
     (case map_of (ew_dns w) d of
        Some c \<Rightarrow> w\<lparr>ew_dns := AList.update d (f c) (ew_dns w), ew_bad := (ew_bad w \<or> dc_base c \<notin> set (em_bases (ew_em w)))\<rparr>
      | None \<Rightarrow> w\<lparr>ew_bad := True\<rparr>)"

definition custom_free :: "nat \<Rightarrow> evdns_world \<Rightarrow> evdns_world" where
  "custom_free d w =
     (case map_of (ew_dns w) d of
        Some c \<Rightarrow> w\<lparr>ew_dns := AList.delete d (ew_dns w), ew_bad := (ew_bad w \<or> dc_base c \<notin> set (em_bases (ew_em w)))\<rparr>
      | None \<Rightarrow> w\<lparr>ew_bad := True\<rparr>)"

definition set_obj :: "nat \<Rightarrow> lua_evdns \<Rightarrow> evdns_world \<Rightarrow> evdns_world" where
  "set_obj i x w = w\<lparr>ew_objs := AList.update i x (ew_objs w)\<rparr>"

definition use_default :: "nat \<Rightarrow> evdns_world \<Rightarrow> evdns_world" where
  "use_default i w =
     set_obj i \<lparr>ed_dnsbase = (case event_mgr_dnsbase (ew_em w) of Some d \<Rightarrow> DpManager d | None \<Rightarrow> DpNull), ed_is_default = True\<rparr> w"

fun add_servers :: "evdns_env \<Rightarrow> nat \<Rightarrow> bytes option list \<Rightarrow> evdns_world \<Rightarrow> nat \<times> evdns_world" where
  "add_servers e d [] w = (0, w)"
| "add_servers e d (s # ss) w =
     (case s of
        Some b \<Rightarrow>
          if c_string b \<noteq> [] \<and> en_takes e (c_string b)
          then (case add_servers e d ss (custom_upd d (\<lambda>c. c\<lparr>dc_servers := dc_servers c @ [c_string b]\<rparr>) w) of (n, w) \<Rightarrow> (n + 1, w))
          else add_servers e d ss w
      | None \<Rightarrow> add_servers e d ss w)"

text \<open>The array of the servers is allocated unless a table is empty.\<close>

definition servers_of :: "dns_arg \<Rightarrow> bytes option list" where
  "servers_of a = (case a of DaString b \<Rightarrow> [Some b] | DaTable ss \<Rightarrow> ss | _ \<Rightarrow> [])"

definition array_free :: "bytes option list \<Rightarrow> evdns_world \<Rightarrow> evdns_world" where
  "array_free ss w = (if ss \<noteq> [] then w\<lparr>ew_arrays := ew_arrays w - 1\<rparr> else w)"

definition evdns_create :: "evdns_env \<Rightarrow> dns_arg \<Rightarrow> evdns_world \<Rightarrow> evdns_result \<times> evdns_world" where
  "evdns_create e a w =
     (let w = w\<lparr>ew_em := snd (event_mgr_init (en_em e) (ew_em w))\<rparr>
      in if a = DaOther then (EdRaises ''nameservers must be a string or table of strings'', w)
         else
           let i = ew_next w;
               w = w\<lparr>ew_objs := ew_objs w @ [(i, \<lparr>ed_dnsbase = DpNull, ed_is_default = False\<rparr>)], ew_next := i + 1\<rparr>
           in if a = DaNone \<or> a = DaNil then (EdReturns i, use_default i w)
              else
                let ss = servers_of a;
                    w = (if ss \<noteq> [] then w\<lparr>ew_arrays := ew_arrays w + 1\<rparr> else w)
                in case custom_new (event_mgr_base_current (ew_em w)) (en_new e) w of
                     (None, w) \<Rightarrow> (EdReturns i, use_default i (array_free ss w))
                   | (Some d, w) \<Rightarrow>
                       let w = set_obj i \<lparr>ed_dnsbase = DpCustom d, ed_is_default = False\<rparr> w;
                           w = custom_upd d (\<lambda>c. c\<lparr>dc_servers := [], dc_suspended := True\<rparr>) w;
                           (n, w) = add_servers e d ss w;
                           w = array_free ss w
                       in if n = 0 then (EdReturns i, use_default i (custom_free d w))
                          else (EdReturns i, custom_upd d (\<lambda>c. c\<lparr>dc_suspended := False\<rparr>) w))"

definition evdns_get_base :: "nat \<Rightarrow> evdns_world \<Rightarrow> dns_ptr" where
  "evdns_get_base i w = (case map_of (ew_objs w) i of Some x \<Rightarrow> ed_dnsbase x | None \<Rightarrow> DpNull)"

definition evdns_is_custom :: "nat \<Rightarrow> evdns_world \<Rightarrow> bool" where
  "evdns_is_custom i w = (case map_of (ew_objs w) i of Some x \<Rightarrow> \<not> ed_is_default x | None \<Rightarrow> False)"

definition evdns_tostring :: "nat \<Rightarrow> evdns_world \<Rightarrow> string" where
  "evdns_tostring i w = (case map_of (ew_objs w) i of Some x \<Rightarrow> if ed_is_default x then ''<evdns: default>'' else ''<evdns: custom>'' | None \<Rightarrow> '''')"

text \<open>The collector; the object is gone afterwards.\<close>

definition evdns_gc :: "nat \<Rightarrow> evdns_world \<Rightarrow> evdns_world" where
  "evdns_gc i w =
     (case map_of (ew_objs w) i of
        None \<Rightarrow> w
      | Some x \<Rightarrow>
          let w = (if ed_is_default x then w
                   else case ed_dnsbase x of DpCustom d \<Rightarrow> custom_free d w | DpManager d \<Rightarrow> w\<lparr>ew_em := evdns_base_free d (ew_em w)\<rparr> | DpNull \<Rightarrow> w)
          in w\<lparr>ew_objs := AList.delete i (ew_objs w)\<rparr>)"

text \<open>Another module resolves a name with the base of an object.\<close>

definition evdns_use :: "nat \<Rightarrow> evdns_world \<Rightarrow> evdns_world" where
  "evdns_use i w =
     (case evdns_get_base i w of
        DpNull \<Rightarrow> w
      | DpManager d \<Rightarrow> w\<lparr>ew_em := touch_dns d (ew_em w)\<rparr>
      | DpCustom d \<Rightarrow> custom_upd d (\<lambda>c. c) w)"

datatype evdns_event = EdCreate evdns_env dns_arg | EdGc nat | EdUse nat | EdOther em_event

definition evdns_step :: "evdns_event \<Rightarrow> evdns_world \<Rightarrow> evdns_world" where
  "evdns_step x w =
     (case x of
        EdCreate e a \<Rightarrow> snd (evdns_create e a w)
      | EdGc i \<Rightarrow> evdns_gc i w
      | EdUse i \<Rightarrow> evdns_use i w
      | EdOther x \<Rightarrow> w\<lparr>ew_em := em_step x (ew_em w)\<rparr>)"

definition evdns_start :: evdns_world where
  "evdns_start = \<lparr>ew_em = em_start, ew_objs = [], ew_dns = [], ew_arrays = 0, ew_next = 1, ew_bad = False\<rparr>"

text \<open>
  Orderly use: objects with a DNS base of their own are collected before the event base is freed, and an object for the base of the manager is not used any more
  once that base is another one.
\<close>

definition evdns_allowed :: "evdns_event \<Rightarrow> evdns_world \<Rightarrow> bool" where
  "evdns_allowed x w =
     (case x of
        EdCreate e a \<Rightarrow> ee_base (en_em e)
      | EdGc i \<Rightarrow> True
      | EdUse i \<Rightarrow> (\<forall>d. evdns_get_base i w = DpManager d \<longrightarrow> event_mgr_dnsbase (ew_em w) = Some d)
      | EdOther x \<Rightarrow> em_allowed x (ew_em w) \<and> (x \<in> {EmCleanup, EmLoopCleanup} \<longrightarrow> ew_dns w = []))"

inductive evdns_reaches :: "evdns_world \<Rightarrow> bool" where
  evdns_starts: "evdns_reaches evdns_start"
| evdns_goes: "evdns_reaches w \<Longrightarrow> evdns_allowed x w \<Longrightarrow> evdns_reaches (evdns_step x w)"

section \<open>Event bases that stay\<close>

lemma touch_bases [simp]: "em_bases (touch_base b w) = em_bases w" "em_bases (touch_dns d w) = em_bases w"
  by (simp_all add: touch_base_def touch_dns_def split: option.split)

lemma dns_bases [simp]: "em_bases (snd (evdns_base_new ok b w)) = em_bases w" "em_bases (evdns_base_free d w) = em_bases w"
  by (simp_all add: evdns_base_new_def evdns_base_free_def Let_def)

lemma new_bases: "set (em_bases w) \<subseteq> set (em_bases (snd (event_base_new ok w)))"
  by (auto simp: event_base_new_def)

lemma ensure_bases: "set (em_bases w) \<subseteq> set (em_bases (ensure_base e w))"
  using new_bases [of w "ee_base e"] by (auto simp: ensure_base_def split: option.split prod.split)

lemma init_bases: "set (em_bases w) \<subseteq> set (em_bases (snd (event_mgr_init e w)))"
  using ensure_bases [of w e] by (simp add: event_mgr_init_def evdns_base_new_def Let_def split: option.split)

lemma base_bases: "set (em_bases w) \<subseteq> set (em_bases (snd (event_mgr_base e w)))"
  using ensure_bases [of w e] init_bases [of "ensure_base e w" e] by (auto simp: event_mgr_base_def Let_def)

lemma upd_worker_bases [simp]: "em_bases (upd_worker i f w) = em_bases w"
  by (simp add: upd_worker_def)

lemma start_worker_bases: "set (em_bases w) \<subseteq> set (em_bases (snd (start_worker e i w)))"
  by (auto simp: start_worker_def event_base_new_def evdns_base_new_def Let_def split: prod.split option.split)

lemma start_workers_bases: "set (em_bases w) \<subseteq> set (em_bases (snd (start_workers e is w)))"
proof (induction "is" arbitrary: w)
  case (Cons i "is")
  obtain ok v where v: "start_worker e i w = (ok, v)" by (cases "start_worker e i w")
  with start_worker_bases [of w e i] Cons [of v] show ?case by (cases ok) auto
qed simp

lemma stop_worker_bases [simp]: "em_bases (stop_worker i w) = em_bases w"
  by (simp add: stop_worker_def Let_def split: option.split)

lemma exit_bases: "em_bases (loop_exit w) = em_bases w"
proof -
  have f: "em_bases (fold stop_worker is v) = em_bases v" for "is" v by (induction "is" arbitrary: v) simp_all
  show ?thesis
    by (simp add: loop_exit_def event_mgr_workers_stop_threads_def f cleanup_dnsbase_def cleanup_http_def cleanup_signal_events_def Let_def split: option.split)
qed

lemma em_step_bases:
  assumes "x \<notin> {EmCleanup, EmLoopCleanup}"
  shows "set (em_bases w) \<subseteq> set (em_bases (em_step x w))"
proof (cases x)
  case (EmWorkers e n)
  have "set (em_bases (w\<lparr>em_num := k\<rparr>)) \<subseteq> set (em_bases (snd (start_workers e is (w\<lparr>em_num := k\<rparr>))))" for k "is" by (rule start_workers_bases)
  then show ?thesis by (simp add: EmWorkers em_step_def event_mgr_workers_init_def Let_def)
next
  case (EmWorkerBase e i)
  then show ?thesis using base_bases [of w e]
    by (auto simp: em_step_def event_mgr_worker_base_def split: option.split prod.split)
next
  case (EmHttp e)
  then show ?thesis using base_bases [of w e] by (auto simp: em_step_def split: prod.split)
next
  case (EmEnter e)
  then show ?thesis using init_bases [of w e] by (auto simp: em_step_def loop_enter_def Let_def split: option.split)
qed (use assms base_bases in \<open>auto simp: em_step_def exit_bases event_mgr_next_worker_def signal_cb_def event_mgr_break_def split: option.split\<close>)

section \<open>Creating an object\<close>

definition accepted :: "evdns_env \<Rightarrow> bytes option list \<Rightarrow> bytes list" where
  "accepted e ss = concat (map (\<lambda>s. case s of Some b \<Rightarrow> if c_string b \<noteq> [] \<and> en_takes e (c_string b) then [c_string b] else [] | None \<Rightarrow> []) ss)"

lemma accepted_Nil [simp]: "accepted e [] = []"
  by (simp add: accepted_def)

lemma add_servers_eq:
  assumes "map_of (ew_dns w) d = Some c" and "dc_base c \<in> set (em_bases (ew_em w))"
  shows "add_servers e d ss w = (length (accepted e ss), w\<lparr>ew_dns := AList.update d (c\<lparr>dc_servers := dc_servers c @ accepted e ss\<rparr>) (ew_dns w)\<rparr>)"
  using assms
proof (induction ss arbitrary: w c)
  case Nil
  then show ?case by (simp add: accepted_def AList.update_triv)
next
  case (Cons s ss)
  have u: "custom_upd d f w = w\<lparr>ew_dns := AList.update d (f c) (ew_dns w)\<rparr>" for f using Cons.prems by (simp add: custom_upd_def)
  show ?case
  proof (cases "\<exists>b. s = Some b \<and> c_string b \<noteq> [] \<and> en_takes e (c_string b)")
    case True
    then obtain b where b: "s = Some b" "c_string b \<noteq> []" "en_takes e (c_string b)" by auto
    let ?c = "c\<lparr>dc_servers := dc_servers c @ [c_string b]\<rparr>"
    have "add_servers e d ss (w\<lparr>ew_dns := AList.update d ?c (ew_dns w)\<rparr>) =
        (length (accepted e ss), w\<lparr>ew_dns := AList.update d (?c\<lparr>dc_servers := dc_servers ?c @ accepted e ss\<rparr>) (ew_dns w)\<rparr>)"
      using Cons.IH [of "w\<lparr>ew_dns := AList.update d ?c (ew_dns w)\<rparr>" ?c] Cons.prems by (simp add: update_conv')
    with b show ?thesis by (simp add: u accepted_def)
  next
    case False
    then show ?thesis using Cons by (auto simp: accepted_def split: option.split)
  qed
qed

lemma update_fresh: "i \<notin> fst ` set xs \<Longrightarrow> AList.update i x (xs @ [(i, y)]) = xs @ [(i, x)]"
  by (induction xs) auto

lemma delete_fresh: "i \<notin> fst ` set xs \<Longrightarrow> AList.delete i (xs @ [(i, y)]) = xs"
  by (induction xs) auto

text \<open>What creating an object does, in the two cases that return one.\<close>

definition makes_custom :: "evdns_env \<Rightarrow> dns_arg \<Rightarrow> bool" where
  "makes_custom e a \<longleftrightarrow> a \<notin> {DaNone, DaNil, DaOther} \<and> en_new e \<and> accepted e (servers_of a) \<noteq> []"

definition default_obj :: "event_mgr \<Rightarrow> lua_evdns" where
  "default_obj em = \<lparr>ed_dnsbase = (case event_mgr_dnsbase em of Some d \<Rightarrow> DpManager d | None \<Rightarrow> DpNull), ed_is_default = True\<rparr>"

definition obj_dns :: "nat \<times> lua_evdns \<Rightarrow> nat multiset" where
  "obj_dns x = (case ed_dnsbase (snd x) of DpCustom d \<Rightarrow> {#d#} | _ \<Rightarrow> {#})"

definition ed_inv :: "evdns_world \<Rightarrow> bool" where
  "ed_inv w \<longleftrightarrow>
     em_inv (ew_em w) \<and> \<not> ew_bad w \<and> ew_arrays w = 0 \<and> distinct (map fst (ew_objs w)) \<and> distinct (map fst (ew_dns w))
     \<and> (\<forall>x \<in> set (ew_objs w). fst x < ew_next w \<and> (ed_is_default (snd x) \<longleftrightarrow> (\<nexists>d. ed_dnsbase (snd x) = DpCustom d)))
     \<and> (\<forall>x \<in> set (ew_dns w). fst x < ew_next w \<and> dc_base (snd x) \<in> set (em_bases (ew_em w)) \<and> dc_servers (snd x) \<noteq> [] \<and> \<not> dc_suspended (snd x))
     \<and> mset (map fst (ew_dns w)) = sum_list (map obj_dns (ew_objs w))"

lemma create_effect:
  assumes "ed_inv w" and "ee_base (en_em e)" and "a \<noteq> DaOther"
  defines "em \<equiv> snd (event_mgr_init (en_em e) (ew_em w))" and "i \<equiv> ew_next w"
  shows "makes_custom e a \<Longrightarrow> \<exists>b. em_base em = Some b \<and> evdns_create e a w =
      (EdReturns i, w\<lparr>ew_em := em, ew_objs := ew_objs w @ [(i, \<lparr>ed_dnsbase = DpCustom (i + 1), ed_is_default = False\<rparr>)],
         ew_dns := ew_dns w @ [(i + 1, \<lparr>dc_base = b, dc_servers = accepted e (servers_of a), dc_suspended = False\<rparr>)], ew_next := i + 2\<rparr>)"
    and "\<not> makes_custom e a \<Longrightarrow> \<exists>k \<ge> i + 1. evdns_create e a w =
      (EdReturns i, w\<lparr>ew_em := em, ew_objs := ew_objs w @ [(i, default_obj em)], ew_next := k\<rparr>)"
proof -
  have em: "em_inv em" using assms(1) by (simp add: em_def ed_inv_def init_inv)
  have "em_base em \<noteq> None"
  proof (cases "em_initialized (ew_em w)")
    case True
    then show ?thesis using assms(1) by (auto simp: em_def event_mgr_init_def ed_inv_def em_inv_def em_state_def)
  next
    case False
    have "em_base (ensure_base (en_em e) (ew_em w)) \<noteq> None" using assms(2) by (auto simp: ensure_base_def event_base_new_def split: option.split)
    with False show ?thesis by (auto simp: em_def event_mgr_init_def evdns_base_new_def touch_base_def Let_def split: option.split)
  qed
  then obtain b where b: "em_base em = Some b" by auto
  have live: "b \<in> set (em_bases em)" using em b owner_alloc by (auto simp: em_inv_def)
  have bad: "\<not> ew_bad w" "ew_arrays w = 0" using assms(1) by (simp_all add: ed_inv_def)
  have fo: "i \<notin> fst ` set (ew_objs w)" and fd: "Suc i \<notin> fst ` set (ew_dns w)" using assms(1) by (auto simp: ed_inv_def i_def)
  have m: "map_of (ew_dns w @ [(Suc i, c)]) (Suc i) = Some c" for c using fd by (simp add: map_add_def map_of_eq_None_iff [THEN iffD2])
  note defs = evdns_create_def custom_new_def event_mgr_base_current_def set_obj_def use_default_def default_obj_def array_free_def Let_def
  show "\<exists>b. em_base em = Some b \<and> evdns_create e a w =
      (EdReturns i, w\<lparr>ew_em := em, ew_objs := ew_objs w @ [(i, \<lparr>ed_dnsbase = DpCustom (i + 1), ed_is_default = False\<rparr>)],
         ew_dns := ew_dns w @ [(i + 1, \<lparr>dc_base = b, dc_servers = accepted e (servers_of a), dc_suspended = False\<rparr>)], ew_next := i + 2\<rparr>)"
    if c: "makes_custom e a"
  proof -
    have "servers_of a \<noteq> []" using c by (auto simp: makes_custom_def)
    then show ?thesis using c assms(3) b live bad fo fd m
      by (simp add: defs makes_custom_def em_def [symmetric] i_def [symmetric] update_fresh custom_upd_def add_servers_eq update_conv')
  qed
  show "\<exists>k \<ge> i + 1. evdns_create e a w = (EdReturns i, w\<lparr>ew_em := em, ew_objs := ew_objs w @ [(i, default_obj em)], ew_next := k\<rparr>)"
    if c: "\<not> makes_custom e a"
  proof -
    consider "a = DaNone \<or> a = DaNil" | "a \<notin> {DaNone, DaNil}" "\<not> en_new e" | "a \<notin> {DaNone, DaNil}" "en_new e" "accepted e (servers_of a) = []"
      using c assms(3) by (auto simp: makes_custom_def)
    then show ?thesis
    proof cases
      case 1
      then show ?thesis using assms(3) fo by (intro exI [of _ "Suc i"]) (simp add: defs em_def [symmetric] i_def [symmetric] update_fresh)
    next
      case 2
      then show ?thesis using assms(3) fo b live bad by (intro exI [of _ "Suc i"]) (simp add: defs em_def [symmetric] i_def [symmetric] update_fresh)
    next
      case 3
      then show ?thesis using assms(3) fo fd b live bad m
        by (intro exI [of _ "Suc (Suc i)"])
          (simp add: defs em_def [symmetric] i_def [symmetric] update_fresh delete_fresh custom_upd_def custom_free_def add_servers_eq)
    qed
  qed
qed

section \<open>Invariant\<close>

lemma obj_sum:
  "distinct (map fst xs) \<Longrightarrow> map_of xs i = Some x \<Longrightarrow> sum_list (map obj_dns xs) = obj_dns (i, x) + sum_list (map obj_dns (AList.delete i xs))"
proof (induction xs)
  case (Cons y xs)
  show ?case
  proof (cases "fst y = i")
    case True
    with Cons.prems have "i \<notin> fst ` set xs" by auto
    with True Cons.prems show ?thesis by (cases y) auto
  next
    case False
    with Cons show ?thesis by (cases y) (auto simp: add_ac)
  qed
qed simp

lemma mset_delete: "distinct (map fst xs) \<Longrightarrow> mset (map fst (AList.delete d xs)) = mset (map fst xs) - {#d#}"
proof (induction xs)
  case (Cons y xs)
  show ?case
  proof (cases "fst y = d")
    case True
    with Cons.prems have "d \<notin> fst ` set xs" by auto
    with True show ?thesis by (cases y) simp
  next
    case False
    with Cons show ?thesis by (cases y) simp
  qed
qed simp

lemma delete_mem: "x \<in> set (AList.delete n xs) \<Longrightarrow> x \<in> set xs"
  by (auto simp: AList.delete_eq)

lemma custom_listed:
  assumes "ed_inv w" and "map_of (ew_objs w) i = Some x" and "ed_dnsbase x = DpCustom d"
  obtains c where "map_of (ew_dns w) d = Some c" and "dc_base c \<in> set (em_bases (ew_em w))"
proof -
  have "mset (map fst (ew_dns w)) = obj_dns (i, x) + sum_list (map obj_dns (AList.delete i (ew_objs w)))"
    using assms(1) obj_sum [OF _ assms(2)] by (simp add: ed_inv_def)
  then have "d \<in># mset (map fst (ew_dns w))" using assms(3) by (simp add: obj_dns_def)
  then obtain c where c: "map_of (ew_dns w) d = Some c" by (metis map_of_eq_None_iff not_Some_eq set_map set_mset_mset)
  then have "dc_base c \<in> set (em_bases (ew_em w))" using assms(1) map_of_SomeD [OF c] by (auto simp: ed_inv_def)
  with c that show ?thesis by blast
qed

lemma gc_inv:
  assumes "ed_inv w"
  shows "ed_inv (evdns_gc i w)"
proof (cases "map_of (ew_objs w) i")
  case None
  then show ?thesis using assms by (simp add: evdns_gc_def)
next
  case (Some x)
  have d: "distinct (map fst (ew_objs w))" "distinct (map fst (ew_dns w))" using assms by (simp_all add: ed_inv_def)
  have x: "ed_is_default x \<longleftrightarrow> (\<nexists>d. ed_dnsbase x = DpCustom d)" using assms map_of_SomeD [OF Some] by (auto simp: ed_inv_def)
  note sums = obj_sum [OF d(1) Some]
  show ?thesis
  proof (cases "\<exists>d. ed_dnsbase x = DpCustom d")
    case False
    then have "obj_dns (i, x) = {#}" by (simp add: obj_dns_def split: dns_ptr.split)
    with False show ?thesis using assms Some x sums d by (auto simp: evdns_gc_def ed_inv_def AList.distinct_delete dest: delete_mem)
  next
    case True
    then obtain n where n: "ed_dnsbase x = DpCustom n" by auto
    obtain c where c: "map_of (ew_dns w) n = Some c" "dc_base c \<in> set (em_bases (ew_em w))" by (rule custom_listed [OF assms Some n])
    have "obj_dns (i, x) = {#n#}" by (simp add: obj_dns_def n)
    with n c x show ?thesis using assms Some sums d mset_delete [OF d(2), of n]
      by (auto simp: evdns_gc_def custom_free_def ed_inv_def AList.distinct_delete dest: delete_mem)
  qed
qed

lemma ed_inv_em: "ed_inv w \<Longrightarrow> em_inv em \<Longrightarrow> set (em_bases (ew_em w)) \<subseteq> set (em_bases em) \<or> ew_dns w = [] \<Longrightarrow> ed_inv (w\<lparr>ew_em := em\<rparr>)"
  by (auto simp: ed_inv_def)

lemma create_inv:
  assumes "ed_inv w" and "ee_base (en_em e)"
  shows "ed_inv (snd (evdns_create e a w))"
proof -
  let ?em = "snd (event_mgr_init (en_em e) (ew_em w))"
  have em: "em_inv ?em" "set (em_bases (ew_em w)) \<subseteq> set (em_bases ?em)" using assms(1) init_inv init_bases by (auto simp: ed_inv_def)
  have v: "ed_inv (w\<lparr>ew_em := ?em\<rparr>)" using assms(1) em by (intro ed_inv_em) auto
  consider "a = DaOther" | "a \<noteq> DaOther" "makes_custom e a" | "a \<noteq> DaOther" "\<not> makes_custom e a" by blast
  then show ?thesis
  proof cases
    case 1
    with v show ?thesis by (simp add: evdns_create_def)
  next
    case 2
    then obtain b where b: "em_base ?em = Some b" and c: "evdns_create e a w =
      (EdReturns (ew_next w), w\<lparr>ew_em := ?em, ew_objs := ew_objs w @ [(ew_next w, \<lparr>ed_dnsbase = DpCustom (ew_next w + 1), ed_is_default = False\<rparr>)],
         ew_dns := ew_dns w @ [(ew_next w + 1, \<lparr>dc_base = b, dc_servers = accepted e (servers_of a), dc_suspended = False\<rparr>)], ew_next := ew_next w + 2\<rparr>)"
      using create_effect(1) [OF assms 2] by auto
    have "b \<in> set (em_bases ?em)" using em(1) b owner_alloc by (auto simp: em_inv_def)
    moreover have "accepted e (servers_of a) \<noteq> []" using 2 by (simp add: makes_custom_def)
    ultimately show ?thesis using v c by (fastforce simp: ed_inv_def obj_dns_def)
  next
    case 3
    then obtain k where k: "ew_next w + 1 \<le> k" "evdns_create e a w = (EdReturns (ew_next w), w\<lparr>ew_em := ?em, ew_objs := ew_objs w @ [(ew_next w, default_obj ?em)], ew_next := k\<rparr>)"
      using create_effect(2) [OF assms 3] by auto
    have "obj_dns (ew_next w, default_obj ?em) = {#}" by (simp add: obj_dns_def default_obj_def split: option.split)
    moreover have "ed_is_default (default_obj ?em)" "\<And>d. ed_dnsbase (default_obj ?em) \<noteq> DpCustom d" by (simp_all add: default_obj_def split: option.split)
    ultimately show ?thesis using v k by (fastforce simp: ed_inv_def)
  qed
qed

lemma use_inv:
  assumes "ed_inv w" and "evdns_allowed (EdUse i) w"
  shows "ed_inv (evdns_use i w)"
proof (cases "evdns_get_base i w")
  case (DpCustom d)
  then obtain x where "map_of (ew_objs w) i = Some x" "ed_dnsbase x = DpCustom d" by (auto simp: evdns_get_base_def split: option.splits)
  then obtain c where "map_of (ew_dns w) d = Some c" "dc_base c \<in> set (em_bases (ew_em w))" by (rule custom_listed [OF assms(1)])
  with DpCustom assms(1) show ?thesis by (simp add: evdns_use_def custom_upd_def AList.update_triv)
next
  case (DpManager d)
  with assms have "em_dnsbase (ew_em w) = Some d" "em_inv (ew_em w)" by (auto simp: evdns_allowed_def event_mgr_dnsbase_def ed_inv_def)
  then have "em_inv (touch_dns d (ew_em w))" using em_step_inv [of "ew_em w" EmResolve] by (simp add: em_step_def event_mgr_dnsbase_def em_allowed_def)
  with DpManager assms(1) show ?thesis by (simp add: evdns_use_def ed_inv_em)
qed (use assms in \<open>simp add: evdns_use_def\<close>)

lemma evdns_reaches_inv: "evdns_reaches w \<Longrightarrow> ed_inv w"
proof (induction rule: evdns_reaches.induct)
  case evdns_starts
  then show ?case by (simp add: ed_inv_def evdns_start_def start_inv)
next
  case (evdns_goes w x)
  have em: "em_inv (ew_em w)" using evdns_goes.IH by (simp add: ed_inv_def)
  show ?case
  proof (cases x)
    case (EdOther y)
    with evdns_goes.hyps have "em_allowed y (ew_em w)" "y \<in> {EmCleanup, EmLoopCleanup} \<longrightarrow> ew_dns w = []" by (simp_all add: evdns_allowed_def)
    then have "ed_inv (w\<lparr>ew_em := em_step y (ew_em w)\<rparr>)"
      using ed_inv_em [OF evdns_goes.IH em_step_inv [OF em]] em_step_bases [of y "ew_em w"] by blast
    with EdOther show ?thesis by (simp add: evdns_step_def)
  qed (use evdns_goes create_inv gc_inv use_inv in \<open>auto simp: evdns_step_def evdns_allowed_def\<close>)
qed

text \<open>What an object without servers of its own has to refer to.\<close>

definition manager_base :: "event_mgr \<Rightarrow> dns_ptr" where
  "manager_base em = (case em_dnsbase em of Some d \<Rightarrow> DpManager d | None \<Rightarrow> DpNull)"

text \<open>
  (C12) DNS bases of objects. In every state that orderly use leads to, the DNS bases made for objects are exactly those of the objects that are alive, each is owned by one object, is on a live
  event base, has a server and answers; none is used after it was freed, the array of servers is always given back, and the base of the manager is not
  freed by an object. A new object has a DNS base of its own with exactly the servers that libevent accepts, in order; if there are none it is marked as default and refers to
  the DNS base that the manager has then (to none if the manager could not make one).
\<close>

theorem evdns_owned:
  assumes "evdns_reaches w"
  shows "\<not> ew_bad w \<and> \<not> em_bad (ew_em w) \<and> ew_arrays w = 0 \<and> mset (map fst (ew_dns w)) = sum_list (map obj_dns (ew_objs w))
     \<and> (\<forall>x \<in> set (ew_dns w). dc_base (snd x) \<in> set (em_bases (ew_em w)) \<and> dc_servers (snd x) \<noteq> [] \<and> \<not> dc_suspended (snd x))
     \<and> (\<forall>e a. ee_base (en_em e) \<and> a \<noteq> DaOther \<longrightarrow>
          (\<exists>w'. evdns_create e a w = (EdReturns (ew_next w), w')
             \<and> (if makes_custom e a
                then \<exists>d c. evdns_is_custom (ew_next w) w' \<and> evdns_get_base (ew_next w) w' = DpCustom d \<and> map_of (ew_dns w') d = Some c \<and> dc_servers c = accepted e (servers_of a)
                else \<not> evdns_is_custom (ew_next w) w' \<and> evdns_get_base (ew_next w) w' = manager_base (ew_em w') \<and> ew_dns w' = ew_dns w)))"
proof -
  have inv: "ed_inv w" using assms by (rule evdns_reaches_inv)
  have fo: "ew_next w \<notin> fst ` set (ew_objs w)" and fd: "ew_next w + 1 \<notin> fst ` set (ew_dns w)" using inv by (auto simp: ed_inv_def)
  have m: "map_of (xs @ [(k, y)]) k = Some y" if "k \<notin> fst ` set xs" for xs :: "(nat \<times> 'z) list" and k y
    using that by (simp add: map_add_def map_of_eq_None_iff [THEN iffD2])
  have "\<exists>w'. evdns_create e a w = (EdReturns (ew_next w), w')
      \<and> (if makes_custom e a
         then \<exists>d c. evdns_is_custom (ew_next w) w' \<and> evdns_get_base (ew_next w) w' = DpCustom d \<and> map_of (ew_dns w') d = Some c \<and> dc_servers c = accepted e (servers_of a)
         else \<not> evdns_is_custom (ew_next w) w' \<and> evdns_get_base (ew_next w) w' = manager_base (ew_em w') \<and> ew_dns w' = ew_dns w)" if e: "ee_base (en_em e)" "a \<noteq> DaOther" for e a
    using create_effect [OF inv e] m [OF fo] m [OF fd]
    by (cases "makes_custom e a") (fastforce simp: evdns_get_base_def evdns_is_custom_def default_obj_def manager_base_def event_mgr_dnsbase_def)+
  with inv show ?thesis unfolding ed_inv_def em_inv_def em_owned_def by blast
qed

definition sample_en :: evdns_env where
  "sample_en = \<lparr>en_em = sample_ee, en_new = True, en_takes = (\<lambda>b. b = [0x38])\<rparr>"

theorem evdns_owned_witness:
  "let w = evdns_step (EdCreate sample_en (DaTable [Some [0x38], None, Some [0x39]])) evdns_start
   in evdns_reaches w \<and> map fst (ew_dns w) = [2] \<and> \<not> ew_bad w \<and> \<not> em_bad (ew_em w)
      \<and> (\<exists>w'. evdns_create sample_en (DaString [0x39]) w = (EdReturns 3, w') \<and> \<not> evdns_is_custom 3 w' \<and> evdns_get_base 3 w' = manager_base (ew_em w') \<and> manager_base (ew_em w') \<noteq> DpNull \<and> ew_dns w' = ew_dns w)"
proof -
  let ?w = "evdns_step (EdCreate sample_en (DaTable [Some [0x38], None, Some [0x39]])) evdns_start"
  have r: "evdns_reaches ?w" by (intro evdns_goes evdns_starts) (simp add: evdns_allowed_def sample_en_def sample_ee_def)
  have c: "map fst (ew_dns ?w) = [2]" "ew_next ?w = 3" "ee_base (en_em sample_en)" "\<not> makes_custom sample_en (DaString [0x39])"
    "manager_base (ew_em (snd (evdns_create sample_en (DaString [0x39]) ?w))) \<noteq> DpNull" by code_simp+
  have "\<exists>w'. evdns_create sample_en (DaString [0x39]) ?w = (EdReturns (ew_next ?w), w') \<and> (if makes_custom sample_en (DaString [0x39])
      then \<exists>d c. evdns_is_custom (ew_next ?w) w' \<and> evdns_get_base (ew_next ?w) w' = DpCustom d \<and> map_of (ew_dns w') d = Some c \<and> dc_servers c = accepted sample_en (servers_of (DaString [0x39]))
      else \<not> evdns_is_custom (ew_next ?w) w' \<and> evdns_get_base (ew_next ?w) w' = manager_base (ew_em w') \<and> ew_dns w' = ew_dns ?w)"
    using evdns_owned [OF r] c(3) by blast
  then show ?thesis using evdns_owned [OF r] r c(1,2,4,5) unfolding Let_def by auto
qed

text \<open>
  Outside orderly use: the DNS base of the manager is freed when the loop ends, and an object that refers to it still does; and an object that is collected after the event
  base was freed frees a DNS base whose event base is gone.
\<close>

lemma default_dangles_after_loop:
  "em_bad (ew_em (fold evdns_step [EdCreate sample_en DaNone, EdOther (EmEnter sample_ee), EdOther EmExit, EdUse 1] evdns_start))"
  by code_simp

lemma custom_collected_too_late:
  "ew_bad (fold evdns_step [EdCreate sample_en (DaString [0x38]), EdOther EmCleanup, EdGc 1] evdns_start)"
  by code_simp

end
