(* ===== verification/Fan_System.thy ===== *)
theory Fan_System
  imports C_Numbers
begin

text \<open>
  The functions of \<open>src/luafan_posix.c\<close> that call the operating system, with the conversions of arguments and results, the processor masks, the program name and the list of network interfaces, and the
  helpers of \<open>src/utlua.c\<close>: time values, the weak table and the certificates of a server. What the operating system and OpenSSL answer is a parameter.
\<close>

section \<open>Results\<close>

datatype sys_value = SvNil | SvBool bool | SvInt int | SvText string

text \<open>A system call answers with its result and the text of the error.\<close>

type_synonym answer = "int \<times> string"

definition luafan_push_result :: "answer \<Rightarrow> sys_value list" where
  "luafan_push_result r = (if fst r = - 1 then [SvBool False, SvText (snd r)] else [SvInt (fst r)])"

text \<open>Arguments that are missing have a default; \<open>pid_t\<close> and \<open>int\<close> have 32 bits.\<close>

definition optinteger :: "int option \<Rightarrow> int \<Rightarrow> int" where
  "optinteger a d = (case a of Some z \<Rightarrow> z | None \<Rightarrow> d)"

definition luafan_fork :: "answer \<Rightarrow> sys_value list" where
  "luafan_fork r = luafan_push_result r"

definition luafan_getpid :: "int \<Rightarrow> sys_value list" where
  "luafan_getpid pid = [SvInt pid]"

definition luafan_getdtablesize :: "int \<Rightarrow> sys_value list" where
  "luafan_getdtablesize n = [SvInt n]"

definition luafan_setpgid :: "(int \<Rightarrow> int \<Rightarrow> answer) \<Rightarrow> int option \<Rightarrow> int option \<Rightarrow> sys_value list" where
  "luafan_setpgid call a b = luafan_push_result (call (c_int (optinteger a 0)) (c_int (optinteger b 0)))"

definition O_RDWR :: int where "O_RDWR = 2"

definition luafan_open :: "(string \<Rightarrow> int \<Rightarrow> int \<Rightarrow> answer) \<Rightarrow> string \<Rightarrow> int option \<Rightarrow> int option \<Rightarrow> sys_value list" where
  "luafan_open call path flags mode = luafan_push_result (call path (c_int (optinteger flags O_RDWR)) (optinteger mode 0))"

definition luafan_close :: "(int \<Rightarrow> answer) \<Rightarrow> int \<Rightarrow> sys_value list" where
  "luafan_close call fd = luafan_push_result (call (c_int fd))"

definition luafan_setsid :: "answer \<Rightarrow> sys_value list" where
  "luafan_setsid r = luafan_push_result r"

definition luafan_getpgid :: "(int \<Rightarrow> answer) \<Rightarrow> int option \<Rightarrow> sys_value list" where
  "luafan_getpgid call a = luafan_push_result (call (c_int (optinteger a 0)))"

definition SIGTERM_number :: int where "SIGTERM_number = 15"

definition luafan_kill :: "(int \<Rightarrow> int \<Rightarrow> answer) \<Rightarrow> int \<Rightarrow> int option \<Rightarrow> sys_value list" where
  "luafan_kill call pid sig =
     (let r = call (c_int pid) (c_int (optinteger sig SIGTERM_number)) in if fst r \<noteq> 0 then [SvNil, SvText (snd r)] else [SvBool True])"

text \<open>The call also gives the status of the process.\<close>

definition luafan_waitpid :: "(int \<Rightarrow> int \<Rightarrow> answer \<times> int) \<Rightarrow> int option \<Rightarrow> int option \<Rightarrow> sys_value list" where
  "luafan_waitpid call pid options =
     (let (r, st) = call (c_int (optinteger pid (- 1))) (c_int (optinteger options (- 1)))
      in if fst r = - 1 then [SvNil, SvText (snd r)] else [SvInt (fst r), SvInt st])"

section \<open>Processors\<close>

text \<open>
  The mask of the kernel is a set of processors below \<open>CPU_SETSIZE\<close>. Shifting by 64 or more is undefined (None).
\<close>

definition CPU_SETSIZE :: nat where "CPU_SETSIZE = 1024"

fun mask_loop :: "nat set \<Rightarrow> nat list \<Rightarrow> u64 \<Rightarrow> u64 option" where
  "mask_loop S [] m = Some m"
| "mask_loop S (i # is) m = (if i \<in> S \<and> i < CPU_SETSIZE then if 64 \<le> i then None else mask_loop S is (m OR push_bit i 1) else mask_loop S is m)"

definition luafan_getaffinity :: "nat set + string \<Rightarrow> nat \<Rightarrow> sys_value list option" where
  "luafan_getaffinity r cpu_count =
     (case r of
        Inr err \<Rightarrow> Some [SvNil, SvText err]
      | Inl S \<Rightarrow> map_option (\<lambda>m. [SvInt (sint m)]) (mask_loop S [0..<cpu_count] 0))"

fun set_loop :: "u64 \<Rightarrow> nat list \<Rightarrow> nat set \<Rightarrow> nat set option" where
  "set_loop m [] S = Some S"
| "set_loop m (i # is) S = (if 64 \<le> i then None else set_loop m is (if m AND push_bit i 1 \<noteq> 0 then insert i S else S))"

text \<open>The set that is given to the kernel, and its answer.\<close>

definition affinity_set :: "int \<Rightarrow> nat \<Rightarrow> nat set option" where
  "affinity_set z cpu_count = set_loop (word_of_int z) [0..<cpu_count] {}"

definition luafan_setaffinity :: "(nat set \<Rightarrow> answer) \<Rightarrow> int \<Rightarrow> nat \<Rightarrow> sys_value list option" where
  "luafan_setaffinity call z cpu_count =
     map_option (\<lambda>S. let r = call S in if fst r = - 1 then [SvNil, SvText (''sched_setaffinity: '' @ snd r)] else [SvBool True]) (affinity_set z cpu_count)"

definition luafan_getcpucount :: "int \<Rightarrow> sys_value list" where
  "luafan_getcpucount n = [SvInt n]"

section \<open>Program name\<close>

text \<open>
  \<open>__progname\<close> points into the area of the arguments: \<open>mem\<close> is the memory from there to the end of the arguments. The result is that memory after
  the call, or None if the call writes behind its end.
\<close>

definition luafan_setprogname :: "bytes \<Rightarrow> bytes \<Rightarrow> bytes option" where
  "luafan_setprogname name mem =
     (if length mem < 128 then None
      else let n = (if length name < 127 then length name else 127);
               src = c_string (take n name)
           in Some (src @ replicate (128 - length src) 0 @ drop 128 mem))"

section \<open>Network interfaces\<close>

datatype family = AF_INET | AF_INET6 | AF_OTHER

record sock_addr =
  sa_family :: family
  sa_data :: bytes

record ifaddr =
  ifa_name :: "string option"
  ifa_addr :: "sock_addr option"
  ifa_netmask :: "sock_addr option"
  ifa_dstaddr :: "sock_addr option"

text \<open>\<open>getnameinfo\<close> with the length of the address that is given to it; 16 and 28 are the sizes of the two address structures.\<close>

definition interface_fields :: "(sock_addr \<Rightarrow> nat \<Rightarrow> string option) \<Rightarrow> ifaddr \<Rightarrow> (string \<times> string) list" where
  "interface_fields nameinfo a =
     (let field = (\<lambda>k v. case v of Some s \<Rightarrow> [(k, s)] | None \<Rightarrow> []);
          len6 = (\<lambda>s. if sa_family s = AF_INET6 then 28 else 16);
          info = (\<lambda>k s. case s of Some s \<Rightarrow> field k (nameinfo s (len6 s)) | None \<Rightarrow> [])
      in field ''name'' (ifa_name a)
         @ (case ifa_addr a of
              Some s \<Rightarrow> if sa_family s \<in> {AF_INET, AF_INET6}
                        then field ''host'' (nameinfo s (if sa_family s = AF_INET then 16 else 28))
                             @ [(''type'', if sa_family s = AF_INET then ''inet'' else ''inet6'')]
                        else []
            | None \<Rightarrow> [])
         @ info ''netmask'' (ifa_netmask a) @ info ''dst'' (ifa_dstaddr a))"

definition luafan_getinterfaces :: "(sock_addr \<Rightarrow> nat \<Rightarrow> string option) \<Rightarrow> ifaddr list + string \<Rightarrow> ((string \<times> string) list list) + string" where
  "luafan_getinterfaces nameinfo r = (case r of Inr err \<Rightarrow> Inr err | Inl as \<Rightarrow> Inl (map (interface_fields nameinfo) as))"

section \<open>Time values\<close>

text \<open>Arithmetic on finite doubles: the exact result, rounded to the nearest double.\<close>

definition dbl_signed :: "u64 \<Rightarrow> int" where
  "dbl_signed d = (if dbl_negative d then - int (dbl_num d) else int (dbl_num d))"

definition dbl_ratio :: "int \<Rightarrow> nat \<Rightarrow> u64" where
  "dbl_ratio z den = dbl_round (z < 0) (nat \<bar>z\<bar>) den"

definition dbl_add :: "u64 \<Rightarrow> u64 \<Rightarrow> u64" where
  "dbl_add a b = dbl_ratio (dbl_signed a * int (dbl_den b) + dbl_signed b * int (dbl_den a)) (dbl_den a * dbl_den b)"

definition dbl_sub :: "u64 \<Rightarrow> u64 \<Rightarrow> u64" where
  "dbl_sub a b = dbl_ratio (dbl_signed a * int (dbl_den b) - dbl_signed b * int (dbl_den a)) (dbl_den a * dbl_den b)"

definition dbl_mul :: "u64 \<Rightarrow> u64 \<Rightarrow> u64" where
  "dbl_mul a b = dbl_ratio (dbl_signed a * dbl_signed b) (dbl_den a * dbl_den b)"

text \<open>The conversion to an integer cuts off the fraction.\<close>

definition dbl_trunc :: "u64 \<Rightarrow> int" where
  "dbl_trunc d = (if dbl_negative d then - int (dbl_num d div dbl_den d) else int (dbl_num d div dbl_den d))"

definition usec_of :: "u64 \<Rightarrow> int" where
  "usec_of f = dbl_trunc (dbl_add (dbl_mul (dbl_mul f (dbl_ratio 1000 1)) (dbl_ratio 1000 1)) (dbl_ratio 1 2))"

definition d2tv :: "u64 \<Rightarrow> int \<times> int" where
  "d2tv x = (let sec = dbl_trunc x in (sec, usec_of (dbl_sub x (dbl_ratio sec 1))))"

section \<open>Weak table\<close>

text \<open>The table of objects by the address of their connection; the collector removes the objects that nothing else refers to.\<close>

definition utlua_store_self_in_weak_table :: "nat \<Rightarrow> 'obj \<Rightarrow> (nat \<rightharpoonup> 'obj) option \<Rightarrow> (nat \<rightharpoonup> 'obj) option" where
  "utlua_store_self_in_weak_table p x t = Some ((case t of Some m \<Rightarrow> m | None \<Rightarrow> Map.empty)(p \<mapsto> x))"

definition utlua_push_self_from_weak_table :: "nat \<Rightarrow> (nat \<rightharpoonup> 'obj) option \<Rightarrow> 'obj option" where
  "utlua_push_self_from_weak_table p t = (case t of Some m \<Rightarrow> m p | None \<Rightarrow> None)"

definition weak_collect :: "'obj set \<Rightarrow> (nat \<rightharpoonup> 'obj) option \<Rightarrow> (nat \<rightharpoonup> 'obj) option" where
  "weak_collect alive t = map_option (\<lambda>m p. case m p of Some x \<Rightarrow> if x \<in> alive then Some x else None | None \<Rightarrow> None) t"

section \<open>Certificates\<close>

text \<open>The first call of OpenSSL that fails raises an error with its name and the last error of the library.\<close>

definition server_setup_certs :: "(string \<Rightarrow> bool) \<Rightarrow> string \<Rightarrow> string option" where
  "server_setup_certs ok err =
     (let die = (\<lambda>f. Some (f @ '' failed: '' @ err))
      in if \<not> ok ''SSL_CTX_use_certificate_chain_file'' then die ''SSL_CTX_use_certificate_chain_file''
         else if \<not> ok ''SSL_CTX_use_PrivateKey_file'' then die ''SSL_CTX_use_PrivateKey_file''
         else if \<not> ok ''SSL_CTX_check_private_key'' then die ''SSL_CTX_check_private_key''
         else None)"

section \<open>Properties\<close>

lemma set_loop_eq: "\<forall>i \<in> set is. i < 64 \<Longrightarrow> set_loop m is S = Some (S \<union> {i \<in> set is. bit m i})"
proof (induction "is" arbitrary: S)
  case (Cons i "is")
  have "m AND push_bit i 1 \<noteq> 0 \<longleftrightarrow> bit m i" by (simp add: push_bit_of_1 and_exp_eq_0_iff_not_bit)
  with Cons show ?case by auto
qed simp

lemma mask_loop_bits:
  "\<forall>i \<in> set is. i < 64 \<Longrightarrow> \<exists>r. mask_loop S is m = Some r \<and> (\<forall>j < 64. bit r j \<longleftrightarrow> bit m j \<or> j \<in> set is \<and> j \<in> S)"
proof (induction "is" arbitrary: m)
  case (Cons i "is")
  then obtain r where "mask_loop S is (if i \<in> S then m OR push_bit i 1 else m) = Some r"
    "\<forall>j < 64. bit r j \<longleftrightarrow> bit (if i \<in> S then m OR push_bit i 1 else m) j \<or> j \<in> set is \<and> j \<in> S" by fastforce
  with Cons.prems show ?case by (auto simp: CPU_SETSIZE_def bit_or_iff push_bit_of_1 bit_exp_iff)
qed simp

text \<open>
  Processor masks. On a machine with at most 64 processors, \<open>setaffinity\<close> gives the kernel exactly the processors whose bit is set, and \<open>getaffinity\<close> on that set returns the mask, cut to the processors
  that exist.
\<close>

lemma affinity_roundtrip:
  assumes "cpu_count \<le> 64"
  shows "\<exists>S. affinity_set z cpu_count = Some S \<and> S = {i. i < cpu_count \<and> bit z i}
     \<and> luafan_getaffinity (Inl S) cpu_count = Some [SvInt (sint (take_bit cpu_count (word_of_int z :: u64)))]"
proof -
  let ?S = "{i. i < cpu_count \<and> bit z i}"
  have "bit (word_of_int z :: u64) i \<longleftrightarrow> bit z i" if "i < cpu_count" for i using that assms by (simp add: bit_word_of_int_iff)
  then have s: "affinity_set z cpu_count = Some ?S" using assms by (auto simp: affinity_set_def set_loop_eq)
  obtain r where r: "mask_loop ?S [0..<cpu_count] 0 = Some r" "\<forall>j < 64. bit r j \<longleftrightarrow> j < cpu_count \<and> bit z j"
    using mask_loop_bits [of "[0..<cpu_count]" ?S 0] assms by auto
  have "r = take_bit cpu_count (word_of_int z)" using r(2) by (intro bit_word_eqI) (auto simp: bit_take_bit_iff bit_word_of_int_iff)
  with s r(1) show ?thesis by (simp add: luafan_getaffinity_def)
qed

lemma affinity_roundtrip_witness: "\<exists>S. affinity_set 5 4 = Some S \<and> luafan_getaffinity (Inl S) 4 = Some [SvInt 5]"
  using affinity_roundtrip [of 4 5] by (simp add: take_bit_eq_mask mask_eq_exp_minus_1)

text \<open>With more processors both functions shift too far; and the default options of \<open>waitpid\<close> are -1, which is no valid set of flags.\<close>

lemma affinity_many: "64 < cpu_count \<Longrightarrow> affinity_set z cpu_count = None"
proof -
  have "64 \<in> set is \<Longrightarrow> set_loop m is S = None" for m "is" S by (induction "is" arbitrary: S) auto
  then show "64 < cpu_count \<Longrightarrow> ?thesis" by (simp add: affinity_set_def)
qed

lemma waitpid_default: "luafan_waitpid call pid None = luafan_waitpid call pid (Some (- 1))"
  by (simp add: luafan_waitpid_def optinteger_def)

text \<open>The program name is set in full up to 127 bytes, whatever was there; a shorter area is overrun.\<close>

lemma takeWhile_take_comm: "takeWhile P (take n xs) = take n (takeWhile P xs)"
  by (induction xs arbitrary: n) (auto simp: take_Cons split: nat.split)

lemma setprogname_reads:
  assumes "luafan_setprogname name mem = Some mem'"
  shows "c_string mem' = take 127 (c_string name)" and "length mem' = length mem" and "drop 128 mem' = drop 128 mem"
proof -
  let ?n = "if length name < 127 then length name else 127"
  let ?src = "c_string (take ?n name)"
  have t: "take ?n name = take 127 name" by simp
  have src: "?src = take 127 (c_string name)" unfolding t by (simp add: c_string_def takeWhile_take_comm)
  have l: "length ?src \<le> 127" unfolding src by simp
  have m: "mem' = ?src @ replicate (128 - length ?src) 0 @ drop 128 mem" "128 \<le> length mem" using assms by (auto simp: luafan_setprogname_def Let_def split: if_splits)
  have "\<forall>c \<in> set ?src. c \<noteq> 0" by (auto simp: c_string_def dest: set_takeWhileD)
  moreover obtain k where "128 - length ?src = Suc k" using l by (cases "128 - length ?src") auto
  ultimately have "c_string mem' = ?src" unfolding m(1) by (simp add: c_string_def [of "_ @ _"] takeWhile_append2)
  with src show "c_string mem' = take 127 (c_string name)" by simp
  show "length mem' = length mem" "drop 128 mem' = drop 128 mem" using l m by simp_all
qed

lemma setprogname_overruns: "length mem < 128 \<Longrightarrow> luafan_setprogname name mem = None"
  by (simp add: luafan_setprogname_def)

text \<open>The weak table finds an object that is alive until another is stored for the same connection.\<close>

lemma weak_table_lookup:
  "utlua_push_self_from_weak_table p (weak_collect alive (utlua_store_self_in_weak_table q x t)) =
     (if p = q then if x \<in> alive then Some x else None else utlua_push_self_from_weak_table p (weak_collect alive t))"
  by (auto simp: utlua_push_self_from_weak_table_def utlua_store_self_in_weak_table_def weak_collect_def split: option.split)

text \<open>Whole seconds are exact.\<close>

lemma dbl_round_zero [simp]: "dbl_round False 0 den = 0"
  by (simp add: dbl_round_def)

lemma dbl_zero_fields: "dbl_num 0 = 0" "dbl_den 0 = 2 ^ 1074" "\<not> dbl_negative 0"
  by (simp_all add: dbl_num_def dbl_den_def dbl_mant_def dbl_scale_def dbl_expo_def dbl_frac_def dbl_negative_def)

lemma round_div_scale: "0 < c \<Longrightarrow> round_div (c * a) (c * b) = round_div a b"
proof -
  assume c: "0 < c"
  have "2 * (c * (a mod b)) < c * b \<longleftrightarrow> 2 * (a mod b) < b" "c * b < 2 * (c * (a mod b)) \<longleftrightarrow> b < 2 * (a mod b)"
    using c nat_mult_less_cancel1 [OF c, of "2 * (a mod b)" b] nat_mult_less_cancel1 [OF c, of b "2 * (a mod b)"] by (simp_all add: ac_simps)
  with c show ?thesis by (simp add: round_div_def mult_mod_right [symmetric] Let_def)
qed

lemma binary_expo_scale: "0 < c \<Longrightarrow> 0 < d \<Longrightarrow> binary_expo (c * n) (c * d) = binary_expo n d"
proof -
  assume c: "0 < c" and d: "0 < d"
  have "(c * d - 1) div c = d - 1"
  proof -
    obtain c' d' where e: "c = Suc c'" "d = Suc d'" using c d by (cases c; cases d) auto
    have "c * d - 1 = c' + c * d'" using e by simp
    moreover have "(c' + c * d') div c = d'" using e by (simp only: div_mult_self2) simp
    ultimately show ?thesis using e by simp
  qed
  then have "(c * d - 1) div (c * n) = (d - 1) div n" by (simp add: div_mult2_eq)
  with c show ?thesis by (simp add: binary_expo_def)
qed

lemma dbl_round_scale: "0 < c \<Longrightarrow> 0 < d \<Longrightarrow> dbl_round neg (c * n) (c * d) = dbl_round neg n d"
proof -
  assume c: "0 < c" and d: "0 < d"
  have "round_div (c * n * 2 ^ k) (c * d * 2 ^ l) = round_div (n * 2 ^ k) (d * 2 ^ l)" for k l
    using round_div_scale [OF c, of "n * 2 ^ k" "d * 2 ^ l"] by (simp add: mult.assoc)
  with binary_expo_scale [OF c d, of n] c show ?thesis by (simp add: dbl_round_def)
qed

lemma usec_of_zero: "usec_of 0 = 0"
proof -
  let ?h = "0x3fe0000000000000 :: u64"
  have z: "dbl_mul 0 y = 0" for y by (simp add: dbl_mul_def dbl_ratio_def dbl_signed_def dbl_zero_fields)
  have r: "dbl_round False 1 2 = ?h" by (simp add: dbl_round_def binary_expo_def round_div_def floor_log2.simps Let_def)
  then have h: "dbl_ratio 1 2 = ?h" by (simp add: dbl_ratio_def)
  have hf: "dbl_num ?h = 2 ^ 52" "dbl_den ?h = 2 ^ 53" "\<not> dbl_negative ?h"
    by (simp_all add: dbl_num_def dbl_den_def dbl_mant_def dbl_scale_def dbl_expo_def dbl_frac_def dbl_negative_def)
  have s: "dbl_signed 0 = 0" "dbl_signed ?h = int (2 ^ 52)" by (simp_all add: dbl_signed_def dbl_zero_fields hf)
  have p: "(2::nat) ^ 53 = 2 ^ 52 * 2" by simp
  have "dbl_add 0 ?h = dbl_ratio (int (2 ^ 1074 * (2 ^ 52 * 1))) (2 ^ 1074 * (2 ^ 52 * 2))"
    unfolding dbl_add_def s hf dbl_zero_fields p by (simp only: mult_zero_left add_0 of_nat_mult of_nat_1 mult.commute mult_1_right mult_1_left)
  also have "\<dots> = dbl_round False (2 ^ 1074 * (2 ^ 52 * 1)) (2 ^ 1074 * (2 ^ 52 * 2))"
    unfolding dbl_ratio_def by (simp only: of_nat_less_0_iff nat_int abs_of_nat)
  also have "\<dots> = ?h" unfolding r [symmetric] by (subst dbl_round_scale, simp, simp)+ simp
  finally show ?thesis by (simp add: usec_of_def z h dbl_trunc_def hf)
qed

text \<open>Time values of whole seconds are exact, for some three million years.\<close>

lemma d2tv_whole:
  assumes "n < 10 ^ 14"
  shows "d2tv (dbl_of_nat n) = (int n, 0)"
proof (cases "n = 0")
  case True
  then have "dbl_of_nat n = 0" by (simp add: dbl_of_nat_def)
  moreover have "dbl_trunc 0 = 0" by (simp add: dbl_trunc_def dbl_zero_fields)
  moreover have "dbl_sub 0 0 = 0" by (simp add: dbl_sub_def dbl_ratio_def dbl_signed_def dbl_zero_fields)
  ultimately show ?thesis using True usec_of_zero by (simp add: d2tv_def dbl_ratio_def Let_def)
next
  case False
  then have z: "int n \<noteq> 0" "\<bar>int n\<bar> < 10 ^ 14" using assms by simp_all
  have o: "dbl_of_int (int n) = dbl_of_nat n" by (simp add: dbl_of_int_def)
  obtain k where k: "dbl_mant (dbl_of_nat n) = n * 2 ^ k" "dbl_scale (dbl_of_nat n) + k = 1075" "\<not> dbl_negative (dbl_of_nat n)"
    by (rule dbl_of_int_fields [OF z]) (simp add: o)
  have "dbl_scale (dbl_of_nat n) - 1075 = 0" "1075 - dbl_scale (dbl_of_nat n) = k" using k(2) by simp_all
  then have "dbl_num (dbl_of_nat n) = n * 2 ^ k" "dbl_den (dbl_of_nat n) = 2 ^ k" using k(1) by (simp_all add: dbl_num_def dbl_den_def)
  then have t: "dbl_trunc (dbl_of_nat n) = int n" using k(3) by (simp add: dbl_trunc_def)
  have "dbl_ratio (int n) 1 = dbl_of_nat n" using False assms dbl_round_nat [of n False] by (simp add: dbl_ratio_def)
  moreover have "dbl_sub x x = 0" for x by (simp add: dbl_sub_def dbl_ratio_def)
  ultimately show ?thesis using t usec_of_zero by (simp add: d2tv_def Let_def)
qed

text \<open>A fraction just below one second is rounded up to a million microseconds, which is not carried over to the seconds.\<close>

lemma d2tv_no_carry: "d2tv 0x3fefffffffffffff = (0, 1000000)"
proof -
  let ?x = "0x3fefffffffffffff :: u64"
  note fields = dbl_num_def dbl_den_def dbl_mant_def dbl_scale_def dbl_expo_def dbl_frac_def dbl_negative_def
  note round = dbl_ratio_def dbl_round_def binary_expo_def round_div_def floor_log2.simps Let_def
  have x: "dbl_num ?x = 2 ^ 53 - 1" "dbl_den ?x = 2 ^ 53" "\<not> dbl_negative ?x" by (simp_all add: fields)
  have t: "dbl_trunc ?x = 0" by (simp add: dbl_trunc_def x)
  have k: "dbl_ratio 1000 1 = 0x408f400000000000" by (simp add: round)
  have kf: "dbl_num 0x408f400000000000 = 1000 * 2 ^ 43" "dbl_den 0x408f400000000000 = 2 ^ 43" "\<not> dbl_negative 0x408f400000000000" by (simp_all add: fields)
  have a: "dbl_mul ?x 0x408f400000000000 = 0x408f3fffffffffff" by (simp add: dbl_mul_def dbl_signed_def x kf round)
  have af: "dbl_num 0x408f3fffffffffff = 8796093022207999" "dbl_den 0x408f3fffffffffff = 2 ^ 43" "\<not> dbl_negative 0x408f3fffffffffff" by (simp_all add: fields)
  have b: "dbl_mul 0x408f3fffffffffff 0x408f400000000000 = 0x412e847fffffffff" by (simp add: dbl_mul_def dbl_signed_def af kf round)
  have bf: "dbl_num 0x412e847fffffffff = 8589934591999999" "dbl_den 0x412e847fffffffff = 2 ^ 33" "\<not> dbl_negative 0x412e847fffffffff" by (simp_all add: fields)
  have h: "dbl_ratio 1 2 = 0x3fe0000000000000" by (simp add: round)
  have hf: "dbl_num 0x3fe0000000000000 = 2 ^ 52" "dbl_den 0x3fe0000000000000 = 2 ^ 53" "\<not> dbl_negative 0x3fe0000000000000" by (simp_all add: fields)
  have c: "dbl_add 0x412e847fffffffff 0x3fe0000000000000 = 0x412e8480ffffffff" by (simp add: dbl_add_def dbl_signed_def bf hf round)
  have cf: "dbl_num 0x412e8480ffffffff = 8589938886967295" "dbl_den 0x412e8480ffffffff = 2 ^ 33" "\<not> dbl_negative 0x412e8480ffffffff" by (simp_all add: fields)
  have u: "usec_of ?x = 1000000" unfolding usec_of_def k h a b c by (simp add: dbl_trunc_def cf)
  have s: "dbl_signed 0 = 0" "dbl_signed ?x = int (2 ^ 53 - 1)" by (simp_all add: dbl_signed_def dbl_zero_fields x)
  have "dbl_sub ?x 0 = dbl_ratio (int (2 ^ 1074 * (2 ^ 53 - 1))) (2 ^ 1074 * 2 ^ 53)"
    unfolding dbl_sub_def s x dbl_zero_fields by (simp only: mult_zero_left diff_zero of_nat_mult mult.commute)
  also have "\<dots> = dbl_round False (2 ^ 1074 * (2 ^ 53 - 1)) (2 ^ 1074 * 2 ^ 53)"
    unfolding dbl_ratio_def by (simp only: of_nat_less_0_iff nat_int abs_of_nat)
  also have "\<dots> = dbl_round False (2 ^ 53 - 1) (2 ^ 53)" by (rule dbl_round_scale) simp_all
  also have "\<dots> = ?x" by (simp add: round)
  finally have "dbl_sub ?x (dbl_ratio 0 1) = ?x" by (simp add: dbl_ratio_def)
  with t u show ?thesis by (simp add: d2tv_def)
qed

end
