(* ===== verification/Spec2Isabelle.thy ===== *)
theory Spec2Isabelle
  imports Bytearray Stream Lua_Values C_Numbers Objectbuf Objectbuf_Roundtrip Objectbuf_Safety Json Json_Encode Json_Decode
    Ws_Frame Ws_Queue Httpd Websocket Ws_Safety Ws_Delivery Httpd_Service
    Tcpd_Config Tcpd Tcpd_Safety Tcpd_Race Tcpd_Server Tcpd_Ssl Udpd_Dest Udpd Udpd_Safety Udpd_Make
    Http_Header Http Http_Inflight Http_Safety Http_Body Http_Sockets Event_Mgr Fifo Popen Fan_Text Json_Utf8 Ref_Tracker
    Mariadb Mariadb_Values Fan_Loop Evdns Fan_System
begin

text \<open>
  \<^bold>\<open>Verification of the C core of luafan.\<close>

  luafan is a Lua library for network programs. Its C core (\<open>src/src\<close>) sits between Lua, libevent, OpenSSL and libcurl:
  Lua code calls C functions on userdata objects, libevent calls back into C, and C resumes Lua coroutines. This
  development models the parts of the core that have logic of their own and proves what makes them correct.

  \<^bold>\<open>Parts of the program and their theories.\<close>

  \<^item> \<open>Prelude\<close>: sizes with 64-bit wrap-around, memory blocks with partial access, the allocator, little- and big-endian
    numbers, the result type of functions that may raise an error, and the interfaces that several components share:
    \<open>safe_run\<close> (operations that stay defined under an invariant), \<open>element_codec\<close> (an encoder and its decoder), and
    \<open>bounded_fifo\<close> (a queue that drops what does not fit).
  \<^item> \<open>Bytearray\<close> (\<open>bytearray.c\<close>): the growable buffer under all serialisers. Record \<open>BYTEARRAY\<close>, one definition per C function,
    None for an access outside the allocation. Shown: capacity computation, safety of operation sequences, append and
    compaction, and the stale mark that \<open>bytearray_empty\<close> leaves.
  \<^item> \<open>Stream\<close> (\<open>stream_ffi.c\<close>, \<open>stream.c\<close>): typed items on a buffer, with the interfaces \<open>byte_source\<close> and \<open>byte_sink\<close> for getters and
    adders. Shown: the round trip of any sequence of items, and what an incomplete item leaves behind.
  \<^item> \<open>Lua_Values\<close>, \<open>C_Numbers\<close>: Lua values and heaps of tables; doubles as bit patterns, \<open>strtod\<close> and \<open>%.14g\<close>.
  \<^item> \<open>Objectbuf\<close>, \<open>Objectbuf_Roundtrip\<close>, \<open>Objectbuf_Safety\<close> (\<open>objectbuf.c\<close>): the serialiser of object graphs. Shown: termination and
    completeness of the collection phase, the format, the round trip up to isomorphism of heaps, safety of the decoder on
    arbitrary input, and the two inputs on which it fails.
  \<^item> \<open>Json\<close>, \<open>Json_Encode\<close>, \<open>Json_Decode\<close> (\<open>json.c\<close>): encoder and recursive descent parser. Shown: totality of both, the contract of
    the output buffer, and the round trip of abstract JSON values.
  \<^item> \<open>Ws_Frame\<close>, \<open>Ws_Queue\<close>, \<open>Websocket\<close>, \<open>Ws_Safety\<close>, \<open>Ws_Delivery\<close> (\<open>httpd_websocket.c\<close>): frames, the queue of received frames on
    a store of nodes, the methods and callbacks of a WebSocket connection. Shown: the parser against the encoding of RFC
    6455, refinement of the queue by a list, the invariant of all reachable states, ordered delivery for every split of
    the input, and the connections that are never freed.
  \<^item> \<open>Httpd\<close>, \<open>Httpd_Service\<close> (\<open>httpd.c\<close>, \<open>httpd_request.c\<close>, \<open>httpd_metrics.c\<close>): requests, replies, parameters, server objects, metrics.
    Shown: the order of calls to libevent, bodies, parameters, and what the metrics count.
  \<^item> \<open>Tcpd_Config\<close>, \<open>Tcpd\<close>, \<open>Tcpd_Safety\<close>, \<open>Tcpd_Server\<close> (\<open>tcpd_config.c\<close>, \<open>tcpd_error.c\<close>, \<open>conn_config.h\<close>, \<open>tcpd.c\<close>,
    \<open>tcpd_event.c\<close>, \<open>tcpd_server.c\<close>): TCP clients, servers and accepted connections. Shown: release of every resource exactly once
    even when callbacks close the connection they run for, the order of callbacks, complete delivery of the input, and the
    use of a destroyed mutex after a close.
  \<^item> \<open>Tcpd_Race\<close> (\<open>tcpd.c\<close>, \<open>tcpd_event.c\<close>): the accesses of any number of threads to the bufferevent of a connection, inside and outside
    \<open>buf_mutex\<close>, as interleaved steps. Shown: nothing is used after it was freed or freed twice, provided that libevent keeps a
    bufferevent until its callbacks are done; that the mutex alone is not enough for that; and the null pointer that the event callback may
    read.
  \<^item> \<open>Tcpd_Ssl\<close> (\<open>tcpd_ssl.c\<close>): SSL contexts, their cache and retain counts. Shown: a context that a connection holds is alive and
    counted; the settings that the cache does not distinguish.
  \<^item> \<open>Udpd_Dest\<close>, \<open>Udpd\<close>, \<open>Udpd_Safety\<close>, \<open>Udpd_Make\<close> (\<open>udpd.c\<close> and the other \<open>udpd_*.c\<close>): destinations, UDP connections, DNS requests that are
    answered at once or later, and the creation of an object. Shown: descriptors, events and registry slots are balanced in
    every reachable state, and a datagram arrives with its content and the address of its sender.
  \<^item> \<open>Http_Header\<close>, \<open>Http\<close>, \<open>Http_Inflight\<close>, \<open>Http_Safety\<close>, \<open>Http_Body\<close>, \<open>Http_Sockets\<close> (\<open>http.c\<close>): the HTTP client on libcurl: headers, building a
    request, the doubly linked list of requests in flight, callbacks, bodies, sockets and timers. Shown: the list, the store and
    the registry agree in every reachable state, bodies arrive complete and in order, and every watched socket has one record and
    one event.
  \<^item> \<open>Event_Mgr\<close>, \<open>Fan_Loop\<close>, \<open>Evdns\<close> (\<open>event_mgr.c\<close>, \<open>luafan.c\<close>, \<open>evdns.c\<close>): event bases and workers, \<open>fan.loop\<close> and \<open>fan.sleep\<close> on them,
    and DNS bases. Shown: ownership of bases, timers and slots in orderly use, the choice of workers, which DNS base an
    object refers to, and what goes wrong outside orderly use.
  \<^item> \<open>Fifo\<close>, \<open>Popen\<close> (\<open>fifo.c\<close>, \<open>popen.c\<close>): named pipes and child processes. Shown: descriptors, events, slots and children are
    balanced, the order of callbacks, the report of the exit of a child, and its environment.
  \<^item> \<open>Fan_Text\<close>, \<open>Json_Utf8\<close>, \<open>Fan_System\<close>, \<open>Ref_Tracker\<close> (\<open>luafan.c\<close>, \<open>luafan_posix.c\<close>, \<open>utlua.c\<close>, \<open>thread_tracker.c\<close>): hexadecimal text and UTF-8
    against an independent definition of it, what \<open>json.c\<close> does to UTF-8, process functions, times and certificates, and the debug
    counters as a refinement of two sets.
  \<^item> \<open>Mariadb\<close>, \<open>Mariadb_Values\<close> (\<open>luamariadb.c\<close>, \<open>mariadb/*.c\<close>): the operations of the database binding as continuations of the
    non-blocking client library, and the values that pass through bindings and buffers. Shown: in orderly use every waiting coroutine is
    anchored and resumed once, the connection that is never closed, what parameters the library gets, and that results fit
    their buffers.

  \<^bold>\<open>How the parts interact.\<close> \<open>Event_Mgr\<close> owns the event bases that the connections, pipes, timers and DNS bases are created on. \<open>Bytearray\<close> carries
  \<open>Stream\<close>, \<open>Objectbuf\<close>, the input of \<open>Tcpd\<close> and the bodies of \<open>Http\<close>. \<open>Tcpd_Ssl\<close> counts the connections of \<open>Tcpd\<close>; \<open>Evdns\<close> gives \<open>Udpd\<close> and \<open>Tcpd\<close> their resolver;
  \<open>Websocket\<close> continues a request of \<open>Httpd\<close>. What Lua code does between two calls is an arbitrary sequence of the methods of the object.

  \<^bold>\<open>How the model corresponds to the code.\<close> A C struct is a record with one field per C field that is read; a C
  function is a definition of the same name, composed as the code composes them, with every early return as a branch.
  Integers have the width of the code where they can overflow (\<open>u8\<close> to \<open>u64\<close>, \<open>size_add\<close>, \<open>c_int\<close>). Undefined behaviour is
  explicit: None, or a flag of the state that is never cleared (\<open>tw_bad_access\<close>, \<open>tw_dead_mutex\<close>). Errors raised with
  \<open>luaL_error\<close> are values. A Lua registry is the list of the slots in use; a heap of Lua tables is a list of association lists.
  An evbuffer is a list of bytes. A Lua coroutine is the finite sequence of calls it makes on the object between two
  resumes, so that every theorem about callbacks holds for every such program. The theorems hold for every allocator
  unless they assume \<open>roomy\<close> (no request fails).

  \<^bold>\<open>Parameters.\<close> libevent, libcurl, OpenSSL, the MariaDB client library, the kernel (sockets, pipes, processes, files), SHA-1, name
  resolution and the length operator of Lua tables are arguments of the definitions that use them; the properties hold for all their
  results, or name the documented behaviour they need as hypotheses: in \<open>Tcpd_Race\<close> the parameter \<open>kept\<close> says that libevent keeps a
  bufferevent until its callbacks are done, and \<open>bound_bytes\<close> in \<open>Mariadb_Values\<close> reads a \<open>MYSQL_BIND\<close> as the client library documents it. Where a property
  assumes orderly use (\<open>em_allowed\<close>, \<open>fl_allowed\<close>, \<open>evdns_allowed\<close> and the like) the condition is a definition, and lemmas show what happens without it. The
  model is that of a 64-bit Linux build with OpenSSL 1.1.0 or later and Lua 5.2 or later.

  \<^bold>\<open>Bounds and fuel.\<close> Buffers are at most 2^62 bytes, which no 64-bit machine exceeds, so that the capacity computation
  does not wrap. The JSON parser runs with fuel \<open>2 * length + 2\<close>, and \<open>json_decode_total\<close> shows that it never runs out. The
  collection phase of \<open>objectbuf\<close> recurses at most once per table and gets a depth of one more than the number of tables, which
  \<open>packer_total\<close> shows to be enough. The loop over the hash part of a decoded table has no bound of its own: it is a partial
  function whose value None stands for not returning, and \<open>objectbuf_decode_safe\<close> shows when it returns. Retain counts are exact below 2^31 connections.

  \<^bold>\<open>Not modelled.\<close> \<open>luasql.c\<close> and the registration of modules and metatables, which keep no state; \<open>gettime\<close>, \<open>gettop\<close> and the constants of
  \<open>luafan.c\<close>; \<open>escape_string\<close> of the database binding; log output; the lock of the Lua state, which is empty in the
  default build; code for Lua 5.1, for OpenSSL before 1.1.0 and for other systems than Linux (but for the name servers of Apple systems in
  \<open>http.c\<close>); and the Lua modules on top.
\<close>

section \<open>Across components\<close>

text \<open>
  A value that is encoded as JSON, sent as the payload of a text frame, and followed by anything, is received whole by the frame parser, and what the parser delivers decodes to
  an equal value in any heap.
\<close>

lemma json_over_websocket:
  assumes "roomy al" and "is_border rl" and "rep 0 h v t"
  shows "\<exists>s. jtext t s \<and> (length s < 2 ^ 63 \<longrightarrow> json_encode al rl h v = Some (Inr s)
    \<and> (\<exists>bytes frame p k v'. websocket_create_frame True 1 (Some s) (length s) True = Some bytes
         \<and> websocket_parse_frame al (bytes @ rest) = ParsedFrame frame rest \<and> fr_payload frame = Some p
         \<and> json_decode json_null h' (LStr p) = Some (Inr (h' @ k, v')) \<and> rep (length h') (h' @ k) v' t))"
proof -
  obtain s where s: "jtext t s" "length s < 2 ^ 63 \<longrightarrow> json_encode al rl h v = Some (Inr s)" using json_encode_text [OF assms] by blast
  have "websocket_create_frame True 1 (Some s) (length s) True = Some (rfc_frame True 1 None s)" if "length s < 2 ^ 63"
    using create_rfc(1) [of s 1 True] that by simp
  moreover have "websocket_parse_frame al (rfc_frame True 1 None s @ rest) = ParsedFrame (frame_of True 1 None s) rest" if "length s < 2 ^ 63"
    using parse_rfc [of 1 None s al True rest] assms(1) that by (simp add: roomy_def)
  moreover have "fr_payload (frame_of True 1 None s) = Some s" using text_starts [OF s(1)] by (auto simp: frame_of_def)
  ultimately show ?thesis using s json_decode_text [OF s(1), of h'] by metis
qed

end
